(* ===== verification/Prelude.thy ===== *)
theory Prelude
  imports Main "HOL-Library.Word" "HOL-Library.Multiset" "HOL-Library.Monad_Syntax"
begin

unbundle bit_operations_syntax

text \<open>
  Shared vocabulary of the development.

  \<^item> Machine integers of the C sources: \<open>u8\<close>, \<open>u16\<close>, \<open>u32\<close>, \<open>u64\<close> are words of that width,
    so \<open>+\<close>, \<open>-\<close> and \<open>*\<close> wrap as unsigned arithmetic does in C.  \<open>size_t\<close> values are \<open>nat\<close>;
    where the source can wrap a \<open>size_t\<close> subtraction it is written with \<open>size_sub\<close> (LP64).
  \<^item> Undefined behaviour is the value \<open>None\<close> of the option monad: reads and writes outside
    an object are checked, so a theorem that an operation returns \<open>Some\<close> is a memory-safety
    theorem.
  \<^item> Big-endian byte I/O (\<open>wr16\<close>, \<open>wr32\<close>, \<open>rd16\<close>, \<open>rd32\<close> of \<open>netchan.c\<close>) and its round trips.
  \<^item> Flat byte memory as a function from addresses to bytes with block reads and writes.
  \<^item> Sums of multisets over array slots, which carry the buffer-ownership accounting.
\<close>

section \<open>Types and collections\<close>

type_synonym u8 = "8 word"
type_synonym u16 = "16 word"
type_synonym u32 = "32 word"
type_synonym u64 = "64 word"
type_synonym bytes = "u8 list"

named_theorems bytes_simps \<open>byte encoding and decoding\<close>
named_theorems mem_simps \<open>block reads and writes of flat memory\<close>

section \<open>Checked access to a byte buffer\<close>

text \<open>\<open>p[i]\<close> on a buffer of known length; outside the buffer it is undefined behaviour.\<close>

definition rd8 :: "bytes \<Rightarrow> nat \<Rightarrow> u8 option" where
  "rd8 p i = (if i < length p then Some (p ! i) else None)"

definition rd16 :: "bytes \<Rightarrow> nat \<Rightarrow> u16 option" where
  "rd16 p i = do {
     a \<leftarrow> rd8 p i; b \<leftarrow> rd8 p (i + 1);
     Some (push_bit 8 (ucast a) OR ucast b) }"

definition rd32 :: "bytes \<Rightarrow> nat \<Rightarrow> u32 option" where
  "rd32 p i = do {
     a \<leftarrow> rd8 p i; b \<leftarrow> rd8 p (i + 1); c \<leftarrow> rd8 p (i + 2); d \<leftarrow> rd8 p (i + 3);
     Some (((push_bit 24 (ucast a) OR push_bit 16 (ucast b)) OR push_bit 8 (ucast c)) OR ucast d) }"

text \<open>\<open>memcpy(dst, p + off, n)\<close> read side.\<close>

definition rd_bytes :: "bytes \<Rightarrow> nat \<Rightarrow> nat \<Rightarrow> bytes option" where
  "rd_bytes p off n = (if off + n \<le> length p then Some (take n (drop off p)) else None)"

definition wr16 :: "u16 \<Rightarrow> bytes" where
  "wr16 v = [ucast (drop_bit 8 v), ucast v]"

definition wr32 :: "u32 \<Rightarrow> bytes" where
  "wr32 v = [ucast (drop_bit 24 v), ucast (drop_bit 16 v), ucast (drop_bit 8 v), ucast v]"

lemma rd8_Some [simp]: "i < length p \<Longrightarrow> rd8 p i = Some (p ! i)"
  by (simp add: rd8_def)

lemma rd8_None [simp]: "\<not> i < length p \<Longrightarrow> rd8 p i = None"
  by (simp add: rd8_def)

lemma rd16_defined: "i + 2 \<le> length p \<Longrightarrow> \<exists>v. rd16 p i = Some v"
  by (simp add: rd16_def)

lemma rd32_defined: "i + 4 \<le> length p \<Longrightarrow> \<exists>v. rd32 p i = Some v"
  by (simp add: rd32_def)

lemma rd_bytes_Some [simp]: "off + n \<le> length p \<Longrightarrow> rd_bytes p off n = Some (take n (drop off p))"
  by (simp add: rd_bytes_def)

lemma length_wr16 [simp]: "length (wr16 v) = 2"
  by (simp add: wr16_def)

lemma length_wr32 [simp]: "length (wr32 v) = 4"
  by (simp add: wr32_def)

lemma join16: "push_bit 8 (ucast (ucast (drop_bit 8 v) :: u8)) OR ucast (ucast v :: u8) = (v :: u16)"
  by (rule bit_word_eqI) (auto simp: bit_simps)

lemma join32:
  "((push_bit 24 (ucast (ucast (drop_bit 24 v) :: u8)) OR push_bit 16 (ucast (ucast (drop_bit 16 v) :: u8)))
     OR push_bit 8 (ucast (ucast (drop_bit 8 v) :: u8))) OR ucast (ucast v :: u8) = (v :: u32)"
proof (rule bit_word_eqI)
  fix n assume "n < LENGTH(32)"
  then consider "n < 8" | "8 \<le> n" "n < 16" | "16 \<le> n" "n < 24" | "24 \<le> n" "n < 32" by fastforce
  then show "bit (((push_bit 24 (ucast (ucast (drop_bit 24 v) :: u8))
      OR push_bit 16 (ucast (ucast (drop_bit 16 v) :: u8)))
      OR push_bit 8 (ucast (ucast (drop_bit 8 v) :: u8))) OR ucast (ucast v :: u8) :: u32) n = bit v n"
    by cases (auto simp: bit_simps)
qed

lemma rd16_append [bytes_simps]:
  "length xs = i \<Longrightarrow> rd16 (xs @ wr16 v @ ys) i = Some v"
  by (simp add: rd16_def wr16_def nth_append join16)

lemma rd32_append [bytes_simps]:
  "length xs = i \<Longrightarrow> rd32 (xs @ wr32 v @ ys) i = Some v"
  by (simp add: rd32_def wr32_def nth_append join32 numeral_2_eq_2 numeral_3_eq_3)

text \<open>Decoding at the end of a buffer and after a fixed header.\<close>

lemma rd16_wr16 [bytes_simps]: "rd16 (wr16 v) 0 = Some v"
  using rd16_append [of "[]" 0 v "[]"] by simp

lemma rd32_wr32 [bytes_simps]: "rd32 (wr32 v) 0 = Some v"
  using rd32_append [of "[]" 0 v "[]"] by simp

lemma rd16_Cons [bytes_simps]: "rd16 (x # xs) (Suc i) = rd16 xs i"
  by (simp add: rd16_def rd8_def)

lemma rd32_Cons [bytes_simps]: "rd32 (x # xs) (Suc i) = rd32 xs i"
  by (simp add: rd32_def rd8_def numeral_eq_Suc)

section \<open>Size arithmetic\<close>

text \<open>\<open>a - b\<close> on a 64-bit \<open>size_t\<close>.\<close>

definition size_sub :: "nat \<Rightarrow> nat \<Rightarrow> nat" where
  "size_sub a b = (if b \<le> a then a - b else 2 ^ 64 + a - b)"

lemma size_sub_le [simp]: "b \<le> a \<Longrightarrow> size_sub a b = a - b"
  by (simp add: size_sub_def)

text \<open>Sequence numbers: stepping towards a target brings it one closer.\<close>

lemma word_dist_Suc:
  fixes a b :: "'a::len word"
  assumes "a \<noteq> b"
  shows "unat (b - a) = Suc (unat (b - (a + 1)))"
proof -
  have ne: "b - a \<noteq> 0" using assms by auto
  have "b - (a + 1) = (b - a) - 1" by simp
  then have "unat (b - (a + 1)) = unat (b - a) - 1" using unat_minus_one [OF ne] by (simp only:)
  moreover have "unat (b - a) \<noteq> 0" using ne unat_eq_0 by blast
  ultimately show ?thesis by linarith
qed

section \<open>Flat memory\<close>

type_synonym mem = "nat \<Rightarrow> u8"

definition mem_read :: "mem \<Rightarrow> nat \<Rightarrow> nat \<Rightarrow> bytes" where
  "mem_read m a n = map m [a ..< a + n]"

definition mem_write :: "mem \<Rightarrow> nat \<Rightarrow> bytes \<Rightarrow> mem" where
  "mem_write m a bs = (\<lambda>i. if a \<le> i \<and> i < a + length bs then bs ! (i - a) else m i)"

lemma length_mem_read [simp]: "length (mem_read m a n) = n"
  by (simp add: mem_read_def)

lemma mem_read_0 [simp]: "mem_read m a 0 = []"
  by (simp add: mem_read_def)

lemma mem_read_Nil_iff [simp]: "mem_read m a n = [] \<longleftrightarrow> n = 0"
  by (auto simp: mem_read_def)

lemma nth_mem_read [simp]: "i < n \<Longrightarrow> mem_read m a n ! i = m (a + i)"
  by (simp add: mem_read_def)

lemma mem_write_Nil [simp]: "mem_write m a [] = m"
  by (rule ext) (auto simp: mem_write_def)

lemma mem_read_write_same [mem_simps]: "n = length bs \<Longrightarrow> mem_read (mem_write m a bs) a n = bs"
  by (rule nth_equalityI) (auto simp: mem_write_def)

lemma mem_read_write_disjoint [mem_simps]:
  "a + n \<le> b \<or> b + length bs \<le> a \<Longrightarrow> mem_read (mem_write m b bs) a n = mem_read m a n"
  by (rule nth_equalityI) (auto simp: mem_write_def)

lemma mem_read_append: "mem_read m a (n + k) = mem_read m a n @ mem_read m (a + n) k"
  by (rule nth_equalityI) (auto simp: nth_append)

lemma mem_read_take: "k \<le> n \<Longrightarrow> take k (mem_read m a n) = mem_read m a k"
  by (rule nth_equalityI) auto

section \<open>Sums over array slots\<close>

text \<open>Replacing slot \<open>j\<close> of an array of \<open>n\<close> slots changes a sum over the slots by exactly
  that slot's contribution.\<close>

lemma sum_slot_upd:
  fixes g :: "nat \<Rightarrow> 'a \<Rightarrow> 'b::comm_monoid_add"
  assumes "j < n"
  shows "(\<Sum>i<n. g i ((f(j := x)) i)) + g j (f j) = (\<Sum>i<n. g i (f i)) + g j x"
proof -
  have fin: "finite {..<n}" by simp
  have j: "j \<in> {..<n}" using assms by simp
  have eq: "(\<Sum>i\<in>{..<n} - {j}. g i ((f(j := x)) i)) = (\<Sum>i\<in>{..<n} - {j}. g i (f i))"
    by (rule sum.cong) auto
  show ?thesis
    by (simp only: sum.remove [OF fin j, of "\<lambda>i. g i ((f(j := x)) i)"] sum.remove [OF fin j, of "\<lambda>i. g i (f i)"] eq)
       (simp add: ac_simps)
qed

lemma sum_slot_mem:
  fixes g :: "nat \<Rightarrow> 'a multiset"
  shows "j < n \<Longrightarrow> x \<in># g j \<Longrightarrow> x \<in># (\<Sum>i<n. g i)"
  by (auto simp: set_mset_sum)

section \<open>Total correctness in the option monad\<close>

text \<open>\<open>ok m P\<close>: the computation does not run into undefined behaviour and its result satisfies
  \<open>P\<close>.  The rules below are its weakest preconditions.\<close>

definition ok :: "'a option \<Rightarrow> ('a \<Rightarrow> bool) \<Rightarrow> bool" where
  "ok m P \<longleftrightarrow> (\<exists>x. m = Some x \<and> P x)"

lemma ok_Some [simp]: "ok (Some x) P \<longleftrightarrow> P x"
  by (simp add: ok_def)

lemma ok_None [simp]: "\<not> ok None P"
  by (simp add: ok_def)

lemma ok_bind [simp]: "ok (m \<bind> f) P \<longleftrightarrow> ok m (\<lambda>x. ok (f x) P)"
  by (cases m) auto

lemma ok_mono: "ok m P \<Longrightarrow> (\<And>x. m = Some x \<Longrightarrow> P x \<Longrightarrow> Q x) \<Longrightarrow> ok m Q"
  by (auto simp: ok_def)

lemma ok_conj: "ok m P \<Longrightarrow> ok m Q \<Longrightarrow> ok m (\<lambda>x. P x \<and> Q x)"
  by (auto simp: ok_def)

lemma okD: "ok m P \<Longrightarrow> m = Some x \<Longrightarrow> P x"
  by (simp add: ok_def)

lemma okE: "ok m P \<Longrightarrow> (\<And>x. m = Some x \<Longrightarrow> P x \<Longrightarrow> thesis) \<Longrightarrow> thesis"
  by (auto simp: ok_def)

lemma ok_if: "ok (if b then m else m') P \<longleftrightarrow> (b \<longrightarrow> ok m P) \<and> (\<not> b \<longrightarrow> ok m' P)"
  by simp

lemma ok_rd16 [simp]: "i + 2 \<le> length p \<Longrightarrow> ok (rd16 p i) P \<longleftrightarrow> P (the (rd16 p i))"
  by (auto simp: rd16_def ok_def)

lemma ok_rd32 [simp]: "i + 4 \<le> length p \<Longrightarrow> ok (rd32 p i) P \<longleftrightarrow> P (the (rd32 p i))"
  by (auto simp: rd32_def ok_def)

text \<open>The partial variant, for invariants of loops that may not return: \<open>post m P\<close> holds when
  every value \<open>m\<close> returns satisfies \<open>P\<close>.\<close>

definition post :: "'a option \<Rightarrow> ('a \<Rightarrow> bool) \<Rightarrow> bool" where
  "post m P \<longleftrightarrow> (\<forall>x. m = Some x \<longrightarrow> P x)"

lemma post_simps [simp]:
  "post (Some x) P \<longleftrightarrow> P x" "post None P"
  "post (if b then m else m') P \<longleftrightarrow> (b \<longrightarrow> post m P) \<and> (\<not> b \<longrightarrow> post m' P)"
  by (simp_all add: post_def)

lemma post_bind [simp]: "post (m \<bind> f) P \<longleftrightarrow> post m (\<lambda>x. post (f x) P)"
  by (cases m) auto

lemma post_case [simp]:
  "post (case p of (a, b) \<Rightarrow> f a b) P = (case p of (a, b) \<Rightarrow> post (f a b) P)"
  "post (case x of None \<Rightarrow> m | Some y \<Rightarrow> g y) P = (case x of None \<Rightarrow> post m P | Some y \<Rightarrow> post (g y) P)"
  by (cases p, simp) (cases x, simp_all)

lemma postI: "(\<And>x. P x) \<Longrightarrow> post m P"
  by (simp add: post_def)

lemma postD: "post m P \<Longrightarrow> m = Some x \<Longrightarrow> P x"
  by (simp add: post_def)

lemma post_mono: "post m P \<Longrightarrow> (\<And>x. P x \<Longrightarrow> Q x) \<Longrightarrow> post m Q"
  by (auto simp: post_def)

section \<open>Output buffers\<close>

text \<open>Appending to a buffer of \<open>buflen\<close> bytes of which \<open>out\<close> are written; a write past the end is
  undefined behaviour.\<close>

definition emit :: "nat \<Rightarrow> bytes \<Rightarrow> bytes \<Rightarrow> bytes option" where
  "emit buflen out bs = (if length out + length bs \<le> buflen then Some (out @ bs) else None)"

lemma emit_ok: "length out + length bs \<le> n \<Longrightarrow> emit n out bs = Some (out @ bs)"
  by (simp add: emit_def)

section \<open>Checked access to an array\<close>

definition at_index :: "'a list \<Rightarrow> nat \<Rightarrow> 'a option" where
  "at_index xs i = (if i < length xs then Some (xs ! i) else None)"

definition put_index :: "'a list \<Rightarrow> nat \<Rightarrow> 'a \<Rightarrow> 'a list option" where
  "put_index xs i v = (if i < length xs then Some (xs[i := v]) else None)"

section \<open>C strings\<close>

text \<open>The bytes of a NUL-terminated string held in a buffer.\<close>

definition cstr :: "bytes \<Rightarrow> bytes" where
  "cstr bs = takeWhile (\<lambda>b. b \<noteq> 0) bs"

lemma cstr_no_nul: "0 \<notin> set (cstr bs)"
  by (auto simp: cstr_def dest: set_takeWhileD)

lemma cstr_id: "0 \<notin> set bs \<Longrightarrow> cstr bs = bs"
  by (auto simp: cstr_def takeWhile_eq_all_conv)

lemma length_cstr: "length (cstr bs) \<le> length bs"
  by (simp add: cstr_def length_takeWhile_le)

text \<open>\<open>strlen\<close> of a buffer without a NUL runs off its end.\<close>

definition strlen :: "bytes \<Rightarrow> nat option" where
  "strlen b = (if 0 \<in> set b then Some (length (cstr b)) else None)"

end
