(* ===== verification/NC_Types.thy ===== *)
theory NC_Types
  imports Prelude
begin

text \<open>
  Constants and data of the protocol core (\<open>src/netchan.h\<close>, \<open>src/nc_addr.h\<close> and the internal
  structures of \<open>src/netchan.c\<close>).  An array of the source is a function from indices, with
  its size as a constant; a pointer to a channel is its index in \<open>chan_pool\<close>; the
  one-byte flags of the structures are \<open>bool\<close>; a buffer index is an \<open>int\<close> with
  \<open>NC_NOBUF\<close> for an empty slot, as in the source.  The control buffer is the list of its
  first \<open>ctrl_len\<close> bytes.
\<close>

section \<open>Constants\<close>

definition NC_VERSION :: u8 where "NC_VERSION = 0x01"
definition NC_PKT_FLAG_INIT :: u8 where "NC_PKT_FLAG_INIT = 0x01"
definition NC_PKT_FLAG_PKTNUM :: u8 where "NC_PKT_FLAG_PKTNUM = 0x02"
definition NC_HDR_INIT_SIZE :: nat where "NC_HDR_INIT_SIZE = 5"
definition NC_HDR_FULL_SIZE :: nat where "NC_HDR_FULL_SIZE = 7"

definition NC_FRAME_PADDING :: u8 where "NC_FRAME_PADDING = 0x00"
definition NC_FRAME_CONNECT_INIT :: u8 where "NC_FRAME_CONNECT_INIT = 0x01"
definition NC_FRAME_CONNECT_ACCEPT :: u8 where "NC_FRAME_CONNECT_ACCEPT = 0x02"
definition NC_FRAME_CONNECT_REDIRECT :: u8 where "NC_FRAME_CONNECT_REDIRECT = 0x03"
definition NC_FRAME_DISCONNECT :: u8 where "NC_FRAME_DISCONNECT = 0x04"
definition NC_FRAME_PING :: u8 where "NC_FRAME_PING = 0x05"
definition NC_FRAME_PONG :: u8 where "NC_FRAME_PONG = 0x06"
definition NC_FRAME_CHANNEL_OPEN :: u8 where "NC_FRAME_CHANNEL_OPEN = 0x07"
definition NC_FRAME_CHANNEL_CLOSE :: u8 where "NC_FRAME_CHANNEL_CLOSE = 0x08"
definition NC_FRAME_DATA :: u8 where "NC_FRAME_DATA = 0x09"
definition NC_FRAME_ACK :: u8 where "NC_FRAME_ACK = 0x0A"
definition NC_FRAME_WINDOW_UPDATE :: u8 where "NC_FRAME_WINDOW_UPDATE = 0x0B"

lemmas frame_type_defs =
  NC_FRAME_PADDING_def NC_FRAME_CONNECT_INIT_def NC_FRAME_CONNECT_ACCEPT_def
  NC_FRAME_CONNECT_REDIRECT_def NC_FRAME_DISCONNECT_def NC_FRAME_PING_def NC_FRAME_PONG_def
  NC_FRAME_CHANNEL_OPEN_def NC_FRAME_CHANNEL_CLOSE_def NC_FRAME_DATA_def NC_FRAME_ACK_def
  NC_FRAME_WINDOW_UPDATE_def

definition NC_MAX_CHANNELS :: nat where "NC_MAX_CHANNELS = 256"
definition NC_EVENT_QUEUE :: nat where "NC_EVENT_QUEUE = 16"
definition NC_CTRL_BUF_SIZE :: nat where "NC_CTRL_BUF_SIZE = 1024"
definition NC_OUTGOING_SLOTS :: nat where "NC_OUTGOING_SLOTS = 64"
definition NC_RECV_QUEUE :: nat where "NC_RECV_QUEUE = 64"
definition NC_REORDER_SLOTS :: nat where "NC_REORDER_SLOTS = 64"
definition NC_FRAG_SLOTS :: nat where "NC_FRAG_SLOTS = 4"
definition NC_MAX_FRAGS :: nat where "NC_MAX_FRAGS = 32"

definition NC_MAX_CHAN :: nat where "NC_MAX_CHAN = 16"
definition NC_MAX_MSG :: nat where "NC_MAX_MSG = 2048"
definition NC_POOL_BUFS :: nat where "NC_POOL_BUFS = 64"
definition NC_NOBUF :: int where "NC_NOBUF = -1"

definition NC_DEFAULT_MTU :: u32 where "NC_DEFAULT_MTU = 1200"
definition NC_DEFAULT_WINDOW :: u32 where "NC_DEFAULT_WINDOW = 65536"
definition NC_DEFAULT_IDLE_MS :: u32 where "NC_DEFAULT_IDLE_MS = 30000"
definition NC_DEFAULT_RT_MS :: u32 where "NC_DEFAULT_RT_MS = 100"
definition NC_MAX_RT_MS :: u32 where "NC_MAX_RT_MS = 1000"
definition NC_MAX_RT_ATTEMPTS :: u8 where "NC_MAX_RT_ATTEMPTS = 5"
definition NC_CONNECT_RETRY_MS :: u32 where "NC_CONNECT_RETRY_MS = 500"
definition NC_CONNECT_RETRIES :: u8 where "NC_CONNECT_RETRIES = 5"
definition NC_PING_INTERVAL_MS :: u32 where "NC_PING_INTERVAL_MS = 5000"

text \<open>The bytes of \<open>pool_store\<close>.\<close>

definition POOL_SIZE :: nat where "POOL_SIZE = NC_POOL_BUFS * NC_MAX_MSG"

text \<open>Return codes.\<close>

definition NETCHAN_OK :: int where "NETCHAN_OK = 0"
definition NETCHAN_ERR :: int where "NETCHAN_ERR = -1"
definition NETCHAN_ERR_NOMEM :: int where "NETCHAN_ERR_NOMEM = -2"
definition NETCHAN_ERR_AGAIN :: int where "NETCHAN_ERR_AGAIN = -3"
definition NETCHAN_ERR_CLOSED :: int where "NETCHAN_ERR_CLOSED = -4"
definition NETCHAN_ERR_FLOW :: int where "NETCHAN_ERR_FLOW = -5"
definition NETCHAN_ERR_PROTO :: int where "NETCHAN_ERR_PROTO = -6"
definition NETCHAN_ERR_TOOBIG :: int where "NETCHAN_ERR_TOOBIG = -7"

lemmas return_code_defs =
  NETCHAN_OK_def NETCHAN_ERR_def NETCHAN_ERR_NOMEM_def NETCHAN_ERR_AGAIN_def
  NETCHAN_ERR_CLOSED_def NETCHAN_ERR_FLOW_def NETCHAN_ERR_PROTO_def NETCHAN_ERR_TOOBIG_def

text \<open>Channel types and directions travel on the wire as bytes, so they stay integers.\<close>

definition NETCHAN_RELIABLE :: int where "NETCHAN_RELIABLE = 0"
definition NETCHAN_UNRELIABLE :: int where "NETCHAN_UNRELIABLE = 1"
definition NETCHAN_STREAM :: int where "NETCHAN_STREAM = 2"
definition NETCHAN_DIR_SEND :: int where "NETCHAN_DIR_SEND = 0"
definition NETCHAN_DIR_RECV :: int where "NETCHAN_DIR_RECV = 1"

lemmas chan_kind_defs =
  NETCHAN_RELIABLE_def NETCHAN_UNRELIABLE_def NETCHAN_STREAM_def
  NETCHAN_DIR_SEND_def NETCHAN_DIR_RECV_def

datatype conn_state_t =
    NETCHAN_STATE_NEW | NETCHAN_STATE_CONNECTING | NETCHAN_STATE_CONNECTED
  | NETCHAN_STATE_CLOSING | NETCHAN_STATE_CLOSED

datatype event_type =
    NETCHAN_EV_NONE | NETCHAN_EV_CONNECTED | NETCHAN_EV_DISCONNECTED | NETCHAN_EV_REDIRECT
  | NETCHAN_EV_CHAN_OPEN | NETCHAN_EV_CHAN_CLOSE | NETCHAN_EV_DATA

section \<open>Data\<close>

definition NC_ADDR_MAX :: nat where "NC_ADDR_MAX = 20"

record nc_addr =
  a_len :: u8
  a_bytes :: bytes

definition addr_zero :: nc_addr where
  "addr_zero = \<lparr>a_len = 0, a_bytes = replicate NC_ADDR_MAX 0\<rparr>"

record netchan_cfg =
  mtu :: u32
  chan_window :: u32
  idle_timeout_ms :: u32
  retransmit_ms :: u32

record netchan_event =
  ev_type :: event_type
  ev_ch :: "nat option"
  redirect_addr :: nc_addr
  redirect_conn_id :: u32

definition event_zero :: netchan_event where
  "event_zero = \<lparr>ev_type = NETCHAN_EV_NONE, ev_ch = None, redirect_addr = addr_zero, redirect_conn_id = 0\<rparr>"

record nc_outgoing =
  o_seq :: u16
  o_buf :: int
  o_len :: nat
  o_sent_ms :: u32
  o_attempts :: u8
  o_frag_sent :: u8
  o_frag_total :: u8
  o_active :: bool

definition outgoing_zero :: nc_outgoing where
  "outgoing_zero = \<lparr>o_seq = 0, o_buf = 0, o_len = 0, o_sent_ms = 0, o_attempts = 0,
     o_frag_sent = 0, o_frag_total = 0, o_active = False\<rparr>"

record nc_recv_entry =
  re_buf :: int
  re_len :: nat

definition recv_zero :: nc_recv_entry where
  "recv_zero = \<lparr>re_buf = 0, re_len = 0\<rparr>"

record nc_reorder =
  ro_seq :: u16
  ro_buf :: int
  ro_len :: nat
  ro_valid :: bool

definition reorder_zero :: nc_reorder where
  "reorder_zero = \<lparr>ro_seq = 0, ro_buf = 0, ro_len = 0, ro_valid = False\<rparr>"

record nc_frag_asm =
  f_seq :: u16
  f_total :: u8
  f_have :: u8
  f_bitmask :: u32
  f_buf :: int
  f_offsets :: "nat \<Rightarrow> nat"
  f_active :: bool

definition frag_zero :: nc_frag_asm where
  "frag_zero = \<lparr>f_seq = 0, f_total = 0, f_have = 0, f_bitmask = 0, f_buf = 0,
     f_offsets = (\<lambda>_. 0), f_active = False\<rparr>"

record netchan_chan =
  ch_id :: u8
  ch_type :: int
  ch_dir :: int
  ch_role :: int
  ch_state :: int
  content_type :: bytes
  send_seq :: u16
  send_window :: u32
  bytes_in_flight :: u32
  outgoing :: "nat \<Rightarrow> nc_outgoing"
  out_head :: nat
  out_tail :: nat
  recv_seq :: u16
  recv_window :: u32
  recv_buffered :: u32
  recv_queue :: "nat \<Rightarrow> nc_recv_entry"
  rq_head :: nat
  rq_tail :: nat
  reorder :: "nat \<Rightarrow> nc_reorder"
  frags :: "nat \<Rightarrow> nc_frag_asm"
  need_ack :: bool
  ack_seq :: u16
  need_window_update :: bool
  msgs_sent :: u32
  msgs_acked :: u32
  retransmissions :: u32
  msgs_recv :: u32

definition chan_zero :: netchan_chan where
  "chan_zero = \<lparr>ch_id = 0, ch_type = 0, ch_dir = 0, ch_role = 0, ch_state = 0, content_type = [],
     send_seq = 0, send_window = 0, bytes_in_flight = 0, outgoing = (\<lambda>_. outgoing_zero),
     out_head = 0, out_tail = 0, recv_seq = 0, recv_window = 0, recv_buffered = 0,
     recv_queue = (\<lambda>_. recv_zero), rq_head = 0, rq_tail = 0, reorder = (\<lambda>_. reorder_zero),
     frags = (\<lambda>_. frag_zero), need_ack = False, ack_seq = 0, need_window_update = False,
     msgs_sent = 0, msgs_acked = 0, retransmissions = 0, msgs_recv = 0\<rparr>"

record netchan_conn =
  local_id :: u32
  remote_id :: u32
  is_server :: bool
  conn_state :: conn_state_t
  peer_addr :: nc_addr
  next_pkt_num :: u16
  last_recv_ms :: u32
  last_send_ms :: u32
  connect_sent_ms :: u32
  connect_attempts :: u8
  ping_sent_ms :: u32
  ping_opaque :: u32
  rtt_ms :: u32
  rtt_min_ms :: u32
  pkts_sent :: u32
  pkts_recv :: u32
  conn_cfg :: netchan_cfg
  channels :: "nat \<Rightarrow> nat option"
  next_chan_id :: u8
  chan_pool :: "nat \<Rightarrow> netchan_chan"
  chan_used :: "nat \<Rightarrow> bool"
  pool_free :: "nat \<Rightarrow> int"
  pool_free_top :: nat
  pool_store :: mem
  events :: "nat \<Rightarrow> netchan_event"
  ev_head :: nat
  ev_tail :: nat
  ctrl_buf :: bytes

text \<open>The zero-filled connection object \<open>calloc\<close> returns.\<close>

definition conn_zero :: netchan_conn where
  "conn_zero = \<lparr>local_id = 0, remote_id = 0, is_server = False, conn_state = NETCHAN_STATE_NEW,
     peer_addr = addr_zero, next_pkt_num = 0, last_recv_ms = 0, last_send_ms = 0,
     connect_sent_ms = 0, connect_attempts = 0, ping_sent_ms = 0, ping_opaque = 0, rtt_ms = 0,
     rtt_min_ms = 0, pkts_sent = 0, pkts_recv = 0,
     conn_cfg = \<lparr>mtu = 0, chan_window = 0, idle_timeout_ms = 0, retransmit_ms = 0\<rparr>,
     channels = (\<lambda>_. None), next_chan_id = 0, chan_pool = (\<lambda>_. chan_zero), chan_used = (\<lambda>_. False),
     pool_free = (\<lambda>_. 0), pool_free_top = 0, pool_store = (\<lambda>_. 0), events = (\<lambda>_. event_zero),
     ev_head = 0, ev_tail = 0, ctrl_buf = []\<rparr>"

text \<open>Assignment through a channel pointer.\<close>

definition upd_chan :: "netchan_conn \<Rightarrow> nat \<Rightarrow> (netchan_chan \<Rightarrow> netchan_chan) \<Rightarrow> netchan_conn" where
  "upd_chan c k f = c\<lparr>chan_pool := (chan_pool c)(k := f (chan_pool c k))\<rparr>"

lemma upd_chan_same [simp]: "chan_pool (upd_chan c k f) k = f (chan_pool c k)"
  by (simp add: upd_chan_def)

lemma upd_chan_other [simp]: "j \<noteq> k \<Longrightarrow> chan_pool (upd_chan c k f) j = chan_pool c j"
  by (simp add: upd_chan_def)

lemma upd_chan_frame [simp]:
  "local_id (upd_chan c k f) = local_id c" "remote_id (upd_chan c k f) = remote_id c"
  "is_server (upd_chan c k f) = is_server c" "conn_state (upd_chan c k f) = conn_state c"
  "peer_addr (upd_chan c k f) = peer_addr c" "next_pkt_num (upd_chan c k f) = next_pkt_num c"
  "last_recv_ms (upd_chan c k f) = last_recv_ms c" "last_send_ms (upd_chan c k f) = last_send_ms c"
  "connect_sent_ms (upd_chan c k f) = connect_sent_ms c"
  "connect_attempts (upd_chan c k f) = connect_attempts c" "ping_sent_ms (upd_chan c k f) = ping_sent_ms c"
  "ping_opaque (upd_chan c k f) = ping_opaque c" "rtt_ms (upd_chan c k f) = rtt_ms c"
  "rtt_min_ms (upd_chan c k f) = rtt_min_ms c" "pkts_sent (upd_chan c k f) = pkts_sent c"
  "pkts_recv (upd_chan c k f) = pkts_recv c" "conn_cfg (upd_chan c k f) = conn_cfg c"
  "channels (upd_chan c k f) = channels c" "next_chan_id (upd_chan c k f) = next_chan_id c"
  "chan_used (upd_chan c k f) = chan_used c" "pool_free (upd_chan c k f) = pool_free c"
  "pool_free_top (upd_chan c k f) = pool_free_top c" "pool_store (upd_chan c k f) = pool_store c"
  "events (upd_chan c k f) = events c" "ev_head (upd_chan c k f) = ev_head c"
  "ev_tail (upd_chan c k f) = ev_tail c" "ctrl_buf (upd_chan c k f) = ctrl_buf c"
  by (simp_all add: upd_chan_def)

end
