(* ===== verification/NC_Pool.thy ===== *)
theory NC_Pool
  imports NC_Types
begin

text \<open>
  The message-buffer pool of \<open>netchan.c\<close>: a stack of free buffer indices and the flat byte
  store the indices point into.  An access outside \<open>pool_free\<close> or \<open>pool_store\<close> is undefined
  behaviour (\<open>None\<close>).  The locale \<open>buffer_pool\<close> is the contract the channel code relies on:
  a successful \<open>get\<close> moves one buffer out of the free multiset and \<open>put\<close> moves it back.
\<close>

section \<open>Operations\<close>

definition pool_init :: "netchan_conn \<Rightarrow> netchan_conn" where
  "pool_init c = c\<lparr>pool_free := (\<lambda>i. if i < NC_POOL_BUFS then int i else pool_free c i),
     pool_free_top := NC_POOL_BUFS\<rparr>"

definition pool_get :: "netchan_conn \<Rightarrow> (int \<times> netchan_conn) option" where
  "pool_get c =
     (if pool_free_top c = 0 then Some (NC_NOBUF, c)
      else if pool_free_top c - 1 < NC_POOL_BUFS
      then Some (pool_free c (pool_free_top c - 1), c\<lparr>pool_free_top := pool_free_top c - 1\<rparr>)
      else None)"

definition pool_put :: "netchan_conn \<Rightarrow> int \<Rightarrow> netchan_conn option" where
  "pool_put c idx =
     (if idx = NC_NOBUF then Some c
      else if pool_free_top c < NC_POOL_BUFS
      then Some (c\<lparr>pool_free := (pool_free c)(pool_free_top c := idx),
                   pool_free_top := pool_free_top c + 1\<rparr>)
      else None)"

text \<open>\<open>pool_ptr\<close> gives the offset of a buffer in \<open>pool_store\<close>; the store is accessed through
  \<open>pool_read\<close> and \<open>pool_write\<close>, which stand for \<open>memcpy\<close> and \<open>memmove\<close> on it.  A copy of no
  bytes touches nothing.\<close>

definition pool_ptr :: "int \<Rightarrow> nat option" where
  "pool_ptr idx = (if 0 \<le> idx then Some (nat idx * NC_MAX_MSG) else None)"

definition pool_read :: "netchan_conn \<Rightarrow> nat \<Rightarrow> nat \<Rightarrow> bytes option" where
  "pool_read c a n = (if n = 0 \<or> a + n \<le> POOL_SIZE then Some (mem_read (pool_store c) a n) else None)"

definition pool_write :: "netchan_conn \<Rightarrow> nat \<Rightarrow> bytes \<Rightarrow> netchan_conn option" where
  "pool_write c a bs =
     (if bs = [] \<or> a + length bs \<le> POOL_SIZE
      then Some (c\<lparr>pool_store := mem_write (pool_store c) a bs\<rparr>) else None)"

section \<open>The contract\<close>

locale buffer_pool =
  fixes get :: "'s \<Rightarrow> (int \<times> 's) option"
    and put :: "'s \<Rightarrow> int \<Rightarrow> 's option"
    and free :: "'s \<Rightarrow> int multiset"
    and invar :: "'s \<Rightarrow> bool"
    and nobuf :: int
    and cap :: nat
  assumes get_empty: "invar s \<Longrightarrow> free s = {#} \<Longrightarrow> get s = Some (nobuf, s)"
    and get_some: "invar s \<Longrightarrow> free s \<noteq> {#} \<Longrightarrow>
      \<exists>b s'. get s = Some (b, s') \<and> free s = add_mset b (free s') \<and> invar s'"
    and put_nobuf: "put s nobuf = Some s"
    and put_some: "invar s \<Longrightarrow> b \<noteq> nobuf \<Longrightarrow> size (free s) < cap \<Longrightarrow>
      \<exists>s'. put s b = Some s' \<and> free s' = add_mset b (free s) \<and> invar s'"
    and size_free: "invar s \<Longrightarrow> size (free s) \<le> cap"
begin

lemma get_cases:
  assumes "invar s"
  obtains (empty) "free s = {#}" "get s = Some (nobuf, s)"
    | (taken) b s' where "get s = Some (b, s')" "free s = add_mset b (free s')" "invar s'"
  using assms get_empty get_some by blast

lemma get_never_faults: "invar s \<Longrightarrow> \<exists>b s'. get s = Some (b, s') \<and> invar s'"
  by (metis get_empty get_some)

text \<open>A buffer just taken can always be returned: taking it made room for it.\<close>

lemma put_back:
  assumes "invar s" "get s = Some (b, s')" "b \<noteq> nobuf"
  shows "\<exists>s''. put s' b = Some s'' \<and> free s'' = free s \<and> invar s''"
  using assms(1)
proof (cases rule: get_cases)
  case empty
  with assms show ?thesis by simp
next
  case (taken b0 s0)
  with assms have eq: "free s = add_mset b (free s')" "invar s'" by auto
  then have "size (free s') < cap" using size_free [OF assms(1)] by simp
  with put_some [of s' b] eq assms(3) show ?thesis by auto
qed

end

definition free_ms :: "netchan_conn \<Rightarrow> int multiset" where
  "free_ms c = mset (map (pool_free c) [0 ..< pool_free_top c])"

definition pool_ok :: "netchan_conn \<Rightarrow> bool" where
  "pool_ok c \<longleftrightarrow> pool_free_top c \<le> NC_POOL_BUFS"

lemma free_ms_cong: "pool_free c = pool_free c' \<Longrightarrow> pool_free_top c = pool_free_top c' \<Longrightarrow> free_ms c = free_ms c'"
  by (simp add: free_ms_def)

lemma size_free_ms: "size (free_ms c) = pool_free_top c"
  by (simp add: free_ms_def)

lemma free_ms_pop: "pool_free_top c = Suc n \<Longrightarrow>
   free_ms c = add_mset (pool_free c n) (free_ms (c\<lparr>pool_free_top := n\<rparr>))"
  by (simp add: free_ms_def)

lemma free_ms_push: "free_ms (c\<lparr>pool_free := (pool_free c)(pool_free_top c := b), pool_free_top := pool_free_top c + 1\<rparr>)
   = add_mset b (free_ms c)"
proof -
  have "map ((pool_free c)(pool_free_top c := b)) [0 ..< pool_free_top c] = map (pool_free c) [0 ..< pool_free_top c]"
    by simp
  then show ?thesis by (simp add: free_ms_def)
qed

interpretation ncpool: buffer_pool pool_get pool_put free_ms pool_ok NC_NOBUF NC_POOL_BUFS
proof
  fix s assume "pool_ok s" "free_ms s = {#}"
  then show "pool_get s = Some (NC_NOBUF, s)"
    by (cases "pool_free_top s") (auto simp: free_ms_def pool_get_def)
next
  fix s assume ok: "pool_ok s" and "free_ms s \<noteq> {#}"
  then obtain n where n: "pool_free_top s = Suc n"
    by (cases "pool_free_top s") (auto simp: free_ms_def)
  with ok show "\<exists>b s'. pool_get s = Some (b, s') \<and> free_ms s = add_mset b (free_ms s') \<and> pool_ok s'"
    by (simp add: pool_get_def pool_ok_def free_ms_pop)
next
  fix s b assume "pool_ok s" "b \<noteq> NC_NOBUF" "size (free_ms s) < NC_POOL_BUFS"
  then show "\<exists>s'. pool_put s b = Some s' \<and> free_ms s' = add_mset b (free_ms s) \<and> pool_ok s'"
    using free_ms_push [of s b] by (auto simp: pool_put_def pool_ok_def size_free_ms)
qed (simp_all add: pool_put_def pool_ok_def free_ms_def)

text \<open>What the operations leave alone.\<close>

lemma pool_get_frame:
  "pool_get c = Some (b, c') \<Longrightarrow> \<exists>n. c' = c\<lparr>pool_free_top := n\<rparr>"
  by (auto simp: pool_get_def split: if_splits intro: exI [of _ "pool_free_top c"])

lemma pool_put_frame:
  assumes "pool_put c b = Some c'"
  shows "\<exists>f n. c' = c\<lparr>pool_free := f, pool_free_top := n\<rparr>"
proof -
  have "c = c\<lparr>pool_free := pool_free c, pool_free_top := pool_free_top c\<rparr>" by simp
  with assms show ?thesis unfolding pool_put_def by (metis option.inject option.distinct(1))
qed

lemma pool_write_frame:
  "pool_write c a bs = Some c' \<Longrightarrow> c' = c\<lparr>pool_store := mem_write (pool_store c) a bs\<rparr>"
  by (auto simp: pool_write_def split: if_splits)

lemma pool_slot_bound: "0 \<le> b \<Longrightarrow> b < int NC_POOL_BUFS \<Longrightarrow> n \<le> NC_MAX_MSG \<Longrightarrow>
   nat b * NC_MAX_MSG + n \<le> POOL_SIZE"
proof -
  assume b: "0 \<le> b" "b < int NC_POOL_BUFS" and n: "n \<le> NC_MAX_MSG"
  have "nat b + 1 \<le> NC_POOL_BUFS" using b by simp
  then have "(nat b + 1) * NC_MAX_MSG \<le> NC_POOL_BUFS * NC_MAX_MSG" by (rule mult_le_mono1)
  then show ?thesis using n by (simp add: POOL_SIZE_def algebra_simps)
qed

end
