(* ===== verification/Ring_Queue.thy ===== *)
theory Ring_Queue
  imports Prelude
begin

text \<open>
  Ring buffers, as \<open>netchan.c\<close> keeps them: an array of \<open>N\<close> slots with a head and a tail
  index, empty when they are equal and full when advancing the tail would meet the head,
  so that at most \<open>N - 1\<close> slots are in use.  The event queue, the outgoing window and the
  receive queue of a channel are such rings.  The locale \<open>ring\<close> relates the index
  arithmetic to the list of queued elements; \<open>bounded_fifo\<close> is the interface a client of a
  queue relies on, with the laws of a FIFO that drops what does not fit.
\<close>

definition ring_dist :: "nat \<Rightarrow> nat \<Rightarrow> nat \<Rightarrow> nat" where
  "ring_dist N h t = (if h \<le> t then t - h else t + N - h)"

definition ring_in :: "nat \<Rightarrow> nat \<Rightarrow> nat \<Rightarrow> nat \<Rightarrow> bool" where
  "ring_in N h t i \<longleftrightarrow> i < N \<and> ring_dist N h i < ring_dist N h t"

definition ring_list :: "nat \<Rightarrow> (nat \<Rightarrow> 'a) \<Rightarrow> nat \<Rightarrow> nat \<Rightarrow> 'a list" where
  "ring_list N a h t = map (\<lambda>j. a ((h + j) mod N)) [0 ..< ring_dist N h t]"

locale ring =
  fixes N :: nat
  assumes two_slots: "2 \<le> N"
begin

lemma succ_less [simp]: "Suc i mod N < N"
  using two_slots by simp

lemma succ_mod: "i < N \<Longrightarrow> Suc i mod N = (if Suc i = N then 0 else Suc i)"
  by simp

lemma dist_less: "h < N \<Longrightarrow> t < N \<Longrightarrow> ring_dist N h t < N"
  by (auto simp: ring_dist_def)

lemma dist_same [simp]: "ring_dist N h h = 0"
  by (simp add: ring_dist_def)

lemma dist_0_iff: "h < N \<Longrightarrow> t < N \<Longrightarrow> ring_dist N h t = 0 \<longleftrightarrow> h = t"
  by (auto simp: ring_dist_def)

lemma dist_push:
  "h < N \<Longrightarrow> t < N \<Longrightarrow> Suc t mod N \<noteq> h \<Longrightarrow> ring_dist N h (Suc t mod N) = Suc (ring_dist N h t)"
  by (auto simp: ring_dist_def succ_mod)

lemma dist_pop:
  "h < N \<Longrightarrow> t < N \<Longrightarrow> h \<noteq> t \<Longrightarrow> ring_dist N h t = Suc (ring_dist N (Suc h mod N) t)"
  by (auto simp: ring_dist_def succ_mod)

lemma add_dist: "h < N \<Longrightarrow> t < N \<Longrightarrow> (h + ring_dist N h t) mod N = t"
  by (auto simp: ring_dist_def)

lemma index_mod: "h < N \<Longrightarrow> i < N \<Longrightarrow> (h + i) mod N = (if h + i < N then h + i else h + i - N)"
  by (simp add: mod_if)

lemma index_inj: "h < N \<Longrightarrow> i < N \<Longrightarrow> j < N \<Longrightarrow> (h + i) mod N = (h + j) mod N \<longleftrightarrow> i = j"
  by (auto simp: index_mod)

lemma in_push:
  "h < N \<Longrightarrow> t < N \<Longrightarrow> Suc t mod N \<noteq> h \<Longrightarrow> ring_in N h (Suc t mod N) i \<longleftrightarrow> ring_in N h t i \<or> i = t"
  by (auto simp: ring_in_def dist_push less_Suc_eq) (auto simp: ring_dist_def split: if_splits)

lemma in_pop:
  "h < N \<Longrightarrow> t < N \<Longrightarrow> h \<noteq> t \<Longrightarrow> ring_in N h t i \<longleftrightarrow> ring_in N (Suc h mod N) t i \<or> i = h"
  by (auto simp: ring_in_def succ_mod ring_dist_def split: if_splits)

lemma not_in_tail: "h < N \<Longrightarrow> t < N \<Longrightarrow> \<not> ring_in N h t t"
  by (simp add: ring_in_def)

lemma not_in_popped: "h < N \<Longrightarrow> t < N \<Longrightarrow> h \<noteq> t \<Longrightarrow> \<not> ring_in N (Suc h mod N) t h"
  by (auto simp: ring_in_def succ_mod ring_dist_def split: if_splits)

lemma not_in_empty [simp]: "\<not> ring_in N h h i"
  by (simp add: ring_in_def)

lemma length_ring_list [simp]: "length (ring_list N a h t) = ring_dist N h t"
  by (simp add: ring_list_def)

lemma ring_list_empty [simp]: "ring_list N a h h = []"
  by (simp add: ring_list_def)

lemma list_push:
  assumes "h < N" "t < N" "Suc t mod N \<noteq> h"
  shows "ring_list N (a(t := x)) h (Suc t mod N) = ring_list N a h t @ [x]"
proof -
  have d: "ring_dist N h t < N" using assms(1,2) by (rule dist_less)
  have t: "(h + ring_dist N h t) mod N = t" using assms(1,2) by (rule add_dist)
  have "(a(t := x)) ((h + j) mod N) = a ((h + j) mod N)" if "j < ring_dist N h t" for j
    using index_inj [of h j "ring_dist N h t"] assms(1) that d t by auto
  then have "map (\<lambda>j. (a(t := x)) ((h + j) mod N)) [0 ..< ring_dist N h t] = ring_list N a h t"
    by (simp add: ring_list_def)
  with assms t show ?thesis by (simp add: ring_list_def dist_push)
qed

lemma list_pop:
  assumes "h < N" "t < N" "h \<noteq> t"
  shows "ring_list N a h t = a h # ring_list N a (Suc h mod N) t"
proof -
  have "(\<lambda>j. a ((h + Suc j) mod N)) = (\<lambda>j. a ((Suc h mod N + j) mod N))"
    by (simp add: mod_add_left_eq)
  with assms show ?thesis
    by (simp add: ring_list_def dist_pop upt_conv_Cons map_Suc_upt [symmetric] comp_def del: upt_Suc)
qed

lemma list_cong: "(\<And>i. ring_in N h t i \<Longrightarrow> a i = b i) \<Longrightarrow> h < N \<Longrightarrow> t < N \<Longrightarrow> ring_list N a h t = ring_list N b h t"
proof -
  assume eq: "\<And>i. ring_in N h t i \<Longrightarrow> a i = b i" and h: "h < N" and t: "t < N"
  have "ring_in N h t ((h + j) mod N)" if "j < ring_dist N h t" for j
  proof -
    have "j < N" using that dist_less [OF h t] by simp
    then have "ring_dist N h ((h + j) mod N) = j" using h
      by (auto simp: ring_dist_def mod_if)
    with that two_slots show ?thesis by (simp add: ring_in_def)
  qed
  with eq show ?thesis by (simp add: ring_list_def)
qed

end

section \<open>The contract of a bounded queue\<close>

locale bounded_fifo =
  fixes push :: "'q \<Rightarrow> 'a \<Rightarrow> 'q"
    and pop :: "'q \<Rightarrow> ('a \<times> 'q) option"
    and contents :: "'q \<Rightarrow> 'a list"
    and invar :: "'q \<Rightarrow> bool"
    and cap :: nat
  assumes push_contents:
      "invar q \<Longrightarrow> contents (push q x) = (if length (contents q) < cap then contents q @ [x] else contents q)"
    and invar_push: "invar q \<Longrightarrow> invar (push q x)"
    and pop_empty: "invar q \<Longrightarrow> contents q = [] \<Longrightarrow> pop q = None"
    and pop_cons: "invar q \<Longrightarrow> contents q = x # xs \<Longrightarrow>
      \<exists>q'. pop q = Some (x, q') \<and> contents q' = xs \<and> invar q'"
begin

lemma push_all: "invar q \<Longrightarrow> length (contents q) \<le> cap \<Longrightarrow>
   invar (foldl push q xs) \<and> contents (foldl push q xs) = take cap (contents q @ xs)"
proof (induction xs arbitrary: q)
  case Nil
  then show ?case by simp
next
  case (Cons x xs)
  have "length (contents (push q x)) \<le> cap" using Cons.prems by (auto simp: push_contents)
  with Cons.IH [of "push q x"] Cons.prems show ?case by (auto simp: push_contents invar_push take_Cons')
qed

lemma pop_Some: "invar q \<Longrightarrow> pop q = Some (x, q') \<Longrightarrow> contents q = x # contents q' \<and> invar q'"
  by (cases "contents q") (auto simp: pop_empty dest: pop_cons)

end

section \<open>Rings with a count\<close>

text \<open>\<open>microchan.c\<close> keeps a head and a count instead, and can use all \<open>N\<close> slots.\<close>

definition cring_list :: "nat \<Rightarrow> (nat \<Rightarrow> 'a) \<Rightarrow> nat \<Rightarrow> nat \<Rightarrow> 'a list" where
  "cring_list N a h n = map (\<lambda>j. a ((h + j) mod N)) [0 ..< n]"

lemma length_cring_list [simp]: "length (cring_list N a h n) = n"
  by (simp add: cring_list_def)

lemma cring_list_0 [simp]: "cring_list N a h 0 = []"
  by (simp add: cring_list_def)

lemma cring_pop: "0 < n \<Longrightarrow> cring_list N a h n = a (h mod N) # cring_list N a (Suc h mod N) (n - 1)"
proof (cases n)
  case (Suc m)
  have "map (\<lambda>j. a ((h + j) mod N)) [0 ..< Suc m] = a (h mod N) # map (\<lambda>j. a ((h + Suc j) mod N)) [0 ..< m]"
    by (simp add: upt_conv_Cons map_Suc_upt [symmetric] del: upt_Suc)
  moreover have "(h + Suc j) mod N = (Suc h mod N + j) mod N" for j by (simp add: mod_add_left_eq)
  ultimately show ?thesis by (simp add: cring_list_def Suc del: upt_Suc)
qed simp

lemma cring_push:
  assumes "n < N"
  shows "cring_list N (a((h + n) mod N := x)) h (Suc n) = cring_list N a h n @ [x]"
proof -
  have "(h + j) mod N \<noteq> (h + n) mod N" if "j < n" for j
  proof
    assume "(h + j) mod N = (h + n) mod N"
    then have "N dvd (h + n) - (h + j)" using that by (metis mod_eq_dvd_iff_nat nat_add_left_cancel_le less_imp_le)
    then have "N dvd n - j" by simp
    then show False using that assms by (auto dest: dvd_imp_le)
  qed
  then show ?thesis by (simp add: cring_list_def)
qed

end
