(* ===== verification/NC_Events.thy ===== *)
theory NC_Events
  imports NC_Types Ring_Queue
begin

text \<open>
  The event queue and the control-frame queue of a connection.  Events go into a ring of
  \<open>NC_EVENT_QUEUE\<close> slots and are silently dropped when it is full; the queue meets the
  \<open>bounded_fifo\<close> contract with \<open>NC_EVENT_QUEUE - 1\<close> places.  Control frames are appended to a
  bounded byte buffer, whole or not at all.
\<close>

section \<open>Event queue\<close>

definition ev_push_event :: "netchan_conn \<Rightarrow> netchan_event \<Rightarrow> netchan_conn" where
  "ev_push_event c e =
     (let next = Suc (ev_tail c) mod NC_EVENT_QUEUE in
      if next = ev_head c then c
      else c\<lparr>events := (events c)(ev_tail c := e), ev_tail := next\<rparr>)"

definition ev_push :: "netchan_conn \<Rightarrow> event_type \<Rightarrow> nat option \<Rightarrow> netchan_conn" where
  "ev_push c type ch = ev_push_event c (event_zero\<lparr>ev_type := type, ev_ch := ch\<rparr>)"

definition ev_push_redirect :: "netchan_conn \<Rightarrow> nc_addr \<Rightarrow> u32 \<Rightarrow> netchan_conn" where
  "ev_push_redirect c addr conn_id =
     ev_push_event c (event_zero\<lparr>ev_type := NETCHAN_EV_REDIRECT, redirect_addr := addr,
       redirect_conn_id := conn_id\<rparr>)"

text \<open>\<open>netchan_poll\<close> returns 0 and leaves the queue alone when it is empty.\<close>

definition netchan_poll :: "netchan_conn \<Rightarrow> (netchan_event \<times> netchan_conn) option" where
  "netchan_poll c =
     (if ev_head c = ev_tail c then None
      else Some (events c (ev_head c), c\<lparr>ev_head := Suc (ev_head c) mod NC_EVENT_QUEUE\<rparr>))"

section \<open>Control frames\<close>

text \<open>\<open>ctrl_reserve\<close> followed by the writes of the caller.\<close>

definition ctrl_reserve :: "netchan_conn \<Rightarrow> bytes \<Rightarrow> netchan_conn" where
  "ctrl_reserve c bs =
     (if length (ctrl_buf c) + length bs > NC_CTRL_BUF_SIZE then c
      else c\<lparr>ctrl_buf := ctrl_buf c @ bs\<rparr>)"

definition ctrl_connect_init :: "netchan_conn \<Rightarrow> netchan_conn" where
  "ctrl_connect_init c = ctrl_reserve c ([NC_FRAME_CONNECT_INIT] @ wr32 (local_id c) @ [NC_VERSION])"

definition ctrl_connect_accept :: "netchan_conn \<Rightarrow> netchan_conn" where
  "ctrl_connect_accept c =
     ctrl_reserve c ([NC_FRAME_CONNECT_ACCEPT] @ wr32 (local_id c) @ [NC_VERSION]
       @ wr32 (idle_timeout_ms (conn_cfg c)))"

definition ctrl_disconnect :: "netchan_conn \<Rightarrow> u16 \<Rightarrow> netchan_conn" where
  "ctrl_disconnect c reason = ctrl_reserve c ([NC_FRAME_DISCONNECT] @ wr16 reason)"

definition ctrl_ping :: "netchan_conn \<Rightarrow> u32 \<Rightarrow> netchan_conn" where
  "ctrl_ping c opaque = ctrl_reserve c ([NC_FRAME_PING] @ wr32 opaque)"

definition ctrl_pong :: "netchan_conn \<Rightarrow> u32 \<Rightarrow> netchan_conn" where
  "ctrl_pong c opaque = ctrl_reserve c ([NC_FRAME_PONG] @ wr32 opaque)"

definition ctrl_channel_open :: "netchan_conn \<Rightarrow> netchan_chan \<Rightarrow> netchan_conn" where
  "ctrl_channel_open c ch =
     (let ct_len = min (length (content_type ch)) 63 in
      ctrl_reserve c ([NC_FRAME_CHANNEL_OPEN, ch_id ch, word_of_int (ch_type ch),
        word_of_int (ch_dir ch), of_nat ct_len] @ take ct_len (content_type ch)))"

definition ctrl_channel_close :: "netchan_conn \<Rightarrow> u8 \<Rightarrow> u16 \<Rightarrow> netchan_conn" where
  "ctrl_channel_close c chan_id error =
     ctrl_reserve c ([NC_FRAME_CHANNEL_CLOSE, chan_id] @ wr16 error)"

definition ctrl_window_update :: "netchan_conn \<Rightarrow> u8 \<Rightarrow> u32 \<Rightarrow> netchan_conn" where
  "ctrl_window_update c chan_id window =
     ctrl_reserve c ([NC_FRAME_WINDOW_UPDATE, chan_id] @ wr32 window)"

lemmas ctrl_frame_defs =
  ctrl_connect_init_def ctrl_connect_accept_def ctrl_disconnect_def ctrl_ping_def ctrl_pong_def
  ctrl_channel_open_def ctrl_channel_close_def ctrl_window_update_def

section \<open>The event queue is a bounded FIFO\<close>

interpretation evring: ring NC_EVENT_QUEUE
  by unfold_locales (simp add: NC_EVENT_QUEUE_def)

definition event_list :: "netchan_conn \<Rightarrow> netchan_event list" where
  "event_list c = ring_list NC_EVENT_QUEUE (events c) (ev_head c) (ev_tail c)"

definition events_ok :: "netchan_conn \<Rightarrow> bool" where
  "events_ok c \<longleftrightarrow> ev_head c < NC_EVENT_QUEUE \<and> ev_tail c < NC_EVENT_QUEUE"

lemma event_list_full_iff:
  assumes "events_ok c"
  shows "Suc (ev_tail c) mod NC_EVENT_QUEUE = ev_head c \<longleftrightarrow> \<not> length (event_list c) < NC_EVENT_QUEUE - 1"
proof -
  have h: "ev_head c < NC_EVENT_QUEUE" and t: "ev_tail c < NC_EVENT_QUEUE"
    using assms by (auto simp: events_ok_def)
  show ?thesis
    using h t by (auto simp: event_list_def evring.succ_mod ring_dist_def split: if_splits)
qed

interpretation evq: bounded_fifo ev_push_event netchan_poll event_list events_ok "NC_EVENT_QUEUE - 1"
proof
  fix q :: netchan_conn and x
  assume ok: "events_ok q"
  then have h: "ev_head q < NC_EVENT_QUEUE" and t: "ev_tail q < NC_EVENT_QUEUE"
    by (auto simp: events_ok_def)
  show "event_list (ev_push_event q x)
      = (if length (event_list q) < NC_EVENT_QUEUE - 1 then event_list q @ [x] else event_list q)"
  proof (cases "Suc (ev_tail q) mod NC_EVENT_QUEUE = ev_head q")
    case True
    with event_list_full_iff [OF ok] show ?thesis by (simp add: ev_push_event_def)
  next
    case False
    with event_list_full_iff [OF ok] evring.list_push [OF h t False] show ?thesis
      by (simp add: ev_push_event_def Let_def event_list_def)
  qed
  show "events_ok (ev_push_event q x)"
    using h t by (simp add: ev_push_event_def Let_def events_ok_def)
next
  fix q assume ok: "events_ok q" and e: "event_list q = []"
  then have "ring_dist NC_EVENT_QUEUE (ev_head q) (ev_tail q) = 0"
    by (metis event_list_def evring.length_ring_list list.size(3))
  with ok show "netchan_poll q = None"
    by (simp add: netchan_poll_def events_ok_def evring.dist_0_iff)
next
  fix q x xs assume ok: "events_ok q" and e: "event_list q = x # xs"
  then have h: "ev_head q < NC_EVENT_QUEUE" and t: "ev_tail q < NC_EVENT_QUEUE"
    by (auto simp: events_ok_def)
  have ne: "ev_head q \<noteq> ev_tail q" using e by (auto simp: event_list_def)
  from evring.list_pop [OF h t ne, of "events q"] e ne h t
  show "\<exists>q'. netchan_poll q = Some (x, q') \<and> event_list q' = xs \<and> events_ok q'"
    by (simp add: netchan_poll_def event_list_def events_ok_def)
qed

text \<open>The other fields of the connection are not touched.\<close>

lemma ev_push_event_frame [simp]:
  "local_id (ev_push_event c e) = local_id c" "remote_id (ev_push_event c e) = remote_id c"
  "is_server (ev_push_event c e) = is_server c" "conn_state (ev_push_event c e) = conn_state c"
  "peer_addr (ev_push_event c e) = peer_addr c" "next_pkt_num (ev_push_event c e) = next_pkt_num c"
  "last_recv_ms (ev_push_event c e) = last_recv_ms c" "last_send_ms (ev_push_event c e) = last_send_ms c"
  "connect_sent_ms (ev_push_event c e) = connect_sent_ms c"
  "connect_attempts (ev_push_event c e) = connect_attempts c"
  "ping_sent_ms (ev_push_event c e) = ping_sent_ms c" "ping_opaque (ev_push_event c e) = ping_opaque c"
  "rtt_ms (ev_push_event c e) = rtt_ms c" "rtt_min_ms (ev_push_event c e) = rtt_min_ms c"
  "pkts_sent (ev_push_event c e) = pkts_sent c" "pkts_recv (ev_push_event c e) = pkts_recv c"
  "conn_cfg (ev_push_event c e) = conn_cfg c" "channels (ev_push_event c e) = channels c"
  "next_chan_id (ev_push_event c e) = next_chan_id c" "chan_pool (ev_push_event c e) = chan_pool c"
  "chan_used (ev_push_event c e) = chan_used c" "pool_free (ev_push_event c e) = pool_free c"
  "pool_free_top (ev_push_event c e) = pool_free_top c" "pool_store (ev_push_event c e) = pool_store c"
  "ev_head (ev_push_event c e) = ev_head c" "ctrl_buf (ev_push_event c e) = ctrl_buf c"
  by (simp_all add: ev_push_event_def Let_def)

lemma ev_push_frame [simp]:
  "local_id (ev_push c t p) = local_id c" "remote_id (ev_push c t p) = remote_id c"
  "is_server (ev_push c t p) = is_server c" "conn_state (ev_push c t p) = conn_state c"
  "peer_addr (ev_push c t p) = peer_addr c" "next_pkt_num (ev_push c t p) = next_pkt_num c"
  "last_recv_ms (ev_push c t p) = last_recv_ms c" "last_send_ms (ev_push c t p) = last_send_ms c"
  "connect_sent_ms (ev_push c t p) = connect_sent_ms c"
  "connect_attempts (ev_push c t p) = connect_attempts c" "ping_sent_ms (ev_push c t p) = ping_sent_ms c"
  "ping_opaque (ev_push c t p) = ping_opaque c" "rtt_ms (ev_push c t p) = rtt_ms c"
  "rtt_min_ms (ev_push c t p) = rtt_min_ms c" "pkts_sent (ev_push c t p) = pkts_sent c"
  "pkts_recv (ev_push c t p) = pkts_recv c" "conn_cfg (ev_push c t p) = conn_cfg c"
  "channels (ev_push c t p) = channels c" "next_chan_id (ev_push c t p) = next_chan_id c"
  "chan_pool (ev_push c t p) = chan_pool c" "chan_used (ev_push c t p) = chan_used c"
  "pool_free (ev_push c t p) = pool_free c" "pool_free_top (ev_push c t p) = pool_free_top c"
  "pool_store (ev_push c t p) = pool_store c" "ev_head (ev_push c t p) = ev_head c"
  "ctrl_buf (ev_push c t p) = ctrl_buf c"
  by (simp_all add: ev_push_def)

lemma ev_push_redirect_frame [simp]:
  "local_id (ev_push_redirect c a i) = local_id c" "remote_id (ev_push_redirect c a i) = remote_id c"
  "is_server (ev_push_redirect c a i) = is_server c" "conn_state (ev_push_redirect c a i) = conn_state c"
  "peer_addr (ev_push_redirect c a i) = peer_addr c"
  "next_pkt_num (ev_push_redirect c a i) = next_pkt_num c"
  "last_recv_ms (ev_push_redirect c a i) = last_recv_ms c"
  "last_send_ms (ev_push_redirect c a i) = last_send_ms c"
  "connect_sent_ms (ev_push_redirect c a i) = connect_sent_ms c"
  "connect_attempts (ev_push_redirect c a i) = connect_attempts c"
  "ping_sent_ms (ev_push_redirect c a i) = ping_sent_ms c"
  "ping_opaque (ev_push_redirect c a i) = ping_opaque c" "rtt_ms (ev_push_redirect c a i) = rtt_ms c"
  "rtt_min_ms (ev_push_redirect c a i) = rtt_min_ms c" "pkts_sent (ev_push_redirect c a i) = pkts_sent c"
  "pkts_recv (ev_push_redirect c a i) = pkts_recv c" "conn_cfg (ev_push_redirect c a i) = conn_cfg c"
  "channels (ev_push_redirect c a i) = channels c" "next_chan_id (ev_push_redirect c a i) = next_chan_id c"
  "chan_pool (ev_push_redirect c a i) = chan_pool c" "chan_used (ev_push_redirect c a i) = chan_used c"
  "pool_free (ev_push_redirect c a i) = pool_free c"
  "pool_free_top (ev_push_redirect c a i) = pool_free_top c"
  "pool_store (ev_push_redirect c a i) = pool_store c" "ev_head (ev_push_redirect c a i) = ev_head c"
  "ctrl_buf (ev_push_redirect c a i) = ctrl_buf c"
  by (simp_all add: ev_push_redirect_def)

lemma ctrl_reserve_frame [simp]:
  "local_id (ctrl_reserve c x) = local_id c" "remote_id (ctrl_reserve c x) = remote_id c"
  "is_server (ctrl_reserve c x) = is_server c" "conn_state (ctrl_reserve c x) = conn_state c"
  "peer_addr (ctrl_reserve c x) = peer_addr c" "next_pkt_num (ctrl_reserve c x) = next_pkt_num c"
  "last_recv_ms (ctrl_reserve c x) = last_recv_ms c" "last_send_ms (ctrl_reserve c x) = last_send_ms c"
  "connect_sent_ms (ctrl_reserve c x) = connect_sent_ms c"
  "connect_attempts (ctrl_reserve c x) = connect_attempts c"
  "ping_sent_ms (ctrl_reserve c x) = ping_sent_ms c" "ping_opaque (ctrl_reserve c x) = ping_opaque c"
  "rtt_ms (ctrl_reserve c x) = rtt_ms c" "rtt_min_ms (ctrl_reserve c x) = rtt_min_ms c"
  "pkts_sent (ctrl_reserve c x) = pkts_sent c" "pkts_recv (ctrl_reserve c x) = pkts_recv c"
  "conn_cfg (ctrl_reserve c x) = conn_cfg c" "channels (ctrl_reserve c x) = channels c"
  "next_chan_id (ctrl_reserve c x) = next_chan_id c" "chan_pool (ctrl_reserve c x) = chan_pool c"
  "chan_used (ctrl_reserve c x) = chan_used c" "pool_free (ctrl_reserve c x) = pool_free c"
  "pool_free_top (ctrl_reserve c x) = pool_free_top c" "pool_store (ctrl_reserve c x) = pool_store c"
  "events (ctrl_reserve c x) = events c" "ev_head (ctrl_reserve c x) = ev_head c"
  "ev_tail (ctrl_reserve c x) = ev_tail c"
  by (simp_all add: ctrl_reserve_def)

lemma ctrl_reserve_bound:
  "length (ctrl_buf c) \<le> NC_CTRL_BUF_SIZE \<Longrightarrow> length (ctrl_buf (ctrl_reserve c x)) \<le> NC_CTRL_BUF_SIZE"
  by (simp add: ctrl_reserve_def)

end
