(* ===== verification/NC_Channel.thy ===== *)
theory NC_Channel
  imports NC_Pool NC_Events
begin

text \<open>
  Channel helpers of \<open>netchan.c\<close>: allocation from the channel pool, the receive queue, in-order
  delivery out of the reorder buffer and fragment reassembly slots.  Every function takes the
  connection and the index of the channel in \<open>chan_pool\<close>.
\<close>

section \<open>Channel helpers\<close>

text \<open>The subtraction is done in \<open>unsigned\<close> before it is widened to \<open>size_t\<close>.\<close>

definition max_frag_payload :: "netchan_conn \<Rightarrow> nat" where
  "max_frag_payload c = unat (mtu (conn_cfg c) - of_nat NC_HDR_FULL_SIZE - 8)"

definition chan_reset_bufs :: "netchan_chan \<Rightarrow> netchan_chan" where
  "chan_reset_bufs ch = ch\<lparr>
     outgoing := (\<lambda>i. if i < NC_OUTGOING_SLOTS then (outgoing ch i)\<lparr>o_buf := NC_NOBUF\<rparr> else outgoing ch i),
     recv_queue := (\<lambda>i. if i < NC_RECV_QUEUE then (recv_queue ch i)\<lparr>re_buf := NC_NOBUF\<rparr> else recv_queue ch i),
     reorder := (\<lambda>i. if i < NC_REORDER_SLOTS then (reorder ch i)\<lparr>ro_buf := NC_NOBUF\<rparr> else reorder ch i),
     frags := (\<lambda>i. if i < NC_FRAG_SLOTS then (frags ch i)\<lparr>f_buf := NC_NOBUF\<rparr> else frags ch i)\<rparr>"

text \<open>Returns the index of the new channel, or \<open>None\<close> (NULL) when the channel pool is exhausted.\<close>

definition chan_new :: "netchan_conn \<Rightarrow> u8 \<Rightarrow> int \<Rightarrow> int \<Rightarrow> int \<Rightarrow> bytes \<Rightarrow> nat option \<times> netchan_conn" where
  "chan_new c cid type dir role ct =
     (case find (\<lambda>i. \<not> chan_used c i) [0 ..< NC_MAX_CHAN] of
        None \<Rightarrow> (None, c)
      | Some slot \<Rightarrow>
          (Some slot,
           c\<lparr>chan_pool := (chan_pool c)(slot := (chan_reset_bufs chan_zero)\<lparr>
                ch_id := cid, ch_type := type, ch_dir := dir, ch_role := role, ch_state := 0,
                content_type := take 63 (cstr ct), send_window := 0,
                recv_window := chan_window (conn_cfg c)\<rparr>),
             chan_used := (chan_used c)(slot := True),
             channels := (channels c)(unat cid := Some slot)\<rparr>))"

fun put_all :: "netchan_conn \<Rightarrow> int list \<Rightarrow> netchan_conn option" where
  "put_all c [] = Some c"
| "put_all c (b # bs) = do { c' \<leftarrow> pool_put c b; put_all c' bs }"

definition chan_bufs :: "netchan_chan \<Rightarrow> int list" where
  "chan_bufs ch =
     map (\<lambda>i. o_buf (outgoing ch i)) (filter (\<lambda>i. o_active (outgoing ch i)) [0 ..< NC_OUTGOING_SLOTS])
     @ map (\<lambda>i. re_buf (recv_queue ch i)) [0 ..< NC_RECV_QUEUE]
     @ map (\<lambda>i. ro_buf (reorder ch i)) [0 ..< NC_REORDER_SLOTS]
     @ map (\<lambda>i. f_buf (frags ch i)) [0 ..< NC_FRAG_SLOTS]"

definition chan_free :: "netchan_conn \<Rightarrow> nat option \<Rightarrow> netchan_conn option" where
  "chan_free c p =
     (case p of None \<Rightarrow> Some c
      | Some k \<Rightarrow> do {
          c' \<leftarrow> put_all c (chan_bufs (chan_pool c k));
          Some (c'\<lparr>channels := (channels c')(unat (ch_id (chan_pool c k)) := None),
                   chan_used := (chan_used c')(k := False)\<rparr>) })"

definition chan_recv_enqueue :: "netchan_conn \<Rightarrow> nat \<Rightarrow> bytes \<Rightarrow> (int \<times> netchan_conn) option" where
  "chan_recv_enqueue c k data =
     (let ch = chan_pool c k; next = Suc (rq_tail ch) mod NC_RECV_QUEUE in
      if next = rq_head ch then Some (NETCHAN_ERR, c)
      else if length data > NC_MAX_MSG then Some (NETCHAN_ERR_TOOBIG, c)
      else do {
        (b, c1) \<leftarrow> pool_get c;
        if b = NC_NOBUF then Some (NETCHAN_ERR_NOMEM, c1)
        else do {
          a \<leftarrow> pool_ptr b;
          c2 \<leftarrow> pool_write c1 a data;
          Some (NETCHAN_OK, upd_chan c2 k (\<lambda>ch. ch\<lparr>
            recv_queue := (recv_queue ch)(rq_tail ch := \<lparr>re_buf = b, re_len = length data\<rparr>),
            rq_tail := next,
            recv_buffered := recv_buffered ch + of_nat (length data),
            msgs_recv := msgs_recv ch + 1\<rparr>)) } })"

text \<open>One turn of the delivery loop: \<open>None\<close> inside when the loop stops.  The result of the
  enqueue is ignored, as in the source.\<close>

definition deliver_step :: "netchan_conn \<Rightarrow> nat \<Rightarrow> netchan_conn option option" where
  "deliver_step c k =
     (let ch = chan_pool c k; slot = unat (recv_seq ch) mod NC_REORDER_SLOTS; r = reorder ch slot in
      if \<not> ro_valid r \<or> ro_seq r \<noteq> recv_seq ch then Some None
      else do {
        a \<leftarrow> pool_ptr (ro_buf r);
        data \<leftarrow> pool_read c a (ro_len r);
        (_, c1) \<leftarrow> chan_recv_enqueue c k data;
        c2 \<leftarrow> pool_put (ev_push c1 NETCHAN_EV_DATA (Some k)) (ro_buf r);
        Some (Some (upd_chan c2 k (\<lambda>ch. ch\<lparr>
          reorder := (reorder ch)(slot := r\<lparr>ro_buf := NC_NOBUF, ro_valid := False\<rparr>),
          recv_seq := recv_seq ch + 1\<rparr>))) })"

text \<open>Each turn clears a valid slot of the reorder buffer, so the loop ends.\<close>

definition pending_slots :: "netchan_conn \<Rightarrow> nat \<Rightarrow> nat" where
  "pending_slots c k = card {i. i < NC_REORDER_SLOTS \<and> ro_valid (reorder (chan_pool c k) i)}"

lemma chan_recv_enqueue_reorder:
  assumes "chan_recv_enqueue c k data = Some (r, c')"
  shows "reorder (chan_pool c' k) = reorder (chan_pool c k)" "recv_seq (chan_pool c' k) = recv_seq (chan_pool c k)"
  using assms
  by (auto simp: chan_recv_enqueue_def Let_def Option.bind_eq_Some_conv split: if_splits
      dest!: pool_get_frame pool_write_frame)

lemma deliver_step_pending:
  assumes "deliver_step c k = Some (Some c')"
  shows "pending_slots c' k < pending_slots c k"
proof -
  let ?ch = "chan_pool c k"
  let ?slot = "unat (recv_seq ?ch) mod NC_REORDER_SLOTS"
  let ?r = "reorder ?ch ?slot"
  from assms have valid: "ro_valid ?r"
    by (auto simp: deliver_step_def Let_def split: if_splits)
  from assms obtain a data r c1 c2 where
    enq: "chan_recv_enqueue c k data = Some (r, c1)" and
    put: "pool_put (ev_push c1 NETCHAN_EV_DATA (Some k)) (ro_buf ?r) = Some c2" and
    c': "c' = upd_chan c2 k (\<lambda>ch. ch\<lparr>
          reorder := (reorder ch)(?slot := ?r\<lparr>ro_buf := NC_NOBUF, ro_valid := False\<rparr>),
          recv_seq := recv_seq ch + 1\<rparr>)"
    by (auto simp: deliver_step_def Let_def Option.bind_eq_Some_conv split: if_splits)
  from put have "chan_pool c2 = chan_pool c1"
    by (auto dest!: pool_put_frame)
  then have ro: "reorder (chan_pool c' k) = (reorder ?ch)(?slot := ?r\<lparr>ro_buf := NC_NOBUF, ro_valid := False\<rparr>)"
    using chan_recv_enqueue_reorder [OF enq] by (simp add: c')
  have "?slot < NC_REORDER_SLOTS" by (simp add: NC_REORDER_SLOTS_def)
  with valid have "{i. i < NC_REORDER_SLOTS \<and> ro_valid (reorder (chan_pool c' k) i)}
      \<subset> {i. i < NC_REORDER_SLOTS \<and> ro_valid (reorder ?ch i)}"
    unfolding ro by (auto split: if_splits)
  then show ?thesis unfolding pending_slots_def by (intro psubset_card_mono) auto
qed

function chan_deliver_reordered :: "netchan_conn \<Rightarrow> nat \<Rightarrow> netchan_conn option" where
  "chan_deliver_reordered c k =
     (case deliver_step c k of
        None \<Rightarrow> None
      | Some None \<Rightarrow> Some c
      | Some (Some c') \<Rightarrow> chan_deliver_reordered c' k)"
  by pat_completeness auto
termination
  by (relation "measure (\<lambda>(c, k). pending_slots c k)") (auto simp: deliver_step_pending)

declare chan_deliver_reordered.simps [simp del]

section \<open>Fragment reassembly\<close>

definition frag_find :: "netchan_chan \<Rightarrow> u16 \<Rightarrow> nat option" where
  "frag_find ch seq = find (\<lambda>i. f_active (frags ch i) \<and> f_seq (frags ch i) = seq) [0 ..< NC_FRAG_SLOTS]"

definition frag_alloc :: "netchan_conn \<Rightarrow> nat \<Rightarrow> u16 \<Rightarrow> u8 \<Rightarrow> (nat option \<times> netchan_conn) option" where
  "frag_alloc c k seq ftotal =
     (if unat ftotal > NC_MAX_FRAGS then Some (None, c)
      else case find (\<lambda>i. \<not> f_active (frags (chan_pool c k) i)) [0 ..< NC_FRAG_SLOTS] of
        None \<Rightarrow> Some (None, c)
      | Some i \<Rightarrow> do {
          (b, c1) \<leftarrow> pool_get c;
          if b = NC_NOBUF then Some (None, c1)
          else Some (Some i, upd_chan c1 k (\<lambda>ch. ch\<lparr>frags := (frags ch)(i :=
            frag_zero\<lparr>f_seq := seq, f_total := ftotal, f_active := True, f_buf := b\<rparr>)\<rparr>)) })"

definition frag_free :: "netchan_conn \<Rightarrow> nat \<Rightarrow> nat \<Rightarrow> netchan_conn option" where
  "frag_free c k i = do {
     c1 \<leftarrow> pool_put c (f_buf (frags (chan_pool c k) i));
     Some (upd_chan c1 k (\<lambda>ch. ch\<lparr>frags := (frags ch)(i := frag_zero\<lparr>f_buf := NC_NOBUF\<rparr>)\<rparr>)) }"

text \<open>The compaction loop: \<open>n\<close> fragments remain, the next is number \<open>i\<close>, \<open>pos\<close> is where its
  bytes go.  Source and destination may overlap (\<open>memmove\<close>).\<close>

fun frag_compact :: "netchan_conn \<Rightarrow> nat \<Rightarrow> nat \<Rightarrow> (nat \<Rightarrow> nat) \<Rightarrow> nat \<Rightarrow> nat \<Rightarrow> nat \<Rightarrow> (nat \<times> netchan_conn) option" where
  "frag_compact c base fp offsets i pos 0 = Some (pos, c)"
| "frag_compact c base fp offsets i pos (Suc n) = do {
     c1 \<leftarrow> (if pos \<noteq> i * fp then do {
              bs \<leftarrow> pool_read c (base + i * fp) (offsets i);
              pool_write c (base + pos) bs }
            else Some c);
     frag_compact c1 base fp offsets (Suc i) (pos + offsets i) n }"

text \<open>
  The reassembly code both kinds of channel run on a fragment: find or allocate the slot, copy
  the payload to its place, record it, and compact the buffer when every fragment is there.
  The result is the slot, the address of the message and its length when the message is
  complete.
\<close>

definition frag_record :: "netchan_conn \<Rightarrow> nat \<Rightarrow> nat \<Rightarrow> u8 \<Rightarrow> bytes \<Rightarrow> ((nat \<times> nat \<times> nat) option \<times> netchan_conn) option" where
  "frag_record c k i frag_idx payload =
     (let f = frags (chan_pool c k) i; off = unat frag_idx * max_frag_payload c;
          f' = f\<lparr>f_offsets := (f_offsets f)(unat frag_idx := length payload),
                 f_bitmask := f_bitmask f OR push_bit (unat frag_idx) 1,
                 f_have := f_have f + 1\<rparr> in
      if \<not> (frag_idx < f_total f \<and> \<not> bit (f_bitmask f) (unat frag_idx)) then Some (None, c)
      else if \<not> off + length payload \<le> NC_MAX_MSG then Some (None, c)
      else do {
        base \<leftarrow> pool_ptr (f_buf f);
        c1 \<leftarrow> pool_write c (base + off) payload;
        let c2 = upd_chan c1 k (\<lambda>ch. ch\<lparr>frags := (frags ch)(i := f')\<rparr>) in
        if f_have f' = f_total f' then do {
          (pos, c3) \<leftarrow> frag_compact c2 base (max_frag_payload c2) (f_offsets f') 0 0 (unat (f_total f'));
          Some (Some (i, base, pos), c3) }
        else Some (None, c2) })"

definition frag_input :: "netchan_conn \<Rightarrow> nat \<Rightarrow> u16 \<Rightarrow> u8 \<Rightarrow> u8 \<Rightarrow> bytes \<Rightarrow> ((nat \<times> nat \<times> nat) option \<times> netchan_conn) option" where
  "frag_input c k seq frag_idx frag_total payload = do {
     (fo, c0) \<leftarrow> (case frag_find (chan_pool c k) seq of
                    Some i \<Rightarrow> Some (Some i, c)
                  | None \<Rightarrow> frag_alloc c k seq frag_total);
     case fo of
       None \<Rightarrow> Some (None, c0)
     | Some i \<Rightarrow> frag_record c0 k i frag_idx payload }"

lemma max_frag_payload_frame [simp]:
  "max_frag_payload (upd_chan c k f) = max_frag_payload c"
  "max_frag_payload (c\<lparr>pool_store := m\<rparr>) = max_frag_payload c"
  by (simp_all add: max_frag_payload_def)

end
