(* ===== verification/NC_Frames.thy ===== *)
theory NC_Frames
  imports NC_Channel
begin

text \<open>
  Frame processing and packet parsing of \<open>netchan.c\<close>.  A handler receives the bytes from its
  frame to the end of the datagram and returns the number of bytes it consumed or a negative
  error code, with the new connection; \<open>None\<close> is undefined behaviour.  The clock and the
  entropy source are an environment: \<open>env_now e i\<close> and \<open>env_entropy e i\<close> are the readings
  taken at call site \<open>i\<close> (the offset of the frame that asks for them), so no assumption is made
  about how the clock moves between calls.
\<close>

section \<open>Clock and random ids\<close>

record nc_env =
  env_now :: "nat \<Rightarrow> u32"
  env_entropy :: "nat \<Rightarrow> u32 option"
  env_here :: u64

definition nc_random_id :: "nc_env \<Rightarrow> nat \<Rightarrow> u32" where
  "nc_random_id e i =
     (let id0 = (case env_entropy e i of Some v \<Rightarrow> v | None \<Rightarrow> 0);
          id1 = (if id0 = 0
                 then (env_now e i * 2654435761)
                        XOR (ucast (env_here e) XOR ucast (drop_bit 16 (env_here e)))
                 else id0)
      in if id1 = 0 then 1 else id1)"

section \<open>Connection frames\<close>

definition process_connect_init :: "nc_env \<Rightarrow> nat \<Rightarrow> netchan_conn \<Rightarrow> bytes \<Rightarrow> (int \<times> netchan_conn) option" where
  "process_connect_init e i c p =
     (if length p < 6 then Some (NETCHAN_ERR_PROTO, c)
      else if \<not> is_server c then Some (NETCHAN_ERR_PROTO, c)
      else do {
        client_id \<leftarrow> rd32 p 1;
        version \<leftarrow> rd8 p 5;
        if version \<noteq> NC_VERSION then Some (NETCHAN_ERR_PROTO, c)
        else
          let c1 = c\<lparr>remote_id := client_id\<rparr> in
          if conn_state c1 = NETCHAN_STATE_NEW
          then Some (6, c1\<lparr>local_id := nc_random_id e i, conn_state := NETCHAN_STATE_CONNECTING\<rparr>)
          else Some (6, c1) })"

definition process_connect_accept :: "netchan_conn \<Rightarrow> bytes \<Rightarrow> (int \<times> netchan_conn) option" where
  "process_connect_accept c p =
     (if length p < 10 then Some (NETCHAN_ERR_PROTO, c)
      else if is_server c then Some (NETCHAN_ERR_PROTO, c)
      else do {
        server_id \<leftarrow> rd32 p 1;
        version \<leftarrow> rd8 p 5;
        idle \<leftarrow> rd32 p 6;
        Some (10, ev_push (c\<lparr>remote_id := server_id, conn_state := NETCHAN_STATE_CONNECTED\<rparr>)
                    NETCHAN_EV_CONNECTED None) })"

definition process_connect_redirect :: "netchan_conn \<Rightarrow> bytes \<Rightarrow> (int \<times> netchan_conn) option" where
  "process_connect_redirect c p =
     (if length p < 12 then Some (NETCHAN_ERR_PROTO, c)
      else do {
        new_id \<leftarrow> rd32 p 1;
        addr_type \<leftarrow> rd8 p 5;
        if addr_type = 4 then
          if length p < 12 then Some (NETCHAN_ERR_PROTO, c)
          else do {
            ip \<leftarrow> rd_bytes p 6 4;
            port \<leftarrow> rd_bytes p 10 2;
            Some (12, ev_push_redirect c
              \<lparr>a_len = 7, a_bytes = [4] @ ip @ port @ replicate (NC_ADDR_MAX - 7) 0\<rparr> new_id) }
        else if addr_type = 6 then
          if length p < 24 then Some (NETCHAN_ERR_PROTO, c)
          else do {
            ip \<leftarrow> rd_bytes p 6 16;
            port \<leftarrow> rd_bytes p 22 2;
            Some (24, ev_push_redirect c
              \<lparr>a_len = 19, a_bytes = [6] @ ip @ port @ replicate (NC_ADDR_MAX - 19) 0\<rparr> new_id) }
        else Some (NETCHAN_ERR_PROTO, c) })"

definition process_disconnect :: "netchan_conn \<Rightarrow> bytes \<Rightarrow> (int \<times> netchan_conn) option" where
  "process_disconnect c p =
     (if length p < 3 then Some (NETCHAN_ERR_PROTO, c)
      else Some (3,
        case conn_state c of
          NETCHAN_STATE_CONNECTING \<Rightarrow>
            ev_push (c\<lparr>conn_state := NETCHAN_STATE_CLOSED\<rparr>) NETCHAN_EV_DISCONNECTED None
        | NETCHAN_STATE_CONNECTED \<Rightarrow>
            ev_push (c\<lparr>conn_state := NETCHAN_STATE_CLOSED\<rparr>) NETCHAN_EV_DISCONNECTED None
        | NETCHAN_STATE_CLOSING \<Rightarrow> c\<lparr>conn_state := NETCHAN_STATE_CLOSED\<rparr>
        | _ \<Rightarrow> c))"

definition process_ping :: "netchan_conn \<Rightarrow> bytes \<Rightarrow> (int \<times> netchan_conn) option" where
  "process_ping c p =
     (if length p < 5 then Some (NETCHAN_ERR_PROTO, c)
      else do { opaque \<leftarrow> rd32 p 1; Some (5, ctrl_pong c opaque) })"

definition process_pong :: "nc_env \<Rightarrow> nat \<Rightarrow> netchan_conn \<Rightarrow> bytes \<Rightarrow> (int \<times> netchan_conn) option" where
  "process_pong e i c p =
     (if length p < 5 then Some (NETCHAN_ERR_PROTO, c)
      else do {
        opaque \<leftarrow> rd32 p 1;
        if opaque = ping_opaque c \<and> ping_sent_ms c \<noteq> 0 then
          let rtt = env_now e i - ping_sent_ms c in
          Some (5, c\<lparr>rtt_ms := rtt,
                     rtt_min_ms := (if rtt_min_ms c = 0 \<or> rtt < rtt_min_ms c then rtt else rtt_min_ms c),
                     ping_sent_ms := 0\<rparr>)
        else Some (5, c) })"

section \<open>Channel frames\<close>

definition process_channel_open :: "netchan_conn \<Rightarrow> bytes \<Rightarrow> (int \<times> netchan_conn) option" where
  "process_channel_open c p =
     (if length p < 5 then Some (NETCHAN_ERR_PROTO, c)
      else do {
        chan_id \<leftarrow> rd8 p 1;
        type \<leftarrow> rd8 p 2;
        dir \<leftarrow> rd8 p 3;
        ct_len \<leftarrow> rd8 p 4;
        let consumed = 5 + uint ct_len in
        if length p < 5 + unat ct_len then Some (NETCHAN_ERR_PROTO, c)
        else if channels c (unat chan_id) \<noteq> None then Some (consumed, ctrl_channel_close c chan_id 1)
        else do {
          let local_role = (if uint dir = NETCHAN_DIR_SEND then 1 else 0);
          ct \<leftarrow> rd_bytes p 5 (min (unat ct_len) 63);
          case chan_new c chan_id (uint type) (uint dir) local_role ct of
            (None, c1) \<Rightarrow> Some (consumed, ctrl_channel_close c1 chan_id 1)
          | (Some k, c1) \<Rightarrow>
              let c2 = upd_chan c1 k (\<lambda>ch. ch\<lparr>ch_state := 1\<rparr>);
                  c3 = (if local_role = 1
                        then ctrl_window_update c2 chan_id (recv_window (chan_pool c2 k)) else c2)
              in Some (consumed, ev_push c3 NETCHAN_EV_CHAN_OPEN (Some k)) } })"

definition process_channel_close :: "netchan_conn \<Rightarrow> bytes \<Rightarrow> (int \<times> netchan_conn) option" where
  "process_channel_close c p =
     (if length p < 4 then Some (NETCHAN_ERR_PROTO, c)
      else do {
        chan_id \<leftarrow> rd8 p 1;
        case channels c (unat chan_id) of
          None \<Rightarrow> Some (4, c)
        | Some k \<Rightarrow> Some (4, ev_push (upd_chan c k (\<lambda>ch. ch\<lparr>ch_state := 3\<rparr>))
                               NETCHAN_EV_CHAN_CLOSE (Some k)) })"

section \<open>Data\<close>

text \<open>\<open>(int16_t)(a - b)\<close>\<close>

definition seq_diff :: "u16 \<Rightarrow> u16 \<Rightarrow> int" where
  "seq_diff a b = sint (a - b)"

text \<open>The message with the expected sequence number: enqueue, announce, advance, drain the
  reorder buffer.\<close>

definition deliver_in_order :: "netchan_conn \<Rightarrow> nat \<Rightarrow> bytes \<Rightarrow> netchan_conn option" where
  "deliver_in_order c k data = do {
     (_, c1) \<leftarrow> chan_recv_enqueue c k data;
     chan_deliver_reordered
       (upd_chan (ev_push c1 NETCHAN_EV_DATA (Some k)) k (\<lambda>ch. ch\<lparr>recv_seq := recv_seq ch + 1\<rparr>)) k }"

text \<open>A message ahead of the expected one waits in the reorder buffer, if its slot and a
  buffer are free.\<close>

definition store_reordered :: "netchan_conn \<Rightarrow> nat \<Rightarrow> u16 \<Rightarrow> bytes \<Rightarrow> netchan_conn option" where
  "store_reordered c k seq data =
     (let ch = chan_pool c k; diff = seq_diff seq (recv_seq ch);
          slot = unat seq mod NC_REORDER_SLOTS in
      if 0 < diff \<and> diff < int NC_REORDER_SLOTS then
        if \<not> ro_valid (reorder ch slot) \<and> length data \<le> NC_MAX_MSG then do {
          (b, c1) \<leftarrow> pool_get c;
          if b \<noteq> NC_NOBUF then do {
            a \<leftarrow> pool_ptr b;
            c2 \<leftarrow> pool_write c1 a data;
            Some (upd_chan c2 k (\<lambda>ch. ch\<lparr>reorder := (reorder ch)(slot :=
              \<lparr>ro_seq = seq, ro_buf = b, ro_len = length data, ro_valid = True\<rparr>)\<rparr>)) }
          else Some c1 }
        else Some c
      else Some c)"

definition accept_reliable :: "netchan_conn \<Rightarrow> nat \<Rightarrow> u16 \<Rightarrow> bytes \<Rightarrow> netchan_conn option" where
  "accept_reliable c k seq data =
     (if seq = recv_seq (chan_pool c k) then deliver_in_order c k data
      else store_reordered c k seq data)"

definition data_unreliable :: "netchan_conn \<Rightarrow> nat \<Rightarrow> u16 \<Rightarrow> u8 \<Rightarrow> u8 \<Rightarrow> bytes \<Rightarrow> netchan_conn option" where
  "data_unreliable c k seq frag_idx frag_total payload =
     (if frag_total \<le> 1 then do {
        (_, c1) \<leftarrow> chan_recv_enqueue c k payload;
        Some (ev_push c1 NETCHAN_EV_DATA (Some k)) }
      else do {
        (done, c1) \<leftarrow> frag_input c k seq frag_idx frag_total payload;
        case done of
          None \<Rightarrow> Some c1
        | Some (i, base, pos) \<Rightarrow> do {
            (_, c2) \<leftarrow> chan_recv_enqueue c1 k (mem_read (pool_store c1) base pos);
            frag_free (ev_push c2 NETCHAN_EV_DATA (Some k)) k i } })"

definition data_reliable :: "netchan_conn \<Rightarrow> nat \<Rightarrow> u16 \<Rightarrow> u8 \<Rightarrow> u8 \<Rightarrow> bytes \<Rightarrow> netchan_conn option" where
  "data_reliable c k seq frag_idx frag_total payload =
     (if frag_total \<le> 1 then accept_reliable c k seq payload
      else do {
        (done, c1) \<leftarrow> frag_input c k seq frag_idx frag_total payload;
        case done of
          None \<Rightarrow> Some c1
        | Some (i, base, pos) \<Rightarrow> do {
            c2 \<leftarrow> accept_reliable c1 k seq (mem_read (pool_store c1) base pos);
            frag_free c2 k i } })"

definition mark_ack :: "netchan_conn \<Rightarrow> nat \<Rightarrow> netchan_conn" where
  "mark_ack c k = upd_chan c k (\<lambda>ch. ch\<lparr>need_ack := True,
     ack_seq := (if 0 < recv_seq ch then recv_seq ch - 1 else 0)\<rparr>)"

definition process_data :: "netchan_conn \<Rightarrow> bytes \<Rightarrow> (int \<times> netchan_conn) option" where
  "process_data c p =
     (if length p < 8 then Some (NETCHAN_ERR_PROTO, c)
      else do {
        chan_id \<leftarrow> rd8 p 1;
        seq \<leftarrow> rd16 p 2;
        data_len \<leftarrow> rd16 p 4;
        frag_idx \<leftarrow> rd8 p 6;
        frag_total \<leftarrow> rd8 p 7;
        let consumed = 8 + uint data_len in
        if length p < 8 + unat data_len then Some (NETCHAN_ERR_PROTO, c)
        else do {
          payload \<leftarrow> rd_bytes p 8 (unat data_len);
          case channels c (unat chan_id) of
            None \<Rightarrow> Some (consumed, c)
          | Some k \<Rightarrow>
              if ch_role (chan_pool c k) \<noteq> 1 then Some (consumed, c)
              else if ch_type (chan_pool c k) = NETCHAN_UNRELIABLE then do {
                c1 \<leftarrow> data_unreliable c k seq frag_idx frag_total payload;
                Some (consumed, c1) }
              else do {
                c1 \<leftarrow> data_reliable c k seq frag_idx frag_total payload;
                Some (consumed, mark_ack c1 k) } } })"

section \<open>Acknowledgement and flow control\<close>

text \<open>The scan over the outgoing slots, from slot \<open>i\<close> on.\<close>

fun ack_slots :: "netchan_conn \<Rightarrow> nat \<Rightarrow> u16 \<Rightarrow> nat list \<Rightarrow> netchan_conn option" where
  "ack_slots c k acked_seq [] = Some c"
| "ack_slots c k acked_seq (i # is) =
     (let o1 = outgoing (chan_pool c k) i in
      if o_active o1 \<and> seq_diff (o_seq o1) acked_seq \<le> 0 then do {
        c1 \<leftarrow> pool_put c (o_buf o1);
        ack_slots (upd_chan c1 k (\<lambda>ch. ch\<lparr>
            bytes_in_flight := bytes_in_flight ch - of_nat (o_len o1),
            msgs_acked := msgs_acked ch + 1,
            outgoing := (outgoing ch)(i := o1\<lparr>o_buf := NC_NOBUF, o_active := False\<rparr>)\<rparr>))
          k acked_seq is }
      else ack_slots c k acked_seq is)"

text \<open>\<open>while (out_head != out_tail && !outgoing[out_head].active)\<close>; a loop that never ends is
  \<open>None\<close>.\<close>

partial_function (option) advance_head :: "(nat \<Rightarrow> nc_outgoing) \<Rightarrow> nat \<Rightarrow> nat \<Rightarrow> nat option" where
  "advance_head out h t =
     (if h \<noteq> t \<and> \<not> o_active (out h) then advance_head out (Suc h mod NC_OUTGOING_SLOTS) t else Some h)"

declare advance_head.simps [code]

definition advance_out_head :: "netchan_conn \<Rightarrow> nat \<Rightarrow> netchan_conn option" where
  "advance_out_head c k = do {
     h \<leftarrow> advance_head (outgoing (chan_pool c k)) (out_head (chan_pool c k)) (out_tail (chan_pool c k));
     Some (upd_chan c k (\<lambda>ch. ch\<lparr>out_head := h\<rparr>)) }"

definition process_ack :: "netchan_conn \<Rightarrow> bytes \<Rightarrow> (int \<times> netchan_conn) option" where
  "process_ack c p =
     (if length p < 4 then Some (NETCHAN_ERR_PROTO, c)
      else do {
        chan_id \<leftarrow> rd8 p 1;
        acked_seq \<leftarrow> rd16 p 2;
        case channels c (unat chan_id) of
          None \<Rightarrow> Some (4, c)
        | Some k \<Rightarrow>
            if ch_role (chan_pool c k) \<noteq> 0 then Some (4, c)
            else do {
              c1 \<leftarrow> ack_slots c k acked_seq [0 ..< NC_OUTGOING_SLOTS];
              c2 \<leftarrow> advance_out_head c1 k;
              Some (4, c2) } })"

definition process_window_update :: "netchan_conn \<Rightarrow> bytes \<Rightarrow> (int \<times> netchan_conn) option" where
  "process_window_update c p =
     (if length p < 6 then Some (NETCHAN_ERR_PROTO, c)
      else do {
        chan_id \<leftarrow> rd8 p 1;
        window \<leftarrow> rd32 p 2;
        case channels c (unat chan_id) of
          None \<Rightarrow> Some (6, c)
        | Some k \<Rightarrow>
            if ch_role (chan_pool c k) = 0
            then Some (6, upd_chan c k (\<lambda>ch. ch\<lparr>send_window := window,
                   ch_state := (if ch_state ch = 0 then 1 else ch_state ch)\<rparr>))
            else Some (6, c) })"

section \<open>Packet parsing\<close>

definition process_frame :: "nc_env \<Rightarrow> nat \<Rightarrow> netchan_conn \<Rightarrow> bytes \<Rightarrow> (int \<times> netchan_conn) option" where
  "process_frame e i c p = do {
     t \<leftarrow> rd8 p 0;
     if t = NC_FRAME_CONNECT_INIT then process_connect_init e i c p
     else if t = NC_FRAME_CONNECT_ACCEPT then process_connect_accept c p
     else if t = NC_FRAME_CONNECT_REDIRECT then process_connect_redirect c p
     else if t = NC_FRAME_DISCONNECT then process_disconnect c p
     else if t = NC_FRAME_PING then process_ping c p
     else if t = NC_FRAME_PONG then process_pong e i c p
     else if t = NC_FRAME_CHANNEL_OPEN then process_channel_open c p
     else if t = NC_FRAME_CHANNEL_CLOSE then process_channel_close c p
     else if t = NC_FRAME_DATA then process_data c p
     else if t = NC_FRAME_ACK then process_ack c p
     else if t = NC_FRAME_WINDOW_UPDATE then process_window_update c p
     else Some (NETCHAN_ERR_PROTO, c) }"

text \<open>A handler that does not fail consumes at least three bytes, all of them in the datagram.\<close>

definition consumes :: "(int \<times> netchan_conn) option \<Rightarrow> bytes \<Rightarrow> bool" where
  "consumes res p \<longleftrightarrow> (\<forall>r c'. res = Some (r, c') \<longrightarrow> r < 0 \<or> 3 \<le> r \<and> nat r \<le> length p)"

lemma consumes_simps [simp]:
  "consumes None p" "consumes (Some (r, c)) p \<longleftrightarrow> r < 0 \<or> 3 \<le> r \<and> nat r \<le> length p"
  "NETCHAN_ERR_PROTO < 0"
  by (auto simp: consumes_def return_code_defs)

lemma consumes_bind: "(\<And>x. m = Some x \<Longrightarrow> consumes (f x) p) \<Longrightarrow> consumes (m \<bind> f) p"
  by (cases m) auto

lemma nat_add_uint: "nat (numeral n + uint x) = numeral n + unat x"
  by (simp add: nat_add_distrib)

lemma handlers_consume:
  "consumes (process_connect_init e i c p) p" "consumes (process_connect_accept c p) p"
  "consumes (process_connect_redirect c p) p" "consumes (process_disconnect c p) p"
  "consumes (process_ping c p) p" "consumes (process_pong e i c p) p"
  "consumes (process_channel_close c p) p" "consumes (process_ack c p) p"
  "consumes (process_window_update c p) p"
  by (auto simp: process_connect_init_def process_connect_accept_def process_connect_redirect_def
      process_disconnect_def process_ping_def process_pong_def process_channel_close_def
      process_ack_def process_window_update_def Let_def
      intro!: consumes_bind split: option.split)

lemma process_channel_open_consumes: "consumes (process_channel_open c p) p"
  by (auto simp: process_channel_open_def Let_def nat_add_uint
      intro!: consumes_bind split: option.split prod.split)

lemma process_data_consumes: "consumes (process_data c p) p"
  by (auto simp: process_data_def Let_def nat_add_uint intro!: consumes_bind split: option.split)

lemma process_frame_consumed:
  assumes "process_frame e i c p = Some (r, c')" "\<not> r < 0"
  shows "3 \<le> r \<and> nat r \<le> length p"
proof -
  have "consumes (process_frame e i c p) p"
    by (auto simp: process_frame_def handlers_consume process_channel_open_consumes
        process_data_consumes intro!: consumes_bind)
  with assms show ?thesis by (auto simp: consumes_def)
qed

function parse_frames :: "nc_env \<Rightarrow> netchan_conn \<Rightarrow> bytes \<Rightarrow> nat \<Rightarrow> (int \<times> netchan_conn) option" where
  "parse_frames e c data pos =
     (if pos < length data then
        if data ! pos = NC_FRAME_PADDING then parse_frames e c data (Suc pos)
        else (case process_frame e pos c (drop pos data) of
            None \<Rightarrow> None
          | Some (consumed, c') \<Rightarrow>
              if consumed < 0 then Some (consumed, c')
              else parse_frames e c' data (pos + nat consumed))
      else Some (NETCHAN_OK, c))"
  by pat_completeness auto
termination
  by (relation "measure (\<lambda>(e, c, data, pos). length data - pos)")
     (auto dest!: process_frame_consumed)

declare parse_frames.simps [simp del]

section \<open>Receiving a datagram\<close>

definition validate_migration :: "netchan_conn \<Rightarrow> bytes \<Rightarrow> bool option" where
  "validate_migration c frames =
     (if frames = [] then Some False
      else do {
        ftype \<leftarrow> rd8 frames 0;
        d \<leftarrow> (if ftype = NC_FRAME_DATA \<and> 4 \<le> length frames
              then do { chan_id \<leftarrow> rd8 frames 1; Some (channels c (unat chan_id) \<noteq> None) } else Some False);
        a \<leftarrow> (if ftype = NC_FRAME_ACK \<and> 2 \<le> length frames
              then do { chan_id \<leftarrow> rd8 frames 1; Some (channels c (unat chan_id) \<noteq> None) } else Some False);
        Some (d \<or> a) })"

text \<open>\<open>from->len != peer->len || memcmp(from->a, peer->a, from->len) != 0\<close>\<close>

definition addr_differs :: "nc_addr \<Rightarrow> nc_addr \<Rightarrow> bool option" where
  "addr_differs from peer =
     (if a_len from \<noteq> a_len peer then Some True
      else do {
        x \<leftarrow> rd_bytes (a_bytes from) 0 (unat (a_len from));
        y \<leftarrow> rd_bytes (a_bytes peer) 0 (unat (a_len from));
        Some (x \<noteq> y) })"

text \<open>Connection migration, then the peer address of the first packet.  \<open>from\<close> is \<open>None\<close> for a
  NULL address.\<close>

definition track_peer :: "netchan_conn \<Rightarrow> nc_addr option \<Rightarrow> bytes \<Rightarrow> netchan_conn option" where
  "track_peer c from frames =
     (case from of
        None \<Rightarrow> Some c
      | Some a \<Rightarrow> do {
          c1 \<leftarrow> (if 0 < a_len a \<and> 0 < a_len (peer_addr c) \<and> conn_state c = NETCHAN_STATE_CONNECTED then do {
                   diff \<leftarrow> addr_differs a (peer_addr c);
                   if diff then do {
                     v \<leftarrow> validate_migration c frames;
                     Some (if v then c\<lparr>peer_addr := a\<rparr> else c) }
                   else Some c }
                 else Some c);
          Some (if a_len (peer_addr c1) = 0 \<and> 0 < a_len a then c1\<lparr>peer_addr := a\<rparr> else c1) })"

text \<open>\<open>now\<close> is the clock reading taken after the header checks.\<close>

definition netchan_feed :: "nc_env \<Rightarrow> u32 \<Rightarrow> netchan_conn \<Rightarrow> bytes \<Rightarrow> nc_addr option \<Rightarrow> (int \<times> netchan_conn) option" where
  "netchan_feed e now c p from =
     (if length p < NC_HDR_INIT_SIZE then Some (NETCHAN_ERR_PROTO, c)
      else do {
        flags \<leftarrow> rd8 p 0;
        conn_id \<leftarrow> rd32 p 1;
        let init = (flags AND NC_PKT_FLAG_INIT \<noteq> 0);
            hdr_size = (if init then NC_HDR_INIT_SIZE else NC_HDR_FULL_SIZE) in
        if \<not> init \<and> length p < NC_HDR_FULL_SIZE then Some (NETCHAN_ERR_PROTO, c)
        else if \<not> init \<and> conn_id \<noteq> local_id c then Some (NETCHAN_ERR_PROTO, c)
        else do {
          c1 \<leftarrow> track_peer c from (drop hdr_size p);
          parse_frames e (c1\<lparr>last_recv_ms := now, pkts_recv := pkts_recv c1 + 1\<rparr>) (drop hdr_size p) 0 } })"

definition netchan_peek_id :: "bytes \<Rightarrow> u32 option" where
  "netchan_peek_id p = (if length p < NC_HDR_INIT_SIZE then Some 0 else rd32 p 1)"

end
