(* ===== verification/NC_Send.thy ===== *)
theory NC_Send
  imports NC_Frames
begin

text \<open>
  Building the next outgoing datagram (\<open>chan_next_sendable\<close>, \<open>netchan_send_next\<close>) and the
  timers (\<open>netchan_service\<close>).  The output buffer is the list of the bytes written so far, so
  \<open>pos\<close> is its length; a write past \<open>buflen\<close> is undefined behaviour.  \<open>env_now e i\<close> is the
  clock reading taken for channel number \<open>i\<close>, and \<open>env_now e NC_MAX_CHANNELS\<close> the last one.
\<close>

section \<open>Sending\<close>

partial_function (option) next_sendable :: "(nat \<Rightarrow> nc_outgoing) \<Rightarrow> nat \<Rightarrow> nat \<Rightarrow> nat option option" where
  "next_sendable out idx t =
     (if idx = t then Some None
      else if o_active (out idx) \<and> o_frag_sent (out idx) < o_frag_total (out idx) then Some (Some idx)
      else next_sendable out (Suc idx mod NC_OUTGOING_SLOTS) t)"

declare next_sendable.simps [code]

definition chan_next_sendable :: "netchan_chan \<Rightarrow> nat option option" where
  "chan_next_sendable ch = next_sendable (outgoing ch) (out_head ch) (out_tail ch)"

text \<open>The two scans over the channel table: sender channels with data, and channels of either
  role that owe an ACK or a window update.\<close>

fun has_data_scan :: "netchan_conn \<Rightarrow> nat list \<Rightarrow> bool option" where
  "has_data_scan c [] = Some False"
| "has_data_scan c (i # is) =
     (case channels c i of
        None \<Rightarrow> has_data_scan c is
      | Some k \<Rightarrow>
          let ch = chan_pool c k in do {
            s \<leftarrow> (if ch_role ch = 0 \<and> ch_state ch = 1 then chan_next_sendable ch else Some None);
            r \<leftarrow> has_data_scan c is;
            Some (s \<noteq> None \<or> (ch_role ch = 0 \<or> ch_role ch = 1) \<and> (need_ack ch \<or> need_window_update ch) \<or> r) })"

definition has_data :: "netchan_conn \<Rightarrow> bool option" where
  "has_data c = (if ctrl_buf c \<noteq> [] then Some True else has_data_scan c [0 ..< NC_MAX_CHANNELS])"

definition flush_ctrl :: "netchan_conn \<Rightarrow> nat \<Rightarrow> nat \<Rightarrow> bytes \<Rightarrow> (bytes \<times> netchan_conn) option" where
  "flush_ctrl c m buflen out =
     (if ctrl_buf c \<noteq> [] then
        let avail = size_sub m (length out); n = min (length (ctrl_buf c)) avail in do {
          out1 \<leftarrow> emit buflen out (take n (ctrl_buf c));
          Some (out1, c\<lparr>ctrl_buf := drop n (ctrl_buf c)\<rparr>) }
      else Some (out, c))"

definition window_left :: "netchan_chan \<Rightarrow> u32" where
  "window_left ch = (if recv_buffered ch < recv_window ch then recv_window ch - recv_buffered ch else 0)"

definition flush_ack :: "netchan_conn \<Rightarrow> nat \<Rightarrow> nat \<Rightarrow> nat \<Rightarrow> bytes \<Rightarrow> (bytes \<times> netchan_conn) option" where
  "flush_ack c k m buflen out =
     (if need_ack (chan_pool c k) \<and> length out + 4 \<le> m then do {
        out1 \<leftarrow> emit buflen out ([NC_FRAME_ACK, ch_id (chan_pool c k)] @ wr16 (ack_seq (chan_pool c k)));
        Some (out1, upd_chan c k (\<lambda>ch. ch\<lparr>need_ack := False\<rparr>)) }
      else Some (out, c))"

definition flush_window :: "netchan_conn \<Rightarrow> nat \<Rightarrow> nat \<Rightarrow> nat \<Rightarrow> bytes \<Rightarrow> (bytes \<times> netchan_conn) option" where
  "flush_window c k m buflen out =
     (if need_window_update (chan_pool c k) \<and> length out + 6 \<le> m then do {
        out1 \<leftarrow> emit buflen out ([NC_FRAME_WINDOW_UPDATE, ch_id (chan_pool c k)] @ wr32 (window_left (chan_pool c k)));
        Some (out1, upd_chan c k (\<lambda>ch. ch\<lparr>need_window_update := False\<rparr>)) }
      else Some (out, c))"

fun flush_acks :: "netchan_conn \<Rightarrow> nat \<Rightarrow> nat \<Rightarrow> bytes \<Rightarrow> nat list \<Rightarrow> (bytes \<times> netchan_conn) option" where
  "flush_acks c m buflen out [] = Some (out, c)"
| "flush_acks c m buflen out (i # is) =
     (if \<not> length out + 6 \<le> m then Some (out, c)
      else case channels c i of
        None \<Rightarrow> flush_acks c m buflen out is
      | Some k \<Rightarrow> do {
          (out1, c1) \<leftarrow> flush_ack c k m buflen out;
          (out2, c2) \<leftarrow> flush_window c1 k m buflen out1;
          flush_acks c2 m buflen out2 is })"

text \<open>The bookkeeping after fragment \<open>j\<close>'s slot was copied into the packet.\<close>

definition mark_sent :: "netchan_conn \<Rightarrow> nat \<Rightarrow> nat \<Rightarrow> u32 \<Rightarrow> netchan_conn option" where
  "mark_sent c k j now =
     (let o1 = outgoing (chan_pool c k) j;
          o2 = o1\<lparr>o_frag_sent := o_frag_sent o1 + 1, o_sent_ms := now,
                  o_attempts := (if o_attempts o1 = 0 then 1 else o_attempts o1)\<rparr>;
          c1 = upd_chan c k (\<lambda>ch. ch\<lparr>outgoing := (outgoing ch)(j := o2)\<rparr>) in
      if o_frag_total o2 \<le> o_frag_sent o2 \<and> ch_type (chan_pool c k) = NETCHAN_UNRELIABLE then do {
        c2 \<leftarrow> pool_put c1 (o_buf o2);
        advance_out_head (upd_chan c2 k (\<lambda>ch. ch\<lparr>outgoing :=
          (outgoing ch)(j := o2\<lparr>o_buf := NC_NOBUF, o_active := False\<rparr>)\<rparr>)) k }
      else Some c1)"

text \<open>What one channel contributes: \<open>Some None\<close> stops the scan (the fragment does not fit).\<close>

definition send_fragment :: "netchan_conn \<Rightarrow> nat \<Rightarrow> nat \<Rightarrow> u32 \<Rightarrow> nat \<Rightarrow> nat \<Rightarrow> bytes \<Rightarrow> (bytes \<times> netchan_conn) option option" where
  "send_fragment c k j now m buflen out =
     (let o1 = outgoing (chan_pool c k) j; frag_payload = max_frag_payload c;
          avail = size_sub (size_sub m (length out)) 8; fi = o_frag_sent o1;
          offset = unat fi * frag_payload; dlen = min (size_sub (o_len o1) offset) frag_payload in
      if avail < dlen then Some None
      else do {
        base \<leftarrow> pool_ptr (o_buf o1);
        payload \<leftarrow> pool_read c (base + offset) dlen;
        out1 \<leftarrow> emit buflen out ([NC_FRAME_DATA, ch_id (chan_pool c k)] @ wr16 (o_seq o1)
                 @ wr16 (of_nat dlen) @ [fi, o_frag_total o1] @ payload);
        c1 \<leftarrow> mark_sent c k j now;
        Some (Some (out1, c1)) })"

fun flush_data :: "nc_env \<Rightarrow> netchan_conn \<Rightarrow> nat \<Rightarrow> nat \<Rightarrow> bytes \<Rightarrow> nat list \<Rightarrow> (bytes \<times> netchan_conn) option" where
  "flush_data e c m buflen out [] = Some (out, c)"
| "flush_data e c m buflen out (i # is) =
     (if \<not> length out + 9 \<le> m then Some (out, c)
      else case channels c i of
        None \<Rightarrow> flush_data e c m buflen out is
      | Some k \<Rightarrow>
          let ch = chan_pool c k in
          if ch_role ch \<noteq> 0 \<or> ch_state ch \<noteq> 1 then flush_data e c m buflen out is
          else do {
            s \<leftarrow> chan_next_sendable ch;
            case s of
              None \<Rightarrow> flush_data e c m buflen out is
            | Some j \<Rightarrow> do {
                r \<leftarrow> send_fragment c k j (env_now e i) m buflen out;
                case r of
                  None \<Rightarrow> Some (out, c)
                | Some (out1, c1) \<Rightarrow> flush_data e c1 m buflen out1 is } })"

definition packet_header :: "netchan_conn \<Rightarrow> bytes \<times> netchan_conn" where
  "packet_header c =
     (if conn_state c = NETCHAN_STATE_CONNECTING \<and> \<not> is_server c
      then ([NC_PKT_FLAG_INIT] @ wr32 (local_id c), c)
      else ([NC_PKT_FLAG_PKTNUM] @ wr32 (remote_id c) @ wr16 (next_pkt_num c),
            c\<lparr>next_pkt_num := next_pkt_num c + 1\<rparr>))"

text \<open>The bytes of the datagram and the destination; the empty list stands for the return
  value 0.\<close>

definition netchan_send_next :: "nc_env \<Rightarrow> netchan_conn \<Rightarrow> nat \<Rightarrow> (bytes \<times> nc_addr option \<times> netchan_conn) option" where
  "netchan_send_next e c buflen = do {
     h \<leftarrow> has_data c;
     if \<not> h then Some ([], None, c)
     else
       let (hdr, c0) = packet_header c in
       if buflen < length hdr then Some ([], None, c)
       else
         let m = min (unat (mtu (conn_cfg c))) buflen in do {
           (out1, c1) \<leftarrow> flush_ctrl c0 m buflen hdr;
           (out2, c2) \<leftarrow> flush_acks c1 m buflen out1 [0 ..< NC_MAX_CHANNELS];
           (out3, c3) \<leftarrow> flush_data e c2 m buflen out2 [0 ..< NC_MAX_CHANNELS];
           Some (out3, Some (peer_addr c3),
                 c3\<lparr>last_send_ms := env_now e NC_MAX_CHANNELS, pkts_sent := pkts_sent c3 + 1\<rparr>) } }"

section \<open>Timers\<close>

definition sooner :: "int \<Rightarrow> int \<Rightarrow> int" where
  "sooner next_ms remain = (if next_ms < 0 \<or> remain < next_ms then remain else next_ms)"

text \<open>Handshake retry: \<open>Inl\<close> when the attempt limit is reached and the call returns.\<close>

definition service_connect :: "netchan_conn \<Rightarrow> u32 \<Rightarrow> int \<Rightarrow> netchan_conn + int \<times> netchan_conn" where
  "service_connect c now_ms next_ms =
     (if conn_state c = NETCHAN_STATE_CONNECTING \<and> \<not> is_server c then
        let elapsed = now_ms - connect_sent_ms c;
            remain = max 0 (sint (NC_CONNECT_RETRY_MS - elapsed)) in
        if NC_CONNECT_RETRY_MS \<le> elapsed then
          if NC_CONNECT_RETRIES \<le> connect_attempts c
          then Inl (ev_push (c\<lparr>conn_state := NETCHAN_STATE_CLOSED\<rparr>) NETCHAN_EV_DISCONNECTED None)
          else Inr (sooner next_ms remain,
                 (ctrl_connect_init c)\<lparr>connect_sent_ms := now_ms,
                    connect_attempts := connect_attempts c + 1\<rparr>)
        else Inr (sooner next_ms remain, c)
      else Inr (next_ms, c))"

definition service_idle :: "netchan_conn \<Rightarrow> u32 \<Rightarrow> int \<Rightarrow> netchan_conn + int \<times> netchan_conn" where
  "service_idle c now_ms next_ms =
     (if conn_state c = NETCHAN_STATE_CONNECTED \<and> 0 < last_recv_ms c then
        let idle = now_ms - last_recv_ms c in
        if idle_timeout_ms (conn_cfg c) \<le> idle
        then Inl (ev_push (c\<lparr>conn_state := NETCHAN_STATE_CLOSED\<rparr>) NETCHAN_EV_DISCONNECTED None)
        else Inr (sooner next_ms (sint (idle_timeout_ms (conn_cfg c) - idle)), c)
      else Inr (next_ms, c))"

definition service_ping :: "nc_env \<Rightarrow> netchan_conn \<Rightarrow> u32 \<Rightarrow> int \<Rightarrow> int \<times> netchan_conn" where
  "service_ping e c now_ms next_ms =
     (if conn_state c = NETCHAN_STATE_CONNECTED \<and> 0 < last_send_ms c then
        let since_send = now_ms - last_send_ms c;
            c1 = (if NC_PING_INTERVAL_MS \<le> since_send \<and> ping_sent_ms c = 0
                  then (ctrl_ping (c\<lparr>ping_opaque := nc_random_id e 0\<rparr>) (nc_random_id e 0))
                         \<lparr>ping_sent_ms := now_ms\<rparr>
                  else c) in
        if since_send < NC_PING_INTERVAL_MS
        then (sooner next_ms (sint (NC_PING_INTERVAL_MS - since_send)), c1)
        else (next_ms, c1)
      else (next_ms, c))"

text \<open>\<open>cfg.retransmit_ms << (attempts - 1)\<close>, undefined for a shift outside the word, then
  capped.\<close>

definition rt_timeout :: "u32 \<Rightarrow> u8 \<Rightarrow> u32 option" where
  "rt_timeout base attempts =
     (if attempts = 0 \<or> 32 < unat attempts then None
      else Some (min (push_bit (unat attempts - 1) base) NC_MAX_RT_MS))"

text \<open>The scan over the slots of one channel; reaching the attempt limit ends it.\<close>

fun rt_slots :: "netchan_conn \<Rightarrow> nat \<Rightarrow> u32 \<Rightarrow> int \<Rightarrow> nat list \<Rightarrow> (int \<times> netchan_conn) option" where
  "rt_slots c k now_ms next_ms [] = Some (next_ms, c)"
| "rt_slots c k now_ms next_ms (j # js) =
     (let o1 = outgoing (chan_pool c k) j in
      if \<not> o_active o1 \<or> o_sent_ms o1 = 0 then rt_slots c k now_ms next_ms js
      else do {
        timeout \<leftarrow> rt_timeout (retransmit_ms (conn_cfg c)) (o_attempts o1);
        let elapsed = now_ms - o_sent_ms o1 in
        if timeout \<le> elapsed then
          if NC_MAX_RT_ATTEMPTS \<le> o_attempts o1
          then Some (next_ms, ev_push (upd_chan c k (\<lambda>ch. ch\<lparr>ch_state := 3\<rparr>)) NETCHAN_EV_CHAN_CLOSE (Some k))
          else rt_slots (upd_chan c k (\<lambda>ch. ch\<lparr>
                 outgoing := (outgoing ch)(j := o1\<lparr>o_frag_sent := 0, o_sent_ms := now_ms,
                   o_attempts := o_attempts o1 + 1\<rparr>),
                 retransmissions := retransmissions ch + 1\<rparr>)) k now_ms next_ms js
        else rt_slots c k now_ms (sooner next_ms (sint (timeout - elapsed))) js })"

fun service_retransmit :: "netchan_conn \<Rightarrow> u32 \<Rightarrow> int \<Rightarrow> nat list \<Rightarrow> (int \<times> netchan_conn) option" where
  "service_retransmit c now_ms next_ms [] = Some (next_ms, c)"
| "service_retransmit c now_ms next_ms (i # is) =
     (case channels c i of
        None \<Rightarrow> service_retransmit c now_ms next_ms is
      | Some k \<Rightarrow>
          if ch_role (chan_pool c k) \<noteq> 0 \<or> ch_type (chan_pool c k) \<noteq> NETCHAN_RELIABLE
          then service_retransmit c now_ms next_ms is
          else do {
            (next1, c1) \<leftarrow> rt_slots c k now_ms next_ms [0 ..< NC_OUTGOING_SLOTS];
            service_retransmit c1 now_ms next1 is })"

definition netchan_service :: "nc_env \<Rightarrow> netchan_conn \<Rightarrow> u32 \<Rightarrow> (int \<times> netchan_conn) option" where
  "netchan_service e c now_ms =
     (case service_connect c now_ms (-1) of
        Inl c1 \<Rightarrow> Some (NETCHAN_ERR, c1)
      | Inr (next1, c1) \<Rightarrow>
        (case service_idle c1 now_ms next1 of
           Inl c2 \<Rightarrow> Some (NETCHAN_ERR, c2)
         | Inr (next2, c2) \<Rightarrow>
             let (next3, c3) = service_ping e c2 now_ms next2 in
             service_retransmit c3 now_ms next3 [0 ..< NC_MAX_CHANNELS]))"

end
