(* ===== verification/NC_Api.thy ===== *)
theory NC_Api
  imports NC_Send
begin

text \<open>
  The rest of the public API of \<open>netchan.c\<close>: configuration, connection lifecycle, channels,
  reading and writing messages, statistics.  A NULL channel argument is \<open>None\<close>.
\<close>

section \<open>Configuration and lifecycle\<close>

definition netchan_cfg_default :: netchan_cfg where
  "netchan_cfg_default = \<lparr>mtu = NC_DEFAULT_MTU, chan_window = NC_DEFAULT_WINDOW,
     idle_timeout_ms = NC_DEFAULT_IDLE_MS, retransmit_ms = NC_DEFAULT_RT_MS\<rparr>"

text \<open>\<open>netchan_open\<close> when \<open>calloc\<close> succeeds.\<close>

definition netchan_open :: "bool \<Rightarrow> netchan_conn" where
  "netchan_open server =
     (pool_init (conn_zero\<lparr>is_server := server, conn_state := NETCHAN_STATE_NEW,
        next_chan_id := (if server then 1 else 0), rtt_ms := 100\<rparr>))
     \<lparr>conn_cfg := netchan_cfg_default\<rparr>"

definition netchan_disconnect :: "netchan_conn \<Rightarrow> netchan_conn" where
  "netchan_disconnect c =
     (if conn_state c \<noteq> NETCHAN_STATE_CONNECTED then c
      else (ctrl_disconnect c 0)\<lparr>conn_state := NETCHAN_STATE_CLOSING\<rparr>)"

text \<open>The state of the object just before \<open>free\<close>.\<close>

fun close_channels :: "netchan_conn \<Rightarrow> nat list \<Rightarrow> netchan_conn option" where
  "close_channels c [] = Some c"
| "close_channels c (i # is) = do { c' \<leftarrow> chan_free c (channels c i); close_channels c' is }"

definition netchan_close :: "netchan_conn \<Rightarrow> netchan_conn option" where
  "netchan_close c = close_channels c [0 ..< NC_MAX_CHANNELS]"

definition netchan_config :: "netchan_conn \<Rightarrow> netchan_cfg \<Rightarrow> netchan_conn" where
  "netchan_config c cfg = c\<lparr>conn_cfg := cfg\<rparr>"

definition netchan_state :: "netchan_conn \<Rightarrow> conn_state_t" where
  "netchan_state c = conn_state c"

definition netchan_id :: "netchan_conn \<Rightarrow> u32" where
  "netchan_id c = local_id c"

definition netchan_connect :: "nc_env \<Rightarrow> netchan_conn \<Rightarrow> nc_addr \<Rightarrow> int \<times> netchan_conn" where
  "netchan_connect e c addr =
     (if is_server c then (NETCHAN_ERR, c)
      else if conn_state c \<noteq> NETCHAN_STATE_NEW then (NETCHAN_ERR, c)
      else
        let c1 = c\<lparr>local_id := nc_random_id e 0, peer_addr := addr, conn_state := NETCHAN_STATE_CONNECTING\<rparr> in
        (NETCHAN_OK, (ctrl_connect_init c1)\<lparr>connect_sent_ms := env_now e 1, connect_attempts := 1\<rparr>))"

definition netchan_accept :: "netchan_conn \<Rightarrow> int \<times> netchan_conn" where
  "netchan_accept c =
     (if \<not> is_server c then (NETCHAN_ERR, c)
      else if conn_state c \<noteq> NETCHAN_STATE_CONNECTING then (NETCHAN_ERR, c)
      else (NETCHAN_OK, ev_push ((ctrl_connect_accept c)\<lparr>conn_state := NETCHAN_STATE_CONNECTED\<rparr>)
              NETCHAN_EV_CONNECTED None))"

section \<open>Channels\<close>

definition netchan_chan_open :: "netchan_conn \<Rightarrow> int \<Rightarrow> int \<Rightarrow> bytes \<Rightarrow> nat option \<times> netchan_conn" where
  "netchan_chan_open c type dir ct =
     (if conn_state c \<noteq> NETCHAN_STATE_CONNECTED then (None, c)
      else let cid = next_chan_id c in
        if channels c (unat cid) \<noteq> None then (None, c)
        else
          let c1 = c\<lparr>next_chan_id := next_chan_id c + 2\<rparr>;
              local_role = (if dir = NETCHAN_DIR_SEND then 0 else 1) in
          (case chan_new c1 cid type dir local_role ct of
             (None, c2) \<Rightarrow> (None, c2)
           | (Some k, c2) \<Rightarrow>
               let c3 = ctrl_channel_open c2 (chan_pool c2 k) in
               if local_role = 1
               then (Some k, upd_chan (ctrl_window_update c3 cid (recv_window (chan_pool c3 k))) k
                       (\<lambda>ch. ch\<lparr>ch_state := 1\<rparr>))
               else (Some k, c3)))"

definition netchan_chan_close :: "netchan_conn \<Rightarrow> nat option \<Rightarrow> netchan_conn" where
  "netchan_chan_close c p =
     (case p of None \<Rightarrow> c
      | Some k \<Rightarrow>
          if 2 \<le> ch_state (chan_pool c k) then c
          else upd_chan (ctrl_channel_close c (ch_id (chan_pool c k)) 0) k (\<lambda>ch. ch\<lparr>ch_state := 2\<rparr>))"

definition netchan_chan_id :: "netchan_conn \<Rightarrow> nat \<Rightarrow> int" where
  "netchan_chan_id c k = uint (ch_id (chan_pool c k))"

definition netchan_chan_type :: "netchan_conn \<Rightarrow> nat \<Rightarrow> int" where
  "netchan_chan_type c k = ch_type (chan_pool c k)"

definition netchan_chan_content_type :: "netchan_conn \<Rightarrow> nat \<Rightarrow> bytes" where
  "netchan_chan_content_type c k = content_type (chan_pool c k)"

definition netchan_chan_state :: "netchan_conn \<Rightarrow> nat \<Rightarrow> int" where
  "netchan_chan_state c k = ch_state (chan_pool c k)"

text \<open>The number of fragments, cut to a byte as the source does; a zero fragment payload is a
  division by zero.\<close>

definition frag_count :: "netchan_conn \<Rightarrow> nat \<Rightarrow> u8 option" where
  "frag_count c len =
     (let fp = max_frag_payload c in
      if fp = 0 then None
      else let n = (of_nat ((len + fp - 1) div fp) :: u8) in Some (if n = 0 then 1 else n))"

text \<open>The message goes into buffer \<open>b\<close> and the slot at the tail of the outgoing ring.\<close>

definition queue_message :: "netchan_conn \<Rightarrow> nat \<Rightarrow> int \<Rightarrow> bytes \<Rightarrow> (int \<times> netchan_conn) option" where
  "queue_message c k b data = do {
     a \<leftarrow> pool_ptr b;
     c2 \<leftarrow> pool_write c a data;
     ft \<leftarrow> frag_count c2 (length data);
     let o1 = outgoing_zero\<lparr>o_buf := b, o_len := length data, o_seq := send_seq (chan_pool c k),
                o_active := True, o_frag_total := ft\<rparr>;
         c3 = upd_chan c2 k (\<lambda>ch. ch\<lparr>send_seq := send_seq ch + 1\<rparr>) in
     if unat ft > NC_MAX_FRAGS then do {
       c4 \<leftarrow> pool_put c3 b;
       Some (NETCHAN_ERR_TOOBIG, upd_chan c4 k (\<lambda>ch. ch\<lparr>outgoing :=
         (outgoing ch)(out_tail ch := outgoing_zero\<lparr>o_buf := NC_NOBUF\<rparr>)\<rparr>)) }
     else
       Some (int (length data), upd_chan c3 k (\<lambda>ch. ch\<lparr>
         outgoing := (outgoing ch)(out_tail ch := o1),
         bytes_in_flight := (if ch_type ch = NETCHAN_RELIABLE
           then bytes_in_flight ch + of_nat (length data) else bytes_in_flight ch),
         msgs_sent := msgs_sent ch + 1,
         out_tail := Suc (out_tail ch) mod NC_OUTGOING_SLOTS\<rparr>)) }"

definition netchan_chan_write :: "netchan_conn \<Rightarrow> nat option \<Rightarrow> bytes \<Rightarrow> (int \<times> netchan_conn) option" where
  "netchan_chan_write c p data =
     (case p of None \<Rightarrow> Some (NETCHAN_ERR, c)
      | Some k \<Rightarrow>
        (let ch = chan_pool c k; len = length data in
         if ch_role ch \<noteq> 0 then Some (NETCHAN_ERR, c)
         else if ch_state ch = 3 then Some (NETCHAN_ERR_CLOSED, c)
         else if len = 0 then Some (0, c)
         else if len > NC_MAX_MSG then Some (NETCHAN_ERR_TOOBIG, c)
         else if ch_type ch = NETCHAN_RELIABLE \<and> ch_state ch = 1
               \<and> unat (bytes_in_flight ch) + len > unat (send_window ch) then Some (NETCHAN_ERR_FLOW, c)
         else if Suc (out_tail ch) mod NC_OUTGOING_SLOTS = out_head ch then Some (NETCHAN_ERR_AGAIN, c)
         else do {
           (b, c1) \<leftarrow> pool_get c;
           if b = NC_NOBUF then Some (NETCHAN_ERR_NOMEM, c1)
           else queue_message c1 k b data }))"

text \<open>The bytes copied to the caller's buffer of \<open>buflen\<close> bytes, and the return value.\<close>

definition netchan_chan_read :: "netchan_conn \<Rightarrow> nat option \<Rightarrow> nat \<Rightarrow> (int \<times> bytes \<times> netchan_conn) option" where
  "netchan_chan_read c p buflen =
     (case p of None \<Rightarrow> Some (NETCHAN_ERR, [], c)
      | Some k \<Rightarrow>
        (let ch = chan_pool c k in
         if ch_role ch \<noteq> 1 then Some (NETCHAN_ERR, [], c)
         else if rq_head ch = rq_tail ch then Some (0, [], c)
         else
           let e = recv_queue ch (rq_head ch); n = min (re_len e) buflen in do {
             a \<leftarrow> pool_ptr (re_buf e);
             bs \<leftarrow> pool_read c a n;
             c1 \<leftarrow> pool_put c (re_buf e);
             Some (int n, bs, upd_chan c1 k (\<lambda>ch. ch\<lparr>
               recv_queue := (recv_queue ch)(rq_head ch := \<lparr>re_buf = NC_NOBUF, re_len = 0\<rparr>),
               rq_head := Suc (rq_head ch) mod NC_RECV_QUEUE,
               recv_buffered := recv_buffered ch - of_nat n,
               need_window_update := True\<rparr>)) }))"

section \<open>Statistics\<close>

record netchan_conn_stats =
  s_rtt_ms :: u32
  s_rtt_min_ms :: u32
  s_pkts_sent :: u32
  s_pkts_recv :: u32

definition conn_stats :: "netchan_conn \<Rightarrow> netchan_conn_stats" where
  "conn_stats c = \<lparr>s_rtt_ms = rtt_ms c, s_rtt_min_ms = rtt_min_ms c,
     s_pkts_sent = pkts_sent c, s_pkts_recv = pkts_recv c\<rparr>"

record netchan_chan_stats =
  s_msgs_sent :: u32
  s_msgs_acked :: u32
  s_retransmissions :: u32
  s_msgs_recv :: u32

definition chan_stats :: "netchan_conn \<Rightarrow> nat \<Rightarrow> netchan_chan_stats" where
  "chan_stats c k = (let ch = chan_pool c k in
     \<lparr>s_msgs_sent = msgs_sent ch, s_msgs_acked = msgs_acked ch,
      s_retransmissions = retransmissions ch, s_msgs_recv = msgs_recv ch\<rparr>)"

end
