(* ===== verification/NC_Codec.thy ===== *)
theory NC_Codec
  imports NC_Api
begin

text \<open>
  Encoding and decoding agree: each frame the sender builds is taken apart by the receiver's
  handler into the same fields, whatever follows it in the datagram.  The parser steps over
  one such frame at a time, so facts about a datagram reduce to facts about its frames.
\<close>

section \<open>Frames as the sender writes them\<close>

definition data_frame :: "u8 \<Rightarrow> u16 \<Rightarrow> u8 \<Rightarrow> u8 \<Rightarrow> bytes \<Rightarrow> bytes" where
  "data_frame cid seq fi ft payload =
     [NC_FRAME_DATA, cid] @ wr16 seq @ wr16 (of_nat (length payload)) @ [fi, ft] @ payload"

definition ack_frame :: "u8 \<Rightarrow> u16 \<Rightarrow> bytes" where
  "ack_frame cid seq = [NC_FRAME_ACK, cid] @ wr16 seq"

definition window_frame :: "u8 \<Rightarrow> u32 \<Rightarrow> bytes" where
  "window_frame cid w = [NC_FRAME_WINDOW_UPDATE, cid] @ wr32 w"

definition open_frame :: "u8 \<Rightarrow> u8 \<Rightarrow> u8 \<Rightarrow> bytes \<Rightarrow> bytes" where
  "open_frame cid ty dir ct = [NC_FRAME_CHANNEL_OPEN, cid, ty, dir, of_nat (length ct)] @ ct"

definition init_frame :: "u32 \<Rightarrow> bytes" where
  "init_frame i = [NC_FRAME_CONNECT_INIT] @ wr32 i @ [NC_VERSION]"

definition accept_frame :: "u32 \<Rightarrow> u32 \<Rightarrow> bytes" where
  "accept_frame i idle = [NC_FRAME_CONNECT_ACCEPT] @ wr32 i @ [NC_VERSION] @ wr32 idle"

lemma length_frames [simp]:
  "length (data_frame cid seq fi ft payload) = 8 + length payload"
  "length (ack_frame cid seq) = 4" "length (window_frame cid w) = 6"
  "length (open_frame cid ty dir ct) = 5 + length ct"
  "length (init_frame i) = 6" "length (accept_frame i idle) = 10"
  by (simp_all add: data_frame_def ack_frame_def window_frame_def open_frame_def init_frame_def accept_frame_def)

lemma unat_of_nat_small16: "n < 65536 \<Longrightarrow> unat (of_nat n :: u16) = n"
  by (simp add: unat_of_nat take_bit_nat_eq_self)

lemma unat_of_nat_small8: "n < 256 \<Longrightarrow> unat (of_nat n :: u8) = n"
  by (simp add: unat_of_nat take_bit_nat_eq_self)

section \<open>Decoding\<close>

lemma rd16_at2: "rd16 (a # b # wr16 v @ ys) 2 = Some v"
  using rd16_append [of "[a, b]" 2 v ys] by simp

lemma rd16_at4: "rd16 (a # b # wr16 u @ wr16 v @ ys) 4 = Some v"
  using rd16_append [of "[a, b] @ wr16 u" 4 v ys] by simp

lemma rd32_at1: "rd32 (a # wr32 v @ ys) (Suc 0) = Some v"
  using rd32_append [of "[a]" 1 v ys] by simp

lemma rd32_at2: "rd32 (a # b # wr32 v @ ys) 2 = Some v"
  using rd32_append [of "[a, b]" 2 v ys] by simp

lemma rd32_at6: "rd32 (a # wr32 u @ b # wr32 v @ ys) 6 = Some v"
  using rd32_append [of "[a] @ wr32 u @ [b]" 6 v ys] by simp

lemmas rd_at = rd16_at2 rd16_at4 rd32_at1 rd32_at2 rd32_at6

lemma nth_wr32_tail: "(wr32 v @ b # ys) ! 4 = b"
  by (simp add: wr32_def numeral_eq_Suc)

definition data_payload :: "netchan_conn \<Rightarrow> u8 \<Rightarrow> u16 \<Rightarrow> u8 \<Rightarrow> u8 \<Rightarrow> bytes \<Rightarrow> netchan_conn option" where
  "data_payload c cid seq fi ft payload =
     (case channels c (unat cid) of
        None \<Rightarrow> Some c
      | Some k \<Rightarrow>
          if ch_role (chan_pool c k) \<noteq> 1 then Some c
          else if ch_type (chan_pool c k) = NETCHAN_UNRELIABLE then data_unreliable c k seq fi ft payload
          else map_option (\<lambda>c1. mark_ack c1 k) (data_reliable c k seq fi ft payload))"

lemma process_data_frame:
  assumes "length payload < 65536"
  shows "process_frame e i c (data_frame cid seq fi ft payload @ rest)
    = map_option (\<lambda>c'. (int (8 + length payload), c')) (data_payload c cid seq fi ft payload)"
proof -
  let ?p = "data_frame cid seq fi ft payload @ rest"
  have p: "?p = NC_FRAME_DATA # cid # wr16 seq @ wr16 (of_nat (length payload)) @ fi # ft # payload @ rest"
    by (simp add: data_frame_def)
  have n: "unat (of_nat (length payload) :: u16) = length payload" using assms by (rule unat_of_nat_small16)
  then have u: "uint (of_nat (length payload) :: u16) = int (length payload)" by (simp add: uint_nat)
  have len: "length ?p = 8 + length payload + length rest" by simp
  have rd: "rd8 ?p 0 = Some NC_FRAME_DATA" "rd8 ?p (Suc 0) = Some cid" "rd8 ?p 6 = Some fi" "rd8 ?p 7 = Some ft"
    "rd_bytes ?p 8 (length payload) = Some payload"
    unfolding p by (simp_all add: rd8_def rd_bytes_def wr16_def numeral_eq_Suc)
  have rd': "rd16 ?p 2 = Some seq" "rd16 ?p 4 = Some (of_nat (length payload))"
    unfolding p by (simp_all only: rd_at)
  have "process_frame e i c ?p = process_data c ?p"
    by (simp add: process_frame_def rd frame_type_defs)
  also have "\<dots> = map_option (\<lambda>c'. (int (8 + length payload), c')) (data_payload c cid seq fi ft payload)"
    unfolding process_data_def data_payload_def
    by (auto simp: rd rd' n u len Let_def map_option_case split: option.split)
  finally show ?thesis .
qed

lemma process_open_frame:
  assumes "length ct < 64"
  shows "process_frame e i c (open_frame cid ty dir ct @ rest)
    = (if channels c (unat cid) \<noteq> None then Some (int (5 + length ct), ctrl_channel_close c cid 1)
       else case chan_new c cid (uint ty) (uint dir) (if uint dir = NETCHAN_DIR_SEND then 1 else 0) ct of
            (None, c1) \<Rightarrow> Some (int (5 + length ct), ctrl_channel_close c1 cid 1)
          | (Some k, c1) \<Rightarrow>
              let c2 = upd_chan c1 k (\<lambda>ch. ch\<lparr>ch_state := 1\<rparr>);
                  c3 = (if uint dir = NETCHAN_DIR_SEND
                        then ctrl_window_update c2 cid (recv_window (chan_pool c2 k)) else c2)
              in Some (int (5 + length ct), ev_push c3 NETCHAN_EV_CHAN_OPEN (Some k)))"
proof -
  let ?p = "open_frame cid ty dir ct @ rest"
  have p: "?p = NC_FRAME_CHANNEL_OPEN # cid # ty # dir # of_nat (length ct) # ct @ rest"
    by (simp add: open_frame_def)
  have n: "unat (of_nat (length ct) :: u8) = length ct" using assms by (intro unat_of_nat_small8) simp
  then have u: "uint (of_nat (length ct) :: u8) = int (length ct)" by (simp add: uint_nat)
  have len: "length ?p = 5 + length ct + length rest" by simp
  have rd: "rd8 ?p 0 = Some NC_FRAME_CHANNEL_OPEN" "rd8 ?p (Suc 0) = Some cid" "rd8 ?p 2 = Some ty"
    "rd8 ?p 3 = Some dir" "rd8 ?p 4 = Some (of_nat (length ct))" "rd_bytes ?p 5 (min (length ct) 63) = Some ct"
    unfolding p using assms by (simp_all add: rd8_def rd_bytes_def min_absorb1 numeral_eq_Suc)
  have "process_frame e i c ?p = process_channel_open c ?p"
    by (simp add: process_frame_def rd frame_type_defs)
  then show ?thesis
    by (auto simp: process_channel_open_def rd n u len Let_def split: option.split prod.split)
qed

lemma process_ack_frame:
  "process_frame e i c (ack_frame cid seq @ rest)
    = (case channels c (unat cid) of None \<Rightarrow> Some (4, c)
       | Some k \<Rightarrow> if ch_role (chan_pool c k) \<noteq> 0 then Some (4, c)
           else do { c1 \<leftarrow> ack_slots c k seq [0 ..< NC_OUTGOING_SLOTS]; c2 \<leftarrow> advance_out_head c1 k; Some (4, c2) })"
  by (simp add: process_frame_def process_ack_def ack_frame_def rd_at frame_type_defs)

lemma process_window_frame:
  "process_frame e i c (window_frame cid w @ rest)
    = (case channels c (unat cid) of None \<Rightarrow> Some (6, c)
       | Some k \<Rightarrow> if ch_role (chan_pool c k) = 0
           then Some (6, upd_chan c k (\<lambda>ch. ch\<lparr>send_window := w, ch_state := (if ch_state ch = 0 then 1 else ch_state ch)\<rparr>))
           else Some (6, c))"
  by (simp add: process_frame_def process_window_update_def window_frame_def rd_at frame_type_defs)

lemma process_init_frame:
  "is_server c \<Longrightarrow> process_frame e i c (init_frame cl @ rest)
    = Some (6, if conn_state c = NETCHAN_STATE_NEW
               then c\<lparr>remote_id := cl, local_id := nc_random_id e i, conn_state := NETCHAN_STATE_CONNECTING\<rparr>
               else c\<lparr>remote_id := cl\<rparr>)"
  by (simp add: process_frame_def process_connect_init_def init_frame_def rd_at frame_type_defs nth_wr32_tail)

lemma process_accept_frame:
  "\<not> is_server c \<Longrightarrow> process_frame e i c (accept_frame sv idle @ rest)
    = Some (10, ev_push (c\<lparr>remote_id := sv, conn_state := NETCHAN_STATE_CONNECTED\<rparr>) NETCHAN_EV_CONNECTED None)"
  by (simp add: process_frame_def process_connect_accept_def accept_frame_def rd_at frame_type_defs nth_wr32_tail)

section \<open>Stepping over frames\<close>

lemma parse_frames_end: "pos = length data \<Longrightarrow> parse_frames e c data pos = Some (NETCHAN_OK, c)"
  by (simp add: parse_frames.simps)

lemma parse_frames_step:
  assumes "data = pre @ f @ rest" "pos = length pre" "f \<noteq> []" "hd f \<noteq> NC_FRAME_PADDING"
    and "process_frame e pos c (f @ rest) = Some (int (length f), c')"
  shows "parse_frames e c data pos = parse_frames e c' data (pos + length f)"
proof -
  have "data ! pos = hd f" "pos < length data" "drop pos data = f @ rest"
    using assms(1-3) by (simp_all add: nth_append hd_conv_nth)
  with assms(4,5) show ?thesis by (subst parse_frames.simps) simp
qed

lemma parse_frames_fault:
  assumes "data = pre @ f @ rest" "pos = length pre" "f \<noteq> []" "hd f \<noteq> NC_FRAME_PADDING"
    and "process_frame e pos c (f @ rest) = None"
  shows "parse_frames e c data pos = None"
proof -
  have "data ! pos = hd f" "pos < length data" "drop pos data = f @ rest"
    using assms(1-3) by (simp_all add: nth_append hd_conv_nth)
  with assms(4,5) show ?thesis by (subst parse_frames.simps) simp
qed

lemma frame_heads [simp]:
  "hd (data_frame cid seq fi ft pl) \<noteq> NC_FRAME_PADDING" "data_frame cid seq fi ft pl \<noteq> []"
  "hd (ack_frame cid seq) \<noteq> NC_FRAME_PADDING" "ack_frame cid seq \<noteq> []"
  "hd (window_frame cid w) \<noteq> NC_FRAME_PADDING" "window_frame cid w \<noteq> []"
  "hd (open_frame cid ty dir ct) \<noteq> NC_FRAME_PADDING" "open_frame cid ty dir ct \<noteq> []"
  "hd (init_frame i) \<noteq> NC_FRAME_PADDING" "init_frame i \<noteq> []"
  "hd (accept_frame i idle) \<noteq> NC_FRAME_PADDING" "accept_frame i idle \<noteq> []"
  by (simp_all add: data_frame_def ack_frame_def window_frame_def open_frame_def init_frame_def
      accept_frame_def frame_type_defs)

end
