(* ===== verification/NC_Invariant.thy ===== *)
theory NC_Invariant
  imports NC_Api
begin

text \<open>
  The well-formedness invariant of a connection and the ownership accounting of message buffers.
  Every buffer index is in exactly one place: on the free stack, in one slot of one channel, or
  (\<open>M\<close>) in the hands of the operation that is running.  \<open>conn_wf M c\<close> states this as one
  multiset equation, beside the bounds on the ring indices, the stored lengths and the channel
  table.  The lemmas give the effect of each primitive on the invariant; the preservation
  proofs of the operations are chains of them.
\<close>

section \<open>Ownership\<close>

definition buf_ms :: "int \<Rightarrow> int multiset" where
  "buf_ms b = (if b = NC_NOBUF then {#} else {#b#})"

definition chan_ms :: "netchan_chan \<Rightarrow> int multiset" where
  "chan_ms ch =
     (\<Sum>i<NC_OUTGOING_SLOTS. buf_ms (o_buf (outgoing ch i)))
     + (\<Sum>i<NC_RECV_QUEUE. buf_ms (re_buf (recv_queue ch i)))
     + (\<Sum>i<NC_REORDER_SLOTS. buf_ms (ro_buf (reorder ch i)))
     + (\<Sum>i<NC_FRAG_SLOTS. buf_ms (f_buf (frags ch i)))"

definition pool_ms :: "netchan_conn \<Rightarrow> int multiset" where
  "pool_ms c = free_ms c + (\<Sum>k<NC_MAX_CHAN. if chan_used c k then chan_ms (chan_pool c k) else {#})"

definition all_bufs :: "int multiset" where
  "all_bufs = mset (map int [0 ..< NC_POOL_BUFS])"

section \<open>Well-formed channels and connections\<close>

definition outgoing_wf :: "nat \<Rightarrow> nat \<Rightarrow> nat \<Rightarrow> nat \<Rightarrow> nc_outgoing \<Rightarrow> bool" where
  "outgoing_wf fp h t i o1 \<longleftrightarrow>
     (o_active o1 \<longleftrightarrow> o_buf o1 \<noteq> NC_NOBUF) \<and>
     (o_active o1 \<longrightarrow> ring_in NC_OUTGOING_SLOTS h t i \<and> o_len o1 \<le> NC_MAX_MSG \<and>
        0 < o_frag_total o1 \<and> unat (o_frag_total o1) \<le> NC_MAX_FRAGS \<and>
        (unat (o_frag_total o1) - 1) * fp \<le> o_len o1 \<and>
        o_attempts o1 \<le> NC_MAX_RT_ATTEMPTS \<and> (o_sent_ms o1 \<noteq> 0 \<longrightarrow> 0 < o_attempts o1))"

definition recv_wf :: "nat \<Rightarrow> nat \<Rightarrow> nat \<Rightarrow> nc_recv_entry \<Rightarrow> bool" where
  "recv_wf h t i e \<longleftrightarrow>
     (re_buf e \<noteq> NC_NOBUF \<longleftrightarrow> ring_in NC_RECV_QUEUE h t i) \<and> re_len e \<le> NC_MAX_MSG"

definition reorder_wf :: "nat \<Rightarrow> nc_reorder \<Rightarrow> bool" where
  "reorder_wf i r \<longleftrightarrow> (ro_valid r \<longleftrightarrow> ro_buf r \<noteq> NC_NOBUF) \<and> ro_len r \<le> NC_MAX_MSG \<and>
     (ro_valid r \<longrightarrow> unat (ro_seq r) mod NC_REORDER_SLOTS = i)"

definition frag_wf :: "nat \<Rightarrow> nc_frag_asm \<Rightarrow> bool" where
  "frag_wf fp f \<longleftrightarrow> (f_active f \<longleftrightarrow> f_buf f \<noteq> NC_NOBUF) \<and> unat (f_total f) \<le> NC_MAX_FRAGS \<and>
     (\<forall>j. f_offsets f j \<le> fp \<and> (f_offsets f j \<noteq> 0 \<longrightarrow> j * fp + f_offsets f j \<le> NC_MAX_MSG))"

definition chan_wf :: "nat \<Rightarrow> netchan_chan \<Rightarrow> bool" where
  "chan_wf fp ch \<longleftrightarrow>
     out_head ch < NC_OUTGOING_SLOTS \<and> out_tail ch < NC_OUTGOING_SLOTS \<and>
     rq_head ch < NC_RECV_QUEUE \<and> rq_tail ch < NC_RECV_QUEUE \<and>
     (\<forall>i<NC_OUTGOING_SLOTS. outgoing_wf fp (out_head ch) (out_tail ch) i (outgoing ch i)) \<and>
     (\<forall>i<NC_RECV_QUEUE. recv_wf (rq_head ch) (rq_tail ch) i (recv_queue ch i)) \<and>
     (\<forall>i<NC_REORDER_SLOTS. reorder_wf i (reorder ch i)) \<and>
     (\<forall>i<NC_FRAG_SLOTS. frag_wf fp (frags ch i))"

definition table_wf :: "netchan_conn \<Rightarrow> bool" where
  "table_wf c \<longleftrightarrow>
     (\<forall>i k. channels c i = Some k \<longrightarrow>
        i < NC_MAX_CHANNELS \<and> k < NC_MAX_CHAN \<and> chan_used c k \<and> unat (ch_id (chan_pool c k)) = i) \<and>
     (\<forall>k<NC_MAX_CHAN. chan_used c k \<longrightarrow> channels c (unat (ch_id (chan_pool c k))) = Some k)"

definition conn_wf :: "int multiset \<Rightarrow> netchan_conn \<Rightarrow> bool" where
  "conn_wf M c \<longleftrightarrow> pool_ok c \<and> pool_ms c + M = all_bufs \<and> events_ok c \<and>
     length (ctrl_buf c) \<le> NC_CTRL_BUF_SIZE \<and> table_wf c \<and>
     (\<forall>k<NC_MAX_CHAN. chan_used c k \<longrightarrow> chan_wf (max_frag_payload c) (chan_pool c k))"

text \<open>What the packet and channel operations never change.\<close>

definition same_table :: "netchan_conn \<Rightarrow> netchan_conn \<Rightarrow> bool" where
  "same_table c c' \<longleftrightarrow> channels c' = channels c \<and> chan_used c' = chan_used c \<and>
     conn_cfg c' = conn_cfg c \<and> peer_addr c' = peer_addr c"

definition live_chan :: "netchan_conn \<Rightarrow> nat \<Rightarrow> bool" where
  "live_chan c k \<longleftrightarrow> k < NC_MAX_CHAN \<and> chan_used c k"

lemma same_table_refl [simp]: "same_table c c"
  by (simp add: same_table_def)

lemma same_table_trans: "same_table a b \<Longrightarrow> same_table b c \<Longrightarrow> same_table a c"
  by (simp add: same_table_def)

lemma same_table_fp: "same_table c c' \<Longrightarrow> max_frag_payload c' = max_frag_payload c"
  by (simp add: same_table_def max_frag_payload_def)

lemma same_table_live: "same_table c c' \<Longrightarrow> live_chan c' k = live_chan c k"
  by (simp add: same_table_def live_chan_def)

lemma table_lookup: "conn_wf M c \<Longrightarrow> channels c i = Some k \<Longrightarrow> live_chan c k"
  by (auto simp: conn_wf_def table_wf_def live_chan_def)

lemma live_wf: "conn_wf M c \<Longrightarrow> live_chan c k \<Longrightarrow> chan_wf (max_frag_payload c) (chan_pool c k)"
  by (simp add: conn_wf_def live_chan_def)

section \<open>Effect of the primitives\<close>

lemma all_bufs_range: "b \<in># all_bufs \<longleftrightarrow> 0 \<le> b \<and> b < int NC_POOL_BUFS"
proof -
  have "b \<in># all_bufs \<longleftrightarrow> b \<in> int ` {0 ..< NC_POOL_BUFS}" by (simp add: all_bufs_def)
  also have "\<dots> \<longleftrightarrow> 0 \<le> b \<and> b < int NC_POOL_BUFS" by (auto simp: image_iff intro: bexI [of _ "nat b"])
  finally show ?thesis .
qed

lemma nobuf_notin: "NC_NOBUF \<notin># all_bufs"
  by (simp add: all_bufs_range NC_NOBUF_def)

lemma conn_wf_held: "conn_wf (add_mset b M) c \<Longrightarrow> 0 \<le> b \<and> b < int NC_POOL_BUFS \<and> b \<noteq> NC_NOBUF"
proof -
  assume "conn_wf (add_mset b M) c"
  then have "b \<in># all_bufs" by (metis conn_wf_def union_iff union_single_eq_member)
  then show ?thesis using nobuf_notin by (auto simp: all_bufs_range)
qed

lemma chan_ms_subset: "live_chan c k \<Longrightarrow> chan_ms (chan_pool c k) \<subseteq># pool_ms c"
proof -
  assume live: "live_chan c k"
  let ?g = "\<lambda>k. if chan_used c k then chan_ms (chan_pool c k) else {#}"
  have "(\<Sum>k<NC_MAX_CHAN. ?g k) = ?g k + (\<Sum>j\<in>{..<NC_MAX_CHAN} - {k}. ?g j)"
    using live by (intro sum.remove) (auto simp: live_chan_def)
  then show ?thesis using live by (simp add: pool_ms_def live_chan_def)
qed

lemma chan_buf_range:
  assumes "conn_wf M c" "live_chan c k" "b \<in># chan_ms (chan_pool c k)"
  shows "0 \<le> b \<and> b < int NC_POOL_BUFS"
proof -
  have "b \<in># pool_ms c" using chan_ms_subset [OF assms(2)] assms(3) by (rule mset_subset_eqD)
  then have "b \<in># all_bufs" using assms(1) by (metis conn_wf_def union_iff)
  then show ?thesis by (simp add: all_bufs_range)
qed

lemma chan_ms_members:
  "i < NC_OUTGOING_SLOTS \<Longrightarrow> o_buf (outgoing ch i) \<noteq> NC_NOBUF \<Longrightarrow> o_buf (outgoing ch i) \<in># chan_ms ch"
  "i < NC_RECV_QUEUE \<Longrightarrow> re_buf (recv_queue ch i) \<noteq> NC_NOBUF \<Longrightarrow> re_buf (recv_queue ch i) \<in># chan_ms ch"
  "i < NC_REORDER_SLOTS \<Longrightarrow> ro_buf (reorder ch i) \<noteq> NC_NOBUF \<Longrightarrow> ro_buf (reorder ch i) \<in># chan_ms ch"
  "i < NC_FRAG_SLOTS \<Longrightarrow> f_buf (frags ch i) \<noteq> NC_NOBUF \<Longrightarrow> f_buf (frags ch i) \<in># chan_ms ch"
  unfolding chan_ms_def by (auto simp: buf_ms_def intro!: sum_slot_mem)

lemma conn_wf_upd_chan:
  assumes wf: "conn_wf M c" and live: "live_chan c k"
    and ch: "chan_wf (max_frag_payload c) (f (chan_pool c k))"
    and cid: "ch_id (f (chan_pool c k)) = ch_id (chan_pool c k)"
    and own: "chan_ms (f (chan_pool c k)) + M' = chan_ms (chan_pool c k) + M"
  shows "conn_wf M' (upd_chan c k f)"
proof -
  let ?c' = "upd_chan c k f"
  let ?g = "\<lambda>j ch. if chan_used c j then chan_ms ch else {#}"
  have fp: "max_frag_payload ?c' = max_frag_payload c" by (simp add: max_frag_payload_def)
  have pool: "chan_pool ?c' = (chan_pool c)(k := f (chan_pool c k))" by (simp add: upd_chan_def)
  have "(\<Sum>j<NC_MAX_CHAN. ?g j (((chan_pool c)(k := f (chan_pool c k))) j)) + ?g k (chan_pool c k)
      = (\<Sum>j<NC_MAX_CHAN. ?g j (chan_pool c j)) + ?g k (f (chan_pool c k))"
    using live by (intro sum_slot_upd) (simp add: live_chan_def)
  then have "pool_ms ?c' + chan_ms (chan_pool c k) = pool_ms c + chan_ms (f (chan_pool c k))"
    using live by (simp add: pool_ms_def pool live_chan_def free_ms_def ac_simps cong: if_cong)
  then have "pool_ms ?c' + M' + (chan_ms (chan_pool c k) + chan_ms (f (chan_pool c k)))
      = pool_ms c + M + (chan_ms (chan_pool c k) + chan_ms (f (chan_pool c k)))"
    using own by (metis add.assoc add.commute)
  then have "pool_ms ?c' + M' = all_bufs" using wf by (simp add: conn_wf_def)
  moreover have "table_wf ?c'" using wf cid by (simp add: conn_wf_def table_wf_def pool)
  ultimately show ?thesis
    using wf ch by (simp add: conn_wf_def fp pool pool_ok_def events_ok_def)
qed

text \<open>Fields that the invariant does not read may change freely.\<close>

lemma conn_wf_irrelevant:
  assumes "conn_wf M c"
    and "channels c' = channels c" "chan_used c' = chan_used c" "chan_pool c' = chan_pool c"
    and "pool_free c' = pool_free c" "pool_free_top c' = pool_free_top c"
    and "mtu (conn_cfg c') = mtu (conn_cfg c)" "events_ok c'" "length (ctrl_buf c') \<le> NC_CTRL_BUF_SIZE"
  shows "conn_wf M c'"
  using assms
  by (simp add: conn_wf_def pool_ok_def pool_ms_def free_ms_def table_wf_def max_frag_payload_def cong: if_cong)

lemma events_ok_push [simp]: "events_ok c \<Longrightarrow> events_ok (ev_push_event c e)"
  by (rule evq.invar_push)

lemma conn_wf_ev_push_event: "conn_wf M c \<Longrightarrow> conn_wf M (ev_push_event c e)"
  by (rule conn_wf_irrelevant [of M c]) (auto simp: conn_wf_def)

lemma conn_wf_ev_push: "conn_wf M c \<Longrightarrow> conn_wf M (ev_push c t p)"
  unfolding ev_push_def by (rule conn_wf_ev_push_event)

lemma conn_wf_ev_push_redirect: "conn_wf M c \<Longrightarrow> conn_wf M (ev_push_redirect c a i)"
  unfolding ev_push_redirect_def by (rule conn_wf_ev_push_event)

lemma conn_wf_ctrl_reserve: "conn_wf M c \<Longrightarrow> conn_wf M (ctrl_reserve c bs)"
  by (rule conn_wf_irrelevant [of M c]) (auto simp: conn_wf_def events_ok_def intro: ctrl_reserve_bound)

lemma same_table_simps [simp]:
  "same_table c (ev_push_event c e)" "same_table c (ev_push c t p)" "same_table c (ev_push_redirect c a i)"
  "same_table c (ctrl_reserve c bs)" "same_table c (upd_chan c k f)"
  by (simp_all add: same_table_def)

lemma conn_wf_pool_get:
  assumes "conn_wf M c"
  shows "ok (pool_get c) (\<lambda>(b, c'). same_table c c' \<and> chan_pool c' = chan_pool c \<and> pool_store c' = pool_store c
     \<and> (if b = NC_NOBUF then c' = c \<and> free_ms c = {#} else conn_wf (add_mset b M) c'))"
proof -
  have pok: "pool_ok c" and eq: "pool_ms c + M = all_bufs" using assms by (auto simp: conn_wf_def)
  from pok show ?thesis
  proof (cases rule: ncpool.get_cases)
    case empty
    then show ?thesis by simp
  next
    case (taken b c')
    obtain n where c': "c' = c\<lparr>pool_free_top := n\<rparr>" using pool_get_frame [OF taken(1)] by blast
    have own: "pool_ms c = add_mset b (pool_ms c')"
      using taken(2) by (simp add: pool_ms_def c' cong: if_cong)
    then have "b \<in># all_bufs" using eq by (metis union_iff union_single_eq_member add_mset_add_single)
    then have "b \<noteq> NC_NOBUF" using nobuf_notin by auto
    moreover have "conn_wf (add_mset b M) c'"
      using assms taken(3) own eq by (simp add: conn_wf_def c' events_ok_def table_wf_def max_frag_payload_def)
    ultimately show ?thesis using taken(1) by (simp add: c' same_table_def)
  qed
qed

lemma conn_wf_pool_put:
  assumes "conn_wf (add_mset b M) c"
  shows "ok (pool_put c b) (\<lambda>c'. same_table c c' \<and> chan_pool c' = chan_pool c \<and> pool_store c' = pool_store c
     \<and> events c' = events c \<and> conn_wf M c')"
proof -
  have pok: "pool_ok c" and eq: "pool_ms c + add_mset b M = all_bufs"
    using assms by (auto simp: conn_wf_def)
  have nb: "b \<noteq> NC_NOBUF" using conn_wf_held [OF assms] by simp
  have "size (pool_ms c) + size M + 1 = NC_POOL_BUFS"
    using arg_cong [OF eq, of size] by (simp add: all_bufs_def)
  then have "size (free_ms c) < NC_POOL_BUFS" by (simp add: pool_ms_def)
  from ncpool.put_some [OF pok nb this] obtain c' where
    put: "pool_put c b = Some c'" and fr: "free_ms c' = add_mset b (free_ms c)" and ok': "pool_ok c'" by blast
  obtain f n where c': "c' = c\<lparr>pool_free := f, pool_free_top := n\<rparr>" using pool_put_frame [OF put] by blast
  have "pool_ms c' = add_mset b (pool_ms c)" using fr by (simp add: pool_ms_def c' cong: if_cong)
  then have "conn_wf M c'"
    using assms ok' eq by (simp add: conn_wf_def c' events_ok_def table_wf_def max_frag_payload_def)
  then show ?thesis using put by (simp add: c' same_table_def)
qed

lemma conn_wf_pool_write:
  assumes "conn_wf M c" "0 \<le> b" "b < int NC_POOL_BUFS" "off + length bs \<le> NC_MAX_MSG"
  shows "ok (pool_write c (nat b * NC_MAX_MSG + off) bs) (\<lambda>c'. conn_wf M c' \<and> c' = c\<lparr>pool_store :=
     mem_write (pool_store c) (nat b * NC_MAX_MSG + off) bs\<rparr>)"
proof -
  have "nat b * NC_MAX_MSG + off + length bs \<le> POOL_SIZE"
    using pool_slot_bound [OF assms(2,3,4)] by simp
  moreover have "conn_wf M (c\<lparr>pool_store := mem_write (pool_store c) (nat b * NC_MAX_MSG + off) bs\<rparr>)"
    using assms(1) by (rule conn_wf_irrelevant) (use assms(1) in \<open>auto simp: conn_wf_def events_ok_def\<close>)
  ultimately show ?thesis by (simp add: pool_write_def)
qed

end
