(* ===== verification/NC_Safety.thy ===== *)
theory NC_Safety
  imports NC_Invariant
begin

text \<open>
  Every operation of the receive path keeps the invariant and never runs into undefined
  behaviour.  The proofs follow the code: each helper gets a lemma in the weakest-precondition
  style (\<open>ok\<close>), and the handlers compose them.
\<close>

interpretation rqring: ring NC_RECV_QUEUE
  by unfold_locales (simp add: NC_RECV_QUEUE_def)

interpretation outring: ring NC_OUTGOING_SLOTS
  by unfold_locales (simp add: NC_OUTGOING_SLOTS_def)

section \<open>Ownership effect of a slot update\<close>

lemma chan_ms_outgoing:
  assumes "i < NC_OUTGOING_SLOTS" "outgoing ch' = (outgoing ch)(i := x)" "recv_queue ch' = recv_queue ch"
    "reorder ch' = reorder ch" "frags ch' = frags ch"
  shows "chan_ms ch' + buf_ms (o_buf (outgoing ch i)) = chan_ms ch + buf_ms (o_buf x)"
  using sum_slot_upd [OF assms(1), of "\<lambda>_ o1. buf_ms (o_buf o1)" "outgoing ch" x] assms
  by (simp add: chan_ms_def ac_simps)

lemma chan_ms_recv:
  assumes "i < NC_RECV_QUEUE" "recv_queue ch' = (recv_queue ch)(i := x)" "outgoing ch' = outgoing ch"
    "reorder ch' = reorder ch" "frags ch' = frags ch"
  shows "chan_ms ch' + buf_ms (re_buf (recv_queue ch i)) = chan_ms ch + buf_ms (re_buf x)"
  using sum_slot_upd [OF assms(1), of "\<lambda>_ r. buf_ms (re_buf r)" "recv_queue ch" x] assms
  by (simp add: chan_ms_def ac_simps)

lemma chan_ms_reorder:
  assumes "i < NC_REORDER_SLOTS" "reorder ch' = (reorder ch)(i := x)" "outgoing ch' = outgoing ch"
    "recv_queue ch' = recv_queue ch" "frags ch' = frags ch"
  shows "chan_ms ch' + buf_ms (ro_buf (reorder ch i)) = chan_ms ch + buf_ms (ro_buf x)"
  using sum_slot_upd [OF assms(1), of "\<lambda>_ r. buf_ms (ro_buf r)" "reorder ch" x] assms
  by (simp add: chan_ms_def ac_simps)

lemma chan_ms_frags:
  assumes "i < NC_FRAG_SLOTS" "frags ch' = (frags ch)(i := x)" "outgoing ch' = outgoing ch"
    "recv_queue ch' = recv_queue ch" "reorder ch' = reorder ch"
  shows "chan_ms ch' + buf_ms (f_buf (frags ch i)) = chan_ms ch + buf_ms (f_buf x)"
  using sum_slot_upd [OF assms(1), of "\<lambda>_ f. buf_ms (f_buf f)" "frags ch" x] assms
  by (simp add: chan_ms_def ac_simps)

lemma chan_ms_same:
  "outgoing ch' = outgoing ch \<Longrightarrow> recv_queue ch' = recv_queue ch \<Longrightarrow> reorder ch' = reorder ch \<Longrightarrow>
   frags ch' = frags ch \<Longrightarrow> chan_ms ch' = chan_ms ch"
  by (simp add: chan_ms_def)

lemma chan_wf_same:
  "chan_wf fp ch \<Longrightarrow> outgoing ch' = outgoing ch \<Longrightarrow> recv_queue ch' = recv_queue ch \<Longrightarrow> reorder ch' = reorder ch \<Longrightarrow>
   frags ch' = frags ch \<Longrightarrow> out_head ch' = out_head ch \<Longrightarrow> out_tail ch' = out_tail ch \<Longrightarrow>
   rq_head ch' = rq_head ch \<Longrightarrow> rq_tail ch' = rq_tail ch \<Longrightarrow> chan_wf fp ch'"
  by (simp add: chan_wf_def)

lemma buf_ms_simps [simp]: "buf_ms NC_NOBUF = {#}" "b \<noteq> NC_NOBUF \<Longrightarrow> buf_ms b = {#b#}"
  by (simp_all add: buf_ms_def)

text \<open>Updates of channel fields that hold neither buffers nor indices.\<close>

lemma conn_wf_upd_plain:
  assumes "conn_wf M c" "live_chan c k"
    and "outgoing (f (chan_pool c k)) = outgoing (chan_pool c k)"
    and "recv_queue (f (chan_pool c k)) = recv_queue (chan_pool c k)"
    and "reorder (f (chan_pool c k)) = reorder (chan_pool c k)"
    and "frags (f (chan_pool c k)) = frags (chan_pool c k)"
    and "out_head (f (chan_pool c k)) = out_head (chan_pool c k)"
    and "out_tail (f (chan_pool c k)) = out_tail (chan_pool c k)"
    and "rq_head (f (chan_pool c k)) = rq_head (chan_pool c k)"
    and "rq_tail (f (chan_pool c k)) = rq_tail (chan_pool c k)"
    and "ch_id (f (chan_pool c k)) = ch_id (chan_pool c k)"
  shows "conn_wf M (upd_chan c k f)"
proof (rule conn_wf_upd_chan [OF assms(1,2)])
  show "chan_wf (max_frag_payload c) (f (chan_pool c k))"
    by (rule chan_wf_same [OF live_wf [OF assms(1,2)] assms(3-10)])
  show "chan_ms (f (chan_pool c k)) + M = chan_ms (chan_pool c k) + M"
    by (simp only: chan_ms_same [OF assms(3-6)])
qed (rule assms(11))

text \<open>The source returns a buffer to the pool before it clears the slot; the two commute.\<close>

lemma pool_put_upd_chan: "pool_put (upd_chan c k f) b = map_option (\<lambda>c'. upd_chan c' k f) (pool_put c b)"
  by (simp add: pool_put_def upd_chan_def)

lemma put_then_clear:
  assumes "conn_wf (add_mset b M) (upd_chan c k f)"
  shows "ok (pool_put c b) (\<lambda>c'. conn_wf M (upd_chan c' k f) \<and> same_table c c' \<and> chan_pool c' = chan_pool c
    \<and> pool_store c' = pool_store c \<and> events c' = events c)"
proof -
  from conn_wf_pool_put [OF assms] obtain c1 where c1: "pool_put (upd_chan c k f) b = Some c1" "conn_wf M c1"
    by (auto simp: ok_def)
  then obtain c' where c': "pool_put c b = Some c'" "c1 = upd_chan c' k f"
    by (auto simp: pool_put_upd_chan)
  obtain fr n where "c' = c\<lparr>pool_free := fr, pool_free_top := n\<rparr>" using pool_put_frame [OF c'(1)] by blast
  with c' c1(2) show ?thesis by (auto simp: ok_def same_table_def)
qed

text \<open>Taking a buffer, and filling it.\<close>

lemma get_buffer_ok:
  assumes "conn_wf M c" and "P (NC_NOBUF, c)"
    and "\<And>b c1. b \<noteq> NC_NOBUF \<Longrightarrow> conn_wf (add_mset b M) c1 \<Longrightarrow> same_table c c1 \<Longrightarrow> chan_pool c1 = chan_pool c \<Longrightarrow> P (b, c1)"
  shows "ok (pool_get c) P"
  using conn_wf_pool_get [OF assms(1)]
proof (rule ok_mono)
  fix x assume "case x of (b, c') \<Rightarrow> same_table c c' \<and> chan_pool c' = chan_pool c \<and> pool_store c' = pool_store c
     \<and> (if b = NC_NOBUF then c' = c \<and> free_ms c = {#} else conn_wf (add_mset b M) c')"
  then show "P x" using assms(2,3) by (cases x) (auto split: if_splits)
qed

lemma fill_buffer_ok:
  assumes c: "conn_wf (add_mset b M) c" and len: "length data \<le> NC_MAX_MSG"
    and Q: "\<And>c2. conn_wf (add_mset b M) c2 \<Longrightarrow> same_table c c2 \<Longrightarrow> chan_pool c2 = chan_pool c \<Longrightarrow> Q c2"
  shows "ok (pool_ptr b) (\<lambda>a. ok (pool_write c a data) Q)"
proof -
  have range: "0 \<le> b" "b < int NC_POOL_BUFS" using conn_wf_held [OF c] by auto
  have "ok (pool_write c (nat b * NC_MAX_MSG + 0) data) (\<lambda>c2. conn_wf (add_mset b M) c2 \<and>
      c2 = c\<lparr>pool_store := mem_write (pool_store c) (nat b * NC_MAX_MSG + 0) data\<rparr>)"
    using c range len by (intro conn_wf_pool_write) auto
  then show ?thesis using range by (auto simp: pool_ptr_def same_table_def elim!: ok_mono intro!: Q)
qed

section \<open>Receive queue and reorder buffer\<close>

lemma chan_wf_enqueue:
  assumes wf: "chan_wf fp ch" and room: "Suc (rq_tail ch) mod NC_RECV_QUEUE \<noteq> rq_head ch"
    and b: "b \<noteq> NC_NOBUF" and len: "n \<le> NC_MAX_MSG"
  shows "chan_wf fp (ch\<lparr>recv_queue := (recv_queue ch)(rq_tail ch := \<lparr>re_buf = b, re_len = n\<rparr>),
           rq_tail := Suc (rq_tail ch) mod NC_RECV_QUEUE, recv_buffered := x, msgs_recv := y\<rparr>)"
proof -
  have h: "rq_head ch < NC_RECV_QUEUE" and t: "rq_tail ch < NC_RECV_QUEUE" using wf by (auto simp: chan_wf_def)
  note ring = rqring.in_push [OF h t room]
  have "\<forall>i<NC_RECV_QUEUE. recv_wf (rq_head ch) (Suc (rq_tail ch) mod NC_RECV_QUEUE) i
          (((recv_queue ch)(rq_tail ch := \<lparr>re_buf = b, re_len = n\<rparr>)) i)"
    using wf b len by (auto simp: recv_wf_def ring chan_wf_def)
  with wf show ?thesis by (simp add: chan_wf_def)
qed

lemma chan_ms_enqueue:
  assumes wf: "chan_wf fp ch" and b: "b \<noteq> NC_NOBUF"
  shows "chan_ms (ch\<lparr>recv_queue := (recv_queue ch)(rq_tail ch := \<lparr>re_buf = b, re_len = n\<rparr>),
           rq_tail := t', recv_buffered := x, msgs_recv := y\<rparr>) = add_mset b (chan_ms ch)"
proof -
  have h: "rq_head ch < NC_RECV_QUEUE" and t: "rq_tail ch < NC_RECV_QUEUE" using wf by (auto simp: chan_wf_def)
  have "re_buf (recv_queue ch (rq_tail ch)) = NC_NOBUF"
    using wf t rqring.not_in_tail [OF h t] by (auto simp: chan_wf_def recv_wf_def)
  with chan_ms_recv [OF t, where ch = ch and x = "\<lparr>re_buf = b, re_len = n\<rparr>"] b show ?thesis by simp
qed

definition chan_kept :: "nat \<Rightarrow> netchan_conn \<Rightarrow> netchan_conn \<Rightarrow> bool" where
  "chan_kept k c c' \<longleftrightarrow> same_table c c' \<and> frags (chan_pool c' k) = frags (chan_pool c k) \<and>
     ch_role (chan_pool c' k) = ch_role (chan_pool c k) \<and> ch_type (chan_pool c' k) = ch_type (chan_pool c k)"

lemma chan_kept_refl [simp]: "chan_kept k c c"
  by (simp add: chan_kept_def)

lemma chan_kept_trans: "chan_kept k a b \<Longrightarrow> chan_kept k b c \<Longrightarrow> chan_kept k a c"
  by (auto simp: chan_kept_def intro: same_table_trans)

lemma chan_kept_same: "same_table c c' \<Longrightarrow> chan_pool c' = chan_pool c \<Longrightarrow> chan_kept k c c'"
  by (simp add: chan_kept_def)

lemma chan_kept_table: "chan_kept k c c' \<Longrightarrow> same_table c c'"
  by (simp add: chan_kept_def)

lemma enqueue_ok:
  assumes wf: "conn_wf M c" and live: "live_chan c k"
  shows "ok (chan_recv_enqueue c k data) (\<lambda>(r, c'). conn_wf M c' \<and> chan_kept k c c')"
proof -
  let ?ch = "chan_pool c k"
  let ?next = "Suc (rq_tail ?ch) mod NC_RECV_QUEUE"
  let ?put = "\<lambda>b ch. ch\<lparr>recv_queue := (recv_queue ch)(rq_tail ch := \<lparr>re_buf = b, re_len = length data\<rparr>),
     rq_tail := ?next, recv_buffered := recv_buffered ch + of_nat (length data), msgs_recv := msgs_recv ch + 1\<rparr>"
  have chwf: "chan_wf (max_frag_payload c) ?ch" using wf live by (rule live_wf)
  have put: "conn_wf M (upd_chan c2 k (?put b)) \<and> chan_kept k c (upd_chan c2 k (?put b))"
    if room: "?next \<noteq> rq_head ?ch" and len: "length data \<le> NC_MAX_MSG" and b: "b \<noteq> NC_NOBUF"
      and c2: "conn_wf (add_mset b M) c2" "same_table c c2" "chan_pool c2 = chan_pool c" for b c2
  proof
    show "conn_wf M (upd_chan c2 k (?put b))"
      by (rule conn_wf_upd_chan [OF c2(1)]) (use that live chwf in
        \<open>auto simp: chan_ms_enqueue same_table_fp same_table_live intro!: chan_wf_enqueue\<close>)
    show "chan_kept k c (upd_chan c2 k (?put b))" using c2 by (simp add: chan_kept_def same_table_def)
  qed
  show ?thesis
    using wf unfolding chan_recv_enqueue_def Let_def
    by (auto intro!: get_buffer_ok [OF wf] fill_buffer_ok put [THEN conjunct1] put [THEN conjunct2]
        intro: same_table_trans)
qed


lemma live_reorder:
  assumes "conn_wf M c" "live_chan c k" "i < NC_REORDER_SLOTS" "ro_valid (reorder (chan_pool c k) i)"
  shows "ro_buf (reorder (chan_pool c k) i) \<noteq> NC_NOBUF" "0 \<le> ro_buf (reorder (chan_pool c k) i)"
    "ro_buf (reorder (chan_pool c k) i) < int NC_POOL_BUFS" "ro_len (reorder (chan_pool c k) i) \<le> NC_MAX_MSG"
proof -
  have wf: "reorder_wf i (reorder (chan_pool c k) i)"
    using live_wf [OF assms(1,2)] assms(3) by (simp add: chan_wf_def)
  then show nb: "ro_buf (reorder (chan_pool c k) i) \<noteq> NC_NOBUF" using assms(4) by (simp add: reorder_wf_def)
  from wf show "ro_len (reorder (chan_pool c k) i) \<le> NC_MAX_MSG" by (simp add: reorder_wf_def)
  from chan_buf_range [OF assms(1,2) chan_ms_members(3) [OF assms(3) nb]]
  show "0 \<le> ro_buf (reorder (chan_pool c k) i)" "ro_buf (reorder (chan_pool c k) i) < int NC_POOL_BUFS"
    by auto
qed

lemma pool_read_slot: "0 \<le> b \<Longrightarrow> b < int NC_POOL_BUFS \<Longrightarrow> off + n \<le> NC_MAX_MSG \<Longrightarrow>
    pool_read c (nat b * NC_MAX_MSG + off) n = Some (mem_read (pool_store c) (nat b * NC_MAX_MSG + off) n)"
  using pool_slot_bound [of b "off + n"] by (simp add: pool_read_def)

lemma conn_wf_clear_reorder:
  assumes "conn_wf M c" "live_chan c k" "i < NC_REORDER_SLOTS" "reorder (chan_pool c k) i = r" "ro_valid r"
  shows "conn_wf (add_mset (ro_buf r) M) (upd_chan c k (\<lambda>ch. ch\<lparr>
     reorder := (reorder ch)(i := r\<lparr>ro_buf := NC_NOBUF, ro_valid := False\<rparr>), recv_seq := recv_seq ch + 1\<rparr>))"
proof (rule conn_wf_upd_chan [OF assms(1,2)], goal_cases)
  case 1
  then show ?case using live_wf [OF assms(1,2)] assms(3,4) by (auto simp: chan_wf_def reorder_wf_def)
next
  case 3
  have nb: "ro_buf r \<noteq> NC_NOBUF" using live_reorder(1) [OF assms(1,2,3)] assms(4,5) by simp
  from chan_ms_reorder [OF assms(3), where ch = "chan_pool c k" and x = "r\<lparr>ro_buf := NC_NOBUF, ro_valid := False\<rparr>"]
  show ?case using nb assms(4) by simp
qed simp

lemma deliver_step_ok:
  assumes wf: "conn_wf M c" and live: "live_chan c k"
  shows "ok (deliver_step c k) (\<lambda>s. case s of None \<Rightarrow> True | Some c' \<Rightarrow> conn_wf M c' \<and> chan_kept k c c')"
proof -
  let ?slot = "unat (recv_seq (chan_pool c k)) mod NC_REORDER_SLOTS"
  let ?r = "reorder (chan_pool c k) ?slot"
  have slot: "?slot < NC_REORDER_SLOTS" by (simp add: NC_REORDER_SLOTS_def)
  show ?thesis
  proof (cases "ro_valid ?r \<and> ro_seq ?r = recv_seq (chan_pool c k)")
    case False
    then show ?thesis by (auto simp: deliver_step_def Let_def)
  next
    case True
    note r = live_reorder [OF wf live slot]
    let ?data = "mem_read (pool_store c) (nat (ro_buf ?r) * NC_MAX_MSG) (ro_len ?r)"
    have rd: "pool_read c (nat (ro_buf ?r) * NC_MAX_MSG) (ro_len ?r) = Some ?data"
      using pool_read_slot [of "ro_buf ?r" 0] r True by simp
    have fin: "ok (pool_put (ev_push c1 NETCHAN_EV_DATA (Some k)) (ro_buf ?r)) (\<lambda>c2. let c' = upd_chan c2 k (\<lambda>ch. ch\<lparr>
          reorder := (reorder ch)(?slot := ?r\<lparr>ro_buf := NC_NOBUF, ro_valid := False\<rparr>),
          recv_seq := recv_seq ch + 1\<rparr>) in conn_wf M c' \<and> chan_kept k c c')"
      if enq: "chan_recv_enqueue c k ?data = Some (x, c1)" and c1: "conn_wf M c1" "chan_kept k c c1" for x c1
    proof -
      have "reorder (chan_pool c1 k) ?slot = ?r" using chan_recv_enqueue_reorder [OF enq] by simp
      then have "conn_wf (add_mset (ro_buf ?r) M) (upd_chan (ev_push c1 NETCHAN_EV_DATA (Some k)) k (\<lambda>ch. ch\<lparr>
          reorder := (reorder ch)(?slot := ?r\<lparr>ro_buf := NC_NOBUF, ro_valid := False\<rparr>), recv_seq := recv_seq ch + 1\<rparr>))"
        using c1 live slot True
        by (intro conn_wf_clear_reorder conn_wf_ev_push) (auto simp: chan_kept_def same_table_def live_chan_def)
      from put_then_clear [OF this] c1(2) show ?thesis
        by (auto elim!: ok_mono simp: Let_def chan_kept_def same_table_def)
    qed
    from enqueue_ok [OF wf live, of ?data] True rd r show ?thesis
      by (auto simp: deliver_step_def Let_def pool_ptr_def elim!: ok_mono dest!: fin)
  qed
qed

lemma deliver_reordered_ok:
  "conn_wf M c \<Longrightarrow> live_chan c k \<Longrightarrow> ok (chan_deliver_reordered c k) (\<lambda>c'. conn_wf M c' \<and> chan_kept k c c')"
proof (induction c k rule: chan_deliver_reordered.induct)
  case (1 c k)
  from deliver_step_ok [OF "1.prems"] obtain s where s: "deliver_step c k = Some s"
    "case s of None \<Rightarrow> True | Some c' \<Rightarrow> conn_wf M c' \<and> chan_kept k c c'" by (auto simp: ok_def)
  show ?case
  proof (cases s)
    case None
    with s "1.prems" show ?thesis by (simp add: chan_deliver_reordered.simps [of c k])
  next
    case (Some c')
    with s have c': "conn_wf M c'" "chan_kept k c c'" by auto
    then have "live_chan c' k" using "1.prems" by (auto simp: chan_kept_def same_table_live)
    then have "ok (chan_deliver_reordered c' k) (\<lambda>c''. conn_wf M c'' \<and> chan_kept k c' c'')"
      using "1.IH" s Some c' by blast
    with c' s Some show ?thesis
      by (auto simp: chan_deliver_reordered.simps [of c k] elim!: ok_mono intro: chan_kept_trans)
  qed
qed

lemma deliver_in_order_ok:
  assumes wf: "conn_wf M c" and live: "live_chan c k"
  shows "ok (deliver_in_order c k data) (\<lambda>c'. conn_wf M c' \<and> chan_kept k c c')"
proof -
  have "ok (chan_deliver_reordered (upd_chan (ev_push c1 NETCHAN_EV_DATA (Some k)) k
          (\<lambda>ch. ch\<lparr>recv_seq := recv_seq ch + 1\<rparr>)) k) (\<lambda>c'. conn_wf M c' \<and> chan_kept k c c')"
    if c1: "conn_wf M c1" "chan_kept k c c1" for c1
  proof -
    let ?c2 = "upd_chan (ev_push c1 NETCHAN_EV_DATA (Some k)) k (\<lambda>ch. ch\<lparr>recv_seq := recv_seq ch + 1\<rparr>)"
    have live1: "live_chan (ev_push c1 NETCHAN_EV_DATA (Some k)) k"
      using live c1 by (auto simp: chan_kept_def same_table_def live_chan_def)
    have "conn_wf M ?c2" using c1 live1 by (intro conn_wf_upd_plain conn_wf_ev_push) auto
    moreover have "live_chan ?c2 k" using live1 by (simp add: live_chan_def)
    moreover have "chan_kept k c ?c2" using c1 by (simp add: chan_kept_def same_table_def)
    ultimately show ?thesis
      by (auto elim!: ok_mono [OF deliver_reordered_ok] intro: chan_kept_trans)
  qed
  then show ?thesis unfolding deliver_in_order_def ok_bind
    by (intro ok_mono [OF enqueue_ok [OF wf live]]) auto
qed

lemma store_reordered_ok:
  assumes wf: "conn_wf M c" and live: "live_chan c k"
  shows "ok (store_reordered c k seq data) (\<lambda>c'. conn_wf M c' \<and> chan_kept k c c')"
proof -
  let ?slot = "unat seq mod NC_REORDER_SLOTS"
  let ?put = "\<lambda>b ch. ch\<lparr>reorder := (reorder ch)(?slot := \<lparr>ro_seq = seq, ro_buf = b, ro_len = length data, ro_valid = True\<rparr>)\<rparr>"
  have slot: "?slot < NC_REORDER_SLOTS" by (simp add: NC_REORDER_SLOTS_def)
  have chwf: "chan_wf (max_frag_payload c) (chan_pool c k)" using wf live by (rule live_wf)
  have put: "conn_wf M (upd_chan c2 k (?put b)) \<and> chan_kept k c (upd_chan c2 k (?put b))"
    if nv: "\<not> ro_valid (reorder (chan_pool c k) ?slot)" and len: "length data \<le> NC_MAX_MSG" and b: "b \<noteq> NC_NOBUF"
      and c2: "conn_wf (add_mset b M) c2" "same_table c c2" "chan_pool c2 = chan_pool c" for b c2
  proof
    have old: "ro_buf (reorder (chan_pool c k) ?slot) = NC_NOBUF"
      using chwf nv slot by (auto simp: chan_wf_def reorder_wf_def)
    have "chan_ms (?put b (chan_pool c k)) = add_mset b (chan_ms (chan_pool c k))"
      using chan_ms_reorder [OF slot, where ch = "chan_pool c k"
          and x = "\<lparr>ro_seq = seq, ro_buf = b, ro_len = length data, ro_valid = True\<rparr>"] old b by simp
    moreover have "chan_wf (max_frag_payload c) (?put b (chan_pool c k))"
      using chwf len b by (auto simp: chan_wf_def reorder_wf_def)
    ultimately show "conn_wf M (upd_chan c2 k (?put b))"
      by (intro conn_wf_upd_chan [OF c2(1)]) (use live c2 in \<open>auto simp: same_table_fp same_table_live\<close>)
    show "chan_kept k c (upd_chan c2 k (?put b))" using c2 by (simp add: chan_kept_def same_table_def)
  qed
  show ?thesis
    using wf unfolding store_reordered_def Let_def
    by (auto intro!: get_buffer_ok [OF wf] fill_buffer_ok put [THEN conjunct1] put [THEN conjunct2]
        intro: same_table_trans)
qed

lemma accept_reliable_ok:
  "conn_wf M c \<Longrightarrow> live_chan c k \<Longrightarrow> ok (accept_reliable c k seq data) (\<lambda>c'. conn_wf M c' \<and> chan_kept k c c')"
  by (simp add: accept_reliable_def deliver_in_order_ok store_reordered_ok)

section \<open>Fragments\<close>

lemma find_SomeD: "find P xs = Some x \<Longrightarrow> x \<in> set xs \<and> P x"
  by (induction xs) (auto split: if_splits)

lemma conn_wf_new_frag:
  assumes c: "conn_wf (add_mset b M) c" and b: "b \<noteq> NC_NOBUF" and live: "live_chan c k" and i: "i < NC_FRAG_SLOTS"
    and free: "\<not> f_active (frags (chan_pool c k) i)" and total: "unat ft \<le> NC_MAX_FRAGS"
  shows "conn_wf M (upd_chan c k (\<lambda>ch. ch\<lparr>frags := (frags ch)(i :=
            frag_zero\<lparr>f_seq := seq, f_total := ft, f_active := True, f_buf := b\<rparr>)\<rparr>))"
proof (rule conn_wf_upd_chan [OF c live], goal_cases)
  case 1
  then show ?case using live_wf [OF c live] b total by (auto simp: chan_wf_def frag_wf_def frag_zero_def)
next
  case 3
  have "f_buf (frags (chan_pool c k) i) = NC_NOBUF"
    using live_wf [OF c live] free i by (auto simp: chan_wf_def frag_wf_def)
  with chan_ms_frags [OF i, where ch = "chan_pool c k"
      and x = "frag_zero\<lparr>f_seq := seq, f_total := ft, f_active := True, f_buf := b\<rparr>"] b
  show ?case by simp
qed simp

lemma frag_alloc_ok:
  assumes wf: "conn_wf M c" and live: "live_chan c k"
  shows "ok (frag_alloc c k seq ft) (\<lambda>(fo, c'). conn_wf M c' \<and> same_table c c' \<and>
     (\<forall>i. fo = Some i \<longrightarrow> i < NC_FRAG_SLOTS \<and> f_active (frags (chan_pool c' k) i)))"
proof (cases "unat ft > NC_MAX_FRAGS")
  case True
  then show ?thesis using wf by (simp add: frag_alloc_def)
next
  case ft: False
  show ?thesis
  proof (cases "find (\<lambda>i. \<not> f_active (frags (chan_pool c k) i)) [0 ..< NC_FRAG_SLOTS]")
    case None
    then show ?thesis using ft wf by (simp add: frag_alloc_def)
  next
    case (Some i)
    then have i: "i < NC_FRAG_SLOTS" "\<not> f_active (frags (chan_pool c k) i)" by (auto dest: find_SomeD)
    then show ?thesis using ft wf live Some
      by (auto simp: frag_alloc_def same_table_def live_chan_def intro!: get_buffer_ok [OF wf] conn_wf_new_frag)
  qed
qed

lemma frag_find_Some: "frag_find ch seq = Some i \<Longrightarrow> i < NC_FRAG_SLOTS \<and> f_active (frags ch i)"
  by (auto simp: frag_find_def dest!: find_SomeD)

lemma frag_free_ok:
  assumes wf: "conn_wf M c" and live: "live_chan c k" and i: "i < NC_FRAG_SLOTS"
    and act: "f_active (frags (chan_pool c k) i)"
  shows "ok (frag_free c k i) (\<lambda>c'. conn_wf M c' \<and> same_table c c')"
proof -
  let ?b = "f_buf (frags (chan_pool c k) i)"
  let ?clear = "\<lambda>ch. ch\<lparr>frags := (frags ch)(i := frag_zero\<lparr>f_buf := NC_NOBUF\<rparr>)\<rparr>"
  have nb: "?b \<noteq> NC_NOBUF" using live_wf [OF wf live] i act by (auto simp: chan_wf_def frag_wf_def)
  have "conn_wf (add_mset ?b M) (upd_chan c k ?clear)"
  proof (rule conn_wf_upd_chan [OF wf live], goal_cases)
    case 1
    then show ?case using live_wf [OF wf live] by (auto simp: chan_wf_def frag_wf_def frag_zero_def)
  next
    case 3
    then show ?case using chan_ms_frags [OF i, where ch = "chan_pool c k" and x = "frag_zero\<lparr>f_buf := NC_NOBUF\<rparr>"] nb
      by simp
  qed simp
  from put_then_clear [OF this] show ?thesis
    by (auto simp: frag_free_def same_table_def elim!: ok_mono)
qed

text \<open>The compaction loop stays inside the buffer as long as no fragment is longer than the
  fragment payload: then the write position never passes the read position.\<close>

lemma frag_compact_ok:
  assumes off: "\<forall>j. offsets j \<le> fp \<and> (offsets j \<noteq> 0 \<longrightarrow> j * fp + offsets j \<le> NC_MAX_MSG)"
    and b: "0 \<le> b" "b < int NC_POOL_BUFS"
  shows "conn_wf M c \<Longrightarrow> pos \<le> i * fp \<Longrightarrow> pos \<le> NC_MAX_MSG \<Longrightarrow>
    ok (frag_compact c (nat b * NC_MAX_MSG) fp offsets i pos n)
      (\<lambda>(pos', c'). conn_wf M c' \<and> (\<exists>m. c' = c\<lparr>pool_store := m\<rparr>) \<and> pos' \<le> NC_MAX_MSG)"
proof (induction n arbitrary: c i pos)
  case 0
  then show ?case by (auto intro!: exI [of _ "pool_store c"])
next
  case (Suc n)
  let ?base = "nat b * NC_MAX_MSG"
  have next_pos: "pos + offsets i \<le> Suc i * fp" "pos + offsets i \<le> NC_MAX_MSG"
    using Suc.prems off [rule_format, of i] by (auto simp: add_le_mono)
  have move: "ok (if pos \<noteq> i * fp then do {
              bs \<leftarrow> pool_read c (?base + i * fp) (offsets i);
              pool_write c (?base + pos) bs }
            else Some c) (\<lambda>c1. conn_wf M c1 \<and> (\<exists>m. c1 = c\<lparr>pool_store := m\<rparr>))"
  proof (cases "pos = i * fp \<or> offsets i = 0")
    case True
    then have "(if pos \<noteq> i * fp then do {
              bs \<leftarrow> pool_read c (?base + i * fp) (offsets i);
              pool_write c (?base + pos) bs } else Some c) = Some c"
      by (cases "pos = i * fp") (simp_all add: pool_read_def pool_write_def)
    with Suc.prems(1) show ?thesis by (simp only: ok_Some) (auto intro!: exI [of _ "pool_store c"])
  next
    case False
    then have "i * fp + offsets i \<le> NC_MAX_MSG" using off by blast
    with False b show ?thesis
      using conn_wf_pool_write [OF Suc.prems(1) b, of pos "mem_read (pool_store c) (?base + i * fp) (offsets i)"]
        next_pos by (auto simp: pool_read_slot elim!: ok_mono)
  qed
  have rest: "ok (frag_compact c1 ?base fp offsets (Suc i) (pos + offsets i) n)
      (\<lambda>(pos', c'). conn_wf M c' \<and> (\<exists>m. c' = c\<lparr>pool_store := m\<rparr>) \<and> pos' \<le> NC_MAX_MSG)"
    if "conn_wf M c1" "\<exists>m. c1 = c\<lparr>pool_store := m\<rparr>" for c1
    using Suc.IH [OF that(1) next_pos] that(2) by (auto elim!: ok_mono)
  show ?case unfolding frag_compact.simps by (subst ok_bind, rule ok_mono [OF move]) (use rest in blast)
qed


lemma frag_wf_record:
  assumes "frag_wf fp f" "n \<le> fp" "j * fp + n \<le> NC_MAX_MSG"
  shows "frag_wf fp (f\<lparr>f_offsets := (f_offsets f)(j := n), f_bitmask := m, f_have := h\<rparr>)"
  using assms by (simp add: frag_wf_def)

lemma conn_wf_upd_frag:
  assumes wf: "conn_wf M c" and live: "live_chan c k" and i: "i < NC_FRAG_SLOTS"
    and f': "frag_wf (max_frag_payload c) f'" and same: "f_buf f' = f_buf (frags (chan_pool c k) i)"
  shows "conn_wf M (upd_chan c k (\<lambda>ch. ch\<lparr>frags := (frags ch)(i := f')\<rparr>))"
proof (rule conn_wf_upd_chan [OF wf live], goal_cases)
  case 1
  then show ?case using live_wf [OF wf live] f' by (simp add: chan_wf_def)
next
  case 3
  then show ?case using chan_ms_frags [OF i, where ch = "chan_pool c k" and x = f'] same by simp
qed simp

lemma frag_record_ok:
  assumes wf: "conn_wf M c" and live: "live_chan c k" and i: "i < NC_FRAG_SLOTS"
    and act: "f_active (frags (chan_pool c k) i)" and fp: "length payload \<le> max_frag_payload c"
  shows "ok (frag_record c k i idx payload) (\<lambda>(done, c'). conn_wf M c' \<and> same_table c c' \<and>
     (\<forall>i base pos. done = Some (i, base, pos) \<longrightarrow>
        i < NC_FRAG_SLOTS \<and> f_active (frags (chan_pool c' k) i) \<and> pos \<le> NC_MAX_MSG))"
proof -
  let ?fp = "max_frag_payload c"
  define f where "f = frags (chan_pool c k) i"
  define f' where "f' = f\<lparr>f_offsets := (f_offsets f)(unat idx := length payload),
                 f_bitmask := f_bitmask f OR push_bit (unat idx) 1, f_have := f_have f + 1\<rparr>"
  show ?thesis
  proof (cases "idx < f_total f \<and> \<not> bit (f_bitmask f) (unat idx) \<and> unat idx * ?fp + length payload \<le> NC_MAX_MSG")
    case False
    then show ?thesis using wf by (auto simp: frag_record_def Let_def f_def)
  next
    case True
    have fwf: "frag_wf ?fp f" using live_wf [OF wf live] i by (simp add: chan_wf_def f_def)
    have nb: "f_buf f \<noteq> NC_NOBUF" using fwf act by (simp add: frag_wf_def f_def)
    then have b: "0 \<le> f_buf f" "f_buf f < int NC_POOL_BUFS"
      using chan_buf_range [OF wf live chan_ms_members(4) [OF i]] by (auto simp: f_def)
    have fwf': "frag_wf ?fp f'" using frag_wf_record [OF fwf fp] True by (simp add: f'_def)
    let ?c1 = "c\<lparr>pool_store := mem_write (pool_store c) (nat (f_buf f) * NC_MAX_MSG + unat idx * ?fp) payload\<rparr>"
    let ?c2 = "upd_chan ?c1 k (\<lambda>ch. ch\<lparr>frags := (frags ch)(i := f')\<rparr>)"
    have w: "pool_write c (nat (f_buf f) * NC_MAX_MSG + unat idx * ?fp) payload = Some ?c1" "conn_wf M ?c1"
      using conn_wf_pool_write [OF wf b, of "unat idx * ?fp" payload] True by (auto simp: ok_def)
    have c2: "conn_wf M ?c2"
      using live fwf' by (intro conn_wf_upd_frag [OF w(2) _ i]) (simp_all add: live_chan_def f'_def f_def)
    have "ok (frag_compact ?c2 (nat (f_buf f) * NC_MAX_MSG) ?fp (f_offsets f') 0 0 (unat (f_total f')))
        (\<lambda>(pos', c'). conn_wf M c' \<and> (\<exists>m. c' = ?c2\<lparr>pool_store := m\<rparr>) \<and> pos' \<le> NC_MAX_MSG)"
      using fwf' b c2 by (intro frag_compact_ok) (simp_all add: frag_wf_def)
    then have cmp: "ok (frag_compact ?c2 (nat (f_buf f) * NC_MAX_MSG) ?fp (f_offsets f') 0 0 (unat (f_total f')))
        (\<lambda>(pos, c'). conn_wf M c' \<and> same_table c c' \<and> f_active (frags (chan_pool c' k) i) \<and> pos \<le> NC_MAX_MSG)"
      using act by (auto simp: same_table_def f'_def f_def elim!: ok_mono)
    have "frag_record c k i idx payload =
        (if f_have f' = f_total f' then do {
           (pos, c3) \<leftarrow> frag_compact ?c2 (nat (f_buf f) * NC_MAX_MSG) ?fp (f_offsets f') 0 0 (unat (f_total f'));
           Some (Some (i, nat (f_buf f) * NC_MAX_MSG, pos), c3) }
         else Some (None, ?c2))"
      using True w(1) b unfolding frag_record_def Let_def f_def [symmetric] f'_def [symmetric]
      by (simp add: pool_ptr_def)
    with cmp c2 i show ?thesis by (auto simp: same_table_def elim!: ok_mono)
  qed
qed

lemma frag_input_ok:
  assumes wf: "conn_wf M c" and live: "live_chan c k" and fp: "length payload \<le> max_frag_payload c"
  shows "ok (frag_input c k seq idx ft payload) (\<lambda>(done, c'). conn_wf M c' \<and> same_table c c' \<and>
     (\<forall>i base pos. done = Some (i, base, pos) \<longrightarrow>
        i < NC_FRAG_SLOTS \<and> f_active (frags (chan_pool c' k) i) \<and> pos \<le> NC_MAX_MSG))"
proof -
  have slot: "ok (case frag_find (chan_pool c k) seq of Some i \<Rightarrow> Some (Some i, c) | None \<Rightarrow> frag_alloc c k seq ft)
      (\<lambda>(fo, c'). conn_wf M c' \<and> same_table c c' \<and>
         (\<forall>i. fo = Some i \<longrightarrow> i < NC_FRAG_SLOTS \<and> f_active (frags (chan_pool c' k) i)))"
    using frag_alloc_ok [OF wf live] wf by (auto split: option.split dest: frag_find_Some)
  show ?thesis unfolding frag_input_def ok_bind
  proof (rule ok_mono [OF slot], goal_cases)
    case (1 x)
    then show ?case
      using live fp
      by (auto simp: same_table_live same_table_fp split: prod.splits option.split
          intro!: ok_mono [OF frag_record_ok] intro: same_table_trans)
  qed
qed

section \<open>Acknowledgements\<close>

lemma advance_head_ok:
  assumes "h < NC_OUTGOING_SLOTS" "t < NC_OUTGOING_SLOTS"
    and "\<forall>i<NC_OUTGOING_SLOTS. o_active (out i) \<longrightarrow> ring_in NC_OUTGOING_SLOTS h t i"
  shows "ok (advance_head out h t) (\<lambda>h'. h' < NC_OUTGOING_SLOTS \<and> (h' = t \<or> o_active (out h')) \<and>
     (\<forall>i<NC_OUTGOING_SLOTS. o_active (out i) \<longrightarrow> ring_in NC_OUTGOING_SLOTS h' t i))"
  using assms
proof (induction "ring_dist NC_OUTGOING_SLOTS h t" arbitrary: h)
  case 0
  then have "h = t" by (simp add: outring.dist_0_iff)
  with 0 show ?case by (subst advance_head.simps) simp
next
  case (Suc d)
  show ?case
  proof (cases "h \<noteq> t \<and> \<not> o_active (out h)")
    case False
    with Suc.prems show ?thesis by (subst advance_head.simps) auto
  next
    case True
    then have "d = ring_dist NC_OUTGOING_SLOTS (Suc h mod NC_OUTGOING_SLOTS) t"
      using Suc.hyps(2) Suc.prems outring.dist_pop by auto
    moreover have "\<forall>i<NC_OUTGOING_SLOTS. o_active (out i) \<longrightarrow> ring_in NC_OUTGOING_SLOTS (Suc h mod NC_OUTGOING_SLOTS) t i"
      using True Suc.prems outring.in_pop by metis
    ultimately have "ok (advance_head out (Suc h mod NC_OUTGOING_SLOTS) t) (\<lambda>h'. h' < NC_OUTGOING_SLOTS \<and>
        (h' = t \<or> o_active (out h')) \<and> (\<forall>i<NC_OUTGOING_SLOTS. o_active (out i) \<longrightarrow> ring_in NC_OUTGOING_SLOTS h' t i))"
      using Suc.hyps(1) Suc.prems(2) by auto
    with True show ?thesis by (subst advance_head.simps) simp
  qed
qed

lemma outgoing_wf_head:
  "outgoing_wf fp h t i o1 \<Longrightarrow> (o_active o1 \<Longrightarrow> ring_in NC_OUTGOING_SLOTS h' t i) \<Longrightarrow> outgoing_wf fp h' t i o1"
  by (auto simp: outgoing_wf_def)

lemma advance_out_head_ok:
  assumes wf: "conn_wf M c" and live: "live_chan c k"
  shows "ok (advance_out_head c k) (\<lambda>c'. conn_wf M c' \<and> same_table c c')"
proof -
  let ?ch = "chan_pool c k"
  have chwf: "chan_wf (max_frag_payload c) ?ch" using wf live by (rule live_wf)
  have "ok (advance_head (outgoing ?ch) (out_head ?ch) (out_tail ?ch)) (\<lambda>h'. h' < NC_OUTGOING_SLOTS \<and>
     (h' = out_tail ?ch \<or> o_active (outgoing ?ch h')) \<and>
     (\<forall>i<NC_OUTGOING_SLOTS. o_active (outgoing ?ch i) \<longrightarrow> ring_in NC_OUTGOING_SLOTS h' (out_tail ?ch) i))"
    using chwf by (intro advance_head_ok) (auto simp: chan_wf_def outgoing_wf_def)
  then show ?thesis unfolding advance_out_head_def ok_bind
  proof (rule ok_mono, goal_cases)
    case (1 h')
    then have "chan_wf (max_frag_payload c) (?ch\<lparr>out_head := h'\<rparr>)"
      using chwf by (auto simp: chan_wf_def intro: outgoing_wf_head)
    then have "conn_wf M (upd_chan c k (\<lambda>ch. ch\<lparr>out_head := h'\<rparr>))"
      by (intro conn_wf_upd_chan [OF wf live]) (auto simp: chan_ms_def)
    then show ?case by (simp add: same_table_def)
  qed
qed

lemma conn_wf_clear_outgoing:
  assumes wf: "conn_wf M c" and live: "live_chan c k" and i: "i < NC_OUTGOING_SLOTS"
    and act: "o_active (outgoing (chan_pool c k) i)" and inact: "\<not> o_active o2" "o_buf o2 = NC_NOBUF"
  shows "conn_wf (add_mset (o_buf (outgoing (chan_pool c k) i)) M) (upd_chan c k (\<lambda>ch. ch\<lparr>
     bytes_in_flight := bf ch, msgs_acked := ma ch, outgoing := (outgoing ch)(i := o2)\<rparr>))"
proof (rule conn_wf_upd_chan [OF wf live], goal_cases)
  case 1
  then show ?case using live_wf [OF wf live] inact by (auto simp: chan_wf_def outgoing_wf_def)
next
  case 3
  have "o_buf (outgoing (chan_pool c k) i) \<noteq> NC_NOBUF"
    using live_wf [OF wf live] i act by (auto simp: chan_wf_def outgoing_wf_def)
  then show ?case
    using chan_ms_outgoing [OF i, where ch = "chan_pool c k" and x = o2 and
        ch' = "(chan_pool c k)\<lparr>bytes_in_flight := bf (chan_pool c k), msgs_acked := ma (chan_pool c k),
          outgoing := (outgoing (chan_pool c k))(i := o2)\<rparr>"] inact by simp
qed simp

lemma ack_slots_ok:
  "conn_wf M c \<Longrightarrow> live_chan c k \<Longrightarrow> set is \<subseteq> {..<NC_OUTGOING_SLOTS} \<Longrightarrow>
   ok (ack_slots c k acked is) (\<lambda>c'. conn_wf M c' \<and> same_table c c')"
proof (induction "is" arbitrary: c)
  case Nil
  then show ?case by simp
next
  case (Cons i js)
  let ?o = "outgoing (chan_pool c k) i"
  show ?case
  proof (cases "o_active ?o \<and> seq_diff (o_seq ?o) acked \<le> 0")
    case False
    with Cons show ?thesis by (auto simp: Let_def)
  next
    case True
    let ?f = "\<lambda>ch. ch\<lparr>bytes_in_flight := bytes_in_flight ch - of_nat (o_len ?o), msgs_acked := msgs_acked ch + 1,
            outgoing := (outgoing ch)(i := ?o\<lparr>o_buf := NC_NOBUF, o_active := False\<rparr>)\<rparr>"
    have "conn_wf (add_mset (o_buf ?o) M) (upd_chan c k ?f)"
      using Cons.prems True by (intro conn_wf_clear_outgoing) auto
    from put_then_clear [OF this] have "ok (pool_put c (o_buf ?o)) (\<lambda>c1. conn_wf M (upd_chan c1 k ?f) \<and> same_table c c1)"
      by (auto elim!: ok_mono)
    then have "ok (pool_put c (o_buf ?o)) (\<lambda>c1. ok (ack_slots (upd_chan c1 k ?f) k acked js) (\<lambda>c'. conn_wf M c' \<and> same_table c c'))"
    proof (rule ok_mono)
      fix c1 assume c1: "conn_wf M (upd_chan c1 k ?f) \<and> same_table c c1"
      then have "live_chan (upd_chan c1 k ?f) k" using Cons.prems(2) by (simp add: live_chan_def same_table_def)
      with c1 Cons.prems(3) have "ok (ack_slots (upd_chan c1 k ?f) k acked js) (\<lambda>c'. conn_wf M c' \<and> same_table (upd_chan c1 k ?f) c')"
        by (intro Cons.IH) auto
      then show "ok (ack_slots (upd_chan c1 k ?f) k acked js) (\<lambda>c'. conn_wf M c' \<and> same_table c c')"
        by (rule ok_mono) (use c1 in \<open>auto simp: same_table_def\<close>)
    qed
    with True show ?thesis by (simp add: Let_def)
  qed
qed

end
