(* ===== verification/NC_Feed_Safe.thy ===== *)
theory NC_Feed_Safe
  imports NC_Safety
begin

text \<open>
  Safety of the whole receive path: every frame handler, the frame parser and \<open>netchan_feed\<close>
  keep the invariant and never touch memory outside an object, for datagrams that respect the
  configured MTU.
\<close>

section \<open>Opening a channel\<close>

lemma fresh_chan_ms:
  "chan_ms ((chan_reset_bufs chan_zero)\<lparr>ch_id := a, ch_type := b, ch_dir := d, ch_role := r, ch_state := 0,
     content_type := ct, send_window := 0, recv_window := w\<rparr>) = {#}"
  by (simp add: chan_ms_def chan_reset_bufs_def)

lemma fresh_chan_wf:
  "chan_wf fp ((chan_reset_bufs chan_zero)\<lparr>ch_id := a, ch_type := b, ch_dir := d, ch_role := r, ch_state := 0,
     content_type := ct, send_window := 0, recv_window := w\<rparr>)"
  by (simp add: chan_wf_def chan_reset_bufs_def chan_zero_def outgoing_wf_def recv_wf_def reorder_wf_def
      frag_wf_def outgoing_zero_def recv_zero_def reorder_zero_def frag_zero_def ring_in_def ring_dist_def
      NC_OUTGOING_SLOTS_def NC_RECV_QUEUE_def)

lemma chan_new_ok:
  assumes wf: "conn_wf M c" and free: "channels c (unat cid) = None"
    and new: "chan_new c cid ty dir role ct = (ko, c')"
  shows "conn_wf M c'" "conn_cfg c' = conn_cfg c \<and> peer_addr c' = peer_addr c" "ko = Some k \<Longrightarrow> live_chan c' k"
proof -
  let ?slot = "find (\<lambda>i. \<not> chan_used c i) [0 ..< NC_MAX_CHAN]"
  have "conn_wf M c' \<and> (conn_cfg c' = conn_cfg c \<and> peer_addr c' = peer_addr c) \<and> (\<forall>k. ko = Some k \<longrightarrow> live_chan c' k)"
  proof (cases ?slot)
    case None
    then show ?thesis using new wf by (simp add: chan_new_def)
  next
    case (Some s)
    let ?ch = "(chan_reset_bufs chan_zero)\<lparr>ch_id := cid, ch_type := ty, ch_dir := dir, ch_role := role,
       ch_state := 0, content_type := take 63 (cstr ct), send_window := 0, recv_window := chan_window (conn_cfg c)\<rparr>"
    have s: "s < NC_MAX_CHAN" "\<not> chan_used c s" using Some by (auto dest: find_SomeD)
    have c': "c' = c\<lparr>chan_pool := (chan_pool c)(s := ?ch), chan_used := (chan_used c)(s := True),
        channels := (channels c)(unat cid := Some s)\<rparr>" and ko: "ko = Some s"
      using new Some by (auto simp: chan_new_def)
    have "pool_ms c' = pool_ms c"
      using s by (auto simp: pool_ms_def c' free_ms_def fresh_chan_ms intro!: sum.cong)
    moreover have "table_wf c'"
      using wf s free unsigned_less [of cid] by (fastforce simp: conn_wf_def table_wf_def c' NC_MAX_CHANNELS_def)
    moreover have "max_frag_payload c' = max_frag_payload c" by (simp add: max_frag_payload_def c')
    ultimately have "conn_wf M c'"
      using wf by (auto simp: conn_wf_def pool_ok_def events_ok_def c' fresh_chan_wf)
    then show ?thesis using s ko by (auto simp: live_chan_def c')
  qed
  then show "conn_wf M c'" "conn_cfg c' = conn_cfg c \<and> peer_addr c' = peer_addr c" "ko = Some k \<Longrightarrow> live_chan c' k" by auto
qed

section \<open>Handlers\<close>

definition handled :: "netchan_conn \<Rightarrow> int \<times> netchan_conn \<Rightarrow> bool" where
  "handled c rc \<longleftrightarrow> (case rc of (r, c') \<Rightarrow>
     conn_wf {#} c' \<and> conn_cfg c' = conn_cfg c \<and> peer_addr c' = peer_addr c)"

lemma handled_pair [simp]: "handled c (r, c') \<longleftrightarrow> conn_wf {#} c' \<and> conn_cfg c' = conn_cfg c \<and> peer_addr c' = peer_addr c"
  by (simp add: handled_def)

lemma conn_wf_fields:
  assumes "conn_wf M c"
  shows "conn_wf M (c\<lparr>remote_id := r\<rparr>)" "conn_wf M (c\<lparr>local_id := l\<rparr>)" "conn_wf M (c\<lparr>conn_state := s\<rparr>)"
    "conn_wf M (c\<lparr>peer_addr := a\<rparr>)" "conn_wf M (c\<lparr>last_recv_ms := t\<rparr>)" "conn_wf M (c\<lparr>pkts_recv := n\<rparr>)"
    "conn_wf M (c\<lparr>rtt_ms := t\<rparr>)" "conn_wf M (c\<lparr>rtt_min_ms := t\<rparr>)" "conn_wf M (c\<lparr>ping_sent_ms := t\<rparr>)"
    "conn_wf M (c\<lparr>ping_opaque := t\<rparr>)" "conn_wf M (c\<lparr>last_send_ms := t\<rparr>)" "conn_wf M (c\<lparr>pkts_sent := n\<rparr>)"
    "conn_wf M (c\<lparr>next_pkt_num := w\<rparr>)" "conn_wf M (c\<lparr>connect_sent_ms := t\<rparr>)" "conn_wf M (c\<lparr>connect_attempts := b\<rparr>)"
    "conn_wf M (c\<lparr>next_chan_id := b\<rparr>)"
  by (rule conn_wf_irrelevant [OF assms]; use assms in \<open>simp add: conn_wf_def events_ok_def\<close>)+

lemmas conn_wf_steps = conn_wf_fields conn_wf_ev_push conn_wf_ev_push_redirect conn_wf_ctrl_reserve

lemma connection_handlers_ok:
  assumes "conn_wf {#} c"
  shows "ok (process_connect_init e i c p) (handled c)" "ok (process_connect_accept c p) (handled c)"
    "ok (process_connect_redirect c p) (handled c)" "ok (process_disconnect c p) (handled c)"
    "ok (process_ping c p) (handled c)" "ok (process_pong e i c p) (handled c)"
  using assms
  by (auto simp: process_connect_init_def process_connect_accept_def process_connect_redirect_def
      process_disconnect_def process_ping_def process_pong_def Let_def ctrl_pong_def
      intro!: conn_wf_steps split: conn_state_t.split)

lemma process_channel_open_ok:
  assumes wf: "conn_wf {#} c"
  shows "ok (process_channel_open c p) (handled c)"
proof -
  have new: "handled c (r, ctrl_channel_close c1 cid 1)"
    if "channels c (unat cid) = None" "chan_new c cid ty dir role ct = (None, c1)" for r cid ty dir role ct c1
    using chan_new_ok [OF wf that(1,2)] by (simp add: ctrl_channel_close_def conn_wf_ctrl_reserve)
  have opened: "handled c (r, ev_push (ctrl_window_update (upd_chan c1 k (\<lambda>ch. ch\<lparr>ch_state := 1\<rparr>)) cid w) t q)"
      "handled c (r, ev_push (upd_chan c1 k (\<lambda>ch. ch\<lparr>ch_state := 1\<rparr>)) t q)"
    if "channels c (unat cid) = None" "chan_new c cid ty dir role ct = (Some k, c1)" for r cid ty dir role ct c1 k w t q
  proof -
    note n = chan_new_ok [OF wf that(1,2)]
    have "conn_wf {#} (upd_chan c1 k (\<lambda>ch. ch\<lparr>ch_state := 1\<rparr>))" using n by (intro conn_wf_upd_plain) auto
    then show "handled c (r, ev_push (ctrl_window_update (upd_chan c1 k (\<lambda>ch. ch\<lparr>ch_state := 1\<rparr>)) cid w) t q)"
      "handled c (r, ev_push (upd_chan c1 k (\<lambda>ch. ch\<lparr>ch_state := 1\<rparr>)) t q)"
      using n(2) by (simp_all add: conn_wf_ev_push conn_wf_ctrl_reserve ctrl_window_update_def)
  qed
  show ?thesis
  proof (cases "length p < 5 \<or> length p < 5 + unat (p ! 4) \<or> channels c (unat (p ! 1)) \<noteq> None")
    case True
    then show ?thesis using wf
      by (auto simp: process_channel_open_def Let_def ctrl_channel_close_def conn_wf_ctrl_reserve)
  next
    case False
    define role :: int where "role = (if uint (p ! 3) = NETCHAN_DIR_SEND then 1 else 0)"
    obtain ko c1 where n: "chan_new c (p ! 1) (uint (p ! 2)) (uint (p ! 3)) role
        (take (min (unat (p ! 4)) 63) (drop 5 p)) = (ko, c1)" by fastforce
    have rb: "rd_bytes p 5 (min (unat (p ! 4)) 63) = Some (take (min (unat (p ! 4)) 63) (drop 5 p))"
      using False by (intro rd_bytes_Some) linarith
    show ?thesis
    proof (cases ko)
      case None
      with new [of "p ! 1"] n False rb show ?thesis
        by (simp add: process_channel_open_def Let_def role_def [symmetric] del: handled_pair)
    next
      case (Some k)
      with opened [OF _ n [unfolded Some]] n False rb show ?thesis
        by (simp add: process_channel_open_def Let_def role_def [symmetric] del: handled_pair)
    qed
  qed
qed

lemma process_channel_close_ok: "conn_wf {#} c \<Longrightarrow> ok (process_channel_close c p) (handled c)"
  by (auto simp: process_channel_close_def split: option.split
      intro!: conn_wf_ev_push conn_wf_upd_plain dest: table_lookup)

lemma process_window_update_ok: "conn_wf {#} c \<Longrightarrow> ok (process_window_update c p) (handled c)"
  by (auto simp: process_window_update_def split: option.split
      intro!: conn_wf_upd_plain dest: table_lookup)

lemma process_ack_ok: 
  assumes wf: "conn_wf {#} c"
  shows "ok (process_ack c p) (handled c)"
proof -
  have "ok (ack_slots c k a [0 ..< NC_OUTGOING_SLOTS]) (\<lambda>c1. ok (advance_out_head c1 k) (\<lambda>c2. handled c (4, c2)))"
    if k: "channels c i = Some k" for k i a
  proof -
    have live: "live_chan c k" using wf k by (rule table_lookup)
    show ?thesis
    proof (rule ok_mono [OF ack_slots_ok [OF wf live]], force)
      fix c1 assume c1: "conn_wf {#} c1 \<and> same_table c c1"
      then have "live_chan c1 k" using live by (simp add: same_table_def live_chan_def)
      with c1 show "ok (advance_out_head c1 k) (\<lambda>c2. handled c (4, c2))"
        by (intro ok_mono [OF advance_out_head_ok]) (auto simp: same_table_def)
    qed
  qed
  then show ?thesis using wf by (auto simp: process_ack_def split: option.split)
qed

lemma data_reliable_ok:
  assumes wf: "conn_wf M c" and live: "live_chan c k" and len: "length payload \<le> max_frag_payload c"
  shows "ok (data_reliable c k seq idx ft payload) (\<lambda>c'. conn_wf M c' \<and> same_table c c')"
proof (cases "ft \<le> 1")
  case True
  then show ?thesis
    by (auto simp: data_reliable_def intro!: ok_mono [OF accept_reliable_ok [OF wf live]] dest: chan_kept_table)
next
  case False
  have fin: "ok (accept_reliable c1 k seq d) (\<lambda>c2. ok (frag_free c2 k i) (\<lambda>c'. conn_wf M c' \<and> same_table c c'))"
    if c1: "conn_wf M c1" "same_table c c1" "i < NC_FRAG_SLOTS" "f_active (frags (chan_pool c1 k) i)" for c1 i d
  proof -
    have live1: "live_chan c1 k" using c1 live by (simp add: same_table_live)
    show ?thesis
    proof (rule ok_mono [OF accept_reliable_ok [OF c1(1) live1]])
      fix c2 assume c2: "conn_wf M c2 \<and> chan_kept k c1 c2"
      then have "ok (frag_free c2 k i) (\<lambda>c'. conn_wf M c' \<and> same_table c2 c')"
        using live1 c1 by (intro frag_free_ok) (auto simp: chan_kept_def same_table_live)
      then show "ok (frag_free c2 k i) (\<lambda>c'. conn_wf M c' \<and> same_table c c')"
        by (rule ok_mono) (use c1 c2 in \<open>auto simp: chan_kept_def intro: same_table_trans\<close>)
    qed
  qed
  from False show ?thesis
    by (auto simp: data_reliable_def split: option.split intro!: ok_mono [OF frag_input_ok [OF wf live len]] fin)
qed

lemma data_unreliable_ok:
  assumes wf: "conn_wf M c" and live: "live_chan c k" and len: "length payload \<le> max_frag_payload c"
  shows "ok (data_unreliable c k seq idx ft payload) (\<lambda>c'. conn_wf M c' \<and> same_table c c')"
proof (cases "ft \<le> 1")
  case True
  then show ?thesis
    by (auto simp: data_unreliable_def chan_kept_def same_table_def intro!: ok_mono [OF enqueue_ok [OF wf live]] conn_wf_ev_push)
next
  case False
  have fin: "ok (chan_recv_enqueue c1 k d) (\<lambda>x. ok (case x of (_, c2) \<Rightarrow> frag_free (ev_push c2 NETCHAN_EV_DATA (Some k)) k i)
      (\<lambda>c'. conn_wf M c' \<and> same_table c c'))"
    if c1: "conn_wf M c1" "same_table c c1" "i < NC_FRAG_SLOTS" "f_active (frags (chan_pool c1 k) i)" for c1 i d
  proof -
    have live1: "live_chan c1 k" using c1 live by (simp add: same_table_live)
    show ?thesis
    proof (rule ok_mono [OF enqueue_ok [OF c1(1) live1]], clarsimp)
      fix c2 assume c2: "conn_wf M c2" "chan_kept k c1 c2"
      let ?c3 = "ev_push c2 NETCHAN_EV_DATA (Some k)"
      have "ok (frag_free ?c3 k i) (\<lambda>c'. conn_wf M c' \<and> same_table ?c3 c')"
        using live1 c1 c2 by (intro frag_free_ok conn_wf_ev_push) (auto simp: chan_kept_def same_table_def live_chan_def)
      then show "ok (frag_free ?c3 k i) (\<lambda>c'. conn_wf M c' \<and> same_table c c')"
        by (rule ok_mono) (use c1 c2 in \<open>auto simp: chan_kept_def same_table_def\<close>)
    qed
  qed
  from False show ?thesis
    by (auto simp: data_unreliable_def split: option.split intro!: ok_mono [OF frag_input_ok [OF wf live len]] fin)
qed

lemma process_data_ok:
  assumes wf: "conn_wf {#} c" and len: "length p \<le> max_frag_payload c + 8"
  shows "ok (process_data c p) (handled c)"
proof -
  have unrel: "ok (data_unreliable c k s i t pl) (\<lambda>c1. handled c (r, c1))"
    if "channels c j = Some k" "length pl + 8 \<le> length p" for j k s i t pl r
    using table_lookup [OF wf that(1)] that(2) len
    by (intro ok_mono [OF data_unreliable_ok [OF wf]]) (auto simp: same_table_def)
  have rel: "ok (data_reliable c k s i t pl) (\<lambda>c1. handled c (r, mark_ack c1 k))"
    if "channels c j = Some k" "length pl + 8 \<le> length p" for j k s i t pl r
  proof -
    have live: "live_chan c k" using table_lookup [OF wf that(1)] .
    show ?thesis
    proof (rule ok_mono [OF data_reliable_ok [OF wf live]])
      show "length pl \<le> max_frag_payload c" using that len by simp
      fix c1 assume c1: "conn_wf {#} c1 \<and> same_table c c1"
      then have "conn_wf {#} (mark_ack c1 k)" unfolding mark_ack_def
        using live by (intro conn_wf_upd_plain) (auto simp: same_table_live)
      then show "handled c (r, mark_ack c1 k)" using c1 by (simp add: mark_ack_def same_table_def)
    qed
  qed
  show ?thesis using wf
    by (auto simp: process_data_def Let_def simp del: handled_pair split: option.split intro!: unrel rel) auto
qed

lemma process_frame_ok:
  assumes "conn_wf {#} c" "p \<noteq> []" "length p \<le> max_frag_payload c + 8"
  shows "ok (process_frame e i c p) (handled c)"
  using assms
  by (auto simp: process_frame_def connection_handlers_ok process_channel_open_ok process_channel_close_ok
      process_data_ok process_ack_ok process_window_update_ok simp del: handled_pair) auto

lemma parse_frames_ok:
  "conn_wf {#} c \<Longrightarrow> length data \<le> max_frag_payload c + 8 \<Longrightarrow> ok (parse_frames e c data pos) (handled c)"
proof (induction e c data pos rule: parse_frames.induct)
  case (1 e c data pos)
  show ?case
  proof (cases "pos < length data")
    case False
    with "1.prems" show ?thesis by (simp add: parse_frames.simps [of e c data pos])
  next
    case in_range: True
    show ?thesis
    proof (cases "data ! pos = NC_FRAME_PADDING")
      case True
      with in_range "1.IH"(1) "1.prems" show ?thesis by (simp add: parse_frames.simps [of e c data pos])
    next
      case False
      have "ok (process_frame e pos c (drop pos data)) (handled c)"
        using "1.prems" in_range by (intro process_frame_ok) auto
      then obtain r c' where pf: "process_frame e pos c (drop pos data) = Some (r, c')" and c': "handled c (r, c')"
        by (auto simp: ok_def)
      have fp: "max_frag_payload c' = max_frag_payload c" using c' by (simp add: max_frag_payload_def)
      have "ok (parse_frames e c' data (pos + nat r)) (handled c')" if "\<not> r < 0"
        using "1.IH"(2) [OF in_range False pf refl that] c' fp "1.prems" by simp
      then show ?thesis
        using in_range False pf c' by (auto simp: parse_frames.simps [of e c data pos] handled_def elim!: ok_mono)
    qed
  qed
qed

section \<open>Receiving a datagram\<close>

definition addr_ok :: "nc_addr \<Rightarrow> bool" where
  "addr_ok a \<longleftrightarrow> unat (a_len a) \<le> length (a_bytes a)"

lemma validate_migration_ok: "\<exists>v. validate_migration c fs = Some v"
proof -
  have "ok (validate_migration c fs) (\<lambda>_. True)" by (cases fs rule: remdups_adj.cases) (auto simp: validate_migration_def)
  then show ?thesis by (auto simp: ok_def)
qed

lemma addr_differs_ok: "addr_ok a \<Longrightarrow> addr_ok b \<Longrightarrow> \<exists>v. addr_differs a b = Some v"
  by (auto simp: addr_differs_def addr_ok_def)

lemma track_peer_ok:
  assumes wf: "conn_wf {#} c" and src: "\<forall>a. from = Some a \<longrightarrow> addr_ok a" and peer: "addr_ok (peer_addr c)"
  shows "ok (track_peer c from fs) (\<lambda>c1. conn_wf {#} c1 \<and> addr_ok (peer_addr c1) \<and> conn_cfg c1 = conn_cfg c)"
proof (cases "from")
  case None
  then show ?thesis using wf peer by (simp add: track_peer_def)
next
  case (Some a)
  then obtain d where "addr_differs a (peer_addr c) = Some d" using src peer addr_differs_ok by blast
  moreover obtain v where "validate_migration c fs = Some v" using validate_migration_ok by blast
  ultimately show ?thesis using Some wf src peer by (auto simp: track_peer_def intro!: conn_wf_fields)
qed

lemma netchan_feed_ok:
  assumes wf: "conn_wf {#} c" and len: "length p \<le> max_frag_payload c + 13"
    and src: "\<forall>a. from = Some a \<longrightarrow> addr_ok a" and peer: "addr_ok (peer_addr c)"
  shows "\<exists>r c'. netchan_feed e now c p from = Some (r, c') \<and> conn_wf {#} c' \<and> addr_ok (peer_addr c') \<and>
    conn_cfg c' = conn_cfg c"
proof -
  have parse: "ok (parse_frames e c1 (drop h p) 0) (\<lambda>(r, c'). conn_wf {#} c' \<and> addr_ok (peer_addr c') \<and> conn_cfg c' = conn_cfg c)"
    if c1: "conn_wf {#} c1" "conn_cfg c1 = conn_cfg c" "addr_ok (peer_addr c1)" and h: "5 \<le> h" for c1 h
  proof -
    have "max_frag_payload c1 = max_frag_payload c" using c1 by (simp add: max_frag_payload_def)
    then have "ok (parse_frames e c1 (drop h p) 0) (handled c1)" using c1 h len by (intro parse_frames_ok) auto
    then show ?thesis by (rule ok_mono) (use c1 in auto)
  qed
  have "ok (netchan_feed e now c p from) (\<lambda>(r, c'). conn_wf {#} c' \<and> addr_ok (peer_addr c') \<and> conn_cfg c' = conn_cfg c)"
  proof (cases "length p < NC_HDR_INIT_SIZE")
    case True
    then show ?thesis using wf peer by (simp add: netchan_feed_def)
  next
    case False
    then have "p \<noteq> []" by (auto simp: NC_HDR_INIT_SIZE_def)
    with False show ?thesis using wf peer
      by (auto simp: netchan_feed_def Let_def NC_HDR_INIT_SIZE_def NC_HDR_FULL_SIZE_def
          intro!: ok_mono [OF track_peer_ok [OF wf src peer]] parse conn_wf_fields)
  qed
  then show ?thesis by (auto simp: ok_def)
qed


end
