(* ===== verification/NC_Overflow.thy ===== *)
theory NC_Overflow
  imports NC_Codec NC_Feed_Safe
begin

text \<open>
  Reassembly checks every fragment against the buffer it is copied into, but not against the
  fragment payload: a fragment may be longer than the distance to the next one.  Compaction
  then moves the later fragments upwards, past the end of the buffer.  For the buffer at the
  end of the store, which is the first one the pool hands out, that is a write past the end
  of \<open>pool_store\<close>.
\<close>

lemma frag_overflow_first:
  assumes fp: "max_frag_payload c = 1185" and none: "\<forall>i<NC_FRAG_SLOTS. \<not> f_active (frags (chan_pool c k) i)"
    and top: "pool_free_top c = Suc n" "n < NC_POOL_BUFS" "pool_free c n = 63" and len: "length p0 = 2048"
  shows "\<exists>c1. frag_input c k seq 0 2 p0 = Some (None, c1) \<and> max_frag_payload c1 = 1185 \<and>
     frags (chan_pool c1 k) 0 = \<lparr>f_seq = seq, f_total = 2, f_have = 1, f_bitmask = 1, f_buf = 63,
       f_offsets = (\<lambda>_. 0)(0 := 2048), f_active = True\<rparr> \<and> channels c1 = channels c \<and>
     ch_role (chan_pool c1 k) = ch_role (chan_pool c k) \<and> ch_type (chan_pool c1 k) = ch_type (chan_pool c k)"
proof -
  have slots: "[0 ..< NC_FRAG_SLOTS] = [0, 1, 2, 3]" by (simp add: NC_FRAG_SLOTS_def upt_rec)
  have inactive: "\<not> f_active (frags (chan_pool c k) 0)" "\<not> f_active (frags (chan_pool c k) 1)"
    "\<not> f_active (frags (chan_pool c k) 2)" "\<not> f_active (frags (chan_pool c k) 3)"
    using none by (auto simp: NC_FRAG_SLOTS_def)
  have fp': "max_frag_payload (c\<lparr>pool_free_top := n\<rparr>) = 1185" using fp by (simp add: max_frag_payload_def)
  show ?thesis
    using inactive top len fp fp'
    by (simp add: frag_input_def frag_find_def slots frag_alloc_def NC_MAX_FRAGS_def pool_get_def NC_NOBUF_def
        frag_record_def frag_zero_def pool_ptr_def pool_write_def POOL_SIZE_def NC_MAX_MSG_def NC_POOL_BUFS_def
        Let_def upd_chan_def max_frag_payload_def)
qed

lemma frag_overflow_second:
  assumes fp: "max_frag_payload c = 1185" and len: "length p1 = 863"
    and f: "frags (chan_pool c k) 0 = \<lparr>f_seq = seq, f_total = 2, f_have = 1, f_bitmask = 1, f_buf = 63,
       f_offsets = (\<lambda>_. 0)(0 := 2048), f_active = True\<rparr>"
  shows "frag_input c k seq 1 2 p1 = None"
proof -
  have slots: "[0 ..< NC_FRAG_SLOTS] = [0, 1, 2, 3]" by (simp add: NC_FRAG_SLOTS_def upt_rec)
  have cmp: "frag_compact c' 129024 1185 ((\<lambda>_. 0)(0 := 2048, Suc 0 := 863)) 0 0 2 = None" for c'
    by (simp add: numeral_2_eq_2 pool_read_def pool_write_def POOL_SIZE_def NC_MAX_MSG_def NC_POOL_BUFS_def)
  show ?thesis
    using len fp f
    by (simp add: frag_input_def frag_find_def slots frag_record_def pool_ptr_def pool_write_def
        POOL_SIZE_def NC_MAX_MSG_def NC_POOL_BUFS_def Let_def cmp bit_1_iff)
qed

section \<open>A single datagram\<close>

text \<open>An init-header datagram: it opens channel 0 and carries the two fragments of one message.\<close>

definition overflow_datagram :: bytes where
  "overflow_datagram = ([NC_PKT_FLAG_INIT] @ wr32 0) @ open_frame 0 0 0 []
     @ data_frame 0 0 0 2 (replicate 2048 0x41) @ data_frame 0 0 1 2 (replicate 863 0x42)"

definition opened :: netchan_conn where
  "opened = ev_push (ctrl_window_update (upd_chan
       (snd (chan_new ((netchan_open True)\<lparr>last_recv_ms := 1, pkts_recv := 1\<rparr>) 0 0 0 1 [])) 0
       (\<lambda>ch. ch\<lparr>ch_state := 1\<rparr>)) 0 65536) NETCHAN_EV_CHAN_OPEN (Some 0)"

lemma fresh_find: "find (\<lambda>i. \<not> False) [0 ..< NC_MAX_CHAN] = Some 0"
  by (simp add: NC_MAX_CHAN_def upt_rec)

lemma opened_facts:
  "channels opened 0 = Some 0" "ch_role (chan_pool opened 0) = 1" "ch_type (chan_pool opened 0) = 0"
  "\<not> f_active (frags (chan_pool opened 0) i)" "pool_free_top opened = Suc 63"
  "pool_free opened 63 = 63" "max_frag_payload opened = 1185"
  using fresh_find
  by (simp_all add: opened_def chan_new_def netchan_open_def pool_init_def conn_zero_def ctrl_window_update_def
      chan_reset_bufs_def chan_zero_def frag_zero_def NC_POOL_BUFS_def max_frag_payload_def
      netchan_cfg_default_def NC_DEFAULT_MTU_def NC_HDR_FULL_SIZE_def)

lemma opened_step:
  "process_frame e i ((netchan_open True)\<lparr>last_recv_ms := 1, pkts_recv := 1\<rparr>) (open_frame 0 0 0 [] @ rest) = Some (5, opened)"
  using fresh_find
  by (simp add: process_open_frame NETCHAN_DIR_SEND_def opened_def chan_new_def netchan_open_def pool_init_def
      conn_zero_def netchan_cfg_default_def NC_DEFAULT_WINDOW_def Let_def)

text \<open>
  C37:  The bound of the previous property is needed: one datagram of 2937 bytes, sent without
  knowledge of any connection id to a server that has not accepted anybody, makes
  \<open>netchan_feed\<close> write past the end of \<open>pool_store\<close>.
\<close>

theorem netchan_feed_overflow:
  "length overflow_datagram = 2937 \<and> netchan_feed e 1 (netchan_open True) overflow_datagram None = None"
proof
  show "length overflow_datagram = 2937" by (simp add: overflow_datagram_def)
  let ?d0 = "data_frame 0 0 0 2 (replicate 2048 0x41)"
  let ?d1 = "data_frame 0 0 1 2 (replicate 863 0x42)"
  let ?data = "open_frame 0 0 0 [] @ ?d0 @ ?d1"
  let ?c0 = "(netchan_open True)\<lparr>last_recv_ms := 1, pkts_recv := 1\<rparr>"
  obtain c1 where c1: "frag_input opened 0 0 0 2 (replicate 2048 0x41) = Some (None, c1)"
    and f: "max_frag_payload c1 = 1185" "frags (chan_pool c1 0) 0 = \<lparr>f_seq = 0, f_total = 2, f_have = 1,
      f_bitmask = 1, f_buf = 63, f_offsets = (\<lambda>_. 0)(0 := 2048), f_active = True\<rparr>"
    and same: "channels c1 = channels opened" "ch_role (chan_pool c1 0) = 1" "ch_type (chan_pool c1 0) = 0"
    using frag_overflow_first [of opened 0 63 "replicate 2048 0x41" 0] opened_facts
    by (auto simp: NC_POOL_BUFS_def)
  have multi: "\<not> (2 :: u8) \<le> 1" by (simp add: word_le_nat_alt)
  have frag0: "data_payload opened 0 0 0 2 (replicate 2048 0x41) = Some (mark_ack c1 0)"
    using c1 opened_facts by (simp add: data_payload_def data_reliable_def chan_kind_defs multi)
  have "frag_input (mark_ack c1 0) 0 0 1 2 (replicate 863 0x42) = None"
    using f by (intro frag_overflow_second) (simp_all add: mark_ack_def)
  then have frag1: "data_payload (mark_ack c1 0) 0 0 1 2 (replicate 863 0x42) = None"
    using same opened_facts by (simp add: data_payload_def data_reliable_def chan_kind_defs mark_ack_def multi)
  have "parse_frames e ?c0 ?data 0 = parse_frames e opened ?data 5"
    using parse_frames_step [of ?data "[]" "open_frame 0 0 0 []" "?d0 @ ?d1" 0 e ?c0 opened]
    by (simp add: opened_step)
  also have "\<dots> = parse_frames e (mark_ack c1 0) ?data (5 + length ?d0)"
    using parse_frames_step [of ?data "open_frame 0 0 0 []" ?d0 ?d1 5 e opened "mark_ack c1 0"]
    by (simp add: process_data_frame frag0)
  also have "\<dots> = None"
    using parse_frames_fault [of ?data "open_frame 0 0 0 [] @ ?d0" ?d1 "[]" "5 + length ?d0" e "mark_ack c1 0"]
      process_data_frame [of "replicate 863 0x42" e "5 + length ?d0" "mark_ack c1 0" 0 0 1 2 "[]"]
    by (simp add: frag1)
  finally have pf: "parse_frames e ?c0 ?data 0 = None" .
  have hdr: "overflow_datagram = NC_PKT_FLAG_INIT # wr32 0 @ ?data" by (simp add: overflow_datagram_def)
  have "rd32 overflow_datagram (Suc 0) = Some 0" unfolding hdr by (rule rd_at)
  moreover have "drop NC_HDR_INIT_SIZE overflow_datagram = ?data"
    unfolding hdr by (simp add: NC_HDR_INIT_SIZE_def)
  moreover have "pkts_recv (netchan_open True) = 0" by (simp add: netchan_open_def pool_init_def conn_zero_def)
  ultimately show "netchan_feed e 1 (netchan_open True) overflow_datagram None = None"
    using pf by (simp add: netchan_feed_def hdr NC_HDR_INIT_SIZE_def Let_def NC_PKT_FLAG_INIT_def track_peer_def)
qed

end
