(* ===== verification/NC_Send_Safe.thy ===== *)
theory NC_Send_Safe
  imports NC_Feed_Safe
begin

text \<open>
  Safety of the transmit path: building a datagram and running the timers keep the invariant,
  never touch memory outside an object, and a datagram never exceeds the MTU or the caller's
  buffer.
\<close>

section \<open>Choosing the next message\<close>

lemma next_sendable_ok:
  assumes "h < NC_OUTGOING_SLOTS" "t < NC_OUTGOING_SLOTS"
  shows "ok (next_sendable out h t) (\<lambda>s. \<forall>j. s = Some j \<longrightarrow>
     j < NC_OUTGOING_SLOTS \<and> o_active (out j) \<and> o_frag_sent (out j) < o_frag_total (out j))"
  using assms
proof (induction "ring_dist NC_OUTGOING_SLOTS h t" arbitrary: h)
  case 0
  then have "h = t" by (simp add: outring.dist_0_iff)
  then show ?case by (subst next_sendable.simps) simp
next
  case (Suc d)
  show ?case
  proof (cases "h = t \<or> o_active (out h) \<and> o_frag_sent (out h) < o_frag_total (out h)")
    case True
    with Suc.prems show ?thesis by (subst next_sendable.simps) auto
  next
    case False
    then have "d = ring_dist NC_OUTGOING_SLOTS (Suc h mod NC_OUTGOING_SLOTS) t"
      using Suc.hyps(2) Suc.prems outring.dist_pop by auto
    with Suc.hyps(1) Suc.prems(2) False show ?thesis by (subst next_sendable.simps) auto
  qed
qed

lemma chan_next_sendable_ok:
  assumes "conn_wf M c" "live_chan c k"
  shows "ok (chan_next_sendable (chan_pool c k)) (\<lambda>s. \<forall>j. s = Some j \<longrightarrow> j < NC_OUTGOING_SLOTS \<and>
     o_active (outgoing (chan_pool c k) j) \<and>
     o_frag_sent (outgoing (chan_pool c k) j) < o_frag_total (outgoing (chan_pool c k) j))"
  using live_wf [OF assms] unfolding chan_next_sendable_def
  by (intro next_sendable_ok) (auto simp: chan_wf_def)

lemma has_data_scan_ok: "conn_wf M c \<Longrightarrow> ok (has_data_scan c is) (\<lambda>_. True)"
proof (induction "is")
  case (Cons i js)
  then show ?case
    by (auto simp: Let_def split: option.split intro!: ok_mono [OF chan_next_sendable_ok] dest: table_lookup)
qed simp

lemma has_data_ok: "conn_wf M c \<Longrightarrow> ok (has_data c) (\<lambda>_. True)"
  by (simp add: has_data_def has_data_scan_ok)

section \<open>Updates of an outgoing slot\<close>

lemma conn_wf_set_outgoing:
  assumes wf: "conn_wf M c" and live: "live_chan c k" and j: "j < NC_OUTGOING_SLOTS"
    and o2: "outgoing_wf (max_frag_payload c) (out_head (chan_pool c k)) (out_tail (chan_pool c k)) j o2"
    and own: "buf_ms (o_buf (outgoing (chan_pool c k) j)) + M = buf_ms (o_buf o2) + M'"
    and f: "outgoing (f (chan_pool c k)) = (outgoing (chan_pool c k))(j := o2)"
      "recv_queue (f (chan_pool c k)) = recv_queue (chan_pool c k)"
      "reorder (f (chan_pool c k)) = reorder (chan_pool c k)" "frags (f (chan_pool c k)) = frags (chan_pool c k)"
      "out_head (f (chan_pool c k)) = out_head (chan_pool c k)" "out_tail (f (chan_pool c k)) = out_tail (chan_pool c k)"
      "rq_head (f (chan_pool c k)) = rq_head (chan_pool c k)" "rq_tail (f (chan_pool c k)) = rq_tail (chan_pool c k)"
      "ch_id (f (chan_pool c k)) = ch_id (chan_pool c k)"
  shows "conn_wf M' (upd_chan c k f)"
proof (rule conn_wf_upd_chan [OF wf live])
  show "chan_wf (max_frag_payload c) (f (chan_pool c k))"
    using live_wf [OF wf live] o2 by (simp add: chan_wf_def f)
  have "chan_ms (f (chan_pool c k)) + buf_ms (o_buf (outgoing (chan_pool c k) j))
      = chan_ms (chan_pool c k) + buf_ms (o_buf o2)"
    by (rule chan_ms_outgoing [OF j f(1-4)])
  then have "chan_ms (f (chan_pool c k)) + M' + (buf_ms (o_buf (outgoing (chan_pool c k) j)) + buf_ms (o_buf o2))
      = chan_ms (chan_pool c k) + M + (buf_ms (o_buf (outgoing (chan_pool c k) j)) + buf_ms (o_buf o2))"
    using own by (metis add.assoc add.commute)
  then show "chan_ms (f (chan_pool c k)) + M' = chan_ms (chan_pool c k) + M" by simp
qed (rule f(9))

lemma live_outgoing:
  assumes "conn_wf M c" "live_chan c k" "j < NC_OUTGOING_SLOTS"
  shows "outgoing_wf (max_frag_payload c) (out_head (chan_pool c k)) (out_tail (chan_pool c k)) j (outgoing (chan_pool c k) j)"
  using live_wf [OF assms(1,2)] assms(3) by (simp add: chan_wf_def)

lemma outgoing_buf_range:
  assumes "conn_wf M c" "live_chan c k" "j < NC_OUTGOING_SLOTS" "o_active (outgoing (chan_pool c k) j)"
  shows "0 \<le> o_buf (outgoing (chan_pool c k) j) \<and> o_buf (outgoing (chan_pool c k) j) < int NC_POOL_BUFS"
  using assms chan_buf_range [OF assms(1,2) chan_ms_members(1) [OF assms(3)]] live_outgoing [OF assms(1-3)]
  by (auto simp: outgoing_wf_def)

section \<open>The parts of a datagram\<close>

definition sent_ok :: "netchan_conn \<Rightarrow> nat \<Rightarrow> bytes \<Rightarrow> bytes \<times> netchan_conn \<Rightarrow> bool" where
  "sent_ok c m out r \<longleftrightarrow> (case r of (out', c') \<Rightarrow>
     conn_wf {#} c' \<and> same_table c c' \<and> length out' \<le> m \<and> (\<exists>ext. out' = out @ ext))"

lemma sent_ok_pair [simp]: "sent_ok c m out (out', c') \<longleftrightarrow>
   conn_wf {#} c' \<and> same_table c c' \<and> length out' \<le> m \<and> (\<exists>ext. out' = out @ ext)"
  by (simp add: sent_ok_def)

lemma sent_ok_trans: "sent_ok c m out (out1, c1) \<Longrightarrow> sent_ok c1 m out1 r \<Longrightarrow> sent_ok c m out r"
  by (cases r) (auto intro: same_table_trans)

lemma flush_ctrl_ok:
  assumes wf: "conn_wf {#} c" and m: "length out \<le> m" "m \<le> buflen"
  shows "ok (flush_ctrl c m buflen out) (sent_ok c m out)"
proof -
  let ?n = "min (length (ctrl_buf c)) (m - length out)"
  have "conn_wf {#} (c\<lparr>ctrl_buf := drop ?n (ctrl_buf c)\<rparr>)"
    using wf by (intro conn_wf_irrelevant [OF wf]) (auto simp: conn_wf_def events_ok_def)
  then show ?thesis using m wf by (auto simp: flush_ctrl_def Let_def emit_ok same_table_def)
qed

lemma flush_ack_ok:
  "conn_wf {#} c \<Longrightarrow> live_chan c k \<Longrightarrow> length out \<le> m \<Longrightarrow> m \<le> buflen \<Longrightarrow> ok (flush_ack c k m buflen out) (sent_ok c m out)"
  by (auto simp: flush_ack_def emit_ok intro!: conn_wf_upd_plain)

lemma flush_window_ok:
  "conn_wf {#} c \<Longrightarrow> live_chan c k \<Longrightarrow> length out \<le> m \<Longrightarrow> m \<le> buflen \<Longrightarrow> ok (flush_window c k m buflen out) (sent_ok c m out)"
  by (auto simp: flush_window_def emit_ok intro!: conn_wf_upd_plain)

lemma flush_acks_ok:
  "conn_wf {#} c \<Longrightarrow> length out \<le> m \<Longrightarrow> m \<le> buflen \<Longrightarrow> ok (flush_acks c m buflen out is) (sent_ok c m out)"
proof (induction "is" arbitrary: c out)
  case (Cons i js)
  have chan: "ok (flush_ack c k m buflen out) (\<lambda>(out1, c1). ok (flush_window c1 k m buflen out1)
      (\<lambda>(out2, c2). ok (flush_acks c2 m buflen out2 js) (sent_ok c m out)))" if k: "channels c i = Some k" for k
  proof (rule ok_mono [OF flush_ack_ok [OF Cons.prems(1) table_lookup [OF Cons.prems(1) k] Cons.prems(2,3)]], clarify)
    fix out1 c1 assume fst_ok: "sent_ok c m out (out1, c1)"
    have "live_chan c1 k" using fst_ok table_lookup [OF Cons.prems(1) k] by (simp add: same_table_def live_chan_def)
    then have "ok (flush_window c1 k m buflen out1) (sent_ok c1 m out1)"
      using fst_ok Cons.prems(3) by (intro flush_window_ok) auto
    then show "ok (flush_window c1 k m buflen out1) (\<lambda>(out2, c2). ok (flush_acks c2 m buflen out2 js) (sent_ok c m out))"
    proof (rule ok_mono, goal_cases)
      case (1 r)
      then obtain out2 c2 where r: "r = (out2, c2)" and 2: "sent_ok c m out (out2, c2)"
        using sent_ok_trans [OF fst_ok] by (cases r) blast
      from 2 have "ok (flush_acks c2 m buflen out2 js) (sent_ok c2 m out2)" by (intro Cons.IH Cons.prems(3)) auto
      then have "ok (flush_acks c2 m buflen out2 js) (sent_ok c m out)"
        by (rule ok_mono) (rule sent_ok_trans [OF 2])
      with r show ?case by simp
    qed
  qed
  show ?case using Cons chan by (auto split: option.split simp: case_prod_unfold elim!: ok_mono)
qed simp

lemma mark_sent_ok:
  assumes wf: "conn_wf {#} c" and live: "live_chan c k" and j: "j < NC_OUTGOING_SLOTS"
    and act: "o_active (outgoing (chan_pool c k) j)"
  shows "ok (mark_sent c k j now) (\<lambda>c'. conn_wf {#} c' \<and> same_table c c')"
proof -
  let ?o1 = "outgoing (chan_pool c k) j"
  define o2 where "o2 = ?o1\<lparr>o_frag_sent := o_frag_sent ?o1 + 1, o_sent_ms := now,
                  o_attempts := (if o_attempts ?o1 = 0 then 1 else o_attempts ?o1)\<rparr>"
  define c1 where "c1 = upd_chan c k (\<lambda>ch. ch\<lparr>outgoing := (outgoing ch)(j := o2)\<rparr>)"
  let ?f = "\<lambda>ch. ch\<lparr>outgoing := (outgoing ch)(j := o2\<lparr>o_buf := NC_NOBUF, o_active := False\<rparr>)\<rparr>"
  have o1: "outgoing_wf (max_frag_payload c) (out_head (chan_pool c k)) (out_tail (chan_pool c k)) j ?o1"
    using wf live j by (rule live_outgoing)
  then have o2: "outgoing_wf (max_frag_payload c) (out_head (chan_pool c k)) (out_tail (chan_pool c k)) j o2"
    by (auto simp: outgoing_wf_def o2_def NC_MAX_RT_ATTEMPTS_def word_neq_0_conv)
  have c1: "conn_wf {#} c1" unfolding c1_def
    by (rule conn_wf_set_outgoing [OF wf live j o2]) (simp_all add: o2_def)
  have live1: "live_chan c1 k" using live by (simp add: c1_def live_chan_def)
  have "conn_wf (add_mset (o_buf o2) {#}) (upd_chan c1 k ?f)"
    by (rule conn_wf_set_outgoing [OF c1 live1 j]) (use o1 act in \<open>auto simp: c1_def outgoing_wf_def o2_def\<close>)
  from put_then_clear [OF this]
  have "ok (pool_put c1 (o_buf o2)) (\<lambda>c2. ok (advance_out_head (upd_chan c2 k ?f) k) (\<lambda>c'. conn_wf {#} c' \<and> same_table c c'))"
  proof (rule ok_mono, goal_cases)
    case (1 c2)
    then have "live_chan (upd_chan c2 k ?f) k" using live1 by (simp add: live_chan_def same_table_def)
    with 1 have "ok (advance_out_head (upd_chan c2 k ?f) k) (\<lambda>c'. conn_wf {#} c' \<and> same_table (upd_chan c2 k ?f) c')"
      by (intro advance_out_head_ok) auto
    then show ?case by (rule ok_mono) (use 1 in \<open>auto simp: same_table_def c1_def\<close>)
  qed
  with c1 show ?thesis
    by (simp add: mark_sent_def Let_def o2_def [symmetric] c1_def [symmetric]) (simp add: c1_def)
qed

lemma send_fragment_ok:
  assumes wf: "conn_wf {#} c" and live: "live_chan c k" and j: "j < NC_OUTGOING_SLOTS"
    and act: "o_active (outgoing (chan_pool c k) j)"
    and rem: "o_frag_sent (outgoing (chan_pool c k) j) < o_frag_total (outgoing (chan_pool c k) j)"
    and m: "length out + 9 \<le> m" "m \<le> buflen"
  shows "ok (send_fragment c k j now m buflen out) (\<lambda>r. \<forall>x. r = Some x \<longrightarrow> sent_ok c m out x)"
proof -
  let ?o = "outgoing (chan_pool c k) j"
  let ?fp = "max_frag_payload c"
  let ?off = "unat (o_frag_sent ?o) * ?fp"
  have o1: "outgoing_wf ?fp (out_head (chan_pool c k)) (out_tail (chan_pool c k)) j ?o"
    using wf live j by (rule live_outgoing)
  have "unat (o_frag_sent ?o) \<le> unat (o_frag_total ?o) - 1"
    using rem by (simp add: word_less_nat_alt)
  then have "?off \<le> (unat (o_frag_total ?o) - 1) * ?fp" by (rule mult_le_mono1)
  moreover have "(unat (o_frag_total ?o) - 1) * ?fp \<le> o_len ?o" using o1 act by (simp add: outgoing_wf_def)
  ultimately have off: "?off \<le> o_len ?o" by (rule order_trans)
  have "o_len ?o \<le> NC_MAX_MSG" using o1 act by (simp add: outgoing_wf_def)
  note off = off this
  note b = outgoing_buf_range [OF wf live j act]
  let ?d = "min (o_len ?o - ?off) ?fp"
  have rd: "pool_read c (nat (o_buf ?o) * NC_MAX_MSG + ?off) ?d
      = Some (mem_read (pool_store c) (nat (o_buf ?o) * NC_MAX_MSG + ?off) ?d)"
    using b off by (intro pool_read_slot) auto
  show ?thesis
  proof (cases "m - length out - 8 < ?d")
    case True
    then show ?thesis using m off by (simp add: send_fragment_def Let_def)
  next
    case False
    have ptr: "pool_ptr (o_buf ?o) = Some (nat (o_buf ?o) * NC_MAX_MSG)" using b by (simp add: pool_ptr_def)
    have len: "length out + 8 + ?d \<le> m" using False m by arith
    show ?thesis
      using m off False ptr rd len mark_sent_ok [OF wf live j act, of now]
      by (auto simp: send_fragment_def Let_def emit_def elim!: ok_mono)
  qed
qed

lemma flush_data_ok:
  "conn_wf {#} c \<Longrightarrow> length out \<le> m \<Longrightarrow> m \<le> buflen \<Longrightarrow> ok (flush_data e c m buflen out is) (sent_ok c m out)"
proof (induction "is" arbitrary: c out)
  case (Cons i js)
  have chan: "ok (chan_next_sendable (chan_pool c k)) (\<lambda>s. ok (case s of
              None \<Rightarrow> flush_data e c m buflen out js
            | Some j \<Rightarrow> do {
                r \<leftarrow> send_fragment c k j (env_now e i) m buflen out;
                case r of
                  None \<Rightarrow> Some (out, c)
                | Some (out1, c1) \<Rightarrow> flush_data e c1 m buflen out1 js }) (sent_ok c m out))"
    if k: "channels c i = Some k" and room: "length out + 9 \<le> m" for k
  proof (rule ok_mono [OF chan_next_sendable_ok [OF Cons.prems(1) table_lookup [OF Cons.prems(1) k]]])
    fix s assume s: "\<forall>j. s = Some j \<longrightarrow> j < NC_OUTGOING_SLOTS \<and> o_active (outgoing (chan_pool c k) j) \<and>
     o_frag_sent (outgoing (chan_pool c k) j) < o_frag_total (outgoing (chan_pool c k) j)"
    have "ok (send_fragment c k j (env_now e i) m buflen out) (\<lambda>r. ok (case r of
                  None \<Rightarrow> Some (out, c)
                | Some (out1, c1) \<Rightarrow> flush_data e c1 m buflen out1 js) (sent_ok c m out))" if "s = Some j" for j
    proof (rule ok_mono [OF send_fragment_ok [OF Cons.prems(1) table_lookup [OF Cons.prems(1) k] _ _ _ room Cons.prems(3)]])
      fix r assume r: "\<forall>x. r = Some x \<longrightarrow> sent_ok c m out x"
      have "ok (flush_data e c1 m buflen out1 js) (sent_ok c m out)" if "sent_ok c m out (out1, c1)" for out1 c1
      proof (rule ok_mono [OF Cons.IH])
        show "sent_ok c1 m out1 x \<Longrightarrow> sent_ok c m out x" for x by (rule sent_ok_trans [OF that])
      qed (use that Cons.prems(3) in auto)
      with r Cons.prems show "ok (case r of None \<Rightarrow> Some (out, c) | Some (out1, c1) \<Rightarrow> flush_data e c1 m buflen out1 js) (sent_ok c m out)"
        by (auto split: option.split simp del: sent_ok_pair) auto
    qed (use s that in auto)
    with Cons show "ok (case s of None \<Rightarrow> flush_data e c m buflen out js
            | Some j \<Rightarrow> do {
                r \<leftarrow> send_fragment c k j (env_now e i) m buflen out;
                case r of None \<Rightarrow> Some (out, c) | Some (out1, c1) \<Rightarrow> flush_data e c1 m buflen out1 js }) (sent_ok c m out)"
      by (auto split: option.split)
  qed
  show ?case using Cons chan by (auto split: option.split simp: Let_def)
qed simp

lemma packet_header_ok:
  assumes "conn_wf {#} c" "packet_header c = (hdr, c0)"
  shows "conn_wf {#} c0 \<and> same_table c c0 \<and> (length hdr = NC_HDR_INIT_SIZE \<or> length hdr = NC_HDR_FULL_SIZE)"
  using assms by (auto simp: packet_header_def same_table_def NC_HDR_INIT_SIZE_def NC_HDR_FULL_SIZE_def
      intro!: conn_wf_fields split: if_splits)

lemma netchan_send_next_ok:
  assumes wf: "conn_wf {#} c" and mtu: "NC_HDR_FULL_SIZE \<le> unat (mtu (conn_cfg c))"
  shows "\<exists>out dst c'. netchan_send_next e c buflen = Some (out, dst, c') \<and> conn_wf {#} c' \<and> same_table c c' \<and>
    length out \<le> min (unat (mtu (conn_cfg c))) buflen \<and> dst = (if out = [] then None else Some (peer_addr c))"
proof -
  obtain h where h: "has_data c = Some h" using has_data_ok [OF wf] by (auto simp: ok_def)
  obtain hdr c0 where hd: "packet_header c = (hdr, c0)" by fastforce
  note c0 = packet_header_ok [OF wf hd]
  show ?thesis
  proof (cases "\<not> h \<or> buflen < length hdr")
    case True
    then show ?thesis using h hd wf by (auto simp: netchan_send_next_def)
  next
    case False
    define m where "m = min (unat (mtu (conn_cfg c))) buflen"
    have hdr: "length hdr \<le> m" "m \<le> buflen" "hdr \<noteq> []"
      using c0 mtu False by (auto simp: m_def NC_HDR_INIT_SIZE_def NC_HDR_FULL_SIZE_def)
    obtain out1 c1 where 1: "flush_ctrl c0 m buflen hdr = Some (out1, c1)" "sent_ok c0 m hdr (out1, c1)"
      using flush_ctrl_ok [of c0 hdr m buflen] c0 hdr by (auto simp: ok_def)
    then obtain out2 c2 where 2: "flush_acks c1 m buflen out1 [0 ..< NC_MAX_CHANNELS] = Some (out2, c2)"
        "sent_ok c1 m out1 (out2, c2)"
      using flush_acks_ok [of c1 out1 m buflen "[0 ..< NC_MAX_CHANNELS]"] hdr by (auto simp: ok_def)
    then obtain out3 c3 where 3: "flush_data e c2 m buflen out2 [0 ..< NC_MAX_CHANNELS] = Some (out3, c3)"
        "sent_ok c2 m out2 (out3, c3)"
      using flush_data_ok [of c2 out2 m buflen e "[0 ..< NC_MAX_CHANNELS]"] hdr by (auto simp: ok_def)
    have all: "sent_ok c0 m hdr (out3, c3)" using 1(2) 2(2) 3(2) by (blast intro: sent_ok_trans)
    have "netchan_send_next e c buflen = Some (out3, Some (peer_addr c3),
        c3\<lparr>last_send_ms := env_now e NC_MAX_CHANNELS, pkts_sent := pkts_sent c3 + 1\<rparr>)"
      using h hd False 1(1) 2(1) 3(1) by (simp add: netchan_send_next_def Let_def m_def)
    then show ?thesis using all c0 hdr by (auto simp: m_def same_table_def intro!: conn_wf_fields)
  qed
qed

text \<open>
  Building a datagram: on a well-formed connection whose MTU holds at least the packet
  header, \<open>netchan_send_next\<close> never reads or writes outside an object, writes at most
  \<open>min mtu buflen\<close> bytes to the caller's buffer, leaves the channel table, the configuration
  and the peer address alone, keeps the invariant, and reports the peer address exactly when
  it produced a datagram.
\<close>

theorem netchan_send_next_safe:
  assumes wf: "conn_wf {#} c" and mtu: "NC_HDR_FULL_SIZE \<le> unat (mtu (conn_cfg c))"
  shows "\<exists>out dst c'. netchan_send_next e c buflen = Some (out, dst, c') \<and> conn_wf {#} c' \<and> same_table c c' \<and>
    length out \<le> min (unat (mtu (conn_cfg c))) buflen \<and> dst = (if out = [] then None else Some (peer_addr c))"
  using assms by (rule netchan_send_next_ok)

section \<open>Timers\<close>

lemma rt_timeout_ok:
  assumes "0 < a" "a \<le> NC_MAX_RT_ATTEMPTS"
  shows "rt_timeout b a = Some (min (push_bit (unat a - 1) b) NC_MAX_RT_MS)"
proof -
  have "unat a \<le> 5" using assms(2) by (simp add: word_le_nat_alt NC_MAX_RT_ATTEMPTS_def)
  with assms show ?thesis by (simp add: rt_timeout_def word_neq_0_conv)
qed

lemma rt_slots_ok:
  "conn_wf {#} c \<Longrightarrow> live_chan c k \<Longrightarrow> set js \<subseteq> {..<NC_OUTGOING_SLOTS} \<Longrightarrow>
   ok (rt_slots c k now_ms n js) (\<lambda>(n', c'). conn_wf {#} c' \<and> same_table c c')"
proof (induction js arbitrary: c n)
  case (Cons j js)
  let ?o = "outgoing (chan_pool c k) j"
  have j: "j < NC_OUTGOING_SLOTS" using Cons.prems(3) by simp
  note o1 = live_outgoing [OF Cons.prems(1,2) j]
  show ?case
  proof (cases "\<not> o_active ?o \<or> o_sent_ms ?o = 0")
    case True
    with Cons show ?thesis by auto
  next
    case False
    define o2 where "o2 = ?o\<lparr>o_frag_sent := 0, o_sent_ms := now_ms, o_attempts := o_attempts ?o + 1\<rparr>"
    define c2 where "c2 = upd_chan c k (\<lambda>ch. ch\<lparr>outgoing := (outgoing ch)(j := o2), retransmissions := retransmissions ch + 1\<rparr>)"
    obtain t where t: "rt_timeout (retransmit_ms (conn_cfg c)) (o_attempts ?o) = Some t"
      using o1 False by (auto simp: outgoing_wf_def rt_timeout_ok)
    have again: "ok (rt_slots c2 k now_ms n js) (\<lambda>(n', c'). conn_wf {#} c' \<and> same_table c c')"
      if "\<not> NC_MAX_RT_ATTEMPTS \<le> o_attempts ?o"
    proof -
      have "unat (o_attempts ?o) < 5" using that by (simp add: word_le_nat_alt NC_MAX_RT_ATTEMPTS_def)
      then have "o_attempts ?o + 1 \<le> NC_MAX_RT_ATTEMPTS \<and> 0 < o_attempts ?o + 1"
        by (simp add: word_le_nat_alt word_less_nat_alt unat_word_ariths NC_MAX_RT_ATTEMPTS_def)
      then have o2: "outgoing_wf (max_frag_payload c) (out_head (chan_pool c k)) (out_tail (chan_pool c k)) j o2"
        using o1 False by (simp add: outgoing_wf_def o2_def)
      have "conn_wf {#} c2" unfolding c2_def
        by (rule conn_wf_set_outgoing [OF Cons.prems(1,2) j o2]) (simp_all add: o2_def)
      with Cons.IH [of c2] Cons.prems show ?thesis
        by (auto simp: c2_def live_chan_def same_table_def elim!: ok_mono)
    qed
    have dead: "conn_wf {#} (upd_chan c k (\<lambda>ch. ch\<lparr>ch_state := 3\<rparr>))"
      using Cons.prems by (intro conn_wf_upd_plain) auto
    show ?thesis using Cons False t again dead
      by (auto simp: Let_def c2_def o2_def same_table_def intro!: conn_wf_ev_push)
  qed
qed simp

lemma service_retransmit_ok:
  "conn_wf {#} c \<Longrightarrow> ok (service_retransmit c now_ms n is) (\<lambda>(n', c'). conn_wf {#} c' \<and> same_table c c')"
proof (induction "is" arbitrary: c n)
  case (Cons i js)
  have slots: "ok (rt_slots c k now_ms n [0 ..< NC_OUTGOING_SLOTS]) (\<lambda>(n1, c1).
      ok (service_retransmit c1 now_ms n1 js) (\<lambda>(n', c'). conn_wf {#} c' \<and> same_table c c'))"
    if "channels c i = Some k" for k
    by (rule ok_mono [OF rt_slots_ok [OF Cons.prems table_lookup [OF Cons.prems that]]])
       (auto intro!: ok_mono [OF Cons.IH] simp: same_table_def)
  show ?case using Cons slots by (auto split: option.split simp: case_prod_unfold)
qed simp

lemma service_connect_ok:
  "conn_wf {#} c \<Longrightarrow> case service_connect c now_ms n of
     Inl c' \<Rightarrow> conn_wf {#} c' \<and> same_table c c' | Inr (n', c') \<Rightarrow> conn_wf {#} c' \<and> same_table c c'"
  by (auto simp: service_connect_def Let_def ctrl_connect_init_def same_table_def intro!: conn_wf_steps)

lemma service_idle_ok:
  "conn_wf {#} c \<Longrightarrow> case service_idle c now_ms n of
     Inl c' \<Rightarrow> conn_wf {#} c' \<and> same_table c c' | Inr (n', c') \<Rightarrow> conn_wf {#} c' \<and> same_table c c'"
  by (auto simp: service_idle_def Let_def same_table_def intro!: conn_wf_steps)

lemma service_ping_ok:
  "conn_wf {#} c \<Longrightarrow> case service_ping e c now_ms n of (n', c') \<Rightarrow> conn_wf {#} c' \<and> same_table c c'"
  by (auto simp: service_ping_def Let_def ctrl_ping_def same_table_def intro!: conn_wf_steps)

lemma netchan_service_ok:
  assumes wf: "conn_wf {#} c"
  shows "\<exists>r c'. netchan_service e c now_ms = Some (r, c') \<and> conn_wf {#} c' \<and> same_table c c'"
proof (cases "service_connect c now_ms (-1)")
  case (Inl c1)
  then show ?thesis using service_connect_ok [OF wf, of now_ms "-1"] by (simp add: netchan_service_def)
next
  case (Inr r1)
  obtain n1 c1 where 1: "service_connect c now_ms (-1) = Inr (n1, c1)" "conn_wf {#} c1" "same_table c c1"
    using Inr service_connect_ok [OF wf, of now_ms "-1"] by (cases r1) auto
  show ?thesis
  proof (cases "service_idle c1 now_ms n1")
    case (Inl c2)
    then show ?thesis using 1 service_idle_ok [OF 1(2), of now_ms n1]
      by (auto simp: netchan_service_def intro: same_table_trans)
  next
    case (Inr r2)
    obtain n2 c2 where 2: "service_idle c1 now_ms n1 = Inr (n2, c2)" "conn_wf {#} c2" "same_table c1 c2"
      using Inr service_idle_ok [OF 1(2), of now_ms n1] by (cases r2) auto
    obtain n3 c3 where 3: "service_ping e c2 now_ms n2 = (n3, c3)" "conn_wf {#} c3" "same_table c2 c3"
      using service_ping_ok [OF 2(2), of e now_ms n2] by (auto split: prod.splits)
    have "ok (service_retransmit c3 now_ms n3 [0 ..< NC_MAX_CHANNELS]) (\<lambda>(n', c'). conn_wf {#} c' \<and> same_table c3 c')"
      by (rule service_retransmit_ok [OF 3(2)])
    then show ?thesis using 1 2 3 by (auto simp: netchan_service_def ok_def same_table_def)
  qed
qed

text \<open>
  The timers are safe: on every well-formed connection \<open>netchan_service\<close> returns (no
  undefined shift, no access outside an array), keeps the invariant, and leaves the channel
  table and the configuration alone.
\<close>

theorem netchan_service_safe:
  assumes wf: "conn_wf {#} c"
  shows "\<exists>r c'. netchan_service e c now_ms = Some (r, c') \<and> conn_wf {#} c' \<and> same_table c c'"
  using assms by (rule netchan_service_ok)

end
