(* ===== verification/NC_Lifecycle.thy ===== *)
theory NC_Lifecycle
  imports NC_Overflow NC_Send_Safe
begin

text \<open>
  The API side of the invariant: a fresh connection is well formed, and opening channels,
  writing and reading messages, polling events, disconnecting and closing keep it so.
\<close>

section \<open>A fresh connection\<close>

lemma netchan_open_fields [simp]:
  "channels (netchan_open s) = (\<lambda>_. None)" "chan_used (netchan_open s) = (\<lambda>_. False)"
  "is_server (netchan_open s) = s" "conn_state (netchan_open s) = NETCHAN_STATE_NEW"
  "conn_cfg (netchan_open s) = netchan_cfg_default" "ctrl_buf (netchan_open s) = []"
  "ev_head (netchan_open s) = 0" "ev_tail (netchan_open s) = 0" "peer_addr (netchan_open s) = addr_zero"
  "pool_free_top (netchan_open s) = NC_POOL_BUFS" "local_id (netchan_open s) = 0" "remote_id (netchan_open s) = 0"
  by (simp_all add: netchan_open_def pool_init_def conn_zero_def)

lemma conn_wf_open: "conn_wf {#} (netchan_open s)"
proof -
  have "map (pool_free (netchan_open s)) [0 ..< NC_POOL_BUFS] = map int [0 ..< NC_POOL_BUFS]"
    by (simp add: netchan_open_def pool_init_def)
  then have "free_ms (netchan_open s) = all_bufs"
    unfolding free_ms_def all_bufs_def by (simp only: netchan_open_fields)
  then show ?thesis
    by (simp add: conn_wf_def pool_ok_def pool_ms_def events_ok_def table_wf_def NC_EVENT_QUEUE_def)
qed


theorem netchan_send_next_safe_witness:
  "\<exists>out dst c'. netchan_send_next \<lparr>env_now = (\<lambda>_. 1), env_entropy = (\<lambda>_. None), env_here = 0\<rparr> (netchan_open False) 1400
      = Some (out, dst, c') \<and> conn_wf {#} c' \<and> same_table (netchan_open False) c' \<and>
    length out \<le> min (unat (mtu (conn_cfg (netchan_open False)))) 1400 \<and>
    dst = (if out = [] then None else Some (peer_addr (netchan_open False)))"
  by (rule netchan_send_next_safe [OF conn_wf_open])
     (simp add: netchan_cfg_default_def NC_DEFAULT_MTU_def NC_HDR_FULL_SIZE_def)

theorem netchan_service_safe_witness:
  "\<exists>r c'. netchan_service \<lparr>env_now = (\<lambda>_. 1), env_entropy = (\<lambda>_. None), env_here = 0\<rparr> (netchan_open False) 5000
      = Some (r, c') \<and> conn_wf {#} c' \<and> same_table (netchan_open False) c'"
  by (rule netchan_service_safe [OF conn_wf_open])

section \<open>Writing a message\<close>

lemma frag_count_ok:
  assumes "max_frag_payload c \<noteq> 0" "0 < n"
  shows "ok (frag_count c n) (\<lambda>ft. 0 < ft \<and> (unat ft - 1) * max_frag_payload c \<le> n)"
proof -
  let ?fp = "max_frag_payload c"
  let ?q = "(n + ?fp - 1) div ?fp"
  define ft :: u8 where "ft = (if (of_nat ?q :: u8) = 0 then 1 else of_nat ?q)"
  have "?q * ?fp \<le> n + ?fp - 1" by (rule div_times_less_eq_dividend)
  moreover have "0 < ?q" using assms by (simp add: div_greater_zero_iff)
  ultimately have q: "(?q - 1) * ?fp \<le> n" unfolding diff_mult_distrib using assms by linarith
  have "unat (of_nat ?q :: u8) \<le> ?q" by (simp add: unat_of_nat)
  then have "unat ft - 1 \<le> ?q - 1" by (auto simp: ft_def intro: diff_le_mono)
  then have "(unat ft - 1) * ?fp \<le> n" using q by (meson mult_le_mono1 order_trans)
  moreover have "0 < ft" by (simp add: ft_def word_neq_0_conv)
  moreover have "frag_count c n = Some ft" using assms by (simp add: frag_count_def Let_def ft_def)
  ultimately show ?thesis by simp
qed

lemma tail_slot_free:
  assumes "conn_wf M c" "live_chan c k"
  shows "o_buf (outgoing (chan_pool c k) (out_tail (chan_pool c k))) = NC_NOBUF" "out_tail (chan_pool c k) < NC_OUTGOING_SLOTS"
  using live_wf [OF assms] outring.not_in_tail by (auto simp: chan_wf_def outgoing_wf_def)

lemma conn_wf_push_outgoing:
  assumes wf: "conn_wf (add_mset b M) c" and live: "live_chan c k"
    and room: "Suc (out_tail (chan_pool c k)) mod NC_OUTGOING_SLOTS \<noteq> out_head (chan_pool c k)"
    and o1: "o_active o1" "o_buf o1 = b" "o_len o1 \<le> NC_MAX_MSG" "0 < o_frag_total o1"
      "unat (o_frag_total o1) \<le> NC_MAX_FRAGS" "(unat (o_frag_total o1) - 1) * max_frag_payload c \<le> o_len o1"
      "o_attempts o1 = 0" "o_sent_ms o1 = 0"
    and f: "outgoing (f (chan_pool c k)) = (outgoing (chan_pool c k))(out_tail (chan_pool c k) := o1)"
      "recv_queue (f (chan_pool c k)) = recv_queue (chan_pool c k)"
      "reorder (f (chan_pool c k)) = reorder (chan_pool c k)" "frags (f (chan_pool c k)) = frags (chan_pool c k)"
      "out_head (f (chan_pool c k)) = out_head (chan_pool c k)"
      "out_tail (f (chan_pool c k)) = Suc (out_tail (chan_pool c k)) mod NC_OUTGOING_SLOTS"
      "rq_head (f (chan_pool c k)) = rq_head (chan_pool c k)" "rq_tail (f (chan_pool c k)) = rq_tail (chan_pool c k)"
      "ch_id (f (chan_pool c k)) = ch_id (chan_pool c k)"
  shows "conn_wf M (upd_chan c k f)"
proof (rule conn_wf_upd_chan [OF wf live])
  have chwf: "chan_wf (max_frag_payload c) (chan_pool c k)" using wf live by (rule live_wf)
  then have h: "out_head (chan_pool c k) < NC_OUTGOING_SLOTS" and t: "out_tail (chan_pool c k) < NC_OUTGOING_SLOTS"
    by (auto simp: chan_wf_def)
  have b: "b \<noteq> NC_NOBUF" using conn_wf_held [OF wf] by simp
  show "chan_wf (max_frag_payload c) (f (chan_pool c k))" using chwf o1 b
    by (auto simp: chan_wf_def outgoing_wf_def f outring.in_push [OF h t room] NC_MAX_RT_ATTEMPTS_def)
  show "chan_ms (f (chan_pool c k)) + M = chan_ms (chan_pool c k) + add_mset b M"
    using chan_ms_outgoing [OF t f(1-4)] tail_slot_free [OF wf live] b o1 by simp
qed (rule f(9))

lemma queue_message_ok:
  assumes wf: "conn_wf {#b#} c" and live: "live_chan c k" and fp: "max_frag_payload c \<noteq> 0"
    and room: "Suc (out_tail (chan_pool c k)) mod NC_OUTGOING_SLOTS \<noteq> out_head (chan_pool c k)"
    and len: "0 < length data" "length data \<le> NC_MAX_MSG"
  shows "ok (queue_message c k b data) (\<lambda>(r, c'). conn_wf {#} c' \<and> same_table c c')"
  unfolding queue_message_def ok_bind
proof (rule fill_buffer_ok [OF wf len(2)])
  fix c2 assume c2: "conn_wf {#b#} c2" "same_table c c2" "chan_pool c2 = chan_pool c"
  have live2: "live_chan c2 k" using live c2 by (simp add: same_table_def live_chan_def)
  have fp2: "max_frag_payload c2 = max_frag_payload c" using c2(2) by (rule same_table_fp)
  let ?c3 = "upd_chan c2 k (\<lambda>ch. ch\<lparr>send_seq := send_seq ch + 1\<rparr>)"
  let ?clear = "\<lambda>ch. ch\<lparr>outgoing := (outgoing ch)(out_tail ch := outgoing_zero\<lparr>o_buf := NC_NOBUF\<rparr>)\<rparr>"
  have c3: "conn_wf {#b#} ?c3" using c2(1) live2 by (intro conn_wf_upd_plain) auto
  have live3: "live_chan ?c3 k" using live2 by (simp add: live_chan_def)
  have clear: "conn_wf {#b#} (upd_chan ?c3 k ?clear)"
    by (rule conn_wf_set_outgoing [OF c3 live3 tail_slot_free(2) [OF c3 live3]])
       (use tail_slot_free(1) [OF c3 live3] in \<open>simp_all add: outgoing_wf_def outgoing_zero_def\<close>)
  let ?o1 = "\<lambda>ft. outgoing_zero\<lparr>o_buf := b, o_len := length data, o_seq := send_seq (chan_pool c k), o_active := True, o_frag_total := ft\<rparr>"
  let ?push = "\<lambda>ft ch. ch\<lparr>outgoing := (outgoing ch)(out_tail ch := ?o1 ft),
          bytes_in_flight := (if ch_type ch = NETCHAN_RELIABLE then bytes_in_flight ch + of_nat (length data) else bytes_in_flight ch),
          msgs_sent := msgs_sent ch + 1, out_tail := Suc (out_tail ch) mod NC_OUTGOING_SLOTS\<rparr>"
  have push: "conn_wf {#} (upd_chan ?c3 k (?push ft))"
    if "0 < ft" "(unat ft - 1) * max_frag_payload c \<le> length data" "\<not> unat ft > NC_MAX_FRAGS" for ft
    by (rule conn_wf_push_outgoing [OF c3 live3, where ?o1.0 = "?o1 ft"])
       (use that room len c2(3) fp2 in \<open>simp_all add: outgoing_zero_def not_less\<close>)
  have "ok (frag_count c2 (length data)) (\<lambda>ft. 0 < ft \<and> (unat ft - 1) * max_frag_payload c \<le> length data)"
    using frag_count_ok [of c2, OF _ len(1)] fp fp2 by simp
  then show "ok (frag_count c2 (length data)) (\<lambda>ft. ok (let o1 = ?o1 ft; c3 = ?c3 in
     if unat ft > NC_MAX_FRAGS then do {
       c4 \<leftarrow> pool_put c3 b;
       Some (NETCHAN_ERR_TOOBIG, upd_chan c4 k ?clear) }
     else Some (int (length data), upd_chan c3 k (\<lambda>ch. ch\<lparr>
         outgoing := (outgoing ch)(out_tail ch := o1),
         bytes_in_flight := (if ch_type ch = NETCHAN_RELIABLE
           then bytes_in_flight ch + of_nat (length data) else bytes_in_flight ch),
         msgs_sent := msgs_sent ch + 1,
         out_tail := Suc (out_tail ch) mod NC_OUTGOING_SLOTS\<rparr>))) (\<lambda>(r, c'). conn_wf {#} c' \<and> same_table c c'))"
    by (rule ok_mono) (use push put_then_clear [OF clear] c2(2) in \<open>auto simp: Let_def same_table_def elim!: ok_mono\<close>)
qed

lemma netchan_chan_write_ok:
  assumes wf: "conn_wf {#} c" and live: "live_chan c k" and fp: "max_frag_payload c \<noteq> 0"
  shows "ok (netchan_chan_write c (Some k) data) (\<lambda>(r, c'). conn_wf {#} c' \<and> same_table c c')"
proof -
  have queue: "ok (queue_message c1 k b data) (\<lambda>(r, c'). conn_wf {#} c' \<and> same_table c c')"
    if "Suc (out_tail (chan_pool c k)) mod NC_OUTGOING_SLOTS \<noteq> out_head (chan_pool c k)" "data \<noteq> []"
      "\<not> NC_MAX_MSG < length data" "conn_wf {#b#} c1" "same_table c c1" "chan_pool c1 = chan_pool c" for b c1
  proof (rule ok_mono [OF queue_message_ok [OF that(4)]])
    show "live_chan c1 k" using live that by (simp add: same_table_def live_chan_def)
    show "max_frag_payload c1 \<noteq> 0" using fp same_table_fp [OF that(5)] by simp
  qed (use that in \<open>auto intro: same_table_trans\<close>)
  show ?thesis using wf
    by (auto simp: netchan_chan_write_def Let_def intro!: get_buffer_ok [OF wf] queue)
qed

section \<open>Reading a message\<close>

lemma netchan_chan_read_ok:
  assumes wf: "conn_wf {#} c" and live: "live_chan c k"
  shows "ok (netchan_chan_read c (Some k) buflen) (\<lambda>(r, bs, c'). conn_wf {#} c' \<and> same_table c c' \<and>
     length bs \<le> buflen)"
proof (cases "ch_role (chan_pool c k) \<noteq> 1 \<or> rq_head (chan_pool c k) = rq_tail (chan_pool c k)")
  case True
  then show ?thesis using wf by (auto simp: netchan_chan_read_def Let_def)
next
  case False
  let ?ch = "chan_pool c k"
  let ?e = "recv_queue ?ch (rq_head ?ch)"
  let ?n = "min (re_len ?e) buflen"
  let ?f = "\<lambda>ch. ch\<lparr>recv_queue := (recv_queue ch)(rq_head ch := \<lparr>re_buf = NC_NOBUF, re_len = 0\<rparr>),
     rq_head := Suc (rq_head ch) mod NC_RECV_QUEUE, recv_buffered := recv_buffered ch - of_nat ?n, need_window_update := True\<rparr>"
  have chwf: "chan_wf (max_frag_payload c) ?ch" using wf live by (rule live_wf)
  then have h: "rq_head ?ch < NC_RECV_QUEUE" and t: "rq_tail ?ch < NC_RECV_QUEUE" by (auto simp: chan_wf_def)
  have ne: "rq_head ?ch \<noteq> rq_tail ?ch" using False by simp
  note pop = rqring.in_pop [OF h t ne] rqring.not_in_popped [OF h t ne]
  have nb: "re_buf ?e \<noteq> NC_NOBUF" and rl: "re_len ?e \<le> NC_MAX_MSG"
    using chwf h pop by (auto simp: chan_wf_def recv_wf_def)
  then have b: "0 \<le> re_buf ?e" "re_buf ?e < int NC_POOL_BUFS"
    using chan_buf_range [OF wf live chan_ms_members(2) [OF h]] by auto
  have "conn_wf {#re_buf ?e#} (upd_chan c k ?f)"
  proof (rule conn_wf_upd_chan [OF wf live], goal_cases)
    case 1
    then show ?case using chwf pop by (auto simp: chan_wf_def recv_wf_def)
  next
    case 3
    then show ?case using chan_ms_recv [OF h, where ch = ?ch and x = "\<lparr>re_buf = NC_NOBUF, re_len = 0\<rparr>" and ch' = "?f ?ch"] nb
      by simp
  qed simp
  note put = put_then_clear [OF this]
  have "pool_read c (nat (re_buf ?e) * NC_MAX_MSG + 0) ?n = Some (mem_read (pool_store c) (nat (re_buf ?e) * NC_MAX_MSG + 0) ?n)"
    using b rl by (intro pool_read_slot) auto
  with False b put show ?thesis
    by (auto simp: netchan_chan_read_def Let_def pool_ptr_def same_table_def elim!: ok_mono)
qed

section \<open>Opening and closing channels, connecting and polling\<close>

lemma netchan_chan_open_ok:
  assumes wf: "conn_wf {#} c" and op: "netchan_chan_open c ty dir ct = (ko, c')"
  shows "conn_wf {#} c' \<and> conn_cfg c' = conn_cfg c \<and> peer_addr c' = peer_addr c \<and> (\<forall>k. ko = Some k \<longrightarrow> live_chan c' k)"
proof (cases "conn_state c \<noteq> NETCHAN_STATE_CONNECTED \<or> channels c (unat (next_chan_id c)) \<noteq> None")
  case True
  then have "netchan_chan_open c ty dir ct = (None, c)"
    by (cases "conn_state c = NETCHAN_STATE_CONNECTED") (simp_all add: netchan_chan_open_def Let_def)
  then show ?thesis using wf op by simp
next
  case False
  let ?c1 = "c\<lparr>next_chan_id := next_chan_id c + 2\<rparr>"
  let ?role = "if dir = NETCHAN_DIR_SEND then 0 else 1"
  have c1: "conn_wf {#} ?c1" using wf by (rule conn_wf_fields)
  obtain ks c2 where n: "chan_new ?c1 (next_chan_id c) ty dir ?role ct = (ks, c2)" by fastforce
  have free: "channels ?c1 (unat (next_chan_id c)) = None" using False by simp
  note new = chan_new_ok [OF c1 free n]
  show ?thesis
  proof (cases ks)
    case None
    then show ?thesis using op n False new by (auto simp: netchan_chan_open_def Let_def)
  next
    case (Some k)
    have "conn_wf {#} (upd_chan (ctrl_window_update (ctrl_channel_open c2 (chan_pool c2 k)) i w) k (\<lambda>ch. ch\<lparr>ch_state := 1\<rparr>))" for i w
      using new(1) new(3) [OF Some]
      by (intro conn_wf_upd_plain) (auto simp: ctrl_window_update_def ctrl_channel_open_def Let_def live_chan_def intro!: conn_wf_ctrl_reserve)
    moreover have "conn_wf {#} (ctrl_channel_open c2 (chan_pool c2 k))"
      using new(1) by (simp add: ctrl_channel_open_def Let_def conn_wf_ctrl_reserve)
    ultimately show ?thesis using op n False new(2) new(3) [OF Some] Some
      by (auto simp: netchan_chan_open_def Let_def ctrl_window_update_def ctrl_channel_open_def live_chan_def split: if_splits)
  qed
qed

lemma netchan_chan_close_ok:
  assumes wf: "conn_wf {#} c" and live: "live_chan c k"
  shows "conn_wf {#} (netchan_chan_close c (Some k)) \<and> same_table c (netchan_chan_close c (Some k))"
proof -
  have "conn_wf {#} (upd_chan (ctrl_channel_close c i e) k (\<lambda>ch. ch\<lparr>ch_state := 2\<rparr>))" for i e
    using wf live by (intro conn_wf_upd_plain)
      (auto simp: ctrl_channel_close_def live_chan_def intro!: conn_wf_ctrl_reserve)
  then show ?thesis using wf by (auto simp: netchan_chan_close_def ctrl_channel_close_def same_table_def)
qed

lemma netchan_connect_ok:
  "conn_wf {#} c \<Longrightarrow> addr_ok a \<Longrightarrow> addr_ok (peer_addr c) \<Longrightarrow>
   conn_wf {#} (snd (netchan_connect e c a)) \<and> addr_ok (peer_addr (snd (netchan_connect e c a))) \<and>
   conn_cfg (snd (netchan_connect e c a)) = conn_cfg c"
  by (auto simp: netchan_connect_def Let_def ctrl_connect_init_def intro!: conn_wf_steps)

lemma netchan_accept_ok:
  "conn_wf {#} c \<Longrightarrow> conn_wf {#} (snd (netchan_accept c)) \<and> same_table c (snd (netchan_accept c))"
  by (auto simp: netchan_accept_def ctrl_connect_accept_def same_table_def intro!: conn_wf_steps)

lemma netchan_disconnect_ok:
  "conn_wf {#} c \<Longrightarrow> conn_wf {#} (netchan_disconnect c) \<and> same_table c (netchan_disconnect c)"
  by (auto simp: netchan_disconnect_def ctrl_disconnect_def same_table_def intro!: conn_wf_steps)

lemma netchan_poll_ok:
  assumes wf: "conn_wf {#} c" and p: "netchan_poll c = Some (ev, c')"
  shows "conn_wf {#} c' \<and> same_table c c'"
proof -
  obtain h where c': "c' = c\<lparr>ev_head := h\<rparr>" using p by (auto simp: netchan_poll_def split: if_splits)
  have "events_ok c'" using evq.pop_Some [OF _ p] wf by (auto simp: conn_wf_def)
  then have "conn_wf {#} c'"
    by (intro conn_wf_irrelevant [OF wf]) (use wf in \<open>auto simp: c' conn_wf_def\<close>)
  then show ?thesis by (simp add: c' same_table_def)
qed

section \<open>Sequences of API calls\<close>

text \<open>
  A client of the library: the calls it can make on an open connection and what each does to
  the object.  \<open>api_call\<close> is the call, \<open>exec_call\<close> runs it and \<open>call_ok\<close> is the contract of the
  caller: channel arguments are handles of this connection, addresses fit their buffer,
  datagrams are shorter than the MTU by two bytes or more, and the MTU is set before the first
  channel exists and leaves room for a header and at least one byte of payload.
\<close>

datatype api_call =
    Feed nc_env u32 bytes "nc_addr option"
  | Send_Next nc_env nat
  | Service nc_env u32
  | Poll
  | Connect nc_env nc_addr
  | Accept
  | Disconnect
  | Config netchan_cfg
  | Chan_Open int int bytes
  | Chan_Close "nat option"
  | Chan_Write "nat option" bytes
  | Chan_Read "nat option" nat

fun exec_call :: "netchan_conn \<Rightarrow> api_call \<Rightarrow> netchan_conn option" where
  "exec_call c (Feed e now p a) = map_option snd (netchan_feed e now c p a)"
| "exec_call c (Send_Next e n) = map_option (\<lambda>(_, _, c'). c') (netchan_send_next e c n)"
| "exec_call c (Service e now) = map_option snd (netchan_service e c now)"
| "exec_call c Poll = Some (case netchan_poll c of None \<Rightarrow> c | Some (_, c') \<Rightarrow> c')"
| "exec_call c (Connect e a) = Some (snd (netchan_connect e c a))"
| "exec_call c Accept = Some (snd (netchan_accept c))"
| "exec_call c Disconnect = Some (netchan_disconnect c)"
| "exec_call c (Config g) = Some (netchan_config c g)"
| "exec_call c (Chan_Open ty dir ct) = Some (snd (netchan_chan_open c ty dir ct))"
| "exec_call c (Chan_Close p) = Some (netchan_chan_close c p)"
| "exec_call c (Chan_Write p d) = map_option snd (netchan_chan_write c p d)"
| "exec_call c (Chan_Read p n) = map_option (\<lambda>(_, _, c'). c') (netchan_chan_read c p n)"

definition handle_ok :: "netchan_conn \<Rightarrow> nat option \<Rightarrow> bool" where
  "handle_ok c p \<longleftrightarrow> (case p of None \<Rightarrow> True | Some k \<Rightarrow> live_chan c k)"

fun call_ok :: "netchan_conn \<Rightarrow> api_call \<Rightarrow> bool" where
  "call_ok c (Feed e now p a) \<longleftrightarrow> length p + 2 \<le> unat (mtu (conn_cfg c)) \<and> (case a of None \<Rightarrow> True | Some x \<Rightarrow> addr_ok x)"
| "call_ok c (Connect e a) \<longleftrightarrow> addr_ok a"
| "call_ok c (Config g) \<longleftrightarrow> mtu g = mtu (conn_cfg c) \<or> 16 \<le> unat (mtu g) \<and> (\<forall>k<NC_MAX_CHAN. \<not> chan_used c k)"
| "call_ok c (Chan_Close p) \<longleftrightarrow> handle_ok c p"
| "call_ok c (Chan_Write p d) \<longleftrightarrow> handle_ok c p"
| "call_ok c (Chan_Read p n) \<longleftrightarrow> handle_ok c p"
| "call_ok c _ \<longleftrightarrow> True"

inductive reachable :: "netchan_conn \<Rightarrow> bool" where
  opened: "reachable (netchan_open s)"
| called: "reachable c \<Longrightarrow> call_ok c call \<Longrightarrow> exec_call c call = Some c' \<Longrightarrow> reachable c'"

definition session_ok :: "netchan_conn \<Rightarrow> bool" where
  "session_ok c \<longleftrightarrow> conn_wf {#} c \<and> addr_ok (peer_addr c) \<and> 16 \<le> unat (mtu (conn_cfg c))"

lemma max_frag_payload_mtu:
  assumes "15 \<le> unat (mtu (conn_cfg c))"
  shows "max_frag_payload c + 15 = unat (mtu (conn_cfg c))"
proof -
  have "mtu (conn_cfg c) - of_nat NC_HDR_FULL_SIZE - 8 = mtu (conn_cfg c) - (15 :: u32)"
    by (simp add: NC_HDR_FULL_SIZE_def)
  then show ?thesis using assms by (simp add: max_frag_payload_def unat_sub word_le_nat_alt)
qed

lemma conn_wf_config:
  assumes "conn_wf {#} c" "mtu g = mtu (conn_cfg c) \<or> (\<forall>k<NC_MAX_CHAN. \<not> chan_used c k)"
  shows "conn_wf {#} (netchan_config c g)"
  using assms
  by (auto simp: netchan_config_def conn_wf_def pool_ok_def pool_ms_def free_ms_def events_ok_def table_wf_def
      max_frag_payload_def cong: if_cong)

lemma session_step:
  assumes s: "session_ok c" and call: "call_ok c call"
  shows "ok (exec_call c call) session_ok"
proof -
  have wf: "conn_wf {#} c" and pa: "addr_ok (peer_addr c)" and mt: "16 \<le> unat (mtu (conn_cfg c))"
    using s by (auto simp: session_ok_def)
  have keep: "session_ok c'" if "conn_wf {#} c'" "same_table c c'" for c'
    using that pa mt by (simp add: session_ok_def same_table_def)
  have fp: "max_frag_payload c + 15 = unat (mtu (conn_cfg c))" using mt by (intro max_frag_payload_mtu) simp
  show ?thesis
  proof (cases call)
    case (Feed e now p a)
    then have "length p \<le> max_frag_payload c + 13" "\<forall>x. a = Some x \<longrightarrow> addr_ok x" using call fp by auto
    from netchan_feed_ok [OF wf this pa, of e now] show ?thesis
      using Feed mt by (auto simp: ok_def session_ok_def)
  next
    case (Send_Next e n)
    have "NC_HDR_FULL_SIZE \<le> unat (mtu (conn_cfg c))" using mt by (simp add: NC_HDR_FULL_SIZE_def)
    from netchan_send_next_ok [OF wf this, of e n] show ?thesis using Send_Next keep by (auto simp: ok_def)
  next
    case (Service e now)
    from netchan_service_ok [OF wf, of e now] show ?thesis using Service keep by (auto simp: ok_def)
  next
    case Poll
    then show ?thesis using s netchan_poll_ok [OF wf] keep by (auto split: option.split)
  next
    case (Connect e a)
    then show ?thesis using netchan_connect_ok [OF wf _ pa, of a e] call mt by (auto simp: session_ok_def)
  next
    case Accept
    then show ?thesis using netchan_accept_ok [OF wf] keep by auto
  next
    case Disconnect
    then show ?thesis using netchan_disconnect_ok [OF wf] keep by auto
  next
    case (Config g)
    then show ?thesis using call conn_wf_config [OF wf] pa mt by (auto simp: session_ok_def netchan_config_def)
  next
    case (Chan_Open ty dir ct)
    obtain ko c' where "netchan_chan_open c ty dir ct = (ko, c')" by fastforce
    then show ?thesis using netchan_chan_open_ok [OF wf] pa mt Chan_Open by (auto simp: session_ok_def)
  next
    case (Chan_Close p)
    then show ?thesis using call s netchan_chan_close_ok [OF wf] keep
      by (cases p) (auto simp: handle_ok_def netchan_chan_close_def)
  next
    case (Chan_Write p d)
    have "max_frag_payload c \<noteq> 0" using fp mt by linarith
    note wr_ok = netchan_chan_write_ok [OF wf _ this, of _ d]
    show ?thesis
    proof (cases p)
      case None
      then show ?thesis using Chan_Write s by (simp add: netchan_chan_write_def)
    next
      case (Some k)
      then show ?thesis using Chan_Write call wr_ok [of k] keep by (auto simp: handle_ok_def ok_def)
    qed
  next
    case (Chan_Read p n)
    show ?thesis
    proof (cases p)
      case None
      then show ?thesis using Chan_Read s by (simp add: netchan_chan_read_def)
    next
      case (Some k)
      then show ?thesis using Chan_Read call netchan_chan_read_ok [OF wf, of k n] keep
        by (auto simp: handle_ok_def ok_def)
    qed
  qed
qed

lemma session_open: "session_ok (netchan_open s)"
  by (simp add: session_ok_def conn_wf_open addr_ok_def addr_zero_def netchan_cfg_default_def NC_DEFAULT_MTU_def)

lemma reachable_session: "reachable c \<Longrightarrow> session_ok c"
proof (induction rule: reachable.induct)
  case (called c call c')
  from session_step [OF called.IH called.hyps(2)] called.hyps(3) show ?case by simp
qed (rule session_open)



end
