(* ===== verification/NC_Close.thy ===== *)
theory NC_Close
  imports NC_Lifecycle
begin

text \<open>
  Tearing a connection down: \<open>chan_free\<close> returns exactly the buffers the channel holds, and
  \<open>netchan_close\<close> gives every message buffer back to the pool and empties the channel table.
\<close>

lemma mset_slots: "(\<Sum>i<n. buf_ms (g i)) = mset (filter (\<lambda>b. b \<noteq> NC_NOBUF) (map g [0 ..< n]))"
  by (induction n) (auto simp: buf_ms_def)

lemma mset_slots_active:
  "(\<And>i. i < n \<Longrightarrow> P i \<longleftrightarrow> g i \<noteq> NC_NOBUF) \<Longrightarrow>
   (\<Sum>i<n. buf_ms (g i)) = mset (filter (\<lambda>b. b \<noteq> NC_NOBUF) (map g (filter P [0 ..< n])))"
  by (induction n) (auto simp: buf_ms_def)

lemma chan_bufs_ms:
  assumes "chan_wf fp ch"
  shows "mset (filter (\<lambda>b. b \<noteq> NC_NOBUF) (chan_bufs ch)) = chan_ms ch"
proof -
  have "(\<Sum>i<NC_OUTGOING_SLOTS. buf_ms (o_buf (outgoing ch i)))
      = mset (filter (\<lambda>b. b \<noteq> NC_NOBUF) (map (\<lambda>i. o_buf (outgoing ch i))
          (filter (\<lambda>i. o_active (outgoing ch i)) [0 ..< NC_OUTGOING_SLOTS])))"
    using assms by (intro mset_slots_active) (auto simp: chan_wf_def outgoing_wf_def)
  then show ?thesis by (simp add: chan_bufs_def chan_ms_def mset_slots)
qed

lemma put_all_ok:
  "conn_wf (mset (filter (\<lambda>b. b \<noteq> NC_NOBUF) bs) + M) c \<Longrightarrow> ok (put_all c bs) (conn_wf M)"
proof (induction bs arbitrary: c)
  case (Cons b bs)
  have "ok (pool_put c b) (conn_wf (mset (filter (\<lambda>b. b \<noteq> NC_NOBUF) bs) + M))"
  proof (cases "b = NC_NOBUF")
    case True
    then show ?thesis using Cons.prems by (simp add: pool_put_def)
  next
    case False
    with Cons.prems show ?thesis by (auto intro!: ok_mono [OF conn_wf_pool_put])
  qed
  then show ?case unfolding put_all.simps ok_bind by (rule ok_mono) (rule Cons.IH)
qed simp

text \<open>Freeing the buffers and clearing the table entry commute.\<close>

lemma pool_put_table:
  "pool_put (c\<lparr>channels := t, chan_used := u\<rparr>) b = map_option (\<lambda>c'. c'\<lparr>channels := t, chan_used := u\<rparr>) (pool_put c b)"
  by (simp add: pool_put_def)

lemma put_all_table:
  "put_all (c\<lparr>channels := t, chan_used := u\<rparr>) bs = map_option (\<lambda>c'. c'\<lparr>channels := t, chan_used := u\<rparr>) (put_all c bs)"
proof (induction bs arbitrary: c)
  case (Cons b bs)
  then show ?case by (cases "pool_put c b") (simp_all add: pool_put_table)
qed simp

lemma table_wf_drop:
  assumes i: "channels c i = Some k" and cid: "unat (ch_id (chan_pool c k)) = i" and wf: "table_wf c"
  shows "table_wf (c\<lparr>channels := (channels c)(i := None), chan_used := (chan_used c)(k := False)\<rparr>)"
proof -
  have inj: "j = i" if "channels c j = Some k" for j using wf that cid by (auto simp: table_wf_def)
  have "unat (ch_id (chan_pool c m)) \<noteq> i" if "m < NC_MAX_CHAN" "chan_used c m" "m \<noteq> k" for m
    using wf that i by (auto simp: table_wf_def)
  then show ?thesis using wf inj by (auto simp: table_wf_def)
qed

lemma conn_wf_drop_chan:
  assumes wf: "conn_wf {#} c" and i: "channels c i = Some k"
  shows "conn_wf (chan_ms (chan_pool c k)) (c\<lparr>channels := (channels c)(i := None), chan_used := (chan_used c)(k := False)\<rparr>)"
    (is "conn_wf _ ?c'")
proof -
  have live: "live_chan c k" using wf i by (rule table_lookup)
  have "unat (ch_id (chan_pool c k)) = i" using wf i by (auto simp: conn_wf_def table_wf_def)
  moreover have "table_wf c" using wf by (simp add: conn_wf_def)
  ultimately have "table_wf ?c'" by (rule table_wf_drop [OF i])
  moreover have "pool_ms ?c' + chan_ms (chan_pool c k) = pool_ms c"
    using sum_slot_upd [of k NC_MAX_CHAN "\<lambda>j u. if u then chan_ms (chan_pool c j) else {#}" "chan_used c" False] live
    by (simp add: pool_ms_def free_ms_def live_chan_def ac_simps cong: if_cong)
  ultimately show ?thesis using wf by (auto simp: conn_wf_def pool_ok_def events_ok_def max_frag_payload_def)
qed

lemma chan_free_ok:
  assumes wf: "conn_wf {#} c" and i: "channels c i = Some k"
  shows "ok (chan_free c (Some k)) (\<lambda>c'. conn_wf {#} c' \<and> channels c' = (channels c)(i := None))"
proof -
  let ?c0 = "c\<lparr>channels := (channels c)(i := None), chan_used := (chan_used c)(k := False)\<rparr>"
  have cid: "unat (ch_id (chan_pool c k)) = i" using wf i by (auto simp: conn_wf_def table_wf_def)
  have "mset (filter (\<lambda>b. b \<noteq> NC_NOBUF) (chan_bufs (chan_pool c k))) = chan_ms (chan_pool c k)"
    using live_wf [OF wf table_lookup [OF wf i]] by (rule chan_bufs_ms)
  then have "ok (put_all ?c0 (chan_bufs (chan_pool c k))) (conn_wf {#})"
    using conn_wf_drop_chan [OF wf i] by (intro put_all_ok) simp
  then obtain c' where c': "put_all c (chan_bufs (chan_pool c k)) = Some c'"
      "conn_wf {#} (c'\<lparr>channels := channels ?c0, chan_used := chan_used ?c0\<rparr>)"
    unfolding put_all_table by (auto simp: ok_def)
  have "put_all c bs = Some c' \<Longrightarrow> channels c' = channels c \<and> chan_used c' = chan_used c" for bs c c'
    by (induction bs arbitrary: c) (auto simp: Option.bind_eq_Some_conv dest!: pool_put_frame)
  with c' cid show ?thesis by (simp add: chan_free_def)
qed

lemma close_channels_ok:
  "conn_wf {#} c \<Longrightarrow> ok (close_channels c is) (\<lambda>c'. conn_wf {#} c' \<and>
     (\<forall>j. channels c' j = (if j \<in> set is then None else channels c j)))"
proof (induction "is" arbitrary: c)
  case (Cons i js)
  have "ok (chan_free c (channels c i)) (\<lambda>c'. conn_wf {#} c' \<and> channels c' = (channels c)(i := None))"
    using chan_free_ok [OF Cons.prems] Cons.prems
    by (cases "channels c i") (auto simp: chan_free_def)
  then show ?case unfolding close_channels.simps ok_bind
    by (rule ok_mono) (auto intro!: ok_mono [OF Cons.IH])
qed simp

text \<open>
  C17:  Nothing leaks: closing any well-formed connection completes without a double free or an
  access outside the free stack, and afterwards all 64 message buffers are on the free stack,
  each once, no channel object is in use and the channel table is empty.
\<close>

theorem netchan_close_releases:
  assumes wf: "conn_wf {#} c"
  shows "\<exists>c'. netchan_close c = Some c' \<and> free_ms c' = all_bufs \<and> (\<forall>j. channels c' j = None) \<and>
    (\<forall>k<NC_MAX_CHAN. \<not> chan_used c' k)"
proof -
  from close_channels_ok [OF wf, of "[0 ..< NC_MAX_CHANNELS]"] obtain c' where
    c': "netchan_close c = Some c'" "conn_wf {#} c'" "\<forall>j. channels c' j = (if j < NC_MAX_CHANNELS then None else channels c j)"
    by (auto simp: ok_def netchan_close_def)
  have none: "channels c' j = None" for j
    using c'(3) wf by (cases "channels c j") (auto simp: conn_wf_def table_wf_def)
  then have unused: "\<not> chan_used c' k" if "k < NC_MAX_CHAN" for k
    using c'(2) that by (auto simp: conn_wf_def table_wf_def)
  then have "pool_ms c' = free_ms c'" by (simp add: pool_ms_def)
  with c'(1,2) none unused show ?thesis by (auto simp: conn_wf_def)
qed

theorem netchan_close_releases_witness:
  "\<exists>c'. netchan_close (netchan_open True) = Some c' \<and> free_ms c' = all_bufs \<and> (\<forall>j. channels c' j = None) \<and>
    (\<forall>k<NC_MAX_CHAN. \<not> chan_used c' k)"
  by (rule netchan_close_releases [OF conn_wf_open])

end
