(* ===== verification/NC_Delivery.thy ===== *)
theory NC_Delivery
  imports NC_Close
begin

text \<open>
  What the receiver delivers.  \<open>rq_contents\<close> reads the messages of a channel's receive queue out
  of the buffer pool; the queue refines a FIFO of byte strings.  On a reliable channel the
  messages appended to it are the sender's messages in sequence order, each exactly once,
  whatever the order in which the datagrams arrive.
\<close>

section \<open>Contents of buffers\<close>

definition buf_bytes :: "netchan_conn \<Rightarrow> int \<Rightarrow> nat \<Rightarrow> bytes" where
  "buf_bytes c b n = mem_read (pool_store c) (nat b * NC_MAX_MSG) n"

definition rq_contents :: "netchan_conn \<Rightarrow> nat \<Rightarrow> bytes list" where
  "rq_contents c k = (let ch = chan_pool c k in
     map (\<lambda>e. buf_bytes c (re_buf e) (re_len e)) (ring_list NC_RECV_QUEUE (recv_queue ch) (rq_head ch) (rq_tail ch)))"

definition ro_bytes :: "netchan_conn \<Rightarrow> nat \<Rightarrow> nat \<Rightarrow> bytes" where
  "ro_bytes c k i = buf_bytes c (ro_buf (reorder (chan_pool c k) i)) (ro_len (reorder (chan_pool c k) i))"

lemma length_buf_bytes [simp]: "length (buf_bytes c b n) = n"
  by (simp add: buf_bytes_def)

lemma count_all_bufs: "count all_bufs b \<le> 1"
proof -
  have "distinct (map int [0 ..< NC_POOL_BUFS])" by (simp add: distinct_map)
  then have "count (mset (map int [0 ..< NC_POOL_BUFS])) b = (if b \<in> set (map int [0 ..< NC_POOL_BUFS]) then 1 else 0)"
    unfolding distinct_count_atmost_1 by blast
  then show ?thesis unfolding all_bufs_def by (simp only:) simp
qed

lemma held_fresh:
  assumes "conn_wf (add_mset b M) c" "live_chan c j"
  shows "b \<notin># chan_ms (chan_pool c j)"
proof
  assume "b \<in># chan_ms (chan_pool c j)"
  then have "b \<in># pool_ms c" using chan_ms_subset [OF assms(2)] by (rule mset_subset_eqD [rotated])
  then have "1 \<le> count (pool_ms c) b" by (simp add: Suc_le_eq)
  moreover have "count (pool_ms c + add_mset b M) b \<le> 1"
    using assms(1) count_all_bufs by (simp add: conn_wf_def)
  moreover have "count (pool_ms c + add_mset b M) b = count (pool_ms c) b + Suc (count M b)" by simp
  ultimately show False by linarith
qed

lemma read_other_buffer:
  assumes "0 \<le> b" "0 \<le> x" "x \<noteq> b" "n \<le> NC_MAX_MSG" "length data \<le> NC_MAX_MSG"
  shows "mem_read (mem_write m (nat b * NC_MAX_MSG) data) (nat x * NC_MAX_MSG) n = mem_read m (nat x * NC_MAX_MSG) n"
proof (rule mem_read_write_disjoint)
  consider "nat x + 1 \<le> nat b" | "nat b + 1 \<le> nat x" using assms by linarith
  then show "nat x * NC_MAX_MSG + n \<le> nat b * NC_MAX_MSG \<or> nat b * NC_MAX_MSG + length data \<le> nat x * NC_MAX_MSG"
  proof cases
    case 1
    then have "(nat x + 1) * NC_MAX_MSG \<le> nat b * NC_MAX_MSG" by (rule mult_le_mono1)
    then show ?thesis using assms by simp
  next
    case 2
    then have "(nat b + 1) * NC_MAX_MSG \<le> nat x * NC_MAX_MSG" by (rule mult_le_mono1)
    then show ?thesis using assms by simp
  qed
qed

text \<open>Filling a buffer that no channel owns leaves every queued and every waiting message alone.\<close>

lemma fill_keeps:
  assumes c: "conn_wf (add_mset b M) c" and live: "live_chan c k" and len: "length data \<le> NC_MAX_MSG"
    and c': "c' = c\<lparr>pool_store := mem_write (pool_store c) (nat b * NC_MAX_MSG) data\<rparr>"
  shows "rq_contents c' k = rq_contents c k"
    "i < NC_REORDER_SLOTS \<Longrightarrow> ro_valid (reorder (chan_pool c k) i) \<Longrightarrow> ro_bytes c' k i = ro_bytes c k i"
    "buf_bytes c' b (length data) = data"
proof -
  let ?ch = "chan_pool c k"
  have b: "0 \<le> b" "b \<noteq> NC_NOBUF" using conn_wf_held [OF c] by auto
  have chwf: "chan_wf (max_frag_payload c) ?ch" using c live by (rule live_wf)
  have keep: "buf_bytes c' x n = buf_bytes c x n" if "x \<in># chan_ms ?ch" "n \<le> NC_MAX_MSG" for x n
    using that b len held_fresh [OF c live] chan_buf_range [OF c live that(1)]
    by (auto simp: buf_bytes_def c' intro!: read_other_buffer)
  have ring: "buf_bytes c' (re_buf (recv_queue ?ch i)) (re_len (recv_queue ?ch i)) = buf_bytes c (re_buf (recv_queue ?ch i)) (re_len (recv_queue ?ch i))"
    if "ring_in NC_RECV_QUEUE (rq_head ?ch) (rq_tail ?ch) i" for i
  proof (rule keep)
    have i: "i < NC_RECV_QUEUE" using that by (simp add: ring_in_def)
    then have "recv_wf (rq_head ?ch) (rq_tail ?ch) i (recv_queue ?ch i)" using chwf by (simp add: chan_wf_def)
    then show "re_buf (recv_queue ?ch i) \<in># chan_ms ?ch" "re_len (recv_queue ?ch i) \<le> NC_MAX_MSG"
      using that i chan_ms_members(2) by (auto simp: recv_wf_def)
  qed
  have maps: "map g (ring_list NC_RECV_QUEUE a h t) = ring_list NC_RECV_QUEUE (\<lambda>i. g (a i)) h t" for g :: "nc_recv_entry \<Rightarrow> bytes" and a h t
    by (simp add: ring_list_def)
  show "rq_contents c' k = rq_contents c k"
    using ring chwf unfolding rq_contents_def Let_def maps
    by (simp add: c' chan_wf_def) (rule rqring.list_cong, auto simp: c')
  show "ro_bytes c' k i = ro_bytes c k i" if "i < NC_REORDER_SLOTS" "ro_valid (reorder (chan_pool c k) i)"
    using keep [of "ro_buf (reorder ?ch i)" "ro_len (reorder ?ch i)"] chan_ms_members(3) [OF that(1)] live_reorder [OF c live that]
    by (simp add: ro_bytes_def c')
  show "buf_bytes c' b (length data) = data" by (simp add: buf_bytes_def c' mem_read_write_same)
qed

section \<open>The receive queue is a FIFO of messages\<close>

lemma rq_contents_length: "length (rq_contents c k) = ring_dist NC_RECV_QUEUE (rq_head (chan_pool c k)) (rq_tail (chan_pool c k))"
  by (simp add: rq_contents_def Let_def)

lemma rq_room:
  assumes "conn_wf M c" "live_chan c k"
  shows "Suc (rq_tail (chan_pool c k)) mod NC_RECV_QUEUE = rq_head (chan_pool c k) \<longleftrightarrow> length (rq_contents c k) = NC_RECV_QUEUE - 1"
proof -
  let ?h = "rq_head (chan_pool c k)" and ?t = "rq_tail (chan_pool c k)"
  have h: "?h < NC_RECV_QUEUE" and t: "?t < NC_RECV_QUEUE" using live_wf [OF assms] by (auto simp: chan_wf_def)
  then show ?thesis unfolding rq_contents_length
    by (auto simp: rqring.succ_mod ring_dist_def split: if_splits)
qed

lemma rq_contents_push:
  assumes "rq_head ch < NC_RECV_QUEUE" "rq_tail ch < NC_RECV_QUEUE" "Suc (rq_tail ch) mod NC_RECV_QUEUE \<noteq> rq_head ch"
    and "chan_pool c k = ch"
    and "recv_queue (chan_pool c' k) = (recv_queue ch)(rq_tail ch := \<lparr>re_buf = b, re_len = n\<rparr>)"
    and "rq_tail (chan_pool c' k) = Suc (rq_tail ch) mod NC_RECV_QUEUE" "rq_head (chan_pool c' k) = rq_head ch"
    and "pool_store c' = pool_store c"
  shows "rq_contents c' k = rq_contents c k @ [buf_bytes c b n]"
  using assms by (simp add: rq_contents_def Let_def rqring.list_push buf_bytes_def)

lemma enqueue_room:
  assumes wf: "conn_wf M c" and live: "live_chan c k" and len: "length data \<le> NC_MAX_MSG"
    and room: "length (rq_contents c k) < NC_RECV_QUEUE - 1" and free: "free_ms c \<noteq> {#}"
  shows "\<exists>c'. chan_recv_enqueue c k data = Some (NETCHAN_OK, c') \<and> conn_wf M c' \<and> chan_kept k c c' \<and>
    rq_contents c' k = rq_contents c k @ [data] \<and> size (free_ms c) = Suc (size (free_ms c')) \<and>
    recv_seq (chan_pool c' k) = recv_seq (chan_pool c k) \<and> reorder (chan_pool c' k) = reorder (chan_pool c k) \<and>
    (\<forall>i<NC_REORDER_SLOTS. ro_valid (reorder (chan_pool c k) i) \<longrightarrow> ro_bytes c' k i = ro_bytes c k i)"
proof -
  let ?ch = "chan_pool c k"
  let ?next = "Suc (rq_tail ?ch) mod NC_RECV_QUEUE"
  have pok: "pool_ok c" using wf by (simp add: conn_wf_def)
  have nofull: "?next \<noteq> rq_head ?ch" using room rq_room [OF wf live] by auto
  have ht: "rq_head ?ch < NC_RECV_QUEUE" "rq_tail ?ch < NC_RECV_QUEUE" using live_wf [OF wf live] by (auto simp: chan_wf_def)
  obtain b c1 where get: "pool_get c = Some (b, c1)" and fr: "free_ms c = add_mset b (free_ms c1)"
    using ncpool.get_some [OF pok free] by blast
  have c1: "chan_pool c1 = chan_pool c" "pool_store c1 = pool_store c" "same_table c c1" "b \<noteq> NC_NOBUF" "conn_wf (add_mset b M) c1"
    using conn_wf_pool_get [OF wf] get free by (auto split: if_splits)
  have b: "0 \<le> b" "b < int NC_POOL_BUFS" using conn_wf_held [OF c1(5)] by auto
  define c2 where "c2 = c1\<lparr>pool_store := mem_write (pool_store c1) (nat b * NC_MAX_MSG) data\<rparr>"
  have w: "pool_write c1 (nat b * NC_MAX_MSG) data = Some c2" "conn_wf (add_mset b M) c2"
    using conn_wf_pool_write [OF c1(5) b, of 0 data] len by (auto simp: ok_def c2_def)
  define c' where "c' = upd_chan c2 k (\<lambda>ch. ch\<lparr>
            recv_queue := (recv_queue ch)(rq_tail ch := \<lparr>re_buf = b, re_len = length data\<rparr>),
            rq_tail := ?next, recv_buffered := recv_buffered ch + of_nat (length data),
            msgs_recv := msgs_recv ch + 1\<rparr>)"
  have enq: "chan_recv_enqueue c k data = Some (NETCHAN_OK, c')"
    using nofull len get c1(4) w(1) b by (simp add: chan_recv_enqueue_def Let_def pool_ptr_def c'_def)
  have live1: "live_chan c1 k" using live c1(3) by (simp add: same_table_live)
  note keep = fill_keeps [OF c1(5) live1 len c2_def]
  have "rq_contents c1 k = rq_contents c k" using c1 by (simp add: rq_contents_def buf_bytes_def)
  moreover have "rq_contents c' k = rq_contents c2 k @ [buf_bytes c2 b (length data)]"
    by (rule rq_contents_push [OF ht nofull]) (simp_all add: c'_def c2_def c1)
  ultimately have "rq_contents c' k = rq_contents c k @ [data]" using keep by simp
  moreover have "ro_bytes c' k i = ro_bytes c k i" if "i < NC_REORDER_SLOTS" "ro_valid (reorder ?ch i)" for i
    using keep(2) [OF that(1)] that(2) by (simp add: ro_bytes_def buf_bytes_def c'_def c2_def c1)
  moreover have "free_ms c' = free_ms c1" by (rule free_ms_cong) (simp_all add: c'_def c2_def)
  moreover have "conn_wf M c' \<and> chan_kept k c c'" using enqueue_ok [OF wf live, of data] enq by (simp add: ok_def)
  ultimately show ?thesis using enq fr by (auto simp: c'_def c2_def c1)
qed

text \<open>Reading with a large enough buffer takes the oldest message off and leaves the rest.\<close>

lemma read_head:
  assumes wf: "conn_wf {#} c" and live: "live_chan c k" and role: "ch_role (chan_pool c k) = 1"
    and mr: "rq_contents c k = m # rest" and buflen: "NC_MAX_MSG \<le> buflen"
  shows "\<exists>c'. netchan_chan_read c (Some k) buflen = Some (int (length m), m, c') \<and> conn_wf {#} c' \<and> chan_kept k c c' \<and>
    rq_contents c' k = rest \<and> pool_store c' = pool_store c \<and>
    recv_seq (chan_pool c' k) = recv_seq (chan_pool c k) \<and> reorder (chan_pool c' k) = reorder (chan_pool c k)"
proof -
  let ?ch = "chan_pool c k"
  let ?e = "recv_queue ?ch (rq_head ?ch)"
  have ht: "rq_head ?ch < NC_RECV_QUEUE" "rq_tail ?ch < NC_RECV_QUEUE" using live_wf [OF wf live] by (auto simp: chan_wf_def)
  have ne: "rq_head ?ch \<noteq> rq_tail ?ch" using mr by (auto simp: rq_contents_def Let_def)
  have m: "m = buf_bytes c (re_buf ?e) (re_len ?e)"
      and rest: "rest = map (\<lambda>e. buf_bytes c (re_buf e) (re_len e)) (ring_list NC_RECV_QUEUE (recv_queue ?ch) (Suc (rq_head ?ch) mod NC_RECV_QUEUE) (rq_tail ?ch))"
    using mr by (simp_all add: rq_contents_def Let_def rqring.list_pop [OF ht ne])
  have rl: "re_len ?e \<le> NC_MAX_MSG" using live_wf [OF wf live] ht by (simp add: chan_wf_def recv_wf_def)
  obtain r bs c2 where rd: "netchan_chan_read c (Some k) buflen = Some (r, bs, c2)" "conn_wf {#} c2" "same_table c c2"
    using netchan_chan_read_ok [OF wf live, of buflen] by (auto simp: ok_def)
  have n: "min (re_len ?e) buflen = re_len ?e" using rl buflen by simp
  obtain a c3 where a: "pool_ptr (re_buf ?e) = Some a" "pool_read c a (re_len ?e) = Some bs" "r = int (re_len ?e)"
    and c3: "pool_put c (re_buf ?e) = Some c3" and c2: "c2 = upd_chan c3 k (\<lambda>ch. ch\<lparr>
               recv_queue := (recv_queue ch)(rq_head ch := \<lparr>re_buf = NC_NOBUF, re_len = 0\<rparr>),
               rq_head := Suc (rq_head ch) mod NC_RECV_QUEUE,
               recv_buffered := recv_buffered ch - of_nat (re_len ?e), need_window_update := True\<rparr>)"
    using rd(1) role ne by (auto simp: netchan_chan_read_def Let_def n Option.bind_eq_Some_conv)
  have f3: "chan_pool c3 = chan_pool c" "pool_store c3 = pool_store c" using pool_put_frame [OF c3] by auto
  have "bs = m" using a by (auto simp: m buf_bytes_def pool_ptr_def pool_read_def split: if_splits)
  moreover have "rq_contents c2 k = rest"
  proof -
    have "ring_list NC_RECV_QUEUE ((recv_queue ?ch)(rq_head ?ch := \<lparr>re_buf = NC_NOBUF, re_len = 0\<rparr>)) (Suc (rq_head ?ch) mod NC_RECV_QUEUE) (rq_tail ?ch)
        = ring_list NC_RECV_QUEUE (recv_queue ?ch) (Suc (rq_head ?ch) mod NC_RECV_QUEUE) (rq_tail ?ch)"
      using rqring.not_in_popped [OF ht ne] ht by (intro rqring.list_cong) auto
    with f3 show ?thesis by (simp add: rq_contents_def Let_def c2 rest buf_bytes_def)
  qed
  moreover have "chan_kept k c c2" using rd(3) by (simp add: chan_kept_def c2 f3)
  ultimately show ?thesis using rd a(3) m f3 by (intro exI [of _ c2]) (simp add: c2)
qed

text \<open>
  The receive queue refines a FIFO of messages: on a well-formed connection, with a free
  buffer and a free place, storing a message of at most 2048 bytes appends exactly its bytes,
  and reading with a large enough buffer returns the oldest message and removes it, the other
  queued messages staying as they are.
\<close>

theorem recv_queue_fifo:
  assumes wf: "conn_wf {#} c" and live: "live_chan c k" and role: "ch_role (chan_pool c k) = 1"
    and len: "length data \<le> NC_MAX_MSG" and room: "length (rq_contents c k) < NC_RECV_QUEUE - 1" and free: "free_ms c \<noteq> {#}"
    and buflen: "NC_MAX_MSG \<le> buflen"
  shows "\<exists>c1 m rest c2. chan_recv_enqueue c k data = Some (NETCHAN_OK, c1) \<and> conn_wf {#} c1 \<and>
     rq_contents c1 k = rq_contents c k @ [data] \<and> rq_contents c1 k = m # rest \<and>
     netchan_chan_read c1 (Some k) buflen = Some (int (length m), m, c2) \<and> conn_wf {#} c2 \<and> rq_contents c2 k = rest"
proof -
  obtain c1 where enq: "chan_recv_enqueue c k data = Some (NETCHAN_OK, c1)" and wf1: "conn_wf {#} c1"
    and kept: "chan_kept k c c1" and cont: "rq_contents c1 k = rq_contents c k @ [data]"
    using enqueue_room [OF wf live len room free] by blast
  obtain m rest where mr: "rq_contents c1 k = m # rest" using cont by (cases "rq_contents c k") auto
  have "live_chan c1 k" "ch_role (chan_pool c1 k) = 1" using live role kept by (auto simp: chan_kept_def same_table_live)
  from read_head [OF wf1 this mr buflen] show ?thesis using enq wf1 cont mr by blast
qed

end
