(* ===== verification/NC_Inorder.thy ===== *)
theory NC_Inorder
  imports NC_Delivery
begin

text \<open>
  In-order, exactly-once delivery on a reliable channel.  The sender's messages are a sequence
  \<open>msgs\<close>, message \<open>m\<close> travelling with sequence number \<open>m mod 65536\<close>.  \<open>waits msgs lo n c k\<close> is the
  receiver's invariant: it expects message \<open>n\<close>, and every occupied slot of its reorder buffer
  holds one of the messages \<open>lo .. n + 63\<close>, in the slot of its number.
\<close>

section \<open>Sequence numbers\<close>

lemma seq_slot: "unat (of_nat m :: u16) mod NC_REORDER_SLOTS = m mod NC_REORDER_SLOTS"
proof -
  have "unat (of_nat m :: u16) = m mod 65536" by (simp add: unat_of_nat take_bit_eq_mod)
  moreover have "(64 :: nat) dvd 65536" by simp
  ultimately show ?thesis by (simp add: NC_REORDER_SLOTS_def mod_mod_cancel)
qed

lemma seq_diff_of_nat:
  assumes "n \<le> i + 32768" "i < n + 32768"
  shows "seq_diff (of_nat i) (of_nat n) = int i - int n"
proof -
  have "(of_nat i - of_nat n :: u16) = of_int (int i - int n)" by simp
  moreover have "sint (of_int x :: u16) = x" if "- 32768 \<le> x" "x < 32768" for x
    using that by (simp add: int_word_sint)
  ultimately show ?thesis using assms unfolding seq_diff_def by (simp only:)
qed

lemma mod_window: "n \<le> m \<Longrightarrow> m < n + w \<Longrightarrow> m mod w = n mod w \<Longrightarrow> m = n" for m n w :: nat
proof -
  assume a: "n \<le> m" "m < n + w" "m mod w = n mod w"
  then have "w dvd m - n" by (simp add: mod_eq_dvd_iff_nat)
  with a show "m = n" by (cases "m = n") (auto dest: dvd_imp_le)
qed

lemma seq_eq: "n \<le> m \<Longrightarrow> m < n + 65536 \<Longrightarrow> (of_nat m :: u16) = of_nat n \<Longrightarrow> m = n"
  by (rule mod_window [of n m 65536]) (auto simp: word_of_nat_eq_iff take_bit_eq_mod)

section \<open>The receiver's invariant\<close>

definition waits :: "(nat \<Rightarrow> bytes) \<Rightarrow> nat \<Rightarrow> nat \<Rightarrow> netchan_conn \<Rightarrow> nat \<Rightarrow> bool" where
  "waits msgs lo n c k \<longleftrightarrow> recv_seq (chan_pool c k) = of_nat n \<and>
     (\<forall>i<NC_REORDER_SLOTS. ro_valid (reorder (chan_pool c k) i) \<longrightarrow>
        (\<exists>m. lo \<le> m \<and> m < n + NC_REORDER_SLOTS \<and> i = m mod NC_REORDER_SLOTS \<and>
             ro_seq (reorder (chan_pool c k) i) = of_nat m \<and> ro_bytes c k i = msgs m))"

lemma waits_slot:
  assumes w: "waits msgs n n c k" and v: "ro_valid (reorder (chan_pool c k) (n mod NC_REORDER_SLOTS))"
  shows "ro_seq (reorder (chan_pool c k) (n mod NC_REORDER_SLOTS)) = of_nat n" "ro_bytes c k (n mod NC_REORDER_SLOTS) = msgs n"
proof -
  have "n mod NC_REORDER_SLOTS < NC_REORDER_SLOTS" by (simp add: NC_REORDER_SLOTS_def)
  with w v obtain m where m: "n \<le> m" "m < n + NC_REORDER_SLOTS" "n mod NC_REORDER_SLOTS = m mod NC_REORDER_SLOTS"
      "ro_seq (reorder (chan_pool c k) (n mod NC_REORDER_SLOTS)) = of_nat m" "ro_bytes c k (n mod NC_REORDER_SLOTS) = msgs m"
    unfolding waits_def by blast
  have "m = n" using m(1,2) m(3) [symmetric] by (rule mod_window)
  with m show "ro_seq (reorder (chan_pool c k) (n mod NC_REORDER_SLOTS)) = of_nat n" "ro_bytes c k (n mod NC_REORDER_SLOTS) = msgs n"
    by auto
qed

lemma waits_empty_slot:
  assumes w: "waits msgs n n c k" and v: "\<not> ro_valid (reorder (chan_pool c k) (n mod NC_REORDER_SLOTS))"
  shows "waits msgs (Suc n) n c k"
  unfolding waits_def
proof (intro conjI allI impI)
  show "recv_seq (chan_pool c k) = of_nat n" using w by (simp add: waits_def)
  fix i assume i: "i < NC_REORDER_SLOTS" "ro_valid (reorder (chan_pool c k) i)"
  with w obtain m where m: "n \<le> m" "m < n + NC_REORDER_SLOTS" "i = m mod NC_REORDER_SLOTS"
      "ro_seq (reorder (chan_pool c k) i) = of_nat m" "ro_bytes c k i = msgs m"
    unfolding waits_def by blast
  have "m \<noteq> n" using i v m(3) by auto
  with m show "\<exists>m. Suc n \<le> m \<and> m < n + NC_REORDER_SLOTS \<and> i = m mod NC_REORDER_SLOTS \<and>
      ro_seq (reorder (chan_pool c k) i) = of_nat m \<and> ro_bytes c k i = msgs m" by (intro exI [of _ m]) auto
qed

text \<open>Delivering message \<open>n\<close> out of the reorder buffer.\<close>

definition rx_room :: "netchan_conn \<Rightarrow> nat \<Rightarrow> bool" where
  "rx_room c k \<longleftrightarrow> length (rq_contents c k) + pending_slots c k < NC_RECV_QUEUE \<and> free_ms c \<noteq> {#}"

lemma deliver_step_room:
  assumes wf: "conn_wf M c" and live: "live_chan c k" and w: "waits msgs n n c k" and room: "rx_room c k"
    and v: "ro_valid (reorder (chan_pool c k) (n mod NC_REORDER_SLOTS))"
  shows "\<exists>c'. deliver_step c k = Some (Some c') \<and> conn_wf M c' \<and> chan_kept k c c' \<and> waits msgs (Suc n) (Suc n) c' k \<and>
     rq_contents c' k = rq_contents c k @ [msgs n] \<and> rx_room c' k"
proof -
  let ?slot = "n mod NC_REORDER_SLOTS"
  let ?r = "reorder (chan_pool c k) ?slot"
  have slot: "?slot < NC_REORDER_SLOTS" by (simp add: NC_REORDER_SLOTS_def)
  note r = live_reorder [OF wf live slot v]
  have rs: "recv_seq (chan_pool c k) = of_nat n" using w by (simp add: waits_def)
  note sl = waits_slot [OF w v]
  have pend: "0 < pending_slots c k"
    using slot v by (auto simp: pending_slots_def card_gt_0_iff)
  have rd: "pool_read c (nat (ro_buf ?r) * NC_MAX_MSG) (ro_len ?r) = Some (msgs n)"
    using pool_read_slot [of "ro_buf ?r" 0] r sl(2) by (simp add: ro_bytes_def buf_bytes_def)
  have len: "length (msgs n) \<le> NC_MAX_MSG" using r(4) sl(2) by (metis length_buf_bytes ro_bytes_def)
  obtain c1 where enq: "chan_recv_enqueue c k (msgs n) = Some (NETCHAN_OK, c1)" and wf1: "conn_wf M c1" and kept: "chan_kept k c c1"
    and cont: "rq_contents c1 k = rq_contents c k @ [msgs n]"
    and same: "recv_seq (chan_pool c1 k) = recv_seq (chan_pool c k)" "reorder (chan_pool c1 k) = reorder (chan_pool c k)"
    and bytes: "\<forall>i<NC_REORDER_SLOTS. ro_valid (reorder (chan_pool c k) i) \<longrightarrow> ro_bytes c1 k i = ro_bytes c k i"
    using enqueue_room [OF wf live len] room pend by (force simp: rx_room_def)
  obtain s where "deliver_step c k = Some s" "case s of None \<Rightarrow> True | Some c' \<Rightarrow> conn_wf M c' \<and> chan_kept k c c'"
    using deliver_step_ok [OF wf live] by (auto simp: ok_def)
  moreover have step: "deliver_step c k = do {
        c2 \<leftarrow> pool_put (ev_push c1 NETCHAN_EV_DATA (Some k)) (ro_buf ?r);
        Some (Some (upd_chan c2 k (\<lambda>ch. ch\<lparr>
          reorder := (reorder ch)(?slot := ?r\<lparr>ro_buf := NC_NOBUF, ro_valid := False\<rparr>), recv_seq := recv_seq ch + 1\<rparr>))) }"
    using v rs sl(1) rd r enq by (simp add: deliver_step_def Let_def seq_slot pool_ptr_def)
  ultimately obtain c2 c' where c2: "pool_put (ev_push c1 NETCHAN_EV_DATA (Some k)) (ro_buf ?r) = Some c2"
    and c': "c' = upd_chan c2 k (\<lambda>ch. ch\<lparr>
          reorder := (reorder ch)(?slot := ?r\<lparr>ro_buf := NC_NOBUF, ro_valid := False\<rparr>), recv_seq := recv_seq ch + 1\<rparr>)"
    and d: "deliver_step c k = Some (Some c')" and fin: "conn_wf M c'" "chan_kept k c c'"
    by (auto simp: Option.bind_eq_Some_conv)
  have c2f: "chan_pool c2 = chan_pool c1" "pool_store c2 = pool_store c1" using pool_put_frame [OF c2] by auto
  have cont': "rq_contents c' k = rq_contents c k @ [msgs n]"
    using cont by (simp add: c' rq_contents_def Let_def c2f buf_bytes_def)
  have wait': "waits msgs (Suc n) (Suc n) c' k"
    unfolding waits_def
  proof (intro conjI allI impI)
    show "recv_seq (chan_pool c' k) = of_nat (Suc n)" by (simp add: c' c2f same rs)
    fix i assume i: "i < NC_REORDER_SLOTS" "ro_valid (reorder (chan_pool c' k) i)"
    then have ne: "i \<noteq> ?slot" by (auto simp: c')
    then have eq: "reorder (chan_pool c' k) i = reorder (chan_pool c k) i" by (simp add: c' c2f same)
    with i w obtain m where m: "n \<le> m" "m < n + NC_REORDER_SLOTS" "i = m mod NC_REORDER_SLOTS"
      "ro_seq (reorder (chan_pool c k) i) = of_nat m" "ro_bytes c k i = msgs m" unfolding waits_def by force
    moreover have "m \<noteq> n" using ne m(3) by auto
    moreover have "ro_bytes c' k i = ro_bytes c1 k i"
      using eq by (simp add: ro_bytes_def buf_bytes_def same) (simp add: c' c2f)
    ultimately show "\<exists>m. Suc n \<le> m \<and> m < Suc n + NC_REORDER_SLOTS \<and> i = m mod NC_REORDER_SLOTS \<and>
        ro_seq (reorder (chan_pool c' k) i) = of_nat m \<and> ro_bytes c' k i = msgs m"
      using bytes i eq by (intro exI [of _ m]) auto
  qed
  have still_free: "free_ms c' \<noteq> {#}"
  proof -
    have "pool_free_top c2 \<noteq> 0" using c2 r(1) by (auto simp: pool_put_def split: if_splits)
    then have "0 < size (free_ms c')" by (simp add: size_free_ms c')
    then show ?thesis by auto
  qed
  have "pending_slots c' k < pending_slots c k" using d by (rule deliver_step_pending)
  then have "rx_room c' k" using room cont' still_free by (simp add: rx_room_def)
  with d fin wait' cont' show ?thesis by blast
qed

lemma drain_in_order:
  "conn_wf M c \<Longrightarrow> live_chan c k \<Longrightarrow> waits msgs n n c k \<Longrightarrow> rx_room c k \<Longrightarrow>
   \<exists>c' n'. chan_deliver_reordered c k = Some c' \<and> conn_wf M c' \<and> n \<le> n' \<and> waits msgs (Suc n') n' c' k \<and>
     rq_contents c' k = rq_contents c k @ map msgs [n ..< n']"
proof (induction "pending_slots c k" arbitrary: c n rule: less_induct)
  case less
  have rs: "recv_seq (chan_pool c k) = of_nat n" using less.prems(3) by (simp add: waits_def)
  show ?case
  proof (cases "ro_valid (reorder (chan_pool c k) (n mod NC_REORDER_SLOTS))")
    case False
    then have "deliver_step c k = Some None" by (simp add: deliver_step_def Let_def rs seq_slot)
    then show ?thesis using less.prems waits_empty_slot [OF less.prems(3) False]
      by (intro exI [of _ c] exI [of _ n]) (simp add: chan_deliver_reordered.simps [of c k])
  next
    case True
    from deliver_step_room [OF less.prems True] obtain c1 where c1: "deliver_step c k = Some (Some c1)" "conn_wf M c1"
      "chan_kept k c c1" "waits msgs (Suc n) (Suc n) c1 k" "rq_contents c1 k = rq_contents c k @ [msgs n]" "rx_room c1 k" by blast
    have "live_chan c1 k" using c1(3) less.prems(2) by (auto simp: chan_kept_def same_table_live)
    from less.hyps [OF deliver_step_pending [OF c1(1)] c1(2) this c1(4,6)] obtain c' n' where
      ih: "chan_deliver_reordered c1 k = Some c'" "conn_wf M c'" "Suc n \<le> n'" "waits msgs (Suc n') n' c' k"
        "rq_contents c' k = rq_contents c1 k @ map msgs [Suc n ..< n']" by blast
    then have "rq_contents c' k = rq_contents c k @ map msgs [n ..< n']"
      using c1(5) by (simp add: upt_conv_Cons)
    then show ?thesis using ih c1(1)
      by (intro exI [of _ c'] exI [of _ n']) (auto simp: chan_deliver_reordered.simps [of c k])
  qed
qed

section \<open>Accepting a message\<close>

lemma accept_expected:
  assumes wf: "conn_wf M c" and live: "live_chan c k" and w: "waits msgs (Suc n) n c k"
    and len: "length (msgs n) \<le> NC_MAX_MSG" and room: "length (rq_contents c k) + pending_slots c k < NC_RECV_QUEUE - 1"
    and free: "2 \<le> size (free_ms c)"
  shows "\<exists>c' n'. deliver_in_order c k (msgs n) = Some c' \<and> conn_wf M c' \<and> n < n' \<and> waits msgs (Suc n') n' c' k \<and>
     rq_contents c' k = rq_contents c k @ map msgs [n ..< n']"
proof -
  have fr: "free_ms c \<noteq> {#}" using free by auto
  have "length (rq_contents c k) < NC_RECV_QUEUE - 1" using room by linarith
  from enqueue_room [OF wf live len this fr] obtain c1 where enq: "chan_recv_enqueue c k (msgs n) = Some (NETCHAN_OK, c1)"
    and wf1: "conn_wf M c1" and kept: "chan_kept k c c1" and cont: "rq_contents c1 k = rq_contents c k @ [msgs n]"
    and sz: "size (free_ms c) = Suc (size (free_ms c1))"
    and same: "recv_seq (chan_pool c1 k) = recv_seq (chan_pool c k)" "reorder (chan_pool c1 k) = reorder (chan_pool c k)"
    and bytes: "\<forall>i<NC_REORDER_SLOTS. ro_valid (reorder (chan_pool c k) i) \<longrightarrow> ro_bytes c1 k i = ro_bytes c k i" by blast
  define c2 where "c2 = upd_chan (ev_push c1 NETCHAN_EV_DATA (Some k)) k (\<lambda>ch. ch\<lparr>recv_seq := recv_seq ch + 1\<rparr>)"
  have live1: "live_chan (ev_push c1 NETCHAN_EV_DATA (Some k)) k"
    using live kept by (auto simp: chan_kept_def same_table_def live_chan_def)
  have wf2: "conn_wf M c2" unfolding c2_def using wf1 live1 by (intro conn_wf_upd_plain conn_wf_ev_push) auto
  have live2: "live_chan c2 k" using live1 by (simp add: c2_def live_chan_def)
  have rb: "ro_bytes c2 k i = ro_bytes c1 k i" for i by (simp add: c2_def ro_bytes_def buf_bytes_def)
  have w2: "waits msgs (Suc n) (Suc n) c2 k"
    unfolding waits_def
  proof (intro conjI allI impI)
    show "recv_seq (chan_pool c2 k) = of_nat (Suc n)" using w by (simp add: c2_def same waits_def)
    fix i assume i: "i < NC_REORDER_SLOTS" "ro_valid (reorder (chan_pool c2 k) i)"
    have eq: "reorder (chan_pool c2 k) i = reorder (chan_pool c k) i" by (simp add: c2_def same)
    from i eq w obtain m where "Suc n \<le> m" "m < n + NC_REORDER_SLOTS" "i = m mod NC_REORDER_SLOTS"
      "ro_seq (reorder (chan_pool c k) i) = of_nat m" "ro_bytes c k i = msgs m" unfolding waits_def by force
    then show "\<exists>m. Suc n \<le> m \<and> m < Suc n + NC_REORDER_SLOTS \<and> i = m mod NC_REORDER_SLOTS \<and>
        ro_seq (reorder (chan_pool c2 k) i) = of_nat m \<and> ro_bytes c2 k i = msgs m"
      using bytes i eq rb by (intro exI [of _ m]) auto
  qed
  have cont2: "rq_contents c2 k = rq_contents c k @ [msgs n]" using cont by (simp add: c2_def rq_contents_def Let_def buf_bytes_def)
  have "pending_slots c2 k = pending_slots c k" by (simp add: pending_slots_def c2_def same)
  moreover have "free_ms c2 = free_ms c1" by (simp add: free_ms_def c2_def)
  moreover have "free_ms c1 \<noteq> {#}" using free sz by auto
  ultimately have "rx_room c2 k" using room cont2 by (simp add: rx_room_def)
  from drain_in_order [OF wf2 live2 w2 this] obtain c' n' where d: "chan_deliver_reordered c2 k = Some c'" "conn_wf M c'"
    "Suc n \<le> n'" "waits msgs (Suc n') n' c' k" "rq_contents c' k = rq_contents c2 k @ map msgs [Suc n ..< n']" by blast
  then have "rq_contents c' k = rq_contents c k @ map msgs [n ..< n']" using cont2 by (simp add: upt_conv_Cons)
  with d enq show ?thesis by (intro exI [of _ c'] exI [of _ n']) (auto simp: deliver_in_order_def c2_def)
qed

lemma accept_ahead:
  assumes wf: "conn_wf M c" and live: "live_chan c k" and w: "waits msgs (Suc n) n c k"
    and len: "length (msgs i) \<le> NC_MAX_MSG" and i: "i \<noteq> n" "n \<le> i + 32768" "i < n + 32768"
  shows "\<exists>c'. store_reordered c k (of_nat i) (msgs i) = Some c' \<and> conn_wf M c' \<and> waits msgs (Suc n) n c' k \<and>
     rq_contents c' k = rq_contents c k"
proof -
  let ?slot = "i mod NC_REORDER_SLOTS"
  have rs: "recv_seq (chan_pool c k) = of_nat n" using w by (simp add: waits_def)
  have diff: "seq_diff (of_nat i) (recv_seq (chan_pool c k)) = int i - int n" using seq_diff_of_nat [OF i(2,3)] by (simp add: rs)
  obtain c' where st: "store_reordered c k (of_nat i) (msgs i) = Some c'" "conn_wf M c'"
    using store_reordered_ok [OF wf live, of "of_nat i" "msgs i"] by (auto simp: ok_def)
  show ?thesis
  proof (cases "n < i \<and> i < n + NC_REORDER_SLOTS \<and> \<not> ro_valid (reorder (chan_pool c k) ?slot) \<and> free_ms c \<noteq> {#}")
    case False
    have empty: "free_ms c = {#} \<Longrightarrow> pool_get c = Some (NC_NOBUF, c)" using wf by (intro ncpool.get_empty) (simp add: conn_wf_def)
    have "store_reordered c k (of_nat i) (msgs i) = Some c"
      using False empty len by (auto simp: store_reordered_def Let_def diff seq_slot)
    then show ?thesis using st w by auto
  next
    case True
    have pok: "pool_ok c" using wf by (simp add: conn_wf_def)
    obtain b c1 where get: "pool_get c = Some (b, c1)" using ncpool.get_some [OF pok] True by blast
    have c1: "chan_pool c1 = chan_pool c" "pool_store c1 = pool_store c" "same_table c c1" "b \<noteq> NC_NOBUF" "conn_wf (add_mset b M) c1"
      using conn_wf_pool_get [OF wf] get True by (auto split: if_splits)
    have b: "0 \<le> b" "b < int NC_POOL_BUFS" using conn_wf_held [OF c1(5)] by auto
    define c2 where "c2 = c1\<lparr>pool_store := mem_write (pool_store c1) (nat b * NC_MAX_MSG) (msgs i)\<rparr>"
    have wr: "pool_write c1 (nat b * NC_MAX_MSG) (msgs i) = Some c2"
      using conn_wf_pool_write [OF c1(5) b, of 0 "msgs i"] len by (auto simp: ok_def c2_def)
    have live1: "live_chan c1 k" using live c1(3) by (simp add: same_table_live)
    note keep = fill_keeps [OF c1(5) live1 len c2_def]
    have c': "c' = upd_chan c2 k (\<lambda>ch. ch\<lparr>reorder := (reorder ch)(?slot :=
              \<lparr>ro_seq = of_nat i, ro_buf = b, ro_len = length (msgs i), ro_valid = True\<rparr>)\<rparr>)"
      using st(1) True get wr b c1(4) len by (auto simp: store_reordered_def Let_def diff seq_slot pool_ptr_def)
    have "rq_contents c' k = rq_contents c2 k" by (simp add: c' rq_contents_def Let_def buf_bytes_def)
    also have "\<dots> = rq_contents c k" using keep(1) c1 by (simp add: rq_contents_def buf_bytes_def)
    finally have cont: "rq_contents c' k = rq_contents c k" .
    have "waits msgs (Suc n) n c' k"
      unfolding waits_def
    proof (intro conjI allI impI)
      show "recv_seq (chan_pool c' k) = of_nat n" by (simp add: c' c2_def c1 rs)
      fix j assume j: "j < NC_REORDER_SLOTS" "ro_valid (reorder (chan_pool c' k) j)"
      show "\<exists>m. Suc n \<le> m \<and> m < n + NC_REORDER_SLOTS \<and> j = m mod NC_REORDER_SLOTS \<and>
        ro_seq (reorder (chan_pool c' k) j) = of_nat m \<and> ro_bytes c' k j = msgs m"
      proof (cases "j = ?slot")
        case True': True
        then have "ro_bytes c' k j = msgs i" using keep(3) by (simp add: ro_bytes_def c' buf_bytes_def)
        then show ?thesis using True True' by (intro exI [of _ i]) (simp add: c')
      next
        case False
        then have eq: "reorder (chan_pool c' k) j = reorder (chan_pool c k) j" by (simp add: c' c2_def c1)
        then have "ro_bytes c' k j = ro_bytes c k j" using keep(2) [OF j(1)] j(2)
          by (simp add: ro_bytes_def buf_bytes_def c1) (simp add: c' c2_def c1)
        moreover obtain m where "Suc n \<le> m" "m < n + NC_REORDER_SLOTS" "j = m mod NC_REORDER_SLOTS"
          "ro_seq (reorder (chan_pool c k) j) = of_nat m" "ro_bytes c k j = msgs m" using w j eq unfolding waits_def by force
        ultimately show ?thesis using eq by (intro exI [of _ m]) auto
      qed
    qed
    with st cont show ?thesis by blast
  qed
qed

text \<open>
  A DATA frame at a reliable receiver that has delivered messages \<open>0 .. n - 1\<close> of the sequence
  \<open>msgs\<close>: any message \<open>i\<close> of it (unfragmented, less than 32768 ahead or behind: a duplicate, the expected
  one, or one from the future).  With room in its receive queue and two free buffers, it then
  has appended to the application's queue exactly the messages \<open>n .. n' - 1\<close> in order, expects message
  \<open>n'\<close>, has \<open>n < n'\<close> when the frame was the expected one, and acknowledges \<open>n' - 1\<close> unless the expected number
  is 0 modulo 65536.
\<close>

lemma data_in_order:
  assumes wf: "conn_wf {#} c" and cid: "channels c (unat cid) = Some k"
    and role: "ch_role (chan_pool c k) = 1" and ty: "ch_type (chan_pool c k) = NETCHAN_RELIABLE"
    and w: "waits msgs (Suc n) n c k" and len: "length (msgs i) \<le> NC_MAX_MSG"
    and i: "n \<le> i + 32768" "i < n + 32768"
    and room: "length (rq_contents c k) + pending_slots c k < NC_RECV_QUEUE - 1" and free: "2 \<le> size (free_ms c)"
  shows "\<exists>c' n'. process_data c (data_frame cid (of_nat i) 0 1 (msgs i)) = Some (int (8 + length (msgs i)), c') \<and>
     conn_wf {#} c' \<and> chan_kept k c c' \<and> n \<le> n' \<and> (i = n \<longrightarrow> n < n') \<and> waits msgs (Suc n') n' c' k \<and>
     rq_contents c' k = rq_contents c k @ map msgs [n ..< n'] \<and> need_ack (chan_pool c' k) \<and>
     ((of_nat n' :: u16) \<noteq> 0 \<longrightarrow> ack_seq (chan_pool c' k) = of_nat n' - 1)"
proof -
  have live: "live_chan c k" using wf cid by (rule table_lookup)
  obtain c1 n' where acc: "accept_reliable c k (of_nat i) (msgs i) = Some c1" "conn_wf {#} c1" "n \<le> n'" "i = n \<longrightarrow> n < n'"
    "waits msgs (Suc n') n' c1 k" "rq_contents c1 k = rq_contents c k @ map msgs [n ..< n']"
  proof (cases "i = n")
    case True
    have "recv_seq (chan_pool c k) = of_nat n" using w by (simp add: waits_def)
    with True accept_expected [OF wf live w _ room free] len that show ?thesis by (auto simp: accept_reliable_def)
  next
    case False
    have "recv_seq (chan_pool c k) \<noteq> of_nat i"
    proof -
      have "(of_nat i :: u16) \<noteq> of_nat n" using False i seq_eq [of n i] seq_eq [of i n] by (cases "n \<le> i") auto
      then show ?thesis using w by (simp add: waits_def)
    qed
    with False accept_ahead [OF wf live w len False i] that [of _ n] show ?thesis by (auto simp: accept_reliable_def)
  qed
  let ?c' = "mark_ack c1 k"
  have kept: "chan_kept k c c1" using accept_reliable_ok [OF wf live, of "of_nat i" "msgs i"] acc(1) by simp
  then have live1: "live_chan c1 k" using live by (simp add: chan_kept_def same_table_def live_chan_def)
  have kept': "chan_kept k c ?c'" using kept by (simp add: chan_kept_def same_table_def mark_ack_def)
  have wf': "conn_wf {#} ?c'" unfolding mark_ack_def using acc(2) live1 by (intro conn_wf_upd_plain) auto
  have "data_payload c cid (of_nat i) 0 1 (msgs i) = Some ?c'"
    using cid role ty acc(1) by (simp add: data_payload_def data_reliable_def chan_kind_defs)
  moreover have "process_frame undefined 0 c (data_frame cid (of_nat i) 0 1 (msgs i) @ [])
      = process_data c (data_frame cid (of_nat i) 0 1 (msgs i))"
    by (simp add: process_frame_def data_frame_def frame_type_defs)
  ultimately have pd: "process_data c (data_frame cid (of_nat i) 0 1 (msgs i)) = Some (int (8 + length (msgs i)), ?c')"
    using process_data_frame [of "msgs i" undefined 0 c cid "of_nat i" 0 1 "[]"] len by (simp add: NC_MAX_MSG_def)
  have rs: "recv_seq (chan_pool c1 k) = of_nat n'" using acc(5) by (simp add: waits_def)
  have "waits msgs (Suc n') n' ?c' k" "rq_contents ?c' k = rq_contents c1 k"
    using acc(5) by (simp_all add: waits_def mark_ack_def ro_bytes_def buf_bytes_def rq_contents_def Let_def)
  moreover have "(of_nat n' :: u16) \<noteq> 0 \<longrightarrow> ack_seq (chan_pool ?c' k) = of_nat n' - 1"
    by (simp add: mark_ack_def rs word_neq_0_conv)
  moreover have "need_ack (chan_pool ?c' k)" by (simp add: mark_ack_def)
  ultimately show ?thesis using pd wf' kept' acc by (intro exI [of _ ?c'] exI [of _ n']) auto
qed

lemma conn_wf_opened: "conn_wf {#} opened"
proof -
  let ?c = "(netchan_open True)\<lparr>last_recv_ms := 1, pkts_recv := 1\<rparr>"
  have "conn_wf {#} ?c" by (intro conn_wf_fields conn_wf_open)
  then have "ok (process_frame undefined 0 ?c (open_frame 0 0 0 [] @ [])) (handled ?c)"
    by (rule process_frame_ok)
       (simp_all add: max_frag_payload_def netchan_cfg_default_def NC_DEFAULT_MTU_def NC_HDR_FULL_SIZE_def)
  then show ?thesis unfolding opened_step by simp
qed

lemma opened_queue:
  "rq_contents opened 0 = []" "pending_slots opened 0 = 0" "recv_seq (chan_pool opened 0) = 0"
  "\<not> ro_valid (reorder (chan_pool opened 0) i)" "size (free_ms opened) = 64"
  using fresh_find
  by (simp_all add: opened_def chan_new_def netchan_open_def pool_init_def conn_zero_def ctrl_window_update_def
      chan_reset_bufs_def chan_zero_def reorder_zero_def NC_POOL_BUFS_def rq_contents_def Let_def pending_slots_def
      size_free_ms)

theorem recv_queue_fifo_witness:
  "\<exists>c1 c2. chan_recv_enqueue opened 0 [7, 8] = Some (NETCHAN_OK, c1) \<and>
     netchan_chan_read c1 (Some 0) 4096 = Some (2, [7, 8], c2) \<and> rq_contents c2 0 = []"
proof -
  have live: "live_chan opened 0" using table_lookup [OF conn_wf_opened opened_facts(1)] .
  have "free_ms opened \<noteq> {#}" "length (rq_contents opened 0) < NC_RECV_QUEUE - 1"
    using opened_queue(5) by (force, simp add: opened_queue NC_RECV_QUEUE_def)
  note h = this
  from recv_queue_fifo [OF conn_wf_opened live opened_facts(2) _ h(2,1), of "[7, 8]" 4096]
  obtain c1 m rest c2 where "chan_recv_enqueue opened 0 [7, 8] = Some (NETCHAN_OK, c1)"
     "rq_contents c1 0 = rq_contents opened 0 @ [[7, 8]]" "rq_contents c1 0 = m # rest"
     "netchan_chan_read c1 (Some 0) 4096 = Some (int (length m), m, c2)" "rq_contents c2 0 = rest"
    by (auto simp: NC_MAX_MSG_def)
  then show ?thesis using opened_queue(1) by auto
qed

end
