(* ===== verification/NC_Handshake.thy ===== *)
theory NC_Handshake
  imports NC_Inorder
begin

text \<open>
  Two endpoints talking: the datagram the client builds after \<open>netchan_connect\<close>, fed to a
  fresh server and answered by \<open>netchan_accept\<close>, leaves both connected with each other's ids.
\<close>

section \<open>Datagrams of control frames\<close>

lemma flush_acks_none: "(\<forall>i. channels c i = None) \<Longrightarrow> flush_acks c m buflen out is = Some (out, c)"
  by (induction "is") auto

lemma flush_data_none: "(\<forall>i. channels c i = None) \<Longrightarrow> flush_data e c m buflen out is = Some (out, c)"
  by (induction "is") auto

lemma send_ctrl_only:
  assumes "ctrl_buf c \<noteq> []" "\<forall>i. channels c i = None" "packet_header c = (hdr, c0)"
    and "length hdr + length (ctrl_buf c) \<le> unat (mtu (conn_cfg c))" "length hdr + length (ctrl_buf c) \<le> buflen"
  shows "netchan_send_next e c buflen = Some (hdr @ ctrl_buf c, Some (peer_addr c),
     c0\<lparr>ctrl_buf := [], last_send_ms := env_now e NC_MAX_CHANNELS, pkts_sent := pkts_sent c + 1\<rparr>)"
proof -
  have c0: "ctrl_buf c0 = ctrl_buf c" "channels c0 = channels c" "peer_addr c0 = peer_addr c" "pkts_sent c0 = pkts_sent c"
    using assms(3) by (auto simp: packet_header_def split: if_splits)
  have ctrl: "flush_ctrl c0 (min (unat (mtu (conn_cfg c))) buflen) buflen hdr = Some (hdr @ ctrl_buf c, c0\<lparr>ctrl_buf := []\<rparr>)"
  proof -
    let ?m = "min (unat (mtu (conn_cfg c))) buflen"
    have "size_sub ?m (length hdr) = ?m - length hdr" using assms(4,5) by (intro size_sub_le) linarith
    then have n: "min (length (ctrl_buf c)) (size_sub ?m (length hdr)) = length (ctrl_buf c)" using assms(4,5) by linarith
    have e: "emit buflen hdr (ctrl_buf c) = Some (hdr @ ctrl_buf c)" using assms(5) by (intro emit_ok)
    show ?thesis by (simp add: flush_ctrl_def Let_def c0 n e assms(1))
  qed
  have none: "\<forall>i. channels (c0\<lparr>ctrl_buf := []\<rparr>) i = None" using assms(2) c0 by simp
  have hd: "has_data c = Some True" using assms(1) by (simp add: has_data_def)
  have "\<not> buflen < length hdr" using assms(5) by linarith
  then show ?thesis
    by (simp add: netchan_send_next_def hd assms(3) Let_def ctrl flush_acks_none [OF none] flush_data_none [OF none] c0)
qed

lemma hdr_reads:
  "rd8 (f # wr32 i @ rest) 0 = Some f" "rd32 (f # wr32 i @ rest) (Suc 0) = Some i"
  "drop NC_HDR_INIT_SIZE (f # wr32 i @ rest) = rest" "\<not> length (f # wr32 i @ rest) < NC_HDR_INIT_SIZE"
  by (simp_all add: rd_at NC_HDR_INIT_SIZE_def)

lemma feed_init:
  assumes "track_peer c a rest = Some c1"
  shows "netchan_feed e now c ([NC_PKT_FLAG_INIT] @ wr32 i @ rest) a
    = parse_frames e (c1\<lparr>last_recv_ms := now, pkts_recv := pkts_recv c1 + 1\<rparr>) rest 0"
  using assms by (simp add: netchan_feed_def hdr_reads(1-3) Let_def NC_PKT_FLAG_INIT_def) (simp add: NC_HDR_INIT_SIZE_def)

lemma feed_full:
  assumes "track_peer c a rest = Some c1"
  shows "netchan_feed e now c ([NC_PKT_FLAG_PKTNUM] @ wr32 (local_id c) @ wr16 n @ rest) a
    = parse_frames e (c1\<lparr>last_recv_ms := now, pkts_recv := pkts_recv c1 + 1\<rparr>) rest 0"
  using assms by (simp add: netchan_feed_def hdr_reads Let_def NC_PKT_FLAG_INIT_def NC_PKT_FLAG_PKTNUM_def NC_HDR_FULL_SIZE_def NC_HDR_INIT_SIZE_def)

lemma feed_wrong_id:
  assumes "flags AND NC_PKT_FLAG_INIT = 0" "i \<noteq> local_id c"
  shows "netchan_feed e now c ([flags] @ wr32 i @ rest) a = Some (NETCHAN_ERR_PROTO, c)"
  using assms by (simp add: netchan_feed_def hdr_reads Let_def)

lemma parse_single:
  assumes "process_frame e 0 c f = Some (int (length f), c')" "f \<noteq> []" "hd f \<noteq> NC_FRAME_PADDING"
  shows "parse_frames e c f 0 = Some (NETCHAN_OK, c')"
  using parse_frames_step [of f "[]" f "[]" 0 e c c'] assms by (simp add: parse_frames_end)

lemma nc_random_id_pos: "nc_random_id e i \<noteq> 0"
  by (simp add: nc_random_id_def Let_def split: option.split)

section \<open>The handshake\<close>

text \<open>The exchange, as the event loops of the two programs drive it.\<close>

definition handshake :: "nc_env \<Rightarrow> nc_env \<Rightarrow> nc_addr \<Rightarrow> nc_addr \<Rightarrow> nat \<Rightarrow> u32 \<Rightarrow> (netchan_conn \<times> netchan_conn) option" where
  "handshake ec es cli_addr srv_addr buflen now = do {
     let (_, cl1) = netchan_connect ec (netchan_open False) srv_addr;
     (p1, _, cl2) \<leftarrow> netchan_send_next ec cl1 buflen;
     (_, sv1) \<leftarrow> netchan_feed es now (netchan_open True) p1 (Some cli_addr);
     let (_, sv2) = netchan_accept sv1;
     (p2, _, sv3) \<leftarrow> netchan_send_next es sv2 buflen;
     (_, cl3) \<leftarrow> netchan_feed ec now cl2 p2 (Some srv_addr);
     Some (cl3, sv3) }"

text \<open>
  C16:  The handshake completes.  Whatever the clocks, the entropy sources and the addresses,
  with datagram buffers of at least 17 bytes and no loss, one round trip takes a fresh client
  and a fresh server to the connected state; each has a nonzero id, knows the other's, and the
  application of each side finds exactly one event, CONNECTED.
\<close>

theorem handshake_connects:
  assumes "17 \<le> buflen" and "0 < a_len cli_addr" "0 < a_len srv_addr"
  shows "\<exists>cl sv. handshake ec es cli_addr srv_addr buflen now = Some (cl, sv) \<and>
    conn_state cl = NETCHAN_STATE_CONNECTED \<and> conn_state sv = NETCHAN_STATE_CONNECTED \<and>
    remote_id cl = local_id sv \<and> remote_id sv = local_id cl \<and> local_id cl \<noteq> 0 \<and> local_id sv \<noteq> 0 \<and>
    peer_addr cl = srv_addr \<and> peer_addr sv = cli_addr \<and>
    map ev_type (event_list cl) = [NETCHAN_EV_CONNECTED] \<and> map ev_type (event_list sv) = [NETCHAN_EV_CONNECTED]"
proof -
  let ?id = "nc_random_id ec 0"
  define cl1 where "cl1 = snd (netchan_connect ec (netchan_open False) srv_addr)"
  have cl1: "ctrl_buf cl1 = init_frame ?id" "conn_state cl1 = NETCHAN_STATE_CONNECTING" "\<not> is_server cl1" "local_id cl1 = ?id"
    "channels cl1 = (\<lambda>_. None)" "conn_cfg cl1 = netchan_cfg_default" "peer_addr cl1 = srv_addr" "ev_head cl1 = 0" "ev_tail cl1 = 0"
    by (simp_all add: cl1_def netchan_connect_def Let_def ctrl_connect_init_def ctrl_reserve_def init_frame_def NC_CTRL_BUF_SIZE_def)
  define cl2 where "cl2 = cl1\<lparr>ctrl_buf := [], last_send_ms := env_now ec NC_MAX_CHANNELS, pkts_sent := pkts_sent cl1 + 1\<rparr>"
  let ?p1 = "[NC_PKT_FLAG_INIT] @ wr32 ?id @ init_frame ?id"
  have s1: "netchan_send_next ec cl1 buflen = Some (?p1, Some srv_addr, cl2)"
    using send_ctrl_only [of cl1 "[NC_PKT_FLAG_INIT] @ wr32 ?id" cl1 buflen ec] cl1 assms(1)
    by (simp add: packet_header_def cl2_def netchan_cfg_default_def NC_DEFAULT_MTU_def)
  let ?sv0 = "netchan_open True"
  let ?svt = "?sv0\<lparr>peer_addr := cli_addr\<rparr>"
  have t1: "track_peer ?sv0 (Some cli_addr) r = Some ?svt" for r
    using assms by (simp add: track_peer_def addr_zero_def)
  let ?sv0' = "?svt\<lparr>last_recv_ms := now, pkts_recv := pkts_recv ?svt + 1\<rparr>"
  define sv1 where "sv1 = ?sv0'\<lparr>remote_id := ?id, local_id := nc_random_id es 0, conn_state := NETCHAN_STATE_CONNECTING\<rparr>"
  have "process_frame es 0 ?sv0' (init_frame ?id) = Some (6, sv1)"
    using process_init_frame [of ?sv0' es 0 ?id "[]"] by (simp add: sv1_def)
  then have f1: "netchan_feed es now ?sv0 ?p1 (Some cli_addr) = Some (NETCHAN_OK, sv1)"
    unfolding feed_init [OF t1] by (intro parse_single) simp_all
  define sv2 where "sv2 = snd (netchan_accept sv1)"
  have sv1: "is_server sv1" "conn_state sv1 = NETCHAN_STATE_CONNECTING" "ctrl_buf sv1 = []" "channels sv1 = (\<lambda>_. None)"
    "conn_cfg sv1 = netchan_cfg_default" "peer_addr sv1 = cli_addr" "local_id sv1 = nc_random_id es 0" "remote_id sv1 = ?id"
    "ev_head sv1 = 0" "ev_tail sv1 = 0" by (simp_all add: sv1_def)
  have sv2: "ctrl_buf sv2 = accept_frame (local_id sv1) (idle_timeout_ms netchan_cfg_default)" "conn_state sv2 = NETCHAN_STATE_CONNECTED"
    "is_server sv2" "channels sv2 = (\<lambda>_. None)" "conn_cfg sv2 = netchan_cfg_default" "peer_addr sv2 = cli_addr"
    "local_id sv2 = nc_random_id es 0" "remote_id sv2 = ?id" "map ev_type (event_list sv2) = [NETCHAN_EV_CONNECTED]"
    using sv1 by (simp_all add: sv2_def netchan_accept_def ctrl_connect_accept_def ctrl_reserve_def accept_frame_def
        NC_CTRL_BUF_SIZE_def event_list_def ev_push_def ev_push_event_def NC_EVENT_QUEUE_def ring_list_def ring_dist_def)
  define sv3 where "sv3 = sv2\<lparr>next_pkt_num := next_pkt_num sv2 + 1, ctrl_buf := [], last_send_ms := env_now es NC_MAX_CHANNELS,
     pkts_sent := pkts_sent sv2 + 1\<rparr>"
  let ?p2 = "[NC_PKT_FLAG_PKTNUM] @ wr32 (local_id cl2) @ wr16 (next_pkt_num sv2) @ accept_frame (local_id sv1) (idle_timeout_ms netchan_cfg_default)"
  have s2: "netchan_send_next es sv2 buflen = Some (?p2, Some cli_addr, sv3)"
    using send_ctrl_only [of sv2 "[NC_PKT_FLAG_PKTNUM] @ wr32 ?id @ wr16 (next_pkt_num sv2)" "sv2\<lparr>next_pkt_num := next_pkt_num sv2 + 1\<rparr>" buflen es]
      sv2 assms(1) cl1 by (simp add: packet_header_def sv3_def cl2_def netchan_cfg_default_def NC_DEFAULT_MTU_def)
  have t2: "track_peer cl2 (Some srv_addr) r = Some cl2" for r using cl1 assms by (simp add: track_peer_def cl2_def)
  define cl2' where "cl2' = cl2\<lparr>last_recv_ms := now, pkts_recv := pkts_recv cl2 + 1\<rparr>"
  define cl3 where "cl3 = ev_push (cl2'\<lparr>remote_id := local_id sv1, conn_state := NETCHAN_STATE_CONNECTED\<rparr>) NETCHAN_EV_CONNECTED None"
  have "process_frame ec 0 cl2' (accept_frame (local_id sv1) (idle_timeout_ms netchan_cfg_default)) = Some (10, cl3)"
    using process_accept_frame [of cl2' ec 0 "local_id sv1" "idle_timeout_ms netchan_cfg_default" "[]"] cl1
    by (simp add: cl3_def cl2'_def cl2_def)
  then have f2: "netchan_feed ec now cl2 ?p2 (Some srv_addr) = Some (NETCHAN_OK, cl3)"
    unfolding feed_full [OF t2] cl2'_def [symmetric] by (intro parse_single) simp_all
  have "handshake ec es cli_addr srv_addr buflen now = Some (cl3, sv3)"
    using s1 f1 s2 f2 unfolding cl1_def sv2_def by (simp add: handshake_def case_prod_beta)
  moreover have "map ev_type (event_list cl3) = [NETCHAN_EV_CONNECTED]"
    using cl1 by (simp add: cl3_def cl2'_def cl2_def event_list_def ev_push_def ev_push_event_def NC_EVENT_QUEUE_def ring_list_def ring_dist_def)
  moreover have "event_list sv3 = event_list sv2" by (simp add: sv3_def event_list_def)
  ultimately show ?thesis using cl1 sv1 sv2 nc_random_id_pos
    by (intro exI [of _ cl3] exI [of _ sv3]) (simp add: cl3_def cl2'_def cl2_def sv3_def)
qed

theorem handshake_connects_witness:
  "\<exists>cl sv. handshake \<lparr>env_now = (\<lambda>_. 5), env_entropy = (\<lambda>_. Some 77), env_here = 0\<rparr>
      \<lparr>env_now = (\<lambda>_. 9), env_entropy = (\<lambda>_. None), env_here = 0\<rparr> (addr_zero\<lparr>a_len := 7\<rparr>) (addr_zero\<lparr>a_len := 7\<rparr>) 1500 10 = Some (cl, sv) \<and>
    conn_state cl = NETCHAN_STATE_CONNECTED \<and> conn_state sv = NETCHAN_STATE_CONNECTED \<and> remote_id sv = local_id cl"
proof -
  have "(17 :: nat) \<le> 1500" "0 < a_len (addr_zero\<lparr>a_len := 7\<rparr>)" by simp_all
  from handshake_connects [OF this(1) this(2) this(2)] show ?thesis by blast
qed

end
