(* ===== verification/NC_Acks.thy ===== *)
theory NC_Acks
  imports NC_Handshake
begin

text \<open>
  Acknowledgements and the retransmission window.  An ACK frame releases exactly the outstanding
  messages up to its number (in the serial order of 16-bit sequence numbers) and credits the
  flow-control window with their length.  The receiver, on the other side, acknowledges
  message 0 before it has it.
\<close>

section \<open>Processing an ACK\<close>

definition acked_slot :: "netchan_chan \<Rightarrow> u16 \<Rightarrow> nat \<Rightarrow> bool" where
  "acked_slot ch a i \<longleftrightarrow> o_active (outgoing ch i) \<and> seq_diff (o_seq (outgoing ch i)) a \<le> 0"

definition released :: "nc_outgoing \<Rightarrow> nc_outgoing" where
  "released o1 = o1\<lparr>o_buf := NC_NOBUF, o_active := False\<rparr>"

lemma ack_slots_effect:
  "ack_slots c k a is = Some c' \<Longrightarrow> distinct is \<Longrightarrow>
   outgoing (chan_pool c' k) = (\<lambda>i. if i \<in> set is \<and> acked_slot (chan_pool c k) a i
      then released (outgoing (chan_pool c k) i) else outgoing (chan_pool c k) i) \<and>
   msgs_acked (chan_pool c' k) = msgs_acked (chan_pool c k) + of_nat (length (filter (acked_slot (chan_pool c k) a) is)) \<and>
   bytes_in_flight (chan_pool c' k) = bytes_in_flight (chan_pool c k)
      - of_nat (sum_list (map (\<lambda>i. o_len (outgoing (chan_pool c k) i)) (filter (acked_slot (chan_pool c k) a) is))) \<and>
   out_head (chan_pool c' k) = out_head (chan_pool c k) \<and> out_tail (chan_pool c' k) = out_tail (chan_pool c k)"
proof (induction "is" arbitrary: c)
  case Nil
  then show ?case by simp
next
  case (Cons j js)
  let ?ch = "chan_pool c k"
  show ?case
  proof (cases "acked_slot ?ch a j")
    case False
    then have "ack_slots c k a js = Some c'" using Cons.prems(1) by (auto simp: acked_slot_def Let_def)
    from Cons.IH [OF this] Cons.prems(2) False show ?thesis by (auto simp: fun_eq_iff)
  next
    case True
    let ?f = "\<lambda>ch. ch\<lparr>bytes_in_flight := bytes_in_flight ch - of_nat (o_len (outgoing ?ch j)), msgs_acked := msgs_acked ch + 1,
            outgoing := (outgoing ch)(j := (outgoing ?ch j)\<lparr>o_buf := NC_NOBUF, o_active := False\<rparr>)\<rparr>"
    obtain c1 where put: "pool_put c (o_buf (outgoing ?ch j)) = Some c1" and rest: "ack_slots (upd_chan c1 k ?f) k a js = Some c'"
      using Cons.prems(1) True by (auto simp: acked_slot_def Let_def Option.bind_eq_Some_conv)
    define c2 where "c2 = upd_chan c1 k ?f"
    have c2: "chan_pool c2 k = ?f ?ch" using pool_put_frame [OF put] by (auto simp: c2_def)
    have rest2: "ack_slots c2 k a js = Some c'" using rest by (simp only: c2_def)
    have other: "acked_slot (chan_pool c2 k) a i = acked_slot ?ch a i" if "i \<noteq> j" for i
      using that by (simp add: acked_slot_def c2)
    have flt: "filter (acked_slot (chan_pool c2 k) a) js = filter (acked_slot ?ch a) js"
      using Cons.prems(2) by (intro filter_cong refl other) auto
    have lens: "map (\<lambda>i. o_len (outgoing (chan_pool c2 k) i)) (filter (acked_slot ?ch a) js)
        = map (\<lambda>i. o_len (outgoing ?ch i)) (filter (acked_slot ?ch a) js)"
      using Cons.prems(2) by (intro map_cong) (auto simp: c2)
    note ih = Cons.IH [OF rest2, unfolded flt lens]
    have "outgoing (chan_pool c' k) i = (if i \<in> set (j # js) \<and> acked_slot ?ch a i
      then released (outgoing ?ch i) else outgoing ?ch i)" for i
      using ih Cons.prems(2) True other [of i] by (cases "i = j") (simp_all add: c2 released_def)
    then show ?thesis using ih Cons.prems(2) True by (simp add: c2 fun_eq_iff)
  qed
qed

text \<open>
  C18:  An ACK releases exactly what it covers: on a well-formed connection, the ACK frame for
  sequence number \<open>a\<close> of a sending channel frees precisely the active slots whose sequence number is
  at most \<open>a\<close> in serial order, counts them, subtracts their lengths from the bytes in flight, leaves
  all other slots as they were, and moves the head of the window to the oldest message still
  outstanding (or to the tail).
\<close>

theorem ack_releases:
  assumes wf: "conn_wf {#} c" and cid: "channels c (unat cid) = Some k" and role: "ch_role (chan_pool c k) = 0"
  shows "\<exists>c'. process_ack c (ack_frame cid a) = Some (4, c') \<and> conn_wf {#} c' \<and>
     (\<forall>i<NC_OUTGOING_SLOTS. outgoing (chan_pool c' k) i =
        (if acked_slot (chan_pool c k) a i then released (outgoing (chan_pool c k) i) else outgoing (chan_pool c k) i)) \<and>
     msgs_acked (chan_pool c' k) = msgs_acked (chan_pool c k)
        + of_nat (card {i. i < NC_OUTGOING_SLOTS \<and> acked_slot (chan_pool c k) a i}) \<and>
     bytes_in_flight (chan_pool c' k) = bytes_in_flight (chan_pool c k)
        - of_nat (\<Sum>i | i < NC_OUTGOING_SLOTS \<and> acked_slot (chan_pool c k) a i. o_len (outgoing (chan_pool c k) i)) \<and>
     out_tail (chan_pool c' k) = out_tail (chan_pool c k) \<and>
     (out_head (chan_pool c' k) = out_tail (chan_pool c' k) \<or> o_active (outgoing (chan_pool c' k) (out_head (chan_pool c' k))))"
proof -
  have live: "live_chan c k" using wf cid by (rule table_lookup)
  let ?is = "[0 ..< NC_OUTGOING_SLOTS]"
  obtain c1 where a1: "ack_slots c k a ?is = Some c1" and wf1: "conn_wf {#} c1" and st1: "same_table c c1"
    using ack_slots_ok [OF wf live, of ?is a] by (auto simp: ok_def lessThan_atLeast0)
  have live1: "live_chan c1 k" using live st1 by (simp add: same_table_live)
  note eff = ack_slots_effect [OF a1, simplified]
  have chwf: "chan_wf (max_frag_payload c1) (chan_pool c1 k)" using wf1 live1 by (rule live_wf)
  obtain h where h: "advance_head (outgoing (chan_pool c1 k)) (out_head (chan_pool c1 k)) (out_tail (chan_pool c1 k)) = Some h"
      "h = out_tail (chan_pool c1 k) \<or> o_active (outgoing (chan_pool c1 k) h)"
    using advance_head_ok [of "out_head (chan_pool c1 k)" "out_tail (chan_pool c1 k)" "outgoing (chan_pool c1 k)"] chwf
    by (auto simp: chan_wf_def outgoing_wf_def ok_def)
  define c' where "c' = upd_chan c1 k (\<lambda>ch. ch\<lparr>out_head := h\<rparr>)"
  have adv: "advance_out_head c1 k = Some c'" by (simp add: advance_out_head_def h c'_def)
  have wf': "conn_wf {#} c'" using advance_out_head_ok [OF wf1 live1] adv by simp
  have set: "{i. i < NC_OUTGOING_SLOTS \<and> acked_slot (chan_pool c k) a i} = set (filter (acked_slot (chan_pool c k) a) ?is)" by auto
  have card: "card {i. i < NC_OUTGOING_SLOTS \<and> acked_slot (chan_pool c k) a i} = length (filter (acked_slot (chan_pool c k) a) ?is)"
    unfolding set by (rule distinct_card) simp
  have sum: "(\<Sum>i | i < NC_OUTGOING_SLOTS \<and> acked_slot (chan_pool c k) a i. o_len (outgoing (chan_pool c k) i))
      = sum_list (map (\<lambda>i. o_len (outgoing (chan_pool c k) i)) (filter (acked_slot (chan_pool c k) a) ?is))"
    unfolding set by (rule sum.distinct_set_conv_list) simp
  have "process_ack c (ack_frame cid a) = Some (4, c')"
    using process_ack_frame [of undefined 0 c cid a "[]"] cid role a1 adv
    by (simp add: process_frame_def ack_frame_def frame_type_defs)
  with wf' eff h show ?thesis unfolding card sum by (intro exI [of _ c']) (simp add: c'_def)
qed

text \<open>A connected client with one reliable sending channel.\<close>

definition sender :: netchan_conn where
  "sender = snd (netchan_chan_open ((netchan_open False)\<lparr>conn_state := NETCHAN_STATE_CONNECTED\<rparr>)
     NETCHAN_RELIABLE NETCHAN_DIR_SEND [])"

lemma sender_facts: "conn_wf {#} sender" "channels sender 0 = Some 0" "ch_role (chan_pool sender 0) = 0"
proof -
  have c: "conn_wf {#} ((netchan_open False)\<lparr>conn_state := NETCHAN_STATE_CONNECTED\<rparr>)"
    by (intro conn_wf_fields conn_wf_open)
  show "conn_wf {#} sender"
    using netchan_chan_open_ok [OF c prod.collapse [symmetric], of NETCHAN_RELIABLE NETCHAN_DIR_SEND "[]"] by (simp add: sender_def)
  have n: "next_chan_id (netchan_open False) = 0" by (simp add: netchan_open_def pool_init_def conn_zero_def)
  show "channels sender 0 = Some 0" "ch_role (chan_pool sender 0) = 0"
    using fresh_find by (simp_all add: sender_def netchan_chan_open_def Let_def n chan_new_def ctrl_channel_open_def chan_zero_def)
qed

theorem ack_releases_witness:
  "\<exists>c'. process_ack sender (ack_frame 0 3) = Some (4, c') \<and> conn_wf {#} c' \<and> out_tail (chan_pool c' 0) = out_tail (chan_pool sender 0)"
proof -
  have "channels sender (unat (0 :: u8)) = Some 0" using sender_facts by simp
  from ack_releases [OF sender_facts(1) this sender_facts(3), of 3] show ?thesis by blast
qed

section \<open>The receiver's acknowledgement\<close>

lemma store_reordered_seq:
  "store_reordered c k seq data = Some c' \<Longrightarrow> recv_seq (chan_pool c' k) = recv_seq (chan_pool c k) \<and>
     msgs_recv (chan_pool c' k) = msgs_recv (chan_pool c k) \<and> rq_head (chan_pool c' k) = rq_head (chan_pool c k) \<and>
     rq_tail (chan_pool c' k) = rq_tail (chan_pool c k)"
  by (auto simp: store_reordered_def Let_def Option.bind_eq_Some_conv split: if_splits
      dest!: pool_get_frame pool_write_frame)

text \<open>
  A receiver acknowledges a message it has not got.  While a reliable channel still waits
  for message 0, the DATA frame of any later message makes it owe an ACK for sequence number 0,
  although nothing was delivered.
\<close>

theorem premature_ack:
  assumes wf: "conn_wf {#} c" and cid: "channels c (unat cid) = Some k"
    and role: "ch_role (chan_pool c k) = 1" and ty: "ch_type (chan_pool c k) = NETCHAN_RELIABLE"
    and fresh: "recv_seq (chan_pool c k) = 0" and seq: "seq \<noteq> 0" and len: "length payload \<le> NC_MAX_MSG"
  shows "\<exists>c'. process_data c (data_frame cid seq 0 1 payload) = Some (int (8 + length payload), c') \<and>
     recv_seq (chan_pool c' k) = 0 \<and> msgs_recv (chan_pool c' k) = msgs_recv (chan_pool c k) \<and>
     need_ack (chan_pool c' k) \<and> ack_seq (chan_pool c' k) = 0"
proof -
  have live: "live_chan c k" using wf cid by (rule table_lookup)
  obtain c1 where st: "store_reordered c k seq payload = Some c1"
    using store_reordered_ok [OF wf live, of seq payload] by (auto simp: ok_def)
  have "data_payload c cid seq 0 1 payload = Some (mark_ack c1 k)"
    using cid role ty fresh seq st by (simp add: data_payload_def data_reliable_def accept_reliable_def chan_kind_defs)
  moreover have "process_frame undefined 0 c (data_frame cid seq 0 1 payload @ []) = process_data c (data_frame cid seq 0 1 payload)"
    by (simp add: process_frame_def data_frame_def frame_type_defs)
  ultimately have "process_data c (data_frame cid seq 0 1 payload) = Some (int (8 + length payload), mark_ack c1 k)"
    using process_data_frame [of payload undefined 0 c cid seq 0 1 "[]"] len by (simp add: NC_MAX_MSG_def)
  then show ?thesis using store_reordered_seq [OF st] fresh by (simp add: mark_ack_def)
qed

theorem premature_ack_witness:
  "\<exists>c'. process_data opened (data_frame 0 1 0 1 [9]) = Some (9, c') \<and> recv_seq (chan_pool c' 0) = 0 \<and>
     need_ack (chan_pool c' 0) \<and> ack_seq (chan_pool c' 0) = 0"
proof -
  have "channels opened (unat (0 :: u8)) = Some 0" "ch_type (chan_pool opened 0) = NETCHAN_RELIABLE"
    by (simp_all add: opened_facts NETCHAN_RELIABLE_def)
  from premature_ack [OF conn_wf_opened this(1) opened_facts(2) this(2) opened_queue(3), of 1 "[9]"] show ?thesis
    by (auto simp: NC_MAX_MSG_def)
qed

end
