(* ===== verification/NC_Fragments.thy ===== *)
theory NC_Fragments
  imports NC_Acks
begin

text \<open>
  Fragmentation round trip.  The sender cuts a message into chunks of the fragment payload;
  the receiver puts the chunks back together, in whatever order they arrive and with
  duplicates, and ends with the bytes of the message.
\<close>

section \<open>Chunks\<close>

definition chunk :: "nat \<Rightarrow> bytes \<Rightarrow> nat \<Rightarrow> bytes" where
  "chunk fp data j = take fp (drop (j * fp) data)"

definition chunks :: "nat \<Rightarrow> bytes \<Rightarrow> nat" where
  "chunks fp data = (length data + fp - 1) div fp"

lemma chunks_bound:
  assumes "0 < fp" "data \<noteq> []"
  shows "0 < chunks fp data" "(chunks fp data - 1) * fp < length data" "length data \<le> chunks fp data * fp"
proof -
  let ?n = "length data" and ?q = "chunks fp data"
  have n: "0 < ?n" using assms by simp
  have q: "?q * fp + (?n + fp - 1) mod fp = ?n + fp - 1" unfolding chunks_def by (rule div_mult_mod_eq)
  have r: "(?n + fp - 1) mod fp < fp" using assms(1) by simp
  have "fp \<le> ?n + fp - 1" using n by linarith
  then show pos: "0 < ?q" using assms(1) by (simp add: chunks_def div_greater_zero_iff)
  show "?n \<le> ?q * fp" using q r n assms(1) by linarith
  have "(?q - 1) * fp = ?q * fp - fp" by (simp add: diff_mult_distrib)
  then show "(?q - 1) * fp < ?n" using q n by linarith
qed

lemma length_chunk:
  "length (chunk fp data j) = min fp (length data - j * fp)"
  by (simp add: chunk_def)

lemma full_chunk:
  assumes "0 < fp" "data \<noteq> []" "Suc j < chunks fp data"
  shows "length (chunk fp data j) = fp"
proof -
  have "Suc j * fp \<le> (chunks fp data - 1) * fp" using assms(3) by (intro mult_le_mono1) simp
  then have "Suc j * fp \<le> length data" using chunks_bound(2) [OF assms(1,2)] by linarith
  then show ?thesis by (simp add: length_chunk)
qed

lemma chunk_fits:
  assumes "0 < fp" "data \<noteq> []" "j < chunks fp data"
  shows "j * fp + length (chunk fp data j) \<le> length data" "0 < length (chunk fp data j)"
proof -
  have "j * fp \<le> (chunks fp data - 1) * fp" using assms(3) by (intro mult_le_mono1) simp
  then have "j * fp < length data" using chunks_bound(2) [OF assms(1,2)] by linarith
  then show "j * fp + length (chunk fp data j) \<le> length data" "0 < length (chunk fp data j)"
    using assms(1) by (auto simp: length_chunk)
qed

lemma chunk_lengths:
  assumes "0 < fp" "data \<noteq> []"
  shows "(\<Sum>j<chunks fp data. length (chunk fp data j)) = length data"
proof -
  obtain q where q: "chunks fp data = Suc q" using chunks_bound(1) [OF assms] gr0_conv_Suc by blast
  have "(\<Sum>j<q. length (chunk fp data j)) = q * fp"
    using full_chunk [OF assms] q by simp
  moreover have "length (chunk fp data q) = length data - q * fp"
    using chunks_bound(3) [OF assms] q by (simp add: length_chunk)
  moreover have "q * fp < length data" using chunks_bound(2) [OF assms] q by simp
  ultimately show ?thesis by (simp add: q)
qed

text \<open>A memory that holds every chunk at its place holds the message.\<close>

lemma mem_chunks:
  assumes fp: "0 < fp" and ne: "data \<noteq> []"
    and mem: "\<And>j. j < chunks fp data \<Longrightarrow> mem_read m (base + j * fp) (length (chunk fp data j)) = chunk fp data j"
  shows "mem_read m base (length data) = data"
proof (rule nth_equalityI)
  fix p assume "p < length (mem_read m base (length data))"
  then have p: "p < length data" by simp
  let ?j = "p div fp" and ?r = "p mod fp"
  have "p < chunks fp data * fp" using p chunks_bound(3) [OF fp ne] by linarith
  then have j: "?j < chunks fp data" using fp by (simp add: less_mult_imp_div_less)
  have pr: "?j * fp + ?r = p" by simp
  have r: "?r < length (chunk fp data ?j)" using fp p pr unfolding length_chunk by (metis less_diff_conv min_less_iff_conj mod_less_divisor add.commute)
  have "mem_read m (base + ?j * fp) (length (chunk fp data ?j)) ! ?r = m (base + ?j * fp + ?r)" using r by simp
  then have "m (base + p) = chunk fp data ?j ! ?r" using mem [OF j] pr by (metis add.assoc)
  also have "\<dots> = data ! (?j * fp + ?r)" 
  proof -
    have "?j * fp \<le> length data" using pr p by linarith
    moreover have "?r < fp" using fp by simp
    ultimately show ?thesis by (simp only: chunk_def nth_take nth_drop)
  qed
  also have "\<dots> = data ! p" by (simp only: pr)
  finally show "mem_read m base (length data) ! p = data ! p" using p by simp
qed simp

section \<open>Compaction of aligned fragments\<close>

lemma frag_compact_aligned:
  "(\<forall>j. i \<le> j \<and> Suc j < i + m \<longrightarrow> offs j = fp) \<Longrightarrow> pos = i * fp \<Longrightarrow>
   frag_compact c base fp offs i pos m = Some (i * fp + (\<Sum>j<m. offs (i + j)), c)"
proof (induction m arbitrary: i pos)
  case (Suc m)
  show ?case
  proof (cases m)
    case 0
    then show ?thesis using Suc.prems by simp
  next
    case (Suc m')
    then have "offs i = fp" using Suc.prems by simp
    moreover have "(\<Sum>j<Suc m. offs (i + j)) = offs i + (\<Sum>j<m. offs (Suc i + j))"
      unfolding sum.lessThan_Suc_shift by simp
    ultimately show ?thesis using Suc.IH [of "Suc i" "pos + offs i"] Suc.prems by simp
  qed
qed simp

section \<open>Reassembly\<close>

definition assembling :: "netchan_conn \<Rightarrow> nat \<Rightarrow> nat \<Rightarrow> u16 \<Rightarrow> bytes \<Rightarrow> nat set \<Rightarrow> bool" where
  "assembling c k i seq data S \<longleftrightarrow> (let f = frags (chan_pool c k) i; fp = max_frag_payload c in
     i < NC_FRAG_SLOTS \<and> frag_find (chan_pool c k) seq = Some i \<and> f_active f \<and>
     f_total f = of_nat (chunks fp data) \<and> f_have f = of_nat (card S) \<and> S \<subseteq> {..<chunks fp data} \<and>
     (\<forall>j<NC_MAX_FRAGS. bit (f_bitmask f) j \<longleftrightarrow> j \<in> S) \<and>
     (\<forall>j\<in>S. f_offsets f j = length (chunk fp data j) \<and>
        mem_read (pool_store c) (nat (f_buf f) * NC_MAX_MSG + j * fp) (length (chunk fp data j)) = chunk fp data j))"

lemma chunk_regions:
  assumes "j \<noteq> l" "length x \<le> fp" "m \<le> fp"
  shows "mem_read (mem_write s (base + j * fp) x) (base + l * fp) m = mem_read s (base + l * fp) m"
proof (rule mem_read_write_disjoint)
  consider "Suc l \<le> j" | "Suc j \<le> l" using assms(1) by linarith
  then show "base + l * fp + m \<le> base + j * fp \<or> base + j * fp + length x \<le> base + l * fp"
  proof cases
    case 1
    then have "Suc l * fp \<le> j * fp" by (rule mult_le_mono1)
    then show ?thesis using assms by simp
  next
    case 2
    then have "Suc j * fp \<le> l * fp" by (rule mult_le_mono1)
    then show ?thesis using assms by simp
  qed
qed

text \<open>One fragment: a duplicate changes nothing; a new one is recorded; the last one completes
  the message.\<close>

lemma frag_record_step:
  assumes wf: "conn_wf M c" and live: "live_chan c k" and asm: "assembling c k i seq data S"
    and data: "data \<noteq> []" "length data \<le> NC_MAX_MSG" and fp: "0 < max_frag_payload c"
    and n: "chunks (max_frag_payload c) data \<le> NC_MAX_FRAGS" and j: "j < chunks (max_frag_payload c) data"
  shows "\<exists>r c'. frag_record c k i (of_nat j) (chunk (max_frag_payload c) data j) = Some (r, c') \<and> conn_wf M c' \<and> same_table c c' \<and>
    (if j \<notin> S \<and> insert j S = {..<chunks (max_frag_payload c) data}
     then \<exists>base. r = Some (i, base, length data) \<and> mem_read (pool_store c') base (length data) = data
     else r = None \<and> assembling c' k i seq data (insert j S))"
proof -
  define fp where "fp = max_frag_payload c"
  let ?n = "chunks fp data" and ?x = "chunk fp data j"
  define f where "f = frags (chan_pool c k) i"
  have a: "i < NC_FRAG_SLOTS" "frag_find (chan_pool c k) seq = Some i" "f_active f" "f_total f = of_nat ?n" "f_have f = of_nat (card S)"
    "S \<subseteq> {..<?n}" "\<And>l. l < NC_MAX_FRAGS \<Longrightarrow> bit (f_bitmask f) l \<longleftrightarrow> l \<in> S"
    "\<And>l. l \<in> S \<Longrightarrow> f_offsets f l = length (chunk fp data l)"
    "\<And>l. l \<in> S \<Longrightarrow> mem_read (pool_store c) (nat (f_buf f) * NC_MAX_MSG + l * fp) (length (chunk fp data l)) = chunk fp data l"
    using asm by (auto simp: assembling_def Let_def f_def fp_def)
  have small: "?n \<le> 32" "j < 32" "j < ?n" using n j by (auto simp: fp_def NC_MAX_FRAGS_def)
  have uj: "unat (of_nat j :: u8) = j" using small by (intro unat_of_nat_small8) simp
  have un: "unat (of_nat ?n :: u8) = ?n" using small by (intro unat_of_nat_small8) simp
  have lt: "(of_nat j :: u8) < f_total f" using small by (simp add: a word_less_nat_alt uj un)
  have xl: "length ?x \<le> fp" by (simp add: length_chunk)
  have fits: "j * fp + length ?x \<le> NC_MAX_MSG" using chunk_fits(1) [of fp data j] fp data small by (simp add: fp_def)
  obtain r c' where rc: "frag_record c k i (of_nat j) ?x = Some (r, c')" "conn_wf M c'" "same_table c c'"
    using frag_record_ok [OF wf live a(1) a(3) [unfolded f_def], of ?x "of_nat j"] xl by (auto simp: ok_def fp_def)
  show ?thesis
  proof (cases "j \<in> S")
    case True
    then have "frag_record c k i (of_nat j) ?x = Some (None, c)"
      using a(7) [of j] small by (simp add: frag_record_def Let_def f_def [symmetric] uj NC_MAX_FRAGS_def)
    then show ?thesis using rc True asm by (auto simp: fp_def insert_absorb)
  next
    case False
    define f' where "f' = f\<lparr>f_offsets := (f_offsets f)(j := length ?x), f_bitmask := f_bitmask f OR push_bit j 1, f_have := f_have f + 1\<rparr>"
    let ?base = "nat (f_buf f) * NC_MAX_MSG"
    define c1 where "c1 = c\<lparr>pool_store := mem_write (pool_store c) (?base + j * fp) ?x\<rparr>"
    define c2 where "c2 = upd_chan c1 k (\<lambda>ch. ch\<lparr>frags := (frags ch)(i := f')\<rparr>)"
    have nb: "f_buf f \<noteq> NC_NOBUF" using live_wf [OF wf live] a(1,3) by (auto simp: chan_wf_def frag_wf_def f_def)
    then have b: "0 \<le> f_buf f" "f_buf f < int NC_POOL_BUFS"
      using chan_buf_range [OF wf live chan_ms_members(4) [OF a(1)]] by (auto simp: f_def)
    have w: "pool_write c (?base + j * fp) ?x = Some c1"
      using conn_wf_pool_write [OF wf b, of "j * fp" ?x] fits by (auto simp: ok_def c1_def)
    have fp2: "max_frag_payload c2 = fp" by (simp add: c2_def c1_def fp_def)
    have card: "card (insert j S) = Suc (card S)" using False a(6) by (simp add: finite_subset [of S "{..<?n}"])
    have have': "f_have f' = of_nat (card (insert j S))" by (simp add: f'_def a card)
    have sub: "insert j S \<subseteq> {..<?n}" using a(6) small by auto
    have cn: "card (insert j S) \<le> ?n" using card_mono [OF _ sub] by simp
    have full: "f_have f' = f_total f' \<longleftrightarrow> insert j S = {..<?n}"
    proof -
      have tot: "f_total f' = of_nat ?n" by (simp add: f'_def a)
      have uc: "unat (of_nat (card (insert j S)) :: u8) = card (insert j S)" using cn small by (intro unat_of_nat_small8) linarith
      have "f_have f' = f_total f' \<longleftrightarrow> card (insert j S) = ?n"
        unfolding have' tot by (metis uc un)
      also have "\<dots> \<longleftrightarrow> insert j S = {..<?n}" using card_subset_eq [OF finite_lessThan sub] by (metis card_lessThan)
      finally show ?thesis .
    qed
    have off: "f_offsets f' l = length (chunk fp data l)" if "l \<in> insert j S" for l using that a(8) by (auto simp: f'_def)
    have mem: "mem_read (pool_store c2) (?base + l * fp) (length (chunk fp data l)) = chunk fp data l" if "l \<in> insert j S" for l
      using that False a(9) xl chunk_regions [of j l ?x fp "length (chunk fp data l)" "pool_store c" ?base]
      by (cases "l = j") (auto simp: c2_def c1_def mem_read_write_same length_chunk)
    have step: "frag_record c k i (of_nat j) ?x = (if f_have f' = f_total f' then do {
          (pos, c3) \<leftarrow> frag_compact c2 ?base fp (f_offsets f') 0 0 (unat (f_total f'));
          Some (Some (i, ?base, pos), c3) } else Some (None, c2))"
    proof -
      have new: "\<not> bit (f_bitmask f) j" using a(7) [of j] small False by (simp add: NC_MAX_FRAGS_def)
      have ptr: "pool_ptr (f_buf f) = Some ?base" using b by (simp add: pool_ptr_def)
      show ?thesis
        unfolding frag_record_def Let_def uj f_def [symmetric] fp_def [symmetric] f'_def [symmetric]
        using lt new fits fp2 by (simp add: ptr w c2_def [symmetric])
    qed
    show ?thesis
    proof (cases "insert j S = {..<?n}")
      case True
      have "frag_compact c2 ?base fp (f_offsets f') 0 0 ?n = Some (0 * fp + (\<Sum>l<?n. f_offsets f' (0 + l)), c2)"
        using off True full_chunk [of fp data] fp data by (intro frag_compact_aligned) (auto simp: fp_def)
      moreover have "(\<Sum>l<?n. f_offsets f' (0 + l)) = length data"
        using off True chunk_lengths [of fp data] fp data by (simp add: fp_def)
      moreover have "f_total f' = of_nat ?n" by (simp add: f'_def a)
      ultimately have "frag_record c k i (of_nat j) ?x = Some (Some (i, ?base, length data), c2)"
        using step full True un by simp
      moreover have "mem_read (pool_store c2) ?base (length data) = data"
        by (rule mem_chunks [of fp]) (use fp data True mem in \<open>simp_all add: fp_def\<close>)
      ultimately show ?thesis using rc True False unfolding fp_def [symmetric] by auto
    next
      case nf: False
      have c': "r = None" "c' = c2" using rc step full nf by auto
      have "\<forall>l<NC_MAX_FRAGS. bit (f_bitmask f') l \<longleftrightarrow> l \<in> insert j S"
        using a(7) by (auto simp: f'_def bit_or_iff bit_exp_iff NC_MAX_FRAGS_def)
      moreover have "frag_find (chan_pool c2 k) seq = Some i"
      proof -
        have "(\<lambda>l. f_active (frags (chan_pool c2 k) l) \<and> f_seq (frags (chan_pool c2 k) l) = seq)
            = (\<lambda>l. f_active (frags (chan_pool c k) l) \<and> f_seq (frags (chan_pool c k) l) = seq)"
          by (auto simp: c2_def c1_def f'_def f_def fun_eq_iff)
        then show ?thesis using a(2) by (simp add: frag_find_def)
      qed
      moreover have "frags (chan_pool c2 k) i = f'" by (simp add: c2_def)
      ultimately have "assembling c2 k i seq data (insert j S)"
        using a(1,3,4) have' sub off mem fp2 by (simp add: assembling_def Let_def f'_def)
      then show ?thesis using rc c' nf by (simp add: fp_def)
    qed
  qed
qed

text \<open>The first fragment of a message takes a free slot and a buffer.\<close>

lemma find_first:
  "find P [0 ..< n] = Some i \<longleftrightarrow> i < n \<and> P i \<and> (\<forall>j<i. \<not> P j)"
proof (induction n)
  case (Suc n)
  have "find P [0 ..< Suc n] = (case find P [0 ..< n] of Some j \<Rightarrow> Some j | None \<Rightarrow> if P n then Some n else None)"
  proof -
    have "find P (xs @ [y]) = (case find P xs of Some j \<Rightarrow> Some j | None \<Rightarrow> if P y then Some y else None)" for xs y
      by (induction xs) auto
    then show ?thesis by simp
  qed
  moreover have "find P [0 ..< n] = None \<longleftrightarrow> (\<forall>j<n. \<not> P j)" by (auto simp: find_None_iff)
  ultimately show ?case using Suc.IH by (cases "find P [0 ..< n]") (auto simp: less_Suc_eq)
qed simp

lemma frag_alloc_start:
  assumes wf: "conn_wf M c" and live: "live_chan c k" and fresh: "frag_find (chan_pool c k) seq = None"
    and slot: "\<exists>i<NC_FRAG_SLOTS. \<not> f_active (frags (chan_pool c k) i)" and free: "free_ms c \<noteq> {#}"
    and n: "chunks (max_frag_payload c) data \<le> NC_MAX_FRAGS"
  shows "\<exists>i c'. frag_alloc c k seq (of_nat (chunks (max_frag_payload c) data)) = Some (Some i, c') \<and> conn_wf M c' \<and> same_table c c' \<and>
     assembling c' k i seq data {}"
proof -
  let ?ft = "of_nat (chunks (max_frag_payload c) data) :: u8"
  have un: "unat ?ft = chunks (max_frag_payload c) data" using n by (intro unat_of_nat_small8) (simp add: NC_MAX_FRAGS_def)
  define i where "i = (LEAST i. \<not> f_active (frags (chan_pool c k) i))"
  obtain i0 where i0: "i0 < NC_FRAG_SLOTS" "\<not> f_active (frags (chan_pool c k) i0)" using slot by blast
  have ina: "\<not> f_active (frags (chan_pool c k) i)" unfolding i_def by (rule LeastI [of _ i0]) (rule i0(2))
  have "i \<le> i0" unfolding i_def by (rule Least_le) (rule i0(2))
  then have i: "i < NC_FRAG_SLOTS" using i0(1) by simp
  have below: "\<forall>j<i. f_active (frags (chan_pool c k) j)" unfolding i_def using not_less_Least by blast
  have fnd: "find (\<lambda>i. \<not> f_active (frags (chan_pool c k) i)) [0 ..< NC_FRAG_SLOTS] = Some i"
    using i ina below by (simp add: find_first)
  obtain fo c' where al: "frag_alloc c k seq ?ft = Some (fo, c')" "conn_wf M c'" "same_table c c'"
    using frag_alloc_ok [OF wf live, of seq ?ft] by (auto simp: ok_def)
  have pok: "pool_ok c" using wf by (simp add: conn_wf_def)
  obtain b c1 where get: "pool_get c = Some (b, c1)" using ncpool.get_some [OF pok free] by blast
  have b: "b \<noteq> NC_NOBUF" "chan_pool c1 = chan_pool c" "same_table c c1"
    using conn_wf_pool_get [OF wf] get free by (auto split: if_splits)
  have c': "fo = Some i" "c' = upd_chan c1 k (\<lambda>ch. ch\<lparr>frags := (frags ch)(i :=
            frag_zero\<lparr>f_seq := seq, f_total := ?ft, f_active := True, f_buf := b\<rparr>)\<rparr>)"
    using al(1) n by (simp_all add: frag_alloc_def un fnd get b(1))
  have "\<forall>l<NC_FRAG_SLOTS. \<not> (f_active (frags (chan_pool c k) l) \<and> f_seq (frags (chan_pool c k) l) = seq)"
    using fresh by (simp add: frag_find_def find_None_iff)
  then have "frag_find (chan_pool c' k) seq = Some i"
    using i below unfolding frag_find_def find_first by (simp add: c' b(2))
  then have "assembling c' k i seq data {}"
    using i same_table_fp [OF al(3)] by (simp add: assembling_def Let_def) (simp add: c' frag_zero_def)
  with al c' show ?thesis by auto
qed

section \<open>Feeding the fragments of a message\<close>

fun feed_fragments :: "netchan_conn \<Rightarrow> nat \<Rightarrow> u16 \<Rightarrow> u8 \<Rightarrow> (u8 \<times> bytes) list \<Rightarrow> ((nat \<times> nat \<times> nat) option \<times> netchan_conn) option" where
  "feed_fragments c k seq ft [] = Some (None, c)"
| "feed_fragments c k seq ft ((j, p) # fs) = do {
     (done, c1) \<leftarrow> frag_input c k seq j ft p;
     case done of Some r \<Rightarrow> Some (Some r, c1) | None \<Rightarrow> feed_fragments c1 k seq ft fs }"

lemma feed_fragments_rest:
  assumes data: "data \<noteq> []" "length data \<le> NC_MAX_MSG"
  shows "conn_wf M c \<Longrightarrow> live_chan c k \<Longrightarrow> assembling c k i seq data S \<Longrightarrow> max_frag_payload c = fp \<Longrightarrow> 0 < fp \<Longrightarrow>
   chunks fp data \<le> NC_MAX_FRAGS \<Longrightarrow> set js \<subseteq> {..<chunks fp data} \<Longrightarrow> S \<union> set js = {..<chunks fp data} \<Longrightarrow> S \<noteq> {..<chunks fp data} \<Longrightarrow>
   \<exists>base c'. feed_fragments c k seq (of_nat (chunks fp data)) (map (\<lambda>j. (of_nat j, chunk fp data j)) js) = Some (Some (i, base, length data), c') \<and>
     conn_wf M c' \<and> mem_read (pool_store c') base (length data) = data"
proof (induction js arbitrary: c S)
  case (Cons j js)
  have j: "j < chunks (max_frag_payload c) data" "0 < max_frag_payload c" "chunks (max_frag_payload c) data \<le> NC_MAX_FRAGS"
    using Cons.prems(4-7) by auto
  have find: "frag_find (chan_pool c k) seq = Some i" using Cons.prems(3) by (simp add: assembling_def Let_def)
  obtain r c1 where step: "frag_record c k i (of_nat j) (chunk fp data j) = Some (r, c1)" "conn_wf M c1" "same_table c c1"
    "if j \<notin> S \<and> insert j S = {..<chunks fp data}
     then \<exists>base. r = Some (i, base, length data) \<and> mem_read (pool_store c1) base (length data) = data
     else r = None \<and> assembling c1 k i seq data (insert j S)"
    using frag_record_step [OF Cons.prems(1-3) data j(2,3,1)] Cons.prems(4) by auto
  have inp: "frag_input c k seq (of_nat j) ft (chunk fp data j) = Some (r, c1)" for ft using find step(1) by (simp add: frag_input_def)
  show ?case
  proof (cases "j \<notin> S \<and> insert j S = {..<chunks fp data}")
    case True
    then show ?thesis using step inp by auto
  next
    case False
    then have r: "r = None" "assembling c1 k i seq data (insert j S)" using step(4) by auto
    have l1: "live_chan c1 k" "max_frag_payload c1 = fp"
      using step(3) Cons.prems(2,4) same_table_fp [OF step(3)] by (simp_all add: same_table_def live_chan_def)
    have "insert j S \<noteq> {..<chunks fp data}"
    proof (cases "j \<in> S")
      case True
      then show ?thesis using Cons.prems(9) by (simp only: insert_absorb) simp
    next
      case nin: False
      then show ?thesis using False by blast
    qed
    moreover have "set js \<subseteq> {..<chunks fp data}" "insert j S \<union> set js = {..<chunks fp data}" using Cons.prems(7,8) by auto
    ultimately have "\<exists>base c'. feed_fragments c1 k seq (of_nat (chunks fp data)) (map (\<lambda>j. (of_nat j, chunk fp data j)) js)
        = Some (Some (i, base, length data), c') \<and> conn_wf M c' \<and> mem_read (pool_store c') base (length data) = data"
      by (intro Cons.IH [OF step(2) l1(1) r(2) l1(2) Cons.prems(5,6)])
    then show ?thesis by (simp add: inp r(1))
  qed
qed simp

text \<open>
  C15:  Fragmentation round trip: cut a message of at most 2048 bytes into the chunks
  the sender uses, and give the chunks to the reassembly code in any order, any of them any
  number of times (as retransmission does), each at least once.  Starting from a well-formed connection with a free
  reassembly slot and a free buffer, reassembly completes and the buffer holds exactly the
  bytes of the message.
\<close>

theorem fragments_round_trip:
  assumes wf: "conn_wf {#} c" and live: "live_chan c k" and fresh: "frag_find (chan_pool c k) seq = None"
    and slot: "\<exists>i<NC_FRAG_SLOTS. \<not> f_active (frags (chan_pool c k) i)" and free: "free_ms c \<noteq> {#}"
    and data: "data \<noteq> []" "length data \<le> NC_MAX_MSG" and fp: "max_frag_payload c = fp" "0 < fp"
    and n: "chunks fp data \<le> NC_MAX_FRAGS" and js: "set js = {..<chunks fp data}"
  shows "\<exists>i base c'. feed_fragments c k seq (of_nat (chunks fp data)) (map (\<lambda>j. (of_nat j, chunk fp data j)) js)
       = Some (Some (i, base, length data), c') \<and> conn_wf {#} c' \<and> mem_read (pool_store c') base (length data) = data"
proof (cases js)
  case Nil
  then show ?thesis using js chunks_bound(1) [OF fp(2) data(1)] by auto
next
  case (Cons j rest)
  have n': "chunks (max_frag_payload c) data \<le> NC_MAX_FRAGS" using n fp by simp
  obtain i c0 where al: "frag_alloc c k seq (of_nat (chunks fp data)) = Some (Some i, c0)" "conn_wf {#} c0" "same_table c c0"
      "assembling c0 k i seq data {}" using frag_alloc_start [OF wf live fresh slot free n'] fp(1) by auto
  have l0: "live_chan c0 k" "max_frag_payload c0 = fp" using al(3) live fp(1) same_table_fp [OF al(3)] by (simp_all add: same_table_def live_chan_def)
  have f0: "frag_find (chan_pool c0 k) seq = Some i" using al(4) by (simp add: assembling_def Let_def)
  have "feed_fragments c k seq (of_nat (chunks fp data)) (map (\<lambda>j. (of_nat j, chunk fp data j)) js)
      = feed_fragments c0 k seq (of_nat (chunks fp data)) (map (\<lambda>j. (of_nat j, chunk fp data j)) js)"
    by (simp add: Cons frag_input_def fresh al(1) f0)
  moreover have "{} \<noteq> {..<chunks fp data}" using chunks_bound(1) [OF fp(2) data(1)] by auto
  then have "\<exists>base c'. feed_fragments c0 k seq (of_nat (chunks fp data)) (map (\<lambda>j. (of_nat j, chunk fp data j)) js) = Some (Some (i, base, length data), c') \<and>
     conn_wf {#} c' \<and> mem_read (pool_store c') base (length data) = data"
    using js by (intro feed_fragments_rest [OF data al(2) l0(1) al(4) l0(2) fp(2) n]) auto
  ultimately show ?thesis by auto
qed

theorem fragments_round_trip_witness:
  "\<exists>i base c'. feed_fragments opened 0 4 2 [(1, chunk 1185 (replicate 2000 5) 1), (1, chunk 1185 (replicate 2000 5) 1),
       (0, chunk 1185 (replicate 2000 5) 0)] = Some (Some (i, base, 2000), c') \<and>
     mem_read (pool_store c') base 2000 = replicate 2000 5"
proof -
  have live: "live_chan opened 0" using table_lookup [OF conn_wf_opened opened_facts(1)] .
  have "frag_find (chan_pool opened 0) 4 = None" "\<exists>i<NC_FRAG_SLOTS. \<not> f_active (frags (chan_pool opened 0) i)"
    using opened_facts(4) by (auto simp: frag_find_def find_None_iff NC_FRAG_SLOTS_def intro: exI [of _ 0])
  moreover have "free_ms opened \<noteq> {#}" using opened_queue(5) by force
  moreover have ch: "chunks 1185 (replicate 2000 (5 :: u8)) = 2" by (simp add: chunks_def)
  moreover have "set [1, 1, 0] = {..<2 :: nat}" by auto
  ultimately show ?thesis
    using fragments_round_trip [OF conn_wf_opened live, of 4 "replicate 2000 5" 1185 "[1, 1, 0]"] opened_facts(7)
    by (simp add: NC_MAX_MSG_def NC_MAX_FRAGS_def) blast
qed

end
