(* ===== verification/NC_Sender.thy ===== *)
theory NC_Sender
  imports NC_Fragments
begin

text \<open>
  What the sender puts on the wire: a successful write stores the message and queues it with the
  next sequence number and the right number of fragments; the fragments that leave are the
  chunks of the message, each in a well-formed DATA frame.
\<close>

lemma frag_count_chunks:
  assumes "0 < max_frag_payload c" "data \<noteq> []" "chunks (max_frag_payload c) data \<le> NC_MAX_FRAGS"
  shows "frag_count c (length data) = Some (of_nat (chunks (max_frag_payload c) data))"
proof -
  have pos: "0 < chunks (max_frag_payload c) data" using chunks_bound(1) [OF assms(1,2)] .
  have "unat (of_nat (chunks (max_frag_payload c) data) :: u8) = chunks (max_frag_payload c) data"
    using assms(3) by (intro unat_of_nat_small8) (simp add: NC_MAX_FRAGS_def)
  then have "(of_nat (chunks (max_frag_payload c) data) :: u8) \<noteq> 0" using pos by (metis less_numeral_extra(3) unat_0)
  then show ?thesis using assms(1) by (simp add: frag_count_def Let_def chunks_def)
qed

lemma chan_write_stores:
  assumes wf: "conn_wf {#} c" and live: "live_chan c k" and role: "ch_role (chan_pool c k) = 0" and st: "ch_state (chan_pool c k) = 1"
    and data: "data \<noteq> []" "length data \<le> NC_MAX_MSG"
    and flow: "ch_type (chan_pool c k) = NETCHAN_RELIABLE \<Longrightarrow> unat (bytes_in_flight (chan_pool c k)) + length data \<le> unat (send_window (chan_pool c k))"
    and room: "Suc (out_tail (chan_pool c k)) mod NC_OUTGOING_SLOTS \<noteq> out_head (chan_pool c k)" and free: "free_ms c \<noteq> {#}"
    and fp: "0 < max_frag_payload c" and n: "chunks (max_frag_payload c) data \<le> NC_MAX_FRAGS"
  shows "\<exists>c'. netchan_chan_write c (Some k) data = Some (int (length data), c') \<and> conn_wf {#} c' \<and>
    (let o1 = outgoing (chan_pool c' k) (out_tail (chan_pool c k)) in
       o_active o1 \<and> o_len o1 = length data \<and> buf_bytes c' (o_buf o1) (o_len o1) = data \<and> o_seq o1 = send_seq (chan_pool c k) \<and>
       o_frag_total o1 = of_nat (chunks (max_frag_payload c) data) \<and> o_frag_sent o1 = 0) \<and>
    send_seq (chan_pool c' k) = send_seq (chan_pool c k) + 1 \<and>
    out_tail (chan_pool c' k) = Suc (out_tail (chan_pool c k)) mod NC_OUTGOING_SLOTS \<and>
    (ch_type (chan_pool c k) = NETCHAN_RELIABLE \<longrightarrow> bytes_in_flight (chan_pool c' k) \<le> send_window (chan_pool c' k) \<and>
       unat (bytes_in_flight (chan_pool c' k)) = unat (bytes_in_flight (chan_pool c k)) + length data)"
proof -
  let ?ch = "chan_pool c k"
  have pok: "pool_ok c" using wf by (simp add: conn_wf_def)
  obtain b c1 where get: "pool_get c = Some (b, c1)" using ncpool.get_some [OF pok free] by blast
  have c1: "chan_pool c1 = chan_pool c" "same_table c c1" "b \<noteq> NC_NOBUF" "conn_wf {#b#} c1"
    using conn_wf_pool_get [OF wf] get free by (auto split: if_splits)
  have b: "0 \<le> b" "b < int NC_POOL_BUFS" using conn_wf_held [OF c1(4)] by auto
  define c2 where "c2 = c1\<lparr>pool_store := mem_write (pool_store c1) (nat b * NC_MAX_MSG) data\<rparr>"
  have w: "pool_write c1 (nat b * NC_MAX_MSG) data = Some c2"
    using conn_wf_pool_write [OF c1(4) b, of 0 data] data by (auto simp: ok_def c2_def)
  have fp2: "max_frag_payload c2 = max_frag_payload c" using same_table_fp [OF c1(2)] by (simp add: c2_def)
  let ?ft = "of_nat (chunks (max_frag_payload c) data) :: u8"
  have ft: "frag_count c2 (length data) = Some ?ft" using frag_count_chunks [of c2 data] fp data n fp2 by simp
  have uft: "\<not> NC_MAX_FRAGS < unat ?ft" using n by (simp add: unat_of_nat_small8 NC_MAX_FRAGS_def)
  define c' where "c' = upd_chan (upd_chan c2 k (\<lambda>ch. ch\<lparr>send_seq := send_seq ch + 1\<rparr>)) k (\<lambda>ch. ch\<lparr>
         outgoing := (outgoing ch)(out_tail ch := outgoing_zero\<lparr>o_buf := b, o_len := length data, o_seq := send_seq ?ch,
                o_active := True, o_frag_total := ?ft\<rparr>),
         bytes_in_flight := (if ch_type ch = NETCHAN_RELIABLE then bytes_in_flight ch + of_nat (length data) else bytes_in_flight ch),
         msgs_sent := msgs_sent ch + 1, out_tail := Suc (out_tail ch) mod NC_OUTGOING_SLOTS\<rparr>)"
  have "queue_message c1 k b data = Some (int (length data), c')"
    using b w ft uft by (simp add: queue_message_def pool_ptr_def Let_def c'_def c1(1))
  then have wr: "netchan_chan_write c (Some k) data = Some (int (length data), c')"
    using role st data flow room get c1(3) by (auto simp: netchan_chan_write_def Let_def)
  have wf': "conn_wf {#} c'" using netchan_chan_write_ok [OF wf live, of data] fp wr by simp
  have bytes: "buf_bytes c' b (length data) = data" by (simp add: buf_bytes_def c'_def c2_def mem_read_write_same)
  have fl: "unat (bytes_in_flight ?ch + of_nat (length data)) = unat (bytes_in_flight ?ch) + length data"
    if "ch_type ?ch = NETCHAN_RELIABLE"
  proof -
    have lt: "unat (bytes_in_flight ?ch) + length data < 2 ^ 32"
    proof -
      have "unat (send_window ?ch) < 2 ^ LENGTH(32)" by (rule unsigned_less)
      then show ?thesis using flow [OF that] by simp
    qed
    then have "unat (of_nat (length data) :: u32) = length data" by (simp add: unat_of_nat take_bit_nat_eq_self)
    with lt show ?thesis by (simp add: unat_word_ariths)
  qed
  show ?thesis using wr wf' bytes fl flow
    by (intro exI [of _ c']) (simp add: c'_def c2_def c1(1) Let_def outgoing_zero_def word_le_nat_alt)
qed

text \<open>A sender whose peer has opened the window.\<close>

definition ready_sender :: netchan_conn where
  "ready_sender = upd_chan sender 0 (\<lambda>ch. ch\<lparr>ch_state := 1, send_window := 100\<rparr>)"

lemma ready_sender_facts:
  "conn_wf {#} ready_sender" "live_chan ready_sender 0" "ch_role (chan_pool ready_sender 0) = 0" "ch_state (chan_pool ready_sender 0) = 1"
  "send_window (chan_pool ready_sender 0) = 100" "bytes_in_flight (chan_pool ready_sender 0) = 0"
  "out_tail (chan_pool ready_sender 0) = 0" "out_head (chan_pool ready_sender 0) = 0" "free_ms ready_sender \<noteq> {#}"
  "max_frag_payload ready_sender = 1185"
proof -
  have live: "live_chan sender 0" using table_lookup [OF sender_facts(1,2)] .
  show "conn_wf {#} ready_sender" unfolding ready_sender_def using sender_facts(1) live by (intro conn_wf_upd_plain) auto
  show "live_chan ready_sender 0" using live by (simp add: ready_sender_def live_chan_def)
  have n: "next_chan_id (netchan_open False) = 0" by (simp add: netchan_open_def pool_init_def conn_zero_def)
  have f: "out_tail (chan_pool sender 0) = 0" "out_head (chan_pool sender 0) = 0" "bytes_in_flight (chan_pool sender 0) = 0"
    "pool_free_top sender = NC_POOL_BUFS" "conn_cfg sender = netchan_cfg_default"
    using fresh_find by (simp_all add: sender_def netchan_chan_open_def Let_def n chan_new_def ctrl_channel_open_def chan_zero_def chan_reset_bufs_def)
  show "ch_role (chan_pool ready_sender 0) = 0" "ch_state (chan_pool ready_sender 0) = 1" "send_window (chan_pool ready_sender 0) = 100"
    "bytes_in_flight (chan_pool ready_sender 0) = 0" "out_tail (chan_pool ready_sender 0) = 0" "out_head (chan_pool ready_sender 0) = 0"
    by (simp_all add: ready_sender_def sender_facts f)
  have "size (free_ms ready_sender) = 64" by (simp add: size_free_ms ready_sender_def f NC_POOL_BUFS_def)
  then show "free_ms ready_sender \<noteq> {#}" by force
  show "max_frag_payload ready_sender = 1185"
    by (simp add: ready_sender_def max_frag_payload_def f netchan_cfg_default_def NC_DEFAULT_MTU_def NC_HDR_FULL_SIZE_def)
qed

text \<open>
  Writing queues the message: on a well-formed connection a write of 1 to 2048 bytes to an
  open sending channel, with room in the flow-control window and in the outgoing ring, a free
  buffer, and at most 32 fragments, returns the length; the slot at the old tail then holds the
  bytes, the channel's next sequence number and the number of chunks, nothing of it sent yet,
  and a reliable channel accounts the bytes as in flight without exceeding the window.
\<close>

theorem chan_write_queues:
  assumes wf: "conn_wf {#} c" and live: "live_chan c k" and role: "ch_role (chan_pool c k) = 0" and st: "ch_state (chan_pool c k) = 1"
    and data: "data \<noteq> []" "length data \<le> NC_MAX_MSG"
    and flow: "ch_type (chan_pool c k) = NETCHAN_RELIABLE \<Longrightarrow> unat (bytes_in_flight (chan_pool c k)) + length data \<le> unat (send_window (chan_pool c k))"
    and room: "Suc (out_tail (chan_pool c k)) mod NC_OUTGOING_SLOTS \<noteq> out_head (chan_pool c k)" and free: "free_ms c \<noteq> {#}"
    and fp: "0 < max_frag_payload c" and n: "chunks (max_frag_payload c) data \<le> NC_MAX_FRAGS"
  shows "\<exists>c'. netchan_chan_write c (Some k) data = Some (int (length data), c') \<and> conn_wf {#} c' \<and>
    (let o1 = outgoing (chan_pool c' k) (out_tail (chan_pool c k)) in
       o_active o1 \<and> o_len o1 = length data \<and> buf_bytes c' (o_buf o1) (o_len o1) = data \<and> o_seq o1 = send_seq (chan_pool c k) \<and>
       o_frag_total o1 = of_nat (chunks (max_frag_payload c) data) \<and> o_frag_sent o1 = 0) \<and>
    send_seq (chan_pool c' k) = send_seq (chan_pool c k) + 1 \<and>
    out_tail (chan_pool c' k) = Suc (out_tail (chan_pool c k)) mod NC_OUTGOING_SLOTS \<and>
    (ch_type (chan_pool c k) = NETCHAN_RELIABLE \<longrightarrow> bytes_in_flight (chan_pool c' k) \<le> send_window (chan_pool c' k) \<and>
       unat (bytes_in_flight (chan_pool c' k)) = unat (bytes_in_flight (chan_pool c k)) + length data)"
  using assms by (rule chan_write_stores)

theorem chan_write_queues_witness:
  "\<exists>c'. netchan_chan_write ready_sender (Some 0) [1, 2] = Some (2, c') \<and> conn_wf {#} c' \<and>
     buf_bytes c' (o_buf (outgoing (chan_pool c' 0) 0)) 2 = [1, 2]"
proof -
  note r = ready_sender_facts
  have "\<exists>c'. netchan_chan_write ready_sender (Some 0) [1, 2] = Some (int (length [1, 2 :: u8]), c') \<and> conn_wf {#} c' \<and>
    (let o1 = outgoing (chan_pool c' 0) (out_tail (chan_pool ready_sender 0)) in
       o_len o1 = length [1, 2 :: u8] \<and> buf_bytes c' (o_buf o1) (o_len o1) = [1, 2])"
    using chan_write_queues [OF r(1-4), of "[1, 2]"] r
    by (auto simp: Let_def NC_MAX_MSG_def NC_OUTGOING_SLOTS_def chunks_def NC_MAX_FRAGS_def)
  then show ?thesis by (auto simp: Let_def r numeral_2_eq_2)
qed

text \<open>
  A fragment on the wire: when a queued message has fragments left and the next one fits,
  what the datagram builder appends is the DATA frame of that fragment: the channel id, the
  message's sequence number, its index and count, and exactly the corresponding chunk of the
  message's bytes.
\<close>

theorem send_fragment_frame:
  assumes wf: "conn_wf {#} c" and live: "live_chan c k" and j: "j < NC_OUTGOING_SLOTS"
    and o1: "outgoing (chan_pool c k) j = o1" "o_active o1" "o_frag_sent o1 < o_frag_total o1"
    and room: "length out + 8 + max_frag_payload c \<le> m" "m \<le> buflen" and fp: "0 < max_frag_payload c"
  shows "\<exists>c'. send_fragment c k j now m buflen out = Some (Some (out @ data_frame (ch_id (chan_pool c k)) (o_seq o1)
      (o_frag_sent o1) (o_frag_total o1) (chunk (max_frag_payload c) (buf_bytes c (o_buf o1) (o_len o1)) (unat (o_frag_sent o1))), c')) \<and>
    conn_wf {#} c'"
proof -
  let ?fp = "max_frag_payload c"
  let ?off = "unat (o_frag_sent o1) * ?fp"
  have wf1: "outgoing_wf ?fp (out_head (chan_pool c k)) (out_tail (chan_pool c k)) j o1"
    using live_outgoing [OF wf live j] o1(1) by simp
  have "unat (o_frag_sent o1) \<le> unat (o_frag_total o1) - 1" using o1(3) by (simp add: word_less_nat_alt)
  then have "?off \<le> (unat (o_frag_total o1) - 1) * ?fp" by (rule mult_le_mono1)
  moreover have "(unat (o_frag_total o1) - 1) * ?fp \<le> o_len o1" "o_len o1 \<le> NC_MAX_MSG"
    using wf1 o1(2) by (simp_all add: outgoing_wf_def)
  ultimately have off: "?off \<le> o_len o1" "o_len o1 \<le> NC_MAX_MSG" by (blast intro: order_trans)+
  let ?d = "min (o_len o1 - ?off) ?fp"
  let ?x = "chunk ?fp (buf_bytes c (o_buf o1) (o_len o1)) (unat (o_frag_sent o1))"
  have b: "0 \<le> o_buf o1" "o_buf o1 < int NC_POOL_BUFS" using outgoing_buf_range [OF wf live j] o1 by auto
  have xl: "length ?x = ?d" by (simp add: length_chunk)
  have x: "?x = mem_read (pool_store c) (nat (o_buf o1) * NC_MAX_MSG + ?off) ?d"
  proof (rule nth_equalityI)
    fix i assume "i < length ?x"
    then have "?off + i < o_len o1" "i < ?d" using off unfolding xl by linarith+
    then show "?x ! i = mem_read (pool_store c) (nat (o_buf o1) * NC_MAX_MSG + ?off) ?d ! i"
      using off by (simp add: chunk_def buf_bytes_def add.assoc)
  qed (simp add: xl)
  have rd: "pool_read c (nat (o_buf o1) * NC_MAX_MSG + ?off) ?d = Some ?x"
    unfolding x using b off by (intro pool_read_slot) auto
  have ptr: "pool_ptr (o_buf o1) = Some (nat (o_buf o1) * NC_MAX_MSG)" using b by (simp add: pool_ptr_def)
  obtain c' where c': "mark_sent c k j now = Some c'" "conn_wf {#} c'"
    using mark_sent_ok [OF wf live j, of now] o1 by (auto simp: ok_def)
  have sz: "size_sub (size_sub m (length out)) 8 = m - length out - 8" using room by (simp add: size_sub_def)
  have nf: "\<not> m - length out - 8 < ?d" using room by linarith
  have em: "emit buflen out (data_frame (ch_id (chan_pool c k)) (o_seq o1) (o_frag_sent o1) (o_frag_total o1) ?x)
      = Some (out @ data_frame (ch_id (chan_pool c k)) (o_seq o1) (o_frag_sent o1) (o_frag_total o1) ?x)"
    using room xl by (intro emit_ok) simp
  have "send_fragment c k j now m buflen out = Some (Some (out @ data_frame (ch_id (chan_pool c k)) (o_seq o1)
      (o_frag_sent o1) (o_frag_total o1) ?x, c'))"
    unfolding send_fragment_def Let_def o1(1) sz size_sub_le [OF off(1)] using nf ptr rd c' em
    by (simp add: data_frame_def xl)
  with c'(2) show ?thesis by blast
qed

theorem send_fragment_frame_witness:
  "\<exists>c' c''. netchan_chan_write ready_sender (Some 0) [1, 2] = Some (2, c') \<and>
     send_fragment c' 0 0 5 1200 1200 [] = Some (Some (data_frame (ch_id (chan_pool c' 0)) (send_seq (chan_pool ready_sender 0)) 0 1 [1, 2], c''))"
proof -
  note r = ready_sender_facts
  let ?P = "\<lambda>o1 c'. o_active o1 \<and> o_len o1 = length [1, 2 :: u8] \<and> buf_bytes c' (o_buf o1) (o_len o1) = [1, 2] \<and>
       o_seq o1 = send_seq (chan_pool ready_sender 0) \<and> o_frag_total o1 = 1 \<and> o_frag_sent o1 = 0"
  obtain c' where c': "netchan_chan_write ready_sender (Some 0) [1, 2] = Some (2, c')" "conn_wf {#} c'" "?P (outgoing (chan_pool c' 0) 0) c'"
    using chan_write_stores [OF r(1-4), of "[1, 2]"] r
    by (auto simp: Let_def NC_MAX_MSG_def NC_OUTGOING_SLOTS_def chunks_def NC_MAX_FRAGS_def)
  have st: "same_table ready_sender c'" using netchan_chan_write_ok [OF r(1,2), of "[1, 2]"] c'(1) r(10) by simp
  have l: "live_chan c' 0" "max_frag_payload c' = 1185"
    using st r(2,10) same_table_fp [OF st] by (simp_all add: same_table_def live_chan_def)
  have "(0 :: nat) < NC_OUTGOING_SLOTS" by (simp add: NC_OUTGOING_SLOTS_def)
  from send_fragment_frame [OF c'(2) l(1) this refl, of "[]" 1200 1200 5] c'(3) l(2)
  obtain c'' where "send_fragment c' 0 0 5 1200 1200 [] = Some (Some (data_frame (ch_id (chan_pool c' 0)) (send_seq (chan_pool ready_sender 0)) 0 1 [1, 2], c''))"
    by (auto simp: chunk_def)
  with c'(1) show ?thesis by blast
qed

end
