(* ===== verification/NC_Reliable.thy ===== *)
theory NC_Reliable
  imports NC_Sender
begin

text \<open>
  A reliable channel from end to end.  The sending connection, the receiving connection and the DATA
  frames between them form a system whose steps are the calls of the code: writing, building a frame,
  the timers, processing an ACK, processing a DATA frame, reading.  Frames may be lost, repeated and
  reordered.  What the reader gets is a prefix of what the writer wrote.

  \<open>sends msgs n c k\<close> is the sender's counterpart of \<open>waits\<close>: the first \<open>n\<close> messages of the sequence \<open>msgs\<close> have been
  written, and every active slot of the outgoing ring holds one of the last of them, in the slot of its number.
\<close>

section \<open>The sender's invariant\<close>

definition slot_holds :: "(nat \<Rightarrow> bytes) \<Rightarrow> nat \<Rightarrow> netchan_conn \<Rightarrow> nat \<Rightarrow> nc_outgoing \<Rightarrow> bool" where
  "slot_holds msgs n c j o1 \<longleftrightarrow> (\<exists>i<n. n \<le> i + NC_OUTGOING_SLOTS \<and> j = i mod NC_OUTGOING_SLOTS \<and>
     o_seq o1 = of_nat i \<and> buf_bytes c (o_buf o1) (o_len o1) = msgs i \<and> o_frag_total o1 = 1)"

definition sends :: "(nat \<Rightarrow> bytes) \<Rightarrow> nat \<Rightarrow> netchan_conn \<Rightarrow> nat \<Rightarrow> bool" where
  "sends msgs n c k \<longleftrightarrow> send_seq (chan_pool c k) = of_nat n \<and> out_tail (chan_pool c k) = n mod NC_OUTGOING_SLOTS \<and>
     (\<forall>j<NC_OUTGOING_SLOTS. o_active (outgoing (chan_pool c k) j) \<longrightarrow> slot_holds msgs n c j (outgoing (chan_pool c k) j))"

text \<open>What every step but a write leaves alone.\<close>

definition same_message :: "nc_outgoing \<Rightarrow> nc_outgoing \<Rightarrow> bool" where
  "same_message o1 o2 \<longleftrightarrow> o_active o1 \<and> o_seq o2 = o_seq o1 \<and> o_buf o2 = o_buf o1 \<and> o_len o2 = o_len o1 \<and> o_frag_total o2 = o_frag_total o1"

definition tx_kept :: "nat \<Rightarrow> netchan_conn \<Rightarrow> netchan_conn \<Rightarrow> bool" where
  "tx_kept k c c' \<longleftrightarrow> pool_store c' = pool_store c \<and> send_seq (chan_pool c' k) = send_seq (chan_pool c k) \<and>
     out_tail (chan_pool c' k) = out_tail (chan_pool c k) \<and> ch_id (chan_pool c' k) = ch_id (chan_pool c k) \<and>
     ch_type (chan_pool c' k) = ch_type (chan_pool c k) \<and> ch_role (chan_pool c' k) = ch_role (chan_pool c k) \<and>
     (\<forall>j. o_active (outgoing (chan_pool c' k) j) \<longrightarrow> same_message (outgoing (chan_pool c k) j) (outgoing (chan_pool c' k) j))"

lemma tx_kept_refl [simp]: "tx_kept k c c"
  by (simp add: tx_kept_def same_message_def)

lemma tx_kept_trans: "tx_kept k a b \<Longrightarrow> tx_kept k b c \<Longrightarrow> tx_kept k a c"
  unfolding tx_kept_def same_message_def by auto

lemma sends_kept:
  assumes "sends msgs n c k" "tx_kept k c c'"
  shows "sends msgs n c' k"
  using assms unfolding sends_def tx_kept_def same_message_def slot_holds_def buf_bytes_def by fastforce

lemma tx_kept_frame:
  "chan_pool c' = chan_pool c \<Longrightarrow> pool_store c' = pool_store c \<Longrightarrow> tx_kept k c c'"
  by (simp add: tx_kept_def same_message_def)

lemma tx_kept_upd:
  assumes "send_seq (f (chan_pool c k)) = send_seq (chan_pool c k)" "out_tail (f (chan_pool c k)) = out_tail (chan_pool c k)"
    "ch_id (f (chan_pool c k)) = ch_id (chan_pool c k)" "ch_type (f (chan_pool c k)) = ch_type (chan_pool c k)"
    "ch_role (f (chan_pool c k)) = ch_role (chan_pool c k)"
    "\<And>j. o_active (outgoing (f (chan_pool c k)) j) \<Longrightarrow> same_message (outgoing (chan_pool c k) j) (outgoing (f (chan_pool c k)) j)"
  shows "tx_kept k c (upd_chan c k f)"
  using assms by (simp add: tx_kept_def)

lemma tx_kept_other: "k' \<noteq> k \<Longrightarrow> tx_kept k c (upd_chan c k' f)"
  by (simp add: tx_kept_def same_message_def)

section \<open>Acknowledgements and timers\<close>

lemma ack_slots_kept: "ack_slots c k a is = Some c' \<Longrightarrow> tx_kept k c c'"
proof (induction "is" arbitrary: c)
  case (Cons j js)
  let ?o = "outgoing (chan_pool c k) j"
  let ?f = "\<lambda>ch. ch\<lparr>bytes_in_flight := bytes_in_flight ch - of_nat (o_len ?o), msgs_acked := msgs_acked ch + 1,
            outgoing := (outgoing ch)(j := ?o\<lparr>o_buf := NC_NOBUF, o_active := False\<rparr>)\<rparr>"
  show ?case
  proof (cases "acked_slot (chan_pool c k) a j")
    case False
    then show ?thesis using Cons by (auto simp: acked_slot_def Let_def)
  next
    case True
    then obtain c1 where put: "pool_put c (o_buf ?o) = Some c1" and rest: "ack_slots (upd_chan c1 k ?f) k a js = Some c'"
      using Cons.prems by (auto simp: acked_slot_def Let_def Option.bind_eq_Some_conv)
    have c1: "chan_pool c1 = chan_pool c" "pool_store c1 = pool_store c" using pool_put_frame [OF put] by auto
    have "tx_kept k c1 (upd_chan c1 k ?f)" by (rule tx_kept_upd) (auto simp: c1 same_message_def split: if_splits)
    then show ?thesis using tx_kept_trans [OF tx_kept_frame [OF c1] tx_kept_trans [OF _ Cons.IH [OF rest]]] by blast
  qed
qed simp

lemma advance_out_head_kept: "advance_out_head c k = Some c' \<Longrightarrow> tx_kept k c c'"
  by (auto simp: advance_out_head_def Option.bind_eq_Some_conv same_message_def intro!: tx_kept_upd)

lemma ack_keeps:
  assumes wf: "conn_wf {#} c" and cid: "channels c (unat cid) = Some k" and role: "ch_role (chan_pool c k) = 0"
    and p: "process_ack c (ack_frame cid a) = Some (r, c')"
  shows "conn_wf {#} c' \<and> same_table c c' \<and> tx_kept k c c'"
proof -
  have live: "live_chan c k" using wf cid by (rule table_lookup)
  have eq: "process_ack c (ack_frame cid a) = ack_slots c k a [0 ..< NC_OUTGOING_SLOTS] \<bind> (\<lambda>c1. advance_out_head c1 k \<bind> (\<lambda>c2. Some (4, c2)))"
    using process_ack_frame [of undefined 0 c cid a "[]"] cid role by (simp add: process_frame_def ack_frame_def frame_type_defs)
  obtain c1 where a: "ack_slots c k a [0 ..< NC_OUTGOING_SLOTS] = Some c1" and h: "advance_out_head c1 k = Some c'"
    using p [unfolded eq] by (auto simp: Option.bind_eq_Some_conv)
  have c1: "conn_wf {#} c1" "same_table c c1"
    using ack_slots_ok [OF wf live, of "[0 ..< NC_OUTGOING_SLOTS]" a] a by (auto simp: ok_def lessThan_atLeast0)
  then have "conn_wf {#} c' \<and> same_table c1 c'" using advance_out_head_ok [of "{#}" c1 k] live h by (auto simp: ok_def same_table_live)
  then show ?thesis using c1 tx_kept_trans [OF ack_slots_kept [OF a] advance_out_head_kept [OF h]] by (auto simp: same_table_def)
qed

lemma rt_slots_kept: "rt_slots c k' now n js = Some (r, c') \<Longrightarrow> tx_kept k c c'"
proof (induction js arbitrary: c n)
  case (Cons j js)
  let ?o = "outgoing (chan_pool c k') j"
  let ?f = "\<lambda>ch. ch\<lparr>outgoing := (outgoing ch)(j := ?o\<lparr>o_frag_sent := 0, o_sent_ms := now, o_attempts := o_attempts ?o + 1\<rparr>),
     retransmissions := retransmissions ch + 1\<rparr>"
  have upd: "tx_kept k c (upd_chan c k' ?f)" if "o_active ?o"
  proof (cases "k' = k")
    case True
    then show ?thesis using that by (auto simp: same_message_def intro!: tx_kept_upd split: if_splits)
  qed (rule tx_kept_other)
  have close: "tx_kept k c (upd_chan c k' (\<lambda>ch. ch\<lparr>ch_state := 3\<rparr>))"
    using tx_kept_other [of k' k] by (cases "k' = k") (auto simp: same_message_def intro!: tx_kept_upd)
  have ev: "tx_kept k c (ev_push (upd_chan c k' (\<lambda>ch. ch\<lparr>ch_state := 3\<rparr>)) t p)" for t p
    using close by (rule tx_kept_trans) (simp add: tx_kept_frame)
  show ?case
    using Cons.prems Cons.IH upd ev tx_kept_trans [OF upd]
    by (auto simp: Let_def Option.bind_eq_Some_conv split: if_splits)
qed simp

lemma service_retransmit_kept: "service_retransmit c now n is = Some (r, c') \<Longrightarrow> tx_kept k c c'"
proof (induction "is" arbitrary: c n)
  case (Cons i js)
  then show ?case
    by (auto simp: Option.bind_eq_Some_conv split: option.splits if_splits dest!: rt_slots_kept [where k = k] intro: tx_kept_trans)
qed simp

lemma service_kept:
  assumes "netchan_service e c now = Some (r, c')"
  shows "tx_kept k c c'"
proof -
  have con: "service_connect c now n = Inl c1 \<Longrightarrow> tx_kept k c c1" "service_connect c now n = Inr (n1, c1) \<Longrightarrow> tx_kept k c c1" for c n n1 c1
    by (auto simp: service_connect_def ctrl_connect_init_def Let_def intro!: tx_kept_frame split: if_splits)
  have idle: "service_idle c now n = Inl c1 \<Longrightarrow> tx_kept k c c1" "service_idle c now n = Inr (n1, c1) \<Longrightarrow> tx_kept k c c1" for c n n1 c1
    by (auto simp: service_idle_def Let_def intro!: tx_kept_frame split: if_splits)
  have ping: "tx_kept k c (snd (service_ping e c now n))" for c n
    by (auto simp: service_ping_def ctrl_ping_def Let_def intro!: tx_kept_frame)
  show ?thesis
  proof (cases "service_connect c now (-1)")
    case (Inl c1)
    then show ?thesis using assms con(1) [OF Inl] by (simp add: netchan_service_def)
  next
    case (Inr x)
    then obtain n1 c1 where 1: "service_connect c now (-1) = Inr (n1, c1)" by (cases x) auto
    show ?thesis
    proof (cases "service_idle c1 now n1")
      case (Inl c2)
      then show ?thesis using assms 1 tx_kept_trans [OF con(2) [OF 1] idle(1) [OF Inl]] by (simp add: netchan_service_def)
    next
      case (Inr y)
      then obtain n2 c2 where 2: "service_idle c1 now n1 = Inr (n2, c2)" by (cases y) auto
      obtain n3 c3 where 3: "service_ping e c2 now n2 = (n3, c3)" by fastforce
      have "service_retransmit c3 now n3 [0 ..< NC_MAX_CHANNELS] = Some (r, c')"
        using assms unfolding netchan_service_def 1 sum.case prod.case 2 Let_def 3 .
      then have "tx_kept k (snd (service_ping e c2 now n2)) c'" unfolding 3 snd_conv by (rule service_retransmit_kept)
      from tx_kept_trans [OF con(2) [OF 1] tx_kept_trans [OF idle(2) [OF 2] tx_kept_trans [OF ping this]]] show ?thesis .
    qed
  qed
qed

section \<open>Writing\<close>

lemma slot_facts:
  assumes "conn_wf M c" "live_chan c k" "j < NC_OUTGOING_SLOTS" "o_active (outgoing (chan_pool c k) j)"
  shows "o_buf (outgoing (chan_pool c k) j) \<in># chan_ms (chan_pool c k)" "o_len (outgoing (chan_pool c k) j) \<le> NC_MAX_MSG"
    "0 \<le> o_buf (outgoing (chan_pool c k) j)"
proof -
  have w: "outgoing_wf (max_frag_payload c) (out_head (chan_pool c k)) (out_tail (chan_pool c k)) j (outgoing (chan_pool c k) j)"
    using live_wf [OF assms(1,2)] assms(3) by (simp add: chan_wf_def)
  then show m: "o_buf (outgoing (chan_pool c k) j) \<in># chan_ms (chan_pool c k)"
    using assms(3,4) chan_ms_members(1) by (simp add: outgoing_wf_def)
  show "o_len (outgoing (chan_pool c k) j) \<le> NC_MAX_MSG" using w assms(4) by (simp add: outgoing_wf_def)
  show "0 \<le> o_buf (outgoing (chan_pool c k) j)" using chan_buf_range [OF assms(1,2) m] by simp
qed

lemma frag_count_one:
  assumes "data \<noteq> []" "length data \<le> max_frag_payload c"
  shows "frag_count c (length data) = Some 1"
proof -
  have "(length data + max_frag_payload c - 1) div max_frag_payload c = 1"
    using assms by (cases data) (auto intro!: div_nat_eqI)
  moreover have "max_frag_payload c \<noteq> 0" using assms by (cases data) auto
  ultimately show ?thesis by (simp add: frag_count_def Let_def)
qed

lemma queued:
  assumes c: "conn_wf {#b#} c" and live: "live_chan c k" and s: "sends msgs n c k"
    and data: "data \<noteq> []" "length data \<le> max_frag_payload c" "length data \<le> NC_MAX_MSG" "msgs n = data"
    and q: "queue_message c k b data = Some (r, c')"
  shows "r = int (length data) \<and> sends msgs (Suc n) c' k \<and> ch_id (chan_pool c' k) = ch_id (chan_pool c k) \<and>
    ch_type (chan_pool c' k) = ch_type (chan_pool c k) \<and> ch_role (chan_pool c' k) = ch_role (chan_pool c k)"
proof -
  let ?ch = "chan_pool c k"
  have b: "0 \<le> b" "b < int NC_POOL_BUFS" using conn_wf_held [OF c] by auto
  define c2 where "c2 = c\<lparr>pool_store := mem_write (pool_store c) (nat b * NC_MAX_MSG) data\<rparr>"
  have w: "pool_write c (nat b * NC_MAX_MSG) data = Some c2"
    using conn_wf_pool_write [OF c b, of 0 data] data by (auto simp: ok_def c2_def)
  have ft: "frag_count c2 (length data) = Some 1" using frag_count_one [of data c2] data by (simp add: c2_def max_frag_payload_def)
  define o1 where "o1 = outgoing_zero\<lparr>o_buf := b, o_len := length data, o_seq := send_seq ?ch, o_active := True, o_frag_total := 1\<rparr>"
  have c': "c' = upd_chan (upd_chan c2 k (\<lambda>ch. ch\<lparr>send_seq := send_seq ch + 1\<rparr>)) k (\<lambda>ch. ch\<lparr>
         outgoing := (outgoing ch)(out_tail ch := o1),
         bytes_in_flight := (if ch_type ch = NETCHAN_RELIABLE then bytes_in_flight ch + of_nat (length data) else bytes_in_flight ch),
         msgs_sent := msgs_sent ch + 1, out_tail := Suc (out_tail ch) mod NC_OUTGOING_SLOTS\<rparr>)" and r: "r = int (length data)"
    using q b w ft by (auto simp: queue_message_def pool_ptr_def Let_def o1_def NC_MAX_FRAGS_def)
  have out: "outgoing (chan_pool c' k) = (outgoing ?ch)(n mod NC_OUTGOING_SLOTS := o1)" "send_seq (chan_pool c' k) = of_nat (Suc n)"
      "out_tail (chan_pool c' k) = Suc n mod NC_OUTGOING_SLOTS" "pool_store c' = pool_store c2"
    using s by (simp_all add: c' c2_def sends_def mod_Suc_eq)
  have new: "slot_holds msgs (Suc n) c' (n mod NC_OUTGOING_SLOTS) o1"
    using s data by (auto simp: slot_holds_def o1_def out sends_def buf_bytes_def c2_def mem_read_write_same NC_OUTGOING_SLOTS_def intro!: exI [of _ n])
  have old: "slot_holds msgs (Suc n) c' j (outgoing ?ch j)"
    if j: "j < NC_OUTGOING_SLOTS" "j \<noteq> n mod NC_OUTGOING_SLOTS" "o_active (outgoing ?ch j)" for j
  proof -
    note f = slot_facts [OF c live j(1,3)]
    have "o_buf (outgoing ?ch j) \<noteq> b" using held_fresh [OF c live] f(1) by auto
    then have same: "buf_bytes c' (o_buf (outgoing ?ch j)) (o_len (outgoing ?ch j)) = buf_bytes c (o_buf (outgoing ?ch j)) (o_len (outgoing ?ch j))"
      using f b data by (simp add: buf_bytes_def out c2_def read_other_buffer)
    obtain i where i: "i < n" "n \<le> i + NC_OUTGOING_SLOTS" "j = i mod NC_OUTGOING_SLOTS" "o_seq (outgoing ?ch j) = of_nat i"
        "buf_bytes c (o_buf (outgoing ?ch j)) (o_len (outgoing ?ch j)) = msgs i" "o_frag_total (outgoing ?ch j) = 1"
      using s j by (auto simp: sends_def slot_holds_def)
    have "n \<noteq> i + NC_OUTGOING_SLOTS" using i(3) j(2) by auto
    then show ?thesis using i same by (auto simp: slot_holds_def intro!: exI [of _ i])
  qed
  have "sends msgs (Suc n) c' k" using new old by (auto simp: sends_def out)
  then show ?thesis using r by (simp add: c' c2_def)
qed

lemma write_sends:
  assumes wf: "conn_wf {#} c" and live: "live_chan c k" and s: "sends msgs n c k"
    and data: "data \<noteq> []" "length data \<le> max_frag_payload c" and w: "netchan_chan_write c (Some k) data = Some (r, c')"
    and msg: "0 \<le> r \<Longrightarrow> msgs n = data"
  shows "conn_wf {#} c' \<and> same_table c c' \<and> ch_id (chan_pool c' k) = ch_id (chan_pool c k) \<and>
    ch_type (chan_pool c' k) = ch_type (chan_pool c k) \<and> ch_role (chan_pool c' k) = ch_role (chan_pool c k) \<and>
    (if 0 \<le> r then length data \<le> NC_MAX_MSG \<and> sends msgs (Suc n) c' k else sends msgs n c' k)"
proof -
  have "max_frag_payload c \<noteq> 0" using data by (cases data) auto
  then have ok': "conn_wf {#} c' \<and> same_table c c'"
    using netchan_chan_write_ok [OF wf live, of data] w by (auto simp: ok_def)
  show ?thesis
  proof (cases "r < 0 \<and> c' = c")
    case True
    then show ?thesis using ok' s by simp
  next
    case False
    then obtain b c1 where g: "pool_get c = Some (b, c1)" "b \<noteq> NC_NOBUF" "queue_message c1 k b data = Some (r, c')" "length data \<le> NC_MAX_MSG"
      using w data conn_wf_pool_get [OF wf]
      by (auto simp: netchan_chan_write_def Let_def Option.bind_eq_Some_conv return_code_defs split: if_splits)
    have c1: "chan_pool c1 = chan_pool c" "pool_store c1 = pool_store c" "same_table c c1" "conn_wf {#b#} c1"
      using conn_wf_pool_get [OF wf] g(1,2) by auto
    have l1: "live_chan c1 k" "length data \<le> max_frag_payload c1" "sends msgs n c1 k"
      using live c1 data sends_kept [OF s tx_kept_frame [OF c1(1,2)]] by (simp_all add: same_table_live same_table_fp)
    have ft: "frag_count c2 (length data) = Some 1" if "c2 = c1\<lparr>pool_store := m\<rparr>" for c2 m
      using that l1 data frag_count_one [of data c2] by (simp add: max_frag_payload_def)
    have "0 \<le> r" using g(3) by (auto simp: queue_message_def Let_def Option.bind_eq_Some_conv NC_MAX_FRAGS_def ft dest!: pool_write_frame split: if_splits)
    from queued [OF c1(4) l1(1,3) data(1) l1(2) g(4) msg [OF this] g(3)] show ?thesis using ok' g(4) c1 by simp
  qed
qed

section \<open>Sending\<close>

lemma fragment_sends:
  assumes wf: "conn_wf {#} c" and live: "live_chan c k" and s: "sends msgs n c k" and ty: "ch_type (chan_pool c k) = NETCHAN_RELIABLE"
    and j: "j < NC_OUTGOING_SLOTS" "o_active (outgoing (chan_pool c k) j)" "o_frag_sent (outgoing (chan_pool c k) j) < o_frag_total (outgoing (chan_pool c k) j)"
    and len: "\<forall>i<n. length (msgs i) \<le> max_frag_payload c"
    and f: "send_fragment c k j now m buflen out = Some (Some (out', c'))"
    and i: "i = n - unat (send_seq (chan_pool c k) - o_seq (outgoing (chan_pool c k) j))"
  shows "i < n \<and> out' = out @ data_frame (ch_id (chan_pool c k)) (of_nat i) 0 1 (msgs i)" "conn_wf {#} c' \<and> same_table c c' \<and> tx_kept k c c'"
proof -
  let ?o = "outgoing (chan_pool c k) j"
  obtain i' where i': "i' < n" "n \<le> i' + NC_OUTGOING_SLOTS" "o_seq ?o = of_nat i'" "buf_bytes c (o_buf ?o) (o_len ?o) = msgs i'" "o_frag_total ?o = 1"
      "send_seq (chan_pool c k) = of_nat n"
    using s j by (auto simp: sends_def slot_holds_def)
  have "of_nat n - of_nat i' = (of_nat (n - i') :: u16)" using i'(1) by (simp add: of_nat_diff)
  moreover have "unat (of_nat (n - i') :: u16) = n - i'"
    using i'(2) by (simp add: unat_of_nat take_bit_nat_eq_self NC_OUTGOING_SLOTS_def)
  ultimately have eq: "i = i'" using i i' by simp
  have zero: "o_frag_sent ?o = 0" using j(3) i'(5) by (simp add: word_less_1)
  have ol: "o_len ?o = length (msgs i)" using i'(4) eq by (metis length_buf_bytes)
  obtain base payload where b: "pool_ptr (o_buf ?o) = Some base" "pool_read c base (length (msgs i)) = Some payload"
      "out' = out @ [NC_FRAME_DATA, ch_id (chan_pool c k)] @ wr16 (of_nat i) @ wr16 (of_nat (length (msgs i))) @ [0, 1] @ payload"
      "mark_sent c k j now = Some c'"
    using f len i'(1) eq by (auto simp: send_fragment_def Let_def zero i'(3,5) ol size_sub_def emit_def Option.bind_eq_Some_conv split: if_splits)
  have "payload = msgs i" using b(1,2) i'(4) eq by (auto simp: buf_bytes_def pool_ptr_def pool_read_def ol split: if_splits)
  then show "i < n \<and> out' = out @ data_frame (ch_id (chan_pool c k)) (of_nat i) 0 1 (msgs i)"
    using b(3) i'(1) eq by (auto simp: data_frame_def)
  have "conn_wf {#} c' \<and> same_table c c'" using mark_sent_ok [OF wf live j(1,2), of now] b(4) by (simp add: ok_def)
  moreover have "tx_kept k c c'"
    using b(4) ty j(2) by (auto simp: mark_sent_def Let_def same_message_def NETCHAN_RELIABLE_def NETCHAN_UNRELIABLE_def intro!: tx_kept_upd split: if_splits)
  ultimately show "conn_wf {#} c' \<and> same_table c c' \<and> tx_kept k c c'" by blast
qed

section \<open>The system\<close>

record rel_net =
  net_tx :: netchan_conn
  net_rx :: netchan_conn
  net_air :: "(nat \<times> bytes) list"
  net_wrote :: "bytes list"
  net_got :: "bytes list"

text \<open>The number of messages the receiver has taken: read, or in its queue.\<close>

definition taken :: "nat \<Rightarrow> rel_net \<Rightarrow> nat" where
  "taken k g = length (net_got g) + length (rq_contents (net_rx g) k)"

text \<open>Room for one more message: a place in the receive queue and two buffers, beside what waits in the
  reorder buffer.\<close>

definition rx_ready :: "netchan_conn \<Rightarrow> nat \<Rightarrow> bool" where
  "rx_ready c k \<longleftrightarrow> length (rq_contents c k) + pending_slots c k < NC_RECV_QUEUE - 1 \<and> 2 \<le> size (free_ms c)"

text \<open>\<open>k\<close> and \<open>k'\<close> are the places of the channel at the sender and at the receiver, \<open>cid\<close> its id.  A frame in
  the air carries as a mark the number of its message; the mark is not part of the frame.\<close>

inductive rel_step :: "u8 \<Rightarrow> nat \<Rightarrow> nat \<Rightarrow> rel_net \<Rightarrow> rel_net \<Rightarrow> bool" for cid k k' where
  wrote: "netchan_chan_write (net_tx g) (Some k) data = Some (r, c) \<Longrightarrow> data \<noteq> [] \<Longrightarrow> length data \<le> max_frag_payload (net_tx g) \<Longrightarrow>
    rel_step cid k k' g (g\<lparr>net_tx := c, net_wrote := (if 0 \<le> r then net_wrote g @ [data] else net_wrote g)\<rparr>)"
| sent: "j < NC_OUTGOING_SLOTS \<Longrightarrow> o1 = outgoing (chan_pool (net_tx g) k) j \<Longrightarrow> o_active o1 \<Longrightarrow> o_frag_sent o1 < o_frag_total o1 \<Longrightarrow>
    send_fragment (net_tx g) k j now m buflen out = Some (Some (out @ f, c)) \<Longrightarrow>
    i = length (net_wrote g) - unat (send_seq (chan_pool (net_tx g) k) - o_seq o1) \<Longrightarrow>
    rel_step cid k k' g (g\<lparr>net_tx := c, net_air := (i, f) # net_air g\<rparr>)"
| timed: "netchan_service e (net_tx g) now = Some (r, c) \<Longrightarrow> rel_step cid k k' g (g\<lparr>net_tx := c\<rparr>)"
| acked: "process_ack (net_tx g) (ack_frame cid a) = Some (r, c) \<Longrightarrow> rel_step cid k k' g (g\<lparr>net_tx := c\<rparr>)"
| arrived: "(i, f) \<in> set (net_air g) \<Longrightarrow> taken k' g \<le> i + 32768 \<Longrightarrow> i < taken k' g + 32768 \<Longrightarrow> rx_ready (net_rx g) k' \<Longrightarrow>
    process_data (net_rx g) f = Some (r, c) \<Longrightarrow> rel_step cid k k' g (g\<lparr>net_rx := c\<rparr>)"
| readout: "rq_contents (net_rx g) k' \<noteq> [] \<Longrightarrow> NC_MAX_MSG \<le> buflen \<Longrightarrow> netchan_chan_read (net_rx g) (Some k') buflen = Some (r, d, c) \<Longrightarrow>
    rel_step cid k k' g (g\<lparr>net_rx := c, net_got := net_got g @ [d]\<rparr>)"

text \<open>The invariant, for every sequence of messages that begins with what was written.\<close>

definition tx_inv :: "u8 \<Rightarrow> nat \<Rightarrow> (nat \<Rightarrow> bytes) \<Rightarrow> nat \<Rightarrow> netchan_conn \<Rightarrow> bool" where
  "tx_inv cid k msgs n c \<longleftrightarrow> conn_wf {#} c \<and> channels c (unat cid) = Some k \<and> ch_id (chan_pool c k) = cid \<and> ch_role (chan_pool c k) = 0 \<and>
     ch_type (chan_pool c k) = NETCHAN_RELIABLE \<and> sends msgs n c k \<and> (\<forall>i<n. length (msgs i) \<le> max_frag_payload c \<and> length (msgs i) \<le> NC_MAX_MSG)"

definition rx_inv :: "u8 \<Rightarrow> nat \<Rightarrow> (nat \<Rightarrow> bytes) \<Rightarrow> bytes list \<Rightarrow> netchan_conn \<Rightarrow> bool" where
  "rx_inv cid k msgs got c \<longleftrightarrow> conn_wf {#} c \<and> channels c (unat cid) = Some k \<and> ch_role (chan_pool c k) = 1 \<and>
     ch_type (chan_pool c k) = NETCHAN_RELIABLE \<and> (\<exists>n. waits msgs (Suc n) n c k \<and> got @ rq_contents c k = map msgs [0 ..< n])"

definition rel_inv :: "u8 \<Rightarrow> nat \<Rightarrow> nat \<Rightarrow> (nat \<Rightarrow> bytes) \<Rightarrow> rel_net \<Rightarrow> bool" where
  "rel_inv cid k k' msgs g \<longleftrightarrow> tx_inv cid k msgs (length (net_wrote g)) (net_tx g) \<and> rx_inv cid k' msgs (net_got g) (net_rx g) \<and>
     (\<forall>(i, f) \<in> set (net_air g). i < length (net_wrote g) \<and> f = data_frame cid (of_nat i) 0 1 (msgs i))"

lemma tx_inv_kept:
  assumes "tx_inv cid k msgs n c" "conn_wf {#} c' \<and> same_table c c' \<and> tx_kept k c c'"
  shows "tx_inv cid k msgs n c'"
proof -
  have "sends msgs n c' k" using assms sends_kept by (auto simp: tx_inv_def)
  then show ?thesis using assms by (auto simp: tx_inv_def tx_kept_def same_table_def max_frag_payload_def)
qed

lemma tx_inv_live: "tx_inv cid k msgs n c \<Longrightarrow> live_chan c k"
  using table_lookup by (auto simp: tx_inv_def)

lemma rx_inv_data:
  assumes inv: "rx_inv cid k msgs got c" and len: "length (msgs i) \<le> NC_MAX_MSG" and room: "rx_ready c k"
    and i: "length got + length (rq_contents c k) \<le> i + 32768" "i < length got + length (rq_contents c k) + 32768"
  shows "\<exists>r c'. process_data c (data_frame cid (of_nat i) 0 1 (msgs i)) = Some (r, c') \<and> rx_inv cid k msgs got c' \<and>
    (i = length got + length (rq_contents c k) \<longrightarrow> length (rq_contents c k) < length (rq_contents c' k))"
proof -
  obtain n where n: "waits msgs (Suc n) n c k" "got @ rq_contents c k = map msgs [0 ..< n]" using inv by (auto simp: rx_inv_def)
  have t: "length got + length (rq_contents c k) = n" using arg_cong [OF n(2), of length] by simp
  have wf: "conn_wf {#} c" "channels c (unat cid) = Some k" "ch_role (chan_pool c k) = 1" "ch_type (chan_pool c k) = NETCHAN_RELIABLE"
    using inv by (auto simp: rx_inv_def)
  have r: "length (rq_contents c k) + pending_slots c k < NC_RECV_QUEUE - 1" "2 \<le> size (free_ms c)" using room by (auto simp: rx_ready_def)
  obtain c' n' where p: "process_data c (data_frame cid (of_nat i) 0 1 (msgs i)) = Some (int (8 + length (msgs i)), c')"
      "conn_wf {#} c'" "chan_kept k c c'" "n \<le> n'" "i = n \<longrightarrow> n < n'" "waits msgs (Suc n') n' c' k"
      "rq_contents c' k = rq_contents c k @ map msgs [n ..< n']"
    using data_in_order [OF wf n(1) len i [unfolded t] r] by blast
  have "got @ rq_contents c' k = map msgs [0 ..< n']"
    using n(2) p(4,7) upt_add_eq_append [of 0 n "n' - n"] by (simp flip: map_append append_assoc)
  then have "rx_inv cid k msgs got c'" using p wf by (auto simp: rx_inv_def chan_kept_def same_table_def)
  then show ?thesis using p t by auto
qed

lemma rx_inv_read:
  assumes inv: "rx_inv cid k msgs got c" and ne: "rq_contents c k \<noteq> []" and buflen: "NC_MAX_MSG \<le> buflen"
    and rd: "netchan_chan_read c (Some k) buflen = Some (r, d, c')"
  shows "rx_inv cid k msgs (got @ [d]) c'"
proof -
  obtain m rest where mr: "rq_contents c k = m # rest" using ne by (cases "rq_contents c k") auto
  have wf: "conn_wf {#} c" "live_chan c k" "ch_role (chan_pool c k) = 1" using inv table_lookup by (auto simp: rx_inv_def)
  obtain n where n: "waits msgs (Suc n) n c k" "got @ rq_contents c k = map msgs [0 ..< n]" using inv by (auto simp: rx_inv_def)
  have c': "conn_wf {#} c'" "chan_kept k c c'" "rq_contents c' k = rest" "pool_store c' = pool_store c" "d = m"
      "recv_seq (chan_pool c' k) = recv_seq (chan_pool c k)" "reorder (chan_pool c' k) = reorder (chan_pool c k)"
    using read_head [OF wf mr buflen] rd by auto
  have "waits msgs (Suc n) n c' k" using n(1) c' by (simp add: waits_def ro_bytes_def buf_bytes_def)
  moreover have "(got @ [d]) @ rq_contents c' k = map msgs [0 ..< n]" using n(2) c' mr by simp
  ultimately show ?thesis using inv c' by (auto simp: rx_inv_def chan_kept_def same_table_def)
qed

lemma rel_step_inv:
  assumes "rel_step cid k k' g g'" "rel_inv cid k k' msgs g" "net_wrote g' = map msgs [0 ..< length (net_wrote g')]"
  shows "rel_inv cid k k' msgs g'"
  using assms
proof (cases rule: rel_step.cases)
  case (wrote data r c)
  let ?n = "length (net_wrote g)"
  have t: "tx_inv cid k msgs ?n (net_tx g)" using assms(2) by (simp add: rel_inv_def)
  have msg: "msgs ?n = data" if "0 \<le> r"
    using assms(3) wrote(1) that nth_map [of ?n "[0 ..< Suc ?n]" msgs] by (simp add: nth_append)
  have "conn_wf {#} (net_tx g)" "live_chan (net_tx g) k" "sends msgs ?n (net_tx g) k"
    using t tx_inv_live [OF t] by (auto simp: tx_inv_def)
  from write_sends [OF this wrote(3,4) wrote(2) msg]
  have w: "conn_wf {#} c" "same_table (net_tx g) c" "ch_id (chan_pool c k) = ch_id (chan_pool (net_tx g) k)"
      "ch_type (chan_pool c k) = ch_type (chan_pool (net_tx g) k)" "ch_role (chan_pool c k) = ch_role (chan_pool (net_tx g) k)"
      "if 0 \<le> r then length data \<le> NC_MAX_MSG \<and> sends msgs (Suc ?n) c k else sends msgs ?n c k" by auto
  have "tx_inv cid k msgs (length (net_wrote g')) c"
    using t w wrote(1,4) msg by (auto simp: tx_inv_def same_table_def max_frag_payload_def less_Suc_eq split: if_splits)
  then show ?thesis using assms(2) wrote(1) by (auto simp: rel_inv_def)
next
  case (sent j o1 now m buflen out f c i)
  have t: "tx_inv cid k msgs (length (net_wrote g)) (net_tx g)" using assms(2) by (simp add: rel_inv_def)
  have s: "conn_wf {#} (net_tx g)" "live_chan (net_tx g) k" "sends msgs (length (net_wrote g)) (net_tx g) k"
      "ch_type (chan_pool (net_tx g) k) = NETCHAN_RELIABLE" "ch_id (chan_pool (net_tx g) k) = cid"
      "\<forall>i<length (net_wrote g). length (msgs i) \<le> max_frag_payload (net_tx g)"
    using t tx_inv_live [OF t] by (auto simp: tx_inv_def)
  note f = fragment_sends [OF s(1-4) sent(2) sent(4) [unfolded sent(3)] sent(5) [unfolded sent(3)] s(6) sent(6) sent(7) [unfolded sent(3)]]
  show ?thesis using assms(2) f tx_inv_kept [OF t f(2)] sent(1) s(5) by (auto simp: rel_inv_def)
next
  case (timed e now r c)
  have t: "tx_inv cid k msgs (length (net_wrote g)) (net_tx g)" using assms(2) by (simp add: rel_inv_def)
  then have "conn_wf {#} c \<and> same_table (net_tx g) c" using netchan_service_ok [of "net_tx g" e now] timed(2) by (auto simp: tx_inv_def)
  then show ?thesis using assms(2) timed tx_inv_kept [OF t, of c] service_kept by (auto simp: rel_inv_def)
next
  case (acked a r c)
  have t: "tx_inv cid k msgs (length (net_wrote g)) (net_tx g)" using assms(2) by (simp add: rel_inv_def)
  then have "conn_wf {#} c \<and> same_table (net_tx g) c \<and> tx_kept k (net_tx g) c" using ack_keeps acked(2) by (auto simp: tx_inv_def)
  then show ?thesis using assms(2) acked(1) tx_inv_kept [OF t, of c] by (auto simp: rel_inv_def)
next
  case (arrived i f r c)
  have f: "i < length (net_wrote g)" "f = data_frame cid (of_nat i) 0 1 (msgs i)" "rx_inv cid k' msgs (net_got g) (net_rx g)"
      "length (msgs i) \<le> NC_MAX_MSG"
    using assms(2) arrived(2) by (auto simp: rel_inv_def tx_inv_def)
  have "rx_inv cid k' msgs (net_got g) c"
    using rx_inv_data [OF f(3,4) arrived(5) arrived(3,4) [unfolded taken_def]] arrived(6) f(2) by auto
  then show ?thesis using assms(2) arrived(1) by (auto simp: rel_inv_def)
next
  case (readout buflen r d c)
  have "rx_inv cid k' msgs (net_got g @ [d]) c"
    using assms(2) rx_inv_read [OF _ readout(2-4)] by (auto simp: rel_inv_def)
  then show ?thesis using assms(2) readout(1) by (auto simp: rel_inv_def)
qed

lemma rel_step_wrote:
  assumes "rel_step cid k k' g g'"
  shows "\<exists>ds. net_wrote g' = net_wrote g @ ds"
  using assms by (cases rule: rel_step.cases) auto

lemma rel_run_inv:
  assumes "(rel_step cid k k')\<^sup>*\<^sup>* g g'" "\<And>msgs. net_wrote g = map msgs [0 ..< length (net_wrote g)] \<Longrightarrow> rel_inv cid k k' msgs g"
    "net_wrote g' = map msgs [0 ..< length (net_wrote g')]"
  shows "rel_inv cid k k' msgs g'"
  using assms(1,3)
proof (induction rule: rtranclp_induct)
  case base
  then show ?case by (rule assms(2))
next
  case (step y z)
  obtain ds where ds: "net_wrote z = net_wrote y @ ds" using rel_step_wrote [OF step(2)] by blast
  have "net_wrote y = take (length (net_wrote y)) (map msgs [0 ..< length (net_wrote z)])" using step(4) ds by (metis append_eq_conv_conj)
  also have "\<dots> = map msgs [0 ..< length (net_wrote y)]" using ds by (simp add: take_map)
  finally have "rel_inv cid k k' msgs y" by (rule step(3))
  then show ?case using rel_step_inv [OF step(2) _ step(4)] by blast
qed

text \<open>A channel on which nothing has been sent yet, at either end.\<close>

definition fresh_tx :: "u8 \<Rightarrow> nat \<Rightarrow> netchan_conn \<Rightarrow> bool" where
  "fresh_tx cid k c \<longleftrightarrow> conn_wf {#} c \<and> channels c (unat cid) = Some k \<and> ch_id (chan_pool c k) = cid \<and> ch_role (chan_pool c k) = 0 \<and>
     ch_type (chan_pool c k) = NETCHAN_RELIABLE \<and> send_seq (chan_pool c k) = 0 \<and> out_tail (chan_pool c k) = 0 \<and>
     (\<forall>j<NC_OUTGOING_SLOTS. \<not> o_active (outgoing (chan_pool c k) j))"

definition fresh_rx :: "u8 \<Rightarrow> nat \<Rightarrow> netchan_conn \<Rightarrow> bool" where
  "fresh_rx cid k c \<longleftrightarrow> conn_wf {#} c \<and> channels c (unat cid) = Some k \<and> ch_role (chan_pool c k) = 1 \<and>
     ch_type (chan_pool c k) = NETCHAN_RELIABLE \<and> recv_seq (chan_pool c k) = 0 \<and> rq_contents c k = [] \<and>
     (\<forall>i<NC_REORDER_SLOTS. \<not> ro_valid (reorder (chan_pool c k) i))"

definition rel_start :: "netchan_conn \<Rightarrow> netchan_conn \<Rightarrow> rel_net" where
  "rel_start s r = \<lparr>net_tx = s, net_rx = r, net_air = [], net_wrote = [], net_got = []\<rparr>"

lemma opened_chan_inv: "fresh_tx cid k s \<Longrightarrow> fresh_rx cid k' r \<Longrightarrow> rel_inv cid k k' msgs (rel_start s r)"
  by (auto simp: rel_inv_def rel_start_def tx_inv_def rx_inv_def fresh_tx_def fresh_rx_def sends_def waits_def intro!: exI [of _ 0])


lemma demo_ends: "fresh_tx 0 0 ready_sender" "fresh_rx 0 0 opened" "rx_ready opened 0"
proof -
  show "fresh_rx 0 0 opened"
    using conn_wf_opened opened_facts opened_queue by (simp add: fresh_rx_def NETCHAN_RELIABLE_def)
  show "rx_ready opened 0" by (simp add: rx_ready_def opened_queue NC_RECV_QUEUE_def)
  have n: "next_chan_id (netchan_open False) = 0" by (simp add: netchan_open_def pool_init_def conn_zero_def)
  have f: "send_seq (chan_pool ready_sender 0) = 0" "ch_id (chan_pool ready_sender 0) = 0" "ch_type (chan_pool ready_sender 0) = NETCHAN_RELIABLE"
      "\<not> o_active (outgoing (chan_pool ready_sender 0) j)" "channels ready_sender 0 = Some 0" for j
    using fresh_find sender_facts(2)
    by (simp_all add: ready_sender_def sender_def netchan_chan_open_def Let_def n chan_new_def ctrl_channel_open_def chan_zero_def chan_reset_bufs_def
        outgoing_zero_def NETCHAN_RELIABLE_def)
  then show "fresh_tx 0 0 ready_sender" using ready_sender_facts by (simp add: fresh_tx_def)
qed


end
