(* ===== verification/NC_Udp.thy ===== *)
theory NC_Udp
  imports NC_Frames
begin

text \<open>
  The UDP packing of addresses (\<open>transport/nc_udp.c\<close>).  A socket address is a value of \<open>sockaddr\<close>:
  the two families the code reads with the fields of \<open>struct sockaddr_in\<close> and \<open>struct sockaddr_in6\<close>,
  in network byte order, and any other family.  The sizes are those of the Linux structures.
\<close>

section \<open>Model\<close>

definition NC_UDP_OK :: int where "NC_UDP_OK = 0"
definition NC_UDP_ERR :: int where "NC_UDP_ERR = -1"

datatype sockaddr =
    Sockaddr_in bytes bytes
  | Sockaddr_in6 bytes u32 bytes u32
  | Sockaddr_other u16

definition sizeof_sockaddr_in :: nat where "sizeof_sockaddr_in = 16"
definition sizeof_sockaddr_in6 :: nat where "sizeof_sockaddr_in6 = 28"

text \<open>\<open>Sockaddr_in port addr\<close> and \<open>Sockaddr_in6 port flowinfo addr scope_id\<close>: two port bytes, four
  or sixteen address bytes.\<close>

fun sockaddr_ok :: "sockaddr \<Rightarrow> bool" where
  "sockaddr_ok (Sockaddr_in port ip) \<longleftrightarrow> length port = 2 \<and> length ip = 4"
| "sockaddr_ok (Sockaddr_in6 port flow ip scope) \<longleftrightarrow> length port = 2 \<and> length ip = 16"
| "sockaddr_ok (Sockaddr_other f) \<longleftrightarrow> True"

text \<open>\<open>memcpy(a->a + off, src, n)\<close> into the address bytes.\<close>

definition addr_put :: "nc_addr \<Rightarrow> nat \<Rightarrow> bytes \<Rightarrow> nc_addr option" where
  "addr_put a off bs = (if off + length bs \<le> length (a_bytes a)
     then Some (a\<lparr>a_bytes := take off (a_bytes a) @ bs @ drop (off + length bs) (a_bytes a)\<rparr>) else None)"

definition nc_udp_from_sockaddr :: "sockaddr option \<Rightarrow> nat \<Rightarrow> (int \<times> nc_addr) option" where
  "nc_udp_from_sockaddr sa salen =
     (case sa of
        None \<Rightarrow> Some (NC_UDP_ERR, addr_zero)
      | Some (Sockaddr_in port ip) \<Rightarrow>
          if sizeof_sockaddr_in \<le> salen then do {
            a \<leftarrow> addr_put (addr_zero\<lparr>a_len := 7\<rparr>) 0 [4];
            a \<leftarrow> addr_put a 1 ip;
            a \<leftarrow> addr_put a 5 port;
            Some (NC_UDP_OK, a) }
          else Some (NC_UDP_ERR, addr_zero)
      | Some (Sockaddr_in6 port flow ip scope) \<Rightarrow>
          if sizeof_sockaddr_in6 \<le> salen then do {
            a \<leftarrow> addr_put (addr_zero\<lparr>a_len := 19\<rparr>) 0 [6];
            a \<leftarrow> addr_put a 1 ip;
            a \<leftarrow> addr_put a 17 port;
            Some (NC_UDP_OK, a) }
          else Some (NC_UDP_ERR, addr_zero)
      | Some (Sockaddr_other f) \<Rightarrow> Some (NC_UDP_ERR, addr_zero))"

text \<open>The length returned and the storage filled in, all zero when the length is 0.\<close>

definition nc_udp_to_sockaddr :: "nc_addr option \<Rightarrow> (nat \<times> sockaddr) option" where
  "nc_udp_to_sockaddr p =
     (case p of
        None \<Rightarrow> Some (0, Sockaddr_other 0)
      | Some a \<Rightarrow>
          if a_len a = 0 then Some (0, Sockaddr_other 0)
          else do {
            tag \<leftarrow> rd8 (a_bytes a) 0;
            if a_len a = 7 \<and> tag = 4 then do {
              ip \<leftarrow> rd_bytes (a_bytes a) 1 4;
              port \<leftarrow> rd_bytes (a_bytes a) 5 2;
              Some (sizeof_sockaddr_in, Sockaddr_in port ip) }
            else if a_len a = 19 \<and> tag = 6 then do {
              ip \<leftarrow> rd_bytes (a_bytes a) 1 16;
              port \<leftarrow> rd_bytes (a_bytes a) 17 2;
              Some (sizeof_sockaddr_in6, Sockaddr_in6 port 0 ip 0) }
            else Some (0, Sockaddr_other 0) })"

section \<open>Packing\<close>

text \<open>What a packed address keeps of a socket address.\<close>

fun packed :: "sockaddr \<Rightarrow> nc_addr" where
  "packed (Sockaddr_in port ip) = \<lparr>a_len = 7, a_bytes = [4] @ ip @ port @ replicate (NC_ADDR_MAX - 7) 0\<rparr>"
| "packed (Sockaddr_in6 port flow ip scope) = \<lparr>a_len = 19, a_bytes = [6] @ ip @ port @ replicate (NC_ADDR_MAX - 19) 0\<rparr>"
| "packed (Sockaddr_other f) = addr_zero"

fun unscoped :: "sockaddr \<Rightarrow> sockaddr" where
  "unscoped (Sockaddr_in6 port flow ip scope) = Sockaddr_in6 port 0 ip 0"
| "unscoped sa = sa"

fun sizeof_sockaddr :: "sockaddr \<Rightarrow> nat" where
  "sizeof_sockaddr (Sockaddr_in port ip) = sizeof_sockaddr_in"
| "sizeof_sockaddr (Sockaddr_in6 port flow ip scope) = sizeof_sockaddr_in6"
| "sizeof_sockaddr (Sockaddr_other f) = 0"

definition inet :: "sockaddr \<Rightarrow> bool" where
  "inet sa \<longleftrightarrow> sockaddr_ok sa \<and> (\<forall>f. sa \<noteq> Sockaddr_other f)"

lemma from_sockaddr:
  assumes "inet sa" "sizeof_sockaddr sa \<le> salen"
  shows "nc_udp_from_sockaddr (Some sa) salen = Some (NC_UDP_OK, packed sa)"
  using assms by (cases sa) (simp_all add: inet_def nc_udp_from_sockaddr_def addr_put_def addr_zero_def NC_ADDR_MAX_def)

lemma to_sockaddr:
  assumes "inet sa"
  shows "nc_udp_to_sockaddr (Some (packed sa)) = Some (sizeof_sockaddr sa, unscoped sa)"
  using assms by (cases sa) (simp_all add: inet_def nc_udp_to_sockaddr_def rd_bytes_def NC_ADDR_MAX_def)

text \<open>The redirect frame of a packed address.\<close>

definition redirect_frame :: "u32 \<Rightarrow> nc_addr \<Rightarrow> bytes" where
  "redirect_frame i a = NC_FRAME_CONNECT_REDIRECT # wr32 i @ take (unat (a_len a)) (a_bytes a)"

lemma rd32_at_1: "rd32 (x # wr32 i @ ys) (Suc 0) = Some i"
  using rd32_append [of "[x]" 1 i ys] by simp

lemma redirect_packed:
  assumes "inet sa"
  shows "\<exists>n. process_connect_redirect c (redirect_frame i (packed sa) @ rest) = Some (n, ev_push_redirect c (packed sa) i) \<and>
    n = int (length (redirect_frame i (packed sa)))"
  using assms
  by (cases sa) (simp_all add: inet_def redirect_frame_def process_connect_redirect_def rd32_at_1 [simplified] rd_bytes_def
    rd8_def nth_append NC_ADDR_MAX_def)

section \<open>Properties\<close>

text \<open>UDP address round trip.  An IPv4 or IPv6 socket address of full length is packed into at most
  19 bytes, and unpacking gives back family, address and port; of an IPv6 address the flow label and
  the scope id are lost.\<close>

theorem udp_round_trip:
  assumes "inet sa" "sizeof_sockaddr sa \<le> salen"
  shows "\<exists>a. nc_udp_from_sockaddr (Some sa) salen = Some (NC_UDP_OK, a) \<and> unat (a_len a) \<le> 19 \<and> length (a_bytes a) = NC_ADDR_MAX \<and>
    nc_udp_to_sockaddr (Some a) = Some (sizeof_sockaddr sa, unscoped sa)"
proof -
  have "unat (a_len (packed sa)) \<le> 19 \<and> length (a_bytes (packed sa)) = NC_ADDR_MAX"
    using assms(1) by (cases sa) (simp_all add: inet_def NC_ADDR_MAX_def)
  then show ?thesis using from_sockaddr [OF assms] to_sockaddr [OF assms(1)] by blast
qed

theorem udp_round_trip_witness:
  "\<exists>a. nc_udp_from_sockaddr (Some (Sockaddr_in [0x1f, 0x90] [127, 0, 0, 1])) 16 = Some (NC_UDP_OK, a) \<and>
    unat (a_len a) \<le> 19 \<and> length (a_bytes a) = NC_ADDR_MAX \<and>
    nc_udp_to_sockaddr (Some a) = Some (16, Sockaddr_in [0x1f, 0x90] [127, 0, 0, 1])"
  using udp_round_trip [of "Sockaddr_in [0x1f, 0x90] [127, 0, 0, 1]" 16] by (simp add: inet_def sizeof_sockaddr_in_def)

text \<open>The redirect frame and the UDP packing agree.  When the event queue is empty, a redirect frame
  that carries a packed address leaves one event, and the address in it unpacks to the socket address
  the frame was made from, with the connection id of the frame.\<close>

theorem redirect_reaches_address:
  assumes "inet sa" "ev_head c = ev_tail c" "ev_tail c < NC_EVENT_QUEUE"
  shows "\<exists>n c' ev c''. process_connect_redirect c (redirect_frame i (packed sa) @ rest) = Some (n, c') \<and>
    n = int (length (redirect_frame i (packed sa))) \<and>
    netchan_poll c' = Some (ev, c'') \<and> ev_type ev = NETCHAN_EV_REDIRECT \<and> redirect_conn_id ev = i \<and>
    nc_udp_to_sockaddr (Some (redirect_addr ev)) = Some (sizeof_sockaddr sa, unscoped sa) \<and> netchan_poll c'' = None"
proof -
  have ne: "Suc (ev_tail c) mod NC_EVENT_QUEUE \<noteq> ev_tail c"
    using assms(3) by (cases "Suc (ev_tail c) = NC_EVENT_QUEUE") (auto simp: NC_EVENT_QUEUE_def)
  have "netchan_poll (ev_push_redirect c (packed sa) i) =
      Some (event_zero\<lparr>ev_type := NETCHAN_EV_REDIRECT, redirect_addr := packed sa, redirect_conn_id := i\<rparr>,
            (ev_push_redirect c (packed sa) i)\<lparr>ev_head := Suc (ev_tail c) mod NC_EVENT_QUEUE\<rparr>)"
    using ne assms(2) by (simp add: netchan_poll_def ev_push_redirect_def ev_push_event_def Let_def)
  moreover have "netchan_poll ((ev_push_redirect c (packed sa) i)\<lparr>ev_head := Suc (ev_tail c) mod NC_EVENT_QUEUE\<rparr>) = None"
    using ne assms(2) by (simp add: netchan_poll_def ev_push_redirect_def ev_push_event_def Let_def)
  ultimately show ?thesis using redirect_packed [OF assms(1), of c i rest] to_sockaddr [OF assms(1)] by fastforce
qed

theorem redirect_reaches_address_witness:
  "\<exists>n c' ev c''. process_connect_redirect conn_zero (redirect_frame 9 (packed (Sockaddr_in [0x1f, 0x90] [10, 0, 0, 2]))) = Some (n, c') \<and>
    n = int (length (redirect_frame 9 (packed (Sockaddr_in [0x1f, 0x90] [10, 0, 0, 2])))) \<and>
    netchan_poll c' = Some (ev, c'') \<and> ev_type ev = NETCHAN_EV_REDIRECT \<and> redirect_conn_id ev = 9 \<and>
    nc_udp_to_sockaddr (Some (redirect_addr ev)) = Some (16, Sockaddr_in [0x1f, 0x90] [10, 0, 0, 2]) \<and> netchan_poll c'' = None"
  using redirect_reaches_address [of "Sockaddr_in [0x1f, 0x90] [10, 0, 0, 2]" conn_zero 9 "[]"]
  by (simp add: inet_def sizeof_sockaddr_in_def conn_zero_def NC_EVENT_QUEUE_def)

end
