(* ===== verification/MC_Core.thy ===== *)
theory MC_Core
  imports Ring_Queue
begin

text \<open>
  \<open>microchan\<close>, the small sibling of netchan (\<open>microchan/src/microchan.c\<close>): a handshake, one
  go-back-N window shared by all reliable channels, an unreliable queue that drops its oldest
  entry, and timers.  A connection is a record, a channel pointer the index of the channel, a
  message the list of its \<open>len\<close> bytes.  The connection argument is never NULL.  Sequence numbers
  are 16-bit words and wrap.  Reads of the datagram and writes to the caller's buffer are
  checked: outside them the result is \<open>None\<close>.
\<close>

section \<open>Constants and data\<close>

definition MC_MTU :: nat where "MC_MTU = 546"
definition MC_WINDOW :: nat where "MC_WINDOW = 8"
definition MC_MAX_CHAN :: nat where "MC_MAX_CHAN = 2"
definition MC_RECVQ :: nat where "MC_RECVQ = MC_WINDOW"
definition MC_UNREL_TXQ :: nat where "MC_UNREL_TXQ = 4"
definition MC_MAXMSG :: nat where "MC_MAXMSG = MC_MTU - 8 - 6"
definition MC_EVENTQ :: nat where "MC_EVENTQ = 8"
definition MC_HDR :: nat where "MC_HDR = 8"
definition MC_REC :: nat where "MC_REC = 6"

definition PKT_SYN :: u8 where "PKT_SYN = 1"
definition PKT_SYNACK :: u8 where "PKT_SYNACK = 2"
definition PKT_ACK :: u8 where "PKT_ACK = 3"
definition PKT_DATA :: u8 where "PKT_DATA = 4"
definition PKT_FIN :: u8 where "PKT_FIN = 5"
definition MT_UNREL :: u8 where "MT_UNREL = 0"
definition MT_REL :: u8 where "MT_REL = 1"
definition MC_RELIABLE :: u8 where "MC_RELIABLE = 0"
definition MC_UNRELIABLE :: u8 where "MC_UNRELIABLE = 1"

lemmas pkt_type_defs = PKT_SYN_def PKT_SYNACK_def PKT_ACK_def PKT_DATA_def PKT_FIN_def

definition RT_MS :: u32 where "RT_MS = 120"
definition RT_MAX_MS :: u32 where "RT_MAX_MS = 1000"
definition RT_ATTEMPTS :: u16 where "RT_ATTEMPTS = 12"
definition CONNECT_RETRY_MS :: u32 where "CONNECT_RETRY_MS = 250"
definition CONNECT_RETRIES :: u16 where "CONNECT_RETRIES = 240"
definition KEEPALIVE_MS :: u32 where "KEEPALIVE_MS = 1000"
definition IDLE_MS :: u32 where "IDLE_MS = 10000"

definition MC_OK :: int where "MC_OK = 0"
definition MC_ERR :: int where "MC_ERR = -1"
definition MC_ERR_AGAIN :: int where "MC_ERR_AGAIN = -3"
definition MC_ERR_CLOSED :: int where "MC_ERR_CLOSED = -4"
definition MC_ERR_TOOBIG :: int where "MC_ERR_TOOBIG = -5"
definition MC_ERR_PROTO :: int where "MC_ERR_PROTO = -6"

datatype mc_state_t = MC_STATE_CLOSED | MC_STATE_CONNECTING | MC_STATE_CONNECTED | MC_STATE_CLOSING

datatype mc_ev_type = MC_EV_NONE | MC_EV_CONNECTED | MC_EV_DISCONNECTED | MC_EV_DATA | MC_EV_REDIRECT

record mc_addr =
  ma_len :: u8
  ma_bytes :: bytes

definition mc_addr_zero :: mc_addr where
  "mc_addr_zero = \<lparr>ma_len = 0, ma_bytes = replicate 12 0\<rparr>"

record mc_event =
  me_type :: mc_ev_type
  me_ch :: "nat option"
  me_addr :: mc_addr
  me_id :: u32

definition mc_event_zero :: mc_event where
  "mc_event_zero = \<lparr>me_type = MC_EV_NONE, me_ch = None, me_addr = mc_addr_zero, me_id = 0\<rparr>"

record mc_chan =
  mc_used :: bool
  mc_type :: u8
  mc_cid :: u8
  rxq :: "nat \<Rightarrow> bytes"
  rx_head :: nat
  rx_count :: nat

definition mc_chan_zero :: mc_chan where
  "mc_chan_zero = \<lparr>mc_used = False, mc_type = 0, mc_cid = 0, rxq = (\<lambda>_. []), rx_head = 0, rx_count = 0\<rparr>"

record tx_slot =
  ts_seq :: u16
  ts_chan :: u8
  ts_data :: bytes

definition tx_zero :: tx_slot where
  "tx_zero = \<lparr>ts_seq = 0, ts_chan = 0, ts_data = []\<rparr>"

record microchan =
  m_server :: bool
  m_state :: mc_state_t
  m_local_id :: u32
  m_remote_id :: u32
  m_peer :: mc_addr
  m_now :: u32
  m_last_recv :: u32
  m_last_send :: u32
  send_syn :: bool
  send_synack :: bool
  send_ack :: bool
  connect_timer :: u32
  m_attempts :: u16
  txw :: "nat \<Rightarrow> tx_slot"
  tx_base :: u16
  tx_next :: u16
  tx_unsent :: u16
  tx_timer :: u32
  tx_attempts :: u16
  rx_next :: u16
  ack_pending :: bool
  txu :: "nat \<Rightarrow> bytes"
  txu_chan :: "nat \<Rightarrow> u8"
  txu_head :: nat
  txu_count :: nat
  m_chan :: "nat \<Rightarrow> mc_chan"
  m_evq :: "nat \<Rightarrow> mc_event"
  m_ev_head :: nat
  m_ev_count :: nat

definition microchan_zero :: microchan where
  "microchan_zero = \<lparr>m_server = False, m_state = MC_STATE_CLOSED, m_local_id = 0, m_remote_id = 0,
     m_peer = mc_addr_zero, m_now = 0, m_last_recv = 0, m_last_send = 0, send_syn = False,
     send_synack = False, send_ack = False, connect_timer = 0, m_attempts = 0, txw = (\<lambda>_. tx_zero),
     tx_base = 0, tx_next = 0, tx_unsent = 0, tx_timer = 0, tx_attempts = 0, rx_next = 0,
     ack_pending = False, txu = (\<lambda>_. []), txu_chan = (\<lambda>_. 0), txu_head = 0, txu_count = 0,
     m_chan = (\<lambda>_. mc_chan_zero), m_evq = (\<lambda>_. mc_event_zero), m_ev_head = 0, m_ev_count = 0\<rparr>"

definition upd_mchan :: "microchan \<Rightarrow> nat \<Rightarrow> (mc_chan \<Rightarrow> mc_chan) \<Rightarrow> microchan" where
  "upd_mchan c i f = c\<lparr>m_chan := (m_chan c)(i := f (m_chan c i))\<rparr>"

text \<open>\<open>(int16_t)(uint16_t)(a - b) > 0\<close>\<close>

definition seq_after :: "u16 \<Rightarrow> u16 \<Rightarrow> bool" where
  "seq_after a b \<longleftrightarrow> 0 < sint (a - b)"

section \<open>Events\<close>

definition mc_ev_add :: "microchan \<Rightarrow> mc_event \<Rightarrow> microchan" where
  "mc_ev_add c e =
     (if MC_EVENTQ \<le> m_ev_count c then c
      else c\<lparr>m_evq := (m_evq c)((m_ev_head c + m_ev_count c) mod MC_EVENTQ := e),
             m_ev_count := m_ev_count c + 1\<rparr>)"

definition mc_ev_push :: "microchan \<Rightarrow> mc_ev_type \<Rightarrow> nat option \<Rightarrow> microchan" where
  "mc_ev_push c type ch = mc_ev_add c (mc_event_zero\<lparr>me_type := type, me_ch := ch\<rparr>)"

definition mc_poll :: "microchan \<Rightarrow> (mc_event \<times> microchan) option" where
  "mc_poll c =
     (if m_ev_count c = 0 then None
      else Some (m_evq c (m_ev_head c),
                 c\<lparr>m_ev_head := Suc (m_ev_head c) mod MC_EVENTQ, m_ev_count := m_ev_count c - 1\<rparr>))"

section \<open>Lifecycle\<close>

text \<open>\<open>gen_id\<close> with the two values of \<open>rand()\<close>.\<close>

definition gen_id :: "u32 \<Rightarrow> u32 \<Rightarrow> u32" where
  "gen_id r1 r2 = (let i = r1 XOR push_bit 16 r2 in if i \<noteq> 0 then i else 1)"

definition mc_open :: "u32 \<Rightarrow> u32 \<Rightarrow> bool \<Rightarrow> microchan" where
  "mc_open r1 r2 server = microchan_zero\<lparr>m_server := server, m_state := MC_STATE_CLOSED, m_local_id := gen_id r1 r2\<rparr>"

definition mc_connect :: "microchan \<Rightarrow> mc_addr option \<Rightarrow> int \<times> microchan" where
  "mc_connect c addr =
     (case addr of None \<Rightarrow> (MC_ERR, c)
      | Some a \<Rightarrow> (MC_OK, c\<lparr>m_peer := a, m_state := MC_STATE_CONNECTING, send_syn := True,
                     connect_timer := m_now c + CONNECT_RETRY_MS, m_attempts := 0\<rparr>))"

definition mc_peek_id :: "bytes \<Rightarrow> u32 option" where
  "mc_peek_id p = (if length p < MC_HDR then Some 0 else rd32 p 0)"

section \<open>Channels\<close>

definition mc_chan_open :: "microchan \<Rightarrow> u8 \<Rightarrow> nat option \<times> microchan" where
  "mc_chan_open c type =
     (case find (\<lambda>i. \<not> mc_used (m_chan c i)) [0 ..< MC_MAX_CHAN] of
        None \<Rightarrow> (None, c)
      | Some i \<Rightarrow> (Some i, upd_mchan c i (\<lambda>_. mc_chan_zero\<lparr>mc_used := True, mc_type := type, mc_cid := of_nat i\<rparr>)))"

definition mc_chan_close :: "microchan \<Rightarrow> nat option \<Rightarrow> microchan" where
  "mc_chan_close c p = (case p of None \<Rightarrow> c | Some i \<Rightarrow> upd_mchan c i (\<lambda>ch. ch\<lparr>mc_used := False\<rparr>))"

definition mc_chan_id :: "microchan \<Rightarrow> nat option \<Rightarrow> int" where
  "mc_chan_id c p = (case p of None \<Rightarrow> -1 | Some i \<Rightarrow> uint (mc_cid (m_chan c i)))"

definition rxq_push :: "mc_chan \<Rightarrow> bytes \<Rightarrow> mc_chan" where
  "rxq_push ch data =
     (if MC_RECVQ \<le> rx_count ch then ch
      else ch\<lparr>rxq := (rxq ch)((rx_head ch + rx_count ch) mod MC_RECVQ := take MC_MAXMSG data),
              rx_count := rx_count ch + 1\<rparr>)"

definition rxq_full :: "mc_chan \<Rightarrow> bool" where
  "rxq_full ch \<longleftrightarrow> MC_RECVQ \<le> rx_count ch"

text \<open>The return value, the bytes copied to the caller's buffer of \<open>buflen\<close> bytes, and the new
  connection.\<close>

definition mc_read :: "microchan \<Rightarrow> nat option \<Rightarrow> nat \<Rightarrow> int \<times> bytes \<times> microchan" where
  "mc_read c p buflen =
     (case p of None \<Rightarrow> (0, [], c)
      | Some i \<Rightarrow>
        (let ch = m_chan c i; m = rxq ch (rx_head ch) in
         if rx_count ch = 0 then (0, [], c)
         else if buflen < length m then (MC_ERR_TOOBIG, [], c)
         else (int (length m), m, upd_mchan c i (\<lambda>ch. ch\<lparr>rx_head := Suc (rx_head ch) mod MC_RECVQ,
                 rx_count := rx_count ch - 1\<rparr>))))"

definition mc_write :: "microchan \<Rightarrow> nat option \<Rightarrow> bytes \<Rightarrow> int \<times> microchan" where
  "mc_write c p data =
     (case p of None \<Rightarrow> (MC_ERR, c)
      | Some i \<Rightarrow>
        (let ch = m_chan c i in
         if \<not> mc_used ch then (MC_ERR, c)
         else if m_state c \<noteq> MC_STATE_CONNECTED then (MC_ERR_CLOSED, c)
         else if MC_MAXMSG < length data then (MC_ERR_TOOBIG, c)
         else if mc_type ch = MC_RELIABLE then
           if MC_WINDOW \<le> unat (tx_next c - tx_base c) then (MC_ERR_AGAIN, c)
           else (int (length data), c\<lparr>
             txw := (txw c)(unat (tx_next c) mod MC_WINDOW :=
               \<lparr>ts_seq = tx_next c, ts_chan = mc_cid ch, ts_data = data\<rparr>),
             tx_next := tx_next c + 1\<rparr>)
         else
           let (h, n) = (if MC_UNREL_TXQ \<le> txu_count c
                         then (Suc (txu_head c) mod MC_UNREL_TXQ, txu_count c - 1)
                         else (txu_head c, txu_count c));
               k = (h + n) mod MC_UNREL_TXQ in
           (int (length data), c\<lparr>txu := (txu c)(k := data), txu_chan := (txu_chan c)(k := mc_cid ch),
              txu_head := h, txu_count := n + 1\<rparr>)))"

section \<open>Receiving\<close>

definition chan_by_id :: "microchan \<Rightarrow> u8 \<Rightarrow> nat option" where
  "chan_by_id c cid = (if unat cid < MC_MAX_CHAN \<and> mc_used (m_chan c (unat cid)) then Some (unat cid) else None)"

text \<open>\<open>while (tx_base != tx_next && seq_after(ack, tx_base)) tx_base++\<close>; the distance to \<open>tx_next\<close>
  shrinks.\<close>

function ack_base :: "u16 \<Rightarrow> u16 \<Rightarrow> u16 \<Rightarrow> u16" where
  "ack_base ack base nxt = (if base \<noteq> nxt \<and> seq_after ack base then ack_base ack (base + 1) nxt else base)"
  by pat_completeness auto
termination
  by (relation "measure (\<lambda>(ack, base, nxt). unat (nxt - base))") (auto simp: word_dist_Suc)

declare ack_base.simps [simp del]

definition mc_process_ack :: "microchan \<Rightarrow> u16 \<Rightarrow> microchan" where
  "mc_process_ack c ack =
     (let b = ack_base ack (tx_base c) (tx_next c);
          progressed = (b \<noteq> tx_base c);
          c1 = c\<lparr>tx_base := b, tx_unsent := (if seq_after b (tx_unsent c) then b else tx_unsent c)\<rparr> in
      if progressed
      then c1\<lparr>tx_attempts := 0, tx_timer := (if b = tx_next c then 0 else m_now c + RT_MS)\<rparr>
      else c1)"

definition mc_deliver :: "microchan \<Rightarrow> u8 \<Rightarrow> u8 \<Rightarrow> u16 \<Rightarrow> bytes \<Rightarrow> microchan" where
  "mc_deliver c chan mt seq data =
     (let ch = chan_by_id c chan in
      if mt = MT_REL then
        if seq = rx_next c then
          (case ch of
             None \<Rightarrow> c\<lparr>rx_next := rx_next c + 1, ack_pending := True\<rparr>
           | Some i \<Rightarrow>
               if rxq_full (m_chan c i) then c\<lparr>ack_pending := True\<rparr>
               else (mc_ev_push (upd_mchan c i (\<lambda>ch. rxq_push ch data)) MC_EV_DATA (Some i))
                      \<lparr>rx_next := rx_next c + 1, ack_pending := True\<rparr>)
        else c\<lparr>ack_pending := True\<rparr>
      else
        (case ch of
           None \<Rightarrow> c
         | Some i \<Rightarrow> mc_ev_push (upd_mchan c i (\<lambda>ch. rxq_push ch data)) MC_EV_DATA (Some i)))"

text \<open>The record loop of a DATA packet; \<open>q\<close> is what is left of it.\<close>

function mc_records :: "microchan \<Rightarrow> bytes \<Rightarrow> microchan option" where
  "mc_records c q =
     (if MC_REC \<le> length q then do {
        chan \<leftarrow> rd8 q 0;
        mt \<leftarrow> rd8 q 1;
        seq \<leftarrow> rd16 q 2;
        dlen \<leftarrow> rd16 q 4;
        let rest = drop MC_REC q in
        if length rest < unat dlen then Some c
        else mc_records (mc_deliver c chan mt seq (take (unat dlen) rest)) (drop (unat dlen) rest) }
      else Some c)"
  by pat_completeness auto
termination
  by (relation "measure (\<lambda>(c, q). length q)") (auto simp: MC_REC_def)

declare mc_records.simps [simp del]

definition mc_feed :: "microchan \<Rightarrow> bytes \<Rightarrow> mc_addr option \<Rightarrow> (int \<times> microchan) option" where
  "mc_feed c p from =
     (if length p < MC_HDR then Some (MC_ERR_PROTO, c)
      else do {
        conn_id \<leftarrow> rd32 p 0;
        ptype \<leftarrow> rd8 p 4;
        ack \<leftarrow> rd16 p 6;
        let c = c\<lparr>m_last_recv := m_now c\<rparr> in
        if ptype = PKT_SYN then
          if \<not> m_server c then Some (MC_ERR_PROTO, c)
          else if length p < MC_HDR + 4 then Some (MC_ERR_PROTO, c)
          else do {
            rid \<leftarrow> rd32 p MC_HDR;
            let c1 = (if m_state c = MC_STATE_CLOSED
                      then c\<lparr>m_peer := (case from of Some a \<Rightarrow> a | None \<Rightarrow> m_peer c), m_remote_id := rid,
                             m_state := MC_STATE_CONNECTING, connect_timer := m_now c + CONNECT_RETRY_MS,
                             m_attempts := 0\<rparr>
                      else c);
                c2 = (if m_state c1 = MC_STATE_CONNECTING then c1\<lparr>send_synack := True\<rparr> else c1) in
            Some (MC_OK, c2) }
        else if ptype = PKT_SYNACK then
          if m_server c \<or> conn_id \<noteq> m_local_id c then Some (MC_ERR_PROTO, c)
          else if length p < MC_HDR + 4 then Some (MC_ERR_PROTO, c)
          else do {
            rid \<leftarrow> rd32 p MC_HDR;
            let c1 = c\<lparr>m_peer := (case from of Some a \<Rightarrow> a | None \<Rightarrow> m_peer c), m_remote_id := rid\<rparr>;
                c2 = (if m_state c1 = MC_STATE_CONNECTING
                      then mc_ev_push (c1\<lparr>m_state := MC_STATE_CONNECTED\<rparr>) MC_EV_CONNECTED None else c1) in
            Some (MC_OK, c2\<lparr>send_ack := True\<rparr>) }
        else if ptype = PKT_ACK then
          if \<not> m_server c \<or> conn_id \<noteq> m_local_id c then Some (MC_ERR_PROTO, c)
          else Some (MC_OK, if m_state c = MC_STATE_CONNECTING
                            then mc_ev_push (c\<lparr>m_state := MC_STATE_CONNECTED\<rparr>) MC_EV_CONNECTED None else c)
        else if ptype = PKT_DATA then
          if conn_id \<noteq> m_local_id c then Some (MC_ERR_PROTO, c)
          else
            let c1 = (if m_server c \<and> m_state c = MC_STATE_CONNECTING
                      then mc_ev_push (c\<lparr>m_state := MC_STATE_CONNECTED\<rparr>) MC_EV_CONNECTED None else c) in
            if m_state c1 \<noteq> MC_STATE_CONNECTED then Some (MC_OK, c1)
            else do {
              c2 \<leftarrow> mc_records (mc_process_ack c1 ack) (drop MC_HDR p);
              Some (MC_OK, c2) }
        else if ptype = PKT_FIN then
          if conn_id \<noteq> m_local_id c then Some (MC_ERR_PROTO, c)
          else Some (MC_OK, if m_state c \<noteq> MC_STATE_CLOSED
                            then mc_ev_push (c\<lparr>m_state := MC_STATE_CLOSED\<rparr>) MC_EV_DISCONNECTED None else c)
        else Some (MC_ERR_PROTO, c) })"

section \<open>Sending\<close>

definition mc_rec :: "u8 \<Rightarrow> u8 \<Rightarrow> u16 \<Rightarrow> bytes \<Rightarrow> bytes" where
  "mc_rec chan mt seq data = [chan, mt] @ wr16 seq @ wr16 (of_nat (length data)) @ data"

text \<open>The reliable records not yet on the wire, as many as fit; \<open>out\<close> is the packet so far, its
  header included.\<close>

function tx_records :: "microchan \<Rightarrow> nat \<Rightarrow> nat \<Rightarrow> bytes \<Rightarrow> (bytes \<times> microchan) option" where
  "tx_records c cap buflen out =
     (if tx_unsent c \<noteq> tx_next c then
        let s = txw c (unat (tx_unsent c) mod MC_WINDOW) in
        if cap < length out + MC_REC + length (ts_data s) then Some (out, c)
        else do {
          out1 \<leftarrow> emit buflen out (mc_rec (ts_chan s) MT_REL (ts_seq s) (ts_data s));
          tx_records (c\<lparr>tx_unsent := tx_unsent c + 1\<rparr>) cap buflen out1 }
      else Some (out, c))"
  by pat_completeness auto
termination
  by (relation "measure (\<lambda>(c, cap, buflen, out). unat (tx_next c - tx_unsent c))") (auto simp: word_dist_Suc)

declare tx_records.simps [simp del]

fun txu_records :: "nat \<Rightarrow> microchan \<Rightarrow> nat \<Rightarrow> nat \<Rightarrow> bytes \<Rightarrow> (bytes \<times> microchan) option" where
  "txu_records 0 c cap buflen out = Some (out, c)"
| "txu_records (Suc n) c cap buflen out =
     (let m = txu c (txu_head c) in
      if cap < length out + MC_REC + length m then Some (out, c)
      else do {
        out1 \<leftarrow> emit buflen out (mc_rec (txu_chan c (txu_head c)) MT_UNREL 0 m);
        txu_records n (c\<lparr>txu_head := Suc (txu_head c) mod MC_UNREL_TXQ, txu_count := n\<rparr>) cap buflen out1 })"

definition mc_header :: "u32 \<Rightarrow> u8 \<Rightarrow> u16 \<Rightarrow> bytes" where
  "mc_header cid ptype ack = wr32 cid @ [ptype, 0] @ wr16 ack"

text \<open>The datagram (empty for the return value 0), its destination and the new connection.  The
  header of a DATA packet is written last in the source, over bytes reserved for it.\<close>

definition mc_send_next :: "microchan \<Rightarrow> nat \<Rightarrow> (bytes \<times> mc_addr option \<times> microchan) option" where
  "mc_send_next c buflen =
     (if buflen < MC_HDR then Some ([], None, c)
      else
        let cap = (if buflen < MC_MTU then buflen else MC_MTU) in
        if send_synack c then do {
          out \<leftarrow> emit buflen [] (mc_header (m_remote_id c) PKT_SYNACK 0 @ wr32 (m_local_id c));
          Some (out, Some (m_peer c), c\<lparr>send_synack := False, m_last_send := m_now c\<rparr>) }
        else if send_ack c then do {
          out \<leftarrow> emit buflen [] (mc_header (m_remote_id c) PKT_ACK 0);
          Some (out, Some (m_peer c), c\<lparr>send_ack := False, m_last_send := m_now c\<rparr>) }
        else if send_syn c then do {
          out \<leftarrow> emit buflen [] (mc_header 0 PKT_SYN 0 @ wr32 (m_local_id c));
          Some (out, Some (m_peer c), c\<lparr>send_syn := False, m_last_send := m_now c\<rparr>) }
        else if m_state c \<noteq> MC_STATE_CONNECTED then Some ([], None, c)
        else if tx_unsent c = tx_next c \<and> txu_count c = 0 \<and> \<not> ack_pending c then Some ([], None, c)
        else do {
          (out1, c1) \<leftarrow> tx_records c cap buflen (mc_header (m_remote_id c) PKT_DATA (rx_next c));
          let c2 = (if tx_base c1 \<noteq> tx_next c1 \<and> tx_timer c1 = 0 then c1\<lparr>tx_timer := m_now c1 + RT_MS\<rparr> else c1);
          (out3, c3) \<leftarrow> txu_records (txu_count c2) c2 cap buflen out1;
          Some (out3, Some (m_peer c), c3\<lparr>ack_pending := False, m_last_send := m_now c\<rparr>) })"

section \<open>Timers\<close>

definition rt_backoff :: "u16 \<Rightarrow> u32" where
  "rt_backoff attempts =
     (let b = push_bit (if attempts < 4 then unat attempts else 3) RT_MS in if RT_MAX_MS < b then RT_MAX_MS else b)"

definition mc_service :: "microchan \<Rightarrow> u32 \<Rightarrow> int \<times> microchan" where
  "mc_service c0 now_ms =
     (let c = c0\<lparr>m_now := now_ms\<rparr> in
      if m_state c = MC_STATE_CONNECTING then
        if connect_timer c \<le> now_ms then
          let c1 = c\<lparr>m_attempts := m_attempts c + 1\<rparr> in
          if CONNECT_RETRIES < m_attempts c1
          then (MC_ERR, mc_ev_push (c1\<lparr>m_state := MC_STATE_CLOSED\<rparr>) MC_EV_DISCONNECTED None)
          else (sint CONNECT_RETRY_MS,
                (if m_server c1 then c1\<lparr>send_synack := True\<rparr> else c1\<lparr>send_syn := True\<rparr>)
                  \<lparr>connect_timer := now_ms + CONNECT_RETRY_MS\<rparr>)
        else (sint CONNECT_RETRY_MS, c)
      else if m_state c = MC_STATE_CONNECTED then
        if IDLE_MS < now_ms - m_last_recv c
        then (MC_ERR, mc_ev_push (c\<lparr>m_state := MC_STATE_CLOSED\<rparr>) MC_EV_DISCONNECTED None)
        else
          let due = (tx_base c \<noteq> tx_next c \<and> tx_timer c \<noteq> 0 \<and> tx_timer c \<le> now_ms);
              c1 = (if due then c\<lparr>tx_attempts := tx_attempts c + 1\<rparr> else c) in
          if due \<and> RT_ATTEMPTS < tx_attempts c1
          then (MC_ERR, mc_ev_push (c1\<lparr>m_state := MC_STATE_CLOSED\<rparr>) MC_EV_DISCONNECTED None)
          else
            let c2 = (if due then c1\<lparr>tx_unsent := tx_base c1, tx_timer := now_ms + rt_backoff (tx_attempts c1)\<rparr> else c1) in
            (sint RT_MS, if KEEPALIVE_MS < now_ms - m_last_send c2 then c2\<lparr>ack_pending := True\<rparr> else c2)
      else (MC_ERR, c))"

end
