(* ===== verification/MC_Safe.thy ===== *)
theory MC_Safe
  imports MC_Core
begin

text \<open>
  Safety of microchan.  The invariant bounds every ring and the go-back-N window; every
  operation keeps it and stays inside its buffers, for any datagram, as long as the caller's
  transmit buffer holds the longest control packet.  The event queue and the receive rings meet the
  \<open>bounded_fifo\<close> contract.
\<close>

section \<open>Queues\<close>

definition mc_events :: "microchan \<Rightarrow> mc_event list" where
  "mc_events c = cring_list MC_EVENTQ (m_evq c) (m_ev_head c) (m_ev_count c)"

definition mc_events_ok :: "microchan \<Rightarrow> bool" where
  "mc_events_ok c \<longleftrightarrow> m_ev_head c < MC_EVENTQ \<and> m_ev_count c \<le> MC_EVENTQ"

interpretation mcevq: bounded_fifo mc_ev_add mc_poll mc_events mc_events_ok MC_EVENTQ
proof
  fix q x assume "mc_events_ok q"
  then show "mc_events (mc_ev_add q x) = (if length (mc_events q) < MC_EVENTQ then mc_events q @ [x] else mc_events q)"
    by (simp add: mc_events_def mc_ev_add_def mc_events_ok_def cring_push)
next
  fix q assume "mc_events_ok q" "mc_events q = []"
  then show "mc_poll q = None" by (simp add: mc_events_def mc_poll_def cring_list_def)
next
  fix q x xs assume q: "mc_events_ok q" "mc_events q = x # xs"
  then have "length (mc_events q) = Suc (length xs)" by simp
  then have "0 < m_ev_count q" by (simp add: mc_events_def)
  with q cring_pop [of "m_ev_count q" MC_EVENTQ "m_evq q" "m_ev_head q"]
  show "\<exists>q'. mc_poll q = Some (x, q') \<and> mc_events q' = xs \<and> mc_events_ok q'"
    by (auto simp: mc_events_def mc_poll_def mc_events_ok_def MC_EVENTQ_def)
qed (auto simp: mc_ev_add_def mc_events_ok_def MC_EVENTQ_def)

text \<open>The messages waiting on a channel.\<close>

definition rx_msgs :: "mc_chan \<Rightarrow> bytes list" where
  "rx_msgs ch = cring_list MC_RECVQ (rxq ch) (rx_head ch) (rx_count ch)"

definition rx_wf :: "mc_chan \<Rightarrow> bool" where
  "rx_wf ch \<longleftrightarrow> rx_head ch < MC_RECVQ \<and> rx_count ch \<le> MC_RECVQ \<and> (\<forall>i. length (rxq ch i) \<le> MC_MAXMSG)"

lemma rx_push_msgs: "rx_wf ch \<Longrightarrow> \<not> rxq_full ch \<Longrightarrow> length d \<le> MC_MAXMSG \<Longrightarrow> rx_msgs (rxq_push ch d) = rx_msgs ch @ [d]"
  by (simp add: rx_msgs_def rxq_push_def rxq_full_def cring_push rx_wf_def)

lemma rx_push_wf: "rx_wf ch \<Longrightarrow> rx_wf (rxq_push ch d)"
  by (auto simp: rx_wf_def rxq_push_def)

section \<open>The invariant\<close>

definition mc_wf :: "microchan \<Rightarrow> bool" where
  "mc_wf c \<longleftrightarrow> (\<forall>i. rx_wf (m_chan c i)) \<and> mc_events_ok c \<and>
     txu_head c < MC_UNREL_TXQ \<and> txu_count c \<le> MC_UNREL_TXQ \<and> (\<forall>i. length (txu c i) \<le> MC_MAXMSG) \<and>
     unat (tx_next c - tx_base c) \<le> MC_WINDOW \<and> unat (tx_unsent c - tx_base c) \<le> unat (tx_next c - tx_base c) \<and>
     (\<forall>i. length (ts_data (txw c i)) \<le> MC_MAXMSG) \<and>
     (\<forall>i<unat (tx_next c - tx_base c). ts_seq (txw c ((unat (tx_base c) + i) mod MC_WINDOW)) = tx_base c + of_nat i)"

lemma mc_ev_push_fields [simp]:
  "m_chan (mc_ev_push c t p) = m_chan c" "txu (mc_ev_push c t p) = txu c" "txu_head (mc_ev_push c t p) = txu_head c"
  "txu_count (mc_ev_push c t p) = txu_count c" "tx_next (mc_ev_push c t p) = tx_next c" "tx_base (mc_ev_push c t p) = tx_base c"
  "tx_unsent (mc_ev_push c t p) = tx_unsent c" "txw (mc_ev_push c t p) = txw c" "rx_next (mc_ev_push c t p) = rx_next c"
  "m_state (mc_ev_push c t p) = m_state c" "m_server (mc_ev_push c t p) = m_server c" "m_local_id (mc_ev_push c t p) = m_local_id c"
  "m_remote_id (mc_ev_push c t p) = m_remote_id c" "m_peer (mc_ev_push c t p) = m_peer c" "send_syn (mc_ev_push c t p) = send_syn c"
  "send_synack (mc_ev_push c t p) = send_synack c" "send_ack (mc_ev_push c t p) = send_ack c" "m_now (mc_ev_push c t p) = m_now c"
  by (simp_all add: mc_ev_push_def mc_ev_add_def)

lemma mc_ev_push_ok [simp]: "mc_events_ok c \<Longrightarrow> mc_events_ok (mc_ev_push c t p)"
  unfolding mc_ev_push_def by (rule mcevq.invar_push)

text \<open>Fields the invariant does not read.\<close>

lemma mc_wf_frame:
  "mc_wf c \<Longrightarrow> m_chan c' = m_chan c \<Longrightarrow> mc_events_ok c' \<Longrightarrow> txu_head c' = txu_head c \<Longrightarrow> txu_count c' = txu_count c \<Longrightarrow>
   txu c' = txu c \<Longrightarrow> tx_next c' = tx_next c \<Longrightarrow> tx_base c' = tx_base c \<Longrightarrow> tx_unsent c' = tx_unsent c \<Longrightarrow> txw c' = txw c \<Longrightarrow> mc_wf c'"
  by (simp add: mc_wf_def)

lemma mc_wf_events: "mc_wf c \<Longrightarrow> mc_events_ok c"
  by (simp add: mc_wf_def)

lemma mc_wf_push [simp]: "mc_wf c \<Longrightarrow> mc_wf (mc_ev_push c t p)"
  by (rule mc_wf_frame) (simp_all add: mc_wf_def)

lemma mc_wf_fields [simp]:
  assumes "mc_wf c"
  shows "mc_wf (c\<lparr>m_last_recv := t\<rparr>)" "mc_wf (c\<lparr>m_state := s\<rparr>)" "mc_wf (c\<lparr>send_ack := b\<rparr>)" "mc_wf (c\<lparr>send_syn := b\<rparr>)"
    "mc_wf (c\<lparr>send_synack := b\<rparr>)" "mc_wf (c\<lparr>m_peer := a\<rparr>)" "mc_wf (c\<lparr>m_remote_id := r\<rparr>)" "mc_wf (c\<lparr>connect_timer := t\<rparr>)"
    "mc_wf (c\<lparr>m_attempts := n\<rparr>)" "mc_wf (c\<lparr>ack_pending := b\<rparr>)" "mc_wf (c\<lparr>rx_next := n\<rparr>)" "mc_wf (c\<lparr>m_last_send := t\<rparr>)"
    "mc_wf (c\<lparr>m_now := t\<rparr>)" "mc_wf (c\<lparr>tx_timer := t\<rparr>)" "mc_wf (c\<lparr>tx_attempts := n\<rparr>)"
  by (rule mc_wf_frame [OF assms]; use assms in \<open>simp add: mc_wf_def mc_events_ok_def\<close>)+

lemma mc_wf_chan: "mc_wf c \<Longrightarrow> rx_wf (f (m_chan c i)) \<Longrightarrow> mc_wf (upd_mchan c i f)"
  by (auto simp: mc_wf_def upd_mchan_def mc_events_ok_def)

section \<open>The window\<close>

lemma sint_pos_iff:
  fixes w :: u16
  shows "0 < sint w \<longleftrightarrow> 0 < unat w \<and> unat w < 32768"
proof -
  define k where "k = int (unat w)"
  have k: "0 \<le> k" "k < 65536" using unsigned_less [of w, where 'a = int] by (simp_all add: k_def)
  have "k div 32768 = (if k < 32768 then 0 else 1)" using k by auto
  then have bit: "bit k 15 \<longleftrightarrow> \<not> k < 32768" by (simp add: bit_iff_odd)
  have "sint w = signed_take_bit 15 k" by (simp add: sint_uint k_def)
  also have "\<dots> = k - (if k < 32768 then 0 else 65536)"
    using k bit by (simp add: signed_take_bit_eq_take_bit_minus take_bit_int_eq_self)
  finally have "0 < sint w \<longleftrightarrow> 0 < k \<and> k < 32768" using k by (cases "k < 32768") simp_all
  then show ?thesis unfolding k_def by linarith
qed

lemma seq_after_iff: "seq_after a b \<longleftrightarrow> 0 < unat (a - b) \<and> unat (a - b) < 32768"
  unfolding seq_after_def by (rule sint_pos_iff)

text \<open>How far an acknowledgement moves the base of a window of \<open>d\<close> messages.\<close>

definition ack_steps :: "u16 \<Rightarrow> u16 \<Rightarrow> nat \<Rightarrow> nat" where
  "ack_steps ack base d = (if unat (ack - base) < 32768 then min (unat (ack - base)) d else 0)"

lemma ack_base_steps: "ack_base ack base nxt = base + of_nat (ack_steps ack base (unat (nxt - base)))"
proof (induction "unat (nxt - base)" arbitrary: base)
  case 0
  then have "nxt = base" by (simp add: unat_eq_0)
  then show ?case by (simp add: ack_base.simps ack_steps_def)
next
  case (Suc d)
  then have ne: "base \<noteq> nxt" by auto
  have d: "d = unat (nxt - (base + 1))" using Suc.hyps(2) word_dist_Suc [OF ne] by simp
  show ?case
  proof (cases "seq_after ack base")
    case True
    then have a: "ack \<noteq> base" "unat (ack - base) < 32768" by (auto simp: seq_after_iff)
    have "ack_base ack base nxt = base + 1 + of_nat (ack_steps ack (base + 1) d)"
      using True ne Suc.hyps(1) [OF d] d by (subst ack_base.simps) simp
    also have "ack_steps ack (base + 1) d = ack_steps ack base (Suc d) - 1"
      using a word_dist_Suc [of base ack] by (simp add: ack_steps_def)
    also have "base + 1 + of_nat (ack_steps ack base (Suc d) - 1) = base + of_nat (ack_steps ack base (Suc d))"
      using a word_dist_Suc [of base ack] by (simp add: ack_steps_def min_def)
    finally show ?thesis using Suc.hyps(2) by simp
  next
    case False
    then have "ack_steps ack base (Suc d) = 0" by (auto simp: seq_after_iff ack_steps_def)
    then show ?thesis using False ne Suc.hyps(2) by (subst ack_base.simps) simp
  qed
qed

lemma ack_steps_le: "ack_steps ack base d \<le> d"
  by (simp add: ack_steps_def)

lemma unat_add_small: "unat (a :: u16) + n < 65536 \<Longrightarrow> unat (a + of_nat n) = unat a + n"
  by (simp add: unat_word_ariths unat_of_nat take_bit_eq_mod)

lemma dist_advance:
  fixes base x :: u16
  assumes "k \<le> unat (x - base)"
  shows "unat (x - (base + of_nat k)) = unat (x - base) - k"
  using assms
proof (induction k)
  case (Suc k)
  then have ih: "unat (x - (base + of_nat k)) = unat (x - base) - k" by simp
  then have "base + of_nat k \<noteq> x" using Suc.prems by auto
  from word_dist_Suc [OF this] ih have "Suc (unat (x - (base + of_nat k + 1))) = unat (x - base) - k" by simp
  moreover have "base + of_nat k + 1 = base + of_nat (Suc k)" by (simp add: add.assoc add.commute)
  ultimately show ?case by (metis diff_Suc_eq_diff_pred diff_Suc_1 diff_commute)
qed simp

lemma base_slot: "(unat (base + of_nat k :: u16) + i) mod MC_WINDOW = (unat base + (k + i)) mod MC_WINDOW"
proof -
  have "unat (base + of_nat k) = (unat base + k) mod 65536"
    by (simp add: unat_word_ariths unat_of_nat take_bit_eq_mod mod_simps)
  moreover have "((unat base + k) mod 65536 + i) mod 8 = (unat base + k + i) mod 8"
  proof -
    have "(unat base + k) mod 65536 mod 8 = (unat base + k) mod 8" by (rule mod_mod_cancel) simp
    then show ?thesis by (metis mod_add_left_eq)
  qed
  ultimately show ?thesis by (simp add: MC_WINDOW_def add.assoc)
qed

lemma next_slot:
  assumes "n = unat (nxt - base :: u16)"
  shows "unat nxt mod MC_WINDOW = (unat base + n) mod MC_WINDOW" "nxt = base + of_nat n"
proof -
  show nxt: "nxt = base + of_nat n" using assms by simp
  show "unat nxt mod MC_WINDOW = (unat base + n) mod MC_WINDOW"
    using base_slot [of base n 0] by (simp add: nxt)
qed

section \<open>Preservation\<close>

lemma mc_process_ack_wf:
  assumes wf: "mc_wf c"
  shows "mc_wf (mc_process_ack c ack)"
proof -
  let ?n = "unat (tx_next c - tx_base c)" and ?u = "unat (tx_unsent c - tx_base c)"
  define k where "k = ack_steps ack (tx_base c) ?n"
  have k: "k \<le> ?n" by (simp add: k_def ack_steps_le)
  define b where "b = ack_base ack (tx_base c) (tx_next c)"
  have b: "b = tx_base c + of_nat k" by (simp add: b_def k_def ack_base_steps)
  define u where "u = (if seq_after b (tx_unsent c) then b else tx_unsent c)"
  have nb: "unat (tx_next c - b) = ?n - k" unfolding b using k by (rule dist_advance)
  have small: "?n \<le> 8" "?u \<le> ?n" using wf by (simp_all add: mc_wf_def MC_WINDOW_def)
  have ub: "unat (u - b) \<le> unat (tx_next c - b)"
  proof (cases "k \<le> ?u")
    case True
    then have "unat (tx_unsent c - b) = ?u - k" unfolding b by (rule dist_advance)
    then show ?thesis using nb small True by (auto simp: u_def)
  next
    case False
    have "tx_unsent c = tx_base c + of_nat ?u" by simp
    then have "b - tx_unsent c = of_nat k - of_nat ?u" unfolding b by simp
    also have "\<dots> = of_nat (k - ?u)" using False by (simp add: of_nat_diff)
    finally have "unat (b - tx_unsent c) = k - ?u" using k small by (simp add: unat_of_nat take_bit_nat_eq_self)
    then have "seq_after b (tx_unsent c)" using False k small by (simp add: seq_after_iff)
    then show ?thesis by (simp add: u_def)
  qed
  have seqs: "ts_seq (txw c ((unat b + i) mod MC_WINDOW)) = b + of_nat i" if "i < ?n - k" for i
  proof -
    have "ts_seq (txw c ((unat (tx_base c) + (k + i)) mod MC_WINDOW)) = tx_base c + of_nat (k + i)"
      using wf that by (simp add: mc_wf_def)
    then show ?thesis unfolding b base_slot by (simp add: add.assoc)
  qed
  define c1 where "c1 = c\<lparr>tx_base := b, tx_unsent := u\<rparr>"
  have c1: "mc_wf c1"
    using wf ub seqs k nb by (auto simp: mc_wf_def mc_events_ok_def c1_def)
  show ?thesis unfolding mc_process_ack_def Let_def b_def [symmetric] u_def [symmetric] c1_def [symmetric]
    using c1 by simp
qed

lemma mc_deliver_wf: "mc_wf c \<Longrightarrow> mc_wf (mc_deliver c chan mt seq data)"
  by (auto simp: mc_deliver_def Let_def split: option.split intro!: mc_wf_fields mc_wf_push mc_wf_chan rx_push_wf)
     (simp_all add: mc_wf_def)

lemma mc_records_wf: "mc_wf c \<Longrightarrow> ok (mc_records c q) mc_wf"
proof (induction c q rule: mc_records.induct)
  case (1 c q)
  show ?case
  proof (cases "MC_REC \<le> length q")
    case False
    then show ?thesis using "1.prems" by (simp add: mc_records.simps [of c q])
  next
    case True
    then have len: "6 \<le> length q" "q \<noteq> []" by (auto simp: MC_REC_def)
    obtain sq dl where r: "rd16 q 2 = Some sq" "rd16 q 4 = Some dl" using rd16_defined [of 2 q] rd16_defined [of 4 q] len by auto
    have "rd8 q 0 = Some (q ! 0)" "rd8 q 1 = Some (q ! 1)" using len by simp_all
    with "1.IH" [OF True this r refl] "1.prems" True r show ?thesis
      by (simp add: mc_records.simps [of c q] mc_deliver_wf Let_def)
  qed
qed

lemma mc_feed_wf:
  assumes wf: "mc_wf c"
  shows "ok (mc_feed c p a) (\<lambda>(r, c'). mc_wf c')"
proof (cases "length p < MC_HDR")
  case True
  then show ?thesis using wf by (simp add: mc_feed_def)
next
  case False
  then have len: "8 \<le> length p" "p \<noteq> []" by (auto simp: MC_HDR_def)
  then show ?thesis using wf False
    by (auto simp: mc_feed_def Let_def MC_HDR_def intro!: mc_wf_fields mc_wf_push ok_mono [OF mc_records_wf] mc_process_ack_wf)
qed

lemma mc_write_wf:
  assumes wf: "mc_wf c"
  shows "mc_wf (snd (mc_write c p data))"
proof -
  let ?n = "unat (tx_next c - tx_base c)"
  have rel: "mc_wf (c\<lparr>txw := (txw c)(unat (tx_next c) mod MC_WINDOW := \<lparr>ts_seq = tx_next c, ts_chan = cid, ts_data = data\<rparr>),
             tx_next := tx_next c + 1\<rparr>)" if "\<not> MC_WINDOW \<le> ?n" "\<not> MC_MAXMSG < length data" for cid
  proof -
    note nx = next_slot [OF refl, of "tx_next c" "tx_base c"]
    have n8: "?n < 8" using that(1) by (simp add: MC_WINDOW_def)
    have "tx_next c + 1 - tx_base c = of_nat (Suc ?n)" by (subst nx(2)) simp
    then have n': "unat (tx_next c + 1 - tx_base c) = Suc ?n" using n8 by (simp add: unat_of_nat take_bit_nat_eq_self del: of_nat_Suc)
    have other: "(unat (tx_base c) + i) mod MC_WINDOW \<noteq> (unat (tx_base c) + ?n) mod MC_WINDOW" if "i < ?n" for i
    proof
      assume "(unat (tx_base c) + i) mod MC_WINDOW = (unat (tx_base c) + ?n) mod MC_WINDOW"
      then have "MC_WINDOW dvd (unat (tx_base c) + ?n) - (unat (tx_base c) + i)"
        using that by (metis mod_eq_dvd_iff_nat nat_add_left_cancel_le less_imp_le)
      then show False using that n8 by (auto simp: MC_WINDOW_def dest: dvd_imp_le)
    qed
    have "ts_seq (((txw c)(unat (tx_next c) mod MC_WINDOW := \<lparr>ts_seq = tx_next c, ts_chan = cid, ts_data = data\<rparr>))
        ((unat (tx_base c) + i) mod MC_WINDOW)) = tx_base c + of_nat i" if "i < Suc ?n" for i
      using wf that other [of i] nx by (cases "i = ?n") (auto simp: mc_wf_def)
    then show ?thesis using wf that n' n8 by (auto simp: mc_wf_def mc_events_ok_def MC_WINDOW_def)
  qed
  have unrel: "mc_wf (c\<lparr>txu := (txu c)(k := data), txu_chan := t, txu_head := h, txu_count := n\<rparr>)"
    if "\<not> MC_MAXMSG < length data" "h < MC_UNREL_TXQ" "n \<le> MC_UNREL_TXQ" for k t h n
    using wf that by (auto simp: mc_wf_def mc_events_ok_def)
  show ?thesis using wf
    by (auto simp: mc_write_def Let_def split: option.split intro!: rel unrel) (auto simp: mc_wf_def mc_events_ok_def MC_UNREL_TXQ_def)
qed

lemma rx_pop_wf: "rx_wf ch \<Longrightarrow> rx_wf (ch\<lparr>rx_head := Suc (rx_head ch) mod MC_RECVQ, rx_count := rx_count ch - Suc 0\<rparr>)"
  by (auto simp: rx_wf_def MC_RECVQ_def MC_WINDOW_def)

lemma mc_read_wf: "mc_wf c \<Longrightarrow> mc_wf (snd (snd (mc_read c p n)))"
  by (auto simp: mc_read_def Let_def split: option.split intro!: mc_wf_chan rx_pop_wf) (simp add: mc_wf_def)

lemma mc_chan_ops_wf: "mc_wf c \<Longrightarrow> mc_wf (snd (mc_chan_open c ty))" "mc_wf c \<Longrightarrow> mc_wf (mc_chan_close c p)"
  by (auto simp: mc_chan_open_def mc_chan_close_def split: option.split intro!: mc_wf_chan)
     (auto simp: mc_wf_def rx_wf_def mc_chan_zero_def MC_RECVQ_def MC_WINDOW_def)

lemma mc_poll_wf: "mc_wf c \<Longrightarrow> mc_poll c = Some (e, c') \<Longrightarrow> mc_wf c'"
  by (auto simp: mc_poll_def mc_wf_def mc_events_ok_def MC_EVENTQ_def split: if_splits)

lemma mc_connect_wf: "mc_wf c \<Longrightarrow> mc_wf (snd (mc_connect c a))"
  by (auto simp: mc_connect_def split: option.split)

lemma mc_service_wf:
  assumes wf: "mc_wf c"
  shows "mc_wf (snd (mc_service c now))"
proof -
  have rewind: "mc_wf (d\<lparr>tx_unsent := tx_base d, tx_timer := t\<rparr>)" if "mc_wf d" for d t
    using that by (auto simp: mc_wf_def mc_events_ok_def)
  show ?thesis using wf rewind [of "c\<lparr>m_now := now, tx_attempts := tx_attempts c + 1\<rparr>"]
    by (auto simp: mc_service_def Let_def)
qed

lemma mc_open_wf: "mc_wf (mc_open r1 r2 s)"
  by (simp add: mc_open_def microchan_zero_def mc_wf_def rx_wf_def mc_chan_zero_def mc_events_ok_def tx_zero_def
      MC_RECVQ_def MC_WINDOW_def MC_EVENTQ_def MC_UNREL_TXQ_def)

section \<open>Transmission\<close>

lemma length_mc_rec [simp]: "length (mc_rec chan mt sq d) = MC_REC + length d"
  by (simp add: mc_rec_def MC_REC_def)

lemma length_mc_header [simp]: "length (mc_header i t a) = MC_HDR"
  by (simp add: mc_header_def MC_HDR_def)

text \<open>The messages of the window, oldest first.\<close>

definition tx_window :: "microchan \<Rightarrow> (u8 \<times> bytes) list" where
  "tx_window c = map (\<lambda>s. (ts_chan s, ts_data s))
     (cring_list MC_WINDOW (txw c) (unat (tx_base c)) (unat (tx_next c - tx_base c)))"

definition rel_rec :: "microchan \<Rightarrow> nat \<Rightarrow> bytes" where
  "rel_rec c i = mc_rec (fst (tx_window c ! i)) MT_REL (tx_base c + of_nat i) (snd (tx_window c ! i))"

lemma length_tx_window: "length (tx_window c) = unat (tx_next c - tx_base c)"
  by (simp add: tx_window_def)

lemma tx_window_nth:
  "i < unat (tx_next c - tx_base c) \<Longrightarrow> tx_window c ! i =
     (ts_chan (txw c ((unat (tx_base c) + i) mod MC_WINDOW)), ts_data (txw c ((unat (tx_base c) + i) mod MC_WINDOW)))"
  by (simp add: tx_window_def cring_list_def)

lemma tx_records_spec:
  "mc_wf c \<Longrightarrow> cap \<le> buflen \<Longrightarrow> length out \<le> cap \<Longrightarrow>
   \<exists>u. unat (tx_unsent c - tx_base c) \<le> u \<and> u \<le> unat (tx_next c - tx_base c) \<and>
     length (out @ concat (map (rel_rec c) [unat (tx_unsent c - tx_base c) ..< u])) \<le> cap \<and>
     tx_records c cap buflen out = Some (out @ concat (map (rel_rec c) [unat (tx_unsent c - tx_base c) ..< u]),
       c\<lparr>tx_unsent := tx_base c + of_nat u\<rparr>)"
proof (induction c cap buflen out rule: tx_records.induct)
  case (1 c cap buflen out)
  let ?u = "unat (tx_unsent c - tx_base c)" and ?n = "unat (tx_next c - tx_base c)"
  have un: "?u \<le> ?n" using "1.prems" by (simp add: mc_wf_def)
  have same: "c\<lparr>tx_unsent := tx_base c + of_nat ?u\<rparr> = c" by simp
  have stop: ?case if "tx_records c cap buflen out = Some (out, c)"
    using that same un "1.prems"(3) by (intro exI [of _ ?u]) simp
  show ?case
  proof (cases "tx_unsent c = tx_next c")
    case True
    then show ?thesis by (intro stop) (simp add: tx_records.simps [of c])
  next
    case more: False
    have lt: "?u < ?n"
    proof (rule ccontr)
      assume "\<not> ?u < ?n"
      then have "?u = ?n" using un by simp
      then have "tx_unsent c - tx_base c = tx_next c - tx_base c" by (metis word_unat_eq_iff)
      then show False using more by simp
    qed
    define s where "s = txw c (unat (tx_unsent c) mod MC_WINDOW)"
    have slot: "unat (tx_unsent c) mod MC_WINDOW = (unat (tx_base c) + ?u) mod MC_WINDOW" "tx_unsent c = tx_base c + of_nat ?u"
      using next_slot [of ?u "tx_unsent c" "tx_base c"] by auto
    have s: "rel_rec c ?u = mc_rec (ts_chan s) MT_REL (ts_seq s) (ts_data s)"
      using "1.prems"(1) lt slot by (simp add: rel_rec_def tx_window_nth s_def mc_wf_def)
    show ?thesis
    proof (cases "cap < length out + MC_REC + length (ts_data s)")
      case True
      then show ?thesis using more by (intro stop) (simp add: tx_records.simps [of c] s_def Let_def)
    next
      case False
      define c1 where "c1 = c\<lparr>tx_unsent := tx_unsent c + 1\<rparr>"
      define out1 where "out1 = out @ rel_rec c ?u"
      have em: "emit buflen out (rel_rec c ?u) = Some out1"
        unfolding out1_def using False "1.prems"(2) s by (intro emit_ok) simp
      have u1: "unat (tx_unsent c1 - tx_base c1) = Suc ?u"
      proof -
        have "tx_unsent c + 1 - tx_base c = of_nat (Suc ?u)" by (subst slot(2)) simp
        moreover have "?n \<le> 8" using "1.prems"(1) by (simp add: mc_wf_def MC_WINDOW_def)
        ultimately show ?thesis using lt by (simp add: c1_def unat_of_nat take_bit_nat_eq_self del: of_nat_Suc)
      qed
      have wf1: "mc_wf c1" using "1.prems"(1) lt u1 by (auto simp: mc_wf_def mc_events_ok_def c1_def)
      have rr: "rel_rec c1 = rel_rec c" by (simp add: fun_eq_iff rel_rec_def tx_window_def c1_def)
      have l1: "length out1 \<le> cap" using False s by (simp add: out1_def)
      have em2: "emit buflen out (mc_rec (ts_chan s) MT_REL (ts_seq s) (ts_data s)) = Some out1" using em s by simp
      have "\<exists>u. unat (tx_unsent c1 - tx_base c1) \<le> u \<and> u \<le> unat (tx_next c1 - tx_base c1) \<and>
          length (out1 @ concat (map (rel_rec c1) [unat (tx_unsent c1 - tx_base c1) ..< u])) \<le> cap \<and>
          tx_records c1 cap buflen out1 = Some (out1 @ concat (map (rel_rec c1) [unat (tx_unsent c1 - tx_base c1) ..< u]),
            c1\<lparr>tx_unsent := tx_base c1 + of_nat u\<rparr>)"
        unfolding c1_def
        by (rule "1.IH" [OF more s_def])
           (use False em2 wf1 "1.prems"(2) l1 in \<open>simp_all add: c1_def\<close>)
      then obtain u where u: "Suc ?u \<le> u" "u \<le> ?n" "length (out1 @ concat (map (rel_rec c) [Suc ?u ..< u])) \<le> cap"
          "tx_records c1 cap buflen out1 = Some (out1 @ concat (map (rel_rec c) [Suc ?u ..< u]), c1\<lparr>tx_unsent := tx_base c1 + of_nat u\<rparr>)"
        unfolding u1 rr by (auto simp: c1_def)
      have up: "[?u ..< u] = ?u # [Suc ?u ..< u]" using u(1) by (simp add: upt_conv_Cons)
      have "tx_records c cap buflen out = tx_records c1 cap buflen out1"
        using more False em2 by (simp add: tx_records.simps [of c] s_def [symmetric] c1_def Let_def)
      then show ?thesis using u by (intro exI [of _ u]) (simp add: up out1_def c1_def)
    qed
  qed
qed

lemma txu_records_wf:
  "mc_wf c \<Longrightarrow> cap \<le> buflen \<Longrightarrow> length out \<le> cap \<Longrightarrow> n = txu_count c \<Longrightarrow>
   ok (txu_records n c cap buflen out) (\<lambda>(out', c'). mc_wf c' \<and> length out' \<le> cap \<and> (\<exists>e. out' = out @ e) \<and>
     m_peer c' = m_peer c \<and> m_now c' = m_now c \<and> tx_base c' = tx_base c \<and> tx_next c' = tx_next c \<and> txw c' = txw c \<and> tx_unsent c' = tx_unsent c)"
proof (induction n arbitrary: c out)
  case (Suc n)
  let ?m = "txu c (txu_head c)"
  show ?case
  proof (cases "cap < length out + MC_REC + length ?m")
    case True
    then show ?thesis using Suc.prems(1-3) by (simp add: Let_def)
  next
    case False
    let ?c1 = "c\<lparr>txu_head := Suc (txu_head c) mod MC_UNREL_TXQ, txu_count := n\<rparr>"
    let ?r = "mc_rec (txu_chan c (txu_head c)) MT_UNREL 0 ?m"
    have wf1: "mc_wf ?c1" using Suc.prems(1,4) by (auto simp: mc_wf_def mc_events_ok_def MC_UNREL_TXQ_def)
    have em: "emit buflen out ?r = Some (out @ ?r)" using False Suc.prems(2) by (intro emit_ok) simp
    from Suc.IH [OF wf1 Suc.prems(2), of "out @ ?r"] False show ?thesis
      by (auto simp: Let_def em elim!: ok_mono)
  qed
qed simp

lemma mc_send_next_ok:
  assumes wf: "mc_wf c" and buf: "12 \<le> buflen"
  shows "ok (mc_send_next c buflen) (\<lambda>(out, dst, c'). mc_wf c' \<and> length out \<le> min buflen MC_MTU \<and>
     dst = (if out = [] then None else Some (m_peer c)))"
proof -
  define cap where "cap = (if buflen < MC_MTU then buflen else MC_MTU)"
  have cap: "cap \<le> buflen" "MC_HDR \<le> cap" "cap \<le> min buflen MC_MTU" using buf by (auto simp: cap_def MC_MTU_def MC_HDR_def)
  have b: "\<not> buflen < MC_HDR" using buf by (simp add: MC_HDR_def)
  let ?h = "mc_header (m_remote_id c) PKT_DATA (rx_next c)"
  obtain u where u: "length (?h @ concat (map (rel_rec c) [unat (tx_unsent c - tx_base c) ..< u])) \<le> cap"
      "u \<le> unat (tx_next c - tx_base c)"
      "tx_records c cap buflen ?h = Some (?h @ concat (map (rel_rec c) [unat (tx_unsent c - tx_base c) ..< u]), c\<lparr>tx_unsent := tx_base c + of_nat u\<rparr>)"
    using tx_records_spec [OF wf cap(1), of ?h] cap(2) by auto
  define c1 where "c1 = c\<lparr>tx_unsent := tx_base c + of_nat u\<rparr>"
  have n8: "unat (tx_next c - tx_base c) \<le> 8" using wf by (simp add: mc_wf_def MC_WINDOW_def)
  have "unat (of_nat u :: u16) = u" using u(2) n8 by (simp add: unat_of_nat take_bit_nat_eq_self)
  then have wf1: "mc_wf c1" using wf u(2) by (auto simp: mc_wf_def mc_events_ok_def c1_def)
  define c2 where "c2 = (if tx_base c1 \<noteq> tx_next c1 \<and> tx_timer c1 = 0 then c1\<lparr>tx_timer := m_now c1 + RT_MS\<rparr> else c1)"
  have wf2: "mc_wf c2" using wf1 by (simp add: c2_def)
  define out1 where "out1 = ?h @ concat (map (rel_rec c) [unat (tx_unsent c - tx_base c) ..< u])"
  have o1: "length out1 \<le> cap" "out1 \<noteq> []" using u(1) by (auto simp: out1_def mc_header_def)
  have data: "ok (txu_records (txu_count c2) c2 cap buflen out1) (\<lambda>(out3, c3). mc_wf (c3\<lparr>ack_pending := False, m_last_send := m_now c\<rparr>) \<and>
       length out3 \<le> min buflen MC_MTU \<and> out3 \<noteq> [])"
    by (rule ok_mono [OF txu_records_wf [OF wf2 cap(1) o1(1) refl]]) (use cap(3) o1(2) in auto)
  have tx: "tx_records c cap buflen ?h = Some (out1, c1)" using u(3) by (simp add: out1_def c1_def)
  show ?thesis
  proof (cases "send_synack c \<or> send_ack c \<or> send_syn c")
    case True
    have e12: "emit buflen [] (mc_header i t 0 @ wr32 j) = Some (mc_header i t 0 @ wr32 j)" for i t j
      using buf by (simp add: emit_def MC_HDR_def)
    have e8: "emit buflen [] (mc_header i t 0) = Some (mc_header i t 0)" for i t using buf by (simp add: emit_def MC_HDR_def)
    have ne: "mc_header i t 0 \<noteq> []" for i t by (simp add: mc_header_def)
    have l8: "MC_HDR \<le> min buflen MC_MTU" "MC_HDR + 4 \<le> min buflen MC_MTU" using buf by (auto simp: MC_HDR_def MC_MTU_def)
    from True consider "send_synack c" | "\<not> send_synack c" "send_ack c" | "\<not> send_synack c" "\<not> send_ack c" "send_syn c" by blast
    then show ?thesis
      by cases (use b wf l8 in \<open>simp_all add: mc_send_next_def Let_def e12 e8 ne\<close>)
  next
    case False
    show ?thesis
    proof (cases "m_state c \<noteq> MC_STATE_CONNECTED \<or> tx_unsent c = tx_next c \<and> txu_count c = 0 \<and> \<not> ack_pending c")
      case True
      then show ?thesis using False b wf by (auto simp: mc_send_next_def Let_def)
    next
      case more: False
      have eq: "mc_send_next c buflen = do { (out3, c3) \<leftarrow> txu_records (txu_count c2) c2 cap buflen out1;
          Some (out3, Some (m_peer c), c3\<lparr>ack_pending := False, m_last_send := m_now c\<rparr>) }"
        using False more b
        by (cases "tx_unsent c = tx_next c"; cases "txu_count c = 0") (auto simp: mc_send_next_def Let_def cap_def [symmetric] tx c2_def)
      show ?thesis unfolding eq using data by (auto elim!: ok_mono)
    qed
  qed
qed

section \<open>Any sequence of calls\<close>

datatype mc_call =
    Mc_Connect "mc_addr option" | Mc_Feed bytes "mc_addr option" | Mc_Send nat | Mc_Service u32 | Mc_Poll
  | Mc_Chan_Open u8 | Mc_Chan_Close "nat option" | Mc_Write "nat option" bytes | Mc_Read "nat option" nat

text \<open>A channel pointer outside the connection's array is a wild pointer.\<close>

definition mc_ptr_ok :: "nat option \<Rightarrow> bool" where
  "mc_ptr_ok p \<longleftrightarrow> (case p of None \<Rightarrow> True | Some i \<Rightarrow> i < MC_MAX_CHAN)"

fun mc_exec :: "microchan \<Rightarrow> mc_call \<Rightarrow> microchan option" where
  "mc_exec c (Mc_Connect a) = Some (snd (mc_connect c a))"
| "mc_exec c (Mc_Feed p a) = map_option snd (mc_feed c p a)"
| "mc_exec c (Mc_Send n) = map_option (\<lambda>(_, _, c'). c') (mc_send_next c n)"
| "mc_exec c (Mc_Service t) = Some (snd (mc_service c t))"
| "mc_exec c Mc_Poll = Some (case mc_poll c of None \<Rightarrow> c | Some (_, c') \<Rightarrow> c')"
| "mc_exec c (Mc_Chan_Open ty) = Some (snd (mc_chan_open c ty))"
| "mc_exec c (Mc_Chan_Close p) = (if mc_ptr_ok p then Some (mc_chan_close c p) else None)"
| "mc_exec c (Mc_Write p d) = (if mc_ptr_ok p then Some (snd (mc_write c p d)) else None)"
| "mc_exec c (Mc_Read p n) = (if mc_ptr_ok p then Some (snd (snd (mc_read c p n))) else None)"

fun mc_run :: "microchan \<Rightarrow> mc_call list \<Rightarrow> microchan option" where
  "mc_run c [] = Some c"
| "mc_run c (x # xs) = do { c' \<leftarrow> mc_exec c x; mc_run c' xs }"

text \<open>What the caller owes: transmit buffers of at least 12 bytes, and channel pointers of this
  connection.\<close>

fun mc_call_ok :: "mc_call \<Rightarrow> bool" where
  "mc_call_ok (Mc_Send n) \<longleftrightarrow> MC_HDR + 4 \<le> n"
| "mc_call_ok (Mc_Chan_Close p) \<longleftrightarrow> mc_ptr_ok p"
| "mc_call_ok (Mc_Write p d) \<longleftrightarrow> mc_ptr_ok p"
| "mc_call_ok (Mc_Read p n) \<longleftrightarrow> mc_ptr_ok p"
| "mc_call_ok _ \<longleftrightarrow> True"

lemma mc_exec_ok:
  assumes "mc_wf c" "mc_call_ok x"
  shows "ok (mc_exec c x) mc_wf"
proof (cases x)
  case (Mc_Feed p a)
  then show ?thesis using assms mc_feed_wf [of c p a] by (auto simp: ok_def)
next
  case (Mc_Send n)
  then show ?thesis using assms mc_send_next_ok [of c n] by (auto simp: ok_def MC_HDR_def)
next
  case Mc_Poll
  then show ?thesis using assms by (auto split: option.split intro: mc_poll_wf)
qed (use assms in \<open>auto simp: mc_connect_wf mc_service_wf mc_chan_ops_wf mc_write_wf mc_read_wf\<close>)

lemma mc_run_ok: "mc_wf c \<Longrightarrow> list_all mc_call_ok xs \<Longrightarrow> ok (mc_run c xs) mc_wf"
proof (induction xs arbitrary: c)
  case (Cons x xs)
  have "ok (mc_exec c x) mc_wf" using Cons.prems by (intro mc_exec_ok) auto
  then show ?case using Cons by (auto elim!: ok_mono)
qed simp

end
