(* ===== verification/MC_Window.thy ===== *)
theory MC_Window
  imports MC_Safe
begin

text \<open>
  The go-back-N window of microchan as a list.  The eight slots with their three wrapping counters
  refine a queue of messages: a reliable write appends, an acknowledgement drops a prefix, a
  datagram carries consecutive records of it, and the receiver's record loop is a fold over the
  messages.
\<close>

section \<open>Sender\<close>

lemma cring_list_drop: "cring_list N a h n = cring_list N a h k @ map (\<lambda>j. a ((h + k + j) mod N)) [0 ..< n - k]"
  if "k \<le> n"
proof -
  have "[0 ..< n] = [0 ..< k] @ map (\<lambda>j. j + k) [0 ..< n - k]"
    using that by (simp add: map_add_upt flip: upt_add_eq_append) (metis le_add_diff_inverse upt_add_eq_append zero_le)
  then show ?thesis by (simp add: cring_list_def comp_def add.assoc add.commute [of k])
qed

lemma write_window:
  assumes "mc_wf c" "\<not> MC_WINDOW \<le> unat (tx_next c - tx_base c)"
  shows "tx_window (c\<lparr>txw := (txw c)(unat (tx_next c) mod MC_WINDOW := s), tx_next := tx_next c + 1\<rparr>) =
    tx_window c @ [(ts_chan s, ts_data s)]"
proof -
  let ?n = "unat (tx_next c - tx_base c)"
  note nx = next_slot [OF refl, of "tx_next c" "tx_base c"]
  have n8: "?n < 8" using assms(2) by (simp add: MC_WINDOW_def)
  have "tx_next c + 1 - tx_base c = of_nat (Suc ?n)" by (subst nx(2)) simp
  then have n': "unat (tx_next c + 1 - tx_base c) = Suc ?n"
    using n8 by (simp add: unat_of_nat take_bit_nat_eq_self del: of_nat_Suc)
  have "cring_list MC_WINDOW ((txw c)((unat (tx_base c) + ?n) mod MC_WINDOW := s)) (unat (tx_base c)) (Suc ?n) =
      cring_list MC_WINDOW (txw c) (unat (tx_base c)) ?n @ [s]"
    using assms(2) by (intro cring_push) simp
  then show ?thesis using nx(1) n' by (simp add: tx_window_def)
qed

lemma process_ack_base:
  "tx_base (mc_process_ack c ack) = tx_base c + of_nat (ack_steps ack (tx_base c) (unat (tx_next c - tx_base c)))"
  by (simp add: mc_process_ack_def Let_def ack_base_steps)

lemma process_ack_fields [simp]:
  "tx_next (mc_process_ack c ack) = tx_next c" "txw (mc_process_ack c ack) = txw c" "rx_next (mc_process_ack c ack) = rx_next c"
  "m_chan (mc_process_ack c ack) = m_chan c" "m_state (mc_process_ack c ack) = m_state c"
  "m_local_id (mc_process_ack c ack) = m_local_id c" "m_remote_id (mc_process_ack c ack) = m_remote_id c"
  "send_syn (mc_process_ack c ack) = send_syn c" "send_synack (mc_process_ack c ack) = send_synack c"
  "send_ack (mc_process_ack c ack) = send_ack c" "txu_count (mc_process_ack c ack) = txu_count c"
  by (simp_all add: mc_process_ack_def Let_def)

lemma ack_window:
  "tx_window (mc_process_ack c ack) = drop (ack_steps ack (tx_base c) (length (tx_window c))) (tx_window c)"
proof -
  let ?n = "unat (tx_next c - tx_base c)"
  define k where "k = ack_steps ack (tx_base c) ?n"
  have k: "k \<le> ?n" by (simp add: k_def ack_steps_le)
  have n': "unat (tx_next c - (tx_base c + of_nat k)) = ?n - k" using k by (rule dist_advance)
  have "cring_list MC_WINDOW (txw c) (unat (tx_base c + of_nat k)) (?n - k) =
      map (\<lambda>j. txw c ((unat (tx_base c) + k + j) mod MC_WINDOW)) [0 ..< ?n - k]"
    by (simp add: cring_list_def base_slot add.assoc)
  also have "\<dots> = drop k (cring_list MC_WINDOW (txw c) (unat (tx_base c)) ?n)"
    by (subst cring_list_drop [OF k]) simp
  finally show ?thesis
    by (simp add: tx_window_def process_ack_base n' drop_map k_def [symmetric])
qed

section \<open>Datagrams\<close>

text \<open>The records of messages \<open>lo\<close> to \<open>hi - 1\<close> of all that was ever written.\<close>

definition gbn_rec :: "(u8 \<times> bytes) list \<Rightarrow> nat \<Rightarrow> bytes" where
  "gbn_rec W i = mc_rec (fst (W ! i)) MT_REL (of_nat i) (snd (W ! i))"

definition gbn_recs :: "(u8 \<times> bytes) list \<Rightarrow> nat \<Rightarrow> nat \<Rightarrow> bytes" where
  "gbn_recs W lo hi = concat (map (gbn_rec W) [lo ..< hi])"

lemma mc_records_rel:
  assumes "length d \<le> MC_MAXMSG"
  shows "mc_records c (mc_rec ch mt sq d @ q) = mc_records (mc_deliver c ch mt sq d) q"
proof -
  have l: "unat (of_nat (length d) :: u16) = length d"
    using assms by (simp add: unat_of_nat take_bit_nat_eq_self MC_MAXMSG_def MC_MTU_def)
  have r16: "rd16 (mc_rec ch mt sq d @ q) 2 = Some sq"
    using rd16_append [of "[ch, mt]" 2 sq "wr16 (of_nat (length d)) @ d @ q"] by (simp add: mc_rec_def)
  have r16': "rd16 (mc_rec ch mt sq d @ q) 4 = Some (of_nat (length d))"
    using rd16_append [of "[ch, mt] @ wr16 sq" 4 "of_nat (length d)" "d @ q"] by (simp add: mc_rec_def)
  have dr: "drop MC_REC (mc_rec ch mt sq d) = d" by (simp add: mc_rec_def MC_REC_def wr16_def)
  have r8: "rd8 (mc_rec ch mt sq d @ q) 0 = Some ch" "rd8 (mc_rec ch mt sq d @ q) 1 = Some mt"
    by (simp_all add: rd8_def mc_rec_def)
  show ?thesis by (subst mc_records.simps) (simp add: r16 r16' dr r8 [unfolded One_nat_def] l Let_def)
qed

lemma mc_records_Nil [simp]: "mc_records c [] = Some c"
  by (simp add: mc_records.simps [of c "[]"] MC_REC_def)

lemma mc_records_gbn:
  assumes small: "\<forall>m \<in> set W. length (snd m) \<le> MC_MAXMSG" and "hi \<le> length W"
  shows "mc_records c (gbn_recs W lo hi) = Some (fold (\<lambda>i c. mc_deliver c (fst (W ! i)) MT_REL (of_nat i) (snd (W ! i))) [lo ..< hi] c)"
proof -
  have "mc_records c (concat (map (gbn_rec W) is)) = Some (fold (\<lambda>i c. mc_deliver c (fst (W ! i)) MT_REL (of_nat i) (snd (W ! i))) is c)"
    if "\<forall>i \<in> set is. i < length W" for "is" using that
  proof (induction "is" arbitrary: c)
    case (Cons i js)
    then show ?case using small by (simp add: gbn_rec_def mc_records_rel)
  qed simp
  then show ?thesis using assms(2) by (simp add: gbn_recs_def)
qed

text \<open>What a connection with no control packet and no unreliable message to send transmits.\<close>

definition mc_quiet :: "microchan \<Rightarrow> bool" where
  "mc_quiet c \<longleftrightarrow> mc_wf c \<and> \<not> send_syn c \<and> \<not> send_synack c \<and> \<not> send_ack c \<and> txu_count c = 0 \<and> m_state c \<noteq> MC_STATE_CONNECTING"

text \<open>The fields a transmission leaves alone.\<close>

definition same_link :: "microchan \<Rightarrow> microchan \<Rightarrow> bool" where
  "same_link c c' \<longleftrightarrow> m_chan c' = m_chan c \<and> rx_next c' = rx_next c \<and> m_local_id c' = m_local_id c \<and> m_remote_id c' = m_remote_id c \<and>
     tx_next c' = tx_next c \<and> tx_base c' = tx_base c \<and> txw c' = txw c"

lemma same_link_refl [simp]: "same_link c c"
  by (simp add: same_link_def)

lemma same_link_window: "same_link c c' \<Longrightarrow> tx_window c' = tx_window c"
  by (simp add: same_link_def tx_window_def)

lemma mc_send_quiet:
  assumes q: "mc_quiet c" and snd: "mc_send_next c buflen = Some (out, dst, c')"
  shows "mc_quiet c' \<and> same_link c c' \<and> (out = [] \<or>
    (\<exists>u. unat (tx_unsent c - tx_base c) \<le> u \<and> u \<le> unat (tx_next c - tx_base c) \<and>
      out = mc_header (m_remote_id c) PKT_DATA (rx_next c) @ concat (map (rel_rec c) [unat (tx_unsent c - tx_base c) ..< u])))"
proof (cases "buflen < MC_HDR \<or> m_state c \<noteq> MC_STATE_CONNECTED \<or> tx_unsent c = tx_next c \<and> \<not> ack_pending c")
  case True
  then have "mc_send_next c buflen = Some ([], None, c)"
    using q by (elim disjE) (simp_all add: mc_send_next_def Let_def mc_quiet_def)
  then show ?thesis using snd q by simp
next
  case False
  define cap where "cap = (if buflen < MC_MTU then buflen else MC_MTU)"
  have wf: "mc_wf c" using q by (simp add: mc_quiet_def)
  let ?h = "mc_header (m_remote_id c) PKT_DATA (rx_next c)" and ?u = "unat (tx_unsent c - tx_base c)"
  have cap: "cap \<le> buflen" "length ?h \<le> cap" using False by (auto simp: cap_def MC_MTU_def MC_HDR_def)
  obtain u where u: "?u \<le> u" "u \<le> unat (tx_next c - tx_base c)"
      "tx_records c cap buflen ?h = Some (?h @ concat (map (rel_rec c) [?u ..< u]), c\<lparr>tx_unsent := tx_base c + of_nat u\<rparr>)"
    using tx_records_spec [OF wf cap] by blast
  define c1 where "c1 = c\<lparr>tx_unsent := tx_base c + of_nat u\<rparr>"
  have "unat (of_nat u :: u16) = u" using u(2) wf by (simp add: mc_wf_def MC_WINDOW_def unat_of_nat take_bit_nat_eq_self)
  then have wf1: "mc_wf c1" using wf u(2) by (auto simp: mc_wf_def mc_events_ok_def c1_def)
  define c2 where "c2 = (if tx_base c1 \<noteq> tx_next c1 \<and> tx_timer c1 = 0 then c1\<lparr>tx_timer := m_now c1 + RT_MS\<rparr> else c1)"
  have wf2: "mc_wf c2" using wf1 by (simp add: c2_def)
  have q2: "txu_count c2 = 0" using q by (simp add: c2_def c1_def mc_quiet_def)
  have "mc_send_next c buflen = Some (?h @ concat (map (rel_rec c) [?u ..< u]), Some (m_peer c),
      c2\<lparr>ack_pending := False, m_last_send := m_now c\<rparr>)"
    using False q q2
    by (cases "tx_unsent c = tx_next c"; cases "ack_pending c")
       (simp_all add: mc_send_next_def Let_def cap_def [symmetric] u(3) c1_def [symmetric] c2_def [symmetric] mc_quiet_def)
  then have eq: "out = ?h @ concat (map (rel_rec c) [?u ..< u])" "c' = c2\<lparr>ack_pending := False, m_last_send := m_now c\<rparr>"
    using snd by auto
  have "mc_quiet c'" using q wf2 by (simp add: eq mc_quiet_def c2_def c1_def)
  moreover have "same_link c c'" by (simp add: eq same_link_def c2_def c1_def)
  ultimately show ?thesis using u(1,2) eq(1) by blast
qed

end
