(* ===== verification/MC_Gbn.thy ===== *)
theory MC_Gbn
  imports MC_Window
begin

text \<open>
  Reliable delivery over microchan, end to end.  Two connected endpoints run the code of
  \<open>microchan.c\<close>; the network between them loses, duplicates and reorders datagrams at will.
  Sequence numbers are 16 bits, so a datagram must not be delivered after more than 32768 further
  messages have passed it (RFC 1982).  Then each application reads, on every reliable channel,
  exactly the messages the other wrote there, in order and once, and the window only forgets what
  the other side has accepted.
\<close>

section \<open>Two endpoints and a network\<close>

text \<open>\<open>conn\<close> are the endpoints; the rest is history: the reliable messages written, how many the
  endpoint accepted, what its application read from each channel, and every datagram ever sent to
  the endpoint, stamped with the acknowledgement and the first message it carries.\<close>

record gbn =
  conn :: "bool \<Rightarrow> microchan"
  written :: "bool \<Rightarrow> (u8 \<times> bytes) list"
  accepted :: "bool \<Rightarrow> nat"
  got :: "bool \<Rightarrow> nat \<Rightarrow> bytes list"
  net :: "bool \<Rightarrow> (nat \<times> nat \<times> bytes) set"

definition in_flight :: "microchan \<Rightarrow> nat" where
  "in_flight c = unat (tx_next c - tx_base c)"

definition unsent :: "microchan \<Rightarrow> nat" where
  "unsent c = unat (tx_unsent c - tx_base c)"

text \<open>How many of the written messages have left the window.\<close>

definition released :: "gbn \<Rightarrow> bool \<Rightarrow> nat" where
  "released g e = length (written g e) - in_flight (conn g e)"

inductive gbn_step :: "gbn \<Rightarrow> gbn \<Rightarrow> bool" where
  gbn_write: "i < MC_MAX_CHAN \<Longrightarrow> mc_type (m_chan (conn g e) i) = MC_RELIABLE \<Longrightarrow>
    mc_write (conn g e) (Some i) d = (r, c') \<Longrightarrow>
    gbn_step g (g\<lparr>conn := (conn g)(e := c'),
      written := (written g)(e := written g e @ (if r < 0 then [] else [(mc_cid (m_chan (conn g e) i), d)]))\<rparr>)"
| gbn_send: "mc_send_next (conn g e) buflen = Some (out, dst, c') \<Longrightarrow>
    gbn_step g (g\<lparr>conn := (conn g)(e := c'),
      net := (net g)((\<not> e) := net g (\<not> e) \<union> (if out = [] then {} else {(accepted g e, released g e + unsent (conn g e), out)}))\<rparr>)"
| gbn_deliver: "(a, lo, p) \<in> net g e \<Longrightarrow> accepted g e < lo + 65536 \<Longrightarrow> released g e \<le> a + 32768 \<Longrightarrow>
    mc_feed (conn g e) p src = Some (r, c') \<Longrightarrow>
    gbn_step g (g\<lparr>conn := (conn g)(e := c'),
      accepted := (accepted g)(e := accepted g e + unat (rx_next c' - rx_next (conn g e)))\<rparr>)"
| gbn_read: "i < MC_MAX_CHAN \<Longrightarrow> mc_read (conn g e) (Some i) buflen = (r, m, c') \<Longrightarrow>
    gbn_step g (g\<lparr>conn := (conn g)(e := c'),
      got := (got g)(e := (got g e)(i := got g e i @ (if r < 0 \<or> rx_count (m_chan (conn g e) i) = 0 then [] else [m])))\<rparr>)"
| gbn_service: "mc_service (conn g e) now = (r, c') \<Longrightarrow> gbn_step g (g\<lparr>conn := (conn g)(e := c')\<rparr>)"
| gbn_poll: "mc_poll (conn g e) = Some (ev, c') \<Longrightarrow> gbn_step g (g\<lparr>conn := (conn g)(e := c')\<rparr>)"

definition gbn_fresh :: "microchan \<Rightarrow> bool" where
  "gbn_fresh c \<longleftrightarrow> mc_quiet c \<and> tx_base c = 0 \<and> tx_next c = 0 \<and> rx_next c = 0 \<and> (\<forall>i. rx_count (m_chan c i) = 0)"

definition gbn_start :: "microchan \<Rightarrow> microchan \<Rightarrow> gbn" where
  "gbn_start a b = \<lparr>conn = (\<lambda>e. if e then a else b), written = (\<lambda>_. []), accepted = (\<lambda>_. 0), got = (\<lambda>_ _. []), net = (\<lambda>_. {})\<rparr>"

definition chan_msgs :: "nat \<Rightarrow> (u8 \<times> bytes) list \<Rightarrow> bytes list" where
  "chan_msgs i W = map snd (filter (\<lambda>m. unat (fst m) = i) W)"

lemma chan_msgs_append [simp]: "chan_msgs i (V @ W) = chan_msgs i V @ chan_msgs i W"
  by (simp add: chan_msgs_def)

section \<open>The invariant\<close>

text \<open>The sending half of an endpoint that has written \<open>W\<close>.\<close>

definition snd_inv :: "microchan \<Rightarrow> (u8 \<times> bytes) list \<Rightarrow> bool" where
  "snd_inv c W \<longleftrightarrow> mc_quiet c \<and> tx_next c = of_nat (length W) \<and> in_flight c \<le> length W \<and>
     tx_window c = drop (length W - in_flight c) W \<and> (\<forall>m \<in> set W. length (snd m) \<le> MC_MAXMSG)"

text \<open>The receiving half of an endpoint that has accepted \<open>R\<close> of the messages \<open>W\<close> and whose
  application has read \<open>L\<close>.\<close>

definition rcv_inv :: "microchan \<Rightarrow> (u8 \<times> bytes) list \<Rightarrow> nat \<Rightarrow> (nat \<Rightarrow> bytes list) \<Rightarrow> bool" where
  "rcv_inv c W R L \<longleftrightarrow> rx_next c = of_nat R \<and> R \<le> length W \<and>
     (\<forall>i<MC_MAX_CHAN. mc_used (m_chan c i) \<longrightarrow> L i @ rx_msgs (m_chan c i) = chan_msgs i (take R W))"

definition pkt_inv :: "u32 \<Rightarrow> (u8 \<times> bytes) list \<Rightarrow> nat \<Rightarrow> nat \<times> nat \<times> bytes \<Rightarrow> bool" where
  "pkt_inv lid W A pkt \<longleftrightarrow> (case pkt of (a, lo, p) \<Rightarrow> a \<le> A \<and>
     (\<exists>hi. lo \<le> hi \<and> hi \<le> length W \<and> p = mc_header lid PKT_DATA (of_nat a) @ gbn_recs W lo hi))"

definition gbn_side :: "gbn \<Rightarrow> bool \<Rightarrow> bool" where
  "gbn_side g e \<longleftrightarrow> snd_inv (conn g e) (written g e) \<and> m_remote_id (conn g e) = m_local_id (conn g (\<not> e)) \<and>
     rcv_inv (conn g e) (written g (\<not> e)) (accepted g e) (got g e) \<and> released g e \<le> accepted g (\<not> e) \<and>
     (\<forall>pkt \<in> net g e. pkt_inv (m_local_id (conn g e)) (written g (\<not> e)) (accepted g (\<not> e)) pkt)"

definition gbn_inv :: "gbn \<Rightarrow> bool" where
  "gbn_inv g \<longleftrightarrow> gbn_side g True \<and> gbn_side g False"

lemma gbn_inv_sides: "gbn_inv g \<longleftrightarrow> gbn_side g x \<and> gbn_side g (\<not> x)"
  by (cases x) (auto simp: gbn_inv_def)

lemma released_base: "snd_inv c W \<Longrightarrow> tx_base c = of_nat (length W - in_flight c)"
  by (simp add: snd_inv_def of_nat_diff) (simp add: in_flight_def)

lemma quiet_flight: "mc_quiet c \<Longrightarrow> in_flight c \<le> 8"
  by (simp add: mc_quiet_def mc_wf_def MC_WINDOW_def in_flight_def)

lemma snd_inv_flight: "snd_inv c W \<Longrightarrow> in_flight c \<le> 8"
  by (simp add: snd_inv_def quiet_flight)

lemma same_link_flight: "same_link c c' \<Longrightarrow> in_flight c' = in_flight c" "same_link c c' \<Longrightarrow> tx_next c' = tx_next c"
  by (simp_all add: same_link_def in_flight_def)

lemma snd_inv_link: "snd_inv c W \<Longrightarrow> same_link c c' \<Longrightarrow> mc_quiet c' \<Longrightarrow> snd_inv c' W"
  by (simp add: snd_inv_def same_link_flight same_link_window)

lemma rcv_inv_cong: "rcv_inv c W R L \<Longrightarrow> m_chan c' = m_chan c \<Longrightarrow> rx_next c' = rx_next c \<Longrightarrow> rcv_inv c' W R L"
  by (simp add: rcv_inv_def)

lemma gbn_recs_append: "hi \<le> length W \<Longrightarrow> gbn_recs (W @ V) lo hi = gbn_recs W lo hi"
  unfolding gbn_recs_def by (intro arg_cong [of _ _ concat] map_cong) (auto simp: gbn_rec_def nth_append)

lemma pkt_inv_mono: "pkt_inv l W A p \<Longrightarrow> A \<le> A' \<Longrightarrow> pkt_inv l (W @ V) A' p"
  by (fastforce simp: pkt_inv_def gbn_recs_append)

lemma rcv_inv_mono: "rcv_inv c W R L \<Longrightarrow> rcv_inv c (W @ V) R L"
  by (simp add: rcv_inv_def)

section \<open>Steps of one endpoint\<close>

lemma write_step:
  assumes inv: "snd_inv c W" and rel: "mc_type (m_chan c i) = MC_RELIABLE" and w: "mc_write c (Some i) d = (r, c')"
  shows "m_chan c' = m_chan c \<and> rx_next c' = rx_next c \<and> m_local_id c' = m_local_id c \<and> m_remote_id c' = m_remote_id c \<and>
    (let W' = W @ (if r < 0 then [] else [(mc_cid (m_chan c i), d)]) in snd_inv c' W' \<and> length W' - in_flight c' = length W - in_flight c)"
proof (cases "r < 0")
  case True
  then have "c' = c" using w rel by (auto simp: mc_write_def Let_def split: if_splits)
  then show ?thesis using True inv by simp
next
  case False
  let ?s = "\<lparr>ts_seq = tx_next c, ts_chan = mc_cid (m_chan c i), ts_data = d\<rparr>"
  have room: "\<not> MC_WINDOW \<le> unat (tx_next c - tx_base c)" "\<not> MC_MAXMSG < length d" "m_state c = MC_STATE_CONNECTED"
    and c': "c' = c\<lparr>txw := (txw c)(unat (tx_next c) mod MC_WINDOW := ?s), tx_next := tx_next c + 1\<rparr>"
    using False w rel by (auto simp: mc_write_def Let_def MC_ERR_def MC_ERR_AGAIN_def MC_ERR_CLOSED_def MC_ERR_TOOBIG_def split: if_splits)
  have quiet: "mc_quiet c" using inv by (simp add: snd_inv_def)
  then have wf: "mc_wf c" by (simp add: mc_quiet_def)
  have "mc_wf c'" using mc_write_wf [OF wf, of "Some i" d] w by simp
  then have quiet': "mc_quiet c'" using quiet by (simp add: mc_quiet_def c')
  have win: "tx_window c' = tx_window c @ [(mc_cid (m_chan c i), d)]"
    using write_window [OF wf room(1), of ?s] by (simp add: c')
  then have fl: "in_flight c' = Suc (in_flight c)" using length_tx_window [of c] length_tx_window [of c'] by (simp add: in_flight_def)
  have "snd_inv c' (W @ [(mc_cid (m_chan c i), d)])"
    using inv quiet' win fl room(2) by (auto simp: snd_inv_def c')
  then show ?thesis using False fl by (simp add: c')
qed

lemma send_step:
  assumes inv: "snd_inv c W" and s: "mc_send_next c buflen = Some (out, dst, c')"
  shows "snd_inv c' W \<and> same_link c c' \<and> (out \<noteq> [] \<longrightarrow>
    (\<exists>hi. length W - in_flight c + unsent c \<le> hi \<and> hi \<le> length W \<and>
       out = mc_header (m_remote_id c) PKT_DATA (rx_next c) @ gbn_recs W (length W - in_flight c + unsent c) hi))"
proof -
  let ?B = "length W - in_flight c"
  have quiet: "mc_quiet c" and fl: "in_flight c \<le> length W" using inv by (simp_all add: snd_inv_def)
  note q = mc_send_quiet [OF quiet s]
  have rec: "rel_rec c i = gbn_rec W (?B + i)" if "i < in_flight c" for i
  proof -
    have "tx_window c ! i = W ! (?B + i)" using inv that by (simp add: snd_inv_def)
    then show ?thesis using released_base [OF inv] by (simp add: rel_rec_def gbn_rec_def)
  qed
  have recs: "concat (map (rel_rec c) [unsent c ..< u]) = gbn_recs W (?B + unsent c) (?B + u)" if "u \<le> in_flight c" for u
  proof -
    have "map (rel_rec c) [unsent c ..< u] = map (gbn_rec W) (map (\<lambda>i. i + ?B) [unsent c ..< u])"
      using that rec by (auto simp: add.commute)
    also have "map (\<lambda>i. i + ?B) [unsent c ..< u] = [unsent c + ?B ..< u + ?B]" by (rule nth_equalityI) auto
    finally show ?thesis by (simp add: gbn_recs_def add.commute)
  qed
  have "\<exists>hi. ?B + unsent c \<le> hi \<and> hi \<le> length W \<and>
       out = mc_header (m_remote_id c) PKT_DATA (rx_next c) @ gbn_recs W (?B + unsent c) hi" if ne: "out \<noteq> []"
  proof -
    obtain u where u: "unsent c \<le> u" "u \<le> in_flight c"
        "out = mc_header (m_remote_id c) PKT_DATA (rx_next c) @ concat (map (rel_rec c) [unsent c ..< u])"
      using q ne unfolding unsent_def in_flight_def by blast
    have "?B + unsent c \<le> ?B + u" "?B + u \<le> length W" using u(1,2) fl by linarith+
    then show ?thesis using u(3) recs [OF u(2)] by (intro exI [of _ "?B + u"] conjI) (simp_all only:)
  qed
  then show ?thesis using q snd_inv_link [OF inv] by blast
qed

lemma service_step:
  assumes inv: "snd_inv c W" and s: "mc_service c now = (r, c')"
  shows "snd_inv c' W \<and> same_link c c'"
proof -
  have quiet: "mc_quiet c" using inv by (simp add: snd_inv_def)
  have "same_link c c'" using s quiet
    by (auto simp: mc_service_def Let_def mc_quiet_def same_link_def split: if_splits)
  moreover have "mc_quiet c'" using s quiet mc_service_wf [of c now]
    by (auto simp: mc_service_def Let_def mc_quiet_def mc_ev_push_def mc_ev_add_def split: if_splits)
  ultimately show ?thesis using snd_inv_link [OF inv] by blast
qed

lemma poll_step:
  assumes inv: "snd_inv c W" and s: "mc_poll c = Some (ev, c')"
  shows "snd_inv c' W \<and> same_link c c'"
proof -
  have quiet: "mc_quiet c" using inv by (simp add: snd_inv_def)
  have "same_link c c'" using s by (auto simp: mc_poll_def same_link_def split: if_splits)
  moreover have "mc_quiet c'" using s quiet mc_poll_wf [OF _ s] by (auto simp: mc_poll_def mc_quiet_def split: if_splits)
  ultimately show ?thesis using snd_inv_link [OF inv] by blast
qed

text \<open>The transmit side, which delivering a record does not touch.\<close>

definition tx_side :: "microchan \<Rightarrow> u16 \<times> u16 \<times> u16 \<times> (nat \<Rightarrow> tx_slot) \<times> nat \<times> bool \<times> bool \<times> bool \<times> mc_state_t \<times> u32 \<times> u32" where
  "tx_side c = (tx_next c, tx_base c, tx_unsent c, txw c, txu_count c, send_syn c, send_synack c, send_ack c, m_state c,
     m_local_id c, m_remote_id c)"

lemma deliver_tx_side: "tx_side (mc_deliver c ch mt sq d) = tx_side c"
  by (auto simp: tx_side_def mc_deliver_def Let_def upd_mchan_def split: option.split)

lemma snd_inv_tx_side: "snd_inv c W \<Longrightarrow> tx_side c' = tx_side c \<Longrightarrow> mc_wf c' \<Longrightarrow> snd_inv c' W"
  by (auto simp: snd_inv_def tx_side_def mc_quiet_def in_flight_def tx_window_def)

lemma of_nat_u16_eq: "(of_nat i :: u16) = of_nat R \<Longrightarrow> i < R + 65536 \<Longrightarrow> R < i + 65536 \<Longrightarrow> i = R"
proof (induction i R rule: linorder_wlog)
  case (le i R)
  then have "unat (of_nat i :: u16) = unat (of_nat R :: u16)" by simp
  then have "i mod 65536 = R mod 65536" by (simp add: unat_of_nat take_bit_eq_mod)
  then have "65536 dvd R - i" using le(1) by (metis mod_eq_dvd_iff_nat)
  then show ?case using le by (auto dest: dvd_imp_le)
next
  case (sym i R)
  then show ?case by simp
qed

lemma deliver_step:
  assumes inv: "rcv_inv c W R L" and wf: "mc_wf c" and i: "i < length W" "i < R + 65536" "R < i + 65536"
    and small: "\<forall>m \<in> set W. length (snd m) \<le> MC_MAXMSG"
  shows "\<exists>R'. rcv_inv (mc_deliver c (fst (W ! i)) MT_REL (of_nat i) (snd (W ! i))) W R' L \<and> R \<le> R' \<and> R' \<le> max R (Suc i)"
proof (cases "i = R")
  case False
  then have "(of_nat i :: u16) \<noteq> rx_next c" using inv of_nat_u16_eq [of i R] i by (auto simp: rcv_inv_def)
  then show ?thesis using inv by (intro exI [of _ R]) (simp add: mc_deliver_def Let_def MT_REL_def rcv_inv_def)
next
  case True
  let ?d = "snd (W ! R)" and ?j = "unat (fst (W ! R))" and ?c' = "mc_deliver c (fst (W ! i)) MT_REL (of_nat i) (snd (W ! i))"
  have rx: "rx_next c = of_nat i" and R: "R < length W" using inv i True by (simp_all add: rcv_inv_def)
  have d: "length ?d \<le> MC_MAXMSG" using small R by simp
  have tk: "take (Suc R) W = take R W @ [W ! R]" using R by (simp add: take_Suc_conv_app_nth)
  have one: "chan_msgs k [W ! R] = (if k = ?j then [?d] else [])" for k by (simp add: chan_msgs_def)
  show ?thesis
  proof (cases "chan_by_id c (fst (W ! R))")
    case None
    then have "k \<noteq> ?j" if "k < MC_MAX_CHAN" "mc_used (m_chan c k)" for k
      using that by (auto simp: chan_by_id_def split: if_splits)
    then have "rcv_inv ?c' W (Suc R) L"
      using inv R None rx True one by (auto simp: mc_deliver_def Let_def MT_REL_def rcv_inv_def tk add.commute)
    then show ?thesis using True by (intro exI [of _ "Suc R"]) simp
  next
    case (Some k)
    then have k: "k = ?j" "mc_used (m_chan c k)" by (auto simp: chan_by_id_def split: if_splits)
    show ?thesis
    proof (cases "rxq_full (m_chan c k)")
      case full: True
      then show ?thesis using inv Some rx True by (intro exI [of _ R]) (simp add: mc_deliver_def Let_def MT_REL_def rcv_inv_def)
    next
      case False
      have push: "rx_msgs (rxq_push (m_chan c k) ?d) = rx_msgs (m_chan c k) @ [?d]"
        using wf False d by (intro rx_push_msgs) (auto simp: mc_wf_def)
      have used: "mc_used (rxq_push ch x) = mc_used ch" for ch x by (simp add: rxq_push_def)
      have "m_chan ?c' = (m_chan c)(k := rxq_push (m_chan c k) ?d)" "rx_next ?c' = of_nat (Suc R)"
        using Some False rx True by (simp_all add: mc_deliver_def Let_def MT_REL_def upd_mchan_def add.commute)
      then have "rcv_inv ?c' W (Suc R) L"
        using inv R push used one k(1) by (auto simp: rcv_inv_def tk)
      then show ?thesis using True by (intro exI [of _ "Suc R"]) simp
    qed
  qed
qed

lemma deliver_fold:
  assumes inv: "rcv_inv c W R L" and wf: "mc_wf c" and near: "length W \<le> R + 8" "R < lo + 65536"
    and small: "\<forall>m \<in> set W. length (snd m) \<le> MC_MAXMSG"
  shows "lo \<le> hi \<Longrightarrow> hi \<le> length W \<Longrightarrow>
    \<exists>R'. let c' = fold (\<lambda>i c. mc_deliver c (fst (W ! i)) MT_REL (of_nat i) (snd (W ! i))) [lo ..< hi] c in
      rcv_inv c' W R' L \<and> mc_wf c' \<and> tx_side c' = tx_side c \<and> R \<le> R' \<and> R' \<le> max R hi"
proof (induction hi)
  case 0
  then show ?case using inv wf by auto
next
  case (Suc hi)
  show ?case
  proof (cases "lo = Suc hi")
    case True
    then show ?thesis using inv wf by auto
  next
    case False
    then have "lo \<le> hi" using Suc.prems by simp
    define c1 where "c1 = fold (\<lambda>i c. mc_deliver c (fst (W ! i)) MT_REL (of_nat i) (snd (W ! i))) [lo ..< hi] c"
    obtain R1 where R1: "rcv_inv c1 W R1 L" "mc_wf c1" "tx_side c1 = tx_side c" "R \<le> R1" "R1 \<le> max R hi"
      using Suc.IH \<open>lo \<le> hi\<close> Suc.prems(2) by (auto simp: c1_def Let_def)
    have near'': "hi < length W" "hi < R1 + 65536" "R1 < hi + 65536"
      using Suc.prems(2) near R1(4,5) \<open>lo \<le> hi\<close> by linarith+
    obtain R2 where R2: "rcv_inv (mc_deliver c1 (fst (W ! hi)) MT_REL (of_nat hi) (snd (W ! hi))) W R2 L" "R1 \<le> R2" "R2 \<le> max R1 (Suc hi)"
      using deliver_step [OF R1(1,2) _ _ _ small, of hi] near'' by blast
    have "fold (\<lambda>i c. mc_deliver c (fst (W ! i)) MT_REL (of_nat i) (snd (W ! i))) [lo ..< Suc hi] c =
        mc_deliver c1 (fst (W ! hi)) MT_REL (of_nat hi) (snd (W ! hi))"
      using \<open>lo \<le> hi\<close> by (simp add: c1_def)
    then show ?thesis using R1 R2 by (intro exI [of _ R2]) (simp add: Let_def mc_deliver_wf deliver_tx_side)
  qed
qed

lemma ack_steps_fresh:
  assumes "tx_base c = of_nat B" "B \<le> a + 32768"
  shows "B + ack_steps (of_nat a) (tx_base c) n \<le> max B a"
proof (cases "a \<le> B")
  case True
  show ?thesis
  proof (cases "a = B")
    case False
    have "(of_nat a :: u16) - of_nat B = of_nat (65536 - (B - a))" using True assms(2) by (simp add: of_nat_diff)
    moreover have "65536 - (B - a) < 65536" using False True by simp
    ultimately have "unat ((of_nat a :: u16) - of_nat B) = 65536 - (B - a)"
      by (simp add: unat_of_nat take_bit_nat_eq_self)
    then show ?thesis using assms by (simp add: ack_steps_def)
  qed (simp add: assms ack_steps_def)
next
  case False
  then have "(of_nat a :: u16) - of_nat B = of_nat (a - B)" by (simp add: of_nat_diff)
  then have "unat ((of_nat a :: u16) - of_nat B) \<le> a - B" by (simp add: unat_of_nat take_bit_eq_mod)
  then show ?thesis using False assms by (auto simp: ack_steps_def)
qed

lemma process_ack_step:
  assumes inv: "snd_inv c W" and a: "length W - in_flight c \<le> a + 32768"
  shows "snd_inv (mc_process_ack c (of_nat a)) W \<and>
    length W - in_flight (mc_process_ack c (of_nat a)) \<le> max (length W - in_flight c) a"
proof -
  let ?c' = "mc_process_ack c (of_nat a)"
  define k where "k = ack_steps (of_nat a) (tx_base c) (length (tx_window c))"
  have n: "length (tx_window c) = in_flight c" "in_flight c \<le> length W"
    using inv by (simp add: length_tx_window in_flight_def) (use inv in \<open>simp add: snd_inv_def\<close>)
  have k: "k \<le> in_flight c" using n(1) by (simp add: k_def ack_steps_le)
  have win: "tx_window ?c' = drop k (tx_window c)" by (simp add: ack_window k_def)
  then have fl: "in_flight ?c' = in_flight c - k" using n length_tx_window [of ?c'] by (simp add: in_flight_def)
  have quiet: "mc_quiet ?c'" using inv by (simp add: snd_inv_def mc_quiet_def mc_process_ack_wf)
  have eq: "length W - in_flight ?c' = length W - in_flight c + k" using k n(2) fl by linarith
  have "in_flight ?c' \<le> length W" using fl n(2) by linarith
  then have "snd_inv ?c' W" using inv quiet win eq by (simp add: snd_inv_def add.commute)
  then show ?thesis using ack_steps_fresh [OF released_base [OF inv] a, of "in_flight c"] n(1) by (simp add: eq k_def)
qed

lemma mc_feed_data:
  assumes "m_state c \<noteq> MC_STATE_CONNECTING" "m_local_id c = lid"
  shows "mc_feed c (mc_header lid PKT_DATA ack @ q) src =
    (let c0 = c\<lparr>m_last_recv := m_now c\<rparr> in
     if m_state c \<noteq> MC_STATE_CONNECTED then Some (MC_OK, c0)
     else do { c2 \<leftarrow> mc_records (mc_process_ack c0 ack) q; Some (MC_OK, c2) })"
proof -
  let ?p = "mc_header lid PKT_DATA ack @ q"
  have r32: "rd32 ?p 0 = Some lid" using rd32_append [of "[]" 0 lid "[PKT_DATA, 0] @ wr16 ack @ q"] by (simp add: mc_header_def)
  have r16: "rd16 ?p 6 = Some ack" using rd16_append [of "wr32 lid @ [PKT_DATA, 0]" 6 ack q] by (simp add: mc_header_def)
  have r8: "rd8 ?p 4 = Some PKT_DATA" by (simp add: rd8_def mc_header_def nth_append)
  have d: "drop MC_HDR (mc_header lid PKT_DATA ack) = []" by simp
  have t: "PKT_DATA \<noteq> PKT_SYN" "PKT_DATA \<noteq> PKT_SYNACK" "PKT_DATA \<noteq> PKT_ACK" by (simp_all add: pkt_type_defs)
  show ?thesis using assms by (simp add: mc_feed_def r32 r16 r8 d t Let_def)
qed

lemma feed_step:
  assumes inv: "snd_inv c W" and rcv: "rcv_inv c V R L"
    and p: "p = mc_header (m_local_id c) PKT_DATA (of_nat a) @ gbn_recs V lo hi" "lo \<le> hi" "hi \<le> length V"
    and near: "length V \<le> R + 8" "R < lo + 65536" "length W - in_flight c \<le> a + 32768"
    and small: "\<forall>m \<in> set V. length (snd m) \<le> MC_MAXMSG"
    and f: "mc_feed c p src = Some (r, c')"
  shows "\<exists>R'. snd_inv c' W \<and> rcv_inv c' V R' L \<and> R \<le> R' \<and> R' \<le> R + 8 \<and> m_local_id c' = m_local_id c \<and> m_remote_id c' = m_remote_id c \<and>
    length W - in_flight c' \<le> max (length W - in_flight c) a"
proof -
  define c0 where "c0 = c\<lparr>m_last_recv := m_now c\<rparr>"
  have quiet: "mc_quiet c" using inv by (simp add: snd_inv_def)
  have link0: "same_link c c0" "mc_quiet c0" using quiet by (simp_all add: c0_def same_link_def mc_quiet_def)
  have inv0: "snd_inv c0 W" using snd_inv_link [OF inv link0] .
  have rcv0: "rcv_inv c0 V R L" using rcv by (rule rcv_inv_cong) (simp_all add: c0_def)
  have fl0: "in_flight c0 = in_flight c" using link0(1) by (rule same_link_flight)
  have ids: "m_local_id c0 = m_local_id c" "m_remote_id c0 = m_remote_id c" by (simp_all add: c0_def)
  have feed: "mc_feed c p src = (if m_state c \<noteq> MC_STATE_CONNECTED then Some (MC_OK, c0)
      else do { c2 \<leftarrow> mc_records (mc_process_ack c0 (of_nat a)) (gbn_recs V lo hi); Some (MC_OK, c2) })"
    using quiet by (simp add: p(1) mc_feed_data mc_quiet_def c0_def Let_def)
  show ?thesis
  proof (cases "m_state c = MC_STATE_CONNECTED")
    case False
    then have "c' = c0" using f feed by simp
    then show ?thesis using inv0 rcv0 fl0 ids by (intro exI [of _ R]) simp
  next
    case True
    define c1 where "c1 = mc_process_ack c0 (of_nat a)"
    have c1: "snd_inv c1 W" "length W - in_flight c1 \<le> max (length W - in_flight c) a"
      using process_ack_step [OF inv0, of a] near(3) fl0 by (simp_all add: c1_def)
    have rcv1: "rcv_inv c1 V R L" using rcv0 by (rule rcv_inv_cong) (simp_all add: c1_def)
    have wf1: "mc_wf c1" using c1(1) by (simp add: snd_inv_def mc_quiet_def)
    have "c' = fold (\<lambda>i c. mc_deliver c (fst (V ! i)) MT_REL (of_nat i) (snd (V ! i))) [lo ..< hi] c1"
      using f True by (simp add: feed c1_def [symmetric] mc_records_gbn [OF small p(3)])
    then obtain R' where R': "rcv_inv c' V R' L" "mc_wf c'" "tx_side c' = tx_side c1" "R \<le> R'" "R' \<le> max R hi"
      using deliver_fold [OF rcv1 wf1 near(1,2) small p(2,3)] by (auto simp: Let_def)
    have "snd_inv c' W" using snd_inv_tx_side [OF c1(1) R'(3,2)] .
    moreover have "in_flight c' = in_flight c1" "m_local_id c' = m_local_id c" "m_remote_id c' = m_remote_id c"
      using R'(3) ids by (simp_all add: tx_side_def in_flight_def c1_def)
    moreover have "R' \<le> R + 8" using R'(5) p(3) near(1) by linarith
    ultimately show ?thesis using R' c1(2) by auto
  qed
qed

lemma read_step:
  assumes inv: "snd_inv c W" and rcv: "rcv_inv c V R L" and r: "mc_read c (Some i) n = (r, m, c')"
  shows "snd_inv c' W \<and> in_flight c' = in_flight c \<and> m_local_id c' = m_local_id c \<and> m_remote_id c' = m_remote_id c \<and>
    rcv_inv c' V R (L(i := L i @ (if r < 0 \<or> rx_count (m_chan c i) = 0 then [] else [m])))"
proof (cases "rx_count (m_chan c i) = 0 \<or> n < length (rxq (m_chan c i) (rx_head (m_chan c i)))")
  case True
  then have "c' = c" "rx_count (m_chan c i) = 0 \<or> r < 0" using r by (auto simp: mc_read_def Let_def MC_ERR_TOOBIG_def split: if_splits)
  then show ?thesis using inv rcv by auto
next
  case False
  let ?ch = "m_chan c i"
  have wf: "mc_wf c" using inv by (simp add: snd_inv_def mc_quiet_def)
  then have "rx_head ?ch < MC_RECVQ" by (simp add: mc_wf_def rx_wf_def)
  then have pop: "rx_msgs ?ch = rxq ?ch (rx_head ?ch) # cring_list MC_RECVQ (rxq ?ch) (Suc (rx_head ?ch) mod MC_RECVQ) (rx_count ?ch - 1)"
    using False cring_pop [of "rx_count ?ch" MC_RECVQ "rxq ?ch" "rx_head ?ch"] by (simp add: rx_msgs_def)
  have eq: "m = rxq ?ch (rx_head ?ch)" "\<not> r < 0"
      "c' = upd_mchan c i (\<lambda>ch. ch\<lparr>rx_head := Suc (rx_head ch) mod MC_RECVQ, rx_count := rx_count ch - 1\<rparr>)"
    using r False by (auto simp: mc_read_def Let_def)
  have wf': "mc_wf c'" using mc_read_wf [OF wf, of "Some i" n] r by simp
  have tx: "tx_side c' = tx_side c" "rx_next c' = rx_next c" by (simp_all add: eq(3) tx_side_def upd_mchan_def)
  have "snd_inv c' W" using snd_inv_tx_side [OF inv tx(1) wf'] .
  moreover have "in_flight c' = in_flight c" "m_local_id c' = m_local_id c" "m_remote_id c' = m_remote_id c"
    using tx(1) by (simp_all add: tx_side_def in_flight_def)
  moreover have "rcv_inv c' V R (L(i := L i @ [m]))"
    using rcv pop tx(2) by (auto simp: rcv_inv_def eq upd_mchan_def rx_msgs_def)
  ultimately show ?thesis using False eq(2) by simp
qed

section \<open>The invariant is kept\<close>

lemma gbn_inv_start:
  assumes "gbn_fresh a" "gbn_fresh b" "m_remote_id a = m_local_id b" "m_remote_id b = m_local_id a"
  shows "gbn_inv (gbn_start a b)"
  using assms by (auto simp: gbn_inv_def gbn_side_def gbn_start_def gbn_fresh_def snd_inv_def rcv_inv_def in_flight_def released_def
      tx_window_def rx_msgs_def chan_msgs_def)

text \<open>A step of endpoint \<open>x\<close> that keeps both halves of it and the history's shape keeps the
  invariant.\<close>

lemma gbn_inv_upd:
  assumes inv: "gbn_inv g"
    and s: "snd_inv c' (written g x @ V)" "length (written g x @ V) - in_flight c' \<le> accepted g (\<not> x)"
    and r: "rcv_inv c' (written g (\<not> x)) R' L'" "accepted g x \<le> R'"
    and ids: "m_local_id c' = m_local_id (conn g x)" "m_remote_id c' = m_remote_id (conn g x)"
    and net: "\<forall>pkt \<in> N'. pkt_inv (m_local_id (conn g (\<not> x))) (written g x @ V) R' pkt"
    and g': "conn g' = (conn g)(x := c')" "written g' = (written g)(x := written g x @ V)" "accepted g' = (accepted g)(x := R')"
      "got g' = (got g)(x := L')" "net g' = (net g)((\<not> x) := net g (\<not> x) \<union> N')"
  shows "gbn_inv g'"
proof -
  let ?y = "\<not> x" and ?g = g'
  have ne: "(\<not> x) \<noteq> x" "x \<noteq> (\<not> x)" by simp_all
  have x: "gbn_side g x" and y: "gbn_side g ?y" using inv gbn_inv_sides by blast+
  have fields: "conn ?g x = c'" "conn ?g ?y = conn g ?y" "written ?g x = written g x @ V" "written ?g ?y = written g ?y"
    "accepted ?g x = R'" "accepted ?g ?y = accepted g ?y" "got ?g x = L'" "got ?g ?y = got g ?y" "net ?g x = net g x"
    "net ?g ?y = net g ?y \<union> N'" using ne by (simp_all add: g')
  have old: "\<forall>pkt \<in> net g ?y. pkt_inv (m_local_id (conn g ?y)) (written g x @ V) R' pkt"
    using y r(2) by (auto simp: gbn_side_def intro: pkt_inv_mono)
  have "gbn_side ?g x" unfolding gbn_side_def released_def fields using x s r ids by (simp add: gbn_side_def)
  moreover have "gbn_side ?g ?y" unfolding gbn_side_def released_def fields not_not
    using y s r ids net old by (auto simp: gbn_side_def released_def intro: rcv_inv_mono)
  ultimately show ?thesis using gbn_inv_sides by blast
qed

lemma gbn_invD:
  assumes "gbn_inv g"
  shows "snd_inv (conn g e) (written g e)" "m_remote_id (conn g e) = m_local_id (conn g (\<not> e))"
    "rcv_inv (conn g e) (written g (\<not> e)) (accepted g e) (got g e)" "released g e \<le> accepted g (\<not> e)"
    "\<forall>pkt \<in> net g e. pkt_inv (m_local_id (conn g e)) (written g (\<not> e)) (accepted g (\<not> e)) pkt"
proof -
  have "gbn_side g e" using assms gbn_inv_sides by blast
  then show "snd_inv (conn g e) (written g e)" "m_remote_id (conn g e) = m_local_id (conn g (\<not> e))"
    "rcv_inv (conn g e) (written g (\<not> e)) (accepted g e) (got g e)" "released g e \<le> accepted g (\<not> e)"
    "\<forall>pkt \<in> net g e. pkt_inv (m_local_id (conn g e)) (written g (\<not> e)) (accepted g (\<not> e)) pkt"
    by (auto simp: gbn_side_def)
qed

lemma gbn_write_inv:
  assumes inv: "gbn_inv g" and w: "mc_type (m_chan (conn g e) i) = MC_RELIABLE" "mc_write (conn g e) (Some i) d = (r, c')"
  shows "gbn_inv (g\<lparr>conn := (conn g)(e := c'),
      written := (written g)(e := written g e @ (if r < 0 then [] else [(mc_cid (m_chan (conn g e) i), d)]))\<rparr>)"
proof -
  note I = gbn_invD [OF inv, of e]
  note S = write_step [OF I(1) w, unfolded Let_def]
  let ?V = "if r < 0 then [] else [(mc_cid (m_chan (conn g e) i), d)]"
  have r: "rcv_inv c' (written g (\<not> e)) (accepted g e) (got g e)" using I(3) S by (blast intro: rcv_inv_cong)
  have s: "snd_inv c' (written g e @ ?V)" "length (written g e @ ?V) - in_flight c' \<le> accepted g (\<not> e)"
    using S I(4) unfolding released_def by presburger+
  have ids: "m_local_id c' = m_local_id (conn g e)" "m_remote_id c' = m_remote_id (conn g e)" using S by blast+
  show ?thesis by (rule gbn_inv_upd [OF inv s r order_refl ids, of "{}"]) simp_all
qed

lemma gbn_send_inv:
  assumes inv: "gbn_inv g" and w: "mc_send_next (conn g e) buflen = Some (out, dst, c')"
  shows "gbn_inv (g\<lparr>conn := (conn g)(e := c'),
      net := (net g)((\<not> e) := net g (\<not> e) \<union> (if out = [] then {} else {(accepted g e, released g e + unsent (conn g e), out)}))\<rparr>)"
    (is "gbn_inv (g\<lparr>conn := _, net := (net g)(_ := _ \<union> ?N)\<rparr>)")
proof -
  note I = gbn_invD [OF inv, of e]
  note S = send_step [OF I(1) w]
  have link: "same_link (conn g e) c'" using S by blast
  have rx: "rx_next (conn g e) = of_nat (accepted g e)" using I(3) by (simp add: rcv_inv_def)
  have r: "rcv_inv c' (written g (\<not> e)) (accepted g e) (got g e)" using I(3) link by (auto simp: same_link_def intro: rcv_inv_cong)
  have N: "\<forall>pkt \<in> ?N. pkt_inv (m_local_id (conn g (\<not> e))) (written g e @ []) (accepted g e) pkt"
    using S I(2) rx by (auto simp: pkt_inv_def released_def)
  have s: "snd_inv c' (written g e @ [])" "length (written g e @ []) - in_flight c' \<le> accepted g (\<not> e)"
    using S I(4) same_link_flight [OF link] by (simp_all add: released_def)
  have ids: "m_local_id c' = m_local_id (conn g e)" "m_remote_id c' = m_remote_id (conn g e)" using link by (simp_all add: same_link_def)
  show ?thesis by (rule gbn_inv_upd [OF inv s r order_refl ids N]) simp_all
qed

lemma gbn_deliver_inv:
  assumes inv: "gbn_inv g" and p: "(a, lo, p) \<in> net g e" "accepted g e < lo + 65536" "released g e \<le> a + 32768"
    and w: "mc_feed (conn g e) p src = Some (r, c')"
  shows "gbn_inv (g\<lparr>conn := (conn g)(e := c'),
      accepted := (accepted g)(e := accepted g e + unat (rx_next c' - rx_next (conn g e)))\<rparr>)"
proof -
  note I = gbn_invD [OF inv, of e] and J = gbn_invD [OF inv, of "\<not> e"]
  obtain hi where hi: "a \<le> accepted g (\<not> e)" "lo \<le> hi" "hi \<le> length (written g (\<not> e))"
      "p = mc_header (m_local_id (conn g e)) PKT_DATA (of_nat a) @ gbn_recs (written g (\<not> e)) lo hi"
    using bspec [OF I(5) p(1)] by (auto simp: pkt_inv_def)
  have "length (written g (\<not> e)) \<le> accepted g e + 8"
    using J(4) snd_inv_flight [OF J(1)] by (simp add: released_def)
  moreover have "\<forall>m \<in> set (written g (\<not> e)). length (snd m) \<le> MC_MAXMSG" using J(1) by (simp add: snd_inv_def)
  ultimately obtain R' where R': "snd_inv c' (written g e)" "rcv_inv c' (written g (\<not> e)) R' (got g e)" "accepted g e \<le> R'" "R' \<le> accepted g e + 8"
      "m_local_id c' = m_local_id (conn g e)" "m_remote_id c' = m_remote_id (conn g e)"
      "length (written g e) - in_flight c' \<le> max (length (written g e) - in_flight (conn g e)) a"
    using feed_step [OF I(1,3) hi(4,2,3) _ p(2) _ _ w] p(3) by (auto simp: released_def)
  have "rx_next c' - rx_next (conn g e) = of_nat (R' - accepted g e)"
    using R'(2,3) I(3) by (simp add: rcv_inv_def of_nat_diff)
  moreover have "R' - accepted g e < 65536" using R'(4) by linarith
  ultimately have "unat (rx_next c' - rx_next (conn g e)) = R' - accepted g e"
    by (simp only:) (simp add: unat_of_nat take_bit_nat_eq_self del: of_nat_diff)
  then have eq: "accepted g e + unat (rx_next c' - rx_next (conn g e)) = R'" using R'(3) by simp
  have s: "snd_inv c' (written g e @ [])" "length (written g e @ []) - in_flight c' \<le> accepted g (\<not> e)"
    using R'(1,7) I(4) hi(1) by (simp_all add: released_def)
  show ?thesis unfolding eq by (rule gbn_inv_upd [OF inv s R'(2,3,5,6), of "{}"]) simp_all
qed

lemma gbn_read_inv:
  assumes inv: "gbn_inv g" and w: "mc_read (conn g e) (Some i) buflen = (r, m, c')"
  shows "gbn_inv (g\<lparr>conn := (conn g)(e := c'),
      got := (got g)(e := (got g e)(i := got g e i @ (if r < 0 \<or> rx_count (m_chan (conn g e) i) = 0 then [] else [m])))\<rparr>)"
proof -
  note I = gbn_invD [OF inv, of e]
  note S = read_step [OF I(1,3) w]
  have s: "snd_inv c' (written g e @ [])" "length (written g e @ []) - in_flight c' \<le> accepted g (\<not> e)"
    using S I(4) by (simp_all add: released_def)
  have ids: "m_local_id c' = m_local_id (conn g e)" "m_remote_id c' = m_remote_id (conn g e)" using S by blast+
  show ?thesis
    by (rule gbn_inv_upd [OF inv s conjunct2 [OF conjunct2 [OF conjunct2 [OF conjunct2 [OF S]]]] order_refl ids, of "{}"]) simp_all
qed

lemma gbn_local_inv:
  assumes inv: "gbn_inv g" and w: "snd_inv c' (written g e) \<and> same_link (conn g e) c'"
  shows "gbn_inv (g\<lparr>conn := (conn g)(e := c')\<rparr>)"
proof -
  note I = gbn_invD [OF inv, of e]
  have r: "rcv_inv c' (written g (\<not> e)) (accepted g e) (got g e)" using I(3) w by (auto simp: same_link_def intro: rcv_inv_cong)
  have s: "snd_inv c' (written g e @ [])" "length (written g e @ []) - in_flight c' \<le> accepted g (\<not> e)"
    using w I(4) same_link_flight(1) [of "conn g e" c'] by (simp_all add: released_def)
  have ids: "m_local_id c' = m_local_id (conn g e)" "m_remote_id c' = m_remote_id (conn g e)" using w by (simp_all add: same_link_def)
  show ?thesis by (rule gbn_inv_upd [OF inv s r order_refl ids, of "{}"]) simp_all
qed

lemma gbn_inv_step: "gbn_step g g' \<Longrightarrow> gbn_inv g \<Longrightarrow> gbn_inv g'"
proof (induction rule: gbn_step.induct)
  case (gbn_service g e now r c')
  then show ?case using service_step [OF gbn_invD(1)] by (intro gbn_local_inv) blast+
next
  case (gbn_poll g e ev c')
  then show ?case using poll_step [OF gbn_invD(1)] by (intro gbn_local_inv) blast+
qed (blast intro: gbn_write_inv gbn_send_inv gbn_deliver_inv gbn_read_inv)+

lemma gbn_inv_steps: "gbn_step\<^sup>*\<^sup>* g g' \<Longrightarrow> gbn_inv g \<Longrightarrow> gbn_inv g'"
  by (induction rule: rtranclp_induct) (auto intro: gbn_inv_step)

end
