(* ===== verification/MC_Props.thy ===== *)
theory MC_Props
  imports MC_Gbn
begin

text \<open>
  The properties of microchan: memory safety of any session, the transmit-buffer bound that safety
  needs, the handshake, the window as a queue, in-order delivery over a faulty network, and the
  retransmission timer.
\<close>

section \<open>Safety\<close>



text \<open>The bound is needed.  \<open>mc_send_next\<close> only asks for the 8 bytes of the header, but a SYN
  has 12: a client that connects and sends into a buffer of 8 to 11 bytes writes past its end.\<close>

theorem mc_send_overflow:
  assumes "8 \<le> n" "n < 12"
  shows "mc_send_next (snd (mc_connect (mc_open r1 r2 False) (Some a))) n = None"
proof -
  have "emit n [] (mc_header i t 0 @ wr32 j) = None" for i t j using assms by (simp add: emit_def MC_HDR_def)
  then show ?thesis using assms
    by (simp add: mc_send_next_def mc_connect_def mc_open_def microchan_zero_def Let_def MC_HDR_def)
qed

theorem mc_send_overflow_witness: "mc_send_next (snd (mc_connect (mc_open 1 2 False) (Some mc_addr_zero))) 8 = None"
  by (rule mc_send_overflow) simp_all

section \<open>Handshake\<close>

text \<open>The three packets of a handshake, carried from a new client to a new server and back.\<close>

definition mc_handshake :: "microchan \<Rightarrow> microchan \<Rightarrow> mc_addr \<Rightarrow> mc_addr \<Rightarrow> (microchan \<times> microchan) option" where
  "mc_handshake c s ca sa = do {
     (p1, _, c) \<leftarrow> mc_send_next (snd (mc_connect c (Some sa))) MC_MTU;
     (_, s) \<leftarrow> mc_feed s p1 (Some ca);
     (p2, _, s) \<leftarrow> mc_send_next s MC_MTU;
     (_, c) \<leftarrow> mc_feed c p2 (Some sa);
     (p3, _, c) \<leftarrow> mc_send_next c MC_MTU;
     (_, s) \<leftarrow> mc_feed s p3 (Some ca);
     Some (c, s) }"

lemma mc_header_reads:
  "rd32 (mc_header i t a @ q) 0 = Some i" "rd8 (mc_header i t a @ q) 4 = Some t" "rd16 (mc_header i t a @ q) 6 = Some a"
  "rd32 (mc_header i t a @ wr32 j) MC_HDR = Some j"
  using rd32_append [where xs = "[]" and i = 0 and v = i and ys = "[t, 0] @ wr16 a @ q"]
    rd16_append [where xs = "wr32 i @ [t, 0]" and i = 6 and v = a and ys = q]
    rd32_append [where xs = "wr32 i @ [t, 0] @ wr16 a" and i = 8 and v = j and ys = "[]"]
  by (simp_all add: mc_header_def MC_HDR_def rd8_def nth_append)

lemma mc_header_reads0: "rd32 (mc_header i t a) 0 = Some i" "rd8 (mc_header i t a) 4 = Some t" "rd16 (mc_header i t a) 6 = Some a"
  using mc_header_reads(1-3) [of i t a "[]"] by simp_all

lemma pkt_type_neq: "PKT_SYNACK \<noteq> PKT_SYN" "PKT_ACK \<noteq> PKT_SYN" "PKT_ACK \<noteq> PKT_SYNACK"
  by (simp_all add: pkt_type_defs)

lemma mtu_sizes: "\<not> MC_MTU < MC_HDR" "MC_HDR \<le> MC_MTU" "MC_HDR + 4 \<le> MC_MTU"
  by (simp_all add: MC_MTU_def MC_HDR_def)

text \<open>The endpoints after the handshake.\<close>

lemma mc_handshake_eq:
  "mc_handshake (mc_open r1 r2 False) (mc_open r3 r4 True) ca sa = Some
     (mc_ev_push (microchan_zero\<lparr>m_state := MC_STATE_CONNECTED, m_local_id := gen_id r1 r2, m_remote_id := gen_id r3 r4, m_peer := sa,
        connect_timer := CONNECT_RETRY_MS\<rparr>) MC_EV_CONNECTED None,
      mc_ev_push (microchan_zero\<lparr>m_server := True, m_state := MC_STATE_CONNECTED, m_local_id := gen_id r3 r4, m_remote_id := gen_id r1 r2,
        m_peer := ca, connect_timer := CONNECT_RETRY_MS\<rparr>) MC_EV_CONNECTED None)"
  by (simp add: mc_handshake_def mc_connect_def mc_open_def microchan_zero_def mc_send_next_def mc_feed_def emit_def Let_def
      mc_header_reads mc_header_reads0 pkt_type_neq mtu_sizes mc_ev_push_def mc_ev_add_def MC_EVENTQ_def)

text \<open>A handshake over a network that delivers its three packets connects both ends: each has
  the other's id and address, one CONNECTED event, an empty window and empty queues.\<close>

theorem mc_handshake_connects:
  "\<exists>c s. mc_handshake (mc_open r1 r2 False) (mc_open r3 r4 True) ca sa = Some (c, s) \<and>
     m_state c = MC_STATE_CONNECTED \<and> m_state s = MC_STATE_CONNECTED \<and>
     m_local_id c = gen_id r1 r2 \<and> m_local_id s = gen_id r3 r4 \<and>
     m_remote_id c = m_local_id s \<and> m_remote_id s = m_local_id c \<and> m_peer c = sa \<and> m_peer s = ca \<and>
     map me_type (mc_events c) = [MC_EV_CONNECTED] \<and> map me_type (mc_events s) = [MC_EV_CONNECTED] \<and>
     gbn_fresh c \<and> gbn_fresh s"
  unfolding mc_handshake_eq
  by (simp add: gbn_fresh_def mc_quiet_def mc_events_def cring_list_def mc_ev_push_def mc_ev_add_def microchan_zero_def mc_event_zero_def
      mc_chan_zero_def mc_wf_def rx_wf_def mc_events_ok_def tx_zero_def MC_RECVQ_def MC_WINDOW_def MC_EVENTQ_def MC_UNREL_TXQ_def)

section \<open>The window is a queue\<close>

text \<open>A reliable write of at most \<open>MC_MAXMSG\<close> bytes on a connected channel appends the message to
  the window and returns its length, except with a full window of eight, where it returns
  \<open>MC_ERR_AGAIN\<close> and changes nothing; an acknowledgement drops the messages before it, and nothing
  when it is not ahead of the window's base in 16-bit serial arithmetic.\<close>

theorem mc_window_queue:
  assumes "mc_wf c" "mc_used (m_chan c i)" "mc_type (m_chan c i) = MC_RELIABLE" "m_state c = MC_STATE_CONNECTED" "length d \<le> MC_MAXMSG"
  shows "(if length (tx_window c) = MC_WINDOW then mc_write c (Some i) d = (MC_ERR_AGAIN, c)
     else \<exists>c'. mc_write c (Some i) d = (int (length d), c') \<and> tx_window c' = tx_window c @ [(mc_cid (m_chan c i), d)] \<and> tx_base c' = tx_base c) \<and>
    tx_window (mc_process_ack c ack) = drop (if unat (ack - tx_base c) < 32768 then unat (ack - tx_base c) else 0) (tx_window c)"
proof
  have n: "length (tx_window c) = unat (tx_next c - tx_base c)" "unat (tx_next c - tx_base c) \<le> MC_WINDOW"
    using assms(1) by (simp_all add: length_tx_window mc_wf_def)
  show "if length (tx_window c) = MC_WINDOW then mc_write c (Some i) d = (MC_ERR_AGAIN, c)
     else \<exists>c'. mc_write c (Some i) d = (int (length d), c') \<and> tx_window c' = tx_window c @ [(mc_cid (m_chan c i), d)] \<and> tx_base c' = tx_base c"
  proof (cases "length (tx_window c) = MC_WINDOW")
    case True
    then show ?thesis using assms n by (simp add: mc_write_def Let_def)
  next
    case False
    then have room: "\<not> MC_WINDOW \<le> unat (tx_next c - tx_base c)" using n by simp
    show ?thesis using False room assms write_window [OF assms(1) room, of "\<lparr>ts_seq = tx_next c, ts_chan = mc_cid (m_chan c i), ts_data = d\<rparr>"]
      by (simp add: mc_write_def Let_def)
  qed
  show "tx_window (mc_process_ack c ack) = drop (if unat (ack - tx_base c) < 32768 then unat (ack - tx_base c) else 0) (tx_window c)"
    by (simp add: ack_window ack_steps_def min_def)
qed

text \<open>A client connected to a server, each with one reliable channel.\<close>

definition mc_demo :: "u32 \<Rightarrow> u32 \<Rightarrow> microchan" where
  "mc_demo lid rid = snd (mc_chan_open (microchan_zero\<lparr>m_state := MC_STATE_CONNECTED, m_local_id := lid, m_remote_id := rid\<rparr>) MC_RELIABLE)"

lemma mc_demo_eq:
  "mc_demo lid rid = microchan_zero\<lparr>m_state := MC_STATE_CONNECTED, m_local_id := lid, m_remote_id := rid,
     m_chan := (\<lambda>_. mc_chan_zero)(0 := mc_chan_zero\<lparr>mc_used := True\<rparr>)\<rparr>"
  by (simp add: mc_demo_def mc_chan_open_def MC_MAX_CHAN_def numeral_2_eq_2 upt_rec microchan_zero_def mc_chan_zero_def upd_mchan_def MC_RELIABLE_def)

lemma mc_demo_fresh: "gbn_fresh (mc_demo lid rid)"
  by (simp add: mc_demo_eq gbn_fresh_def mc_quiet_def microchan_zero_def mc_chan_zero_def mc_wf_def rx_wf_def mc_events_ok_def tx_zero_def
      MC_RECVQ_def MC_WINDOW_def MC_EVENTQ_def MC_UNREL_TXQ_def)

lemma mc_demo_facts: "mc_wf (mc_demo l r)" "mc_used (m_chan (mc_demo l r) 0)" "mc_type (m_chan (mc_demo l r) 0) = MC_RELIABLE"
   "m_state (mc_demo l r) = MC_STATE_CONNECTED" "m_local_id (mc_demo l r) = l" "m_remote_id (mc_demo l r) = r" "tx_window (mc_demo l r) = []"
   "mc_cid (m_chan (mc_demo l r) 0) = 0"
  using mc_demo_fresh [of l r]
  by (simp_all add: gbn_fresh_def mc_quiet_def tx_window_def) (simp_all add: mc_demo_eq mc_chan_zero_def MC_RELIABLE_def microchan_zero_def)

theorem mc_window_queue_witness:
  "\<exists>c'. mc_write (mc_demo 1 2) (Some 0) [7] = (1, c') \<and> tx_window c' = [(0, [7])]"
  using mc_window_queue [OF mc_demo_facts(1-4) [of 1 2], where d = "[7]"]
  by (auto simp: mc_demo_facts MC_WINDOW_def MC_MAXMSG_def MC_MTU_def)

section \<open>Reliable delivery\<close>

text \<open>C2: two connected endpoints with empty windows exchange messages over a network that loses,
  duplicates and reorders datagrams (but does not hold one back for more than 32768 messages).  At
  every moment and on every open channel, what the application has read followed by what waits for
  it is exactly the prefix of the other side's writes on that channel that the endpoint has
  accepted; and every message that left the sender's window has been accepted.\<close>

theorem gbn_in_order:
  assumes start: "gbn_fresh a" "gbn_fresh b" "m_remote_id a = m_local_id b" "m_remote_id b = m_local_id a"
    and run: "gbn_step\<^sup>*\<^sup>* (gbn_start a b) g"
    and chan: "i < MC_MAX_CHAN" "mc_used (m_chan (conn g e) i)"
  shows "got g e i @ rx_msgs (m_chan (conn g e) i) = chan_msgs i (take (accepted g e) (written g (\<not> e))) \<and>
    released g (\<not> e) \<le> accepted g e \<and> accepted g e \<le> length (written g (\<not> e))"
proof -
  have inv: "gbn_inv g" using gbn_inv_steps [OF run gbn_inv_start [OF start]] .
  show ?thesis using gbn_invD(3) [OF inv, of e] gbn_invD(4) [OF inv, of "\<not> e"] chan by (simp add: rcv_inv_def)
qed

text \<open>One message written, sent and delivered.\<close>

definition demo_sent :: "bytes \<times> mc_addr option \<times> microchan" where
  "demo_sent = the (mc_send_next (snd (mc_write (mc_demo 1 2) (Some 0) [7])) MC_MTU)"

definition demo_fed :: microchan where
  "demo_fed = snd (the (mc_feed (mc_demo 2 1) (fst demo_sent) None))"

lemma demo_eval:
  "fst demo_sent = [0, 0, 0, 2, 4, 0, 0, 0, 0, 1, 0, 0, 0, 1, 7]" "rx_next demo_fed = 1" "mc_used (m_chan demo_fed 0)"
  "fst (mc_write (mc_demo 1 2) (Some 0) [7]) = 1"
  "\<not> Option.is_none (mc_send_next (snd (mc_write (mc_demo 1 2) (Some 0) [7])) MC_MTU)"
  "\<not> Option.is_none (mc_feed (mc_demo 2 1) (fst demo_sent) None)"
  by code_simp+

definition demo_run :: gbn where
  "demo_run = \<lparr>conn = (\<lambda>e. if e then snd (snd demo_sent) else demo_fed), written = (\<lambda>e. if e then [(0, [7])] else []),
     accepted = (\<lambda>e. if e then 0 else 1), got = (\<lambda>_ _. []), net = (\<lambda>e. if e then {} else {(0, 0, fst demo_sent)})\<rparr>"

lemma demo_run_steps: "gbn_step\<^sup>*\<^sup>* (gbn_start (mc_demo 1 2) (mc_demo 2 1)) demo_run"
proof -
  define c1 where "c1 = snd (mc_write (mc_demo 1 2) (Some 0) [7])"
  have w: "mc_write (mc_demo 1 2) (Some 0) [7] = (1, c1)" using demo_eval(4) by (simp add: c1_def prod_eq_iff)
  have s: "mc_send_next c1 MC_MTU = Some (fst demo_sent, fst (snd demo_sent), snd (snd demo_sent))"
    using demo_eval(5) by (simp add: demo_sent_def c1_def Option.is_none_def)
  obtain r where f: "mc_feed (mc_demo 2 1) (fst demo_sent) None = Some (r, demo_fed)"
    using demo_eval(6) by (auto simp: demo_fed_def Option.is_none_def)
  let ?g0 = "gbn_start (mc_demo 1 2) (mc_demo 2 1)"
  define g1 where "g1 = ?g0\<lparr>conn := (conn ?g0)(True := c1),
      written := (written ?g0)(True := written ?g0 True @ (if (1::int) < 0 then [] else [(mc_cid (m_chan (conn ?g0 True) 0), [7])]))\<rparr>"
  define g2 where "g2 = g1\<lparr>conn := (conn g1)(True := snd (snd demo_sent)),
      net := (net g1)((\<not> True) := net g1 (\<not> True) \<union> (if fst demo_sent = [] then {} else {(accepted g1 True, released g1 True + unsent (conn g1 True), fst demo_sent)}))\<rparr>"
  define g3 where "g3 = g2\<lparr>conn := (conn g2)(False := demo_fed),
      accepted := (accepted g2)(False := accepted g2 False + unat (rx_next demo_fed - rx_next (conn g2 False)))\<rparr>"
  have c1: "c1 = (mc_demo 1 2)\<lparr>txw := (txw (mc_demo 1 2))(0 := \<lparr>ts_seq = 0, ts_chan = 0, ts_data = [7]\<rparr>), tx_next := 1\<rparr>"
    by (simp add: c1_def mc_demo_eq mc_write_def microchan_zero_def mc_chan_zero_def MC_RELIABLE_def MC_WINDOW_def MC_MAXMSG_def MC_MTU_def Let_def)
  have idx: "released g1 True + unsent (conn g1 True) = 0"
    by (simp add: g1_def gbn_start_def released_def in_flight_def unsent_def c1) (simp add: mc_demo_eq microchan_zero_def)
  have "gbn_step ?g0 g1" unfolding g1_def
    by (rule gbn_write) (use w in \<open>simp_all add: gbn_start_def mc_demo_facts MC_MAX_CHAN_def\<close>)
  moreover have "gbn_step g1 g2" unfolding g2_def
    by (rule gbn_send [where e = True and buflen = MC_MTU and dst = "fst (snd demo_sent)"]) (use s in \<open>simp add: g1_def\<close>)
  moreover have "gbn_step g2 g3" unfolding g3_def
    by (rule gbn_deliver [where e = False and a = 0 and lo = 0 and p = "fst demo_sent" and src = None and r = r])
       (use f idx in \<open>simp_all add: g2_def demo_eval(1) g1_def gbn_start_def released_def\<close>)
  moreover have "g3 = demo_run"
    by (simp add: g3_def g2_def idx demo_eval(1,2)) (auto simp: g1_def gbn_start_def demo_run_def mc_demo_facts demo_eval(1) fun_eq_iff; simp add: mc_demo_eq microchan_zero_def)
  ultimately show ?thesis by (meson converse_rtranclp_into_rtranclp rtranclp.rtrancl_refl)
qed

theorem gbn_in_order_witness:
  "gbn_step\<^sup>*\<^sup>* (gbn_start (mc_demo 1 2) (mc_demo 2 1)) demo_run \<and> rx_msgs (m_chan (conn demo_run False) 0) = [[7]]"
proof -
  have "got demo_run False 0 @ rx_msgs (m_chan (conn demo_run False) 0) =
      chan_msgs 0 (take (accepted demo_run False) (written demo_run (\<not> False)))"
    using gbn_in_order [OF mc_demo_fresh mc_demo_fresh _ _ demo_run_steps, of 0 False]
    by (simp add: mc_demo_facts MC_MAX_CHAN_def demo_run_def demo_eval(3))
  then show ?thesis using demo_run_steps by (simp add: demo_run_def chan_msgs_def)
qed

section \<open>Retransmission\<close>

text \<open>A connected endpoint that keeps being acknowledged nothing does not retransmit forever: each
  expiry of the retransmission timer rewinds the window and waits 240, 480 or 960 milliseconds, and the
  thirteenth closes the connection with a DISCONNECTED event.\<close>

theorem mc_retransmit:
  assumes "m_state c = MC_STATE_CONNECTED" "tx_base c \<noteq> tx_next c" "tx_timer c \<noteq> 0" "tx_timer c \<le> now"
    "now - m_last_recv c \<le> IDLE_MS" "tx_attempts c \<le> RT_ATTEMPTS"
  shows "(if tx_attempts c = RT_ATTEMPTS
     then fst (mc_service c now) = MC_ERR \<and> m_state (snd (mc_service c now)) = MC_STATE_CLOSED
     else fst (mc_service c now) = 120 \<and> m_state (snd (mc_service c now)) = MC_STATE_CONNECTED \<and>
       tx_unsent (snd (mc_service c now)) = tx_base c \<and> tx_attempts (snd (mc_service c now)) = tx_attempts c + 1 \<and>
       tx_timer (snd (mc_service c now)) - now \<in> {240, 480, 960})"
proof -
  have "unat (tx_attempts c) \<le> 12" using assms(6) by (simp add: word_le_nat_alt RT_ATTEMPTS_def)
  then have "tx_attempts c = of_nat (unat (tx_attempts c)) \<and> unat (tx_attempts c) \<in> set [0 ..< 13]" by auto
  then have cases: "tx_attempts c \<in> of_nat ` set [0 ..< 13]" by blast
  have b: "\<not> IDLE_MS < now - m_last_recv c" using assms(5) by simp
  have "tx_attempts c \<in> {0, 1, 2, 3, 4, 5, 6, 7, 8, 9, 10, 11, 12}" using cases by (simp add: upt_rec numeral_eq_Suc)
  then have n: "\<not> RT_ATTEMPTS < tx_attempts c + 1 \<and> rt_backoff (tx_attempts c + 1) \<in> {240, 480, 960}" if "tx_attempts c \<noteq> RT_ATTEMPTS"
    using that by (auto simp: RT_ATTEMPTS_def rt_backoff_def RT_MS_def RT_MAX_MS_def Let_def)
  show ?thesis using assms(1-4) b n
    by (auto simp: mc_service_def Let_def RT_MS_def RT_ATTEMPTS_def)
qed

theorem mc_retransmit_witness:
  "tx_timer (snd (mc_service ((mc_demo 1 2)\<lparr>tx_next := 1, tx_timer := 120\<rparr>) 150)) - 150 \<in> {240, 480, 960}"
  using mc_retransmit [of "(mc_demo 1 2)\<lparr>tx_next := 1, tx_timer := 120\<rparr>" 150]
  by (simp add: mc_demo_eq microchan_zero_def IDLE_MS_def RT_ATTEMPTS_def)

end
