(* ===== verification/Microser.thy ===== *)
theory Microser
  imports Prelude
begin

text \<open>
  Tagged message serialisation (\<open>idl/microser.h\<close>).  A writer gets the buffer, a position and a
  limit and returns the new position or \<open>MS_ERR\<close>, with the buffer it leaves behind; a reader returns
  the value and the new position, or nothing for \<open>MS_ERR\<close>.  The outer option is undefined
  behaviour: an access outside the buffer.  Positions are C \<open>int\<close>s that stay far below \<open>INT_MAX\<close>,
  so their sums do not overflow.  A signed value is an \<open>int\<close> in the range of its type.
\<close>

section \<open>Checked access at an \<open>int\<close> position\<close>

definition put_at :: "bytes \<Rightarrow> int \<Rightarrow> bytes \<Rightarrow> bytes option" where
  "put_at buf pos bs = (if 0 \<le> pos \<and> nat pos + length bs \<le> length buf
     then Some (take (nat pos) buf @ bs @ drop (nat pos + length bs) buf) else None)"

definition get_at :: "bytes \<Rightarrow> int \<Rightarrow> u8 option" where
  "get_at buf pos = (if 0 \<le> pos then rd8 buf (nat pos) else None)"

lemma length_put_at: "put_at buf pos bs = Some buf' \<Longrightarrow> length buf' = length buf"
  by (auto simp: put_at_def split: if_splits)

lemma get_at_nth [simp]: "0 \<le> pos \<Longrightarrow> nat pos < length buf \<Longrightarrow> get_at buf pos = Some (buf ! nat pos)"
  by (simp add: get_at_def)

section \<open>Constants\<close>

definition MS_ERR :: int where "MS_ERR = -1"
definition MS_WIRE_8 :: u8 where "MS_WIRE_8 = 0"
definition MS_WIRE_16 :: u8 where "MS_WIRE_16 = 1"
definition MS_WIRE_32 :: u8 where "MS_WIRE_32 = 2"
definition MS_WIRE_64 :: u8 where "MS_WIRE_64 = 3"
definition MS_WIRE_BYTES :: u8 where "MS_WIRE_BYTES = 4"

lemmas ms_wire_defs = MS_WIRE_8_def MS_WIRE_16_def MS_WIRE_32_def MS_WIRE_64_def MS_WIRE_BYTES_def

text \<open>\<open>(uint8_t)((field << 3) | wire)\<close>\<close>

definition ms_tag :: "u8 \<Rightarrow> u8 \<Rightarrow> u8" where
  "ms_tag field wire = push_bit 3 field OR wire"

section \<open>Writing\<close>

type_synonym ms_written = "(int \<times> bytes) option"

definition ms_write_tag_u8 :: "bytes \<Rightarrow> int \<Rightarrow> int \<Rightarrow> u8 \<Rightarrow> u8 \<Rightarrow> ms_written" where
  "ms_write_tag_u8 buf pos len field val =
     (if pos + 2 > len then Some (MS_ERR, buf)
      else do { buf' \<leftarrow> put_at buf pos [ms_tag field MS_WIRE_8, val]; Some (pos + 2, buf') })"

definition ms_write_tag_i8 :: "bytes \<Rightarrow> int \<Rightarrow> int \<Rightarrow> u8 \<Rightarrow> int \<Rightarrow> ms_written" where
  "ms_write_tag_i8 buf pos len field val = ms_write_tag_u8 buf pos len field (word_of_int val)"

definition ms_write_tag_u16 :: "bytes \<Rightarrow> int \<Rightarrow> int \<Rightarrow> u8 \<Rightarrow> u16 \<Rightarrow> ms_written" where
  "ms_write_tag_u16 buf pos len field val =
     (if pos + 3 > len then Some (MS_ERR, buf)
      else do {
        buf' \<leftarrow> put_at buf pos [ms_tag field MS_WIRE_16, ucast (val AND 0xff), ucast (drop_bit 8 val AND 0xff)];
        Some (pos + 3, buf') })"

definition ms_write_tag_i16 :: "bytes \<Rightarrow> int \<Rightarrow> int \<Rightarrow> u8 \<Rightarrow> int \<Rightarrow> ms_written" where
  "ms_write_tag_i16 buf pos len field val = ms_write_tag_u16 buf pos len field (word_of_int val)"

definition ms_write_tag_u32 :: "bytes \<Rightarrow> int \<Rightarrow> int \<Rightarrow> u8 \<Rightarrow> u32 \<Rightarrow> ms_written" where
  "ms_write_tag_u32 buf pos len field val =
     (if pos + 5 > len then Some (MS_ERR, buf)
      else do {
        buf' \<leftarrow> put_at buf pos [ms_tag field MS_WIRE_32, ucast (val AND 0xff), ucast (drop_bit 8 val AND 0xff),
                  ucast (drop_bit 16 val AND 0xff), ucast (drop_bit 24 val AND 0xff)];
        Some (pos + 5, buf') })"

definition ms_write_tag_i32 :: "bytes \<Rightarrow> int \<Rightarrow> int \<Rightarrow> u8 \<Rightarrow> int \<Rightarrow> ms_written" where
  "ms_write_tag_i32 buf pos len field val = ms_write_tag_u32 buf pos len field (word_of_int val)"

definition ms_write_tag_u64 :: "bytes \<Rightarrow> int \<Rightarrow> int \<Rightarrow> u8 \<Rightarrow> u64 \<Rightarrow> ms_written" where
  "ms_write_tag_u64 buf pos len field val =
     (if pos + 9 > len then Some (MS_ERR, buf)
      else do {
        buf' \<leftarrow> put_at buf pos (ms_tag field MS_WIRE_64 # map (\<lambda>i. ucast (drop_bit (i * 8) val AND 0xff)) [0 ..< 8]);
        Some (pos + 9, buf') })"

definition ms_write_tag_i64 :: "bytes \<Rightarrow> int \<Rightarrow> int \<Rightarrow> u8 \<Rightarrow> int \<Rightarrow> ms_written" where
  "ms_write_tag_i64 buf pos len field val = ms_write_tag_u64 buf pos len field (word_of_int val)"

text \<open>The data is the list of its \<open>dlen\<close> bytes.\<close>

definition ms_write_tag_bytes :: "bytes \<Rightarrow> int \<Rightarrow> int \<Rightarrow> u8 \<Rightarrow> bytes \<Rightarrow> ms_written" where
  "ms_write_tag_bytes buf pos len field data =
     (let dlen = of_nat (length data) :: u16 in
      if pos + 3 + uint dlen > len then Some (MS_ERR, buf)
      else do {
        buf' \<leftarrow> put_at buf pos ([ms_tag field MS_WIRE_BYTES, ucast (dlen AND 0xff), ucast (drop_bit 8 dlen AND 0xff)] @ take (unat dlen) data);
        Some (pos + 3 + uint dlen, buf') })"

section \<open>Reading\<close>

type_synonym 'v ms_read = "('v \<times> int) option option"

definition ms_read_u8 :: "bytes \<Rightarrow> int \<Rightarrow> int \<Rightarrow> u8 ms_read" where
  "ms_read_u8 buf pos end = (if pos + 1 > end then Some None else do { a \<leftarrow> get_at buf pos; Some (Some (a, pos + 1)) })"

definition ms_read_i8 :: "bytes \<Rightarrow> int \<Rightarrow> int \<Rightarrow> int ms_read" where
  "ms_read_i8 buf pos end = map_option (map_option (map_prod sint id)) (ms_read_u8 buf pos end)"

definition ms_read_u16 :: "bytes \<Rightarrow> int \<Rightarrow> int \<Rightarrow> u16 ms_read" where
  "ms_read_u16 buf pos end =
     (if pos + 2 > end then Some None
      else do { a \<leftarrow> get_at buf pos; b \<leftarrow> get_at buf (pos + 1); Some (Some (ucast a OR push_bit 8 (ucast b), pos + 2)) })"

definition ms_read_i16 :: "bytes \<Rightarrow> int \<Rightarrow> int \<Rightarrow> int ms_read" where
  "ms_read_i16 buf pos end = map_option (map_option (map_prod sint id)) (ms_read_u16 buf pos end)"

definition ms_read_u32 :: "bytes \<Rightarrow> int \<Rightarrow> int \<Rightarrow> u32 ms_read" where
  "ms_read_u32 buf pos end =
     (if pos + 4 > end then Some None
      else do { a \<leftarrow> get_at buf pos; b \<leftarrow> get_at buf (pos + 1); c \<leftarrow> get_at buf (pos + 2); d \<leftarrow> get_at buf (pos + 3);
        Some (Some (((ucast a OR push_bit 8 (ucast b)) OR push_bit 16 (ucast c)) OR push_bit 24 (ucast d), pos + 4)) })"

definition ms_read_i32 :: "bytes \<Rightarrow> int \<Rightarrow> int \<Rightarrow> int ms_read" where
  "ms_read_i32 buf pos end = map_option (map_option (map_prod sint id)) (ms_read_u32 buf pos end)"

text \<open>The loop \<open>for (i = 0; i < 8; i++) v |= (uint64_t)buf[pos + i] << (i * 8)\<close>.\<close>

fun ms_u64_bytes :: "bytes \<Rightarrow> int \<Rightarrow> nat \<Rightarrow> u64 option" where
  "ms_u64_bytes buf pos 0 = Some 0"
| "ms_u64_bytes buf pos (Suc i) = do {
     v \<leftarrow> ms_u64_bytes buf pos i; b \<leftarrow> get_at buf (pos + int i); Some (v OR push_bit (i * 8) (ucast b)) }"

definition ms_read_u64 :: "bytes \<Rightarrow> int \<Rightarrow> int \<Rightarrow> u64 ms_read" where
  "ms_read_u64 buf pos end = (if pos + 8 > end then Some None else do { v \<leftarrow> ms_u64_bytes buf pos 8; Some (Some (v, pos + 8)) })"

definition ms_read_i64 :: "bytes \<Rightarrow> int \<Rightarrow> int \<Rightarrow> int ms_read" where
  "ms_read_i64 buf pos end = map_option (map_option (map_prod sint id)) (ms_read_u64 buf pos end)"

text \<open>The data pointer is the offset of the data in \<open>buf\<close>; the value is the pair of it and the
  length.\<close>

definition ms_read_bytes :: "bytes \<Rightarrow> int \<Rightarrow> int \<Rightarrow> u16 \<Rightarrow> (int \<times> u16) ms_read" where
  "ms_read_bytes buf pos end dmax =
     (if pos + 2 > end then Some None
      else do {
        a \<leftarrow> get_at buf pos; b \<leftarrow> get_at buf (pos + 1);
        let dlen = ucast a OR push_bit 8 (ucast b) :: u16; pos = pos + 2 in
        if pos + uint dlen > end \<or> dmax < dlen then Some None
        else Some (Some ((pos, dlen), pos + uint dlen)) })"

definition ms_skip :: "bytes \<Rightarrow> int \<Rightarrow> int \<Rightarrow> u8 \<Rightarrow> int option" where
  "ms_skip buf pos end wire =
     (if wire \<le> MS_WIRE_64 then
        let pos = pos + [1, 2, 4, 8] ! unat wire in Some (if pos \<le> end then pos else -1)
      else if wire = MS_WIRE_BYTES then
        if pos + 2 > end then Some MS_ERR
        else do {
          a \<leftarrow> get_at buf pos; b \<leftarrow> get_at buf (pos + 1);
          let blen = ucast a OR push_bit 8 (ucast b) :: u16; pos = pos + 2 + uint blen in
          Some (if pos \<le> end then pos else -1) }
      else Some MS_ERR)"

section \<open>Encodings of fields\<close>

text \<open>What a writer puts into the buffer.\<close>

definition le16 :: "u16 \<Rightarrow> bytes" where
  "le16 v = [ucast (v AND 0xff), ucast (drop_bit 8 v AND 0xff)]"

definition le32 :: "u32 \<Rightarrow> bytes" where
  "le32 v = [ucast (v AND 0xff), ucast (drop_bit 8 v AND 0xff), ucast (drop_bit 16 v AND 0xff), ucast (drop_bit 24 v AND 0xff)]"

definition le64 :: "u64 \<Rightarrow> bytes" where
  "le64 v = map (\<lambda>i. ucast (drop_bit (i * 8) v AND 0xff)) [0 ..< 8]"

lemma length_le [simp]: "length (le16 v) = 2" "length (le32 w) = 4" "length (le64 x) = 8"
  by (simp_all add: le16_def le32_def le64_def)

lemma mask_byte: "ucast (v AND 0xff) = (ucast v :: u8)" for v :: "'a::len word"
proof (rule bit_word_eqI)
  have ff: "(0xff :: 'a word) = mask 8" by (simp add: mask_eq_exp_minus_1)
  fix n assume "n < LENGTH(8)"
  then show "bit (ucast (v AND 0xff) :: u8) n = bit (ucast v :: u8) n"
    unfolding ff by (auto simp: bit_simps dest: bit_imp_le_length)
qed

lemma join16_le: "ucast (ucast v :: u8) OR push_bit 8 (ucast (ucast (drop_bit 8 v) :: u8)) = (v :: u16)"
  using join16 [of v] by (simp add: or.commute)

lemma join32_le:
  "((ucast (ucast v :: u8) OR push_bit 8 (ucast (ucast (drop_bit 8 v) :: u8))) OR push_bit 16 (ucast (ucast (drop_bit 16 v) :: u8)))
     OR push_bit 24 (ucast (ucast (drop_bit 24 v) :: u8)) = (v :: u32)"
  using join32 [of v] by (simp add: ac_simps)

lemma byte_split: "(ucast (drop_bit k v) :: u8) = ucast (drop_bit k v AND 0xff)" for v :: "'a::len word"
  by (simp only: mask_byte)

text \<open>Reading the bytes of an encoding that stands at \<open>pos\<close>.\<close>

definition at_pos :: "bytes \<Rightarrow> int \<Rightarrow> bytes \<Rightarrow> bool" where
  "at_pos buf pos bs \<longleftrightarrow> 0 \<le> pos \<and> take (length bs) (drop (nat pos) buf) = bs"

lemma at_pos_get:
  assumes "at_pos buf pos bs" "i < length bs"
  shows "get_at buf (pos + int i) = Some (bs ! i)"
proof -
  have eq: "take (length bs) (drop (nat pos) buf) = bs" and pos: "0 \<le> pos" using assms(1) by (simp_all add: at_pos_def)
  then have "length (take (length bs) (drop (nat pos) buf)) = length bs" by simp
  then have "nat pos + i < length buf" using assms(2) by simp
  moreover have "buf ! (nat pos + i) = bs ! i"
    using arg_cong [OF eq, of "\<lambda>l. l ! i"] assms(2) calculation by simp
  ultimately show ?thesis using pos by (simp add: nat_add_distrib)
qed

lemma take_append_iff: "take (length as + length bs) d = as @ bs \<longleftrightarrow> take (length as) d = as \<and> take (length bs) (drop (length as) d) = bs"
proof
  assume eq: "take (length as + length bs) d = as @ bs"
  have "take (length as) d = take (length as) (take (length as + length bs) d)" by simp
  moreover have "take (length bs) (drop (length as) d) = drop (length as) (take (length as + length bs) d)" by (simp add: drop_take)
  ultimately show "take (length as) d = as \<and> take (length bs) (drop (length as) d) = bs" by (simp add: eq)
qed (simp add: take_add)

lemma at_pos_append: "at_pos buf pos (as @ bs) \<longleftrightarrow> at_pos buf pos as \<and> at_pos buf (pos + int (length as)) bs"
proof (cases "0 \<le> pos")
  case True
  have "drop (length as) (drop (nat pos) buf) = drop (nat (pos + int (length as))) buf" using True by (simp add: nat_add_distrib add.commute)
  then show ?thesis using True by (simp add: at_pos_def take_append_iff)
qed (simp add: at_pos_def)

lemma put_at_pos: "put_at buf pos bs = Some buf' \<Longrightarrow> at_pos buf' pos bs"
  by (auto simp: put_at_def at_pos_def split: if_splits)

lemma at_pos_mid: "length pre = nat pos \<Longrightarrow> 0 \<le> pos \<Longrightarrow> at_pos (pre @ bs @ rest) pos bs"
  by (simp add: at_pos_def)

lemma at_pos_le16:
  assumes "at_pos buf pos (le16 v)"
  shows "\<exists>a b. get_at buf pos = Some a \<and> get_at buf (pos + 1) = Some b \<and> ucast a OR push_bit 8 (ucast b) = v"
  using at_pos_get [OF assms, of 0] at_pos_get [OF assms, of 1] join16_le [of v] by (simp add: le16_def mask_byte)

section \<open>The contract of a field type\<close>

text \<open>A writer puts a tag and an encoding, the reader gets the value back from the encoding, and
  \<open>ms_skip\<close> knows its size from the wire type alone.\<close>

locale ms_codec =
  fixes wire :: u8
    and enc :: "'v \<Rightarrow> bytes"
    and wr :: "bytes \<Rightarrow> int \<Rightarrow> int \<Rightarrow> u8 \<Rightarrow> 'v \<Rightarrow> ms_written"
    and rd :: "bytes \<Rightarrow> int \<Rightarrow> int \<Rightarrow> 'v ms_read"
    and valid :: "'v \<Rightarrow> bool"
  assumes wr_enc: "wr buf pos len field v =
      (if pos + 1 + int (length (enc v)) > len then Some (MS_ERR, buf)
       else do { buf' \<leftarrow> put_at buf pos (ms_tag field wire # enc v); Some (pos + 1 + int (length (enc v)), buf') })"
    and rd_enc: "valid v \<Longrightarrow> at_pos buf pos (enc v) \<Longrightarrow> pos + int (length (enc v)) \<le> end \<Longrightarrow>
      rd buf pos end = Some (Some (v, pos + int (length (enc v))))"
    and skip_enc: "at_pos buf pos (enc v) \<Longrightarrow> pos + int (length (enc v)) \<le> end \<Longrightarrow>
      ms_skip buf pos end wire = Some (pos + int (length (enc v)))"
begin

lemma write_ok:
  assumes "0 \<le> pos" "pos + 1 + int (length (enc v)) \<le> len" "len \<le> int (length buf)"
  shows "\<exists>buf'. wr buf pos len field v = Some (pos + 1 + int (length (enc v)), buf') \<and> at_pos buf' pos (ms_tag field wire # enc v) \<and>
    length buf' = length buf \<and> take (nat pos) buf' = take (nat pos) buf"
proof -
  have "nat pos + length (ms_tag field wire # enc v) \<le> length buf" using assms by simp
  then show ?thesis using assms by (auto simp: wr_enc put_at_def at_pos_def)
qed

lemma read_written:
  assumes v: "valid v" and pos: "0 \<le> pos" and fit: "pos + 1 + int (length (enc v)) \<le> len" "len \<le> int (length buf)"
  shows "\<exists>p buf'. wr buf pos len field v = Some (p, buf') \<and> get_at buf' pos = Some (ms_tag field wire) \<and>
    rd buf' (pos + 1) p = Some (Some (v, p)) \<and> ms_skip buf' (pos + 1) p wire = Some p"
proof -
  let ?p = "pos + 1 + int (length (enc v))"
  obtain buf' where w: "wr buf pos len field v = Some (?p, buf')" "at_pos buf' pos (ms_tag field wire # enc v)"
    using write_ok [OF pos fit] by blast
  then have at: "at_pos buf' (pos + 1) (enc v)" using at_pos_append [of buf' pos "[ms_tag field wire]" "enc v"] by simp
  have "get_at buf' pos = Some (ms_tag field wire)" using at_pos_get [OF w(2), of 0] by simp
  moreover have "rd buf' (pos + 1) ?p = Some (Some (v, ?p))" using rd_enc [OF v at] by simp
  moreover have "ms_skip buf' (pos + 1) ?p wire = Some ?p" using skip_enc [OF at] by simp
  ultimately show ?thesis using w(1) by blast
qed

end

lemma sizes_nth: "[1, 2, 4, 8 :: int] ! unat (0 :: u8) = 1" "[1, 2, 4, 8 :: int] ! unat (1 :: u8) = 2"
  "[1, 2, 4, 8 :: int] ! unat (2 :: u8) = 4" "[1, 2, 4, 8 :: int] ! unat (3 :: u8) = 8"
  by simp_all

lemma ms_skip_64: "ms_skip buf pos end 3 = Some (if pos + 8 \<le> end then pos + 8 else -1)"
  unfolding ms_skip_def MS_WIRE_64_def sizes_nth Let_def by simp

lemma at_pos_u64:
  assumes "at_pos buf pos (le64 v)" "n \<le> 8"
  shows "ms_u64_bytes buf pos n = Some (take_bit (n * 8) v)"
  using assms(2)
proof (induction n)
  case (Suc n)
  have "get_at buf (pos + int n) = Some (ucast (drop_bit (n * 8) v))"
    using at_pos_get [OF assms(1), of n] Suc.prems by (simp add: le64_def mask_byte)
  moreover have "take_bit (n * 8) v OR push_bit (n * 8) (ucast (ucast (drop_bit (n * 8) v) :: u8)) = take_bit (Suc n * 8) v"
    by (rule bit_word_eqI) (auto simp: bit_simps)
  ultimately show ?case using Suc by simp
qed simp

lemma at_pos_le32:
  assumes "at_pos buf pos (le32 v)"
  shows "\<exists>a b c d. get_at buf pos = Some a \<and> get_at buf (pos + 1) = Some b \<and> get_at buf (pos + 2) = Some c \<and>
    get_at buf (pos + 3) = Some d \<and> ((ucast a OR push_bit 8 (ucast b)) OR push_bit 16 (ucast c)) OR push_bit 24 (ucast d) = v"
  using at_pos_get [OF assms, of 0] at_pos_get [OF assms, of 1] at_pos_get [OF assms, of 2] at_pos_get [OF assms, of 3] join32_le [of v]
  by (simp add: le32_def mask_byte numeral_2_eq_2 numeral_3_eq_3)

interpretation ms_u8: ms_codec MS_WIRE_8 "\<lambda>v. [v]" ms_write_tag_u8 ms_read_u8 "\<lambda>_. True"
  using at_pos_get [where i = 0]
  by unfold_locales (auto simp: ms_write_tag_u8_def ms_read_u8_def ms_skip_def ms_wire_defs Let_def add.commute)

interpretation ms_u16: ms_codec MS_WIRE_16 le16 ms_write_tag_u16 ms_read_u16 "\<lambda>_. True"
  by unfold_locales
    (auto simp: ms_write_tag_u16_def ms_read_u16_def ms_skip_def ms_wire_defs Let_def le16_def [symmetric] add.commute [of 3] dest!: at_pos_le16)

interpretation ms_u32: ms_codec MS_WIRE_32 le32 ms_write_tag_u32 ms_read_u32 "\<lambda>_. True"
  by unfold_locales
    (auto simp: ms_write_tag_u32_def ms_read_u32_def ms_skip_def ms_wire_defs Let_def le32_def [symmetric] add.commute [of 5] word_le_nat_alt dest!: at_pos_le32)

interpretation ms_u64: ms_codec MS_WIRE_64 le64 ms_write_tag_u64 ms_read_u64 "\<lambda>_. True"
proof
  fix buf pos "end" v assume "at_pos buf pos (le64 v)"
  from at_pos_u64 [OF this, of 8] have "ms_u64_bytes buf pos 8 = Some v" by (simp add: take_bit_word_eq_self)
  then show "pos + int (length (le64 v)) \<le> end \<Longrightarrow> ms_read_u64 buf pos end = Some (Some (v, pos + int (length (le64 v))))"
    by (simp add: ms_read_u64_def)
qed (simp_all add: ms_write_tag_u64_def MS_WIRE_64_def ms_skip_64 le64_def [symmetric] add.commute)

text \<open>The signed types are the unsigned ones seen through \<open>sint\<close> and \<open>word_of_int\<close>.\<close>

definition fits :: "nat \<Rightarrow> int \<Rightarrow> bool" where
  "fits w v \<longleftrightarrow> - (2 ^ (w - 1)) \<le> v \<and> v < 2 ^ (w - 1)"

lemma sint_fits: "fits LENGTH('a) v \<Longrightarrow> sint (word_of_int v :: 'a::len word) = v"
  by (simp add: fits_def signed_of_int signed_take_bit_int_eq_self)

lemma ms_tag_parts: "wire < 8 \<Longrightarrow> field < 32 \<Longrightarrow> drop_bit 3 (ms_tag field wire) = field \<and> ms_tag field wire AND 7 = wire"
proof
  assume w: "wire < 8" and f: "field < 32"
  have wb: "\<not> bit wire n" if "3 \<le> n" for n
  proof -
    have "take_bit 3 wire = wire" using w by (simp add: take_bit_eq_mod mod_word_less)
    then show ?thesis using that by (metis bit_take_bit_iff not_less)
  qed
  have fb: "\<not> bit field n" if "5 \<le> n" for n
  proof -
    have "take_bit 5 field = field" using f by (simp add: take_bit_eq_mod mod_word_less)
    then show ?thesis using that by (metis bit_take_bit_iff not_less)
  qed
  show "drop_bit 3 (ms_tag field wire) = field" unfolding ms_tag_def
    by (rule bit_word_eqI) (use wb fb not_le_imp_less in \<open>auto simp: bit_simps\<close>)
  have m: "(7 :: u8) = mask 3" by (simp add: mask_eq_exp_minus_1)
  show "ms_tag field wire AND 7 = wire" unfolding ms_tag_def m
    by (rule bit_word_eqI) (use wb not_le_imp_less in \<open>auto simp: bit_simps\<close>)
qed

section \<open>Length-prefixed fields\<close>

lemma unat_len16: "length d < 65536 \<Longrightarrow> unat (of_nat (length d) :: u16) = length d"
  by (simp add: unat_of_nat take_bit_nat_eq_self)

lemma ms_write_bytes_enc:
  assumes "length d < 65536"
  shows "ms_write_tag_bytes buf pos len field d =
    (if pos + 3 + int (length d) > len then Some (MS_ERR, buf)
     else do { buf' \<leftarrow> put_at buf pos (ms_tag field MS_WIRE_BYTES # le16 (of_nat (length d)) @ d); Some (pos + 3 + int (length d), buf') })"
proof -
  have "uint (of_nat (length d) :: u16) = int (length d)" using unat_len16 [OF assms] by (metis uint_nat)
  then show ?thesis using unat_len16 [OF assms] by (simp add: ms_write_tag_bytes_def Let_def le16_def)
qed

lemma ms_read_bytes_enc:
  assumes "length d < 65536" "at_pos buf pos (le16 (of_nat (length d)) @ d)" "pos + 2 + int (length d) \<le> end" "of_nat (length d) \<le> dmax"
  shows "ms_read_bytes buf pos end dmax = Some (Some ((pos + 2, of_nat (length d)), pos + 2 + int (length d)))"
    and "ms_skip buf pos end MS_WIRE_BYTES = Some (pos + 2 + int (length d))"
proof -
  have "at_pos buf pos (le16 (of_nat (length d)))" using assms(2) at_pos_append by blast
  from at_pos_le16 [OF this] obtain a b where ab: "get_at buf pos = Some a" "get_at buf (pos + 1) = Some b"
      "ucast a OR push_bit 8 (ucast b) = (of_nat (length d) :: u16)" by blast
  have u: "uint (of_nat (length d) :: u16) = int (length d)" using unat_len16 [OF assms(1)] by (metis uint_nat)
  show "ms_read_bytes buf pos end dmax = Some (Some ((pos + 2, of_nat (length d)), pos + 2 + int (length d)))"
    using assms(3,4) by (simp add: ms_read_bytes_def ab u Let_def)
  show "ms_skip buf pos end MS_WIRE_BYTES = Some (pos + 2 + int (length d))"
    using assms(3) by (simp add: ms_skip_def ab u Let_def ms_wire_defs word_le_nat_alt)
qed

section \<open>Readers stay inside the buffer\<close>

lemma ms_read_ok:
  assumes "0 \<le> pos" "end \<le> int (length buf)"
  shows "ok (ms_read_u16 buf pos end) (\<lambda>r. \<forall>v q. r = Some (v, q) \<longrightarrow> q = pos + 2 \<and> q \<le> end)"
    and "ok (ms_read_u32 buf pos end) (\<lambda>r. \<forall>v q. r = Some (v, q) \<longrightarrow> q = pos + 4 \<and> q \<le> end)"
    and "ok (ms_read_bytes buf pos end dmax) (\<lambda>r. \<forall>off n q. r = Some ((off, n), q) \<longrightarrow> off = pos + 2 \<and> q = off + int (unat n) \<and> q \<le> end)"
    and "ok (ms_skip buf pos end wire) (\<lambda>q. q < 0 \<or> pos \<le> q \<and> q \<le> end)"
proof -
  have g: "get_at buf (pos + k) = Some (buf ! nat (pos + k))" if "0 \<le> k" "pos + k < end" for k using that assms by simp
  have g0: "get_at buf pos = Some (buf ! nat pos)" if "pos < end" using that assms by simp
  show "ok (ms_read_u16 buf pos end) (\<lambda>r. \<forall>v q. r = Some (v, q) \<longrightarrow> q = pos + 2 \<and> q \<le> end)"
    using assms by (simp add: ms_read_u16_def)
  show "ok (ms_read_u32 buf pos end) (\<lambda>r. \<forall>v q. r = Some (v, q) \<longrightarrow> q = pos + 4 \<and> q \<le> end)"
    using assms by (simp add: ms_read_u32_def)
  show "ok (ms_read_bytes buf pos end dmax) (\<lambda>r. \<forall>off n q. r = Some ((off, n), q) \<longrightarrow> off = pos + 2 \<and> q = off + int (unat n) \<and> q \<le> end)"
    using assms by (auto simp: ms_read_bytes_def Let_def)
  have sz: "0 < [1, 2, 4, 8 :: int] ! unat wire" if "wire \<le> MS_WIRE_64"
  proof -
    have "unat wire < 4" using that by (simp add: MS_WIRE_64_def word_le_nat_alt)
    then have "unat wire \<in> {0, 1, 2, 3}" by auto
    then show ?thesis by auto
  qed
  show "ok (ms_skip buf pos end wire) (\<lambda>q. q < 0 \<or> pos \<le> q \<and> q \<le> end)"
    using assms sz by (auto simp: ms_skip_def Let_def MS_ERR_def)
qed

section \<open>Properties\<close>

text \<open>Microser round trip.  Writing a number of any of the four widths at a position where it fits
  returns the position after it, and there is the tag, then exactly that number for the matching
  reader, and \<open>ms_skip\<close> with the tag's wire type steps over it to the same position.\<close>

theorem ms_round_trip:
  assumes "0 \<le> pos" "pos + 9 \<le> len" "len \<le> int (length buf)"
  shows "(\<exists>p b. ms_write_tag_u8 buf pos len f v8 = Some (p, b) \<and> get_at b pos = Some (ms_tag f MS_WIRE_8) \<and>
      ms_read_u8 b (pos + 1) p = Some (Some (v8, p)) \<and> ms_skip b (pos + 1) p MS_WIRE_8 = Some p) \<and>
    (\<exists>p b. ms_write_tag_u16 buf pos len f v16 = Some (p, b) \<and> get_at b pos = Some (ms_tag f MS_WIRE_16) \<and>
      ms_read_u16 b (pos + 1) p = Some (Some (v16, p)) \<and> ms_skip b (pos + 1) p MS_WIRE_16 = Some p) \<and>
    (\<exists>p b. ms_write_tag_u32 buf pos len f v32 = Some (p, b) \<and> get_at b pos = Some (ms_tag f MS_WIRE_32) \<and>
      ms_read_u32 b (pos + 1) p = Some (Some (v32, p)) \<and> ms_skip b (pos + 1) p MS_WIRE_32 = Some p) \<and>
    (\<exists>p b. ms_write_tag_u64 buf pos len f v64 = Some (p, b) \<and> get_at b pos = Some (ms_tag f MS_WIRE_64) \<and>
      ms_read_u64 b (pos + 1) p = Some (Some (v64, p)) \<and> ms_skip b (pos + 1) p MS_WIRE_64 = Some p)"
  using ms_u8.read_written [of pos v8 len buf f] ms_u16.read_written [of pos v16 len buf f]
    ms_u32.read_written [of pos v32 len buf f] ms_u64.read_written [of pos v64 len buf f] assms
  by simp

theorem ms_round_trip_witness:
  "\<exists>p b. ms_write_tag_u32 (replicate 16 0) 2 16 7 0xdeadbeef = Some (p, b) \<and> ms_read_u32 b 3 p = Some (Some (0xdeadbeef, p))"
  using ms_round_trip [where pos = 2 and len = 16 and buf = "replicate 16 0" and f = 7 and ?v8.0 = 0 and ?v16.0 = 0 and ?v32.0 = "0xdeadbeef" and ?v64.0 = 0] by auto

text \<open>The signed readers give back every value of their type that the signed writers were given,
  negative ones included.\<close>

theorem ms_signed_round_trip:
  assumes "0 \<le> pos" "pos + 9 \<le> len" "len \<le> int (length buf)" "fits 8 a" "fits 16 b" "fits 32 c" "fits 64 d"
  shows "(\<exists>p q. ms_write_tag_i8 buf pos len f a = Some (p, q) \<and> ms_read_i8 q (pos + 1) p = Some (Some (a, p))) \<and>
    (\<exists>p q. ms_write_tag_i16 buf pos len f b = Some (p, q) \<and> ms_read_i16 q (pos + 1) p = Some (Some (b, p))) \<and>
    (\<exists>p q. ms_write_tag_i32 buf pos len f c = Some (p, q) \<and> ms_read_i32 q (pos + 1) p = Some (Some (c, p))) \<and>
    (\<exists>p q. ms_write_tag_i64 buf pos len f d = Some (p, q) \<and> ms_read_i64 q (pos + 1) p = Some (Some (d, p)))"
proof -
  have s: "sint (word_of_int a :: u8) = a" "sint (word_of_int b :: u16) = b" "sint (word_of_int c :: u32) = c" "sint (word_of_int d :: u64) = d"
    using assms(4-7) sint_fits [where 'a = 8, of a] sint_fits [where 'a = 16, of b] sint_fits [where 'a = 32, of c] sint_fits [where 'a = 64, of d]
    by simp_all
  note defs = ms_write_tag_i8_def ms_read_i8_def ms_write_tag_i16_def ms_read_i16_def ms_write_tag_i32_def ms_read_i32_def
    ms_write_tag_i64_def ms_read_i64_def
  from ms_u8.read_written [of pos "word_of_int a" len buf f] ms_u16.read_written [of pos "word_of_int b" len buf f]
    ms_u32.read_written [of pos "word_of_int c" len buf f] ms_u64.read_written [of pos "word_of_int d" len buf f] assms(1-3)
  show ?thesis unfolding defs by (auto simp: s)
qed

theorem ms_signed_round_trip_witness:
  "\<exists>p q. ms_write_tag_i16 (replicate 10 0) 0 10 3 (-2) = Some (p, q) \<and> ms_read_i16 q 1 p = Some (Some (-2, p))"
  using ms_signed_round_trip [of 0 10 "replicate 10 0" 0 "-2" 0 0 3] by (simp add: fits_def)

end
