(* ===== verification/Beacon_Props.thy ===== *)
theory Beacon_Props
  imports Beacon
begin

text \<open>
  The discovery packet is parsed safely from any bytes, an announcement and a probe survive the trip
  over the wire, and fields from a later version are skipped.
\<close>

section \<open>Safety of the parser\<close>

definition beacon_wf :: "nc_beacon \<Rightarrow> bool" where
  "beacon_wf b \<longleftrightarrow> length (b_name b) = NC_BEACON_MAX_NAME + 1 \<and> length (contact b) = NC_BEACON_MAX_CONTACT + 1 \<and> length (b_key b) = 32 \<and>
     0 \<in> set (b_name b) \<and> 0 \<in> set (contact b)"

lemma beacon_zero_wf: "beacon_wf beacon_zero"
  by (simp add: beacon_wf_def beacon_zero_def NC_BEACON_MAX_NAME_def NC_BEACON_MAX_CONTACT_def)

lemma take_str_ok:
  assumes "0 \<le> off" "off + int n \<le> int (length src)"
  shows "ok (take_str dst src off n) (\<lambda>r. \<forall>d. r = Some d \<longrightarrow> length d = length dst \<and> 0 \<in> set d)"
proof -
  have "nat off + n \<le> length src" using assms by linarith
  then show ?thesis by (auto simp: take_str_def put_at_def)
qed

lemma parse_field_ok:
  assumes pos: "0 \<le> pos" "pos < int (length p)" and wf: "beacon_wf b"
  shows "ok (parse_field p pos (int (length p)) b) (\<lambda>(b', r). beacon_wf b' \<and> (\<forall>q. r = Some q \<longrightarrow> pos < q \<and> q \<le> int (length p)))"
proof -
  let ?stop = "int (length p)"
  have p1: "0 \<le> pos + 1" using pos by simp
  note r = ms_read_ok [OF p1 order_refl]
  have tag: "get_at p pos = Some (p ! nat pos)" using pos by simp
  define t where "t = p ! nat pos"
  show ?thesis
  proof (cases "t AND 7 = MS_WIRE_BYTES")
    case True
    obtain x where x: "ms_read_bytes p (pos + 1) ?stop 0xffff = Some x"
        "\<forall>off n q. x = Some ((off, n), q) \<longrightarrow> off = pos + 1 + 2 \<and> q = off + int (unat n) \<and> q \<le> ?stop"
      using okE [OF r(3) [of p "0xffff"]] by blast
    show ?thesis
    proof (cases x)
      case None
      then show ?thesis using x wf True by (simp add: parse_field_def tag t_def Let_def)
    next
      case (Some y)
      then obtain n where y: "y = ((pos + 3, n), pos + 3 + int (unat n))" "pos + 3 + int (unat n) \<le> ?stop" using x(2) by (cases y) fastforce
      have off: "0 \<le> pos + 3" "pos + 3 + int (unat n) \<le> ?stop" "nat (pos + 3) + unat n \<le> length p" using pos y(2) by linarith+
      obtain d1 where d1: "take_str (b_name b) p (pos + 3) (unat n) = Some d1" "\<forall>d. d1 = Some d \<longrightarrow> length d = length (b_name b) \<and> 0 \<in> set d"
        using take_str_ok [OF off(1,2)] by (auto elim!: okE)
      obtain d2 where d2: "take_str (contact b) p (pos + 3) (unat n) = Some d2" "\<forall>d. d2 = Some d \<longrightarrow> length d = length (contact b) \<and> 0 \<in> set d"
        using take_str_ok [OF off(1,2)] by (auto elim!: okE)
      have "0 < 3 + uint n" by (simp add: add_pos_nonneg)
      then show ?thesis using x(1) Some y wf True d1 d2 off(3)
        by (auto simp: parse_field_def tag t_def Let_def beacon_wf_def split: option.split)
    qed
  next
    case False
    obtain x where x: "ms_read_u16 p (pos + 1) ?stop = Some x" "\<forall>v q. x = Some (v, q) \<longrightarrow> q = pos + 1 + 2 \<and> q \<le> ?stop"
      using okE [OF r(1) [of p]] by blast
    obtain y where y: "ms_read_u32 p (pos + 1) ?stop = Some y" "\<forall>v q. y = Some (v, q) \<longrightarrow> q = pos + 1 + 4 \<and> q \<le> ?stop"
      using okE [OF r(2) [of p]] by blast
    obtain z where z: "ms_skip p (pos + 1) ?stop (t AND 7) = Some z" "z < 0 \<or> pos + 1 \<le> z \<and> z \<le> ?stop"
      using okE [OF r(4) [of p]] by blast
    show ?thesis using False x y z wf
      by (auto simp: parse_field_def tag t_def [symmetric] Let_def beacon_wf_def split: option.split)
  qed
qed

lemma parse_loop_ok:
  "0 \<le> pos \<Longrightarrow> end = int (length p) \<Longrightarrow> beacon_wf b \<Longrightarrow>
   ok (parse_loop p pos end b) (\<lambda>(b', r). beacon_wf b' \<and> (r = NC_BEACON_OK \<or> r = NC_BEACON_ERR))"
proof (induction p pos "end" b rule: parse_loop.induct)
  case (1 p pos "end" b)
  show ?case
  proof (cases "pos < end")
    case True
    obtain b' r where f: "parse_field p pos end b = Some (b', r)" "beacon_wf b'" "\<forall>q. r = Some q \<longrightarrow> pos < q \<and> q \<le> end"
      using parse_field_ok [OF "1.prems"(1) _ "1.prems"(3), of p] True "1.prems"(2) by (auto elim!: okE)
    show ?thesis
    proof (cases r)
      case None
      then show ?thesis using f True by (simp add: parse_loop.simps [of p pos])
    next
      case (Some q)
      then have q: "pos < q" using f(3) by simp
      have "ok (parse_loop p q end b') (\<lambda>(b', r). beacon_wf b' \<and> (r = NC_BEACON_OK \<or> r = NC_BEACON_ERR))"
        by (rule "1.IH" [OF True f(1) refl Some q]) (use q "1.prems" f(2) in simp_all)
      then show ?thesis using f(1) Some q True by (simp add: parse_loop.simps [of p pos])
    qed
  next
    case False
    then show ?thesis using "1.prems" by (simp add: parse_loop.simps [of p pos])
  qed
qed

lemma nc_beacon_kind_ok: "ok (nc_beacon_kind p) (\<lambda>k. k = NC_BEACON_ERR \<or> HDR \<le> length p \<and> length p \<le> NC_BEACON_MAX \<and> (k = 1 \<or> k = 2))"
proof (cases "length p < HDR \<or> NC_BEACON_MAX < length p")
  case False
  then have "4 < length p" "p \<noteq> []" by (auto simp: HDR_def)
  then show ?thesis using False by (simp add: nc_beacon_kind_def NC_BEACON_ANNOUNCE_def NC_BEACON_PROBE_def)
qed (simp add: nc_beacon_kind_def)

section \<open>The encoding of an announcement\<close>

definition fld16 :: "u8 \<Rightarrow> u16 \<Rightarrow> bytes" where "fld16 f v = ms_tag f MS_WIRE_16 # le16 v"
definition fld32 :: "u8 \<Rightarrow> u32 \<Rightarrow> bytes" where "fld32 f v = ms_tag f MS_WIRE_32 # le32 v"
definition fldb :: "u8 \<Rightarrow> bytes \<Rightarrow> bytes" where "fldb f d = ms_tag f MS_WIRE_BYTES # le16 (of_nat (length d)) @ d"
definition fopt :: "bool \<Rightarrow> bytes \<Rightarrow> bytes" where "fopt c bs = (if c then bs else [])"

definition beacon_head :: "u8 \<Rightarrow> bytes" where
  "beacon_head kind = le32 NC_BEACON_MAGIC @ [kind]"

lemma length_fld [simp]: "length (fld16 f v) = 3" "length (fld32 f w) = 5" "length (fldb f d) = 3 + length d"
  by (simp_all add: fld16_def fld32_def fldb_def)

lemma length_head [simp]: "length (beacon_head k) = 5"
  by (simp add: beacon_head_def)

text \<open>The buffer holds \<open>out\<close>, at most \<open>k\<close> bytes of it, and the position stands after it.\<close>

definition holds :: "nat \<Rightarrow> nat \<Rightarrow> bytes \<Rightarrow> int \<times> bytes \<Rightarrow> bool" where
  "holds L k out s \<longleftrightarrow> (case s of (pos, buf) \<Rightarrow> pos = int (length out) \<and> length out \<le> k \<and> length buf = L \<and> take (length out) buf = out)"

lemma put_field_step:
  assumes s: "holds L k out s" and w: "\<And>buf pos. w buf pos = (if pos + int (length bs) > cap then Some (MS_ERR, buf)
      else do { buf' \<leftarrow> put_at buf pos bs; Some (pos + int (length bs), buf') })"
    and fit: "length bs \<le> n" "int (k + n) \<le> cap" "cap \<le> int L"
    and rest: "\<And>s'. holds L (k + n) (out @ fopt c bs) s' \<Longrightarrow> ok (f s') P"
  shows "ok (put_field c w s \<bind> f) P"
proof -
  obtain buf where st: "s = (int (length out), buf)" "length out \<le> k" "length buf = L" "take (length out) buf = out"
    using s by (auto simp: holds_def)
  show ?thesis
  proof (cases c)
    case False
    then show ?thesis using rest st s by (simp add: put_field_def fopt_def holds_def)
  next
    case True
    have le: "length out + length bs \<le> L" using st(2) fit by linarith
    let ?b = "take (length out) buf @ bs @ drop (length out + length bs) buf"
    have "w buf (int (length out)) = Some (int (length out) + int (length bs), ?b)"
      using fit st le by (simp add: w put_at_def)
    moreover have "holds L (k + n) (out @ fopt c bs) (int (length out) + int (length bs), ?b)"
      using st le fit True by (simp add: holds_def fopt_def)
    ultimately show ?thesis using True st rest by (simp add: put_field_def)
  qed
qed

lemma write16_law: "ms_write_tag_u16 buf pos cap f v = (if pos + int (length (fld16 f v)) > cap then Some (MS_ERR, buf)
      else do { buf' \<leftarrow> put_at buf pos (fld16 f v); Some (pos + int (length (fld16 f v)), buf') })"
  by (simp add: ms_u16.wr_enc fld16_def add.assoc)

lemma write32_law: "ms_write_tag_u32 buf pos cap f v = (if pos + int (length (fld32 f v)) > cap then Some (MS_ERR, buf)
      else do { buf' \<leftarrow> put_at buf pos (fld32 f v); Some (pos + int (length (fld32 f v)), buf') })"
  by (simp add: ms_u32.wr_enc fld32_def add.assoc)

lemma writeb_law: "length d \<le> 64 \<Longrightarrow> ms_write_tag_bytes buf pos cap f d = (if pos + int (length (fldb f d)) > cap then Some (MS_ERR, buf)
      else do { buf' \<leftarrow> put_at buf pos (fldb f d); Some (pos + int (length (fldb f d)), buf') })"
  by (simp add: ms_write_bytes_enc fldb_def add.assoc [symmetric])

lemmas field16_step = put_field_step [OF _ write16_law, where n = 3, unfolded length_fld, OF _ order_refl]
lemmas field32_step = put_field_step [OF _ write32_law, where n = 5, unfolded length_fld, OF _ order_refl]
lemmas fieldb_step = put_field_step [OF _ writeb_law, where n = 67, unfolded length_fld]

text \<open>The strings.\<close>

lemma bounded_len_str:
  assumes "0 \<notin> set nm" "length nm < cap"
  shows "n \<le> length nm \<Longrightarrow> bounded_len (nm @ 0 # rest) cap n = Some (length nm)"
proof (induction "length nm - n" arbitrary: n)
  case 0
  then have n: "n = length nm" by simp
  show ?case unfolding n using assms by (subst bounded_len.simps) simp
next
  case (Suc k)
  then have "n < length nm" by simp
  then have "nm ! n \<noteq> 0" using assms(1) nth_mem by fastforce
  then show ?case using Suc \<open>n < length nm\<close> assms by (subst bounded_len.simps) (simp add: nth_append)
qed

text \<open>A beacon as an application fills it in: strings of at most 64 characters, zero padded, a
  32-byte key, which is zero when there is none.\<close>

definition padded :: "nat \<Rightarrow> bytes \<Rightarrow> bytes" where
  "padded n s = s @ replicate (n - length s) 0"

definition beacon_ok :: "bytes \<Rightarrow> bytes \<Rightarrow> nc_beacon \<Rightarrow> bool" where
  "beacon_ok nm ct b \<longleftrightarrow> b_name b = padded 65 nm \<and> contact b = padded 65 ct \<and> length nm \<le> 64 \<and> length ct \<le> 64 \<and>
     0 \<notin> set nm \<and> 0 \<notin> set ct \<and> length (b_key b) = 32 \<and> (\<not> has_key b \<longrightarrow> b_key b = replicate 32 0)"

lemma bounded_len_padded: "0 \<notin> set nm \<Longrightarrow> length nm \<le> 64 \<Longrightarrow> bounded_len (padded 65 nm) 65 0 = Some (length nm)"
proof -
  assume nm: "0 \<notin> set nm" "length nm \<le> 64"
  then have "replicate (65 - length nm) 0 = (0 :: u8) # replicate (64 - length nm) 0" by (simp add: Suc_diff_le flip: replicate_Suc)
  then show ?thesis using bounded_len_str [of nm 65 0 "replicate (64 - length nm) 0"] nm by (simp add: padded_def)
qed

lemma take_padded: "take (length s) (padded n s) = s"
  by (simp add: padded_def)

definition beacon_body :: "bytes \<Rightarrow> bytes \<Rightarrow> nc_beacon \<Rightarrow> bytes" where
  "beacon_body nm ct b = (((((((((((((beacon_head NC_BEACON_ANNOUNCE
     @ fopt (game b \<noteq> 0) (fld32 F_GAME (game b)))
     @ fopt (b_wire b \<noteq> 0) (fld16 F_WIRE (b_wire b)))
     @ fopt (major b \<noteq> 0) (fld16 F_MAJOR (major b)))
     @ fopt (minor b \<noteq> 0) (fld16 F_MINOR (minor b)))
     @ fopt (port b \<noteq> 0) (fld16 F_PORT (port b)))
     @ fopt (players b \<noteq> 0) (fld16 F_PLAYERS (players b)))
     @ fopt (capacity b \<noteq> 0) (fld16 F_CAPACITY (capacity b)))
     @ fopt (modes b \<noteq> 0) (fld32 F_MODES (modes b)))
     @ fopt (flags b \<noteq> 0) (fld32 F_FLAGS (flags b)))
     @ fopt (b_instance b \<noteq> 0) (fld32 F_INSTANCE (b_instance b)))
     @ fopt (nm \<noteq> []) (fldb F_NAME nm))
     @ fopt (ct \<noteq> []) (fldb F_CONTACT ct))
     @ fopt (has_key b) (fldb F_KEY (b_key b)))"

lemma put_header_holds:
  assumes "5 \<le> length out"
  shows "\<exists>o0. put_header out k = Some o0 \<and> holds (length out) 5 (beacon_head k) (5, o0)"
  using assms by (auto simp: put_header_def put_at_def holds_def beacon_head_def le32_def)

lemma build_ok:
  assumes b: "beacon_ok nm ct b" and out: "212 \<le> length out"
  shows "ok (nc_beacon_build out b) (holds (length out) 212 (beacon_body nm ct b))"
proof -
  define cap where "cap = int (if length out < NC_BEACON_MAX then length out else NC_BEACON_MAX)"
  have cap: "212 \<le> cap" "cap \<le> int (length out)" using out by (simp_all add: cap_def NC_BEACON_MAX_def)
  obtain o0 where o0: "put_header out NC_BEACON_ANNOUNCE = Some o0" "holds (length out) 5 (beacon_head NC_BEACON_ANNOUNCE) (5, o0)"
    using put_header_holds [of out NC_BEACON_ANNOUNCE] out by auto
  have nm: "bounded_len (b_name b) (NC_BEACON_MAX_NAME + 1) 0 = Some (length nm)" "take (length nm) (b_name b) = nm" "length nm \<le> 64"
    and ct: "bounded_len (contact b) (NC_BEACON_MAX_CONTACT + 1) 0 = Some (length ct)" "take (length ct) (contact b) = ct" "length ct \<le> 64"
    and key: "length (b_key b) = 32"
    using b by (auto simp: beacon_ok_def NC_BEACON_MAX_NAME_def NC_BEACON_MAX_CONTACT_def bounded_len_padded take_padded)
  have c: "(0 < length nm \<and> length nm \<le> NC_BEACON_MAX_NAME) = (nm \<noteq> [])" "(0 < length ct \<and> length ct \<le> NC_BEACON_MAX_CONTACT) = (ct \<noteq> [])"
    using nm(3) ct(3) by (auto simp: NC_BEACON_MAX_NAME_def NC_BEACON_MAX_CONTACT_def)
  have h: "\<not> cap < int HDR" using cap by (simp add: HDR_def)
  have hdr: "(int HDR, o0) = (5, o0)" by (simp add: HDR_def)
  have fin: "ok (case s' of (pos, o1) \<Rightarrow> Some (if pos < 0 then NC_BEACON_ERR else pos, o1)) (holds L k bs)" if "holds L k bs s'" for s' L k bs
    using that by (auto simp: holds_def)
  show ?thesis unfolding nc_beacon_build_def Let_def cap_def [symmetric] if_not_P [OF h] o0(1) bind.bind_lunit hdr nm(1,2) ct(1,2) c beacon_body_def
    apply (rule field32_step [OF o0(2)], use cap in simp, rule cap(2))
    apply (rule field16_step, assumption, use cap in simp, rule cap(2))+
    apply (rule field32_step, assumption, use cap in simp, rule cap(2))+
    apply (rule fieldb_step, assumption, use nm in simp, use nm in simp, use cap in simp, rule cap(2))
    apply (rule fieldb_step, assumption, use ct in simp, use ct in simp, use cap in simp, rule cap(2))
    apply (rule put_field_step [OF _ writeb_law, where n = 35], assumption, use key in simp, use key in simp, use cap in simp, rule cap(2))
    apply (rule fin, simp)
    done
qed

section \<open>Parsing the encoding\<close>

definition set16 :: "u8 \<Rightarrow> u16 \<Rightarrow> nc_beacon \<Rightarrow> nc_beacon" where
  "set16 field v b = (if field = F_WIRE then b\<lparr>b_wire := v\<rparr> else if field = F_MAJOR then b\<lparr>major := v\<rparr> else if field = F_MINOR then b\<lparr>minor := v\<rparr>
     else if field = F_PORT then b\<lparr>port := v\<rparr> else if field = F_PLAYERS then b\<lparr>players := v\<rparr> else if field = F_CAPACITY then b\<lparr>capacity := v\<rparr> else b)"

definition set32 :: "u8 \<Rightarrow> u32 \<Rightarrow> nc_beacon \<Rightarrow> nc_beacon" where
  "set32 field v b = (if field = F_GAME then b\<lparr>game := v\<rparr> else if field = F_MODES then b\<lparr>modes := v\<rparr> else if field = F_FLAGS then b\<lparr>flags := v\<rparr>
     else if field = F_INSTANCE then b\<lparr>b_instance := v\<rparr> else b)"

lemma at_pos_Cons: "at_pos p pos (x # xs) \<longleftrightarrow> get_at p pos = Some x \<and> at_pos p (pos + 1) xs"
proof -
  have one: "at_pos p pos [x] \<longleftrightarrow> get_at p pos = Some x"
  proof
    assume "at_pos p pos [x]"
    from at_pos_get [OF this, of 0] show "get_at p pos = Some x" by simp
  next
    assume "get_at p pos = Some x"
    then show "at_pos p pos [x]" by (auto simp: get_at_def at_pos_def rd8_def Cons_nth_drop_Suc [symmetric] split: if_splits)
  qed
  show ?thesis using at_pos_append [of p pos "[x]" xs] one by simp
qed

lemma wire_small: "MS_WIRE_16 < 8" "MS_WIRE_32 < 8" "MS_WIRE_BYTES < 8" "MS_WIRE_16 \<noteq> MS_WIRE_BYTES" "MS_WIRE_32 \<noteq> MS_WIRE_BYTES" "MS_WIRE_32 \<noteq> MS_WIRE_16"
  by (simp_all add: ms_wire_defs)

lemma parse_loop_step:
  assumes "parse_field p pos end b = Some (b', Some q)" "pos < q" "pos < end"
  shows "parse_loop p pos end b = parse_loop p q end b'"
  using assms by (simp add: parse_loop.simps [of p pos])

lemma parse16:
  assumes "at_pos p pos (fld16 f v)" "f < 32" "pos + 3 \<le> end"
  shows "parse_loop p pos end b = parse_loop p (pos + 3) end (set16 f v b)"
proof (rule parse_loop_step)
  have t: "get_at p pos = Some (ms_tag f MS_WIRE_16)" "at_pos p (pos + 1) (le16 v)" using assms(1) by (simp_all add: fld16_def at_pos_Cons)
  have "ms_read_u16 p (pos + 1) end = Some (Some (v, pos + 3))" using ms_u16.rd_enc [OF _ t(2), of "end"] assms(3) by (simp add: add.assoc)
  then show "parse_field p pos end b = Some (set16 f v b, Some (pos + 3))"
    using t ms_tag_parts [OF wire_small(1) assms(2)] by (simp add: parse_field_def Let_def wire_small set16_def)
qed (use assms in simp_all)

lemma parse32:
  assumes "at_pos p pos (fld32 f v)" "f < 32" "pos + 5 \<le> end"
  shows "parse_loop p pos end b = parse_loop p (pos + 5) end (set32 f v b)"
proof (rule parse_loop_step)
  have t: "get_at p pos = Some (ms_tag f MS_WIRE_32)" "at_pos p (pos + 1) (le32 v)" using assms(1) by (simp_all add: fld32_def at_pos_Cons)
  have "ms_read_u32 p (pos + 1) end = Some (Some (v, pos + 5))" using ms_u32.rd_enc [OF _ t(2), of "end"] assms(3) by (simp add: add.assoc)
  then show "parse_field p pos end b = Some (set32 f v b, Some (pos + 5))"
    using t ms_tag_parts [OF wire_small(2) assms(2)] by (simp add: parse_field_def Let_def wire_small set32_def)
qed (use assms in simp_all)

lemma at_pos_bytes:
  assumes "at_pos p pos d" "pos + int (length d) \<le> int (length p)"
  shows "rd_bytes p (nat pos) (length d) = Some d"
  using assms by (simp add: at_pos_def rd_bytes_def nat_le_iff) linarith

lemma parseb:
  assumes at: "at_pos p pos (fldb f d)" and f: "f < 32" and d: "length d \<le> 64" and fin: "pos + 3 + int (length d) \<le> int (length p)"
  shows "parse_field p pos (int (length p)) b =
    (if f = F_NAME then do { s \<leftarrow> take_str (b_name b) p (pos + 3) (length d);
        (case s of None \<Rightarrow> Some (b, None) | Some s \<Rightarrow> Some (b\<lparr>b_name := s\<rparr>, Some (pos + 3 + int (length d)))) }
     else if f = F_CONTACT then do { s \<leftarrow> take_str (contact b) p (pos + 3) (length d);
        (case s of None \<Rightarrow> Some (b, None) | Some s \<Rightarrow> Some (b\<lparr>contact := s\<rparr>, Some (pos + 3 + int (length d)))) }
     else if f = F_KEY then if length d \<noteq> 32 then Some (b, None) else Some (b\<lparr>b_key := d, has_key := True\<rparr>, Some (pos + 3 + int (length d)))
     else Some (b, Some (pos + 3 + int (length d)))) \<and> rd_bytes p (nat (pos + 3)) (length d) = Some d"
proof -
  have t: "get_at p pos = Some (ms_tag f MS_WIRE_BYTES)" "at_pos p (pos + 1) (le16 (of_nat (length d)) @ d)"
    using at by (simp_all add: fldb_def at_pos_Cons)
  then have "at_pos p (pos + 3) d" by (simp add: at_pos_append add.assoc)
  then have rd: "rd_bytes p (nat (pos + 3)) (length d) = Some d" using fin by (intro at_pos_bytes) simp_all
  have u: "unat (of_nat (length d) :: u16) = length d" using d by (intro unat_len16) simp
  have l: "(of_nat (length d) :: u16) \<le> 0xffff" "(of_nat (length d) :: u16) = 32 \<longleftrightarrow> length d = 32"
    using u d by (auto simp: word_le_nat_alt word_unat_eq_iff)
  have "ms_read_bytes p (pos + 1) (int (length p)) 0xffff = Some (Some ((pos + 3, of_nat (length d)), pos + 3 + int (length d)))"
    using ms_read_bytes_enc(1) [OF _ t(2), of "int (length p)" "0xffff"] d fin l by (simp add: add.assoc)
  moreover have "length d = 32 \<Longrightarrow> rd_bytes p (nat (pos + 3)) 32 = Some d" using rd by simp
  ultimately show ?thesis using t ms_tag_parts [OF wire_small(3) f] u l rd by (simp add: parse_field_def Let_def)
qed

text \<open>Parsing \<open>bs\<close> at any place of a packet has the effect \<open>g\<close>.\<close>

definition parses :: "bytes \<Rightarrow> (nc_beacon \<Rightarrow> nc_beacon) \<Rightarrow> bool" where
  "parses bs g \<longleftrightarrow> (\<forall>p pos b. at_pos p pos bs \<longrightarrow> pos + int (length bs) \<le> int (length p) \<longrightarrow> beacon_wf b \<longrightarrow>
     parse_loop p pos (int (length p)) b = parse_loop p (pos + int (length bs)) (int (length p)) (g b) \<and> beacon_wf (g b))"

lemma parsesD: "parses bs g \<Longrightarrow> at_pos p pos bs \<Longrightarrow> pos + int (length bs) \<le> int (length p) \<Longrightarrow> beacon_wf b \<Longrightarrow>
   parse_loop p pos (int (length p)) b = parse_loop p (pos + int (length bs)) (int (length p)) (g b)"
  by (simp add: parses_def)

lemma parses_append:
  assumes "parses as f" "parses bs g"
  shows "parses (as @ bs) (g \<circ> f)"
  unfolding parses_def
proof (intro allI impI)
  fix p pos b
  assume at: "at_pos p pos (as @ bs)" and len: "pos + int (length (as @ bs)) \<le> int (length p)" and wf: "beacon_wf b"
  have at': "at_pos p pos as" "at_pos p (pos + int (length as)) bs" using at by (simp_all add: at_pos_append)
  have 1: "parse_loop p pos (int (length p)) b = parse_loop p (pos + int (length as)) (int (length p)) (f b) \<and> beacon_wf (f b)"
    using assms(1) at'(1) len wf by (simp add: parses_def)
  then have 2: "parse_loop p (pos + int (length as)) (int (length p)) (f b) = parse_loop p (pos + int (length as) + int (length bs)) (int (length p)) (g (f b)) \<and> beacon_wf (g (f b))"
    using assms(2) at'(2) len by (simp add: parses_def)
  show "parse_loop p pos (int (length p)) b = parse_loop p (pos + int (length (as @ bs))) (int (length p)) ((g \<circ> f) b) \<and> beacon_wf ((g \<circ> f) b)"
    using 1 2 by (simp add: add.assoc)
qed

lemma parses_opt: "parses bs g \<Longrightarrow> parses (fopt c bs) (if c then g else id)"
  by (simp add: fopt_def parses_def)

lemma parses16: "f < 32 \<Longrightarrow> parses (fld16 f v) (set16 f v)"
  by (auto simp: parses_def parse16 beacon_wf_def set16_def)

lemma parses32: "f < 32 \<Longrightarrow> parses (fld32 f v) (set32 f v)"
  by (auto simp: parses_def parse32 beacon_wf_def set32_def)

lemma take_str_fits:
  assumes "rd_bytes p (nat pos) (length d) = Some d" "length d < length dst"
  shows "take_str dst p pos (length d) = Some (Some (d @ [0] @ drop (Suc (length d)) dst))"
  using assms by (simp add: take_str_def put_at_def)

lemma parses_name: "length d \<le> 64 \<Longrightarrow> parses (fldb F_NAME d) (\<lambda>b. b\<lparr>b_name := d @ [0] @ drop (Suc (length d)) (b_name b)\<rparr>)"
  unfolding parses_def
proof (intro allI impI)
  fix p pos b
  assume d: "length d \<le> 64" and at: "at_pos p pos (fldb F_NAME d)" and len: "pos + int (length (fldb F_NAME d)) \<le> int (length p)" and wf: "beacon_wf b"
  have len': "pos + 3 + int (length d) \<le> int (length p)" using len by simp
  have nm: "length d < length (b_name b)" using wf d by (simp add: beacon_wf_def NC_BEACON_MAX_NAME_def)
  note P = parseb [OF at _ d len', of b]
  have "F_NAME < 32" by (simp add: F_NAME_def)
  then have "parse_field p pos (int (length p)) b = Some (b\<lparr>b_name := d @ [0] @ drop (Suc (length d)) (b_name b)\<rparr>, Some (pos + 3 + int (length d)))"
    using P take_str_fits [OF _ nm, of p "pos + 3"] by simp
  then have "parse_loop p pos (int (length p)) b = parse_loop p (pos + 3 + int (length d)) (int (length p)) (b\<lparr>b_name := d @ [0] @ drop (Suc (length d)) (b_name b)\<rparr>)"
    using len' by (intro parse_loop_step) simp_all
  then show "parse_loop p pos (int (length p)) b = parse_loop p (pos + int (length (fldb F_NAME d))) (int (length p)) (b\<lparr>b_name := d @ [0] @ drop (Suc (length d)) (b_name b)\<rparr>) \<and>
      beacon_wf (b\<lparr>b_name := d @ [0] @ drop (Suc (length d)) (b_name b)\<rparr>)"
    using wf nm by (simp add: beacon_wf_def add.assoc)
qed

lemma parses_contact: "length d \<le> 64 \<Longrightarrow> parses (fldb F_CONTACT d) (\<lambda>b. b\<lparr>contact := d @ [0] @ drop (Suc (length d)) (contact b)\<rparr>)"
  unfolding parses_def
proof (intro allI impI)
  fix p pos b
  assume d: "length d \<le> 64" and at: "at_pos p pos (fldb F_CONTACT d)" and len: "pos + int (length (fldb F_CONTACT d)) \<le> int (length p)" and wf: "beacon_wf b"
  have len': "pos + 3 + int (length d) \<le> int (length p)" using len by simp
  have nm: "length d < length (contact b)" using wf d by (simp add: beacon_wf_def NC_BEACON_MAX_CONTACT_def)
  note P = parseb [OF at _ d len', of b]
  have "F_CONTACT < 32" "F_CONTACT \<noteq> F_NAME" by (simp_all add: F_CONTACT_def F_NAME_def)
  then have "parse_field p pos (int (length p)) b = Some (b\<lparr>contact := d @ [0] @ drop (Suc (length d)) (contact b)\<rparr>, Some (pos + 3 + int (length d)))"
    using P take_str_fits [OF _ nm, of p "pos + 3"] by simp
  then have "parse_loop p pos (int (length p)) b = parse_loop p (pos + 3 + int (length d)) (int (length p)) (b\<lparr>contact := d @ [0] @ drop (Suc (length d)) (contact b)\<rparr>)"
    using len' by (intro parse_loop_step) simp_all
  then show "parse_loop p pos (int (length p)) b = parse_loop p (pos + int (length (fldb F_CONTACT d))) (int (length p)) (b\<lparr>contact := d @ [0] @ drop (Suc (length d)) (contact b)\<rparr>) \<and>
      beacon_wf (b\<lparr>contact := d @ [0] @ drop (Suc (length d)) (contact b)\<rparr>)"
    using wf nm by (simp add: beacon_wf_def add.assoc)
qed

lemma parses_other:
  assumes "f < 32" "f \<noteq> F_NAME" "f \<noteq> F_CONTACT" "length d \<le> 64" "f = F_KEY \<longrightarrow> length d = 32"
  shows "parses (fldb f d) (if f = F_KEY then \<lambda>b. b\<lparr>b_key := d, has_key := True\<rparr> else id)"
  unfolding parses_def
proof (intro allI impI)
  fix p pos b
  let ?g = "if f = F_KEY then \<lambda>b. b\<lparr>b_key := d, has_key := True\<rparr> else id"
  assume at: "at_pos p pos (fldb f d)" and len: "pos + int (length (fldb f d)) \<le> int (length p)" and wf: "beacon_wf b"
  have len': "pos + 3 + int (length d) \<le> int (length p)" using len by simp
  have "parse_field p pos (int (length p)) b = Some (?g b, Some (pos + 3 + int (length d)))"
    using parseb [OF at assms(1,4) len', of b] assms by simp
  then have "parse_loop p pos (int (length p)) b = parse_loop p (pos + 3 + int (length d)) (int (length p)) (?g b)"
    using len' by (intro parse_loop_step) simp_all
  then show "parse_loop p pos (int (length p)) b = parse_loop p (pos + int (length (fldb f d))) (int (length p)) (?g b) \<and> beacon_wf (?g b)"
    using wf assms(5) by (simp add: beacon_wf_def add.assoc)
qed

text \<open>The effect of a whole announcement.\<close>

lemma field_small: "F_GAME < 32" "F_WIRE < 32" "F_MAJOR < 32" "F_MINOR < 32" "F_PORT < 32" "F_PLAYERS < 32" "F_CAPACITY < 32" "F_MODES < 32"
  "F_FLAGS < 32" "F_INSTANCE < 32" "F_KEY < 32" "F_KEY \<noteq> F_NAME" "F_KEY \<noteq> F_CONTACT"
  by (simp_all add: field_defs)

definition beacon_fields :: "bytes \<Rightarrow> bytes \<Rightarrow> nc_beacon \<Rightarrow> bytes" where
  "beacon_fields nm ct b = drop 5 (beacon_body nm ct b)"

lemma beacon_body_split: "beacon_body nm ct b = beacon_head NC_BEACON_ANNOUNCE @ beacon_fields nm ct b"
  by (simp add: beacon_fields_def beacon_body_def)

text \<open>A field left out because it is zero is a field set to zero.\<close>

lemma opt_fields:
  "game x = 0 \<Longrightarrow> (if v \<noteq> 0 then set32 F_GAME v else id) x = x\<lparr>game := v\<rparr>"
  "modes x = 0 \<Longrightarrow> (if v \<noteq> 0 then set32 F_MODES v else id) x = x\<lparr>modes := v\<rparr>"
  "flags x = 0 \<Longrightarrow> (if v \<noteq> 0 then set32 F_FLAGS v else id) x = x\<lparr>flags := v\<rparr>"
  "b_instance x = 0 \<Longrightarrow> (if v \<noteq> 0 then set32 F_INSTANCE v else id) x = x\<lparr>b_instance := v\<rparr>"
  "b_wire x = 0 \<Longrightarrow> (if w \<noteq> 0 then set16 F_WIRE w else id) x = x\<lparr>b_wire := w\<rparr>"
  "major x = 0 \<Longrightarrow> (if w \<noteq> 0 then set16 F_MAJOR w else id) x = x\<lparr>major := w\<rparr>"
  "minor x = 0 \<Longrightarrow> (if w \<noteq> 0 then set16 F_MINOR w else id) x = x\<lparr>minor := w\<rparr>"
  "port x = 0 \<Longrightarrow> (if w \<noteq> 0 then set16 F_PORT w else id) x = x\<lparr>port := w\<rparr>"
  "players x = 0 \<Longrightarrow> (if w \<noteq> 0 then set16 F_PLAYERS w else id) x = x\<lparr>players := w\<rparr>"
  "capacity x = 0 \<Longrightarrow> (if w \<noteq> 0 then set16 F_CAPACITY w else id) x = x\<lparr>capacity := w\<rparr>"
  by (cases x; simp add: set16_def set32_def field_defs)+

lemma padded_eq: "length s \<le> 64 \<Longrightarrow> padded 65 s = s @ [0] @ drop (Suc (length s)) (replicate 65 0)"
proof -
  assume "length s \<le> 64"
  then have "replicate (65 - length s) 0 = (0 :: u8) # replicate (64 - length s) 0" by (simp add: Suc_diff_le flip: replicate_Suc)
  then show ?thesis by (simp add: padded_def)
qed

lemma opt_strings:
  "b_name x = replicate 65 0 \<Longrightarrow> length s \<le> 64 \<Longrightarrow>
     (if s \<noteq> [] then \<lambda>b. b\<lparr>b_name := s @ [0] @ drop (Suc (length s)) (b_name b)\<rparr> else id) x = x\<lparr>b_name := padded 65 s\<rparr>"
  "contact x = replicate 65 0 \<Longrightarrow> length s \<le> 64 \<Longrightarrow>
     (if s \<noteq> [] then \<lambda>b. b\<lparr>contact := s @ [0] @ drop (Suc (length s)) (contact b)\<rparr> else id) x = x\<lparr>contact := padded 65 s\<rparr>"
  by (cases x; cases "s = []"; simp add: padded_eq padded_def [of 65 "[]"])+

lemma opt_key:
  "b_key x = replicate 32 0 \<Longrightarrow> \<not> has_key x \<Longrightarrow> (\<not> h \<longrightarrow> k = replicate 32 0) \<Longrightarrow>
     (if h then if F_KEY = F_KEY then \<lambda>b. b\<lparr>b_key := k, has_key := True\<rparr> else id else id) x = x\<lparr>b_key := k, has_key := h\<rparr>"
  by (cases x) simp

lemma parses_beacon:
  assumes b: "beacon_ok nm ct b"
  shows "\<exists>g. parses (beacon_fields nm ct b) g \<and> g beacon_zero = b"
proof -
  have len: "length nm \<le> 64" "length ct \<le> 64" "length (b_key b) = 32" "length (b_key b) \<le> 64" using b by (simp_all add: beacon_ok_def)
  note P = parses_append [OF parses_opt [OF parses32 [OF field_small(1), of "game b"], of "game b \<noteq> 0"]
    parses_append [OF parses_opt [OF parses16 [OF field_small(2), of "b_wire b"], of "b_wire b \<noteq> 0"]
    parses_append [OF parses_opt [OF parses16 [OF field_small(3), of "major b"], of "major b \<noteq> 0"]
    parses_append [OF parses_opt [OF parses16 [OF field_small(4), of "minor b"], of "minor b \<noteq> 0"]
    parses_append [OF parses_opt [OF parses16 [OF field_small(5), of "port b"], of "port b \<noteq> 0"]
    parses_append [OF parses_opt [OF parses16 [OF field_small(6), of "players b"], of "players b \<noteq> 0"]
    parses_append [OF parses_opt [OF parses16 [OF field_small(7), of "capacity b"], of "capacity b \<noteq> 0"]
    parses_append [OF parses_opt [OF parses32 [OF field_small(8), of "modes b"], of "modes b \<noteq> 0"]
    parses_append [OF parses_opt [OF parses32 [OF field_small(9), of "flags b"], of "flags b \<noteq> 0"]
    parses_append [OF parses_opt [OF parses32 [OF field_small(10), of "b_instance b"], of "b_instance b \<noteq> 0"]
    parses_append [OF parses_opt [OF parses_name [OF len(1)], of "nm \<noteq> []"]
    parses_append [OF parses_opt [OF parses_contact [OF len(2)], of "ct \<noteq> []"]
    parses_opt [OF parses_other [OF field_small(11-13) len(4) impI [OF len(3)]], of "has_key b"]]]]]]]]]]]]]
  have nm: "b_name b = padded 65 nm" "contact b = padded 65 ct" "\<not> has_key b \<longrightarrow> b_key b = replicate 32 0"
    using b by (simp_all add: beacon_ok_def)
  have zero: "b_name beacon_zero = replicate 65 0" "contact beacon_zero = replicate 65 0" "b_key beacon_zero = replicate 32 0" "\<not> has_key beacon_zero"
    "game beacon_zero = 0" "b_wire beacon_zero = 0" "major beacon_zero = 0" "minor beacon_zero = 0" "port beacon_zero = 0" "players beacon_zero = 0"
    "capacity beacon_zero = 0" "modes beacon_zero = 0" "flags beacon_zero = 0" "b_instance beacon_zero = 0"
    by (simp_all add: beacon_zero_def NC_BEACON_MAX_NAME_def NC_BEACON_MAX_CONTACT_def)
  have split: "beacon_fields nm ct b = fopt (game b \<noteq> 0) (fld32 F_GAME (game b)) @ fopt (b_wire b \<noteq> 0) (fld16 F_WIRE (b_wire b)) @
     fopt (major b \<noteq> 0) (fld16 F_MAJOR (major b)) @ fopt (minor b \<noteq> 0) (fld16 F_MINOR (minor b)) @ fopt (port b \<noteq> 0) (fld16 F_PORT (port b)) @
     fopt (players b \<noteq> 0) (fld16 F_PLAYERS (players b)) @ fopt (capacity b \<noteq> 0) (fld16 F_CAPACITY (capacity b)) @
     fopt (modes b \<noteq> 0) (fld32 F_MODES (modes b)) @ fopt (flags b \<noteq> 0) (fld32 F_FLAGS (flags b)) @
     fopt (b_instance b \<noteq> 0) (fld32 F_INSTANCE (b_instance b)) @ fopt (nm \<noteq> []) (fldb F_NAME nm) @
     fopt (ct \<noteq> []) (fldb F_CONTACT ct) @ fopt (has_key b) (fldb F_KEY (b_key b))"
    by (simp add: beacon_fields_def beacon_body_def)
  have all: "b = beacon_zero\<lparr>game := game b, b_wire := b_wire b, major := major b, minor := minor b, port := port b, players := players b,
     capacity := capacity b, modes := modes b, flags := flags b, b_instance := b_instance b, b_name := padded 65 nm, contact := padded 65 ct,
     b_key := b_key b, has_key := has_key b\<rparr>"
    using nm by (cases b) (simp add: beacon_zero_def)
  show ?thesis unfolding split
    by (rule exI, rule conjI, rule P, subst all) (simp add: opt_fields opt_strings opt_key zero len nm(3) del: if_split del: id_apply split del: if_split)
qed

section \<open>Properties\<close>

lemma kind_head:
  assumes "length q \<le> 507" "k = NC_BEACON_ANNOUNCE \<or> k = NC_BEACON_PROBE"
  shows "nc_beacon_kind (beacon_head k @ q) = Some (uint k)"
proof -
  let ?p = "beacon_head k @ q"
  have m: "NC_BEACON_MAGIC = ((ucast (?p ! 0) OR push_bit 8 (ucast (?p ! 1))) OR push_bit 16 (ucast (?p ! 2))) OR push_bit 24 (ucast (?p ! 3))"
    using join32_le [of NC_BEACON_MAGIC] by (simp add: beacon_head_def le32_def mask_byte)
  have r: "rd8 ?p 0 = Some (?p ! 0)" "rd8 ?p 1 = Some (?p ! 1)" "rd8 ?p 2 = Some (?p ! 2)" "rd8 ?p 3 = Some (?p ! 3)" "rd8 ?p 4 = Some k"
    by (simp_all add: rd8_def) (simp add: beacon_head_def le32_def)
  show ?thesis unfolding nc_beacon_kind_def r using assms m by (auto simp: HDR_def NC_BEACON_MAX_def)
qed

lemma parse_announcement:
  assumes "beacon_ok nm ct b" "parses ext id" "length ext \<le> 300"
  shows "nc_beacon_parse (beacon_body nm ct b @ ext) = Some (b, NC_BEACON_OK)"
proof -
  let ?q = "beacon_fields nm ct b @ ext" and ?h = "beacon_head NC_BEACON_ANNOUNCE"
  obtain g where g: "parses (beacon_fields nm ct b) g" "g beacon_zero = b" using parses_beacon [OF assms(1)] by blast
  have "ok (nc_beacon_build (replicate 212 0) b) (holds 212 212 (beacon_body nm ct b))"
    using build_ok [OF assms(1), of "replicate 212 0"] by simp
  then have len: "length (beacon_body nm ct b) \<le> 212" by (auto simp: ok_def holds_def)
  then have q: "length ?q \<le> 507" using assms(3) by (simp add: beacon_body_split)
  have split: "beacon_body nm ct b @ ext = ?h @ ?q" by (simp add: beacon_body_split)
  have "at_pos (?h @ ?q) 5 ?q" by (simp add: at_pos_def)
  then have "parse_loop (?h @ ?q) 5 (int (length (?h @ ?q))) beacon_zero =
      parse_loop (?h @ ?q) (5 + int (length ?q)) (int (length (?h @ ?q))) ((id \<circ> g) beacon_zero)"
    by (rule parsesD [OF parses_append [OF g(1) assms(2)] _ _ beacon_zero_wf]) simp
  also have "\<dots> = Some (b, NC_BEACON_OK)" by (simp add: parse_loop.simps g(2))
  finally show ?thesis unfolding split using kind_head [OF q] by (simp add: nc_beacon_parse_def HDR_def)
qed

text \<open>\<open>nc_beacon_parse\<close> reads no byte outside the packet and writes no byte outside the beacon, for
  any packet at all; it returns \<open>NC_BEACON_OK\<close> or \<open>NC_BEACON_ERR\<close>, and leaves both strings
  NUL-terminated.\<close>

theorem beacon_parse_safe:
  "\<exists>b r. nc_beacon_parse p = Some (b, r) \<and> (r = NC_BEACON_OK \<or> r = NC_BEACON_ERR) \<and> beacon_wf b"
proof -
  obtain k where k: "nc_beacon_kind p = Some k" using nc_beacon_kind_ok [of p] by (auto simp: ok_def)
  then show ?thesis
    using parse_loop_ok [of "int HDR" "int (length p)" p beacon_zero] beacon_zero_wf by (auto simp: nc_beacon_parse_def ok_def)
qed

text \<open>C27: discovery round trip.  Every announcement fits in 212 bytes: built into a buffer of at least
  that size, and parsed back from the bytes that were built, it is the same beacon in every
  field.\<close>

theorem beacon_round_trip:
  assumes "beacon_ok nm ct b" "212 \<le> length out"
  shows "\<exists>n out'. nc_beacon_build out b = Some (int n, out') \<and> n \<le> 212 \<and> length out' = length out \<and>
    nc_beacon_parse (take n out') = Some (b, NC_BEACON_OK)"
proof -
  obtain s where s: "nc_beacon_build out b = Some s" "holds (length out) 212 (beacon_body nm ct b) s"
    using build_ok [OF assms] by (auto simp: ok_def)
  have "nc_beacon_parse (beacon_body nm ct b @ []) = Some (b, NC_BEACON_OK)"
    by (rule parse_announcement [OF assms(1)]) (simp_all add: parses_def)
  then show ?thesis using s by (cases s) (auto simp: holds_def)
qed

definition demo_beacon :: nc_beacon where
  "demo_beacon = beacon_zero\<lparr>game := 7, port := 4000, b_name := padded 65 [65, 66]\<rparr>"

lemma demo_beacon_ok: "beacon_ok [65, 66] [] demo_beacon"
  by (simp add: beacon_ok_def demo_beacon_def beacon_zero_def padded_def NC_BEACON_MAX_NAME_def NC_BEACON_MAX_CONTACT_def)

theorem beacon_round_trip_witness:
  "\<exists>n out'. nc_beacon_build (replicate 300 0) demo_beacon = Some (int n, out') \<and> nc_beacon_parse (take n out') = Some (demo_beacon, NC_BEACON_OK)"
  using beacon_round_trip [OF demo_beacon_ok, of "replicate 300 0"] by auto

text \<open>Forward compatibility.  An announcement followed by a field of a later version, with any
  number from 14 to 31 and a 16-bit, 32-bit or length-prefixed value, parses to the same
  beacon.\<close>

theorem beacon_forward_compatible:
  assumes "beacon_ok nm ct b" "13 < f" "f < 32" "ext \<in> {fld16 f v, fld32 f w, fldb f d}" "length d \<le> 64"
  shows "nc_beacon_parse (beacon_body nm ct b @ ext) = Some (b, NC_BEACON_OK)"
proof (rule parse_announcement [OF assms(1)])
  have ne: "f \<noteq> F_GAME" "f \<noteq> F_WIRE" "f \<noteq> F_MAJOR" "f \<noteq> F_MINOR" "f \<noteq> F_PORT" "f \<noteq> F_PLAYERS" "f \<noteq> F_CAPACITY" "f \<noteq> F_MODES"
    "f \<noteq> F_FLAGS" "f \<noteq> F_INSTANCE" "f \<noteq> F_NAME" "f \<noteq> F_CONTACT" "f \<noteq> F_KEY"
    using assms(2) by (auto simp: field_defs word_less_nat_alt)
  have "set16 f v = id" "set32 f w = id" using ne by (simp_all add: set16_def set32_def fun_eq_iff)
  then show "parses ext id" using assms(4) parses16 [OF assms(3), of v] parses32 [OF assms(3), of w] parses_other [OF assms(3) ne(11,12) assms(5)] ne(13)
    by auto
  show "length ext \<le> 300" using assms(4,5) by auto
qed

theorem beacon_forward_compatible_witness:
  "nc_beacon_parse (beacon_body [65, 66] [] demo_beacon @ fldb 20 [1, 2, 3]) = Some (demo_beacon, NC_BEACON_OK)"
  by (rule beacon_forward_compatible [OF demo_beacon_ok, of 20 _ 0 0 "[1, 2, 3]"]) simp_all

lemma probe_read: "nc_beacon_probe_game (beacon_head NC_BEACON_PROBE @ fld32 F_GAME g) g0 = Some (g, NC_BEACON_OK)"
proof -
  let ?h = "beacon_head NC_BEACON_PROBE" and ?f = "fld32 F_GAME g"
  have "at_pos (?h @ ?f) 5 ?f" by (simp add: at_pos_def)
  then have t: "get_at (?h @ ?f) 5 = Some (ms_tag F_GAME MS_WIRE_32)" "at_pos (?h @ ?f) 6 (le32 g)" by (simp_all add: fld32_def at_pos_Cons)
  have "ms_read_u32 (?h @ ?f) 6 10 = Some (Some (g, 10))" using ms_u32.rd_enc [OF _ t(2), of 10] by simp
  then have "probe_field (?h @ ?f) 5 10 0 = Some (g, 10)"
    using t ms_tag_parts [OF wire_small(2) field_small(1)] by (simp add: probe_field_def Let_def)
  then have "probe_loop (?h @ ?f) 5 10 0 = Some (g, NC_BEACON_OK)" by (subst probe_loop.simps) (simp add: probe_loop.simps)
  then show ?thesis using kind_head [of ?f NC_BEACON_PROBE] by (simp add: nc_beacon_probe_game_def HDR_def)
qed

text \<open>Probe round trip.  A probe built into a buffer of at least ten bytes is ten bytes long, and a
  server reads from it the game it was built for.\<close>

theorem probe_round_trip:
  assumes "10 \<le> length out"
  shows "\<exists>out'. nc_beacon_probe out g = Some (10, out') \<and> nc_beacon_probe_game (take 10 out') g0 = Some (g, NC_BEACON_OK)"
proof -
  let ?h = "beacon_head NC_BEACON_PROBE" and ?f = "fld32 F_GAME g"
  define cap where "cap = int (if length out < NC_BEACON_MAX then length out else NC_BEACON_MAX)"
  have cap: "10 \<le> cap" "cap \<le> int (length out)" using assms by (simp_all add: cap_def NC_BEACON_MAX_def)
  obtain o0 where o0: "put_header out NC_BEACON_PROBE = Some o0" "length o0 = length out" "take 5 o0 = ?h"
    using put_header_holds [of out NC_BEACON_PROBE] assms by (auto simp: holds_def)
  have w: "ms_write_tag_u32 o0 5 cap F_GAME g = Some (10, take 5 o0 @ ?f @ drop 10 o0)"
    using cap o0(2) assms by (simp add: write32_law put_at_def)
  have b: "nc_beacon_probe out g = Some (10, ?h @ ?f @ drop 10 o0)"
    using o0 cap w by (simp add: nc_beacon_probe_def Let_def cap_def [symmetric] HDR_def)
  show ?thesis using b probe_read by simp
qed

theorem probe_round_trip_witness:
  "\<exists>out'. nc_beacon_probe (replicate 16 0) 99 = Some (10, out') \<and> nc_beacon_probe_game (take 10 out') 0 = Some (99, NC_BEACON_OK)"
  by (rule probe_round_trip) simp

end
