(* ===== verification/WS_Frame.thy ===== *)
theory WS_Frame
  imports Prelude
begin

text \<open>
  The WebSocket frame codec (\<open>transport/nc_ws.c\<close>).  Buffers are the lists of their bytes and every
  access is checked.  \<open>size_t\<close> and \<open>uint64_t\<close> sums wrap at 64 bits (\<open>size_add\<close>); the payload pointer
  of a parsed frame is its offset in the buffer.
\<close>

section \<open>Model\<close>

definition size_add :: "nat \<Rightarrow> nat \<Rightarrow> nat" where
  "size_add a b = (a + b) mod 2 ^ 64"

lemma size_add_small [simp]: "a + b < 2 ^ 64 \<Longrightarrow> size_add a b = a + b"
  by (simp add: size_add_def)

record nc_ws_frame =
  opcode :: u8
  fin :: bool
  payload :: nat
  payload_len :: nat

text \<open>\<open>for (i = 0; i < 8; i++) plen = plen << 8 | buf[2 + i]\<close>\<close>

fun plen64 :: "bytes \<Rightarrow> nat \<Rightarrow> u64 option" where
  "plen64 buf 0 = Some 0"
| "plen64 buf (Suc i) = do { v \<leftarrow> plen64 buf i; b \<leftarrow> rd8 buf (2 + i); Some (push_bit 8 v OR ucast b) }"

text \<open>\<open>for (; i < plen; i++) payload[i] ^= mk[i & 3]\<close>, with \<open>n\<close> turns left; the key stands in the four
  bytes before the payload.\<close>

fun unmask :: "bytes \<Rightarrow> nat \<Rightarrow> nat \<Rightarrow> nat \<Rightarrow> bytes option" where
  "unmask buf hdr i 0 = Some buf"
| "unmask buf hdr i (Suc n) = do {
     x \<leftarrow> rd8 buf (hdr + i);
     k \<leftarrow> rd8 buf (hdr - 4 + i mod 4);
     unmask (buf[hdr + i := x XOR k]) hdr (Suc i) n }"

text \<open>The return value, the buffer it leaves and the frame, if one was filled in.\<close>

definition nc_ws_frame_parse :: "bytes \<Rightarrow> (int \<times> bytes \<times> nc_ws_frame option) option" where
  "nc_ws_frame_parse buf =
     (let len = length buf in
      if len < 2 then Some (0, buf, None)
      else do {
        b0 \<leftarrow> rd8 buf 0;
        b1 \<leftarrow> rd8 buf 1;
        let masked = (b1 AND 0x80 \<noteq> 0); plen0 = ucast (b1 AND 0x7f) :: u64 in
        do {
          r \<leftarrow> (if plen0 = 126 then
                 if len < 4 then Some None
                 else do { h \<leftarrow> rd8 buf 2; l \<leftarrow> rd8 buf 3; Some (Some (push_bit 8 (ucast h) OR ucast l, 4)) }
               else if plen0 = 127 then
                 if len < 10 then Some None else do { v \<leftarrow> plen64 buf 8; Some (Some (v, 10)) }
               else Some (Some (plen0, 2)));
          (case r of
             None \<Rightarrow> Some (0, buf, None)
           | Some (plen, hdr0) \<Rightarrow>
               let hdr = (if masked then hdr0 + 4 else hdr0); n = unat plen in
               if len < size_add hdr n then Some (0, buf, None)
               else do {
                 buf' \<leftarrow> (if masked then unmask buf hdr 0 n else Some buf);
                 Some (int (size_add hdr n), buf',
                   Some \<lparr>opcode = b0 AND 0x0f, fin = (b0 AND 0x80 \<noteq> 0), payload = hdr, payload_len = n\<rparr>) }) } })"

definition mask_bytes :: "bytes \<Rightarrow> bytes \<Rightarrow> bytes" where
  "mask_bytes k xs = map (\<lambda>i. xs ! i XOR k ! (i mod 4)) [0 ..< length xs]"

text \<open>The return value (0 when the frame does not fit) and the bytes written to \<open>out\<close>; the mask is
  the list of its four bytes, or nothing for a null pointer.\<close>

definition nc_ws_frame_build :: "nat \<Rightarrow> u8 \<Rightarrow> bytes \<Rightarrow> bytes option \<Rightarrow> (nat \<times> bytes) option" where
  "nc_ws_frame_build cap opc src mask4 =
     (let plen = length src;
          hdr = (2 + (if 0xffff < plen then 8 else if 126 \<le> plen then 2 else 0)) + (if mask4 \<noteq> None then 4 else 0) in
      if cap < size_add hdr plen then Some (0, [])
      else
        let mbit = (if mask4 \<noteq> None then 0x80 else 0) :: u8;
            lenb = (if 0xffff < plen then (mbit OR 127) # map (\<lambda>i. ucast (drop_bit (56 - i * 8) (of_nat plen :: u64))) [0 ..< 8]
                    else if 126 \<le> plen then [mbit OR 126, ucast (drop_bit 8 (of_nat plen :: u64)), ucast (of_nat plen :: u64)]
                    else [mbit OR of_nat plen]) in do {
          out \<leftarrow> emit cap [] ((0x80 OR (opc AND 0x0f)) # lenb);
          out \<leftarrow> (case mask4 of
                   Some k \<Rightarrow> do { o1 \<leftarrow> emit cap out k; emit cap o1 (mask_bytes k src) }
                 | None \<Rightarrow> emit cap out src);
          Some (length out, out) })"

section \<open>Unmasking\<close>

lemma unmask_spec:
  assumes "length pre = hdr" "4 \<le> hdr" "k = drop (hdr - 4) pre"
  shows "i = length done \<Longrightarrow> n = length xs \<Longrightarrow>
    unmask (pre @ done @ xs @ rest) hdr i n = Some (pre @ done @ map (\<lambda>j. xs ! j XOR k ! ((i + j) mod 4)) [0 ..< n] @ rest)"
proof (induction n arbitrary: i "done" xs)
  case (Suc n)
  obtain x ys where xs: "xs = x # ys" using Suc.prems by (cases xs) auto
  have r1: "rd8 (pre @ done @ xs @ rest) (hdr + i) = Some x" using assms(1) Suc.prems xs by (simp add: rd8_def nth_append)
  have "hdr - 4 + i mod 4 < hdr" using assms(2) mod_less_divisor [of 4 i] by linarith
  then have r2: "rd8 (pre @ done @ xs @ rest) (hdr - 4 + i mod 4) = Some (k ! (i mod 4))"
    using assms by (simp add: rd8_def nth_append)
  let ?y = "x XOR k ! (i mod 4)"
  have u: "(pre @ done @ xs @ rest)[hdr + i := ?y] = pre @ (done @ [?y]) @ ys @ rest"
    using assms(1) Suc.prems xs by (simp add: list_update_append)
  have "map (\<lambda>j. xs ! j XOR k ! ((i + j) mod 4)) [0 ..< Suc n] = ?y # map (\<lambda>j. ys ! j XOR k ! ((Suc i + j) mod 4)) [0 ..< n]"
    by (simp add: xs upt_conv_Cons map_Suc_upt [symmetric] comp_def del: upt_Suc)
  then show ?case using Suc.IH [of "Suc i" "done @ [?y]" ys] Suc.prems xs
    unfolding unmask.simps r1 r2 bind.bind_lunit u by simp
qed simp

lemma mask_twice: "length k = 4 \<Longrightarrow> map (\<lambda>j. mask_bytes k xs ! j XOR k ! ((0 + j) mod 4)) [0 ..< length xs] = xs"
  by (rule nth_equalityI) (simp_all add: mask_bytes_def xor.assoc)

lemma length_mask_bytes [simp]: "length (mask_bytes k xs) = length xs"
  by (simp add: mask_bytes_def)

lemma unmask_oob: "0 < n \<Longrightarrow> length buf \<le> hdr + i \<Longrightarrow> unmask buf hdr i n = None"
  by (cases n) simp_all

lemma unmask_ok:
  "hdr + i + n \<le> length buf \<Longrightarrow> 4 \<le> hdr \<Longrightarrow> ok (unmask buf hdr i n) (\<lambda>b. length b = length buf)"
proof (induction n arbitrary: buf i)
  case (Suc n)
  have "hdr - 4 + i mod 4 < hdr" using Suc.prems(2) mod_less_divisor [of 4 i] by linarith
  then have "hdr - 4 + i mod 4 < length buf" using Suc.prems(1) by linarith
  then show ?case using Suc.prems Suc.IH [of "Suc i" "buf[hdr + i := buf ! (hdr + i) XOR buf ! (hdr - 4 + i mod 4)]"] by simp
qed simp

section \<open>The length field\<close>

text \<open>Header bytes in front of the mask: the two fixed bytes and the extended length.\<close>

definition len_bytes :: "u8 \<Rightarrow> nat \<Rightarrow> bytes" where
  "len_bytes mbit plen =
     (if 0xffff < plen then (mbit OR 127) # map (\<lambda>i. ucast (drop_bit (56 - i * 8) (of_nat plen :: u64))) [0 ..< 8]
      else if 126 \<le> plen then [mbit OR 126, ucast (drop_bit 8 (of_nat plen :: u64)), ucast (of_nat plen :: u64)]
      else [mbit OR of_nat plen])"

lemma length_len_bytes: "length (len_bytes m n) = (if 0xffff < n then 9 else if 126 \<le> n then 3 else 1)"
  by (simp add: len_bytes_def)

lemma plen64_read:
  assumes "\<And>i. i < 8 \<Longrightarrow> rd8 buf (2 + i) = Some (ucast (drop_bit (56 - i * 8) v))"
  shows "n \<le> 8 \<Longrightarrow> plen64 buf n = Some (drop_bit (64 - n * 8) v)"
proof (induction n)
  case 0
  have "drop_bit 64 v = 0" by (rule bit_word_eqI) (auto simp: bit_simps dest: bit_imp_le_length)
  then show ?case by simp
next
  case (Suc n)
  have "push_bit 8 (drop_bit (64 - n * 8) v) OR ucast (ucast (drop_bit (56 - n * 8) v) :: u8) = drop_bit (64 - Suc n * 8) v"
  proof (rule bit_word_eqI)
    fix m assume m: "m < LENGTH(64)"
    have e: "64 - n * 8 = 56 - n * 8 + 8" using Suc.prems by linarith
    show "bit (push_bit 8 (drop_bit (64 - n * 8) v) OR ucast (ucast (drop_bit (56 - n * 8) v) :: u8)) m = bit (drop_bit (64 - Suc n * 8) v) m"
    proof (cases "m < 8")
      case False
      then have "8 + (m - 8 + (56 - n * 8)) = m + (56 - n * 8)" by linarith
      then show ?thesis using m False unfolding e by (auto simp: bit_simps ac_simps dest: bit_imp_le_length)
    qed (use m in \<open>auto simp: e bit_simps ac_simps dest: bit_imp_le_length\<close>)
  qed
  then show ?case using Suc assms [of n] by simp
qed

lemma plen16_join: "n \<le> 0xffff \<Longrightarrow>
   push_bit 8 (ucast (ucast (drop_bit 8 (of_nat n :: u64)) :: u8)) OR ucast (ucast (of_nat n :: u64) :: u8) = (of_nat n :: u64)"
proof (rule bit_word_eqI)
  fix m assume n: "n \<le> 0xffff" and m: "m < LENGTH(64)"
  have "take_bit 16 n = n" using n by (simp add: take_bit_nat_eq_self)
  then have hi: "\<not> bit n j" if "16 \<le> j" for j using that by (metis bit_take_bit_iff not_less)
  show "bit (push_bit 8 (ucast (ucast (drop_bit 8 (of_nat n :: u64)) :: u8)) OR ucast (ucast (of_nat n :: u64) :: u8) :: u64) m = bit (of_nat n :: u64) m"
  proof (cases "m < 16")
    case True
    then show ?thesis by (auto simp: bit_simps)
  next
    case False
    then show ?thesis using hi [of m] by (auto simp: bit_simps)
  qed
qed

lemma mbit_bits:
  fixes b :: u8
  assumes "b < 128"
  shows "(0x80 OR b) AND 0x80 \<noteq> 0" "(0x80 OR b) AND 0x7f = b" "b AND 0x80 = 0" "b AND 0x7f = b"
proof -
  have b: "\<not> bit b n" if "7 \<le> n" for n
  proof -
    have "take_bit 7 b = b" using assms by (simp add: take_bit_eq_mod mod_word_less)
    then show ?thesis using that by (metis bit_take_bit_iff not_less)
  qed
  have m: "(0x7f :: u8) = mask 7" by (simp add: mask_eq_exp_minus_1)
  have e: "bit (0x80 :: u8) n \<longleftrightarrow> n = 7" for n
  proof -
    have "(0x80 :: u8) = 2 ^ 7" by simp
    then show ?thesis by (simp only: bit_exp_iff) (auto simp: possible_bit_def)
  qed
  have "bit ((0x80 OR b) AND 0x80) 7" by (simp add: bit_and_iff bit_or_iff e)
  then show "(0x80 OR b) AND 0x80 \<noteq> 0" by auto
  show "(0x80 OR b) AND 0x7f = b" unfolding m
    by (rule bit_word_eqI, simp only: bit_and_iff bit_or_iff bit_mask_iff e) (use b not_le_imp_less in \<open>auto simp: possible_bit_def\<close>)
  show "b AND 0x80 = 0"
    by (rule bit_word_eqI, simp only: bit_and_iff e) (use b in auto)
  show "b AND 0x7f = b" unfolding m
    by (rule bit_word_eqI) (use b not_le_imp_less in \<open>auto simp: bit_and_iff bit_mask_iff possible_bit_def\<close>)
qed

section \<open>Properties\<close>

lemma frame_length_read:
  assumes n: "n < 2 ^ 63" and m: "m = 0 \<or> m = 0x80" and buf: "buf = b0 # len_bytes m n @ rest"
  shows "\<exists>b1. rd8 buf 1 = Some b1 \<and> (b1 AND 0x80 \<noteq> 0 \<longleftrightarrow> m \<noteq> 0) \<and>
    (if ucast (b1 AND 0x7f) = (126 :: u64) then
       if length buf < 4 then Some None
       else do { h \<leftarrow> rd8 buf 2; l \<leftarrow> rd8 buf 3; Some (Some (push_bit 8 (ucast h) OR ucast l, 4 :: nat)) }
     else if ucast (b1 AND 0x7f) = (127 :: u64) then
       if length buf < 10 then Some None else do { v \<leftarrow> plen64 buf 8; Some (Some (v, 10)) }
     else Some (Some (ucast (b1 AND 0x7f), 2))) = Some (Some (of_nat n, 1 + length (len_bytes m n)))"
proof -
  have bits: "(m OR b) AND 0x80 \<noteq> 0 \<longleftrightarrow> m \<noteq> 0" "(m OR b) AND 0x7f = b" if "b < 128" for b :: u8
    using m mbit_bits [OF that] by auto
  consider "0xffff < n" | "126 \<le> n" "n \<le> 0xffff" | "n < 126" by linarith
  then show ?thesis
  proof cases
    case 1
    have r: "rd8 buf (2 + i) = Some (ucast (drop_bit (56 - i * 8) (of_nat n :: u64)))" if "i < 8" for i
      using that 1 by (simp add: buf len_bytes_def rd8_def nth_append)
    have "plen64 buf 8 = Some (of_nat n)" using plen64_read [of buf "of_nat n" 8] r by simp
    then show ?thesis using 1 bits [of 127] by (intro exI [of _ "m OR 127"]) (simp add: buf len_bytes_def)
  next
    case 2
    then show ?thesis using bits [of 126] plen16_join [OF 2(2)] by (intro exI [of _ "m OR 126"]) (simp add: buf len_bytes_def rd8_def)
  next
    case 3
    have b: "(of_nat n :: u8) < 128" using 3 by (simp add: word_less_nat_alt unat_of_nat take_bit_nat_eq_self)
    have u: "ucast (of_nat n :: u8) = (of_nat n :: u64)"
      using 3 by (simp add: word_unat_eq_iff unsigned_ucast_eq unat_of_nat take_bit_nat_eq_self)
    have "(of_nat n :: u64) \<noteq> 126" "(of_nat n :: u64) \<noteq> 127" using 3 by (auto simp: word_unat_eq_iff unat_of_nat take_bit_nat_eq_self)
    then show ?thesis using 3 bits [OF b] u by (intro exI [of _ "m OR of_nat n"]) (simp add: buf len_bytes_def)
  qed
qed

text \<open>The bytes of a frame.\<close>

definition frame_bytes :: "u8 \<Rightarrow> bytes \<Rightarrow> bytes option \<Rightarrow> bytes" where
  "frame_bytes opc src mask4 = (0x80 OR (opc AND 0x0f)) # len_bytes (if mask4 \<noteq> None then 0x80 else 0) (length src) @
     (case mask4 of Some k \<Rightarrow> k @ mask_bytes k src | None \<Rightarrow> src)"

definition frame_hdr :: "bytes \<Rightarrow> bytes option \<Rightarrow> nat" where
  "frame_hdr src mask4 = 1 + length (len_bytes 0 (length src)) + (if mask4 \<noteq> None then 4 else 0)"

lemma build_frame:
  assumes k: "\<forall>k. mask4 = Some k \<longrightarrow> length k = 4" and n: "length src < 2 ^ 63"
  shows "nc_ws_frame_build cap opc src mask4 =
    Some (if cap < frame_hdr src mask4 + length src then (0, []) else (frame_hdr src mask4 + length src, frame_bytes opc src mask4))"
proof -
  have add: "size_add h (length src) = h + length src" if "h \<le> 14" for h using n that by simp
  show ?thesis
    using k by (cases mask4)
      (auto simp: nc_ws_frame_build_def Let_def add frame_hdr_def frame_bytes_def len_bytes_def emit_def)
qed

lemma parse_frame:
  assumes k: "\<forall>k. mask4 = Some k \<longrightarrow> length k = 4" and n: "length src < 2 ^ 63"
  shows "\<exists>buf'. nc_ws_frame_parse (frame_bytes opc src mask4 @ rest) =
      Some (int (frame_hdr src mask4 + length src), buf',
        Some \<lparr>opcode = opc AND 0x0f, fin = True, payload = frame_hdr src mask4, payload_len = length src\<rparr>) \<and>
    take (length src) (drop (frame_hdr src mask4) buf') = src \<and> drop (frame_hdr src mask4 + length src) buf' = rest"
proof -
  define m where "m = (if mask4 \<noteq> None then 0x80 else 0 :: u8)"
  define b0 where "b0 = 0x80 OR (opc AND 0x0f)"
  define tl where "tl = (case mask4 of Some k \<Rightarrow> k @ mask_bytes k src | None \<Rightarrow> src)"
  define buf where "buf = frame_bytes opc src mask4 @ rest"
  have buf: "buf = b0 # len_bytes m (length src) @ tl @ rest"
    by (simp add: buf_def frame_bytes_def m_def b0_def tl_def)
  have m01: "m = 0 \<or> m = 0x80" by (simp add: m_def)
  obtain b1 where b1: "rd8 buf 1 = Some b1" "b1 AND 0x80 \<noteq> 0 \<longleftrightarrow> m \<noteq> 0" and len:
    "(if ucast (b1 AND 0x7f) = (126 :: u64) then
       if length buf < 4 then Some None
       else do { h \<leftarrow> rd8 buf 2; l \<leftarrow> rd8 buf 3; Some (Some (push_bit 8 (ucast h) OR ucast l, 4 :: nat)) }
     else if ucast (b1 AND 0x7f) = (127 :: u64) then
       if length buf < 10 then Some None else do { v \<leftarrow> plen64 buf 8; Some (Some (v, 10)) }
     else Some (Some (ucast (b1 AND 0x7f), 2))) = Some (Some (of_nat (length src), 1 + length (len_bytes m (length src))))"
    using frame_length_read [OF n m01 buf] by blast
  have low: "opc AND 0x0f < 128"
  proof -
    have "opc AND 0x0f \<le> 0x0f" by (rule word_and_le1)
    then show ?thesis by (rule order.strict_trans1) simp
  qed
  have op: "b0 AND 0x0f = opc AND 0x0f" "b0 AND 0x80 \<noteq> 0"
  proof -
    have "b0 AND 0x0f = (0x80 AND 0x0f) OR ((opc AND 0x0f) AND 0x0f)" by (simp only: b0_def bit.conj_disj_distrib2)
    then show "b0 AND 0x0f = opc AND 0x0f" by (simp add: and.assoc)
    show "b0 AND 0x80 \<noteq> 0" using mbit_bits(1) [OF low] by (simp add: b0_def)
  qed
  have hdr: "1 + length (len_bytes m (length src)) + (if m \<noteq> 0 then 4 else 0) = frame_hdr src mask4"
    by (simp add: frame_hdr_def length_len_bytes m_def)
  have u: "unat (of_nat (length src) :: u64) = length src" using n by (simp add: unat_of_nat take_bit_nat_eq_self)
  have small: "frame_hdr src mask4 \<le> 14" by (simp add: frame_hdr_def length_len_bytes)
  have add: "size_add (frame_hdr src mask4) (length src) = frame_hdr src mask4 + length src" using small n by simp
  have tot: "length buf = frame_hdr src mask4 + length src + length rest"
    using k by (cases mask4) (simp_all add: buf tl_def frame_hdr_def length_len_bytes m_def)
  have two: "\<not> length buf < 2" by (simp add: buf len_bytes_def)
  have z: "rd8 buf 0 = Some b0" by (simp add: buf)
  define pre where "pre = b0 # len_bytes m (length src) @ (case mask4 of Some k \<Rightarrow> k | None \<Rightarrow> [])"
  have pre: "length pre = frame_hdr src mask4" using k by (cases mask4) (simp_all add: pre_def frame_hdr_def length_len_bytes m_def)
  define buf' where "buf' = pre @ src @ rest"
  have um: "(if b1 AND 0x80 \<noteq> 0 then unmask buf (frame_hdr src mask4) 0 (length src) else Some buf) = Some buf'"
  proof (cases mask4)
    case None
    then show ?thesis using b1(2) by (simp add: m_def buf'_def pre_def buf tl_def)
  next
    case (Some key)
    have l4: "length key = 4" using k Some by simp
    have 4: "4 \<le> frame_hdr src mask4" using Some by (simp add: frame_hdr_def)
    define xs where "xs = b0 # len_bytes m (length src)"
    have "pre = xs @ key" "frame_hdr src mask4 - 4 = length xs" using Some l4 pre by (simp_all add: pre_def xs_def)
    then have kd: "key = drop (frame_hdr src mask4 - 4) pre" by simp
    have "buf = pre @ [] @ mask_bytes key src @ rest" using Some by (simp add: buf pre_def tl_def)
    then show ?thesis using unmask_spec [OF pre 4 kd, of 0 "[]" "length src" "mask_bytes key src" rest] mask_twice [OF l4, of src] b1(2) Some
      by (simp add: m_def buf'_def)
  qed
  have mm: "(if b1 AND 0x80 \<noteq> 0 then 1 + length (len_bytes m (length src)) + 4 else 1 + length (len_bytes m (length src))) = frame_hdr src mask4"
    using b1(2) hdr by auto
  have "nc_ws_frame_parse buf = Some (int (frame_hdr src mask4 + length src), buf',
      Some \<lparr>opcode = opc AND 0x0f, fin = True, payload = frame_hdr src mask4, payload_len = length src\<rparr>)"
    unfolding nc_ws_frame_parse_def Let_def if_not_P [OF two] z b1(1) bind.bind_lunit len option.case prod.case mm u add um op(1)
    using tot op(2) by simp
  then show ?thesis using pre by (intro exI [of _ buf']) (simp add: buf_def [symmetric] buf'_def)
qed

text \<open>C28: WebSocket frame round trip.  A frame built around any payload, masked or not, is parsed from
  the front of a stream as one FIN frame with that opcode; the parser consumes exactly the bytes
  that were built, leaves the unmasked payload in the buffer and does not touch what follows.\<close>

theorem ws_frame_round_trip:
  assumes "\<forall>k. mask4 = Some k \<longrightarrow> length k = 4" "length src < 2 ^ 63" "frame_hdr src mask4 + length src \<le> cap"
  shows "\<exists>n out buf'. nc_ws_frame_build cap opc src mask4 = Some (n, out) \<and> n = length out \<and> 0 < n \<and>
    nc_ws_frame_parse (out @ rest) = Some (int n, buf',
      Some \<lparr>opcode = opc AND 0x0f, fin = True, payload = n - length src, payload_len = length src\<rparr>) \<and>
    take (length src) (drop (n - length src) buf') = src \<and> drop n buf' = rest"
proof -
  let ?n = "frame_hdr src mask4 + length src"
  have l: "length (frame_bytes opc src mask4) = ?n"
    using assms(1) by (cases mask4) (simp_all add: frame_bytes_def frame_hdr_def length_len_bytes)
  have pos: "0 < frame_hdr src mask4" by (simp add: frame_hdr_def)
  obtain buf' where "nc_ws_frame_parse (frame_bytes opc src mask4 @ rest) = Some (int ?n, buf',
        Some \<lparr>opcode = opc AND 0x0f, fin = True, payload = frame_hdr src mask4, payload_len = length src\<rparr>)"
      "take (length src) (drop (frame_hdr src mask4) buf') = src" "drop ?n buf' = rest"
    using parse_frame [OF assms(1,2), of opc rest] by blast
  then show ?thesis using build_frame [OF assms(1,2), of cap opc] assms(3) l pos
    by (intro exI [of _ ?n] exI [of _ "frame_bytes opc src mask4"] exI [of _ buf']) simp
qed

theorem ws_frame_round_trip_witness:
  "\<exists>out buf'. nc_ws_frame_build 64 2 [10, 20, 30] (Some [1, 2, 3, 4]) = Some (9, out) \<and>
     nc_ws_frame_parse (out @ [99]) = Some (9, buf', Some \<lparr>opcode = 2, fin = True, payload = 6, payload_len = 3\<rparr>) \<and>
     take 3 (drop 6 buf') = [10, 20, 30]"
  using ws_frame_round_trip [of "Some [1, 2, 3, 4]" "[10, 20, 30]" 64 2 "[99]"] build_frame [of "Some [1, 2, 3, 4]" "[10, 20, 30]" 64 2]
  by (auto simp: frame_hdr_def length_len_bytes numeral_3_eq_3)

text \<open>The length a header claims.\<close>

definition claimed_len :: "bytes \<Rightarrow> nat" where
  "claimed_len buf = (if length buf < 10 \<or> buf ! 1 AND 0x7f \<noteq> 127 then 0 else unat (the (plen64 buf 8)))"

lemma plen64_ok: "n + 2 \<le> length buf \<Longrightarrow> \<exists>v. plen64 buf n = Some v"
  by (induction n) auto

lemma plen_16_small: "unat (push_bit 8 (ucast (h :: u8)) OR ucast (l :: u8) :: u64) < 65536"
proof -
  define w where "w = (push_bit 8 (ucast h) OR ucast l :: u64)"
  have "take_bit 16 w = w" unfolding w_def by (rule bit_word_eqI) (auto simp: bit_simps dest: bit_imp_le_length)
  moreover have "unat (take_bit 16 w) = take_bit 16 (unat w)" by (rule unsigned_take_bit_eq)
  ultimately show ?thesis using take_bit_nat_less_exp [of 16 "unat w"] by (simp add: w_def [symmetric])
qed

text \<open>Parsing is safe as long as the claimed length does not wrap a 64-bit sum (RFC 6455 only allows
  lengths below \<open>2^63\<close>): whatever the bytes, nothing outside the buffer is read or written, its
  length does not change, and a frame that is reported lies inside the buffer.\<close>

theorem ws_parse_safe:
  assumes "claimed_len buf < 2 ^ 63" "length buf < 2 ^ 63"
  shows "\<exists>r buf' f. nc_ws_frame_parse buf = Some (r, buf', f) \<and> length buf' = length buf \<and> 0 \<le> r \<and> r \<le> int (length buf) \<and>
    (\<forall>fr. f = Some fr \<longrightarrow> int (payload fr + payload_len fr) = r \<and> 2 \<le> payload fr)"
proof (cases "length buf < 2")
  case True
  then show ?thesis by (simp add: nc_ws_frame_parse_def)
next
  case False
  define b1 where "b1 = buf ! 1"
  have z: "rd8 buf 0 = Some (buf ! 0)" "rd8 buf 1 = Some b1" using False by (auto simp: b1_def rd8_def)
  define lenf where "lenf = (if ucast (b1 AND 0x7f) = (126 :: u64) then
       if length buf < 4 then Some None
       else do { h \<leftarrow> rd8 buf 2; l \<leftarrow> rd8 buf 3; Some (Some (push_bit 8 (ucast h) OR ucast l, 4 :: nat)) }
     else if ucast (b1 AND 0x7f) = (127 :: u64) then
       if length buf < 10 then Some None else do { v \<leftarrow> plen64 buf 8; Some (Some (v, 10)) }
     else Some (Some (ucast (b1 AND 0x7f), 2)))"
  have uu: "unat (ucast (x :: u8) :: u64) = unat x" for x
    using unsigned_less [of x, where 'a = nat] by (simp add: unsigned_ucast_eq take_bit_nat_eq_self)
  have u8: "unat (ucast (x :: u8) :: u64) < 256" for x using unsigned_less [of x, where 'a = nat] by (simp add: uu)
  have uc: "ucast (b1 AND 0x7f) = (127 :: u64) \<longleftrightarrow> b1 AND 0x7f = 127"
    using uu [of "b1 AND 0x7f"] by (simp add: word_unat_eq_iff)
  have len: "ok lenf (\<lambda>r. \<forall>v h. r = Some (v, h) \<longrightarrow> unat v < 2 ^ 63 \<and> 2 \<le> h \<and> h \<le> 10)"
  proof -
    obtain v where v: "length buf < 10 \<or> plen64 buf 8 = Some v" using plen64_ok [of 8 buf] by fastforce
    have "unat v < 2 ^ 63" if "\<not> length buf < 10" "b1 AND 0x7f = 127" using that v assms(1) by (simp add: claimed_len_def b1_def)
    then show ?thesis using v u8 [of "b1 AND 0x7f"] plen_16_small order.strict_trans [OF plen_16_small]
      by (auto simp: lenf_def uc)
  qed
  then obtain r where r: "lenf = Some r" "\<forall>v h. r = Some (v, h) \<longrightarrow> unat v < 2 ^ 63 \<and> 2 \<le> h \<and> h \<le> 10" by (auto simp: ok_def)
  show ?thesis
  proof (cases r)
    case None
    then show ?thesis using r(1) False z by (simp add: nc_ws_frame_parse_def Let_def lenf_def [symmetric])
  next
    case (Some p)
    obtain v h where p: "p = (v, h)" by (cases p)
    define hdr where "hdr = (if b1 AND 0x80 \<noteq> 0 then h + 4 else h)"
    have hv: "unat v < 2 ^ 63" "2 \<le> hdr" "hdr \<le> 14" "b1 AND 0x80 \<noteq> 0 \<longrightarrow> 4 \<le> hdr" using r(2) Some p by (auto simp: hdr_def)
    have add: "size_add hdr (unat v) = hdr + unat v" using hv by simp
    have eq: "nc_ws_frame_parse buf = (if length buf < hdr + unat v then Some (0, buf, None)
        else do { buf' \<leftarrow> (if b1 AND 0x80 \<noteq> 0 then unmask buf hdr 0 (unat v) else Some buf);
          Some (int (hdr + unat v), buf', Some \<lparr>opcode = buf ! 0 AND 0x0f, fin = (buf ! 0 AND 0x80 \<noteq> 0), payload = hdr, payload_len = unat v\<rparr>) })"
      unfolding nc_ws_frame_parse_def Let_def if_not_P [OF False] z bind.bind_lunit lenf_def [symmetric] r(1) Some p option.case prod.case
        hdr_def [symmetric] add ..
    have "ok (if b1 AND 0x80 \<noteq> 0 then unmask buf hdr 0 (unat v) else Some buf) (\<lambda>b. length b = length buf)" if "\<not> length buf < hdr + unat v"
      using unmask_ok [of hdr 0 "unat v" buf] that hv(4) by auto
    moreover have "int hdr + uint v \<le> int (length buf)" if "\<not> length buf < hdr + unat v" unfolding uint_nat using that by linarith
    ultimately show ?thesis unfolding eq using hv(2) by (auto simp: ok_def)
  qed
qed

theorem ws_parse_safe_witness:
  "\<exists>r buf' f. nc_ws_frame_parse [0x82, 0x85, 1, 2, 3, 4, 9, 9, 9, 9, 9] = Some (r, buf', f) \<and> length buf' = 11 \<and> r \<le> 11"
  using ws_parse_safe [of "[0x82, 0x85, 1, 2, 3, 4, 9, 9, 9, 9, 9]"] by (auto simp: claimed_len_def)

text \<open>C39: without that bound it is not.  The check \<open>len < hdr + plen\<close> wraps: a 14-byte masked header
  that claims \<open>2^64 - 1\<close> bytes passes it, and the unmasking loop writes past the end of the buffer;
  the unmasked 10-byte header is reported as a complete frame of 9 bytes whose payload has
  \<open>2^64 - 1\<close>.\<close>

theorem ws_parse_length_wraps:
  "nc_ws_frame_parse [0x82, 0xff, 255, 255, 255, 255, 255, 255, 255, 255, 1, 2, 3, 4] = None \<and>
   nc_ws_frame_parse [0x82, 0x7f, 255, 255, 255, 255, 255, 255, 255, 255] =
     Some (9, [0x82, 0x7f, 255, 255, 255, 255, 255, 255, 255, 255],
       Some \<lparr>opcode = 2, fin = True, payload = 10, payload_len = 2 ^ 64 - 1\<rparr>)"
proof
  define big where "big = [0x82, 0xff, 255, 255, 255, 255, 255, 255, 255, 255, 1, 2, 3, 4 :: u8]"
  define plain where "plain = [0x82, 0x7f, 255, 255, 255, 255, 255, 255, 255, 255 :: u8]"
  have l: "plen64 big 8 = Some (-1)" "plen64 plain 8 = Some (-1)" "length big = 14" "length plain = 10"
    "rd8 big 0 = Some 0x82" "rd8 big 1 = Some 0xff" "rd8 plain 0 = Some 0x82" "rd8 plain 1 = Some 0x7f"
    unfolding big_def plain_def by code_simp+
  have u: "unat (-1 :: u64) = 2 ^ 64 - 1" by (simp add: unsigned_minus_1_eq_mask mask_eq_exp_minus_1)
  have "unmask big 14 0 (2 ^ 64 - 1) = None" by (rule unmask_oob) (simp_all add: l)
  then have "nc_ws_frame_parse big = None" by (simp add: nc_ws_frame_parse_def Let_def l l [unfolded One_nat_def] u size_add_def)
  then show "nc_ws_frame_parse [0x82, 0xff, 255, 255, 255, 255, 255, 255, 255, 255, 1, 2, 3, 4] = None" by (simp add: big_def)
  have "nc_ws_frame_parse plain = Some (9, plain, Some \<lparr>opcode = 2, fin = True, payload = 10, payload_len = 2 ^ 64 - 1\<rparr>)"
    by (simp add: nc_ws_frame_parse_def Let_def l l [unfolded One_nat_def] u size_add_def)
  then show "nc_ws_frame_parse [0x82, 0x7f, 255, 255, 255, 255, 255, 255, 255, 255] =
     Some (9, [0x82, 0x7f, 255, 255, 255, 255, 255, 255, 255, 255],
       Some \<lparr>opcode = 2, fin = True, payload = 10, payload_len = 2 ^ 64 - 1\<rparr>)" by (simp add: plain_def)
qed

end
