(* ===== verification/WS_Hash.thy ===== *)
theory WS_Hash
  imports Prelude
begin

text \<open>
  SHA-1 and base64 of the WebSocket handshake (\<open>transport/nc_ws.c\<close>).  The hash is fed in pieces:
  \<open>struct sha1\<close> keeps the chaining value, the message length and a partial block.  The reference
  hashes the padded message block by block; the streaming code is shown to compute it whatever the
  pieces are.
\<close>

section \<open>Model\<close>

record sha1 =
  sh_h :: "u32 list"
  sh_len :: u64
  sh_buf :: bytes
  sh_n :: nat

definition rol32 :: "u32 \<Rightarrow> nat \<Rightarrow> u32" where
  "rol32 v c = push_bit c v OR drop_bit (32 - c) v"

definition sha1_word :: "bytes \<Rightarrow> nat \<Rightarrow> u32" where
  "sha1_word p i = ((push_bit 24 (ucast (p ! (i * 4))) OR push_bit 16 (ucast (p ! (i * 4 + 1)))) OR push_bit 8 (ucast (p ! (i * 4 + 2))))
     OR ucast (p ! (i * 4 + 3))"

text \<open>The array \<open>w\<close> after its first \<open>i\<close> words, for \<open>i >= 16\<close>.\<close>

definition sha1_next :: "u32 list \<Rightarrow> u32 list" where
  "sha1_next w = (let i = length w in w @ [rol32 (((w ! (i - 3) XOR w ! (i - 8)) XOR w ! (i - 14)) XOR w ! (i - 16)) 1])"

definition sha1_schedule :: "bytes \<Rightarrow> u32 list" where
  "sha1_schedule p = (sha1_next ^^ 64) (map (sha1_word p) [0 ..< 16])"

definition sha1_round :: "u32 list \<Rightarrow> nat \<Rightarrow> u32 \<times> u32 \<times> u32 \<times> u32 \<times> u32 \<Rightarrow> u32 \<times> u32 \<times> u32 \<times> u32 \<times> u32" where
  "sha1_round w i st = (case st of (a, b, c, d, e) \<Rightarrow>
     let (f, k) = (if i < 20 then ((b AND c) OR (NOT b AND d), 0x5a827999)
                   else if i < 40 then ((b XOR c) XOR d, 0x6ed9eba1)
                   else if i < 60 then (((b AND c) OR (b AND d)) OR (c AND d), 0x8f1bbcdc)
                   else ((b XOR c) XOR d, 0xca62c1d6));
         t = rol32 a 5 + f + e + k + w ! i in
     (t, a, rol32 b 30, c, d))"

definition sha1_compress :: "u32 list \<Rightarrow> bytes \<Rightarrow> u32 list" where
  "sha1_compress h p =
     (let w = sha1_schedule p;
          (a, b, c, d, e) = fold (sha1_round w) [0 ..< 80] (h ! 0, h ! 1, h ! 2, h ! 3, h ! 4) in
      [h ! 0 + a, h ! 1 + b, h ! 2 + c, h ! 3 + d, h ! 4 + e])"

definition sha1_block :: "sha1 \<Rightarrow> sha1" where
  "sha1_block s = s\<lparr>sh_h := sha1_compress (sh_h s) (sh_buf s)\<rparr>"

definition sha1_iv :: "u32 list" where
  "sha1_iv = [0x67452301, 0xefcdab89, 0x98badcfe, 0x10325476, 0xc3d2e1f0]"

text \<open>The structure is a local variable: its buffer holds arbitrary bytes before the first update.\<close>

definition sha1_init :: "bytes \<Rightarrow> sha1" where
  "sha1_init junk = \<lparr>sh_h = sha1_iv, sh_len = 0, sh_buf = junk, sh_n = 0\<rparr>"

text \<open>The loop of \<open>sha1_update\<close>.  Between updates \<open>n\<close> is below 64, so every turn takes a byte; a
  copy outside the buffer is undefined.\<close>

function sha1_absorb :: "sha1 \<Rightarrow> bytes \<Rightarrow> sha1 option" where
  "sha1_absorb s p =
     (if p = [] then Some s
      else if 64 \<le> sh_n s \<or> length (sh_buf s) \<noteq> 64 then None
      else
        let t = min (64 - sh_n s) (length p);
            buf = take (sh_n s) (sh_buf s) @ take t p @ drop (sh_n s + t) (sh_buf s);
            s1 = s\<lparr>sh_buf := buf, sh_n := sh_n s + t\<rparr>;
            s2 = (if sh_n s1 = 64 then (sha1_block s1)\<lparr>sh_n := 0\<rparr> else s1) in
        sha1_absorb s2 (drop t p))"
  by pat_completeness auto
termination by (relation "measure (\<lambda>(s, p). length p)") auto

declare sha1_absorb.simps [simp del]

definition sha1_update :: "sha1 \<Rightarrow> bytes \<Rightarrow> sha1 option" where
  "sha1_update s p = sha1_absorb (s\<lparr>sh_len := sh_len s + of_nat (length p)\<rparr>) p"

text \<open>\<open>while (s->n != 56) sha1_update(s, &zero, 1)\<close>; at most 63 turns (\<open>sha1_pad_spec\<close> below).\<close>

fun sha1_pad :: "nat \<Rightarrow> sha1 \<Rightarrow> sha1 option" where
  "sha1_pad 0 s = (if sh_n s = 56 then Some s else None)"
| "sha1_pad (Suc k) s = (if sh_n s = 56 then Some s else do { s' \<leftarrow> sha1_update s [0]; sha1_pad k s' })"

definition be64 :: "u64 \<Rightarrow> bytes" where
  "be64 v = map (\<lambda>i. ucast (drop_bit (56 - i * 8) v)) [0 ..< 8]"

definition sha1_out :: "u32 list \<Rightarrow> bytes" where
  "sha1_out h = concat (map (\<lambda>i. [ucast (drop_bit 24 (h ! i)), ucast (drop_bit 16 (h ! i)), ucast (drop_bit 8 (h ! i)), ucast (h ! i)]) [0 ..< 5])"

definition sha1_final :: "sha1 \<Rightarrow> bytes option" where
  "sha1_final s = do {
     let bits = sh_len s * 8;
     s1 \<leftarrow> sha1_update s [0x80];
     s2 \<leftarrow> sha1_pad 63 s1;
     s3 \<leftarrow> sha1_update s2 (be64 bits);
     Some (sha1_out (sh_h s3)) }"

section \<open>base64\<close>

definition b64_alphabet :: string where
  "b64_alphabet = ''ABCDEFGHIJKLMNOPQRSTUVWXYZabcdefghijklmnopqrstuvwxyz0123456789+/''"

definition str :: "string \<Rightarrow> bytes" where
  "str = map of_char"

definition B64 :: "u32 \<Rightarrow> u8" where
  "B64 v = of_char (b64_alphabet ! unat v)"

fun base64_chars :: "bytes \<Rightarrow> bytes" where
  "base64_chars (x # y # z # rest) =
     (let v = (push_bit 16 (ucast x) OR push_bit 8 (ucast y)) OR ucast z in
      [B64 (drop_bit 18 v AND 63), B64 (drop_bit 12 v AND 63), B64 (drop_bit 6 v AND 63), B64 (v AND 63)] @ base64_chars rest)"
| "base64_chars [x] =
     (let v = push_bit 16 (ucast x) in [B64 (drop_bit 18 v AND 63), B64 (drop_bit 12 v AND 63), 61, 61])"
| "base64_chars [x, y] =
     (let v = push_bit 16 (ucast x) OR push_bit 8 (ucast y) in
      [B64 (drop_bit 18 v AND 63), B64 (drop_bit 12 v AND 63), B64 (drop_bit 6 v AND 63), 61])"
| "base64_chars [] = []"

text \<open>Into a buffer of \<open>cap\<close> bytes, NUL included.\<close>

definition base64 :: "nat \<Rightarrow> bytes \<Rightarrow> bytes option" where
  "base64 cap inp = emit cap [] (base64_chars inp @ [0])"

section \<open>The streaming hash\<close>

text \<open>The reference: the padded message and its blocks.\<close>

function blocks :: "u32 list \<Rightarrow> bytes \<Rightarrow> u32 list" where
  "blocks h m = (if length m < 64 then h else blocks (sha1_compress h (take 64 m)) (drop 64 m))"
  by pat_completeness auto
termination by (relation "measure (\<lambda>(h, m). length m)") auto

declare blocks.simps [simp del]

definition sha1_padding :: "bytes \<Rightarrow> bytes" where
  "sha1_padding m = m @ [0x80] @ replicate ((119 - length m mod 64) mod 64) 0 @ be64 (of_nat (length m) * 8)"

definition sha1_ref :: "bytes \<Rightarrow> bytes" where
  "sha1_ref m = sha1_out (blocks sha1_iv (sha1_padding m))"

lemma blocks_short: "length m < 64 \<Longrightarrow> blocks h m = h"
  by (simp add: blocks.simps)

lemma blocks_append: "length a mod 64 = 0 \<Longrightarrow> blocks h (a @ b) = blocks (blocks h a) b"
proof (induction h a rule: blocks.induct)
  case (1 h a)
  show ?case
  proof (cases "length a < 64")
    case True
    then have "a = []" using 1(2) by simp
    then show ?thesis by (simp add: blocks_short)
  next
    case False
    then have "length (drop 64 a) mod 64 = 0" using 1(2) by (simp add: le_mod_geq)
    then show ?thesis using 1(1) False by (simp add: blocks.simps [of h])
  qed
qed

text \<open>\<open>s\<close> has absorbed \<open>m\<close>, its length counter apart: \<open>f\<close> is the part in whole blocks, \<open>t\<close> the rest.\<close>

definition absorbed :: "sha1 \<Rightarrow> bytes \<Rightarrow> bool" where
  "absorbed s m \<longleftrightarrow> length (sh_buf s) = 64 \<and> (\<exists>f t. m = f @ t \<and> length f mod 64 = 0 \<and> length t < 64 \<and>
     sh_n s = length t \<and> take (length t) (sh_buf s) = t \<and> sh_h s = blocks sha1_iv f)"

lemma absorb_spec: "absorbed s m \<Longrightarrow> \<exists>s'. sha1_absorb s p = Some s' \<and> absorbed s' (m @ p) \<and> sh_len s' = sh_len s"
proof (induction s p arbitrary: m rule: sha1_absorb.induct)
  case (1 s p)
  show ?case
  proof (cases "p = []")
    case True
    then show ?thesis using 1(2) by (simp add: sha1_absorb.simps)
  next
    case p: False
    obtain f t where ft: "m = f @ t" "length f mod 64 = 0" "length t < 64" "sh_n s = length t" "take (length t) (sh_buf s) = t"
        "sh_h s = blocks sha1_iv f" and buf: "length (sh_buf s) = 64"
      using 1(2) by (auto simp: absorbed_def)
    define k where "k = min (64 - sh_n s) (length p)"
    define b where "b = take (sh_n s) (sh_buf s) @ take k p @ drop (sh_n s + k) (sh_buf s)"
    define s1 where "s1 = s\<lparr>sh_buf := b, sh_n := sh_n s + k\<rparr>"
    define s2 where "s2 = (if sh_n s1 = 64 then (sha1_block s1)\<lparr>sh_n := 0\<rparr> else s1)"
    have g: "\<not> (64 \<le> sh_n s \<or> length (sh_buf s) \<noteq> 64)" using ft buf by simp
    have k: "k \<le> length p" "length t + k \<le> 64" using ft by (auto simp: k_def)
    have b: "length b = 64" "take (length t + k) b = t @ take k p" using k ft buf by (simp_all add: b_def)
    have "absorbed s2 (m @ take k p)"
    proof (cases "length t + k = 64")
      case True
      then have k64: "64 - length t = k" by simp
      have "b = t @ take k p" using b True by simp
      then have "sh_h s2 = blocks sha1_iv (f @ t @ take k p)"
        using ft k True by (simp add: s2_def s1_def sha1_block_def blocks_append blocks.simps [of _ "t @ take k p"] blocks_short k64)
      moreover have "length (f @ t @ take k p) mod 64 = 0" using True k ft(2) by (simp add: mod_add_eq [symmetric, of "length f"] add.assoc [symmetric] flip: mod_add_left_eq)
      ultimately show ?thesis unfolding absorbed_def using b(1) True ft
        by (intro conjI exI [of _ "f @ t @ take k p"] exI [of _ "[]"]) (simp_all add: s2_def s1_def sha1_block_def)
    next
      case False
      then have "length t + k < 64" using k by simp
      then show ?thesis unfolding absorbed_def using b ft k False
        by (intro conjI exI [of _ f] exI [of _ "t @ take k p"]) (simp_all add: s2_def s1_def)
    qed
    moreover have "sh_len s2 = sh_len s" by (simp add: s2_def s1_def sha1_block_def)
    ultimately have "\<exists>s'. sha1_absorb s2 (drop k p) = Some s' \<and> absorbed s' ((m @ take k p) @ drop k p) \<and> sh_len s' = sh_len s"
      using 1(1) [OF p g k_def b_def s1_def s2_def, of "m @ take k p"] by simp
    moreover have "sha1_absorb s p = sha1_absorb s2 (drop k p)"
      unfolding sha1_absorb.simps [of s p] if_not_P [OF p] if_not_P [OF g] Let_def k_def [symmetric] b_def [symmetric]
        s1_def [symmetric] s2_def [symmetric] ..
    ultimately show ?thesis by simp
  qed
qed

lemma absorbed_len [simp]: "absorbed (s\<lparr>sh_len := x\<rparr>) m = absorbed s m"
  by (simp add: absorbed_def)

lemma update_spec:
  assumes "absorbed s m" "sh_len s = of_nat (length m)"
  shows "\<exists>s'. sha1_update s p = Some s' \<and> absorbed s' (m @ p) \<and> sh_len s' = of_nat (length (m @ p))"
  using absorb_spec [of "s\<lparr>sh_len := sh_len s + of_nat (length p)\<rparr>" m p] assms
  by (simp add: sha1_update_def)

lemma absorbed_n: "absorbed s m \<Longrightarrow> sh_n s = length m mod 64"
proof -
  assume "absorbed s m"
  then obtain f t where "m = f @ t" "length f mod 64 = 0" "length t < 64" "sh_n s = length t" by (auto simp: absorbed_def)
  moreover have "(length f + length t) mod 64 = (length f mod 64 + length t) mod 64" by (simp add: mod_add_left_eq)
  ultimately show ?thesis by simp
qed

lemma absorbed_blocks: "absorbed s m \<Longrightarrow> length m mod 64 = 0 \<Longrightarrow> sh_h s = blocks sha1_iv m"
proof -
  assume s: "absorbed s m" and m: "length m mod 64 = 0"
  then have "sh_n s = 0" using absorbed_n by simp
  then show ?thesis using s by (auto simp: absorbed_def)
qed

text \<open>Padding needs at most 63 zeros.\<close>

lemma pad_mod: "r < 64 \<Longrightarrow> (120 - r) mod 64 = (if r \<le> 56 then 56 - r else 120 - r)" for r :: nat
proof -
  assume r: "r < 64"
  show ?thesis
  proof (cases "r \<le> 56")
    case True
    then have "120 - r = 64 + (56 - r)" by linarith
    then have "(120 - r) mod 64 = (56 - r) mod 64" by (simp only: mod_add_self1)
    then show ?thesis using True by simp
  qed (use r in simp)
qed

lemma pad_step: "r < 64 \<Longrightarrow> Suc k = (120 - r) mod 64 \<Longrightarrow> k = (120 - Suc r mod 64) mod 64" for r :: nat
proof (cases "r = 63")
  case False
  assume r: "r < 64" and k: "Suc k = (120 - r) mod 64"
  have "Suc r < 64" using False r by simp
  then show ?thesis using k pad_mod [OF r] pad_mod [of "Suc r"] by (simp split: if_splits)
qed (use pad_mod [of 63] in simp)

lemma sha1_pad_spec:
  "absorbed s m \<Longrightarrow> sh_len s = of_nat (length m) \<Longrightarrow> k = (120 - length m mod 64) mod 64 \<Longrightarrow> k \<le> fuel \<Longrightarrow>
   \<exists>s'. sha1_pad fuel s = Some s' \<and> absorbed s' (m @ replicate k 0)"
proof (induction k arbitrary: s m fuel)
  case 0
  then have "length m mod 64 = 56" using pad_mod [of "length m mod 64"] by (simp split: if_splits)
  then show ?case using 0 absorbed_n [OF 0(1)] by (cases fuel) auto
next
  case (Suc k)
  then obtain f' where fuel: "fuel = Suc f'" by (cases fuel) auto
  have n: "sh_n s \<noteq> 56" using absorbed_n [OF Suc.prems(1)] Suc.prems(3) by auto
  obtain s1 where s1: "sha1_update s [0] = Some s1" "absorbed s1 (m @ [0])" "sh_len s1 = of_nat (length (m @ [0]))"
    using update_spec [OF Suc.prems(1,2)] by blast
  have "k = (120 - length (m @ [0]) mod 64) mod 64"
    using pad_step [of "length m mod 64" k] Suc.prems(3) by (simp add: mod_Suc_eq)
  from Suc.IH [OF s1(2,3) this] obtain s' where "sha1_pad f' s1 = Some s'" "absorbed s' ((m @ [0]) @ replicate k 0)"
    using Suc.prems(4) fuel by auto
  then show ?case using fuel n s1 by simp
qed

lemma length_be64 [simp]: "length (be64 v) = 8"
  by (simp add: be64_def)

lemma sha1_final_spec:
  assumes "absorbed s m" "sh_len s = of_nat (length m)"
  shows "sha1_final s = Some (sha1_ref m)"
proof -
  obtain s1 where s1: "sha1_update s [0x80] = Some s1" "absorbed s1 (m @ [0x80])" "sh_len s1 = of_nat (length (m @ [0x80]))"
    using update_spec [OF assms] by blast
  define k where "k = (120 - length (m @ [0x80]) mod 64) mod 64"
  have k: "k \<le> 63" by (simp add: k_def)
  obtain s2 where s2: "sha1_pad 63 s1 = Some s2" "absorbed s2 ((m @ [0x80]) @ replicate k 0)"
    using sha1_pad_spec [OF s1(2,3) k_def k] by blast
  obtain s3 where s3: "sha1_absorb (s2\<lparr>sh_len := sh_len s2 + of_nat (length (be64 (sh_len s * 8)))\<rparr>) (be64 (sh_len s * 8)) = Some s3"
      "absorbed s3 (((m @ [0x80]) @ replicate k 0) @ be64 (sh_len s * 8))"
    using absorb_spec [of "s2\<lparr>sh_len := sh_len s2 + of_nat (length (be64 (sh_len s * 8)))\<rparr>"] s2(2) by (simp only: absorbed_len) blast
  have keq: "k = (119 - length m mod 64) mod 64"
    using pad_mod [of "length m mod 64"] by (simp add: k_def mod_Suc)
  have pad: "((m @ [0x80]) @ replicate k 0) @ be64 (sh_len s * 8) = sha1_padding m"
    by (simp add: sha1_padding_def keq assms(2))
  have "length (sha1_padding m) mod 64 = 0"
  proof -
    define r where "r = length m mod 64"
    have r: "r < 64" by (simp add: r_def)
    have "(r + 1 + (119 - r) mod 64 + 8) mod 64 = 0"
    proof (cases "r \<le> 55")
      case True
      then have "119 - r = 64 + (55 - r)" by linarith
      then have "(119 - r) mod 64 = (55 - r) mod 64" by (simp only: mod_add_self1)
      then have "(119 - r) mod 64 = 55 - r" by simp
      then show ?thesis using True by simp
    next
      case False
      then have "(119 - r) mod 64 = 119 - r" by simp
      then show ?thesis using False r by simp
    qed
    then have "(length m + (1 + (119 - r) mod 64 + 8)) mod 64 = 0"
      unfolding r_def by (metis (no_types, lifting) mod_add_left_eq add.assoc)
    then show ?thesis by (simp add: sha1_padding_def r_def)
  qed
  then have "sh_h s3 = blocks sha1_iv (sha1_padding m)" by (rule absorbed_blocks [OF s3(2) [unfolded pad]])
  then show ?thesis using s1(1) s2(1) s3(1) by (simp add: sha1_final_def sha1_update_def sha1_ref_def)
qed

section \<open>base64 properties\<close>

lemma length_base64: "length (base64_chars xs) = 4 * ((length xs + 2) div 3)"
proof (induction xs rule: base64_chars.induct)
  case (1 x y z rest)
  have "(length (x # y # z # rest) + 2) div 3 = Suc ((length rest + 2) div 3)" by simp
  then show ?case using 1 by (simp add: Let_def)
qed (simp_all add: Let_def)

text \<open>A decoder, as the reference: the value of a character is its place in the alphabet.\<close>

definition b64_value :: "u8 \<Rightarrow> u32" where
  "b64_value c = of_nat (length (takeWhile (\<lambda>x. of_char x \<noteq> c) b64_alphabet))"

fun decode64 :: "bytes \<Rightarrow> bytes" where
  "decode64 (a # b # c # d # rest) =
     (let v1 = push_bit 18 (b64_value a) OR push_bit 12 (b64_value b);
          v2 = v1 OR push_bit 6 (b64_value c);
          v3 = v2 OR b64_value d in
      (if c = 61 then [ucast (drop_bit 16 v1)]
       else if d = 61 then [ucast (drop_bit 16 v2), ucast (drop_bit 8 v2)]
       else [ucast (drop_bit 16 v3), ucast (drop_bit 8 v3), ucast v3]) @ decode64 rest)"
| "decode64 _ = []"

lemma b64_all: "\<forall>n\<in>set [0 ..< 64]. b64_value (B64 (of_nat n)) = of_nat n \<and> B64 (of_nat n) \<noteq> 61"
  by code_simp

lemma b64_value_B64 [simp]: "b64_value (B64 (v AND 63)) = v AND 63"
  and B64_pad [simp]: "B64 (v AND 63) \<noteq> 61"
proof -
  have "v AND 63 \<le> 63" by (rule word_and_le1)
  then have "unat (v AND 63) < 64" by (simp add: word_le_nat_alt)
  then show "b64_value (B64 (v AND 63)) = v AND 63" "B64 (v AND 63) \<noteq> 61"
    using b64_all [rule_format, of "unat (v AND 63)"] by auto
qed

text \<open>Six-bit groups of a 24-bit value, put back together.\<close>

lemma mask6: "(63 :: u32) = mask 6"
  by (simp add: mask_eq_exp_minus_1)

lemma sextets:
  fixes v :: u32
  defines "hi \<equiv> push_bit 18 (drop_bit 18 v AND 63) OR push_bit 12 (drop_bit 12 v AND 63)"
  assumes "n < 24"
  shows "12 \<le> n \<Longrightarrow> bit hi n = bit v n"
    and "6 \<le> n \<Longrightarrow> bit (hi OR push_bit 6 (drop_bit 6 v AND 63)) n = bit v n"
    and "bit ((hi OR push_bit 6 (drop_bit 6 v AND 63)) OR (v AND 63)) n = bit v n"
  using assms(2) unfolding hi_def mask6
  by (cases "18 \<le> n"; cases "12 \<le> n"; cases "6 \<le> n"; simp add: bit_simps del: mask_numeral; fastforce)+

lemma octet:
  fixes w v :: u32
  shows "(\<And>n. k \<le> n \<Longrightarrow> n < k + 8 \<Longrightarrow> bit w n = bit v n) \<Longrightarrow> ucast (drop_bit k w) = (ucast (drop_bit k v) :: u8)"
  by (rule bit_word_eqI) (simp add: bit_ucast_iff bit_drop_bit_eq)

lemma octets:
  fixes x y z :: u8
  defines "v \<equiv> (push_bit 16 (ucast x) OR push_bit 8 (ucast y)) OR (ucast z :: u32)"
  shows "ucast (drop_bit 16 v) = x" "ucast (drop_bit 8 v) = y" "ucast v = z"
  unfolding v_def by (rule bit_word_eqI; auto simp: bit_simps dest: bit_imp_le_length)+

lemma decode64_base64: "decode64 (base64_chars xs) = xs"
proof (induction xs rule: base64_chars.induct)
  case (1 x y z rest)
  define v where "v = (push_bit 16 (ucast x) OR push_bit 8 (ucast y)) OR (ucast z :: u32)"
  define w where "w = ((push_bit 18 (drop_bit 18 v AND 63) OR push_bit 12 (drop_bit 12 v AND 63)) OR push_bit 6 (drop_bit 6 v AND 63)) OR (v AND 63)"
  have b: "bit w n = bit v n" if "n < 24" for n using sextets(3) [OF that, of v] by (simp only: w_def)
  have "decode64 (base64_chars (x # y # z # rest)) = [ucast (drop_bit 16 w), ucast (drop_bit 8 w), ucast w] @ decode64 (base64_chars rest)"
    unfolding base64_chars.simps v_def [symmetric] Let_def w_def by simp
  then show ?case using 1 octet [of 16 w v] octet [of 8 w v] octet [of 0 w v] octets [of x y z] b by (simp add: v_def)
next
  case (2 x)
  show ?case using octet [OF sextets(1), of 16 "push_bit 16 (ucast x)"] octets(1) [of x 0 0] by (simp add: Let_def)
next
  case (3 x y)
  define v where "v = push_bit 16 (ucast x) OR (push_bit 8 (ucast y) :: u32)"
  define w where "w = (push_bit 18 (drop_bit 18 v AND 63) OR push_bit 12 (drop_bit 12 v AND 63)) OR push_bit 6 (drop_bit 6 v AND 63)"
  have b: "bit w n = bit v n" if "n < 24" "8 \<le> n" for n using sextets(2) [OF that(1), of v] that(2) by (simp add: w_def)
  have "decode64 (base64_chars [x, y]) = [ucast (drop_bit 16 w), ucast (drop_bit 8 w)]"
    unfolding base64_chars.simps v_def [symmetric] Let_def w_def by simp
  then show ?case using octet [of 16 w v] octet [of 8 w v] octets(1,2) [of x y 0] b by (simp add: v_def)
qed simp

section \<open>Properties\<close>

lemma absorbed_init: "length junk = 64 \<Longrightarrow> absorbed (sha1_init junk) []"
  by (simp add: absorbed_def sha1_init_def blocks_short)

lemma updates_spec:
  "absorbed s m \<Longrightarrow> sh_len s = of_nat (length m) \<Longrightarrow>
   \<exists>s'. fold (\<lambda>p r. r \<bind> (\<lambda>s. sha1_update s p)) ps (Some s) = Some s' \<and>
     absorbed s' (m @ concat ps) \<and> sh_len s' = of_nat (length (m @ concat ps))"
proof (induction ps arbitrary: s m)
  case (Cons p ps)
  from update_spec [OF Cons.prems, of p] obtain s1 where
    s1: "sha1_update s p = Some s1" "absorbed s1 (m @ p)" "sh_len s1 = of_nat (length (m @ p))" by blast
  from Cons.IH [OF s1(2,3)] show ?case using s1(1) by simp
qed simp

text \<open>C29: Hashing a message in any pieces, of any sizes, gives the SHA-1 digest of the whole message as
  the padded block-by-block definition computes it; no step runs outside the 64-byte buffer, the
  padding loop ends, and what the buffer held before makes no difference.\<close>

theorem sha1_streaming:
  assumes "length junk = 64"
  shows "fold (\<lambda>p r. r \<bind> (\<lambda>s. sha1_update s p)) pieces (Some (sha1_init junk)) \<bind> sha1_final = Some (sha1_ref (concat pieces))"
proof -
  have "sh_len (sha1_init junk) = of_nat (length ([] :: bytes))" by (simp add: sha1_init_def)
  from updates_spec [OF absorbed_init [OF assms] this, of pieces] obtain s' where
    "fold (\<lambda>p r. r \<bind> (\<lambda>s. sha1_update s p)) pieces (Some (sha1_init junk)) = Some s'"
    "absorbed s' (concat pieces)" "sh_len s' = of_nat (length (concat pieces))" by auto
  then show ?thesis by (simp add: sha1_final_spec)
qed

theorem sha1_streaming_witness:
  "fold (\<lambda>p r. r \<bind> (\<lambda>s. sha1_update s p)) [str ''ab'', [], str ''c''] (Some (sha1_init (replicate 64 7))) \<bind> sha1_final
     = Some (sha1_ref (str ''abc''))"
  using sha1_streaming [of "replicate 64 7" "[str ''ab'', [], str ''c'']"] by (simp add: str_def)

text \<open>\<open>base64\<close> writes four characters for every three bytes begun and a NUL, exactly
  what its comment asks of the buffer, and the characters decode back to the input.\<close>

theorem base64_round_trip:
  assumes "4 * ((length inp + 2) div 3) + 1 \<le> cap"
  shows "\<exists>cs. base64 cap inp = Some (cs @ [0]) \<and> length cs = 4 * ((length inp + 2) div 3) \<and> decode64 cs = inp"
  using assms by (simp add: base64_def emit_def length_base64 decode64_base64)

theorem base64_round_trip_witness:
  "\<exists>cs. base64 5 (str ''a'') = Some (cs @ [0]) \<and> length cs = 4 \<and> decode64 cs = str ''a''"
  using base64_round_trip [of "str ''a''" 5] by (simp add: str_def)

lemma length_sha1_ref [simp]: "length (sha1_ref m) = 20"
  by (simp add: sha1_ref_def sha1_out_def upt_rec numeral_eq_Suc)

end
