(* ===== verification/WS_Handshake.thy ===== *)
theory WS_Handshake
  imports WS_Hash
begin

text \<open>
  The HTTP upgrade of a WebSocket (\<open>transport/nc_ws.c\<close>): the accept key, the header search and the
  three handshake calls.  A request or response is the list of its bytes, a C string argument the
  buffer that holds it; pointers into a buffer are offsets, and every read is checked.
\<close>

section \<open>Model\<close>

definition NC_WS_ERR :: int where
  "NC_WS_ERR = -1"

definition WS_GUID :: bytes where
  "WS_GUID = str ''258EAFA5-E914-47DA-95CA-C5AB0DC85B11''"

text \<open>\<open>junk\<close> is what the uninitialised hash buffer holds.\<close>

definition accept_key :: "bytes \<Rightarrow> bytes \<Rightarrow> bytes option" where
  "accept_key junk client_key = do {
     s \<leftarrow> sha1_update (sha1_init junk) client_key;
     s \<leftarrow> sha1_update s WS_GUID;
     digest \<leftarrow> sha1_final s;
     base64 32 digest }"

text \<open>\<open>snprintf\<close>: the length of the whole text, negative when no \<open>int\<close> holds it, and the bytes written.\<close>

definition snprintf :: "nat \<Rightarrow> bytes \<Rightarrow> int \<times> bytes" where
  "snprintf cap s = (if length s < 2 ^ 31 then (int (length s), if cap = 0 then [] else take (cap - 1) s @ [0]) else (-1, []))"

definition lower :: "u8 \<Rightarrow> u8" where
  "lower c = (if 65 \<le> c \<and> c \<le> 90 then c + 32 else c)"

text \<open>The inner loop of \<open>find_header\<close>: do the bytes at \<open>i\<close> spell the name, up to case?\<close>

fun name_at :: "bytes \<Rightarrow> nat \<Rightarrow> bytes \<Rightarrow> bool option" where
  "name_at req i [] = Some True"
| "name_at req i (b # bs) = do { a \<leftarrow> rd8 req i; if lower a \<noteq> lower b then Some False else name_at req (Suc i) bs }"

text \<open>\<open>while (v < end && P(*v)) v++\<close>\<close>

function skip_while :: "(u8 \<Rightarrow> bool) \<Rightarrow> bytes \<Rightarrow> nat \<Rightarrow> nat option" where
  "skip_while P req v =
     (if v < length req then do { c \<leftarrow> rd8 req v; if P c then skip_while P req (Suc v) else Some v } else Some v)"
  by pat_completeness auto
termination by (relation "measure (\<lambda>(P, req, v). length req - v)") auto

declare skip_while.simps [simp del]

function find_from :: "bytes \<Rightarrow> bytes \<Rightarrow> nat \<Rightarrow> (nat \<times> nat) option option" where
  "find_from req name i =
     (if i + length name < length req then do {
        line_start \<leftarrow> (if i \<noteq> 0 then do { c \<leftarrow> rd8 req (i - 1); Some (c = 10) } else Some True);
        if \<not> line_start then find_from req name (Suc i)
        else do {
          m \<leftarrow> name_at req i name;
          found \<leftarrow> (if m then do { c \<leftarrow> rd8 req (i + length name); Some (c = 58) } else Some False);
          if \<not> found then find_from req name (Suc i)
          else do {
            v \<leftarrow> skip_while (\<lambda>c. c = 32 \<or> c = 9) req (i + length name + 1);
            e \<leftarrow> skip_while (\<lambda>c. c \<noteq> 13 \<and> c \<noteq> 10) req v;
            Some (Some (v, e - v)) } } }
      else Some None)"
  by pat_completeness auto
termination by (relation "measure (\<lambda>(req, name, i). length req - i)") auto

declare find_from.simps [simp del]

definition find_header :: "bytes \<Rightarrow> bytes \<Rightarrow> (nat \<times> nat) option option" where
  "find_header req name = find_from req name 0"

text \<open>The scan for the empty line that ends a header block, from \<open>i\<close> on; \<open>&&\<close> reads no further byte
  once one differs.\<close>

fun bytes_at :: "bytes \<Rightarrow> nat \<Rightarrow> bytes \<Rightarrow> bool option" where
  "bytes_at req i [] = Some True"
| "bytes_at req i (b # bs) = do { a \<leftarrow> rd8 req i; if a \<noteq> b then Some False else bytes_at req (Suc i) bs }"

function header_end :: "bytes \<Rightarrow> nat \<Rightarrow> bool option" where
  "header_end req i =
     (if i + 3 < length req then do { m \<leftarrow> bytes_at req i [13, 10, 13, 10]; if m then Some True else header_end req (Suc i) }
      else Some False)"
  by pat_completeness auto
termination by (relation "measure (\<lambda>(req, i). length req - i)") auto

declare header_end.simps [simp del]

text \<open>Does the value \<open>up[0..up_len)\<close> hold \<open>websocket\<close> from \<open>i\<close> on, bit 5 of each byte apart?\<close>

fun word_at :: "bytes \<Rightarrow> nat \<Rightarrow> bytes \<Rightarrow> bool option" where
  "word_at req i [] = Some True"
| "word_at req i (b # bs) = do { a \<leftarrow> rd8 req i; if a OR 32 \<noteq> b then Some False else word_at req (Suc i) bs }"

function has_websocket :: "bytes \<Rightarrow> nat \<Rightarrow> nat \<Rightarrow> nat \<Rightarrow> bool option" where
  "has_websocket req up up_len i =
     (if 9 \<le> up_len \<and> i + 9 \<le> up_len then do {
        m \<leftarrow> word_at req (up + i) (str ''websocket'');
        if m then Some True else has_websocket req up up_len (Suc i) }
      else Some False)"
  by pat_completeness auto
termination by (relation "measure (\<lambda>(req, up, up_len, i). up_len - i)") auto

declare has_websocket.simps [simp del]

definition CRLF :: bytes where
  "CRLF = [13, 10]"

definition upgrade_lines :: bytes where
  "upgrade_lines = str ''Upgrade: websocket'' @ CRLF @ str ''Connection: Upgrade'' @ CRLF"

text \<open>The return value and what is written to \<open>resp\<close>.\<close>

definition nc_ws_accept :: "bytes \<Rightarrow> bytes \<Rightarrow> nat \<Rightarrow> (int \<times> bytes) option" where
  "nc_ws_accept junk req resp_cap = do {
     have_end \<leftarrow> header_end req 0;
     if \<not> have_end then Some (0, [])
     else do {
       up \<leftarrow> find_header req (str ''Upgrade'');
       key \<leftarrow> find_header req (str ''Sec-WebSocket-Key'');
       (case (up, key) of
          (Some (u, up_len), Some (k, key_len)) \<Rightarrow>
            if key_len = 0 then Some (NC_WS_ERR, [])
            else do {
              ws \<leftarrow> has_websocket req u up_len 0;
              if \<not> ws then Some (NC_WS_ERR, [])
              else do {
                ck \<leftarrow> rd_bytes req k key_len;
                akey \<leftarrow> accept_key junk ck;
                let (n, resp) = snprintf resp_cap (str ''HTTP/1.1 101 Switching Protocols'' @ CRLF @ upgrade_lines @
                      str ''Sec-WebSocket-Accept: '' @ cstr akey @ CRLF @ CRLF);
                Some (if n < 0 \<or> int resp_cap \<le> n then NC_WS_ERR else n, resp) } }
        | _ \<Rightarrow> Some (NC_WS_ERR, [])) } }"

text \<open>The return value, what is written to \<open>buf\<close> and what is written to \<open>expect\<close>.\<close>

definition nc_ws_client_request :: "bytes \<Rightarrow> nat \<Rightarrow> bytes \<Rightarrow> bytes \<Rightarrow> bytes \<Rightarrow> (nat \<times> bytes \<times> bytes) option" where
  "nc_ws_client_request junk cap host path key16 = do {
     key64 \<leftarrow> base64 32 key16;
     klen \<leftarrow> strlen key64;
     expect \<leftarrow> accept_key junk (take klen key64);
     let (n, buf) = snprintf cap (str ''GET '' @ cstr path @ str '' HTTP/1.1'' @ CRLF @ str ''Host: '' @ cstr host @ CRLF @ upgrade_lines @
           str ''Sec-WebSocket-Key: '' @ cstr key64 @ CRLF @ str ''Sec-WebSocket-Version: 13'' @ CRLF @ CRLF);
     Some (if n < 0 \<or> int cap \<le> n then 0 else nat n, buf, expect) }"

definition nc_ws_client_verify :: "bytes \<Rightarrow> bytes \<Rightarrow> int option" where
  "nc_ws_client_verify resp expect = do {
     have_end \<leftarrow> header_end resp 0;
     if \<not> have_end then Some 0
     else if length resp < 12 \<or> take 12 resp \<noteq> str ''HTTP/1.1 101'' then Some NC_WS_ERR
     else do {
       acc \<leftarrow> find_header resp (str ''Sec-WebSocket-Accept'');
       (case acc of
          None \<Rightarrow> Some NC_WS_ERR
        | Some (a, alen) \<Rightarrow> do {
            elen \<leftarrow> strlen expect;
            if alen \<noteq> elen then Some NC_WS_ERR
            else do {
              x \<leftarrow> rd_bytes resp a alen;
              y \<leftarrow> rd_bytes expect 0 alen;
              Some (if x \<noteq> y then NC_WS_ERR else 1) } }) } }"

section \<open>Searching is safe\<close>

lemma length_str: "length (str w) = length w"
  by (simp add: str_def)

lemma name_at_ok: "i + length name \<le> length req \<Longrightarrow> ok (name_at req i name) (\<lambda>_. True)"
  by (induction name arbitrary: i) simp_all

lemma bytes_at_ok: "i + length w \<le> length req \<Longrightarrow> ok (bytes_at req i w) (\<lambda>_. True)"
  by (induction w arbitrary: i) simp_all

lemma word_at_ok: "i + length w \<le> length req \<Longrightarrow> ok (word_at req i w) (\<lambda>_. True)"
  by (induction w arbitrary: i) simp_all

lemma skip_while_ok: "v \<le> length req \<Longrightarrow> ok (skip_while P req v) (\<lambda>e. v \<le> e \<and> e \<le> length req)"
proof (induction P req v rule: skip_while.induct)
  case (1 P req v)
  then show ?case by (subst skip_while.simps) (auto intro: ok_mono)
qed

lemma find_from_ok: "ok (find_from req name i) (\<lambda>r. \<forall>v n. r = Some (v, n) \<longrightarrow> v + n \<le> length req)"
proof (induction req name i rule: find_from.induct)
  case (1 req name i)
  have val: "ok (skip_while P req v) (\<lambda>v. ok (skip_while Q req v) (\<lambda>e. v + (e - v) \<le> length req))" if "v \<le> length req" for P Q v
    using skip_while_ok [OF that, of P] by (rule ok_mono) (auto intro: ok_mono [OF skip_while_ok])
  show ?case
  proof (cases "i + length name < length req")
    case True
    obtain m where m: "name_at req i name = Some m" using name_at_ok [of i name req] True by (auto simp: ok_def)
    show ?thesis using 1 True m val [of "i + length name + 1"] by (subst find_from.simps) (auto simp: ok_if)
  qed (simp add: find_from.simps)
qed

lemma find_header_ok: "ok (find_header req name) (\<lambda>r. \<forall>v n. r = Some (v, n) \<longrightarrow> v + n \<le> length req)"
  unfolding find_header_def by (rule find_from_ok)

lemma header_end_ok: "ok (header_end req i) (\<lambda>_. True)"
proof (induction req i rule: header_end.induct)
  case (1 req i)
  then show ?case using bytes_at_ok [of i "[13, 10, 13, 10]" req] by (subst header_end.simps) (auto simp: ok_def)
qed

lemma has_websocket_ok: "up + up_len \<le> length req \<Longrightarrow> ok (has_websocket req up up_len i) (\<lambda>_. True)"
proof (induction req up up_len i rule: has_websocket.induct)
  case (1 req up up_len i)
  show ?case
  proof (cases "9 \<le> up_len \<and> i + 9 \<le> up_len")
    case True
    then obtain m where "word_at req (up + i) (str ''websocket'') = Some m"
      using word_at_ok [of "up + i" "str ''websocket''" req] 1(2) by (auto simp: ok_def length_str)
    then show ?thesis using 1 True by (subst has_websocket.simps) simp
  next
    case False
    then have "has_websocket req up up_len i = Some False" by (subst has_websocket.simps) (rule if_not_P)
    then show ?thesis by simp
  qed
qed

section \<open>The accept key\<close>

lemma b64_chars_all: "\<forall>n\<in>set [0 ..< 64]. B64 (of_nat n) \<notin> {0, 9, 10, 13, 32}"
  by code_simp

lemma B64_char: "B64 (v AND 63) \<notin> {0, 9, 10, 13, 32}"
proof -
  have "v AND 63 \<le> 63" by (rule word_and_le1)
  then have "unat (v AND 63) < 64" by (simp add: word_le_nat_alt)
  then show ?thesis using b64_chars_all [rule_format, of "unat (v AND 63)"] by auto
qed

lemma base64_set: "list_all (\<lambda>c. c \<notin> {0, 9, 10, 13, 32}) (base64_chars xs)"
  by (induction xs rule: base64_chars.induct)
     (simp_all only: base64_chars.simps Let_def list_all_append list.pred_inject B64_char simp_thms, simp_all)

definition accept_chars :: "bytes \<Rightarrow> bytes" where
  "accept_chars k = base64_chars (sha1_ref (k @ WS_GUID))"

lemma length_accept_chars: "length (accept_chars k) = 28"
  by (simp add: accept_chars_def length_base64)

lemma accept_chars_set: "c \<in> set (accept_chars k) \<Longrightarrow> c \<notin> {0, 9, 10, 13, 32}"
  using base64_set [of "sha1_ref (k @ WS_GUID)"] by (auto simp: accept_chars_def list_all_iff)

text \<open>The key is the base64 text of the digest of the client key and the GUID, and fits.\<close>

lemma accept_key_spec: "length junk = 64 \<Longrightarrow> accept_key junk k = Some (accept_chars k @ [0])"
proof -
  assume j: "length junk = 64"
  have "sh_len (sha1_init junk) = of_nat (length ([] :: bytes))" by (simp add: sha1_init_def)
  from update_spec [OF absorbed_init [OF j] this, of k] obtain s1 where
    s1: "sha1_update (sha1_init junk) k = Some s1" "absorbed s1 k" "sh_len s1 = of_nat (length k)" by auto
  from update_spec [OF s1(2,3), of WS_GUID] obtain s2 where
    s2: "sha1_update s1 WS_GUID = Some s2" "absorbed s2 (k @ WS_GUID)" "sh_len s2 = of_nat (length (k @ WS_GUID))" by blast
  show ?thesis
    using s1(1) s2(1) sha1_final_spec [OF s2(2,3)]
    by (simp add: accept_key_def base64_def emit_def length_base64 accept_chars_def)
qed

lemma cstr_chars: "0 \<notin> set cs \<Longrightarrow> cstr (cs @ [0]) = cs"
  by (induction cs) (auto simp: cstr_def)

lemma strlen_chars: "0 \<notin> set cs \<Longrightarrow> strlen (cs @ [0]) = Some (length cs)"
  by (simp add: strlen_def cstr_chars)

lemma cstr_accept [simp]: "cstr (accept_chars k @ [0]) = accept_chars k"
  using accept_chars_set by (intro cstr_chars) blast

lemma strlen_accept [simp]: "strlen (accept_chars k @ [0]) = Some 28"
  using accept_chars_set by (subst strlen_chars) (auto simp: length_accept_chars)

section \<open>Finding a header\<close>

lemma skip_while_spec:
  "v = length a \<Longrightarrow> list_all P b \<Longrightarrow> \<not> P c \<Longrightarrow> skip_while P (a @ b @ c # d) v = Some (v + length b)"
proof (induction b arbitrary: a v)
  case Nil
  then show ?case by (subst skip_while.simps) (simp add: nth_append)
next
  case (Cons x b)
  then show ?case using Cons.IH [of "Suc v" "a @ [x]"] by (subst skip_while.simps) (simp add: nth_append)
qed

lemma name_at_same: "i = length pre \<Longrightarrow> name_at (pre @ name @ suf) i name = Some True"
proof (induction name arbitrary: pre i)
  case (Cons b name)
  then show ?case using Cons.IH [of "Suc i" "pre @ [b]"] by (simp add: nth_append)
qed simp

text \<open>Inside a line nothing is looked at.\<close>

lemma find_inside:
  assumes "j + length name \<le> length req" "\<And>k. i \<le> k \<Longrightarrow> k < j \<Longrightarrow> 0 < k \<and> req ! (k - 1) \<noteq> 10" "i \<le> j"
  shows "find_from req name i = find_from req name j"
  using assms(2,3)
proof (induction "j - i" arbitrary: i)
  case (Suc d)
  then have i: "i < j" "0 < i" "req ! (i - 1) \<noteq> 10" "i + length name < length req" using assms(1) by auto
  then have "find_from req name i = find_from req name (Suc i)" by (subst find_from.simps) simp
  then show ?case using Suc i by auto
qed simp

definition line_start :: "bytes \<Rightarrow> bool" where
  "line_start pre \<longleftrightarrow> pre = [] \<or> last pre = 10"

lemma find_skip_line:
  assumes "req = pre @ (c # line) @ 10 # rest" "line_start pre" "10 \<notin> set (c # line)" "lower c \<noteq> lower b" "length (b # bs) \<le> length rest"
    "pre' = pre @ (c # line) @ [10]"
  shows "find_from req (b # bs) (length pre) = find_from req (b # bs) (length pre') \<and> line_start pre'"
proof -
  have "rd8 req (length pre - 1) = Some 10" if "pre \<noteq> []"
    using assms(1,2) that by (simp add: rd8_def nth_append last_conv_nth line_start_def)
  then have "find_from req (b # bs) (length pre) = find_from req (b # bs) (Suc (length pre))"
    using assms by (subst find_from.simps) (auto simp: rd8_def nth_append)
  moreover have "find_from req (b # bs) (Suc (length pre)) = find_from req (b # bs) (length pre')"
  proof (rule find_inside)
    fix k assume k: "Suc (length pre) \<le> k" "k < length pre'"
    have "req ! (k - 1) = (c # line) ! (k - 1 - length pre)" using k assms by (auto simp: nth_append nth_Cons')
    moreover have "k - 1 - length pre < length (c # line)" using k assms by auto
    ultimately show "0 < k \<and> req ! (k - 1) \<noteq> 10" using k assms(3) by (metis One_nat_def Suc_le_D nth_mem zero_less_Suc)
  qed (use assms in auto)
  ultimately show ?thesis using assms(6) by (simp add: line_start_def)
qed

lemma find_here:
  assumes "req = pre @ name @ [58, 32] @ (c # val) @ 13 # rest" "line_start pre" "list_all (\<lambda>c. c \<notin> {0, 9, 10, 13, 32}) (c # val)"
  shows "find_from req name (length pre) = Some (Some (length pre + length name + 2, Suc (length val)))"
proof -
  have l: "length pre + length name < length req" using assms(1) by simp
  have r: "pre \<noteq> [] \<Longrightarrow> rd8 req (length pre - 1) = Some 10"
    using assms(1,2) by (simp add: rd8_def nth_append last_conv_nth line_start_def)
  have n: "name_at req (length pre) name = Some True" unfolding assms(1) by (rule name_at_same) simp
  have colon: "rd8 req (length pre + length name) = Some 58" using assms(1) by (simp add: rd8_def nth_append)
  have v: "skip_while (\<lambda>c. c = 32 \<or> c = 9) req (length pre + length name + 1) = Some (length pre + length name + 2)"
    using skip_while_spec [of _ "pre @ name @ [58]" "\<lambda>c. c = 32 \<or> c = 9" "[32]" c "val @ 13 # rest"] assms(1,3) by simp
  have e: "skip_while (\<lambda>c. c \<noteq> 13 \<and> c \<noteq> 10) req (length pre + length name + 2) = Some (length pre + length name + 2 + Suc (length val))"
  proof -
    have "list_all (\<lambda>c. c \<noteq> 13 \<and> c \<noteq> 10) (c # val)" using assms(3) by (rule list.pred_mono_strong) auto
    then show ?thesis
      using skip_while_spec [of "length pre + length name + 2" "pre @ name @ [58, 32]" "\<lambda>c. c \<noteq> 13 \<and> c \<noteq> 10" "c # val" 13 rest] assms(1) by simp
  qed
  show ?thesis using l r n colon v e by (cases "pre = []"; subst find_from.simps; simp)
qed

text \<open>A header after other lines, none of which starts with its first letter.\<close>

abbreviation text_lines :: "bytes list \<Rightarrow> bytes" where
  "text_lines ls \<equiv> concat (map (\<lambda>l. l @ [10]) ls)"

abbreviation other_line :: "u8 \<Rightarrow> bytes \<Rightarrow> bool" where
  "other_line b l \<equiv> l \<noteq> [] \<and> 10 \<notin> set l \<and> lower (hd l) \<noteq> lower b"

lemma find_skip_lines:
  assumes "req = pre @ text_lines ls @ rest" "line_start pre" "list_all (other_line b) ls" "length (b # bs) \<le> length rest"
  shows "find_from req (b # bs) (length pre) = find_from req (b # bs) (length (pre @ text_lines ls)) \<and> line_start (pre @ text_lines ls)"
  using assms(1-3)
proof (induction ls arbitrary: pre)
  case (Cons l ls)
  obtain c line where l: "l = c # line" using Cons.prems(3) by (cases l) auto
  have "find_from req (b # bs) (length pre) = find_from req (b # bs) (length (pre @ (c # line) @ [10])) \<and> line_start (pre @ (c # line) @ [10])"
    using Cons.prems assms(4) l by (intro find_skip_line [of _ _ _ _ "text_lines ls @ rest"]) auto
  then show ?case using Cons.IH [of "pre @ (c # line) @ [10]"] Cons.prems l by simp
qed simp

lemma find_header_line:
  assumes "req = text_lines ls @ (b # bs) @ [58, 32] @ (c # val) @ 13 # rest" "list_all (other_line b) ls"
    "list_all (\<lambda>c. c \<notin> {0, 9, 10, 13, 32}) (c # val)"
  shows "find_header req (b # bs) = Some (Some (length (text_lines ls) + length (b # bs) + 2, Suc (length val)))"
proof -
  note skip = find_skip_lines [of req "[]" ls "(b # bs) @ [58, 32] @ (c # val) @ 13 # rest" b bs]
  have "find_from req (b # bs) 0 = find_from req (b # bs) (length (text_lines ls))" "line_start (text_lines ls)"
    using skip assms by (auto simp: line_start_def)
  then show ?thesis using find_here [OF assms(1) _ assms(3)] by (simp add: find_header_def)
qed

lemma header_end_found: "i \<le> length pre \<Longrightarrow> header_end (pre @ [13, 10, 13, 10] @ suf) i = Some True"
proof (induction "length pre - i" arbitrary: i)
  case 0
  then have "i = length pre" by simp
  then show ?case by (subst header_end.simps) (simp add: nth_append)
next
  case (Suc d)
  define req where "req = pre @ [13, 10, 13, 10] @ suf"
  have l: "i + 3 < length req" using Suc by (simp add: req_def)
  then obtain m where "bytes_at req i [13, 10, 13, 10] = Some m" using bytes_at_ok [of i "[13, 10, 13, 10]" req] by (auto simp: ok_def)
  then show ?case using Suc l unfolding req_def [symmetric] by (subst header_end.simps) simp
qed

section \<open>The two texts\<close>

text \<open>The request and the response, as texts.\<close>

definition request_text :: "bytes \<Rightarrow> bytes \<Rightarrow> bytes \<Rightarrow> bytes" where
  "request_text path host key = str ''GET '' @ path @ str '' HTTP/1.1'' @ CRLF @ str ''Host: '' @ host @ CRLF @ upgrade_lines @
     str ''Sec-WebSocket-Key: '' @ key @ CRLF @ str ''Sec-WebSocket-Version: 13'' @ CRLF @ CRLF"

definition response_text :: "bytes \<Rightarrow> bytes" where
  "response_text akey = str ''HTTP/1.1 101 Switching Protocols'' @ CRLF @ upgrade_lines @ str ''Sec-WebSocket-Accept: '' @ akey @ CRLF @ CRLF"

lemma length_texts:
  "length (request_text path host key) = length path + length host + length key + 114"
  "length (response_text akey) = length akey + 101"
  by (simp_all add: request_text_def response_text_def str_def CRLF_def upgrade_lines_def)

lemma str_Cons: "str (c # cs) = of_char c # str cs"
  by (simp add: str_def)

definition upgrade_block :: "bytes list" where
  "upgrade_block = [str ''Upgrade: websocket'' @ [13], str ''Connection: Upgrade'' @ [13]]"

lemma response_lines:
  "response_text akey = text_lines ((str ''HTTP/1.1 101 Switching Protocols'' @ [13]) # upgrade_block) @
     str ''Sec-WebSocket-Accept'' @ [58, 32] @ akey @ 13 # [10, 13, 10]"
  by (simp add: response_text_def upgrade_lines_def upgrade_block_def CRLF_def str_def)

lemma request_lines:
  "request_text path host key = text_lines [str ''GET '' @ path @ str '' HTTP/1.1'' @ [13], str ''Host: '' @ host @ [13]] @
     str ''Upgrade'' @ [58, 32] @ str ''websocket'' @ 13 # 10 # str ''Connection: Upgrade'' @ CRLF @
     str ''Sec-WebSocket-Key: '' @ key @ CRLF @ str ''Sec-WebSocket-Version: 13'' @ CRLF @ CRLF"
  "request_text path host key = text_lines ([str ''GET '' @ path @ str '' HTTP/1.1'' @ [13], str ''Host: '' @ host @ [13]] @ upgrade_block) @
     str ''Sec-WebSocket-Key'' @ [58, 32] @ key @ 13 # 10 # str ''Sec-WebSocket-Version: 13'' @ CRLF @ CRLF"
  by (simp_all add: request_text_def upgrade_lines_def upgrade_block_def CRLF_def str_def)

lemma find_in_response:
  assumes "list_all (\<lambda>c. c \<notin> {0, 9, 10, 13, 32}) akey" "akey \<noteq> []"
  shows "find_header (response_text akey) (str ''Sec-WebSocket-Accept'') = Some (Some (97, length akey))"
proof -
  obtain c val where akey: "akey = c # val" using assms(2) by (cases akey) auto
  have o: "list_all (other_line (of_char CHR ''S'')) ((str ''HTTP/1.1 101 Switching Protocols'' @ [13]) # upgrade_block)" by code_simp
  have n: "length (text_lines ((str ''HTTP/1.1 101 Switching Protocols'' @ [13]) # upgrade_block)) + length (str ''Sec-WebSocket-Accept'') + 2 = 97"
    by code_simp
  show ?thesis
    using find_header_line [OF response_lines [unfolded akey, unfolded str_Cons [of "CHR ''S''"]] o assms(1) [unfolded akey]] n
    unfolding str_Cons [of "CHR ''S''"] akey by simp
qed

lemma find_in_request:
  assumes "10 \<notin> set path" "10 \<notin> set host"
  shows "find_header (request_text path host key) (str ''Upgrade'') = Some (Some (length path + length host + 32, 9))"
    and "list_all (\<lambda>c. c \<notin> {0, 9, 10, 13, 32}) key \<Longrightarrow> key \<noteq> [] \<Longrightarrow>
      find_header (request_text path host key) (str ''Sec-WebSocket-Key'') = Some (Some (length path + length host + 83, length key))"
proof -
  let ?ls = "[str ''GET '' @ path @ str '' HTTP/1.1'' @ [13], str ''Host: '' @ host @ [13]]"
  have lits: "10 \<notin> set (str ''GET '')" "10 \<notin> set (str '' HTTP/1.1'')" "10 \<notin> set (str ''Host: '')" by code_simp+
  have low: "lower (of_char CHR ''G'') \<noteq> lower (of_char CHR ''U'')" "lower (of_char CHR ''H'') \<noteq> lower (of_char CHR ''U'')"
     "lower (of_char CHR ''G'') \<noteq> lower (of_char CHR ''S'')" "lower (of_char CHR ''H'') \<noteq> lower (of_char CHR ''S'')" by code_simp+
  have o1: "list_all (other_line (of_char CHR ''U'')) ?ls" "list_all (other_line (of_char CHR ''S'')) ?ls"
    using assms lits low by (simp_all add: str_Cons)
  have o2: "list_all (other_line (of_char CHR ''S'')) upgrade_block" by code_simp
  have v: "list_all (\<lambda>c. c \<notin> {0, 9, 10, 13, 32}) (str ''websocket'')" by code_simp
  show "find_header (request_text path host key) (str ''Upgrade'') = Some (Some (length path + length host + 32, 9))"
    using find_header_line [OF request_lines(1) [unfolded str_Cons [of "CHR ''U''"] str_Cons [of "CHR ''w''"]] o1(1) v [unfolded str_Cons [of "CHR ''w''"]]]
    unfolding str_Cons [of "CHR ''U''"] by (simp add: length_str)
  assume k: "list_all (\<lambda>c. c \<notin> {0, 9, 10, 13, 32}) key" "key \<noteq> []"
  then obtain c val where key: "key = c # val" by (cases key) auto
  have "length (text_lines upgrade_block) = 41" by code_simp
  then show "find_header (request_text path host key) (str ''Sec-WebSocket-Key'') = Some (Some (length path + length host + 83, length key))"
    using find_header_line [OF request_lines(2) [unfolded key, unfolded str_Cons [of "CHR ''S''"]] _ k(1) [unfolded key]] o1(2) o2
    unfolding str_Cons [of "CHR ''S''"] key by (simp add: length_str)
qed

lemma word_at_same: "i = length pre \<Longrightarrow> list_all (\<lambda>b. b OR 32 = b) w \<Longrightarrow> word_at (pre @ w @ suf) i w = Some True"
proof (induction w arbitrary: pre i)
  case (Cons b w)
  then show ?case using Cons.IH [of "Suc i" "pre @ [b]"] by (simp add: nth_append)
qed simp

lemma request_websocket: "has_websocket (request_text path host key) (length path + length host + 32) 9 0 = Some True"
proof -
  have "list_all (\<lambda>b. b OR 32 = b) (str ''websocket'')" by code_simp
  moreover obtain pre suf where "request_text path host key = pre @ str ''websocket'' @ suf" "length pre = length path + length host + 32"
  proof
    show "request_text path host key = (text_lines [str ''GET '' @ path @ str '' HTTP/1.1'' @ [13], str ''Host: '' @ host @ [13]] @
       str ''Upgrade'' @ [58, 32]) @ str ''websocket'' @ 13 # 10 # str ''Connection: Upgrade'' @ CRLF @
       str ''Sec-WebSocket-Key: '' @ key @ CRLF @ str ''Sec-WebSocket-Version: 13'' @ CRLF @ CRLF"
      unfolding request_lines(1) by simp
  qed (simp add: length_str)
  ultimately have "word_at (request_text path host key) (length path + length host + 32) (str ''websocket'') = Some True"
    by (simp add: word_at_same)
  then show ?thesis by (subst has_websocket.simps) simp
qed

lemma rd_bytes_mid: "i = length a \<Longrightarrow> n = length b \<Longrightarrow> rd_bytes (a @ b @ c) i n = Some b"
  by (simp add: rd_bytes_def)

lemma request_key:
  assumes "n = length key"
  shows "rd_bytes (request_text path host key) (length path + length host + 83) n = Some key"
proof -
  have "length (text_lines upgrade_block) = 41" by code_simp
  then show ?thesis using assms unfolding request_lines(2) append.assoc [symmetric]
    by (subst append.assoc) (rule rd_bytes_mid; simp add: length_str)
qed

lemma response_key:
  assumes "n = length akey"
  shows "rd_bytes (response_text akey) 97 n = Some akey"
proof -
  have "97 = length (text_lines ((str ''HTTP/1.1 101 Switching Protocols'' @ [13]) # upgrade_block) @ str ''Sec-WebSocket-Accept'' @ [58, 32])"
    by code_simp
  from rd_bytes_mid [OF this assms] show ?thesis unfolding response_lines append.assoc .
qed

lemma response_status: "take 12 (response_text akey) = str ''HTTP/1.1 101''"
  by (simp add: response_text_def str_def)

lemma header_end_texts:
  "header_end (request_text path host key) 0 = Some True" "header_end (response_text akey) 0 = Some True"
proof -
  have "\<exists>pre. request_text path host key = pre @ [13, 10, 13, 10] @ []" unfolding request_text_def CRLF_def by auto
  then show "header_end (request_text path host key) 0 = Some True" using header_end_found by fastforce
  have "\<exists>pre. response_text akey = pre @ [13, 10, 13, 10] @ []" unfolding response_text_def CRLF_def by auto
  then show "header_end (response_text akey) 0 = Some True" using header_end_found by fastforce
qed

lemma take_snprintf: "length s < cap \<Longrightarrow> take (length s) (take (cap - 1) s @ [0]) = s"
  by simp

section \<open>Properties\<close>

text \<open>On any bytes from the network the server side reads nothing outside the request and writes
  nothing outside the response: it answers 0 (more to come), an error, or the length of a response
  that fits together with its NUL.\<close>

theorem ws_accept_safe:
  assumes "length junk = 64"
  shows "\<exists>n resp. nc_ws_accept junk req resp_cap = Some (n, resp) \<and> length resp \<le> resp_cap \<and>
    (n = NC_WS_ERR \<or> n = 0 \<or> 0 < n \<and> n < int resp_cap \<and> length resp = nat n + 1)"
proof -
  obtain he where he: "header_end req 0 = Some he" using header_end_ok by (auto simp: ok_def)
  obtain u where u: "find_header req (str ''Upgrade'') = Some u" "\<And>v n. u = Some (v, n) \<Longrightarrow> v + n \<le> length req"
    using find_header_ok [of req "str ''Upgrade''"] by (auto simp: ok_def)
  obtain k where k: "find_header req (str ''Sec-WebSocket-Key'') = Some k" "\<And>v n. k = Some (v, n) \<Longrightarrow> v + n \<le> length req"
    using find_header_ok [of req "str ''Sec-WebSocket-Key''"] by (auto simp: ok_def)
  show ?thesis
  proof (cases "he \<and> u \<noteq> None \<and> k \<noteq> None")
    case True
    then obtain uo ul ko kl where uk: "u = Some (uo, ul)" "k = Some (ko, kl)" by auto
    then obtain ws where ws: "has_websocket req uo ul 0 = Some ws" using has_websocket_ok u(2) by (fastforce simp: ok_def)
    have t: "str ''HTTP/1.1 101 Switching Protocols'' @ CRLF @ upgrade_lines @ str ''Sec-WebSocket-Accept: '' @
        cstr (accept_chars ck @ [0]) @ CRLF @ CRLF = response_text (accept_chars ck)" for ck by (simp add: response_text_def)
    have l: "length (response_text (accept_chars ck)) = 129" for ck by (simp add: length_texts length_accept_chars)
    show ?thesis using True he u k uk ws unfolding nc_ws_accept_def accept_key_spec [OF assms]
      by (simp add: accept_key_spec [OF assms] t [simplified] snprintf_def l NC_WS_ERR_def)
  next
    case False
    then show ?thesis using he u(1) k(1) by (auto simp: nc_ws_accept_def split: option.split)
  qed
qed

theorem ws_accept_safe_witness:
  "\<exists>n resp. nc_ws_accept (replicate 64 0) (str ''GET'') 200 = Some (n, resp) \<and> length resp \<le> 200 \<and>
    (n = NC_WS_ERR \<or> n = 0 \<or> 0 < n \<and> n < 200 \<and> length resp = nat n + 1)"
  using ws_accept_safe [of "replicate 64 0" "str ''GET''" 200] by simp

text \<open>C5: The two sides of the handshake agree: for any 16 key bytes, and a host and a path without line
  feeds, the server accepts the request the client builds and the client accepts the response the
  server gives, when the buffers hold the texts.\<close>

theorem ws_handshake:
  assumes "length junk = 64" "length junk' = 64" "length key16 = 16"
    "10 \<notin> set (cstr path)" "10 \<notin> set (cstr host)"
    "length (cstr path) + length (cstr host) + 138 < cap" "cap < 2 ^ 31" "129 < resp_cap"
  shows "\<exists>n buf expect m resp. nc_ws_client_request junk cap host path key16 = Some (n, buf, expect) \<and> 0 < n \<and>
    nc_ws_accept junk' (take n buf) resp_cap = Some (m, resp) \<and> 0 < m \<and>
    nc_ws_client_verify (take (nat m) resp) expect = Some 1"
proof -
  define key where "key = base64_chars key16"
  have lk: "length key = 24" using assms(3) by (simp add: key_def length_base64)
  have ck: "list_all (\<lambda>c. c \<notin> {0, 9, 10, 13, 32}) key" unfolding key_def by (rule base64_set)
  then have k0: "0 \<notin> set key" by (auto simp: list_all_iff)
  have kne: "key \<noteq> []" using lk by auto
  define akey where "akey = accept_chars key"
  have la: "length akey = 28" by (simp add: akey_def length_accept_chars)
  have ca: "list_all (\<lambda>c. c \<notin> {0, 9, 10, 13, 32}) akey" unfolding akey_def accept_chars_def by (rule base64_set)
  define req where "req = request_text (cstr path) (cstr host) key"
  have lreq: "length req < cap" "length req < 2 ^ 31" "0 < length req" using assms(6,7) lk by (simp_all add: req_def length_texts)
  have b: "base64 32 key16 = Some (key @ [0])" using lk by (simp add: base64_def emit_def key_def)
  have s1: "nc_ws_client_request junk cap host path key16 = Some (length req, take (cap - 1) req @ [0], akey @ [0])"
    using lreq k0 b accept_key_spec [OF assms(1)]
    by (simp add: nc_ws_client_request_def strlen_chars cstr_chars snprintf_def akey_def req_def [unfolded request_text_def] del: str_def)
  have resp: "length (response_text akey) < resp_cap" "length (response_text akey) < 2 ^ 31" using assms(8) la by (simp_all add: length_texts)
  have t: "str ''HTTP/1.1 101 Switching Protocols'' @ CRLF @ upgrade_lines @ str ''Sec-WebSocket-Accept: '' @
      cstr (accept_chars key @ [0]) @ CRLF @ CRLF = response_text akey" by (simp add: response_text_def akey_def)
  have "snprintf resp_cap (response_text akey) = (129, take (resp_cap - 1) (response_text akey) @ [0])"
    using resp assms(8) la by (simp add: snprintf_def length_texts)
  then have "nc_ws_accept junk' req resp_cap = Some (129, take (resp_cap - 1) (response_text akey) @ [0])"
    using assms(8) lk unfolding req_def nc_ws_accept_def header_end_texts find_in_request [OF assms(4,5)]
      find_in_request(2) [OF assms(4,5) ck kne] bind.bind_lunit prod.case option.case request_websocket
      request_key [OF refl] accept_key_spec [OF assms(2)] t by simp
  moreover have "nc_ws_client_verify (response_text akey) (akey @ [0]) = Some 1"
  proof -
    have "akey \<noteq> []" using la by auto
    note f = find_in_response [OF ca this]
    have "strlen (akey @ [0]) = Some 28" by (simp add: akey_def)
    moreover have "rd_bytes (akey @ [0]) 0 28 = Some akey" using la by simp
    moreover have "rd_bytes (response_text akey) 97 28 = Some akey" using response_key [OF la [symmetric]] .
    moreover have "\<not> length (response_text akey) < 12" by (simp add: length_texts)
    ultimately show ?thesis unfolding nc_ws_client_verify_def header_end_texts f response_status bind.bind_lunit option.case prod.case la by simp
  qed
  ultimately show ?thesis using s1 lreq resp la by (simp add: length_texts)
qed

theorem ws_handshake_witness:
  "\<exists>n buf expect m resp. nc_ws_client_request (replicate 64 0) 1024 (str ''localhost'' @ [0]) (str ''/chan'' @ [0]) (replicate 16 7) = Some (n, buf, expect) \<and> 0 < n \<and>
    nc_ws_accept (replicate 64 0) (take n buf) 512 = Some (m, resp) \<and> 0 < m \<and>
    nc_ws_client_verify (take (nat m) resp) expect = Some 1"
proof -
  have "10 \<notin> set (cstr (str ''/chan'' @ [0]))" "10 \<notin> set (cstr (str ''localhost'' @ [0]))"
    "length (cstr (str ''/chan'' @ [0])) + length (cstr (str ''localhost'' @ [0])) + 138 < 1024" by code_simp+
  then show ?thesis using ws_handshake [of "replicate 64 0" "replicate 64 0" "replicate 16 7" "str ''/chan'' @ [0]" "str ''localhost'' @ [0]" 1024 512] by simp
qed

end
