(* ===== verification/Auth_Text.thy ===== *)
theory Auth_Text
  imports Microser
begin

text \<open>
  Text, string runs and framing of the login conversation (\<open>auth/nc_auth_ia.c\<close>).  A C string is the
  list of its bytes without the NUL, a null pointer is \<open>None\<close>.  The caller's buffer is a list of
  bytes with an offset for what is used; every access to it is checked.
\<close>

section \<open>Constants\<close>

definition NC_AUTH_OK :: int where "NC_AUTH_OK = 0"
definition NC_AUTH_ERR :: int where "NC_AUTH_ERR = -1"

definition str_of :: "string \<Rightarrow> bytes" where
  "str_of = map of_char"

section \<open>Numbers as text\<close>

text \<open>The digits of \<open>tmp\<close>, least significant first.\<close>

function digits :: "nat \<Rightarrow> bytes" where
  "digits u = (48 + of_nat (u mod 10)) # (if 0 < u div 10 then digits (u div 10) else [])"
  by pat_completeness auto
termination by (relation "measure id") auto

declare digits.simps [simp del]

text \<open>Both \<open>tmp\<close> and \<open>out\<close> have twelve bytes; the result is the string in \<open>out\<close>.\<close>

definition fmt_i32 :: "int \<Rightarrow> bytes option" where
  "fmt_i32 v =
     (let u = (if v < 0 then 0 - word_of_int v else word_of_int v) :: u32;
          t = digits (unat u) in do {
      tmp \<leftarrow> emit 12 [] t;
      out \<leftarrow> emit 12 [] ((if v < 0 then [45] else []) @ rev tmp @ [0]);
      Some (butlast out) })"

text \<open>The inner option is the return value, the outer one undefined behaviour: \<open>v * 10 + d\<close> overflows
  an \<open>int32_t\<close>.\<close>

fun parse_digits :: "int \<Rightarrow> bytes \<Rightarrow> int option option" where
  "parse_digits v [] = Some (Some v)"
| "parse_digits v (c # s) =
     (if c < 48 \<or> 57 < c then Some None
      else if 214748364 < v then Some None
      else let v' = v * 10 + (uint c - 48) in
        if 2147483647 < v' then None else parse_digits v' s)"

definition parse_i32 :: "bytes \<Rightarrow> int option option" where
  "parse_i32 s =
     (let neg = (s \<noteq> [] \<and> hd s = 45); s' = (if neg then tl s else s) in
      if s' = [] then Some None
      else map_option (map_option (\<lambda>v. if neg then - v else v)) (parse_digits 0 s'))"

definition key_of :: "bytes \<Rightarrow> bytes \<Rightarrow> bytes option" where
  "key_of s key = (if take (length key) s = key \<and> length key < length s \<and> s ! length key = 61 then Some (drop (length key + 1) s) else None)"

section \<open>Writing a run of strings\<close>

text \<open>The bytes written so far stand for \<open>buf\<close> and \<open>used\<close>.\<close>

record sink =
  sk_buf :: bytes
  sk_cap :: nat
  sk_err :: bool

definition sink_put :: "sink \<Rightarrow> bytes \<Rightarrow> bytes \<Rightarrow> sink option" where
  "sink_put sk key val =
     (let n = length key + 1 + length val in
      if sk_err sk then Some sk
      else if 0xffff < n \<or> sk_cap sk < length (sk_buf sk) + 2 + n then Some (sk\<lparr>sk_err := True\<rparr>)
      else do {
        b \<leftarrow> emit (sk_cap sk) (sk_buf sk) [of_nat (n mod 256), of_nat (n div 256 mod 256)];
        b \<leftarrow> emit (sk_cap sk) b (key @ [61] @ val);
        Some (sk\<lparr>sk_buf := b\<rparr>) })"

definition sink_str :: "sink \<Rightarrow> bytes \<Rightarrow> bytes option \<Rightarrow> sink option" where
  "sink_str sk key val = (case val of None \<Rightarrow> Some sk | Some v \<Rightarrow> sink_put sk key v)"

definition sink_num :: "sink \<Rightarrow> bytes \<Rightarrow> int \<Rightarrow> sink option" where
  "sink_num sk key val = do { t \<leftarrow> fmt_i32 val; sink_put sk key t }"

section \<open>Reading a run of strings\<close>

record arena =
  ar_buf :: bytes
  ar_used :: nat

text \<open>The offset of the copy, or \<open>None\<close> for a null pointer.\<close>

definition arena_str :: "arena \<Rightarrow> bytes \<Rightarrow> (nat option \<times> arena) option" where
  "arena_str ar s =
     (if length (ar_buf ar) < ar_used ar + length s + 1 then Some (None, ar)
      else do {
        b \<leftarrow> put_at (ar_buf ar) (int (ar_used ar)) (s @ [0]);
        Some (Some (ar_used ar), ar\<lparr>ar_buf := b, ar_used := ar_used ar + length s + 1\<rparr>) })"

text \<open>\<open>arena_array\<close> for pointers of 8 bytes: the offset of the array.\<close>

definition arena_array :: "arena \<Rightarrow> nat \<Rightarrow> nat \<Rightarrow> nat option \<times> arena" where
  "arena_array ar n sz =
     (let pos = (ar_used ar + 7) div 8 * 8 in
      if n = 0 then (None, ar)
      else if length (ar_buf ar) < pos + n * sz \<or> length (ar_buf ar) div sz < n then (None, ar)
      else (Some pos, ar\<lparr>ar_used := pos + n * sz\<rparr>))"

function unpack :: "arena \<Rightarrow> bytes \<Rightarrow> (int \<times> arena) option" where
  "unpack ar src =
     (if src = [] then Some (0, ar)
      else if length src < 2 then Some (NC_AUTH_ERR, ar)
      else let slen = unat (src ! 0) + 256 * unat (src ! 1) in
        if length src < 2 + slen then Some (NC_AUTH_ERR, ar)
        else do {
          (p, ar') \<leftarrow> arena_str ar (take slen (drop 2 src));
          if p = None then Some (NC_AUTH_ERR, ar')
          else do {
            (n, ar'') \<leftarrow> unpack ar' (drop (2 + slen) src);
            Some (if n < 0 then n else n + 1, ar'') } })"
  by pat_completeness auto
termination by (relation "measure (\<lambda>(ar, src). length src)") auto

declare unpack.simps [simp del]

text \<open>The walk \<open>for (s = start; s < end; s = next_str(s))\<close> over the bytes from \<open>start\<close> to \<open>end\<close>: the
  strings it visits.  Without a NUL before \<open>end\<close> it would run on.\<close>

function cstrings :: "bytes \<Rightarrow> bytes list option" where
  "cstrings r =
     (if r = [] then Some []
      else if 0 \<in> set r then do { rest \<leftarrow> cstrings (drop (Suc (length (cstr r))) r); Some (cstr r # rest) }
      else None)"
  by pat_completeness auto
termination by (relation "measure length") auto

declare cstrings.simps [simp del]

section \<open>Framing\<close>

text \<open>The return value and what is written to \<open>out\<close>.\<close>

definition nc_auth_frame :: "nat \<Rightarrow> bytes \<Rightarrow> (int \<times> bytes) option" where
  "nc_auth_frame outlen msg =
     (let len = length msg in
      if len = 0 \<or> 0xffff < len \<or> outlen < len + 2 then Some (NC_AUTH_ERR, [])
      else do {
        b \<leftarrow> emit outlen [] [of_nat (len mod 256), of_nat (len div 256 mod 256)];
        b \<leftarrow> emit outlen b msg;
        Some (int (len + 2), b) })"

record nc_auth_framer =
  fr_buf :: bytes
  fr_len :: nat
  fr_done :: nat

definition nc_auth_framer_init :: "bytes \<Rightarrow> nc_auth_framer" where
  "nc_auth_framer_init buf = \<lparr>fr_buf = buf, fr_len = 0, fr_done = 0\<rparr>"

definition compact_framer :: "nc_auth_framer \<Rightarrow> nc_auth_framer option" where
  "compact_framer f =
     (if fr_done f = 0 then Some f
      else do {
        moved \<leftarrow> rd_bytes (fr_buf f) (fr_done f) (size_sub (fr_len f) (fr_done f));
        b \<leftarrow> put_at (fr_buf f) 0 moved;
        Some (f\<lparr>fr_buf := b, fr_len := size_sub (fr_len f) (fr_done f), fr_done := 0\<rparr>) })"

definition nc_auth_framer_push :: "nc_auth_framer \<Rightarrow> bytes \<Rightarrow> (int \<times> nc_auth_framer) option" where
  "nc_auth_framer_push f bs = do {
     f \<leftarrow> compact_framer f;
     if size_sub (length (fr_buf f)) (fr_len f) < length bs then Some (NC_AUTH_ERR, f)
     else do {
       b \<leftarrow> put_at (fr_buf f) (int (fr_len f)) bs;
       Some (NC_AUTH_OK, f\<lparr>fr_buf := b, fr_len := fr_len f + length bs\<rparr>) } }"

text \<open>The return value and the message \<open>*msg\<close> points at, the \<open>need\<close> bytes from offset 2.\<close>

definition nc_auth_framer_next :: "nc_auth_framer \<Rightarrow> (int \<times> bytes \<times> nc_auth_framer) option" where
  "nc_auth_framer_next f = do {
     f \<leftarrow> compact_framer f;
     if fr_len f < 2 then Some (0, [], f)
     else do {
       a \<leftarrow> rd8 (fr_buf f) 0;
       b \<leftarrow> rd8 (fr_buf f) 1;
       let need = unat a + 256 * unat b in
       if need = 0 then Some (NC_AUTH_ERR, [], f)
       else if fr_len f < need + 2 then Some (0, [], f)
       else do {
         m \<leftarrow> rd_bytes (fr_buf f) 2 need;
         Some (int need, m, f\<lparr>fr_done := need + 2\<rparr>) } } }"

end
