(* ===== verification/Auth_Framer.thy ===== *)
theory Auth_Framer
  imports Auth_Text
begin

text \<open>
  Framing of the login conversation on a byte stream.  The framer meets the contract of a stream of
  messages (\<open>message_stream\<close>): bytes pushed are appended, a complete frame at the front comes out
  whole, an incomplete one stays.  A receiver that pushes what it reads and takes out what is
  complete gets the messages that were framed, however the stream is cut.
\<close>

section \<open>The contract\<close>

text \<open>One receive loop: take messages out until none is complete.  Fuel \<open>k\<close> bounds its turns.\<close>

fun drain_with :: "('f \<Rightarrow> (int \<times> bytes \<times> 'f) option) \<Rightarrow> nat \<Rightarrow> 'f \<Rightarrow> (bytes list \<times> 'f) option" where
  "drain_with nxt 0 f = None"
| "drain_with nxt (Suc k) f = do {
     (n, m, f1) \<leftarrow> nxt f;
     if n \<le> 0 then Some ([], f1)
     else do { (ms, f2) \<leftarrow> drain_with nxt k f1; Some (m # ms, f2) } }"

fun receive_with :: "('f \<Rightarrow> bytes \<Rightarrow> (int \<times> 'f) option) \<Rightarrow> ('f \<Rightarrow> (int \<times> bytes \<times> 'f) option) \<Rightarrow> nat \<Rightarrow> 'f \<Rightarrow> bytes list \<Rightarrow> (bytes list \<times> 'f) option" where
  "receive_with psh nxt k f [] = Some ([], f)"
| "receive_with psh nxt k f (c # cs) = do {
     (r, f1) \<leftarrow> psh f c;
     if r \<noteq> 0 then None
     else do { (ms, f2) \<leftarrow> drain_with nxt k f1; (ms', f3) \<leftarrow> receive_with psh nxt k f2 cs; Some (ms @ ms', f3) } }"

locale message_stream =
  fixes inv :: "'f \<Rightarrow> bool" and pend :: "'f \<Rightarrow> bytes" and room :: "'f \<Rightarrow> nat" and frame :: "bytes \<Rightarrow> bytes" and good :: "bytes \<Rightarrow> bool"
    and psh :: "'f \<Rightarrow> bytes \<Rightarrow> (int \<times> 'f) option" and nxt :: "'f \<Rightarrow> (int \<times> bytes \<times> 'f) option"
  assumes psh_ok: "inv f \<Longrightarrow> length (pend f) + length bs \<le> room f \<Longrightarrow>
      \<exists>f'. psh f bs = Some (0, f') \<and> inv f' \<and> pend f' = pend f @ bs \<and> room f' = room f"
    and nxt_whole: "inv f \<Longrightarrow> good m \<Longrightarrow> pend f = frame m @ r \<Longrightarrow>
      \<exists>f'. nxt f = Some (int (length m), m, f') \<and> inv f' \<and> pend f' = r \<and> room f' = room f"
    and nxt_part: "inv f \<Longrightarrow> good m \<Longrightarrow> pend f @ q = frame m \<Longrightarrow> q \<noteq> [] \<Longrightarrow>
      \<exists>f'. nxt f = Some (0, [], f') \<and> inv f' \<and> pend f' = pend f \<and> room f' = room f"
    and nxt_none: "inv f \<Longrightarrow> pend f = [] \<Longrightarrow> \<exists>f'. nxt f = Some (0, [], f') \<and> inv f' \<and> pend f' = [] \<and> room f' = room f"
    and good_ne: "good m \<Longrightarrow> m \<noteq> []"
begin

lemma drain_whole:
  assumes "inv f" "pend f = concat (map frame ms) @ p" "list_all good ms"
    "p = [] \<or> (\<exists>m q. good m \<and> p @ q = frame m \<and> q \<noteq> [])" "length ms < k"
  shows "\<exists>f'. drain_with nxt k f = Some (ms, f') \<and> inv f' \<and> pend f' = p \<and> room f' = room f"
  using assms
proof (induction ms arbitrary: f k)
  case Nil
  then obtain k' where k: "k = Suc k'" by (cases k) auto
  have "\<exists>f'. nxt f = Some (0, [], f') \<and> inv f' \<and> pend f' = p \<and> room f' = room f"
    using Nil nxt_none [of f] nxt_part [of f] by auto
  then show ?case using k by auto
next
  case (Cons m ms)
  obtain k' where k: "k = Suc k'" using Cons.prems(5) by (cases k) auto
  have g: "good m" "list_all good ms" using Cons.prems(3) by auto
  obtain f1 where f1: "nxt f = Some (int (length m), m, f1)" "inv f1" "pend f1 = concat (map frame ms) @ p" "room f1 = room f"
    using nxt_whole [OF Cons.prems(1) g(1)] Cons.prems(2) by auto
  obtain f2 where "drain_with nxt k' f1 = Some (ms, f2)" "inv f2" "pend f2 = p" "room f2 = room f1"
    using Cons.IH [OF f1(2,3) g(2) Cons.prems(4)] Cons.prems(5) k by auto
  then show ?case using f1 k good_ne [OF g(1)] by auto
qed

text \<open>Cutting a stream of frames: the frames before the cut, and the part of the next one.\<close>

lemma cut_frames:
  "xs @ ys = concat (map frame ms) \<Longrightarrow> \<exists>ms1 ms2 p. ms = ms1 @ ms2 \<and> xs = concat (map frame ms1) @ p \<and>
     p @ ys = concat (map frame ms2) \<and> (ms2 = [] \<longrightarrow> p = []) \<and> (ms2 \<noteq> [] \<longrightarrow> length p < length (frame (hd ms2)) \<or> p = [])"
proof (induction ms arbitrary: xs)
  case (Cons m ms)
  show ?case
  proof (cases "length xs < length (frame m)")
    case True
    then show ?thesis using Cons.prems by (intro exI [of _ "[]"] exI [of _ "m # ms"] exI [of _ xs]) simp
  next
    case False
    have "take (length (frame m)) (xs @ ys) = frame m" using Cons.prems by simp
    then have "take (length (frame m)) xs = frame m" using False by simp
    then obtain xs' where xs: "xs = frame m @ xs'" by (metis append_take_drop_id)
    then have "xs' @ ys = concat (map frame ms)" using Cons.prems by simp
    from Cons.IH [OF this] obtain ms1 ms2 p where "ms = ms1 @ ms2" "xs' = concat (map frame ms1) @ p"
      "p @ ys = concat (map frame ms2)" "ms2 = [] \<longrightarrow> p = []" "ms2 \<noteq> [] \<longrightarrow> length p < length (frame (hd ms2)) \<or> p = []" by blast
    then show ?thesis using xs by (intro exI [of _ "m # ms1"] exI [of _ ms2] exI [of _ p]) simp
  qed
qed simp

lemma cut_part:
  assumes "p @ ys = concat (map frame ms)" "ms = [] \<longrightarrow> p = []" "ms \<noteq> [] \<longrightarrow> length p < length (frame (hd ms)) \<or> p = []" "list_all good ms"
  shows "p = [] \<or> (\<exists>m q. good m \<and> p @ q = frame m \<and> q \<noteq> [])"
proof (cases ms)
  case (Cons m ms')
  then consider "p = []" | "length p < length (frame m)" using assms(3) by auto
  then show ?thesis
  proof cases
    case 2
    have "take (length p) (p @ ys) = take (length p) (frame m @ concat (map frame ms'))" using assms(1) Cons by simp
    then have "p = take (length p) (frame m)" using 2 by simp
    then have "p @ drop (length p) (frame m) = frame m" by (metis append_take_drop_id)
    moreover have "good m" "drop (length p) (frame m) \<noteq> []" using Cons assms(4) 2 by auto
    ultimately show ?thesis by blast
  qed simp
qed (use assms in simp)

lemma receive_all:
  assumes "inv f" "pend f @ concat cs = concat (map frame ms)" "list_all good ms" "length ms < k"
    "ms = [] \<longrightarrow> pend f = []" "ms \<noteq> [] \<longrightarrow> length (pend f) < length (frame (hd ms)) \<or> pend f = []"
    "\<And>m c. m \<in> set ms \<Longrightarrow> c \<in> set cs \<Longrightarrow> length (frame m) + length c \<le> room f" "\<And>c. c \<in> set cs \<Longrightarrow> length c \<le> room f"
  shows "\<exists>f'. receive_with psh nxt k f cs = Some (ms, f') \<and> inv f' \<and> pend f' = []"
  using assms
proof (induction cs arbitrary: f ms)
  case Nil
  show ?case
  proof (cases ms)
    case (Cons m ms')
    then have "length (frame m) \<le> length (pend f)" using Nil.prems(2) by simp
    then have "pend f = []" "frame m = []" using Nil.prems(6) Cons by auto
    then show ?thesis using nxt_whole [of f m "[]"] nxt_none [of f] Nil.prems(1,3) Cons good_ne [of m] by auto
  qed (use Nil in auto)
next
  case (Cons c cs)
  have fit: "length (pend f) + length c \<le> room f"
  proof (cases "pend f = []")
    case False
    then have "ms \<noteq> []" "length (pend f) < length (frame (hd ms))" using Cons.prems(5,6) by auto
    then show ?thesis using Cons.prems(7) [of "hd ms" c] by (simp add: order_trans)
  qed (use Cons.prems(8) in simp)
  from psh_ok [OF Cons.prems(1) this] obtain f1 where
    f1: "psh f c = Some (0, f1)" "inv f1" "pend f1 = pend f @ c" "room f1 = room f" by blast
  have "(pend f @ c) @ concat cs = concat (map frame ms)" using Cons.prems(2) by simp
  from cut_frames [OF this] obtain ms1 ms2 p where
    ms: "ms = ms1 @ ms2" "pend f @ c = concat (map frame ms1) @ p" "p @ concat cs = concat (map frame ms2)"
      "ms2 = [] \<longrightarrow> p = []" "ms2 \<noteq> [] \<longrightarrow> length p < length (frame (hd ms2)) \<or> p = []" by blast
  have g: "list_all good ms1" "list_all good ms2" using Cons.prems(3) ms(1) by auto
  have k: "length ms1 < k" "length ms2 < k" using Cons.prems(4) ms(1) by auto
  obtain f2 where f2: "drain_with nxt k f1 = Some (ms1, f2)" "inv f2" "pend f2 = p" "room f2 = room f1"
    using drain_whole [OF f1(2) _ g(1) cut_part [OF ms(3-5) g(2)] k(1)] f1(3) ms(2) by auto
  have "\<exists>f'. receive_with psh nxt k f2 cs = Some (ms2, f') \<and> inv f' \<and> pend f' = []"
    using Cons.prems(7,8) f2 f1(4) ms by (intro Cons.IH [OF f2(2) _ g(2) k(2)]) auto
  then show ?case using f1(1) f2(1) ms(1) by auto
qed

end

section \<open>The framer meets it\<close>

definition framer_ok :: "nc_auth_framer \<Rightarrow> bool" where
  "framer_ok f \<longleftrightarrow> fr_done f \<le> fr_len f \<and> fr_len f \<le> length (fr_buf f)"

definition pending :: "nc_auth_framer \<Rightarrow> bytes" where
  "pending f = drop (fr_done f) (take (fr_len f) (fr_buf f))"

definition frame_of :: "bytes \<Rightarrow> bytes" where
  "frame_of m = [of_nat (length m mod 256), of_nat (length m div 256 mod 256)] @ m"

definition framable :: "bytes \<Rightarrow> bool" where
  "framable m \<longleftrightarrow> 0 < length m \<and> length m \<le> 0xffff"

lemma compact_spec:
  assumes "framer_ok f"
  shows "\<exists>f'. compact_framer f = Some f' \<and> fr_done f' = 0 \<and> fr_len f' = length (pending f) \<and>
    fr_len f' \<le> length (fr_buf f') \<and> take (fr_len f') (fr_buf f') = pending f \<and> length (fr_buf f') = length (fr_buf f)"
proof (cases "fr_done f = 0")
  case True
  then show ?thesis using assms by (simp add: compact_framer_def framer_ok_def pending_def)
next
  case False
  have l: "fr_done f + (fr_len f - fr_done f) \<le> length (fr_buf f)" using assms by (simp add: framer_ok_def)
  have p: "take (fr_len f - fr_done f) (drop (fr_done f) (fr_buf f)) = pending f" by (simp add: pending_def drop_take)
  have lp: "length (pending f) = fr_len f - fr_done f" using assms by (simp add: pending_def framer_ok_def)
  show ?thesis using False assms l p lp by (simp add: compact_framer_def framer_ok_def put_at_def) linarith
qed

lemma frame_head:
  assumes "framable m"
  shows "frame_of m ! 0 = of_nat (length m mod 256)" "frame_of m ! 1 = of_nat (length m div 256 mod 256)"
    "unat (of_nat (length m mod 256) :: u8) + 256 * unat (of_nat (length m div 256 mod 256) :: u8) = length m" "length (frame_of m) = length m + 2"
proof -
  have "length m < 256 * 256" using assms by (simp add: framable_def)
  then have "length m div 256 < 256" by (rule less_mult_imp_div_less)
  then show "unat (of_nat (length m mod 256) :: u8) + 256 * unat (of_nat (length m div 256 mod 256) :: u8) = length m"
    by (simp add: unat_of_nat)
qed (simp_all add: frame_of_def)

lemma next_read:
  assumes "framer_ok f" "framable m" "pending f @ q = frame_of m @ r" "2 \<le> length (pending f)"
  shows "\<exists>f1. fr_done f1 = 0 \<and> fr_len f1 = length (pending f) \<and> fr_len f1 \<le> length (fr_buf f1) \<and>
    take (fr_len f1) (fr_buf f1) = pending f \<and> length (fr_buf f1) = length (fr_buf f) \<and>
    nc_auth_framer_next f = (if fr_len f1 < length m + 2 then Some (0, [], f1)
      else do { x \<leftarrow> rd_bytes (fr_buf f1) 2 (length m); Some (int (length m), x, f1\<lparr>fr_done := length m + 2\<rparr>) })"
proof -
  obtain f1 where f1: "compact_framer f = Some f1" "fr_done f1 = 0" "fr_len f1 = length (pending f)" "fr_len f1 \<le> length (fr_buf f1)"
      "take (fr_len f1) (fr_buf f1) = pending f" "length (fr_buf f1) = length (fr_buf f)"
    using compact_spec [OF assms(1)] by blast
  have byte: "fr_buf f1 ! i = frame_of m ! i" if "i < 2" for i
  proof -
    have "fr_buf f1 ! i = take (fr_len f1) (fr_buf f1) ! i" using that assms(4) f1(3) by simp
    also have "\<dots> = (pending f @ q) ! i" using that assms(4) f1(5) by (simp add: nth_append)
    also have "\<dots> = frame_of m ! i" using that assms(3) frame_head(4) [OF assms(2)] by (simp add: nth_append)
    finally show ?thesis .
  qed
  have "2 \<le> length (fr_buf f1)" using f1(3,4) assms(4) by linarith
  then have "0 < length (fr_buf f1)" "1 < length (fr_buf f1)" by linarith+
  then have rd: "rd8 (fr_buf f1) 0 = Some (of_nat (length m mod 256))" "rd8 (fr_buf f1) 1 = Some (of_nat (length m div 256 mod 256))"
    using byte [of 0] byte [of 1] frame_head(1,2) [OF assms(2)] by (simp_all only: rd8_Some less_2_cases_iff simp_thms, simp_all)
  have "length m \<noteq> 0" "\<not> fr_len f1 < 2" using assms(2,4) f1(3) by (simp_all add: framable_def)
  then have "nc_auth_framer_next f = (if fr_len f1 < length m + 2 then Some (0, [], f1)
      else do { x \<leftarrow> rd_bytes (fr_buf f1) 2 (length m); Some (int (length m), x, f1\<lparr>fr_done := length m + 2\<rparr>) })"
    unfolding nc_auth_framer_next_def f1(1) bind.bind_lunit rd Let_def frame_head(3) [OF assms(2)] by simp
  then show ?thesis using f1 by blast
qed

interpretation framer: message_stream framer_ok pending "\<lambda>f. length (fr_buf f)" frame_of framable nc_auth_framer_push nc_auth_framer_next
proof
  fix f and bs :: bytes assume f: "framer_ok f" "length (pending f) + length bs \<le> length (fr_buf f)"
  obtain f1 where f1: "compact_framer f = Some f1" "fr_done f1 = 0" "fr_len f1 = length (pending f)" "fr_len f1 \<le> length (fr_buf f1)"
      "take (fr_len f1) (fr_buf f1) = pending f" "length (fr_buf f1) = length (fr_buf f)"
    using compact_spec [OF f(1)] by blast
  define f2 where "f2 = f1\<lparr>fr_buf := take (fr_len f1) (fr_buf f1) @ bs @ drop (fr_len f1 + length bs) (fr_buf f1), fr_len := fr_len f1 + length bs\<rparr>"
  have "\<not> length (fr_buf f) - length (pending f) < length bs" using f(2) by linarith
  then have "nc_auth_framer_push f bs = Some (0, f2)"
    using f(2) f1 by (simp add: nc_auth_framer_push_def put_at_def NC_AUTH_OK_def f2_def)
  moreover have "pending f2 = pending f @ bs" using f1 by (simp add: f2_def pending_def [of "_ :: nc_auth_framer"])
  ultimately show "\<exists>f'. nc_auth_framer_push f bs = Some (0, f') \<and> framer_ok f' \<and> pending f' = pending f @ bs \<and> length (fr_buf f') = length (fr_buf f)"
    using f(2) f1 by (simp add: f2_def framer_ok_def)
next
  fix f m r assume f: "framer_ok f" "framable m" "pending f = frame_of m @ r"
  have l: "length (pending f) = length m + 2 + length r" using f(3) frame_head(4) [OF f(2)] by simp
  obtain f1 where f1: "fr_done f1 = 0" "fr_len f1 = length (pending f)" "fr_len f1 \<le> length (fr_buf f1)"
      "take (fr_len f1) (fr_buf f1) = pending f" "length (fr_buf f1) = length (fr_buf f)"
      "nc_auth_framer_next f = (if fr_len f1 < length m + 2 then Some (0, [], f1)
      else do { x \<leftarrow> rd_bytes (fr_buf f1) 2 (length m); Some (int (length m), x, f1\<lparr>fr_done := length m + 2\<rparr>) })"
    using next_read [OF f(1,2), of "[]" r] f(3) l by auto
  obtain t where "fr_buf f1 = frame_of m @ r @ t" using f1(4) f(3) by (metis append.assoc append_take_drop_id)
  then have "rd_bytes (fr_buf f1) 2 (length m) = Some m" by (simp add: rd_bytes_def frame_of_def)
  moreover have "\<not> fr_len f1 < length m + 2" using l f1(2) by simp
  ultimately have "nc_auth_framer_next f = Some (int (length m), m, f1\<lparr>fr_done := length m + 2\<rparr>)" using f1(6) by simp
  moreover have "pending (f1\<lparr>fr_done := length m + 2\<rparr>) = r" using f1(4) f(3) frame_head(4) [OF f(2)] by (simp add: pending_def [of "_\<lparr>fr_done := _\<rparr>"])
  ultimately show "\<exists>f'. nc_auth_framer_next f = Some (int (length m), m, f') \<and> framer_ok f' \<and> pending f' = r \<and> length (fr_buf f') = length (fr_buf f)"
    using f1 l by (simp add: framer_ok_def)
next
  fix f m q assume f: "framer_ok f" "framable m" "pending f @ q = frame_of m" "q \<noteq> []"
  then have l: "length (pending f) < length m + 2" using frame_head(4) [OF f(2)] by (metis length_append less_add_same_cancel1 length_greater_0_conv)
  show "\<exists>f'. nc_auth_framer_next f = Some (0, [], f') \<and> framer_ok f' \<and> pending f' = pending f \<and> length (fr_buf f') = length (fr_buf f)"
  proof (cases "length (pending f) < 2")
    case True
    then show ?thesis using compact_spec [OF f(1)] by (auto simp: nc_auth_framer_next_def framer_ok_def pending_def)
  next
    case False
    then obtain f1 where "fr_done f1 = 0" "fr_len f1 = length (pending f)" "fr_len f1 \<le> length (fr_buf f1)"
      "take (fr_len f1) (fr_buf f1) = pending f" "length (fr_buf f1) = length (fr_buf f)" "nc_auth_framer_next f = Some (0, [], f1)"
      using next_read [OF f(1,2), of q "[]"] f(3) l by auto
    then show ?thesis by (simp add: framer_ok_def pending_def)
  qed
next
  fix f assume "framer_ok f" "pending f = []"
  then show "\<exists>f'. nc_auth_framer_next f = Some (0, [], f') \<and> framer_ok f' \<and> pending f' = [] \<and> length (fr_buf f') = length (fr_buf f)"
    using compact_spec [of f] by (auto simp: nc_auth_framer_next_def framer_ok_def pending_def)
qed (simp add: framable_def)

section \<open>Property\<close>

text \<open>C14: Framing round trip.  Frame any messages of 1 to 65535 bytes, cut the resulting stream in any
  places, and give the pieces to the framer, taking out what is complete after each.  The messages come out
  whole and in order, and nothing is left, as long as the buffer holds the largest frame and the
  largest piece together.\<close>

theorem framer_round_trip:
  assumes "\<And>m. m \<in> set msgs \<Longrightarrow> 0 < length m \<and> length m \<le> 0xffff"
    and "\<And>m. m \<in> set msgs \<Longrightarrow> nc_auth_frame (length m + 2) m = Some (int (length m + 2), fr m)"
    and "concat pieces = concat (map fr msgs)"
    and "\<And>c. c \<in> set pieces \<Longrightarrow> length c \<le> length buf" "\<And>m c. m \<in> set msgs \<Longrightarrow> c \<in> set pieces \<Longrightarrow> length m + 2 + length c \<le> length buf"
    and "length msgs < k"
  shows "\<exists>f. receive_with nc_auth_framer_push nc_auth_framer_next k (nc_auth_framer_init buf) pieces = Some (msgs, f) \<and> fr_len f = fr_done f"
proof -
  have fr: "fr m = frame_of m" if "m \<in> set msgs" for m
    using assms(1,2) [OF that] by (simp add: nc_auth_frame_def frame_of_def emit_def Let_def split: if_splits)
  then have cat: "concat pieces = concat (map frame_of msgs)" using assms(3) by (metis map_eq_conv)
  have g: "list_all framable msgs" using assms(1) by (simp add: list_all_iff framable_def)
  have l: "length (frame_of m) = length m + 2" for m by (simp add: frame_of_def)
  have i: "framer_ok (nc_auth_framer_init buf)" "pending (nc_auth_framer_init buf) = []" "fr_buf (nc_auth_framer_init buf) = buf"
    by (simp_all add: nc_auth_framer_init_def framer_ok_def pending_def)
  obtain f where f: "receive_with nc_auth_framer_push nc_auth_framer_next k (nc_auth_framer_init buf) pieces = Some (msgs, f)" "framer_ok f" "pending f = []"
    using framer.receive_all [OF i(1) _ g assms(6), of pieces] i(2,3) cat assms(4,5) l by auto
  then have "fr_len f = fr_done f" by (auto simp: framer_ok_def pending_def)
  then show ?thesis using f(1) by blast
qed

theorem framer_round_trip_witness:
  "\<exists>f. receive_with nc_auth_framer_push nc_auth_framer_next 3 (nc_auth_framer_init (replicate 16 0)) [[2], [0, 7], [8, 1, 0, 9]] = Some ([[7, 8], [9]], f) \<and>
    fr_len f = fr_done f"
  by (rule framer_round_trip [where fr = frame_of])
     (auto simp: nc_auth_frame_def frame_of_def emit_def)

end
