(* ===== verification/Auth_Form.thy ===== *)
theory Auth_Form
  imports Auth_Text
begin

text \<open>
  Data of the login conversation (\<open>auth/nc_auth.h\<close>, \<open>auth/nc_auth_int.h\<close>) and the encoding of forms
  and answers (\<open>auth/nc_auth_ia.c\<close>).  A string of a form is its bytes, \<open>None\<close> for a null pointer; an
  array with its count is a list.  A decoded form points into the caller's buffer; its strings are taken
  at decoding time, and the buffer is not written again while a form is out.  Sizes of structures are
  those of a 64-bit machine.  Local message buffers start as zeros; only bytes written to them leave them.
\<close>

section \<open>Constants\<close>

definition NC_AUTH_M_PUBKEY :: u32 where "NC_AUTH_M_PUBKEY = 1"
definition NC_AUTH_M_PASSWORD :: u32 where "NC_AUTH_M_PASSWORD = 2"
definition NC_AUTH_M_INTERACTIVE :: u32 where "NC_AUTH_M_INTERACTIVE = 4"
definition NC_AUTH_M_REGISTER :: u32 where "NC_AUTH_M_REGISTER = 8"
definition NC_AUTH_MAX_USER :: nat where "NC_AUTH_MAX_USER = 64"
definition NC_AUTH_MAX_PASS :: nat where "NC_AUTH_MAX_PASS = 128"
definition NC_AUTH_MAX_MSG :: nat where "NC_AUTH_MAX_MSG = 256"
definition NC_AUTH_MAX_TRIES :: nat where "NC_AUTH_MAX_TRIES = 6"
definition NC_FORM_MAX_FIELDS :: nat where "NC_FORM_MAX_FIELDS = 24"
definition NC_FORM_MAX_OPTIONS :: nat where "NC_FORM_MAX_OPTIONS = 16"
definition NC_FORM_MAX_LABEL :: nat where "NC_FORM_MAX_LABEL = 128"
definition NC_FORM_MAX_TOKEN :: nat where "NC_FORM_MAX_TOKEN = 64"
definition NC_FORM_MAX_MSG :: nat where "NC_FORM_MAX_MSG = 2000"

definition MSG_HELLO :: u8 where "MSG_HELLO = 0x10"
definition MSG_METHODS :: u8 where "MSG_METHODS = 0x11"
definition MSG_PUBKEY :: u8 where "MSG_PUBKEY = 0x12"
definition MSG_PASSWORD :: u8 where "MSG_PASSWORD = 0x13"
definition MSG_OK :: u8 where "MSG_OK = 0x14"
definition MSG_FAIL :: u8 where "MSG_FAIL = 0x15"
definition MSG_IA_BEGIN :: u8 where "MSG_IA_BEGIN = 0x16"
definition MSG_IA_FORM :: u8 where "MSG_IA_FORM = 0x17"
definition MSG_IA_SUBMIT :: u8 where "MSG_IA_SUBMIT = 0x18"
definition MSG_IA_WAIT :: u8 where "MSG_IA_WAIT = 0x19"
definition MSG_IA_CANCEL :: u8 where "MSG_IA_CANCEL = 0x1a"

definition MSG_IS_BULK :: "u8 \<Rightarrow> bool" where
  "MSG_IS_BULK t \<longleftrightarrow> t = MSG_IA_FORM \<or> t = MSG_IA_SUBMIT"

definition F_TITLE :: u8 where "F_TITLE = 1"
definition F_NOTE :: u8 where "F_NOTE = 2"
definition F_FIELDS :: u8 where "F_FIELDS = 3"
definition F_TOKEN :: u8 where "F_TOKEN = 4"
definition F_METHOD :: u8 where "F_METHOD = 1"
definition F_ANSWERS :: u8 where "F_ANSWERS = 1"

definition NC_FF_TEXT :: u8 where "NC_FF_TEXT = 1"
definition NC_FF_PASSWORD :: u8 where "NC_FF_PASSWORD = 2"
definition NC_FF_EMAIL :: u8 where "NC_FF_EMAIL = 3"
definition NC_FF_INTEGER :: u8 where "NC_FF_INTEGER = 4"
definition NC_FF_PHONE :: u8 where "NC_FF_PHONE = 5"
definition NC_FF_BOOL :: u8 where "NC_FF_BOOL = 6"
definition NC_FF_CHOICE :: u8 where "NC_FF_CHOICE = 7"
definition NC_FF_NOTE :: u8 where "NC_FF_NOTE = 8"
definition NC_FF_LINK :: u8 where "NC_FF_LINK = 9"
definition NC_FF_REQUIRED :: u8 where "NC_FF_REQUIRED = 1"
definition NC_FF_MULTI :: u8 where "NC_FF_MULTI = 2"

definition K_TYPE :: bytes where "K_TYPE = str_of ''t''"
definition K_NAME :: bytes where "K_NAME = str_of ''n''"
definition K_LABEL :: bytes where "K_LABEL = str_of ''l''"
definition K_VALUE :: bytes where "K_VALUE = str_of ''v''"
definition K_PATT :: bytes where "K_PATT = str_of ''p''"
definition K_SIZE :: bytes where "K_SIZE = str_of ''sz''"
definition K_MAXLEN :: bytes where "K_MAXLEN = str_of ''ml''"
definition K_MIN :: bytes where "K_MIN = str_of ''lo''"
definition K_MAX :: bytes where "K_MAX = str_of ''hi''"
definition K_OPTION :: bytes where "K_OPTION = str_of ''o''"
definition K_REQ :: bytes where "K_REQ = str_of ''r''"
definition K_MULTI :: bytes where "K_MULTI = str_of ''m''"
definition K_ERROR :: bytes where "K_ERROR = str_of ''e''"

section \<open>Data\<close>

datatype auth_state = NC_AUTH_STATE_PENDING | NC_AUTH_STATE_OK | NC_AUTH_STATE_DENIED

datatype auth_need = NC_AUTH_NEED_NOTHING | NC_AUTH_NEED_KEY | NC_AUTH_NEED_PASSWORD | NC_AUTH_NEED_METHOD | NC_AUTH_NEED_FORM

record nc_form_field =
  ff_type :: u8
  ff_flags :: u8
  ff_name :: "bytes option"
  ff_label :: "bytes option"
  ff_value :: "bytes option"
  ff_pattern :: "bytes option"
  ff_error :: "bytes option"
  ff_size :: u16
  ff_maxlength :: u16
  ff_min :: int
  ff_max :: int
  ff_options :: "bytes option list option"

definition field_zero :: nc_form_field where
  "field_zero = \<lparr>ff_type = 0, ff_flags = 0, ff_name = None, ff_label = None, ff_value = None, ff_pattern = None, ff_error = None,
     ff_size = 0, ff_maxlength = 0, ff_min = 0, ff_max = 0, ff_options = None\<rparr>"

definition noptions :: "nc_form_field \<Rightarrow> nat" where
  "noptions fl = (case ff_options fl of None \<Rightarrow> 0 | Some os \<Rightarrow> length os)"

record nc_form_error =
  fe_name :: "bytes option"
  fe_message :: "bytes option"

record nc_form =
  fm_title :: "bytes option"
  fm_note :: "bytes option"
  fm_fields :: "nc_form_field list"
  fm_errors :: "nc_form_error list option"

definition form_zero :: nc_form where
  "form_zero = \<lparr>fm_title = None, fm_note = None, fm_fields = [], fm_errors = None\<rparr>"

record nc_form_value =
  fv_text :: "bytes option"
  fv_number :: int
  fv_choice :: u32
  fv_on :: bool

text \<open>What a conversation hands out: messages to the transport, calls of the \<open>cancelled\<close> callback.\<close>

datatype auth_out = Sent bytes | Cancelled

record nc_auth =
  a_server :: bool
  a_state :: auth_state
  a_need :: auth_need
  a_greeted :: bool
  a_avail :: u32
  a_tries :: nat
  a_sid :: bytes
  a_user :: bytes
  a_send :: bool
  a_out :: "auth_out list"
  a_buf :: "bytes option"
  a_strings :: nat
  a_offered :: u32
  a_ia_method :: u32
  a_chosen :: u32
  a_chose :: bool
  a_asked :: bool
  a_cancelling :: bool
  a_registered :: bool
  a_fired :: bool
  a_form :: nc_form
  a_wait_note :: "bytes option"
  a_token :: bytes

definition auth_zero :: nc_auth where
  "auth_zero = \<lparr>a_server = False, a_state = NC_AUTH_STATE_PENDING, a_need = NC_AUTH_NEED_NOTHING, a_greeted = False, a_avail = 0,
     a_tries = 0, a_sid = replicate 32 0, a_user = replicate 65 0, a_send = False, a_out = [], a_buf = None, a_strings = 0,
     a_offered = 0, a_ia_method = 0, a_chosen = 0, a_chose = False, a_asked = False, a_cancelling = False, a_registered = False,
     a_fired = False, a_form = form_zero, a_wait_note = None, a_token = []\<rparr>"

section \<open>Field types\<close>

definition TYPE_NAMES :: "(bytes \<times> u8) list" where
  "TYPE_NAMES = [(str_of ''text'', NC_FF_TEXT), (str_of ''password'', NC_FF_PASSWORD), (str_of ''email'', NC_FF_EMAIL),
     (str_of ''integer'', NC_FF_INTEGER), (str_of ''phone'', NC_FF_PHONE), (str_of ''bool'', NC_FF_BOOL),
     (str_of ''choice'', NC_FF_CHOICE), (str_of ''note'', NC_FF_NOTE), (str_of ''link'', NC_FF_LINK)]"

definition type_name :: "u8 \<Rightarrow> bytes option" where
  "type_name t = map_option fst (find (\<lambda>e. snd e = t) TYPE_NAMES)"

definition type_value :: "bytes \<Rightarrow> u8" where
  "type_value s = (case find (\<lambda>e. fst e = s) TYPE_NAMES of Some e \<Rightarrow> snd e | None \<Rightarrow> 0)"

definition type_is_prose :: "u8 \<Rightarrow> bool" where
  "type_is_prose t \<longleftrightarrow> t = NC_FF_NOTE \<or> t = NC_FF_LINK"

section \<open>Tagged fields of a message\<close>

text \<open>The loops that read a tagged message: fields for which \<open>want field wire\<close> holds are read, as bytes
  or as one byte, the others skipped.  The result is the fields read, in order, or \<open>None\<close> for
  \<open>NC_AUTH_ERR\<close>.  Every turn moves forward; the guard \<open>pos < q\<close> is never false (\<open>tag_fields_ok\<close>).\<close>

function tag_fields :: "(u8 \<Rightarrow> u8 \<Rightarrow> bool) \<Rightarrow> bytes \<Rightarrow> int \<Rightarrow> (u8 \<times> bytes) list option option" where
  "tag_fields want msg pos =
     (let len = int (length msg) in
      if pos < len then do {
        tag \<leftarrow> get_at msg pos;
        let field = drop_bit 3 tag; wire = tag AND 7 in
        if want field wire \<and> wire = MS_WIRE_BYTES then do {
          r \<leftarrow> ms_read_bytes msg (pos + 1) len 0xffff;
          (case r of
             None \<Rightarrow> Some None
           | Some ((off, n), q) \<Rightarrow> do {
               d \<leftarrow> rd_bytes msg (nat off) (unat n);
               rest \<leftarrow> (if pos < q then tag_fields want msg q else None);
               Some (map_option (\<lambda>fs. (field, d) # fs) rest) }) }
        else if want field wire \<and> wire = MS_WIRE_8 then do {
          r \<leftarrow> ms_read_u8 msg (pos + 1) len;
          (case r of
             None \<Rightarrow> Some None
           | Some (v, q) \<Rightarrow> do {
               rest \<leftarrow> (if pos < q then tag_fields want msg q else None);
               Some (map_option (\<lambda>fs. (field, [v]) # fs) rest) }) }
        else do {
          q \<leftarrow> ms_skip msg (pos + 1) len wire;
          if q < 0 then Some None else if pos < q then tag_fields want msg q else None } }
      else Some (Some []))"
  by pat_completeness auto
termination by (relation "measure (\<lambda>(want, msg, pos). nat (int (length msg) - pos))") auto

declare tag_fields.simps [simp del]

text \<open>A later field of the same number overwrites an earlier one.\<close>

definition last_field :: "u8 \<Rightarrow> (u8 \<times> bytes) list \<Rightarrow> bytes option" where
  "last_field f fs = map_option snd (find (\<lambda>e. fst e = f) (rev fs))"

section \<open>A form, encoded\<close>

definition field_error :: "nc_form \<Rightarrow> nc_form_field \<Rightarrow> bytes option" where
  "field_error f fl =
     (case ff_error fl of
        Some e \<Rightarrow> Some e
      | None \<Rightarrow>
          (case fm_errors f of
             None \<Rightarrow> None
           | Some es \<Rightarrow>
               (case find (\<lambda>e. ff_name fl \<noteq> None \<and> fe_name e \<noteq> None \<and> ff_name fl = fe_name e) es of
                  Some e \<Rightarrow> fe_message e
                | None \<Rightarrow> None)))"

fun sink_options :: "sink \<Rightarrow> bytes option list \<Rightarrow> sink option" where
  "sink_options sk [] = Some sk"
| "sink_options sk (v # vs) = do { sk \<leftarrow> sink_str sk K_OPTION v; sink_options sk vs }"

text \<open>One turn of the field loop; \<open>None\<close> inside for a type without a name.\<close>

definition encode_field :: "nc_form \<Rightarrow> sink \<Rightarrow> nc_form_field \<Rightarrow> sink option option" where
  "encode_field f sk fl =
     (case type_name (ff_type fl) of
        None \<Rightarrow> Some None
      | Some tn \<Rightarrow> do {
          sk \<leftarrow> sink_str sk K_TYPE (Some tn);
          sk \<leftarrow> sink_str sk K_NAME (ff_name fl);
          sk \<leftarrow> sink_str sk K_LABEL (ff_label fl);
          sk \<leftarrow> sink_str sk K_VALUE (ff_value fl);
          sk \<leftarrow> sink_str sk K_PATT (ff_pattern fl);
          sk \<leftarrow> (if ff_size fl \<noteq> 0 then sink_num sk K_SIZE (uint (ff_size fl)) else Some sk);
          sk \<leftarrow> (if ff_maxlength fl \<noteq> 0 then sink_num sk K_MAXLEN (uint (ff_maxlength fl)) else Some sk);
          sk \<leftarrow> (if ff_type fl = NC_FF_INTEGER \<and> ff_min fl \<noteq> ff_max fl
                 then do { sk \<leftarrow> sink_num sk K_MIN (ff_min fl); sink_num sk K_MAX (ff_max fl) } else Some sk);
          sk \<leftarrow> (case ff_options fl of
                  Some os \<Rightarrow> if length os \<le> NC_FORM_MAX_OPTIONS then sink_options sk os else Some sk
                | None \<Rightarrow> Some sk);
          sk \<leftarrow> (if ff_flags fl AND NC_FF_REQUIRED \<noteq> 0 then sink_str sk K_REQ (Some (str_of ''1'')) else Some sk);
          sk \<leftarrow> (if ff_flags fl AND NC_FF_MULTI \<noteq> 0 then sink_str sk K_MULTI (Some (str_of ''1'')) else Some sk);
          sk \<leftarrow> sink_str sk K_ERROR (field_error f fl);
          Some (Some sk) })"

fun encode_fields :: "nc_form \<Rightarrow> sink \<Rightarrow> nc_form_field list \<Rightarrow> sink option option" where
  "encode_fields f sk [] = Some (Some sk)"
| "encode_fields f sk (fl # fls) = do {
     r \<leftarrow> encode_field f sk fl;
     (case r of None \<Rightarrow> Some None | Some sk' \<Rightarrow> encode_fields f sk' fls) }"

text \<open>\<open>if (pos >= 0 && p) pos = ms_write_tag_bytes(...)\<close>\<close>

definition tag_opt :: "bytes option \<Rightarrow> u8 \<Rightarrow> int \<times> bytes \<Rightarrow> ms_written" where
  "tag_opt p f st = (case st of (pos, out) \<Rightarrow>
     case p of Some d \<Rightarrow> if 0 \<le> pos then ms_write_tag_bytes out pos (int (length out)) f d else Some (pos, out) | None \<Rightarrow> Some (pos, out))"

text \<open>The return value and the buffer \<open>out\<close>.\<close>

definition encode_form :: "bytes \<Rightarrow> nc_form \<Rightarrow> (int \<times> bytes) option" where
  "encode_form out f =
     (if NC_FORM_MAX_FIELDS < length (fm_fields f) then Some (NC_AUTH_ERR, out)
      else do {
        r \<leftarrow> encode_fields f \<lparr>sk_buf = [], sk_cap = NC_FORM_MAX_MSG, sk_err = False\<rparr> (fm_fields f);
        (case r of
           None \<Rightarrow> Some (NC_AUTH_ERR, out)
         | Some sk \<Rightarrow>
             if sk_err sk then Some (NC_AUTH_ERR, out)
             else if length out < 1 then Some (NC_AUTH_ERR, out)
             else do {
               o1 \<leftarrow> put_at out 0 [MSG_IA_FORM];
               st \<leftarrow> tag_opt (fm_title f) F_TITLE (1, o1);
               st \<leftarrow> tag_opt (fm_note f) F_NOTE st;
               (pos, o2) \<leftarrow> tag_opt (Some (sk_buf sk)) F_FIELDS st;
               Some (if pos < 0 then NC_AUTH_ERR else pos, o2) }) })"

section \<open>A form, decoded\<close>

text \<open>Fields, errors and options, in this order.\<close>

fun count_records :: "bytes list \<Rightarrow> nat \<times> nat \<times> nat" where
  "count_records [] = (0, 0, 0)"
| "count_records (s # ss) =
     (let (nf, ne, nopt) = count_records ss in
      if key_of s K_TYPE \<noteq> None then (Suc nf, ne, nopt)
      else if key_of s K_ERROR \<noteq> None then (nf, Suc ne, nopt)
      else if key_of s K_OPTION \<noteq> None then (nf, ne, Suc nopt)
      else (nf, ne, nopt))"

definition add_option :: "nc_form_field \<Rightarrow> bytes \<Rightarrow> nc_form_field" where
  "add_option fl v = fl\<lparr>ff_options := Some ((case ff_options fl of None \<Rightarrow> [] | Some os \<Rightarrow> os) @ [Some v])\<rparr>"

text \<open>One record string applied to the current field: the new field, the error entry it makes and
  how many options it stored; \<open>None\<close> inside for \<open>NC_AUTH_ERR\<close>.\<close>

definition attr :: "bytes \<Rightarrow> bytes \<Rightarrow> (bytes \<Rightarrow> 'r) \<Rightarrow> 'r \<Rightarrow> 'r" where
  "attr s key f rest = (case key_of s key of Some v \<Rightarrow> f v | None \<Rightarrow> rest)"

definition attr_plain :: "nc_form_field \<Rightarrow> (nc_form_field \<times> nc_form_error list \<times> nat) option option" where
  "attr_plain fl = Some (Some (fl, [], 0))"

definition attr_num :: "nc_form_field \<Rightarrow> bytes \<Rightarrow> (int \<Rightarrow> nc_form_field) \<Rightarrow> (nc_form_field \<times> nc_form_error list \<times> nat) option option" where
  "attr_num fl v g = do { r \<leftarrow> parse_i32 v; attr_plain (case r of Some n \<Rightarrow> g n | None \<Rightarrow> fl) }"

definition apply_attr :: "nc_form_field \<Rightarrow> bytes \<Rightarrow> (nc_form_field \<times> nc_form_error list \<times> nat) option option" where
  "apply_attr fl s =
     attr s K_NAME (\<lambda>v. attr_plain (fl\<lparr>ff_name := Some v\<rparr>)) (
     attr s K_LABEL (\<lambda>v. attr_plain (fl\<lparr>ff_label := Some v\<rparr>)) (
     attr s K_VALUE (\<lambda>v. attr_plain (fl\<lparr>ff_value := Some v\<rparr>)) (
     attr s K_PATT (\<lambda>v. attr_plain (fl\<lparr>ff_pattern := Some v\<rparr>)) (
     attr s K_SIZE (\<lambda>v. attr_num fl v (\<lambda>n. fl\<lparr>ff_size := word_of_int n\<rparr>)) (
     attr s K_MAXLEN (\<lambda>v. attr_num fl v (\<lambda>n. fl\<lparr>ff_maxlength := word_of_int n\<rparr>)) (
     attr s K_MIN (\<lambda>v. attr_num fl v (\<lambda>n. fl\<lparr>ff_min := n\<rparr>)) (
     attr s K_MAX (\<lambda>v. attr_num fl v (\<lambda>n. fl\<lparr>ff_max := n\<rparr>)) (
     attr s K_REQ (\<lambda>v. attr_plain (fl\<lparr>ff_flags := ff_flags fl OR NC_FF_REQUIRED\<rparr>)) (
     attr s K_MULTI (\<lambda>v. attr_plain (fl\<lparr>ff_flags := ff_flags fl OR NC_FF_MULTI\<rparr>)) (
     attr s K_OPTION (\<lambda>v. if NC_FORM_MAX_OPTIONS \<le> noptions fl then Some None else Some (Some (add_option fl v, [], 1))) (
     attr s K_ERROR (\<lambda>v. Some (Some (fl\<lparr>ff_error := Some v\<rparr>, [\<lparr>fe_name = ff_name fl, fe_message = Some v\<rparr>], 0))) (
     attr_plain fl))))))))))))"

text \<open>The record loop, with the places left in the three arrays that were carved for it; storing past
  an array is undefined.  \<open>fls\<close> are the fields begun so far, the last one current.\<close>

fun decode_records :: "nat \<Rightarrow> nat \<Rightarrow> nat \<Rightarrow> nc_form_field list \<Rightarrow> bytes list \<Rightarrow> (nc_form_field list \<times> nc_form_error list) option option" where
  "decode_records nf ne nopt fls [] = Some (Some (fls, []))"
| "decode_records nf ne nopt fls (s # ss) =
     (case key_of s K_TYPE of
        Some v \<Rightarrow>
          (case nf of
             0 \<Rightarrow> None
           | Suc nf' \<Rightarrow> if type_value v = 0 then Some None
               else decode_records nf' ne nopt (fls @ [field_zero\<lparr>ff_type := type_value v\<rparr>]) ss)
      | None \<Rightarrow>
          if fls = [] then decode_records nf ne nopt fls ss
          else do {
            r \<leftarrow> apply_attr (last fls) s;
            (case r of
               None \<Rightarrow> Some None
             | Some (fl, es, k) \<Rightarrow>
                 if ne < length es \<or> nopt < k then None
                 else do {
                   r \<leftarrow> decode_records nf (ne - length es) (nopt - k) (butlast fls @ [fl]) ss;
                   Some (map_option (\<lambda>(fs, es'). (fs, es @ es')) r) }) })"

definition SIZEOF_FIELD :: nat where "SIZEOF_FIELD = 80"
definition SIZEOF_ERROR :: nat where "SIZEOF_ERROR = 16"
definition SIZEOF_PTR :: nat where "SIZEOF_PTR = 8"

text \<open>\<open>title ? arena_str(&ar, title, tlen) : NULL\<close>: the string, and whether the copy failed.\<close>

definition arena_opt :: "arena \<Rightarrow> bytes option \<Rightarrow> (bytes option \<times> bool \<times> arena) option" where
  "arena_opt ar p =
     (case p of
        None \<Rightarrow> Some (None, False, ar)
      | Some t \<Rightarrow> do { (q, ar') \<leftarrow> arena_str ar t; Some (if q = None then (None, True, ar') else (Some (cstr t), False, ar')) })"

text \<open>From the arena that holds the strings on: counting, carving, filling in.\<close>

definition fill_form :: "nc_auth \<Rightarrow> arena \<Rightarrow> nat \<Rightarrow> (int \<times> nc_auth) option" where
  "fill_form a ar recs = do {
     let a = a\<lparr>a_buf := Some (ar_buf ar), a_strings := ar_used ar\<rparr>;
     ss \<leftarrow> cstrings (take (ar_used ar - recs) (drop recs (ar_buf ar)));
     let (nf, ne, nopt) = count_records ss;
     if NC_FORM_MAX_FIELDS < nf then Some (NC_AUTH_ERR, a)
     else
       let (fp, ar) = arena_array ar nf SIZEOF_FIELD;
           (ep, ar) = arena_array ar ne SIZEOF_ERROR;
           (op, ar) = arena_array ar nopt SIZEOF_PTR in
       if nf \<noteq> 0 \<and> fp = None \<or> ne \<noteq> 0 \<and> ep = None \<or> nopt \<noteq> 0 \<and> op = None then Some (NC_AUTH_ERR, a)
       else do {
         r \<leftarrow> decode_records nf ne nopt [] ss;
         (case r of
            None \<Rightarrow> Some (NC_AUTH_ERR, a)
          | Some (fls, es) \<Rightarrow>
              Some (NC_AUTH_OK, a\<lparr>a_form := (a_form a)\<lparr>fm_fields := fls,
                fm_errors := (if ne = 0 then None else Some (take (length es mod 256) es))\<rparr>\<rparr>)) } }"

definition decode_form :: "nc_auth \<Rightarrow> bytes \<Rightarrow> (int \<times> nc_auth) option" where
  "decode_form a msg =
     (case a_buf a of
        None \<Rightarrow> Some (NC_AUTH_ERR, a)
      | Some buf \<Rightarrow> do {
          r \<leftarrow> tag_fields (\<lambda>field wire. wire = MS_WIRE_BYTES \<and> (field = F_TITLE \<or> field = F_NOTE \<or> field = F_FIELDS)) msg 1;
          (case r of
             None \<Rightarrow> Some (NC_AUTH_ERR, a)
           | Some fs \<Rightarrow> do {
               (title, tbad, ar) \<leftarrow> arena_opt \<lparr>ar_buf = buf, ar_used = 0\<rparr> (last_field F_TITLE fs);
               (note, nbad, ar) \<leftarrow> arena_opt ar (last_field F_NOTE fs);
               let a = a\<lparr>a_buf := Some (ar_buf ar), a_form := form_zero\<lparr>fm_title := title, fm_note := note\<rparr>\<rparr>;
               if tbad \<or> nbad then Some (NC_AUTH_ERR, a)
               else
                 let recs = ar_used ar in
                 (case last_field F_FIELDS fs of
                    None \<Rightarrow> fill_form a ar recs
                  | Some blob \<Rightarrow> do {
                      (n, ar) \<leftarrow> unpack ar blob;
                      if n < 0 then Some (NC_AUTH_ERR, a\<lparr>a_buf := Some (ar_buf ar)\<rparr>)
                      else fill_form a ar recs }) }) })"

section \<open>Answers\<close>

fun sink_choices :: "sink \<Rightarrow> u32 \<Rightarrow> nat list \<Rightarrow> sink option" where
  "sink_choices sk ch [] = Some sk"
| "sink_choices sk ch (o1 # os) = do {
     sk \<leftarrow> (if ch AND push_bit o1 1 \<noteq> 0 then sink_num sk K_VALUE (int o1) else Some sk);
     sink_choices sk ch os }"

definition encode_answer :: "sink \<Rightarrow> nc_form_field \<Rightarrow> nc_form_value \<Rightarrow> sink option" where
  "encode_answer sk fl v =
     (if type_is_prose (ff_type fl) \<or> ff_name fl = None then Some sk
      else do {
        sk \<leftarrow> sink_str sk K_NAME (ff_name fl);
        if ff_type fl = NC_FF_INTEGER then sink_num sk K_VALUE (fv_number v)
        else if ff_type fl = NC_FF_BOOL then sink_str sk K_VALUE (Some (if fv_on v then str_of ''1'' else str_of ''0''))
        else if ff_type fl = NC_FF_CHOICE then
          if ff_flags fl AND NC_FF_MULTI \<noteq> 0 then sink_choices sk (fv_choice v) [0 ..< noptions fl]
          else sink_num sk K_VALUE (sint (fv_choice v))
        else sink_str sk K_VALUE (Some (case fv_text v of Some t \<Rightarrow> t | None \<Rightarrow> [])) })"

fun encode_answer_list :: "sink \<Rightarrow> nc_form_field list \<Rightarrow> nc_form_value list \<Rightarrow> sink option" where
  "encode_answer_list sk (fl # fls) (v # vs) = do { sk \<leftarrow> encode_answer sk fl v; encode_answer_list sk fls vs }"
| "encode_answer_list sk _ _ = Some sk"

definition encode_answers :: "bytes \<Rightarrow> nc_form \<Rightarrow> nc_form_value list \<Rightarrow> (int \<times> bytes) option" where
  "encode_answers out f vals = do {
     sk \<leftarrow> encode_answer_list \<lparr>sk_buf = [], sk_cap = NC_FORM_MAX_MSG, sk_err = False\<rparr> (fm_fields f) vals;
     if sk_err sk then Some (NC_AUTH_ERR, out)
     else if length out < 1 then Some (NC_AUTH_ERR, out)
     else do {
       o1 \<leftarrow> put_at out 0 [MSG_IA_SUBMIT];
       (pos, o2) \<leftarrow> ms_write_tag_bytes o1 1 (int (length o1)) F_ANSWERS (sk_buf sk);
       Some (if pos < 0 then NC_AUTH_ERR else pos, o2) } }"

definition decode_answers :: "nc_auth \<Rightarrow> bytes \<Rightarrow> (int \<times> nc_auth) option" where
  "decode_answers a msg =
     (case a_buf a of
        None \<Rightarrow> Some (NC_AUTH_ERR, a)
      | Some buf \<Rightarrow> do {
          r \<leftarrow> tag_fields (\<lambda>field wire. field = F_ANSWERS \<and> wire = MS_WIRE_BYTES) msg 1;
          (case r of
             None \<Rightarrow> Some (NC_AUTH_ERR, a)
           | Some fs \<Rightarrow>
               let ar = \<lparr>ar_buf = buf, ar_used = 0\<rparr>; a = a\<lparr>a_strings := 0\<rparr> in
               (case last_field F_ANSWERS fs of
                  None \<Rightarrow> Some (NC_AUTH_OK, a)
                | Some blob \<Rightarrow> do {
                    (n, ar) \<leftarrow> unpack ar blob;
                    if n < 0 then Some (NC_AUTH_ERR, a\<lparr>a_buf := Some (ar_buf ar)\<rparr>)
                    else Some (NC_AUTH_OK, a\<lparr>a_buf := Some (ar_buf ar), a_strings := ar_used ar\<rparr>) })) })"

text \<open>The loop of \<open>value_of\<close>; \<open>mine\<close> says that the last name read was the one wanted.\<close>

fun find_value :: "bytes \<Rightarrow> bool \<Rightarrow> bytes list \<Rightarrow> bytes option" where
  "find_value name mine [] = None"
| "find_value name mine (s # ss) =
     (case key_of s K_NAME of
        Some v \<Rightarrow> find_value name (v = name) ss
      | None \<Rightarrow>
          (case (if mine then key_of s K_VALUE else None) of
             Some v \<Rightarrow> Some v
           | None \<Rightarrow> find_value name mine ss))"

definition value_of :: "nc_auth \<Rightarrow> bytes option \<Rightarrow> bytes option option" where
  "value_of a name =
     (case (a_buf a, name) of
        (Some buf, Some n) \<Rightarrow> do { ss \<leftarrow> cstrings (take (a_strings a) buf); Some (find_value n False ss) }
      | _ \<Rightarrow> Some None)"

definition nc_auth_value_text :: "nc_auth \<Rightarrow> bytes option \<Rightarrow> bytes option option" where
  "nc_auth_value_text a name = value_of a name"

definition nc_auth_value_int :: "nc_auth \<Rightarrow> bytes option \<Rightarrow> int \<Rightarrow> int option" where
  "nc_auth_value_int a name fallback = do {
     v \<leftarrow> value_of a name;
     (case v of None \<Rightarrow> Some fallback | Some t \<Rightarrow> do { r \<leftarrow> parse_i32 t; Some (case r of Some n \<Rightarrow> n | None \<Rightarrow> fallback) }) }"

definition nc_auth_value_bool :: "nc_auth \<Rightarrow> bytes option \<Rightarrow> bool \<Rightarrow> bool option" where
  "nc_auth_value_bool a name fallback = do {
     v \<leftarrow> value_of a name;
     Some (case v of None \<Rightarrow> fallback | Some t \<Rightarrow> t \<noteq> [] \<and> hd t = 49) }"

fun choice_mask :: "bytes \<Rightarrow> bool \<Rightarrow> bytes list \<Rightarrow> u32 \<Rightarrow> u32 option" where
  "choice_mask name mine [] m = Some m"
| "choice_mask name mine (s # ss) m =
     (case key_of s K_NAME of
        Some v \<Rightarrow> choice_mask name (v = name) ss m
      | None \<Rightarrow>
          (case (if mine then key_of s K_VALUE else None) of
             None \<Rightarrow> choice_mask name mine ss m
           | Some v \<Rightarrow> do {
               r \<leftarrow> parse_i32 v;
               choice_mask name mine ss (case r of Some n \<Rightarrow> if 0 \<le> n \<and> n < 32 then m OR push_bit (nat n) 1 else m | None \<Rightarrow> m) }))"

definition nc_auth_value_choice :: "nc_auth \<Rightarrow> bytes option \<Rightarrow> u32 option" where
  "nc_auth_value_choice a name =
     (case (a_buf a, name) of
        (Some buf, Some n) \<Rightarrow> do { ss \<leftarrow> cstrings (take (a_strings a) buf); choice_mask n False ss 0 }
      | _ \<Rightarrow> Some 0)"

end
