(* ===== verification/Auth_Core.thy ===== *)
theory Auth_Core
  imports Auth_Form
begin

text \<open>
  The login conversation (\<open>auth/nc_auth.c\<close> and the conversation part of \<open>auth/nc_auth_ia.c\<close>): one
  record for both sides, one definition per call.  Application callbacks and the cryptography
  (monocypher) are an argument of the calls that use them, so their answers may differ from call to
  call; within one call each is used at most once.  What the conversation hands out is the list
  \<open>a_out\<close>.  The outer option is undefined behaviour.
\<close>

section \<open>Environment\<close>

text \<open>What an interactive callback decides: its verdict, the form it filled in and the token it
  issued with \<open>nc_auth_server_token\<close>, if any.\<close>

type_synonym ia_reply = "int \<times> nc_form \<times> bytes option"

definition NC_AUTH_IA_MORE :: int where "NC_AUTH_IA_MORE = 0"
definition NC_AUTH_IA_DONE :: int where "NC_AUTH_IA_DONE = 1"
definition NC_AUTH_IA_DENIED :: int where "NC_AUTH_IA_DENIED = 2"
definition NC_AUTH_IA_WAIT :: int where "NC_AUTH_IA_WAIT = 3"

record auth_env =
  cb_methods :: "(bytes \<Rightarrow> u32) option"
  cb_check_key :: "(bytes \<Rightarrow> bytes \<Rightarrow> bool) option"
  cb_check_password :: "(bytes \<Rightarrow> bytes \<Rightarrow> bool) option"
  cb_begin :: "(u32 \<Rightarrow> ia_reply) option"
  cb_submit :: "(nc_auth \<Rightarrow> ia_reply) option"
  cb_resume :: "(bytes \<Rightarrow> ia_reply) option"
  cb_cancelled :: bool
  crypto_blake2b :: "nat \<Rightarrow> bytes \<Rightarrow> bytes"
  crypto_eddsa_sign :: "bytes \<Rightarrow> bytes \<Rightarrow> bytes"
  crypto_eddsa_check :: "bytes \<Rightarrow> bytes \<Rightarrow> bytes \<Rightarrow> bool"

section \<open>Both sides\<close>

definition nc_auth_i_emit :: "nc_auth \<Rightarrow> bytes \<Rightarrow> nc_auth" where
  "nc_auth_i_emit a msg = (if a_send a then a\<lparr>a_out := a_out a @ [Sent msg]\<rparr> else a)"

text \<open>\<open>sizeof(SIG_LABEL)\<close> counts the NUL.\<close>

definition SIG_LABEL :: bytes where
  "SIG_LABEL = str_of ''netchan-auth-v1'' @ [0]"

definition nc_auth_signed_digest :: "auth_env \<Rightarrow> bytes \<Rightarrow> bytes \<Rightarrow> bytes \<Rightarrow> bytes" where
  "nc_auth_signed_digest e sid user pk =
     (let n = (if NC_AUTH_MAX_USER < length user then NC_AUTH_MAX_USER else length user) in
      crypto_blake2b e 32 (SIG_LABEL @ sid @ [of_nat n] @ take n user @ pk))"

definition nc_auth_client_init :: "bytes \<Rightarrow> bytes option \<Rightarrow> bool \<Rightarrow> nc_auth" where
  "nc_auth_client_init sid user send =
     auth_zero\<lparr>a_server := False, a_state := NC_AUTH_STATE_PENDING, a_need := NC_AUTH_NEED_NOTHING, a_sid := sid,
       a_user := (case user of
                    Some u \<Rightarrow> take NC_AUTH_MAX_USER u @ replicate (NC_AUTH_MAX_USER + 1 - min NC_AUTH_MAX_USER (length u)) 0
                  | None \<Rightarrow> a_user auth_zero),
       a_send := send\<rparr>"

definition nc_auth_server_init :: "bytes \<Rightarrow> bool \<Rightarrow> nc_auth" where
  "nc_auth_server_init sid send = auth_zero\<lparr>a_server := True, a_state := NC_AUTH_STATE_PENDING, a_sid := sid, a_send := send\<rparr>"

definition nc_auth_user :: "nc_auth \<Rightarrow> bytes" where
  "nc_auth_user a = cstr (a_user a)"

definition nc_auth_start :: "nc_auth \<Rightarrow> nc_auth option" where
  "nc_auth_start a =
     (if a_server a \<or> a_state a \<noteq> NC_AUTH_STATE_PENDING then Some a
      else do {
        ulen \<leftarrow> strlen (a_user a);
        msg \<leftarrow> emit (2 + NC_AUTH_MAX_USER) [] ([MSG_HELLO, of_nat ulen] @ take ulen (a_user a));
        Some (nc_auth_i_emit a msg) })"

section \<open>Client\<close>

text \<open>The message that opens an interactive method: the position reached and the buffer of
  \<open>3 + NC_FORM_MAX_TOKEN\<close> bytes.\<close>

definition ia_begin_msg :: "u32 \<Rightarrow> bytes \<Rightarrow> ms_written" where
  "ia_begin_msg method token = do {
     b \<leftarrow> put_at (replicate (3 + NC_FORM_MAX_TOKEN) 0) 0 [MSG_IA_BEGIN];
     (pos, b) \<leftarrow> ms_write_tag_u8 b 1 (int (length b)) F_METHOD (ucast method);
     (if 0 \<le> pos \<and> token \<noteq> [] then ms_write_tag_bytes b pos (int (length b)) F_TOKEN token else Some (pos, b)) }"

text \<open>The two calls call each other, but at most once around: \<open>nc_auth_i_ia_choose\<close> comes back with
  \<open>asked\<close> set.\<close>

function nc_auth_i_client_try_next :: "nc_auth \<Rightarrow> nc_auth option"
  and nc_auth_i_ia_choose :: "nc_auth \<Rightarrow> nc_auth option" where
  "nc_auth_i_client_try_next a =
     (if a_state a \<noteq> NC_AUTH_STATE_PENDING then Some a
      else if \<not> a_asked a \<and> a_avail a AND (NC_AUTH_M_REGISTER OR NC_AUTH_M_INTERACTIVE) \<noteq> 0 then
        if a_chose a then nc_auth_i_ia_choose a else Some (a\<lparr>a_need := NC_AUTH_NEED_METHOD\<rparr>)
      else if a_avail a AND NC_AUTH_M_PUBKEY \<noteq> 0 then
        Some (a\<lparr>a_avail := a_avail a AND NOT NC_AUTH_M_PUBKEY, a_need := NC_AUTH_NEED_KEY\<rparr>)
      else if a_avail a AND NC_AUTH_M_PASSWORD \<noteq> 0 then
        Some (a\<lparr>a_avail := a_avail a AND NOT NC_AUTH_M_PASSWORD, a_need := NC_AUTH_NEED_PASSWORD\<rparr>)
      else Some (a\<lparr>a_need := NC_AUTH_NEED_NOTHING, a_state := NC_AUTH_STATE_DENIED\<rparr>))"
| "nc_auth_i_ia_choose a =
     (let want = a_chosen a AND (NC_AUTH_M_REGISTER OR NC_AUTH_M_INTERACTIVE); a = a\<lparr>a_chose := False\<rparr> in
      if a_chosen a = 0 then Some (a\<lparr>a_need := NC_AUTH_NEED_NOTHING, a_state := NC_AUTH_STATE_DENIED\<rparr>)
      else if want \<noteq> 0 \<and> want AND a_avail a = 0 then Some (a\<lparr>a_need := NC_AUTH_NEED_METHOD\<rparr>)
      else if want = 0 then nc_auth_i_client_try_next (a\<lparr>a_asked := True\<rparr>)
      else
        let m = (if (want AND a_avail a) AND NC_AUTH_M_REGISTER \<noteq> 0 then NC_AUTH_M_REGISTER else NC_AUTH_M_INTERACTIVE);
            a = a\<lparr>a_ia_method := m\<rparr> in do {
          (pos, b) \<leftarrow> ia_begin_msg m (a_token a);
          if pos < 0 then Some (a\<lparr>a_state := NC_AUTH_STATE_DENIED\<rparr>)
          else Some (nc_auth_i_emit (a\<lparr>a_need := NC_AUTH_NEED_NOTHING\<rparr>) (take (nat pos) b)) })"
  by pat_completeness auto
termination
  by (relation "measure (\<lambda>x. case x of Inl a \<Rightarrow> if a_asked a then 0 else 2 | Inr a \<Rightarrow> 1)") auto

declare nc_auth_i_client_try_next.simps [simp del] nc_auth_i_ia_choose.simps [simp del]

definition nc_auth_supply_key :: "auth_env \<Rightarrow> nc_auth \<Rightarrow> bytes option \<Rightarrow> bytes option \<Rightarrow> nc_auth option" where
  "nc_auth_supply_key e a sk pk =
     (if a_server a \<or> a_need a \<noteq> NC_AUTH_NEED_KEY then Some a
      else let a = a\<lparr>a_need := NC_AUTH_NEED_NOTHING\<rparr> in
        (case (sk, pk) of
           (Some sk, Some pk) \<Rightarrow> do {
             pk \<leftarrow> rd_bytes pk 0 32;
             msg \<leftarrow> emit (1 + 32 + 64) [] ([MSG_PUBKEY] @ pk @ crypto_eddsa_sign e sk (nc_auth_signed_digest e (a_sid a) (nc_auth_user a) pk));
             Some (nc_auth_i_emit a msg) }
         | _ \<Rightarrow> nc_auth_i_client_try_next a))"

definition nc_auth_supply_password :: "nc_auth \<Rightarrow> bytes option \<Rightarrow> nc_auth option" where
  "nc_auth_supply_password a password =
     (if a_server a \<or> a_need a \<noteq> NC_AUTH_NEED_PASSWORD then Some a
      else let a = a\<lparr>a_need := NC_AUTH_NEED_NOTHING\<rparr> in
        (case password of
           None \<Rightarrow> nc_auth_i_client_try_next a
         | Some p \<Rightarrow>
             if NC_AUTH_MAX_PASS - 1 < length p then nc_auth_i_client_try_next a
             else do {
               msg \<leftarrow> emit (2 + NC_AUTH_MAX_PASS) [] ([MSG_PASSWORD, of_nat (length p)] @ p);
               Some (nc_auth_i_emit a msg) }))"

definition nc_auth_client_buffer :: "nc_auth \<Rightarrow> bytes option \<Rightarrow> nc_auth" where
  "nc_auth_client_buffer a buf = a\<lparr>a_buf := buf\<rparr>"

definition nc_auth_form :: "nc_auth \<Rightarrow> nc_form option" where
  "nc_auth_form a = (if a_server a \<or> a_need a \<noteq> NC_AUTH_NEED_FORM then None else Some (a_form a))"

definition nc_auth_waiting :: "nc_auth \<Rightarrow> bytes option" where
  "nc_auth_waiting a = (if a_server a then None else a_wait_note a)"

definition nc_auth_registered :: "nc_auth \<Rightarrow> bool \<times> nc_auth" where
  "nc_auth_registered a = (a_registered a, a\<lparr>a_registered := False\<rparr>)"

text \<open>The bytes copied out; none when there is no token or it does not fit.\<close>

definition nc_auth_pending_token :: "nc_auth \<Rightarrow> nat \<Rightarrow> bytes" where
  "nc_auth_pending_token a len = (if len < length (a_token a) then [] else a_token a)"

definition nc_auth_resume_pending :: "nc_auth \<Rightarrow> bytes option \<Rightarrow> nc_auth" where
  "nc_auth_resume_pending a tok =
     (case tok of
        None \<Rightarrow> a
      | Some t \<Rightarrow> if a_server a \<or> length t = 0 \<or> NC_FORM_MAX_TOKEN < length t then a else a\<lparr>a_token := t\<rparr>)"

definition nc_auth_supply_method :: "nc_auth \<Rightarrow> u32 \<Rightarrow> nc_auth option" where
  "nc_auth_supply_method a method =
     (if a_server a then Some a
      else let a = a\<lparr>a_chosen := method, a_chose := True\<rparr> in
        if a_need a = NC_AUTH_NEED_METHOD then nc_auth_i_ia_choose (a\<lparr>a_need := NC_AUTH_NEED_NOTHING\<rparr>) else Some a)"

definition nc_auth_cancel :: "nc_auth \<Rightarrow> nc_auth" where
  "nc_auth_cancel a =
     (if a_server a \<or> a_ia_method a = 0 \<or> a_cancelling a then a
      else (nc_auth_i_emit a [MSG_IA_CANCEL])\<lparr>a_cancelling := True, a_need := NC_AUTH_NEED_NOTHING, a_wait_note := None, a_token := []\<rparr>)"

text \<open>\<open>None\<close> for a null pointer or a negative count.\<close>

definition nc_auth_submit :: "nc_auth \<Rightarrow> nc_form_value list option \<Rightarrow> nc_auth option" where
  "nc_auth_submit a vals =
     (if a_server a \<or> a_need a \<noteq> NC_AUTH_NEED_FORM then Some a
      else let a = a\<lparr>a_need := NC_AUTH_NEED_NOTHING\<rparr> in
        (case vals of
           None \<Rightarrow> Some (nc_auth_cancel a)
         | Some vs \<Rightarrow> do {
             (len, msg) \<leftarrow> encode_answers (replicate NC_FORM_MAX_MSG 0) (a_form a) vs;
             Some (if len < 0 then a\<lparr>a_state := NC_AUTH_STATE_DENIED\<rparr> else nc_auth_i_emit a (take (nat len) msg)) }))"

definition nc_auth_i_ia_client :: "nc_auth \<Rightarrow> bytes \<Rightarrow> (int \<times> nc_auth) option" where
  "nc_auth_i_ia_client a msg = do {
     t \<leftarrow> rd8 msg 0;
     if t = MSG_IA_FORM then
       if a_cancelling a then Some (NC_AUTH_OK, a)
       else if a_ia_method a = 0 then Some (NC_AUTH_ERR, a)
       else if a_need a = NC_AUTH_NEED_FORM then Some (NC_AUTH_ERR, a)
       else do {
         (rc, a) \<leftarrow> decode_form a msg;
         Some (if rc \<noteq> NC_AUTH_OK then (NC_AUTH_ERR, a) else (NC_AUTH_OK, a\<lparr>a_wait_note := None, a_need := NC_AUTH_NEED_FORM\<rparr>)) }
     else if t = MSG_IA_WAIT then
       if a_cancelling a then Some (NC_AUTH_OK, a)
       else if a_ia_method a = 0 then Some (NC_AUTH_ERR, a)
       else do {
         r \<leftarrow> tag_fields (\<lambda>field wire. wire = MS_WIRE_BYTES \<and> (field = F_NOTE \<or> field = F_TOKEN)) msg 1;
         (case r of
            None \<Rightarrow> Some (NC_AUTH_ERR, a)
          | Some fs \<Rightarrow>
              let a = (case last_field F_TOKEN fs of
                         Some tok \<Rightarrow> if 0 < length tok \<and> length tok \<le> NC_FORM_MAX_TOKEN then a\<lparr>a_token := tok\<rparr> else a
                       | None \<Rightarrow> a) in do {
              a \<leftarrow> (case (last_field F_NOTE fs, a_buf a) of
                     (Some note, Some buf) \<Rightarrow> do {
                       (p, bad, ar) \<leftarrow> arena_opt \<lparr>ar_buf = buf, ar_used = 0\<rparr> (Some note);
                       Some (a\<lparr>a_wait_note := p, a_strings := ar_used ar, a_buf := Some (ar_buf ar)\<rparr>) }
                   | _ \<Rightarrow> Some a);
              Some (NC_AUTH_OK, a\<lparr>a_need := NC_AUTH_NEED_NOTHING\<rparr>) }) }
     else Some (NC_AUTH_ERR, a) }"

definition client_feed :: "nc_auth \<Rightarrow> bytes \<Rightarrow> (int \<times> nc_auth) option" where
  "client_feed a msg = do {
     t \<leftarrow> rd8 msg 0;
     if t = MSG_METHODS then
       if length msg \<noteq> 2 then Some (NC_AUTH_ERR, a)
       else do {
         m \<leftarrow> rd8 msg 1;
         let a1 = (if a_ia_method a = NC_AUTH_M_REGISTER \<and> \<not> a_cancelling a then a\<lparr>a_registered := True\<rparr> else a);
             a2 = a1\<lparr>a_ia_method := 0, a_cancelling := False, a_asked := False, a_wait_note := None, a_avail := ucast m, a_offered := ucast m\<rparr> in
         if a_avail a2 = 0 then Some (NC_AUTH_OK, a2\<lparr>a_state := NC_AUTH_STATE_DENIED\<rparr>)
         else do { a3 \<leftarrow> nc_auth_i_client_try_next a2; Some (NC_AUTH_OK, a3) } }
     else if t = MSG_OK then Some (NC_AUTH_OK, a\<lparr>a_state := NC_AUTH_STATE_OK\<rparr>)
     else if t = MSG_FAIL then
       if length msg \<noteq> 2 then Some (NC_AUTH_ERR, a)
       else do {
         m \<leftarrow> rd8 msg 1;
         a' \<leftarrow> nc_auth_i_client_try_next (a\<lparr>a_avail := a_avail a AND ucast m, a_ia_method := 0, a_cancelling := False, a_asked := False\<rparr>);
         Some (NC_AUTH_OK, a') }
     else nc_auth_i_ia_client a msg }"

section \<open>Server\<close>

definition server_reply :: "nc_auth \<Rightarrow> u8 \<Rightarrow> u32 \<Rightarrow> bool \<Rightarrow> nc_auth" where
  "server_reply a type m has_arg = nc_auth_i_emit a (if has_arg then [type, ucast m] else [type])"

definition nc_auth_i_server_deny :: "nc_auth \<Rightarrow> u32 \<Rightarrow> nc_auth" where
  "nc_auth_i_server_deny a spent =
     (let a1 = a\<lparr>a_avail := a_avail a AND NOT spent, a_tries := a_tries a + 1\<rparr>;
          a2 = (if NC_AUTH_MAX_TRIES \<le> a_tries a1 \<or> a_avail a1 = 0 then a1\<lparr>a_avail := 0, a_state := NC_AUTH_STATE_DENIED\<rparr> else a1) in
      server_reply a2 MSG_FAIL (a_avail a2) True)"

definition nc_auth_i_server_offer :: "auth_env \<Rightarrow> nc_auth \<Rightarrow> nc_auth" where
  "nc_auth_i_server_offer e a =
     (let a1 = a\<lparr>a_avail := (case cb_methods e of Some f \<Rightarrow> f (nc_auth_user a) | None \<Rightarrow> 0)\<rparr>;
          a2 = (if a_avail a1 = 0 then a1\<lparr>a_state := NC_AUTH_STATE_DENIED\<rparr> else a1) in
      server_reply a2 MSG_METHODS (a_avail a2) True)"

definition nc_auth_server_buffer :: "nc_auth \<Rightarrow> bytes option \<Rightarrow> nc_auth" where
  "nc_auth_server_buffer a buf = a\<lparr>a_buf := buf\<rparr>"

definition nc_auth_i_ia_end :: "auth_env \<Rightarrow> nc_auth \<Rightarrow> nc_auth" where
  "nc_auth_i_ia_end e a =
     (if a_server a \<and> a_ia_method a \<noteq> 0 \<and> \<not> a_fired a
      then a\<lparr>a_fired := True, a_out := a_out a @ (if cb_cancelled e then [Cancelled] else [])\<rparr> else a)\<lparr>a_ia_method := 0\<rparr>"

definition nc_auth_server_token :: "nc_auth \<Rightarrow> bytes option \<Rightarrow> nc_auth" where
  "nc_auth_server_token a tok =
     (case tok of
        None \<Rightarrow> a
      | Some t \<Rightarrow> if \<not> a_server a \<or> length t = 0 \<or> NC_FORM_MAX_TOKEN < length t then a else a\<lparr>a_token := t\<rparr>)"

definition send_wait :: "nc_auth \<Rightarrow> nc_form option \<Rightarrow> bytes option \<Rightarrow> nc_auth option" where
  "send_wait a form token =
     (let note = (case form of Some f \<Rightarrow> (case fm_note f of Some n \<Rightarrow> n | None \<Rightarrow> []) | None \<Rightarrow> []);
          tok = (case token of Some t \<Rightarrow> Some t | None \<Rightarrow> if a_token a \<noteq> [] then Some (a_token a) else None);
          note = take NC_FORM_MAX_LABEL note in do {
      b \<leftarrow> put_at (replicate (3 + NC_FORM_MAX_LABEL + 3 + NC_FORM_MAX_TOKEN) 0) 0 [MSG_IA_WAIT];
      (pos, b) \<leftarrow> ms_write_tag_bytes b 1 (int (length b)) F_NOTE note;
      (pos, b) \<leftarrow> (case tok of
                    Some t \<Rightarrow> if 0 \<le> pos \<and> 0 < length t \<and> length t \<le> NC_FORM_MAX_TOKEN
                               then ms_write_tag_bytes b pos (int (length b)) F_TOKEN t else Some (pos, b)
                  | None \<Rightarrow> Some (pos, b));
      Some (if 0 < pos then nc_auth_i_emit a (take (nat pos) b) else a) })"

definition verdict :: "auth_env \<Rightarrow> nc_auth \<Rightarrow> int \<Rightarrow> nc_form option \<Rightarrow> bytes option \<Rightarrow> nc_auth option" where
  "verdict e a what form token =
     (let method = a_ia_method a in
      if what = NC_AUTH_IA_MORE then
        (case form of
           None \<Rightarrow> Some (nc_auth_i_server_deny (nc_auth_i_ia_end e a) method)
         | Some f \<Rightarrow> do {
             (len, msg) \<leftarrow> encode_form (replicate NC_FORM_MAX_MSG 0) f;
             Some (if len < 0 then nc_auth_i_server_deny (nc_auth_i_ia_end e (a\<lparr>a_fired := True\<rparr>)) method
                   else nc_auth_i_emit a (take (nat len) msg)) })
      else if what = NC_AUTH_IA_WAIT then send_wait a form token
      else if what = NC_AUTH_IA_DONE then
        let a = a\<lparr>a_fired := True, a_ia_method := 0\<rparr> in
        if method = NC_AUTH_M_REGISTER then Some (nc_auth_i_server_offer e (a\<lparr>a_fired := False\<rparr>))
        else Some (nc_auth_i_emit (a\<lparr>a_state := NC_AUTH_STATE_OK\<rparr>) [MSG_OK])
      else Some (nc_auth_i_server_deny (nc_auth_i_ia_end e (a\<lparr>a_fired := True\<rparr>)) method))"

definition nc_auth_server_resume :: "auth_env \<Rightarrow> nc_auth \<Rightarrow> int \<Rightarrow> nc_form option \<Rightarrow> bytes option \<Rightarrow> nc_auth option" where
  "nc_auth_server_resume e a what form token =
     (if \<not> a_server a \<or> a_ia_method a = 0 \<or> a_state a \<noteq> NC_AUTH_STATE_PENDING then Some a
      else verdict e a what form token)"

text \<open>The callback's reply acted on: its token, then its verdict.\<close>

definition ia_answer :: "auth_env \<Rightarrow> nc_auth \<Rightarrow> ia_reply \<Rightarrow> (int \<times> nc_auth) option" where
  "ia_answer e a r = (case r of (rc, out, tok) \<Rightarrow> do { a \<leftarrow> verdict e (nc_auth_server_token a tok) rc (Some out) None; Some (NC_AUTH_OK, a) })"

definition wipe_strings :: "nc_auth \<Rightarrow> nc_auth" where
  "wipe_strings a = a\<lparr>a_buf := map_option (\<lambda>b. replicate (min (a_strings a) (length b)) 0 @ drop (a_strings a) b) (a_buf a), a_strings := 0\<rparr>"

definition nc_auth_i_ia_server :: "auth_env \<Rightarrow> nc_auth \<Rightarrow> bytes \<Rightarrow> (int \<times> nc_auth) option" where
  "nc_auth_i_ia_server e a msg = do {
     t \<leftarrow> rd8 msg 0;
     if t = MSG_IA_BEGIN then
       if \<not> a_greeted a \<or> a_ia_method a \<noteq> 0 then Some (NC_AUTH_ERR, a)
       else do {
         r \<leftarrow> tag_fields (\<lambda>field wire. field = F_METHOD \<and> wire = MS_WIRE_8 \<or> field = F_TOKEN \<and> wire = MS_WIRE_BYTES) msg 1;
         (case r of
            None \<Rightarrow> Some (NC_AUTH_ERR, a)
          | Some fs \<Rightarrow>
              let method = (case last_field F_METHOD fs of Some d \<Rightarrow> ucast (hd d) | None \<Rightarrow> 0) :: u32 in
              if method \<noteq> NC_AUTH_M_REGISTER \<and> method \<noteq> NC_AUTH_M_INTERACTIVE then Some (NC_AUTH_ERR, a)
              else (case cb_begin e of
                  None \<Rightarrow> Some (NC_AUTH_OK, nc_auth_i_server_deny a 0)
                | Some begin_cb \<Rightarrow>
                  if a_avail a AND method = 0 then Some (NC_AUTH_OK, nc_auth_i_server_deny a 0)
                  else let a = a\<lparr>a_ia_method := method, a_fired := False\<rparr> in
                    (case last_field F_TOKEN fs of
                       Some tok \<Rightarrow>
                         if 0 < length tok then
                           (case cb_resume e of
                              None \<Rightarrow> Some (NC_AUTH_OK, nc_auth_i_server_deny (nc_auth_i_ia_end e a) method)
                            | Some resume_cb \<Rightarrow> ia_answer e a (resume_cb tok))
                         else ia_answer e a (begin_cb method)
                     | None \<Rightarrow> ia_answer e a (begin_cb method)))) }
     else if t = MSG_IA_SUBMIT then
       (case cb_submit e of
          None \<Rightarrow> Some (NC_AUTH_ERR, a)
        | Some submit_cb \<Rightarrow>
            if a_ia_method a = 0 then Some (NC_AUTH_ERR, a)
            else do {
              (rc, a) \<leftarrow> decode_answers a msg;
              if rc \<noteq> NC_AUTH_OK then Some (NC_AUTH_ERR, a)
              else ia_answer e (wipe_strings a) (submit_cb a) })
     else if t = MSG_IA_CANCEL then
       if length msg \<noteq> 1 then Some (NC_AUTH_ERR, a)
       else if a_ia_method a = 0 then Some (NC_AUTH_ERR, a)
       else Some (NC_AUTH_OK, nc_auth_i_server_offer e (nc_auth_i_ia_end e a))
     else Some (NC_AUTH_ERR, a) }"

definition server_feed :: "auth_env \<Rightarrow> nc_auth \<Rightarrow> bytes \<Rightarrow> (int \<times> nc_auth) option" where
  "server_feed e a msg = do {
     t \<leftarrow> rd8 msg 0;
     if t = MSG_HELLO then
       if a_greeted a \<or> length msg < 2 then Some (NC_AUTH_ERR, a)
       else do {
         u \<leftarrow> rd8 msg 1;
         let ulen = unat u in
         if NC_AUTH_MAX_USER < ulen \<or> length msg \<noteq> 2 + ulen then Some (NC_AUTH_ERR, a)
         else do {
           name \<leftarrow> rd_bytes msg 2 ulen;
           user \<leftarrow> put_at (a_user a) 0 (name @ [0]);
           Some (NC_AUTH_OK, nc_auth_i_server_offer e (a\<lparr>a_user := user, a_greeted := True\<rparr>)) } }
     else if t = MSG_PUBKEY then
       if \<not> a_greeted a \<or> length msg \<noteq> 1 + 32 + 64 then Some (NC_AUTH_ERR, a)
       else if a_avail a AND NC_AUTH_M_PUBKEY = 0 then Some (NC_AUTH_OK, nc_auth_i_server_deny a 0)
       else do {
         pk \<leftarrow> rd_bytes msg 1 32;
         sig \<leftarrow> rd_bytes msg 33 64;
         if crypto_eddsa_check e sig pk (nc_auth_signed_digest e (a_sid a) (nc_auth_user a) pk) \<and>
            (case cb_check_key e of Some f \<Rightarrow> f (nc_auth_user a) pk | None \<Rightarrow> False)
         then Some (NC_AUTH_OK, server_reply (a\<lparr>a_state := NC_AUTH_STATE_OK\<rparr>) MSG_OK 0 False)
         else Some (NC_AUTH_OK, nc_auth_i_server_deny a NC_AUTH_M_PUBKEY) }
     else if t = MSG_PASSWORD then
       if \<not> a_greeted a \<or> length msg < 2 then Some (NC_AUTH_ERR, a)
       else do {
         p \<leftarrow> rd8 msg 1;
         let plen = unat p in
         if NC_AUTH_MAX_PASS - 1 < plen \<or> length msg \<noteq> 2 + plen then Some (NC_AUTH_ERR, a)
         else if a_avail a AND NC_AUTH_M_PASSWORD = 0 then Some (NC_AUTH_OK, nc_auth_i_server_deny a 0)
         else do {
           given \<leftarrow> rd_bytes msg 2 plen;
           pass \<leftarrow> emit NC_AUTH_MAX_PASS [] (given @ [0]);
           if (case cb_check_password e of Some f \<Rightarrow> f (nc_auth_user a) (cstr pass) | None \<Rightarrow> False)
           then Some (NC_AUTH_OK, server_reply (a\<lparr>a_state := NC_AUTH_STATE_OK\<rparr>) MSG_OK 0 False)
           else Some (NC_AUTH_OK, nc_auth_i_server_deny a NC_AUTH_M_PASSWORD) } }
     else nc_auth_i_ia_server e a msg }"

definition nc_auth_feed :: "auth_env \<Rightarrow> nc_auth \<Rightarrow> bytes \<Rightarrow> (int \<times> nc_auth) option" where
  "nc_auth_feed e a msg =
     (if length msg < 1 \<or> a_state a \<noteq> NC_AUTH_STATE_PENDING then Some (NC_AUTH_ERR, a)
      else do {
        t \<leftarrow> rd8 msg 0;
        if (if MSG_IS_BULK t then NC_FORM_MAX_MSG else NC_AUTH_MAX_MSG) < length msg then Some (NC_AUTH_ERR, a)
        else do {
          (rc, a) \<leftarrow> (if a_server a then server_feed e a msg else client_feed a msg);
          Some (rc, if rc \<noteq> 0 then a\<lparr>a_state := NC_AUTH_STATE_DENIED\<rparr> else a) } })"

text \<open>The whole structure is wiped, callbacks included; what was handed out stays.\<close>

definition nc_auth_clear :: "auth_env \<Rightarrow> nc_auth \<Rightarrow> nc_auth" where
  "nc_auth_clear e a = auth_zero\<lparr>a_out := a_out (nc_auth_i_ia_end e a), a_user := replicate (length (a_user a)) 0\<rparr>"

end
