(* ===== verification/Auth_Safe.thy ===== *)
theory Auth_Safe
  imports Auth_Core
begin

text \<open>
  The server side of the login conversation on arbitrary input: nothing undefined happens, and it
  authenticates only when a credential was checked.
\<close>

section \<open>Writing\<close>

lemma length_digits: "u < 10 ^ Suc n \<Longrightarrow> length (digits u) \<le> Suc n"
proof (induction n arbitrary: u)
  case 0
  then show ?case by (simp add: digits.simps)
next
  case (Suc n)
  have "u div 10 < 10 ^ Suc n" using Suc.prems by (simp add: less_mult_imp_div_less)
  then show ?case using Suc.IH [of "u div 10"] by (subst digits.simps) auto
qed

lemma length_digits_u32: "length (digits (unat (u :: u32))) \<le> 10"
proof -
  have "unat u < 2 ^ 32" using unsigned_less [of u] by simp
  then have "unat u < 10 ^ Suc 9" by simp
  then show ?thesis using length_digits [of "unat u" 9] by simp
qed

lemma fmt_i32_ok: "\<exists>t. fmt_i32 v = Some t"
  using length_digits_u32 [of "- word_of_int v"] length_digits_u32 [of "word_of_int v"] by (simp add: fmt_i32_def Let_def emit_def)

definition sink_ok :: "nat \<Rightarrow> sink \<Rightarrow> bool" where
  "sink_ok cap sk \<longleftrightarrow> length (sk_buf sk) \<le> cap \<and> sk_cap sk = cap"

lemma sink_put_ok: "sink_ok cap sk \<Longrightarrow> ok (sink_put sk key v) (sink_ok cap)"
  by (simp add: sink_put_def sink_ok_def Let_def emit_def)

lemma sink_str_ok: "sink_ok cap sk \<Longrightarrow> ok (sink_str sk key v) (sink_ok cap)"
  by (cases v) (simp_all add: sink_str_def sink_put_ok)

lemma sink_num_ok: "sink_ok cap sk \<Longrightarrow> ok (sink_num sk key v) (sink_ok cap)"
  using fmt_i32_ok [of v] by (auto simp: sink_num_def sink_put_ok)

lemma sink_options_ok: "sink_ok cap sk \<Longrightarrow> ok (sink_options sk vs) (sink_ok cap)"
  by (induction vs arbitrary: sk) (auto intro: ok_mono [OF sink_str_ok])

lemma ok_then: "ok m P \<Longrightarrow> (\<And>x. P x \<Longrightarrow> ok (f x) Q) \<Longrightarrow> ok (m \<bind> f) Q"
  by (simp add: ok_mono)

lemma encode_field_ok: "sink_ok cap sk \<Longrightarrow> ok (encode_field f sk fl) (\<lambda>r. \<forall>sk'. r = Some sk' \<longrightarrow> sink_ok cap sk')"
proof (cases "type_name (ff_type fl)")
  case (Some tn)
  assume "sink_ok cap sk"
  then show ?thesis unfolding encode_field_def Some option.case
    by (intro ok_then [of _ "sink_ok cap"])
       (auto simp: sink_str_ok sink_num_ok sink_options_ok split: option.split intro!: ok_mono [OF sink_num_ok] sink_num_ok)
qed (simp add: encode_field_def)

lemma encode_fields_ok: "sink_ok cap sk \<Longrightarrow> ok (encode_fields f sk fls) (\<lambda>r. \<forall>sk'. r = Some sk' \<longrightarrow> sink_ok cap sk')"
proof (induction fls arbitrary: sk)
  case (Cons fl fls)
  from okE [OF encode_field_ok [OF Cons.prems]] obtain r where "encode_field f sk fl = Some r" "\<forall>sk'. r = Some sk' \<longrightarrow> sink_ok cap sk'" by blast
  then show ?case using Cons.IH by (cases r) auto
qed simp

text \<open>A tagged writer at a position inside the buffer: an error, or a position inside it.\<close>

definition written_ok :: "nat \<Rightarrow> int \<times> bytes \<Rightarrow> bool" where
  "written_ok n st \<longleftrightarrow> length (snd st) = n \<and> fst st \<le> int n"

lemma ms_write_bytes_ok:
  assumes "0 \<le> pos" "length buf = n"
  shows "ok (ms_write_tag_bytes buf pos (int n) f d) (written_ok n)"
proof (cases "pos + 3 + uint (of_nat (length d) :: u16) > int n")
  case True
  then show ?thesis using assms by (simp add: ms_write_tag_bytes_def Let_def written_ok_def MS_ERR_def)
next
  case False
  let ?w = "of_nat (length d) :: u16"
  have l: "unat ?w \<le> length d" by (simp add: unat_of_nat take_bit_eq_mod)
  have "nat pos + (3 + unat ?w) \<le> n" using False assms(1) unfolding uint_nat by linarith
  then show ?thesis using False assms l by (simp add: ms_write_tag_bytes_def Let_def written_ok_def put_at_def)
qed

lemma tag_opt_ok: "written_ok n st \<Longrightarrow> ok (tag_opt p f st) (written_ok n)"
proof (cases st; cases p)
  fix pos buf d assume "written_ok n st" "st = (pos, buf)" "p = Some d"
  then show ?thesis using ms_write_bytes_ok [of pos buf n f d] by (simp add: tag_opt_def written_ok_def [of n st] written_ok_def [of n "(pos, buf)"])
qed (simp_all add: tag_opt_def)

lemma encode_form_ok: "ok (encode_form out f) (written_ok (length out))"
proof -
  have "sink_ok NC_FORM_MAX_MSG \<lparr>sk_buf = [], sk_cap = NC_FORM_MAX_MSG, sk_err = False\<rparr>" by (simp add: sink_ok_def)
  from okE [OF encode_fields_ok [OF this]] obtain r where r: "encode_fields f \<lparr>sk_buf = [], sk_cap = NC_FORM_MAX_MSG, sk_err = False\<rparr> (fm_fields f) = Some r" by blast
  have e: "written_ok (length out) (NC_AUTH_ERR, out)" by (simp add: written_ok_def NC_AUTH_ERR_def)
  show ?thesis
  proof (cases "length out < 1 \<or> r = None \<or> sk_err (the r) \<or> NC_FORM_MAX_FIELDS < length (fm_fields f)")
    case True
    then show ?thesis using r e by (auto simp: encode_form_def split: option.split)
  next
    case False
    then obtain sk where sk: "r = Some sk" "\<not> sk_err sk" by auto
    define o1 where "o1 = MSG_IA_FORM # drop 1 out"
    have o1: "put_at out 0 [MSG_IA_FORM] = Some o1" "written_ok (length out) (1, o1)"
      using False by (auto simp: put_at_def o1_def written_ok_def Suc_le_eq)
    have "ok (do { st \<leftarrow> tag_opt (fm_title f) F_TITLE (1, o1); st \<leftarrow> tag_opt (fm_note f) F_NOTE st;
            (pos, o2) \<leftarrow> tag_opt (Some (sk_buf sk)) F_FIELDS st; Some (if pos < 0 then NC_AUTH_ERR else pos, o2) }) (written_ok (length out))"
      using o1(2) by (intro ok_then [of _ "written_ok (length out)"] tag_opt_ok) (auto simp: written_ok_def NC_AUTH_ERR_def)
    then show ?thesis using False r sk o1(1) by (simp add: encode_form_def)
  qed
qed

section \<open>Reading\<close>

lemma ms_read_u8_ok:
  "0 \<le> pos \<Longrightarrow> stop \<le> int (length buf) \<Longrightarrow> ok (ms_read_u8 buf pos stop) (\<lambda>r. \<forall>v q. r = Some (v, q) \<longrightarrow> q = pos + 1 \<and> q \<le> stop)"
  by (simp add: ms_read_u8_def)

lemma tag_fields_ok: "0 \<le> pos \<Longrightarrow> \<exists>r. tag_fields want msg pos = Some r"
proof (induction "nat (int (length msg) - pos)" arbitrary: pos rule: less_induct)
  case less
  let ?len = "int (length msg)"
  have IH: "\<exists>r. tag_fields want msg q = Some r" if "pos < q" "pos < ?len" for q using less.hyps [of q] less.prems that by simp
  show ?case
  proof (cases "pos < ?len")
    case True
    have p1: "0 \<le> pos + 1" using less.prems by simp
    note rd = ms_read_ok [OF p1 order_refl]
    define t where "t = msg ! nat pos"
    have tag: "get_at msg pos = Some t" using True less.prems by (simp add: t_def)
    obtain x where x: "ms_read_bytes msg (pos + 1) ?len 0xffff = Some x"
        "\<forall>off n q. x = Some ((off, n), q) \<longrightarrow> off = pos + 1 + 2 \<and> q = off + int (unat n) \<and> q \<le> ?len"
      using okE [OF rd(3) [of msg "0xffff"]] by blast
    obtain y where y: "ms_read_u8 msg (pos + 1) ?len = Some y" "\<forall>v q. y = Some (v, q) \<longrightarrow> q = pos + 1 + 1 \<and> q \<le> ?len"
      using okE [OF ms_read_u8_ok [OF p1 order_refl]] by blast
    obtain z where z: "ms_skip msg (pos + 1) ?len (t AND 7) = Some z" "z < 0 \<or> pos + 1 \<le> z \<and> z \<le> ?len"
      using okE [OF rd(4) [of msg]] by blast
    have f1: "\<exists>r. (case x of None \<Rightarrow> Some None | Some ((off, n), q) \<Rightarrow> do { d \<leftarrow> rd_bytes msg (nat off) (unat n);
        rest \<leftarrow> (if pos < q then tag_fields want msg q else None); Some (map_option (\<lambda>fs. (drop_bit 3 t, d) # fs) rest) }) = Some r"
    proof (cases x)
      case (Some w)
      then obtain n where w: "w = ((pos + 3, n), pos + 3 + int (unat n))" "pos + 3 + int (unat n) \<le> ?len" using x(2) by (cases w) fastforce
      have q: "pos < pos + 3 + int (unat n)" by linarith
      have "nat (pos + 3) + unat n \<le> length msg" using w(2) less.prems by linarith
      then show ?thesis using IH [OF q True] q Some w(1) by auto
    qed simp
    have f2: "\<exists>r. (case y of None \<Rightarrow> Some None | Some (v, q) \<Rightarrow> do {
        rest \<leftarrow> (if pos < q then tag_fields want msg q else None); Some (map_option (\<lambda>fs. (drop_bit 3 t, [v]) # fs) rest) }) = Some r"
      using y(2) IH [of "pos + 2"] True by (cases y) (auto simp: add.commute)
    have f3: "\<exists>r. (if z < 0 then Some None else if pos < z then tag_fields want msg z else None) = Some r"
      using z(2) IH [of z] True by auto
    show ?thesis using f1 f2 f3
      by (simp only: tag_fields.simps [of _ _ pos] Let_def if_P [OF True] tag bind.bind_lunit x(1) y(1) z(1) split: if_split) blast
  qed (simp add: tag_fields.simps)
qed

definition arena_ok :: "arena \<Rightarrow> bool" where
  "arena_ok ar \<longleftrightarrow> ar_used ar \<le> length (ar_buf ar)"

lemma arena_str_ok:
  "arena_ok ar \<Longrightarrow> ok (arena_str ar s) (\<lambda>(p, ar'). arena_ok ar' \<and> length (ar_buf ar') = length (ar_buf ar))"
  by (auto simp: arena_str_def arena_ok_def put_at_def)

lemma unpack_ok: "arena_ok ar \<Longrightarrow> ok (unpack ar src) (\<lambda>(n, ar'). arena_ok ar' \<and> length (ar_buf ar') = length (ar_buf ar))"
proof (induction "length src" arbitrary: ar src rule: less_induct)
  case less
  let ?s = "unat (src ! 0) + 256 * unat (src ! 1)"
  show ?case
  proof (cases "src = [] \<or> length src < 2 \<or> length src < 2 + ?s")
    case True
    then show ?thesis using less.prems by (subst unpack.simps) (auto simp: Let_def)
  next
    case False
    obtain p ar' where s: "arena_str ar (take ?s (drop 2 src)) = Some (p, ar')" "arena_ok ar'" "length (ar_buf ar') = length (ar_buf ar)"
      using arena_str_ok [OF less.prems, of "take ?s (drop 2 src)"] by (auto simp: ok_def)
    obtain n ar'' where u: "unpack ar' (drop (2 + ?s) src) = Some (n, ar'')" "arena_ok ar''" "length (ar_buf ar'') = length (ar_buf ar')"
      using less.hyps [OF _ s(2), of "drop (2 + ?s) src"] False by (auto simp: ok_def)
    have "unpack ar src = Some (if p = None then (NC_AUTH_ERR, ar') else (if n < 0 then n else n + 1, ar''))"
      using False u(1) by (simp only: unpack.simps [of ar src] Let_def s(1) bind.bind_lunit prod.case) simp
    then show ?thesis using s u by simp
  qed
qed

definition same_login :: "nc_auth \<Rightarrow> nc_auth \<Rightarrow> bool" where
  "same_login a a' \<longleftrightarrow> a_server a' = a_server a \<and> a_user a' = a_user a \<and> a_state a' = a_state a \<and> a_ia_method a' = a_ia_method a \<and> a_token a' = a_token a"

lemma decode_answers_ok:
  assumes "\<forall>b. a_buf a = Some b \<longrightarrow> a_strings a \<le> length b"
  shows "ok (decode_answers a msg) (\<lambda>(rc, a'). same_login a a' \<and> (\<forall>b. a_buf a' = Some b \<longrightarrow> a_strings a' \<le> length b))"
proof (cases "a_buf a")
  case (Some buf)
  obtain r where r: "tag_fields (\<lambda>field wire. field = F_ANSWERS \<and> wire = MS_WIRE_BYTES) msg 1 = Some r" using tag_fields_ok [of 1] by auto
  have u: "\<exists>n ar. unpack \<lparr>ar_buf = buf, ar_used = 0\<rparr> blob = Some (n, ar) \<and> arena_ok ar" for blob
    using unpack_ok [of "\<lparr>ar_buf = buf, ar_used = 0\<rparr>" blob] by (auto simp: arena_ok_def ok_def)
  show ?thesis
  proof (cases "\<exists>fs blob. r = Some fs \<and> last_field F_ANSWERS fs = Some blob")
    case True
    then obtain fs blob where fs: "r = Some fs" "last_field F_ANSWERS fs = Some blob" by blast
    from u [of blob] obtain n ar where "unpack \<lparr>ar_buf = buf, ar_used = 0\<rparr> blob = Some (n, ar)" "arena_ok ar" by blast
    then show ?thesis using Some r fs by (simp add: decode_answers_def Let_def same_login_def arena_ok_def)
  next
    case False
    then show ?thesis using Some r assms by (cases r) (auto simp: decode_answers_def Let_def same_login_def)
  qed
qed (use assms in \<open>simp add: decode_answers_def same_login_def\<close>)

section \<open>The conversation\<close>

text \<open>What a server conversation keeps: room and a NUL for the user name, a token that fits, the strings
  inside the buffer.\<close>

definition server_wf :: "nc_auth \<Rightarrow> bool" where
  "server_wf a \<longleftrightarrow> a_server a \<and> length (a_user a) = NC_AUTH_MAX_USER + 1 \<and> 0 \<in> set (a_user a) \<and> length (a_token a) \<le> NC_FORM_MAX_TOKEN \<and>
     (\<forall>b. a_buf a = Some b \<longrightarrow> a_strings a \<le> length b)"

lemma server_wf_simps [simp]:
  "server_wf (nc_auth_i_emit a m) = server_wf a" "server_wf (server_reply a t mk h) = server_wf a"
  "server_wf (a\<lparr>a_state := s\<rparr>) = server_wf a" "server_wf (a\<lparr>a_avail := v\<rparr>) = server_wf a" "server_wf (a\<lparr>a_tries := n\<rparr>) = server_wf a"
  "server_wf (a\<lparr>a_ia_method := v\<rparr>) = server_wf a" "server_wf (a\<lparr>a_fired := b\<rparr>) = server_wf a" "server_wf (a\<lparr>a_out := xs\<rparr>) = server_wf a"
  "server_wf (a\<lparr>a_greeted := b\<rparr>) = server_wf a"
  by (simp_all add: server_wf_def nc_auth_i_emit_def server_reply_def)

lemma server_wf_steps [simp]:
  "server_wf (nc_auth_i_server_deny a v) = server_wf a" "server_wf (nc_auth_i_server_offer e a) = server_wf a"
  "server_wf (nc_auth_i_ia_end e a) = server_wf a" "server_wf a \<Longrightarrow> server_wf (nc_auth_server_token a tok)" "server_wf a \<Longrightarrow> server_wf (wipe_strings a)"
  by (auto simp: nc_auth_i_server_deny_def nc_auth_i_server_offer_def nc_auth_i_ia_end_def Let_def)
     (auto simp: nc_auth_server_token_def wipe_strings_def server_wf_def split: option.split)

text \<open>The states a step may leave: only a pending conversation or a denied one, unless it authenticated.\<close>

lemma state_simps [simp]:
  "a_state (nc_auth_i_emit a m) = a_state a" "a_state (server_reply a t mk h) = a_state a"
  "a_state (nc_auth_i_ia_end e a) = a_state a" "a_state (nc_auth_server_token a tok) = a_state a" "a_state (wipe_strings a) = a_state a"
  "a_state a \<noteq> NC_AUTH_STATE_OK \<Longrightarrow> a_state (nc_auth_i_server_deny a v) \<noteq> NC_AUTH_STATE_OK"
  "a_state a \<noteq> NC_AUTH_STATE_OK \<Longrightarrow> a_state (nc_auth_i_server_offer e a) \<noteq> NC_AUTH_STATE_OK"
  by (auto simp: nc_auth_i_emit_def server_reply_def nc_auth_i_ia_end_def nc_auth_server_token_def wipe_strings_def
        nc_auth_i_server_deny_def nc_auth_i_server_offer_def Let_def split: option.split)

lemma ia_method_token [simp]: "a_ia_method (nc_auth_server_token a tok) = a_ia_method a" "a_ia_method (wipe_strings a) = a_ia_method a"
  by (simp_all add: nc_auth_server_token_def wipe_strings_def split: option.split)

lemma send_wait_ok: "server_wf a \<Longrightarrow> ok (send_wait a form token) (\<lambda>a'. server_wf a' \<and> a_state a' = a_state a)"
proof -
  assume wf: "server_wf a"
  let ?n = "3 + NC_FORM_MAX_LABEL + 3 + NC_FORM_MAX_TOKEN"
  define b0 where "b0 = MSG_IA_WAIT # replicate (?n - 1) 0"
  have b0: "put_at (replicate ?n 0) 0 [MSG_IA_WAIT] = Some b0" "length b0 = ?n" by (simp_all add: put_at_def b0_def drop_replicate)
  define nt where "nt = take NC_FORM_MAX_LABEL (case form of Some f \<Rightarrow> (case fm_note f of Some n \<Rightarrow> n | None \<Rightarrow> []) | None \<Rightarrow> [])"
  define tok where "tok = (case token of Some t \<Rightarrow> Some t | None \<Rightarrow> if a_token a \<noteq> [] then Some (a_token a) else None)"
  obtain pos b where b: "ms_write_tag_bytes b0 1 (int ?n) F_NOTE nt = Some (pos, b)" "length b = ?n"
    using ms_write_bytes_ok [of 1 b0 ?n F_NOTE nt] b0(2) by (auto simp: ok_def written_ok_def)
  obtain pos' b' where b': "(case tok of Some t \<Rightarrow> if 0 \<le> pos \<and> 0 < length t \<and> length t \<le> NC_FORM_MAX_TOKEN
       then ms_write_tag_bytes b pos (int (length b)) F_TOKEN t else Some (pos, b) | None \<Rightarrow> Some (pos, b)) = Some (pos', b')"
  proof (cases tok)
    case (Some t)
    obtain x where "0 \<le> pos \<longrightarrow> ms_write_tag_bytes b pos (int (length b)) F_TOKEN t = Some x"
      using ms_write_bytes_ok [of pos b "length b" F_TOKEN t] by (auto simp: ok_def)
    then show ?thesis using that [of "if 0 \<le> pos \<and> 0 < length t \<and> length t \<le> NC_FORM_MAX_TOKEN then fst x else pos"
        "if 0 \<le> pos \<and> 0 < length t \<and> length t \<le> NC_FORM_MAX_TOKEN then snd x else b"] Some by simp
  qed (use that in simp)
  show ?thesis using wf b0 b(1) b'
    by (simp add: send_wait_def Let_def nt_def [symmetric] tok_def [symmetric])
qed

text \<open>A verdict authenticates only when it is DONE and the method is not registration.\<close>

lemma verdict_ok:
  assumes "server_wf a" "a_state a \<noteq> NC_AUTH_STATE_OK"
  shows "ok (verdict e a what form token) (\<lambda>a'. server_wf a' \<and>
    (a_state a' = NC_AUTH_STATE_OK \<longrightarrow> what = NC_AUTH_IA_DONE \<and> a_ia_method a \<noteq> NC_AUTH_M_REGISTER))"
proof -
  consider (more) f where "what = NC_AUTH_IA_MORE" "form = Some f" | (none) "what = NC_AUTH_IA_MORE" "form = None"
    | (wait) "what = NC_AUTH_IA_WAIT" "what \<noteq> NC_AUTH_IA_MORE" | (other) "what \<noteq> NC_AUTH_IA_WAIT" "what \<noteq> NC_AUTH_IA_MORE" by (cases form) auto
  then show ?thesis
  proof cases
    case more
    obtain len msg where "encode_form (replicate NC_FORM_MAX_MSG 0) f = Some (len, msg)"
      using encode_form_ok [of "replicate NC_FORM_MAX_MSG 0" f] by (auto simp: ok_def)
    then show ?thesis using assms more by (simp add: verdict_def Let_def)
  next
    case wait
    then show ?thesis using assms by (auto simp: verdict_def Let_def intro: ok_mono [OF send_wait_ok])
  qed (use assms in \<open>simp_all add: verdict_def Let_def\<close>)
qed

lemma ia_answer_ok:
  assumes "server_wf a" "a_state a \<noteq> NC_AUTH_STATE_OK"
  shows "ok (ia_answer e a r) (\<lambda>(rc, a'). server_wf a' \<and>
    (a_state a' = NC_AUTH_STATE_OK \<longrightarrow> fst r = NC_AUTH_IA_DONE \<and> a_ia_method a \<noteq> NC_AUTH_M_REGISTER))"
proof -
  obtain rc out tok where r: "r = (rc, out, tok)" by (cases r)
  have "server_wf (nc_auth_server_token a tok)" "a_state (nc_auth_server_token a tok) \<noteq> NC_AUTH_STATE_OK" using assms by simp_all
  from verdict_ok [OF this] show ?thesis using assms r by (simp add: ia_answer_def)
qed

text \<open>What it takes to be let in: a signature by an authorised key over this session and user, a password
  the application accepts, or an interactive method other than registration that the application
  declared done.\<close>

definition key_credential :: "auth_env \<Rightarrow> nc_auth \<Rightarrow> bytes \<Rightarrow> bool" where
  "key_credential e a msg \<longleftrightarrow> a_greeted a \<and> a_avail a AND NC_AUTH_M_PUBKEY \<noteq> 0 \<and>
     (\<exists>pk sig f. msg = MSG_PUBKEY # pk @ sig \<and> length pk = 32 \<and> length sig = 64 \<and>
        crypto_eddsa_check e sig pk (nc_auth_signed_digest e (a_sid a) (nc_auth_user a) pk) \<and> cb_check_key e = Some f \<and> f (nc_auth_user a) pk)"

definition password_credential :: "auth_env \<Rightarrow> nc_auth \<Rightarrow> bytes \<Rightarrow> bool" where
  "password_credential e a msg \<longleftrightarrow> a_greeted a \<and> a_avail a AND NC_AUTH_M_PASSWORD \<noteq> 0 \<and>
     (\<exists>p f. msg = MSG_PASSWORD # of_nat (length p) # p \<and> length p < NC_AUTH_MAX_PASS \<and> cb_check_password e = Some f \<and> f (nc_auth_user a) (cstr p))"

definition interactive_done :: "auth_env \<Rightarrow> nc_auth \<Rightarrow> bytes \<Rightarrow> bool" where
  "interactive_done e a msg \<longleftrightarrow>
     hd msg = MSG_IA_SUBMIT \<and> a_ia_method a \<notin> {0, NC_AUTH_M_REGISTER} \<and> (\<exists>f b. cb_submit e = Some f \<and> fst (f b) = NC_AUTH_IA_DONE) \<or>
     hd msg = MSG_IA_BEGIN \<and> a_greeted a \<and> a_avail a AND NC_AUTH_M_INTERACTIVE \<noteq> 0 \<and>
       ((\<exists>f. cb_begin e = Some f \<and> fst (f NC_AUTH_M_INTERACTIVE) = NC_AUTH_IA_DONE) \<or>
        (\<exists>f t. cb_resume e = Some f \<and> fst (f t) = NC_AUTH_IA_DONE))"

lemma msg_types [simp]:
  "MSG_IA_BEGIN \<noteq> MSG_IA_SUBMIT" "MSG_IA_BEGIN \<noteq> MSG_IA_CANCEL" "MSG_IA_SUBMIT \<noteq> MSG_IA_CANCEL" "MSG_IA_SUBMIT \<noteq> MSG_IA_BEGIN"
  "MSG_HELLO \<noteq> MSG_PUBKEY" "MSG_HELLO \<noteq> MSG_PASSWORD" "MSG_PUBKEY \<noteq> MSG_HELLO" "MSG_PUBKEY \<noteq> MSG_PASSWORD" "MSG_PASSWORD \<noteq> MSG_HELLO" "MSG_PASSWORD \<noteq> MSG_PUBKEY"
  by (simp_all add: MSG_IA_BEGIN_def MSG_IA_SUBMIT_def MSG_IA_CANCEL_def MSG_HELLO_def MSG_PUBKEY_def MSG_PASSWORD_def)

abbreviation ia_step :: "auth_env \<Rightarrow> nc_auth \<Rightarrow> bytes \<Rightarrow> int \<times> nc_auth \<Rightarrow> bool" where
  "ia_step e a msg \<equiv> \<lambda>(rc, a'). server_wf a' \<and> (a_state a' = NC_AUTH_STATE_OK \<longrightarrow> interactive_done e a msg)"

lemma ia_begin_ok:
  assumes wf: "server_wf a" and st: "a_state a \<noteq> NC_AUTH_STATE_OK" and t: "rd8 msg 0 = Some MSG_IA_BEGIN"
  shows "ok (nc_auth_i_ia_server e a msg) (ia_step e a msg)"
proof -
  have h: "hd msg = MSG_IA_BEGIN" using t by (cases msg) (auto simp: rd8_def)
  obtain r where r: "tag_fields (\<lambda>field wire. field = F_METHOD \<and> wire = MS_WIRE_8 \<or> field = F_TOKEN \<and> wire = MS_WIRE_BYTES) msg 1 = Some r"
    using tag_fields_ok [of 1] by auto
  show ?thesis
  proof (cases "\<not> a_greeted a \<or> a_ia_method a \<noteq> 0 \<or> r = None \<or> cb_begin e = None")
    case True
    then show ?thesis using wf st t r
      by (auto simp: nc_auth_i_ia_server_def Let_def split: option.split)
  next
    case False
    then obtain fs begin_cb where fs: "r = Some fs" "cb_begin e = Some begin_cb" by auto
    define meth :: u32 where "meth = (case last_field F_METHOD fs of Some d \<Rightarrow> ucast (hd d) | None \<Rightarrow> 0)"
    show ?thesis
    proof (cases "meth \<noteq> NC_AUTH_M_REGISTER \<and> meth \<noteq> NC_AUTH_M_INTERACTIVE \<or> a_avail a AND meth = 0")
      case True
      then show ?thesis using False fs wf st t r by (auto simp: nc_auth_i_ia_server_def Let_def meth_def [symmetric])
    next
      case m: False
      define a1 where "a1 = a\<lparr>a_ia_method := meth, a_fired := False\<rparr>"
      have a1: "server_wf a1" "a_state a1 \<noteq> NC_AUTH_STATE_OK" "a_ia_method a1 = meth" using wf st by (simp_all add: a1_def)
      have granted: "interactive_done e a msg" if "fst (begin_cb meth) = NC_AUTH_IA_DONE \<or> (\<exists>f t. cb_resume e = Some f \<and> fst (f t) = NC_AUTH_IA_DONE)"
          "meth \<noteq> NC_AUTH_M_REGISTER"
        using that m h False fs by (auto simp: interactive_done_def)
      have begun: "ok (ia_answer e a1 (begin_cb meth)) (ia_step e a msg)"
        by (rule ok_mono [OF ia_answer_ok [OF a1(1,2)]]) (use granted a1(3) in auto)
      have resumed: "ok (ia_answer e a1 (f tok)) (ia_step e a msg)" if "cb_resume e = Some f" for f tok
        by (rule ok_mono [OF ia_answer_ok [OF a1(1,2)]]) (use that granted a1(3) in auto)
      have "ok (case last_field F_TOKEN fs of
                Some tok \<Rightarrow> if 0 < length tok then (case cb_resume e of
                     None \<Rightarrow> Some (NC_AUTH_OK, nc_auth_i_server_deny (nc_auth_i_ia_end e a1) meth)
                   | Some resume_cb \<Rightarrow> ia_answer e a1 (resume_cb tok)) else ia_answer e a1 (begin_cb meth)
              | None \<Rightarrow> ia_answer e a1 (begin_cb meth)) (ia_step e a msg)"
        using begun resumed a1 by (simp split: option.split)
      then show ?thesis using False m
        unfolding nc_auth_i_ia_server_def t bind.bind_lunit r fs option.case Let_def meth_def [symmetric] a1_def [symmetric] by simp blast
    qed
  qed
qed

lemma ia_submit_ok:
  assumes wf: "server_wf a" and st: "a_state a \<noteq> NC_AUTH_STATE_OK" and t: "rd8 msg 0 = Some MSG_IA_SUBMIT"
  shows "ok (nc_auth_i_ia_server e a msg) (ia_step e a msg)"
proof (cases "cb_submit e = None \<or> a_ia_method a = 0")
  case True
  then show ?thesis using wf st t by (auto simp: nc_auth_i_ia_server_def split: option.split)
next
  case False
  then obtain f where f: "cb_submit e = Some f" by auto
  have h: "hd msg = MSG_IA_SUBMIT" using t by (cases msg) (auto simp: rd8_def)
  have "\<forall>b. a_buf a = Some b \<longrightarrow> a_strings a \<le> length b" using wf by (simp add: server_wf_def)
  from decode_answers_ok [OF this, of msg] obtain rc a1 where
    d: "decode_answers a msg = Some (rc, a1)" "same_login a a1" "\<forall>b. a_buf a1 = Some b \<longrightarrow> a_strings a1 \<le> length b" by (auto simp: ok_def)
  then have a1: "server_wf a1" "a_state a1 \<noteq> NC_AUTH_STATE_OK" "a_ia_method a1 = a_ia_method a" using wf st by (simp_all add: same_login_def server_wf_def)
  have "ok (ia_answer e (wipe_strings a1) (f a1)) (ia_step e a msg)"
    by (rule ok_mono [OF ia_answer_ok]) (use a1 f h False in \<open>auto simp: interactive_done_def\<close>)
  then show ?thesis using False f t d(1) a1 by (simp add: nc_auth_i_ia_server_def)
qed

lemma ia_server_ok:
  assumes "server_wf a" "a_state a \<noteq> NC_AUTH_STATE_OK" "rd8 msg 0 = Some t"
  shows "ok (nc_auth_i_ia_server e a msg) (ia_step e a msg)"
proof -
  consider "t = MSG_IA_BEGIN" | "t = MSG_IA_SUBMIT" | "t \<noteq> MSG_IA_BEGIN" "t \<noteq> MSG_IA_SUBMIT" by blast
  then show ?thesis
  proof cases
    case 3
    then show ?thesis using assms by (simp add: nc_auth_i_ia_server_def)
  qed (use assms ia_begin_ok ia_submit_ok in blast)+
qed

lemma cstr_term: "cstr (p @ [0]) = cstr p"
  by (induction p) (auto simp: cstr_def)

lemma server_feed_ok:
  assumes wf: "server_wf a" and st: "a_state a \<noteq> NC_AUTH_STATE_OK" and ne: "msg \<noteq> []"
  shows "ok (server_feed e a msg) (\<lambda>(rc, a'). server_wf a' \<and>
    (a_state a' = NC_AUTH_STATE_OK \<longrightarrow> key_credential e a msg \<or> password_credential e a msg \<or> interactive_done e a msg))"
proof -
  obtain t rest where m: "msg = t # rest" using ne by (cases msg) auto
  have t: "rd8 msg 0 = Some t" by (simp add: m)
  consider (hello) "t = MSG_HELLO" | (key) "t = MSG_PUBKEY" | (pass) "t = MSG_PASSWORD" | (ia) "t \<noteq> MSG_HELLO" "t \<noteq> MSG_PUBKEY" "t \<noteq> MSG_PASSWORD" by blast
  then show ?thesis
  proof cases
    case hello
    show ?thesis
    proof (cases "a_greeted a \<or> length msg < 2 \<or> NC_AUTH_MAX_USER < unat (msg ! 1) \<or> length msg \<noteq> 2 + unat (msg ! 1)")
      case True
      then show ?thesis using wf st t hello by (auto simp: server_feed_def Let_def)
    next
      case False
      define name where "name = drop 2 msg"
      have n: "length name \<le> NC_AUTH_MAX_USER" "rd_bytes msg 2 (unat (msg ! 1)) = Some name" using False by (simp_all add: name_def)
      define user where "user = name @ [0] @ drop (length name + 1) (a_user a)"
      have "put_at (a_user a) 0 (name @ [0]) = Some user" "server_wf (a\<lparr>a_user := user, a_greeted := True\<rparr>)"
        using n(1) wf by (simp_all add: put_at_def user_def server_wf_def)
      then show ?thesis using False t hello st n(2) by (simp add: server_feed_def Let_def del: rd_bytes_Some server_wf_simps)
    qed
  next
    case key
    show ?thesis
    proof (cases "\<not> a_greeted a \<or> length msg \<noteq> 97 \<or> a_avail a AND NC_AUTH_M_PUBKEY = 0")
      case True
      then show ?thesis using wf st t key by (auto simp: server_feed_def Let_def)
    next
      case False
      define pk where "pk = take 32 rest"
      define sig where "sig = take 64 (drop 32 rest)"
      have s: "rest = pk @ sig" "length pk = 32" "length sig = 64" using False m by (simp_all add: pk_def sig_def)
      have r: "rd_bytes msg 1 32 = Some pk" "rd_bytes msg 33 64 = Some sig" using False m by (simp_all add: rd_bytes_def pk_def sig_def)
      show ?thesis using False t key st wf s m unfolding server_feed_def
        by (simp add: r [unfolded m] key_credential_def) (auto split: option.splits)
    qed
  next
    case pass
    show ?thesis
    proof (cases "\<not> a_greeted a \<or> length msg < 2 \<or> NC_AUTH_MAX_PASS - 1 < unat (msg ! 1) \<or> length msg \<noteq> 2 + unat (msg ! 1) \<or> a_avail a AND NC_AUTH_M_PASSWORD = 0")
      case True
      then show ?thesis using wf st t pass by (auto simp: server_feed_def Let_def)
    next
      case False
      then obtain p where p: "msg = MSG_PASSWORD # of_nat (length p) # p" "length p < NC_AUTH_MAX_PASS"
        using m pass by (cases rest) (auto simp: NC_AUTH_MAX_PASS_def)
      have u: "unat (of_nat (length p) :: u8) = length p" using False p by simp
      have "emit NC_AUTH_MAX_PASS [] (p @ [0]) = Some (p @ [0])" using p(2) by (simp add: emit_def)
      then show ?thesis using False st wf u p unfolding server_feed_def
        by (simp add: password_credential_def cstr_term Let_def) (auto simp: cstr_term split: option.splits)
    qed
  next
    case ia
    then show ?thesis using t ok_mono [OF ia_server_ok [OF wf st t, of e]] unfolding server_feed_def by fastforce
  qed
qed

lemma feed_ok:
  assumes "server_wf a" "a_state a = NC_AUTH_STATE_PENDING"
  shows "ok (nc_auth_feed e a msg) (\<lambda>(rc, a'). server_wf a' \<and>
    (a_state a' = NC_AUTH_STATE_OK \<longrightarrow> key_credential e a msg \<or> password_credential e a msg \<or> interactive_done e a msg))"
proof (cases "length msg < 1")
  case False
  have sv: "a_server a" using assms by (simp add: server_wf_def)
  have "ok (server_feed e a msg) (\<lambda>(rc, a'). server_wf a' \<and>
    (a_state a' = NC_AUTH_STATE_OK \<longrightarrow> key_credential e a msg \<or> password_credential e a msg \<or> interactive_done e a msg))"
    using False assms by (intro server_feed_ok) auto
  then show ?thesis using False assms sv by (auto simp: nc_auth_feed_def ok_def)
qed (use assms in \<open>auto simp: nc_auth_feed_def\<close>)

section \<open>Property\<close>



end
