(* ===== verification/Auth_Login.thy ===== *)
theory Auth_Login
  imports Auth_Safe
begin

text \<open>
  A whole login: client and server, message by message, over a transport that delivers.  The client offers its
  key first and falls back to the password.
\<close>

section \<open>The conversation\<close>

definition last_msg :: "nc_auth \<Rightarrow> bytes" where
  "last_msg a = (case last (a_out a) of Sent m \<Rightarrow> m | Cancelled \<Rightarrow> [])"

text \<open>The client sends its latest message and gets the server's answer.\<close>

definition exchange :: "auth_env \<Rightarrow> nc_auth \<times> nc_auth \<Rightarrow> (nc_auth \<times> nc_auth) option" where
  "exchange e cs = (case cs of (c, s) \<Rightarrow> do {
     (rs, s') \<leftarrow> nc_auth_feed e s (last_msg c);
     (rc, c') \<leftarrow> nc_auth_feed e c (last_msg s');
     Some (c', s') })"

text \<open>Each side brings the session id it holds, \<open>csid\<close> and \<open>ssid\<close>.\<close>

definition login :: "auth_env \<Rightarrow> bytes \<Rightarrow> bytes \<Rightarrow> bytes \<Rightarrow> bytes \<Rightarrow> bytes \<Rightarrow> bytes \<Rightarrow> (nc_auth \<times> nc_auth) option" where
  "login e csid ssid user sk pk pw = do {
     c \<leftarrow> nc_auth_start (nc_auth_client_init csid (Some user) True);
     (c, s) \<leftarrow> exchange e (c, nc_auth_server_init ssid True);
     c \<leftarrow> nc_auth_supply_key e c (Some sk) (Some pk);
     (c, s) \<leftarrow> exchange e (c, s);
     if a_need c = NC_AUTH_NEED_PASSWORD then do { c \<leftarrow> nc_auth_supply_password c (Some pw); exchange e (c, s) }
     else Some (c, s) }"

lemma exchangeI:
  "nc_auth_feed e s (last_msg c) = Some (rs, s') \<Longrightarrow> nc_auth_feed e c (last_msg s') = Some (rc, c') \<Longrightarrow>
   exchange e (c, s) = Some (c', s')"
  by (simp add: exchange_def)

lemmas msg_defs = MSG_HELLO_def MSG_METHODS_def MSG_PUBKEY_def MSG_PASSWORD_def MSG_OK_def MSG_FAIL_def
  MSG_IA_FORM_def MSG_IA_SUBMIT_def

lemma user_buffer:
  assumes "length user \<le> 64" "0 \<notin> set user" "b = user @ 0 # z"
  shows "cstr b = user" "strlen b = Some (length user)" "take (length user) b = user"
proof -
  show c: "cstr b = user" using assms(2,3) by (induction user arbitrary: b) (auto simp: cstr_def)
  show "strlen b = Some (length user)" using assms(3) c by (simp add: strlen_def)
  show "take (length user) b = user" using assms(3) by simp
qed

text \<open>What the server accepts: a signature over this session that checks and a key it knows, or a password.\<close>

definition key_good :: "auth_env \<Rightarrow> bytes \<Rightarrow> bytes \<Rightarrow> bytes \<Rightarrow> bytes \<Rightarrow> bool" where
  "key_good e sid user pk sig =
     (crypto_eddsa_check e sig pk (nc_auth_signed_digest e sid user pk) \<and>
      (case cb_check_key e of Some f \<Rightarrow> f user pk | None \<Rightarrow> False))"

definition password_good :: "auth_env \<Rightarrow> bytes \<Rightarrow> bytes \<Rightarrow> bool" where
  "password_good e user pw = (case cb_check_password e of Some f \<Rightarrow> f user pw | None \<Rightarrow> False)"

section \<open>Where each side stands\<close>

definition client_at :: "bytes \<Rightarrow> bytes \<Rightarrow> auth_need \<Rightarrow> u32 \<Rightarrow> nc_auth \<Rightarrow> bool" where
  "client_at sid user need avail c =
     (\<not> a_server c \<and> a_send c \<and> a_state c = NC_AUTH_STATE_PENDING \<and> a_sid c = sid \<and> nc_auth_user c = user \<and>
      a_need c = need \<and> a_avail c = avail \<and> a_ia_method c = 0)"

definition server_at :: "bytes \<Rightarrow> bytes \<Rightarrow> u32 \<Rightarrow> nat \<Rightarrow> nc_auth \<Rightarrow> bool" where
  "server_at sid user avail tries s =
     (a_server s \<and> a_send s \<and> a_state s = NC_AUTH_STATE_PENDING \<and> a_sid s = sid \<and> nc_auth_user s = user \<and>
      a_greeted s \<and> a_avail s = avail \<and> a_tries s = tries)"

lemmas at_defs = client_at_def server_at_def nc_auth_user_def last_msg_def nc_auth_i_emit_def server_reply_def
lemmas feed_defs = nc_auth_feed_def client_feed_def server_feed_def Let_def MSG_IS_BULK_def NC_AUTH_MAX_MSG_def NC_AUTH_OK_def
lemmas method_defs = NC_AUTH_M_PUBKEY_def NC_AUTH_M_PASSWORD_def NC_AUTH_M_REGISTER_def NC_AUTH_M_INTERACTIVE_def

lemma client_start:
  assumes "length user \<le> 64" "0 \<notin> set user"
  shows "\<exists>c. nc_auth_start (nc_auth_client_init sid (Some user) True) = Some c \<and> client_at sid user NC_AUTH_NEED_NOTHING 0 c \<and>
     last_msg c = MSG_HELLO # of_nat (length user) # user"
proof -
  define c0 where "c0 = nc_auth_client_init sid (Some user) True"
  have b: "a_user c0 = user @ 0 # replicate (64 - length user) 0"
    using assms(1) replicate_Suc [of "64 - length user" "0 :: u8"]
    by (simp add: c0_def nc_auth_client_init_def NC_AUTH_MAX_USER_def Suc_diff_le [symmetric] min_def del: replicate_Suc)
  have f: "client_at sid user NC_AUTH_NEED_NOTHING 0 c0"
    using user_buffer(1) [OF assms b] by (simp add: client_at_def nc_auth_user_def)
      (simp add: c0_def nc_auth_client_init_def auth_zero_def)
  have "nc_auth_start c0 = Some (c0\<lparr>a_out := a_out c0 @ [Sent (MSG_HELLO # of_nat (length user) # user)]\<rparr>)"
    using user_buffer [OF assms b] assms(1) f
    by (simp add: nc_auth_start_def emit_def NC_AUTH_MAX_USER_def nc_auth_i_emit_def client_at_def)
  then show ?thesis using f by (simp add: at_defs c0_def)
qed

lemma server_hello:
  assumes "length user \<le> 64" "0 \<notin> set user" "cb_methods e = Some f" "f user = m" "m \<noteq> 0"
  shows "\<exists>s. nc_auth_feed e (nc_auth_server_init sid True) (MSG_HELLO # of_nat (length user) # user) = Some (0, s) \<and>
     server_at sid user m 0 s \<and> last_msg s = [MSG_METHODS, ucast m]"
proof -
  define s0 where "s0 = nc_auth_server_init sid True"
  define b where "b = user @ 0 # drop (length user + 1) (a_user s0)"
  have b: "put_at (a_user s0) 0 (user @ [0]) = Some b" "cstr b = user"
    using assms(1) user_buffer(1) [OF assms(1,2) b_def]
    by (simp_all add: put_at_def b_def s0_def nc_auth_server_init_def auth_zero_def)
  have u: "unat (of_nat (length user) :: u8) = length user" using assms(1) by (simp add: unat_of_nat)
  have s0: "a_server s0" "a_send s0" "a_state s0 = NC_AUTH_STATE_PENDING" "a_sid s0 = sid" "\<not> a_greeted s0" "a_tries s0 = 0"
    by (simp_all add: s0_def nc_auth_server_init_def auth_zero_def)
  have "nc_auth_feed e s0 (MSG_HELLO # of_nat (length user) # user) =
     Some (0, s0\<lparr>a_user := b, a_greeted := True, a_avail := m, a_out := a_out s0 @ [Sent [MSG_METHODS, ucast m]]\<rparr>)"
    using assms b u s0 by (simp add: feed_defs msg_defs NC_AUTH_MAX_USER_def nc_auth_i_server_offer_def nc_auth_user_def
        server_reply_def nc_auth_i_emit_def)
  then show ?thesis using b(2) s0 by (simp add: at_defs s0_def)
qed

section \<open>The steps\<close>

lemma client_methods:
  assumes "client_at sid user need avail c" "m = 1 \<or> m = 3"
  shows "\<exists>c'. nc_auth_feed e c [MSG_METHODS, ucast m] = Some (0, c') \<and> client_at sid user NC_AUTH_NEED_KEY (m AND 2) c'"
  using assms by (auto simp: feed_defs msg_defs at_defs nc_auth_i_client_try_next.simps method_defs rd8_def)

lemma supply_key:
  assumes "client_at sid user NC_AUTH_NEED_KEY avail c" "length pk = 32"
    "sig = crypto_eddsa_sign e sk (nc_auth_signed_digest e sid user pk)" "length sig = 64"
  shows "\<exists>c'. nc_auth_supply_key e c (Some sk) (Some pk) = Some c' \<and> client_at sid user NC_AUTH_NEED_NOTHING avail c' \<and>
     last_msg c' = MSG_PUBKEY # pk @ sig"
  using assms by (auto simp: at_defs nc_auth_supply_key_def Let_def rd_bytes_def emit_def)

lemma server_pubkey:
  assumes "server_at sid user avail 0 s" "avail = 1 \<or> avail = 3" "length pk = 32" "length sig = 64"
  shows "\<exists>s'. nc_auth_feed e s (MSG_PUBKEY # pk @ sig) = Some (0, s') \<and> nc_auth_user s' = user \<and>
     (if key_good e sid user pk sig then a_state s' = NC_AUTH_STATE_OK \<and> last_msg s' = [MSG_OK]
      else if avail = 3 then server_at sid user 2 1 s' \<and> last_msg s' = [MSG_FAIL, 2]
      else a_state s' = NC_AUTH_STATE_DENIED \<and> last_msg s' = [MSG_FAIL, 0])"
proof -
  have r: "rd_bytes (MSG_PUBKEY # pk @ sig) 1 32 = Some pk" "rd_bytes (MSG_PUBKEY # pk @ sig) 33 64 = Some sig"
    using assms(3,4) by (simp_all add: rd_bytes_def drop_Cons' numeral_eq_Suc)
  show ?thesis using assms r
    by (auto simp: key_good_def feed_defs msg_defs at_defs method_defs rd8_def nc_auth_i_server_deny_def NC_AUTH_MAX_TRIES_def
        split: option.splits)
qed

lemma client_ok:
  assumes "client_at sid user need avail c"
  shows "\<exists>c'. nc_auth_feed e c [MSG_OK] = Some (0, c') \<and> a_state c' = NC_AUTH_STATE_OK \<and> a_need c' = need"
  using assms by (auto simp: feed_defs msg_defs at_defs rd8_def)

lemma client_fail:
  assumes "client_at sid user NC_AUTH_NEED_NOTHING avail c" "avail = 0 \<or> avail = 2" "r = 0 \<or> r = 2"
  shows "\<exists>c'. nc_auth_feed e c [MSG_FAIL, r] = Some (0, c') \<and>
     (if avail = 2 \<and> r = 2 then client_at sid user NC_AUTH_NEED_PASSWORD 0 c'
      else a_state c' = NC_AUTH_STATE_DENIED \<and> a_need c' = NC_AUTH_NEED_NOTHING)"
  using assms by (auto simp: feed_defs msg_defs at_defs rd8_def nc_auth_i_client_try_next.simps method_defs)

lemma supply_password:
  assumes "client_at sid user NC_AUTH_NEED_PASSWORD avail c" "length pw \<le> 127"
  shows "\<exists>c'. nc_auth_supply_password c (Some pw) = Some c' \<and> client_at sid user NC_AUTH_NEED_NOTHING avail c' \<and>
     last_msg c' = MSG_PASSWORD # of_nat (length pw) # pw"
  using assms by (auto simp: at_defs nc_auth_supply_password_def Let_def emit_def NC_AUTH_MAX_PASS_def)

lemma server_password:
  assumes "server_at sid user 2 1 s" "length pw \<le> 127" "0 \<notin> set pw"
  shows "\<exists>s'. nc_auth_feed e s (MSG_PASSWORD # of_nat (length pw) # pw) = Some (0, s') \<and> nc_auth_user s' = user \<and>
     (if password_good e user pw then a_state s' = NC_AUTH_STATE_OK \<and> last_msg s' = [MSG_OK]
      else a_state s' = NC_AUTH_STATE_DENIED \<and> last_msg s' = [MSG_FAIL, 0])"
proof -
  have u: "unat (of_nat (length pw) :: u8) = length pw" using assms(2) by (simp add: unat_of_nat)
  have c: "cstr (pw @ [0]) = pw" using assms(3) by (induction pw) (auto simp: cstr_def)
  show ?thesis using assms u c
    by (auto simp: password_good_def feed_defs msg_defs at_defs method_defs rd8_def rd_bytes_def emit_def nc_auth_i_server_deny_def
        NC_AUTH_MAX_TRIES_def NC_AUTH_MAX_PASS_def split: option.splits)
qed

section \<open>The login\<close>

lemma login_key_step:
  assumes "length user \<le> 64" "0 \<notin> set user" "length pk = 32" "cb_methods e = Some f" "f user = m" "m = 1 \<or> m = 3"
    and "sig = crypto_eddsa_sign e sk (nc_auth_signed_digest e csid user pk)" "length sig = 64"
  obtains c1 s1 c2 c3 s3 where
    "nc_auth_start (nc_auth_client_init csid (Some user) True) = Some c1"
    "exchange e (c1, nc_auth_server_init ssid True) = Some (c2, s1)"
    "nc_auth_supply_key e c2 (Some sk) (Some pk) = Some c3"
    "client_at csid user NC_AUTH_NEED_NOTHING (m AND 2) c3" "server_at ssid user m 0 s1"
    "last_msg c3 = MSG_PUBKEY # pk @ sig"
proof -
  obtain c1 where c1: "nc_auth_start (nc_auth_client_init csid (Some user) True) = Some c1"
    "client_at csid user NC_AUTH_NEED_NOTHING 0 c1" "last_msg c1 = MSG_HELLO # of_nat (length user) # user"
    using client_start [OF assms(1,2)] by blast
  obtain s1 where s1: "nc_auth_feed e (nc_auth_server_init ssid True) (last_msg c1) = Some (0, s1)"
    "server_at ssid user m 0 s1" "last_msg s1 = [MSG_METHODS, ucast m]"
    using server_hello [OF assms(1,2,4,5), of ssid] assms(6) c1(3) by auto
  obtain c2 where c2: "nc_auth_feed e c1 (last_msg s1) = Some (0, c2)" "client_at csid user NC_AUTH_NEED_KEY (m AND 2) c2"
    using client_methods [OF c1(2) assms(6)] s1(3) by auto
  obtain c3 where "nc_auth_supply_key e c2 (Some sk) (Some pk) = Some c3" "client_at csid user NC_AUTH_NEED_NOTHING (m AND 2) c3"
    "last_msg c3 = MSG_PUBKEY # pk @ sig"
    using supply_key [OF c2(2) assms(3,7,8)] by blast
  then show thesis using that c1(1) s1(1,2) c2(1) by (simp add: exchange_def)
qed

lemma password_step:
  assumes "client_at csid user NC_AUTH_NEED_PASSWORD 0 c" "server_at ssid user 2 1 s" "length pw \<le> 127" "0 \<notin> set pw"
  shows "\<exists>c' c'' s'. nc_auth_supply_password c (Some pw) = Some c' \<and> exchange e (c', s) = Some (c'', s') \<and> nc_auth_user s' = user \<and>
     (if password_good e user pw then a_state c'' = NC_AUTH_STATE_OK \<and> a_state s' = NC_AUTH_STATE_OK
      else a_state c'' = NC_AUTH_STATE_DENIED \<and> a_state s' = NC_AUTH_STATE_DENIED)"
proof -
  obtain c1 where c1: "nc_auth_supply_password c (Some pw) = Some c1" "client_at csid user NC_AUTH_NEED_NOTHING 0 c1"
    "last_msg c1 = MSG_PASSWORD # of_nat (length pw) # pw"
    using supply_password [OF assms(1,3)] by blast
  obtain s1 where s1: "nc_auth_feed e s (last_msg c1) = Some (0, s1)" "nc_auth_user s1 = user"
     "if password_good e user pw then a_state s1 = NC_AUTH_STATE_OK \<and> last_msg s1 = [MSG_OK]
      else a_state s1 = NC_AUTH_STATE_DENIED \<and> last_msg s1 = [MSG_FAIL, 0]"
    using server_password [OF assms(2-4)] c1(3) by auto
  show ?thesis using c1(1) s1 client_ok [OF c1(2), of e] client_fail [OF c1(2), of 0 e]
    by (cases "password_good e user pw") (auto simp: exchange_def)
qed

lemma login_key_accepted:
  assumes "length user \<le> 64" "0 \<notin> set user" "length pk = 32" "cb_methods e = Some f" "f user = m" "m = 1 \<or> m = 3"
    and "sig = crypto_eddsa_sign e sk (nc_auth_signed_digest e csid user pk)" "length sig = 64" "key_good e ssid user pk sig"
  shows "\<exists>c s. login e csid ssid user sk pk pw = Some (c, s) \<and> nc_auth_user s = user \<and>
     a_state c = NC_AUTH_STATE_OK \<and> a_state s = NC_AUTH_STATE_OK"
proof -
  obtain c1 s1 c2 c3 where st:
    "nc_auth_start (nc_auth_client_init csid (Some user) True) = Some c1"
    "exchange e (c1, nc_auth_server_init ssid True) = Some (c2, s1)"
    "nc_auth_supply_key e c2 (Some sk) (Some pk) = Some c3"
    and c3: "client_at csid user NC_AUTH_NEED_NOTHING (m AND 2) c3" "last_msg c3 = MSG_PUBKEY # pk @ sig"
    and s1: "server_at ssid user m 0 s1"
    using login_key_step [OF assms(1-8)] by metis
  obtain s2 where s2: "nc_auth_feed e s1 (last_msg c3) = Some (0, s2)" "nc_auth_user s2 = user" "a_state s2 = NC_AUTH_STATE_OK" "last_msg s2 = [MSG_OK]"
    using server_pubkey [OF s1 assms(6,3,8), of e] c3(2) assms(9) by auto
  show ?thesis using st s2(2-4) client_ok [OF c3(1), of e] exchangeI [OF s2(1)] by (auto simp: login_def)
qed

text \<open>
  C12: A login over a transport that delivers comes to the same end on both sides.  The client has a
  user name of at most 64 bytes, a key pair and a password; the server offers key login alone or key and
  password.  The client signs with the session id it holds, the server checks with its own.  The client
  offers the key first and the password when the server asks for another method.
  Both sides end in \<open>OK\<close>, with the server knowing the client's user name, exactly when the key is accepted or a
  password is allowed and accepted; otherwise both end in \<open>DENIED\<close>.  No call has undefined behaviour.
\<close>

theorem login_completes:
  assumes "length user \<le> 64" "0 \<notin> set user" "length pk = 32" "length pw \<le> 127" "0 \<notin> set pw"
    and "cb_methods e = Some f" "f user = NC_AUTH_M_PUBKEY \<or> f user = NC_AUTH_M_PUBKEY OR NC_AUTH_M_PASSWORD"
    and "sig = crypto_eddsa_sign e sk (nc_auth_signed_digest e csid user pk)" "length sig = 64"
  shows "\<exists>c s. login e csid ssid user sk pk pw = Some (c, s) \<and> nc_auth_user s = user \<and>
     (if key_good e ssid user pk sig \<or> f user AND NC_AUTH_M_PASSWORD \<noteq> 0 \<and> password_good e user pw
      then a_state c = NC_AUTH_STATE_OK \<and> a_state s = NC_AUTH_STATE_OK
      else a_state c = NC_AUTH_STATE_DENIED \<and> a_state s = NC_AUTH_STATE_DENIED)"
proof -
  define m where "m = f user"
  have m: "m = 1 \<or> m = 3" using assms(7) by (auto simp: m_def method_defs)
  obtain c1 s1 c2 c3 where st:
    "nc_auth_start (nc_auth_client_init csid (Some user) True) = Some c1"
    "exchange e (c1, nc_auth_server_init ssid True) = Some (c2, s1)"
    "nc_auth_supply_key e c2 (Some sk) (Some pk) = Some c3"
    and c3: "client_at csid user NC_AUTH_NEED_NOTHING (m AND 2) c3" "last_msg c3 = MSG_PUBKEY # pk @ sig"
    and s1: "server_at ssid user m 0 s1"
    using login_key_step [OF assms(1-3,6) m_def [symmetric] m assms(8,9)] by metis
  obtain s2 where s2: "nc_auth_feed e s1 (last_msg c3) = Some (0, s2)" "nc_auth_user s2 = user"
     "if key_good e ssid user pk sig then a_state s2 = NC_AUTH_STATE_OK \<and> last_msg s2 = [MSG_OK]
      else if m = 3 then server_at ssid user 2 1 s2 \<and> last_msg s2 = [MSG_FAIL, 2]
      else a_state s2 = NC_AUTH_STATE_DENIED \<and> last_msg s2 = [MSG_FAIL, 0]"
    using server_pubkey [OF s1 m assms(3,9)] c3(2) by auto
  consider (key) "key_good e ssid user pk sig" | (denied) "\<not> key_good e ssid user pk sig" "m = 1"
    | (password) "\<not> key_good e ssid user pk sig" "m = 3" using m by blast
  then show ?thesis
  proof cases
    case key
    then show ?thesis using login_key_accepted [OF assms(1-3,6) m_def [symmetric] m assms(8,9)] by simp
  next
    case denied
    then show ?thesis using st s2(2,3) client_fail [OF c3(1), of 0 e] exchangeI [OF s2(1)]
      by (auto simp: login_def m_def [symmetric] method_defs)
  next
    case password
    obtain c4 where c4: "nc_auth_feed e c3 (last_msg s2) = Some (0, c4)" "client_at csid user NC_AUTH_NEED_PASSWORD 0 c4"
      using client_fail [OF c3(1), of 2 e] s2(3) password by auto
    have n: "a_need c4 = NC_AUTH_NEED_PASSWORD" using c4(2) by (simp add: client_at_def)
    have s4: "server_at ssid user 2 1 s2" using s2(3) password by simp
    show ?thesis using password_step [OF c4(2) s4 assms(4,5), of e] st exchangeI [OF s2(1) c4(1)] n password
      by (cases "password_good e user pw") (auto simp: login_def m_def [symmetric] method_defs)
  qed
qed

theorem login_completes_witness:
  "\<exists>e. cb_methods e = Some (\<lambda>u. 3) \<and> password_good e [65] [112] \<and>
     (\<exists>c s. login e [7] [7] [65] [1] (replicate 32 2) [112] = Some (c, s) \<and> nc_auth_user s = [65] \<and>
        a_state c = NC_AUTH_STATE_OK \<and> a_state s = NC_AUTH_STATE_OK)"
proof -
  define e where "e = \<lparr>cb_methods = Some (\<lambda>u. 3), cb_check_key = None, cb_check_password = Some (\<lambda>u p. u = [65] \<and> p = [112]),
    cb_begin = None, cb_submit = None, cb_resume = None, cb_cancelled = False, crypto_blake2b = (\<lambda>n m. take n m),
    crypto_eddsa_sign = (\<lambda>k m. replicate 64 (hd k)), crypto_eddsa_check = (\<lambda>s k m. s = replicate 64 1)\<rparr>"
  have env: "cb_methods e = Some (\<lambda>u. 3)" "\<not> key_good e [7] [65] (replicate 32 2) (replicate 64 1)" "password_good e [65] [112]"
    "replicate 64 1 = crypto_eddsa_sign e [1] (nc_auth_signed_digest e [7] [65] (replicate 32 2))"
    by (simp_all add: e_def key_good_def password_good_def)
  have "3 = NC_AUTH_M_PUBKEY OR NC_AUTH_M_PASSWORD" "3 AND NC_AUTH_M_PASSWORD \<noteq> 0" by (simp_all add: method_defs)
  then have "\<exists>c s. login e [7] [7] [65] [1] (replicate 32 2) [112] = Some (c, s) \<and> nc_auth_user s = [65] \<and>
     a_state c = NC_AUTH_STATE_OK \<and> a_state s = NC_AUTH_STATE_OK"
    using login_completes [OF _ _ _ _ _ env(1) _ env(4), of "[112]"] env(2,3)
    by (simp only: length_replicate list.size if_True list.set insert_iff empty_iff) simp
  with env show ?thesis by blast
qed

section \<open>Resuming an interactive login\<close>

definition begin_msg :: "bytes \<Rightarrow> bytes" where
  "begin_msg t = MSG_IA_BEGIN # ms_tag F_METHOD MS_WIRE_8 # 4 # ms_tag F_TOKEN MS_WIRE_BYTES # le16 (of_nat (length t)) @ t"

lemma length_begin_msg: "length (begin_msg t) = 6 + length t"
  by (simp add: begin_msg_def)

lemma ia_begin_msg_token:
  assumes "0 < length t" "length t \<le> 64"
  shows "\<exists>b. ia_begin_msg 4 t = Some (if length t \<le> 61 then 6 + int (length t) else MS_ERR, b) \<and>
     (length t \<le> 61 \<longrightarrow> take (6 + length t) b = begin_msg t)"
proof -
  define z where "z = replicate 64 (0 :: u8)"
  have r: "put_at (replicate (3 + NC_FORM_MAX_TOKEN) 0) 0 [MSG_IA_BEGIN] = Some (MSG_IA_BEGIN # 0 # 0 # z)"
    by (simp add: put_at_def NC_FORM_MAX_TOKEN_def z_def numeral_eq_Suc)
  define b1 where "b1 = MSG_IA_BEGIN # ms_tag F_METHOD MS_WIRE_8 # 4 # z"
  have w: "ms_write_tag_u8 (MSG_IA_BEGIN # 0 # 0 # z) 1 67 F_METHOD 4 = Some (3, b1)"
    by (simp add: ms_write_tag_u8_def put_at_def b1_def z_def)
  have l: "length t < 65536" "length b1 = 67" "length z = 64" using assms(2) by (simp_all add: b1_def z_def)
  have n: "t \<noteq> []" using assms(1) by auto
  have e: "ia_begin_msg 4 t = ms_write_tag_bytes b1 3 67 F_TOKEN t" using r w l n by (simp add: ia_begin_msg_def)
  show ?thesis
  proof (cases "length t \<le> 61")
    case True
    then have "put_at b1 3 (ms_tag F_TOKEN MS_WIRE_BYTES # le16 (of_nat (length t)) @ t) = Some (begin_msg t @ drop (6 + length t) b1)"
      using l by (simp add: put_at_def begin_msg_def) (simp add: b1_def)
    then show ?thesis using True e l by (simp add: ms_write_bytes_enc length_begin_msg)
  next
    case False
    then show ?thesis using e l by (simp add: ms_write_bytes_enc)
  qed
qed

lemma tag_fields_begin:
  assumes "length t < 65536"
  shows "tag_fields (\<lambda>field wire. field = F_METHOD \<and> wire = MS_WIRE_8 \<or> field = F_TOKEN \<and> wire = MS_WIRE_BYTES) (begin_msg t) 1 =
    Some (Some [(F_METHOD, [4]), (F_TOKEN, t)])"
proof -
  define msg where "msg = begin_msg t"
  let ?w = "\<lambda>field wire. field = F_METHOD \<and> wire = MS_WIRE_8 \<or> field = F_TOKEN \<and> wire = MS_WIRE_BYTES"
  have l: "length msg = 6 + length t" by (simp add: msg_def length_begin_msg)
  have g: "get_at msg 1 = Some (ms_tag F_METHOD MS_WIRE_8)" "get_at msg 2 = Some 4" "get_at msg 3 = Some (ms_tag F_TOKEN MS_WIRE_BYTES)"
    by (simp_all add: msg_def begin_msg_def get_at_def)
  have f: "drop_bit 3 (ms_tag F_METHOD MS_WIRE_8) = F_METHOD" "ms_tag F_METHOD MS_WIRE_8 AND 7 = MS_WIRE_8"
    "drop_bit 3 (ms_tag F_TOKEN MS_WIRE_BYTES) = F_TOKEN" "ms_tag F_TOKEN MS_WIRE_BYTES AND 7 = MS_WIRE_BYTES"
    by (simp_all add: ms_tag_parts F_METHOD_def F_TOKEN_def ms_wire_defs)
  have "at_pos msg 4 (le16 (of_nat (length t)) @ t)" by (simp add: msg_def begin_msg_def at_pos_def)
  then have r: "ms_read_bytes msg 4 (int (length msg)) 0xffff = Some (Some ((6, of_nat (length t)), int (length msg)))"
    using ms_read_bytes_enc(1) [of t msg 4 "int (length msg)" "0xffff"] assms l by (simp add: word_le_nat_alt unat_len16)
  have d: "rd_bytes msg 6 (length t) = Some t" by (simp add: rd_bytes_def msg_def begin_msg_def le16_def)
  have e: "tag_fields ?w msg (int (length msg)) = Some (Some [])" by (subst tag_fields.simps) simp
  have "tag_fields ?w msg 3 = Some (Some [(F_TOKEN, t)])" using r d e g f l unat_len16 [OF assms]
    by (subst tag_fields.simps) (simp add: Let_def)
  then show ?thesis unfolding msg_def [symmetric] using g f l
    by (subst tag_fields.simps) (simp add: Let_def ms_read_u8_def ms_wire_defs)
qed

text \<open>
  C38: A client that comes back with the token of an interactive login it left resumes it, and the server
  hands the token to the application, if the token has at most 61 bytes.  The message buffer is three bytes
  short of the longest tokens that are accepted: with 62 to 64 bytes the login is given up, and nothing is sent.
\<close>

theorem resume_token:
  assumes "0 < length t" "length t \<le> NC_FORM_MAX_TOKEN"
    and c: "\<not> a_server c" "a_send c" "a_state c = NC_AUTH_STATE_PENDING" "a_need c = NC_AUTH_NEED_METHOD"
      "a_avail c AND NC_AUTH_M_INTERACTIVE \<noteq> 0"
    and s: "a_server s" "a_state s = NC_AUTH_STATE_PENDING" "a_greeted s" "a_ia_method s = 0" "a_avail s AND NC_AUTH_M_INTERACTIVE \<noteq> 0"
    and e: "cb_begin e = Some f" "cb_resume e = Some r" "r t = (NC_AUTH_IA_DONE, form, None)"
  shows "\<exists>c'. nc_auth_supply_method (nc_auth_resume_pending c (Some t)) NC_AUTH_M_INTERACTIVE = Some c' \<and>
     (if length t \<le> 61 then a_state c' = NC_AUTH_STATE_PENDING \<and>
        (\<exists>s'. nc_auth_feed e s (last_msg c') = Some (NC_AUTH_OK, s') \<and> a_state s' = NC_AUTH_STATE_OK)
      else a_state c' = NC_AUTH_STATE_DENIED \<and> a_out c' = a_out c)"
proof -
  have t: "length t \<le> 64" "length t < 65536" "t \<noteq> []" using assms(1,2) by (auto simp: NC_FORM_MAX_TOKEN_def)
  obtain b where b: "ia_begin_msg 4 t = Some (if length t \<le> 61 then 6 + int (length t) else MS_ERR, b)"
    "length t \<le> 61 \<Longrightarrow> take (6 + length t) b = begin_msg t"
    using ia_begin_msg_token [OF assms(1) t(1)] by blast
  have "(4 AND 8 :: u32) = 0" by simp
  then have av: "(4 AND a_avail c) AND 8 = 0" by (metis and.assoc and.commute and_zero_eq)
  define c1 where "c1 = c\<lparr>a_token := t, a_chosen := 4, a_chose := False, a_need := NC_AUTH_NEED_NOTHING, a_ia_method := 4\<rparr>"
  define c2 where "c2 = c\<lparr>a_token := t, a_chosen := 4, a_chose := False, a_ia_method := 4, a_need := NC_AUTH_NEED_NOTHING\<rparr>"
  have step: "nc_auth_supply_method (nc_auth_resume_pending c (Some t)) NC_AUTH_M_INTERACTIVE =
     Some (if length t \<le> 61 then nc_auth_i_emit c2 (begin_msg t) else c1\<lparr>a_state := NC_AUTH_STATE_DENIED\<rparr>)"
    using c t assms(2) b av
    by (simp add: nc_auth_supply_method_def nc_auth_resume_pending_def nc_auth_i_ia_choose.simps method_defs Let_def c1_def c2_def
        and.commute [of "a_avail c"] MS_ERR_def nat_add_distrib)
  have srv: "\<exists>s'. nc_auth_feed e s (begin_msg t) = Some (NC_AUTH_OK, s') \<and> a_state s' = NC_AUTH_STATE_OK" if "length t \<le> 61"
  proof -
    have h: "rd8 (begin_msg t) 0 = Some MSG_IA_BEGIN" by (simp add: rd8_def begin_msg_def)
    have "nc_auth_i_ia_server e s (begin_msg t) = ia_answer e (s\<lparr>a_ia_method := 4, a_fired := False\<rparr>) (r t)"
      using s e t tag_fields_begin [OF t(2)]
      by (simp add: nc_auth_i_ia_server_def h last_field_def F_METHOD_def F_TOKEN_def method_defs)
    moreover have "server_feed e s (begin_msg t) = nc_auth_i_ia_server e s (begin_msg t)"
      by (simp add: server_feed_def h msg_defs MSG_IA_BEGIN_def)
    ultimately show ?thesis using s(1,2) that e(3)
      by (simp add: nc_auth_feed_def length_begin_msg NC_AUTH_MAX_MSG_def h MSG_IS_BULK_def msg_defs MSG_IA_BEGIN_def
          ia_answer_def verdict_def nc_auth_server_token_def method_defs NC_AUTH_IA_DONE_def NC_AUTH_IA_MORE_def NC_AUTH_IA_WAIT_def
          NC_AUTH_OK_def Let_def)
  qed
  show ?thesis using step srv c by (simp add: c1_def c2_def at_defs)
qed

theorem resume_token_witness:
  "\<exists>c'. nc_auth_supply_method (nc_auth_resume_pending ((nc_auth_client_init [7] (Some [65]) True)\<lparr>a_need := NC_AUTH_NEED_METHOD, a_avail := 4\<rparr>)
       (Some (replicate 62 1))) NC_AUTH_M_INTERACTIVE = Some c' \<and> a_state c' = NC_AUTH_STATE_DENIED"
proof -
  define c where "c = (nc_auth_client_init [7] (Some [65]) True)\<lparr>a_need := NC_AUTH_NEED_METHOD, a_avail := 4\<rparr>"
  define s where "s = (nc_auth_server_init [7] True)\<lparr>a_greeted := True, a_avail := 4\<rparr>"
  define e where "e = \<lparr>cb_methods = None, cb_check_key = None, cb_check_password = None, cb_begin = Some (\<lambda>m. (0, form_zero, None)),
    cb_submit = None, cb_resume = Some (\<lambda>t. (NC_AUTH_IA_DONE, form_zero, None)), cb_cancelled = False, crypto_blake2b = (\<lambda>n m. []),
    crypto_eddsa_sign = (\<lambda>k m. []), crypto_eddsa_check = (\<lambda>s k m. True)\<rparr>"
  have c: "\<not> a_server c" "a_send c" "a_state c = NC_AUTH_STATE_PENDING" "a_need c = NC_AUTH_NEED_METHOD" "a_avail c AND NC_AUTH_M_INTERACTIVE \<noteq> 0"
    by (simp_all add: c_def nc_auth_client_init_def auth_zero_def method_defs)
  have s: "a_server s" "a_state s = NC_AUTH_STATE_PENDING" "a_greeted s" "a_ia_method s = 0" "a_avail s AND NC_AUTH_M_INTERACTIVE \<noteq> 0"
    by (simp_all add: s_def nc_auth_server_init_def auth_zero_def method_defs)
  have e: "cb_begin e = Some (\<lambda>m. (0, form_zero, None))" "cb_resume e = Some (\<lambda>t. (NC_AUTH_IA_DONE, form_zero, None))"
    by (simp_all add: e_def)
  have t: "0 < length (replicate 62 (1 :: u8))" "length (replicate 62 (1 :: u8)) \<le> NC_FORM_MAX_TOKEN"
    by (simp_all only: length_replicate NC_FORM_MAX_TOKEN_def)
  have "\<not> length (replicate 62 (1 :: u8)) \<le> 61" by (simp only: length_replicate)
  with resume_token [OF t c s e refl] show ?thesis unfolding c_def by auto
qed

end
