(* ===== verification/Auth_Answers.thy ===== *)
theory Auth_Answers
  imports Auth_Safe
begin

text \<open>
  What a client submits is what the server reads.  The answers to a form go out as a run of
  length-prefixed strings, \<open>n=\<close> naming a field and \<open>v=\<close> giving its values; the server unpacks the run
  into NUL-terminated strings and looks values up by name.
\<close>

section \<open>Numbers\<close>

lemma parse_digits_append:
  "parse_digits v (s @ t) = do { r \<leftarrow> parse_digits v s; (case r of None \<Rightarrow> Some None | Some w \<Rightarrow> parse_digits w t) }"
  by (induction v s rule: parse_digits.induct) (simp_all add: Let_def)

lemma digit: "d < 10 \<Longrightarrow> \<not> (48 + of_nat d :: u8) < 48 \<and> \<not> 57 < (48 + of_nat d :: u8) \<and> uint (48 + of_nat d :: u8) = 48 + int d \<and>
    (48 + of_nat d :: u8) \<noteq> 45 \<and> (48 + of_nat d :: u8) \<noteq> 0"
proof -
  assume "d < 10"
  then have "d \<in> {0, 1, 2, 3, 4, 5, 6, 7, 8, 9}" by auto
  then show ?thesis by auto
qed

lemma digits_ne: "digits u \<noteq> []"
  by (subst digits.simps) simp

lemma parse_rev_digits: "u \<le> 2147483647 \<Longrightarrow> parse_digits 0 (rev (digits u)) = Some (Some (int u))"
proof (induction u rule: less_induct)
  case (less u)
  show ?case
  proof (cases "u < 10")
    case True
    then show ?thesis using digit [of u] by (subst digits.simps) simp
  next
    case False
    have "u div 10 < u" "u div 10 \<le> 2147483647" "0 < u div 10" using False less.prems by auto
    then have ih: "parse_digits 0 (rev (digits (u div 10))) = Some (Some (int (u div 10)))" using less.IH by blast
    have "int (u div 10) \<le> 214748364" using less.prems by auto
    moreover have "int (u div 10) * 10 + int (u mod 10) = int u" by presburger
    ultimately show ?thesis using ih digit [of "u mod 10"] \<open>0 < u div 10\<close> less.prems
      by (subst digits.simps) (simp add: parse_digits_append)
  qed
qed

lemma parse_rev_digits_overflow: "parse_digits 0 (rev (digits 2147483648)) = None"
proof -
  have "parse_digits 0 (rev (digits 214748364)) = Some (Some 214748364)" using parse_rev_digits [of 214748364] by simp
  then show ?thesis by (subst digits.simps) (simp add: parse_digits_append)
qed

lemma hd_rev_digits: "hd (rev (digits u)) \<noteq> 45"
proof (induction u rule: less_induct)
  case (less u)
  have "(48 + of_nat (u mod 10) :: u8) \<noteq> 45" using digit [of "u mod 10"] by simp
  then show ?case using less.IH [of "u div 10"] digits_ne by (subst digits.simps) (auto simp: hd_append)
qed

definition num_text :: "int \<Rightarrow> bytes" where
  "num_text v = (if v < 0 then [45] else []) @ rev (digits (nat \<bar>v\<bar>))"

lemma unat_magnitude:
  assumes "- (2 ^ 31) \<le> v" "v < 2 ^ 31"
  shows "unat (if v < 0 then 0 - word_of_int v else word_of_int v :: u32) = nat \<bar>v\<bar>"
proof -
  have "(if v < 0 then 0 - word_of_int v else word_of_int v :: u32) = word_of_int \<bar>v\<bar>" by simp
  then show ?thesis using assms by (simp add: unsigned_of_int take_bit_int_eq_self)
qed

lemma fmt_num:
  assumes "- (2 ^ 31) \<le> v" "v < 2 ^ 31"
  shows "fmt_i32 v = Some (num_text v)"
proof -
  have "length (digits (nat \<bar>v\<bar>)) \<le> 10"
    using length_digits_u32 [of "if v < 0 then 0 - word_of_int v else word_of_int v :: u32"] unat_magnitude [OF assms] by simp
  then show ?thesis unfolding fmt_i32_def Let_def unat_magnitude [OF assms] by (auto simp: emit_def num_text_def)
qed

lemma parse_num: "- (2 ^ 31) < v \<Longrightarrow> v < 2 ^ 31 \<Longrightarrow> parse_i32 (num_text v) = Some (Some v)"
  using parse_rev_digits [of "nat \<bar>v\<bar>"] hd_rev_digits [of "nat \<bar>v\<bar>"] digits_ne [of "nat \<bar>v\<bar>"]
  by (auto simp: parse_i32_def num_text_def Let_def)

lemma parse_num_overflow: "parse_i32 (num_text (- (2 ^ 31))) = None"
  using parse_rev_digits_overflow digits_ne [of 2147483648] by (simp add: parse_i32_def num_text_def Let_def)

lemma num_no_nul: "0 \<notin> set (num_text v)"
proof -
  have "0 \<notin> set (digits u)" for u
  proof (induction u rule: less_induct)
    case (less u)
    have "(48 + of_nat (u mod 10) :: u8) \<noteq> 0" using digit [of "u mod 10"] by auto
    then show ?case using less.IH [of "u div 10"] by (subst digits.simps) auto
  qed
  then show ?thesis by (simp add: num_text_def)
qed

section \<open>Runs of strings\<close>

definition packed :: "bytes \<Rightarrow> bytes" where
  "packed s = of_nat (length s mod 256) # of_nat (length s div 256 mod 256) # s"

definition packed_run :: "bytes list \<Rightarrow> bytes" where
  "packed_run ss = concat (map packed ss)"

definition nul_run :: "bytes list \<Rightarrow> bytes" where
  "nul_run ss = concat (map (\<lambda>s. s @ [0]) ss)"

lemma run_simps [simp]:
  "packed_run [] = []" "packed_run (s # ss) = packed s @ packed_run ss" "packed_run (ss @ ts) = packed_run ss @ packed_run ts"
  "nul_run [] = []" "nul_run (s # ss) = s @ 0 # nul_run ss"
  by (simp_all add: packed_run_def nul_run_def)

lemma nul_run_shorter: "length (nul_run ss) \<le> length (packed_run ss)"
  by (induction ss) (simp_all add: packed_def)

lemma cstrings_run: "\<forall>s\<in>set ss. 0 \<notin> set s \<Longrightarrow> cstrings (nul_run ss) = Some ss"
proof (induction ss)
  case (Cons s ss)
  have c: "cstr (s @ 0 # nul_run ss) = s" using Cons.prems by (induction s) (auto simp: cstr_def)
  show ?case using Cons c by (subst cstrings.simps) simp
qed (simp add: cstrings.simps)

lemma unpack_run:
  assumes "\<forall>s\<in>set ss. length s < 65536" "ar_used ar + length (nul_run ss) \<le> length (ar_buf ar)"
  shows "\<exists>ar'. unpack ar (packed_run ss) = Some (int (length ss), ar') \<and> length (ar_buf ar') = length (ar_buf ar) \<and>
     ar_used ar' = ar_used ar + length (nul_run ss) \<and>
     take (ar_used ar') (ar_buf ar') = take (ar_used ar) (ar_buf ar) @ nul_run ss"
  using assms
proof (induction ss arbitrary: ar)
  case Nil
  then show ?case by (simp add: unpack.simps)
next
  case (Cons s ss)
  define b where "b = take (ar_used ar) (ar_buf ar) @ (s @ [0]) @ drop (ar_used ar + length s + 1) (ar_buf ar)"
  define ar1 where "ar1 = ar\<lparr>ar_buf := b, ar_used := ar_used ar + length s + 1\<rparr>"
  have a: "arena_str ar s = Some (Some (ar_used ar), ar1)" using Cons.prems
    by (simp add: arena_str_def put_at_def ar1_def b_def add.assoc)
  have l: "length b = length (ar_buf ar)" "take (ar_used ar1) (ar_buf ar1) = take (ar_used ar) (ar_buf ar) @ s @ [0]"
    using Cons.prems by (simp_all add: b_def ar1_def min_def)
  obtain ar' where ih: "unpack ar1 (packed_run ss) = Some (int (length ss), ar')" "length (ar_buf ar') = length (ar_buf ar1)"
     "ar_used ar' = ar_used ar1 + length (nul_run ss)"
     "take (ar_used ar') (ar_buf ar') = take (ar_used ar1) (ar_buf ar1) @ nul_run ss"
    using Cons.IH [of ar1] Cons.prems l(1) by (auto simp: ar1_def)
  have "length s mod 256 + 256 * (length s div 256 mod 256) = length s" using Cons.prems(1) by (auto simp: less_mult_imp_div_less)
  then have n: "unat (of_nat (length s mod 256) :: u8) + 256 * unat (of_nat (length s div 256 mod 256) :: u8) = length s"
    by (simp add: unat_of_nat take_bit_nat_eq_self)
  show ?case using a ih n l by (subst unpack.simps) (simp add: packed_def ar1_def)
qed

section \<open>The answers as strings\<close>

text \<open>\<open>wrote sk ss sk'\<close>: unless the sink ran over, the strings \<open>ss\<close> went from \<open>sk\<close> to \<open>sk'\<close>.\<close>

definition wrote :: "sink \<Rightarrow> bytes list \<Rightarrow> sink \<Rightarrow> bool" where
  "wrote sk ss sk' \<longleftrightarrow> sk_cap sk' = sk_cap sk \<and>
     (\<not> sk_err sk' \<longrightarrow> \<not> sk_err sk \<and> sk_buf sk' = sk_buf sk @ packed_run ss \<and> (\<forall>s\<in>set ss. length s < 65536) \<and>
        (length (sk_buf sk) \<le> sk_cap sk \<longrightarrow> length (sk_buf sk') \<le> sk_cap sk))"

lemma wrote_nil [simp]: "wrote sk [] sk"
  by (simp add: wrote_def)

lemma wrote_trans: "wrote sk ss sk1 \<Longrightarrow> wrote sk1 ts sk2 \<Longrightarrow> wrote sk (ss @ ts) sk2"
  by (auto simp: wrote_def)

lemma ok_wrote_then: "ok m (wrote sk ss) \<Longrightarrow> (\<And>sk1. ok (f sk1) (wrote sk1 ts)) \<Longrightarrow> ok (m \<bind> f) (wrote sk (ss @ ts))"
  by (force simp: ok_def intro: wrote_trans)

definition entry :: "bytes \<Rightarrow> bytes \<Rightarrow> bytes" where
  "entry key val = key @ 61 # val"

lemma sink_put_wrote: "ok (sink_put sk key v) (wrote sk [entry key v])"
  by (simp add: sink_put_def Let_def emit_def wrote_def entry_def packed_def)

lemma sink_num_wrote: "- (2 ^ 31) \<le> v \<Longrightarrow> v < 2 ^ 31 \<Longrightarrow> ok (sink_num sk key v) (wrote sk [entry key (num_text v)])"
  by (simp add: sink_num_def fmt_num sink_put_wrote)

text \<open>The values of one answer, and what is written for it.\<close>

definition answer_values :: "nc_form_field \<Rightarrow> nc_form_value \<Rightarrow> bytes list" where
  "answer_values fl v =
     (if ff_type fl = NC_FF_INTEGER then [num_text (fv_number v)]
      else if ff_type fl = NC_FF_BOOL then [if fv_on v then str_of ''1'' else str_of ''0'']
      else if ff_type fl = NC_FF_CHOICE then
        if ff_flags fl AND NC_FF_MULTI \<noteq> 0 then map (num_text \<circ> int) (filter (bit (fv_choice v)) [0 ..< noptions fl])
        else [num_text (sint (fv_choice v))]
      else [case fv_text v of Some t \<Rightarrow> t | None \<Rightarrow> []])"

definition answer_strs :: "nc_form_field \<Rightarrow> nc_form_value \<Rightarrow> bytes list" where
  "answer_strs fl v =
     (case ff_name fl of
        None \<Rightarrow> []
      | Some n \<Rightarrow> if type_is_prose (ff_type fl) then [] else entry K_NAME n # map (entry K_VALUE) (answer_values fl v))"

definition answer_list :: "nc_form_field list \<Rightarrow> nc_form_value list \<Rightarrow> bytes list" where
  "answer_list fls vs = concat (map2 answer_strs fls vs)"

text \<open>Forms and values as C holds them: strings without NUL, 32-bit numbers, at most 16 options.\<close>

definition field_ok :: "nc_form_field \<Rightarrow> bool" where
  "field_ok fl \<longleftrightarrow> noptions fl \<le> NC_FORM_MAX_OPTIONS \<and> (\<forall>n. ff_name fl = Some n \<longrightarrow> 0 \<notin> set n)"

definition value_ok :: "nc_form_value \<Rightarrow> bool" where
  "value_ok v \<longleftrightarrow> - (2 ^ 31) \<le> fv_number v \<and> fv_number v < 2 ^ 31 \<and> (\<forall>t. fv_text v = Some t \<longrightarrow> 0 \<notin> set t)"

lemma sint_i32: "- (2 ^ 31) \<le> sint (w :: u32)" "sint (w :: u32) < 2 ^ 31"
  using sint_ge [of w] sint_lt [of w] by simp_all

lemma and_bit: "(ch AND push_bit k 1 \<noteq> 0) = bit (ch :: u32) k" if "k < 32"
proof -
  have "ch AND push_bit k 1 = (if bit ch k then push_bit k 1 else 0)"
    using that by (intro bit_word_eqI) (auto simp: bit_simps)
  moreover have "push_bit k (1 :: u32) \<noteq> 0"
  proof -
    have "bit (push_bit k (1 :: u32)) k" using that by (simp add: bit_simps)
    then show ?thesis using that by auto
  qed
  ultimately show ?thesis by simp
qed

lemma sink_choices_wrote:
  assumes "\<forall>k\<in>set ks. k < 16"
  shows "ok (sink_choices sk ch ks) (wrote sk (map (\<lambda>k. entry K_VALUE (num_text (int k))) (filter (bit ch) ks)))"
  using assms
proof (induction ks arbitrary: sk)
  case (Cons k ks)
  have ih: "ok (sink_choices sk1 ch ks) (wrote sk1 (map (\<lambda>k. entry K_VALUE (num_text (int k))) (filter (bit ch) ks)))" for sk1
    using Cons by simp
  have k: "k < 32" "- (2 ^ 31) \<le> int k" "int k < 2 ^ 31" using Cons.prems by auto
  have one: "ok (sink_num sk K_VALUE (int k)) (wrote sk [entry K_VALUE (num_text (int k))])" using k by (intro sink_num_wrote)
  show ?case
  proof (cases "bit ch k")
    case True
    then show ?thesis using ok_wrote_then [OF one ih] and_bit [OF k(1), of ch] by simp
  next
    case False
    then show ?thesis using ih [of sk] and_bit [OF k(1), of ch] by simp
  qed
qed simp

lemma encode_answer_wrote:
  assumes "field_ok fl" "value_ok v"
  shows "ok (encode_answer sk fl v) (wrote sk (answer_strs fl v))"
proof (cases "type_is_prose (ff_type fl) \<or> ff_name fl = None")
  case True
  then show ?thesis by (auto simp: encode_answer_def answer_strs_def split: option.split)
next
  case False
  then obtain n where n: "ff_name fl = Some n" "\<not> type_is_prose (ff_type fl)" by auto
  have ch: "ok (sink_choices sk1 (fv_choice v) [0 ..< noptions fl])
     (wrote sk1 (map (entry K_VALUE) (map (num_text \<circ> int) (filter (bit (fv_choice v)) [0 ..< noptions fl]))))" for sk1
    using sink_choices_wrote [of "[0 ..< noptions fl]" sk1 "fv_choice v"] assms(1) by (simp add: field_ok_def NC_FORM_MAX_OPTIONS_def comp_def)
  have num: "ok (sink_num sk1 K_VALUE (fv_number v)) (wrote sk1 [entry K_VALUE (num_text (fv_number v))])"
    "ok (sink_num sk1 K_VALUE (sint (fv_choice v))) (wrote sk1 [entry K_VALUE (num_text (sint (fv_choice v)))])" for sk1
    using assms(2) sint_i32 by (auto intro!: sink_num_wrote simp: value_ok_def)
  define g where "g sk1 = (if ff_type fl = NC_FF_INTEGER then sink_num sk1 K_VALUE (fv_number v)
     else if ff_type fl = NC_FF_BOOL then sink_str sk1 K_VALUE (Some (if fv_on v then str_of ''1'' else str_of ''0''))
     else if ff_type fl = NC_FF_CHOICE then
       if ff_flags fl AND NC_FF_MULTI \<noteq> 0 then sink_choices sk1 (fv_choice v) [0 ..< noptions fl] else sink_num sk1 K_VALUE (sint (fv_choice v))
     else sink_str sk1 K_VALUE (Some (case fv_text v of Some t \<Rightarrow> t | None \<Rightarrow> [])))" for sk1
  have eq: "encode_answer sk fl v = sink_put sk K_NAME n \<bind> g"
    using n by (simp add: encode_answer_def g_def [abs_def] sink_str_def)
  have "ok (g sk1) (wrote sk1 (map (entry K_VALUE) (answer_values fl v)))" for sk1
    using ch num by (simp add: g_def answer_values_def sink_str_def sink_put_wrote del: map_map)
  then have "ok (encode_answer sk fl v) (wrote sk ([entry K_NAME n] @ map (entry K_VALUE) (answer_values fl v)))"
    unfolding eq by (intro ok_wrote_then sink_put_wrote)
  then show ?thesis using n by (simp add: answer_strs_def)
qed

lemma encode_answer_list_wrote:
  assumes "\<forall>fl\<in>set fls. field_ok fl" "\<forall>v\<in>set vs. value_ok v"
  shows "ok (encode_answer_list sk fls vs) (wrote sk (answer_list fls vs))"
  using assms
proof (induction sk fls vs rule: encode_answer_list.induct)
  case (1 sk fl fls v vs)
  have "ok (encode_answer_list sk1 fls vs) (wrote sk1 (answer_list fls vs))" if "encode_answer sk fl v = Some sk1" for sk1
    using 1 that by simp
  then have "ok (encode_answer sk fl v \<bind> (\<lambda>sk. encode_answer_list sk fls vs)) (wrote sk (answer_strs fl v @ answer_list fls vs))"
    using encode_answer_wrote [of fl v sk] 1 by (force simp: ok_def intro: wrote_trans)
  then show ?case by (simp add: answer_list_def)
qed (simp_all add: answer_list_def)

section \<open>Looking values up\<close>

lemma key_entry:
  "key_of (entry K_NAME n) K_NAME = Some n" "key_of (entry K_VALUE t) K_NAME = None" "key_of (entry K_VALUE t) K_VALUE = Some t"
  by (simp_all add: key_of_def entry_def K_NAME_def K_VALUE_def str_of_def)

lemma find_value_skip:
  assumes "ff_name fl \<noteq> Some n"
  shows "find_value n False (answer_strs fl v @ rest) = find_value n False rest"
proof -
  have "find_value n False (map (entry K_VALUE) ts @ rest) = find_value n False rest" for ts
    by (induction ts) (simp_all add: key_entry)
  then show ?thesis using assms by (auto simp: answer_strs_def key_entry split: option.split)
qed

lemma choice_skip:
  assumes "ff_name fl \<noteq> Some n"
  shows "\<exists>b. choice_mask n m0 (answer_strs fl v @ rest) m = choice_mask n b rest m \<and> (b \<longrightarrow> m0)"
proof -
  have "choice_mask n False (map (entry K_VALUE) ts @ rest) m = choice_mask n False rest m" for ts
    by (induction ts) (simp_all add: key_entry)
  then show ?thesis using assms by (auto simp: answer_strs_def key_entry split: option.split)
qed

lemma choice_rest:
  assumes "\<forall>fl\<in>set fls. ff_name fl \<noteq> Some n"
  shows "choice_mask n b (answer_list fls vs) m = Some m"
  using assms
proof (induction fls arbitrary: b vs)
  case (Cons fl fls)
  show ?case
  proof (cases vs)
    case (Cons v vs')
    obtain b' where "choice_mask n b (answer_strs fl v @ answer_list fls vs') m = choice_mask n b' (answer_list fls vs') m"
      using choice_skip [of fl n b v "answer_list fls vs'" m] Cons.prems by auto
    then show ?thesis using Cons.IH Cons.prems Cons by (simp add: answer_list_def)
  qed (simp add: answer_list_def)
qed (simp add: answer_list_def)

text \<open>The field with the name looked up, among the others.\<close>

lemma answer_list_split:
  assumes "i < length fls" "i < length vs"
  shows "answer_list fls vs = answer_list (take i fls) (take i vs) @ answer_strs (fls ! i) (vs ! i) @ answer_list (drop (Suc i) fls) (drop (Suc i) vs)"
  using assms
proof (induction i arbitrary: fls vs)
  case 0
  then show ?case by (cases fls; cases vs) (simp_all add: answer_list_def)
next
  case (Suc i)
  obtain f fs v us where e: "fls = f # fs" "vs = v # us" using Suc.prems by (cases fls; cases vs) auto
  have "i < length fs" "i < length us" using Suc.prems e by simp_all
  from Suc.IH [OF this] have "answer_strs f v @ answer_list fs us = answer_strs f v @ answer_list (take i fs) (take i us) @
    answer_strs (fs ! i) (us ! i) @ answer_list (drop (Suc i) fs) (drop (Suc i) us)" by (rule arg_cong)
  then show ?case using e by (simp add: answer_list_def)
qed

lemma find_value_before:
  "\<forall>fl\<in>set fls. ff_name fl \<noteq> Some n \<Longrightarrow> find_value n False (answer_list fls vs @ rest) = find_value n False rest"
  by (induction fls arbitrary: vs) (auto simp: answer_list_def find_value_skip zip_Cons1 split: list.split)

lemma choice_before:
  assumes "\<forall>fl\<in>set fls. ff_name fl \<noteq> Some n"
  shows "choice_mask n False (answer_list fls vs @ rest) m = choice_mask n False rest m"
  using assms
proof (induction fls arbitrary: vs)
  case (Cons fl fls)
  show ?case
  proof (cases vs)
    case (Cons v vs')
    have "choice_mask n False (answer_strs fl v @ answer_list fls vs' @ rest) m = choice_mask n False (answer_list fls vs' @ rest) m"
      using choice_skip [of fl n False v "answer_list fls vs' @ rest" m] Cons.prems by auto
    then show ?thesis using Cons.IH Cons.prems Cons by (simp add: answer_list_def)
  qed (simp add: answer_list_def)
qed (simp add: answer_list_def)

lemma find_value_answer:
  assumes "i < length fls" "i < length vs" "ff_name (fls ! i) = Some n" "\<not> type_is_prose (ff_type (fls ! i))"
    and "\<forall>j<length fls. j \<noteq> i \<longrightarrow> ff_name (fls ! j) \<noteq> Some n" "answer_values (fls ! i) (vs ! i) = t # ts"
  shows "find_value n False (answer_list fls vs) = Some t"
proof -
  have "\<forall>fl\<in>set (take i fls). ff_name fl \<noteq> Some n" using assms(1,5) by (auto simp: in_set_conv_nth)
  then show ?thesis using assms(3,4,6) unfolding answer_list_split [OF assms(1,2)]
    by (simp add: find_value_before) (simp add: answer_strs_def key_entry)
qed

definition add_choice :: "u32 \<Rightarrow> int \<Rightarrow> u32" where
  "add_choice m k = (if 0 \<le> k \<and> k < 32 then m OR push_bit (nat k) 1 else m)"

lemma choice_mask_answer:
  assumes "i < length fls" "i < length vs" "ff_name (fls ! i) = Some n" "\<not> type_is_prose (ff_type (fls ! i))"
    and "\<forall>j<length fls. j \<noteq> i \<longrightarrow> ff_name (fls ! j) \<noteq> Some n" "answer_values (fls ! i) (vs ! i) = map num_text ks"
    and "\<forall>k\<in>set ks. - (2 ^ 31) < k \<and> k < 2 ^ 31"
  shows "choice_mask n False (answer_list fls vs) 0 = Some (foldl add_choice 0 ks)"
proof -
  let ?rest = "answer_list (drop (Suc i) fls) (drop (Suc i) vs)"
  have before: "\<forall>fl\<in>set (take i fls). ff_name fl \<noteq> Some n" using assms(1,5) by (auto simp: in_set_conv_nth)
  have after: "\<forall>fl\<in>set (drop (Suc i) fls). ff_name fl \<noteq> Some n" using assms(1,5) by (auto simp: in_set_conv_nth)
  have "choice_mask n True (map (entry K_VALUE \<circ> num_text) ks @ ?rest) m = Some (foldl add_choice m ks)" for m
    using assms(7)
  proof (induction ks arbitrary: m)
    case Nil
    then show ?case using choice_rest [OF after] by simp
  next
    case (Cons k ks)
    then show ?case using parse_num [of k] by (simp add: key_entry add_choice_def)
  qed
  then show ?thesis using assms(3,4,6) unfolding answer_list_split [OF assms(1,2)]
    by (simp add: choice_before [OF before]) (simp add: answer_strs_def key_entry)
qed

lemma fold_choices: "n \<le> 32 \<Longrightarrow> foldl add_choice 0 (map int (filter (bit ch) [0 ..< n])) = take_bit n ch"
proof (induction n)
  case (Suc n)
  have "take_bit (Suc n) ch = (if bit ch n then take_bit n ch OR push_bit n 1 else take_bit n ch)"
    using Suc.prems by (intro bit_word_eqI) (auto simp: bit_simps less_Suc_eq)
  then show ?case using Suc by (simp add: add_choice_def)
qed simp

lemma small_choice:
  assumes "(w :: u32) < 32"
  shows "- (2 ^ 31) < sint w" "sint w < 2 ^ 31" "add_choice 0 (sint w) = push_bit (unat w) 1"
proof -
  have u: "unat w < 32" using assms by (simp add: word_less_nat_alt)
  then have i: "uint w < 32" "0 \<le> uint w" unfolding uint_nat by linarith+
  have lo: "- (2 ^ 31) < uint w" by (rule less_le_trans [OF _ i(2)]) simp
  have s: "sint w = uint w" unfolding sint_uint
    by (rule signed_take_bit_int_eq_self) (use i(1) less_imp_le [OF lo] in simp_all)
  show "- (2 ^ 31) < sint w" "sint w < 2 ^ 31" using s i(1) lo by simp_all
  show "add_choice 0 (sint w) = push_bit (unat w) 1" unfolding s using i by (simp add: add_choice_def)
qed

section \<open>The message\<close>

definition answers_msg :: "bytes \<Rightarrow> bytes" where
  "answers_msg blob = MSG_IA_SUBMIT # ms_tag F_ANSWERS MS_WIRE_BYTES # le16 (of_nat (length blob)) @ blob"

lemma encode_answers_msg:
  assumes "\<forall>fl\<in>set (fm_fields f). field_ok fl" "\<forall>v\<in>set vs. value_ok v"
  defines "ss \<equiv> answer_list (fm_fields f) vs"
  shows "\<exists>len msg. encode_answers (replicate NC_FORM_MAX_MSG 0) f vs = Some (len, msg) \<and>
     (0 \<le> len \<longrightarrow> (\<forall>s\<in>set ss. length s < 65536) \<and> length (packed_run ss) \<le> NC_FORM_MAX_MSG \<and> take (nat len) msg = answers_msg (packed_run ss))"
proof -
  obtain sk where sk: "encode_answer_list \<lparr>sk_buf = [], sk_cap = NC_FORM_MAX_MSG, sk_err = False\<rparr> (fm_fields f) vs = Some sk"
    "wrote \<lparr>sk_buf = [], sk_cap = NC_FORM_MAX_MSG, sk_err = False\<rparr> ss sk"
    using encode_answer_list_wrote [OF assms(1,2)] unfolding ok_def ss_def by blast
  define o1 where "o1 = MSG_IA_SUBMIT # replicate 1999 (0 :: u8)"
  have o1: "put_at (replicate NC_FORM_MAX_MSG 0) 0 [MSG_IA_SUBMIT] = Some o1"
    by (simp add: put_at_def o1_def NC_FORM_MAX_MSG_def)
  have l1: "length o1 = 2000" by (simp add: o1_def)
  show ?thesis
  proof (cases "sk_err sk \<or> 1 + 3 + int (length (sk_buf sk)) > 2000")
    case True
    have "length (sk_buf sk) < 65536" if "\<not> sk_err sk" using sk(2) that by (auto simp: wrote_def NC_FORM_MAX_MSG_def)
    then show ?thesis using True sk(1) o1 l1
      by (auto simp: encode_answers_def ms_write_bytes_enc NC_AUTH_ERR_def MS_ERR_def NC_FORM_MAX_MSG_def)
  next
    case False
    then have b: "sk_buf sk = packed_run ss" "\<forall>s\<in>set ss. length s < 65536" "length (packed_run ss) \<le> 1996"
      using sk(2) by (auto simp: wrote_def)
    define m where "m = answers_msg (packed_run ss)"
    have lm: "length m = 4 + length (packed_run ss)" by (simp add: m_def answers_msg_def)
    have p: "put_at o1 1 (ms_tag F_ANSWERS MS_WIRE_BYTES # le16 (of_nat (length (packed_run ss))) @ packed_run ss) = Some (m @ drop (length m) o1)"
      using b(3) l1 by (simp add: put_at_def m_def answers_msg_def o1_def)
    have "encode_answers (replicate NC_FORM_MAX_MSG 0) f vs = Some (4 + int (length (packed_run ss)), m @ drop (length m) o1)"
      using False sk(1) o1 l1 b p by (simp add: encode_answers_def ms_write_bytes_enc NC_FORM_MAX_MSG_def)
    moreover have "nat (4 + int (length (packed_run ss))) = length m" using lm by simp
    ultimately show ?thesis using b(2,3) by (simp add: m_def NC_FORM_MAX_MSG_def)
  qed
qed

lemma tag_fields_answers:
  assumes "length blob < 65536"
  shows "tag_fields (\<lambda>field wire. field = F_ANSWERS \<and> wire = MS_WIRE_BYTES) (answers_msg blob) 1 = Some (Some [(F_ANSWERS, blob)])"
proof -
  define msg where "msg = answers_msg blob"
  have l: "length msg = 4 + length blob" by (simp add: msg_def answers_msg_def)
  have t: "get_at msg 1 = Some (ms_tag F_ANSWERS MS_WIRE_BYTES)" by (simp add: msg_def answers_msg_def get_at_def)
  have f: "drop_bit 3 (ms_tag F_ANSWERS MS_WIRE_BYTES) = F_ANSWERS" "ms_tag F_ANSWERS MS_WIRE_BYTES AND 7 = MS_WIRE_BYTES"
    by (simp_all add: ms_tag_parts F_ANSWERS_def MS_WIRE_BYTES_def)
  have "at_pos msg 2 (le16 (of_nat (length blob)) @ blob)" by (simp add: msg_def answers_msg_def at_pos_def)
  then have r: "ms_read_bytes msg 2 (int (length msg)) 0xffff = Some (Some ((4, of_nat (length blob)), int (length msg)))"
    using ms_read_bytes_enc(1) [of blob msg 2 "int (length msg)" "0xffff"] assms l by (simp add: word_le_nat_alt unat_len16)
  have d: "rd_bytes msg 4 (length blob) = Some blob"
    by (simp add: rd_bytes_def msg_def answers_msg_def le16_def)
  have e: "tag_fields w msg (int (length msg)) = Some (Some [])" for w by (subst tag_fields.simps) simp
  show ?thesis unfolding msg_def [symmetric] using r d e t f l unat_len16 [OF assms]
    by (subst tag_fields.simps) (simp add: Let_def)
qed

lemma decode_answers_run:
  assumes "\<forall>s\<in>set ss. length s < 65536 \<and> 0 \<notin> set s" "length (packed_run ss) \<le> NC_FORM_MAX_MSG"
    and "a_buf a = Some buf" "NC_FORM_MAX_MSG \<le> length buf"
  shows "\<exists>a' b. decode_answers a (answers_msg (packed_run ss)) = Some (NC_AUTH_OK, a') \<and> a_buf a' = Some b \<and>
     cstrings (take (a_strings a') b) = Some ss"
proof -
  have l: "length (packed_run ss) < 65536" using assms(2) by (simp add: NC_FORM_MAX_MSG_def)
  obtain ar where ar: "unpack \<lparr>ar_buf = buf, ar_used = 0\<rparr> (packed_run ss) = Some (int (length ss), ar)"
     "take (ar_used ar) (ar_buf ar) = nul_run ss"
    using unpack_run [of ss "\<lparr>ar_buf = buf, ar_used = 0\<rparr>"] assms nul_run_shorter [of ss] by auto
  show ?thesis using assms(1,3) ar tag_fields_answers [OF l] cstrings_run [of ss]
    by (simp add: decode_answers_def last_field_def)
qed

lemma answers_no_nul:
  assumes "\<forall>fl\<in>set fls. field_ok fl" "\<forall>v\<in>set vs. value_ok v"
  shows "\<forall>s\<in>set (answer_list fls vs). 0 \<notin> set s"
proof -
  have k: "0 \<notin> set K_NAME" "0 \<notin> set K_VALUE" by (simp_all add: K_NAME_def K_VALUE_def str_of_def)
  have "0 \<notin> set t" if "t \<in> set (answer_values fl v)" "value_ok v" for t fl v
    using that num_no_nul by (auto simp: answer_values_def value_ok_def str_of_def split: if_splits option.splits)
  then have "\<forall>s\<in>set (answer_strs fl v). 0 \<notin> set s" if "field_ok fl" "value_ok v" for fl v
    using that k by (auto simp: answer_strs_def entry_def field_ok_def split: option.splits if_splits)
  then show ?thesis using assms by (force simp: answer_list_def dest: set_zip_leftD set_zip_rightD)
qed

section \<open>Round trip\<close>

lemma lookup_defs:
  assumes "a_buf a = Some b" "cstrings (take (a_strings a) b) = Some ss"
  shows "value_of a (Some n) = Some (find_value n False ss)" "nc_auth_value_choice a (Some n) = choice_mask n False ss 0"
  using assms by (simp_all add: value_of_def nc_auth_value_choice_def)

text \<open>What the server reads for one field, with defaults \<open>d\<close> and \<open>b\<close>: the text, the number, the flag, the picked
  option as one bit, or the set of picked options.\<close>

definition answer_found :: "nc_auth \<Rightarrow> nc_form_field \<Rightarrow> nc_form_value \<Rightarrow> bytes \<Rightarrow> int \<Rightarrow> bool \<Rightarrow> bool" where
  "answer_found a' fl v n d b \<longleftrightarrow>
     (if ff_type fl = NC_FF_INTEGER then
        nc_auth_value_int a' (Some n) d = (if fv_number v = - (2 ^ 31) then None else Some (fv_number v))
      else if ff_type fl = NC_FF_BOOL then nc_auth_value_bool a' (Some n) b = Some (fv_on v)
      else if ff_type fl = NC_FF_CHOICE then
        if ff_flags fl AND NC_FF_MULTI \<noteq> 0 then nc_auth_value_choice a' (Some n) = Some (take_bit (noptions fl) (fv_choice v))
        else fv_choice v < 32 \<longrightarrow> nc_auth_value_choice a' (Some n) = Some (push_bit (unat (fv_choice v)) 1)
      else nc_auth_value_text a' (Some n) = Some (Some (case fv_text v of Some t \<Rightarrow> t | None \<Rightarrow> [])))"

lemma answer_found:
  assumes at: "i < length fls" "i < length vs" "ff_name (fls ! i) = Some n" "\<not> type_is_prose (ff_type (fls ! i))"
      "\<forall>j<length fls. j \<noteq> i \<longrightarrow> ff_name (fls ! j) \<noteq> Some n"
    and look: "\<And>n. value_of a' (Some n) = Some (find_value n False (answer_list fls vs))"
      "\<And>n. nc_auth_value_choice a' (Some n) = choice_mask n False (answer_list fls vs) 0"
    and okay: "field_ok (fls ! i)" "value_ok (vs ! i)"
  shows "answer_found a' (fls ! i) (vs ! i) n d b"
proof -
  let ?fl = "fls ! i" and ?v = "vs ! i"
  note found = find_value_answer [OF at]
  note types = NC_FF_INTEGER_def NC_FF_BOOL_def NC_FF_CHOICE_def
  consider (int) "ff_type ?fl = NC_FF_INTEGER" | (bool) "ff_type ?fl = NC_FF_BOOL" | (choice) "ff_type ?fl = NC_FF_CHOICE"
    | (plain) "ff_type ?fl \<notin> {NC_FF_INTEGER, NC_FF_BOOL, NC_FF_CHOICE}" by auto
  then show ?thesis
  proof cases
    case int
    then have "value_of a' (Some n) = Some (Some (num_text (fv_number ?v)))" using found look(1) by (simp add: answer_values_def)
    then show ?thesis using int parse_num [of "fv_number ?v"] parse_num_overflow okay(2)
      by (auto simp: answer_found_def nc_auth_value_int_def value_ok_def)
  next
    case bool
    then have "value_of a' (Some n) = Some (Some (if fv_on ?v then str_of ''1'' else str_of ''0''))"
      using found look(1) by (simp add: answer_values_def types)
    then show ?thesis using bool by (simp add: answer_found_def nc_auth_value_bool_def types str_of_def)
  next
    case plain
    then show ?thesis using found look(1) by (simp add: answer_found_def nc_auth_value_text_def answer_values_def)
  next
    case choice
    show ?thesis
    proof (cases "ff_flags ?fl AND NC_FF_MULTI = 0")
      case True
      have "choice_mask n False (answer_list fls vs) 0 = Some (push_bit (unat (fv_choice ?v)) 1)" if "fv_choice ?v < 32"
        using choice_mask_answer [OF at, of "[sint (fv_choice ?v)]"] choice True small_choice [OF that]
        by (simp add: answer_values_def types)
      then show ?thesis using choice True look(2) by (simp add: answer_found_def types)
    next
      case False
      then show ?thesis
        using choice_mask_answer [OF at, of "map int (filter (bit (fv_choice ?v)) [0 ..< noptions ?fl])"] choice look(2) okay(1)
        by (auto simp: answer_found_def answer_values_def types fold_choices field_ok_def NC_FORM_MAX_OPTIONS_def)
    qed
  qed
qed

text \<open>
  C13: What a client submits is what the server reads.  For every form (strings without NUL, 32-bit
  numbers, at most 16 options per field) and every list of values, the client's encoder returns without
  undefined behaviour; unless it reports that the answers do not fit, the server decodes the message, with
  a buffer of at least \<open>NC_FORM_MAX_MSG\<close> bytes, and finds for every field that is asked, has a name of
  its own and was answered: the text, the number, the flag, the picked option as one bit, or the set of
  picked options.  The one number that does not come back is the smallest 32-bit one: reading it
  overflows.
\<close>

theorem answers_round_trip:
  assumes "\<forall>fl\<in>set (fm_fields f). field_ok fl" "\<forall>v\<in>set vs. value_ok v"
    and "a_buf a = Some buf" "NC_FORM_MAX_MSG \<le> length buf"
  shows "\<exists>len msg. encode_answers (replicate NC_FORM_MAX_MSG 0) f vs = Some (len, msg) \<and>
    (0 \<le> len \<longrightarrow> (\<exists>a'. decode_answers a (take (nat len) msg) = Some (NC_AUTH_OK, a') \<and>
       (\<forall>i n fl v. i < length (fm_fields f) \<and> i < length vs \<and> fl = fm_fields f ! i \<and> v = vs ! i \<and>
          ff_name fl = Some n \<and> \<not> type_is_prose (ff_type fl) \<and>
          (\<forall>j<length (fm_fields f). j \<noteq> i \<longrightarrow> ff_name (fm_fields f ! j) \<noteq> Some n) \<longrightarrow>
          answer_found a' fl v n d b)))"
proof -
  let ?fls = "fm_fields f"
  let ?ss = "answer_list ?fls vs"
  obtain len msg where enc: "encode_answers (replicate NC_FORM_MAX_MSG 0) f vs = Some (len, msg)"
    "0 \<le> len \<Longrightarrow> (\<forall>s\<in>set ?ss. length s < 65536) \<and> length (packed_run ?ss) \<le> NC_FORM_MAX_MSG \<and> take (nat len) msg = answers_msg (packed_run ?ss)"
    using encode_answers_msg [OF assms(1,2)] by blast
  show ?thesis
  proof (cases "0 \<le> len")
    case True
    obtain a' b' where dec: "decode_answers a (take (nat len) msg) = Some (NC_AUTH_OK, a')" "a_buf a' = Some b'"
      "cstrings (take (a_strings a') b') = Some ?ss"
      using decode_answers_run [of ?ss a buf] enc(2) [OF True] answers_no_nul [OF assms(1,2)] assms(3,4) by auto
    note look = lookup_defs [OF dec(2,3)]
    have "answer_found a' (?fls ! i) (vs ! i) n d b" if "i < length ?fls" "i < length vs" "ff_name (?fls ! i) = Some n"
       "\<not> type_is_prose (ff_type (?fls ! i))" "\<forall>j<length ?fls. j \<noteq> i \<longrightarrow> ff_name (?fls ! j) \<noteq> Some n" for i n
      using answer_found [OF that look] assms(1,2) that(1,2) by (meson nth_mem)
    then show ?thesis using enc(1) dec(1) by auto
  qed (use enc(1) in auto)
qed

theorem answers_round_trip_witness:
  "\<exists>len msg a'. encode_answers (replicate NC_FORM_MAX_MSG 0) (form_zero\<lparr>fm_fields := [field_zero\<lparr>ff_type := NC_FF_TEXT, ff_name := Some [97]\<rparr>]\<rparr>)
       [\<lparr>fv_text = Some [104, 105], fv_number = 0, fv_choice = 0, fv_on = False\<rparr>] = Some (len, msg) \<and> 0 \<le> len \<and>
     decode_answers (auth_zero\<lparr>a_buf := Some (replicate 2000 0)\<rparr>) (take (nat len) msg) = Some (NC_AUTH_OK, a') \<and>
     nc_auth_value_text a' (Some [97]) = Some (Some [104, 105])"
proof -
  define fl where "fl = field_zero\<lparr>ff_type := NC_FF_TEXT, ff_name := Some [97]\<rparr>"
  define f where "f = form_zero\<lparr>fm_fields := [fl]\<rparr>"
  define v where "v = \<lparr>fv_text = Some [104, 105], fv_number = 0, fv_choice = 0, fv_on = False\<rparr>"
  have t: "ff_type fl = 1" "ff_name fl = Some [97]" "fm_fields f = [fl]" "fv_text v = Some [104, 105]"
    by (simp_all add: fl_def f_def v_def NC_FF_TEXT_def)
  note types = NC_FF_INTEGER_def NC_FF_BOOL_def NC_FF_CHOICE_def type_is_prose_def NC_FF_NOTE_def NC_FF_LINK_def
  have h: "\<forall>fl\<in>set (fm_fields f). field_ok fl" "\<forall>u\<in>set [v]. value_ok u"
    by (simp_all add: t field_ok_def value_ok_def v_def) (simp add: fl_def noptions_def field_zero_def)
  have "\<exists>msg. encode_answers (replicate NC_FORM_MAX_MSG 0) f [v] = Some (15, msg)"
    by (simp add: encode_answers_def t encode_answer_def types sink_str_def sink_put_def emit_def K_NAME_def K_VALUE_def str_of_def
        NC_FORM_MAX_MSG_def put_at_def ms_write_tag_bytes_def)
  then obtain msg where enc: "encode_answers (replicate NC_FORM_MAX_MSG 0) f [v] = Some (15, msg)" by blast
  obtain a' where "decode_answers (auth_zero\<lparr>a_buf := Some (replicate 2000 0)\<rparr>) (take (nat 15) msg) = Some (NC_AUTH_OK, a')"
      "answer_found a' fl v [97] 0 False"
    using answers_round_trip [OF h, of "auth_zero\<lparr>a_buf := Some (replicate 2000 0)\<rparr>" "replicate 2000 0" 0 False] enc t
    by (fastforce simp: NC_FORM_MAX_MSG_def types)
  then show ?thesis using enc by (auto simp: answer_found_def t types fl_def [symmetric] f_def [symmetric] v_def [symmetric] nc_auth_value_text_def)
qed

end
