(* ===== verification/Crypto_Session.thy ===== *)
theory Crypto_Session
  imports Prelude
begin

text \<open>
  The encrypted transport decorator (\<open>crypto/nc_crypto.c\<close>): one handshake of ephemeral and identity
  keys, a sealed datagram per packet with a 64-bit counter, and a replay window.  The primitives of
  monocypher are a parameter, the record \<open>crypto_lib\<close>; \<open>crypto_verify32\<close> is equality, and
  \<open>crypto_wipe\<close> of a local variable has no effect the model can see.  Keys are lists of 32 bytes.
\<close>

section \<open>Constants and data\<close>

definition NC_CRYPTO_OK :: int where "NC_CRYPTO_OK = 0"
definition NC_CRYPTO_ERR :: int where "NC_CRYPTO_ERR = -1"
definition NC_CRYPTO_HELLO :: u8 where "NC_CRYPTO_HELLO = 1"
definition NC_CRYPTO_DATA :: u8 where "NC_CRYPTO_DATA = 2"
definition NC_CRYPTO_HELLO_LEN :: nat where "NC_CRYPTO_HELLO_LEN = 65"
definition NC_CRYPTO_OVERHEAD :: nat where "NC_CRYPTO_OVERHEAD = 25"
definition LABEL_SID :: u8 where "LABEL_SID = 0"
definition LABEL_I2R :: u8 where "LABEL_I2R = 1"
definition LABEL_R2I :: u8 where "LABEL_R2I = 2"
definition zero32 :: bytes where "zero32 = replicate 32 0"

text \<open>\<open>x25519 sk pk\<close>, \<open>x25519_public_key sk\<close>, \<open>blake2b n msg\<close>; \<open>aead_lock key nonce plain\<close> gives the mac and the
  ciphertext, \<open>aead_unlock mac key nonce cipher\<close> the plaintext or a refusal.\<close>

record crypto_lib =
  x25519 :: "bytes \<Rightarrow> bytes \<Rightarrow> bytes"
  x25519_public_key :: "bytes \<Rightarrow> bytes"
  blake2b :: "nat \<Rightarrow> bytes \<Rightarrow> bytes"
  aead_lock :: "bytes \<Rightarrow> bytes \<Rightarrow> bytes \<Rightarrow> bytes \<times> bytes"
  aead_unlock :: "bytes \<Rightarrow> bytes \<Rightarrow> bytes \<Rightarrow> bytes \<Rightarrow> bytes option"

record nc_crypto =
  k_role :: nat
  have_key :: bool
  k_failed :: bool
  eph_sk :: bytes
  eph_pk :: bytes
  have_static :: bool
  static_sk :: bytes
  static_pk :: bytes
  peer_has_static :: bool
  peer_static_pk :: bytes
  tx_key :: bytes
  rx_key :: bytes
  k_psk :: bytes
  k_sid :: bytes
  tx_counter :: u64
  rx_max :: u64
  rx_window :: u64
  require_peer_static :: bool
  verify_peer :: "(bytes option \<Rightarrow> int) option"

record nc_crypto_cfg =
  cfg_eph_sk_seed :: "bytes option"
  cfg_psk :: "bytes option"
  cfg_static_sk :: "bytes option"
  cfg_require_peer_static :: bool
  cfg_verify_peer :: "(bytes option \<Rightarrow> int) option"

definition crypto_zero :: nc_crypto where
  "crypto_zero = \<lparr>k_role = 0, have_key = False, k_failed = False, eph_sk = zero32, eph_pk = zero32, have_static = False,
     static_sk = zero32, static_pk = zero32, peer_has_static = False, peer_static_pk = zero32, tx_key = zero32, rx_key = zero32,
     k_psk = zero32, k_sid = zero32, tx_counter = 0, rx_max = 0, rx_window = 0, require_peer_static = False, verify_peer = None\<rparr>"

section \<open>Bytes\<close>

text \<open>The loop from \<open>i = n - 1\<close> down to 0.\<close>

fun wr_be :: "nat \<Rightarrow> u64 \<Rightarrow> bytes" where
  "wr_be 0 v = []"
| "wr_be (Suc n) v = wr_be n (drop_bit 8 v) @ [ucast (v AND 0xff)]"

definition wr64be :: "u64 \<Rightarrow> bytes" where
  "wr64be v = wr_be 8 v"

definition rd64be :: "bytes \<Rightarrow> nat \<Rightarrow> u64 option" where
  "rd64be p off = do { b \<leftarrow> rd_bytes p off 8; Some (foldl (\<lambda>v x. push_bit 8 v OR ucast x) 0 b) }"

definition is_zero32 :: "bytes \<Rightarrow> bool" where
  "is_zero32 p \<longleftrightarrow> p = zero32"

text \<open>\<open>memcmp(a, b, 32) > 0\<close>\<close>

fun memcmp_pos :: "bytes \<Rightarrow> bytes \<Rightarrow> bool" where
  "memcmp_pos (x # xs) (y # ys) = (if x = y then memcmp_pos xs ys else y < x)"
| "memcmp_pos _ _ = False"

section \<open>Key derivation\<close>

definition derive_out :: "crypto_lib \<Rightarrow> bytes \<Rightarrow> bytes \<Rightarrow> bytes \<Rightarrow> bytes \<Rightarrow> bytes \<Rightarrow> bytes \<Rightarrow> bytes \<Rightarrow> bytes \<Rightarrow> u8 \<Rightarrow> bytes" where
  "derive_out lib dh_ee dh_is dh_si eph_lo eph_hi s_init s_resp psk label =
     blake2b lib 32 (dh_ee @ dh_is @ dh_si @ eph_lo @ eph_hi @ s_init @ s_resp @ psk @ [label])"

definition derive_session :: "crypto_lib \<Rightarrow> nc_crypto \<Rightarrow> bytes \<Rightarrow> int \<times> nc_crypto" where
  "derive_session lib c peer_eph =
     (let dh_ee = x25519 lib (eph_sk c) peer_eph in
      if is_zero32 dh_ee then (NC_CRYPTO_ERR, c)
      else
        let dh_is = (if k_role c = 0
                     then if peer_has_static c then x25519 lib (eph_sk c) (peer_static_pk c) else zero32
                     else if have_static c then x25519 lib (static_sk c) peer_eph else zero32);
            dh_si = (if k_role c = 0
                     then if have_static c then x25519 lib (static_sk c) peer_eph else zero32
                     else if peer_has_static c then x25519 lib (eph_sk c) (peer_static_pk c) else zero32);
            (eph_lo, eph_hi) = (if memcmp_pos (eph_pk c) peer_eph then (peer_eph, eph_pk c) else (eph_pk c, peer_eph));
            s_init = (if k_role c = 0 then static_pk c else peer_static_pk c);
            s_resp = (if k_role c = 0 then peer_static_pk c else static_pk c);
            out = derive_out lib dh_ee dh_is dh_si eph_lo eph_hi s_init s_resp (k_psk c);
            k_i2r = out LABEL_I2R; k_r2i = out LABEL_R2I in
        (NC_CRYPTO_OK, c\<lparr>k_sid := out LABEL_SID,
           tx_key := (if k_role c = 0 then k_i2r else k_r2i), rx_key := (if k_role c = 0 then k_r2i else k_i2r), have_key := True\<rparr>))"

section \<open>Calls\<close>

text \<open>\<open>rnd\<close> is what \<open>fill_random\<close> returns and the 32 bytes it leaves in the buffer.\<close>

definition nc_crypto_init :: "crypto_lib \<Rightarrow> int \<times> bytes \<Rightarrow> int \<Rightarrow> nc_crypto_cfg option \<Rightarrow> (int \<times> nc_crypto) option" where
  "nc_crypto_init lib rnd role cfg =
     (let c = crypto_zero\<lparr>k_role := (if role \<noteq> 0 then 1 else 0)\<rparr> in do {
      (rc, sk) \<leftarrow> (case cfg of
                    Some g \<Rightarrow> (case cfg_eph_sk_seed g of Some s \<Rightarrow> do { s \<leftarrow> rd_bytes s 0 32; Some (NC_CRYPTO_OK, s) } | None \<Rightarrow> Some rnd)
                  | None \<Rightarrow> Some rnd);
      let c = c\<lparr>eph_sk := sk\<rparr>;
      if rc \<noteq> NC_CRYPTO_OK then Some (NC_CRYPTO_ERR, c)
      else
        let c = c\<lparr>eph_pk := x25519_public_key lib sk\<rparr> in
        (case cfg of
           None \<Rightarrow> Some (NC_CRYPTO_OK, c)
         | Some g \<Rightarrow> do {
             c \<leftarrow> (case cfg_psk g of Some p \<Rightarrow> do { p \<leftarrow> rd_bytes p 0 32; Some (c\<lparr>k_psk := p\<rparr>) } | None \<Rightarrow> Some c);
             c \<leftarrow> (case cfg_static_sk g of
                     Some s \<Rightarrow> do { s \<leftarrow> rd_bytes s 0 32; Some (c\<lparr>static_sk := s, static_pk := x25519_public_key lib s, have_static := True\<rparr>) }
                   | None \<Rightarrow> Some c);
             Some (NC_CRYPTO_OK, c\<lparr>require_peer_static := cfg_require_peer_static g, verify_peer := cfg_verify_peer g\<rparr>) }) })"

definition nc_crypto_identity_public :: "crypto_lib \<Rightarrow> bytes \<Rightarrow> bytes" where
  "nc_crypto_identity_public lib sk = x25519_public_key lib sk"

text \<open>The byte count and what is written to \<open>out\<close>.\<close>

definition nc_crypto_handshake_packet :: "nc_crypto \<Rightarrow> nat \<Rightarrow> (nat \<times> bytes) option" where
  "nc_crypto_handshake_packet c cap =
     (if cap < NC_CRYPTO_HELLO_LEN then Some (0, [])
      else do {
        b \<leftarrow> emit cap [] [NC_CRYPTO_HELLO];
        b \<leftarrow> emit cap b (eph_pk c);
        b \<leftarrow> emit cap b (if have_static c then static_pk c else zero32);
        Some (NC_CRYPTO_HELLO_LEN, b) })"

definition nc_crypto_session_id :: "nc_crypto \<Rightarrow> bytes option" where
  "nc_crypto_session_id c = (if have_key c then Some (k_sid c) else None)"

text \<open>The 24 bytes of the nonce.\<close>

definition nonce_of :: "u64 \<Rightarrow> bytes" where
  "nonce_of counter = wr64be counter @ replicate 16 0"

definition nc_crypto_seal :: "crypto_lib \<Rightarrow> nc_crypto \<Rightarrow> bytes \<Rightarrow> nat \<Rightarrow> (int \<times> bytes \<times> nc_crypto) option" where
  "nc_crypto_seal lib c plain cap =
     (if \<not> have_key c then Some (NC_CRYPTO_ERR, [], c)
      else if cap < length plain + NC_CRYPTO_OVERHEAD then Some (NC_CRYPTO_ERR, [], c)
      else if tx_counter c = - 1 then Some (NC_CRYPTO_ERR, [], c)
      else
        let counter = tx_counter c + 1; (mac, ct) = aead_lock lib (tx_key c) (nonce_of counter) plain in do {
        b \<leftarrow> emit cap [] ([NC_CRYPTO_DATA] @ wr64be counter);
        b \<leftarrow> emit cap b mac;
        b \<leftarrow> emit cap b ct;
        Some (int (length plain + NC_CRYPTO_OVERHEAD), b, c\<lparr>tx_counter := counter\<rparr>) })"

definition replay_check_and_update :: "nc_crypto \<Rightarrow> u64 \<Rightarrow> int \<times> nc_crypto" where
  "replay_check_and_update c counter =
     (if counter = 0 then (NC_CRYPTO_ERR, c)
      else if rx_max c < counter then
        let shift = counter - rx_max c;
            w = (if 64 \<le> shift then 0 else push_bit (unat shift) (rx_window c)) in
        (NC_CRYPTO_OK, c\<lparr>rx_window := w OR 1, rx_max := counter\<rparr>)
      else
        let diff = rx_max c - counter in
        if 64 \<le> diff then (NC_CRYPTO_ERR, c)
        else
          let b = push_bit (unat diff) 1 in
          if rx_window c AND b \<noteq> 0 then (NC_CRYPTO_ERR, c)
          else (NC_CRYPTO_OK, c\<lparr>rx_window := rx_window c OR b\<rparr>))"

definition consume_hello :: "crypto_lib \<Rightarrow> nc_crypto \<Rightarrow> bytes \<Rightarrow> nc_crypto option" where
  "consume_hello lib c body = do {
     peer_static \<leftarrow> rd_bytes body 32 32;
     peer_eph \<leftarrow> rd_bytes body 0 32;
     let has = (\<not> is_zero32 peer_static);
     let c = c\<lparr>peer_has_static := has, peer_static_pk := (if has then peer_static else peer_static_pk c)\<rparr>;
     Some (if require_peer_static c \<and> \<not> has then c\<lparr>k_failed := True\<rparr>
       else if (case verify_peer c of Some f \<Rightarrow> f (if has then Some (peer_static_pk c) else None) \<noteq> NC_CRYPTO_OK | None \<Rightarrow> False)
         then c\<lparr>k_failed := True\<rparr>
       else let (rc, c') = derive_session lib c peer_eph in if rc \<noteq> NC_CRYPTO_OK then c'\<lparr>k_failed := True\<rparr> else c') }"

text \<open>The return value, what is left in \<open>out\<close>, and the session; \<open>cap\<close> bytes of \<open>out\<close> may be written.\<close>

definition nc_crypto_open :: "crypto_lib \<Rightarrow> nc_crypto \<Rightarrow> bytes \<Rightarrow> nat \<Rightarrow> (int \<times> bytes \<times> nc_crypto) option" where
  "nc_crypto_open lib c pkt cap =
     (if length pkt < 1 \<or> k_failed c then Some (NC_CRYPTO_ERR, [], c)
      else do {
        t \<leftarrow> rd8 pkt 0;
        if t = NC_CRYPTO_HELLO then
          if length pkt \<noteq> NC_CRYPTO_HELLO_LEN then Some (NC_CRYPTO_ERR, [], c)
          else if have_key c then Some (0, [], c)
          else do { body \<leftarrow> rd_bytes pkt 1 64; c \<leftarrow> consume_hello lib c body; Some (0, [], c) }
        else if t = NC_CRYPTO_DATA then
          if \<not> have_key c \<or> length pkt < NC_CRYPTO_OVERHEAD then Some (NC_CRYPTO_ERR, [], c)
          else
            let ct_len = length pkt - NC_CRYPTO_OVERHEAD in
            if cap < ct_len then Some (NC_CRYPTO_ERR, [], c)
            else do {
              counter \<leftarrow> rd64be pkt 1;
              mac \<leftarrow> rd_bytes pkt 9 16;
              ct \<leftarrow> rd_bytes pkt NC_CRYPTO_OVERHEAD ct_len;
              (case aead_unlock lib mac (rx_key c) (nonce_of counter) ct of
                 None \<Rightarrow> Some (NC_CRYPTO_ERR, [], c)
               | Some plain \<Rightarrow> do {
                   out \<leftarrow> emit cap [] plain;
                   let (rc, c) = replay_check_and_update c counter;
                   Some (if rc \<noteq> NC_CRYPTO_OK then (NC_CRYPTO_ERR, replicate ct_len 0, c) else (int ct_len, out, c)) }) }
        else Some (NC_CRYPTO_ERR, [], c) })"

end
