(* ===== verification/Crypto_Props.thy ===== *)
theory Crypto_Props
  imports Crypto_Session
begin

text \<open>
  The encrypted transport: the replay window accepts each counter at most once and everything fresh that is
  less than 64 behind; two ends that exchange their greetings agree on the session; and datagrams sealed by
  one end come out at the other end unchanged, each at most once, whatever the network does to them.
\<close>

section \<open>A replay filter\<close>

text \<open>What a filter that remembers every counter \<open>S\<close> accepted so far would accept.\<close>

definition fresh_counter :: "nat set \<Rightarrow> nat \<Rightarrow> bool" where
  "fresh_counter S n \<longleftrightarrow> 0 < n \<and> n \<notin> S \<and> Max (insert 0 S) < n + 64"

fun accepted_spec :: "nat set \<Rightarrow> u64 list \<Rightarrow> u64 list" where
  "accepted_spec S [] = []"
| "accepted_spec S (n # ns) =
     (if fresh_counter S (unat n) then n # accepted_spec (insert (unat n) S) ns else accepted_spec S ns)"

fun accepted_with :: "('s \<Rightarrow> u64 \<Rightarrow> int \<times> 's) \<Rightarrow> 's \<Rightarrow> u64 list \<Rightarrow> u64 list" where
  "accepted_with check s [] = []"
| "accepted_with check s (n # ns) =
     (case check s n of (rc, s') \<Rightarrow> if rc = NC_CRYPTO_OK then n # accepted_with check s' ns else accepted_with check s' ns)"

lemma accepted_spec_fresh: "unat ` set (accepted_spec S ns) \<inter> S = {} \<and> distinct (accepted_spec S ns)"
proof (induction ns arbitrary: S)
  case (Cons n ns)
  show ?case using Cons.IH [of S] Cons.IH [of "insert (unat n) S"] by (auto simp: fresh_counter_def)
qed simp

text \<open>The contract: \<open>rel s S\<close> says that state \<open>s\<close> has accepted the counters \<open>S\<close>.\<close>

locale replay_filter =
  fixes check :: "'s \<Rightarrow> u64 \<Rightarrow> int \<times> 's" and rel :: "'s \<Rightarrow> nat set \<Rightarrow> bool"
  assumes verdict: "rel s S \<Longrightarrow> fst (check s n) = NC_CRYPTO_OK \<longleftrightarrow> fresh_counter S (unat n)"
    and accept: "rel s S \<Longrightarrow> fresh_counter S (unat n) \<Longrightarrow> rel (snd (check s n)) (insert (unat n) S)"
    and refuse: "rel s S \<Longrightarrow> \<not> fresh_counter S (unat n) \<Longrightarrow> rel (snd (check s n)) S"
begin

lemma accepted_refines: "rel s S \<Longrightarrow> accepted_with check s ns = accepted_spec S ns"
proof (induction ns arbitrary: s S)
  case (Cons n ns)
  obtain rc s' where c: "check s n = (rc, s')" by (cases "check s n")
  show ?case using verdict [OF Cons.prems, of n] accept [OF Cons.prems, of n] refuse [OF Cons.prems, of n] Cons.IH c
    by (cases "fresh_counter S (unat n)") auto
qed simp

lemma accepted_once: "rel s S \<Longrightarrow> distinct (accepted_with check s ns)"
  using accepted_refines accepted_spec_fresh by metis

end

section \<open>The window is one\<close>

definition window_rel :: "nc_crypto \<Rightarrow> nat set \<Rightarrow> bool" where
  "window_rel c S \<longleftrightarrow> finite S \<and> 0 \<notin> S \<and> unat (rx_max c) = Max (insert 0 S) \<and>
     (\<forall>d<64. bit (rx_window c) d \<longleftrightarrow> unat (rx_max c) - d \<in> S)"

lemma window_le: "window_rel c S \<Longrightarrow> n \<in> S \<Longrightarrow> n \<le> unat (rx_max c)"
  unfolding window_rel_def by (metis Max_ge finite_insert insertI2)

lemma window_newer:
  assumes w: "window_rel c S" and n: "rx_max c < n"
  shows "replay_check_and_update c n = (NC_CRYPTO_OK, snd (replay_check_and_update c n))" "fresh_counter S (unat n)"
    and "window_rel (snd (replay_check_and_update c n)) (insert (unat n) S)"
proof -
  define m k sh where "m = unat (rx_max c)" "k = unat n" "sh = unat (n - rx_max c)"
  have m: "finite S" "0 \<notin> S" "m = Max (insert 0 S)" "\<And>d. d < 64 \<Longrightarrow> bit (rx_window c) d \<longleftrightarrow> m - d \<in> S"
    using w by (auto simp: window_rel_def m_k_sh_def)
  have k: "m < k" using n by (simp add: m_k_sh_def word_less_nat_alt)
  have sh: "sh = k - m" using n by (simp add: m_k_sh_def unat_sub less_imp_le)
  have le: "\<And>x. x \<in> S \<Longrightarrow> x \<le> m" using window_le [OF w] by (simp add: m_k_sh_def)
  have n0: "n \<noteq> 0" using n by auto
  define v where "v = (if 64 \<le> n - rx_max c then 0 else push_bit sh (rx_window c)) OR 1"
  have c': "replay_check_and_update c n = (NC_CRYPTO_OK, c\<lparr>rx_window := v, rx_max := n\<rparr>)"
    using n n0 by (simp add: replay_check_and_update_def Let_def v_def m_k_sh_def)
  then show "replay_check_and_update c n = (NC_CRYPTO_OK, snd (replay_check_and_update c n))" by simp
  have "k \<notin> S" using k le by force
  then show "fresh_counter S (unat n)" using k m(3) by (simp add: fresh_counter_def m_k_sh_def(2) [symmetric])
  have big: "(64 \<le> n - rx_max c) = (64 \<le> sh)" by (simp add: m_k_sh_def word_le_nat_alt)
  have "bit v d \<longleftrightarrow> k - d \<in> insert k S" if "d < 64" for d
  proof (cases "d = 0")
    case True
    then show ?thesis by (simp add: v_def bit_simps)
  next
    case False
    have "k - d \<noteq> k" using False k by simp
    moreover have "bit v d \<longleftrightarrow> k - d \<in> S"
    proof (cases "sh \<le> d")
      case True
      have "k - d = m - (d - sh)" using True sh k by simp
      then show ?thesis using True that False m(4) [of "d - sh"] by (simp add: v_def big bit_simps)
    next
      case far: False
      have "k - d \<notin> S" using far sh le by fastforce
      then show ?thesis using far False by (auto simp: v_def big bit_simps)
    qed
    ultimately show ?thesis by simp
  qed
  moreover have "Max (insert 0 (insert k S)) = k" using m(1) le k by (intro Max_eqI) (auto dest: le)
  ultimately show "window_rel (snd (replay_check_and_update c n)) (insert (unat n) S)"
    using c' m(1,2) k by (simp add: window_rel_def m_k_sh_def(2) [symmetric])
qed

lemma bit_and_one: "(w AND push_bit k 1 \<noteq> 0) = bit (w :: u64) k" if "k < 64"
proof -
  have "w AND push_bit k 1 = (if bit w k then push_bit k 1 else 0)"
    using that by (intro bit_word_eqI) (auto simp: bit_simps)
  moreover have "bit (push_bit k (1 :: u64)) k" using that by (simp add: bit_simps)
  ultimately show ?thesis using that by auto
qed

lemma window_older:
  assumes w: "window_rel c S" and n: "\<not> rx_max c < n"
  shows "fst (replay_check_and_update c n) = NC_CRYPTO_OK \<longleftrightarrow> fresh_counter S (unat n)"
    and "window_rel (snd (replay_check_and_update c n)) (if fresh_counter S (unat n) then insert (unat n) S else S)"
proof -
  define m k df where "m = unat (rx_max c)" "k = unat n" "df = unat (rx_max c - n)"
  have m: "finite S" "0 \<notin> S" "m = Max (insert 0 S)" "\<And>d. d < 64 \<Longrightarrow> bit (rx_window c) d \<longleftrightarrow> m - d \<in> S"
    using w by (auto simp: window_rel_def m_k_df_def)
  have k: "k \<le> m" using n by (simp add: m_k_df_def word_less_nat_alt)
  have df: "df = m - k" using n by (simp add: m_k_df_def unat_sub)
  have big: "(64 \<le> rx_max c - n) = (64 \<le> df)" by (simp add: m_k_df_def word_le_nat_alt)
  have n0: "n = 0 \<longleftrightarrow> k = 0" by (simp add: m_k_df_def unat_eq_0)
  have fresh: "fresh_counter S k \<longleftrightarrow> k \<noteq> 0 \<and> df < 64 \<and> \<not> bit (rx_window c) df"
    using m(3,4) k df by (auto simp: fresh_counter_def)
  define c' where "c' = c\<lparr>rx_window := rx_window c OR push_bit df 1\<rparr>"
  have eq: "replay_check_and_update c n = (if fresh_counter S k then (NC_CRYPTO_OK, c') else (NC_CRYPTO_ERR, c))"
    using n n0 big bit_and_one [of df "rx_window c"]
    by (auto simp: replay_check_and_update_def Let_def fresh c'_def m_k_df_def(3) [symmetric])
  then show "fst (replay_check_and_update c n) = NC_CRYPTO_OK \<longleftrightarrow> fresh_counter S (unat n)"
    by (simp add: m_k_df_def(2) [symmetric] NC_CRYPTO_OK_def NC_CRYPTO_ERR_def)
  have "window_rel c' (insert k S)" if f: "fresh_counter S k"
  proof -
    have k0: "0 < k" "df < 64" using f fresh by auto
    have "Max (insert 0 (insert k S)) = m" using m(1,3) k by (simp add: insert_commute [of 0])
    moreover have "bit (rx_window c') d \<longleftrightarrow> m - d \<in> insert k S" if "d < 64" for d
      using that m(4) [OF that] k0 k df by (auto simp: c'_def bit_simps)
    ultimately show ?thesis using m(1,2) k0 by (simp add: window_rel_def c'_def m_k_df_def(1) [symmetric])
  qed
  then show "window_rel (snd (replay_check_and_update c n)) (if fresh_counter S (unat n) then insert (unat n) S else S)"
    using eq w by (simp add: m_k_df_def(2) [symmetric])
qed

interpretation window: replay_filter replay_check_and_update window_rel
proof
  fix c S and n :: u64
  assume w: "window_rel c S"
  show "fst (replay_check_and_update c n) = NC_CRYPTO_OK \<longleftrightarrow> fresh_counter S (unat n)"
    using window_newer(1,2) [OF w, of n] window_older(1) [OF w, of n] by (cases "rx_max c < n") (metis fst_conv, auto)
  show "window_rel (snd (replay_check_and_update c n)) (insert (unat n) S)" if "fresh_counter S (unat n)"
    using window_newer(3) [OF w, of n] window_older(2) [OF w, of n] that by (cases "rx_max c < n") auto
  show "window_rel (snd (replay_check_and_update c n)) S" if "\<not> fresh_counter S (unat n)"
    using window_newer(2) [OF w, of n] window_older(2) [OF w, of n] that by (cases "rx_max c < n") auto
qed

lemma window_start: "rx_max c = 0 \<Longrightarrow> rx_window c = 0 \<Longrightarrow> window_rel c {}"
  by (simp add: window_rel_def)

section \<open>What the primitives promise\<close>

text \<open>Sizes, commutativity of the key exchange, and authenticated encryption that opens what was locked with the same
  key and nonce.\<close>

definition lib_ok :: "crypto_lib \<Rightarrow> bool" where
  "lib_ok lib \<longleftrightarrow>
     (\<forall>sk. length (x25519_public_key lib sk) = 32) \<and> (\<forall>n m. length (blake2b lib n m) = n) \<and>
     (\<forall>a b. x25519 lib a (x25519_public_key lib b) = x25519 lib b (x25519_public_key lib a)) \<and>
     (\<forall>k n p mac ct. aead_lock lib k n p = (mac, ct) \<longrightarrow> length mac = 16 \<and> length ct = length p \<and> aead_unlock lib mac k n ct = Some p) \<and>
     (\<forall>mac k n ct p. aead_unlock lib mac k n ct = Some p \<longrightarrow> length p = length ct)"

text \<open>Primitives that keep the promises, for the examples.\<close>

definition demo_lib :: crypto_lib where
  "demo_lib = \<lparr>x25519 = (\<lambda>a b. replicate 32 1), x25519_public_key = (\<lambda>sk. replicate 32 (hd sk)), blake2b = (\<lambda>n m. replicate n (last m)),
     aead_lock = (\<lambda>k n p. (replicate 16 0, p)), aead_unlock = (\<lambda>mac k n c. Some c)\<rparr>"

lemma demo_lib_ok: "lib_ok demo_lib"
  by (simp add: lib_ok_def demo_lib_def)

section \<open>Packets\<close>

lemma length_wr64be [simp]: "length (wr64be v) = 8"
  by (simp add: wr64be_def numeral_eq_Suc)

lemma byte_low: "(ucast (ucast (v AND 0xff :: u64) :: u8) :: u64) = take_bit 8 v"
proof (rule bit_word_eqI)
  fix i
  have "bit (0xff :: u64) i \<longleftrightarrow> i < 8" using bit_mask_iff [of 8 i, where 'a = u64] by (auto simp: mask_eq_exp_minus_1)
  then show "bit (ucast (ucast (v AND 0xff :: u64) :: u8) :: u64) i = bit (take_bit 8 v) i" by (auto simp: bit_simps)
qed

lemma wr_be_fold: "foldl (\<lambda>v x. push_bit 8 v OR ucast x) u (wr_be n v) = push_bit (8 * n) u OR take_bit (8 * n) (v :: u64)"
proof (induction n arbitrary: v)
  case (Suc n)
  have "push_bit 8 (push_bit (8 * n) u OR take_bit (8 * n) (drop_bit 8 v)) OR take_bit 8 v = push_bit (8 * Suc n) u OR take_bit (8 * Suc n) v"
    by (rule bit_word_eqI) (auto simp: bit_simps)
  then show ?case using Suc by (simp add: byte_low)
qed simp

lemma rd64be_wr: "rd64be (x # wr64be v @ rest) (Suc 0) = Some v"
  using wr_be_fold [of 0 8 v] length_wr64be [of v] by (simp add: rd64be_def wr64be_def take_bit_word_eq_self)

definition data_pkt :: "crypto_lib \<Rightarrow> bytes \<Rightarrow> u64 \<Rightarrow> bytes \<Rightarrow> bytes" where
  "data_pkt lib key n p = NC_CRYPTO_DATA # wr64be n @ fst (aead_lock lib key (nonce_of n) p) @ snd (aead_lock lib key (nonce_of n) p)"

lemma seal_step:
  assumes "lib_ok lib" "have_key s" "tx_counter s \<noteq> - 1" "length p + NC_CRYPTO_OVERHEAD \<le> cap"
  shows "nc_crypto_seal lib s p cap = Some (int (length p + NC_CRYPTO_OVERHEAD), data_pkt lib (tx_key s) (tx_counter s + 1) p,
     s\<lparr>tx_counter := tx_counter s + 1\<rparr>)"
proof -
  obtain mac ct where l: "aead_lock lib (tx_key s) (nonce_of (tx_counter s + 1)) p = (mac, ct)" by fastforce
  then have "length mac = 16" "length ct = length p" using assms(1) by (auto simp: lib_ok_def)
  then show ?thesis using assms l by (simp add: nc_crypto_seal_def emit_def data_pkt_def NC_CRYPTO_OVERHEAD_def Let_def)
qed

lemma open_step:
  assumes "lib_ok lib" "have_key r" "\<not> k_failed r" "length p \<le> cap" "rx_key r = key"
  shows "nc_crypto_open lib r (data_pkt lib key n p) cap =
     Some (case replay_check_and_update r n of (rc, r') \<Rightarrow>
       if rc = NC_CRYPTO_OK then (int (length p), p, r') else (NC_CRYPTO_ERR, replicate (length p) 0, r'))"
proof -
  obtain mac ct where l: "aead_lock lib key (nonce_of n) p = (mac, ct)" by fastforce
  then have s: "length mac = 16" "length ct = length p" "aead_unlock lib mac key (nonce_of n) ct = Some p"
    using assms(1) by (auto simp: lib_ok_def)
  define pkt where "pkt = data_pkt lib key n p"
  have e: "pkt = NC_CRYPTO_DATA # wr64be n @ mac @ ct" using l by (simp add: pkt_def data_pkt_def)
  have r: "length pkt = 25 + length p" "rd64be pkt 1 = Some n" "rd_bytes pkt 9 16 = Some mac" "rd_bytes pkt 25 (length p) = Some ct"
    using s by (simp_all add: e rd64be_wr rd_bytes_def)
  have h: "rd8 pkt 0 = Some 2" by (simp add: e NC_CRYPTO_DATA_def)
  show ?thesis using assms s r h unfolding pkt_def [symmetric]
    by (simp add: nc_crypto_open_def NC_CRYPTO_HELLO_def NC_CRYPTO_DATA_def NC_CRYPTO_OVERHEAD_def emit_def case_prod_beta)
qed

lemma replay_keeps:
  "replay_check_and_update c n = (rc, c') \<Longrightarrow> have_key c' = have_key c \<and> k_failed c' = k_failed c \<and> rx_key c' = rx_key c"
  by (auto simp: replay_check_and_update_def Let_def split: if_splits)

section \<open>The channel\<close>

fun seal_all :: "crypto_lib \<Rightarrow> nc_crypto \<Rightarrow> nat \<Rightarrow> bytes list \<Rightarrow> (bytes list \<times> nc_crypto) option" where
  "seal_all lib c cap [] = Some ([], c)"
| "seal_all lib c cap (p # ps) = do {
     (rc, pkt, c) \<leftarrow> nc_crypto_seal lib c p cap;
     (pkts, c) \<leftarrow> seal_all lib c cap ps;
     Some (if 0 \<le> rc then (pkt # pkts, c) else (pkts, c)) }"

text \<open>The receiver hands on what a call returns with a positive length.\<close>

fun open_all :: "crypto_lib \<Rightarrow> nc_crypto \<Rightarrow> nat \<Rightarrow> bytes list \<Rightarrow> (bytes list \<times> nc_crypto) option" where
  "open_all lib c cap [] = Some ([], c)"
| "open_all lib c cap (pkt # pkts) = do {
     (rc, out, c) \<leftarrow> nc_crypto_open lib c pkt cap;
     (outs, c) \<leftarrow> open_all lib c cap pkts;
     Some (if 0 < rc then (out # outs, c) else (outs, c)) }"

lemma seal_all_pkts:
  assumes "lib_ok lib" "have_key s" "tx_counter s = of_nat k" "k + length ps < 2 ^ 64" "\<forall>p\<in>set ps. length p + NC_CRYPTO_OVERHEAD \<le> cap"
  shows "\<exists>s'. seal_all lib s cap ps = Some (map (\<lambda>j. data_pkt lib (tx_key s) (of_nat (k + 1 + j)) (ps ! j)) [0 ..< length ps], s')"
  using assms
proof (induction ps arbitrary: s k)
  case (Cons p ps)
  have lt: "k < 2 ^ 64 - 1" using Cons.prems(4) by simp
  have "unat (of_nat k :: u64) = k" using Cons.prems(4) by (simp add: unat_of_nat take_bit_nat_eq_self)
  moreover have "unat (- 1 :: u64) = 2 ^ 64 - 1" by (simp add: unsigned_minus_1_eq_mask mask_eq_exp_minus_1)
  ultimately have "tx_counter s \<noteq> - 1" using lt Cons.prems(3) by auto
  then have step: "nc_crypto_seal lib s p cap = Some (int (length p + NC_CRYPTO_OVERHEAD), data_pkt lib (tx_key s) (of_nat (k + 1)) p,
     s\<lparr>tx_counter := of_nat (k + 1)\<rparr>)"
    using seal_step [of lib s p cap] Cons.prems by (simp add: add.commute)
  obtain s' where "seal_all lib (s\<lparr>tx_counter := of_nat (k + 1)\<rparr>) cap ps =
     Some (map (\<lambda>j. data_pkt lib (tx_key s) (of_nat (k + 1 + 1 + j)) (ps ! j)) [0 ..< length ps], s')"
    using Cons.IH [of "s\<lparr>tx_counter := of_nat (k + 1)\<rparr>" "k + 1"] Cons.prems by auto
  then show ?case using step
    by (simp add: upt_conv_Cons map_Suc_upt [symmetric] comp_def add.assoc del: upt_Suc of_nat_add of_nat_Suc)
qed simp

lemma open_all_accepts:
  assumes "lib_ok lib" "have_key r" "\<not> k_failed r" "rx_key r = key" "\<forall>n\<in>set ns. f n \<noteq> [] \<and> length (f n) \<le> cap"
  shows "\<exists>r'. open_all lib r cap (map (\<lambda>n. data_pkt lib key n (f n)) ns) = Some (map f (accepted_with replay_check_and_update r ns), r')"
  using assms
proof (induction ns arbitrary: r)
  case (Cons n ns)
  obtain rc r1 where c: "replay_check_and_update r n = (rc, r1)" by fastforce
  obtain r2 where "open_all lib r1 cap (map (\<lambda>n. data_pkt lib key n (f n)) ns) = Some (map f (accepted_with replay_check_and_update r1 ns), r2)"
    using Cons.IH [of r1] Cons.prems replay_keeps [OF c] by auto
  then show ?case using open_step [of lib r "f n" cap key n] Cons.prems c
    by (auto simp: NC_CRYPTO_ERR_def NC_CRYPTO_OK_def)
qed simp

section \<open>The handshake\<close>

lemma memcmp_total: "length a = length b \<Longrightarrow> a \<noteq> b \<Longrightarrow> memcmp_pos b a = (\<not> memcmp_pos a b)"
  by (induction a b rule: list_induct2) auto

lemma sorted_pair:
  "length a = length b \<Longrightarrow> (if memcmp_pos a b then (b, a) else (a, b)) = (if memcmp_pos b a then (a, b) else (b, a))"
  using memcmp_total [of a b] by (cases "a = b") auto

text \<open>An end that is set up: its public keys belong to its secret ones.\<close>

definition fresh_end :: "crypto_lib \<Rightarrow> nat \<Rightarrow> nc_crypto \<Rightarrow> bool" where
  "fresh_end lib role c \<longleftrightarrow> k_role c = role \<and> \<not> have_key c \<and> \<not> k_failed c \<and> eph_pk c = x25519_public_key lib (eph_sk c) \<and>
     (if have_static c then static_pk c = x25519_public_key lib (static_sk c) else static_pk c = zero32) \<and>
     peer_static_pk c = zero32 \<and> tx_counter c = 0 \<and> rx_max c = 0 \<and> rx_window c = 0"

lemma init_fresh:
  assumes "nc_crypto_init lib rnd role cfg = Some (NC_CRYPTO_OK, c)"
  shows "fresh_end lib (if role \<noteq> 0 then 1 else 0) c"
  using assms
  by (auto simp: nc_crypto_init_def Let_def crypto_zero_def fresh_end_def NC_CRYPTO_OK_def NC_CRYPTO_ERR_def bind_eq_Some_conv
      split: option.splits if_splits prod.splits)

text \<open>The identity an end presents, and whether the other end takes it.\<close>

definition identity :: "nc_crypto \<Rightarrow> bytes option" where
  "identity c = (if have_static c then Some (static_pk c) else None)"

definition takes :: "nc_crypto \<Rightarrow> bytes option \<Rightarrow> bool" where
  "takes c p \<longleftrightarrow> (require_peer_static c \<longrightarrow> p \<noteq> None) \<and> (case verify_peer c of Some f \<Rightarrow> f p = NC_CRYPTO_OK | None \<Rightarrow> True)"

lemma hello_packet:
  assumes "lib_ok lib" "fresh_end lib role c"
  shows "nc_crypto_handshake_packet c 65 = Some (65, NC_CRYPTO_HELLO # eph_pk c @ static_pk c)" "length (eph_pk c) = 32" "length (static_pk c) = 32"
proof -
  show l: "length (eph_pk c) = 32" "length (static_pk c) = 32"
    using assms by (auto simp: fresh_end_def lib_ok_def zero32_def split: if_splits)
  have z: "\<not> have_static c \<Longrightarrow> static_pk c = zero32" using assms(2) by (simp add: fresh_end_def)
  show "nc_crypto_handshake_packet c 65 = Some (65, NC_CRYPTO_HELLO # eph_pk c @ static_pk c)"
    using l z by (cases "have_static c") (auto simp: nc_crypto_handshake_packet_def emit_def NC_CRYPTO_HELLO_LEN_def)
qed

text \<open>The state after the other end's greeting is taken.\<close>

lemma open_hello:
  assumes "lib_ok lib" "fresh_end lib role c" "fresh_end lib role' p" "takes c (identity p)"
    and "have_static p \<longrightarrow> static_pk p \<noteq> zero32" "x25519 lib (eph_sk c) (eph_pk p) \<noteq> zero32"
  defines "c1 \<equiv> c\<lparr>peer_has_static := have_static p, peer_static_pk := static_pk p\<rparr>"
  shows "nc_crypto_open lib c (NC_CRYPTO_HELLO # eph_pk p @ static_pk p) cap = Some (0, [], snd (derive_session lib c1 (eph_pk p)))"
    "have_key (snd (derive_session lib c1 (eph_pk p)))"
proof -
  have l: "length (eph_pk p) = 32" "length (static_pk p) = 32" using hello_packet [OF assms(1,3)] by simp_all
  have has: "is_zero32 (static_pk p) \<longleftrightarrow> \<not> have_static p" using assms(3,5) by (auto simp: is_zero32_def fresh_end_def)
  have keep: "(if have_static p then static_pk p else peer_static_pk c) = static_pk p"
    using assms(2,3) by (simp add: fresh_end_def)
  have d: "fst (derive_session lib c1 (eph_pk p)) = NC_CRYPTO_OK" "have_key (snd (derive_session lib c1 (eph_pk p)))"
    using assms(6) by (simp_all add: derive_session_def Let_def c1_def is_zero32_def case_prod_beta)
  have v: "\<not> (require_peer_static c \<and> \<not> have_static p)"
    "\<not> (case verify_peer c of Some f \<Rightarrow> f (if have_static p then Some (static_pk p) else None) \<noteq> NC_CRYPTO_OK | None \<Rightarrow> False)"
    using assms(4) by (auto simp: takes_def identity_def split: option.splits if_splits)
  have "consume_hello lib c (eph_pk p @ static_pk p) = Some (snd (derive_session lib c1 (eph_pk p)))"
    using l has keep d(1) v by (simp add: consume_hello_def rd_bytes_def Let_def c1_def [symmetric] case_prod_beta)
      (auto simp: c1_def split: option.splits)
  then show "nc_crypto_open lib c (NC_CRYPTO_HELLO # eph_pk p @ static_pk p) cap = Some (0, [], snd (derive_session lib c1 (eph_pk p)))"
    using l assms(2) by (simp add: nc_crypto_open_def fresh_end_def NC_CRYPTO_HELLO_LEN_def rd_bytes_def)
  show "have_key (snd (derive_session lib c1 (eph_pk p)))" by (rule d)
qed

section \<open>Properties\<close>

text \<open>\<open>linked s r\<close>: what \<open>s\<close> seals \<open>r\<close> can open, and nothing has been sent yet.\<close>

definition linked :: "nc_crypto \<Rightarrow> nc_crypto \<Rightarrow> bool" where
  "linked s r \<longleftrightarrow> have_key s \<and> have_key r \<and> \<not> k_failed r \<and> tx_key s = rx_key r \<and> tx_counter s = 0 \<and> rx_max r = 0 \<and> rx_window r = 0"

lemma derive_agree:
  assumes lib: "lib_ok lib" and i: "fresh_end lib 0 i" and r: "fresh_end lib 1 r" and psk: "k_psk i = k_psk r"
    and nz: "x25519 lib (eph_sk i) (eph_pk r) \<noteq> zero32"
  defines "i' \<equiv> snd (derive_session lib (i\<lparr>peer_has_static := have_static r, peer_static_pk := static_pk r\<rparr>) (eph_pk r))"
    and "r' \<equiv> snd (derive_session lib (r\<lparr>peer_has_static := have_static i, peer_static_pk := static_pk i\<rparr>) (eph_pk i))"
  shows "linked i' r'" "linked r' i'" "k_sid i' = k_sid r'"
proof -
  have dh: "x25519 lib a (x25519_public_key lib b) = x25519 lib b (x25519_public_key lib a)" for a b using lib by (simp add: lib_ok_def)
  have pk: "eph_pk i = x25519_public_key lib (eph_sk i)" "eph_pk r = x25519_public_key lib (eph_sk r)"
    "have_static i \<Longrightarrow> static_pk i = x25519_public_key lib (static_sk i)" "have_static r \<Longrightarrow> static_pk r = x25519_public_key lib (static_sk r)"
    using i r by (simp_all add: fresh_end_def)
  have ee: "x25519 lib (eph_sk r) (eph_pk i) = x25519 lib (eph_sk i) (eph_pk r)" by (simp add: pk dh)
  have is_: "(if have_static r then x25519 lib (static_sk r) (eph_pk i) else zero32) =
      (if have_static r then x25519 lib (eph_sk i) (static_pk r) else zero32)" by (simp add: pk dh)
  have si: "(if have_static i then x25519 lib (eph_sk r) (static_pk i) else zero32) =
      (if have_static i then x25519 lib (static_sk i) (eph_pk r) else zero32)" by (simp add: pk dh)
  have sp: "(if memcmp_pos (eph_pk i) (eph_pk r) then (eph_pk r, eph_pk i) else (eph_pk i, eph_pk r)) =
      (if memcmp_pos (eph_pk r) (eph_pk i) then (eph_pk i, eph_pk r) else (eph_pk r, eph_pk i))"
    using hello_packet(2) [OF lib i] hello_packet(2) [OF lib r] by (intro sorted_pair) simp
  have roles: "k_role i = 0" "k_role r = 1" using i r by (simp_all add: fresh_end_def)
  note d = derive_session_def Let_def is_zero32_def roles ee is_ si sp psk nz case_prod_beta
  have keys: "tx_key i' = rx_key r'" "tx_key r' = rx_key i'" "k_sid i' = k_sid r'" "have_key i'" "have_key r'"
    using nz by (simp_all add: i'_def r'_def d split del: if_split cong: if_cong)
  have kept: "k_failed i' = k_failed i" "k_failed r' = k_failed r" "tx_counter i' = tx_counter i" "tx_counter r' = tx_counter r"
    "rx_max i' = rx_max i" "rx_max r' = rx_max r" "rx_window i' = rx_window i" "rx_window r' = rx_window r"
    using nz by (simp_all add: i'_def r'_def d split del: if_split cong: if_cong)
  show "linked i' r'" "linked r' i'" "k_sid i' = k_sid r'" using keys kept i r by (simp_all add: linked_def fresh_end_def)
qed

text \<open>
  Two ends that exchange their greetings agree on the session.  Both have been set up by
  \<open>nc_crypto_init\<close> in their roles, hold the same pre-shared key or none, and each accepts the identity
  the other presents; the shared secret of the ephemeral keys is not zero.  Then each greeting is the
  65-byte packet, opening it makes the session ready on both sides with the same session id, and each
  side opens with the key the other seals with.
\<close>

lemma session_agrees:
  assumes "lib_ok lib"
    and "nc_crypto_init lib rnd 0 cfg = Some (NC_CRYPTO_OK, i)" "nc_crypto_init lib rnd' 1 cfg' = Some (NC_CRYPTO_OK, r)"
    and "k_psk i = k_psk r" "takes i (identity r)" "takes r (identity i)"
    and "have_static i \<longrightarrow> static_pk i \<noteq> zero32" "have_static r \<longrightarrow> static_pk r \<noteq> zero32"
    and "x25519 lib (eph_sk i) (eph_pk r) \<noteq> zero32"
  shows "\<exists>hi hr i' r' sid. nc_crypto_handshake_packet i 65 = Some (65, hi) \<and> nc_crypto_handshake_packet r 65 = Some (65, hr) \<and>
     nc_crypto_open lib i hr cap = Some (0, [], i') \<and> nc_crypto_open lib r hi cap' = Some (0, [], r') \<and>
     nc_crypto_session_id i' = Some sid \<and> nc_crypto_session_id r' = Some sid \<and> linked i' r' \<and> linked r' i'"
proof -
  have i: "fresh_end lib 0 i" and r: "fresh_end lib 1 r" using init_fresh [OF assms(2)] init_fresh [OF assms(3)] by simp_all
  have dh: "x25519 lib (eph_sk r) (eph_pk i) = x25519 lib (eph_sk i) (eph_pk r)" using assms(1) i r by (simp add: lib_ok_def fresh_end_def)
  note hi = hello_packet [OF assms(1) i] and hr = hello_packet [OF assms(1) r]
  note oi = open_hello [OF assms(1) i r assms(5,8,9)]
  note or' = open_hello [OF assms(1) r i assms(6,7)]
  note agree = derive_agree [OF assms(1) i r assms(4,9)]
  show ?thesis using hi(1) hr(1) oi or' dh assms(9) agree by (simp add: nc_crypto_session_id_def)
qed

text \<open>What gets through a network that delivers the packets \<open>js\<close>, numbered in the order they were sealed: each
  number once, and not when it is 64 or more behind the newest.\<close>

fun delivered :: "nat set \<Rightarrow> nat list \<Rightarrow> nat list" where
  "delivered S [] = []"
| "delivered S (j # js) = (if j \<notin> S \<and> (\<forall>k\<in>S. k < j + 64) then j # delivered (insert j S) js else delivered S js)"

lemma delivered_spec:
  assumes "\<forall>j\<in>set js. Suc j < 2 ^ 64" "finite S"
  shows "accepted_spec (Suc ` S) (map (\<lambda>j. of_nat (Suc j)) js) = map (\<lambda>j. of_nat (Suc j)) (delivered S js)"
  using assms
proof (induction js arbitrary: S)
  case (Cons j js)
  have u: "unat (of_nat (Suc j) :: u64) = Suc j" using Cons.prems(1) by (simp add: unat_of_nat take_bit_nat_eq_self del: of_nat_Suc)
  have f: "fresh_counter (Suc ` S) (Suc j) \<longleftrightarrow> j \<notin> S \<and> (\<forall>k\<in>S. k < j + 64)" using Cons.prems(2) by (auto simp: fresh_counter_def)
  show ?case using Cons.IH [of S] Cons.IH [of "insert j S"] Cons.prems u f by (auto simp del: of_nat_Suc)
qed simp

lemma delivered_once: "distinct (delivered S js) \<and> set (delivered S js) \<inter> S = {} \<and> set (delivered S js) \<subseteq> set js"
proof (induction js arbitrary: S)
  case (Cons j js)
  show ?case using Cons.IH [of S] Cons.IH [of "insert j S"] by auto
qed simp

text \<open>
  C7: Datagrams sealed by one end come out at the other unchanged, each at most once.  The sender seals any
  number of datagrams; the network drops, repeats and reorders the packets as it likes (\<open>js\<close> lists
  the packets that arrive).  The receiver hands on exactly the datagrams of \<open>delivered {} js\<close>: every
  packet the first time it arrives, unless it is 64 or more behind the newest one, and never twice.
\<close>

theorem secure_channel:
  assumes "lib_ok lib" "linked s r" "length ps < 2 ^ 64 - 1" "\<forall>p\<in>set ps. p \<noteq> [] \<and> length p \<le> cap" "\<forall>j\<in>set js. j < length ps"
  shows "\<exists>pkts s' r'. seal_all lib s (cap + NC_CRYPTO_OVERHEAD) ps = Some (pkts, s') \<and> length pkts = length ps \<and>
     open_all lib r cap (map ((!) pkts) js) = Some (map ((!) ps) (delivered {} js), r') \<and> distinct (delivered {} js)"
proof -
  let ?pkt = "\<lambda>j. data_pkt lib (tx_key s) (of_nat (Suc j)) (ps ! j)"
  obtain s' where seal: "seal_all lib s (cap + NC_CRYPTO_OVERHEAD) ps = Some (map ?pkt [0 ..< length ps], s')"
    using seal_all_pkts [OF assms(1), of s 0 ps "cap + NC_CRYPTO_OVERHEAD"] assms(2-4) by (auto simp: linked_def)
  let ?ns = "map (\<lambda>j. of_nat (Suc j) :: u64) js"
  let ?f = "\<lambda>n :: u64. ps ! (unat n - 1)"
  have small: "\<forall>j\<in>set js. Suc j < 2 ^ 64" using assms(3,5) by auto
  have u: "unat (of_nat (Suc j) :: u64) - 1 = j" if "j \<in> set js" for j
    using small that by (simp add: unat_of_nat take_bit_nat_eq_self del: of_nat_Suc)
  have pk: "map ((!) (map ?pkt [0 ..< length ps])) js = map (\<lambda>n. data_pkt lib (rx_key r) n (?f n)) ?ns"
    using assms(2,5) u by (simp add: linked_def del: of_nat_Suc)
  have fits: "\<forall>n\<in>set ?ns. ?f n \<noteq> [] \<and> length (?f n) \<le> cap" using assms(4,5) u by (auto simp del: of_nat_Suc)
  have acc: "accepted_with replay_check_and_update r ?ns = map (\<lambda>j. of_nat (Suc j)) (delivered {} js)"
    using window.accepted_refines [OF window_start, of r ?ns] delivered_spec [OF small, of "{}"] assms(2) by (simp add: linked_def)
  have "\<exists>r'. open_all lib r cap (map (\<lambda>n. data_pkt lib (rx_key r) n (?f n)) ?ns) = Some (map ?f (accepted_with replay_check_and_update r ?ns), r')"
    by (rule open_all_accepts [OF assms(1) _ _ refl fits]) (use assms(2) in \<open>simp_all add: linked_def\<close>)
  then obtain r' where "open_all lib r cap (map (\<lambda>n. data_pkt lib (rx_key r) n (?f n)) ?ns) = Some (map ?f (map (\<lambda>j. of_nat (Suc j)) (delivered {} js)), r')"
    unfolding acc by blast
  moreover have "map ?f (map (\<lambda>j. of_nat (Suc j)) (delivered {} js)) = map ((!) ps) (delivered {} js)"
    using u delivered_once [of "{}" js] by (auto simp del: of_nat_Suc)
  ultimately have "open_all lib r cap (map ((!) (map ?pkt [0 ..< length ps])) js) = Some (map ((!) ps) (delivered {} js), r')"
    unfolding pk by (simp only:)
  moreover have "length (map ?pkt [0 ..< length ps]) = length ps" by simp
  ultimately show ?thesis using seal delivered_once [of "{}" js] by blast
qed

theorem secure_channel_witness:
  "\<exists>pkts s' r'. seal_all demo_lib (crypto_zero\<lparr>have_key := True\<rparr>) (100 + NC_CRYPTO_OVERHEAD) [[1], [2], [3]] = Some (pkts, s') \<and>
     open_all demo_lib (crypto_zero\<lparr>have_key := True\<rparr>) 100 (map ((!) pkts) [2, 0, 0, 1, 2]) = Some ([[3], [1], [2]], r')"
proof -
  have "linked (crypto_zero\<lparr>have_key := True\<rparr>) (crypto_zero\<lparr>have_key := True\<rparr>)" by (simp add: linked_def crypto_zero_def)
  from secure_channel [OF demo_lib_ok this, of "[[1], [2], [3]]" 100 "[2, 0, 0, 1, 2]"] show ?thesis by auto
qed

section \<open>Any input\<close>

lemma replay_rel:
  assumes "window_rel c S" "replay_check_and_update c n = (rc, c')"
  shows "if rc = NC_CRYPTO_OK then unat n \<notin> S \<and> window_rel c' (insert (unat n) S) else window_rel c' S"
  using window.verdict [OF assms(1), of n] window.accept [OF assms(1), of n] window.refuse [OF assms(1), of n] assms(2)
  by (auto simp: fresh_counter_def)

lemma hello_keeps:
  assumes "consume_hello lib c body = Some c'"
  shows "rx_max c' = rx_max c \<and> rx_window c' = rx_window c"
  using assms by (auto simp: consume_hello_def derive_session_def Let_def bind_eq_Some_conv case_prod_beta split: if_splits)

text \<open>
  C8: Whatever arrives, opening a packet reads and writes nothing outside its buffers and hands out nothing
  but authentic, fresh plaintext.  \<open>S\<close> are the counters accepted so far.  If the call returns a positive
  length, the session is ready and not failed, the packet's mac opens under the receiving key with the
  packet's counter as nonce to exactly the bytes handed out, and the counter was not accepted before.  Once
  the keys are set no packet changes them or the session id, a failed session stays failed and gives
  nothing, and the record of accepted counters only grows.
\<close>

theorem open_safe:
  assumes "lib_ok lib" "window_rel c S"
  shows "\<exists>rc out c' S'. nc_crypto_open lib c pkt cap = Some (rc, out, c') \<and> length out \<le> cap \<and> rc \<le> int cap \<and>
     window_rel c' S' \<and> S \<subseteq> S' \<and>
     (0 < rc \<longrightarrow> rc = int (length out) \<and> have_key c \<and> \<not> k_failed c \<and>
        (\<exists>counter. rd64be pkt 1 = Some counter \<and> unat counter \<notin> S \<and> unat counter \<in> S' \<and>
           aead_unlock lib (take 16 (drop 9 pkt)) (rx_key c) (nonce_of counter) (drop 25 pkt) = Some out)) \<and>
     (have_key c \<longrightarrow> have_key c' \<and> tx_key c' = tx_key c \<and> rx_key c' = rx_key c \<and> k_sid c' = k_sid c) \<and> (k_failed c \<longrightarrow> c' = c)"
proof -
  consider (none) "length pkt < 1 \<or> k_failed c" | (hello) "\<not> (length pkt < 1 \<or> k_failed c)" "pkt ! 0 = NC_CRYPTO_HELLO"
    | (data) "\<not> (length pkt < 1 \<or> k_failed c)" "pkt ! 0 = NC_CRYPTO_DATA"
    | (other) "\<not> (length pkt < 1 \<or> k_failed c)" "pkt ! 0 \<noteq> NC_CRYPTO_HELLO" "pkt ! 0 \<noteq> NC_CRYPTO_DATA" by blast
  then show ?thesis
  proof cases
    case none
    then show ?thesis using assms(2) by (auto simp: nc_crypto_open_def NC_CRYPTO_ERR_def)
  next
    case hello
    show ?thesis
    proof (cases "length pkt = NC_CRYPTO_HELLO_LEN \<and> \<not> have_key c")
      case True
      define body where "body = take 64 (drop 1 pkt)"
      have "length body = 64" using True by (simp add: body_def NC_CRYPTO_HELLO_LEN_def)
      then obtain c' where c': "consume_hello lib c body = Some c'" by (simp add: consume_hello_def Let_def)
      have "nc_crypto_open lib c pkt cap = Some (0, [], c')"
        using hello True c' by (simp add: nc_crypto_open_def body_def NC_CRYPTO_HELLO_LEN_def)
      moreover have "window_rel c' S" using hello_keeps [OF c'] assms(2) by (simp add: window_rel_def)
      ultimately show ?thesis using True hello by auto
    next
      case False
      then show ?thesis using hello assms(2) by (auto simp: nc_crypto_open_def NC_CRYPTO_ERR_def)
    qed
  next
    case other
    then show ?thesis using assms(2) by (auto simp: nc_crypto_open_def NC_CRYPTO_ERR_def)
  next
    case data
    have t: "NC_CRYPTO_DATA \<noteq> NC_CRYPTO_HELLO" by (simp add: NC_CRYPTO_DATA_def NC_CRYPTO_HELLO_def)
    show ?thesis
    proof (cases "have_key c \<and> 25 \<le> length pkt \<and> length pkt \<le> 25 + cap")
      case True
      define counter :: u64 where "counter = foldl (\<lambda>v x. push_bit 8 v OR ucast x) 0 (take 8 (drop 1 pkt))"
      obtain rc c1 where rp: "replay_check_and_update c counter = (rc, c1)" by fastforce
      define u where "u = aead_unlock lib (take 16 (drop 9 pkt)) (rx_key c) (nonce_of counter) (drop 25 pkt)"
      have rd: "rd64be pkt 1 = Some counter" "rd_bytes pkt 9 16 = Some (take 16 (drop 9 pkt))"
        "rd_bytes pkt 25 (length pkt - 25) = Some (drop 25 pkt)"
        using True by (simp_all add: rd64be_def counter_def)
      have len: "length p = length pkt - 25" if "u = Some p" for p using that assms(1) by (simp add: u_def lib_ok_def)
      have op: "nc_crypto_open lib c pkt cap = (case u of None \<Rightarrow> Some (NC_CRYPTO_ERR, [], c) | Some p \<Rightarrow>
          Some (if rc \<noteq> NC_CRYPTO_OK then (NC_CRYPTO_ERR, replicate (length pkt - 25) 0, c1) else (int (length pkt - 25), p, c1)))"
        using data True rd t len rp by (auto simp: nc_crypto_open_def NC_CRYPTO_OVERHEAD_def u_def [symmetric] emit_def Let_def split: option.split)
      have kept: "have_key c1 = have_key c" "tx_key c1 = tx_key c" "rx_key c1 = rx_key c" "k_sid c1 = k_sid c"
        using rp by (auto simp: replay_check_and_update_def Let_def split: if_splits)
      have nf: "\<not> k_failed c" and cap: "length pkt - 25 \<le> cap" using data True by auto
      show ?thesis
      proof (cases u)
        case None
        then show ?thesis using op assms(2) nf by (intro exI [of _ "NC_CRYPTO_ERR"] exI [of _ "[]"] exI [of _ c] exI [of _ S]) (simp add: NC_CRYPTO_ERR_def)
      next
        case (Some p)
        show ?thesis
        proof (cases "rc = NC_CRYPTO_OK")
          case okay: True
          have w: "unat counter \<notin> S" "window_rel c1 (insert (unat counter) S)" using replay_rel [OF assms(2) rp] okay by simp_all
          show ?thesis using op Some okay w kept nf cap len [OF Some] rd(1) True
            by (intro exI [of _ "int (length pkt - 25)"] exI [of _ p] exI [of _ c1] exI [of _ "insert (unat counter) S"]) (simp add: u_def [symmetric] subset_insertI)
        next
          case False
          then have w: "window_rel c1 S" using replay_rel [OF assms(2) rp] by simp
          show ?thesis using op Some False w kept nf cap
            by (intro exI [of _ "NC_CRYPTO_ERR"] exI [of _ "replicate (length pkt - 25) 0"] exI [of _ c1] exI [of _ S]) (simp add: NC_CRYPTO_ERR_def)
        qed
      qed
    next
      case False
      then show ?thesis using data t assms(2) by (auto simp: nc_crypto_open_def NC_CRYPTO_ERR_def NC_CRYPTO_OVERHEAD_def Let_def)
    qed
  qed
qed

theorem open_safe_witness:
  "\<exists>rc out c'. nc_crypto_open demo_lib (crypto_zero\<lparr>have_key := True\<rparr>) ([2] @ wr64be 1 @ replicate 16 0 @ [9]) 10 = Some (rc, out, c') \<and>
     length out \<le> 10 \<and> have_key c' \<and> (0 < rc \<longrightarrow> rc = int (length out))"
proof -
  have "window_rel (crypto_zero\<lparr>have_key := True\<rparr>) {}" by (rule window_start) (simp_all add: crypto_zero_def)
  from open_safe [OF demo_lib_ok this, of "[2] @ wr64be 1 @ replicate 16 0 @ [9]" 10] show ?thesis
    by (elim exE conjE) (intro exI conjI, assumption, auto)
qed

end
