(* ===== verification/Iox_Pq.thy ===== *)
theory Iox_Pq
  imports Prelude
begin

text \<open>
  The priority queue of the event loop (\<open>src/examples/iox/pq.h\<close>): a binary heap kept in one
  array.  The header is a template; its macro \<open>PQ_COMPARE(a, b)\<close>, non-zero when \<open>a\<close> belongs
  deeper than \<open>b\<close>, is by default \<open>PQ_KEY(a) > PQ_KEY(b)\<close>, so every operation here takes the
  key function \<open>key\<close> the instance is built with.

  Indices are \<open>unsigned\<close>.  They are natural numbers here, with the reduction modulo \<open>2 ^ 32\<close>
  written where the source can exceed it (\<open>PQ__LEFT\<close>); an access outside the allocated array
  is \<open>None\<close>.  \<open>siftdown_\<close> is a loop whose index need not grow once \<open>PQ__LEFT\<close> wraps, so it is
  a \<open>partial_function\<close> into \<open>option\<close>: \<open>None\<close> is also the loop that does not end.

  The lemmas show that each operation keeps the heap order and acts on the multiset of the
  queued entries as a priority queue does.  The contract is the locale \<open>prio_queue\<close>, and the
  interpretation \<open>pq\<close> discharges it for the heap.
\<close>

section \<open>The queue\<close>

record 'e pq =
  pq_nr :: nat
  pq_max :: nat
  pq_entry :: "'e list"

definition PQ_PARENT :: "nat \<Rightarrow> nat" where
  "PQ_PARENT i = (i - 1) div 2"

definition PQ_LEFT :: "nat \<Rightarrow> nat" where
  "PQ_LEFT i = (2 * i + 1) mod 2 ^ 32"

definition PQ_COMPARE :: "('e \<Rightarrow> int) \<Rightarrow> 'e \<Rightarrow> 'e \<Rightarrow> bool" where
  "PQ_COMPARE key a b \<longleftrightarrow> key b < key a"

text \<open>\<open>entry[i]\<close> as a value and as the target of an assignment.\<close>

definition at_entry :: "'e pq \<Rightarrow> nat \<Rightarrow> 'e option" where
  "at_entry q i = (if i < length (pq_entry q) then Some (pq_entry q ! i) else None)"

definition set_entry :: "'e pq \<Rightarrow> nat \<Rightarrow> 'e \<Rightarrow> 'e pq option" where
  "set_entry q i e = (if i < length (pq_entry q) then Some (q\<lparr>pq_entry := (pq_entry q)[i := e]\<rparr>) else None)"

text \<open>\<open>siftup_\<close>: the hole at \<open>i\<close> moves to its parent while the parent belongs deeper than
  \<open>elm\<close>.  Both return the position of the hole and the array as the loop left it.\<close>

function siftup :: "('e \<Rightarrow> int) \<Rightarrow> 'e pq \<Rightarrow> nat \<Rightarrow> 'e \<Rightarrow> (nat \<times> 'e pq) option" where
  "siftup key q i elm =
     (if i > 0 then do {
        p \<leftarrow> at_entry q (PQ_PARENT i);
        if PQ_COMPARE key p elm then do {
          q \<leftarrow> set_entry q i p;
          siftup key q (PQ_PARENT i) elm }
        else Some (i, q) }
      else Some (i, q))"
  by pat_completeness auto
termination
  by (relation "measure (\<lambda>(key, q, i, elm). i)") (auto simp: PQ_PARENT_def)

declare siftup.simps [simp del]

partial_function (option) siftdown :: "('e \<Rightarrow> int) \<Rightarrow> 'e pq \<Rightarrow> nat \<Rightarrow> 'e \<Rightarrow> (nat \<times> 'e pq) option" where
  "siftdown key q i elm =
     (if PQ_LEFT i < pq_nr q then do {
        let child = PQ_LEFT i;
        l \<leftarrow> at_entry q child;
        child \<leftarrow> (if child + 1 < pq_nr q
          then at_entry q (child + 1) \<bind> (\<lambda>r. Some (if PQ_COMPARE key l r then child + 1 else child))
          else Some child);
        c \<leftarrow> at_entry q child;
        if \<not> PQ_COMPARE key elm c then Some (i, q)
        else do {
          q \<leftarrow> set_entry q i c;
          siftdown key q child elm } }
      else Some (i, q))"

declare siftdown.simps [code]

text \<open>\<open>init\<close>: \<open>zero\<close> is the entry \<open>calloc\<close> leaves in every cell, and \<open>got\<close> whether it found the
  memory.  The assertion \<open>max > 0\<close> is a guard.\<close>

definition pq_init :: "'e \<Rightarrow> bool \<Rightarrow> nat \<Rightarrow> (bool \<times> 'e pq) option" where
  "pq_init zero got n =
     (if n = 0 then None
      else if \<not> got then Some (False, \<lparr>pq_nr = 0, pq_max = 0, pq_entry = []\<rparr>)
      else Some (True, \<lparr>pq_nr = 0, pq_max = n, pq_entry = replicate n zero\<rparr>))"

definition pq_free :: "'e pq \<Rightarrow> 'e pq" where
  "pq_free q = q\<lparr>pq_entry := [], pq_nr := 0, pq_max := 0\<rparr>"

text \<open>\<open>resize\<close>: \<open>realloc\<close> keeps the common prefix; the cells past the old block hold whatever
  the allocator left there, the function \<open>junk\<close>.\<close>

definition pq_resize :: "(nat \<Rightarrow> 'e) \<Rightarrow> bool \<Rightarrow> 'e pq \<Rightarrow> nat \<Rightarrow> bool \<times> 'e pq" where
  "pq_resize junk got q newmax =
     (if newmax < pq_nr q then (False, q)
      else if \<not> got \<and> newmax > 0 then (False, q)
      else (True, q\<lparr>pq_entry := map (\<lambda>i. if i < length (pq_entry q) then pq_entry q ! i else junk i) [0..<newmax],
                    pq_max := newmax\<rparr>))"

definition pq_enqueue :: "('e \<Rightarrow> int) \<Rightarrow> 'e pq \<Rightarrow> 'e \<Rightarrow> (bool \<times> 'e pq) option" where
  "pq_enqueue key q e =
     (if pq_nr q \<ge> pq_max q then Some (False, q)
      else do {
        let i = pq_nr q;
        let q = q\<lparr>pq_nr := pq_nr q + 1\<rparr>;
        (i, q) \<leftarrow> siftup key q i e;
        q \<leftarrow> set_entry q i e;
        Some (True, q) })"

text \<open>\<open>remove\<close>: the last entry takes the place of entry \<open>i\<close> and moves up or down from there.
  The second component is what \<open>*dst\<close> receives, \<open>None\<close> when nothing is written.\<close>

definition pq_remove :: "('e \<Rightarrow> int) \<Rightarrow> 'e pq \<Rightarrow> nat \<Rightarrow> (bool \<times> 'e option \<times> 'e pq) option" where
  "pq_remove key q i =
     (if i \<ge> pq_nr q then Some (False, None, q)
      else do {
        dst \<leftarrow> at_entry q i;
        let q = q\<lparr>pq_nr := pq_nr q - 1\<rparr>;
        if i = pq_nr q then Some (True, Some dst, q)
        else do {
          last \<leftarrow> at_entry q (pq_nr q);
          up \<leftarrow> (if i > 0 then at_entry q (PQ_PARENT i) \<bind> (\<lambda>p. Some (PQ_COMPARE key p last)) else Some False);
          (j, q) \<leftarrow> (if up then siftup key q i last else siftdown key q i last);
          q \<leftarrow> set_entry q j last;
          Some (True, Some dst, q) } })"

definition pq_dequeue :: "('e \<Rightarrow> int) \<Rightarrow> 'e pq \<Rightarrow> (bool \<times> 'e option \<times> 'e pq) option" where
  "pq_dequeue key q = pq_remove key q 0"

text \<open>\<open>peek\<close> returns a pointer into the array or \<open>NULL\<close>; the result is the entry it points at.\<close>

definition pq_peek :: "'e pq \<Rightarrow> nat \<Rightarrow> 'e option" where
  "pq_peek q i = (if i < pq_nr q then Some (pq_entry q ! i) else None)"

definition pq_top :: "'e pq \<Rightarrow> 'e option" where
  "pq_top q = pq_peek q 0"

fun pq_find_from :: "('e \<Rightarrow> int) \<Rightarrow> 'e pq \<Rightarrow> 'e \<Rightarrow> nat \<Rightarrow> nat \<Rightarrow> int" where
  "pq_find_from key q e i 0 = -1"
| "pq_find_from key q e i (Suc n) =
     (if key (pq_entry q ! i) = key e then int i else pq_find_from key q e (i + 1) n)"

definition pq_find :: "('e \<Rightarrow> int) \<Rightarrow> 'e pq \<Rightarrow> 'e \<Rightarrow> int" where
  "pq_find key q e = pq_find_from key q e 0 (pq_nr q)"

definition pq_size :: "'e pq \<Rightarrow> nat" where
  "pq_size q = pq_nr q"

definition pq_available :: "'e pq \<Rightarrow> nat" where
  "pq_available q = pq_max q - pq_nr q"

definition pq_is_valid :: "('e \<Rightarrow> int) \<Rightarrow> 'e pq \<Rightarrow> bool" where
  "pq_is_valid key q \<longleftrightarrow>
     (\<forall>i \<in> set [1..<pq_nr q]. \<not> PQ_COMPARE key (pq_entry q ! PQ_PARENT i) (pq_entry q ! i))"

section \<open>The invariant and the abstraction\<close>

text \<open>The counts match the block \<open>calloc\<close> or \<open>realloc\<close> returned, no index reaches the range
  where \<open>PQ__LEFT\<close> wraps, and no entry is above one with a smaller key.\<close>

definition pq_wf :: "'e pq \<Rightarrow> bool" where
  "pq_wf q \<longleftrightarrow> pq_nr q \<le> pq_max q \<and> length (pq_entry q) = pq_max q \<and> pq_max q \<le> 2 ^ 31"

definition pq_inv :: "('e \<Rightarrow> int) \<Rightarrow> 'e pq \<Rightarrow> bool" where
  "pq_inv key q \<longleftrightarrow> pq_wf q \<and> pq_is_valid key q"

definition pq_items :: "'e pq \<Rightarrow> 'e multiset" where
  "pq_items q = mset (take (pq_nr q) (pq_entry q))"

section \<open>Sifting\<close>

text \<open>The loops move a hole.  Seen with \<open>elm\<close> already in the hole, the array is a heap except
  at the hole: above it while sifting up, below it while sifting down.\<close>

definition heap_upto :: "('e \<Rightarrow> int) \<Rightarrow> nat \<Rightarrow> 'e list \<Rightarrow> bool" where
  "heap_upto key n v \<longleftrightarrow> (\<forall>j. 0 < j \<and> j < n \<longrightarrow> key (v ! PQ_PARENT j) \<le> key (v ! j))"

definition bridged :: "('e \<Rightarrow> int) \<Rightarrow> nat \<Rightarrow> 'e list \<Rightarrow> nat \<Rightarrow> bool" where
  "bridged key n v i \<longleftrightarrow>
     (\<forall>j. 0 < i \<and> 0 < j \<and> j < n \<and> PQ_PARENT j = i \<longrightarrow> key (v ! PQ_PARENT i) \<le> key (v ! j))"

definition up_hole :: "('e \<Rightarrow> int) \<Rightarrow> nat \<Rightarrow> 'e list \<Rightarrow> nat \<Rightarrow> bool" where
  "up_hole key n v i \<longleftrightarrow> bridged key n v i \<and>
     (\<forall>j. 0 < j \<and> j < n \<and> j \<noteq> i \<longrightarrow> key (v ! PQ_PARENT j) \<le> key (v ! j))"

definition down_hole :: "('e \<Rightarrow> int) \<Rightarrow> nat \<Rightarrow> 'e list \<Rightarrow> nat \<Rightarrow> bool" where
  "down_hole key n v i \<longleftrightarrow> bridged key n v i \<and>
     (\<forall>j. 0 < j \<and> j < n \<and> PQ_PARENT j \<noteq> i \<longrightarrow> key (v ! PQ_PARENT j) \<le> key (v ! j))"

lemma parent_less [simp]: "0 < i \<Longrightarrow> PQ_PARENT i < i"
  by (auto simp: PQ_PARENT_def)

lemma parent_neq [simp]: "0 < i \<Longrightarrow> PQ_PARENT i \<noteq> i" "0 < i \<Longrightarrow> i \<noteq> PQ_PARENT i"
  using parent_less [of i] by linarith+

lemma parent_iff: "0 < j \<Longrightarrow> PQ_PARENT j = i \<longleftrightarrow> j = 2 * i + 1 \<or> j = 2 * i + 2"
  by (auto simp: PQ_PARENT_def)

lemma left_small [simp]: "i < 2 ^ 31 \<Longrightarrow> PQ_LEFT i = 2 * i + 1"
  by (simp add: PQ_LEFT_def)

lemma valid_heap: "pq_is_valid key q \<longleftrightarrow> heap_upto key (pq_nr q) (pq_entry q)"
  by (auto simp: pq_is_valid_def heap_upto_def PQ_COMPARE_def not_less)

lemma heap_root_least:
  assumes "heap_upto key n v" "j < n"
  shows "key (v ! 0) \<le> key (v ! j)"
  using assms(2)
proof (induction j rule: less_induct)
  case (less j)
  show ?case
  proof (cases "j = 0")
    case False
    then have "key (v ! 0) \<le> key (v ! PQ_PARENT j)" using less by simp
    also have "\<dots> \<le> key (v ! j)" using assms(1) less.prems False by (simp add: heap_upto_def)
    finally show ?thesis .
  qed simp
qed

lemma up_swap:
  assumes hole: "up_hole key n v i" and i: "0 < i" "i < n" "n \<le> length v"
    and gt: "key (v ! i) < key (v ! PQ_PARENT i)"
  shows "up_hole key n (v[i := v ! PQ_PARENT i, PQ_PARENT i := v ! i]) (PQ_PARENT i)"
proof -
  define p where "p = PQ_PARENT i"
  have p: "p < i" using i by (simp add: p_def)
  have ord: "key (v ! PQ_PARENT j) \<le> key (v ! j)" if "0 < j" "j < n" "j \<noteq> i" for j
    using hole that by (simp add: up_hole_def)
  have br: "key (v ! p) \<le> key (v ! j)" if "0 < j" "j < n" "PQ_PARENT j = i" for j
    using hole i that by (simp add: up_hole_def bridged_def p_def)
  have val: "v[i := v ! p, p := v ! i] ! k = (if k = p then v ! i else if k = i then v ! p else v ! k)" if "k < n" for k
    using that p i by (auto simp: nth_list_update)
  have gp: "key (v ! PQ_PARENT p) \<le> key (v ! p)" if "0 < p" using ord [of p] that p i by simp
  show ?thesis
    unfolding p_def [symmetric] up_hole_def bridged_def
  proof (intro conjI allI impI; elim conjE)
    fix j assume j: "0 < p" "0 < j" "j < n" "PQ_PARENT j = p"
    have pp: "PQ_PARENT p < p" using j by simp
    have gl: "PQ_PARENT p < n" using pp p i by linarith
    have "key (v ! p) \<le> key (v ! j)" if "j \<noteq> i" using ord [of j] j that by simp
    moreover have "j \<noteq> p" using parent_less [OF j(2)] j(4) by auto
    moreover have "v[i := v ! p, p := v ! i] ! PQ_PARENT p = v ! PQ_PARENT p" using val [OF gl] pp p by simp
    ultimately show "key (v[i := v ! p, p := v ! i] ! PQ_PARENT p) \<le> key (v[i := v ! p, p := v ! i] ! j)"
      using val [OF j(3)] gp [OF j(1)] by (cases "j = i") simp_all
  next
    fix j assume j: "0 < j" "j < n" "j \<noteq> p"
    have pj: "PQ_PARENT j < n" using parent_less [OF j(1)] j(2) by linarith
    show "key (v[i := v ! p, p := v ! i] ! PQ_PARENT j) \<le> key (v[i := v ! p, p := v ! i] ! j)"
    proof (cases "j = i")
      case True
      then show ?thesis using val [of j] val [OF pj] j gt by (simp add: p_def)
    next
      case ne: False
      consider "PQ_PARENT j = p" | "PQ_PARENT j = i" | "PQ_PARENT j \<noteq> p" "PQ_PARENT j \<noteq> i" by blast
      then show ?thesis
        by cases (use val [of j] val [OF pj] j ne gt ord [of j] br [of j] p in \<open>auto simp: p_def [symmetric]\<close>)
    qed
  qed
qed

lemma up_stop:
  assumes "up_hole key n v i" "i = 0 \<or> key (v ! PQ_PARENT i) \<le> key (v ! i)"
  shows "heap_upto key n v"
  using assms by (auto simp: up_hole_def heap_upto_def)

lemma down_swap:
  assumes hole: "down_hole key n v i" and c: "PQ_PARENT c = i" "0 < c" "c < n" "n \<le> length v"
    and least: "\<And>j. 0 < j \<Longrightarrow> j < n \<Longrightarrow> PQ_PARENT j = i \<Longrightarrow> key (v ! c) \<le> key (v ! j)"
    and gt: "key (v ! c) < key (v ! i)"
  shows "down_hole key n (v[i := v ! c, c := v ! i]) c"
proof -
  have ic: "i < c" using c by auto
  have ord: "key (v ! PQ_PARENT j) \<le> key (v ! j)" if "0 < j" "j < n" "PQ_PARENT j \<noteq> i" for j
    using hole that by (simp add: down_hole_def)
  have br: "key (v ! PQ_PARENT i) \<le> key (v ! c)" if "0 < i"
    using hole c that by (simp add: down_hole_def bridged_def)
  have val: "v[i := v ! c, c := v ! i] ! k = (if k = c then v ! i else if k = i then v ! c else v ! k)" if "k < n" for k
    using that ic c by (auto simp: nth_list_update)
  show ?thesis
    unfolding down_hole_def bridged_def
  proof (intro conjI allI impI; elim conjE)
    fix j assume j: "0 < c" "0 < j" "j < n" "PQ_PARENT j = c"
    have cj: "c < j" using parent_less [OF j(2)] j(4) by simp
    have "key (v ! c) \<le> key (v ! j)" using ord [of j] j c ic by simp
    then show "key (v[i := v ! c, c := v ! i] ! PQ_PARENT c) \<le> key (v[i := v ! c, c := v ! i] ! j)"
      using val [of j] val [of i] cj j ic c by simp
  next
    fix j assume j: "0 < j" "j < n" "PQ_PARENT j \<noteq> c"
    have pj: "PQ_PARENT j < n" using parent_less [OF j(1)] j(2) by linarith
    consider "PQ_PARENT j = i" | "j = i" "PQ_PARENT j \<noteq> i" | "j \<noteq> i" "PQ_PARENT j \<noteq> i" by blast
    then show "key (v[i := v ! c, c := v ! i] ! PQ_PARENT j) \<le> key (v[i := v ! c, c := v ! i] ! j)"
    proof cases
      case 1
      then show ?thesis using val [of j] val [OF pj] j ic gt least [of j] parent_less [OF j(1)] by auto
    next
      case 2
      then show ?thesis using val [of j] val [OF pj] j ic br by auto
    next
      case 3
      then show ?thesis using val [of j] val [OF pj] j c ord [of j] by auto
    qed
  qed
qed

lemma down_stop:
  assumes "down_hole key n v i" "\<And>j. 0 < j \<Longrightarrow> j < n \<Longrightarrow> PQ_PARENT j = i \<Longrightarrow> key (v ! i) \<le> key (v ! j)"
  shows "heap_upto key n v"
  using assms by (auto simp: down_hole_def heap_upto_def)

lemma swap_mset:
  assumes "i < n" "j < n" "n \<le> length v"
  shows "mset (take n (v[i := v ! j, j := v ! i])) = mset (take n v)"
  using mset_swap [of j "take n v" i] assms by (simp add: take_update_swap)

text \<open>The result of a sift: \<open>elm\<close> put into the hole makes the array a heap over the same
  entries.\<close>

definition sifted :: "('e \<Rightarrow> int) \<Rightarrow> 'e pq \<Rightarrow> nat \<Rightarrow> 'e \<Rightarrow> nat \<Rightarrow> 'e pq \<Rightarrow> bool" where
  "sifted key q i elm j q' \<longleftrightarrow>
     pq_nr q' = pq_nr q \<and> pq_max q' = pq_max q \<and> length (pq_entry q') = length (pq_entry q) \<and> j < pq_nr q
     \<and> heap_upto key (pq_nr q) ((pq_entry q')[j := elm])
     \<and> mset (take (pq_nr q) ((pq_entry q')[j := elm])) = mset (take (pq_nr q) ((pq_entry q)[i := elm]))"

lemma sifted_move:
  assumes "sifted key (q\<lparr>pq_entry := (pq_entry q)[i := pq_entry q ! p]\<rparr>) p elm j q'"
    and "i < pq_nr q" "p < pq_nr q" "i \<noteq> p" "pq_nr q \<le> length (pq_entry q)"
  shows "sifted key q i elm j q'"
proof -
  define v where "v = (pq_entry q)[i := elm]"
  have "(pq_entry q)[i := pq_entry q ! p, p := elm] = v[i := v ! p, p := v ! i]"
    using assms by (simp add: v_def)
  then show ?thesis
    using assms swap_mset [of i "pq_nr q" p v] by (simp add: sifted_def v_def)
qed

lemma siftup_ok:
  assumes "up_hole key (pq_nr q) ((pq_entry q)[i := elm]) i" "i < pq_nr q" "pq_nr q \<le> length (pq_entry q)"
  shows "\<exists>j q'. siftup key q i elm = Some (j, q') \<and> sifted key q i elm j q'"
  using assms
proof (induction i arbitrary: q rule: less_induct)
  case (less i)
  define v p where "v = (pq_entry q)[i := elm]" and "p = PQ_PARENT i"
  note hole = less.prems(1) [folded v_def]
  show ?case
  proof (cases "0 < i \<and> key elm < key (pq_entry q ! p)")
    case False
    then have "heap_upto key (pq_nr q) v"
      using up_stop [OF hole] less.prems(2,3) by (auto simp: v_def p_def nth_list_update)
    then have "sifted key q i elm i q" using less.prems by (simp add: sifted_def v_def)
    moreover have "0 < i \<longrightarrow> p < length (pq_entry q)"
      using parent_less [of i] less.prems unfolding p_def by linarith
    then have "siftup key q i elm = Some (i, q)"
      using False by (auto simp: siftup.simps [of key q i elm] at_entry_def PQ_COMPARE_def p_def)
    ultimately show ?thesis by blast
  next
    case True
    have p: "p < i" using True by (simp add: p_def)
    define q2 where "q2 = q\<lparr>pq_entry := (pq_entry q)[i := pq_entry q ! p]\<rparr>"
    have v2: "(pq_entry q2)[p := elm] = v[i := v ! p, p := v ! i]"
      using p less.prems by (simp add: q2_def v_def)
    have "up_hole key (pq_nr q2) ((pq_entry q2)[p := elm]) p"
      using up_swap [OF hole] True p less.prems unfolding v2 by (simp add: v_def p_def q2_def)
    then obtain j q' where s: "siftup key q2 p elm = Some (j, q')" "sifted key q2 p elm j q'"
      using less.IH [of p q2] p less.prems by (auto simp: q2_def)
    have "siftup key q i elm = Some (j, q')"
      using True p less.prems s(1)
      by (simp add: siftup.simps [of key q i elm] at_entry_def set_entry_def PQ_COMPARE_def p_def q2_def)
    moreover have "sifted key q i elm j q'"
      using sifted_move [OF s(2) [unfolded q2_def]] p less.prems by simp
    ultimately show ?thesis by blast
  qed
qed

text \<open>The child the loop picks is the least of the children.\<close>

definition least_child :: "('e \<Rightarrow> int) \<Rightarrow> 'e pq \<Rightarrow> nat \<Rightarrow> nat" where
  "least_child key q i =
     (if 2 * i + 2 < pq_nr q \<and> key (pq_entry q ! (2 * i + 2)) < key (pq_entry q ! (2 * i + 1))
      then 2 * i + 2 else 2 * i + 1)"

lemma least_child_range:
  assumes "2 * i + 1 < pq_nr q"
  shows "least_child key q i < pq_nr q" "PQ_PARENT (least_child key q i) = i" "i < least_child key q i"
  using assms by (auto simp: least_child_def PQ_PARENT_def)

lemma least_child_le:
  assumes "0 < j" "j < pq_nr q" "PQ_PARENT j = i"
  shows "key (pq_entry q ! least_child key q i) \<le> key (pq_entry q ! j)"
  using assms by (auto simp: least_child_def parent_iff)

lemma siftdown_step:
  assumes "i < 2 ^ 31" "pq_nr q \<le> length (pq_entry q)" "i < pq_nr q"
  shows "siftdown key q i elm =
     (if 2 * i + 1 < pq_nr q \<and> key (pq_entry q ! least_child key q i) < key elm
      then siftdown key (q\<lparr>pq_entry := (pq_entry q)[i := pq_entry q ! least_child key q i]\<rparr>) (least_child key q i) elm
      else Some (i, q))"
  using assms
  by (simp add: siftdown.simps [of key q i elm] at_entry_def set_entry_def PQ_COMPARE_def least_child_def)

lemma siftdown_ok:
  assumes "down_hole key (pq_nr q) ((pq_entry q)[i := elm]) i" "i < pq_nr q" "pq_nr q \<le> length (pq_entry q)"
    "pq_nr q \<le> 2 ^ 31"
  shows "\<exists>j q'. siftdown key q i elm = Some (j, q') \<and> sifted key q i elm j q'"
  using assms
proof (induction "pq_nr q - i" arbitrary: i q rule: less_induct)
  case less
  define v c where "v = (pq_entry q)[i := elm]" and "c = least_child key q i"
  note hole = less.prems(1) [folded v_def]
  have i31: "i < 2 ^ 31" using less.prems by linarith
  have other: "v ! j = pq_entry q ! j" if "j \<noteq> i" for j using that by (simp add: v_def)
  note step = siftdown_step [where key = key and elm = elm, OF i31 less.prems(3,2), folded c_def]
  show ?case
  proof (cases "2 * i + 1 < pq_nr q \<and> key (pq_entry q ! c) < key elm")
    case False
    have "key (v ! i) \<le> key (v ! j)" if j: "0 < j" "j < pq_nr q" "PQ_PARENT j = i" for j
    proof -
      have l: "2 * i + 1 < pq_nr q" using j parent_iff [of j i] by auto
      have "key elm \<le> key (pq_entry q ! c)" using False l by simp
      also have "\<dots> \<le> key (pq_entry q ! j)" using least_child_le [OF j] by (simp add: c_def)
      finally show ?thesis using j less.prems parent_less [OF j(1)] other [of j] by (simp add: v_def)
    qed
    then have "heap_upto key (pq_nr q) v" by (rule down_stop [OF hole])
    then have "sifted key q i elm i q" using less.prems by (simp add: sifted_def v_def)
    moreover have "siftdown key q i elm = Some (i, q)" unfolding step using False by (simp only: if_False simp_thms)
    ultimately show ?thesis by metis
  next
    case True
    note c = least_child_range [where key = key, OF conjunct1 [OF True], folded c_def]
    have le: "key (v ! c) \<le> key (v ! j)" if "0 < j" "j < pq_nr q" "PQ_PARENT j = i" for j
    proof -
      have "j \<noteq> i" "c \<noteq> i" using parent_less [OF that(1)] that(3) c(3) by auto
      then show ?thesis using least_child_le [OF that, of key] other by (simp add: c_def)
    qed
    have gt: "key (v ! c) < key (v ! i)" using True other [of c] c(3) less.prems(2,3) by (simp add: v_def)
    define q2 where "q2 = q\<lparr>pq_entry := (pq_entry q)[i := pq_entry q ! c]\<rparr>"
    have v2: "(pq_entry q2)[c := elm] = v[i := v ! c, c := v ! i]"
      using c(3) less.prems(2,3) by (simp add: q2_def v_def)
    have "0 < c" "pq_nr q \<le> length v" "pq_nr q2 = pq_nr q"
      using c(3) less.prems(3) by (simp_all add: v_def q2_def)
    then have "down_hole key (pq_nr q2) ((pq_entry q2)[c := elm]) c"
      unfolding v2 by (metis down_swap [OF hole c(2) _ c(1) _ le gt])
    moreover have "pq_nr q2 - c < pq_nr q - i" "c < pq_nr q2" "pq_nr q2 \<le> length (pq_entry q2)" "pq_nr q2 \<le> 2 ^ 31"
      using c(1,3) less.prems(2-4) by (simp_all add: q2_def)
    ultimately obtain j q' where s: "siftdown key q2 c elm = Some (j, q')" "sifted key q2 c elm j q'"
      using less.hyps [of q2 c] by blast
    have "sifted key q i elm j q'"
      using sifted_move [OF s(2) [unfolded q2_def]] c less.prems by simp
    moreover have "siftdown key q i elm = siftdown key q2 c elm" unfolding step q2_def using True by (simp only: if_True simp_thms)
    ultimately show ?thesis using s(1) by metis
  qed
qed

section \<open>The operations\<close>

lemma pq_items_size: "pq_wf q \<Longrightarrow> size (pq_items q) = pq_nr q"
  by (simp add: pq_items_def pq_wf_def)

lemma pq_items_empty: "pq_wf q \<Longrightarrow> pq_items q = {#} \<longleftrightarrow> pq_nr q = 0"
  by (metis pq_items_size size_eq_0_iff_empty)

lemma sifted_items:
  assumes "sifted key q i elm j q'" "pq_wf q" "q'' = q'\<lparr>pq_entry := (pq_entry q')[j := elm]\<rparr>"
  shows "pq_inv key q''" "pq_items q'' = mset (take (pq_nr q) ((pq_entry q)[i := elm]))"
    "set_entry q' j elm = Some q''" "pq_nr q'' = pq_nr q" "pq_max q'' = pq_max q"
  using assms by (simp_all add: sifted_def pq_inv_def pq_wf_def valid_heap pq_items_def set_entry_def)

lemma pq_init_inv: "0 < n \<Longrightarrow> n \<le> 2 ^ 31 \<Longrightarrow>
    \<exists>q. pq_init zero got n = Some (got, q) \<and> pq_inv key q \<and> pq_items q = {#} \<and> pq_nr q = 0
      \<and> pq_max q = (if got then n else 0)"
  by (cases got) (auto simp: pq_init_def pq_inv_def pq_wf_def pq_is_valid_def pq_items_def)

lemma take_resized:
  "n \<le> length xs \<Longrightarrow> n \<le> m \<Longrightarrow> take n (map (\<lambda>i. if i < length xs then xs ! i else junk i) [0..<m]) = take n xs"
  by (rule nth_equalityI) auto

lemma heap_take: "heap_upto key n v \<longleftrightarrow> heap_upto key n (take n v)"
proof -
  have "take n v ! PQ_PARENT j = v ! PQ_PARENT j" "take n v ! j = v ! j" if "0 < j" "j < n" for j
    using that parent_less [of j] less_trans [of "PQ_PARENT j" j n] by simp_all
  then show ?thesis by (auto simp: heap_upto_def)
qed

lemma pq_resize_inv:
  assumes "pq_inv key q" "pq_resize junk got q m = (r, q')" "m \<le> 2 ^ 31"
  shows "pq_inv key q'" "pq_items q' = pq_items q" "pq_nr q' = pq_nr q" "r \<Longrightarrow> pq_max q' = m"
    "\<not> r \<Longrightarrow> q' = q"
proof -
  have "pq_inv key q' \<and> pq_items q' = pq_items q \<and> pq_nr q' = pq_nr q \<and> (r \<longrightarrow> pq_max q' = m) \<and> (\<not> r \<longrightarrow> q' = q)"
  proof (cases "m < pq_nr q \<or> (\<not> got \<and> m > 0)")
    case True
    then show ?thesis using assms by (auto simp: pq_resize_def split: if_splits)
  next
    case False
    let ?es = "map (\<lambda>i. if i < length (pq_entry q) then pq_entry q ! i else junk i) [0..<m]"
    have nr: "pq_nr q \<le> length (pq_entry q)" "pq_nr q \<le> m" using assms False by (auto simp: pq_inv_def pq_wf_def)
    have "heap_upto key (pq_nr q) ?es"
      using assms heap_take [of key "pq_nr q" ?es] heap_take [of key "pq_nr q" "pq_entry q"]
      by (simp add: pq_inv_def valid_heap take_resized [OF nr])
    then show ?thesis
      using assms False nr take_resized [OF nr, of junk]
      by (auto simp: pq_resize_def pq_inv_def pq_wf_def valid_heap pq_items_def)
  qed
  then show "pq_inv key q'" "pq_items q' = pq_items q" "pq_nr q' = pq_nr q" "r \<Longrightarrow> pq_max q' = m"
    "\<not> r \<Longrightarrow> q' = q" by auto
qed

lemma enqueue_full: "pq_max q \<le> pq_nr q \<Longrightarrow> pq_enqueue key q e = Some (False, q)"
  by (simp add: pq_enqueue_def)

lemma enqueue_step:
  assumes inv: "pq_inv key q" and room: "pq_nr q < pq_max q"
  shows "\<exists>q'. pq_enqueue key q e = Some (True, q') \<and> pq_inv key q' \<and> pq_items q' = add_mset e (pq_items q)
    \<and> pq_nr q' = pq_nr q + 1 \<and> pq_max q' = pq_max q"
proof -
  define n where "n = pq_nr q"
  define q1 where "q1 = q\<lparr>pq_nr := n + 1\<rparr>"
  define v where "v = (pq_entry q)[n := e]"
  have wf: "pq_wf q1" "n < length (pq_entry q)" using assms by (auto simp: pq_inv_def pq_wf_def q1_def n_def)
  have heap: "heap_upto key n (pq_entry q)" using inv by (simp add: pq_inv_def valid_heap n_def)
  have "PQ_PARENT j \<noteq> n" if "0 < j" "j < n + 1" for j using parent_less [OF that(1)] that by linarith
  then have "v ! PQ_PARENT j = pq_entry q ! PQ_PARENT j" "PQ_PARENT j \<noteq> n" if "0 < j" "j < n + 1" for j
    using that unfolding v_def by (metis nth_list_update_neq)+
  then have "up_hole key (n + 1) v n"
    using heap by (auto simp: up_hole_def bridged_def heap_upto_def less_Suc_eq) (auto simp: v_def)
  then obtain j q' where s: "siftup key q1 n e = Some (j, q')" "sifted key q1 n e j q'"
    using siftup_ok [of key q1 n e] wf by (auto simp: q1_def v_def)
  have items: "mset (take (pq_nr q1) ((pq_entry q1)[n := e])) = add_mset e (pq_items q)"
    using wf by (simp add: q1_def pq_items_def take_Suc_conv_app_nth flip: n_def)
  show ?thesis
    using sifted_items [OF s(2) wf(1) refl] s(1) room items
    by (simp add: pq_enqueue_def q1_def flip: n_def)
qed

lemma mset_take_move:
  assumes "i < n" "n < length xs"
  shows "mset (take (n + 1) xs) = add_mset (xs ! i) (mset (take n (xs[i := xs ! n])))"
proof -
  have mem: "xs ! i \<in># mset (take n xs)" using assms by (auto simp: in_set_conv_nth intro!: exI [of _ i])
  have "mset (take n (xs[i := xs ! n])) = add_mset (xs ! n) (mset (take n xs) - {#xs ! i#})"
    using assms by (simp add: take_update_swap mset_update)
  then show ?thesis
    using assms insert_DiffM [OF mem] by (simp add: take_Suc_conv_app_nth add_mset_commute [of "xs ! i"])
qed

lemma remove_step:
  assumes inv: "pq_inv key q" and i: "i < pq_nr q"
  shows "\<exists>q'. pq_remove key q i = Some (True, Some (pq_entry q ! i), q') \<and> pq_inv key q'
    \<and> pq_items q = add_mset (pq_entry q ! i) (pq_items q') \<and> pq_nr q' = pq_nr q - 1 \<and> pq_max q' = pq_max q"
proof -
  define n where "n = pq_nr q - 1"
  define q1 where "q1 = q\<lparr>pq_nr := n\<rparr>"
  define l where "l = pq_entry q ! n"
  define v where "v = (pq_entry q)[i := l]"
  have wf: "pq_wf q1" and n: "n < length (pq_entry q)" "pq_nr q = n + 1" "i \<le> n" "n \<le> 2 ^ 31"
    using assms by (auto simp: pq_inv_def pq_wf_def q1_def n_def)
  have heap: "key (pq_entry q ! PQ_PARENT j) \<le> key (pq_entry q ! j)" if "0 < j" "j \<le> n" for j
    using inv that n by (simp add: pq_inv_def valid_heap heap_upto_def)
  show ?thesis
  proof (cases "i = n")
    case True
    have "heap_upto key n (pq_entry q)" using heap by (simp add: heap_upto_def)
    then have "pq_inv key q1" using wf by (simp add: pq_inv_def valid_heap q1_def)
    moreover have "pq_items q = add_mset (pq_entry q ! i) (pq_items q1)"
      using n True by (simp add: pq_items_def q1_def take_Suc_conv_app_nth)
    ultimately show ?thesis using True n by (auto simp: pq_remove_def at_entry_def q1_def)
  next
    case False
    then have i: "i < n" using n(3) by simp
    define up where "up = (i > 0 \<and> key l < key (pq_entry q ! PQ_PARENT i))"
    have pi: "0 < i \<longrightarrow> PQ_PARENT i < length (pq_entry q)" using parent_less [of i] n by linarith
    have br: "bridged key n v i"
      unfolding bridged_def
    proof (intro allI impI; elim conjE)
      fix j assume j: "0 < i" "0 < j" "j < n" "PQ_PARENT j = i"
      have "key (pq_entry q ! PQ_PARENT i) \<le> key (pq_entry q ! i)" using heap [of i] j n by simp
      also have "\<dots> \<le> key (pq_entry q ! j)" using heap [of j] j by simp
      finally show "key (v ! PQ_PARENT i) \<le> key (v ! j)"
        using j parent_less [of i] parent_less [of j] by (simp add: v_def)
    qed
    have others: "key (v ! PQ_PARENT j) \<le> key (v ! j)" if "0 < j" "j < n" "PQ_PARENT j \<noteq> i" "j \<noteq> i" for j
      using heap [of j] that by (simp add: v_def)
    have "\<exists>j q'. (if up then siftup key q1 i l else siftdown key q1 i l) = Some (j, q') \<and> sifted key q1 i l j q'"
    proof (cases up)
      case True
      have "key (v ! PQ_PARENT j) \<le> key (v ! j)" if "0 < j" "j < n" "PQ_PARENT j = i" for j
        using True heap [of i] heap [of j] that n i parent_less [OF that(1)] by (auto simp: v_def up_def)
      then have "up_hole key n v i" using others br by (auto simp: up_hole_def)
      then show ?thesis using siftup_ok [of key q1 i l] i n True by (auto simp: q1_def v_def)
    next
      case False
      have "key (v ! PQ_PARENT i) \<le> key (v ! i)" if "0 < i" using False that n i by (simp add: v_def up_def)
      then have "down_hole key n v i" using others br by (auto simp: down_hole_def)
      then show ?thesis using siftdown_ok [of key q1 i l] i n False by (auto simp: q1_def v_def)
    qed
    then obtain j q' where s: "(if up then siftup key q1 i l else siftdown key q1 i l) = Some (j, q')"
      "sifted key q1 i l j q'" by blast
    have at_q: "at_entry q i = Some (pq_entry q ! i)" "at_entry q1 n = Some l" "pq_nr q1 = n"
      using i n by (simp_all add: at_entry_def q1_def l_def)
    have head: "(if i > 0 then at_entry q1 (PQ_PARENT i) \<bind> (\<lambda>p. Some (PQ_COMPARE key p l)) else Some False) = Some up"
      using pi by (simp add: at_entry_def PQ_COMPARE_def up_def q1_def)
    have "pq_remove key q i = Some (True, Some (pq_entry q ! i), q'\<lparr>pq_entry := (pq_entry q')[j := l]\<rparr>)"
      unfolding pq_remove_def Let_def
      using \<open>i < pq_nr q\<close> i s(1) sifted_items(3) [OF s(2) wf refl]
      by (simp only: at_q head bind.bind_lunit if_False not_le less_irrefl_nat prod.case flip: n_def q1_def)
         (simp add: at_q)
    then show ?thesis
      using sifted_items [OF s(2) wf refl] mset_take_move [OF i n(1)] n
      by (simp add: pq_items_def q1_def l_def)
  qed
qed

lemma top_step:
  assumes "pq_inv key q"
  shows "pq_top q = None \<longleftrightarrow> pq_items q = {#}"
    "pq_top q = Some e \<Longrightarrow> e \<in># pq_items q"
    "pq_top q = Some e \<Longrightarrow> x \<in># pq_items q \<Longrightarrow> key e \<le> key x"
proof -
  have wf: "pq_wf q" and heap: "heap_upto key (pq_nr q) (pq_entry q)" and len: "pq_nr q \<le> length (pq_entry q)"
    using assms by (auto simp: pq_inv_def valid_heap pq_wf_def)
  show "pq_top q = None \<longleftrightarrow> pq_items q = {#}"
    using pq_items_empty [OF wf] by (simp add: pq_top_def pq_peek_def)
  assume top: "pq_top q = Some e"
  then have e: "e = pq_entry q ! 0" "0 < pq_nr q" by (auto simp: pq_top_def pq_peek_def split: if_splits)
  then show "e \<in># pq_items q" using len by (auto simp: pq_items_def in_set_conv_nth intro!: exI [of _ 0])
  show "key e \<le> key x" if "x \<in># pq_items q"
    using that heap_root_least [OF heap] len e by (auto simp: pq_items_def in_set_conv_nth)
qed

lemma dequeue_step:
  assumes "pq_inv key q" "pq_top q = Some e"
  shows "\<exists>q'. pq_dequeue key q = Some (True, Some e, q') \<and> pq_inv key q'
    \<and> pq_items q = add_mset e (pq_items q') \<and> pq_nr q' = pq_nr q - 1 \<and> pq_max q' = pq_max q"
  using remove_step [OF assms(1), of 0] assms(2)
  by (auto simp: pq_dequeue_def pq_top_def pq_peek_def split: if_splits)

section \<open>The contract of a priority queue\<close>

text \<open>What a client such as the timer wheel relies on: the top is a least entry, and taking it
  off removes that entry and no other.\<close>

locale prio_queue =
  fixes key :: "'e \<Rightarrow> int"
    and inv :: "'q \<Rightarrow> bool"
    and items :: "'q \<Rightarrow> 'e multiset"
    and top :: "'q \<Rightarrow> 'e option"
    and deq :: "'q \<Rightarrow> (bool \<times> 'e option \<times> 'q) option"
  assumes top_None: "inv q \<Longrightarrow> top q = None \<longleftrightarrow> items q = {#}"
    and top_in: "inv q \<Longrightarrow> top q = Some e \<Longrightarrow> e \<in># items q"
    and top_le: "inv q \<Longrightarrow> top q = Some e \<Longrightarrow> x \<in># items q \<Longrightarrow> key e \<le> key x"
    and deq_top: "inv q \<Longrightarrow> top q = Some e \<Longrightarrow>
      \<exists>q'. deq q = Some (True, Some e, q') \<and> inv q' \<and> items q = add_mset e (items q')"
begin

lemma none_due:
  assumes "inv q" "\<forall>e. top q = Some e \<longrightarrow> t < key e"
  shows "filter_mset (\<lambda>x. key x \<le> t) (items q) = {#}"
proof (cases "top q")
  case None
  then show ?thesis using top_None [OF assms(1)] by simp
next
  case (Some e)
  have "t < key x" if "x \<in># items q" for x using top_le [OF assms(1) Some that] assms(2) Some by force
  then show ?thesis by (simp add: filter_mset_eq_conv not_le)
qed

lemma pop_due:
  assumes "inv q" "top q = Some e" "key e \<le> t"
  obtains q' where "deq q = Some (True, Some e, q')" "inv q'" "items q = add_mset e (items q')"
    "filter_mset (\<lambda>x. key x \<le> t) (items q) = add_mset e (filter_mset (\<lambda>x. key x \<le> t) (items q'))"
    "\<forall>x \<in># items q'. key e \<le> key x"
proof -
  obtain q' where q': "deq q = Some (True, Some e, q')" "inv q'" "items q = add_mset e (items q')"
    using deq_top [OF assms(1,2)] by blast
  moreover have "\<forall>x \<in># items q'. key e \<le> key x" using top_le [OF assms(1,2)] q'(3) by simp
  ultimately show ?thesis using that assms(3) by simp
qed

end

interpretation pq: prio_queue key "pq_inv key" pq_items pq_top "pq_dequeue key" for key
proof
  fix q :: "'a pq" and e x
  assume inv: "pq_inv key q"
  show "pq_top q = None \<longleftrightarrow> pq_items q = {#}" by (rule top_step [OF inv])
  assume top: "pq_top q = Some e"
  show "e \<in># pq_items q" by (rule top_step(2) [OF inv top])
  show "x \<in># pq_items q \<Longrightarrow> key e \<le> key x" by (rule top_step(3) [OF inv top])
  show "\<exists>q'. pq_dequeue key q = Some (True, Some e, q') \<and> pq_inv key q' \<and> pq_items q = add_mset e (pq_items q')"
    using dequeue_step [OF inv top] by metis
qed

section \<open>Runs of operations\<close>

text \<open>A client's calls in order; \<open>Resize\<close> carries whether \<open>realloc\<close> finds the memory.\<close>

datatype 'e pq_op = Enqueue 'e | Dequeue | Remove nat | Resize nat bool

definition pq_step :: "('e \<Rightarrow> int) \<Rightarrow> (nat \<Rightarrow> 'e) \<Rightarrow> 'e pq_op \<Rightarrow> 'e pq \<Rightarrow> ((bool \<times> 'e option) \<times> 'e pq) option" where
  "pq_step key junk op q = (case op of
     Enqueue e \<Rightarrow> pq_enqueue key q e \<bind> (\<lambda>(r, q). Some ((r, None), q))
   | Dequeue \<Rightarrow> pq_dequeue key q \<bind> (\<lambda>(r, out, q). Some ((r, out), q))
   | Remove i \<Rightarrow> pq_remove key q i \<bind> (\<lambda>(r, out, q). Some ((r, out), q))
   | Resize n got \<Rightarrow> (let (r, q) = pq_resize junk got q n in Some ((r, None), q)))"

fun pq_run :: "('e \<Rightarrow> int) \<Rightarrow> (nat \<Rightarrow> 'e) \<Rightarrow> 'e pq_op list \<Rightarrow> 'e pq \<Rightarrow> ((bool \<times> 'e option) list \<times> 'e pq) option" where
  "pq_run key junk [] q = Some ([], q)"
| "pq_run key junk (op # ops) q = do {
     (r, q) \<leftarrow> pq_step key junk op q;
     (rs, q) \<leftarrow> pq_run key junk ops q;
     Some (r # rs, q) }"

text \<open>The abstract queue is a capacity and a multiset.  \<open>pq_spec key op res a b\<close>: the call
  \<open>op\<close> may take \<open>a\<close> to \<open>b\<close> and return \<open>res\<close>.\<close>

fun pq_spec :: "('e \<Rightarrow> int) \<Rightarrow> 'e pq_op \<Rightarrow> bool \<times> 'e option \<Rightarrow> nat \<times> 'e multiset \<Rightarrow> nat \<times> 'e multiset \<Rightarrow> bool" where
  "pq_spec key (Enqueue e) (r, out) (cap, M) (cap', M') \<longleftrightarrow>
     out = None \<and> cap' = cap \<and> (r \<longleftrightarrow> size M < cap) \<and> M' = (if r then add_mset e M else M)"
| "pq_spec key Dequeue (r, out) (cap, M) (cap', M') \<longleftrightarrow> cap' = cap \<and>
     (case out of None \<Rightarrow> \<not> r \<and> M = {#} \<and> M' = {#}
      | Some e \<Rightarrow> r \<and> M = add_mset e M' \<and> (\<forall>x \<in># M'. key e \<le> key x))"
| "pq_spec key (Remove i) (r, out) (cap, M) (cap', M') \<longleftrightarrow> cap' = cap \<and>
     (case out of None \<Rightarrow> \<not> r \<and> size M \<le> i \<and> M' = M | Some e \<Rightarrow> r \<and> i < size M \<and> M = add_mset e M')"
| "pq_spec key (Resize n got) (r, out) (cap, M) (cap', M') \<longleftrightarrow>
     out = None \<and> M' = M \<and> (r \<longleftrightarrow> size M \<le> n \<and> (got \<or> n = 0)) \<and> cap' = (if r then n else cap)"

fun pq_spec_run :: "('e \<Rightarrow> int) \<Rightarrow> 'e pq_op list \<Rightarrow> (bool \<times> 'e option) list \<Rightarrow> nat \<times> 'e multiset \<Rightarrow> nat \<times> 'e multiset \<Rightarrow> bool" where
  "pq_spec_run key [] rs a b \<longleftrightarrow> rs = [] \<and> a = b"
| "pq_spec_run key (op # ops) rs a b \<longleftrightarrow>
     (\<exists>r rs' c. rs = r # rs' \<and> pq_spec key op r a c \<and> pq_spec_run key ops rs' c b)"

definition pq_abs :: "'e pq \<Rightarrow> nat \<times> 'e multiset" where
  "pq_abs q = (pq_max q, pq_items q)"

definition op_ok :: "'e pq_op \<Rightarrow> bool" where
  "op_ok op \<longleftrightarrow> (case op of Resize n got \<Rightarrow> n \<le> 2 ^ 31 | _ \<Rightarrow> True)"

lemma pq_step_refines:
  assumes inv: "pq_inv key q" and op: "op_ok op"
  shows "\<exists>r q'. pq_step key junk op q = Some (r, q') \<and> pq_inv key q' \<and> pq_spec key op r (pq_abs q) (pq_abs q')"
proof -
  have wf: "pq_wf q" using inv by (simp add: pq_inv_def)
  note size = pq_items_size [OF wf]
  show ?thesis
  proof (cases op)
    case (Enqueue e)
    show ?thesis
    proof (cases "pq_nr q < pq_max q")
      case True
      obtain q' where "pq_enqueue key q e = Some (True, q')" "pq_inv key q'" "pq_items q' = add_mset e (pq_items q)"
          "pq_max q' = pq_max q"
        using enqueue_step [OF inv True, of e] by metis
      then show ?thesis using True size by (simp add: Enqueue pq_step_def pq_abs_def)
    next
      case False
      then show ?thesis using inv size by (simp add: Enqueue pq_step_def pq_abs_def enqueue_full)
    qed
  next
    case Dequeue
    show ?thesis
    proof (cases "pq_top q")
      case None
      then have "pq_items q = {#}" "pq_nr q = 0"
        using pq.top_None [OF inv] pq_items_empty [OF wf] by simp_all
      then show ?thesis using inv by (simp add: Dequeue pq_step_def pq_abs_def pq_dequeue_def pq_remove_def)
    next
      case (Some e)
      obtain q' where "pq_dequeue key q = Some (True, Some e, q')" "pq_inv key q'" "pq_items q = add_mset e (pq_items q')"
          "pq_max q' = pq_max q"
        using dequeue_step [OF inv Some] by metis
      then show ?thesis using pq.top_le [OF inv Some] by (simp add: Dequeue pq_step_def pq_abs_def)
    qed
  next
    case (Remove i)
    show ?thesis
    proof (cases "i < pq_nr q")
      case True
      obtain q' where "pq_remove key q i = Some (True, Some (pq_entry q ! i), q')" "pq_inv key q'"
          "pq_items q = add_mset (pq_entry q ! i) (pq_items q')" "pq_max q' = pq_max q"
        using remove_step [OF inv True] by metis
      then show ?thesis using True size by (simp add: Remove pq_step_def pq_abs_def)
    next
      case False
      then show ?thesis using inv size by (simp add: Remove pq_step_def pq_abs_def pq_remove_def)
    qed
  next
    case (Resize n got)
    obtain r q' where q': "pq_resize junk got q n = (r, q')" by fastforce
    have "r \<longleftrightarrow> pq_nr q \<le> n \<and> (got \<or> n = 0)" using q' by (auto simp: pq_resize_def split: if_splits)
    then show ?thesis
      using pq_resize_inv [OF inv q'] op q' size by (auto simp: Resize pq_step_def pq_abs_def op_ok_def)
  qed
qed

lemma pq_run_refines:
  assumes "pq_inv key q" "list_all op_ok ops"
  shows "\<exists>rs q'. pq_run key junk ops q = Some (rs, q') \<and> pq_inv key q' \<and> pq_spec_run key ops rs (pq_abs q) (pq_abs q')"
  using assms
proof (induction ops arbitrary: q)
  case (Cons op ops)
  obtain r q1 where 1: "pq_step key junk op q = Some (r, q1)" "pq_inv key q1" "pq_spec key op r (pq_abs q) (pq_abs q1)"
    using pq_step_refines [OF Cons.prems(1), of op junk] Cons.prems(2) by auto
  obtain rs q' where "pq_run key junk ops q1 = Some (rs, q')" "pq_inv key q'"
      "pq_spec_run key ops rs (pq_abs q1) (pq_abs q')"
    using Cons.IH [OF 1(2)] Cons.prems(2) by auto
  then show ?case using 1 by (simp del: split_paired_Ex) blast
qed auto

text \<open>C30: the heap implements a bounded priority queue.  Started by \<open>init\<close> with a capacity of
  at most \<open>2 ^ 31\<close> and driven by any sequence of enqueues, dequeues, removals by index and
  resizes, no access leaves the array, every loop ends, each result is one the abstract
  multiset queue allows (a dequeue returns a least entry and takes off exactly that one), and
  the array satisfies \<open>is_valid\<close> at the end.\<close>

theorem pq_refines_queue:
  assumes "0 < cap" "cap \<le> 2 ^ 31" "list_all op_ok ops"
  shows "\<exists>q rs q'. pq_init zero True cap = Some (True, q) \<and> pq_run key junk ops q = Some (rs, q')
    \<and> pq_spec_run key ops rs (cap, {#}) (pq_abs q') \<and> pq_is_valid key q'"
proof -
  obtain q where q: "pq_init zero True cap = Some (True, q)" "pq_inv key q" "pq_items q = {#}" "pq_max q = cap"
    using pq_init_inv [OF assms(1,2), of zero True key] by auto
  then show ?thesis
    using pq_run_refines [OF q(2) assms(3), of junk] by (auto simp: pq_abs_def pq_inv_def)
qed

theorem pq_refines_queue_witness:
  "\<exists>q rs q'. pq_init 0 True 2 = Some (True, q)
     \<and> pq_run (\<lambda>x. x) (\<lambda>_. 7) [Enqueue 5, Enqueue 3, Enqueue 9, Resize 4 True, Enqueue 1, Dequeue] q = Some (rs, q')
     \<and> pq_spec_run (\<lambda>x. x) [Enqueue 5, Enqueue 3, Enqueue 9, Resize 4 True, Enqueue 1, Dequeue] rs (2, {#}) (pq_abs q')
     \<and> pq_is_valid (\<lambda>x. x) q'"
  by (rule pq_refines_queue) (simp_all add: op_ok_def)

end
