(* ===== verification/Iox_Timer.thy ===== *)
theory Iox_Timer
  imports Iox_Pq
begin

text \<open>
  The one-shot timers of the event loop (\<open>src/examples/iox/iox_timer.c\<close>): entries with an
  absolute deadline in a priority queue keyed by that deadline.

  The file-level variables \<open>timers\<close>, \<open>next_id\<close> and \<open>initialized\<close> are the record \<open>timer_state\<close>.
  A reading of \<open>CLOCK_MONOTONIC\<close> is the argument \<open>now\<close> (nanoseconds), the outcome of an
  allocation the argument \<open>got\<close> with the old contents \<open>junk\<close> of fresh memory, and the
  callbacks of the application the function \<open>call\<close>, which may itself start and cancel timers.
  \<open>int64_t\<close> and \<open>int\<close> overflow is undefined behaviour and is \<open>None\<close>.
\<close>

section \<open>State and operations\<close>

record iox_timer_entry =
  deadline_ns :: int
  timer_cb :: "nat option"
  timer_arg :: nat
  timer_id :: int

record timer_state =
  timers :: "iox_timer_entry pq"
  next_id :: int
  initialized :: bool

definition IOX_MAX_TIMERS :: nat where
  "IOX_MAX_TIMERS = 16"

definition i64 :: "int \<Rightarrow> int option" where
  "i64 x = (if - (2 ^ 63) \<le> x \<and> x < 2 ^ 63 then Some x else None)"

definition c_int :: "int \<Rightarrow> int option" where
  "c_int x = (if - (2 ^ 31) \<le> x \<and> x < 2 ^ 31 then Some x else None)"

definition zero_entry :: iox_timer_entry where
  "zero_entry = \<lparr>deadline_ns = 0, timer_cb = None, timer_arg = 0, timer_id = 0\<rparr>"

text \<open>The return value of \<open>timer_pq_init\<close> is ignored: after a failed \<open>calloc\<close> the queue has
  no room.\<close>

definition iox_timer_init :: "bool \<Rightarrow> timer_state \<Rightarrow> timer_state option" where
  "iox_timer_init got ts =
     (if initialized ts then Some ts
      else do {
        (_, q) \<leftarrow> pq_init zero_entry got IOX_MAX_TIMERS;
        Some (ts\<lparr>timers := q, next_id := 0, initialized := True\<rparr>) })"

definition iox_timer_shutdown :: "timer_state \<Rightarrow> timer_state" where
  "iox_timer_shutdown ts =
     (if \<not> initialized ts then ts else ts\<lparr>timers := pq_free (timers ts), initialized := False\<rparr>)"

definition iox_timer_add ::
    "int \<Rightarrow> (nat \<Rightarrow> iox_timer_entry) \<Rightarrow> bool \<Rightarrow> timer_state \<Rightarrow> int \<Rightarrow> nat option \<Rightarrow> nat \<Rightarrow> (int \<times> timer_state) option" where
  "iox_timer_add now junk got ts ms cb arg =
     (if \<not> initialized ts then Some (-1, ts)
      else do {
        wait \<leftarrow> i64 (ms * 1000000);
        deadline \<leftarrow> i64 (now + wait);
        nid \<leftarrow> c_int (next_id ts + 1);
        let e = \<lparr>deadline_ns = deadline, timer_cb = cb, timer_arg = arg, timer_id = next_id ts\<rparr>;
        let ts = ts\<lparr>next_id := nid\<rparr>;
        (r, q) \<leftarrow> pq_enqueue deadline_ns (timers ts) e;
        if r then Some (timer_id e, ts\<lparr>timers := q\<rparr>)
        else do {
          let (r, q) = pq_resize junk got q (pq_max q * 2 mod 2 ^ 32);
          if \<not> r then Some (-1, ts\<lparr>timers := q\<rparr>)
          else do {
            (r, q) \<leftarrow> pq_enqueue deadline_ns q e;
            if \<not> r then Some (-1, ts\<lparr>timers := q\<rparr>)
            else Some (timer_id e, ts\<lparr>timers := q\<rparr>) } } })"

text \<open>\<open>remove\<close> scans up to \<open>(int)timer_pq_size()\<close>, which is negative from \<open>2 ^ 31\<close> entries on.\<close>

definition int_of_size :: "nat \<Rightarrow> int" where
  "int_of_size n = (if n < 2 ^ 31 then int n else int n - 2 ^ 32)"

fun timer_index_from :: "iox_timer_entry pq \<Rightarrow> int \<Rightarrow> nat \<Rightarrow> nat \<Rightarrow> nat option" where
  "timer_index_from q tid idx 0 = None"
| "timer_index_from q tid idx (Suc n) =
     (case pq_peek q idx of
        Some e \<Rightarrow> if timer_id e = tid then Some idx else timer_index_from q tid (idx + 1) n
      | None \<Rightarrow> timer_index_from q tid (idx + 1) n)"

definition iox_timer_remove :: "timer_state \<Rightarrow> int \<Rightarrow> timer_state option" where
  "iox_timer_remove ts tid =
     (if \<not> initialized ts then Some ts
      else case timer_index_from (timers ts) tid 0 (nat (int_of_size (pq_size (timers ts)))) of
        None \<Rightarrow> Some ts
      | Some idx \<Rightarrow> pq_remove deadline_ns (timers ts) idx \<bind> (\<lambda>(_, _, q). Some (ts\<lparr>timers := q\<rparr>)))"

text \<open>C division truncates towards zero.\<close>

definition c_div :: "int \<Rightarrow> int \<Rightarrow> int" where
  "c_div a b = sgn a * sgn b * (\<bar>a\<bar> div \<bar>b\<bar>)"

definition iox_timer_next_ms :: "int \<Rightarrow> timer_state \<Rightarrow> int option" where
  "iox_timer_next_ms now ts =
     (if \<not> initialized ts then Some (-1)
      else case pq_top (timers ts) of
        None \<Rightarrow> Some (-1)
      | Some tp \<Rightarrow> do {
          d \<leftarrow> i64 (deadline_ns tp - now);
          d \<leftarrow> i64 (d + 999999);
          let diff = c_div d 1000000;
          let diff = (if diff < 0 then 0 else diff);
          Some (if diff > 0x7FFFFFFF then 0x7FFFFFFF else diff) })"

text \<open>The dispatch loop.  The result lists the entries taken off the queue in order; the
  callback of each entry that has one is called with the state the application and the timers
  are in.  Callbacks may start timers that are due at once, so the loop may run for ever.\<close>

type_synonym 'w callbacks = "nat \<Rightarrow> nat \<Rightarrow> 'w \<times> timer_state \<Rightarrow> ('w \<times> timer_state) option"

partial_function (option) dispatch_loop ::
    "'w callbacks \<Rightarrow> int \<Rightarrow> 'w \<Rightarrow> timer_state \<Rightarrow> ('w \<times> timer_state \<times> iox_timer_entry list) option" where
  "dispatch_loop call t w ts =
     (case pq_top (timers ts) of
        None \<Rightarrow> Some (w, ts, [])
      | Some tp \<Rightarrow>
          if deadline_ns tp \<le> t then do {
            (_, out, q) \<leftarrow> pq_dequeue deadline_ns (timers ts);
            e \<leftarrow> out;
            let ts = ts\<lparr>timers := q\<rparr>;
            (w, ts) \<leftarrow> (case timer_cb e of Some f \<Rightarrow> call f (timer_arg e) (w, ts) | None \<Rightarrow> Some (w, ts));
            (w, ts, es) \<leftarrow> dispatch_loop call t w ts;
            Some (w, ts, e # es) }
          else Some (w, ts, []))"

definition iox_timer_dispatch ::
    "'w callbacks \<Rightarrow> int \<Rightarrow> 'w \<Rightarrow> timer_state \<Rightarrow> ('w \<times> timer_state \<times> iox_timer_entry list) option" where
  "iox_timer_dispatch call now w ts = (if \<not> initialized ts then Some (w, ts, []) else dispatch_loop call now w ts)"

section \<open>The invariant\<close>

text \<open>The capacity is 16 doubled some number of times, or 0 after a failed \<open>calloc\<close>; ids in use
  are below the next one and distinct.  \<open>timers_ok k\<close> adds that \<open>k\<close> more timers can be started
  before the \<open>int\<close> counter of ids overflows.\<close>

definition capacity_ok :: "nat \<Rightarrow> bool" where
  "capacity_ok n \<longleftrightarrow> n = 0 \<or> (\<exists>k \<le> 27. n = 16 * 2 ^ k)"

definition timer_ids :: "timer_state \<Rightarrow> int multiset" where
  "timer_ids ts = image_mset timer_id (pq_items (timers ts))"

definition timers_ok :: "nat \<Rightarrow> timer_state \<Rightarrow> bool" where
  "timers_ok k ts \<longleftrightarrow> initialized ts \<and> pq_inv deadline_ns (timers ts) \<and> capacity_ok (pq_max (timers ts))
     \<and> 0 \<le> next_id ts \<and> next_id ts + int k < 2 ^ 31
     \<and> (\<forall>e \<in># pq_items (timers ts). 0 \<le> timer_id e \<and> timer_id e < next_id ts)
     \<and> (\<forall>i. count (timer_ids ts) i \<le> 1)"

definition due :: "int \<Rightarrow> timer_state \<Rightarrow> iox_timer_entry multiset" where
  "due t ts = filter_mset (\<lambda>e. deadline_ns e \<le> t) (pq_items (timers ts))"

lemma capacity_double:
  assumes "capacity_ok n" "n \<le> m" "m \<le> n"
  shows "n * 2 mod 2 ^ 32 \<le> 2 ^ 31" "n * 2 mod 2 ^ 32 \<noteq> 0 \<Longrightarrow> n * 2 mod 2 ^ 32 = 2 * n \<and> capacity_ok (2 * n)"
proof -
  have "n * 2 mod 2 ^ 32 \<le> 2 ^ 31 \<and> (n * 2 mod 2 ^ 32 \<noteq> 0 \<longrightarrow> n * 2 mod 2 ^ 32 = 2 * n \<and> capacity_ok (2 * n))"
  proof (cases "n = 0")
    case False
    then obtain k where k: "k \<le> 27" "n = 16 * 2 ^ k" using assms by (auto simp: capacity_ok_def)
    show ?thesis
    proof (cases "k = 27")
      case False
      then have "(2::nat) ^ k \<le> 2 ^ 26" using k by (intro power_increasing) auto
      moreover have "2 * n = 16 * 2 ^ Suc k" "Suc k \<le> 27" using k False by simp_all
      then have "capacity_ok (2 * n)" unfolding capacity_ok_def by blast
      ultimately show ?thesis using k(2) by auto
    qed (simp add: k)
  qed simp
  then show "n * 2 mod 2 ^ 32 \<le> 2 ^ 31" "n * 2 mod 2 ^ 32 \<noteq> 0 \<Longrightarrow> n * 2 mod 2 ^ 32 = 2 * n \<and> capacity_ok (2 * n)"
    by auto
qed

section \<open>Starting and cancelling timers\<close>

lemma c_int_simps: "- (2 ^ 31) \<le> x \<Longrightarrow> x < 2 ^ 31 \<Longrightarrow> c_int x = Some x"
  by (simp add: c_int_def)

lemma i64_simps: "- (2 ^ 63) \<le> x \<Longrightarrow> x < 2 ^ 63 \<Longrightarrow> i64 x = Some x"
  by (simp add: i64_def)

lemma count_ids_small:
  assumes "\<forall>e \<in># M. timer_id e < n" "\<forall>i. count (image_mset timer_id M) i \<le> 1" "timer_id x = n"
  shows "\<forall>i. count (image_mset timer_id (add_mset x M)) i \<le> 1"
proof
  fix i
  have "count (image_mset timer_id M) n = 0" using assms(1) by (auto simp: count_eq_zero_iff)
  then show "count (image_mset timer_id (add_mset x M)) i \<le> 1"
    using assms(2,3) by (cases "i = n") simp_all
qed

lemma timers_ok_add:
  assumes "timers_ok (Suc k) ts" "pq_inv deadline_ns q" "capacity_ok (pq_max q)"
    "pq_items q = pq_items (timers ts) \<or> (pq_items q = add_mset e (pq_items (timers ts)) \<and> timer_id e = next_id ts)"
  shows "timers_ok k (ts\<lparr>next_id := next_id ts + 1, timers := q\<rparr>)"
proof -
  have ids: "\<forall>x \<in># pq_items (timers ts). 0 \<le> timer_id x \<and> timer_id x < next_id ts"
    "\<forall>i. count (image_mset timer_id (pq_items (timers ts))) i \<le> 1"
    using assms(1) by (auto simp: timers_ok_def timer_ids_def)
  then have "\<forall>x \<in># pq_items q. 0 \<le> timer_id x \<and> timer_id x < next_id ts + 1"
    using assms(1,4) by (force simp: timers_ok_def)
  moreover have "\<forall>i. count (image_mset timer_id (pq_items q)) i \<le> 1"
    using count_ids_small [of "pq_items (timers ts)" "next_id ts" e] ids assms(4) by metis
  ultimately show ?thesis using assms(1-3) by (simp add: timers_ok_def timer_ids_def)
qed

definition new_timer :: "int \<Rightarrow> timer_state \<Rightarrow> int \<Rightarrow> nat option \<Rightarrow> nat \<Rightarrow> iox_timer_entry" where
  "new_timer now ts ms cb arg =
     \<lparr>deadline_ns = now + ms * 1000000, timer_cb = cb, timer_arg = arg, timer_id = next_id ts\<rparr>"

lemma timer_add_ok:
  assumes inv: "timers_ok (Suc k) ts" and now: "0 \<le> now" "now < 2 ^ 62" and ms: "- (2 ^ 31) \<le> ms" "ms < 2 ^ 31"
  shows "\<exists>r ts'. iox_timer_add now junk got ts ms cb arg = Some (r, ts') \<and> timers_ok k ts' \<and>
    (if r = -1 then pq_items (timers ts') = pq_items (timers ts)
     else r = next_id ts \<and> pq_items (timers ts') = add_mset (new_timer now ts ms cb arg) (pq_items (timers ts)))"
proof -
  define e where "e = new_timer now ts ms cb arg"
  define q where "q = timers ts"
  have ts: "initialized ts" "pq_inv deadline_ns q" "capacity_ok (pq_max q)" "0 \<le> next_id ts"
    and id: "c_int (next_id ts + 1) = Some (next_id ts + 1)"
    using inv by (auto simp: timers_ok_def q_def intro: c_int_simps)
  have ovf: "i64 (ms * 1000000) = Some (ms * 1000000)" "i64 (now + ms * 1000000) = Some (now + ms * 1000000)"
    using now ms by (simp_all add: i64_def)
  have ne: "next_id ts \<noteq> -1" using ts by simp
  note add = iox_timer_add_def ts(1) ovf id bind.bind_lunit if_False if_True not_True_eq_False Let_def
    new_timer_def [symmetric] e_def [symmetric]
  have e: "timer_id e = next_id ts" by (simp add: e_def new_timer_def)
  show ?thesis
  proof (cases "pq_nr q < pq_max q")
    case True
    obtain q' where q': "pq_enqueue deadline_ns q e = Some (True, q')" "pq_inv deadline_ns q'"
        "pq_items q' = add_mset e (pq_items q)" "pq_max q' = pq_max q"
      using enqueue_step [OF ts(2) True, of e] by metis
    then have "timers_ok k (ts\<lparr>next_id := next_id ts + 1, timers := q'\<rparr>)"
      using timers_ok_add [OF inv q'(2)] ts(3) e by (simp add: q_def)
    then show ?thesis using q' ne e by (simp add: add flip: q_def e_def)
  next
    case full: False
    then have enq: "pq_enqueue deadline_ns q e = Some (False, q)" by (simp add: enqueue_full)
    obtain r q1 where q1: "pq_resize junk got q (pq_max q * 2 mod 2 ^ 32) = (r, q1)" by fastforce
    have nr: "pq_nr q = pq_max q" using full ts(2) by (auto simp: pq_inv_def pq_wf_def)
    note cap = capacity_double [OF ts(3) order_refl order_refl]
    note r = pq_resize_inv [OF ts(2) q1 cap(1)]
    show ?thesis
    proof (cases "r \<and> pq_max q1 \<noteq> 0")
      case True
      then have m: "pq_max q1 = 2 * pq_max q" "capacity_ok (pq_max q1)" using cap(2) r(4) by auto
      obtain q' where q': "pq_enqueue deadline_ns q1 e = Some (True, q')" "pq_inv deadline_ns q'"
          "pq_items q' = add_mset e (pq_items q)" "pq_max q' = pq_max q1"
        using enqueue_step [OF r(1), of e] m(1) True r nr by auto
      then have "timers_ok k (ts\<lparr>next_id := next_id ts + 1, timers := q'\<rparr>)"
        using timers_ok_add [OF inv q'(2)] m(2) e by (simp add: q_def)
      then show ?thesis using q' ne e enq q1 True by (simp add: add flip: q_def e_def)
    next
      case False
      have "timers_ok k (ts\<lparr>next_id := next_id ts + 1, timers := q1\<rparr>)"
        using timers_ok_add [OF inv r(1), of e] False r ts(3) by (auto simp: q_def capacity_ok_def)
      moreover have "pq_nr q1 = 0 \<Longrightarrow> pq_max q1 = 0 \<Longrightarrow> pq_enqueue deadline_ns q1 e = Some (False, q1)"
        by (simp add: enqueue_full)
      ultimately show ?thesis
        using enq q1 False r nr by (cases r) (auto simp: add enqueue_full simp flip: q_def e_def)
    qed
  qed
qed

lemma timers_ok_sub:
  assumes "timers_ok k ts" "pq_inv deadline_ns q" "pq_max q = pq_max (timers ts)" "pq_items q \<subseteq># pq_items (timers ts)"
  shows "timers_ok k (ts\<lparr>timers := q\<rparr>)"
proof -
  have "count (image_mset timer_id (pq_items q)) i \<le> count (timer_ids ts) i" for i
    using image_mset_subseteq_mono [OF assms(4), of timer_id] by (simp add: timer_ids_def mset_subset_eq_count)
  then have "\<forall>i. count (image_mset timer_id (pq_items q)) i \<le> 1"
    using assms(1) by (auto simp: timers_ok_def intro: order_trans)
  then show ?thesis
    using assms mset_subset_eqD [OF assms(4)] by (auto simp: timers_ok_def timer_ids_def)
qed

lemma timer_index_Some:
  assumes "timer_index_from q tid idx n = Some i" "idx + n \<le> pq_nr q"
  shows "i < pq_nr q \<and> timer_id (pq_entry q ! i) = tid"
  using assms by (induction q tid idx n rule: timer_index_from.induct) (auto simp: pq_peek_def split: if_splits)

lemma timer_index_None:
  assumes "timer_index_from q tid idx n = None" "idx + n \<le> pq_nr q" "idx \<le> i" "i < idx + n"
  shows "timer_id (pq_entry q ! i) \<noteq> tid"
  using assms
proof (induction q tid idx n rule: timer_index_from.induct)
  case (2 q tid idx n)
  then show ?case by (cases "i = idx") (auto simp: pq_peek_def split: if_splits)
qed simp

lemma timer_remove_ok:
  assumes inv: "timers_ok k ts" and small: "pq_nr (timers ts) < 2 ^ 31"
  shows "\<exists>ts'. iox_timer_remove ts tid = Some ts' \<and> timers_ok k ts' \<and>
    pq_items (timers ts') = filter_mset (\<lambda>e. timer_id e \<noteq> tid) (pq_items (timers ts))"
proof -
  define q where "q = timers ts"
  have q: "initialized ts" "pq_inv deadline_ns q" "pq_nr q \<le> length (pq_entry q)"
    using inv by (auto simp: timers_ok_def q_def pq_inv_def pq_wf_def)
  have sz: "nat (int_of_size (pq_size q)) = pq_nr q" using small by (simp add: int_of_size_def pq_size_def q_def)
  show ?thesis
  proof (cases "timer_index_from q tid 0 (pq_nr q)")
    case None
    have "timer_id (pq_entry q ! i) \<noteq> tid" if "i < pq_nr q" for i using timer_index_None [OF None] that by simp
    then have "timer_id e \<noteq> tid" if "e \<in># pq_items q" for e
      using that q(3) unfolding pq_items_def set_mset_mset in_set_conv_nth by (metis length_take min.absorb2 nth_take)
    then have "filter_mset (\<lambda>e. timer_id e \<noteq> tid) (pq_items q) = pq_items q" by (simp add: filter_mset_eq_conv)
    then show ?thesis using None inv q(1) sz by (simp add: iox_timer_remove_def flip: q_def)
  next
    case (Some i)
    then have i: "i < pq_nr q" "timer_id (pq_entry q ! i) = tid" using timer_index_Some [OF Some] by auto
    obtain q' where q': "pq_remove deadline_ns q i = Some (True, Some (pq_entry q ! i), q')" "pq_inv deadline_ns q'"
        "pq_items q = add_mset (pq_entry q ! i) (pq_items q')" "pq_max q' = pq_max q"
      using remove_step [OF q(2) i(1)] by metis
    have "count (image_mset timer_id (pq_items q)) tid \<le> 1"
      using inv by (simp add: timers_ok_def timer_ids_def q_def)
    then have "tid \<notin># image_mset timer_id (pq_items q')" 
      using q'(3) i(2) by (simp only: count_eq_zero_iff [symmetric]) simp
    then have "filter_mset (\<lambda>e. timer_id e \<noteq> tid) (pq_items q') = pq_items q'"
      by (auto simp: filter_mset_eq_conv)
    moreover have "timers_ok k (ts\<lparr>timers := q'\<rparr>)"
      using timers_ok_sub [OF inv q'(2)] q'(3,4) by (simp add: q_def)
    ultimately show ?thesis using Some q(1) q' i(2) sz by (simp add: iox_timer_remove_def flip: q_def)
  qed
qed

section \<open>Dispatch\<close>

lemma timers_ok_mono: "timers_ok (b + c) ts \<Longrightarrow> timers_ok b ts"
  by (auto simp: timers_ok_def)

lemma timer_add_keeps_due:
  assumes "timers_ok (Suc k) ts" "0 \<le> now" "now < 2 ^ 62" "0 < ms" "ms < 2 ^ 31" "t \<le> now"
  shows "\<exists>r ts'. iox_timer_add now junk got ts ms cb arg = Some (r, ts') \<and> timers_ok k ts' \<and> due t ts' = due t ts"
proof -
  obtain r ts' where "iox_timer_add now junk got ts ms cb arg = Some (r, ts')" "timers_ok k ts'"
    "if r = -1 then pq_items (timers ts') = pq_items (timers ts)
     else r = next_id ts \<and> pq_items (timers ts') = add_mset (new_timer now ts ms cb arg) (pq_items (timers ts))"
    using timer_add_ok [OF assms(1-3), of ms junk got cb arg] assms by auto
  moreover have "t < deadline_ns (new_timer now ts ms cb arg)" using assms by (simp add: new_timer_def)
  ultimately show ?thesis by (auto simp: due_def split: if_splits)
qed

text \<open>What dispatch needs of the callbacks: each starts at most \<open>k\<close> timers, and none that is
  already due at the time \<open>t\<close> read before the loop.\<close>

definition calls_ok :: "'w callbacks \<Rightarrow> int \<Rightarrow> nat \<Rightarrow> bool" where
  "calls_ok call t k \<longleftrightarrow> (\<forall>f a w ts b. timers_ok (b + k) ts \<longrightarrow>
     (\<exists>w' ts'. call f a (w, ts) = Some (w', ts') \<and> timers_ok b ts' \<and> due t ts' = due t ts))"

lemma calls_okD:
  assumes "calls_ok call t k" "timers_ok (b + k) ts"
  obtains w' ts' where "(case cb of Some f \<Rightarrow> call f a (w, ts) | None \<Rightarrow> Some (w, ts)) = Some (w', ts')"
    "timers_ok b ts'" "due t ts' = due t ts"
  using assms timers_ok_mono [OF assms(2)] unfolding calls_ok_def by (cases cb) fastforce+

lemma dispatch_loop_ok:
  assumes "timers_ok (k * size (due t ts)) ts" "calls_ok call t k"
  shows "\<exists>w' ts' es. dispatch_loop call t w ts = Some (w', ts', es) \<and> timers_ok 0 ts' \<and> due t ts' = {#}
    \<and> mset es = due t ts \<and> sorted (map deadline_ns es)"
  using assms(1)
proof (induction "size (due t ts)" arbitrary: w ts)
  case 0
  then have none: "due t ts = {#}" by simp
  have inv: "pq_inv deadline_ns (timers ts)" using 0 by (simp add: timers_ok_def)
  have late: "t < deadline_ns e" if "pq_top (timers ts) = Some e" for e
    using pq.top_in [OF inv that] none by (auto simp: due_def filter_mset_eq_conv not_le)
  have "dispatch_loop call t w ts = Some (w, ts, [])"
    using late by (cases "pq_top (timers ts)") (simp_all add: dispatch_loop.simps [of call t w ts] not_le)
  then show ?case using 0 none by simp
next
  case (Suc n)
  have inv: "pq_inv deadline_ns (timers ts)" using Suc by (simp add: timers_ok_def)
  have "due t ts \<noteq> {#}" using Suc.hyps(2) by auto
  then obtain e where top: "pq_top (timers ts) = Some e" "deadline_ns e \<le> t"
    using pq.none_due [OF inv, of t] unfolding due_def by force
  obtain q' where q': "pq_dequeue deadline_ns (timers ts) = Some (True, Some e, q')" "pq_inv deadline_ns q'"
      "pq_items (timers ts) = add_mset e (pq_items q')" "\<forall>x \<in># pq_items q'. deadline_ns e \<le> deadline_ns x"
    using pq.pop_due [OF inv top] by metis
  have mx: "pq_max q' = pq_max (timers ts)" using dequeue_step [OF inv top(1)] q'(1) by auto
  define ts1 where "ts1 = ts\<lparr>timers := q'\<rparr>"
  have due1: "due t ts = add_mset e (due t ts1)" using q'(3) top(2) by (simp add: due_def ts1_def)
  have sz: "size (due t ts1) = n" using due1 Suc.hyps(2) by simp
  have "timers_ok (k * size (due t ts)) ts1"
    using timers_ok_sub [OF Suc.prems q'(2) mx] q'(3) by (simp add: ts1_def)
  then have "timers_ok (k * n + k) ts1" unfolding Suc.hyps(2) [symmetric] by (simp add: algebra_simps)
  then obtain w2 ts2 where 2: "(case timer_cb e of Some f \<Rightarrow> call f (timer_arg e) (w, ts1) | None \<Rightarrow> Some (w, ts1)) = Some (w2, ts2)"
      "timers_ok (k * n) ts2" "due t ts2 = due t ts1"
    by (rule calls_okD [OF assms(2)])
  obtain w' ts' es where r: "dispatch_loop call t w2 ts2 = Some (w', ts', es)" "timers_ok 0 ts'" "due t ts' = {#}"
      "mset es = due t ts1" "sorted (map deadline_ns es)"
    using Suc.hyps(1) [of ts2 w2] 2 sz by auto
  have "\<forall>x \<in> set es. deadline_ns e \<le> deadline_ns x"
    using q'(4) r(4) by (auto simp: due_def ts1_def simp flip: set_mset_mset)
  moreover have "dispatch_loop call t w ts = Some (w', ts', e # es)"
    using top q'(1) 2(1) r(1) by (simp add: dispatch_loop.simps [of call t w ts] flip: ts1_def)
  ultimately show ?case using r due1 by simp
qed


definition demo_entry :: "int \<Rightarrow> nat \<Rightarrow> int \<Rightarrow> iox_timer_entry" where
  "demo_entry d f i = \<lparr>deadline_ns = d, timer_cb = Some f, timer_arg = 0, timer_id = i\<rparr>"

definition demo_timers :: timer_state where
  "demo_timers = \<lparr>
     timers = \<lparr>pq_nr = 3, pq_max = 16,
       pq_entry = [demo_entry 4000000 1 1, demo_entry 30000000 2 0, demo_entry 9000000 3 2] @ replicate 13 zero_entry\<rparr>,
     next_id = 3, initialized = True\<rparr>"

text \<open>Every callback re-arms its timer for ten milliseconds later.\<close>

definition periodic :: "nat callbacks" where
  "periodic f a = (\<lambda>(n, ts). iox_timer_add 20000000 (\<lambda>_. zero_entry) False ts 10 (Some f) a \<bind> (\<lambda>(_, ts). Some (n + 1, ts)))"

lemma periodic_ok: "calls_ok periodic 20000000 1"
  unfolding calls_ok_def
proof (intro allI impI)
  fix f a w ts b assume "timers_ok (b + 1) ts"
  then show "\<exists>w' ts'. periodic f a (w, ts) = Some (w', ts') \<and> timers_ok b ts' \<and> due 20000000 ts' = due 20000000 ts"
    using timer_add_keeps_due [of b ts 20000000 10 20000000 "\<lambda>_. zero_entry" False "Some f" a]
    by (auto simp: periodic_def)
qed

lemma demo_items:
  "pq_items (timers demo_timers) = {#demo_entry 4000000 1 1, demo_entry 30000000 2 0, demo_entry 9000000 3 2#}"
  by (simp add: pq_items_def demo_timers_def)

lemma demo_timers_ok: "timers_ok 100 demo_timers"
proof -
  have "pq_inv deadline_ns (timers demo_timers)"
    by (simp add: demo_timers_def pq_inv_def pq_wf_def pq_is_valid_def PQ_PARENT_def PQ_COMPARE_def demo_entry_def
        upt_rec)
  moreover have "capacity_ok 16" by (auto simp: capacity_ok_def intro: exI [of _ 0])
  moreover have "\<forall>i. count (timer_ids demo_timers) i \<le> 1"
    by (simp add: timer_ids_def demo_items demo_entry_def)
  ultimately show ?thesis
    unfolding timers_ok_def demo_items by (simp add: demo_timers_def demo_entry_def)
qed

lemma demo_due: "due 20000000 demo_timers = {#demo_entry 4000000 1 1, demo_entry 9000000 3 2#}"
  by (simp add: due_def demo_items demo_entry_def)


section \<open>Waiting\<close>

lemma c_div_pos: "c_div d 1000000 = (if 0 \<le> d then d div 1000000 else - ((- d) div 1000000))"
  by (auto simp: c_div_def sgn_if)

text \<open>The timeout handed to \<open>poll\<close>.  With no timer pending it is -1, wait for ever.
  Otherwise it is a number of milliseconds such that after that wait the first timer is due
  (unless the wait was cut to the largest \<open>int\<close>), while one millisecond earlier nothing was: the
  loop neither spins before a deadline nor oversleeps one.\<close>

theorem timer_wait:
  assumes ok: "timers_ok k ts" and now: "0 \<le> now" "now < 2 ^ 61"
    and range: "\<forall>e \<in># pq_items (timers ts). \<bar>deadline_ns e\<bar> < 2 ^ 62"
  shows "\<exists>ms. iox_timer_next_ms now ts = Some ms \<and> (ms = -1 \<longleftrightarrow> pq_items (timers ts) = {#}) \<and> ms < 2 ^ 31
    \<and> (0 \<le> ms \<and> ms < 0x7FFFFFFF \<longrightarrow> due (now + ms * 1000000) ts \<noteq> {#})
    \<and> (0 < ms \<longrightarrow> due (now + (ms - 1) * 1000000) ts = {#})"
proof -
  have inv: "initialized ts" "pq_inv deadline_ns (timers ts)" using ok by (auto simp: timers_ok_def)
  show ?thesis
  proof (cases "pq_top (timers ts)")
    case None
    then show ?thesis using pq.top_None [OF inv(2)] inv(1) by (simp add: iox_timer_next_ms_def)
  next
    case (Some e)
    define x where "x = deadline_ns e - now"
    define d where "d = c_div (x + 999999) 1000000"
    define ms where "ms = min (max d 0) 0x7FFFFFFF"
    have e: "e \<in># pq_items (timers ts)" by (rule pq.top_in [OF inv(2) Some])
    then have "\<bar>x\<bar> < 2 ^ 63 - 2000000" using range now by (fastforce simp: x_def)
    then have next_ms: "iox_timer_next_ms now ts = Some ms"
      using inv(1) Some by (auto simp: iox_timer_next_ms_def i64_def ms_def d_def x_def min_def max_def Let_def)
    have "due (now + ms * 1000000) ts \<noteq> {#}" if "ms < 0x7FFFFFFF"
    proof -
      have "x \<le> ms * 1000000" using that by (auto simp: ms_def d_def c_div_pos min_def max_def split: if_splits)
      then show ?thesis using e by (auto simp: due_def filter_mset_eq_conv x_def intro!: bexI [of _ e])
    qed
    moreover have "due (now + (ms - 1) * 1000000) ts = {#}" if "0 < ms"
    proof -
      have "(ms - 1) * 1000000 < x" using that by (auto simp: ms_def d_def c_div_pos min_def max_def split: if_splits)
      then have "now + (ms - 1) * 1000000 < deadline_ns e" by (simp add: x_def)
      then show ?thesis unfolding due_def using pq.none_due [OF inv(2)] Some by simp
    qed
    moreover have "pq_items (timers ts) \<noteq> {#}" "0 \<le> ms" "ms < 2 ^ 31" using e by (auto simp: ms_def)
    ultimately show ?thesis using next_ms by auto
  qed
qed

theorem timer_wait_witness:
  "\<exists>ms. iox_timer_next_ms 1 demo_timers = Some ms \<and> ms \<noteq> -1 \<and> ms < 2 ^ 31
    \<and> (0 < ms \<longrightarrow> due (1 + (ms - 1) * 1000000) demo_timers = {#})"
  using timer_wait [OF demo_timers_ok, of 1] by (auto simp: demo_items demo_entry_def)

text \<open>Cancelling a timer takes off the timer with that id and no other, wherever it sits in
  the heap, and is harmless for an id that is not pending: no later dispatch can fire it.\<close>

theorem timer_cancel:
  assumes "timers_ok k ts" "pq_nr (timers ts) < 2 ^ 31"
  shows "\<exists>ts'. iox_timer_remove ts tid = Some ts' \<and> timers_ok k ts'
    \<and> pq_items (timers ts') = filter_mset (\<lambda>e. timer_id e \<noteq> tid) (pq_items (timers ts))"
  by (rule timer_remove_ok [OF assms])

theorem timer_cancel_witness:
  "\<exists>ts'. iox_timer_remove demo_timers 0 = Some ts' \<and> timers_ok 100 ts'
    \<and> pq_items (timers ts') = {#demo_entry 4000000 1 1, demo_entry 9000000 3 2#}"
  using timer_cancel [OF demo_timers_ok, of 0] by (simp add: demo_items) (simp add: demo_timers_def demo_entry_def)

end
