(* ===== verification/Iox_Loop.thy ===== *)
theory Iox_Loop
  imports Iox_Timer
begin

text \<open>
  The event loop (\<open>src/examples/iox/iox_loop.c\<close>): a table of 64 descriptors beside the array given to
  \<open>poll\<close>, a pass over the table that calls back what is ready, and the timers.  A descriptor removed
  during a pass is only marked; the table is compacted when the pass is over.

  A callback is a function on the state of the application and the loop, which it may change through
  the calls of the loop.  What \<open>poll\<close> does is the argument \<open>sys\<close>: its return value and the \<open>revents\<close> it
  stores.  Accesses to the two arrays are checked.
\<close>

section \<open>State\<close>

definition IOX_MAX_FDS :: nat where "IOX_MAX_FDS = 64"
definition IOX_READ :: u32 where "IOX_READ = 1"
definition IOX_WRITE :: u32 where "IOX_WRITE = 2"

text \<open>The flags of \<open>poll.h\<close>.\<close>

definition POLLIN :: u16 where "POLLIN = 1"
definition POLLOUT :: u16 where "POLLOUT = 4"
definition POLLERR :: u16 where "POLLERR = 8"
definition POLLHUP :: u16 where "POLLHUP = 16"

record pollfd =
  pfd_fd :: int
  pfd_events :: u16
  pfd_revents :: u16

record iox_fd_entry =
  fd_cb :: "nat option"
  fd_arg :: nat
  fd_events :: u32
  fd_active :: bool

record iox_loop =
  lp_pfds :: "pollfd list"
  lp_fds :: "iox_fd_entry list"
  lp_nfds :: nat
  lp_running :: bool
  lp_dispatching :: bool
  lp_compact_needed :: bool
  lp_idle_cb :: "nat option"
  lp_idle_arg :: nat

definition loop_zero :: iox_loop where
  "loop_zero = \<lparr>lp_pfds = replicate IOX_MAX_FDS \<lparr>pfd_fd = 0, pfd_events = 0, pfd_revents = 0\<rparr>,
     lp_fds = replicate IOX_MAX_FDS \<lparr>fd_cb = None, fd_arg = 0, fd_events = 0, fd_active = False\<rparr>, lp_nfds = 0,
     lp_running = False, lp_dispatching = False, lp_compact_needed = False, lp_idle_cb = None, lp_idle_arg = 0\<rparr>"

section \<open>The table\<close>

text \<open>The last entry takes the place of entry \<open>i\<close>.\<close>

definition drop_entry :: "nat \<Rightarrow> iox_loop \<Rightarrow> iox_loop option" where
  "drop_entry i l =
     (let n = lp_nfds l - 1; l = l\<lparr>lp_nfds := n\<rparr> in
      if i < n then do {
        p \<leftarrow> at_index (lp_pfds l) n;
        e \<leftarrow> at_index (lp_fds l) n;
        ps \<leftarrow> put_index (lp_pfds l) i p;
        es \<leftarrow> put_index (lp_fds l) i e;
        Some (l\<lparr>lp_pfds := ps, lp_fds := es\<rparr>) }
      else Some l)"

lemma drop_entry_nfds: "drop_entry i l = Some l' \<Longrightarrow> lp_nfds l' = lp_nfds l - 1"
  by (auto simp: drop_entry_def Let_def Option.bind_eq_Some_conv split: if_splits)

function compact_from :: "nat \<Rightarrow> iox_loop \<Rightarrow> iox_loop option" where
  "compact_from i l =
     (if i < lp_nfds l then do {
        e \<leftarrow> at_index (lp_fds l) i;
        if fd_active e then compact_from (i + 1) l
        else do { l \<leftarrow> drop_entry i l; compact_from i l } }
      else Some l)"
  by pat_completeness auto
termination
  by (relation "measure (\<lambda>(i, l). lp_nfds l - i)") (auto dest: drop_entry_nfds)

declare compact_from.simps [simp del]

definition compact_loop :: "iox_loop \<Rightarrow> iox_loop option" where
  "compact_loop l = compact_from 0 (l\<lparr>lp_compact_needed := False\<rparr>)"

definition poll_events_from_iox :: "u32 \<Rightarrow> u32" where
  "poll_events_from_iox ev =
     (let pe = (if ev AND IOX_READ \<noteq> 0 then 0 OR ucast POLLIN else 0) in
      if ev AND IOX_WRITE \<noteq> 0 then pe OR ucast POLLOUT else pe)"

definition iox_events_from_poll :: "u16 \<Rightarrow> u32" where
  "iox_events_from_poll re =
     (let ev = (if re AND (POLLIN OR POLLHUP OR POLLERR) \<noteq> 0 then 0 OR IOX_READ else 0) in
      if re AND POLLOUT \<noteq> 0 then ev OR IOX_WRITE else ev)"

definition iox_fd_add :: "iox_loop \<Rightarrow> int \<Rightarrow> u32 \<Rightarrow> nat option \<Rightarrow> nat \<Rightarrow> (int \<times> iox_loop) option" where
  "iox_fd_add l fd events cb arg =
     (if IOX_MAX_FDS \<le> lp_nfds l then Some (-1, l)
      else do {
        let idx = lp_nfds l;
        ps \<leftarrow> put_index (lp_pfds l) idx \<lparr>pfd_fd = fd, pfd_events = ucast (poll_events_from_iox events), pfd_revents = 0\<rparr>;
        es \<leftarrow> put_index (lp_fds l) idx \<lparr>fd_cb = cb, fd_arg = arg, fd_events = events, fd_active = True\<rparr>;
        Some (0, l\<lparr>lp_pfds := ps, lp_fds := es, lp_nfds := idx + 1\<rparr>) })"

text \<open>The loops of \<open>iox_fd_mod\<close> and \<open>iox_fd_remove\<close> stop at the first active entry for \<open>fd\<close>.\<close>

function fd_index :: "iox_loop \<Rightarrow> int \<Rightarrow> nat \<Rightarrow> nat option option" where
  "fd_index l fd i =
     (if i < lp_nfds l then do {
        p \<leftarrow> at_index (lp_pfds l) i;
        e \<leftarrow> at_index (lp_fds l) i;
        if pfd_fd p \<noteq> fd \<or> \<not> fd_active e then fd_index l fd (i + 1) else Some (Some i) }
      else Some None)"
  by pat_completeness auto
termination
  by (relation "measure (\<lambda>(l, fd, i). lp_nfds l - i)") auto

declare fd_index.simps [simp del]

definition iox_fd_mod :: "iox_loop \<Rightarrow> int \<Rightarrow> u32 \<Rightarrow> (int \<times> iox_loop) option" where
  "iox_fd_mod l fd events = do {
     r \<leftarrow> fd_index l fd 0;
     case r of
       None \<Rightarrow> Some (-1, l)
     | Some i \<Rightarrow> do {
         e \<leftarrow> at_index (lp_fds l) i;
         p \<leftarrow> at_index (lp_pfds l) i;
         es \<leftarrow> put_index (lp_fds l) i (e\<lparr>fd_events := events\<rparr>);
         ps \<leftarrow> put_index (lp_pfds l) i (p\<lparr>pfd_events := ucast (poll_events_from_iox events)\<rparr>);
         Some (0, l\<lparr>lp_fds := es, lp_pfds := ps\<rparr>) } }"

definition iox_fd_remove :: "iox_loop \<Rightarrow> int \<Rightarrow> iox_loop option" where
  "iox_fd_remove l fd = do {
     r \<leftarrow> fd_index l fd 0;
     case r of
       None \<Rightarrow> Some l
     | Some i \<Rightarrow>
         if lp_dispatching l then do {
           e \<leftarrow> at_index (lp_fds l) i;
           es \<leftarrow> put_index (lp_fds l) i (e\<lparr>fd_active := False\<rparr>);
           Some (l\<lparr>lp_fds := es, lp_compact_needed := True\<rparr>) }
         else drop_entry i l }"

section \<open>The pass\<close>

text \<open>The result lists the entries called back, each with the loop at the time of the call.\<close>

type_synonym 'v fd_calls = "nat \<Rightarrow> int \<Rightarrow> u32 \<Rightarrow> nat \<Rightarrow> 'v \<times> iox_loop \<Rightarrow> ('v \<times> iox_loop) option"

partial_function (option) fd_pass ::
    "'v fd_calls \<Rightarrow> nat \<Rightarrow> int \<Rightarrow> 'v \<Rightarrow> iox_loop \<Rightarrow> ('v \<times> iox_loop \<times> (nat \<times> iox_loop) list) option" where
  "fd_pass call i n v l =
     (if i < lp_nfds l \<and> 0 < n then do {
        p \<leftarrow> at_index (lp_pfds l) i;
        if pfd_revents p = 0 then fd_pass call (i + 1) n v l
        else do {
          e \<leftarrow> at_index (lp_fds l) i;
          let ev = iox_events_from_poll (pfd_revents p);
          (case fd_cb e of
             Some f \<Rightarrow>
               if fd_active e \<and> ev \<noteq> 0 then do {
                 (v, l') \<leftarrow> call f (pfd_fd p) ev (fd_arg e) (v, l);
                 (v, l', log) \<leftarrow> fd_pass call (i + 1) (n - 1) v l';
                 Some (v, l', (i, l) # log) }
               else fd_pass call (i + 1) (n - 1) v l
           | None \<Rightarrow> fd_pass call (i + 1) (n - 1) v l) } }
      else Some (v, l, []))"

definition finish_pass :: "iox_loop \<Rightarrow> iox_loop option" where
  "finish_pass l =
     (let l = l\<lparr>lp_dispatching := False\<rparr> in if lp_compact_needed l then compact_loop l else Some l)"

text \<open>\<open>poll\<close> stores \<open>revents\<close> of the first \<open>nfds\<close> entries.\<close>

definition set_revents :: "u16 list \<Rightarrow> iox_loop \<Rightarrow> iox_loop" where
  "set_revents rs l = l\<lparr>lp_pfds := map (\<lambda>(p, r). p\<lparr>pfd_revents := r\<rparr>) (zip (take (lp_nfds l) (lp_pfds l)) rs) @ drop (lp_nfds l) (lp_pfds l)\<rparr>"

definition iox_loop_poll ::
    "('w \<times> timer_state) fd_calls \<Rightarrow> ('w \<times> iox_loop) callbacks \<Rightarrow> (pollfd list \<Rightarrow> int \<Rightarrow> int \<times> u16 list) \<Rightarrow> int \<Rightarrow> int \<Rightarrow>
     'w \<Rightarrow> iox_loop \<Rightarrow> timer_state \<Rightarrow> (int \<times> 'w \<times> iox_loop \<times> timer_state) option" where
  "iox_loop_poll call tcall sys now1 now2 w l ts = do {
     timeout_ms \<leftarrow> iox_timer_next_ms now1 ts;
     let (n, rs) = sys (take (lp_nfds l) (lp_pfds l)) timeout_ms;
     if n < 0 then Some (-1, w, l, ts)
     else do {
       ((w, ts), l, log) \<leftarrow> fd_pass call 0 n (w, ts) ((set_revents rs l)\<lparr>lp_dispatching := True\<rparr>);
       l \<leftarrow> finish_pass l;
       ((w, l), ts, _) \<leftarrow> iox_timer_dispatch tcall now2 (w, l) ts;
       Some (int (length log), w, l, ts) } }"

text \<open>One turn of the loop in \<open>iox_loop_run\<close>: the poll and the idle callback.\<close>

definition iox_loop_turn ::
    "('w \<times> timer_state) fd_calls \<Rightarrow> ('w \<times> iox_loop) callbacks \<Rightarrow> ('w \<times> iox_loop) callbacks \<Rightarrow> (pollfd list \<Rightarrow> int \<Rightarrow> int \<times> u16 list) \<Rightarrow>
     int \<Rightarrow> int \<Rightarrow> ('w \<times> iox_loop) \<times> timer_state \<Rightarrow> (('w \<times> iox_loop) \<times> timer_state) option" where
  "iox_loop_turn call tcall icall sys now1 now2 st = do {
     (rc, w, l, ts) \<leftarrow> iox_loop_poll call tcall sys now1 now2 (fst (fst st)) (snd (fst st)) (snd st);
     if rc < 0 then Some ((w, l), ts)
     else (case lp_idle_cb l of
       None \<Rightarrow> Some ((w, l), ts)
     | Some f \<Rightarrow> icall f (lp_idle_arg l) ((w, l), ts)) }"

text \<open>The loop runs until a callback stops it; \<open>turn k\<close> is the \<open>k\<close>th turn, with the answers of the system and the
  clock readings it meets.\<close>

partial_function (option) iox_loop_turns ::
    "(nat \<Rightarrow> ('w \<times> iox_loop) \<times> timer_state \<Rightarrow> (('w \<times> iox_loop) \<times> timer_state) option) \<Rightarrow> nat \<Rightarrow> ('w \<times> iox_loop) \<times> timer_state \<Rightarrow>
     (('w \<times> iox_loop) \<times> timer_state) option" where
  "iox_loop_turns turn k st =
     (if \<not> lp_running (snd (fst st)) then Some st
      else do { st \<leftarrow> turn k st; iox_loop_turns turn (k + 1) st })"

definition iox_loop_run ::
    "(nat \<Rightarrow> ('w \<times> iox_loop) \<times> timer_state \<Rightarrow> (('w \<times> iox_loop) \<times> timer_state) option) \<Rightarrow> 'w \<Rightarrow> iox_loop \<Rightarrow> timer_state \<Rightarrow>
     (int \<times> ('w \<times> iox_loop) \<times> timer_state) option" where
  "iox_loop_run turn w l ts = do {
     st \<leftarrow> iox_loop_turns turn 0 ((w, l\<lparr>lp_running := True\<rparr>), ts);
     Some (0, st) }"

definition iox_loop_start :: "iox_loop \<Rightarrow> iox_loop" where
  "iox_loop_start l = l\<lparr>lp_running := True\<rparr>"

definition iox_loop_stop :: "iox_loop \<Rightarrow> iox_loop" where
  "iox_loop_stop l = l\<lparr>lp_running := False\<rparr>"

definition iox_loop_stopped :: "iox_loop \<Rightarrow> bool" where
  "iox_loop_stopped l = (\<not> lp_running l)"

definition iox_loop_set_idle :: "iox_loop \<Rightarrow> nat option \<Rightarrow> nat \<Rightarrow> iox_loop" where
  "iox_loop_set_idle l cb arg = l\<lparr>lp_idle_cb := cb, lp_idle_arg := arg\<rparr>"

end
