(* ===== verification/Iox_Loop_Props.thy ===== *)
theory Iox_Loop_Props
  imports Iox_Loop
begin

text \<open>
  The table of the event loop is a finite map from descriptors to registrations, in a pass and outside of
  one; and a pass calls back every ready registration that has not been removed by then, once.
\<close>

section \<open>Association lists up to order\<close>

lemma map_of_perm:
  assumes "distinct (map fst xs)" "mset xs = mset ys"
  shows "map_of xs = map_of ys"
proof -
  have "distinct (map fst ys)" using assms by (metis mset_map mset_eq_imp_distinct_iff)
  from map_of_inject_set [OF assms(1) this] mset_eq_setD [OF assms(2)] show ?thesis by blast
qed

lemma assoc_remove:
  assumes "distinct (map fst xs)" "(a, b) \<in> set xs" "mset ys = mset xs - {#(a, b)#}"
  shows "distinct (map fst ys) \<and> map_of ys = (map_of xs)(a := None)"
proof -
  obtain us vs where xs: "xs = us @ (a, b) # vs" using assms(2) by (meson split_list)
  have m: "mset ys = mset (us @ vs)" using assms(3) by (simp add: xs)
  have d: "distinct (map fst (us @ vs))" "a \<notin> fst ` set us" "a \<notin> fst ` set vs" using assms(1) by (auto simp: xs)
  have "map_of us a = None" "map_of vs a = None" using d by (simp_all add: map_of_eq_None_iff)
  then have "map_of (us @ vs) = (map_of xs)(a := None)" by (auto simp: xs map_add_def fun_eq_iff split: option.split)
  moreover have "map_of ys = map_of (us @ vs)" using map_of_perm [OF d(1) m [symmetric]] by simp
  moreover have "distinct (map fst ys)" using d(1) m by (metis mset_map mset_eq_imp_distinct_iff)
  ultimately show ?thesis by simp
qed

lemma assoc_change:
  assumes "distinct (map fst xs)" "(a, b) \<in> set xs" "mset ys = add_mset (a, b') (mset xs - {#(a, b)#})"
  shows "distinct (map fst ys) \<and> map_of ys = (map_of xs)(a \<mapsto> b')"
proof -
  obtain zs where z: "mset zs = mset xs - {#(a, b)#}" using ex_mset by blast
  note r = assoc_remove [OF assms(1,2) z]
  have "map_of zs a = None" using r by simp
  then have "a \<notin> fst ` set zs" by (simp add: map_of_eq_None_iff)
  then have d: "distinct (map fst ((a, b') # zs))" using r by simp
  have m: "mset ((a, b') # zs) = mset ys" using assms(3) z by simp
  then have "map_of ys = map_of ((a, b') # zs)" using map_of_perm [OF d m] by simp
  moreover have "distinct (map fst ys)" using d m by (metis mset_map mset_eq_imp_distinct_iff)
  ultimately show ?thesis using r by simp
qed

lemma mset_swap_last:
  assumes "i < length xs"
  shows "mset (butlast (xs[i := last xs])) = mset xs - {#xs ! i#}"
proof (cases xs rule: rev_cases)
  case (snoc ys y)
  show ?thesis
  proof (cases "i = length ys")
    case False
    then have "i < length ys" using assms snoc by simp
    then show ?thesis by (simp add: snoc list_update_append nth_append mset_update butlast_append)
  qed (simp add: snoc)
qed (use assms in simp)

section \<open>The table as a map\<close>

definition tab :: "iox_loop \<Rightarrow> (pollfd \<times> iox_fd_entry) list" where
  "tab l = take (lp_nfds l) (zip (lp_pfds l) (lp_fds l))"

definition live_row :: "pollfd \<times> iox_fd_entry \<Rightarrow> bool" where
  "live_row r = fd_active (snd r)"

definition reg_row :: "pollfd \<times> iox_fd_entry \<Rightarrow> int \<times> u32 \<times> nat option \<times> nat" where
  "reg_row r = (pfd_fd (fst r), fd_events (snd r), fd_cb (snd r), fd_arg (snd r))"

definition regs :: "iox_loop \<Rightarrow> (int \<times> u32 \<times> nat option \<times> nat) list" where
  "regs l = map reg_row (filter live_row (tab l))"

definition reg :: "iox_loop \<Rightarrow> int \<Rightarrow> (u32 \<times> nat option \<times> nat) option" where
  "reg l = map_of (regs l)"

definition loop_shape :: "iox_loop \<Rightarrow> bool" where
  "loop_shape l \<longleftrightarrow> length (lp_pfds l) = IOX_MAX_FDS \<and> length (lp_fds l) = IOX_MAX_FDS \<and> lp_nfds l \<le> IOX_MAX_FDS"

definition loop_wf :: "iox_loop \<Rightarrow> bool" where
  "loop_wf l \<longleftrightarrow> loop_shape l \<and> distinct (map fst (regs l)) \<and>
     (\<forall>r\<in>set (tab l). pfd_events (fst r) = ucast (poll_events_from_iox (fd_events (snd r)))) \<and>
     (lp_compact_needed l \<longrightarrow> lp_dispatching l) \<and> (\<not> lp_compact_needed l \<longrightarrow> (\<forall>r\<in>set (tab l). live_row r))"

lemma length_tab: "loop_shape l \<Longrightarrow> length (tab l) = lp_nfds l"
  by (simp add: tab_def loop_shape_def)

lemma nth_tab: "loop_shape l \<Longrightarrow> i < lp_nfds l \<Longrightarrow> tab l ! i = (lp_pfds l ! i, lp_fds l ! i)"
  by (simp add: tab_def loop_shape_def)

lemma tab_put:
  assumes "loop_shape l" "i < lp_nfds l" "lp_pfds l' = (lp_pfds l)[i := p]" "lp_fds l' = (lp_fds l)[i := e]" "lp_nfds l' = lp_nfds l"
  shows "tab l' = (tab l)[i := (p, e)]"
  using assms by (simp add: tab_def zip_update take_update_swap)

lemma drop_entry_tab:
  assumes s: "loop_shape l" and i: "i < lp_nfds l"
  shows "\<exists>l'. drop_entry i l = Some l' \<and> loop_shape l' \<and> tab l' = butlast ((tab l)[i := last (tab l)]) \<and>
    lp_dispatching l' = lp_dispatching l \<and> lp_compact_needed l' = lp_compact_needed l"
proof -
  let ?n = "lp_nfds l - 1"
  define l' where "l' = (if i < ?n then l\<lparr>lp_nfds := ?n, lp_pfds := (lp_pfds l)[i := lp_pfds l ! ?n], lp_fds := (lp_fds l)[i := lp_fds l ! ?n]\<rparr>
     else l\<lparr>lp_nfds := ?n\<rparr>)"
  have d: "drop_entry i l = Some l'"
    using s i by (auto simp: drop_entry_def Let_def at_index_def put_index_def loop_shape_def l'_def)
  have s': "loop_shape l'" using s by (auto simp: loop_shape_def l'_def)
  have "tab l \<noteq> []" using length_tab [OF s] i by auto
  then have last: "last (tab l) = (lp_pfds l ! ?n, lp_fds l ! ?n)" using nth_tab [OF s, of ?n] i length_tab [OF s] by (simp add: last_conv_nth)
  have "tab l' = butlast ((tab l)[i := last (tab l)])"
  proof (cases "i < ?n")
    case True
    then show ?thesis
      using s i by (simp add: last butlast_conv_take length_tab) (simp add: tab_def l'_def loop_shape_def zip_update take_update_swap min_def)
  next
    case False
    then have "i = ?n" using i by simp
    then show ?thesis using s by (simp add: butlast_conv_take length_tab) (simp add: tab_def l'_def min_def)
  qed
  with d s' show ?thesis by (intro exI [of _ l']) (simp add: l'_def)
qed

lemma fd_index_spec:
  assumes s: "loop_shape l"
  shows "\<exists>r. fd_index l fd i = Some r \<and> (case r of
      None \<Rightarrow> \<forall>j. i \<le> j \<and> j < lp_nfds l \<longrightarrow> \<not> (pfd_fd (fst (tab l ! j)) = fd \<and> live_row (tab l ! j))
    | Some j \<Rightarrow> j < lp_nfds l \<and> pfd_fd (fst (tab l ! j)) = fd \<and> live_row (tab l ! j))"
proof (induction "lp_nfds l - i" arbitrary: i)
  case 0
  then show ?case by (auto simp: fd_index.simps [of l fd i])
next
  case (Suc d)
  then have i: "i < lp_nfds l" by simp
  have a: "at_index (lp_pfds l) i = Some (fst (tab l ! i))" "at_index (lp_fds l) i = Some (snd (tab l ! i))"
    using s i by (simp_all add: at_index_def nth_tab loop_shape_def)
  show ?case
  proof (cases "pfd_fd (fst (tab l ! i)) = fd \<and> live_row (tab l ! i)")
    case True
    then show ?thesis using i a by (auto simp: fd_index.simps [of l fd i] live_row_def)
  next
    case False
    have "d = lp_nfds l - Suc i" using Suc.hyps(2) by simp
    from Suc.hyps(1) [OF this] obtain r where r: "fd_index l fd (Suc i) = Some r" "case r of
        None \<Rightarrow> \<forall>j. Suc i \<le> j \<and> j < lp_nfds l \<longrightarrow> \<not> (pfd_fd (fst (tab l ! j)) = fd \<and> live_row (tab l ! j))
      | Some j \<Rightarrow> j < lp_nfds l \<and> pfd_fd (fst (tab l ! j)) = fd \<and> live_row (tab l ! j)"
      by blast
    have "fd_index l fd i = Some r" using False i a r(1) by (auto simp: fd_index.simps [of l fd i] live_row_def)
    moreover have "\<not> (pfd_fd (fst (tab l ! j)) = fd \<and> live_row (tab l ! j))" if "r = None" "i \<le> j" "j < lp_nfds l" for j
      using False r(2) that by (cases "j = i") auto
    ultimately show ?thesis using r(2) by (cases r) auto
  qed
qed

lemma live_reg:
  assumes "loop_wf l" "i < lp_nfds l" "live_row (tab l ! i)"
  shows "reg_row (tab l ! i) \<in> set (regs l)" "reg l (pfd_fd (fst (tab l ! i))) = Some (snd (reg_row (tab l ! i)))"
proof -
  have "i < length (tab l)" using assms length_tab by (simp add: loop_wf_def)
  then show "reg_row (tab l ! i) \<in> set (regs l)" using assms(3) by (auto simp: regs_def)
  then show "reg l (pfd_fd (fst (tab l ! i))) = Some (snd (reg_row (tab l ! i)))"
    using assms(1) by (auto simp: reg_def loop_wf_def reg_row_def)
qed

lemma fd_index_reg:
  assumes "loop_wf l"
  obtains (none) "fd_index l fd 0 = Some None" "reg l fd = None"
  | (found) i where "fd_index l fd 0 = Some (Some i)" "i < lp_nfds l" "pfd_fd (fst (tab l ! i)) = fd" "live_row (tab l ! i)"
      "reg_row (tab l ! i) \<in> set (regs l)" "reg l fd = Some (snd (reg_row (tab l ! i)))"
proof -
  have s: "loop_shape l" using assms by (simp add: loop_wf_def)
  obtain r where r: "fd_index l fd 0 = Some r" "case r of
      None \<Rightarrow> \<forall>j. 0 \<le> j \<and> j < lp_nfds l \<longrightarrow> \<not> (pfd_fd (fst (tab l ! j)) = fd \<and> live_row (tab l ! j))
    | Some j \<Rightarrow> j < lp_nfds l \<and> pfd_fd (fst (tab l ! j)) = fd \<and> live_row (tab l ! j)"
    using fd_index_spec [OF s] by blast
  show thesis
  proof (cases r)
    case None
    have "reg l fd = None"
      using r(2) None length_tab [OF s] by (auto simp: reg_def regs_def map_of_eq_None_iff reg_row_def in_set_conv_nth)
    then show ?thesis using none r(1) None by simp
  next
    case (Some i)
    then show ?thesis using found r live_reg [OF assms, of i] by simp
  qed
qed

section \<open>The calls on the table\<close>

lemma removed_wf:
  assumes wf: "loop_wf l" and s: "loop_shape l'" and r: "reg_row r \<in> set (regs l)" and m: "mset (regs l') = mset (regs l) - {#reg_row r#}"
    and ev: "\<forall>x\<in>set (tab l'). pfd_events (fst x) = ucast (poll_events_from_iox (fd_events (snd x)))"
    and live: "lp_compact_needed l' \<longrightarrow> lp_dispatching l'" "\<not> lp_compact_needed l' \<longrightarrow> (\<forall>x\<in>set (tab l'). live_row x)"
  shows "loop_wf l' \<and> reg l' = (reg l)(pfd_fd (fst r) := None)"
  using assoc_remove [of "regs l" "pfd_fd (fst r)" "snd (reg_row r)" "regs l'"] assms
  by (simp add: loop_wf_def reg_def reg_row_def)

lemma mset_regs: "mset (regs l) = image_mset reg_row (filter_mset live_row (mset (tab l)))"
  by (simp add: regs_def)

lemma drop_entry_ok:
  assumes wf: "loop_wf l" and i: "i < lp_nfds l" "live_row (tab l ! i)"
  shows "\<exists>l'. drop_entry i l = Some l' \<and> loop_wf l' \<and> reg l' = (reg l)(pfd_fd (fst (tab l ! i)) := None) \<and> lp_dispatching l' = lp_dispatching l"
proof -
  have s: "loop_shape l" using wf by (simp add: loop_wf_def)
  obtain l' where l': "drop_entry i l = Some l'" "loop_shape l'" "tab l' = butlast ((tab l)[i := last (tab l)])"
      "lp_dispatching l' = lp_dispatching l" "lp_compact_needed l' = lp_compact_needed l"
    using drop_entry_tab [OF s i(1)] by blast
  have i': "i < length (tab l)" using length_tab [OF s] i by simp
  have m: "mset (tab l') = mset (tab l) - {#tab l ! i#}" using mset_swap_last [OF i'] l'(3) by simp
  then have sub: "set (tab l') \<subseteq> set (tab l)" by (metis in_diffD set_mset_mset subsetI)
  have inr: "reg_row (tab l ! i) \<in> set (regs l)" using i i' by (auto simp: regs_def)
  have "mset (regs l') = mset (regs l) - {#reg_row (tab l ! i)#}"
    using i(2) i' by (simp add: mset_regs m image_mset_Diff)
  moreover have "\<forall>x\<in>set (tab l'). pfd_events (fst x) = ucast (poll_events_from_iox (fd_events (snd x)))"
      "lp_compact_needed l' \<longrightarrow> lp_dispatching l'" "\<not> lp_compact_needed l' \<longrightarrow> (\<forall>x\<in>set (tab l'). live_row x)"
    using wf sub l'(4,5) unfolding loop_wf_def by blast+
  ultimately show ?thesis using removed_wf [OF wf l'(2) inr] l'(1,4) by blast
qed

lemma fd_add_tab:
  assumes s: "loop_shape l" and room: "lp_nfds l < IOX_MAX_FDS"
  shows "\<exists>l'. iox_fd_add l fd ev cb arg = Some (0, l') \<and> loop_shape l' \<and> lp_nfds l' = lp_nfds l + 1 \<and>
    tab l' = tab l @ [(\<lparr>pfd_fd = fd, pfd_events = ucast (poll_events_from_iox ev), pfd_revents = 0\<rparr>,
      \<lparr>fd_cb = cb, fd_arg = arg, fd_events = ev, fd_active = True\<rparr>)] \<and>
    lp_dispatching l' = lp_dispatching l \<and> lp_compact_needed l' = lp_compact_needed l"
proof -
  let ?p = "\<lparr>pfd_fd = fd, pfd_events = ucast (poll_events_from_iox ev), pfd_revents = 0\<rparr>"
  let ?e = "\<lparr>fd_cb = cb, fd_arg = arg, fd_events = ev, fd_active = True\<rparr>"
  define l' where "l' = l\<lparr>lp_pfds := (lp_pfds l)[lp_nfds l := ?p], lp_fds := (lp_fds l)[lp_nfds l := ?e], lp_nfds := lp_nfds l + 1\<rparr>"
  have "iox_fd_add l fd ev cb arg = Some (0, l')"
    using s room by (simp add: iox_fd_add_def put_index_def loop_shape_def l'_def Let_def)
  moreover have "tab l' = tab l @ [(?p, ?e)]"
    using s room by (simp add: tab_def l'_def loop_shape_def take_Suc_conv_app_nth zip_update)
  moreover have "loop_shape l'" using s room by (simp add: loop_shape_def l'_def)
  ultimately show ?thesis by (intro exI [of _ l']) (simp add: l'_def)
qed

lemma fd_add_ok:
  assumes wf: "loop_wf l" and new: "reg l fd = None"
  shows "\<exists>r l'. iox_fd_add l fd ev cb arg = Some (r, l') \<and> loop_wf l' \<and> lp_dispatching l' = lp_dispatching l \<and>
    (if lp_nfds l = IOX_MAX_FDS then r = -1 \<and> l' = l else r = 0 \<and> reg l' = (reg l)(fd \<mapsto> (ev, cb, arg)))"
proof (cases "lp_nfds l = IOX_MAX_FDS")
  case False
  have s: "loop_shape l" "lp_nfds l < IOX_MAX_FDS" using wf False by (auto simp: loop_wf_def loop_shape_def)
  obtain l' where l': "iox_fd_add l fd ev cb arg = Some (0, l')" "loop_shape l'"
      "tab l' = tab l @ [(\<lparr>pfd_fd = fd, pfd_events = ucast (poll_events_from_iox ev), pfd_revents = 0\<rparr>,
        \<lparr>fd_cb = cb, fd_arg = arg, fd_events = ev, fd_active = True\<rparr>)]"
      "lp_dispatching l' = lp_dispatching l" "lp_compact_needed l' = lp_compact_needed l"
    using fd_add_tab [OF s] by blast
  have r: "regs l' = regs l @ [(fd, ev, cb, arg)]" by (simp add: regs_def l'(3) live_row_def reg_row_def)
  have n: "map_of (regs l) fd = None" using new by (simp add: reg_def)
  then have "reg l' = (reg l)(fd \<mapsto> (ev, cb, arg))" by (auto simp: reg_def r map_add_def fun_eq_iff split: option.split)
  moreover have "loop_wf l'"
    using wf n l'(2,4,5) by (auto simp: loop_wf_def l'(3) r live_row_def map_of_eq_None_iff)
  ultimately show ?thesis using l'(1,4) False by simp
qed (use wf in \<open>simp add: iox_fd_add_def\<close>)

text \<open>Entry \<open>i\<close> is changed in place.\<close>

lemma put_entry:
  assumes wf: "loop_wf l" and i: "i < lp_nfds l"
    and l': "lp_pfds l' = (lp_pfds l)[i := p]" "lp_fds l' = (lp_fds l)[i := e]" "lp_nfds l' = lp_nfds l"
  shows "loop_shape l'" "tab l' = (tab l)[i := (p, e)]" "mset (tab l') = add_mset (p, e) (mset (tab l) - {#tab l ! i#})" "set (tab l') \<subseteq> insert (p, e) (set (tab l))"
proof -
  have s: "loop_shape l" using wf by (simp add: loop_wf_def)
  show "loop_shape l'" using s l' by (simp add: loop_shape_def)
  show t: "tab l' = (tab l)[i := (p, e)]" using tab_put [OF s i l'] .
  show "mset (tab l') = add_mset (p, e) (mset (tab l) - {#tab l ! i#})" using i length_tab [OF s] by (simp add: t mset_update)
  show "set (tab l') \<subseteq> insert (p, e) (set (tab l))" by (simp add: t set_update_subset_insert)
qed

lemma fd_mod_ok:
  assumes wf: "loop_wf l"
  shows "\<exists>r l'. iox_fd_mod l fd ev = Some (r, l') \<and> loop_wf l' \<and> lp_dispatching l' = lp_dispatching l \<and>
    (case reg l fd of None \<Rightarrow> r = -1 \<and> l' = l | Some (_, cb, arg) \<Rightarrow> r = 0 \<and> reg l' = (reg l)(fd \<mapsto> (ev, cb, arg)))"
  using wf
proof (cases rule: fd_index_reg [of l fd])
  case none
  then show ?thesis using wf by (simp add: iox_fd_mod_def)
next
  case (found i)
  have s: "loop_shape l" using wf by (simp add: loop_wf_def)
  obtain p e where pe: "tab l ! i = (p, e)" by fastforce
  let ?p = "p\<lparr>pfd_events := ucast (poll_events_from_iox ev)\<rparr>" and ?e = "e\<lparr>fd_events := ev\<rparr>"
  define l' where "l' = l\<lparr>lp_fds := (lp_fds l)[i := ?e], lp_pfds := (lp_pfds l)[i := ?p]\<rparr>"
  have i: "i < length (lp_fds l)" "i < length (lp_pfds l)" "lp_fds l ! i = e" "lp_pfds l ! i = p"
    using s found(2) nth_tab [OF s found(2)] pe by (auto simp: loop_shape_def)
  have m: "iox_fd_mod l fd ev = Some (0, l')" using found(1) i by (simp add: iox_fd_mod_def at_index_def put_index_def l'_def)
  have "lp_pfds l' = (lp_pfds l)[i := ?p]" "lp_fds l' = (lp_fds l)[i := ?e]" "lp_nfds l' = lp_nfds l" by (simp_all add: l'_def)
  note t = put_entry [OF wf found(2) this]
  have live: "live_row (?p, ?e)" "tab l ! i \<in># mset (tab l)" using found(2,4) length_tab [OF s] nth_mem [of i "tab l"] by (simp_all add: pe live_row_def)
  have "mset (regs l') = add_mset (fd, ev, fd_cb e, fd_arg e) (mset (regs l) - {#reg_row (tab l ! i)#})"
    using live found(3,4) by (simp add: mset_regs t(3) image_mset_Diff reg_row_def pe)
  moreover have "reg_row (tab l ! i) = (fd, snd (reg_row (tab l ! i)))" using found(3) by (simp add: reg_row_def)
  ultimately have c: "distinct (map fst (regs l')) \<and> reg l' = (reg l)(fd \<mapsto> (ev, fd_cb e, fd_arg e))"
    using assoc_change [of "regs l" fd "snd (reg_row (tab l ! i))" "regs l'" "(ev, fd_cb e, fd_arg e)"] wf found(5)
    by (simp add: reg_def loop_wf_def)
  have f: "lp_compact_needed l' = lp_compact_needed l" "lp_dispatching l' = lp_dispatching l" by (simp_all add: l'_def)
  have "\<forall>x\<in>set (tab l'). pfd_events (fst x) = ucast (poll_events_from_iox (fd_events (snd x)))"
    using wf t(4) unfolding loop_wf_def by fastforce
  moreover have "\<not> lp_compact_needed l \<longrightarrow> (\<forall>x\<in>set (tab l'). live_row x)"
    using wf t(4) live(1) unfolding loop_wf_def by blast
  ultimately have "loop_wf l'" using wf t(1) c f by (simp add: loop_wf_def)
  then show ?thesis using m c found(6) by (simp add: pe reg_row_def l'_def)
qed

lemma fd_remove_ok:
  assumes wf: "loop_wf l"
  shows "\<exists>l'. iox_fd_remove l fd = Some l' \<and> loop_wf l' \<and> lp_dispatching l' = lp_dispatching l \<and> reg l' = (reg l)(fd := None)"
  using wf
proof (cases rule: fd_index_reg [of l fd])
  case none
  then show ?thesis using wf by (auto simp: iox_fd_remove_def)
next
  case (found i)
  show ?thesis
  proof (cases "lp_dispatching l")
    case False
    then show ?thesis using drop_entry_ok [OF wf found(2,4)] found by (auto simp: iox_fd_remove_def)
  next
    case True
    have s: "loop_shape l" using wf by (simp add: loop_wf_def)
    obtain p e where pe: "tab l ! i = (p, e)" by fastforce
    let ?e = "e\<lparr>fd_active := False\<rparr>"
    define l' where "l' = l\<lparr>lp_fds := (lp_fds l)[i := ?e], lp_compact_needed := True\<rparr>"
    have i: "i < length (lp_fds l)" "lp_fds l ! i = e" "lp_pfds l ! i = p"
      using s found(2) nth_tab [OF s found(2)] pe by (auto simp: loop_shape_def)
    have m: "iox_fd_remove l fd = Some l'" using found(1) i True by (simp add: iox_fd_remove_def at_index_def put_index_def l'_def)
    have "lp_pfds l' = (lp_pfds l)[i := p]" "lp_fds l' = (lp_fds l)[i := ?e]" "lp_nfds l' = lp_nfds l" using i(3) by (auto simp: l'_def)
    note t = put_entry [OF wf found(2) this]
    have live: "\<not> live_row (p, ?e)" "tab l ! i \<in># mset (tab l)" "(p, e) \<in> set (tab l)"
      using found(2,4) length_tab [OF s] pe nth_mem [of i "tab l"] by (simp_all add: live_row_def)
    have "mset (regs l') = mset (regs l) - {#reg_row (tab l ! i)#}"
      using live found(4) by (simp add: mset_regs t(3) image_mset_Diff)
    moreover have "\<forall>x\<in>set (tab l'). pfd_events (fst x) = ucast (poll_events_from_iox (fd_events (snd x)))"
      using wf t(4) live(3) unfolding loop_wf_def by fastforce
    ultimately have "loop_wf l' \<and> reg l' = (reg l)(fd := None)"
      using removed_wf [OF wf t(1) found(5)] found(3) True by (simp add: l'_def)
    then show ?thesis using m by (simp add: l'_def)
  qed
qed

section \<open>Compaction\<close>

lemma compact_from_ok:
  assumes "loop_shape l" "i \<le> lp_nfds l" "\<forall>j<i. live_row (tab l ! j)"
  shows "\<exists>l'. compact_from i l = Some l' \<and> loop_shape l' \<and> mset (tab l') = filter_mset live_row (mset (tab l)) \<and>
    lp_dispatching l' = lp_dispatching l \<and> lp_compact_needed l' = lp_compact_needed l"
  using assms
proof (induction "lp_nfds l - i" arbitrary: i l)
  case 0
  then have i: "i = lp_nfds l" by simp
  have "\<forall>x\<in>set (tab l). live_row x" using 0(4) length_tab [OF 0(2)] i by (metis in_set_conv_nth)
  then have "filter_mset live_row (mset (tab l)) = mset (tab l)" by (simp add: filter_mset_eq_conv)
  moreover have "compact_from i l = Some l" using i by (subst compact_from.simps) simp
  ultimately show ?case using 0 by simp
next
  case (Suc d)
  then have i: "i < lp_nfds l" by simp
  have e: "at_index (lp_fds l) i = Some (snd (tab l ! i))"
    using Suc.prems(1) i by (simp add: at_index_def nth_tab loop_shape_def)
  show ?case
  proof (cases "live_row (tab l ! i)")
    case True
    have "\<exists>l'. compact_from (Suc i) l = Some l' \<and> loop_shape l' \<and> mset (tab l') = filter_mset live_row (mset (tab l)) \<and>
        lp_dispatching l' = lp_dispatching l \<and> lp_compact_needed l' = lp_compact_needed l"
      using Suc.prems Suc.hyps(2) i True less_Suc_eq by (intro Suc.hyps(1)) auto
    then show ?thesis using True i e by (simp add: compact_from.simps [of i l] live_row_def)
  next
    case False
    obtain l1 where l1: "drop_entry i l = Some l1" "loop_shape l1" "tab l1 = butlast ((tab l)[i := last (tab l)])"
        "lp_dispatching l1 = lp_dispatching l" "lp_compact_needed l1 = lp_compact_needed l"
      using drop_entry_tab [OF Suc.prems(1) i] by blast
    have n1: "lp_nfds l1 = lp_nfds l - 1" using drop_entry_nfds [OF l1(1)] .
    have i': "i < length (tab l)" using length_tab [OF Suc.prems(1)] i by simp
    have m: "filter_mset live_row (mset (tab l1)) = filter_mset live_row (mset (tab l))"
      using mset_swap_last [OF i'] False l1(3) i' by simp
    have "\<forall>j<i. live_row (tab l1 ! j)" using Suc.prems(3) i' l1(3) by (auto simp: nth_butlast)
    moreover have "d = lp_nfds l1 - i" "i \<le> lp_nfds l1" using Suc.hyps(2) n1 i by linarith+
    ultimately obtain l' where "compact_from i l1 = Some l'" "loop_shape l'" "mset (tab l') = filter_mset live_row (mset (tab l1))"
        "lp_dispatching l' = lp_dispatching l1" "lp_compact_needed l' = lp_compact_needed l1"
      using Suc.hyps(1) [of l1 i] l1(2) by blast
    then show ?thesis using False i e l1 m by (simp add: compact_from.simps [of i l] live_row_def)
  qed
qed

lemma finish_pass_ok:
  assumes wf: "loop_wf l"
  shows "\<exists>l'. finish_pass l = Some l' \<and> loop_wf l' \<and> \<not> lp_dispatching l' \<and> \<not> lp_compact_needed l' \<and> reg l' = reg l"
proof (cases "lp_compact_needed l")
  case False
  have t: "tab (l\<lparr>lp_dispatching := False\<rparr>) = tab l" by (simp add: tab_def)
  then have "regs (l\<lparr>lp_dispatching := False\<rparr>) = regs l" "reg (l\<lparr>lp_dispatching := False\<rparr>) = reg l" by (simp_all add: reg_def regs_def)
  then show ?thesis using wf False t by (auto simp: finish_pass_def loop_wf_def loop_shape_def)
next
  case True
  let ?l = "l\<lparr>lp_dispatching := False, lp_compact_needed := False\<rparr>"
  have s: "loop_shape ?l" and t: "tab ?l = tab l" using wf by (simp_all add: loop_wf_def loop_shape_def tab_def)
  obtain l' where l': "compact_from 0 ?l = Some l'" "loop_shape l'" "mset (tab l') = filter_mset live_row (mset (tab l))"
      "\<not> lp_dispatching l'" "\<not> lp_compact_needed l'"
    using compact_from_ok [OF s, of 0] t by auto
  have m: "mset (regs l') = mset (regs l)" using l'(3) by (simp add: mset_regs filter_filter_mset)
  have sub: "\<forall>x\<in>set (tab l'). x \<in> set (tab l) \<and> live_row x" using arg_cong [OF l'(3), of set_mset] by auto
  have d: "distinct (map fst (regs l))" using wf by (simp add: loop_wf_def)
  have "reg l' = reg l" using map_of_perm [OF d m [symmetric]] by (simp add: reg_def)
  moreover have "distinct (map fst (regs l'))" using d m by (metis mset_map mset_eq_imp_distinct_iff)
  ultimately show ?thesis using True l' wf sub by (auto simp: finish_pass_def compact_loop_def loop_wf_def)
qed

section \<open>Sequences of calls\<close>

datatype fd_op =
  Add int u32 "nat option" nat
| Mod int u32
| Remove int
| Start
| Stop
| Set_idle "nat option" nat

fun exec_fd :: "fd_op \<Rightarrow> iox_loop \<Rightarrow> (int \<times> iox_loop) option" where
  "exec_fd (Add fd ev cb arg) l = iox_fd_add l fd ev cb arg"
| "exec_fd (Mod fd ev) l = iox_fd_mod l fd ev"
| "exec_fd (Remove fd) l = map_option (Pair 0) (iox_fd_remove l fd)"
| "exec_fd Start l = Some (0, iox_loop_start l)"
| "exec_fd Stop l = Some (0, iox_loop_stop l)"
| "exec_fd (Set_idle cb arg) l = Some (0, iox_loop_set_idle l cb arg)"

type_synonym reg_map = "int \<Rightarrow> (u32 \<times> nat option \<times> nat) option"

fun spec_fd :: "fd_op \<Rightarrow> reg_map \<Rightarrow> int \<times> reg_map" where
  "spec_fd (Add fd ev cb arg) m = (if card (dom m) < 64 then (0, m(fd \<mapsto> (ev, cb, arg))) else (-1, m))"
| "spec_fd (Mod fd ev) m = (case m fd of Some (_, cb, arg) \<Rightarrow> (0, m(fd \<mapsto> (ev, cb, arg))) | None \<Rightarrow> (-1, m))"
| "spec_fd (Remove fd) m = (0, m(fd := None))"
| "spec_fd _ m = (0, m)"

text \<open>A descriptor is added only while it is not registered.\<close>

fun fd_allowed :: "fd_op \<Rightarrow> reg_map \<Rightarrow> bool" where
  "fd_allowed (Add fd _ _ _) m = (m fd = None)"
| "fd_allowed _ _ = True"

lemma wf_flags [simp]:
  "tab (l\<lparr>lp_running := r\<rparr>) = tab l" "tab (l\<lparr>lp_idle_cb := c, lp_idle_arg := a\<rparr>) = tab l"
  "reg (l\<lparr>lp_running := r\<rparr>) = reg l" "reg (l\<lparr>lp_idle_cb := c, lp_idle_arg := a\<rparr>) = reg l"
  "loop_wf (l\<lparr>lp_running := r\<rparr>) = loop_wf l" "loop_wf (l\<lparr>lp_idle_cb := c, lp_idle_arg := a\<rparr>) = loop_wf l"
  by (simp_all add: tab_def reg_def regs_def loop_wf_def loop_shape_def)

lemma exec_fd_ok:
  assumes wf: "loop_wf l" and allowed: "fd_allowed op (reg l)"
  shows "\<exists>r l'. exec_fd op l = Some (r, l') \<and> loop_wf l' \<and> lp_dispatching l' = lp_dispatching l"
proof (cases op)
  case (Add fd ev cb arg)
  then show ?thesis using fd_add_ok [OF wf, of fd ev cb arg] allowed by auto
next
  case (Mod fd ev)
  then show ?thesis using fd_mod_ok [OF wf, of fd ev] by auto
next
  case (Remove fd)
  then show ?thesis using fd_remove_ok [OF wf, of fd] by auto
qed (use wf in \<open>simp_all add: iox_loop_start_def iox_loop_stop_def iox_loop_set_idle_def\<close>)

text \<open>Outside a pass every entry is a registration.\<close>

lemma nfds_card:
  assumes wf: "loop_wf l" and idle: "\<not> lp_dispatching l"
  shows "lp_nfds l = card (dom (reg l))"
proof -
  have s: "loop_shape l" and d: "distinct (map fst (regs l))" and live: "\<forall>r\<in>set (tab l). live_row r"
    using wf idle by (auto simp: loop_wf_def)
  have "filter live_row (tab l) = tab l" using live by (simp add: filter_id_conv)
  then have "length (regs l) = lp_nfds l" using length_tab [OF s] by (simp add: regs_def)
  moreover have "card (dom (reg l)) = length (map fst (regs l))"
    using distinct_card [OF d] by (simp add: reg_def dom_map_of_conv_image_fst)
  ultimately show ?thesis by simp
qed

lemma exec_fd_refines:
  assumes wf: "loop_wf l" and idle: "\<not> lp_dispatching l" and allowed: "fd_allowed op (reg l)"
  shows "\<exists>l'. exec_fd op l = Some (fst (spec_fd op (reg l)), l') \<and> loop_wf l' \<and> \<not> lp_dispatching l' \<and> reg l' = snd (spec_fd op (reg l))"
proof (cases op)
  case (Add fd ev cb arg)
  have "lp_nfds l \<le> 64" using wf by (simp add: loop_wf_def loop_shape_def IOX_MAX_FDS_def)
  then show ?thesis
    using fd_add_ok [OF wf, of fd ev cb arg] allowed Add idle nfds_card [OF wf idle] by (auto simp: IOX_MAX_FDS_def split: if_splits)
next
  case (Mod fd ev)
  then show ?thesis using fd_mod_ok [OF wf, of fd ev] idle by (auto split: option.splits)
next
  case (Remove fd)
  then show ?thesis using fd_remove_ok [OF wf, of fd] idle by auto
qed (use wf idle in \<open>simp_all add: iox_loop_start_def iox_loop_stop_def iox_loop_set_idle_def\<close>)

fun exec_fds :: "fd_op list \<Rightarrow> iox_loop \<Rightarrow> (int list \<times> iox_loop) option" where
  "exec_fds [] l = Some ([], l)"
| "exec_fds (op # ops) l = do { (r, l) \<leftarrow> exec_fd op l; (rs, l) \<leftarrow> exec_fds ops l; Some (r # rs, l) }"

fun spec_fds :: "fd_op list \<Rightarrow> reg_map \<Rightarrow> int list \<times> reg_map" where
  "spec_fds [] m = ([], m)"
| "spec_fds (op # ops) m = (let (r, m) = spec_fd op m; (rs, m) = spec_fds ops m in (r # rs, m))"

fun fds_allowed :: "fd_op list \<Rightarrow> reg_map \<Rightarrow> bool" where
  "fds_allowed [] m = True"
| "fds_allowed (op # ops) m = (fd_allowed op m \<and> fds_allowed ops (snd (spec_fd op m)))"

text \<open>
  Outside a pass the table of descriptors implements a map of at most 64 registrations, whatever
  sequence of calls is made: the calls return what the map gives, a full map refuses a new descriptor, no
  access leaves the two arrays, and the table afterwards stands for the map.  The swap with the last entry
  that closes the gap of a removal loses no registration.
\<close>

theorem fd_table_refines:
  assumes "loop_wf l" "\<not> lp_dispatching l" "fds_allowed ops (reg l)"
  shows "\<exists>l'. exec_fds ops l = Some (fst (spec_fds ops (reg l)), l') \<and> loop_wf l' \<and> \<not> lp_dispatching l' \<and> reg l' = snd (spec_fds ops (reg l))"
  using assms
proof (induction ops arbitrary: l)
  case (Cons op ops)
  obtain l1 where l1: "exec_fd op l = Some (fst (spec_fd op (reg l)), l1)" "loop_wf l1" "\<not> lp_dispatching l1" "reg l1 = snd (spec_fd op (reg l))"
    using exec_fd_refines [OF Cons.prems(1,2), of op] Cons.prems(3) by auto
  have "fds_allowed ops (reg l1)" using Cons.prems(3) l1(4) by simp
  from Cons.IH [OF l1(2,3) this] show ?case using l1 by (auto split: prod.split)
qed simp

lemma loop_zero_ok: "loop_wf loop_zero" "\<not> lp_dispatching loop_zero" "reg loop_zero = Map.empty"
  by (simp_all add: loop_zero_def loop_wf_def loop_shape_def tab_def regs_def reg_def)

theorem fd_table_refines_witness:
  "\<exists>l'. exec_fds [Add 5 1 (Some 0) 7, Add 6 1 (Some 1) 8, Remove 5, Mod 6 2, Mod 5 1] loop_zero = Some ([0, 0, 0, 0, -1], l') \<and>
     reg l' = [6 \<mapsto> (2, Some 1, 8)]"
proof -
  let ?ops = "[Add 5 1 (Some 0) 7, Add 6 1 (Some 1) 8, Remove 5, Mod 6 2, Mod 5 1]"
  have "fds_allowed ?ops (reg loop_zero)" by (simp add: loop_zero_ok)
  from fd_table_refines [OF loop_zero_ok(1,2) this] show ?thesis
    by (simp add: loop_zero_ok) (metis fun_upd_twist fun_upd_upd fun_upd_triv)
qed

section \<open>The pass\<close>

text \<open>While a pass runs, entries keep their place: what a callback does to the table leaves the descriptor, the answer of
  \<open>poll\<close> and the callback of every entry, may mark entries as removed, and adds entries at the end that are not ready.\<close>

definition row_kept :: "pollfd \<times> iox_fd_entry \<Rightarrow> pollfd \<times> iox_fd_entry \<Rightarrow> bool" where
  "row_kept r r' \<longleftrightarrow> pfd_fd (fst r') = pfd_fd (fst r) \<and> pfd_revents (fst r') = pfd_revents (fst r) \<and>
     fd_cb (snd r') = fd_cb (snd r) \<and> fd_arg (snd r') = fd_arg (snd r) \<and> (live_row r' \<longrightarrow> live_row r)"

definition places_kept :: "iox_loop \<Rightarrow> iox_loop \<Rightarrow> bool" where
  "places_kept l l' \<longleftrightarrow> lp_nfds l \<le> lp_nfds l' \<and> (\<forall>i<lp_nfds l. row_kept (tab l ! i) (tab l' ! i)) \<and>
     (\<forall>i. lp_nfds l \<le> i \<and> i < lp_nfds l' \<longrightarrow> pfd_revents (fst (tab l' ! i)) = 0)"

lemma row_kept_refl [simp]: "row_kept r r"
  by (simp add: row_kept_def)

lemma row_kept_trans: "row_kept r r1 \<Longrightarrow> row_kept r1 r2 \<Longrightarrow> row_kept r r2"
  by (simp add: row_kept_def)

lemma places_kept_refl [simp]: "places_kept l l"
  by (auto simp: places_kept_def)

lemma places_kept_trans:
  assumes "places_kept a b" "places_kept b c"
  shows "places_kept a c"
proof -
  have "pfd_revents (fst (tab c ! i)) = 0" if "lp_nfds a \<le> i" "i < lp_nfds c" for i
    using assms that by (cases "i < lp_nfds b") (auto simp: places_kept_def row_kept_def)
  moreover have "row_kept (tab a ! i) (tab c ! i)" if "i < lp_nfds a" for i
    by (rule row_kept_trans [of _ "tab b ! i"]) (use assms that in \<open>auto simp: places_kept_def\<close>)
  ultimately show ?thesis using assms by (auto simp: places_kept_def)
qed

lemma places_kept_put:
  assumes wf: "loop_wf l" and l': "lp_nfds l' = lp_nfds l" "tab l' = (tab l)[i := r]" and r: "row_kept (tab l ! i) r"
  shows "places_kept l l'"
proof -
  have "length (tab l) = lp_nfds l" using wf length_tab by (simp add: loop_wf_def)
  then have "row_kept (tab l ! j) (tab l' ! j)" if "j < lp_nfds l" for j
    using that l'(2) r by (cases "j = i") simp_all
  then show ?thesis using l'(1) by (auto simp: places_kept_def)
qed

lemma exec_fd_places:
  assumes wf: "loop_wf l" and busy: "lp_dispatching l" and e: "exec_fd op l = Some (r, l')"
  shows "places_kept l l'"
proof -
  have s: "loop_shape l" using wf by (simp add: loop_wf_def)
  have put: "i < lp_nfds l" "tab l ! i = (lp_pfds l ! i, lp_fds l ! i)" if "fd_index l fd 0 = Some (Some i)" for fd i
    using that fd_index_spec [OF s, of fd 0] nth_tab [OF s, of i] by auto
  show ?thesis
  proof (cases op)
    case (Add fd ev cb arg)
    show ?thesis
    proof (cases "lp_nfds l < IOX_MAX_FDS")
      case True
      then have "lp_nfds l' = lp_nfds l + 1" "\<exists>e. tab l' = tab l @ [(\<lparr>pfd_fd = fd, pfd_events = ucast (poll_events_from_iox ev), pfd_revents = 0\<rparr>, e)]"
        using fd_add_tab [OF s, of fd ev cb arg] e Add by auto
      then show ?thesis using length_tab [OF s] by (auto simp: places_kept_def nth_append less_Suc_eq)
    qed (use e Add in \<open>simp add: iox_fd_add_def\<close>)
  next
    case (Mod fd ev)
    obtain x where x: "fd_index l fd 0 = Some x" using fd_index_spec [OF s, of fd 0] by blast
    show ?thesis
    proof (cases x)
      case (Some i)
      note i = put [OF x [unfolded Some]]
      have l': "l' = l\<lparr>lp_fds := (lp_fds l)[i := (lp_fds l ! i)\<lparr>fd_events := ev\<rparr>],
          lp_pfds := (lp_pfds l)[i := (lp_pfds l ! i)\<lparr>pfd_events := ucast (poll_events_from_iox ev)\<rparr>]\<rparr>"
        using e Mod x Some i s by (simp add: iox_fd_mod_def at_index_def put_index_def loop_shape_def)
      show ?thesis
        by (rule places_kept_put [OF wf _ tab_put [OF s i(1), of _ "(lp_pfds l ! i)\<lparr>pfd_events := ucast (poll_events_from_iox ev)\<rparr>" "(lp_fds l ! i)\<lparr>fd_events := ev\<rparr>"]])
          (simp_all add: l' row_kept_def live_row_def i(2))
    qed (use e Mod x in \<open>simp add: iox_fd_mod_def\<close>)
  next
    case (Remove fd)
    obtain x where x: "fd_index l fd 0 = Some x" using fd_index_spec [OF s, of fd 0] by blast
    show ?thesis
    proof (cases x)
      case (Some i)
      note i = put [OF x [unfolded Some]]
      have l': "l' = l\<lparr>lp_fds := (lp_fds l)[i := (lp_fds l ! i)\<lparr>fd_active := False\<rparr>], lp_compact_needed := True\<rparr>"
        using e Remove x Some i s busy by (simp add: iox_fd_remove_def at_index_def put_index_def loop_shape_def)
      show ?thesis
        by (rule places_kept_put [OF wf _ tab_put [OF s i(1), of _ "lp_pfds l ! i" "(lp_fds l ! i)\<lparr>fd_active := False\<rparr>"]]) (simp_all add: l' row_kept_def live_row_def i(2))
    qed (use e Remove x in \<open>simp add: iox_fd_remove_def\<close>)
  qed (use e in \<open>auto simp: iox_loop_start_def iox_loop_stop_def iox_loop_set_idle_def places_kept_def\<close>)
qed

text \<open>A callback returns, and changes the loop only through its calls, each allowed when it is made.\<close>

inductive fd_reach :: "iox_loop \<Rightarrow> iox_loop \<Rightarrow> bool" where
  fd_same: "fd_reach l l"
| fd_call: "fd_reach l l1 \<Longrightarrow> fd_allowed op (reg l1) \<Longrightarrow> exec_fd op l1 = Some (r, l2) \<Longrightarrow> fd_reach l l2"

definition fd_calls_ok :: "'v fd_calls \<Rightarrow> bool" where
  "fd_calls_ok call \<longleftrightarrow> (\<forall>f fd ev arg v l. loop_wf l \<longrightarrow> (\<exists>v' l'. call f fd ev arg (v, l) = Some (v', l') \<and> fd_reach l l'))"

lemma fd_reach_kept:
  assumes "fd_reach l l'" "loop_wf l" "lp_dispatching l"
  shows "loop_wf l' \<and> lp_dispatching l' \<and> places_kept l l'"
  using assms
proof (induction rule: fd_reach.induct)
  case (fd_call l l1 op r l2)
  then have l1: "loop_wf l1" "lp_dispatching l1" "places_kept l l1" by auto
  have "loop_wf l2 \<and> lp_dispatching l2" using exec_fd_ok [OF l1(1) fd_call.hyps(2)] fd_call.hyps(3) l1(2) by auto
  then show ?case using places_kept_trans [OF l1(3) exec_fd_places [OF l1(1,2) fd_call.hyps(3)]] by simp
qed simp

definition ready_at :: "u16 list \<Rightarrow> iox_loop \<Rightarrow> nat \<Rightarrow> bool" where
  "ready_at rs b k \<longleftrightarrow> k < lp_nfds b \<and> iox_events_from_poll (rs ! k) \<noteq> 0 \<and> fd_cb (snd (tab b ! k)) \<noteq> None"

definition pass_log :: "nat \<Rightarrow> u16 list \<Rightarrow> iox_loop \<Rightarrow> iox_loop \<Rightarrow> (nat \<times> iox_loop) list \<Rightarrow> bool" where
  "pass_log i rs b l' log \<longleftrightarrow> sorted_wrt (<) (map fst log) \<and>
     (\<forall>(k, m)\<in>set log. i \<le> k \<and> ready_at rs b k \<and> loop_wf m \<and> places_kept b m \<and> live_row (tab m ! k)) \<and>
     (\<forall>k. i \<le> k \<and> ready_at rs b k \<longrightarrow> k \<in> fst ` set log \<or> \<not> live_row (tab l' ! k))"

lemma events_zero [simp]: "iox_events_from_poll 0 = 0"
  by (simp add: iox_events_from_poll_def)

lemma pass_log_skip:
  assumes "pass_log (Suc i) rs b l' log" "\<not> ready_at rs b i \<or> \<not> live_row (tab l' ! i)"
  shows "pass_log i rs b l' log"
  using assms unfolding pass_log_def by (metis (no_types, lifting) Suc_leD Suc_leI case_prodD case_prodI2 le_neq_implies_less)

lemma pass_log_call:
  assumes "pass_log (Suc i) rs b l' log" "ready_at rs b i" "loop_wf l" "places_kept b l" "live_row (tab l ! i)"
  shows "pass_log i rs b l' ((i, l) # log)"
proof -
  have "\<forall>k\<in>fst ` set log. i < k" using assms(1) by (auto simp: pass_log_def)
  moreover have "k \<in> fst ` set ((i, l) # log) \<or> \<not> live_row (tab l' ! k)" if "i \<le> k" "ready_at rs b k" for k
    using assms(1) that by (cases "k = i") (auto simp: pass_log_def)
  moreover have "\<forall>(k, m)\<in>set ((i, l) # log). i \<le> k \<and> ready_at rs b k \<and> loop_wf m \<and> places_kept b m \<and> live_row (tab m ! k)"
    using assms by (auto simp: pass_log_def)
  ultimately show ?thesis using assms(1) by (auto simp: pass_log_def)
qed

lemma filter_drop_step:
  assumes "i < length rs"
  shows "length (filter P (drop i rs)) = (if P (rs ! i) then 1 else 0) + length (filter P (drop (Suc i) rs))"
  using assms by (simp add: Cons_nth_drop_Suc [symmetric])

lemma pass_log_nil:
  assumes "\<forall>k. i \<le> k \<and> k < length rs \<longrightarrow> rs ! k = 0" "lp_nfds b = length rs"
  shows "pass_log i rs b l []"
  using assms by (auto simp: pass_log_def ready_at_def)

text \<open>The pass from entry \<open>i\<close>; \<open>b\<close> is the loop the pass began with and \<open>rs\<close> the answers of \<open>poll\<close>.\<close>

lemma fd_pass_ok:
  assumes calls: "fd_calls_ok call" and len: "lp_nfds b = length rs" and rs: "\<forall>k<length rs. pfd_revents (fst (tab b ! k)) = rs ! k"
    and l: "loop_wf l" "lp_dispatching l" "places_kept b l"
  shows "\<exists>v' l' log. fd_pass call i (int (length (filter (\<lambda>r. r \<noteq> 0) (drop i rs)))) v l = Some (v', l', log) \<and>
    loop_wf l' \<and> lp_dispatching l' \<and> places_kept l l' \<and> pass_log i rs b l' log"
  using l
proof (induction "length rs - i" arbitrary: i v l)
  case 0
  then have "pass_log i rs b l []" using len by (intro pass_log_nil) auto
  then show ?case using 0 by (simp add: fd_pass.simps)
next
  case (Suc d)
  let ?n = "\<lambda>i. int (length (filter (\<lambda>r. r \<noteq> 0) (drop i rs)))"
  have i: "i < length rs" and d: "d = length rs - Suc i" using Suc.hyps(2) by auto
  have s: "loop_shape l" and nl: "i < lp_nfds l" using Suc.prems i len by (auto simp: loop_wf_def places_kept_def)
  have kept: "row_kept (tab b ! i) (tab l ! i)" using Suc.prems(3) i len by (simp add: places_kept_def)
  have p: "at_index (lp_pfds l) i = Some (fst (tab l ! i))" "at_index (lp_fds l) i = Some (snd (tab l ! i))"
    using s nl by (simp_all add: at_index_def nth_tab loop_shape_def)
  have rev: "pfd_revents (fst (tab l ! i)) = rs ! i" using kept rs i by (simp add: row_kept_def)
  have ready: "ready_at rs b i \<longleftrightarrow> iox_events_from_poll (rs ! i) \<noteq> 0 \<and> fd_cb (snd (tab l ! i)) \<noteq> None"
    using kept i len by (simp add: ready_at_def row_kept_def)
  show ?case
  proof (cases "ready_at rs b i \<and> live_row (tab l ! i)")
    case True
    then obtain f where f: "fd_cb (snd (tab l ! i)) = Some f" and ev: "iox_events_from_poll (rs ! i) \<noteq> 0" using ready by auto
    then have nz: "rs ! i \<noteq> 0" by (metis events_zero)
    obtain v1 l1 where c: "call f (pfd_fd (fst (tab l ! i))) (iox_events_from_poll (rs ! i)) (fd_arg (snd (tab l ! i))) (v, l) = Some (v1, l1)" "fd_reach l l1"
      using calls Suc.prems(1) unfolding fd_calls_ok_def by blast
    have l1: "loop_wf l1" "lp_dispatching l1" "places_kept l l1" using fd_reach_kept [OF c(2) Suc.prems(1,2)] by auto
    obtain v' l' log where r: "fd_pass call (Suc i) (?n (Suc i)) v1 l1 = Some (v', l', log)" "loop_wf l'" "lp_dispatching l'"
        "places_kept l1 l'" "pass_log (Suc i) rs b l' log"
      using Suc.hyps(1) [OF d l1(1,2) places_kept_trans [OF Suc.prems(3) l1(3)]] by blast
    have "fd_pass call i (?n i) v l = Some (v', l', (i, l) # log)"
      using nl p f ev nz c(1) r(1) True by (subst fd_pass.simps) (simp add: rev filter_drop_step [OF i] live_row_def)
    moreover have "pass_log i rs b l' ((i, l) # log)" using pass_log_call [OF r(5) _ Suc.prems(1,3)] True by blast
    ultimately show ?thesis using r(2,3) places_kept_trans [OF l1(3) r(4)] by blast
  next
    case False
    obtain v' l' log where r: "fd_pass call (Suc i) (?n (Suc i)) v l = Some (v', l', log)" "loop_wf l'" "lp_dispatching l'"
        "places_kept l l'" "pass_log (Suc i) rs b l' log"
      using Suc.hyps(1) [OF d Suc.prems] by blast
    have "row_kept (tab l ! i) (tab l' ! i)" using r(4) nl by (simp add: places_kept_def)
    then have log: "pass_log i rs b l' log" using False pass_log_skip [OF r(5)] unfolding row_kept_def by blast
    show ?thesis
    proof (cases "?n i = 0")
      case True
      then have "filter (\<lambda>r. r \<noteq> 0) (drop i rs) = []" by simp
      then have "rs ! k = 0" if "i \<le> k" "k < length rs" for k
        using that nth_mem [of "k - i" "drop i rs"] by (simp add: filter_empty_conv)
      then have "pass_log i rs b l []" using len by (intro pass_log_nil) auto
      moreover have "fd_pass call i (?n i) v l = Some (v, l, [])" using True by (subst fd_pass.simps) simp
      ultimately show ?thesis using Suc.prems by auto
    next
      case n: False
      have "(if rs ! i = 0 then ?n i else ?n i - 1) = ?n (Suc i)" by (simp add: filter_drop_step [OF i])
      moreover have "fd_cb (snd (tab l ! i)) = None \<or> \<not> (fd_active (snd (tab l ! i)) \<and> iox_events_from_poll (rs ! i) \<noteq> 0)"
        using False ready by (auto simp: live_row_def)
      ultimately have "fd_pass call i (?n i) v l = fd_pass call (Suc i) (?n (Suc i)) v l"
        using nl p n by (subst fd_pass.simps) (cases "fd_cb (snd (tab l ! i))"; cases "rs ! i = 0"; cases "fd_active (snd (tab l ! i))"; simp add: rev Let_def)
      then show ?thesis using r log by simp
    qed
  qed
qed

text \<open>The table with the answers of \<open>poll\<close> stored.\<close>

lemma revents_rows:
  "map reg_row (filter live_row (map (\<lambda>(r, x). ((fst r)\<lparr>pfd_revents := x\<rparr>, snd r)) zs)) = map reg_row (filter live_row (map fst zs))"
  by (induction zs) (auto simp: live_row_def reg_row_def)

lemma set_revents_tab:
  assumes wf: "loop_wf l" and len: "length rs = lp_nfds l"
  defines "b \<equiv> (set_revents rs l)\<lparr>lp_dispatching := True\<rparr>"
  shows "loop_wf b" "lp_nfds b = lp_nfds l" "reg b = reg l"
    "k < lp_nfds l \<Longrightarrow> tab b ! k = ((fst (tab l ! k))\<lparr>pfd_revents := rs ! k\<rparr>, snd (tab l ! k))"
proof -
  have s: "loop_shape l" using wf by (simp add: loop_wf_def)
  show n: "lp_nfds b = lp_nfds l" by (simp add: b_def set_revents_def)
  have f: "lp_fds b = lp_fds l" "lp_compact_needed b = lp_compact_needed l" "lp_dispatching b" by (simp_all add: b_def set_revents_def)
  have s': "loop_shape b" using s len by (simp add: loop_shape_def b_def set_revents_def)
  show row: "tab b ! k = ((fst (tab l ! k))\<lparr>pfd_revents := rs ! k\<rparr>, snd (tab l ! k))" if "k < lp_nfds l" for k
    using that s s' len n by (simp add: nth_tab) (simp add: b_def set_revents_def loop_shape_def nth_append)
  have "tab b = map2 (\<lambda>r x. ((fst r)\<lparr>pfd_revents := x\<rparr>, snd r)) (tab l) rs"
    by (rule nth_equalityI) (use s s' n len row in \<open>simp_all add: length_tab\<close>)
  then have t: "tab b = map (\<lambda>(r, x). ((fst r)\<lparr>pfd_revents := x\<rparr>, snd r)) (zip (tab l) rs)" .
  have "regs b = map reg_row (filter live_row (map fst (zip (tab l) rs)))"
    unfolding regs_def t by (rule revents_rows)
  then have r: "regs b = regs l" using s len by (simp add: regs_def length_tab)
  then show "reg b = reg l" by (simp add: reg_def)
  have "\<forall>x\<in>set (tab b). \<exists>y\<in>set (tab l). pfd_events (fst x) = pfd_events (fst y) \<and> snd x = snd y"
    by (auto simp: t dest!: set_zip_leftD) (metis fst_conv snd_conv)
  then show "loop_wf b" using wf s' r f unfolding loop_wf_def live_row_def by (metis (no_types, lifting))
qed

text \<open>
  C32: One pass over the descriptors, whatever the callbacks do to the table meanwhile: it ends; it calls
  the entries in table order, each at most once, and only entries \<open>poll\<close> reported ready that are still
  registered with that callback when the call is made, so a removed descriptor is never called back; a ready
  entry with a callback is called unless it has been removed by then; and after the compaction the table
  is well formed again and stands for the same registrations.
\<close>

theorem poll_calls_ready:
  assumes calls: "fd_calls_ok call" and wf: "loop_wf l" and idle: "\<not> lp_dispatching l" and len: "length rs = lp_nfds l"
  shows "\<exists>v' l' log l''. fd_pass call 0 (int (length (filter (\<lambda>r. r \<noteq> 0) rs))) v ((set_revents rs l)\<lparr>lp_dispatching := True\<rparr>) = Some (v', l', log) \<and>
    sorted_wrt (<) (map fst log) \<and>
    (\<forall>(k, m)\<in>set log. k < lp_nfds l \<and> iox_events_from_poll (rs ! k) \<noteq> 0 \<and> fd_active (lp_fds m ! k) \<and>
       (\<exists>ev f. reg m (pfd_fd (lp_pfds l ! k)) = Some (ev, Some f, fd_arg (lp_fds l ! k)) \<and> fd_cb (lp_fds l ! k) = Some f)) \<and>
    (\<forall>k<lp_nfds l. iox_events_from_poll (rs ! k) \<noteq> 0 \<and> fd_cb (lp_fds l ! k) \<noteq> None \<longrightarrow> k \<in> fst ` set log \<or> \<not> fd_active (lp_fds l' ! k)) \<and>
    finish_pass l' = Some l'' \<and> loop_wf l'' \<and> \<not> lp_dispatching l'' \<and> reg l'' = reg l'"
proof -
  let ?b = "(set_revents rs l)\<lparr>lp_dispatching := True\<rparr>"
  have s: "loop_shape l" using wf by (simp add: loop_wf_def)
  note b = set_revents_tab [OF wf len]
  have row: "tab ?b ! k = ((lp_pfds l ! k)\<lparr>pfd_revents := rs ! k\<rparr>, lp_fds l ! k)" if "k < lp_nfds l" for k
    using b(4) [OF that] nth_tab [OF s that] by simp
  obtain v' l' log where p: "fd_pass call 0 (int (length (filter (\<lambda>r. r \<noteq> 0) (drop 0 rs)))) v ?b = Some (v', l', log)"
      "loop_wf l'" "places_kept ?b l'" "pass_log 0 rs ?b l' log"
    using fd_pass_ok [OF calls, of ?b rs ?b 0 v] b(1,2) row len by auto
  obtain l'' where f: "finish_pass l' = Some l''" "loop_wf l''" "\<not> lp_dispatching l''" "reg l'' = reg l'" using finish_pass_ok [OF p(2)] by blast
  have called: "k < lp_nfds l \<and> iox_events_from_poll (rs ! k) \<noteq> 0 \<and> fd_active (lp_fds m ! k) \<and>
      (\<exists>ev f. reg m (pfd_fd (lp_pfds l ! k)) = Some (ev, Some f, fd_arg (lp_fds l ! k)) \<and> fd_cb (lp_fds l ! k) = Some f)"
    if "(k, m) \<in> set log" for k m
  proof -
    have m: "ready_at rs ?b k" "loop_wf m" "places_kept ?b m" "live_row (tab m ! k)" using p(4) that by (auto simp: pass_log_def)
    have k: "k < lp_nfds l" "k < lp_nfds m" using m(1,3) b(2) by (auto simp: ready_at_def places_kept_def)
    have "row_kept (tab ?b ! k) (tab m ! k)" using m(3) k b(2) by (simp add: places_kept_def)
    then show ?thesis
      using live_reg(2) [OF m(2) k(2) m(4)] m k row [OF k(1)] nth_tab [of m k]
      by (auto simp: ready_at_def row_kept_def reg_row_def live_row_def loop_wf_def)
  qed
  have "k \<in> fst ` set log \<or> \<not> fd_active (lp_fds l' ! k)"
    if "k < lp_nfds l" "iox_events_from_poll (rs ! k) \<noteq> 0" "fd_cb (lp_fds l ! k) \<noteq> None" for k
  proof -
    have "ready_at rs ?b k" "k < lp_nfds l'" using that b(2) row p(3) by (auto simp: ready_at_def places_kept_def)
    then show ?thesis using p(2,4) nth_tab [of l' k] by (auto simp: pass_log_def live_row_def loop_wf_def)
  qed
  then show ?thesis using p(1,4) f called by (auto simp: pass_log_def)
qed

text \<open>Two ready descriptors, where the callback of the first removes the second.\<close>

definition demo_call :: "unit fd_calls" where
  "demo_call f fd ev arg st = map_option (Pair (fst st)) (iox_fd_remove (snd st) (int arg))"

definition demo_loop :: iox_loop where
  "demo_loop = loop_zero\<lparr>lp_nfds := 2,
     lp_pfds := [\<lparr>pfd_fd = 5, pfd_events = 1, pfd_revents = 0\<rparr>, \<lparr>pfd_fd = 6, pfd_events = 1, pfd_revents = 0\<rparr>] @ drop 2 (lp_pfds loop_zero),
     lp_fds := [\<lparr>fd_cb = Some 0, fd_arg = 6, fd_events = 1, fd_active = True\<rparr>, \<lparr>fd_cb = Some 0, fd_arg = 6, fd_events = 1, fd_active = True\<rparr>] @ drop 2 (lp_fds loop_zero)\<rparr>"

lemma demo_call_ok: "fd_calls_ok demo_call"
proof -
  have "fd_reach l l'" if "iox_fd_remove l fd = Some l'" for l l' fd
    by (rule fd_reach.fd_call [OF fd_reach.fd_same, of "Remove fd" l 0 l']) (simp_all add: that)
  then show ?thesis unfolding fd_calls_ok_def demo_call_def using fd_remove_ok by fastforce
qed

lemma demo_loop_ok: "loop_wf demo_loop" "\<not> lp_dispatching demo_loop" "lp_nfds demo_loop = 2"
proof -
  have e: "poll_events_from_iox 1 = 1" by (simp add: poll_events_from_iox_def IOX_READ_def IOX_WRITE_def POLLIN_def)
  have t: "tab demo_loop = [(\<lparr>pfd_fd = 5, pfd_events = 1, pfd_revents = 0\<rparr>, \<lparr>fd_cb = Some 0, fd_arg = 6, fd_events = 1, fd_active = True\<rparr>),
      (\<lparr>pfd_fd = 6, pfd_events = 1, pfd_revents = 0\<rparr>, \<lparr>fd_cb = Some 0, fd_arg = 6, fd_events = 1, fd_active = True\<rparr>)]"
    by (simp add: demo_loop_def tab_def)
  show "loop_wf demo_loop" unfolding loop_wf_def regs_def t
    by (simp add: live_row_def reg_row_def e) (simp add: demo_loop_def loop_zero_def loop_shape_def IOX_MAX_FDS_def)
qed (simp_all add: demo_loop_def loop_zero_def)

theorem poll_calls_ready_witness:
  "\<exists>v' l' log l''. fd_pass demo_call 0 2 () ((set_revents [1, 1] demo_loop)\<lparr>lp_dispatching := True\<rparr>) = Some (v', l', log) \<and>
     sorted_wrt (<) (map fst log) \<and> (\<forall>k<2. k \<in> fst ` set log \<or> \<not> fd_active (lp_fds l' ! k)) \<and> finish_pass l' = Some l'' \<and> loop_wf l''"
proof -
  have e: "iox_events_from_poll 1 \<noteq> 0" by (simp add: iox_events_from_poll_def POLLIN_def POLLHUP_def POLLERR_def POLLOUT_def IOX_READ_def IOX_WRITE_def)
  have c: "fd_cb (lp_fds demo_loop ! k) \<noteq> None" "iox_events_from_poll ([1, 1] ! k) \<noteq> 0" if "k < 2" for k
    using that e by (auto simp: demo_loop_def less_2_cases_iff)
  have "length [1, 1 :: u16] = lp_nfds demo_loop" by (simp add: demo_loop_ok)
  from poll_calls_ready [OF demo_call_ok demo_loop_ok(1,2) this, of "()"] show ?thesis
    using c by (simp add: demo_loop_ok(3)) blast
qed

end
