(* ===== verification/Keystore.thy ===== *)
theory Keystore
  imports Prelude WS_Hash
begin

text \<open>
  The text files of keys and credentials (\<open>src/auth/keystore.c\<close>).

  A file is the list of its bytes and the file system a partial map from paths to files, so
  \<open>fopen\<close> for reading fails exactly when there is no such file.  \<open>fgets\<close>, \<open>sscanf\<close> with \<open>%511s\<close>
  and \<open>fprintf\<close> of \<open>%s\<close> are the functions of the C library on bytes.  What the system may refuse
  is an argument: \<open>opens\<close> for the private open, \<open>got\<close> for the allocation inside \<open>stretch\<close>, and
  an \<open>option\<close> for the bytes of each \<open>ks_random\<close>.  The primitives of monocypher are the record
  \<open>ks_lib\<close>; \<open>crypto_verify32\<close> is equality, and \<open>crypto_wipe\<close> of a local variable has no effect
  the model can see.  A C string is the list of its bytes without the NUL.
\<close>

section \<open>Constants and parameters\<close>

definition KS_OK :: int where "KS_OK = 0"
definition KS_ERR :: int where "KS_ERR = -1"
definition KS_LINE :: nat where "KS_LINE = 512"
definition KS_SALT_LEN :: nat where "KS_SALT_LEN = 16"
definition KEYFILE_MAGIC :: bytes where "KEYFILE_MAGIC = str ''netchan-key-v1''"

datatype host_result = KS_HOST_UNKNOWN | KS_HOST_MATCH | KS_HOST_CHANGED

text \<open>\<open>argon2 pass salt\<close> gives 32 bytes; \<open>ks_lock key plain\<close> the mac and the ciphertext and \<open>ks_unlock\<close> the
  plaintext or a refusal, both under the all-zero nonce; \<open>eddsa_key_pair seed\<close> the secret and
  the public key.\<close>

record ks_lib =
  argon2 :: "bytes \<Rightarrow> bytes \<Rightarrow> bytes"
  ks_lock :: "bytes \<Rightarrow> bytes \<Rightarrow> bytes \<times> bytes"
  ks_unlock :: "bytes \<Rightarrow> bytes \<Rightarrow> bytes \<Rightarrow> bytes option"
  eddsa_key_pair :: "bytes \<Rightarrow> bytes \<times> bytes"

type_synonym fs = "string \<Rightarrow> bytes option"

section \<open>The C library on bytes\<close>

definition nl :: u8 where "nl = 10"

definition is_space :: "u8 \<Rightarrow> bool" where
  "is_space c \<longleftrightarrow> c = 32 \<or> (9 \<le> c \<and> c \<le> 13)"

text \<open>\<open>fgets(line, n, f)\<close>: up to \<open>n - 1\<close> bytes, through the first newline; \<open>None\<close> at the end
  of the file.  The second component is what the file has left.\<close>

definition fgets :: "nat \<Rightarrow> bytes \<Rightarrow> (bytes \<times> bytes) option" where
  "fgets n f =
     (if f = [] then None
      else let k = min (n - 1) (length (takeWhile (\<lambda>c. c \<noteq> nl) f) + 1) in Some (take k f, drop k f))"

text \<open>The lines a loop \<open>while (fgets(line, sizeof(line), f))\<close> sees.\<close>

function fgets_lines :: "bytes \<Rightarrow> bytes list" where
  "fgets_lines f = (case fgets KS_LINE f of None \<Rightarrow> [] | Some (line, rest) \<Rightarrow> line # fgets_lines rest)"
  by pat_completeness auto
termination
proof (relation "measure length", simp)
  fix f line rest x2 assume "fgets KS_LINE f = Some x2" "(line, rest) = x2"
  then show "(rest, f) \<in> measure length"
    by (auto simp: fgets_def KS_LINE_def Let_def split: if_splits)
qed

declare fgets_lines.simps [simp del]

text \<open>One \<open>%511s\<close>: skip white space, then at most 511 other bytes, at least one.\<close>

definition scan_word :: "bytes \<Rightarrow> (bytes \<times> bytes) option" where
  "scan_word s =
     (let s = dropWhile is_space s; w = take 511 (takeWhile (\<lambda>c. \<not> is_space c) s) in
      if w = [] then None else Some (w, drop (length w) s))"

text \<open>\<open>sscanf(line, "%511s ... %511s", ...)\<close> with \<open>n\<close> conversions: the words it stored.  The input
  is a C string, so it ends at a NUL the line may hold.\<close>

fun scan_words :: "nat \<Rightarrow> bytes \<Rightarrow> bytes list" where
  "scan_words 0 s = []"
| "scan_words (Suc n) s = (case scan_word s of None \<Rightarrow> [] | Some (w, r) \<Rightarrow> w # scan_words n r)"

definition sscanf_words :: "nat \<Rightarrow> bytes \<Rightarrow> bytes list option" where
  "sscanf_words n line = (let ws = scan_words n (cstr line) in if length ws = n then Some ws else None)"

text \<open>\<open>line[0]\<close>.\<close>

definition comment_line :: "bytes \<Rightarrow> bool" where
  "comment_line line \<longleftrightarrow> line \<noteq> [] \<and> hd line = 35"

section \<open>Helpers\<close>

definition hex_digit :: "u8 \<Rightarrow> u8" where
  "hex_digit v = str ''0123456789abcdef'' ! unat v"

definition ks_hex_encode :: "bytes \<Rightarrow> bytes" where
  "ks_hex_encode bs = concat (map (\<lambda>b. [hex_digit (drop_bit 4 b), hex_digit (b AND 0x0f)]) bs)"

definition hex_nibble :: "u8 \<Rightarrow> int" where
  "hex_nibble ch =
     (if 48 \<le> ch \<and> ch \<le> 57 then uint ch - 48
      else if 97 \<le> ch \<and> ch \<le> 102 then uint ch - 97 + 10
      else if 65 \<le> ch \<and> ch \<le> 70 then uint ch - 65 + 10
      else KS_ERR)"

text \<open>The loop of \<open>ks_hex_decode\<close>: the bytes stored before it returned, and whether it reached
  the end.  What was stored stays in \<open>out\<close> when a digit is refused.\<close>

fun hex_loop :: "bytes \<Rightarrow> bytes \<times> bool" where
  "hex_loop (a # b # s) =
     (let hi = hex_nibble a; lo = hex_nibble b in
      if hi < 0 \<or> lo < 0 then ([], False)
      else let (bs, fine) = hex_loop s in (word_of_int (push_bit 4 hi OR lo) # bs, fine))"
| "hex_loop s = ([], True)"

definition ks_hex_decode :: "bytes \<Rightarrow> nat \<Rightarrow> bytes \<Rightarrow> int \<times> bytes" where
  "ks_hex_decode out n inp =
     (if length inp \<noteq> n * 2 then (KS_ERR, out)
      else let (bs, fine) = hex_loop inp in
        (if fine then KS_OK else KS_ERR, bs @ drop (length bs) out))"

definition stretch :: "ks_lib \<Rightarrow> bool \<Rightarrow> bytes \<Rightarrow> bytes \<Rightarrow> bytes" where
  "stretch L got passphrase salt = (if \<not> got then replicate 32 0 else argon2 L passphrase salt)"

text \<open>\<open>open_private\<close> with \<open>O_APPEND\<close> or \<open>O_TRUNC\<close>, and the bytes written before \<open>fclose\<close>.\<close>

definition append_file :: "fs \<Rightarrow> string \<Rightarrow> bytes \<Rightarrow> fs" where
  "append_file f path bs = f(path \<mapsto> (case f path of None \<Rightarrow> [] | Some old \<Rightarrow> old) @ bs)"

definition write_file :: "fs \<Rightarrow> string \<Rightarrow> bytes \<Rightarrow> fs" where
  "write_file f path bs = f(path \<mapsto> bs)"

section \<open>known_hosts\<close>

text \<open>The local buffer \<open>on_file\<close> is read only when the decoding succeeded and has then been
  written in full, so its first contents, zeroes here, do not matter.\<close>

fun known_host_loop :: "bytes list \<Rightarrow> bytes \<Rightarrow> bytes \<Rightarrow> host_result \<times> bytes option" where
  "known_host_loop [] host pk = (KS_HOST_UNKNOWN, None)"
| "known_host_loop (line # lines) host pk =
     (if comment_line line then known_host_loop lines host pk
      else case sscanf_words 2 line of
        Some [name, hex] \<Rightarrow>
          if name \<noteq> host then known_host_loop lines host pk
          else (case ks_hex_decode (replicate 32 0) 32 hex of (rc, on_file) \<Rightarrow>
            if rc \<noteq> 0 then known_host_loop lines host pk
            else if on_file = pk then (KS_HOST_MATCH, None)
            else (KS_HOST_CHANGED, Some on_file))
      | _ \<Rightarrow> known_host_loop lines host pk)"

definition ks_known_host :: "fs \<Rightarrow> string \<Rightarrow> bytes \<Rightarrow> bytes \<Rightarrow> host_result \<times> bytes option" where
  "ks_known_host f path host pk =
     (case f path of
        None \<Rightarrow> (KS_HOST_UNKNOWN, None)
      | Some content \<Rightarrow> known_host_loop (fgets_lines content) host pk)"

definition ks_known_host_add :: "fs \<Rightarrow> bool \<Rightarrow> string \<Rightarrow> bytes \<Rightarrow> bytes \<Rightarrow> int \<times> fs" where
  "ks_known_host_add f opens path host pk =
     (if \<not> opens then (KS_ERR, f)
      else (KS_OK, append_file f path (host @ [32] @ ks_hex_encode pk @ [nl])))"

section \<open>Server host key\<close>

text \<open>\<open>sk\<close> is the caller's buffer before the call.\<close>

definition ks_host_key :: "fs \<Rightarrow> bytes option \<Rightarrow> bool \<Rightarrow> string \<Rightarrow> bytes \<Rightarrow> int \<times> bytes \<times> fs" where
  "ks_host_key f rnd opens path sk =
     (case f path of
        Some content \<Rightarrow>
          (case scan_word content of
             None \<Rightarrow> (-1, sk, f)
           | Some (hex, _) \<Rightarrow> (case ks_hex_decode sk 32 (cstr hex) of (rc, sk) \<Rightarrow> (if rc = KS_OK then 0 else -1, sk, f)))
      | None \<Rightarrow>
          (case rnd of
             None \<Rightarrow> (KS_ERR, sk, f)
           | Some sk \<Rightarrow>
               if \<not> opens then (KS_ERR, sk, f)
               else (KS_OK, sk, write_file f path (ks_hex_encode sk @ [nl]))))"

section \<open>authorized_keys and passwd\<close>

fun authorized_loop :: "bytes list \<Rightarrow> bytes \<Rightarrow> bytes \<Rightarrow> bool" where
  "authorized_loop [] user pk \<longleftrightarrow> False"
| "authorized_loop (line # lines) user pk \<longleftrightarrow>
     (if comment_line line then authorized_loop lines user pk
      else case sscanf_words 2 line of
        Some [name, hex] \<Rightarrow>
          if name \<noteq> user then authorized_loop lines user pk
          else (case ks_hex_decode (replicate 32 0) 32 hex of (rc, on_file) \<Rightarrow>
            if rc \<noteq> 0 then authorized_loop lines user pk
            else if on_file = pk then True
            else authorized_loop lines user pk)
      | _ \<Rightarrow> authorized_loop lines user pk)"

definition ks_authorized_key :: "fs \<Rightarrow> string \<Rightarrow> bytes \<Rightarrow> bytes \<Rightarrow> bool" where
  "ks_authorized_key f path user pk =
     (case f path of None \<Rightarrow> False | Some content \<Rightarrow> authorized_loop (fgets_lines content) user pk)"

fun user_loop :: "bytes list \<Rightarrow> bytes \<Rightarrow> bool" where
  "user_loop [] user \<longleftrightarrow> False"
| "user_loop (line # lines) user \<longleftrightarrow>
     (if comment_line line then user_loop lines user
      else case sscanf_words 1 line of
        Some [name] \<Rightarrow> if name = user then True else user_loop lines user
      | _ \<Rightarrow> user_loop lines user)"

definition ks_user_exists :: "fs \<Rightarrow> string \<Rightarrow> bytes \<Rightarrow> bool" where
  "ks_user_exists f path user = (case f path of None \<Rightarrow> False | Some content \<Rightarrow> user_loop (fgets_lines content) user)"

text \<open>The loop of \<open>ks_check_password\<close> with its buffers \<open>salt\<close> and \<open>want\<close>, which a line that is
  refused half way has already changed.\<close>

fun password_loop :: "bytes list \<Rightarrow> bytes \<Rightarrow> bytes \<Rightarrow> bytes \<Rightarrow> bool \<times> bytes \<times> bytes" where
  "password_loop [] user salt want = (False, salt, want)"
| "password_loop (line # lines) user salt want =
     (if comment_line line then password_loop lines user salt want
      else case sscanf_words 3 line of
        Some [name, salt_hex, hash_hex] \<Rightarrow>
          if name \<noteq> user then password_loop lines user salt want
          else (case ks_hex_decode salt KS_SALT_LEN salt_hex of (rc, salt) \<Rightarrow>
            if rc \<noteq> 0 then password_loop lines user salt want
            else (case ks_hex_decode want 32 hash_hex of (rc, want) \<Rightarrow>
              if rc \<noteq> 0 then password_loop lines user salt want
              else (True, salt, want)))
      | _ \<Rightarrow> password_loop lines user salt want)"

definition ks_check_password :: "ks_lib \<Rightarrow> bool \<Rightarrow> fs \<Rightarrow> string \<Rightarrow> bytes \<Rightarrow> bytes \<Rightarrow> bool" where
  "ks_check_password L got f path user password =
     (case (case f path of
              None \<Rightarrow> (False, replicate KS_SALT_LEN 0, replicate 32 0)
            | Some content \<Rightarrow> password_loop (fgets_lines content) user (replicate KS_SALT_LEN 0) (replicate 32 0))
      of (have_entry, salt, want) \<Rightarrow>
        let hash = stretch L got password salt in
        if have_entry then hash = want else False)"

definition ks_passwd_add :: "ks_lib \<Rightarrow> bool \<Rightarrow> fs \<Rightarrow> bytes option \<Rightarrow> bool \<Rightarrow> string \<Rightarrow> bytes \<Rightarrow> bytes \<Rightarrow> int \<times> fs" where
  "ks_passwd_add L got f rnd opens path user password =
     (case rnd of
        None \<Rightarrow> (KS_ERR, f)
      | Some salt \<Rightarrow>
          let hash = stretch L got password salt in
          if \<not> opens then (KS_ERR, f)
          else (KS_OK, append_file f path
            (user @ [32] @ ks_hex_encode salt @ [32] @ ks_hex_encode hash @ [nl])))"

section \<open>Client identity key file\<close>

definition key_line :: "string \<Rightarrow> bytes \<Rightarrow> bytes" where
  "key_line key val = str key @ [32] @ val @ [nl]"

text \<open>The file is truncated when it is opened, so a failure of the second \<open>ks_random\<close> leaves the
  two lines already printed.\<close>

definition ks_keyfile_generate ::
    "ks_lib \<Rightarrow> bool \<Rightarrow> fs \<Rightarrow> bytes option \<Rightarrow> bytes option \<Rightarrow> bool \<Rightarrow> string \<Rightarrow> bytes option \<Rightarrow> int \<times> bytes option \<times> fs" where
  "ks_keyfile_generate L got f rnd1 rnd2 opens path passphrase =
     (case rnd1 of
        None \<Rightarrow> (KS_ERR, None, f)
      | Some seed \<Rightarrow>
          (case eddsa_key_pair L seed of (sk, pk) \<Rightarrow>
           if \<not> opens then (KS_ERR, None, f)
           else let head = KEYFILE_MAGIC @ [nl] @ key_line ''pk'' (ks_hex_encode pk) in
             (case passphrase of
                Some (c # cs) \<Rightarrow>
                  (case rnd2 of
                     None \<Rightarrow> (KS_ERR, None, write_file f path head)
                   | Some salt \<Rightarrow>
                       let key = stretch L got (c # cs) salt; (mac, cipher) = ks_lock L key sk; sealed = mac @ cipher in
                       (KS_OK, Some pk, write_file f path
                         (head @ key_line ''kdf'' (str ''argon2id'') @ key_line ''salt'' (ks_hex_encode salt)
                          @ key_line ''sk'' (ks_hex_encode sealed))))
              | _ \<Rightarrow> (KS_OK, Some pk, write_file f path
                   (head @ key_line ''kdf'' (str ''none'') @ key_line ''sk'' (ks_hex_encode sk))))))"

record key_scan =
  ks_kdf :: bytes
  ks_salt_hex :: bytes
  ks_sk_hex :: bytes
  ks_pk :: bytes
  have_pk :: bool
  have_sk :: bool

text \<open>\<open>snprintf(buf, cap, "%s", val)\<close>.\<close>

definition snprintf_s :: "nat \<Rightarrow> bytes \<Rightarrow> bytes" where
  "snprintf_s cap val = take (cap - 1) val"

text \<open>One turn of the loop of \<open>keyfile_scan\<close>; a \<open>pk\<close> line that does not decode falls through to
  the other tests, which it fails.\<close>

definition scan_line :: "bytes \<Rightarrow> key_scan \<Rightarrow> key_scan" where
  "scan_line line s =
     (case sscanf_words 2 line of
        Some [key, val] \<Rightarrow>
          (case (if key = str ''pk'' then ks_hex_decode (ks_pk s) 32 val else (-1, ks_pk s)) of (rc, pk) \<Rightarrow>
            let s = s\<lparr>ks_pk := pk\<rparr> in
            if rc = 0 then s\<lparr>have_pk := True\<rparr>
            else if key = str ''kdf'' then s\<lparr>ks_kdf := snprintf_s KS_LINE val\<rparr>
            else if key = str ''salt'' then s\<lparr>ks_salt_hex := snprintf_s KS_LINE val\<rparr>
            else if key = str ''sk'' then s\<lparr>ks_sk_hex := snprintf_s KS_LINE val, have_sk := True\<rparr>
            else s)
      | _ \<Rightarrow> s)"

definition keyfile_scan :: "fs \<Rightarrow> string \<Rightarrow> bytes \<Rightarrow> int \<times> key_scan" where
  "keyfile_scan f path pk =
     (let s = \<lparr>ks_kdf = [], ks_salt_hex = [], ks_sk_hex = [], ks_pk = pk, have_pk = False, have_sk = False\<rparr> in
      case f path of
        None \<Rightarrow> (KS_ERR, s)
      | Some content \<Rightarrow>
          (case fgets_lines content of
             [] \<Rightarrow> (KS_ERR, s)
           | first # lines \<Rightarrow>
               if take (length KEYFILE_MAGIC) (cstr first) \<noteq> KEYFILE_MAGIC then (KS_ERR, s)
               else let s = fold scan_line lines s in (if have_pk s \<and> have_sk s then 0 else -1, s)))"

definition ks_keyfile_encrypted :: "fs \<Rightarrow> string \<Rightarrow> bool" where
  "ks_keyfile_encrypted f path =
     (case keyfile_scan f path (replicate 32 0) of (rc, s) \<Rightarrow> if rc \<noteq> 0 then False else ks_kdf s = str ''argon2id'')"

text \<open>\<open>sk\<close> and \<open>pk\<close> are the caller's buffers before the call; the result is the return value with
  what they hold after it.\<close>

definition ks_keyfile_load :: "ks_lib \<Rightarrow> bool \<Rightarrow> fs \<Rightarrow> string \<Rightarrow> bytes option \<Rightarrow> bytes \<Rightarrow> bytes \<Rightarrow> int \<times> bytes \<times> bytes" where
  "ks_keyfile_load L got f path passphrase sk pk =
     (case keyfile_scan f path pk of (rc, s) \<Rightarrow>
      if rc \<noteq> 0 then (KS_ERR, sk, ks_pk s)
      else if ks_kdf s = str ''none'' then
        (case ks_hex_decode sk 64 (ks_sk_hex s) of (rc, sk) \<Rightarrow> (if rc = 0 then 0 else -1, sk, ks_pk s))
      else (case ks_hex_decode (replicate KS_SALT_LEN 0) KS_SALT_LEN (ks_salt_hex s) of (rc1, salt) \<Rightarrow>
        (case ks_hex_decode (replicate 80 0) 80 (ks_sk_hex s) of (rc2, sealed) \<Rightarrow>
          if ks_kdf s \<noteq> str ''argon2id'' \<or> rc1 \<noteq> 0 \<or> rc2 \<noteq> 0 then (KS_ERR, sk, ks_pk s)
          else (case passphrase of
             None \<Rightarrow> (-2, sk, ks_pk s)
           | Some pw \<Rightarrow>
               (let key = stretch L got pw salt in
                case ks_unlock L (take 16 sealed) key (drop 16 sealed) of
                  Some sk \<Rightarrow> (0, sk, ks_pk s)
                | None \<Rightarrow> (-2, sk, ks_pk s))))))"

end
