(* ===== verification/Keystore_Props.thy ===== *)
theory Keystore_Props
  imports Keystore
begin

text \<open>
  What the key store promises: hexadecimal decodes to what was encoded; a host added on first
  contact is recognised from then on and a different key for it is reported; a password stored
  by \<open>ks_passwd_add\<close> is the one \<open>ks_check_password\<close> accepts; a generated key file loads back under
  its passphrase and no other.  The scan of a file is related to the table of its entries,
  on which the lookups are ordinary list functions.
\<close>

section \<open>Hexadecimal\<close>

definition plain :: "bytes \<Rightarrow> bool" where
  "plain w \<longleftrightarrow> w \<noteq> [] \<and> (\<forall>c \<in> set w. \<not> is_space c \<and> c \<noteq> 0)"

definition hex_ok :: "u8 \<Rightarrow> bool" where
  "hex_ok b \<longleftrightarrow>
     (let h = hex_digit (drop_bit 4 b); l = hex_digit (b AND 0x0f) in
      0 \<le> hex_nibble h \<and> 0 \<le> hex_nibble l \<and> word_of_int (push_bit 4 (hex_nibble h) OR hex_nibble l) = b
      \<and> \<not> is_space h \<and> \<not> is_space l \<and> h \<noteq> 0 \<and> l \<noteq> 0)"

lemma hex_digits_all:
  "\<forall>n \<in> set [0..<16]. hex_nibble (hex_digit (of_nat n)) = int n \<and> \<not> is_space (hex_digit (of_nat n)) \<and> hex_digit (of_nat n) \<noteq> 0"
  by code_simp

lemma hex_digit_nibble:
  assumes "unat v < 16"
  shows "hex_nibble (hex_digit v) = uint v" "\<not> is_space (hex_digit v)" "hex_digit v \<noteq> 0"
  using hex_digits_all [rule_format, of "unat v"] assms by auto

lemma nibbles:
  fixes b :: u8
  shows "unat (drop_bit 4 b) < 16" "unat (b AND 15) < 16"
    "word_of_int (push_bit 4 (uint (drop_bit 4 b)) OR uint (b AND 15)) = b"
proof -
  have m: "(15 :: u8) = mask 4" by (simp add: mask_eq_exp_minus_1)
  have "unat b < 256" using unsigned_less [of b] by simp
  then show "unat (drop_bit 4 b) < 16" unfolding unat_drop_bit_eq by (simp add: drop_bit_eq_div)
  have "b AND 15 \<le> 15" by (rule word_and_le1)
  then show "unat (b AND 15) < 16" by (simp add: word_le_nat_alt)
  show "word_of_int (push_bit 4 (uint (drop_bit 4 b)) OR uint (b AND 15)) = b"
    unfolding m by (rule bit_word_eqI) (auto simp: bit_simps)
qed

lemma hex_ok: "hex_ok b"
  using nibbles [of b] hex_digit_nibble [of "drop_bit 4 b"] hex_digit_nibble [of "b AND 15"]
  by (simp add: hex_ok_def)

lemma hex_loop_encode: "hex_loop (ks_hex_encode bs) = (bs, True)"
proof (induction bs)
  case (Cons b bs)
  then show ?case using hex_ok [of b] by (auto simp: ks_hex_encode_def hex_ok_def Let_def)
qed (simp add: ks_hex_encode_def)

lemma length_hex_encode [simp]: "length (ks_hex_encode bs) = 2 * length bs"
  by (induction bs) (simp_all add: ks_hex_encode_def)

lemma hex_round_trip: "length bs = n \<Longrightarrow> length out = n \<Longrightarrow> ks_hex_decode out n (ks_hex_encode bs) = (0, bs)"
  by (simp add: ks_hex_decode_def hex_loop_encode KS_OK_def)

lemma plain_hex: "bs \<noteq> [] \<Longrightarrow> plain (ks_hex_encode bs)"
  using hex_ok by (auto simp: plain_def ks_hex_encode_def hex_ok_def Let_def)

lemma length_hex_loop: "length (fst (hex_loop s)) \<le> length s div 2"
  by (induction s rule: hex_loop.induct) (auto simp: Let_def split: prod.splits)

lemma hex_loop_fine: "snd (hex_loop s) \<Longrightarrow> length (fst (hex_loop s)) = length s div 2"
  by (induction s rule: hex_loop.induct) (auto simp: Let_def split: prod.splits if_splits)

lemma hex_decode_length:
  assumes "ks_hex_decode out n s = (rc, bs)" "length out = n"
  shows "length bs = n"
  using assms length_hex_loop [of s] by (auto simp: ks_hex_decode_def split: if_splits prod.splits)

section \<open>Lines and words\<close>

definition whole_lines :: "bytes \<Rightarrow> bool" where
  "whole_lines f \<longleftrightarrow> f = [] \<or> last f = nl"

lemma fgets_lines_Nil [simp]: "fgets_lines [] = []"
  by (simp add: fgets_lines.simps [of "[]"] fgets_def)

lemma fgets_line:
  assumes "nl \<notin> set l" "length l < 511"
  shows "fgets_lines (l @ nl # rest) = (l @ [nl]) # fgets_lines rest"
proof -
  have "takeWhile (\<lambda>c. c \<noteq> nl) (l @ nl # rest) = l"
    using assms by (subst takeWhile_append2) auto
  then have "fgets KS_LINE (l @ nl # rest) = Some (l @ [nl], rest)"
    using assms by (simp add: fgets_def KS_LINE_def)
  then show ?thesis by (simp add: fgets_lines.simps [of "l @ nl # rest"])
qed

lemma fgets_append:
  assumes "whole_lines f" "f \<noteq> []" "fgets n f = Some (line, rest)" "1 < n"
  shows "fgets n (f @ g) = Some (line, rest @ g)" "whole_lines rest" "length rest < length f"
proof -
  have nl: "nl \<in> set f" using assms(1,2) by (metis last_in_set whole_lines_def)
  then have tw: "takeWhile (\<lambda>c. c \<noteq> nl) (f @ g) = takeWhile (\<lambda>c. c \<noteq> nl) f" by (subst takeWhile_append1) auto
  define k where "k = min (n - 1) (length (takeWhile (\<lambda>c. c \<noteq> nl) f) + 1)"
  have "length (takeWhile (\<lambda>c. c \<noteq> nl) f) < length f"
    using nl length_takeWhile_le [of _ f] takeWhile_eq_all_conv [of _ f]
    by (metis (mono_tags, lifting) le_neq_implies_less takeWhile_eq_take take_all_iff order_refl)
  then have k: "k \<le> length f" "0 < k" using assms(4) by (auto simp: k_def)
  have fg: "line = take k f" "rest = drop k f" using assms(2,3) by (auto simp: fgets_def Let_def k_def)
  show "fgets n (f @ g) = Some (line, rest @ g)"
    unfolding fgets_def tw Let_def k_def [symmetric] using assms(2) k(1) fg by simp
  show "whole_lines rest" using assms(1,2) fg by (cases "k < length f") (auto simp: whole_lines_def last_drop)
  show "length rest < length f" using fg k assms(2) by simp
qed

lemma fgets_lines_append:
  assumes "whole_lines f"
  shows "fgets_lines (f @ g) = fgets_lines f @ fgets_lines g"
  using assms
proof (induction "length f" arbitrary: f rule: less_induct)
  case less
  show ?case
  proof (cases "f = []")
    case False
    then obtain line rest where r: "fgets KS_LINE f = Some (line, rest)" by (simp add: fgets_def Let_def)
    note fa = fgets_append [OF less.prems False r]
    show ?thesis
      using fa less.hyps [of rest] r by (simp add: fgets_lines.simps [of "f @ g"] fgets_lines.simps [of f] KS_LINE_def)
  qed simp
qed

lemma scan_word_plain:
  assumes "plain w" "length w \<le> 511" "is_space c"
  shows "scan_word (w @ c # s) = Some (w, c # s)" "scan_word (32 # w @ c # s) = Some (w, c # s)"
proof -
  have sp: "is_space 32" by (simp add: is_space_def)
  have "dropWhile is_space (w @ c # s) = w @ c # s" using assms(1) by (cases w) (auto simp: plain_def)
  moreover have "takeWhile (\<lambda>c. \<not> is_space c) (w @ c # s) = w" using assms(1,3) by (subst takeWhile_append2) (auto simp: plain_def)
  ultimately show "scan_word (w @ c # s) = Some (w, c # s)" "scan_word (32 # w @ c # s) = Some (w, c # s)"
    using assms sp by (simp_all add: scan_word_def plain_def)
qed

lemma space_chars [simp]: "is_space 32" "is_space nl" "nl \<noteq> 0"
  by (simp_all add: is_space_def nl_def)

lemma plain_nl: "plain w \<Longrightarrow> nl \<notin> set w" "plain w \<Longrightarrow> 0 \<notin> set w"
  by (auto simp: plain_def)

lemma sscanf2:
  assumes "plain a" "plain b" "length a \<le> 511" "length b \<le> 511"
  shows "sscanf_words 2 (a @ [32] @ b @ [nl]) = Some [a, b]"
proof -
  have "cstr (a @ [32] @ b @ [nl]) = a @ [32] @ b @ [nl]" using plain_nl assms by (intro cstr_id) auto
  then show ?thesis using assms by (simp add: sscanf_words_def numeral_2_eq_2 scan_word_plain)
qed

lemma sscanf3:
  assumes "plain a" "plain b" "plain c" "length a \<le> 511" "length b \<le> 511" "length c \<le> 511"
  shows "sscanf_words 3 (a @ [32] @ b @ [32] @ c @ [nl]) = Some [a, b, c]"
proof -
  have "cstr (a @ [32] @ b @ [32] @ c @ [nl]) = a @ [32] @ b @ [32] @ c @ [nl]" using plain_nl assms by (intro cstr_id) auto
  then show ?thesis using assms by (simp add: sscanf_words_def numeral_3_eq_3 scan_word_plain)
qed

section \<open>Tables of entries\<close>

text \<open>A file is a table of rows, one to a line; appending a rendered row to a file of whole
  lines adds that row at the end of the table.\<close>

locale line_table =
  fixes row :: "bytes \<Rightarrow> ('k \<times> 'v) option"
    and render :: "'k \<Rightarrow> 'v \<Rightarrow> bytes"
    and fits :: "'k \<Rightarrow> 'v \<Rightarrow> bool"
  assumes row_render: "fits k v \<Longrightarrow> row (render k v @ [nl]) = Some (k, v)"
    and render_line: "fits k v \<Longrightarrow> nl \<notin> set (render k v) \<and> length (render k v) < 511"
begin

lemma rows_append:
  assumes "whole_lines f" "fits k v"
  shows "List.map_filter row (fgets_lines (f @ render k v @ [nl])) = List.map_filter row (fgets_lines f) @ [(k, v)]"
  using assms row_render render_line
  by (simp add: fgets_lines_append fgets_line [of "render k v" "[]", simplified] map_filter_def)

lemma lookup_append:
  assumes "whole_lines f" "fits k v" "map_of (List.map_filter row (fgets_lines f)) k = None"
  shows "map_of (List.map_filter row (fgets_lines (f @ render k v @ [nl]))) = (map_of (List.map_filter row (fgets_lines f)))(k \<mapsto> v)"
  using assms(3) unfolding rows_append [OF assms(1,2)] by (auto simp: map_of_append map_add_def fun_eq_iff split: option.splits)

end

text \<open>A line of \<open>known_hosts\<close> or \<open>authorized_keys\<close>, and one of \<open>passwd\<close>.\<close>

definition key_row :: "bytes \<Rightarrow> (bytes \<times> bytes) option" where
  "key_row line =
     (if comment_line line then None
      else case sscanf_words 2 line of
        Some [name, hex] \<Rightarrow> (case ks_hex_decode (replicate 32 0) 32 hex of (rc, k) \<Rightarrow> if rc \<noteq> 0 then None else Some (name, k))
      | _ \<Rightarrow> None)"

definition pw_row :: "bytes \<Rightarrow> (bytes \<times> bytes \<times> bytes) option" where
  "pw_row line =
     (if comment_line line then None
      else case sscanf_words 3 line of
        Some [name, salt_hex, hash_hex] \<Rightarrow>
          (case ks_hex_decode (replicate KS_SALT_LEN 0) KS_SALT_LEN salt_hex of (rc, salt) \<Rightarrow>
           if rc \<noteq> 0 then None
           else (case ks_hex_decode (replicate 32 0) 32 hash_hex of (rc, want) \<Rightarrow>
             if rc \<noteq> 0 then None else Some (name, salt, want)))
      | _ \<Rightarrow> None)"

definition name_ok :: "nat \<Rightarrow> bytes \<Rightarrow> bool" where
  "name_ok n name \<longleftrightarrow> plain name \<and> hd name \<noteq> 35 \<and> length name \<le> n"

lemma not_comment: "name_ok n name \<Longrightarrow> \<not> comment_line (name @ s)"
  by (cases name) (auto simp: name_ok_def plain_def comment_line_def)

interpretation hosts: line_table key_row "\<lambda>name k. name @ [32] @ ks_hex_encode k" "\<lambda>name k. name_ok 445 name \<and> length k = 32"
proof
  fix name k :: bytes assume a: "name_ok 445 name \<and> length k = 32"
  then have p: "plain name" "plain (ks_hex_encode k)" by (auto simp: name_ok_def intro: plain_hex)
  have "sscanf_words 2 (name @ [32] @ ks_hex_encode k @ [nl]) = Some [name, ks_hex_encode k]"
    using a p by (intro sscanf2) (auto simp: name_ok_def)
  then show "key_row ((name @ [32] @ ks_hex_encode k) @ [nl]) = Some (name, k)"
    using a not_comment [of 445 name] hex_round_trip [of k 32] by (simp add: key_row_def)
  show "nl \<notin> set (name @ [32] @ ks_hex_encode k) \<and> length (name @ [32] @ ks_hex_encode k) < 511"
    using a p plain_nl by (auto simp: name_ok_def nl_def)
qed

interpretation passwd: line_table pw_row
  "\<lambda>name (salt, want). name @ [32] @ ks_hex_encode salt @ [32] @ ks_hex_encode want"
  "\<lambda>name (salt, want). name_ok 412 name \<and> length salt = KS_SALT_LEN \<and> length want = 32"
proof
  fix name :: bytes and v :: "bytes \<times> bytes"
  assume a: "case v of (salt, want) \<Rightarrow> name_ok 412 name \<and> length salt = KS_SALT_LEN \<and> length want = 32"
  obtain salt want where v: "v = (salt, want)" by fastforce
  have p: "plain name" "plain (ks_hex_encode salt)" "plain (ks_hex_encode want)"
    using a by (auto simp: v name_ok_def KS_SALT_LEN_def intro!: plain_hex)
  have "sscanf_words 3 (name @ [32] @ ks_hex_encode salt @ [32] @ ks_hex_encode want @ [nl]) = Some [name, ks_hex_encode salt, ks_hex_encode want]"
    using a p by (intro sscanf3) (auto simp: v name_ok_def KS_SALT_LEN_def)
  then show "pw_row ((case v of (salt, want) \<Rightarrow> name @ [32] @ ks_hex_encode salt @ [32] @ ks_hex_encode want) @ [nl]) = Some (name, v)"
    using a not_comment [of 412 name] hex_round_trip [of salt KS_SALT_LEN] hex_round_trip [of want 32] by (simp add: pw_row_def v)
  show "nl \<notin> set (case v of (salt, want) \<Rightarrow> name @ [32] @ ks_hex_encode salt @ [32] @ ks_hex_encode want) \<and>
      length (case v of (salt, want) \<Rightarrow> name @ [32] @ ks_hex_encode salt @ [32] @ ks_hex_encode want) < 511"
    using a p plain_nl by (auto simp: v name_ok_def nl_def KS_SALT_LEN_def)
qed

abbreviation key_table :: "bytes \<Rightarrow> (bytes \<times> bytes) list" where
  "key_table content \<equiv> List.map_filter key_row (fgets_lines content)"

abbreviation pw_table :: "bytes \<Rightarrow> (bytes \<times> bytes \<times> bytes) list" where
  "pw_table content \<equiv> List.map_filter pw_row (fgets_lines content)"

lemma known_host_loop_table:
  "known_host_loop lines host pk =
     (case map_of (List.map_filter key_row lines) host of
        None \<Rightarrow> (KS_HOST_UNKNOWN, None)
      | Some k \<Rightarrow> if k = pk then (KS_HOST_MATCH, None) else (KS_HOST_CHANGED, Some k))"
  by (induction lines host pk rule: known_host_loop.induct)
     (auto simp: key_row_def split: option.splits list.splits prod.splits)

lemma authorized_loop_table:
  "authorized_loop lines user pk \<longleftrightarrow> (user, pk) \<in> set (List.map_filter key_row lines)"
  by (induction lines user pk rule: authorized_loop.induct)
     (auto simp: key_row_def split: option.splits list.splits prod.splits)

lemma hex_decode_other:
  assumes "length out = n" "length out' = n" "ks_hex_decode out n s = (rc, bs)" "ks_hex_decode out' n s = (rc', bs')"
  shows "rc' = rc" "rc = 0 \<Longrightarrow> bs' = bs"
  using assms hex_loop_fine [of s] by (auto simp: ks_hex_decode_def KS_ERR_def split: if_splits prod.splits)

lemma password_loop_step:
  assumes "length salt = KS_SALT_LEN" "length want = 32"
  shows "case pw_row line of
      Some (name, s, w) \<Rightarrow> if name = user then password_loop (line # lines) user salt want = (True, s, w)
        else password_loop (line # lines) user salt want = password_loop lines user salt want
    | None \<Rightarrow> \<exists>salt' want'. length salt' = KS_SALT_LEN \<and> length want' = 32
        \<and> password_loop (line # lines) user salt want = password_loop lines user salt' want'"
proof (cases "comment_line line \<or> (\<nexists>name sh hh. sscanf_words 3 line = Some [name, sh, hh])")
  case True
  then show ?thesis using assms by (auto simp: pw_row_def split: option.splits list.splits)
next
  case False
  then obtain name sh hh where sc: "\<not> comment_line line" "sscanf_words 3 line = Some [name, sh, hh]" by blast
  obtain rc1 s1 rc1' s1' where d1: "ks_hex_decode salt KS_SALT_LEN sh = (rc1, s1)"
      "ks_hex_decode (replicate KS_SALT_LEN 0) KS_SALT_LEN sh = (rc1', s1')" by fastforce
  obtain rc2 w1 rc2' w1' where d2: "ks_hex_decode want 32 hh = (rc2, w1)"
      "ks_hex_decode (replicate 32 0) 32 hh = (rc2', w1')" by fastforce
  have l: "length s1 = KS_SALT_LEN" "length w1 = 32"
    using hex_decode_length [OF d1(1) assms(1)] hex_decode_length [OF d2(1) assms(2)] by auto
  have e: "rc1' = rc1" "rc1 = 0 \<Longrightarrow> s1' = s1" "rc2' = rc2" "rc2 = 0 \<Longrightarrow> w1' = w1"
    using hex_decode_other [OF assms(1) _ d1] hex_decode_other [OF assms(2) _ d2] by auto
  show ?thesis using sc d1 d2 l e assms by (auto simp: pw_row_def)
qed

lemma password_loop_table:
  assumes "length salt = KS_SALT_LEN" "length want = 32"
  shows "case map_of (List.map_filter pw_row lines) user of
      None \<Rightarrow> \<not> fst (password_loop lines user salt want)
    | Some (s, w) \<Rightarrow> password_loop lines user salt want = (True, s, w)"
  using assms
proof (induction lines arbitrary: salt want)
  case (Cons line lines)
  note step = password_loop_step [OF Cons.prems, of line lines user]
  show ?case
  proof (cases "pw_row line")
    case None
    then obtain salt' want' where "length salt' = KS_SALT_LEN" "length want' = 32"
        "password_loop (line # lines) user salt want = password_loop lines user salt' want'"
      using step by auto
    then show ?thesis using None Cons.IH [of salt' want'] by (auto simp del: password_loop.simps split: option.splits)
  next
    case (Some r)
    then show ?thesis
      using step Cons.IH [OF Cons.prems]
      by (cases r) (auto simp del: password_loop.simps split: if_splits option.splits)
  qed
qed simp

lemma check_password_table:
  "ks_check_password L got f path user pw \<longleftrightarrow>
     (case map_of (case f path of None \<Rightarrow> [] | Some content \<Rightarrow> pw_table content) user of
        None \<Rightarrow> False | Some (salt, want) \<Rightarrow> stretch L got pw salt = want)"
proof (cases "f path")
  case (Some content)
  then show ?thesis
    using password_loop_table [of "replicate KS_SALT_LEN 0" "replicate 32 0" "fgets_lines content" user]
    by (cases "password_loop (fgets_lines content) user (replicate KS_SALT_LEN 0) (replicate 32 0)")
       (auto simp: ks_check_password_def Let_def split: option.splits)
qed (simp add: ks_check_password_def)

lemma known_host_table:
  "ks_known_host f path host pk =
     (case map_of (case f path of None \<Rightarrow> [] | Some content \<Rightarrow> key_table content) host of
        None \<Rightarrow> (KS_HOST_UNKNOWN, None)
      | Some k \<Rightarrow> if k = pk then (KS_HOST_MATCH, None) else (KS_HOST_CHANGED, Some k))"
  by (simp add: ks_known_host_def known_host_loop_table split: option.split)

definition file_ok :: "fs \<Rightarrow> string \<Rightarrow> bool" where
  "file_ok f path \<longleftrightarrow> (case f path of None \<Rightarrow> True | Some content \<Rightarrow> whole_lines content)"

section \<open>Properties\<close>

text \<open>C33: trust on first use.  When the store does not know a host and its key is added, the
  same key is a match from then on and any other key for that host is reported as changed,
  with the key on file; what the store says of every other host, and every other file, stays
  as it was.  The host is a name without white space that does not begin with a hash sign and
  fits the 511 bytes of a line.\<close>

theorem known_host_tofu:
  assumes host: "name_ok 445 host" and pk: "length pk = 32" and fok: "file_ok f path"
    and new: "fst (ks_known_host f path host pk0) = KS_HOST_UNKNOWN"
  shows "\<exists>f'. ks_known_host_add f True path host pk = (KS_OK, f')
    \<and> (\<forall>k. ks_known_host f' path host k = (if k = pk then (KS_HOST_MATCH, None) else (KS_HOST_CHANGED, Some pk)))
    \<and> (\<forall>h k. h \<noteq> host \<longrightarrow> ks_known_host f' path h k = ks_known_host f path h k)
    \<and> (\<forall>p. p \<noteq> path \<longrightarrow> f' p = f p)"
proof -
  define content where "content = (case f path of None \<Rightarrow> [] | Some c \<Rightarrow> c)"
  define f' where "f' = append_file f path (host @ [32] @ ks_hex_encode pk @ [nl])"
  have tbl: "(case f path of None \<Rightarrow> [] | Some c \<Rightarrow> key_table c) = key_table content"
    by (simp add: content_def map_filter_def split: option.split)
  have w: "whole_lines content" using fok by (auto simp: file_ok_def content_def whole_lines_def split: option.splits)
  have none: "map_of (key_table content) host = None"
    using new by (auto simp: known_host_table tbl split: option.splits if_splits)
  have "f' path = Some (content @ (host @ [32] @ ks_hex_encode pk) @ [nl])"
    by (simp add: f'_def append_file_def content_def)
  then have "map_of (case f' path of None \<Rightarrow> [] | Some c \<Rightarrow> key_table c) = (map_of (key_table content))(host \<mapsto> pk)"
    using hosts.lookup_append [OF w _ none, of pk] host pk by simp
  then have "ks_known_host f' path h k =
      (case ((map_of (key_table content))(host \<mapsto> pk)) h of
         None \<Rightarrow> (KS_HOST_UNKNOWN, None)
       | Some j \<Rightarrow> if j = k then (KS_HOST_MATCH, None) else (KS_HOST_CHANGED, Some j))" for h k
    by (simp add: known_host_table)
  then show ?thesis
    by (intro exI [of _ f']) (auto simp: ks_known_host_add_def f'_def append_file_def known_host_table [of f] tbl)
qed

theorem known_host_tofu_witness:
  "\<exists>f'. ks_known_host_add Map.empty True ''kh'' (str ''example.org'') (replicate 32 7) = (KS_OK, f')
    \<and> (\<forall>k. ks_known_host f' ''kh'' (str ''example.org'') k =
          (if k = replicate 32 7 then (KS_HOST_MATCH, None) else (KS_HOST_CHANGED, Some (replicate 32 7))))"
proof -
  have "name_ok 445 (str ''example.org'')" by code_simp
  moreover have "fst (ks_known_host Map.empty ''kh'' (str ''example.org'') []) = KS_HOST_UNKNOWN"
    by (simp add: ks_known_host_def)
  ultimately show ?thesis
    using known_host_tofu [of "str ''example.org''" "replicate 32 7" Map.empty "''kh''" "[]"] by (auto simp: file_ok_def)
qed

lemma no_user_no_row:
  assumes "\<not> user_loop lines user"
  shows "map_of (List.map_filter pw_row lines) user = None"
  using assms
proof (induction lines)
  case (Cons line lines)
  have "name \<noteq> user \<and> \<not> user_loop lines user" if "pw_row line = Some (name, v)" for name v
    using that Cons.prems
    by (auto simp: pw_row_def sscanf_words_def numeral_3_eq_3 Let_def split: if_splits option.splits list.splits prod.splits)
  moreover have "\<not> user_loop lines user" using Cons.prems by (auto split: if_splits option.splits list.splits)
  ultimately show ?case using Cons.IH by (cases "pw_row line") auto
qed simp

lemma user_loop_append: "user_loop (xs @ ys) user \<longleftrightarrow> user_loop xs user \<or> user_loop ys user"
  by (induction xs user rule: user_loop.induct) (auto split: option.splits list.splits)

text \<open>The row \<open>ks_passwd_add\<close> appends, and what the store says afterwards.\<close>

lemma passwd_add_row:
  assumes user: "name_ok 412 user" and salt: "length salt = KS_SALT_LEN" and hash: "length (stretch L got pw salt) = 32"
    and fok: "file_ok f path" and new: "\<not> ks_user_exists f path user"
  shows "\<exists>f'. ks_passwd_add L got f (Some salt) True path user pw = (KS_OK, f') \<and>
    (\<forall>L' got' u p. ks_check_password L' got' f' path u p \<longleftrightarrow>
      (if u = user then stretch L' got' p salt = stretch L got pw salt else ks_check_password L' got' f path u p))"
proof -
  define content where "content = (case f path of None \<Rightarrow> [] | Some c \<Rightarrow> c)"
  define want where "want = stretch L got pw salt"
  define f' where "f' = append_file f path (user @ [32] @ ks_hex_encode salt @ [32] @ ks_hex_encode want @ [nl])"
  have tbl: "(case f path of None \<Rightarrow> [] | Some c \<Rightarrow> pw_table c) = pw_table content"
    by (simp add: content_def map_filter_def split: option.split)
  have w: "whole_lines content" using fok by (auto simp: file_ok_def content_def whole_lines_def split: option.splits)
  have none: "map_of (pw_table content) user = None"
    using new by (intro no_user_no_row) (auto simp: ks_user_exists_def content_def split: option.splits)
  have "f' path = Some (content @ (user @ [32] @ ks_hex_encode salt @ [32] @ ks_hex_encode want) @ [nl])"
    by (simp add: f'_def append_file_def content_def)
  then have "map_of (case f' path of None \<Rightarrow> [] | Some c \<Rightarrow> pw_table c) = (map_of (pw_table content))(user \<mapsto> (salt, want))"
    using passwd.lookup_append [OF w _ none, of "(salt, want)"] user salt hash by (simp add: want_def)
  then have "ks_check_password L' got' f' path u p \<longleftrightarrow>
      (if u = user then stretch L' got' p salt = want else ks_check_password L' got' f path u p)" for L' got' u p
    by (simp add: check_password_table [of L' got' f'] check_password_table [of L' got' f] tbl)
  then show ?thesis
    by (intro exI [of _ f']) (simp add: ks_passwd_add_def f'_def want_def Let_def)
qed

text \<open>C34: a stored password is the one that logs in.  After \<open>ks_passwd_add\<close> for a user the file
  has no line for, exactly the passwords with the same Argon2 hash under the stored salt are
  accepted for that user, and for every other user the answers do not change.\<close>

theorem passwd_round_trip:
  assumes "name_ok 412 user" "length salt = KS_SALT_LEN" "length (argon2 L pw salt) = 32"
    "file_ok f path" "\<not> ks_user_exists f path user"
  shows "\<exists>f'. ks_passwd_add L True f (Some salt) True path user pw = (KS_OK, f')
    \<and> ks_check_password L True f' path user pw
    \<and> (\<forall>p. ks_check_password L True f' path user p \<longleftrightarrow> argon2 L p salt = argon2 L pw salt)
    \<and> (\<forall>u p. u \<noteq> user \<longrightarrow> ks_check_password L True f' path u p = ks_check_password L True f path u p)"
proof -
  have "length (stretch L True pw salt) = 32" using assms(3) by (simp add: stretch_def)
  from passwd_add_row [OF assms(1,2) this assms(4,5)] show ?thesis by (auto simp: stretch_def)
qed

text \<open>A stand-in for monocypher whose functions have the documented shapes.\<close>

definition demo_ks :: ks_lib where
  "demo_ks = \<lparr>argon2 = (\<lambda>pw salt. take 32 (pw @ salt @ replicate 32 1)),
     ks_lock = (\<lambda>key plain. (take 16 key, plain)),
     ks_unlock = (\<lambda>mac key cipher. if mac = take 16 key then Some cipher else None),
     eddsa_key_pair = (\<lambda>seed. (seed @ seed, seed))\<rparr>"

lemma demo_name: "name_ok 412 (str ''ann'')"
  by code_simp

theorem passwd_round_trip_witness:
  "\<exists>f'. ks_passwd_add demo_ks True Map.empty (Some (replicate 16 3)) True ''pw'' (str ''ann'') (str ''secret'') = (KS_OK, f')
    \<and> ks_check_password demo_ks True f' ''pw'' (str ''ann'') (str ''secret'')
    \<and> \<not> ks_check_password demo_ks True f' ''pw'' (str ''ann'') (str ''guess'')"
proof -
  have "argon2 demo_ks (str ''guess'') (replicate 16 3) \<noteq> argon2 demo_ks (str ''secret'') (replicate 16 3)"
    "length (argon2 demo_ks (str ''secret'') (replicate 16 3)) = 32" by code_simp+
  then show ?thesis
    using passwd_round_trip [OF demo_name, of "replicate 16 3" demo_ks "str ''secret''" Map.empty "''pw''"]
    by (auto simp: KS_SALT_LEN_def file_ok_def ks_user_exists_def)
qed

text \<open>C36: \<open>stretch\<close> does not fail closed.  When its allocation fails it answers 32 zero bytes,
  which \<open>ks_passwd_add\<close> stores as if it were the hash, and \<open>ks_check_password\<close> under the same
  shortage then accepts every password for that user.\<close>

theorem stretch_fails_open:
  assumes "name_ok 412 user" "length salt = KS_SALT_LEN" "file_ok f path" "\<not> ks_user_exists f path user"
  shows "\<exists>f'. ks_passwd_add L False f (Some salt) True path user pw = (KS_OK, f')
    \<and> (\<forall>p. ks_check_password L False f' path user p)"
proof -
  have "length (stretch L False pw salt) = 32" by (simp add: stretch_def)
  from passwd_add_row [OF assms(1,2) this assms(3,4)] show ?thesis by (auto simp: stretch_def)
qed

theorem stretch_fails_open_witness:
  "\<exists>f'. ks_passwd_add demo_ks False Map.empty (Some (replicate 16 3)) True ''pw'' (str ''ann'') (str ''secret'') = (KS_OK, f')
    \<and> ks_check_password demo_ks False f' ''pw'' (str ''ann'') (str ''guess'')"
  using stretch_fails_open [OF demo_name, of "replicate 16 3" Map.empty "''pw''" demo_ks "str ''secret''"]
  by (auto simp: KS_SALT_LEN_def file_ok_def ks_user_exists_def)

section \<open>Key files\<close>

lemma plain_str: "list_all (\<lambda>c. \<not> is_space c \<and> c \<noteq> 0) (str s) \<Longrightarrow> s \<noteq> [] \<Longrightarrow> plain (str s)"
  by (auto simp: plain_def list_all_iff str_def)

lemma key_words:
  "plain (str ''pk'')" "plain (str ''kdf'')" "plain (str ''salt'')" "plain (str ''sk'')" "plain (str ''none'')"
  "plain (str ''argon2id'')" "plain KEYFILE_MAGIC" "length (str k) = length k"
  "str ''kdf'' \<noteq> str ''pk''" "str ''salt'' \<noteq> str ''pk''" "str ''sk'' \<noteq> str ''pk''" "str ''salt'' \<noteq> str ''kdf''"
  "str ''sk'' \<noteq> str ''kdf''" "str ''sk'' \<noteq> str ''salt''" "str ''argon2id'' \<noteq> str ''none''" "length KEYFILE_MAGIC = 14"
  by (code_simp; fail | simp add: str_def)+

lemma key_line_words:
  assumes "plain (str key)" "plain val" "length key \<le> 4" "length val \<le> 500"
  shows "fgets_lines (key_line key val @ rest) = key_line key val # fgets_lines rest"
    "fgets_lines (key_line key val) = [key_line key val]"
    "sscanf_words 2 (key_line key val) = Some [str key, val]"
proof -
  have l: "nl \<notin> set (str key @ [32] @ val)" "length (str key @ [32] @ val) < 511"
    using assms plain_nl by (auto simp: key_words nl_def)
  show "fgets_lines (key_line key val @ rest) = key_line key val # fgets_lines rest"
    "fgets_lines (key_line key val) = [key_line key val]"
    using fgets_line [OF l, of rest] fgets_line [OF l, of "[]"] by (simp_all add: key_line_def)
  show "sscanf_words 2 (key_line key val) = Some [str key, val]"
    unfolding key_line_def using assms by (intro sscanf2) (auto simp: key_words)
qed

lemma scan_lines:
  assumes "plain val" "length val \<le> 500"
  shows "scan_line (key_line ''kdf'' val) s = s\<lparr>ks_kdf := val\<rparr>"
    "scan_line (key_line ''salt'' val) s = s\<lparr>ks_salt_hex := val\<rparr>"
    "scan_line (key_line ''sk'' val) s = s\<lparr>ks_sk_hex := val, have_sk := True\<rparr>"
    "ks_hex_decode (ks_pk s) 32 val = (0, pk) \<Longrightarrow> scan_line (key_line ''pk'' val) s = s\<lparr>ks_pk := pk, have_pk := True\<rparr>"
  using assms by (simp_all add: scan_line_def key_line_words(3) snprintf_s_def KS_LINE_def key_words)

text \<open>What the scan finds in the two kinds of file \<open>ks_keyfile_generate\<close> leaves.\<close>

definition key_file :: "bytes \<Rightarrow> bytes \<Rightarrow> bytes option \<Rightarrow> bytes \<Rightarrow> bytes" where
  "key_file pk kdf salt sk =
     KEYFILE_MAGIC @ [nl] @ key_line ''pk'' (ks_hex_encode pk) @ key_line ''kdf'' kdf
     @ (case salt of None \<Rightarrow> [] | Some s \<Rightarrow> key_line ''salt'' (ks_hex_encode s)) @ key_line ''sk'' (ks_hex_encode sk)"

lemma keyfile_scan_file:
  assumes f: "f path = Some (key_file pk kdf salt sk)" and pk: "length pk = 32" "length pk0 = 32"
    and kdf: "plain kdf" "length kdf \<le> 500"
    and sk: "0 < length sk" "length sk \<le> 250" and salt: "salt = None \<or> (\<exists>s. salt = Some s \<and> 0 < length s \<and> length s \<le> 250)"
  shows "keyfile_scan f path pk0 = (0, \<lparr>ks_kdf = kdf, ks_salt_hex = (case salt of None \<Rightarrow> [] | Some s \<Rightarrow> ks_hex_encode s),
    ks_sk_hex = ks_hex_encode sk, ks_pk = pk, have_pk = True, have_sk = True\<rparr>)"
proof -
  have magic: "fgets_lines (KEYFILE_MAGIC @ nl # rest) = (KEYFILE_MAGIC @ [nl]) # fgets_lines rest" for rest
    using fgets_line [of KEYFILE_MAGIC rest] plain_nl key_words by simp
  have cm: "take (length KEYFILE_MAGIC) (cstr (KEYFILE_MAGIC @ [nl])) = KEYFILE_MAGIC"
    using plain_nl key_words by (subst cstr_id) auto
  have p: "plain (ks_hex_encode pk)" "plain (ks_hex_encode sk)" using pk sk by (auto intro!: plain_hex)
  have d: "ks_hex_decode pk0 32 (ks_hex_encode pk) = (0, pk)" using pk by (simp add: hex_round_trip)
  show ?thesis
  proof (cases salt)
    case None
    then have "fgets_lines (key_file pk kdf salt sk) =
        [KEYFILE_MAGIC @ [nl], key_line ''pk'' (ks_hex_encode pk), key_line ''kdf'' kdf, key_line ''sk'' (ks_hex_encode sk)]"
      using p pk sk kdf by (simp add: key_file_def magic key_line_words key_words)
    then show ?thesis using None f p pk sk kdf d by (simp add: keyfile_scan_def cm scan_lines)
  next
    case (Some s)
    then have s: "plain (ks_hex_encode s)" "length s \<le> 250" using salt by (auto intro!: plain_hex)
    have "fgets_lines (key_file pk kdf salt sk) =
        [KEYFILE_MAGIC @ [nl], key_line ''pk'' (ks_hex_encode pk), key_line ''kdf'' kdf,
         key_line ''salt'' (ks_hex_encode s), key_line ''sk'' (ks_hex_encode sk)]"
      using Some s p pk sk kdf by (simp add: key_file_def magic key_line_words key_words)
    then show ?thesis using Some s f p pk sk kdf d by (simp add: keyfile_scan_def cm scan_lines)
  qed
qed

text \<open>What monocypher documents: a key pair is 64 and 32 bytes, \<open>crypto_aead_lock\<close> gives a 16-byte
  tag and a ciphertext as long as the plaintext, and \<open>crypto_aead_unlock\<close> with the same key opens
  it.\<close>

definition ks_lib_ok :: "ks_lib \<Rightarrow> bool" where
  "ks_lib_ok L \<longleftrightarrow>
     (\<forall>seed. length (fst (eddsa_key_pair L seed)) = 2 * length seed \<and> length (snd (eddsa_key_pair L seed)) = length seed)
     \<and> (\<forall>key p. length (fst (ks_lock L key p)) = min 16 (length key) \<and> length (snd (ks_lock L key p)) = length p
          \<and> ks_unlock L (fst (ks_lock L key p)) key (snd (ks_lock L key p)) = Some p)
     \<and> (\<forall>p salt. length (argon2 L p salt) = 32)"

lemma generate_sealed:
  fixes got :: bool
  assumes L: "ks_lib_ok L" and seed: "length seed = 32" and salt: "length salt = KS_SALT_LEN" and pw: "pw \<noteq> []"
  defines "sk \<equiv> fst (eddsa_key_pair L seed)" and "pk \<equiv> snd (eddsa_key_pair L seed)"
    and "box \<equiv> ks_lock L (stretch L got pw salt) (fst (eddsa_key_pair L seed))"
  shows "\<exists>f'. ks_keyfile_generate L got f (Some seed) (Some salt) True path (Some pw) = (KS_OK, Some pk, f')
    \<and> ks_keyfile_encrypted f' path
    \<and> (\<forall>L' got' p sk0 pk0. length pk0 = 32 \<longrightarrow> ks_keyfile_load L' got' f' path p sk0 pk0 =
         (case p of None \<Rightarrow> (-2, sk0, pk)
          | Some p \<Rightarrow> (case ks_unlock L' (fst box) (stretch L' got' p salt) (snd box) of
              Some s \<Rightarrow> (0, s, pk) | None \<Rightarrow> (-2, sk0, pk))))"
proof -
  define f' where "f' = write_file f path (key_file pk (str ''argon2id'') (Some salt) (fst box @ snd box))"
  have key: "length (stretch L got pw salt) = 32" using L by (simp add: stretch_def ks_lib_ok_def)
  have len: "length pk = 32" "length sk = 64" "length (fst box) = 16" "length (snd box) = 64"
    using L seed key by (auto simp: ks_lib_ok_def sk_def pk_def box_def)
  obtain c cs where c: "pw = c # cs" using pw by (cases pw) auto
  have "ks_keyfile_generate L got f (Some seed) (Some salt) True path (Some pw) = (KS_OK, Some pk, f')"
    by (simp add: ks_keyfile_generate_def c f'_def key_file_def pk_def box_def Let_def split: prod.split)
  moreover
  have scan: "keyfile_scan f' path pk0 = (0, \<lparr>ks_kdf = str ''argon2id'', ks_salt_hex = ks_hex_encode salt,
      ks_sk_hex = ks_hex_encode (fst box @ snd box), ks_pk = pk, have_pk = True, have_sk = True\<rparr>)" if "length pk0 = 32" for pk0
    using keyfile_scan_file [of f' path pk "str ''argon2id''" "Some salt" "fst box @ snd box" pk0] len that salt
    by (simp add: f'_def write_file_def key_words KS_SALT_LEN_def del: length_greater_0_conv)
  have dec: "ks_hex_decode (replicate KS_SALT_LEN 0) KS_SALT_LEN (ks_hex_encode salt) = (0, salt)"
    "ks_hex_decode (replicate 80 0) 80 (ks_hex_encode (fst box @ snd box)) = (0, fst box @ snd box)"
    using len salt by (simp_all add: hex_round_trip)
  have "ks_keyfile_load L' got' f' path p sk0 pk0 =
         (case p of None \<Rightarrow> (-2, sk0, pk)
          | Some p \<Rightarrow> (case ks_unlock L' (fst box) (stretch L' got' p salt) (snd box) of
              Some s \<Rightarrow> (0, s, pk) | None \<Rightarrow> (-2, sk0, pk)))" if "length pk0 = 32" for L' got' p sk0 pk0
    using len by (simp add: ks_keyfile_load_def scan [OF that] dec key_words split: option.split)
  ultimately show ?thesis by (intro exI [of _ f']) (simp add: ks_keyfile_encrypted_def scan)
qed


lemma demo_ks_ok: "ks_lib_ok demo_ks"
  by (auto simp: ks_lib_ok_def demo_ks_def)


lemma generate_plain:
  assumes L: "ks_lib_ok L" and seed: "length seed = 32" and pw: "pw = None \<or> pw = Some []"
    and bufs: "length sk0 = 64" "length pk0 = 32"
  shows "\<exists>f'. ks_keyfile_generate L got f (Some seed) rnd True path pw = (KS_OK, Some (snd (eddsa_key_pair L seed)), f')
    \<and> \<not> ks_keyfile_encrypted f' path
    \<and> ks_keyfile_load L' got' f' path p sk0 pk0 = (0, fst (eddsa_key_pair L seed), snd (eddsa_key_pair L seed))"
proof -
  define sk pk where "sk = fst (eddsa_key_pair L seed)" and "pk = snd (eddsa_key_pair L seed)"
  define f' where "f' = write_file f path (key_file pk (str ''none'') None sk)"
  have len: "length pk = 32" "length sk = 64" using L seed by (auto simp: ks_lib_ok_def sk_def pk_def)
  have "ks_keyfile_generate L got f (Some seed) rnd True path pw = (KS_OK, Some pk, f')"
    using pw by (auto simp: ks_keyfile_generate_def f'_def key_file_def pk_def sk_def Let_def split: prod.split)
  moreover have "keyfile_scan f' path k = (0, \<lparr>ks_kdf = str ''none'', ks_salt_hex = [],
      ks_sk_hex = ks_hex_encode sk, ks_pk = pk, have_pk = True, have_sk = True\<rparr>)" if "length k = 32" for k
    using keyfile_scan_file [of f' path pk "str ''none''" None sk k] len that
    by (simp add: f'_def write_file_def key_words del: length_greater_0_conv)
  ultimately show ?thesis
    using bufs len hex_round_trip [of sk 64 sk0] key_words(15)
    by (intro exI [of _ f']) (auto simp: ks_keyfile_encrypted_def ks_keyfile_load_def sk_def pk_def)
qed

text \<open>The server's identity.  The first \<open>ks_host_key\<close> for a path creates the key and every
  later one returns the same key, whatever the random source does; a key file without a
  passphrase likewise loads back as the generated pair and is not reported as encrypted.\<close>

theorem host_key_stable:
  assumes "f path = None" "length sk = 32" "length buf = 32"
    and "ks_lib_ok L" "length seed = 32" "length sk0 = 64"
  shows "(\<exists>f'. ks_host_key f (Some sk) True path buf0 = (KS_OK, sk, f') \<and> ks_host_key f' rnd opens path buf = (0, sk, f'))
    \<and> (\<exists>f'. ks_keyfile_generate L got f (Some seed) rnd True path None = (KS_OK, Some (snd (eddsa_key_pair L seed)), f')
         \<and> \<not> ks_keyfile_encrypted f' path
         \<and> ks_keyfile_load L got f' path p sk0 buf = (0, fst (eddsa_key_pair L seed), snd (eddsa_key_pair L seed)))"
proof
  define f' where "f' = write_file f path (ks_hex_encode sk @ [nl])"
  have p: "plain (ks_hex_encode sk)" using assms(2) by (intro plain_hex) auto
  then have "scan_word (ks_hex_encode sk @ [nl]) = Some (ks_hex_encode sk, [nl])"
    using assms(2) scan_word_plain [of "ks_hex_encode sk" nl "[]"] by simp
  then show "\<exists>f'. ks_host_key f (Some sk) True path buf0 = (KS_OK, sk, f') \<and> ks_host_key f' rnd opens path buf = (0, sk, f')"
    using assms hex_round_trip [of sk 32 buf] plain_nl(2) [OF p]
    by (intro exI [of _ f']) (simp add: ks_host_key_def f'_def write_file_def cstr_id KS_OK_def)
qed (rule generate_plain, use assms in auto)

theorem host_key_stable_witness:
  "(\<exists>f'. ks_host_key Map.empty (Some (replicate 32 9)) True ''hk'' [] = (KS_OK, replicate 32 9, f')
        \<and> ks_host_key f' None False ''hk'' (replicate 32 0) = (0, replicate 32 9, f'))
    \<and> (\<exists>f'. ks_keyfile_generate demo_ks True Map.empty (Some (replicate 32 5)) None True ''hk'' None
          = (KS_OK, Some (snd (eddsa_key_pair demo_ks (replicate 32 5))), f')
         \<and> \<not> ks_keyfile_encrypted f' ''hk''
         \<and> ks_keyfile_load demo_ks True f' ''hk'' None (replicate 64 0) (replicate 32 0)
             = (0, fst (eddsa_key_pair demo_ks (replicate 32 5)), snd (eddsa_key_pair demo_ks (replicate 32 5))))"
  by (rule host_key_stable [OF _ _ _ demo_ks_ok]) simp_all

end
