(* ===== verification/Auth_Link.thy ===== *)
theory Auth_Link
  imports NC_Api NC_Udp Crypto_Session Auth_Core
begin

text \<open>
  The session that stacks the four layers (\<open>src/examples/auth/auth_link.c\<close>): datagrams are opened by
  \<open>nc_crypto\<close> and fed to netchan, a reliable channel of netchan carries the login of \<open>nc_auth\<close> and then
  the application's bytes, and everything netchan sends is sealed.

  The link's structure is the record \<open>auth_link\<close>.  Two fields are histories: \<open>al_sent\<close> lists what was
  given to \<open>sendto\<close>, and \<open>al_events\<close> the calls of the application's callbacks, which are taken to be set
  and to return before they call the link again.  The arguments of \<open>link_env\<close> are the cryptography,
  the login callbacks and, for the \<open>n\<close>th call of netchan, its clock readings and entropy.

  \<open>nc_auth\<close> hands its messages to \<open>auth_out\<close> while a call is running; the model of \<open>nc_auth\<close> collects
  them in \<open>a_out\<close>, and \<open>auth_sent\<close> puts them on the channel when the call returns.  Nothing the channel
  does depends on the login's state, so the order of effects is the same.  The loops that drain a queue are
  \<open>partial_function\<close>s.
\<close>

section \<open>State\<close>

definition AUTH_LINK_OK :: int where "AUTH_LINK_OK = 0"
definition AUTH_LINK_ERR :: int where "AUTH_LINK_ERR = -1"
definition TAG_AUTH :: u8 where "TAG_AUTH = 0xa0"
definition TAG_APP :: u8 where "TAG_APP = 0xa1"

datatype down_reason = AL_DOWN_PEER | AL_DOWN_AUTH | AL_DOWN_HOSTKEY

datatype al_event = On_Up | On_Data bytes | On_Down down_reason | On_Need auth_need | On_Cancelled

record auth_link =
  al_conn :: netchan_conn
  al_tx :: "nat option"
  al_rx :: "nat option"
  al_server :: bool
  al_have_peer :: bool
  al_connect_sent :: bool
  al_accepted :: bool
  al_auth_started :: bool
  al_need_fired :: auth_need
  al_up :: bool
  al_down :: bool
  al_closing :: bool
  al_timer :: bool
  al_peer :: nc_addr
  al_crypto :: nc_crypto
  al_auth :: nc_auth
  al_user :: bytes
  al_calls :: nat
  al_sent :: "(bytes \<times> sockaddr) list"
  al_events :: "al_event list"

record link_env =
  le_nc :: "nat \<Rightarrow> nc_env"
  le_now :: "nat \<Rightarrow> u32"
  le_lib :: crypto_lib
  le_auth :: auth_env

definition fire_down :: "auth_link \<Rightarrow> down_reason \<Rightarrow> auth_link" where
  "fire_down al reason =
     (if al_down al then al else al\<lparr>al_down := True, al_events := al_events al @ [On_Down reason]\<rparr>)"

section \<open>Sending\<close>

definition send_hello :: "auth_link \<Rightarrow> auth_link option" where
  "send_hello al =
     (if \<not> al_have_peer al then Some al
      else do {
        (hn, hp) \<leftarrow> nc_crypto_handshake_packet (al_crypto al) NC_CRYPTO_HELLO_LEN;
        (slen, ss) \<leftarrow> nc_udp_to_sockaddr (Some (al_peer al));
        Some (if hn = 0 \<or> slen = 0 then al else al\<lparr>al_sent := al_sent al @ [(hp, ss)]\<rparr>) })"

partial_function (option) flush_out :: "link_env \<Rightarrow> auth_link \<Rightarrow> auth_link option" where
  "flush_out e al = do {
     (buf, to, c) \<leftarrow> netchan_send_next (le_nc e (al_calls al)) (al_conn al) 2048;
     let al = al\<lparr>al_conn := c, al_calls := al_calls al + 1\<rparr>;
     if buf = [] then Some al
     else do {
       (sn, sealed, k) \<leftarrow> nc_crypto_seal (le_lib e) (al_crypto al) buf (2048 + NC_CRYPTO_OVERHEAD);
       let al = al\<lparr>al_crypto := k\<rparr>;
       if sn < 0 then flush_out e al
       else do {
         (slen, ss) \<leftarrow> nc_udp_to_sockaddr to;
         if slen = 0 then flush_out e al
         else flush_out e (al\<lparr>al_sent := al_sent al @ [(sealed, ss)]\<rparr>) } } }"

definition link_service :: "link_env \<Rightarrow> auth_link \<Rightarrow> auth_link option" where
  "link_service e al = do {
     (_, c) \<leftarrow> netchan_service (le_nc e (al_calls al)) (al_conn al) (le_now e (al_calls al));
     Some (al\<lparr>al_conn := c, al_calls := al_calls al + 1\<rparr>) }"

text \<open>The loop of \<open>chan_send\<close>: at most 64 attempts.\<close>

fun chan_spin :: "link_env \<Rightarrow> nat \<Rightarrow> bytes \<Rightarrow> auth_link \<Rightarrow> (int \<times> auth_link) option" where
  "chan_spin e 0 msg al = Some (AUTH_LINK_ERR, al)"
| "chan_spin e (Suc n) msg al = do {
     (w, c) \<leftarrow> netchan_chan_write (al_conn al) (al_tx al) msg;
     let al = al\<lparr>al_conn := c\<rparr>;
     if w = int (length msg) then do { al \<leftarrow> flush_out e al; Some (AUTH_LINK_OK, al) }
     else if w \<noteq> NETCHAN_ERR_FLOW \<and> w \<noteq> NETCHAN_ERR_AGAIN then Some (AUTH_LINK_ERR, al)
     else do {
       al \<leftarrow> link_service e al;
       al \<leftarrow> flush_out e al;
       chan_spin e n msg al } }"

definition chan_send :: "link_env \<Rightarrow> auth_link \<Rightarrow> u8 \<Rightarrow> bytes \<Rightarrow> (int \<times> auth_link) option" where
  "chan_send e al tag data =
     (if al_tx al = None \<or> 2048 < length data + 1 then Some (AUTH_LINK_ERR, al)
      else chan_spin e 64 (tag # data) al)"

text \<open>\<open>auth_out\<close> for the messages of one call, and the login's state after it.\<close>

fun send_auth :: "link_env \<Rightarrow> auth_out list \<Rightarrow> auth_link \<Rightarrow> auth_link option" where
  "send_auth e [] al = Some al"
| "send_auth e (Sent msg # ms) al = do { (_, al) \<leftarrow> chan_send e al TAG_AUTH msg; send_auth e ms al }"
| "send_auth e (Cancelled # ms) al = send_auth e ms (al\<lparr>al_events := al_events al @ [On_Cancelled]\<rparr>)"

definition auth_sent :: "link_env \<Rightarrow> auth_link \<Rightarrow> nc_auth \<Rightarrow> auth_link option" where
  "auth_sent e al a = send_auth e (a_out a) (al\<lparr>al_auth := a\<lparr>a_out := []\<rparr>\<rparr>)"

section \<open>The login\<close>

definition settle_need :: "auth_link \<Rightarrow> auth_link" where
  "settle_need al =
     (if \<not> al_auth_started al \<or> al_server al \<or> al_up al \<or> al_down al then al
      else let need = a_need (al_auth al) in
        if need = al_need_fired al then al
        else let al = al\<lparr>al_need_fired := need\<rparr> in
          if need \<noteq> NC_AUTH_NEED_NOTHING then al\<lparr>al_events := al_events al @ [On_Need need]\<rparr> else al)"

definition settle_auth :: "auth_link \<Rightarrow> auth_link" where
  "settle_auth al =
     (if \<not> al_auth_started al \<or> al_up al \<or> al_down al then al
      else let al = settle_need al in
        if a_state (al_auth al) = NC_AUTH_STATE_OK then
          al\<lparr>al_user := take NC_AUTH_MAX_USER (nc_auth_user (al_auth al)), al_up := True, al_events := al_events al @ [On_Up]\<rparr>
        else if a_state (al_auth al) = NC_AUTH_STATE_DENIED then fire_down al AL_DOWN_AUTH
        else al)"

definition advance_connect :: "link_env \<Rightarrow> auth_link \<Rightarrow> auth_link" where
  "advance_connect e al =
     (if \<not> al_server al \<and> \<not> al_connect_sent al \<and> have_key (al_crypto al) then
        (case netchan_connect (le_nc e (al_calls al)) (al_conn al) (al_peer al) of (rc, c) \<Rightarrow>
          let al = al\<lparr>al_conn := c, al_calls := al_calls al + 1\<rparr> in
          if rc = NETCHAN_OK then al\<lparr>al_connect_sent := True\<rparr> else al)
      else al)"

definition advance_channel :: "auth_link \<Rightarrow> auth_link" where
  "advance_channel al =
     (if al_tx al = None \<and> netchan_state (al_conn al) = NETCHAN_STATE_CONNECTED then
        (case netchan_chan_open (al_conn al) NETCHAN_RELIABLE NETCHAN_DIR_SEND (str_of ''auth'') of (p, c) \<Rightarrow>
          al\<lparr>al_conn := c, al_tx := p\<rparr>)
      else al)"

definition advance_auth :: "link_env \<Rightarrow> auth_link \<Rightarrow> auth_link option" where
  "advance_auth e al =
     (if al_tx al \<noteq> None \<and> \<not> al_auth_started al then
        (case nc_crypto_session_id (al_crypto al) of
           None \<Rightarrow> Some al
         | Some sid \<Rightarrow>
             let buf = replicate NC_FORM_MAX_MSG 0;
                 a = (if al_server al then nc_auth_server_buffer (nc_auth_server_init sid True) (Some buf)
                      else nc_auth_client_buffer (nc_auth_client_init sid (Some (al_user al)) True) (Some buf));
                 al = al\<lparr>al_auth := a, al_auth_started := True\<rparr> in
             if al_server al then Some al
             else do { a \<leftarrow> nc_auth_start a; auth_sent e al a })
      else Some al)"

definition advance :: "link_env \<Rightarrow> auth_link \<Rightarrow> auth_link option" where
  "advance e al =
     (if k_failed (al_crypto al) then Some (fire_down al AL_DOWN_HOSTKEY)
      else do {
        al \<leftarrow> advance_auth e (advance_channel (advance_connect e al));
        Some (settle_auth al) })"

section \<open>Receiving\<close>

definition deliver :: "link_env \<Rightarrow> auth_link \<Rightarrow> bytes \<Rightarrow> auth_link option" where
  "deliver e al msg =
     (if length msg < 1 then Some al
      else if msg ! 0 = TAG_AUTH then do {
        al \<leftarrow> (if al_auth_started al then do {
            (_, a) \<leftarrow> nc_auth_feed (le_auth e) (al_auth al) (tl msg);
            auth_sent e al a }
          else Some al);
        Some (settle_auth al) }
      else if msg ! 0 = TAG_APP \<and> al_up al then Some (al\<lparr>al_events := al_events al @ [On_Data (tl msg)]\<rparr>)
      else Some al)"

partial_function (option) poll_events :: "auth_link \<Rightarrow> auth_link option" where
  "poll_events al =
     (case netchan_poll (al_conn al) of
        None \<Rightarrow> Some al
      | Some (ev, c) \<Rightarrow>
          let al = al\<lparr>al_conn := c\<rparr> in
          poll_events
            (if ev_type ev = NETCHAN_EV_CHAN_OPEN \<or> ev_type ev = NETCHAN_EV_DATA
             then (if ev_ch ev \<noteq> None then al\<lparr>al_rx := ev_ch ev\<rparr> else al)
             else if ev_type ev = NETCHAN_EV_DISCONNECTED then fire_down al AL_DOWN_PEER
             else al))"

partial_function (option) read_messages :: "link_env \<Rightarrow> auth_link \<Rightarrow> auth_link option" where
  "read_messages e al = do {
     (rd, msg, c) \<leftarrow> netchan_chan_read (al_conn al) (al_rx al) 2048;
     let al = al\<lparr>al_conn := c\<rparr>;
     if rd > 0 then do { al \<leftarrow> deliver e al msg; read_messages e al } else Some al }"

definition pump_events :: "link_env \<Rightarrow> auth_link \<Rightarrow> auth_link option" where
  "pump_events e al = do {
     al \<leftarrow> poll_events al;
     if al_rx al \<noteq> None then read_messages e al else Some al }"

definition link_feed :: "link_env \<Rightarrow> auth_link \<Rightarrow> bytes \<Rightarrow> nc_addr \<Rightarrow> auth_link option" where
  "link_feed e al p src = do {
     (_, c) \<leftarrow> netchan_feed (le_nc e (al_calls al)) (le_now e (al_calls al)) (al_conn al) p (Some src);
     Some (al\<lparr>al_conn := c, al_calls := al_calls al + 1\<rparr>) }"

text \<open>One datagram of the loop of \<open>on_readable\<close>; the flag says whether the loop goes on.
  \<open>on_opened\<close> is what follows \<open>nc_crypto_open\<close>, whose results are \<open>pn\<close> and \<open>plain\<close>; \<open>t\<close> is the
  first byte as it was received.\<close>

definition on_opened :: "link_env \<Rightarrow> auth_link \<Rightarrow> nc_addr \<Rightarrow> u8 \<Rightarrow> int \<Rightarrow> bytes \<Rightarrow> (bool \<times> auth_link) option" where
  "on_opened e al src t pn plain =
     (if k_failed (al_crypto al) then Some (False, al)
      else do {
        al \<leftarrow> (if t = NC_CRYPTO_HELLO \<and> al_server al then send_hello al else Some al);
        if pn \<le> 0 then Some (True, al)
        else do {
          al' \<leftarrow> link_feed e al plain src;
          Some (True, if al_server al \<and> \<not> al_accepted al
            then al'\<lparr>al_conn := snd (netchan_accept (al_conn al')), al_accepted := True\<rparr> else al') } })"

definition on_datagram :: "link_env \<Rightarrow> auth_link \<Rightarrow> bytes \<Rightarrow> sockaddr \<Rightarrow> nat \<Rightarrow> (bool \<times> auth_link) option" where
  "on_datagram e al buf ss slen = do {
     (rc, src) \<leftarrow> nc_udp_from_sockaddr (Some ss) slen;
     if rc \<noteq> 0 then Some (True, al)
     else do {
       let al = (if al_server al \<and> \<not> al_have_peer al then al\<lparr>al_peer := src, al_have_peer := True\<rparr> else al);
       t \<leftarrow> rd8 buf 0;
       (pn, plain, k) \<leftarrow> nc_crypto_open (le_lib e) (al_crypto al) buf 2048;
       on_opened e (al\<lparr>al_crypto := k\<rparr>) src t pn plain } }"

text \<open>The datagrams the socket holds, in order; a datagram of no bytes ends the loop as an
  empty socket does.\<close>

fun recv_loop :: "link_env \<Rightarrow> (bytes \<times> sockaddr \<times> nat) list \<Rightarrow> auth_link \<Rightarrow> auth_link option" where
  "recv_loop e [] al = Some al"
| "recv_loop e ((d, ss, slen) # ds) al =
     (if d = [] then Some al
      else do {
        (more, al) \<leftarrow> on_datagram e al (take 2048 d) ss slen;
        if more then recv_loop e ds al else Some al })"

definition on_readable :: "link_env \<Rightarrow> (bytes \<times> sockaddr \<times> nat) list \<Rightarrow> auth_link \<Rightarrow> auth_link option" where
  "on_readable e ds al = do {
     al \<leftarrow> recv_loop e ds al;
     al \<leftarrow> pump_events e al;
     al \<leftarrow> advance e al;
     flush_out e al }"

text \<open>\<open>al_timer\<close>: the tick is scheduled again.\<close>

definition on_tick :: "link_env \<Rightarrow> auth_link \<Rightarrow> auth_link option" where
  "on_tick e al = do {
     al \<leftarrow> (if \<not> al_server al \<and> \<not> have_key (al_crypto al) then send_hello al else Some al);
     al \<leftarrow> link_service e al;
     al \<leftarrow> pump_events e al;
     al \<leftarrow> advance e al;
     al \<leftarrow> flush_out e al;
     Some (al\<lparr>al_timer := \<not> al_closing al\<rparr>) }"

section \<open>Opening, answering and closing\<close>

record auth_link_cfg =
  lc_server :: bool
  lc_peer :: "nc_addr option"
  lc_static_sk :: "bytes option"
  lc_psk :: "bytes option"
  lc_require_peer_static :: bool
  lc_verify_peer :: "(bytes option \<Rightarrow> int) option"
  lc_user :: "bytes option"

definition link_start :: "auth_link_cfg \<Rightarrow> nc_crypto \<Rightarrow> auth_link" where
  "link_start cfg k = \<lparr>
     al_conn = netchan_open (lc_server cfg), al_tx = None, al_rx = None, al_server = lc_server cfg,
     al_have_peer = (lc_peer cfg \<noteq> None), al_connect_sent = False, al_accepted = False, al_auth_started = False,
     al_need_fired = NC_AUTH_NEED_NOTHING, al_up = False, al_down = False, al_closing = False, al_timer = False,
     al_peer = (case lc_peer cfg of Some a \<Rightarrow> a | None \<Rightarrow> addr_zero), al_crypto = k, al_auth = auth_zero,
     al_user = (case lc_user cfg of Some u \<Rightarrow> take NC_AUTH_MAX_USER u | None \<Rightarrow> []), al_calls = 0, al_sent = [], al_events = []\<rparr>"

text \<open>\<open>fdok\<close> is the outcome of \<open>iox_fd_add\<close>, \<open>rnd\<close> what the system gives \<open>nc_crypto_init\<close>; the inner
  \<open>None\<close> is a null result.\<close>

definition auth_link_open :: "link_env \<Rightarrow> int \<times> bytes \<Rightarrow> bool \<Rightarrow> auth_link_cfg \<Rightarrow> auth_link option option" where
  "auth_link_open e rnd fdok cfg =
     (if \<not> lc_server cfg \<and> lc_peer cfg = None then Some None
      else do {
        (rc, k) \<leftarrow> nc_crypto_init (le_lib e) rnd (if lc_server cfg then 1 else 0)
          (Some \<lparr>cfg_eph_sk_seed = None, cfg_psk = lc_psk cfg, cfg_static_sk = lc_static_sk cfg,
                 cfg_require_peer_static = lc_require_peer_static cfg, cfg_verify_peer = lc_verify_peer cfg\<rparr>);
        if rc \<noteq> 0 \<or> \<not> fdok then Some None
        else do { al \<leftarrow> on_tick e (link_start cfg k); Some (Some al) } })"

text \<open>The five supply calls have the same frame around a call of \<open>nc_auth\<close>.\<close>

definition link_supply :: "link_env \<Rightarrow> auth_link \<Rightarrow> (nc_auth \<Rightarrow> nc_auth option) \<Rightarrow> auth_link option" where
  "link_supply e al f =
     (if \<not> al_auth_started al \<or> al_server al then Some al
      else do {
        a \<leftarrow> f (al_auth al);
        al \<leftarrow> auth_sent e al a;
        flush_out e (settle_auth (al\<lparr>al_need_fired := NC_AUTH_NEED_NOTHING\<rparr>)) })"

definition auth_link_supply_key :: "link_env \<Rightarrow> auth_link \<Rightarrow> bytes option \<Rightarrow> bytes option \<Rightarrow> auth_link option" where
  "auth_link_supply_key e al sk pk = link_supply e al (\<lambda>a. nc_auth_supply_key (le_auth e) a sk pk)"

definition auth_link_supply_password :: "link_env \<Rightarrow> auth_link \<Rightarrow> bytes option \<Rightarrow> auth_link option" where
  "auth_link_supply_password e al password = link_supply e al (\<lambda>a. nc_auth_supply_password a password)"

definition auth_link_supply_method :: "link_env \<Rightarrow> auth_link \<Rightarrow> u32 \<Rightarrow> auth_link option" where
  "auth_link_supply_method e al method = link_supply e al (\<lambda>a. nc_auth_supply_method a method)"

definition auth_link_submit :: "link_env \<Rightarrow> auth_link \<Rightarrow> nc_form_value list option \<Rightarrow> auth_link option" where
  "auth_link_submit e al vals = link_supply e al (\<lambda>a. nc_auth_submit a vals)"

definition auth_link_cancel :: "link_env \<Rightarrow> auth_link \<Rightarrow> auth_link option" where
  "auth_link_cancel e al = link_supply e al (\<lambda>a. Some (nc_auth_cancel a))"

definition auth_link_form :: "auth_link \<Rightarrow> nc_form option" where
  "auth_link_form al = (if al_auth_started al then nc_auth_form (al_auth al) else None)"

definition auth_link_waiting :: "auth_link \<Rightarrow> bytes option" where
  "auth_link_waiting al = (if al_auth_started al then nc_auth_waiting (al_auth al) else None)"

definition auth_link_registered :: "auth_link \<Rightarrow> bool \<times> auth_link" where
  "auth_link_registered al =
     (if al_auth_started al then (case nc_auth_registered (al_auth al) of (r, a) \<Rightarrow> (r, al\<lparr>al_auth := a\<rparr>)) else (False, al))"

definition auth_link_send :: "link_env \<Rightarrow> auth_link \<Rightarrow> bytes \<Rightarrow> (int \<times> auth_link) option" where
  "auth_link_send e al data = (if \<not> al_up al then Some (AUTH_LINK_ERR, al) else chan_send e al TAG_APP data)"

definition auth_link_close :: "link_env \<Rightarrow> auth_link \<Rightarrow> auth_link option" where
  "auth_link_close e al = do {
     let al = al\<lparr>al_closing := True, al_timer := False\<rparr>;
     al \<leftarrow> (if have_key (al_crypto al) then flush_out e (al\<lparr>al_conn := netchan_disconnect (al_conn al)\<rparr>) else Some al);
     c \<leftarrow> netchan_close (al_conn al);
     let al = al\<lparr>al_conn := c\<rparr>;
     Some (if al_auth_started al then al\<lparr>al_auth := nc_auth_clear (le_auth e) (al_auth al)\<rparr> else al) }"

end
