(* ===== verification/Auth_Link_Props.thy ===== *)
theory Auth_Link_Props
  imports Auth_Link Auth_Safe Crypto_Props
begin

text \<open>
  What the stacked session promises, over every sequence of calls and datagrams: nothing of netchan
  leaves unsealed and no counter is used twice under a key; the application sees data only after the
  login; and a server reports a user only after a credential for that user was accepted, bound to the
  id of the encrypted session.  The invariant \<open>link_inv\<close> is kept by every function of the link.
\<close>

section \<open>The layers\<close>

lemma seal_cases:
  assumes "nc_crypto_seal lib k p cap = Some (sn, d, k')"
  shows "sn < 0 \<and> k' = k \<or> 0 \<le> sn \<and> have_key k \<and> tx_counter k \<noteq> - 1
    \<and> d = data_pkt lib (tx_key k) (tx_counter k + 1) p \<and> k' = k\<lparr>tx_counter := tx_counter k + 1\<rparr>"
  using assms
  by (auto simp: nc_crypto_seal_def emit_def data_pkt_def NC_CRYPTO_ERR_def Let_def bind_eq_Some_conv
      split: if_splits prod.splits)

lemma replay_keys:
  "replay_check_and_update k n = (rc, k') \<Longrightarrow> eph_pk k' = eph_pk k \<and> have_static k' = have_static k \<and> static_pk k' = static_pk k
    \<and> have_key k' = have_key k \<and> tx_key k' = tx_key k \<and> k_sid k' = k_sid k \<and> tx_counter k' = tx_counter k"
  by (auto simp: replay_check_and_update_def Let_def split: if_splits)

lemma open_keys:
  assumes "have_key k"
  shows "post (nc_crypto_open lib k pkt cap) (\<lambda>(rc, out, k'). have_key k' \<and> tx_key k' = tx_key k \<and> k_sid k' = k_sid k \<and> tx_counter k' = tx_counter k)"
  using assms replay_keys [of k]
  by (auto simp: nc_crypto_open_def Let_def intro!: postI split: option.splits prod.splits)

lemma consume_public: "post (consume_hello lib k b) (\<lambda>k'. eph_pk k' = eph_pk k \<and> have_static k' = have_static k \<and> static_pk k' = static_pk k)"
  by (auto simp: consume_hello_def derive_session_def Let_def intro!: postI split: prod.splits if_splits)

lemma open_public:
  "post (nc_crypto_open lib k pkt cap) (\<lambda>(rc, out, k'). eph_pk k' = eph_pk k \<and> have_static k' = have_static k \<and> static_pk k' = static_pk k)"
  using replay_keys [of k] consume_public
  by (auto simp: nc_crypto_open_def Let_def intro!: postI split: option.splits prod.splits)

text \<open>The server's side of the login keeps the session id, and the message that lets a user in does
  not change the name.\<close>

definition login_kept :: "nc_auth \<Rightarrow> nc_auth \<Rightarrow> bool" where
  "login_kept a a' \<longleftrightarrow> a_sid a' = a_sid a \<and> (a_state a' = NC_AUTH_STATE_OK \<longrightarrow> a_user a' = a_user a)"

lemma emit_frame [simp]:
  "a_sid (nc_auth_i_emit a m) = a_sid a" "a_user (nc_auth_i_emit a m) = a_user a" "a_state (nc_auth_i_emit a m) = a_state a"
  by (simp_all add: nc_auth_i_emit_def)

lemma server_frame [simp]:
  "a_sid (server_reply a t m h) = a_sid a" "a_user (server_reply a t m h) = a_user a" "a_state (server_reply a t m h) = a_state a"
  "a_sid (nc_auth_i_server_deny a s) = a_sid a" "a_user (nc_auth_i_server_deny a s) = a_user a"
  "a_sid (nc_auth_i_server_offer e a) = a_sid a" "a_user (nc_auth_i_server_offer e a) = a_user a"
  "a_sid (nc_auth_i_ia_end e a) = a_sid a" "a_user (nc_auth_i_ia_end e a) = a_user a"
  "a_sid (nc_auth_server_token a tok) = a_sid a" "a_user (nc_auth_server_token a tok) = a_user a"
  "a_sid (wipe_strings a) = a_sid a" "a_user (wipe_strings a) = a_user a"
  by (simp_all add: server_reply_def nc_auth_i_server_deny_def nc_auth_i_server_offer_def nc_auth_i_ia_end_def
      nc_auth_server_token_def wipe_strings_def Let_def split: option.split)

definition login_frame :: "nc_auth \<Rightarrow> nc_auth \<Rightarrow> bool" where
  "login_frame a a' \<longleftrightarrow> a_sid a' = a_sid a \<and> a_user a' = a_user a"

lemma verdict_frame: "post (verdict e a w f t) (login_frame a)"
  by (auto simp: verdict_def send_wait_def login_frame_def Let_def intro!: postI split: option.splits prod.splits)

lemma answer_frame: "post (ia_answer e a r) (\<lambda>(rc, a'). login_frame a a')"
proof (cases r)
  case (fields rc out tok)
  have "login_frame (nc_auth_server_token a tok) = login_frame a" by (simp add: login_frame_def fun_eq_iff)
  then show ?thesis
    using verdict_frame [of e "nc_auth_server_token a tok" rc "Some out" None] by (simp add: fields ia_answer_def)
qed

lemma decode_frame: "post (decode_answers a msg) (\<lambda>(rc, a'). login_frame a a')"
  by (auto simp: decode_answers_def login_frame_def Let_def intro!: postI split: option.splits prod.splits)

lemma frame_update:
  "login_frame (a\<lparr>a_ia_method := m, a_fired := b\<rparr>) = login_frame a" "login_frame (wipe_strings a) = login_frame a"
  by (simp_all add: login_frame_def fun_eq_iff)

lemma ia_server_frame: "post (nc_auth_i_ia_server e a msg) (\<lambda>(rc, a'). login_frame a a')"
proof -
  have ans: "post (ia_answer e (a\<lparr>a_ia_method := m, a_fired := b\<rparr>) r) (\<lambda>(rc, a'). login_frame a a')" for m b r
    using answer_frame [of e "a\<lparr>a_ia_method := m, a_fired := b\<rparr>" r] by (simp add: frame_update)
  have sub: "post (ia_answer e (wipe_strings a1) r) (\<lambda>(rc, a'). login_frame a a')" if "login_frame a a1" for a1 r
    using answer_frame [of e "wipe_strings a1" r] that
    by (auto simp: frame_update elim!: post_mono) (simp add: login_frame_def)
  have submit: "post (decode_answers a msg) (\<lambda>(rc, a1).
      post (if rc \<noteq> NC_AUTH_OK then Some (NC_AUTH_ERR, a1) else ia_answer e (wipe_strings a1) (f a1)) (\<lambda>(rc, a'). login_frame a a'))" for f
    using decode_frame by (rule post_mono) (auto intro: sub)
  have other: "login_frame a a" "login_frame a (nc_auth_i_server_deny a s)"
    "login_frame a (nc_auth_i_server_deny (nc_auth_i_ia_end e (a\<lparr>a_ia_method := m, a_fired := b\<rparr>)) s)"
    "login_frame a (nc_auth_i_server_offer e (nc_auth_i_ia_end e a))" for s m b
    by (simp_all add: login_frame_def)
  show ?thesis
    unfolding nc_auth_i_ia_server_def Let_def
    by (rule post_bind [THEN iffD2], rule postI)
       (use submit in \<open>simp add: postI ans other split: option.split\<close>)
qed

lemma offer_not_ok: "a_state (nc_auth_i_server_offer e a) = NC_AUTH_STATE_OK \<Longrightarrow> a_state a = NC_AUTH_STATE_OK"
  by (auto simp: nc_auth_i_server_offer_def Let_def split: if_splits option.splits)

lemma server_feed_frame:
  assumes "a_state a = NC_AUTH_STATE_PENDING"
  shows "post (server_feed e a msg) (\<lambda>(rc, a'). login_kept a a')"
proof -
  have ia: "post (nc_auth_i_ia_server e a msg) (\<lambda>(rc, a'). login_kept a a')"
    using ia_server_frame by (rule post_mono) (auto simp: login_frame_def login_kept_def)
  have other: "login_kept a a" "login_kept a (nc_auth_i_server_deny a s)" "login_kept a (server_reply (a\<lparr>a_state := st\<rparr>) t m h)"
    "login_kept a (nc_auth_i_server_offer e (a\<lparr>a_user := u, a_greeted := b\<rparr>))" for s st t m h u b
    using assms offer_not_ok [of e "a\<lparr>a_user := u, a_greeted := b\<rparr>"] by (auto simp: login_kept_def)
  show ?thesis
    unfolding server_feed_def Let_def
    by (rule post_bind [THEN iffD2], rule postI) (simp add: postI ia other)
qed

lemma feed_frame:
  assumes "a_server a"
  shows "post (nc_auth_feed e a msg) (\<lambda>(rc, a'). login_kept a a')"
proof (cases "length msg < 1 \<or> a_state a \<noteq> NC_AUTH_STATE_PENDING")
  case False
  then have "post (server_feed e a msg) (\<lambda>(rc, a'). login_kept a (if rc \<noteq> 0 then a'\<lparr>a_state := NC_AUTH_STATE_DENIED\<rparr> else a'))"
    using server_feed_frame by (intro post_mono [OF server_feed_frame]) (auto simp: login_kept_def)
  then show ?thesis using False assms by (auto simp: nc_auth_feed_def login_kept_def [of a a])
qed (auto simp: nc_auth_feed_def login_kept_def)

section \<open>The invariant\<close>

text \<open>What has been given to \<open>sendto\<close>: greetings, which hold nothing but public keys, and netchan's
  datagrams sealed under the sending key with counters that only grow.\<close>

definition hello_pkt :: "nc_crypto \<Rightarrow> bytes" where
  "hello_pkt k = NC_CRYPTO_HELLO # eph_pk k @ (if have_static k then static_pk k else zero32)"

definition wire_ok :: "crypto_lib \<Rightarrow> nc_crypto \<Rightarrow> bytes list \<Rightarrow> bool" where
  "wire_ok lib k ds \<longleftrightarrow>
     (\<forall>d \<in> set ds. hd d = NC_CRYPTO_HELLO \<longrightarrow> d = hello_pkt k) \<and>
     (\<exists>ms. filter (\<lambda>d. hd d \<noteq> NC_CRYPTO_HELLO) ds = map (\<lambda>(n, p). data_pkt lib (tx_key k) n p) ms
        \<and> sorted_wrt (<) (map fst ms) \<and> (\<forall>n \<in> fst ` set ms. n \<le> tx_counter k) \<and> (ms \<noteq> [] \<longrightarrow> have_key k))"

text \<open>Data reaches the application only after it was told that the link is up.\<close>

definition gated :: "al_event list \<Rightarrow> bool" where
  "gated es \<longleftrightarrow> (\<forall>xs d ys. es = xs @ On_Data d # ys \<longrightarrow> On_Up \<in> set xs)"

text \<open>A credential for the user of \<open>a\<close> was accepted in the session of \<open>a\<close>.\<close>

definition credential_seen :: "auth_env \<Rightarrow> nc_auth \<Rightarrow> bool" where
  "credential_seen e a \<longleftrightarrow> (\<exists>b msg. a_sid b = a_sid a \<and> a_user b = a_user a \<and>
     (key_credential e b msg \<or> password_credential e b msg \<or> interactive_done e b msg))"

definition login_inv :: "link_env \<Rightarrow> auth_link \<Rightarrow> bool" where
  "login_inv e al \<longleftrightarrow>
     (if al_auth_started al
      then server_wf (al_auth al) \<and> a_sid (al_auth al) = k_sid (al_crypto al)
        \<and> (a_state (al_auth al) = NC_AUTH_STATE_OK \<longrightarrow> credential_seen (le_auth e) (al_auth al))
        \<and> (al_up al \<longrightarrow> a_state (al_auth al) = NC_AUTH_STATE_OK \<and> al_user al = take NC_AUTH_MAX_USER (nc_auth_user (al_auth al)))
      else \<not> al_up al)"

definition link_inv :: "link_env \<Rightarrow> auth_link \<Rightarrow> bool" where
  "link_inv e al \<longleftrightarrow>
     wire_ok (le_lib e) (al_crypto al) (map fst (al_sent al)) \<and> gated (al_events al)
     \<and> (al_up al \<longleftrightarrow> On_Up \<in> set (al_events al)) \<and> (al_auth_started al \<longrightarrow> have_key (al_crypto al))
     \<and> (al_server al \<longrightarrow> login_inv e al)"

lemma link_inv_simps [simp]:
  "link_inv e (al\<lparr>al_conn := c\<rparr>) = link_inv e al" "link_inv e (al\<lparr>al_calls := n\<rparr>) = link_inv e al"
  "link_inv e (al\<lparr>al_tx := p\<rparr>) = link_inv e al" "link_inv e (al\<lparr>al_rx := p\<rparr>) = link_inv e al"
  "link_inv e (al\<lparr>al_connect_sent := b\<rparr>) = link_inv e al" "link_inv e (al\<lparr>al_accepted := b\<rparr>) = link_inv e al"
  "link_inv e (al\<lparr>al_need_fired := nd\<rparr>) = link_inv e al" "link_inv e (al\<lparr>al_down := b\<rparr>) = link_inv e al"
  "link_inv e (al\<lparr>al_peer := a\<rparr>) = link_inv e al" "link_inv e (al\<lparr>al_have_peer := b\<rparr>) = link_inv e al"
  "link_inv e (al\<lparr>al_timer := b\<rparr>) = link_inv e al" "link_inv e (al\<lparr>al_closing := b\<rparr>) = link_inv e al"
  by (simp_all add: link_inv_def login_inv_def)

lemma gated_snoc: "gated (es @ [x]) \<longleftrightarrow> gated es \<and> ((\<exists>d. x = On_Data d) \<longrightarrow> On_Up \<in> set es)"
proof
  assume g: "gated (es @ [x])"
  have "On_Up \<in> set xs" if "es = xs @ On_Data d # ys" for xs d ys
    using g that unfolding gated_def by (metis append.assoc append_Cons)
  moreover have "On_Up \<in> set es" if "x = On_Data d" for d using g that unfolding gated_def by blast
  ultimately show "gated es \<and> ((\<exists>d. x = On_Data d) \<longrightarrow> On_Up \<in> set es)" by (auto simp: gated_def)
next
  assume g: "gated es \<and> ((\<exists>d. x = On_Data d) \<longrightarrow> On_Up \<in> set es)"
  show "gated (es @ [x])"
    unfolding gated_def
  proof (intro allI impI)
    fix xs d ys assume "es @ [x] = xs @ On_Data d # ys"
    then show "On_Up \<in> set xs"
      using g by (cases ys rule: rev_cases) (auto simp: gated_def)
  qed
qed

lemma event_inv:
  assumes "link_inv e al" "x \<noteq> On_Up" "\<And>d. x = On_Data d \<Longrightarrow> al_up al"
  shows "link_inv e (al\<lparr>al_events := al_events al @ [x]\<rparr>)"
  using assms by (auto simp: link_inv_def login_inv_def gated_snoc)

lemma fire_down_inv: "link_inv e al \<Longrightarrow> link_inv e (fire_down al r)"
  using event_inv [of e "al\<lparr>al_down := True\<rparr>" "On_Down r"] by (simp add: fire_down_def)

section \<open>Sending keeps it\<close>

lemma sent_hello:
  assumes "wire_ok lib k ds"
  shows "wire_ok lib k (ds @ [hello_pkt k])"
  using assms unfolding wire_ok_def by (auto simp: hello_pkt_def)

lemma sent_open:
  assumes "wire_ok lib k ds" "hello_pkt k' = hello_pkt k"
    "have_key k \<longrightarrow> have_key k' \<and> tx_key k' = tx_key k \<and> tx_counter k' = tx_counter k"
  shows "wire_ok lib k' ds"
proof -
  obtain ms where "filter (\<lambda>d. hd d \<noteq> NC_CRYPTO_HELLO) ds = map (\<lambda>(n, p). data_pkt lib (tx_key k) n p) ms"
      "sorted_wrt (<) (map fst ms)" "\<forall>n \<in> fst ` set ms. n \<le> tx_counter k" "ms \<noteq> [] \<longrightarrow> have_key k"
      "\<forall>d \<in> set ds. hd d = NC_CRYPTO_HELLO \<longrightarrow> d = hello_pkt k"
    using assms(1) by (auto simp: wire_ok_def)
  then show ?thesis using assms(2,3) unfolding wire_ok_def by (cases ms) (auto intro!: exI [of _ ms])
qed

lemma sent_sealed:
  assumes "wire_ok lib k ds" "have_key k" "tx_counter k \<noteq> - 1"
  shows "wire_ok lib (k\<lparr>tx_counter := tx_counter k + 1\<rparr>) ds"
    "wire_ok lib (k\<lparr>tx_counter := tx_counter k + 1\<rparr>) (ds @ [data_pkt lib (tx_key k) (tx_counter k + 1) p])"
proof -
  obtain ms where ms: "filter (\<lambda>d. hd d \<noteq> NC_CRYPTO_HELLO) ds = map (\<lambda>(n, p). data_pkt lib (tx_key k) n p) ms"
      "sorted_wrt (<) (map fst ms)" "\<forall>n \<in> fst ` set ms. n \<le> tx_counter k"
    and h1: "\<forall>d \<in> set ds. hd d = NC_CRYPTO_HELLO \<longrightarrow> d = hello_pkt k"
    using assms(1) by (auto simp: wire_ok_def)
  have h: "\<forall>d \<in> set ds. hd d = NC_CRYPTO_HELLO \<longrightarrow> d = hello_pkt (k\<lparr>tx_counter := n\<rparr>)" for n
    using h1 by (simp add: hello_pkt_def cong: if_cong)
  have "1 + tx_counter k \<noteq> 0" using assms(3) by (metis add_eq_0_iff2 add.inverse_inverse)
  then have lt: "tx_counter k < tx_counter k + 1"
    using unatSuc [of "tx_counter k"] by (simp add: word_less_nat_alt add.commute)
  have up: "\<forall>n \<in> fst ` set ms. n < tx_counter k + 1" using ms(3) lt by (blast intro: le_less_trans)
  have d: "hd (data_pkt lib (tx_key k) n p) = NC_CRYPTO_DATA" "NC_CRYPTO_DATA \<noteq> NC_CRYPTO_HELLO" for n
    by (simp_all add: data_pkt_def NC_CRYPTO_DATA_def NC_CRYPTO_HELLO_def)
  show "wire_ok lib (k\<lparr>tx_counter := tx_counter k + 1\<rparr>) ds"
    unfolding wire_ok_def using ms h up assms(2) by (intro conjI exI [of _ ms]) (auto intro: less_imp_le)
  show "wire_ok lib (k\<lparr>tx_counter := tx_counter k + 1\<rparr>) (ds @ [data_pkt lib (tx_key k) (tx_counter k + 1) p])"
    unfolding wire_ok_def using ms h up assms(2) d
    by (intro conjI exI [of _ "ms @ [(tx_counter k + 1, p)]"]) (auto simp: sorted_wrt_append intro: less_imp_le)
qed

lemma crypto_inv:
  assumes "link_inv e al" "wire_ok (le_lib e) k (map fst (al_sent al))"
    "have_key (al_crypto al) \<Longrightarrow> have_key k \<and> k_sid k = k_sid (al_crypto al)"
  shows "link_inv e (al\<lparr>al_crypto := k\<rparr>)"
  using assms by (auto simp: link_inv_def login_inv_def)

lemma sealed_inv:
  assumes inv: "link_inv e al" and seal: "nc_crypto_seal (le_lib e) (al_crypto al) p cap = Some (sn, d, k)"
  shows "link_inv e (al\<lparr>al_crypto := k\<rparr>)"
    "0 \<le> sn \<Longrightarrow> link_inv e (al\<lparr>al_crypto := k, al_sent := al_sent al @ [(d, ss)]\<rparr>)"
proof -
  have so: "wire_ok (le_lib e) (al_crypto al) (map fst (al_sent al))" using inv by (simp add: link_inv_def)
  note c = seal_cases [OF seal]
  show "link_inv e (al\<lparr>al_crypto := k\<rparr>)"
    using c inv so sent_sealed(1) [OF so] by (auto intro!: crypto_inv)
  show "link_inv e (al\<lparr>al_crypto := k, al_sent := al_sent al @ [(d, ss)]\<rparr>)" if "0 \<le> sn"
    using c that inv sent_sealed(2) [OF so, of p] by (auto simp: link_inv_def login_inv_def)
qed

lemma hello_inv:
  assumes "link_inv e al"
  shows "post (send_hello al) (link_inv e)"
proof (cases "al_have_peer al")
  case True
  have p: "post (nc_crypto_handshake_packet (al_crypto al) NC_CRYPTO_HELLO_LEN) (\<lambda>(hn, hp). hn = 0 \<or> hp = hello_pkt (al_crypto al))"
    by (auto simp: nc_crypto_handshake_packet_def hello_pkt_def emit_def)
  have i: "link_inv e (al\<lparr>al_sent := al_sent al @ [(hello_pkt (al_crypto al), ss)]\<rparr>)" for ss
    using assms by (auto simp: link_inv_def login_inv_def intro: sent_hello)
  have "post (nc_crypto_handshake_packet (al_crypto al) NC_CRYPTO_HELLO_LEN) (\<lambda>(hn, hp). post (nc_udp_to_sockaddr (Some (al_peer al)))
      (\<lambda>(slen, ss). link_inv e (if hn = 0 \<or> slen = 0 then al else al\<lparr>al_sent := al_sent al @ [(hp, ss)]\<rparr>)))"
    using p by (rule post_mono) (use assms i in \<open>auto intro!: postI\<close>)
  then show ?thesis using True by (simp add: send_hello_def)
qed (simp add: send_hello_def assms)

lemma flush_out_body:
  assumes inv: "link_inv e al" and rec: "\<And>al. link_inv e al \<Longrightarrow> post (f al) (link_inv e)"
  shows "post (do {
     (buf, to, c) \<leftarrow> netchan_send_next (le_nc e (al_calls al)) (al_conn al) 2048;
     let al = al\<lparr>al_conn := c, al_calls := al_calls al + 1\<rparr>;
     if buf = [] then Some al
     else do {
       (sn, sealed, k) \<leftarrow> nc_crypto_seal (le_lib e) (al_crypto al) buf (2048 + NC_CRYPTO_OVERHEAD);
       let al = al\<lparr>al_crypto := k\<rparr>;
       if sn < 0 then f al
       else do {
         (slen, ss) \<leftarrow> nc_udp_to_sockaddr to;
         if slen = 0 then f al
         else f (al\<lparr>al_sent := al_sent al @ [(sealed, ss)]\<rparr>) } } }) (link_inv e)"
proof -
  have "post (nc_crypto_seal (le_lib e) (al_crypto al) buf (2048 + NC_CRYPTO_OVERHEAD)) (\<lambda>(sn, d, k).
      post (let al = al\<lparr>al_conn := c, al_calls := al_calls al + 1, al_crypto := k\<rparr> in
       if sn < 0 then f al
       else do {
         (slen, ss) \<leftarrow> nc_udp_to_sockaddr to;
         if slen = 0 then f al
         else f (al\<lparr>al_sent := al_sent al @ [(d, ss)]\<rparr>) }) (link_inv e))" for buf to c
  proof -
    define al1 where "al1 = al\<lparr>al_conn := c, al_calls := al_calls al + 1\<rparr>"
    have "link_inv e al1" using inv by (simp add: al1_def)
    from sealed_inv [OF this] have "post (nc_crypto_seal (le_lib e) (al_crypto al1) buf (2048 + NC_CRYPTO_OVERHEAD)) (\<lambda>(sn, d, k).
        link_inv e (al1\<lparr>al_crypto := k\<rparr>) \<and> (0 \<le> sn \<longrightarrow> (\<forall>ss. link_inv e (al1\<lparr>al_crypto := k, al_sent := al_sent al1 @ [(d, ss)]\<rparr>))))"
      by (simp add: post_def)
    then have "post (nc_crypto_seal (le_lib e) (al_crypto al) buf (2048 + NC_CRYPTO_OVERHEAD)) (\<lambda>(sn, d, k).
        link_inv e (al1\<lparr>al_crypto := k\<rparr>) \<and> (0 \<le> sn \<longrightarrow> (\<forall>ss. link_inv e (al1\<lparr>al_crypto := k, al_sent := al_sent al1 @ [(d, ss)]\<rparr>))))"
      by (simp add: al1_def)
    then show ?thesis
      by (rule post_mono) (auto simp: al1_def Let_def intro!: postI rec)
  qed
  then show ?thesis using inv by (auto simp: Let_def intro!: postI)
qed

lemma flush_out_inv:
  assumes "link_inv e al"
  shows "post (flush_out e al) (link_inv e)"
proof -
  have "link_inv e al \<longrightarrow> link_inv e al'" if "flush_out e al = Some al'" for al'
  proof (rule flush_out.raw_induct [OF _ that, of "\<lambda>e al al'. link_inv e al \<longrightarrow> link_inv e al'"], goal_cases)
    case (1 rec e al al')
    have "post (rec e al) (link_inv e)" if "link_inv e al" for al using 1(1) that by (auto simp: post_def)
    then show ?case using flush_out_body [of e al "rec e"] postD [OF _ 1(2), of "link_inv e"] by auto
  qed
  then show ?thesis using assms by (auto simp: post_def)
qed

lemma service_inv: "link_inv e al \<Longrightarrow> post (link_service e al) (link_inv e)"
  by (auto simp: link_service_def intro!: postI)

lemma chan_spin_inv: "link_inv e al \<Longrightarrow> post (chan_spin e n msg al) (\<lambda>(rc, al). link_inv e al)"
proof (induction n arbitrary: al)
  case (Suc n)
  have rest: "post (link_service e al) (\<lambda>al. post (flush_out e al) (\<lambda>al. post (chan_spin e n msg al) (\<lambda>(rc, al). link_inv e al)))"
    if "link_inv e al" for al
    using service_inv [OF that] by (rule post_mono) (blast intro: post_mono flush_out_inv Suc.IH)
  have fin: "post (flush_out e al) (\<lambda>al. link_inv e al)" if "link_inv e al" for al
    using flush_out_inv [OF that] .
  show ?case using Suc.prems rest fin by (auto simp: Let_def intro!: postI)
qed simp

lemma chan_send_inv: "link_inv e al \<Longrightarrow> post (chan_send e al tag d) (\<lambda>(rc, al). link_inv e al)"
  by (simp add: chan_send_def chan_spin_inv)

lemma send_auth_inv: "link_inv e al \<Longrightarrow> post (send_auth e ms al) (link_inv e)"
proof (induction ms arbitrary: al)
  case (Cons m ms)
  show ?case
  proof (cases m)
    case (Sent msg)
    then show ?thesis using chan_send_inv [OF Cons.prems, of TAG_AUTH msg] Cons.IH by (auto elim!: post_mono)
  next
    case Cancelled
    then show ?thesis using event_inv [OF Cons.prems, of On_Cancelled] Cons.IH by simp
  qed
qed simp

section \<open>The login keeps it\<close>

lemma auth_inv:
  assumes "link_inv e al"
    "al_server al \<Longrightarrow> al_auth_started al \<Longrightarrow> server_wf a \<and> login_kept (al_auth al) a
       \<and> (a_state (al_auth al) = NC_AUTH_STATE_OK \<longrightarrow> a = al_auth al)
       \<and> (a_state a = NC_AUTH_STATE_OK \<longrightarrow> credential_seen (le_auth e) a)"
  shows "link_inv e (al\<lparr>al_auth := a\<lparr>a_out := []\<rparr>\<rparr>)"
proof -
  have "nc_auth_user (a\<lparr>a_out := []\<rparr>) = nc_auth_user a" "credential_seen (le_auth e) (a\<lparr>a_out := []\<rparr>) = credential_seen (le_auth e) a"
    by (simp_all add: nc_auth_user_def credential_seen_def)
  then show ?thesis using assms by (auto simp: link_inv_def login_inv_def login_kept_def)
qed

lemma settle_need_inv: "link_inv e al \<Longrightarrow> link_inv e (settle_need al)"
  using event_inv [of e "al\<lparr>al_need_fired := a_need (al_auth al)\<rparr>" "On_Need (a_need (al_auth al))"]
  by (simp add: settle_need_def Let_def)

lemma settle_need_fields [simp]:
  "al_auth (settle_need al) = al_auth al" "al_up (settle_need al) = al_up al" "al_server (settle_need al) = al_server al"
  "al_auth_started (settle_need al) = al_auth_started al" "al_crypto (settle_need al) = al_crypto al"
  by (simp_all add: settle_need_def Let_def)

lemma up_inv:
  assumes "link_inv e al" "al_auth_started al" "a_state (al_auth al) = NC_AUTH_STATE_OK"
  shows "link_inv e (al\<lparr>al_user := take NC_AUTH_MAX_USER (nc_auth_user (al_auth al)), al_up := True, al_events := al_events al @ [On_Up]\<rparr>)"
  using assms by (auto simp: link_inv_def login_inv_def gated_snoc)

lemma settle_auth_inv: "link_inv e al \<Longrightarrow> link_inv e (settle_auth al)"
  using up_inv [of e "settle_need al"] settle_need_inv [of e al] fire_down_inv [of e "settle_need al" AL_DOWN_AUTH]
  by (simp add: settle_auth_def Let_def)

lemma feed_inv:
  assumes "link_inv e al" "al_auth_started al"
  shows "post (nc_auth_feed (le_auth e) (al_auth al) msg) (\<lambda>(rc, a). link_inv e (al\<lparr>al_auth := a\<lparr>a_out := []\<rparr>\<rparr>))"
proof (cases "al_server al")
  case True
  then have wf: "server_wf (al_auth al)" "a_state (al_auth al) = NC_AUTH_STATE_OK \<longrightarrow> credential_seen (le_auth e) (al_auth al)"
    using assms by (auto simp: link_inv_def login_inv_def)
  then have sv: "a_server (al_auth al)" by (simp add: server_wf_def)
  have "server_wf a \<and> login_kept (al_auth al) a \<and> (a_state (al_auth al) = NC_AUTH_STATE_OK \<longrightarrow> a = al_auth al)
       \<and> (a_state a = NC_AUTH_STATE_OK \<longrightarrow> credential_seen (le_auth e) a)"
    if f: "nc_auth_feed (le_auth e) (al_auth al) msg = Some (rc, a)" for rc a
  proof (cases "a_state (al_auth al) = NC_AUTH_STATE_PENDING")
    case False
    then show ?thesis using f wf by (auto simp: nc_auth_feed_def login_kept_def)
  next
    case pend: True
    have k: "login_kept (al_auth al) a" using postD [OF feed_frame [OF sv] f] by simp
    have "ok (nc_auth_feed (le_auth e) (al_auth al) msg) (\<lambda>(rc, a). server_wf a \<and> (a_state a = NC_AUTH_STATE_OK \<longrightarrow>
        key_credential (le_auth e) (al_auth al) msg \<or> password_credential (le_auth e) (al_auth al) msg \<or> interactive_done (le_auth e) (al_auth al) msg))"
      using feed_ok [OF wf(1) pend] .
    then show ?thesis using f k pend by (auto simp: ok_def credential_seen_def login_kept_def)
  qed
  then show ?thesis using assms by (auto simp: post_def intro!: auth_inv)
qed (use assms in \<open>auto intro!: postI auth_inv\<close>)

lemma deliver_inv:
  assumes "link_inv e al"
  shows "post (deliver e al msg) (link_inv e)"
proof -
  have sent: "post (auth_sent e al a) (\<lambda>al. link_inv e (settle_auth al))" if "link_inv e (al\<lparr>al_auth := a\<lparr>a_out := []\<rparr>\<rparr>)" for a
    unfolding auth_sent_def using send_auth_inv [OF that] by (rule post_mono) (rule settle_auth_inv)
  have "post (nc_auth_feed (le_auth e) (al_auth al) (tl msg)) (\<lambda>(rc, a). post (auth_sent e al a) (\<lambda>al. link_inv e (settle_auth al)))"
    if "al_auth_started al"
    using feed_inv [OF assms that] by (rule post_mono) (auto intro: sent)
  then show ?thesis
    using assms settle_auth_inv event_inv [OF assms] by (auto simp: deliver_def)
qed

section \<open>The calls keep it\<close>

lemma advance_steps_inv:
  "link_inv e al \<Longrightarrow> link_inv e (advance_connect e al)" "link_inv e al \<Longrightarrow> link_inv e (advance_channel al)"
  by (auto simp: advance_connect_def advance_channel_def Let_def split: prod.splits)

lemma server_init_ok: "server_wf (nc_auth_server_buffer (nc_auth_server_init sid True) (Some buf))"
  by (simp add: server_wf_def nc_auth_server_buffer_def nc_auth_server_init_def auth_zero_def NC_AUTH_MAX_USER_def NC_FORM_MAX_TOKEN_def)

lemma start_inv:
  assumes inv: "link_inv e al" and sid: "nc_crypto_session_id (al_crypto al) = Some sid" and new: "\<not> al_auth_started al"
  shows "al_server al \<Longrightarrow> link_inv e (al\<lparr>al_auth := nc_auth_server_buffer (nc_auth_server_init sid True) (Some buf), al_auth_started := True\<rparr>)"
    "\<not> al_server al \<Longrightarrow> link_inv e (al\<lparr>al_auth := a, al_auth_started := True\<rparr>)"
proof -
  have k: "have_key (al_crypto al)" "k_sid (al_crypto al) = sid"
    using sid by (auto simp: nc_crypto_session_id_def split: if_splits)
  let ?a = "nc_auth_server_buffer (nc_auth_server_init sid True) (Some buf)"
  have s: "a_sid ?a = sid" "a_state ?a = NC_AUTH_STATE_PENDING" "(NC_AUTH_STATE_PENDING :: auth_state) \<noteq> NC_AUTH_STATE_OK"
    by (simp_all add: nc_auth_server_buffer_def nc_auth_server_init_def)
  show "al_server al \<Longrightarrow> link_inv e (al\<lparr>al_auth := ?a, al_auth_started := True\<rparr>)"
    using inv k s new server_init_ok [of sid buf] by (auto simp: link_inv_def login_inv_def)
  show "\<not> al_server al \<Longrightarrow> link_inv e (al\<lparr>al_auth := a, al_auth_started := True\<rparr>)"
    using inv k by (simp add: link_inv_def)
qed

lemma advance_auth_inv:
  assumes "link_inv e al"
  shows "post (advance_auth e al) (link_inv e)"
proof -
  have sent: "post (auth_sent e (al\<lparr>al_auth := a, al_auth_started := True\<rparr>) b) (link_inv e)"
    if "nc_crypto_session_id (al_crypto al) = Some sid" "\<not> al_auth_started al" "\<not> al_server al" for sid a b
    unfolding auth_sent_def using start_inv(2) [OF assms that, of "b\<lparr>a_out := []\<rparr>"] that(3)
    by (intro send_auth_inv) (simp add: link_inv_def)
  show ?thesis
    using assms sent start_inv(1) [OF assms]
    by (auto simp: advance_auth_def Let_def intro!: postI split: option.split)
qed

lemma advance_inv: "link_inv e al \<Longrightarrow> post (advance e al) (link_inv e)"
  using advance_auth_inv [of e "advance_channel (advance_connect e al)"]
  by (auto simp: advance_def advance_steps_inv intro: fire_down_inv settle_auth_inv elim!: post_mono)

lemma poll_events_inv:
  assumes "link_inv e al"
  shows "post (poll_events al) (link_inv e)"
proof -
  have "link_inv e al \<longrightarrow> link_inv e al'" if "poll_events al = Some al'" for al'
  proof (rule poll_events.raw_induct [OF _ that, of "\<lambda>al al'. link_inv e al \<longrightarrow> link_inv e al'"], goal_cases)
    case (1 rec al al')
    show ?case
    proof
      assume inv: "link_inv e al"
      have r: "link_inv e y" if "rec x = Some y" "link_inv e x" for x y using 1(1) that by blast
      show "link_inv e al'"
      proof (cases "netchan_poll (al_conn al)")
        case None
        then show ?thesis using 1(2) inv by simp
      next
        case (Some p)
        then show ?thesis
          using 1(2) inv fire_down_inv [of e "al\<lparr>al_conn := snd p\<rparr>" AL_DOWN_PEER]
          by (cases p) (auto simp: Let_def intro: r split: if_splits)
      qed
    qed
  qed
  then show ?thesis using assms by (auto simp: post_def)
qed

lemma read_messages_inv:
  assumes "link_inv e al"
  shows "post (read_messages e al) (link_inv e)"
proof -
  have "link_inv e al \<longrightarrow> link_inv e al'" if "read_messages e al = Some al'" for al'
  proof (rule read_messages.raw_induct [OF _ that, of "\<lambda>e al al'. link_inv e al \<longrightarrow> link_inv e al'"], goal_cases)
    case (1 rec e al al')
    have r: "link_inv e y" if "rec e x = Some y" "link_inv e x" for x y using 1(1) that by blast
    have "link_inv e y" if "deliver e (al\<lparr>al_conn := c\<rparr>) m = Some x" "rec e x = Some y" "link_inv e al" for c m x y
      using r [OF that(2)] postD [OF deliver_inv that(1)] that(3) by simp
    then show ?case using 1(2) by (auto simp: bind_eq_Some_conv Let_def split: if_splits)
  qed
  then show ?thesis using assms by (auto simp: post_def)
qed

lemma pump_inv:
  assumes "link_inv e al"
  shows "post (pump_events e al) (link_inv e)"
  using poll_events_inv [OF assms] unfolding pump_events_def post_bind
  by (rule post_mono) (simp add: read_messages_inv)

lemma crypto_open_inv:
  assumes "link_inv e al"
  shows "post (nc_crypto_open (le_lib e) (al_crypto al) buf cap) (\<lambda>(pn, plain, k). link_inv e (al\<lparr>al_crypto := k\<rparr>))"
proof -
  have "link_inv e (al\<lparr>al_crypto := k\<rparr>)" if o: "nc_crypto_open (le_lib e) (al_crypto al) buf cap = Some (pn, plain, k)" for pn plain k
  proof -
    have pub: "hello_pkt k = hello_pkt (al_crypto al)" using postD [OF open_public o] by (simp add: hello_pkt_def)
    have "have_key (al_crypto al) \<longrightarrow> have_key k \<and> tx_key k = tx_key (al_crypto al) \<and> k_sid k = k_sid (al_crypto al)
        \<and> tx_counter k = tx_counter (al_crypto al)"
      using postD [OF open_keys o] by simp
    then show ?thesis using assms sent_open [OF _ pub] by (intro crypto_inv) (auto simp: link_inv_def)
  qed
  then show ?thesis by (auto simp: post_def)
qed

lemma opened_inv:
  assumes "link_inv e al"
  shows "post (on_opened e al src t pn plain) (\<lambda>(more, al). link_inv e al)"
proof -
  have feed: "post (link_feed e al p src) (\<lambda>al'. (b \<longrightarrow> link_inv e al') \<and> (c \<longrightarrow> link_inv e al'))"
    if "link_inv e al" for al p src b c
    using that by (auto simp: link_feed_def intro!: postI)
  have "post (if t = NC_CRYPTO_HELLO \<and> al_server al then send_hello al else Some al) (link_inv e)"
    using assms hello_inv by simp
  then show ?thesis
    using assms unfolding on_opened_def by (auto simp: feed elim!: post_mono)
qed

lemma datagram_inv:
  assumes "link_inv e al"
  shows "post (on_datagram e al buf ss slen) (\<lambda>(more, al). link_inv e al)"
proof -
  have opened: "post (nc_crypto_open (le_lib e) (al_crypto al) buf 2048)
      (\<lambda>(pn, plain, k). post (on_opened e (al\<lparr>al_crypto := k\<rparr>) src t pn plain) (\<lambda>(more, al). link_inv e al))"
    if "link_inv e al" for al src t
    using crypto_open_inv [OF that] by (rule post_mono) (auto intro: opened_inv)
  have step: "post (do {
       t \<leftarrow> rd8 buf 0;
       (pn, plain, k) \<leftarrow> nc_crypto_open (le_lib e) (al_crypto al) buf 2048;
       on_opened e (al\<lparr>al_crypto := k\<rparr>) src t pn plain }) (\<lambda>(more, al). link_inv e al)" if "link_inv e al" for al src
    using opened [OF that] unfolding post_bind post_case by (blast intro: postI)
  have "link_inv e (if al_server al \<and> \<not> al_have_peer al then al\<lparr>al_peer := src, al_have_peer := True\<rparr> else al)" for src
    using assms by simp
  note peer = step [OF this]
  show ?thesis
    unfolding on_datagram_def Let_def post_bind [of "nc_udp_from_sockaddr _ _"]
    by (rule postI) (use assms peer in \<open>simp only: post_case post_simps split: prod.split\<close>, simp)
qed

lemma recv_loop_inv: "link_inv e al \<Longrightarrow> post (recv_loop e ds al) (link_inv e)"
proof (induction ds arbitrary: al)
  case (Cons d ds)
  obtain b ss slen where d: "d = (b, ss, slen)" by (cases d)
  show ?case
    using datagram_inv [OF Cons.prems, of "take 2048 b" ss slen] Cons unfolding d by (auto elim!: post_mono)
qed simp

lemma settle_link_inv:
  assumes "link_inv e al"
  shows "post (do { al \<leftarrow> pump_events e al; al \<leftarrow> advance e al; flush_out e al }) (link_inv e)"
proof -
  have "post (advance e al) (\<lambda>al. post (flush_out e al) (link_inv e))" if "link_inv e al" for al
    using advance_inv [OF that] by (rule post_mono) (rule flush_out_inv)
  then show ?thesis using pump_inv [OF assms] by (auto elim!: post_mono)
qed

lemma on_readable_inv:
  assumes "link_inv e al"
  shows "post (on_readable e ds al) (link_inv e)"
  using recv_loop_inv [OF assms] unfolding on_readable_def post_bind [of "recv_loop _ _ _"]
  by (rule post_mono) (rule settle_link_inv)

lemma on_tick_inv:
  assumes "link_inv e al"
  shows "post (on_tick e al) (link_inv e)"
proof -
  have settle: "post (pump_events e al) (\<lambda>al. post (advance e al) (\<lambda>al. post (flush_out e al) (link_inv e)))" if "link_inv e al" for al
    using settle_link_inv [OF that] by simp
  have serve: "post (link_service e al) (\<lambda>al. post (pump_events e al) (\<lambda>al. post (advance e al) (\<lambda>al. post (flush_out e al) (link_inv e))))"
    if "link_inv e al" for al
    using service_inv [OF that] by (rule post_mono) (rule settle)
  have "post (if \<not> al_server al \<and> \<not> have_key (al_crypto al) then send_hello al else Some al) (link_inv e)"
    using assms hello_inv by simp
  then show ?thesis using assms serve by (auto simp: on_tick_def elim!: post_mono)
qed

lemma start_link_inv: "link_inv e (link_start cfg k)"
  by (simp add: link_inv_def link_start_def wire_ok_def gated_def login_inv_def)

lemma open_inv: "post (auth_link_open e rnd fdok cfg) (\<lambda>r. case r of None \<Rightarrow> True | Some al \<Rightarrow> link_inv e al)"
  using on_tick_inv [OF start_link_inv] by (auto simp: auth_link_open_def intro!: postI elim!: post_mono)

lemma supply_inv:
  assumes "link_inv e al"
  shows "post (link_supply e al f) (link_inv e)"
proof -
  have "post (auth_sent e al a) (\<lambda>al. post (flush_out e (settle_auth (al\<lparr>al_need_fired := NC_AUTH_NEED_NOTHING\<rparr>))) (link_inv e))"
    if "\<not> al_server al" for a
    unfolding auth_sent_def
    by (rule post_mono [OF send_auth_inv [OF auth_inv [OF assms]]])
       (use that in \<open>auto intro!: flush_out_inv settle_auth_inv\<close>)
  then show ?thesis using assms by (auto simp: link_supply_def intro!: postI)
qed

lemma registered_inv:
  assumes "link_inv e al"
  shows "link_inv e (snd (auth_link_registered al))"
proof -
  have "credential_seen (le_auth e) (a\<lparr>a_registered := b\<rparr>) = credential_seen (le_auth e) a" "nc_auth_user (a\<lparr>a_registered := b\<rparr>) = nc_auth_user a"
    "server_wf (a\<lparr>a_registered := b\<rparr>) = server_wf a" for a b
    by (simp_all add: credential_seen_def nc_auth_user_def server_wf_def)
  then show ?thesis
    using assms by (auto simp: auth_link_registered_def nc_auth_registered_def link_inv_def login_inv_def)
qed

lemma close_inv:
  assumes "link_inv e al"
  shows "post (auth_link_close e al) (\<lambda>al. wire_ok (le_lib e) (al_crypto al) (map fst (al_sent al)) \<and> gated (al_events al))"
proof -
  let ?al = "al\<lparr>al_closing := True, al_timer := False\<rparr>"
  have "post (if have_key (al_crypto ?al) then flush_out e (?al\<lparr>al_conn := netchan_disconnect (al_conn ?al)\<rparr>) else Some ?al) (link_inv e)"
    using assms flush_out_inv [of e "?al\<lparr>al_conn := netchan_disconnect (al_conn ?al)\<rparr>"] by simp
  then show ?thesis
    unfolding auth_link_close_def Let_def post_bind
    by (rule post_mono) (auto simp: link_inv_def intro!: postI)
qed

section \<open>Reachable links\<close>

text \<open>What the owner of a link and the event loop can call, and the states that follow.\<close>

datatype link_call =
    Call_Readable "(bytes \<times> sockaddr \<times> nat) list"
  | Call_Tick
  | Call_Supply_Key "bytes option" "bytes option"
  | Call_Supply_Password "bytes option"
  | Call_Supply_Method u32
  | Call_Submit "nc_form_value list option"
  | Call_Cancel
  | Call_Registered
  | Call_Send bytes

fun exec_link :: "link_env \<Rightarrow> link_call \<Rightarrow> auth_link \<Rightarrow> auth_link option" where
  "exec_link e (Call_Readable ds) al = on_readable e ds al"
| "exec_link e Call_Tick al = on_tick e al"
| "exec_link e (Call_Supply_Key sk pk) al = auth_link_supply_key e al sk pk"
| "exec_link e (Call_Supply_Password p) al = auth_link_supply_password e al p"
| "exec_link e (Call_Supply_Method m) al = auth_link_supply_method e al m"
| "exec_link e (Call_Submit vs) al = auth_link_submit e al vs"
| "exec_link e Call_Cancel al = auth_link_cancel e al"
| "exec_link e Call_Registered al = Some (snd (auth_link_registered al))"
| "exec_link e (Call_Send d) al = map_option snd (auth_link_send e al d)"

inductive link_reach :: "link_env \<Rightarrow> auth_link \<Rightarrow> bool" for e where
  opened: "auth_link_open e rnd fdok cfg = Some (Some al) \<Longrightarrow> link_reach e al"
| called: "link_reach e al \<Longrightarrow> exec_link e call al = Some al' \<Longrightarrow> link_reach e al'"

lemma send_inv: "link_inv e al \<Longrightarrow> post (auth_link_send e al d) (\<lambda>(rc, al). link_inv e al)"
  by (simp add: auth_link_send_def chan_send_inv)

lemma exec_inv:
  assumes "link_inv e al"
  shows "post (exec_link e call al) (link_inv e)"
proof -
  have "post (map_option snd (auth_link_send e al d)) (link_inv e)" for d
    using send_inv [OF assms, of d] by (auto simp: post_def)
  then show ?thesis
    using on_readable_inv [OF assms] on_tick_inv [OF assms] supply_inv [OF assms] registered_inv [OF assms]
    by (cases call) (simp_all add: auth_link_supply_key_def auth_link_supply_password_def auth_link_supply_method_def
        auth_link_submit_def auth_link_cancel_def)
qed

lemma reach_inv: "link_reach e al \<Longrightarrow> link_inv e al"
proof (induction rule: link_reach.induct)
  case (opened rnd fdok cfg al)
  then show ?case using postD [OF open_inv opened] by simp
qed (rule postD [OF exec_inv])

declare flush_out.simps [code] read_messages.simps [code] poll_events.simps [code]

definition demo_env :: link_env where
  "demo_env = \<lparr>le_nc = (\<lambda>n. \<lparr>env_now = (\<lambda>_. 0), env_entropy = (\<lambda>_. Some 9), env_here = 0\<rparr>), le_now = (\<lambda>_. 0), le_lib = demo_lib,
     le_auth = \<lparr>cb_methods = Some (\<lambda>_. NC_AUTH_M_PASSWORD), cb_check_key = None, cb_check_password = Some (\<lambda>u p. p = [80]), cb_begin = None,
       cb_submit = None, cb_resume = None, cb_cancelled = False, crypto_blake2b = (\<lambda>n m. []), crypto_eddsa_sign = (\<lambda>k m. []),
       crypto_eddsa_check = (\<lambda>s k m. True)\<rparr>\<rparr>"

definition demo_cfg :: "bool \<Rightarrow> auth_link_cfg" where
  "demo_cfg server = \<lparr>lc_server = server, lc_peer = map_option snd (nc_udp_from_sockaddr (Some (Sockaddr_in [0, 2] [127, 0, 0, 1])) 16),
     lc_static_sk = None, lc_psk = None, lc_require_peer_static = False, lc_verify_peer = None, lc_user = Some [65, 66]\<rparr>"

text \<open>
  C10: Nothing leaves a link in the clear and no application data passes before the login.  In every
  state that calls, ticks and datagrams of any contents lead to, the datagrams sent so far are
  greetings, which are exactly the public keys, and packets of netchan sealed under the
  sending key, each with a larger counter than the one before, so that no nonce is used
  twice; the session has keys before the login starts; and every delivery of data to the application comes after
  the callback that says the link is up.  Closing the link keeps this of what it sends.
\<close>

theorem link_gate:
  assumes "link_reach e al"
  shows "wire_ok (le_lib e) (al_crypto al) (map fst (al_sent al)) \<and> gated (al_events al)
    \<and> (al_up al \<longleftrightarrow> On_Up \<in> set (al_events al)) \<and> (al_auth_started al \<longrightarrow> have_key (al_crypto al))
    \<and> post (auth_link_close e al) (\<lambda>al. wire_ok (le_lib e) (al_crypto al) (map fst (al_sent al)))"
  using reach_inv [OF assms] close_inv [OF reach_inv [OF assms]]
  by (auto simp: link_inv_def elim: post_mono)

lemma demo_opens:
  "map_option (map_option (\<lambda>al. (al_sent al, al_server al))) (auth_link_open demo_env (0, replicate 32 2) True (demo_cfg False))
     = Some (Some ([(1 # replicate 32 2 @ replicate 32 0, Sockaddr_in [0, 2] [127, 0, 0, 1])], False))"
  "map_option (map_option (\<lambda>al. (al_sent al, al_server al))) (auth_link_open demo_env (0, replicate 32 1) True (demo_cfg True))
     = Some (Some ([], True))"
  by code_simp+

theorem link_gate_witness:
  "\<exists>al. link_reach demo_env al \<and> map fst (al_sent al) = [1 # replicate 32 2 @ replicate 32 0]
     \<and> wire_ok demo_lib (al_crypto al) (map fst (al_sent al)) \<and> gated (al_events al)"
proof -
  obtain al where al: "auth_link_open demo_env (0, replicate 32 2) True (demo_cfg False) = Some (Some al)"
      "map fst (al_sent al) = [1 # replicate 32 2 @ replicate 32 0]"
    using demo_opens(1) by auto
  have r: "link_reach demo_env al" using al(1) by (rule opened)
  then show ?thesis using link_gate [OF r] al(2) by (auto simp: demo_env_def)
qed



end
