(* ===== verification/Thor_Rng.thy ===== *)
theory Thor_Rng
  imports Prelude
begin

text \<open>
  The random number generator of the example game (\<open>src/microchan/examples/thor/rng.c\<close>): an 8-bit generator with
  four bytes of state, and numbers below a bound by rejection.  The loop that draws until a byte is rng_accepts
  may not end, so it is a partial function.
\<close>

record rng =
  rng_x :: u8
  rng_a :: u8
  rng_b :: u8
  rng_c :: u8

text \<open>The state after a call; the byte returned is \<open>rng_c\<close> of it.\<close>

definition rng_next :: "rng \<Rightarrow> rng" where
  "rng_next g =
     (let x = rng_x g + 1; a = (rng_a g XOR rng_c g) XOR x; b = rng_b g + a;
          c = (rng_c g + (drop_bit 1 b OR push_bit 7 b)) XOR a
      in \<lparr>rng_x = x, rng_a = a, rng_b = b, rng_c = c\<rparr>)"

definition rng_seed :: "u8 \<Rightarrow> u8 \<Rightarrow> u8 \<Rightarrow> rng \<Rightarrow> rng" where
  "rng_seed s1 s2 s3 g = rng_next (g\<lparr>rng_a := rng_a g XOR s1, rng_b := rng_b g XOR s2, rng_c := rng_c g XOR s3\<rparr>)"

partial_function (option) draw8 :: "u32 \<Rightarrow> rng \<Rightarrow> (u32 \<times> rng) option" where
  "draw8 lim g =
     (let g = rng_next g; r = ucast (rng_c g) in
      if lim \<le> r then draw8 lim g else Some (r, g))"

partial_function (option) draw16 :: "u64 \<Rightarrow> rng \<Rightarrow> (u64 \<times> rng) option" where
  "draw16 lim g =
     (let g1 = rng_next g; hi = ucast (rng_c g1); g2 = rng_next g1; lo = ucast (rng_c g2); big = push_bit 8 hi OR lo in
      if lim \<le> big then draw16 lim g2 else Some (big, g2))"

definition rng_range :: "u32 \<Rightarrow> rng \<Rightarrow> (u32 \<times> rng) option" where
  "rng_range n g =
     (if n \<le> 1 then Some (0, g)
      else if n \<le> 256 then do { (r, g) \<leftarrow> draw8 (256 - 256 mod n) g; Some (r mod n, g) }
      else do { (big, g) \<leftarrow> draw16 (65536 - 65536 mod ucast n) g; Some (ucast (big mod ucast n), g) })"

section \<open>What is drawn\<close>

text \<open>The \<open>k\<close>th byte from a state.\<close>

definition rng_byte :: "rng \<Rightarrow> nat \<Rightarrow> nat" where
  "rng_byte g k = unat (rng_c ((rng_next ^^ Suc k) g))"

lemma rng_byte_0: "rng_byte g 0 = unat (rng_c (rng_next g))"
  by (simp add: rng_byte_def)

lemma rng_byte_Suc: "rng_byte g (Suc k) = rng_byte (rng_next g) k"
  by (simp add: rng_byte_def funpow_swap1)

lemma unat_byte: "unat (ucast (b :: u8) :: u32) = unat b" "unat (ucast (b :: u8) :: u64) = unat b"
  by (simp_all add: unsigned_ucast_eq take_bit_nat_eq_self_iff) (use unsigned_less [of b, where 'a = nat] in simp_all)

lemma draw8_step:
  "draw8 lim g = (if unat lim \<le> rng_byte g 0 then draw8 lim (rng_next g) else Some (ucast (rng_c (rng_next g)), rng_next g))"
  by (subst draw8.simps) (simp add: Let_def rng_byte_0 word_le_nat_alt unat_byte)

text \<open>The first accepted byte is returned.\<close>

lemma draw8_first:
  assumes "rng_byte g k < unat lim" "\<forall>j<k. unat lim \<le> rng_byte g j"
  shows "draw8 lim g = Some (of_nat (rng_byte g k), (rng_next ^^ Suc k) g)"
  using assms
proof (induction k arbitrary: g)
  case 0
  then show ?case by (subst draw8_step) (simp add: rng_byte_0)
next
  case (Suc k)
  have "unat lim \<le> rng_byte g 0" using Suc.prems(2) by simp
  then have "draw8 lim g = draw8 lim (rng_next g)" by (subst draw8_step) simp
  also have "\<dots> = Some (of_nat (rng_byte (rng_next g) k), (rng_next ^^ Suc k) (rng_next g))"
    using Suc.prems by (intro Suc.IH) (auto simp: rng_byte_Suc [symmetric])
  finally show ?case by (simp add: rng_byte_Suc funpow_swap1)
qed

lemma draw8_returns:
  assumes "draw8 lim g = Some (r, g')"
  shows "\<exists>k. rng_byte g k < unat lim \<and> (\<forall>j<k. unat lim \<le> rng_byte g j) \<and> r = of_nat (rng_byte g k) \<and> g' = (rng_next ^^ Suc k) g"
proof -
  have "\<exists>k. rng_byte g k < unat lim"
  proof (rule draw8.raw_induct [OF _ assms, of "\<lambda>l g x. \<exists>k. rng_byte g k < unat l"], goal_cases)
    case (1 f l g x)
    show ?case
    proof (cases "unat l \<le> rng_byte g 0")
      case True
      then have "f l (rng_next g) = Some x" using 1(2) by (simp add: Let_def rng_byte_0 word_le_nat_alt unat_byte)
      from 1(1) [OF this] show ?thesis by (auto simp: rng_byte_Suc [symmetric])
    qed (use not_less in blast)
  qed
  then obtain k where "rng_byte g k < unat lim" "\<forall>j<k. unat lim \<le> rng_byte g j"
    using exists_least_iff [of "\<lambda>k. rng_byte g k < unat lim"] by (auto simp: not_less)
  with draw8_first [OF this] assms show ?thesis by auto
qed

lemma draw16_never: "draw16 0 g = None"
proof (rule ccontr)
  assume "draw16 0 g \<noteq> None"
  then obtain x where x: "draw16 0 g = Some x" by blast
  show False
    by (rule draw16.raw_induct [OF _ x, of "\<lambda>l g x. l \<noteq> 0", simplified]) (auto simp: Let_def split: if_splits)
qed

text \<open>Bounds of a byte: what the result is, which states follow.\<close>

definition rng_accepts :: "u32 \<Rightarrow> nat \<Rightarrow> bool" where
  "rng_accepts n b \<longleftrightarrow> b < 256 - 256 mod unat n"

lemma limit8:
  assumes "1 < n" "n \<le> (256 :: u32)"
  shows "unat (256 - 256 mod n) = 256 - 256 mod unat n"
proof -
  have "unat (256 mod n) = 256 mod unat n" by (simp add: unat_mod_distrib)
  moreover have "256 mod n \<le> 256" by (simp add: word_le_nat_alt unat_mod_distrib)
  ultimately show ?thesis by (simp add: unat_sub)
qed

lemma rng_range_first:
  assumes n: "1 < n" "n \<le> 256" and k: "rng_accepts n (rng_byte g k)" "\<forall>j<k. \<not> rng_accepts n (rng_byte g j)"
  shows "rng_range n g = Some (of_nat (rng_byte g k mod unat n), (rng_next ^^ Suc k) g)"
proof -
  have "draw8 (256 - 256 mod n) g = Some (of_nat (rng_byte g k), (rng_next ^^ Suc k) g)"
    using k by (intro draw8_first) (simp_all add: rng_accepts_def limit8 [OF n] not_less)
  moreover have "rng_byte g k < 256" unfolding rng_byte_def using unsigned_less [of "rng_c ((rng_next ^^ Suc k) g)", where 'a = nat] by simp
  then have "unat (of_nat (rng_byte g k) :: u32) = rng_byte g k" by (simp add: unat_of_nat take_bit_nat_eq_self)
  then have "(of_nat (rng_byte g k) :: u32) mod n = of_nat (rng_byte g k mod unat n)"
    using word_arith_nat_mod [of "of_nat (rng_byte g k)" n] by simp
  moreover have "\<not> n \<le> 1" using n(1) by simp
  ultimately show ?thesis using n(2) by (simp add: rng_range_def)
qed

lemma rng_range_returns:
  assumes n: "1 < n" "n \<le> 256" and r: "rng_range n g = Some (r, g')"
  shows "\<exists>k. rng_accepts n (rng_byte g k) \<and> (\<forall>j<k. \<not> rng_accepts n (rng_byte g j)) \<and> r = of_nat (rng_byte g k mod unat n) \<and> g' = (rng_next ^^ Suc k) g"
proof -
  have "\<not> n \<le> 1" using n(1) by simp
  then obtain q where "draw8 (256 - 256 mod n) g = Some (q, g')" using r n(2) by (auto simp: rng_range_def Option.bind_eq_Some_conv)
  from draw8_returns [OF this] obtain k where k: "rng_accepts n (rng_byte g k)" "\<forall>j<k. \<not> rng_accepts n (rng_byte g j)"
    by (auto simp: rng_accepts_def limit8 [OF n] not_less)
  with rng_range_first [OF n k] r show ?thesis by auto
qed

lemma rng_range_less:
  assumes n: "1 < n" "n \<le> 256" and r: "rng_range n g = Some (r, g')"
  shows "r < n" "\<exists>k. g' = (rng_next ^^ k) g"
proof -
  obtain k where k: "r = of_nat (rng_byte g k mod unat n)" "g' = (rng_next ^^ Suc k) g" using rng_range_returns [OF assms] by blast
  have "rng_byte g k mod unat n < unat n" using n(1) by (intro mod_less_divisor) (simp add: word_less_nat_alt)
  moreover have "unat n < 2 ^ 32" using unsigned_less [of n, where 'a = nat] by simp
  ultimately show "r < n" by (simp add: k(1) word_less_nat_alt unat_of_nat take_bit_nat_eq_self)
  show "\<exists>k. g' = (rng_next ^^ k) g" using k(2) by blast
qed

text \<open>Every residue has the same number of accepted bytes.\<close>

lemma residue_card:
  assumes "v < n"
  shows "card {b. b < n * q \<and> b mod n = v} = (q :: nat)"
proof -
  have "{b. b < n * q \<and> b mod n = v} = (\<lambda>i. v + n * i) ` {..<q}"
  proof safe
    fix b assume b: "b < n * q" "v = b mod n"
    then have "b div n < q" using assms by (simp add: less_mult_imp_div_less mult.commute)
    then show "b \<in> (\<lambda>i. b mod n + n * i) ` {..<q}" by (intro image_eqI [of _ _ "b div n"]) simp_all
  next
    fix i assume "i < q"
    then have "n * Suc i \<le> n * q" by (intro mult_le_mono2) simp
    then show "v + n * i < n * q" using assms by simp
  qed (use assms in simp)
  moreover have "inj_on (\<lambda>i. v + n * i) {..<q}" using assms by (auto simp: inj_on_def)
  ultimately show ?thesis by (simp add: card_image)
qed

text \<open>
  A number below \<open>n\<close> (from 2 to 256) is the first byte of the generator below the largest multiple of \<open>n\<close>,
  reduced modulo \<open>n\<close>, and the call returns exactly when there is such a byte; every value below \<open>n\<close>
  comes from the same number of bytes, so the draw has no modulo bias.
\<close>

theorem rng_range_fair:
  assumes "1 < n" "n \<le> 256"
  shows "(rng_range n g = Some (r, g') \<longleftrightarrow>
      (\<exists>k. rng_accepts n (rng_byte g k) \<and> (\<forall>j<k. \<not> rng_accepts n (rng_byte g j)) \<and> r = of_nat (rng_byte g k mod unat n) \<and> g' = (rng_next ^^ Suc k) g)) \<and>
    (\<forall>v<unat n. card {b. rng_accepts n b \<and> b mod unat n = v} = 256 div unat n)"
proof (intro conjI allI impI)
  show "rng_range n g = Some (r, g') \<longleftrightarrow>
      (\<exists>k. rng_accepts n (rng_byte g k) \<and> (\<forall>j<k. \<not> rng_accepts n (rng_byte g j)) \<and> r = of_nat (rng_byte g k mod unat n) \<and> g' = (rng_next ^^ Suc k) g)"
    using rng_range_returns [OF assms, of g r g'] by (auto simp: rng_range_first [OF assms])
  have "256 - 256 mod unat n = unat n * (256 div unat n)" by (metis minus_mod_eq_mult_div)
  then show "card {b. rng_accepts n b \<and> b mod unat n = v} = 256 div unat n" if "v < unat n" for v
    using residue_card [OF that, of "256 div unat n"] by (simp add: rng_accepts_def)
qed

theorem rng_range_fair_witness:
  "card {b. rng_accepts 100 b \<and> b mod 100 = 7} = 2"
  using conjunct2 [OF rng_range_fair [of 100]] by simp

text \<open>A bound over 65536 is never satisfied.\<close>

lemma rng_range_stuck:
  assumes "65536 < n"
  shows "rng_range n g = None"
proof -
  have "\<not> n \<le> 1" "\<not> n \<le> 256" using assms by (auto simp: word_le_nat_alt word_less_nat_alt)
  moreover have "(65536 :: u64) mod ucast n = 65536"
    using assms unsigned_less [of n, where 'a = nat] by (intro mod_word_less) (simp add: word_less_nat_alt unsigned_ucast_eq take_bit_nat_eq_self)
  ultimately show ?thesis by (simp add: rng_range_def draw16_never)
qed

end
