(* ===== verification/Thor_World.thy ===== *)
theory Thor_World
  imports Thor_Rng
begin

text \<open>
  The example game (\<open>src/microchan/examples/thor/game.h\<close>, \<open>game.c\<close>): a cave of 96 by 64 tiles, four players, creatures and shots,
  advanced one tick at a time on the server.  The record \<open>world\<close> is the broadcast state, \<open>game\<close> adds the
  static variables of \<open>game.c\<close> and \<open>rng.c\<close>.  Array accesses are checked; an operation is undefined on
  an access outside an array, and does not return when the generator never gives an acceptable byte.
\<close>

section \<open>State\<close>

definition MAP_W :: int where "MAP_W = 96"
definition MAP_H :: int where "MAP_H = 64"
definition MAX_PLAYERS :: nat where "MAX_PLAYERS = 4"
definition MAX_CREATURES :: nat where "MAX_CREATURES = 24"
definition MAX_SHOTS :: nat where "MAX_SHOTS = 16"
definition SHOT_RANGE :: u8 where "SHOT_RANGE = 6"
definition PLAYER_HP :: u8 where "PLAYER_HP = 10"
definition T_WALL :: u8 where "T_WALL = 0"
definition T_FLOOR :: u8 where "T_FLOOR = 1"
definition T_EXIT :: u8 where "T_EXIT = 2"
definition T_TREASURE :: u8 where "T_TREASURE = 3"
definition IN_NONE :: u8 where "IN_NONE = 0xFF"
definition GAME_ERR :: int where "GAME_ERR = -1"
definition GAME_DIR_NONE :: int where "GAME_DIR_NONE = -1"
definition SHOT_SPEED :: nat where "SHOT_SPEED = 2"
definition FIRE_CD :: u8 where "FIRE_CD = 2"
definition RESPAWN_T :: u8 where "RESPAWN_T = 24"
definition CREATURE_DMG :: u8 where "CREATURE_DMG = 1"

definition IN_DIR :: "u8 \<Rightarrow> u8" where "IN_DIR b = b AND 0x0F"
definition IN_FIRE_DIR :: "u8 \<Rightarrow> u8" where "IN_FIRE_DIR b = drop_bit 4 b AND 0x0F"

definition game_dx :: "int list" where "game_dx = [0, 1, 1, 1, 0, -1, -1, -1]"
definition game_dy :: "int list" where "game_dy = [-1, -1, 0, 1, 1, 1, 0, -1]"

record player =
  pl_x :: u8
  pl_y :: u8
  pl_facing :: u8
  pl_alive :: u8
  pl_hp :: u8
  pl_input :: u8
  pl_score :: u16

record creature =
  cr_x :: u8
  cr_y :: u8
  cr_kind :: u8
  cr_alive :: u8

record shot =
  sh_x :: u8
  sh_y :: u8
  sh_dir :: u8
  sh_alive :: u8
  sh_owner :: u8
  sh_ttl :: u8

record world =
  tiles :: "u8 list"
  players :: "player list"
  creatures :: "creature list"
  shots :: "shot list"
  tick :: u16
  nplayers :: u8

record game = world +
  fire_cd :: "u8 list"
  respawn_t :: "u8 list"
  gen :: rng

definition world_zero :: world where
  "world_zero = \<lparr>tiles = replicate 6144 0,
     players = replicate MAX_PLAYERS \<lparr>pl_x = 0, pl_y = 0, pl_facing = 0, pl_alive = 0, pl_hp = 0, pl_input = 0, pl_score = 0\<rparr>,
     creatures = replicate MAX_CREATURES \<lparr>cr_x = 0, cr_y = 0, cr_kind = 0, cr_alive = 0\<rparr>,
     shots = replicate MAX_SHOTS \<lparr>sh_x = 0, sh_y = 0, sh_dir = 0, sh_alive = 0, sh_owner = 0, sh_ttl = 0\<rparr>, tick = 0, nplayers = 0\<rparr>"

text \<open>\<open>TILE(w, x, y)\<close>: the index is computed in \<open>unsigned\<close>.\<close>

definition tile_index :: "int \<Rightarrow> int \<Rightarrow> nat" where
  "tile_index x y = unat ((word_of_int y :: u32) * word_of_int MAP_W + word_of_int x)"

definition TILE :: "u8 list \<Rightarrow> int \<Rightarrow> int \<Rightarrow> u8 option" where
  "TILE ts x y = at_index ts (tile_index x y)"

definition put_tile :: "u8 list \<Rightarrow> int \<Rightarrow> int \<Rightarrow> u8 \<Rightarrow> u8 list option" where
  "put_tile ts x y v = put_index ts (tile_index x y) v"

text \<open>A \<open>for\<close> loop over a fixed range.\<close>

primrec for_each :: "('a \<Rightarrow> 's \<Rightarrow> 's option) \<Rightarrow> 'a list \<Rightarrow> 's \<Rightarrow> 's option" where
  "for_each f [] s = Some s"
| "for_each f (x # xs) s = do { s \<leftarrow> f x s; for_each f xs s }"

definition sgn_int :: "int \<Rightarrow> int" where
  "sgn_int v = (if v < 0 then -1 else if 0 < v then 1 else 0)"

definition vec_to_dir :: "int \<Rightarrow> int \<Rightarrow> int" where
  "vec_to_dir dx dy =
     (let dx = sgn_int dx; dy = sgn_int dy in
      case find (\<lambda>i. game_dx ! i = dx \<and> game_dy ! i = dy) [0..<8] of Some i \<Rightarrow> int i | None \<Rightarrow> GAME_DIR_NONE)"

definition is_floor :: "u8 list \<Rightarrow> int \<Rightarrow> int \<Rightarrow> bool option" where
  "is_floor ts x y =
     (if x < 0 \<or> y < 0 \<or> MAP_W \<le> x \<or> MAP_H \<le> y then Some False
      else do { t \<leftarrow> TILE ts x y; Some (t \<noteq> T_WALL) })"

section \<open>Map generation\<close>

text \<open>The nested loops over the map, row by row.\<close>

definition map_cells :: "(int \<times> int) list" where
  "map_cells = [(x, y). y \<leftarrow> [0..MAP_H - 1], x \<leftarrow> [0..MAP_W - 1]]"

definition inner_cells :: "(int \<times> int) list" where
  "inner_cells = [(x, y). y \<leftarrow> [1..MAP_H - 2], x \<leftarrow> [1..MAP_W - 2]]"

definition around :: "(int \<times> int) list" where
  "around = [(dx, dy). dy \<leftarrow> [-1..1], dx \<leftarrow> [-1..1]]"

definition wall_neighbor :: "u8 list \<Rightarrow> int \<Rightarrow> int \<Rightarrow> int \<times> int \<Rightarrow> int \<Rightarrow> int option" where
  "wall_neighbor ts x y d n =
     (let (dx, dy) = d in
      if dx = 0 \<and> dy = 0 then Some n
      else do { t \<leftarrow> TILE ts (x + dx) (y + dy); Some (if t = T_WALL then n + 1 else n) })"

definition wall_neighbors :: "u8 list \<Rightarrow> int \<Rightarrow> int \<Rightarrow> int option" where
  "wall_neighbors ts x y = for_each (wall_neighbor ts x y) around 0"

text \<open>One neighbour, in direction \<open>d\<close>, of a cell taken from the stack; a push past the end of \<open>stack\<close> is undefined.\<close>

definition push_dir :: "u8 list \<Rightarrow> int \<Rightarrow> int \<Rightarrow> nat \<Rightarrow> bool list \<times> u16 list \<Rightarrow> (bool list \<times> u16 list) option" where
  "push_dir ts cx cy d st =
     (let (seen, stk) = st; nx = cx + game_dx ! d; ny = cy + game_dy ! d; ni = ny * MAP_W + nx in
      if nx < 1 \<or> ny < 1 \<or> MAP_W - 1 \<le> nx \<or> MAP_H - 1 \<le> ny then Some st
      else do {
        t \<leftarrow> TILE ts nx ny;
        if t = T_WALL then Some st
        else do {
          s \<leftarrow> at_index seen (nat ni);
          if s then Some st
          else do {
            seen \<leftarrow> put_index seen (nat ni) True;
            if length stk < 6144 then Some (seen, word_of_int ni # stk) else None } } })"

definition unseen :: "bool list \<Rightarrow> nat" where
  "unseen seen = length (filter Not seen)"

lemma unseen_put: "i < length seen \<Longrightarrow> \<not> seen ! i \<Longrightarrow> unseen seen = Suc (unseen (seen[i := True]))"
  by (induction seen arbitrary: i) (auto simp: unseen_def less_Suc_eq_0_disj split: nat.splits)

lemma push_dir_cases:
  assumes "push_dir ts cx cy d (seen, stk) = Some st"
  defines "nx \<equiv> cx + game_dx ! d" and "ny \<equiv> cy + game_dy ! d"
  obtains (skip) "st = (seen, stk)"
  | (push) "1 \<le> nx" "1 \<le> ny" "nx < MAP_W - 1" "ny < MAP_H - 1" "\<exists>t. TILE ts nx ny = Some t \<and> t \<noteq> T_WALL"
      "nat (ny * MAP_W + nx) < length seen" "\<not> seen ! nat (ny * MAP_W + nx)"
      "st = (seen[nat (ny * MAP_W + nx) := True], word_of_int (ny * MAP_W + nx) # stk)"
proof (cases "nx < 1 \<or> ny < 1 \<or> MAP_W - 1 \<le> nx \<or> MAP_H - 1 \<le> ny")
  case True
  then show ?thesis using skip assms(1) by (simp add: push_dir_def nx_def ny_def)
next
  case False
  note e = assms(1) [unfolded push_dir_def Let_def split_conv nx_def [symmetric] ny_def [symmetric] if_not_P [OF False]]
  then obtain t where t: "TILE ts nx ny = Some t" by (cases "TILE ts nx ny") auto
  show ?thesis
  proof (cases "t = T_WALL")
    case True
    then show ?thesis using skip e t by simp
  next
    case wall: False
    note e = e [unfolded t bind.bind_lunit if_not_P [OF wall]]
    then obtain q where q: "at_index seen (nat (ny * MAP_W + nx)) = Some q" by (cases "at_index seen (nat (ny * MAP_W + nx))") auto
    then have len: "nat (ny * MAP_W + nx) < length seen" "q = seen ! nat (ny * MAP_W + nx)" by (auto simp: at_index_def split: if_splits)
    show ?thesis
    proof (cases q)
      case True
      then show ?thesis using skip e q by simp
    next
      case False
      then show ?thesis using push e q t wall len \<open>\<not> (nx < 1 \<or> ny < 1 \<or> MAP_W - 1 \<le> nx \<or> MAP_H - 1 \<le> ny)\<close>
        by (simp add: put_index_def split: if_splits)
    qed
  qed
qed

lemma push_dir_measure:
  assumes "push_dir ts cx cy d (seen, stk) = Some (seen', stk')"
  shows "2 * unseen seen' + length stk' \<le> 2 * unseen seen + length stk"
  using assms by (cases rule: push_dir_cases) (simp_all add: unseen_put)

lemma push_dirs_measure:
  "for_each (push_dir ts cx cy) ds (seen, stk) = Some (seen', stk') \<Longrightarrow> 2 * unseen seen' + length stk' \<le> 2 * unseen seen + length stk"
proof (induction ds arbitrary: seen stk)
  case (Cons d ds)
  then obtain seen1 stk1 where "push_dir ts cx cy d (seen, stk) = Some (seen1, stk1)" "for_each (push_dir ts cx cy) ds (seen1, stk1) = Some (seen', stk')"
    by (auto simp: Option.bind_eq_Some_conv)
  then show ?case using Cons.IH push_dir_measure order_trans by blast
qed simp

text \<open>The flood fill from the cells on the stack, to the neighbours in the directions 0, 2, 4 and 6; the first result is the
  number of cells taken from the stack.\<close>

function flood :: "u8 list \<Rightarrow> bool list \<Rightarrow> u16 list \<Rightarrow> int \<Rightarrow> (int \<times> bool list) option" where
  "flood ts seen [] n = Some (n, seen)"
| "flood ts seen (cur # stk) n = do {
     (seen, stk) \<leftarrow> for_each (push_dir ts (uint cur mod MAP_W) (uint cur div MAP_W)) [0, 2, 4, 6] (seen, stk);
     flood ts seen stk (n + 1) }"
  by pat_completeness auto
termination
  by (relation "measure (\<lambda>(ts, seen, stk, n). 2 * unseen seen + length stk)") (simp_all add: push_dirs_measure del: for_each.simps, metis less_Suc_eq_le push_dirs_measure)

definition flood_from :: "u8 list \<Rightarrow> bool list \<Rightarrow> int \<Rightarrow> (int \<times> bool list) option" where
  "flood_from ts seen start = do {
     seen \<leftarrow> put_index seen (nat start) True;
     flood ts seen [word_of_int start] 0 }"

text \<open>The first loop looks for the largest region.\<close>

definition scan_cell :: "u8 list \<Rightarrow> int \<times> int \<Rightarrow> bool list \<times> int \<times> int \<Rightarrow> (bool list \<times> int \<times> int) option" where
  "scan_cell ts c st =
     (let (x, y) = c; (seen, best_start, best_size) = st; start = y * MAP_W + x in do {
        t \<leftarrow> TILE ts x y;
        if t = T_WALL then Some st
        else do {
          s \<leftarrow> at_index seen (nat start);
          if s then Some st
          else do {
            (size, seen) \<leftarrow> flood_from ts seen start;
            Some (if best_size < size then (seen, start, size) else (seen, best_start, best_size)) } } })"

definition wall_off :: "bool list \<Rightarrow> int \<times> int \<Rightarrow> u8 list \<Rightarrow> u8 list option" where
  "wall_off seen c ts =
     (let (x, y) = c in do {
        t \<leftarrow> TILE ts x y;
        if t = T_WALL then Some ts
        else do {
          s \<leftarrow> at_index seen (nat (y * MAP_W + x));
          if s then Some ts else put_tile ts x y T_WALL } })"

definition keep_largest_region :: "u8 list \<Rightarrow> u8 list option" where
  "keep_largest_region ts = do {
     (_, best_start, _) \<leftarrow> for_each (scan_cell ts) inner_cells (replicate 6144 False, -1, 0);
     (_, seen) \<leftarrow> (if 0 \<le> best_start then flood_from ts (replicate 6144 False) best_start else Some (0, replicate 6144 False));
     for_each (wall_off seen) map_cells ts }"

definition fill_cell :: "int \<times> int \<Rightarrow> u8 list \<times> rng \<Rightarrow> (u8 list \<times> rng) option" where
  "fill_cell c st =
     (let (x, y) = c; (ts, g) = st in
      if x = 0 \<or> y = 0 \<or> x = MAP_W - 1 \<or> y = MAP_H - 1 then do { ts \<leftarrow> put_tile ts x y T_WALL; Some (ts, g) }
      else do {
        (r, g) \<leftarrow> rng_range 100 g;
        ts \<leftarrow> put_tile ts x y (if r < 45 then T_WALL else T_FLOOR);
        Some (ts, g) })"

definition smooth_cell :: "u8 list \<Rightarrow> int \<times> int \<Rightarrow> u8 list \<Rightarrow> u8 list option" where
  "smooth_cell ts c nxt =
     (let (x, y) = c in do {
        n \<leftarrow> wall_neighbors ts x y;
        put_index nxt (nat (y * MAP_W + x)) (if 5 \<le> n then T_WALL else T_FLOOR) })"

definition copy_cell :: "u8 list \<Rightarrow> int \<times> int \<Rightarrow> u8 list \<Rightarrow> u8 list option" where
  "copy_cell nxt c ts =
     (let (x, y) = c in do { v \<leftarrow> at_index nxt (nat (y * MAP_W + x)); put_tile ts x y v })"

definition smooth_pass :: "nat \<Rightarrow> u8 list \<Rightarrow> u8 list option" where
  "smooth_pass pass ts = do {
     nxt \<leftarrow> for_each (smooth_cell ts) inner_cells (replicate 6144 0);
     for_each (copy_cell nxt) inner_cells ts }"

definition gen_map :: "u8 list \<Rightarrow> rng \<Rightarrow> (u8 list \<times> rng) option" where
  "gen_map ts g = do {
     (ts, g) \<leftarrow> for_each fill_cell map_cells (ts, g);
     ts \<leftarrow> for_each smooth_pass [0..<4] ts;
     ts \<leftarrow> keep_largest_region ts;
     Some (ts, g) }"

text \<open>The first component is the position found.\<close>

fun random_floor :: "nat \<Rightarrow> u8 list \<Rightarrow> rng \<Rightarrow> ((u8 \<times> u8) option \<times> rng) option" where
  "random_floor 0 ts g = Some (None, g)"
| "random_floor (Suc tries) ts g = do {
     (rx, g) \<leftarrow> rng_range (word_of_int (MAP_W - 2)) g;
     (ry, g) \<leftarrow> rng_range (word_of_int (MAP_H - 2)) g;
     let x = 1 + uint rx; let y = 1 + uint ry;
     t \<leftarrow> TILE ts x y;
     if t = T_FLOOR then Some (Some (word_of_int x, word_of_int y), g) else random_floor tries ts g }"

section \<open>Setup\<close>

definition spawn_creature :: "nat \<Rightarrow> game \<Rightarrow> game option" where
  "spawn_creature i w = do {
     c \<leftarrow> at_index (creatures w) i;
     (pos, g) \<leftarrow> random_floor 4000 (tiles w) (gen w);
     let w = w\<lparr>gen := g\<rparr>;
     (case pos of
        None \<Rightarrow> Some w
      | Some (x, y) \<Rightarrow> do {
          cs \<leftarrow> put_index (creatures w) i \<lparr>cr_x = x, cr_y = y, cr_kind = 0, cr_alive = 1\<rparr>;
          Some (w\<lparr>creatures := cs\<rparr>) }) }"

definition game_init :: "u16 \<Rightarrow> game \<Rightarrow> game option" where
  "game_init seed w = do {
     let w = world.extend world_zero (game.fields (replicate MAX_PLAYERS 0) (replicate MAX_PLAYERS 0) (rng_seed (ucast seed) (ucast (drop_bit 8 seed)) 0x5A (gen w)));
     (ts, g) \<leftarrow> gen_map (tiles w) (gen w);
     for_each spawn_creature [0..<MAX_CREATURES] (w\<lparr>tiles := ts, gen := g\<rparr>) }"

definition free_slot :: "game \<Rightarrow> nat \<Rightarrow> bool" where
  "free_slot w i \<longleftrightarrow> pl_alive (players w ! i) = 0 \<and> pl_hp (players w ! i) = 0 \<and> respawn_t w ! i = 0"

definition game_add_player :: "game \<Rightarrow> (int \<times> game) option" where
  "game_add_player w =
     (case find (free_slot w) [0..<MAX_PLAYERS] of
        None \<Rightarrow> Some (GAME_ERR, w)
      | Some i \<Rightarrow> do {
          p \<leftarrow> at_index (players w) i;
          (pos, g) \<leftarrow> random_floor 4000 (tiles w) (gen w);
          let w = w\<lparr>gen := g\<rparr>;
          (case pos of
             None \<Rightarrow> Some (GAME_ERR, w)
           | Some (x, y) \<Rightarrow> do {
               ps \<leftarrow> put_index (players w) i (p\<lparr>pl_x := x, pl_y := y, pl_facing := 4, pl_alive := 1, pl_hp := PLAYER_HP, pl_input := IN_NONE, pl_score := 0\<rparr>);
               Some (int i, w\<lparr>players := ps, nplayers := (if unat (nplayers w) < i + 1 then of_nat (i + 1) else nplayers w)\<rparr>) }) })"

definition game_set_input :: "int \<Rightarrow> u8 \<Rightarrow> 'a world_scheme \<Rightarrow> 'a world_scheme option" where
  "game_set_input player input w =
     (if 0 \<le> player \<and> player < int MAX_PLAYERS then do {
        p \<leftarrow> at_index (players w) (nat player);
        ps \<leftarrow> put_index (players w) (nat player) (p\<lparr>pl_input := input\<rparr>);
        Some (w\<lparr>players := ps\<rparr>) }
      else Some w)"

section \<open>Simulation\<close>

text \<open>The index of the nearest player, with the distance.\<close>

definition nearer :: "'a world_scheme \<Rightarrow> int \<Rightarrow> int \<Rightarrow> nat \<Rightarrow> nat option \<times> int \<Rightarrow> nat option \<times> int" where
  "nearer w cx cy i st =
     (let p = players w ! i; (best, best_d) = st in
      if pl_alive p = 0 then st
      else
        let ax = \<bar>uint (pl_x p) - cx\<bar>; ay = \<bar>uint (pl_y p) - cy\<bar>; d = (if ay < ax then ax else ay) in
        if d < best_d then (Some i, d) else st)"

definition nearest_player :: "'a world_scheme \<Rightarrow> int \<Rightarrow> int \<Rightarrow> nat option" where
  "nearest_player w cx cy = fst (fold (nearer w cx cy) [0..<MAX_PLAYERS] (None, 0x7fff))"

definition move_player :: "nat \<Rightarrow> game \<Rightarrow> game option" where
  "move_player i w = do {
     p \<leftarrow> at_index (players w) i;
     let dir = IN_DIR (pl_input p);
     if dir < 8 then do {
       dx \<leftarrow> at_index game_dx (unat dir);
       dy \<leftarrow> at_index game_dy (unat dir);
       let nx = uint (pl_x p) + dx; let ny = uint (pl_y p) + dy;
       let p = p\<lparr>pl_facing := dir\<rparr>;
       f \<leftarrow> is_floor (tiles w) nx ny;
       if f then do {
         let p = p\<lparr>pl_x := word_of_int nx, pl_y := word_of_int ny\<rparr>;
         t \<leftarrow> TILE (tiles w) nx ny;
         if t = T_TREASURE then do {
           ts \<leftarrow> put_tile (tiles w) nx ny T_FLOOR;
           ps \<leftarrow> put_index (players w) i (p\<lparr>pl_score := pl_score p + 25\<rparr>);
           Some (w\<lparr>players := ps, tiles := ts\<rparr>) }
         else do { ps \<leftarrow> put_index (players w) i p; Some (w\<lparr>players := ps\<rparr>) } }
       else do { ps \<leftarrow> put_index (players w) i p; Some (w\<lparr>players := ps\<rparr>) } }
     else Some w }"

definition fire_player :: "nat \<Rightarrow> game \<Rightarrow> game option" where
  "fire_player i w = do {
     p \<leftarrow> at_index (players w) i;
     cd \<leftarrow> at_index (fire_cd w) i;
     let fdir = IN_FIRE_DIR (pl_input p);
     if fdir < 8 \<and> cd = 0 then
       (case find (\<lambda>s. sh_alive (shots w ! s) = 0) [0..<MAX_SHOTS] of
          None \<Rightarrow> Some w
        | Some s \<Rightarrow> do {
            ss \<leftarrow> put_index (shots w) s \<lparr>sh_x = pl_x p, sh_y = pl_y p, sh_dir = fdir, sh_alive = 1, sh_owner = of_nat i, sh_ttl = SHOT_RANGE\<rparr>;
            cs \<leftarrow> put_index (fire_cd w) i FIRE_CD;
            Some (w\<lparr>shots := ss, fire_cd := cs\<rparr>) })
     else Some w }"

definition step_player :: "nat \<Rightarrow> game \<Rightarrow> game option" where
  "step_player i w = do {
     p \<leftarrow> at_index (players w) i;
     if pl_alive p = 0 then Some w
     else do {
       cd \<leftarrow> at_index (fire_cd w) i;
       cs \<leftarrow> put_index (fire_cd w) i (if cd \<noteq> 0 then cd - 1 else cd);
       w \<leftarrow> move_player i (w\<lparr>fire_cd := cs\<rparr>);
       fire_player i w } }"

definition step_players :: "game \<Rightarrow> game option" where
  "step_players w = for_each step_player [0..<MAX_PLAYERS] w"

definition creature_at :: "'a world_scheme \<Rightarrow> int \<Rightarrow> int \<Rightarrow> nat option" where
  "creature_at w x y =
     find (\<lambda>i. cr_alive (creatures w ! i) \<noteq> 0 \<and> uint (cr_x (creatures w ! i)) = x \<and> uint (cr_y (creatures w ! i)) = y) [0..<MAX_CREATURES]"

definition kill_creature :: "nat \<Rightarrow> game \<Rightarrow> game option" where
  "kill_creature k w = do {
     c \<leftarrow> at_index (creatures w) k;
     cs \<leftarrow> put_index (creatures w) k (c\<lparr>cr_alive := 0\<rparr>);
     Some (w\<lparr>creatures := cs\<rparr>) }"

definition award :: "u8 \<Rightarrow> game \<Rightarrow> game option" where
  "award own w =
     (if unat own < MAX_PLAYERS then do {
        p \<leftarrow> at_index (players w) (unat own);
        ps \<leftarrow> put_index (players w) (unat own) (p\<lparr>pl_score := pl_score p + 10\<rparr>);
        Some (w\<lparr>players := ps\<rparr>) }
      else Some w)"

definition put_shot :: "nat \<Rightarrow> shot \<Rightarrow> game \<Rightarrow> game option" where
  "put_shot s sh w = do { ss \<leftarrow> put_index (shots w) s sh; Some (w\<lparr>shots := ss\<rparr>) }"

text \<open>The inner loop with its breaks; the argument is the number of steps left.\<close>

fun shot_steps :: "nat \<Rightarrow> nat \<Rightarrow> game \<Rightarrow> game option" where
  "shot_steps 0 s w = Some w"
| "shot_steps (Suc left) s w = do {
     sh \<leftarrow> at_index (shots w) s;
     dx \<leftarrow> at_index game_dx (unat (sh_dir sh));
     dy \<leftarrow> at_index game_dy (unat (sh_dir sh));
     let nx = uint (sh_x sh) + dx; let ny = uint (sh_y sh) + dy;
     f \<leftarrow> is_floor (tiles w) nx ny;
     if \<not> f then put_shot s (sh\<lparr>sh_alive := 0\<rparr>) w
     else do {
       let sh = sh\<lparr>sh_x := word_of_int nx, sh_y := word_of_int ny\<rparr>;
       (case creature_at w nx ny of
          Some k \<Rightarrow> do {
            w \<leftarrow> kill_creature k w;
            w \<leftarrow> award (sh_owner sh) w;
            put_shot s (sh\<lparr>sh_alive := 0\<rparr>) w }
        | None \<Rightarrow>
            if sh_ttl sh = 0 then put_shot s (sh\<lparr>sh_alive := 0\<rparr>) w
            else do { w \<leftarrow> put_shot s (sh\<lparr>sh_ttl := sh_ttl sh - 1\<rparr>) w; shot_steps left s w }) } }"

definition step_shot :: "nat \<Rightarrow> game \<Rightarrow> game option" where
  "step_shot s w = do {
     sh \<leftarrow> at_index (shots w) s;
     if sh_alive sh = 0 then Some w else shot_steps SHOT_SPEED s w }"

definition step_shots :: "game \<Rightarrow> game option" where
  "step_shots w = for_each step_shot [0..<MAX_SHOTS] w"

definition attack :: "nat \<Rightarrow> game \<Rightarrow> game option" where
  "attack k w = do {
     p \<leftarrow> at_index (players w) k;
     if CREATURE_DMG < pl_hp p then do {
       ps \<leftarrow> put_index (players w) k (p\<lparr>pl_hp := pl_hp p - CREATURE_DMG\<rparr>);
       Some (w\<lparr>players := ps\<rparr>) }
     else do {
       ps \<leftarrow> put_index (players w) k (p\<lparr>pl_hp := 0, pl_alive := 0\<rparr>);
       rs \<leftarrow> put_index (respawn_t w) k RESPAWN_T;
       Some (w\<lparr>players := ps, respawn_t := rs\<rparr>) } }"

definition open_to :: "game \<Rightarrow> int \<Rightarrow> int \<Rightarrow> bool option" where
  "open_to w x y = do { f \<leftarrow> is_floor (tiles w) x y; Some (f \<and> creature_at w x y = None) }"

definition put_creature :: "nat \<Rightarrow> creature \<Rightarrow> game \<Rightarrow> game option" where
  "put_creature i c w = do { cs \<leftarrow> put_index (creatures w) i c; Some (w\<lparr>creatures := cs\<rparr>) }"

text \<open>A step towards the player, along one axis when the way is blocked.\<close>

definition chase :: "nat \<Rightarrow> creature \<Rightarrow> int \<Rightarrow> int \<Rightarrow> game \<Rightarrow> game option" where
  "chase i c dx dy w =
     (let dir = vec_to_dir dx dy in
      if dir < 0 then Some w
      else do {
        ex \<leftarrow> at_index game_dx (nat dir);
        ey \<leftarrow> at_index game_dy (nat dir);
        let nx = uint (cr_x c) + ex; let ny = uint (cr_y c) + ey;
        free \<leftarrow> open_to w nx ny;
        if free then put_creature i (c\<lparr>cr_x := word_of_int nx, cr_y := word_of_int ny\<rparr>) w
        else do {
          freex \<leftarrow> open_to w (uint (cr_x c) + sgn_int dx) (uint (cr_y c));
          if freex then put_creature i (c\<lparr>cr_x := word_of_int (uint (cr_x c) + sgn_int dx)\<rparr>) w
          else do {
            freey \<leftarrow> open_to w (uint (cr_x c)) (uint (cr_y c) + sgn_int dy);
            if freey then put_creature i (c\<lparr>cr_y := word_of_int (uint (cr_y c) + sgn_int dy)\<rparr>) w
            else Some w } } })"

definition step_creature :: "nat \<Rightarrow> game \<Rightarrow> game option" where
  "step_creature i w = do {
     c \<leftarrow> at_index (creatures w) i;
     if cr_alive c = 0 then Some w
     else (case nearest_player w (uint (cr_x c)) (uint (cr_y c)) of
       None \<Rightarrow> Some w
     | Some k \<Rightarrow> do {
         p \<leftarrow> at_index (players w) k;
         let dx = uint (pl_x p) - uint (cr_x c); let dy = uint (pl_y p) - uint (cr_y c);
         if -1 \<le> dx \<and> dx \<le> 1 \<and> -1 \<le> dy \<and> dy \<le> 1 then attack k w else chase i c dx dy w }) }"

definition step_creatures :: "game \<Rightarrow> game option" where
  "step_creatures w =
     (if tick w AND 1 \<noteq> 0 then Some w else for_each step_creature [0..<MAX_CREATURES] w)"

definition step_respawn :: "nat \<Rightarrow> game \<Rightarrow> game option" where
  "step_respawn i w = do {
     p \<leftarrow> at_index (players w) i;
     r \<leftarrow> at_index (respawn_t w) i;
     if pl_alive p = 0 \<and> 0 < r then do {
       rs \<leftarrow> put_index (respawn_t w) i (r - 1);
       let w = w\<lparr>respawn_t := rs\<rparr>;
       if r - 1 = 0 then do {
         (pos, g) \<leftarrow> random_floor 4000 (tiles w) (gen w);
         let w = w\<lparr>gen := g\<rparr>;
         (case pos of
            None \<Rightarrow> Some w
          | Some (x, y) \<Rightarrow> do {
              ps \<leftarrow> put_index (players w) i (p\<lparr>pl_x := x, pl_y := y, pl_alive := 1, pl_hp := PLAYER_HP\<rparr>);
              Some (w\<lparr>players := ps\<rparr>) }) }
       else Some w }
     else Some w }"

definition step_respawns :: "game \<Rightarrow> game option" where
  "step_respawns w = for_each step_respawn [0..<MAX_PLAYERS] w"

definition game_tick :: "game \<Rightarrow> game option" where
  "game_tick w = do {
     w \<leftarrow> step_players w;
     w \<leftarrow> step_shots w;
     w \<leftarrow> step_creatures w;
     w \<leftarrow> step_respawns w;
     Some (w\<lparr>tick := tick w + 1\<rparr>) }"

end
