(* ===== verification/Thor_Safe.thy ===== *)
theory Thor_Safe
  imports Thor_World
begin

text \<open>
  The game core never leaves its arrays: all positions in use are floor tiles of the map, all direction and
  owner fields index their tables, health and timers stay within their bounds.  A call returns unless the generator
  is stuck on rejected bytes for ever.
\<close>

section \<open>Returning, or stuck\<close>

text \<open>\<open>ok_or S m P\<close>: the call returns a result with \<open>P\<close>, or \<open>S\<close> is the reason why it does not.\<close>

definition ok_or :: "bool \<Rightarrow> 'a option \<Rightarrow> ('a \<Rightarrow> bool) \<Rightarrow> bool" where
  "ok_or S m P = (case m of Some x \<Rightarrow> P x | None \<Rightarrow> S)"

lemma ok_or_simps [simp]:
  "ok_or S (Some x) P = P x" "ok_or S None P = S"
  "ok_or S (m \<bind> f) P = ok_or S m (\<lambda>x. ok_or S (f x) P)"
  by (auto simp: ok_or_def split: option.split bind_splits)

lemma ok_or_mono: "ok_or S m P \<Longrightarrow> (\<And>x. P x \<Longrightarrow> Q x) \<Longrightarrow> ok_or S m Q"
  by (auto simp: ok_or_def split: option.splits)

lemma ok_or_at [simp]: "i < length xs \<Longrightarrow> ok_or S (at_index xs i) P = P (xs ! i)"
  by (simp add: at_index_def)

lemma ok_or_put [simp]: "i < length xs \<Longrightarrow> ok_or S (put_index xs i v) P = P (xs[i := v])"
  by (simp add: put_index_def)

lemma for_each_ok:
  assumes "\<And>x s. x \<in> set xs \<Longrightarrow> I s \<Longrightarrow> ok_or S (f x s) I" "I s"
  shows "ok_or S (for_each f xs s) I"
  using assms
proof (induction xs arbitrary: s)
  case (Cons x xs)
  have "ok_or S (f x s) I" using Cons.prems by simp
  from ok_or_mono [OF this] show ?case using Cons by simp
qed simp

section \<open>The invariant\<close>

definition on_map :: "int \<Rightarrow> int \<Rightarrow> bool" where
  "on_map x y \<longleftrightarrow> 0 \<le> x \<and> x < MAP_W \<and> 0 \<le> y \<and> y < MAP_H"

definition cell :: "int \<Rightarrow> int \<Rightarrow> nat" where
  "cell x y = nat (y * MAP_W + x)"

definition floor_at :: "u8 list \<Rightarrow> int \<Rightarrow> int \<Rightarrow> bool" where
  "floor_at ts x y \<longleftrightarrow> on_map x y \<and> ts ! cell x y \<noteq> T_WALL"

definition player_ok :: "u8 list \<Rightarrow> player \<Rightarrow> bool" where
  "player_ok ts p \<longleftrightarrow> pl_hp p \<le> PLAYER_HP \<and> pl_facing p < 8 \<and>
     (pl_alive p \<noteq> 0 \<longrightarrow> 0 < pl_hp p \<and> floor_at ts (uint (pl_x p)) (uint (pl_y p)))"

definition creature_ok :: "u8 list \<Rightarrow> creature \<Rightarrow> bool" where
  "creature_ok ts c \<longleftrightarrow> (cr_alive c \<noteq> 0 \<longrightarrow> floor_at ts (uint (cr_x c)) (uint (cr_y c)))"

definition shot_ok :: "u8 list \<Rightarrow> shot \<Rightarrow> bool" where
  "shot_ok ts s \<longleftrightarrow> (sh_alive s \<noteq> 0 \<longrightarrow> sh_dir s < 8 \<and> unat (sh_owner s) < MAX_PLAYERS \<and> sh_ttl s \<le> SHOT_RANGE \<and>
     floor_at ts (uint (sh_x s)) (uint (sh_y s)))"

definition game_wf :: "game \<Rightarrow> bool" where
  "game_wf w \<longleftrightarrow> length (tiles w) = 6144 \<and> length (players w) = MAX_PLAYERS \<and> length (creatures w) = MAX_CREATURES \<and>
     length (shots w) = MAX_SHOTS \<and> length (fire_cd w) = MAX_PLAYERS \<and> length (respawn_t w) = MAX_PLAYERS \<and>
     (\<forall>p\<in>set (players w). player_ok (tiles w) p) \<and> (\<forall>c\<in>set (creatures w). creature_ok (tiles w) c) \<and>
     (\<forall>s\<in>set (shots w). shot_ok (tiles w) s) \<and> (\<forall>t\<in>set (fire_cd w). t \<le> FIRE_CD) \<and> (\<forall>t\<in>set (respawn_t w). t \<le> RESPAWN_T) \<and>
     unat (nplayers w) \<le> MAX_PLAYERS"

lemma cell_less: "on_map x y \<Longrightarrow> cell x y < 6144"
  unfolding on_map_def cell_def MAP_W_def MAP_H_def by linarith

lemma tile_index_cell:
  assumes "on_map x y"
  shows "tile_index x y = cell x y"
proof -
  have "0 \<le> y * MAP_W + x" "y * MAP_W + x < 2 ^ 32" using assms by (auto simp: on_map_def MAP_W_def MAP_H_def)
  then have "unat (word_of_int (y * MAP_W + x) :: u32) = nat (y * MAP_W + x)"
    by (simp add: unsigned_of_int take_bit_int_eq_self del: of_int_add of_int_mult wi_hom_syms)
  then show ?thesis by (simp add: tile_index_def cell_def)
qed

lemma cell_inj: "on_map x y \<Longrightarrow> on_map x' y' \<Longrightarrow> cell x y = cell x' y' \<Longrightarrow> x = x' \<and> y = y'"
proof -
  assume a: "on_map x y" "on_map x' y'" "cell x y = cell x' y'"
  have "0 \<le> y * 96 + x" "0 \<le> y' * 96 + x'" using a by (simp_all add: on_map_def)
  then have "y * 96 + x = y' * 96 + x'" using a(3) unfolding cell_def MAP_W_def by linarith
  moreover have "(y * 96 + x) div 96 = y" "(y' * 96 + x') div 96 = y'" using a by (auto intro!: int_div_pos_eq simp: on_map_def MAP_W_def)
  ultimately show "x = x' \<and> y = y'" by simp
qed

lemma TILE_at: "on_map x y \<Longrightarrow> length ts = 6144 \<Longrightarrow> TILE ts x y = Some (ts ! cell x y)"
  by (simp add: TILE_def at_index_def tile_index_cell cell_less)

lemma put_tile_at: "on_map x y \<Longrightarrow> length ts = 6144 \<Longrightarrow> put_tile ts x y v = Some (ts[cell x y := v])"
  by (simp add: put_tile_def put_index_def tile_index_cell cell_less)

lemma is_floor_at: "length ts = 6144 \<Longrightarrow> is_floor ts x y = Some (floor_at ts x y)"
  by (auto simp: is_floor_def floor_at_def on_map_def TILE_at)

text \<open>Only where a wall stands matters.\<close>

lemma floor_at_put: "v \<noteq> T_WALL \<Longrightarrow> floor_at ts x y \<Longrightarrow> length ts = 6144 \<Longrightarrow> floor_at (ts[k := v]) x y"
  using cell_less [of x y] by (cases "k = cell x y") (simp_all add: floor_at_def)

lemma floor_at_word: "floor_at ts x y \<Longrightarrow> uint (word_of_int x :: u8) = x \<and> uint (word_of_int y :: u8) = y"
  by (auto simp: floor_at_def on_map_def MAP_W_def MAP_H_def unsigned_of_int take_bit_int_eq_self)

section \<open>The generator\<close>

definition rng_stuck :: "rng \<Rightarrow> bool" where
  "rng_stuck g \<longleftrightarrow> (\<exists>k. \<exists>n\<in>{62, 94, 100}. \<forall>j. \<not> rng_accepts n (rng_byte g (k + j)))"

definition follows :: "rng \<Rightarrow> rng \<Rightarrow> bool" where
  "follows g g' \<longleftrightarrow> (\<exists>k. g' = (rng_next ^^ k) g)"

lemma follows_refl [simp]: "follows g g"
  unfolding follows_def by (metis funpow_0)

lemma follows_trans: "follows g g1 \<Longrightarrow> follows g1 g2 \<Longrightarrow> follows g g2"
  unfolding follows_def by (metis comp_apply funpow_add)

lemma rng_byte_add: "rng_byte ((rng_next ^^ k) g) j = rng_byte g (k + j)"
  by (simp add: rng_byte_def funpow_add funpow_swap1 add.commute)

lemma rng_range_ok:
  assumes n: "n \<in> {62, 94, 100}" and f: "follows g0 g"
  shows "ok_or (rng_stuck g0) (rng_range n g) (\<lambda>(r, g'). r < n \<and> follows g0 g')"
proof (cases "rng_range n g")
  case None
  have n': "1 < n" "n \<le> 256" using n by auto
  have "\<not> rng_accepts n (rng_byte g j)" for j
  proof
    assume "rng_accepts n (rng_byte g j)"
    then obtain k where "rng_accepts n (rng_byte g k)" "\<forall>j<k. \<not> rng_accepts n (rng_byte g j)"
      using exists_least_iff [of "\<lambda>k. rng_accepts n (rng_byte g k)"] by auto
    from rng_range_first [OF n' this] None show False by simp
  qed
  moreover obtain k where "g = (rng_next ^^ k) g0" using f by (auto simp: follows_def)
  ultimately have "\<forall>j. \<not> rng_accepts n (rng_byte g0 (k + j))" by (simp add: rng_byte_add)
  then show ?thesis using None n unfolding rng_stuck_def by auto
next
  case (Some p)
  have "1 < n" "n \<le> 256" using n by auto
  from rng_range_less [OF this, of g "fst p" "snd p"] Some have "fst p < n" "follows g (snd p)" by (auto simp: follows_def)
  then show ?thesis using Some follows_trans [OF f] by (simp add: case_prod_beta)
qed

text \<open>A random position is a floor tile.\<close>

lemma random_floor_ok:
  assumes ts: "length ts = 6144" and f: "follows g0 g"
  shows "ok_or (rng_stuck g0) (random_floor k ts g)
    (\<lambda>(pos, g'). follows g0 g' \<and> (\<forall>x y. pos = Some (x, y) \<longrightarrow> floor_at ts (uint x) (uint y)))"
  using f
proof (induction k arbitrary: g)
  case (Suc k)
  have step: "ok_or (rng_stuck g0) (do { let x = 1 + uint rx; let y = 1 + uint ry; t \<leftarrow> TILE ts x y;
        if t = T_FLOOR then Some (Some (word_of_int x, word_of_int y), g2) else random_floor k ts g2 })
      (\<lambda>(pos, g'). follows g0 g' \<and> (\<forall>x y. pos = Some (x, y) \<longrightarrow> floor_at ts (uint x) (uint y)))"
    if "rx < (94 :: u32)" "ry < (62 :: u32)" "follows g0 g2" for rx ry g2
  proof -
    have "uint rx < 94" "uint ry < 62" using that by (simp_all add: word_less_def)
    then have m: "on_map (1 + uint rx) (1 + uint ry)" by (simp add: on_map_def MAP_W_def MAP_H_def)
    show ?thesis
    proof (cases "ts ! cell (1 + uint rx) (1 + uint ry) = T_FLOOR")
      case True
      then have "floor_at ts (1 + uint rx) (1 + uint ry)" using m by (simp add: floor_at_def T_FLOOR_def T_WALL_def)
      then show ?thesis using True m ts that(3) floor_at_word [of ts "1 + uint rx" "1 + uint ry"] by (simp add: Let_def TILE_at)
    next
      case False
      then show ?thesis using m ts Suc.IH [OF that(3)] by (simp add: Let_def TILE_at)
    qed
  qed
  show ?case
    unfolding random_floor.simps ok_or_simps
    by (rule ok_or_mono [OF rng_range_ok [OF _ Suc.prems]], simp add: MAP_W_def, clarsimp,
        rule ok_or_mono [OF rng_range_ok], simp add: MAP_H_def, assumption, clarsimp) (use step in \<open>simp add: Let_def MAP_W_def MAP_H_def\<close>)
qed simp

section \<open>Updates that keep the invariant\<close>

text \<open>The state of the generator follows \<open>g0\<close>, and \<open>F\<close> is the set of floor cells, which no call changes.\<close>

definition floor_cells :: "u8 list \<Rightarrow> nat set" where
  "floor_cells ts = {p. p < 6144 \<and> ts ! p \<noteq> T_WALL}"

definition game_ok :: "rng \<Rightarrow> nat set \<Rightarrow> game \<Rightarrow> bool" where
  "game_ok g0 F w \<longleftrightarrow> game_wf w \<and> follows g0 (gen w) \<and> floor_cells (tiles w) = F"

named_theorems game_simps \<open>updates of a well-formed game\<close>

lemma all_put: "\<forall>x\<in>set xs. P x \<Longrightarrow> P v \<Longrightarrow> \<forall>x\<in>set (xs[i := v]). P x"
  using set_update_subset_insert by fastforce

lemma game_ok_lengths [game_simps]:
  assumes "game_ok g0 F w"
  shows "length (tiles w) = 6144" "length (players w) = MAX_PLAYERS" "length (creatures w) = MAX_CREATURES"
    "length (shots w) = MAX_SHOTS" "length (fire_cd w) = MAX_PLAYERS" "length (respawn_t w) = MAX_PLAYERS"
  using assms by (simp_all add: game_ok_def game_wf_def)

lemma game_ok_parts:
  assumes "game_ok g0 F w"
  shows "i < MAX_PLAYERS \<Longrightarrow> player_ok (tiles w) (players w ! i)" "i < MAX_CREATURES \<Longrightarrow> creature_ok (tiles w) (creatures w ! i)"
    "i < MAX_SHOTS \<Longrightarrow> shot_ok (tiles w) (shots w ! i)" "i < MAX_PLAYERS \<Longrightarrow> fire_cd w ! i \<le> FIRE_CD" "i < MAX_PLAYERS \<Longrightarrow> respawn_t w ! i \<le> RESPAWN_T"
  using assms unfolding game_ok_def game_wf_def by (metis nth_mem)+

lemma put_player_ok: "game_ok g0 F w \<Longrightarrow> player_ok (tiles w) p \<Longrightarrow> game_ok g0 F (w\<lparr>players := (players w)[i := p]\<rparr>)"
  using all_put [of "players w" "player_ok (tiles w)" p i] by (simp add: game_ok_def game_wf_def)

lemma put_creature_game: "game_ok g0 F w \<Longrightarrow> creature_ok (tiles w) c \<Longrightarrow> game_ok g0 F (w\<lparr>creatures := (creatures w)[i := c]\<rparr>)"
  using all_put [of "creatures w" "creature_ok (tiles w)" c i] by (simp add: game_ok_def game_wf_def)

lemma put_shot_game: "game_ok g0 F w \<Longrightarrow> shot_ok (tiles w) s \<Longrightarrow> game_ok g0 F (w\<lparr>shots := (shots w)[i := s]\<rparr>)"
  using all_put [of "shots w" "shot_ok (tiles w)" s i] by (simp add: game_ok_def game_wf_def)

lemma put_cd_ok: "game_ok g0 F w \<Longrightarrow> t \<le> FIRE_CD \<Longrightarrow> game_ok g0 F (w\<lparr>fire_cd := (fire_cd w)[i := t]\<rparr>)"
  using all_put [of "fire_cd w" "\<lambda>t. t \<le> FIRE_CD" t i] by (simp add: game_ok_def game_wf_def)

lemma put_respawn_ok: "game_ok g0 F w \<Longrightarrow> t \<le> RESPAWN_T \<Longrightarrow> game_ok g0 F (w\<lparr>respawn_t := (respawn_t w)[i := t]\<rparr>)"
  using all_put [of "respawn_t w" "\<lambda>t. t \<le> RESPAWN_T" t i] by (simp add: game_ok_def game_wf_def)

lemma put_gen_ok: "game_ok g0 F w \<Longrightarrow> follows g0 g \<Longrightarrow> game_ok g0 F (w\<lparr>gen := g\<rparr>)"
  by (simp add: game_ok_def game_wf_def)

lemma put_tick_ok: "game_ok g0 F w \<Longrightarrow> game_ok g0 F (w\<lparr>tick := t\<rparr>)"
  by (simp add: game_ok_def game_wf_def)

lemma put_floor_ok:
  assumes w: "game_ok g0 F w" and v: "v \<noteq> T_WALL" "tiles w ! k \<noteq> T_WALL"
  shows "game_ok g0 F (w\<lparr>tiles := (tiles w)[k := v]\<rparr>)"
proof -
  have len: "length (tiles w) = 6144" using w by (simp add: game_simps)
  note keep = floor_at_put [OF v(1) _ len, of _ _ k]
  have "player_ok (tiles w) p \<Longrightarrow> player_ok ((tiles w)[k := v]) p" "creature_ok (tiles w) c \<Longrightarrow> creature_ok ((tiles w)[k := v]) c"
    "shot_ok (tiles w) s \<Longrightarrow> shot_ok ((tiles w)[k := v]) s" for p c s
    by (auto simp: player_ok_def creature_ok_def shot_ok_def keep)
  moreover have "(tiles w)[k := v] ! p \<noteq> T_WALL \<longleftrightarrow> tiles w ! p \<noteq> T_WALL" for p using v by (cases "p = k"; cases "k < length (tiles w)") (simp_all add: list_update_beyond not_less)
  then have "floor_cells ((tiles w)[k := v]) = floor_cells (tiles w)" by (simp add: floor_cells_def)
  ultimately show ?thesis using w by (auto simp: game_ok_def game_wf_def)
qed

lemmas put_game = put_player_ok put_creature_game put_shot_game put_cd_ok put_respawn_ok put_gen_ok put_tick_ok put_floor_ok

lemma dir_at: "d < (8 :: u8) \<Longrightarrow> ok_or S (at_index game_dx (unat d)) P = P (game_dx ! unat d)" "d < (8 :: u8) \<Longrightarrow> ok_or S (at_index game_dy (unat d)) P = P (game_dy ! unat d)"
  by (simp_all add: game_dx_def game_dy_def word_less_nat_alt)

section \<open>The steps of a tick\<close>

lemma move_player_ok:
  assumes w: "game_ok g0 F w" and i: "i < MAX_PLAYERS" and alive: "pl_alive (players w ! i) \<noteq> 0"
  shows "ok_or S (move_player i w) (\<lambda>w'. game_ok g0 F w' \<and> pl_alive (players w' ! i) \<noteq> 0)"
proof (cases "IN_DIR (pl_input (players w ! i)) < 8")
  case True
  let ?p = "players w ! i" and ?d = "IN_DIR (pl_input (players w ! i))"
  let ?nx = "uint (pl_x ?p) + game_dx ! unat ?d" and ?ny = "uint (pl_y ?p) + game_dy ! unat ?d"
  have p: "player_ok (tiles w) (?p\<lparr>pl_facing := ?d\<rparr>)" using game_ok_parts(1) [OF w i] True by (simp add: player_ok_def)
  have move: "player_ok (tiles w) (?p\<lparr>pl_facing := ?d, pl_x := word_of_int ?nx, pl_y := word_of_int ?ny\<rparr>)"
      "player_ok (tiles w) (?p\<lparr>pl_facing := ?d, pl_x := word_of_int ?nx, pl_y := word_of_int ?ny, pl_score := v\<rparr>)" if "floor_at (tiles w) ?nx ?ny" for v
    using p that floor_at_word [OF that] by (simp_all add: player_ok_def)
  have fl: "T_FLOOR \<noteq> T_WALL" by (simp add: T_FLOOR_def T_WALL_def)
  show ?thesis
  proof (cases "floor_at (tiles w) ?nx ?ny")
    case floor: True
    then have m: "on_map ?nx ?ny" by (simp add: floor_at_def)
    have "game_ok g0 F (w\<lparr>players := (players w)[i := ?p\<lparr>pl_facing := ?d, pl_x := word_of_int ?nx, pl_y := word_of_int ?ny\<rparr>]\<rparr>)"
      by (rule put_player_ok [OF w move(1) [OF floor]])
    moreover have "game_ok g0 F (w\<lparr>players := (players w)[i := ?p\<lparr>pl_facing := ?d, pl_x := word_of_int ?nx, pl_y := word_of_int ?ny, pl_score := v\<rparr>], tiles := (tiles w)[cell ?nx ?ny := T_FLOOR]\<rparr>)" for v
      using put_floor_ok [OF put_player_ok [OF w move(2) [OF floor, of v], of i] fl, of "cell ?nx ?ny"] floor by (simp add: floor_at_def)
    ultimately show ?thesis
      using w i alive floor m True by (simp add: move_player_def Let_def dir_at is_floor_at TILE_at put_tile_at game_simps)
  next
    case False
    then show ?thesis using w i alive True put_player_ok [OF w p] by (simp add: move_player_def Let_def dir_at is_floor_at game_simps)
  qed
qed (use w i alive in \<open>simp add: move_player_def Let_def game_simps\<close>)

lemma fire_player_ok:
  assumes w: "game_ok g0 F w" and i: "i < MAX_PLAYERS" and alive: "pl_alive (players w ! i) \<noteq> 0"
  shows "ok_or S (fire_player i w) (game_ok g0 F)"
proof -
  let ?p = "players w ! i"
  have "shot_ok (tiles w) \<lparr>sh_x = pl_x ?p, sh_y = pl_y ?p, sh_dir = d, sh_alive = 1, sh_owner = of_nat i, sh_ttl = SHOT_RANGE\<rparr>" if "d < 8" for d
    using game_ok_parts(1) [OF w i] alive that i by (simp add: shot_ok_def player_ok_def MAX_PLAYERS_def unat_of_nat take_bit_nat_eq_self)
  moreover have "game_ok g0 F (w\<lparr>shots := (shots w)[s := sh], fire_cd := (fire_cd w)[i := FIRE_CD]\<rparr>)" if "shot_ok (tiles w) sh" for s sh
    using put_cd_ok [OF put_shot_game [OF w that]] by simp
  moreover have "s < MAX_SHOTS" if "find (\<lambda>s. sh_alive (shots w ! s) = 0) [0..<MAX_SHOTS] = Some s" for s
    using that by (auto simp: find_Some_iff)
  ultimately show ?thesis
    using w i by (auto simp: fire_player_def Let_def game_simps split: option.split)
qed

lemma step_player_ok:
  assumes w: "game_ok g0 F w" and i: "i < MAX_PLAYERS"
  shows "ok_or S (step_player i w) (game_ok g0 F)"
proof (cases "pl_alive (players w ! i) = 0")
  case False
  let ?w = "w\<lparr>fire_cd := (fire_cd w)[i := if fire_cd w ! i \<noteq> 0 then fire_cd w ! i - 1 else fire_cd w ! i]\<rparr>"
  have "(if fire_cd w ! i \<noteq> 0 then fire_cd w ! i - 1 else fire_cd w ! i) \<le> FIRE_CD"
    using game_ok_parts(4) [OF w i] by (auto intro: order_trans simp: word_le_nat_alt unat_minus_one)
  then have "game_ok g0 F ?w" by (rule put_cd_ok [OF w])
  from move_player_ok [OF this i, of S] False have "ok_or S (move_player i ?w) (\<lambda>w'. game_ok g0 F w' \<and> pl_alive (players w' ! i) \<noteq> 0)" by simp
  then have "ok_or S (move_player i ?w) (\<lambda>w'. ok_or S (fire_player i w') (game_ok g0 F))"
    by (rule ok_or_mono) (auto intro: fire_player_ok [OF _ i])
  then show ?thesis using w i False by (simp add: step_player_def game_simps)
qed (use w i in \<open>simp add: step_player_def game_simps\<close>)

lemma step_players_ok: "game_ok g0 F w \<Longrightarrow> ok_or S (step_players w) (game_ok g0 F)"
  unfolding step_players_def by (rule for_each_ok) (auto intro: step_player_ok)

lemma creature_at_less: "creature_at w x y = Some k \<Longrightarrow> k < MAX_CREATURES"
  by (auto simp: creature_at_def find_Some_iff)

lemma put_shot_ok:
  assumes "game_ok g0 F w" "s < MAX_SHOTS" "shot_ok (tiles w) sh"
  shows "ok_or S (put_shot s sh w) (\<lambda>w'. game_ok g0 F w' \<and> shots w' ! s = sh)"
  using assms put_shot_game [OF assms(1,3), of s] by (simp add: put_shot_def game_simps)

lemma dead_shot_ok:
  assumes "game_ok g0 F w" "s < MAX_SHOTS" "sh_alive sh = 0"
  shows "ok_or S (put_shot s sh w) (game_ok g0 F)"
  by (rule ok_or_mono [OF put_shot_ok [OF assms(1,2)]]) (use assms(3) in \<open>simp_all add: shot_ok_def\<close>)

lemma kill_creature_ok:
  assumes "game_ok g0 F w" "k < MAX_CREATURES"
  shows "ok_or S (kill_creature k w) (game_ok g0 F)"
  using assms put_creature_game [OF assms(1), of _ k] by (simp add: kill_creature_def game_simps creature_ok_def)

lemma award_ok:
  assumes w: "game_ok g0 F w"
  shows "ok_or S (award own w) (game_ok g0 F)"
proof (cases "unat own < MAX_PLAYERS")
  case True
  have "player_ok (tiles w) ((players w ! unat own)\<lparr>pl_score := v\<rparr>)" for v using game_ok_parts(1) [OF w True] by (simp add: player_ok_def)
  then show ?thesis using put_player_ok [OF w] w True by (simp add: award_def game_simps)
qed (use w in \<open>simp add: award_def\<close>)

lemma shot_steps_ok:
  assumes "game_ok g0 F w" "s < MAX_SHOTS" "sh_alive (shots w ! s) \<noteq> 0"
  shows "ok_or S (shot_steps k s w) (game_ok g0 F)"
  using assms
proof (induction k arbitrary: w)
  case (Suc k)
  let ?sh = "shots w ! s"
  let ?nx = "uint (sh_x ?sh) + game_dx ! unat (sh_dir ?sh)" and ?ny = "uint (sh_y ?sh) + game_dy ! unat (sh_dir ?sh)"
  have sh: "shot_ok (tiles w) ?sh" "sh_dir ?sh < 8" using game_ok_parts(3) [OF Suc.prems(1,2)] Suc.prems(3) by (simp_all add: shot_ok_def)
  have start: "ok_or S (shot_steps (Suc k) s w) (game_ok g0 F) = ok_or S (if \<not> floor_at (tiles w) ?nx ?ny then put_shot s (?sh\<lparr>sh_alive := 0\<rparr>) w
      else (let sh = ?sh\<lparr>sh_x := word_of_int ?nx, sh_y := word_of_int ?ny\<rparr> in
        case creature_at w ?nx ?ny of
          Some k \<Rightarrow> do { w \<leftarrow> kill_creature k w; w \<leftarrow> award (sh_owner sh) w; put_shot s (sh\<lparr>sh_alive := 0\<rparr>) w }
        | None \<Rightarrow> if sh_ttl sh = 0 then put_shot s (sh\<lparr>sh_alive := 0\<rparr>) w
            else do { w \<leftarrow> put_shot s (sh\<lparr>sh_ttl := sh_ttl sh - 1\<rparr>) w; shot_steps k s w })) (game_ok g0 F)"
    using Suc.prems sh(2) by (simp add: game_simps dir_at is_floor_at Let_def)
  show ?case
  proof (cases "floor_at (tiles w) ?nx ?ny")
    case True
    let ?m = "?sh\<lparr>sh_x := word_of_int ?nx, sh_y := word_of_int ?ny\<rparr>"
    show ?thesis
    proof (cases "creature_at w ?nx ?ny")
      case (Some c)
      have "ok_or S (do { w \<leftarrow> kill_creature c w; w \<leftarrow> award (sh_owner ?m) w; put_shot s (?m\<lparr>sh_alive := 0\<rparr>) w }) (game_ok g0 F)"
        unfolding ok_or_simps
        by (rule ok_or_mono [OF kill_creature_ok [OF Suc.prems(1) creature_at_less [OF Some]]], rule ok_or_mono [OF award_ok], assumption,
            rule dead_shot_ok [OF _ Suc.prems(2)]) simp_all
      then show ?thesis using start True Some by simp
    next
      case None
      have live: "ok_or S (do { w \<leftarrow> put_shot s (?m\<lparr>sh_ttl := sh_ttl ?m - 1\<rparr>) w; shot_steps k s w }) (game_ok g0 F)" if "sh_ttl ?m \<noteq> 0"
      proof -
        have "sh_ttl ?sh - 1 \<le> sh_ttl ?sh" using that by (simp add: word_le_nat_alt unat_minus_one)
        then have "shot_ok (tiles w) (?m\<lparr>sh_ttl := sh_ttl ?m - 1\<rparr>)"
          using sh(1) True floor_at_word [OF True] by (auto simp: shot_ok_def)
        from put_shot_ok [OF Suc.prems(1,2) this, of S] show ?thesis
          unfolding ok_or_simps by (rule ok_or_mono) (use Suc.IH Suc.prems(2,3) in auto)
      qed
      have dead: "ok_or S (put_shot s (?m\<lparr>sh_alive := 0\<rparr>) w) (game_ok g0 F)" by (rule dead_shot_ok [OF Suc.prems(1,2)]) simp
      show ?thesis unfolding start using True None live dead by (simp add: Let_def)
    qed
  next
    case False
    then show ?thesis unfolding start using dead_shot_ok [OF Suc.prems(1,2), of "?sh\<lparr>sh_alive := 0\<rparr>" S] by simp
  qed
qed simp

lemma step_shots_ok:
  assumes "game_ok g0 F w"
  shows "ok_or S (step_shots w) (game_ok g0 F)"
  unfolding step_shots_def
proof (rule for_each_ok)
  fix s w assume s: "s \<in> set [0..<MAX_SHOTS]" and w: "game_ok g0 F w"
  then show "ok_or S (step_shot s w) (game_ok g0 F)"
    using shot_steps_ok [OF w, of s S SHOT_SPEED] by (auto simp: step_shot_def game_simps)
qed (rule assms)

lemma nearer_cases: "nearer w cx cy i st = st \<or> pl_alive (players w ! i) \<noteq> 0 \<and> fst (nearer w cx cy i st) = Some i"
  by (simp add: nearer_def Let_def split: prod.split)

lemma nearest_alive:
  assumes "nearest_player w cx cy = Some k"
  shows "k < MAX_PLAYERS \<and> pl_alive (players w ! k) \<noteq> 0"
proof -
  have "fst st = Some k \<or> k \<in> set is \<and> pl_alive (players w ! k) \<noteq> 0" if "fst (fold (nearer w cx cy) is st) = Some k" for "is" st
    using that
  proof (induction "is" arbitrary: st)
    case (Cons i "is")
    then have "fst (nearer w cx cy i st) = Some k \<or> k \<in> set is \<and> pl_alive (players w ! k) \<noteq> 0" by simp
    then show ?case using nearer_cases [of w cx cy i st] by auto
  qed simp
  from this [of "[0..<MAX_PLAYERS]" "(None, 0x7fff)"] assms show ?thesis by (auto simp: nearest_player_def)
qed

lemma attack_ok:
  assumes w: "game_ok g0 F w" and k: "k < MAX_PLAYERS" and alive: "pl_alive (players w ! k) \<noteq> 0"
  shows "ok_or S (attack k w) (game_ok g0 F)"
proof -
  let ?p = "players w ! k"
  have p: "player_ok (tiles w) ?p" using game_ok_parts(1) [OF w k] .
  have hit: "player_ok (tiles w) (?p\<lparr>pl_hp := pl_hp ?p - CREATURE_DMG\<rparr>)" if "CREATURE_DMG < pl_hp ?p"
  proof -
    have "pl_hp ?p \<noteq> 0" using that by auto
    then have "unat (pl_hp ?p - 1) = unat (pl_hp ?p) - 1" by (rule unat_minus_one)
    then show ?thesis using p that by (auto simp: player_ok_def CREATURE_DMG_def word_le_nat_alt word_less_nat_alt)
  qed
  have dead: "player_ok (tiles w) (?p\<lparr>pl_hp := 0, pl_alive := 0\<rparr>)" using p by (simp add: player_ok_def)
  show ?thesis
    using w k put_player_ok [OF w hit] put_respawn_ok [OF put_player_ok [OF w dead], of RESPAWN_T k] by (simp add: attack_def game_simps)
qed

lemma open_to_at: "game_ok g0 F w \<Longrightarrow> open_to w x y = Some (floor_at (tiles w) x y \<and> creature_at w x y = None)"
  by (simp add: open_to_def is_floor_at game_simps)

lemma vec_to_dir_less: "vec_to_dir dx dy < 8"
  by (auto simp: vec_to_dir_def Let_def GAME_DIR_NONE_def find_Some_iff split: option.split)

lemma put_creature_ok:
  assumes "game_ok g0 F w" "i < MAX_CREATURES" "floor_at (tiles w) (uint (cr_x c)) (uint (cr_y c))"
  shows "ok_or S (put_creature i c w) (game_ok g0 F)"
  using assms put_creature_game [OF assms(1), of c i] by (simp add: put_creature_def game_simps creature_ok_def)

lemma dir_of: "0 \<le> d \<Longrightarrow> d < 8 \<Longrightarrow> ok_or S (at_index game_dx (nat d)) P = P (game_dx ! nat d)" "0 \<le> d \<Longrightarrow> d < 8 \<Longrightarrow> ok_or S (at_index game_dy (nat d)) P = P (game_dy ! nat d)"
  by (simp_all add: game_dx_def game_dy_def nat_less_iff)

lemma chase_ok:
  assumes w: "game_ok g0 F w" and i: "i < MAX_CREATURES"
  shows "ok_or S (chase i c dx dy w) (game_ok g0 F)"
proof (cases "vec_to_dir dx dy < 0")
  case False
  let ?x = "uint (cr_x c)" and ?y = "uint (cr_y c)"
  let ?nx = "?x + game_dx ! nat (vec_to_dir dx dy)" and ?ny = "?y + game_dy ! nat (vec_to_dir dx dy)"
  let ?free = "\<lambda>x y. floor_at (tiles w) x y \<and> creature_at w x y = None"
  have eq: "ok_or S (chase i c dx dy w) (game_ok g0 F) = ok_or S
      (if ?free ?nx ?ny then put_creature i (c\<lparr>cr_x := word_of_int ?nx, cr_y := word_of_int ?ny\<rparr>) w
       else if ?free (?x + sgn_int dx) ?y then put_creature i (c\<lparr>cr_x := word_of_int (?x + sgn_int dx)\<rparr>) w
       else if ?free ?x (?y + sgn_int dy) then put_creature i (c\<lparr>cr_y := word_of_int (?y + sgn_int dy)\<rparr>) w else Some w) (game_ok g0 F)"
    using False vec_to_dir_less [of dx dy] by (simp add: chase_def Let_def dir_of open_to_at [OF w])
  have put: "ok_or S (put_creature i c' w) (game_ok g0 F)" if "floor_at (tiles w) x y" "uint (cr_x c') = x" "uint (cr_y c') = y" for x y c'
    using that by (intro put_creature_ok [OF w i]) simp
  have move: "ok_or S (put_creature i (c\<lparr>cr_x := word_of_int x, cr_y := word_of_int y\<rparr>) w) (game_ok g0 F)"
    "y = ?y \<Longrightarrow> ok_or S (put_creature i (c\<lparr>cr_x := word_of_int x\<rparr>) w) (game_ok g0 F)"
    "x = ?x \<Longrightarrow> ok_or S (put_creature i (c\<lparr>cr_y := word_of_int y\<rparr>) w) (game_ok g0 F)" if "floor_at (tiles w) x y" for x y
    using put [OF that] floor_at_word [OF that] by simp_all
  show ?thesis unfolding eq
    using w move(1) [of ?nx ?ny] move(2) [of "?x + sgn_int dx" ?y] move(3) [of ?x "?y + sgn_int dy"] by simp
qed (use w in \<open>simp add: chase_def\<close>)

lemma step_creature_ok:
  assumes w: "game_ok g0 F w" and i: "i < MAX_CREATURES"
  shows "ok_or S (step_creature i w) (game_ok g0 F)"
proof (cases "cr_alive (creatures w ! i) = 0")
  case False
  let ?c = "creatures w ! i"
  have c: "floor_at (tiles w) (uint (cr_x ?c)) (uint (cr_y ?c))" using game_ok_parts(2) [OF w i] False by (simp add: creature_ok_def)
  show ?thesis
  proof (cases "nearest_player w (uint (cr_x ?c)) (uint (cr_y ?c))")
    case (Some k)
    note k = nearest_alive [OF Some]
    show ?thesis
      using w i False Some k attack_ok [OF w, of k S] chase_ok [OF w i, of S ?c] by (simp add: step_creature_def Let_def game_simps)
  qed (use w i in \<open>simp add: step_creature_def game_simps\<close>)
qed (use w i in \<open>simp add: step_creature_def game_simps\<close>)

lemma step_creatures_ok: "game_ok g0 F w \<Longrightarrow> ok_or S (step_creatures w) (game_ok g0 F)"
  unfolding step_creatures_def by (auto intro!: for_each_ok step_creature_ok)

lemma step_respawn_ok:
  assumes w: "game_ok g0 F w" and i: "i < MAX_PLAYERS"
  shows "ok_or (rng_stuck g0) (step_respawn i w) (game_ok g0 F)"
proof (cases "pl_alive (players w ! i) = 0 \<and> 0 < respawn_t w ! i")
  case True
  let ?p = "players w ! i" and ?w = "w\<lparr>respawn_t := (respawn_t w)[i := respawn_t w ! i - 1]\<rparr>"
  have "respawn_t w ! i - 1 \<le> respawn_t w ! i" using True by (simp add: word_le_nat_alt unat_minus_one word_gt_0)
  then have w': "game_ok g0 F ?w" using put_respawn_ok [OF w order_trans [OF _ game_ok_parts(5) [OF w i]]] by blast
  have f: "follows g0 (gen w)" using w by (simp add: game_ok_def)
  have "game_ok g0 F (?w\<lparr>gen := g, players := (players w)[i := ?p\<lparr>pl_x := x, pl_y := y, pl_alive := 1, pl_hp := PLAYER_HP\<rparr>]\<rparr>)"
    if "follows g0 g" "floor_at (tiles w) (uint x) (uint y)" for g x y
  proof -
    have "player_ok (tiles ?w) (?p\<lparr>pl_x := x, pl_y := y, pl_alive := 1, pl_hp := PLAYER_HP\<rparr>)"
      using that(2) game_ok_parts(1) [OF w i] by (simp add: player_ok_def PLAYER_HP_def)
    from put_player_ok [OF put_gen_ok [OF w' that(1)], of "?p\<lparr>pl_x := x, pl_y := y, pl_alive := 1, pl_hp := PLAYER_HP\<rparr>" i] this show ?thesis by simp
  qed
  moreover have "ok_or (rng_stuck g0) (random_floor 4000 (tiles w) (gen w)) (\<lambda>(pos, g'). follows g0 g' \<and> (\<forall>x y. pos = Some (x, y) \<longrightarrow> floor_at (tiles w) (uint x) (uint y)))"
    using w by (intro random_floor_ok f) (simp add: game_simps)
  ultimately show ?thesis
    using w i True w' put_gen_ok [OF w']
    by (auto simp: step_respawn_def Let_def game_simps elim!: ok_or_mono split: option.split)
qed (use w i in \<open>auto simp: step_respawn_def game_simps\<close>)

lemma step_respawns_ok: "game_ok g0 F w \<Longrightarrow> ok_or (rng_stuck g0) (step_respawns w) (game_ok g0 F)"
  unfolding step_respawns_def by (auto intro!: for_each_ok step_respawn_ok)

lemma game_tick_ok:
  assumes "game_ok g0 F w"
  shows "ok_or (rng_stuck g0) (game_tick w) (game_ok g0 F)"
  unfolding game_tick_def ok_or_simps
  by (rule ok_or_mono [OF step_players_ok [OF assms]], rule ok_or_mono [OF step_shots_ok], assumption, rule ok_or_mono [OF step_creatures_ok], assumption,
      rule ok_or_mono [OF step_respawns_ok], assumption) (rule put_tick_ok)

lemma set_input_ok:
  assumes w: "game_ok g0 F w"
  shows "ok_or S (game_set_input k b w) (game_ok g0 F)"
proof (cases "0 \<le> k \<and> k < int MAX_PLAYERS")
  case True
  then have "nat k < MAX_PLAYERS" by linarith
  moreover have "player_ok (tiles w) ((players w ! nat k)\<lparr>pl_input := b\<rparr>)" using game_ok_parts(1) [OF w] calculation by (simp add: player_ok_def)
  ultimately show ?thesis using True w put_player_ok [OF w] by (simp add: game_set_input_def game_simps)
qed (use w in \<open>auto simp: game_set_input_def\<close>)

lemma add_player_ok:
  assumes w: "game_ok g0 F w"
  shows "ok_or (rng_stuck g0) (game_add_player w) (\<lambda>(r, w'). game_ok g0 F w' \<and> (r = GAME_ERR \<or> 0 \<le> r \<and> r < int MAX_PLAYERS))"
proof (cases "find (free_slot w) [0..<MAX_PLAYERS]")
  case (Some i)
  then have i: "i < MAX_PLAYERS" by (auto simp: find_Some_iff)
  let ?p = "\<lambda>x y. (players w ! i)\<lparr>pl_x := x, pl_y := y, pl_facing := 4, pl_alive := 1, pl_hp := PLAYER_HP, pl_input := IN_NONE, pl_score := 0\<rparr>"
  let ?n = "if unat (nplayers w) < i + 1 then of_nat (i + 1) else nplayers w :: u8"
  have "unat (of_nat (i + 1) :: u8) = i + 1" using i by (simp only: unat_of_nat) (simp add: MAX_PLAYERS_def take_bit_nat_eq_self)
  then have n: "unat ?n \<le> MAX_PLAYERS" using w i by (auto simp: game_ok_def game_wf_def)
  have "game_ok g0 F (w\<lparr>gen := g, players := (players w)[i := ?p x y], nplayers := ?n\<rparr>)"
    if "follows g0 g" "floor_at (tiles w) (uint x) (uint y)" for g x y
  proof -
    have "player_ok (tiles w) (?p x y)" using that(2) by (simp add: player_ok_def PLAYER_HP_def)
    from put_player_ok [OF put_gen_ok [OF w that(1)], of "?p x y" i] this n show ?thesis by (simp add: game_ok_def game_wf_def)
  qed
  moreover have "ok_or (rng_stuck g0) (random_floor 4000 (tiles w) (gen w)) (\<lambda>(pos, g'). follows g0 g' \<and> (\<forall>x y. pos = Some (x, y) \<longrightarrow> floor_at (tiles w) (uint x) (uint y)))"
    using w by (intro random_floor_ok) (simp_all add: game_simps, simp add: game_ok_def)
  ultimately show ?thesis
    using w i Some put_gen_ok [OF w]
    by (auto simp: game_add_player_def Let_def game_simps elim!: ok_or_mono split: option.split)
qed (use w in \<open>simp add: game_add_player_def\<close>)

end
