(* ===== verification/Thor_Map.thy ===== *)
theory Thor_Map
  imports Thor_Safe
begin

text \<open>
  The generated cave: the flood fill stays inside its arrays and ends, finds exactly the region of its start, and after
  \<open>keep_largest_region\<close> the floor is one region, a largest one of those there were.
\<close>

section \<open>Regions\<close>

text \<open>Cells are array indices.\<close>

definition inner :: "nat \<Rightarrow> bool" where
  "inner p \<longleftrightarrow> 1 \<le> p mod 96 \<and> p mod 96 < 95 \<and> 1 \<le> p div 96 \<and> p div 96 < 63"

definition open_cell :: "u8 list \<Rightarrow> nat \<Rightarrow> bool" where
  "open_cell ts p \<longleftrightarrow> inner p \<and> ts ! p \<noteq> T_WALL"

fun nbr :: "nat \<Rightarrow> nat \<Rightarrow> nat" where
  "nbr d p = (if d = 0 then p - 96 else if d = 2 then p + 1 else if d = 4 then p + 96 else p - 1)"

definition dirs4 :: "nat list" where "dirs4 = [0, 2, 4, 6]"

definition step4 :: "u8 list \<Rightarrow> nat \<Rightarrow> nat \<Rightarrow> bool" where
  "step4 ts p q \<longleftrightarrow> open_cell ts p \<and> open_cell ts q \<and> (q = p + 1 \<or> p = q + 1 \<or> q = p + 96 \<or> p = q + 96)"

definition region :: "u8 list \<Rightarrow> nat \<Rightarrow> nat set" where
  "region ts p = {q. (step4 ts)\<^sup>*\<^sup>* p q}"

lemma inner_less: "inner p \<Longrightarrow> p < 6144 \<and> 96 < p"
  unfolding inner_def using div_mult_mod_eq [of p 96] by linarith

lemma inner_at: "x < 96 \<Longrightarrow> inner (y * 96 + x) \<longleftrightarrow> 1 \<le> x \<and> x < 95 \<and> 1 \<le> y \<and> y < 63"
  by (simp add: inner_def)

lemma innerE:
  assumes "inner p"
  obtains x y where "p = y * 96 + x" "1 \<le> x" "x < 95" "1 \<le> y" "y < 63"
  using that [of "p div 96" "p mod 96"] assms by (simp add: inner_def)

lemma step4_sym: "step4 ts p q \<Longrightarrow> step4 ts q p"
  by (auto simp: step4_def)

lemma step4_nbr: "step4 ts p q \<Longrightarrow> \<exists>d\<in>set dirs4. q = nbr d p"
  by (auto simp: step4_def dirs4_def)

lemma nbr_step4: "open_cell ts p \<Longrightarrow> open_cell ts (nbr d p) \<Longrightarrow> d \<in> set dirs4 \<Longrightarrow> step4 ts p (nbr d p)"
  using inner_less [of p] by (auto simp: step4_def dirs4_def open_cell_def)

lemma region_refl: "p \<in> region ts p"
  by (simp add: region_def)

lemma region_step: "p \<in> region ts s \<Longrightarrow> step4 ts p q \<Longrightarrow> q \<in> region ts s"
  by (auto simp: region_def)

lemma region_sym: "q \<in> region ts p \<Longrightarrow> p \<in> region ts q"
  unfolding region_def mem_Collect_eq by (induction rule: rtranclp_induct) (auto intro: converse_rtranclp_into_rtranclp step4_sym)

lemma region_eq: "q \<in> region ts p \<Longrightarrow> region ts q = region ts p"
  using region_sym unfolding region_def mem_Collect_eq by (metis rtranclp_trans Collect_cong mem_Collect_eq)

lemma region_open: "q \<in> region ts p \<Longrightarrow> open_cell ts p \<Longrightarrow> open_cell ts q"
  unfolding region_def mem_Collect_eq by (induction rule: rtranclp_induct) (auto simp: step4_def)

lemma region_finite: "open_cell ts p \<Longrightarrow> finite (region ts p)"
  by (rule finite_subset [of _ "{..<6144}"]) (use region_open inner_less in \<open>auto simp: open_cell_def\<close>)

text \<open>A set closed under steps contains the regions of its members.\<close>

lemma region_closed:
  assumes "\<forall>p\<in>Z. \<forall>q. step4 ts p q \<longrightarrow> q \<in> Z" "s \<in> Z"
  shows "region ts s \<subseteq> Z"
proof
  fix q assume "q \<in> region ts s"
  then show "q \<in> Z" unfolding region_def mem_Collect_eq by (induction rule: rtranclp_induct) (use assms in auto)
qed

section \<open>The flood fill\<close>

definition marked :: "bool list \<Rightarrow> nat set" where
  "marked seen = {i. i < length seen \<and> seen ! i}"

definition stack_ok :: "bool list \<Rightarrow> u16 list \<Rightarrow> bool" where
  "stack_ok seen stk \<longleftrightarrow> distinct stk \<and> (\<forall>c\<in>set stk. unat c \<in> marked seen)"

lemma marked_finite [simp]: "finite (marked seen)"
  by (rule finite_subset [of _ "{..<length seen}"]) (auto simp: marked_def)

lemma marked_put: "i < length seen \<Longrightarrow> marked (seen[i := True]) = insert i (marked seen)"
  by (auto simp: marked_def nth_list_update)

lemma stack_short:
  assumes "stack_ok seen stk" "length seen = 6144" "i < 6144" "i \<notin> marked seen"
  shows "length stk < 6144"
proof -
  have "unat ` set stk \<subseteq> {..<6144} - {i}" using assms by (auto simp: stack_ok_def marked_def)
  then have "card (unat ` set stk) \<le> card ({..<6144} - {i})" by (intro card_mono) auto
  moreover have "card (unat ` set stk) = length stk"
    using assms(1) by (simp add: stack_ok_def distinct_card card_image inj_on_def unsigned_word_eqI)
  ultimately show ?thesis using assms(3) by simp
qed

lemma inner_coords:
  assumes "inner p" "d \<in> set dirs4"
  defines "nx \<equiv> int p mod MAP_W + game_dx ! d" and "ny \<equiv> int p div MAP_W + game_dy ! d"
  shows "ny * MAP_W + nx = int (nbr d p)" "on_map nx ny"
    "inner (nbr d p) \<longleftrightarrow> \<not> (nx < 1 \<or> ny < 1 \<or> MAP_W - 1 \<le> nx \<or> MAP_H - 1 \<le> ny)"
proof -
  obtain x y where p: "p = y * 96 + x" "1 \<le> x" "x < 95" "1 \<le> y" "y < 63" using innerE [OF assms(1)] .
  have "int p mod 96 = int (p mod 96)" "int p div 96 = int (p div 96)" by (simp_all add: zmod_int zdiv_int)
  then have xy: "int p mod 96 = int x" "int p div 96 = int y" using p by simp_all
  obtain x' y' where n: "nbr d p = y' * 96 + x'" "nx = int x'" "ny = int y'" "x' < 96" "y' < 64"
  proof -
    consider "d = 0" | "d = 2" | "d = 4" | "d = 6" using assms(2) by (auto simp: dirs4_def)
    then show ?thesis
    proof cases
      case 1
      show ?thesis by (rule that [of "y - 1" x]) (use 1 p xy in \<open>simp_all add: nx_def ny_def MAP_W_def game_dx_def game_dy_def diff_mult_distrib\<close>)
    next
      case 2
      show ?thesis by (rule that [of y "x + 1"]) (use 2 p xy in \<open>simp_all add: nx_def ny_def MAP_W_def game_dx_def game_dy_def\<close>)
    next
      case 3
      show ?thesis by (rule that [of "y + 1" x]) (use 3 p xy in \<open>simp_all add: nx_def ny_def MAP_W_def game_dx_def game_dy_def\<close>)
    next
      case 4
      show ?thesis by (rule that [of y "x - 1"]) (use 4 p xy in \<open>simp_all add: nx_def ny_def MAP_W_def game_dx_def game_dy_def\<close>)
    qed
  qed
  show "ny * MAP_W + nx = int (nbr d p)" "on_map nx ny" using n by (simp_all del: nbr.simps add: MAP_W_def MAP_H_def on_map_def)
  show "inner (nbr d p) \<longleftrightarrow> \<not> (nx < 1 \<or> ny < 1 \<or> MAP_W - 1 \<le> nx \<or> MAP_H - 1 \<le> ny)"
    using n inner_at [OF n(4), of y'] by (simp del: nbr.simps add: MAP_W_def MAP_H_def) linarith
qed

text \<open>One neighbour of cell \<open>p\<close>: it is marked and pushed if it is open and was not marked.\<close>

lemma push_dir_ok:
  assumes ts: "length ts = 6144" and p: "inner p" "d \<in> set dirs4" and seen: "length seen = 6144" "stack_ok seen stk"
  shows "\<exists>seen' stk'. push_dir ts (int p mod MAP_W) (int p div MAP_W) d (seen, stk) = Some (seen', stk') \<and> length seen' = 6144 \<and> stack_ok seen' stk' \<and>
    (if open_cell ts (nbr d p) \<and> nbr d p \<notin> marked seen
     then marked seen' = insert (nbr d p) (marked seen) \<and> map unat stk' = nbr d p # map unat stk else seen' = seen \<and> stk' = stk)"
proof -
  let ?nx = "int p mod MAP_W + game_dx ! d" and ?ny = "int p div MAP_W + game_dy ! d" and ?q = "nbr d p"
  note c = inner_coords [OF p]
  have q: "nat (?ny * MAP_W + ?nx) = ?q" "cell ?nx ?ny = ?q" using c(1) by (simp_all add: cell_def del: nbr.simps)
  have t: "TILE ts ?nx ?ny = Some (ts ! ?q)" using TILE_at [OF c(2) ts] q(2) by simp
  have len: "?q < 6144" using cell_less [OF c(2)] q(2) by simp
  show ?thesis
  proof (cases "open_cell ts ?q")
    case True
    then have inq: "inner ?q" "ts ! ?q \<noteq> T_WALL" by (simp_all add: open_cell_def del: nbr.simps)
    show ?thesis
    proof (cases "?q \<in> marked seen")
      case False
      then have ns: "\<not> seen ! ?q" using len seen(1) by (simp add: marked_def del: nbr.simps)
      have "length stk < 6144" using stack_short [OF seen(2,1) len False] .
      moreover have v: "unat (word_of_int (?ny * MAP_W + ?nx) :: u16) = ?q"
        using len unfolding c(1) by (simp add: unat_of_nat take_bit_nat_eq_self del: nbr.simps)
      ultimately have e: "push_dir ts (int p mod MAP_W) (int p div MAP_W) d (seen, stk) = Some (seen[?q := True], word_of_int (?ny * MAP_W + ?nx) # stk)"
        using c(3) inq t len ns seen(1) q by (simp add: push_dir_def Let_def at_index_def put_index_def del: nbr.simps)
      have m: "marked (seen[?q := True]) = insert ?q (marked seen)" using len seen(1) by (intro marked_put) simp
      have "stack_ok (seen[?q := True]) (word_of_int (?ny * MAP_W + ?nx) # stk)"
        using seen(2) False v unfolding stack_ok_def m by (metis insert_iff list.set(2) distinct.simps(2))
      then show ?thesis using e m v True False seen(1) by (simp del: nbr.simps)
    qed (use c(3) inq t len seen q in \<open>simp add: push_dir_def Let_def at_index_def marked_def del: nbr.simps\<close>)
  next
    case False
    then have "push_dir ts (int p mod MAP_W) (int p div MAP_W) d (seen, stk) = Some (seen, stk)"
      using c(3) t by (auto simp add: push_dir_def Let_def open_cell_def simp del: nbr.simps)
    then show ?thesis using False seen by (simp del: nbr.simps)
  qed
qed

declare nbr.simps [simp del]

text \<open>The fill of the region of \<open>s\<close>, where \<open>S0\<close> was marked before: \<open>busy\<close> holds the cell whose neighbours are being
  pushed, every other marked cell off the stack has its neighbours marked, and \<open>n\<close> counts the cells taken.\<close>

definition flood_inv :: "u8 list \<Rightarrow> nat set \<Rightarrow> nat \<Rightarrow> nat set \<Rightarrow> int \<Rightarrow> bool list \<Rightarrow> u16 list \<Rightarrow> bool" where
  "flood_inv ts S0 s busy n seen stk \<longleftrightarrow> length seen = 6144 \<and> stack_ok seen stk \<and> S0 \<subseteq> marked seen \<and> marked seen - S0 \<subseteq> region ts s \<and>
     s \<in> marked seen - S0 \<and> set (map unat stk) \<subseteq> marked seen - S0 \<and> busy \<subseteq> marked seen - S0 \<and> busy \<inter> set (map unat stk) = {} \<and>
     n + int (length stk + card busy) = int (card (marked seen - S0)) \<and>
     (\<forall>p\<in>marked seen - set (map unat stk) - busy. \<forall>q. step4 ts p q \<longrightarrow> q \<in> marked seen)"

lemma flood_invD:
  assumes "flood_inv ts S0 s busy n seen stk"
  shows "length seen = 6144" "stack_ok seen stk" "S0 \<subseteq> marked seen" "marked seen - S0 \<subseteq> region ts s" "s \<in> marked seen - S0"
    "set (map unat stk) \<subseteq> marked seen - S0" "busy \<subseteq> marked seen - S0" "busy \<inter> set (map unat stk) = {}"
    "n + int (length stk + card busy) = int (card (marked seen - S0))"
    "\<forall>p\<in>marked seen - set (map unat stk) - busy. \<forall>q. step4 ts p q \<longrightarrow> q \<in> marked seen"
  using assms unfolding flood_inv_def by blast+

lemma flood_push:
  assumes inv: "flood_inv ts S0 s {p} n seen stk" and q: "step4 ts p q" "q \<notin> marked seen"
    and new: "length seen' = 6144" "stack_ok seen' stk'" "marked seen' = insert q (marked seen)" "map unat stk' = q # map unat stk"
  shows "flood_inv ts S0 s {p} n seen' stk'"
proof -
  let ?Z = "marked seen" and ?T = "set (map unat stk)"
  note i = flood_invD(3-10) [OF inv]
  have T: "set (map unat stk') = insert q ?T" using new(4) by simp
  have "p \<in> region ts s" using i(2,5) by blast
  then have r: "q \<in> region ts s" using region_step q(1) by blast
  have n: "q \<notin> S0" "q \<noteq> p" using q(2) i(1,5) by blast+
  have Z: "insert q ?Z - S0 = insert q (?Z - S0)" using n(1) by blast
  have "card (insert q (?Z - S0)) = Suc (card (?Z - S0))" using q(2) by simp
  moreover have "length stk' = Suc (length stk)" using arg_cong [OF new(4), of length] by simp
  ultimately have c: "n + int (length stk' + card {p}) = int (card (insert q ?Z - S0))" using i(7) by (simp add: Z)
  have "\<forall>r\<in>insert q ?Z - insert q ?T - {p}. \<forall>q'. step4 ts r q' \<longrightarrow> q' \<in> insert q ?Z" using i(8) by blast
  moreover have "insert q ?Z - S0 \<subseteq> region ts s" "s \<in> insert q ?Z - S0" "insert q ?T \<subseteq> insert q ?Z - S0" "{p} \<subseteq> insert q ?Z - S0" "{p} \<inter> insert q ?T = {}" "S0 \<subseteq> insert q ?Z"
    using i(1-6) r n by blast+
  ultimately show ?thesis unfolding flood_inv_def new(3) T using new(1,2) c by blast
qed

lemma push_dirs_ok:
  assumes ts: "length ts = 6144" and p: "open_cell ts p" and ds: "set ds \<subseteq> set dirs4" and inv: "flood_inv ts S0 s {p} n seen stk"
  shows "\<exists>seen' stk'. for_each (push_dir ts (int p mod MAP_W) (int p div MAP_W)) ds (seen, stk) = Some (seen', stk') \<and> flood_inv ts S0 s {p} n seen' stk' \<and>
    marked seen \<subseteq> marked seen' \<and> (\<forall>d\<in>set ds. open_cell ts (nbr d p) \<longrightarrow> nbr d p \<in> marked seen')"
  using ds inv
proof (induction ds arbitrary: seen stk)
  case (Cons d ds)
  have ip: "inner p" using p by (simp add: open_cell_def)
  have d: "d \<in> set dirs4" using Cons.prems(1) by simp
  have sl: "length seen = 6144" "stack_ok seen stk" using Cons.prems(2) by (simp_all add: flood_inv_def)
  obtain seen1 stk1 where s1: "push_dir ts (int p mod MAP_W) (int p div MAP_W) d (seen, stk) = Some (seen1, stk1)" "length seen1 = 6144" "stack_ok seen1 stk1"
      "if open_cell ts (nbr d p) \<and> nbr d p \<notin> marked seen then marked seen1 = insert (nbr d p) (marked seen) \<and> map unat stk1 = nbr d p # map unat stk
       else seen1 = seen \<and> stk1 = stk"
    using push_dir_ok [OF ts ip d sl] by blast
  have inv1: "flood_inv ts S0 s {p} n seen1 stk1" and m: "marked seen \<subseteq> marked seen1" "open_cell ts (nbr d p) \<longrightarrow> nbr d p \<in> marked seen1"
    using s1(4) Cons.prems(2) flood_push [OF Cons.prems(2) nbr_step4 [OF p _ d] _ s1(2,3)] by (auto split: if_splits)
  have "set ds \<subseteq> set dirs4" using Cons.prems(1) by simp
  from Cons.IH [OF this inv1] obtain seen' stk' where
    s': "for_each (push_dir ts (int p mod MAP_W) (int p div MAP_W)) ds (seen1, stk1) = Some (seen', stk')" "flood_inv ts S0 s {p} n seen' stk'"
      "marked seen1 \<subseteq> marked seen'" "\<forall>d\<in>set ds. open_cell ts (nbr d p) \<longrightarrow> nbr d p \<in> marked seen'"
    by blast
  then show ?case using s1(1) m by auto
qed simp

lemma flood_pop:
  assumes inv: "flood_inv ts S0 s {} n seen (cur # stk)"
  shows "flood_inv ts S0 s {unat cur} n seen stk"
proof -
  let ?Z = "marked seen" and ?T = "set (map unat stk)"
  note i = flood_invD(1,3,4,5,2,6,9,10) [OF inv]
  have T: "set (map unat (cur # stk)) = insert (unat cur) ?T" by simp
  have st: "cur \<notin> set stk" "stack_ok seen stk" using i(5) by (simp_all add: stack_ok_def)
  then have "{unat cur} \<inter> ?T = {}" by (auto dest: unsigned_word_eqI)
  moreover have "\<forall>r\<in>?Z - ?T - {unat cur}. \<forall>q. step4 ts r q \<longrightarrow> q \<in> ?Z" using i(8) unfolding T by blast
  moreover have "n + int (length stk + card {unat cur}) = int (card (?Z - S0))" using i(7) by simp
  moreover have "?T \<subseteq> ?Z - S0" "{unat cur} \<subseteq> ?Z - S0" using i(6) unfolding T by blast+
  ultimately show ?thesis unfolding flood_inv_def using i(1-4) st(2) by blast
qed

lemma flood_done:
  assumes inv: "flood_inv ts S0 s {p} n seen stk" and p: "\<forall>q. step4 ts p q \<longrightarrow> q \<in> marked seen"
  shows "flood_inv ts S0 s {} (n + 1) seen stk"
proof -
  let ?Z = "marked seen" and ?T = "set (map unat stk)"
  note i = flood_invD(1-6,9,10) [OF inv]
  have "\<forall>r\<in>?Z - ?T - {}. \<forall>q. step4 ts r q \<longrightarrow> q \<in> ?Z" using i(8) p by blast
  moreover have "n + 1 + int (length stk + card {}) = int (card (?Z - S0))" using i(7) by simp
  ultimately show ?thesis unfolding flood_inv_def using i(1-6) by blast
qed

lemma flood_ok:
  assumes "length ts = 6144" "open_cell ts s" "\<forall>p\<in>S0. \<forall>q. step4 ts p q \<longrightarrow> q \<in> S0" "s \<notin> S0" "flood_inv ts S0 s {} n seen stk"
  shows "\<exists>seen'. flood ts seen stk n = Some (int (card (region ts s)), seen') \<and> length seen' = 6144 \<and> marked seen' = S0 \<union> region ts s"
  using assms
proof (induction ts seen stk n rule: flood.induct)
  case (1 ts seen n)
  have "region ts s \<subseteq> marked seen" using 1(5) by (intro region_closed) (auto simp: flood_inv_def)
  moreover have "x \<notin> S0" if "x \<in> region ts s" for x
    using region_closed [OF 1(3), of x] region_sym [OF that] 1(4) by blast
  ultimately have "marked seen - S0 = region ts s" using 1(5) by (auto simp: flood_inv_def)
  then show ?case using 1(5) by (auto simp: flood_inv_def)
next
  case (2 ts seen cur stk n)
  let ?p = "unat cur"
  have inv: "flood_inv ts S0 s {?p} n seen stk"
    by (rule flood_pop [OF 2(6)])
  then have "?p \<in> region ts s" unfolding flood_inv_def by blast
  then have p: "open_cell ts ?p" using region_open 2(3) by blast
  obtain seen1 stk1 where s1: "for_each (push_dir ts (int ?p mod MAP_W) (int ?p div MAP_W)) dirs4 (seen, stk) = Some (seen1, stk1)"
      "flood_inv ts S0 s {?p} n seen1 stk1" "\<forall>d\<in>set dirs4. open_cell ts (nbr d ?p) \<longrightarrow> nbr d ?p \<in> marked seen1"
    using push_dirs_ok [OF 2(2) p order_refl inv] by blast
  have "q \<in> marked seen1" if "step4 ts ?p q" for q
    using step4_nbr [OF that] that s1(3) by (auto simp: step4_def)
  then have inv1: "flood_inv ts S0 s {} (n + 1) seen1 stk1" using flood_done [OF s1(2)] by blast
  have f: "for_each (push_dir ts (uint cur mod MAP_W) (uint cur div MAP_W)) [0, 2, 4, 6] (seen, stk) = Some (seen1, stk1)"
    using s1(1) by (simp add: dirs4_def del: for_each.simps)
  from 2(1) [OF f refl 2(2-5) inv1] show ?case using f by (simp del: for_each.simps)
qed

lemma flood_from_ok:
  assumes ts: "length ts = 6144" and s: "open_cell ts s" "s \<notin> marked seen" and seen: "length seen = 6144" "\<forall>p\<in>marked seen. \<forall>q. step4 ts p q \<longrightarrow> q \<in> marked seen"
  shows "\<exists>seen'. flood_from ts seen (int s) = Some (int (card (region ts s)), seen') \<and> length seen' = 6144 \<and> marked seen' = marked seen \<union> region ts s"
proof -
  have len: "s < 6144" using s(1) inner_less by (auto simp: open_cell_def)
  have m: "marked (seen[s := True]) = insert s (marked seen)" using len seen(1) by (intro marked_put) simp
  have v: "unat (word_of_int (int s) :: u16) = s" using len by (simp add: unat_of_nat take_bit_nat_eq_self)
  have d: "marked (seen[s := True]) - marked seen = {s}" using s(2) m by auto
  have "flood_inv ts (marked seen) s {} 0 (seen[s := True]) [word_of_int (int s)]"
    using seen m v d region_refl [of s ts] by (auto simp: flood_inv_def stack_ok_def)
  from flood_ok [OF ts s(1) seen(2) s(2) this] show ?thesis
    using len seen(1) by (simp add: flood_from_def put_index_def)
qed

section \<open>The largest region\<close>

lemma for_each_acc:
  assumes "\<And>x D s. x \<in> set xs \<Longrightarrow> I D s \<Longrightarrow> ok_or S (f x s) (I (insert x D))" "I D s"
  shows "ok_or S (for_each f xs s) (I (D \<union> set xs))"
  using assms
proof (induction xs arbitrary: D s)
  case (Cons x xs)
  have "ok_or S (f x s) (I (insert x D))" using Cons.prems by simp
  from ok_or_mono [OF this] Cons.IH [OF Cons.prems(1), of "insert x D"] show ?case by simp
qed simp

lemma set_inner_cells: "(x, y) \<in> set inner_cells \<longleftrightarrow> 1 \<le> x \<and> x \<le> 94 \<and> 1 \<le> y \<and> y \<le> 62"
  by (force simp: inner_cells_def MAP_W_def MAP_H_def)

lemma set_map_cells: "(x, y) \<in> set map_cells \<longleftrightarrow> on_map x y"
  by (force simp: map_cells_def on_map_def MAP_W_def MAP_H_def)

lemma cell_at: "cell (int x) (int y) = y * 96 + x"
  by (simp add: cell_def MAP_W_def nat_int_add nat_mult_distrib)

lemma cell_coords:
  assumes "p < 6144"
  shows "on_map (int (p mod 96)) (int (p div 96))" "cell (int (p mod 96)) (int (p div 96)) = p"
  using assms by (auto simp: on_map_def MAP_W_def MAP_H_def cell_at less_mult_imp_div_less)

lemma inner_cell:
  assumes "(x, y) \<in> set inner_cells"
  shows "inner (cell x y)" "on_map x y" "y * MAP_W + x = int (cell x y)"
proof -
  obtain x' y' where "x = int x'" "y = int y'" using assms zero_le_imp_eq_int [of x] zero_le_imp_eq_int [of y] by (auto simp: set_inner_cells)
  then show "inner (cell x y)" "on_map x y" "y * MAP_W + x = int (cell x y)"
    using assms by (auto simp: set_inner_cells cell_at inner_at on_map_def MAP_W_def MAP_H_def)
qed

lemma inner_has_cell:
  assumes "inner p"
  shows "\<exists>x y. (x, y) \<in> set inner_cells \<and> cell x y = p"
proof -
  obtain x y where "p = y * 96 + x" "1 \<le> x" "x < 95" "1 \<le> y" "y < 63" using innerE [OF assms] .
  then have "(int x, int y) \<in> set inner_cells \<and> cell (int x) (int y) = p" by (simp add: set_inner_cells cell_at)
  then show ?thesis by blast
qed

definition closed :: "u8 list \<Rightarrow> nat set \<Rightarrow> bool" where
  "closed ts Z \<longleftrightarrow> (\<forall>p\<in>Z. open_cell ts p \<and> (\<forall>q. step4 ts p q \<longrightarrow> q \<in> Z))"

lemma closed_region: "closed ts Z \<Longrightarrow> open_cell ts s \<Longrightarrow> closed ts (Z \<union> region ts s)"
  unfolding closed_def using region_open region_step by blast

definition scan_inv :: "u8 list \<Rightarrow> (int \<times> int) set \<Rightarrow> bool list \<times> int \<times> int \<Rightarrow> bool" where
  "scan_inv ts D st \<longleftrightarrow> (case st of (seen, best_start, best_size) \<Rightarrow>
     length seen = 6144 \<and> closed ts (marked seen) \<and> (\<forall>(x, y)\<in>D. open_cell ts (cell x y) \<longrightarrow> cell x y \<in> marked seen) \<and>
     (\<forall>p\<in>marked seen. int (card (region ts p)) \<le> best_size) \<and>
     (best_start = -1 \<and> best_size = 0 \<or> (\<exists>b. best_start = int b \<and> open_cell ts b \<and> best_size = int (card (region ts b)))))"

lemma scan_cell_ok:
  assumes ts: "length ts = 6144" and c: "c \<in> set inner_cells" and inv: "scan_inv ts D st"
  shows "ok_or S (scan_cell ts c st) (scan_inv ts (insert c D))"
proof -
  obtain x y where xy: "c = (x, y)" by fastforce
  obtain seen bs sz where st: "st = (seen, bs, sz)" by (cases st)
  let ?p = "cell x y"
  note ic = inner_cell [OF c [unfolded xy]]
  have len: "?p < 6144" using cell_less [OF ic(2)] .
  have i: "length seen = 6144" "closed ts (marked seen)" "\<forall>p\<in>marked seen. int (card (region ts p)) \<le> sz"
    using inv by (auto simp: scan_inv_def st)
  have t: "TILE ts x y = Some (ts ! ?p)" "at_index seen (nat (y * MAP_W + x)) = Some (seen ! ?p)"
    using TILE_at [OF ic(2) ts] ic(3) len i(1) by (simp_all add: at_index_def)
  show ?thesis
  proof (cases "ts ! ?p = T_WALL \<or> seen ! ?p")
    case True
    then have "scan_cell ts c st = Some st" using t by (auto simp: scan_cell_def xy st Let_def)
    moreover have "open_cell ts ?p \<longrightarrow> ?p \<in> marked seen" using True len i(1) by (auto simp: open_cell_def marked_def)
    ultimately show ?thesis using inv by (auto simp: scan_inv_def st xy)
  next
    case False
    then have p: "open_cell ts ?p" "?p \<notin> marked seen" using ic(1) by (auto simp: open_cell_def marked_def)
    have cl: "\<forall>p\<in>marked seen. \<forall>q. step4 ts p q \<longrightarrow> q \<in> marked seen" using i(2) by (auto simp: closed_def)
    obtain seen' where f: "flood_from ts seen (int ?p) = Some (int (card (region ts ?p)), seen')" "length seen' = 6144" "marked seen' = marked seen \<union> region ts ?p"
      using flood_from_ok [OF ts p i(1) cl] by blast
    have r: "region ts q = region ts ?p" if "q \<in> region ts ?p" for q using region_eq [OF that] .
    have e: "scan_cell ts c st = Some (if sz < int (card (region ts ?p)) then (seen', int ?p, int (card (region ts ?p))) else (seen', bs, sz))"
      using False t f(1) ic(3) by (simp add: scan_cell_def xy st Let_def)
    have "closed ts (marked seen')" using closed_region [OF i(2) p(1)] by (simp add: f(3))
    moreover have "\<forall>(x, y)\<in>insert c D. open_cell ts (cell x y) \<longrightarrow> cell x y \<in> marked seen'"
      using inv region_refl [of ?p ts] by (auto simp: scan_inv_def st xy f(3))
    moreover have "int (card (region ts q)) \<le> (if sz < int (card (region ts ?p)) then int (card (region ts ?p)) else sz)" if "q \<in> marked seen'" for q
      using that i(3) r by (fastforce simp: f(3))
    moreover have "bs = -1 \<and> sz = 0 \<or> (\<exists>b. bs = int b \<and> open_cell ts b \<and> sz = int (card (region ts b)))" using inv by (simp add: scan_inv_def st)
    ultimately have "sz < int (card (region ts ?p)) \<Longrightarrow> scan_inv ts (insert c D) (seen', int ?p, int (card (region ts ?p)))"
      "\<not> sz < int (card (region ts ?p)) \<Longrightarrow> scan_inv ts (insert c D) (seen', bs, sz)"
      using p(1) f(2) unfolding scan_inv_def split_conv by auto
    then show ?thesis unfolding e by simp
  qed
qed

text \<open>Everything outside the marked cells becomes wall.\<close>

definition walled :: "u8 list \<Rightarrow> bool list \<Rightarrow> (int \<times> int) set \<Rightarrow> u8 list \<Rightarrow> bool" where
  "walled ts seen D ts' \<longleftrightarrow> length ts' = 6144 \<and>
     (\<forall>x y. on_map x y \<longrightarrow> ts' ! cell x y = (if (x, y) \<in> D \<and> cell x y \<notin> marked seen then T_WALL else ts ! cell x y))"

lemma wall_off_ok:
  assumes c: "c \<in> set map_cells" and seen: "length seen = 6144" and w: "walled ts seen D ts'"
  shows "ok_or S (wall_off seen c ts') (walled ts seen (insert c D))"
proof -
  obtain x y where xy: "c = (x, y)" by fastforce
  have m: "on_map x y" using c by (simp add: xy set_map_cells)
  have len: "cell x y < 6144" "length ts' = 6144" using cell_less [OF m] w by (simp_all add: walled_def)
  have s: "nat (y * MAP_W + x) = cell x y" by (simp add: cell_def)
  have "wall_off seen c ts' = Some (if ts' ! cell x y \<noteq> T_WALL \<and> cell x y \<notin> marked seen then ts'[cell x y := T_WALL] else ts')"
    using len seen by (auto simp: wall_off_def xy Let_def TILE_at [OF m] put_tile_at [OF m] s at_index_def marked_def)
  moreover have "(if ts' ! cell x y \<noteq> T_WALL \<and> cell x y \<notin> marked seen then ts'[cell x y := T_WALL] else ts') ! cell x' y' =
      (if (x', y') \<in> insert c D \<and> cell x' y' \<notin> marked seen then T_WALL else ts ! cell x' y')" if "on_map x' y'" for x' y'
    using w len that cell_inj [OF that m] by (cases "cell x' y' = cell x y") (auto simp: walled_def xy)
  ultimately show ?thesis using len(2) by (simp add: walled_def)
qed

lemma scan_start: "scan_inv ts {} (replicate 6144 False, -1, 0)"
  by (auto simp: scan_inv_def closed_def marked_def)

lemma marked_none: "marked (replicate n False) = {}"
  by (auto simp: marked_def)

lemma keep_largest_ok:
  assumes ts: "length ts = 6144"
  shows "\<exists>ts'. keep_largest_region ts = Some ts' \<and> length ts' = 6144 \<and> (\<forall>p\<in>floor_cells ts'. ts' ! p = ts ! p) \<and>
    (floor_cells ts' = {} \<or> (\<exists>b. open_cell ts b \<and> floor_cells ts' = region ts b)) \<and> (\<forall>p. open_cell ts p \<longrightarrow> card (region ts p) \<le> card (floor_cells ts'))"
proof -
  have "ok_or False (for_each (scan_cell ts) inner_cells (replicate 6144 False, -1, 0)) (scan_inv ts ({} \<union> set inner_cells))"
    by (rule for_each_acc) (auto intro: scan_start scan_cell_ok [OF ts])
  then obtain seen bs sz where scan: "for_each (scan_cell ts) inner_cells (replicate 6144 False, -1, 0) = Some (seen, bs, sz)" "scan_inv ts (set inner_cells) (seen, bs, sz)"
    by (auto simp: ok_or_def split: option.splits)
  have all: "int (card (region ts p)) \<le> sz" if "open_cell ts p" for p
    using inner_has_cell [of p] that scan(2) by (fastforce simp: scan_inv_def open_cell_def)
  obtain seen' where f: "(if 0 \<le> bs then flood_from ts (replicate 6144 False) bs else Some (0, replicate 6144 False)) = Some (if 0 \<le> bs then sz else 0, seen')"
      "length seen' = 6144" "marked seen' = (if 0 \<le> bs then region ts (nat bs) else {})" "0 \<le> bs \<longrightarrow> open_cell ts (nat bs) \<and> sz = int (card (region ts (nat bs)))" "bs < 0 \<longrightarrow> sz = 0"
  proof (cases "0 \<le> bs")
    case True
    then obtain b where b: "bs = int b" "open_cell ts b" "sz = int (card (region ts b))" using scan(2) by (auto simp: scan_inv_def)
    obtain seen' where "flood_from ts (replicate 6144 False) (int b) = Some (int (card (region ts b)), seen')" "length seen' = 6144" "marked seen' = {} \<union> region ts b"
      using flood_from_ok [OF ts b(2), of "replicate 6144 False"] by (auto simp: marked_none)
    then show ?thesis using that [of seen'] b by simp
  next
    case False
    then show ?thesis using that [of "replicate 6144 False"] scan(2) by (auto simp: scan_inv_def marked_none)
  qed
  have "walled ts seen' {} ts" using ts by (simp add: walled_def)
  then have "ok_or False (for_each (wall_off seen') map_cells ts) (walled ts seen' ({} \<union> set map_cells))"
    by (intro for_each_acc) (auto intro: wall_off_ok [OF _ f(2)])
  then obtain ts' where w: "for_each (wall_off seen') map_cells ts = Some ts'" "walled ts seen' (set map_cells) ts'" by (auto simp: ok_or_def split: option.splits)
  have at: "ts' ! p = (if p \<in> marked seen' then ts ! p else T_WALL)" if "p < 6144" for p
  proof -
    have "ts' ! cell (int (p mod 96)) (int (p div 96)) = (if cell (int (p mod 96)) (int (p div 96)) \<in> marked seen' then ts ! cell (int (p mod 96)) (int (p div 96)) else T_WALL)"
      using w(2) cell_coords(1) [OF that] by (simp add: walled_def set_map_cells)
    then show ?thesis unfolding cell_coords(2) [OF that] .
  qed
  have o: "p < 6144 \<and> ts ! p \<noteq> T_WALL" if "p \<in> marked seen'" for p
    using that f(3,4) region_open inner_less by (fastforce simp: open_cell_def split: if_splits)
  have fl: "floor_cells ts' = marked seen'" using at o by (auto simp: floor_cells_def split: if_splits)
  have k: "keep_largest_region ts = Some ts'" using scan(1) f(1) w(1) by (simp add: keep_largest_region_def del: for_each.simps)
  have "floor_cells ts' = {} \<or> (\<exists>b. open_cell ts b \<and> floor_cells ts' = region ts b)" using f(3,4) fl by auto
  moreover have "card (region ts p) \<le> card (floor_cells ts')" if "open_cell ts p" for p
    using all [OF that] f(3-5) fl by (cases "0 \<le> bs") auto
  moreover have "\<forall>p\<in>floor_cells ts'. ts' ! p = ts ! p" using at fl o by auto
  ultimately show ?thesis using k w(2) by (auto simp: walled_def)
qed

text \<open>The floor is one region when any two floor cells are joined by steps from floor to floor.\<close>

definition one_region :: "u8 list \<Rightarrow> bool" where
  "one_region ts \<longleftrightarrow> (\<forall>p\<in>floor_cells ts. inner p \<and> floor_cells ts = region ts p)"

lemma kept_one_region:
  assumes b: "open_cell ts b" and f: "floor_cells ts' = region ts b" and same: "\<forall>p\<in>floor_cells ts'. ts' ! p = ts ! p"
  shows "one_region ts'"
proof -
  have o: "open_cell ts' p" if "p \<in> region ts b" for p
    using that region_open [OF that b] same f by (simp add: open_cell_def)
  have sub: "p \<in> region ts' b" if "p \<in> region ts b" for p
    using that unfolding region_def mem_Collect_eq
  proof (induction rule: rtranclp_induct)
    case (step p q)
    then have "p \<in> region ts b" "q \<in> region ts b" by (auto simp: region_def)
    then have "step4 ts' p q" using o step.hyps(2) by (simp add: step4_def)
    then show ?case using step.IH by auto
  qed simp
  have "open_cell ts' b" using o region_refl by blast
  then have "region ts' b \<subseteq> floor_cells ts'"
    using region_open inner_less by (fastforce simp: floor_cells_def open_cell_def)
  then have eq: "region ts' b = floor_cells ts'" using sub f by auto
  show ?thesis unfolding one_region_def
  proof (intro ballI conjI)
    fix p assume "p \<in> floor_cells ts'"
    then have p: "p \<in> region ts b" using f by simp
    then show "inner p" using o by (simp add: open_cell_def)
    show "floor_cells ts' = region ts' p" using region_eq [OF sub [OF p]] eq by simp
  qed
qed

lemma largest_kept:
  assumes "length ts = 6144"
  shows "\<exists>ts'. keep_largest_region ts = Some ts' \<and> length ts' = 6144 \<and> one_region ts' \<and> (\<forall>p\<in>floor_cells ts'. ts' ! p = ts ! p) \<and>
    (\<forall>p. open_cell ts p \<longrightarrow> card (region ts p) \<le> card (floor_cells ts'))"
proof -
  obtain ts' where k: "keep_largest_region ts = Some ts'" "length ts' = 6144" "\<forall>p\<in>floor_cells ts'. ts' ! p = ts ! p"
      "floor_cells ts' = {} \<or> (\<exists>b. open_cell ts b \<and> floor_cells ts' = region ts b)" "\<forall>p. open_cell ts p \<longrightarrow> card (region ts p) \<le> card (floor_cells ts')"
    using keep_largest_ok [OF assms] by blast
  have "one_region ts'" using k(4) kept_one_region [OF _ _ k(3)] by (auto simp: one_region_def)
  then show ?thesis using k by blast
qed

text \<open>
  C22: Map generation ends with one cave: \<open>keep_largest_region\<close> returns on every map, without leaving its scratch
  arrays, and what it keeps is one connected region of the old floor, unchanged, that is at least as large as every region there was.
\<close>

theorem map_largest_region:
  assumes "length ts = 6144"
  shows "\<exists>ts'. keep_largest_region ts = Some ts' \<and> length ts' = 6144 \<and> one_region ts' \<and> (\<forall>p\<in>floor_cells ts'. ts' ! p = ts ! p) \<and>
    (\<forall>p. open_cell ts p \<longrightarrow> card (region ts p) \<le> card (floor_cells ts'))"
  using largest_kept [OF assms] .

theorem map_largest_region_witness:
  "\<exists>ts'. keep_largest_region (replicate 6144 T_FLOOR) = Some ts' \<and> one_region ts' \<and> floor_cells ts' \<noteq> {}"
proof -
  let ?ts = "replicate 6144 T_FLOOR"
  have "length ?ts = 6144" by simp
  from map_largest_region [OF this] obtain ts' where k: "keep_largest_region ?ts = Some ts'" "one_region ts'"
      "\<forall>p. open_cell ?ts p \<longrightarrow> card (region ?ts p) \<le> card (floor_cells ts')"
    by blast
  have o: "open_cell ?ts 97" by (simp add: open_cell_def inner_def T_FLOOR_def T_WALL_def)
  have "0 < card (region ?ts 97)" using region_finite [OF o] region_refl by (auto simp: card_gt_0_iff)
  then have "floor_cells ts' \<noteq> {}" using k(3) o by fastforce
  then show ?thesis using k by blast
qed

section \<open>Map and world\<close>

lemma rng_pct: "(100 :: u32) \<in> {62, 94, 100}" by simp

lemma fill_cell_ok:
  assumes "c \<in> set map_cells" "length (fst st) = 6144 \<and> follows g0 (snd st)"
  shows "ok_or (rng_stuck g0) (fill_cell c st) (\<lambda>st. length (fst st) = 6144 \<and> follows g0 (snd st))"
proof -
  obtain x y where xy: "c = (x, y)" by fastforce
  obtain ts g where st: "st = (ts, g)" by fastforce
  have m: "on_map x y" using assms(1) by (simp add: xy set_map_cells)
  have r: "ok_or (rng_stuck g0) (rng_range 100 g) (\<lambda>(r, g'). r < 100 \<and> follows g0 g')" using assms(2) by (intro rng_range_ok) (simp_all add: st)
  from ok_or_mono [OF r, of "\<lambda>(r, g'). follows g0 g'"] show ?thesis
    using assms(2) by (auto simp: fill_cell_def xy st Let_def put_tile_at [OF m] elim!: ok_or_mono)
qed

lemma wall_neighbors_ok:
  assumes "length ts = 6144" "(x, y) \<in> set inner_cells"
  shows "ok_or S (wall_neighbors ts x y) (\<lambda>_. True)"
  unfolding wall_neighbors_def
proof (rule for_each_ok)
  fix d n assume "d \<in> set around"
  moreover obtain dx dy where d: "d = (dx, dy)" by fastforce
  ultimately have "on_map (x + dx) (y + dy)" using assms(2) by (auto simp: around_def set_inner_cells on_map_def MAP_W_def MAP_H_def)
  then show "ok_or S (wall_neighbor ts x y d n) (\<lambda>_. True)" using assms(1) by (simp add: wall_neighbor_def d TILE_at)
qed simp

lemma smooth_pass_ok:
  assumes "length ts = 6144"
  shows "ok_or S (smooth_pass k ts) (\<lambda>ts'. length ts' = 6144)"
proof -
  have cells: "nat (y * MAP_W + x) < 6144 \<and> on_map x y" if "(x, y) \<in> set inner_cells" for x y
    using inner_cell(2) [OF that] cell_less [of x y] by (simp add: cell_def)
  have "ok_or S (for_each (smooth_cell ts) inner_cells (replicate 6144 0)) (\<lambda>nxt. length nxt = 6144)"
  proof (rule for_each_ok)
    fix c and nxt :: "u8 list" assume a: "c \<in> set inner_cells" "length nxt = 6144"
    obtain x y where xy: "c = (x, y)" by fastforce
    have "ok_or S (wall_neighbors ts x y) (\<lambda>n. ok_or S (put_index nxt (nat (y * MAP_W + x)) (if 5 \<le> n then T_WALL else T_FLOOR)) (\<lambda>nxt. length nxt = 6144))"
      by (rule ok_or_mono [OF wall_neighbors_ok [OF assms]]) (use a cells [of x y] in \<open>simp_all add: xy\<close>)
    then show "ok_or S (smooth_cell ts c nxt) (\<lambda>nxt. length nxt = 6144)" by (simp add: smooth_cell_def xy)
  qed simp
  moreover have "ok_or S (for_each (copy_cell nxt) inner_cells ts) (\<lambda>ts'. length ts' = 6144)" if "length nxt = 6144" for nxt
    by (rule for_each_ok) (use cells that assms in \<open>auto simp: copy_cell_def put_tile_at\<close>)
  ultimately show ?thesis unfolding smooth_pass_def ok_or_simps by (rule ok_or_mono)
qed

lemma gen_map_ok:
  assumes ts: "length ts = 6144" and f: "follows g0 g"
  shows "ok_or (rng_stuck g0) (gen_map ts g) (\<lambda>(ts', g'). length ts' = 6144 \<and> follows g0 g' \<and> one_region ts')"
proof -
  have s1: "ok_or (rng_stuck g0) (for_each fill_cell map_cells (ts, g)) (\<lambda>st. length (fst st) = 6144 \<and> follows g0 (snd st))"
    by (rule for_each_ok) (use ts f in \<open>auto intro: fill_cell_ok\<close>)
  have s2: "ok_or (rng_stuck g0) (for_each smooth_pass [0..<4] ts1) (\<lambda>ts'. length ts' = 6144)" if "length ts1 = 6144" for ts1
    by (rule for_each_ok) (use that smooth_pass_ok in auto)
  have s3: "ok_or (rng_stuck g0) (keep_largest_region ts1) (\<lambda>ts'. length ts' = 6144 \<and> one_region ts')" if "length ts1 = 6144" for ts1
    using largest_kept [OF that] by auto
  show ?thesis unfolding gen_map_def ok_or_simps
    by (rule ok_or_mono [OF s1], clarsimp, rule ok_or_mono [OF s2], assumption, rule ok_or_mono [OF s3], assumption) simp
qed

lemma spawn_creature_ok:
  assumes w: "game_ok g0 F w" and i: "i < MAX_CREATURES"
  shows "ok_or (rng_stuck g0) (spawn_creature i w) (game_ok g0 F)"
proof -
  have f: "follows g0 (gen w)" and len: "length (tiles w) = 6144" using w game_ok_lengths(1) [OF w] by (simp_all add: game_ok_def)
  have "game_ok g0 F (w\<lparr>gen := g, creatures := (creatures w)[i := \<lparr>cr_x = x, cr_y = y, cr_kind = 0, cr_alive = 1\<rparr>]\<rparr>)"
    if "follows g0 g" "floor_at (tiles w) (uint x) (uint y)" for g x y
    using put_creature_game [OF put_gen_ok [OF w that(1)], of "\<lparr>cr_x = x, cr_y = y, cr_kind = 0, cr_alive = 1\<rparr>" i] that(2) by (simp add: creature_ok_def)
  then have "ok_or (rng_stuck g0) (case pos of None \<Rightarrow> Some (w\<lparr>gen := g\<rparr>)
      | Some (x, y) \<Rightarrow> do { cs \<leftarrow> put_index (creatures (w\<lparr>gen := g\<rparr>)) i \<lparr>cr_x = x, cr_y = y, cr_kind = 0, cr_alive = 1\<rparr>; Some (w\<lparr>gen := g, creatures := cs\<rparr>) }) (game_ok g0 F)"
    if "follows g0 g \<and> (\<forall>x y. pos = Some (x, y) \<longrightarrow> floor_at (tiles w) (uint x) (uint y))" for pos g
    using that w i put_gen_ok [OF w] by (auto simp: game_simps split: option.split)
  then show ?thesis
    using w i unfolding spawn_creature_def Let_def
    by (simp add: game_simps) (rule ok_or_mono [OF random_floor_ok [OF len f]], auto)
qed

lemma game_start_ok:
  assumes "length ts = 6144"
  shows "game_ok g0 (floor_cells ts) ((world.extend world_zero (game.fields (replicate MAX_PLAYERS 0) (replicate MAX_PLAYERS 0) g))\<lparr>tiles := ts, gen := g'\<rparr>) \<longleftrightarrow> follows g0 g'"
  using assms by (auto simp: game_ok_def game_wf_def world.extend_def game.fields_def world_zero_def player_ok_def creature_ok_def shot_ok_def)

text \<open>Being one region is a property of the set of floor cells.\<close>

lemma one_region_cong:
  assumes "floor_cells ts = floor_cells ts'" "one_region ts'"
  shows "one_region ts"
proof -
  have "open_cell t p \<longleftrightarrow> inner p \<and> p \<in> floor_cells t" for t p using inner_less [of p] by (auto simp: open_cell_def floor_cells_def)
  then have "step4 ts = step4 ts'" using assms(1) by (intro ext) (simp add: step4_def)
  then show ?thesis using assms by (simp add: one_region_def region_def)
qed

definition seeded :: "u16 \<Rightarrow> game \<Rightarrow> rng" where
  "seeded seed w = rng_seed (ucast seed) (ucast (drop_bit 8 seed)) 0x5A (gen w)"

lemma game_init_ok:
  "ok_or (rng_stuck (seeded seed w)) (game_init seed w) (\<lambda>w'. \<exists>ts. one_region ts \<and> game_ok (seeded seed w) (floor_cells ts) w')"
proof -
  let ?g = "seeded seed w"
  let ?w = "world.extend world_zero (game.fields (replicate MAX_PLAYERS 0) (replicate MAX_PLAYERS 0) ?g)"
  have len: "length (tiles ?w) = 6144" and gen: "gen ?w = ?g" by (simp_all add: world.extend_def game.fields_def world_zero_def)
  have spawn: "ok_or (rng_stuck ?g) (for_each spawn_creature [0..<MAX_CREATURES] (?w\<lparr>tiles := ts, gen := g\<rparr>)) (\<lambda>w'. \<exists>ts. one_region ts \<and> game_ok ?g (floor_cells ts) w')"
    if "length ts = 6144" "follows ?g g" "one_region ts" for ts g
  proof -
    have "ok_or (rng_stuck ?g) (for_each spawn_creature [0..<MAX_CREATURES] (?w\<lparr>tiles := ts, gen := g\<rparr>)) (game_ok ?g (floor_cells ts))"
    proof (rule for_each_ok)
      show "game_ok ?g (floor_cells ts) (?w\<lparr>tiles := ts, gen := g\<rparr>)" by (rule iffD2 [OF game_start_ok [OF that(1)] that(2)])
    qed (rule spawn_creature_ok, assumption, simp)
    then show ?thesis by (rule ok_or_mono) (use that(3) in blast)
  qed
  have "ok_or (rng_stuck ?g) (gen_map (tiles ?w) (gen ?w)) (\<lambda>(ts, g). ok_or (rng_stuck ?g) (for_each spawn_creature [0..<MAX_CREATURES] (?w\<lparr>tiles := ts, gen := g\<rparr>))
      (\<lambda>w'. \<exists>ts. one_region ts \<and> game_ok ?g (floor_cells ts) w'))"
    by (rule ok_or_mono [OF gen_map_ok [OF len]], simp only: gen follows_refl, clarify, rule spawn)
  then show ?thesis unfolding game_init_def Let_def seeded_def ok_or_simps by (rule ok_or_mono) (auto simp: case_prod_beta)
qed

section \<open>Games\<close>

text \<open>What the server does to a game: a player joins, sends input, or leaves (\<open>gserver_service\<close> clears \<open>alive\<close>), and a tick.\<close>

datatype game_op = Join | Input int u8 | Leave nat | Tick

fun exec_game :: "game_op \<Rightarrow> game \<Rightarrow> game option" where
  "exec_game Join w = map_option snd (game_add_player w)"
| "exec_game (Input i b) w = game_set_input i b w"
| "exec_game (Leave i) w = (if i < MAX_PLAYERS then Some (w\<lparr>players := (players w)[i := (players w ! i)\<lparr>pl_alive := 0\<rparr>]\<rparr>) else Some w)"
| "exec_game Tick w = game_tick w"

definition play :: "u16 \<Rightarrow> game_op list \<Rightarrow> game \<Rightarrow> game option" where
  "play seed ops w = do { w \<leftarrow> game_init seed w; for_each exec_game ops w }"

lemma exec_game_ok:
  assumes w: "game_ok g0 F w"
  shows "ok_or (rng_stuck g0) (exec_game op w) (game_ok g0 F)"
proof (cases op)
  case Join
  from add_player_ok [OF w] show ?thesis by (auto simp: Join ok_or_def split: option.splits)
next
  case (Input i b)
  then show ?thesis using set_input_ok [OF w] by simp
next
  case (Leave i)
  have "player_ok (tiles w) ((players w ! i)\<lparr>pl_alive := 0\<rparr>)" if "i < MAX_PLAYERS"
    using game_ok_parts(1) [OF w that] by (simp add: player_ok_def)
  then show ?thesis using w put_player_ok [OF w] by (simp add: Leave)
next
  case Tick
  then show ?thesis using game_tick_ok [OF w] by simp
qed

text \<open>Any two living players can reach each other.\<close>

definition all_meet :: "game \<Rightarrow> bool" where
  "all_meet w \<longleftrightarrow> (\<forall>p\<in>set (players w). \<forall>q\<in>set (players w). pl_alive p \<noteq> 0 \<and> pl_alive q \<noteq> 0 \<longrightarrow>
     cell (uint (pl_x q)) (uint (pl_y q)) \<in> region (tiles w) (cell (uint (pl_x p)) (uint (pl_y p))))"

lemma play_ok:
  "ok_or (rng_stuck (seeded seed w)) (play seed ops w) (\<lambda>w'. game_wf w' \<and> one_region (tiles w'))"
proof -
  have "ok_or (rng_stuck (seeded seed w)) (for_each exec_game ops w1) (\<lambda>w'. game_wf w' \<and> one_region (tiles w'))"
    if "one_region ts" "game_ok (seeded seed w) (floor_cells ts) w1" for w1 ts
  proof -
    have "ok_or (rng_stuck (seeded seed w)) (for_each exec_game ops w1) (game_ok (seeded seed w) (floor_cells ts))"
      by (rule for_each_ok) (use that(2) exec_game_ok in auto)
    from ok_or_mono [OF this] show ?thesis using one_region_cong [OF _ that(1)] by (simp add: game_ok_def)
  qed
  then show ?thesis unfolding play_def ok_or_simps by (intro ok_or_mono [OF game_init_ok]) blast
qed

text \<open>
  C21: Whatever players do, in every state of a game from any seed: every array access was inside its array; all fields are within their
  bounds (directions below 8, health at most 10, timers, owners, number of players); all living players and creatures and all flying
  shots stand on floor tiles; and the floor is one region, so any two of them can reach each other.  A call fails to
  return only when the generator gives nothing but rejected bytes from some point on.
\<close>

theorem game_well_typed:
  "case play seed ops w of Some w' \<Rightarrow> game_wf w' \<and> one_region (tiles w') \<and> all_meet w' | None \<Rightarrow> rng_stuck (seeded seed w)"
proof -
  have reach: "cell (uint (pl_x q)) (uint (pl_y q)) \<in> region (tiles w') (cell (uint (pl_x p)) (uint (pl_y p)))"
    if "game_wf w'" "one_region (tiles w')" "p \<in> set (players w')" "q \<in> set (players w')" "pl_alive p \<noteq> 0" "pl_alive q \<noteq> 0" for w' p q
  proof -
    have "cell (uint (pl_x r)) (uint (pl_y r)) \<in> floor_cells (tiles w')" if "r \<in> set (players w')" "pl_alive r \<noteq> 0" for r
      using that \<open>game_wf w'\<close> cell_less by (auto simp: game_wf_def player_ok_def floor_at_def floor_cells_def)
    then show ?thesis using that unfolding one_region_def by metis
  qed
  then have "all_meet w'" if "game_wf w'" "one_region (tiles w')" for w' using that by (simp add: all_meet_def)
  then show ?thesis using play_ok [of seed w ops] by (auto simp: ok_or_def split: option.splits)
qed

end
