(* ===== verification/Thor_Net.thy ===== *)
theory Thor_Net
  imports Thor_Map MC_Window
begin

text \<open>
  The network half of the example game (\<open>src/microchan/examples/thor/game_net.c\<close>): the state broadcast, the map transfer, chat and input
  over two microchan channels per client, and the server that ties four connections to one game.

  A connection pointer is an option, a channel pointer the index in its connection.  The two values of \<open>rand\<close> a new
  connection takes and the outcome of its allocation are arguments.  The receive buffer \<open>msg\<close> of a drain is an argument too:
  it is not initialised, and a message overwrites only its first bytes.  Calls of \<open>on_chat\<close> are listed.
\<close>

section \<open>State\<close>

definition GAME_TICK_MS :: u32 where "GAME_TICK_MS = 125"
definition GM_WELCOME :: u8 where "GM_WELCOME = 1"
definition GM_MAP :: u8 where "GM_MAP = 2"
definition GM_MAPEND :: u8 where "GM_MAPEND = 3"
definition GM_CHAT :: u8 where "GM_CHAT = 4"
definition GM_INPUT :: u8 where "GM_INPUT = 5"
definition GM_STATE :: u8 where "GM_STATE = 6"
definition CHAT_MAX :: nat where "CHAT_MAX = 40"
definition MAP_BYTES :: nat where "MAP_BYTES = 6144"
definition MAP_CHUNK :: nat where "MAP_CHUNK = 512"

record gconn =
  gc_nc :: "microchan option"
  gc_addr :: mc_addr
  gc_rel :: "nat option"
  gc_unr :: "nat option"
  gc_player :: int
  gc_map_off :: u16
  gc_used :: bool
  gc_mapped :: bool

record gserver =
  sv_conn :: "gconn list"
  sv_game :: game
  last_tick_ms :: u32
  sv_on_chat :: bool
  sv_chats :: "(int \<times> bytes) list"

record gclient =
  cl_nc :: "microchan option"
  cl_rel :: "nat option"
  cl_unr :: "nat option"
  cl_world :: world
  cl_player :: int
  cl_map_off :: u16
  cl_have_map :: bool
  cl_on_chat :: bool
  cl_chats :: "(int \<times> bytes) list"

definition gconn_zero :: gconn where
  "gconn_zero = \<lparr>gc_nc = None, gc_addr = mc_addr_zero, gc_rel = None, gc_unr = None, gc_player = 0, gc_map_off = 0, gc_used = False, gc_mapped = False\<rparr>"

definition addr_eq :: "mc_addr \<Rightarrow> mc_addr \<Rightarrow> bool" where
  "addr_eq a b \<longleftrightarrow> ma_len a = ma_len b \<and> take (unat (ma_len a)) (ma_bytes a) = take (unat (ma_len a)) (ma_bytes b)"

text \<open>Channel calls on a connection pointer.\<close>

definition nc_read :: "microchan option \<Rightarrow> nat option \<Rightarrow> int \<times> bytes \<times> microchan option" where
  "nc_read nc p = (case nc of None \<Rightarrow> (0, [], None) | Some c \<Rightarrow> (case mc_read c p MC_MTU of (n, d, c') \<Rightarrow> (n, d, Some c')))"

definition nc_write :: "microchan option \<Rightarrow> nat option \<Rightarrow> bytes \<Rightarrow> int \<times> microchan option" where
  "nc_write nc p d = (case nc of None \<Rightarrow> (MC_ERR, None) | Some c \<Rightarrow> (case mc_write c p d of (r, c') \<Rightarrow> (r, Some c')))"

text \<open>\<open>mc_read\<close> into a buffer.\<close>

definition fill_buf :: "bytes \<Rightarrow> bytes \<Rightarrow> bytes" where
  "fill_buf msg d = d @ drop (length d) msg"

section \<open>State serialization\<close>

definition player_bytes :: "player \<Rightarrow> bytes" where
  "player_bytes p = [pl_alive p, pl_x p, pl_y p, pl_facing p, pl_hp p] @ wr16 (pl_score p)"

definition creature_bytes :: "creature \<Rightarrow> bytes" where
  "creature_bytes c = [cr_x c, cr_y c, cr_kind c]"

definition shot_bytes :: "shot \<Rightarrow> bytes" where
  "shot_bytes s = [sh_x s, sh_y s, sh_dir s]"

definition serialize_state :: "'a world_scheme \<Rightarrow> bytes option" where
  "serialize_state w =
     (let cs = filter (\<lambda>c. cr_alive c \<noteq> 0) (creatures w); ss = filter (\<lambda>s. sh_alive s \<noteq> 0) (shots w) in
      emit MC_MTU [] ([GM_STATE] @ wr16 (tick w) @ concat (map player_bytes (players w)) @
        [of_nat (length cs)] @ concat (map creature_bytes cs) @ [of_nat (length ss)] @ concat (map shot_bytes ss)))"

definition read_player :: "bytes \<Rightarrow> nat \<Rightarrow> player list \<Rightarrow> player list option" where
  "read_player b i ps = do {
     p \<leftarrow> at_index ps i;
     al \<leftarrow> rd8 b (3 + 7 * i); x \<leftarrow> rd8 b (4 + 7 * i); y \<leftarrow> rd8 b (5 + 7 * i); fc \<leftarrow> rd8 b (6 + 7 * i); hp \<leftarrow> rd8 b (7 + 7 * i);
     sc \<leftarrow> rd16 b (8 + 7 * i);
     put_index ps i (p\<lparr>pl_alive := al, pl_x := x, pl_y := y, pl_facing := fc, pl_hp := hp, pl_score := sc\<rparr>) }"

definition read_creature :: "bytes \<Rightarrow> nat \<Rightarrow> nat \<Rightarrow> creature list \<Rightarrow> creature list option" where
  "read_creature b off i cs = do {
     x \<leftarrow> rd8 b (off + 3 * i); y \<leftarrow> rd8 b (off + 3 * i + 1); k \<leftarrow> rd8 b (off + 3 * i + 2);
     put_index cs i \<lparr>cr_x = x, cr_y = y, cr_kind = k, cr_alive = 1\<rparr> }"

definition read_shot :: "bytes \<Rightarrow> nat \<Rightarrow> nat \<Rightarrow> shot list \<Rightarrow> shot list option" where
  "read_shot b off i ss = do {
     s \<leftarrow> at_index ss i;
     x \<leftarrow> rd8 b (off + 3 * i); y \<leftarrow> rd8 b (off + 3 * i + 1); d \<leftarrow> rd8 b (off + 3 * i + 2);
     put_index ss i (s\<lparr>sh_x := x, sh_y := y, sh_dir := d, sh_alive := 1\<rparr>) }"

text \<open>The whole buffer is readable, whatever the length of the message.\<close>

definition deserialize_state :: "'a world_scheme \<Rightarrow> bytes \<Rightarrow> nat \<Rightarrow> 'a world_scheme option" where
  "deserialize_state w b len =
     (if len < 3 + MAX_PLAYERS * 7 then Some w
      else do {
        t \<leftarrow> rd16 b 1;
        ps \<leftarrow> for_each (read_player b) [0..<MAX_PLAYERS] (players w);
        n \<leftarrow> rd8 b 31;
        let nc = min (unat n) MAX_CREATURES;
        cs \<leftarrow> for_each (read_creature b 32) [0..<nc] (map (\<lambda>c. c\<lparr>cr_alive := 0\<rparr>) (creatures w));
        m \<leftarrow> rd8 b (32 + 3 * nc);
        ss \<leftarrow> for_each (read_shot b (33 + 3 * nc)) [0..<min (unat m) MAX_SHOTS] (map (\<lambda>s. s\<lparr>sh_alive := 0\<rparr>) (shots w));
        Some (w\<lparr>tick := t, players := ps, creatures := cs, shots := ss\<rparr>) })"

section \<open>Server\<close>

definition gserver_init :: "u16 \<Rightarrow> game \<Rightarrow> gserver option" where
  "gserver_init seed w = do {
     w \<leftarrow> game_init seed w;
     Some \<lparr>sv_conn = replicate MAX_PLAYERS gconn_zero, sv_game = w, last_tick_ms = 0, sv_on_chat = False, sv_chats = []\<rparr> }"

definition find_by_addr :: "gserver \<Rightarrow> mc_addr \<Rightarrow> nat option" where
  "find_by_addr s a = find (\<lambda>i. gc_used (sv_conn s ! i) \<and> addr_eq (gc_addr (sv_conn s ! i)) a) [0..<MAX_PLAYERS]"

definition find_by_id :: "gserver \<Rightarrow> u32 \<Rightarrow> nat option" where
  "find_by_id s i = find (\<lambda>k. gc_used (sv_conn s ! k) \<and> (case gc_nc (sv_conn s ! k) of None \<Rightarrow> 0 | Some c \<Rightarrow> m_local_id c) = i) [0..<MAX_PLAYERS]"

definition put_conn :: "nat \<Rightarrow> gconn \<Rightarrow> gserver \<Rightarrow> gserver option" where
  "put_conn i gc s = do { cs \<leftarrow> put_index (sv_conn s) i gc; Some (s\<lparr>sv_conn := cs\<rparr>) }"

definition accept_conn :: "u32 \<Rightarrow> u32 \<Rightarrow> bool \<Rightarrow> gserver \<Rightarrow> mc_addr \<Rightarrow> (nat option \<times> gserver) option" where
  "accept_conn r1 r2 alloc s a =
     (case find (\<lambda>i. \<not> gc_used (sv_conn s ! i)) [0..<MAX_PLAYERS] of
        None \<Rightarrow> Some (None, s)
      | Some i \<Rightarrow> do {
          gc \<leftarrow> at_index (sv_conn s) i;
          if \<not> alloc then do { s \<leftarrow> put_conn i (gc\<lparr>gc_nc := None\<rparr>) s; Some (None, s) }
          else do {
            let (rel, c1) = mc_chan_open (mc_open r1 r2 True) MC_RELIABLE;
            let (unr, c2) = mc_chan_open c1 MC_UNRELIABLE;
            s \<leftarrow> put_conn i \<lparr>gc_nc = Some c2, gc_addr = a, gc_rel = rel, gc_unr = unr, gc_player = -1, gc_map_off = 0, gc_used = True, gc_mapped = False\<rparr> s;
            Some (Some i, s) } })"

definition feed_conn :: "nat \<Rightarrow> bytes \<Rightarrow> mc_addr \<Rightarrow> gserver \<Rightarrow> gserver option" where
  "feed_conn i pkt a s = do {
     gc \<leftarrow> at_index (sv_conn s) i;
     (case gc_nc gc of
        None \<Rightarrow> Some s
      | Some c \<Rightarrow> do { (r, c) \<leftarrow> mc_feed c pkt (Some a); put_conn i (gc\<lparr>gc_nc := Some c\<rparr>) s }) }"

definition gserver_feed :: "u32 \<Rightarrow> u32 \<Rightarrow> bool \<Rightarrow> gserver \<Rightarrow> bytes \<Rightarrow> mc_addr \<Rightarrow> gserver option" where
  "gserver_feed r1 r2 alloc s pkt a = do {
     pid \<leftarrow> mc_peek_id pkt;
     let gc = (if pid \<noteq> 0 then find_by_id s pid else find_by_addr s a);
     (gc, s) \<leftarrow> (if gc = None \<and> pid = 0 then accept_conn r1 r2 alloc s a else Some (gc, s));
     (case gc of None \<Rightarrow> Some s | Some i \<Rightarrow> feed_conn i pkt a s) }"

text \<open>The chunk at an offset, as it is put in the message.\<close>

definition map_chunk :: "u8 list \<Rightarrow> nat \<Rightarrow> bytes option" where
  "map_chunk ts off = do {
     let chunk = min (MAP_BYTES - off) MAP_CHUNK;
     d \<leftarrow> rd_bytes ts off chunk;
     emit (5 + MAP_CHUNK) [] ([GM_MAP] @ wr16 (of_nat off) @ wr16 (of_nat chunk) @ d) }"

function stream_map :: "u8 list \<Rightarrow> gconn \<Rightarrow> gconn option" where
  "stream_map ts gc =
     (if unat (gc_map_off gc) < MAP_BYTES then do {
        m \<leftarrow> map_chunk ts (unat (gc_map_off gc));
        let (r, nc) = nc_write (gc_nc gc) (gc_rel gc) m;
        if r = MC_ERR_AGAIN then Some (gc\<lparr>gc_nc := nc\<rparr>)
        else stream_map ts (gc\<lparr>gc_nc := nc, gc_map_off := gc_map_off gc + of_nat (min (MAP_BYTES - unat (gc_map_off gc)) MAP_CHUNK)\<rparr>) }
      else
        let (r, nc) = nc_write (gc_nc gc) (gc_rel gc) [GM_MAPEND] in
        Some (if r \<noteq> MC_ERR_AGAIN then gc\<lparr>gc_nc := nc, gc_mapped := True\<rparr> else gc\<lparr>gc_nc := nc\<rparr>))"
  by pat_completeness auto
termination
proof (relation "measure (\<lambda>(ts, gc). MAP_BYTES - unat (gc_map_off gc))", simp, goal_cases)
  case (1 ts gc m p r nc)
  let ?n = "min (MAP_BYTES - unat (gc_map_off gc)) MAP_CHUNK"
  have "unat (gc_map_off gc + of_nat ?n) = unat (gc_map_off gc) + ?n"
    using 1(1) by (subst unat_add_lem [THEN iffD1]) (simp_all add: unat_of_nat take_bit_nat_eq_self MAP_BYTES_def MAP_CHUNK_def min_def)
  then show ?case using 1(1) by (simp add: MAP_BYTES_def MAP_CHUNK_def)
qed

declare stream_map.simps [simp del]

text \<open>A message to one client of the game.\<close>

definition relay_to :: "bytes \<Rightarrow> nat \<Rightarrow> gserver \<Rightarrow> gserver option" where
  "relay_to d i s = do {
     gc \<leftarrow> at_index (sv_conn s) i;
     if gc_used gc \<and> 0 \<le> gc_player gc then put_conn i (gc\<lparr>gc_nc := snd (nc_write (gc_nc gc) (gc_rel gc) d)\<rparr>) s
     else Some s }"

definition chat_msg :: "nat \<Rightarrow> nat \<Rightarrow> bytes \<Rightarrow> gserver \<Rightarrow> (bytes \<times> gserver) option" where
  "chat_msg i n msg s = do {
     t \<leftarrow> rd8 msg 0;
     if t = GM_CHAT \<and> 3 \<le> n then do {
       gc \<leftarrow> at_index (sv_conn s) i;
       cl \<leftarrow> rd8 msg 2;
       msg \<leftarrow> put_index msg 1 (word_of_int (gc_player gc));
       s \<leftarrow> for_each (relay_to (take n msg)) [0..<MAX_PLAYERS] s;
       let clen = (if n < 3 + unat cl then n - 3 else unat cl);
       msg \<leftarrow> put_index msg (3 + clen) 0;
       Some (msg, if sv_on_chat s then s\<lparr>sv_chats := sv_chats s @ [(gc_player gc, cstr (drop 3 msg))]\<rparr> else s) }
     else Some (msg, s) }"

definition input_msg :: "nat \<Rightarrow> nat \<Rightarrow> bytes \<Rightarrow> gserver \<Rightarrow> gserver option" where
  "input_msg i n msg s = do {
     t \<leftarrow> rd8 msg 0;
     gc \<leftarrow> at_index (sv_conn s) i;
     if t = GM_INPUT \<and> 2 \<le> n \<and> 0 \<le> gc_player gc then do {
       b \<leftarrow> rd8 msg 1;
       w \<leftarrow> game_set_input (gc_player gc) b (sv_game s);
       Some (s\<lparr>sv_game := w\<rparr>) }
     else Some s }"

text \<open>Messages waiting on a channel of a connection, and events.\<close>

definition waiting :: "microchan option \<Rightarrow> nat option \<Rightarrow> nat" where
  "waiting nc p = (case nc of None \<Rightarrow> 0 | Some c \<Rightarrow> (case p of None \<Rightarrow> 0 | Some k \<Rightarrow> rx_count (m_chan c k)))"

lemma nc_read_waiting:
  assumes "nc_read nc p = (n, d, nc')" "0 < n"
  shows "waiting nc' p < waiting nc p"
  using assms by (auto simp: nc_read_def mc_read_def waiting_def upd_mchan_def Let_def MC_ERR_TOOBIG_def split: option.splits if_splits)

lemma nc_write_waiting: "waiting (snd (nc_write nc p d)) q = waiting nc q"
proof (cases nc)
  case (Some c)
  have "m_chan (snd (mc_write c p d)) = m_chan c" by (auto simp: mc_write_def Let_def split: option.split)
  then show ?thesis by (cases "mc_write c p d") (simp add: Some nc_write_def waiting_def split: option.split)
qed (simp add: nc_write_def)

definition same_rx :: "gserver \<Rightarrow> gserver \<Rightarrow> bool" where
  "same_rx s s' \<longleftrightarrow> length (sv_conn s') = length (sv_conn s) \<and>
     (\<forall>i<length (sv_conn s). gc_rel (sv_conn s' ! i) = gc_rel (sv_conn s ! i) \<and> gc_unr (sv_conn s' ! i) = gc_unr (sv_conn s ! i) \<and>
        (\<forall>p. waiting (gc_nc (sv_conn s' ! i)) p = waiting (gc_nc (sv_conn s ! i)) p))"

lemma same_rx_refl [simp]: "same_rx s s"
  by (simp add: same_rx_def)

lemma same_rx_trans: "same_rx s s1 \<Longrightarrow> same_rx s1 s2 \<Longrightarrow> same_rx s s2"
  by (simp add: same_rx_def)

lemma relay_to_rx: "relay_to d i s = Some s' \<Longrightarrow> same_rx s s'"
  by (auto simp: relay_to_def put_conn_def put_index_def at_index_def same_rx_def nth_list_update nc_write_waiting split: if_splits)

lemma relay_rx: "for_each (relay_to d) is s = Some s' \<Longrightarrow> same_rx s s'"
proof (induction "is" arbitrary: s)
  case (Cons i "is")
  then obtain s1 where "relay_to d i s = Some s1" "for_each (relay_to d) is s1 = Some s'" by (auto simp: Option.bind_eq_Some_conv)
  then show ?case using Cons.IH same_rx_trans relay_to_rx by blast
qed simp

lemma same_rx_chats [simp]: "same_rx s (s1\<lparr>sv_chats := cs\<rparr>) = same_rx s s1"
  by (simp add: same_rx_def)

lemma chat_msg_rx: "chat_msg i n msg s = Some (msg', s') \<Longrightarrow> same_rx s s'"
  by (auto simp: chat_msg_def Option.bind_eq_Some_conv Let_def intro: relay_rx split: if_splits)

lemma input_msg_rx: "input_msg i n msg s = Some s' \<Longrightarrow> same_rx s s'"
  by (auto simp: input_msg_def Option.bind_eq_Some_conv same_rx_def split: if_splits)

function drain_rel :: "nat \<Rightarrow> bytes \<Rightarrow> gserver \<Rightarrow> (bytes \<times> gserver) option" where
  "drain_rel i msg s = do {
     gc \<leftarrow> at_index (sv_conn s) i;
     let r = nc_read (gc_nc gc) (gc_rel gc);
     s \<leftarrow> put_conn i (gc\<lparr>gc_nc := snd (snd r)\<rparr>) s;
     if 0 < fst r then do {
       (msg, s) \<leftarrow> chat_msg i (nat (fst r)) (fill_buf msg (fst (snd r))) s;
       drain_rel i msg s }
     else Some (msg, s) }"
  by pat_completeness auto
termination
proof (relation "measure (\<lambda>(i, msg, s). waiting (gc_nc (sv_conn s ! i)) (gc_rel (sv_conn s ! i)))", simp, goal_cases)
  case (1 i msg s gc r s1 p msg2 s2)
  have i: "i < length (sv_conn s)" "gc = sv_conn s ! i" using 1(1) by (auto simp: at_index_def split: if_splits)
  have s1: "s1 = s\<lparr>sv_conn := (sv_conn s)[i := gc\<lparr>gc_nc := snd (snd r)\<rparr>]\<rparr>" using 1(3) i by (simp add: put_conn_def put_index_def)
  have "same_rx s1 s2" using chat_msg_rx 1(5,6) by blast
  moreover have "waiting (snd (snd r)) (gc_rel gc) < waiting (gc_nc gc) (gc_rel gc)"
    by (rule nc_read_waiting [of _ _ "fst r" "fst (snd r)"]) (use 1(2,4) in simp_all)
  ultimately show ?case using i s1 by (simp add: same_rx_def)
qed

function drain_unr :: "nat \<Rightarrow> bytes \<Rightarrow> gserver \<Rightarrow> gserver option" where
  "drain_unr i msg s = do {
     gc \<leftarrow> at_index (sv_conn s) i;
     let r = nc_read (gc_nc gc) (gc_unr gc);
     s \<leftarrow> put_conn i (gc\<lparr>gc_nc := snd (snd r)\<rparr>) s;
     if 0 < fst r then do {
       s \<leftarrow> input_msg i (nat (fst r)) (fill_buf msg (fst (snd r))) s;
       drain_unr i (fill_buf msg (fst (snd r))) s }
     else Some s }"
  by pat_completeness auto
termination
proof (relation "measure (\<lambda>(i, msg, s). waiting (gc_nc (sv_conn s ! i)) (gc_unr (sv_conn s ! i)))", simp, goal_cases)
  case (1 i msg s gc r s1 s2)
  have i: "i < length (sv_conn s)" "gc = sv_conn s ! i" using 1(1) by (auto simp: at_index_def split: if_splits)
  have s1: "s1 = s\<lparr>sv_conn := (sv_conn s)[i := gc\<lparr>gc_nc := snd (snd r)\<rparr>]\<rparr>" using 1(3) i by (simp add: put_conn_def put_index_def)
  have "same_rx s1 s2" using input_msg_rx 1(5) by blast
  moreover have "waiting (snd (snd r)) (gc_unr gc) < waiting (gc_nc gc) (gc_unr gc)"
    by (rule nc_read_waiting [of _ _ "fst r" "fst (snd r)"]) (use 1(2,4) in simp_all)
  ultimately show ?case using i s1 by (simp add: same_rx_def)
qed

declare drain_rel.simps [simp del] drain_unr.simps [simp del]

definition server_drain :: "bytes \<Rightarrow> nat \<Rightarrow> gserver \<Rightarrow> gserver option" where
  "server_drain msg i s = do { (msg, s) \<leftarrow> drain_rel i msg s; drain_unr i msg s }"

definition server_close :: "nat \<Rightarrow> gserver \<Rightarrow> gserver option" where
  "server_close i s = put_conn i (gconn_zero\<lparr>gc_player := -1\<rparr>) s"

text \<open>One event of connection \<open>i\<close>.\<close>

definition conn_event :: "nat \<Rightarrow> mc_event \<Rightarrow> gserver \<Rightarrow> gserver option" where
  "conn_event i ev s = do {
     gc \<leftarrow> at_index (sv_conn s) i;
     if me_type ev = MC_EV_CONNECTED then do {
       (pl, w) \<leftarrow> game_add_player (sv_game s);
       let nc = snd (nc_write (gc_nc gc) (gc_rel gc) [GM_WELCOME, word_of_int pl]);
       put_conn i (gc\<lparr>gc_nc := nc, gc_player := pl, gc_map_off := 0, gc_mapped := False\<rparr>) (s\<lparr>sv_game := w\<rparr>) }
     else if me_type ev = MC_EV_DISCONNECTED then do {
       s \<leftarrow> (if 0 \<le> gc_player gc then do {
               p \<leftarrow> at_index (players (sv_game s)) (nat (gc_player gc));
               ps \<leftarrow> put_index (players (sv_game s)) (nat (gc_player gc)) (p\<lparr>pl_alive := 0\<rparr>);
               Some (s\<lparr>sv_game := (sv_game s)\<lparr>players := ps\<rparr>\<rparr>) }
             else Some s);
       server_close i s }
     else Some s }"

definition events_left :: "microchan option \<Rightarrow> nat" where
  "events_left nc = (case nc of None \<Rightarrow> 0 | Some c \<Rightarrow> m_ev_count c)"

lemma nc_write_events: "events_left (snd (nc_write nc p d)) = events_left nc"
proof (cases nc)
  case (Some c)
  have "m_ev_count (snd (mc_write c p d)) = m_ev_count c" by (auto simp: mc_write_def Let_def split: option.split)
  then show ?thesis by (cases "mc_write c p d") (simp add: Some nc_write_def events_left_def)
qed (simp add: nc_write_def)

lemma conn_event_left:
  assumes "conn_event i ev s = Some s'"
  shows "events_left (gc_nc (sv_conn s' ! i)) \<le> events_left (gc_nc (sv_conn s ! i))"
proof -
  have i: "i < length (sv_conn s)" using assms by (auto simp: conn_event_def at_index_def split: if_splits)
  show ?thesis using assms i
    by (auto simp: conn_event_def at_index_def put_conn_def put_index_def server_close_def gconn_zero_def events_left_def [of None]
        nc_write_events Let_def Option.bind_eq_Some_conv split: if_splits)
qed

function poll_conn :: "nat \<Rightarrow> gserver \<Rightarrow> gserver option" where
  "poll_conn i s = do {
     gc \<leftarrow> at_index (sv_conn s) i;
     (case gc_nc gc of
        None \<Rightarrow> Some s
      | Some c \<Rightarrow> (case mc_poll c of
          None \<Rightarrow> Some s
        | Some (ev, c') \<Rightarrow> do {
            s \<leftarrow> put_conn i (gc\<lparr>gc_nc := Some c'\<rparr>) s;
            s \<leftarrow> conn_event i ev s;
            poll_conn i s })) }"
  by pat_completeness auto
termination
proof (relation "measure (\<lambda>(i, s). events_left (gc_nc (sv_conn s ! i)))", simp, goal_cases)
  case (1 i s gc c p ev c' s1 s2)
  have i: "i < length (sv_conn s)" "gc = sv_conn s ! i" using 1(1) by (auto simp: at_index_def split: if_splits)
  have s1: "s1 = s\<lparr>sv_conn := (sv_conn s)[i := gc\<lparr>gc_nc := Some c'\<rparr>]\<rparr>" using 1(5) i by (simp add: put_conn_def put_index_def)
  have "m_ev_count c' < m_ev_count c" using 1(3,4) by (auto simp: mc_poll_def split: if_splits)
  then have "events_left (gc_nc (sv_conn s1 ! i)) < events_left (gc_nc gc)" using 1(2) i s1 by (simp add: events_left_def)
  then show ?case using conn_event_left [OF 1(6)] i by simp
qed

declare poll_conn.simps [simp del]

definition service_conn :: "(nat \<Rightarrow> bytes) \<Rightarrow> u32 \<Rightarrow> nat \<Rightarrow> gserver \<Rightarrow> gserver option" where
  "service_conn junk now_ms i s = do {
     gc \<leftarrow> at_index (sv_conn s) i;
     if \<not> gc_used gc then Some s
     else do {
       s \<leftarrow> put_conn i (gc\<lparr>gc_nc := map_option (\<lambda>c. snd (mc_service c now_ms)) (gc_nc gc)\<rparr>) s;
       s \<leftarrow> poll_conn i s;
       gc \<leftarrow> at_index (sv_conn s) i;
       if \<not> gc_used gc then Some s
       else do {
         s \<leftarrow> server_drain (junk i) i s;
         gc \<leftarrow> at_index (sv_conn s) i;
         if 0 \<le> gc_player gc \<and> \<not> gc_mapped gc then do { gc \<leftarrow> stream_map (tiles (sv_game s)) gc; put_conn i gc s }
         else Some s } } }"

definition broadcast_to :: "bytes \<Rightarrow> nat \<Rightarrow> gserver \<Rightarrow> gserver option" where
  "broadcast_to d i s = do {
     gc \<leftarrow> at_index (sv_conn s) i;
     if gc_used gc \<and> 0 \<le> gc_player gc \<and> gc_mapped gc then put_conn i (gc\<lparr>gc_nc := snd (nc_write (gc_nc gc) (gc_unr gc) d)\<rparr>) s
     else Some s }"

definition gserver_service :: "(nat \<Rightarrow> bytes) \<Rightarrow> u32 \<Rightarrow> gserver \<Rightarrow> gserver option" where
  "gserver_service junk now_ms s = do {
     s \<leftarrow> for_each (service_conn junk now_ms) [0..<MAX_PLAYERS] s;
     if GAME_TICK_MS \<le> now_ms - last_tick_ms s then do {
       w \<leftarrow> game_tick (sv_game s);
       d \<leftarrow> serialize_state w;
       for_each (broadcast_to d) [0..<MAX_PLAYERS] (s\<lparr>last_tick_ms := now_ms, sv_game := w\<rparr>) }
     else Some s }"

text \<open>A string argument is the list of its bytes.\<close>

definition chat_line :: "int \<Rightarrow> bytes \<Rightarrow> bytes option" where
  "chat_line who str = (let d = take CHAT_MAX str in emit (3 + CHAT_MAX) [] ([GM_CHAT, word_of_int who, of_nat (length d)] @ d))"

definition gserver_say :: "int \<Rightarrow> bytes \<Rightarrow> gserver \<Rightarrow> gserver option" where
  "gserver_say who str s = do {
     d \<leftarrow> chat_line who str;
     s \<leftarrow> for_each (relay_to d) [0..<MAX_PLAYERS] s;
     Some (if sv_on_chat s then s\<lparr>sv_chats := sv_chats s @ [(who, str)]\<rparr> else s) }"

definition close_used :: "nat \<Rightarrow> gserver \<Rightarrow> gserver option" where
  "close_used i s = do { gc \<leftarrow> at_index (sv_conn s) i; if gc_used gc then server_close i s else Some s }"

definition gserver_close :: "gserver \<Rightarrow> gserver option" where
  "gserver_close s = for_each close_used [0..<MAX_PLAYERS] s"

fun pull_from :: "nat list \<Rightarrow> nat \<Rightarrow> gserver \<Rightarrow> (bytes \<times> mc_addr option \<times> gserver) option" where
  "pull_from [] buflen s = Some ([], None, s)"
| "pull_from (i # is) buflen s = do {
     gc \<leftarrow> at_index (sv_conn s) i;
     (case gc_nc gc of
        Some c \<Rightarrow>
          if gc_used gc then do {
            (d, a, c) \<leftarrow> mc_send_next c buflen;
            s \<leftarrow> put_conn i (gc\<lparr>gc_nc := Some c\<rparr>) s;
            if d \<noteq> [] then Some (d, a, s) else pull_from is buflen s }
          else pull_from is buflen s
      | None \<Rightarrow> pull_from is buflen s) }"

definition gserver_pull :: "nat \<Rightarrow> gserver \<Rightarrow> (bytes \<times> mc_addr option \<times> gserver) option" where
  "gserver_pull buflen s = pull_from [0..<MAX_PLAYERS] buflen s"

section \<open>Client\<close>

text \<open>\<open>mc_chan_open\<close>, \<open>mc_connect\<close>, \<open>mc_feed\<close>, \<open>mc_service\<close>, \<open>mc_poll\<close> and \<open>mc_send_next\<close> are called without a test of the connection pointer;
each of them returns at once for a null pointer.\<close>

definition gclient_init :: "u32 \<Rightarrow> u32 \<Rightarrow> bool \<Rightarrow> gclient" where
  "gclient_init r1 r2 alloc =
     (let c0 = \<lparr>cl_nc = None, cl_rel = None, cl_unr = None, cl_world = world_zero, cl_player = -1, cl_map_off = 0,
                cl_have_map = False, cl_on_chat = False, cl_chats = []\<rparr> in
      if \<not> alloc then c0
      else
        let (rel, c1) = mc_chan_open (mc_open r1 r2 False) MC_RELIABLE; (unr, c2) = mc_chan_open c1 MC_UNRELIABLE in
        c0\<lparr>cl_nc := Some c2, cl_rel := rel, cl_unr := unr\<rparr>)"

definition gclient_connect :: "gclient \<Rightarrow> mc_addr option \<Rightarrow> int \<times> gclient" where
  "gclient_connect c a =
     (case cl_nc c of None \<Rightarrow> (MC_ERR, c) | Some nc \<Rightarrow> (case mc_connect nc a of (r, nc') \<Rightarrow> (r, c\<lparr>cl_nc := Some nc'\<rparr>)))"

definition gclient_feed :: "gclient \<Rightarrow> bytes \<Rightarrow> mc_addr option \<Rightarrow> gclient option" where
  "gclient_feed c pkt a =
     (case cl_nc c of None \<Rightarrow> Some c | Some nc \<Rightarrow> do { (r, nc) \<leftarrow> mc_feed nc pkt a; Some (c\<lparr>cl_nc := Some nc\<rparr>) })"

text \<open>\<open>memcpy\<close> into the tiles.\<close>

definition put_bytes :: "'a list \<Rightarrow> nat \<Rightarrow> 'a list \<Rightarrow> 'a list option" where
  "put_bytes ts off d = (if off + length d \<le> length ts then Some (take off ts @ d @ drop (off + length d) ts) else None)"

text \<open>One message of the reliable channel, in the first \<open>n\<close> bytes of the buffer.\<close>

definition client_msg :: "nat \<Rightarrow> bytes \<Rightarrow> gclient \<Rightarrow> (bytes \<times> gclient) option" where
  "client_msg n msg c = do {
     t \<leftarrow> rd8 msg 0;
     if t = GM_WELCOME then
       (if 2 \<le> n then do { p \<leftarrow> rd8 msg 1; Some (msg, c\<lparr>cl_player := sint p\<rparr>) } else Some (msg, c))
     else if t = GM_MAP then
       (if 5 \<le> n then do {
          off \<leftarrow> rd16 msg 1;
          ln \<leftarrow> rd16 msg 3;
          if unat off + unat ln \<le> MAP_BYTES \<and> 5 + unat ln \<le> n then do {
            d \<leftarrow> rd_bytes msg 5 (unat ln);
            ts \<leftarrow> put_bytes (tiles (cl_world c)) (unat off) d;
            Some (msg, c\<lparr>cl_world := (cl_world c)\<lparr>tiles := ts\<rparr>, cl_map_off := off + ln\<rparr>) }
          else Some (msg, c) }
        else Some (msg, c))
     else if t = GM_MAPEND then Some (msg, c\<lparr>cl_have_map := True\<rparr>)
     else if t = GM_CHAT then
       (if 3 \<le> n \<and> cl_on_chat c then do {
          cl \<leftarrow> rd8 msg 2;
          msg \<leftarrow> put_index msg (3 + (if n < 3 + unat cl then n - 3 else unat cl)) 0;
          who \<leftarrow> rd8 msg 1;
          Some (msg, c\<lparr>cl_chats := cl_chats c @ [(uint who, cstr (drop 3 msg))]\<rparr>) }
        else Some (msg, c))
     else Some (msg, c) }"

definition client_state :: "nat \<Rightarrow> bytes \<Rightarrow> gclient \<Rightarrow> gclient option" where
  "client_state n msg c = do {
     t \<leftarrow> rd8 msg 0;
     if t = GM_STATE then do { w \<leftarrow> deserialize_state (cl_world c) msg n; Some (c\<lparr>cl_world := w\<rparr>) } else Some c }"

lemma client_msg_link:
  assumes "client_msg n msg c = Some (msg', c')"
  shows "cl_nc c' = cl_nc c \<and> cl_rel c' = cl_rel c \<and> cl_unr c' = cl_unr c"
  using assms by (auto simp: client_msg_def Option.bind_eq_Some_conv split: if_splits)

lemma client_state_link:
  assumes "client_state n msg c = Some c'"
  shows "cl_nc c' = cl_nc c \<and> cl_rel c' = cl_rel c \<and> cl_unr c' = cl_unr c"
  using assms by (auto simp: client_state_def Option.bind_eq_Some_conv split: if_splits)

function client_drain_rel :: "bytes \<Rightarrow> gclient \<Rightarrow> (bytes \<times> gclient) option" where
  "client_drain_rel msg c =
     (let r = nc_read (cl_nc c) (cl_rel c) in
      if 0 < fst r then do {
        (msg, c) \<leftarrow> client_msg (nat (fst r)) (fill_buf msg (fst (snd r))) (c\<lparr>cl_nc := snd (snd r)\<rparr>);
        client_drain_rel msg c }
      else Some (msg, c\<lparr>cl_nc := snd (snd r)\<rparr>))"
  by pat_completeness auto
termination
proof (relation "measure (\<lambda>(msg, c). waiting (cl_nc c) (cl_rel c))", simp, goal_cases)
  case (1 msg c r p msg2 c2)
  have "waiting (snd (snd r)) (cl_rel c) < waiting (cl_nc c) (cl_rel c)"
    by (rule nc_read_waiting [of _ _ "fst r" "fst (snd r)"]) (use 1(1,2) in simp_all)
  then show ?case using client_msg_link 1(3,4) by fastforce
qed

function client_drain_unr :: "bytes \<Rightarrow> gclient \<Rightarrow> gclient option" where
  "client_drain_unr msg c =
     (let r = nc_read (cl_nc c) (cl_unr c) in
      if 0 < fst r then do {
        c \<leftarrow> client_state (nat (fst r)) (fill_buf msg (fst (snd r))) (c\<lparr>cl_nc := snd (snd r)\<rparr>);
        client_drain_unr (fill_buf msg (fst (snd r))) c }
      else Some (c\<lparr>cl_nc := snd (snd r)\<rparr>))"
  by pat_completeness auto
termination
proof (relation "measure (\<lambda>(msg, c). waiting (cl_nc c) (cl_unr c))", simp, goal_cases)
  case (1 msg c r c2)
  have "waiting (snd (snd r)) (cl_unr c) < waiting (cl_nc c) (cl_unr c)"
    by (rule nc_read_waiting [of _ _ "fst r" "fst (snd r)"]) (use 1(1,2) in simp_all)
  then show ?case using client_state_link 1(3) by fastforce
qed

declare client_drain_rel.simps [simp del] client_drain_unr.simps [simp del]

definition client_drain :: "bytes \<Rightarrow> gclient \<Rightarrow> gclient option" where
  "client_drain msg c = do { (msg, c) \<leftarrow> client_drain_rel msg c; client_drain_unr msg c }"

text \<open>The loop over \<open>mc_poll\<close> that drops every event.\<close>

function drop_events :: "microchan \<Rightarrow> microchan" where
  "drop_events c = (case mc_poll c of None \<Rightarrow> c | Some (ev, c') \<Rightarrow> drop_events c')"
  by pat_completeness auto
termination
  by (relation "measure m_ev_count") (auto simp: mc_poll_def split: if_splits)

declare drop_events.simps [simp del]

definition gclient_service :: "bytes \<Rightarrow> gclient \<Rightarrow> u32 \<Rightarrow> gclient option" where
  "gclient_service junk c now_ms =
     client_drain junk (c\<lparr>cl_nc := map_option (\<lambda>nc. drop_events (snd (mc_service nc now_ms))) (cl_nc c)\<rparr>)"

definition gclient_pull :: "gclient \<Rightarrow> nat \<Rightarrow> (bytes \<times> mc_addr option \<times> gclient) option" where
  "gclient_pull c buflen =
     (case cl_nc c of
        None \<Rightarrow> Some ([], None, c)
      | Some nc \<Rightarrow> do { (d, a, nc) \<leftarrow> mc_send_next nc buflen; Some (d, a, c\<lparr>cl_nc := Some nc\<rparr>) })"

definition gclient_input :: "gclient \<Rightarrow> u8 \<Rightarrow> gclient" where
  "gclient_input c input = c\<lparr>cl_nc := snd (nc_write (cl_nc c) (cl_unr c) [GM_INPUT, input])\<rparr>"

definition gclient_chat :: "gclient \<Rightarrow> bytes \<Rightarrow> gclient option" where
  "gclient_chat c str = do { d \<leftarrow> chat_line (cl_player c) str; Some (c\<lparr>cl_nc := snd (nc_write (cl_nc c) (cl_rel c) d)\<rparr>) }"

definition gclient_close :: "gclient \<Rightarrow> gclient" where
  "gclient_close c = (if cl_nc c = None then c else c\<lparr>cl_nc := None, cl_rel := None, cl_unr := None\<rparr>)"

end
