(* ===== verification/Thor_Net_Props.thy ===== *)
theory Thor_Net_Props
  imports Thor_Net
begin

text \<open>
  What the network half of the game promises: a state broadcast read back shows the same game, the streamed map arrives
  whole, and no call of the server leaves an array.
\<close>

section \<open>Tables in a message\<close>

lemma for_each_append: "for_each f (xs @ ys) s = do { s \<leftarrow> for_each f xs s; for_each f ys s }"
  by (induction xs arbitrary: s) (auto split: bind_split)

text \<open>A loop that reads entry \<open>k\<close> of an array from a table.\<close>

lemma for_each_table:
  assumes "\<And>k ys. k < n \<Longrightarrow> length ys = length xs \<Longrightarrow> ys ! k = xs ! k \<Longrightarrow> f k ys = Some (ys[k := h k (xs ! k)])" "n \<le> length xs"
  shows "for_each f [0..<n] xs = Some (map (\<lambda>k. h k (xs ! k)) [0..<n] @ drop n xs)"
  using assms
proof (induction n)
  case (Suc n)
  let ?ys = "map (\<lambda>k. h k (xs ! k)) [0..<n] @ drop n xs"
  have "for_each f [0..<n] xs = Some ?ys" by (rule Suc.IH) (use Suc.prems in auto)
  moreover have "f n ?ys = Some (?ys[n := h n (xs ! n)])" using Suc.prems(2) by (intro Suc.prems(1)) (simp_all add: nth_append)
  moreover have "?ys[n := h n (xs ! n)] = map (\<lambda>k. h k (xs ! k)) [0..<Suc n] @ drop (Suc n) xs"
    using Suc.prems(2) by (simp add: list_update_append Cons_nth_drop_Suc [symmetric])
  ultimately show ?case by (simp add: for_each_append)
qed simp

lemma nth_table:
  assumes "\<And>x. length (g x) = m" "k < length xs" "j < m"
  shows "concat (map g xs) ! (m * k + j) = g (xs ! k) ! j"
  using assms(2)
proof (induction xs arbitrary: k)
  case (Cons x xs)
  then show ?case using assms(1,3) by (cases k) (simp_all add: nth_append)
qed simp

lemma length_table: "(\<And>x. length (g x) = m) \<Longrightarrow> length (concat (map g xs)) = m * length xs"
  by (induction xs) simp_all

text \<open>Byte \<open>j\<close> of entry \<open>k\<close> of a table that starts at \<open>off\<close>.\<close>

lemma table_byte:
  assumes "\<And>x. length (g x) = m" "k < length xs" "j < m" "length pre = off" "b = pre @ concat (map g xs) @ rest"
  shows "rd8 b (off + m * k + j) = Some (g (xs ! k) ! j)"
proof -
  have "m * k + j < m * length xs"
    using assms(2,3) by (metis add_less_cancel_left less_le_trans mult_Suc_right mult_le_mono2 Suc_leI add.commute)
  then show ?thesis using assms nth_table [of g m k xs j] length_table [of g m xs] by (simp add: nth_append add.assoc)
qed

section \<open>The state broadcast\<close>

text \<open>What a client shows: the tick, the players, the living creatures and the flying shots.\<close>

definition player_view :: "player \<Rightarrow> u8 \<times> u8 \<times> u8 \<times> u8 \<times> u8 \<times> u16" where
  "player_view p = (pl_alive p, pl_x p, pl_y p, pl_facing p, pl_hp p, pl_score p)"

definition same_view :: "'a world_scheme \<Rightarrow> 'b world_scheme \<Rightarrow> bool" where
  "same_view w v \<longleftrightarrow> tick v = tick w \<and> map player_view (players v) = map player_view (players w) \<and>
     map creature_bytes (filter (\<lambda>c. cr_alive c \<noteq> 0) (creatures v)) = map creature_bytes (filter (\<lambda>c. cr_alive c \<noteq> 0) (creatures w)) \<and>
     map shot_bytes (filter (\<lambda>s. sh_alive s \<noteq> 0) (shots v)) = map shot_bytes (filter (\<lambda>s. sh_alive s \<noteq> 0) (shots w))"

definition world_shape :: "'a world_scheme \<Rightarrow> bool" where
  "world_shape w \<longleftrightarrow> length (tiles w) = MAP_BYTES \<and> length (players w) = MAX_PLAYERS \<and> length (creatures w) = MAX_CREATURES \<and> length (shots w) = MAX_SHOTS"

lemma length_entries [simp]: "length (player_bytes p) = 7" "length (creature_bytes c) = 3" "length (shot_bytes s) = 3"
  by (simp_all add: player_bytes_def creature_bytes_def shot_bytes_def)

lemma rd16_pair: "rd8 b i = Some (ucast (drop_bit 8 v)) \<Longrightarrow> rd8 b (Suc i) = Some (ucast v) \<Longrightarrow> rd16 b i = Some v"
  using join16 [of v] by (simp add: rd16_def)

lemma read_players:
  assumes b: "b = pre @ concat (map player_bytes ps) @ rest" "length pre = 3" and len: "length ps = n" "length qs = n"
  shows "\<exists>qs'. for_each (read_player b) [0..<n] qs = Some qs' \<and> map player_view qs' = map player_view ps \<and> length qs' = n"
proof -
  let ?h = "\<lambda>k q. q\<lparr>pl_alive := pl_alive (ps ! k), pl_x := pl_x (ps ! k), pl_y := pl_y (ps ! k), pl_facing := pl_facing (ps ! k),
    pl_hp := pl_hp (ps ! k), pl_score := pl_score (ps ! k)\<rparr>"
  have byte: "rd8 b (3 + 7 * k + j) = Some (player_bytes (ps ! k) ! j)" if "k < n" "j < 7" for k j
    by (rule table_byte [where pre = pre and rest = rest]) (use that b len in simp_all)
  have "read_player b k ys = Some (ys[k := ?h k (qs ! k)])" if "k < n" "length ys = length qs" "ys ! k = qs ! k" for k ys
  proof -
    note r = byte [OF that(1), of 0] byte [OF that(1), of 1] byte [OF that(1), of 2] byte [OF that(1), of 3] byte [OF that(1), of 4]
      byte [OF that(1), of 5] byte [OF that(1), of 6]
    have "rd16 b (8 + 7 * k) = Some (pl_score (ps ! k))"
      using r by (intro rd16_pair) (simp_all add: player_bytes_def wr16_def)
    then show ?thesis using that len r unfolding read_player_def
      by (simp add: at_index_def put_index_def player_bytes_def add.commute [of _ "7 * k"] numeral_eq_Suc)
  qed
  then have "for_each (read_player b) [0..<n] qs = Some (map (\<lambda>k. ?h k (qs ! k)) [0..<n] @ drop n qs)"
    by (intro for_each_table) (simp_all add: len)
  then show ?thesis using len by (auto simp: player_view_def intro!: nth_equalityI)
qed

text \<open>The first \<open>n\<close> entries are alive, the others were cleared.\<close>

lemma filter_first:
  assumes "\<And>x. x \<in> set xs \<Longrightarrow> P x" "\<And>y. y \<in> set ys \<Longrightarrow> \<not> P y"
  shows "filter P (xs @ ys) = xs"
  using assms by (simp add: filter_id_conv) 

lemma read_creatures:
  assumes b: "b = pre @ concat (map creature_bytes cs) @ rest" "length pre = off" and len: "length cs = n" "n \<le> length ds"
  shows "\<exists>ds'. for_each (read_creature b off) [0..<n] (map (\<lambda>c. c\<lparr>cr_alive := 0\<rparr>) ds) = Some ds' \<and> length ds' = length ds \<and>
    map creature_bytes (filter (\<lambda>c. cr_alive c \<noteq> 0) ds') = map creature_bytes cs"
proof -
  let ?ds = "map (\<lambda>c. c\<lparr>cr_alive := 0\<rparr>) ds"
  let ?h = "\<lambda>k c. \<lparr>cr_x = cr_x (cs ! k), cr_y = cr_y (cs ! k), cr_kind = cr_kind (cs ! k), cr_alive = 1\<rparr>"
  have byte: "rd8 b (off + 3 * k + j) = Some (creature_bytes (cs ! k) ! j)" if "k < n" "j < 3" for k j
    by (rule table_byte [where pre = pre and rest = rest]) (use that b len in simp_all)
  have "read_creature b off k ys = Some (ys[k := ?h k (?ds ! k)])" if "k < n" "length ys = length ?ds" for k ys
    using that len byte [OF that(1), of 0] byte [OF that(1), of 1] byte [OF that(1), of 2]
    unfolding read_creature_def by (simp add: put_index_def creature_bytes_def)
  then have r: "for_each (read_creature b off) [0..<n] ?ds = Some (map (\<lambda>k. ?h k (?ds ! k)) [0..<n] @ drop n ?ds)"
    by (intro for_each_table) (simp_all add: len)
  have "filter (\<lambda>c. cr_alive c \<noteq> 0) (map (\<lambda>k. ?h k (?ds ! k)) [0..<n] @ drop n ?ds) = map (\<lambda>k. ?h k (?ds ! k)) [0..<n]"
    by (rule filter_first) (auto simp: drop_map)
  then show ?thesis using r len by (auto simp: creature_bytes_def intro!: nth_equalityI)
qed

lemma read_shots:
  assumes b: "b = pre @ concat (map shot_bytes ss) @ rest" "length pre = off" and len: "length ss = n" "n \<le> length ts"
  shows "\<exists>ts'. for_each (read_shot b off) [0..<n] (map (\<lambda>s. s\<lparr>sh_alive := 0\<rparr>) ts) = Some ts' \<and> length ts' = length ts \<and>
    map shot_bytes (filter (\<lambda>s. sh_alive s \<noteq> 0) ts') = map shot_bytes ss"
proof -
  let ?ts = "map (\<lambda>s. s\<lparr>sh_alive := 0\<rparr>) ts"
  let ?h = "\<lambda>k s. s\<lparr>sh_x := sh_x (ss ! k), sh_y := sh_y (ss ! k), sh_dir := sh_dir (ss ! k), sh_alive := 1\<rparr>"
  have byte: "rd8 b (off + 3 * k + j) = Some (shot_bytes (ss ! k) ! j)" if "k < n" "j < 3" for k j
    by (rule table_byte [where pre = pre and rest = rest]) (use that b len in simp_all)
  have "read_shot b off k ys = Some (ys[k := ?h k (?ts ! k)])" if "k < n" "length ys = length ?ts" "ys ! k = ?ts ! k" for k ys
    using that len byte [OF that(1), of 0] byte [OF that(1), of 1] byte [OF that(1), of 2]
    unfolding read_shot_def by (simp add: at_index_def put_index_def shot_bytes_def)
  then have r: "for_each (read_shot b off) [0..<n] ?ts = Some (map (\<lambda>k. ?h k (?ts ! k)) [0..<n] @ drop n ?ts)"
    by (intro for_each_table) (simp_all add: len)
  have "filter (\<lambda>s. sh_alive s \<noteq> 0) (map (\<lambda>k. ?h k (?ts ! k)) [0..<n] @ drop n ?ts) = map (\<lambda>k. ?h k (?ts ! k)) [0..<n]"
    by (rule filter_first) (auto simp: drop_map)
  then show ?thesis using r len by (auto simp: shot_bytes_def intro!: nth_equalityI)
qed

definition live_creatures :: "'a world_scheme \<Rightarrow> creature list" where
  "live_creatures w = filter (\<lambda>c. cr_alive c \<noteq> 0) (creatures w)"

definition live_shots :: "'a world_scheme \<Rightarrow> shot list" where
  "live_shots w = filter (\<lambda>s. sh_alive s \<noteq> 0) (shots w)"

text \<open>The broadcast fits in a message.\<close>

definition state_bytes :: "'a world_scheme \<Rightarrow> bytes" where
  "state_bytes w = [GM_STATE] @ wr16 (tick w) @ concat (map player_bytes (players w)) @
     [of_nat (length (live_creatures w))] @ concat (map creature_bytes (live_creatures w)) @
     [of_nat (length (live_shots w))] @ concat (map shot_bytes (live_shots w))"

lemma live_bounds:
  assumes "world_shape w"
  shows "length (live_creatures w) \<le> 24" "length (live_shots w) \<le> 16"
  using assms length_filter_le [of _ "creatures w"] length_filter_le [of _ "shots w"]
  by (auto simp: world_shape_def live_creatures_def live_shots_def MAX_CREATURES_def MAX_SHOTS_def)

lemma serialize_ok:
  assumes "world_shape w"
  shows "serialize_state w = Some (state_bytes w) \<and> 33 \<le> length (state_bytes w) \<and> length (state_bytes w) \<le> 153"
proof -
  have "length (concat (map player_bytes (players w))) = 28"
    using assms by (subst length_table [of _ 7]) (simp_all add: world_shape_def MAX_PLAYERS_def)
  then have "length (state_bytes w) = 33 + 3 * length (live_creatures w) + 3 * length (live_shots w)"
    by (simp add: state_bytes_def length_table [of creature_bytes 3] length_table [of shot_bytes 3])
  then have l: "33 \<le> length (state_bytes w)" "length (state_bytes w) \<le> 153" using live_bounds [OF assms] by simp_all
  moreover have "serialize_state w = emit MC_MTU [] (state_bytes w)"
    by (simp add: serialize_state_def Let_def state_bytes_def live_creatures_def live_shots_def)
  ultimately show ?thesis by (simp add: emit_def MC_MTU_def)
qed

lemma state_read_back:
  assumes w: "world_shape w" and v: "world_shape v"
  shows "\<exists>v'. deserialize_state v (state_bytes w @ rest) (length (state_bytes w)) = Some v' \<and> same_view w v' \<and> tiles v' = tiles v \<and> world_shape v'"
proof -
  let ?b = "state_bytes w @ rest"
  let ?ps = "concat (map player_bytes (players w))" and ?cs = "concat (map creature_bytes (live_creatures w))"
  let ?nc = "length (live_creatures w)" and ?ns = "length (live_shots w)"
  have lp: "length ?ps = 28" using w by (subst length_table [of _ 7]) (simp_all add: world_shape_def MAX_PLAYERS_def)
  have lc: "length ?cs = 3 * ?nc" by (rule length_table) simp
  note n = live_bounds [OF w]
  have u: "unat (of_nat ?nc :: u8) = ?nc" "unat (of_nat ?ns :: u8) = ?ns" using n by (simp_all add: unat_of_nat take_bit_nat_eq_self)
  have t: "rd16 ?b 1 = Some (tick w)" by (simp add: state_bytes_def rd16_append [of "[GM_STATE]", simplified])
  obtain ps where ps: "for_each (read_player ?b) [0..<MAX_PLAYERS] (players v) = Some ps" "map player_view ps = map player_view (players w)" "length ps = MAX_PLAYERS"
    using read_players [of ?b "[GM_STATE] @ wr16 (tick w)" "players w" _ MAX_PLAYERS "players v"] w v by (auto simp: state_bytes_def world_shape_def)
  have c: "rd8 ?b 31 = Some (of_nat ?nc)" using lp by (simp add: state_bytes_def nth_append)
  obtain cs where cs: "for_each (read_creature ?b 32) [0..<?nc] (map (\<lambda>c. c\<lparr>cr_alive := 0\<rparr>) (creatures v)) = Some cs" "length cs = MAX_CREATURES"
      "map creature_bytes (filter (\<lambda>c. cr_alive c \<noteq> 0) cs) = map creature_bytes (live_creatures w)"
    using read_creatures [of ?b "[GM_STATE] @ wr16 (tick w) @ ?ps @ [of_nat ?nc]" "live_creatures w" _ 32 ?nc "creatures v"] v n lp
    by (auto simp: state_bytes_def world_shape_def MAX_CREATURES_def)
  have s: "rd8 ?b (32 + 3 * ?nc) = Some (of_nat ?ns)" using lp lc by (simp add: state_bytes_def nth_append)
  obtain ss where ss: "for_each (read_shot ?b (33 + 3 * ?nc)) [0..<?ns] (map (\<lambda>s. s\<lparr>sh_alive := 0\<rparr>) (shots v)) = Some ss" "length ss = MAX_SHOTS"
      "map shot_bytes (filter (\<lambda>s. sh_alive s \<noteq> 0) ss) = map shot_bytes (live_shots w)"
    using read_shots [of ?b "[GM_STATE] @ wr16 (tick w) @ ?ps @ [of_nat ?nc] @ ?cs @ [of_nat ?ns]" "live_shots w" _ "33 + 3 * ?nc" ?ns "shots v"] v n lp lc
    by (auto simp: state_bytes_def world_shape_def MAX_SHOTS_def)
  have m: "min ?nc MAX_CREATURES = ?nc" "min ?ns MAX_SHOTS = ?ns" using n by (simp_all add: MAX_CREATURES_def MAX_SHOTS_def)
  have "\<not> length (state_bytes w) < 3 + MAX_PLAYERS * 7" using serialize_ok [OF w] by (simp add: MAX_PLAYERS_def)
  then have "deserialize_state v ?b (length (state_bytes w)) = Some (v\<lparr>tick := tick w, players := ps, creatures := cs, shots := ss\<rparr>)"
    by (simp only: deserialize_state_def if_False t ps(1) c u m cs(1) s ss(1) Let_def Option.bind.simps)
  then show ?thesis using ps cs ss w v by (simp add: same_view_def world_shape_def live_creatures_def live_shots_def)
qed

text \<open>
  C24: The state broadcast is a round trip: the server serializes any world into a message of at most 153 bytes, within a datagram, and a client
  that reads it, whatever stood in its world and in the rest of its buffer, shows the same tick, the same players, the same living
  creatures and the same flying shots in the same order, and keeps its map.
\<close>

theorem state_round_trip:
  assumes "world_shape w" "world_shape v"
  shows "\<exists>b v'. serialize_state w = Some b \<and> length b \<le> 153 \<and> deserialize_state v (b @ rest) (length b) = Some v' \<and>
    same_view w v' \<and> tiles v' = tiles v"
  using serialize_ok [OF assms(1)] state_read_back [OF assms] by metis

definition demo_world :: world where
  "demo_world = world_zero\<lparr>tick := 513, creatures := (creatures world_zero)[3 := \<lparr>cr_x = 7, cr_y = 9, cr_kind = 1, cr_alive = 1\<rparr>]\<rparr>"

lemma world_zero_shape: "world_shape world_zero"
  by (simp add: world_shape_def world_zero_def MAP_BYTES_def)

theorem state_round_trip_witness:
  "\<exists>b v'. serialize_state demo_world = Some b \<and> length b \<le> 153 \<and> deserialize_state world_zero (b @ []) (length b) = Some v' \<and>
    same_view demo_world v' \<and> tiles v' = tiles world_zero"
proof (rule state_round_trip)
  show "world_shape demo_world" using world_zero_shape by (simp add: demo_world_def world_shape_def)
qed (rule world_zero_shape)

end
