(* ===== verification/Thor_Stream.thy ===== *)
theory Thor_Stream
  imports Thor_Net_Props MC_Props
begin

text \<open>
  The transfer of the map: the server offers twelve chunks and an end mark to the reliable channel over as many service
  calls as the window needs, and a client that gets them in order holds the server's map.
\<close>

section \<open>The messages\<close>

definition map_part :: "u8 list \<Rightarrow> nat \<Rightarrow> bytes" where
  "map_part ts k = [GM_MAP] @ wr16 (of_nat (512 * k)) @ wr16 512 @ take 512 (drop (512 * k) ts)"

definition map_msgs :: "u8 list \<Rightarrow> bytes list" where
  "map_msgs ts = map (map_part ts) [0..<12] @ [[GM_MAPEND]]"

lemma length_map_msgs [simp]: "length (map_msgs ts) = 13"
  by (simp add: map_msgs_def)

lemma map_msgs_nth: "map_msgs ts ! k = (if k < 12 then map_part ts k else [GM_MAPEND])" if "k < 13"
  using that by (auto simp: map_msgs_def nth_append)

lemma length_map_part: "length ts = 6144 \<Longrightarrow> k < 12 \<Longrightarrow> length (map_part ts k) = 517"
  by (simp add: map_part_def)

lemma chunk_size: "k < 12 \<Longrightarrow> min (MAP_BYTES - 512 * k) MAP_CHUNK = 512"
  by (simp add: MAP_BYTES_def MAP_CHUNK_def)

lemma map_chunk_part: "length ts = 6144 \<Longrightarrow> k < 12 \<Longrightarrow> map_chunk ts (512 * k) = Some (map_part ts k)"
  using chunk_size [of k] by (simp add: map_chunk_def Let_def map_part_def emit_def)

section \<open>Server\<close>

text \<open>A connection on which the reliable channel \<open>r\<close> is in use.\<close>

definition link_up :: "nat \<Rightarrow> microchan \<Rightarrow> bool" where
  "link_up r c \<longleftrightarrow> mc_wf c \<and> m_state c = MC_STATE_CONNECTED \<and> mc_used (m_chan c r) \<and> mc_type (m_chan c r) = MC_RELIABLE"

definition link_room :: "microchan \<Rightarrow> bool" where
  "link_room c \<longleftrightarrow> length (tx_window c) < MC_WINDOW"

lemma length_window: "length (tx_window c) = unat (tx_next c - tx_base c)"
  by (simp add: tx_window_def cring_list_def)

lemma write_full: "link_up r c \<Longrightarrow> \<not> link_room c \<Longrightarrow> length d \<le> MC_MAXMSG \<Longrightarrow> nc_write (Some c) (Some r) d = (MC_ERR_AGAIN, Some c)"
  by (simp add: link_up_def link_room_def length_window nc_write_def mc_write_def Let_def)

lemma write_room:
  assumes "link_up r c" "link_room c" "length d \<le> MC_MAXMSG"
  shows "\<exists>c'. nc_write (Some c) (Some r) d = (int (length d), Some c') \<and> link_up r c' \<and> tx_window c' = tx_window c @ [(mc_cid (m_chan c r), d)] \<and>
    m_chan c' = m_chan c"
proof -
  let ?s = "\<lparr>ts_seq = tx_next c, ts_chan = mc_cid (m_chan c r), ts_data = d\<rparr>"
  let ?c = "c\<lparr>txw := (txw c)(unat (tx_next c) mod MC_WINDOW := ?s), tx_next := tx_next c + 1\<rparr>"
  have w: "mc_write c (Some r) d = (int (length d), ?c)"
    using assms by (simp add: link_up_def link_room_def length_window mc_write_def Let_def)
  then have "mc_wf ?c" using mc_write_wf [of c "Some r" d] assms(1) by (simp add: link_up_def)
  moreover have "tx_window ?c = tx_window c @ [(mc_cid (m_chan c r), d)]"
    using assms write_window [of c ?s] by (simp add: link_up_def link_room_def length_window)
  ultimately show ?thesis using assms(1) w by (simp add: nc_write_def link_up_def)
qed

text \<open>What a call has put into the window of its connection.\<close>

definition queued :: "microchan \<Rightarrow> gconn \<Rightarrow> bytes list" where
  "queued c gc = (case gc_nc gc of None \<Rightarrow> [] | Some c' \<Rightarrow> map snd (drop (length (tx_window c)) (tx_window c')))"

text \<open>The state of the transfer after \<open>k\<close> messages.\<close>

definition sent_upto :: "nat \<Rightarrow> gconn \<Rightarrow> bool" where
  "sent_upto k gc \<longleftrightarrow> (if k = 13 then gc_mapped gc else \<not> gc_mapped gc \<and> k < 13 \<and> unat (gc_map_off gc) = 512 * k)"

lemma stream_map_sends:
  assumes ts: "length ts = 6144"
  shows "link_up r c \<Longrightarrow> gc_nc gc = Some c \<Longrightarrow> gc_rel gc = Some r \<Longrightarrow> k < 13 \<Longrightarrow> sent_upto k gc \<Longrightarrow>
    \<exists>gc' c' j. stream_map ts gc = Some gc' \<and> gc_nc gc' = Some c' \<and> gc_rel gc' = Some r \<and> k + j \<le> 13 \<and> sent_upto (k + j) gc' \<and>
      tx_window c' = tx_window c @ map (Pair (mc_cid (m_chan c r))) (take j (drop k (map_msgs ts))) \<and> (link_room c \<longrightarrow> 0 < j)"
proof (induction "13 - k" arbitrary: k c gc)
  case (Suc n)
  note prems = Suc.prems
  have off: "unat (gc_map_off gc) = 512 * k" "\<not> gc_mapped gc" using prems(4,5) by (simp_all add: sent_upto_def)
  have small: "length (map_msgs ts ! k) \<le> MC_MAXMSG"
    using prems(4) ts by (auto simp: map_msgs_nth length_map_part MC_MAXMSG_def MC_MTU_def)
  have dropk: "drop k (map_msgs ts) = map_msgs ts ! k # drop (Suc k) (map_msgs ts)" using prems(4) by (simp add: Cons_nth_drop_Suc)
  show ?case
  proof (cases "link_room c")
    case False
    note w = write_full [OF prems(1) False small]
    have "stream_map ts gc = Some gc"
      using off w prems(2-4) ts
      by (cases "k < 12") (simp_all add: stream_map.simps [of ts gc] MAP_BYTES_def map_chunk_part map_msgs_nth Let_def MC_ERR_AGAIN_def)
    then show ?thesis using prems False by (intro exI [of _ gc] exI [of _ c] exI [of _ 0]) simp
  next
    case True
    obtain c1 where c1: "nc_write (Some c) (Some r) (map_msgs ts ! k) = (int (length (map_msgs ts ! k)), Some c1)" "link_up r c1"
        "tx_window c1 = tx_window c @ [(mc_cid (m_chan c r), map_msgs ts ! k)]" "m_chan c1 = m_chan c"
      using write_room [OF prems(1) True small] by auto
    show ?thesis
    proof (cases "k < 12")
      case last: False
      then have k: "k = 12" using prems(4) by simp
      have "stream_map ts gc = Some (gc\<lparr>gc_nc := Some c1, gc_mapped := True\<rparr>)"
        using off c1(1) prems(2,3) k by (simp add: stream_map.simps [of ts gc] MAP_BYTES_def map_msgs_nth Let_def MC_ERR_AGAIN_def)
      then show ?thesis using c1 k prems(3) dropk
        by (intro exI [of _ "gc\<lparr>gc_nc := Some c1, gc_mapped := True\<rparr>"] exI [of _ c1] exI [of _ 1]) (simp add: sent_upto_def)
    next
      case more: True
      let ?gc = "gc\<lparr>gc_nc := Some c1, gc_map_off := gc_map_off gc + of_nat (min (MAP_BYTES - unat (gc_map_off gc)) MAP_CHUNK)\<rparr>"
      have "unat (gc_map_off gc + 512) = 512 * Suc k"
        using off more by (subst unat_add_lem [THEN iffD1]) simp_all
      then have "sent_upto (Suc k) ?gc" using off more by (simp add: sent_upto_def chunk_size)
      from Suc.hyps(1) [of "Suc k" c1 ?gc, OF _ c1(2) _ _ _ this] Suc.hyps(2) prems(3) more
      obtain gc' c' j where r: "stream_map ts ?gc = Some gc'" "gc_nc gc' = Some c'" "gc_rel gc' = Some r" "Suc k + j \<le> 13" "sent_upto (Suc k + j) gc'"
          "tx_window c' = tx_window c1 @ map (Pair (mc_cid (m_chan c1 r))) (take j (drop (Suc k) (map_msgs ts)))" by fastforce
      have "stream_map ts gc = stream_map ts ?gc"
        using off c1(1) prems(2,3) more ts
        by (simp add: stream_map.simps [of ts gc] map_chunk_part map_msgs_nth Let_def MAP_BYTES_def MC_ERR_AGAIN_def)
      then show ?thesis using r c1 dropk by (intro exI [of _ gc'] exI [of _ c'] exI [of _ "Suc j"]) simp
    qed
  qed
qed simp

text \<open>One call of \<open>stream_map\<close> per service call until the map is sent; in between the connection changes as packets arrive.  The result
  is the list of messages written to the channel.\<close>

fun stream_calls :: "u8 list \<Rightarrow> microchan list \<Rightarrow> gconn \<Rightarrow> (bytes list \<times> gconn) option" where
  "stream_calls ts [] gc = Some ([], gc)"
| "stream_calls ts (c # cs) gc =
     (if gc_mapped gc then Some ([], gc)
      else do {
        gc' \<leftarrow> stream_map ts (gc\<lparr>gc_nc := Some c\<rparr>);
        (ms, gc'') \<leftarrow> stream_calls ts cs gc';
        Some (queued c gc' @ ms, gc'') })"

lemma stream_calls_send:
  assumes ts: "length ts = 6144"
  shows "\<forall>c\<in>set cs. link_up r c \<Longrightarrow> gc_rel gc = Some r \<Longrightarrow> k \<le> 13 \<Longrightarrow> sent_upto k gc \<Longrightarrow>
    \<exists>gc' j. stream_calls ts cs gc = Some (take j (drop k (map_msgs ts)), gc') \<and> k + j \<le> 13 \<and> sent_upto (k + j) gc' \<and>
      min (13 - k) (length (filter link_room cs)) \<le> j"
proof (induction cs arbitrary: k gc)
  case Nil
  then show ?case by (intro exI [of _ gc] exI [of _ 0]) simp
next
  case (Cons c cs)
  show ?case
  proof (cases "k = 13")
    case True
    then show ?thesis using Cons.prems(4) by (intro exI [of _ gc] exI [of _ 0]) (simp add: sent_upto_def)
  next
    case False
    let ?gc = "gc\<lparr>gc_nc := Some c\<rparr>"
    have "sent_upto k ?gc" using Cons.prems(4) by (simp add: sent_upto_def)
    then obtain gc1 c1 i where s: "stream_map ts ?gc = Some gc1" "gc_nc gc1 = Some c1" "gc_rel gc1 = Some r" "k + i \<le> 13" "sent_upto (k + i) gc1"
        "tx_window c1 = tx_window c @ map (Pair (mc_cid (m_chan c r))) (take i (drop k (map_msgs ts)))" "link_room c \<longrightarrow> 0 < i"
      using stream_map_sends [OF ts, of r c ?gc k] Cons.prems False by auto
    obtain gc' j where j: "stream_calls ts cs gc1 = Some (take j (drop (k + i) (map_msgs ts)), gc')" "k + i + j \<le> 13" "sent_upto (k + i + j) gc'"
        "min (13 - (k + i)) (length (filter link_room cs)) \<le> j"
      using Cons.IH [of gc1 "k + i"] Cons.prems(1) s by auto
    have m: "\<not> gc_mapped gc" using Cons.prems(4) False by (simp add: sent_upto_def)
    have "queued c gc1 = take i (drop k (map_msgs ts))" using s by (simp add: queued_def comp_def)
    then have "queued c gc1 @ take j (drop (k + i) (map_msgs ts)) = take (i + j) (drop k (map_msgs ts))"
      by (simp add: take_add add.commute)
    then have "stream_calls ts (c # cs) gc = Some (take (i + j) (drop k (map_msgs ts)), gc')" using m s(1) j(1) by simp
    moreover have "min (13 - k) (length (filter link_room (c # cs))) \<le> i + j" using j(4) s(7) by auto
    ultimately show ?thesis using j(2,3) by (intro exI [of _ gc'] exI [of _ "i + j"]) (simp add: add.assoc)
  qed
qed

section \<open>Client\<close>

text \<open>What a client has after the first \<open>k\<close> messages, and \<open>ms\<close> still to come.\<close>

definition got_map :: "u8 list \<Rightarrow> bytes list \<Rightarrow> gclient \<Rightarrow> bool" where
  "got_map ts ms c \<longleftrightarrow> (\<exists>k\<le>13. ms = drop k (map_msgs ts) \<and> length (tiles (cl_world c)) = 6144 \<and>
     take (512 * k) (tiles (cl_world c)) = take (512 * k) ts \<and> (k = 13 \<longrightarrow> cl_have_map c))"

lemma rd_msg_header:
  "rd8 ([t] @ wr16 a @ wr16 b @ d) 0 = Some t" "rd16 ([t] @ wr16 a @ wr16 b @ d) 1 = Some a" "rd16 ([t] @ wr16 a @ wr16 b @ d) 3 = Some b"
  using rd16_append [of "[t]" 1 a "wr16 b @ d"] rd16_append [of "[t] @ wr16 a" 3 b d] by simp_all

lemma put_part:
  assumes "length ts = 6144" "length us = 6144" "take (512 * k) us = take (512 * k) ts" "k < 12"
  shows "\<exists>vs. put_bytes us (512 * k) (take 512 (drop (512 * k) ts)) = Some vs \<and> length vs = 6144 \<and> take (512 * Suc k) vs = take (512 * Suc k) ts"
proof -
  have "take (512 * k) us @ take 512 (drop (512 * k) ts) = take (512 * Suc k) ts"
    using assms(3) take_add [of "512 * k" 512 ts] by (simp add: add.commute)
  then have "put_bytes us (512 * k) (take 512 (drop (512 * k) ts)) = Some (take (512 * Suc k) ts @ drop (512 * Suc k) us)"
    using assms(1,2,4) by (simp add: put_bytes_def add.commute flip: append_assoc)
  then show ?thesis using assms by simp
qed

lemma client_gets:
  assumes ts: "length ts = 6144" and g: "got_map ts (m # ms) c" and b: "length msg = MC_MTU"
  shows "\<exists>msg' c'. client_msg (length m) (fill_buf msg m) c = Some (msg', c') \<and> length msg' = MC_MTU \<and> got_map ts ms c'"
proof -
  obtain k where k: "k \<le> 13" "m # ms = drop k (map_msgs ts)" "length (tiles (cl_world c)) = 6144" "take (512 * k) (tiles (cl_world c)) = take (512 * k) ts"
    using g unfolding got_map_def by auto
  have k13: "k < 13"
  proof (rule ccontr)
    assume "\<not> k < 13"
    then have "drop k (map_msgs ts) = []" by simp
    then show False using k(2) by simp
  qed
  then have m: "m = map_msgs ts ! k" "ms = drop (Suc k) (map_msgs ts)" using k(2) by (simp_all add: Cons_nth_drop_Suc [symmetric])
  have buf: "length (fill_buf msg m) = MC_MTU"
    using k13 ts b by (auto simp: fill_buf_def m(1) map_msgs_nth length_map_part MC_MTU_def)
  show ?thesis
  proof (cases "k < 12")
    case True
    let ?d = "take 512 (drop (512 * k) ts)"
    have f: "fill_buf msg m = [GM_MAP] @ wr16 (of_nat (512 * k)) @ wr16 512 @ ?d @ drop 517 msg"
      using True ts by (simp add: fill_buf_def m(1) map_msgs_nth map_part_def)
    have ld: "length ?d = 512" using True ts by simp
    have n: "length m = 517" using True ts k13 by (simp add: m(1) map_msgs_nth length_map_part)
    have u: "unat (of_nat (512 * k) :: u16) = 512 * k" using True by (simp add: unat_of_nat take_bit_nat_eq_self del: of_nat_mult)
    note h = rd_msg_header [of GM_MAP "of_nat (512 * k)" 512 "?d @ drop 517 msg", folded f]
    have d: "rd_bytes (fill_buf msg m) 5 512 = Some ?d" using ld by (simp add: f rd_bytes_def)
    obtain vs where vs: "put_bytes (tiles (cl_world c)) (512 * k) ?d = Some vs" "length vs = 6144" "take (512 * Suc k) vs = take (512 * Suc k) ts"
      using put_part [OF ts k(3,4) True] by auto
    let ?c = "c\<lparr>cl_world := (cl_world c)\<lparr>tiles := vs\<rparr>, cl_map_off := of_nat (512 * k) + 512\<rparr>"
    have lim: "512 * k + 512 \<le> MAP_BYTES" using True by (simp add: MAP_BYTES_def)
    have u5: "unat (512 :: u16) = 512" by simp
    have "client_msg (length m) (fill_buf msg m) c = Some (fill_buf msg m, ?c)"
      unfolding client_msg_def n h Option.bind.simps
      using lim d vs(1) by (simp only: u u5 GM_WELCOME_def GM_MAP_def Option.bind.simps) simp
    moreover have "got_map ts ms ?c" using True vs by (auto simp: got_map_def m(2) intro!: exI [of _ "Suc k"])
    ultimately show ?thesis using buf by blast
  next
    case False
    then have e: "k = 12" "m = [GM_MAPEND]" using k13 by (simp_all add: m(1) map_msgs_nth)
    have tk: "tiles (cl_world c) = ts" using k(3,4) ts e(1) by simp
    have "client_msg (length m) (fill_buf msg m) c = Some (fill_buf msg m, c\<lparr>cl_have_map := True\<rparr>)"
      by (simp add: client_msg_def e(2) fill_buf_def rd8_def GM_WELCOME_def GM_MAP_def GM_MAPEND_def)
    moreover have "got_map ts ms (c\<lparr>cl_have_map := True\<rparr>)" using ts tk e(1) by (auto simp: got_map_def m(2) intro!: exI [of _ 13])
    ultimately show ?thesis using buf by blast
  qed
qed

text \<open>A read takes the first waiting message.\<close>

lemma nc_read_next:
  assumes wf: "mc_wf c"
  shows "(rx_msgs (m_chan c r) = [] \<and> nc_read (Some c) (Some r) = (0, [], Some c)) \<or>
    (\<exists>m ms c'. rx_msgs (m_chan c r) = m # ms \<and> nc_read (Some c) (Some r) = (int (length m), m, Some c') \<and> mc_wf c' \<and> rx_msgs (m_chan c' r) = ms)"
proof (cases "rx_count (m_chan c r) = 0")
  case True
  then show ?thesis by (simp add: rx_msgs_def nc_read_def mc_read_def Let_def)
next
  case False
  let ?ch = "m_chan c r" and ?c = "snd (snd (mc_read c (Some r) MC_MTU))"
  have wr: "rx_head ?ch < MC_RECVQ" "length (rxq ?ch (rx_head ?ch)) \<le> MC_MAXMSG" using wf by (simp_all add: mc_wf_def rx_wf_def)
  have "rx_msgs ?ch = rxq ?ch (rx_head ?ch) # cring_list MC_RECVQ (rxq ?ch) (Suc (rx_head ?ch) mod MC_RECVQ) (rx_count ?ch - 1)"
    using False wr(1) cring_pop [of "rx_count ?ch" MC_RECVQ "rxq ?ch" "rx_head ?ch"] by (simp add: rx_msgs_def)
  moreover have "\<not> MC_MTU < length (rxq ?ch (rx_head ?ch))" using wr(2) by (simp add: MC_MAXMSG_def MC_MTU_def)
  then have "mc_read c (Some r) MC_MTU = (int (length (rxq ?ch (rx_head ?ch))), rxq ?ch (rx_head ?ch),
      upd_mchan c r (\<lambda>ch. ch\<lparr>rx_head := Suc (rx_head ch) mod MC_RECVQ, rx_count := rx_count ch - 1\<rparr>))"
    using False by (simp add: mc_read_def Let_def)
  moreover have "mc_wf ?c" using wf by (rule mc_read_wf)
  ultimately show ?thesis by (simp add: nc_read_def rx_msgs_def upd_mchan_def)
qed

lemma map_msgs_filled: "length ts = 6144 \<Longrightarrow> m \<in> set (map_msgs ts) \<Longrightarrow> m \<noteq> []"
  by (auto simp: map_msgs_def map_part_def)

lemma got_map_nc [simp]: "got_map ts ms (c\<lparr>cl_nc := x\<rparr>) = got_map ts ms c"
  by (simp add: got_map_def)

lemma client_drain_gets:
  assumes ts: "length ts = 6144"
  shows "mc_wf c \<Longrightarrow> cl_nc cl = Some c \<Longrightarrow> cl_rel cl = Some r \<Longrightarrow> length msg = MC_MTU \<Longrightarrow> got_map ts (rx_msgs (m_chan c r) @ ms) cl \<Longrightarrow>
    \<exists>msg' cl'. client_drain_rel msg cl = Some (msg', cl') \<and> cl_rel cl' = Some r \<and> length msg' = MC_MTU \<and> got_map ts ms cl'"
proof (induction "rx_msgs (m_chan c r)" arbitrary: c cl msg)
  case Nil
  then have "nc_read (Some c) (Some r) = (0, [], Some c)" using nc_read_next [of c r] by auto
  then show ?case using Nil by (simp add: client_drain_rel.simps [of msg cl])
next
  case (Cons m ms')
  obtain c1 where c1: "nc_read (Some c) (Some r) = (int (length m), m, Some c1)" "mc_wf c1" "rx_msgs (m_chan c1 r) = ms'"
    using nc_read_next [OF Cons.prems(1), of r] Cons.hyps(2) by auto
  have g: "got_map ts (m # ms' @ ms) (cl\<lparr>cl_nc := Some c1\<rparr>)" using Cons.prems(5) Cons.hyps(2) by (metis append_Cons got_map_nc)
  then have "m \<in> set (map_msgs ts)" unfolding got_map_def by (metis in_set_dropD list.set_intros(1))
  then have pos: "0 < length m" using map_msgs_filled [OF ts] by blast
  obtain msg1 cl1 where s: "client_msg (length m) (fill_buf msg m) (cl\<lparr>cl_nc := Some c1\<rparr>) = Some (msg1, cl1)" "length msg1 = MC_MTU" "got_map ts (ms' @ ms) cl1"
    using client_gets [OF ts g Cons.prems(4)] by auto
  have l: "cl_nc cl1 = Some c1" "cl_rel cl1 = Some r" using client_msg_link [OF s(1)] Cons.prems(3) by simp_all
  have "client_drain_rel msg cl = client_drain_rel msg1 cl1"
    using c1(1) pos s(1) Cons.prems(2,3) by (simp add: client_drain_rel.simps [of msg cl] Let_def)
  then show ?case using Cons.hyps(1) [of c1 cl1 msg1] c1 l s by simp
qed

text \<open>One drain per service call; in between packets arrive.\<close>

fun drain_calls :: "bytes \<Rightarrow> microchan list \<Rightarrow> gclient \<Rightarrow> gclient option" where
  "drain_calls junk [] cl = Some cl"
| "drain_calls junk (c # cs) cl = do { (msg, cl) \<leftarrow> client_drain_rel junk (cl\<lparr>cl_nc := Some c\<rparr>); drain_calls junk cs cl }"

lemma drain_calls_get:
  assumes ts: "length ts = 6144" and b: "length junk = MC_MTU"
  shows "\<forall>c\<in>set cs. mc_wf c \<Longrightarrow> cl_rel cl = Some r \<Longrightarrow> got_map ts (concat (map (\<lambda>c. rx_msgs (m_chan c r)) cs)) cl \<Longrightarrow>
    \<exists>cl'. drain_calls junk cs cl = Some cl' \<and> got_map ts [] cl'"
proof (induction cs arbitrary: cl)
  case (Cons c cs)
  have "\<exists>msg' cl'. client_drain_rel junk (cl\<lparr>cl_nc := Some c\<rparr>) = Some (msg', cl') \<and> cl_rel cl' = Some r \<and> length msg' = MC_MTU \<and>
      got_map ts (concat (map (\<lambda>c. rx_msgs (m_chan c r)) cs)) cl'"
    by (rule client_drain_gets [OF ts]) (use Cons.prems b in simp_all)
  then show ?case using Cons.IH Cons.prems(1) by fastforce
qed simp

lemma got_map_start: "length ts = 6144 \<Longrightarrow> length (tiles (cl_world cl)) = 6144 \<Longrightarrow> got_map ts (map_msgs ts) cl"
  by (auto simp: got_map_def intro!: exI [of _ 0])

lemma got_map_all: "length ts = 6144 \<Longrightarrow> got_map ts [] cl \<Longrightarrow> tiles (cl_world cl) = ts \<and> cl_have_map cl"
  by (auto simp: got_map_def)

text \<open>
  C23: The map arrives whole.  Over any service calls of the server, with the window as full as it may be in each, \<open>stream_map\<close> writes the
  chunks of the map and the end mark to the reliable channel in order, each once; it has written all of them exactly when the
  connection is marked as mapped, which is so after at most thirteen calls that find room in the window.  A client whose service
  calls read these messages from the channel, in any number of batches, has the server's tiles and \<open>have_map\<close> at the end.
\<close>

theorem map_transfer:
  assumes "length ts = 6144" "gc_rel gc = Some r" "gc_map_off gc = 0" "\<not> gc_mapped gc" "\<forall>c\<in>set cs. link_up r c"
    "length (tiles (cl_world cl)) = 6144" "cl_rel cl = Some q" "length junk = MC_MTU" "\<forall>c\<in>set ds. mc_wf c"
    "concat (map (\<lambda>c. rx_msgs (m_chan c q)) ds) = map_msgs ts"
  shows "(\<exists>gc' j. stream_calls ts cs gc = Some (take j (map_msgs ts), gc') \<and> (gc_mapped gc' \<longleftrightarrow> take j (map_msgs ts) = map_msgs ts) \<and>
      (13 \<le> length (filter link_room cs) \<longrightarrow> gc_mapped gc')) \<and>
    (\<exists>cl'. drain_calls junk ds cl = Some cl' \<and> tiles (cl_world cl') = ts \<and> cl_have_map cl')"
proof
  have "sent_upto 0 gc" using assms(3,4) by (simp add: sent_upto_def)
  then obtain gc' j where j: "stream_calls ts cs gc = Some (take j (map_msgs ts), gc')" "j \<le> 13" "sent_upto j gc'" "min 13 (length (filter link_room cs)) \<le> j"
    using stream_calls_send [OF assms(1,5,2), of 0] by auto
  have m: "gc_mapped gc' \<longleftrightarrow> j = 13" using j(3) by (auto simp: sent_upto_def split: if_splits)
  have t: "j = 13 \<longleftrightarrow> take j (map_msgs ts) = map_msgs ts"
  proof
    assume "take j (map_msgs ts) = map_msgs ts"
    then have "length (take j (map_msgs ts)) = length (map_msgs ts)" by simp
    then show "j = 13" using j(2) by simp
  qed simp
  have "13 \<le> length (filter link_room cs) \<longrightarrow> gc_mapped gc'" using m j(2,4) by linarith
  then show "\<exists>gc' j. stream_calls ts cs gc = Some (take j (map_msgs ts), gc') \<and> (gc_mapped gc' \<longleftrightarrow> take j (map_msgs ts) = map_msgs ts) \<and>
      (13 \<le> length (filter link_room cs) \<longrightarrow> gc_mapped gc')" using m t j(1) by blast
next
  show "\<exists>cl'. drain_calls junk ds cl = Some cl' \<and> tiles (cl_world cl') = ts \<and> cl_have_map cl'"
    using drain_calls_get [OF assms(1,8,9,7), unfolded assms(10), OF got_map_start [OF assms(1,6)]] got_map_all [OF assms(1)] by blast
qed

text \<open>A cave of floor, sent over thirteen calls and read in two batches of eight and five messages.\<close>

definition demo_tiles :: "u8 list" where
  "demo_tiles = replicate 6144 1"

definition demo_batch :: "nat \<Rightarrow> nat \<Rightarrow> microchan" where
  "demo_batch k n = upd_mchan (mc_demo 2 1) 0 (\<lambda>ch. ch\<lparr>rxq := (\<lambda>i. if i < n then map_msgs demo_tiles ! (k + i) else []), rx_head := 0, rx_count := n\<rparr>)"

lemma length_demo_msg: "k < 13 \<Longrightarrow> length (map_msgs demo_tiles ! k) \<le> MC_MAXMSG"
  by (auto simp: map_msgs_nth length_map_part demo_tiles_def MC_MAXMSG_def MC_MTU_def)

lemma demo_batch_wf: "k + n \<le> 13 \<Longrightarrow> n \<le> 8 \<Longrightarrow> mc_wf (demo_batch k n)"
  unfolding demo_batch_def
  by (rule mc_wf_chan) (use mc_demo_facts(1) [of 2 1] length_demo_msg in \<open>auto simp: rx_wf_def MC_RECVQ_def MC_WINDOW_def mc_quiet_def gbn_fresh_def\<close>)

lemma demo_batch_msgs: "k + n \<le> 13 \<Longrightarrow> n \<le> 8 \<Longrightarrow> rx_msgs (m_chan (demo_batch k n) 0) = take n (drop k (map_msgs demo_tiles))"
  by (auto simp: demo_batch_def upd_mchan_def rx_msgs_def cring_list_def MC_RECVQ_def MC_WINDOW_def intro!: nth_equalityI)

theorem map_transfer_witness:
  "(\<exists>gc' j. stream_calls demo_tiles (replicate 13 (mc_demo 1 2)) (gconn_zero\<lparr>gc_rel := Some 0\<rparr>) = Some (take j (map_msgs demo_tiles), gc') \<and>
      (gc_mapped gc' \<longleftrightarrow> take j (map_msgs demo_tiles) = map_msgs demo_tiles) \<and>
      (13 \<le> length (filter link_room (replicate 13 (mc_demo 1 2))) \<longrightarrow> gc_mapped gc')) \<and>
    (\<exists>cl'. drain_calls (replicate MC_MTU 0) [demo_batch 0 8, demo_batch 8 5] ((gclient_init 1 2 False)\<lparr>cl_rel := Some 0\<rparr>) = Some cl' \<and>
      tiles (cl_world cl') = demo_tiles \<and> cl_have_map cl')"
proof (rule map_transfer)
  show "concat (map (\<lambda>c. rx_msgs (m_chan c 0)) [demo_batch 0 8, demo_batch 8 5]) = map_msgs demo_tiles"
    by (simp add: demo_batch_msgs)
qed (use mc_demo_facts [of 1 2] demo_batch_wf [of 0 8] demo_batch_wf [of 8 5] in
    \<open>auto simp: demo_tiles_def gconn_zero_def gclient_init_def world_zero_def link_up_def\<close>)

end
