(* ===== verification/Thor_Server.thy ===== *)
theory Thor_Server
  imports Thor_Net_Props
begin

text \<open>
  The game server under arbitrary datagrams: whatever its clients send and whenever it is called, its state stays well formed and
  no call leaves a buffer, an array or the game.  The second part follows the slot of a player who leaves.
\<close>

section \<open>The invariant\<close>

definition nc_ok :: "microchan option \<Rightarrow> bool" where
  "nc_ok nc \<longleftrightarrow> (\<forall>c. nc = Some c \<longrightarrow> mc_wf c)"

definition conn_ok :: "gconn \<Rightarrow> bool" where
  "conn_ok gc \<longleftrightarrow> -1 \<le> gc_player gc \<and> gc_player gc < int MAX_PLAYERS \<and> nc_ok (gc_nc gc)"

definition server_ok :: "rng \<Rightarrow> nat set \<Rightarrow> gserver \<Rightarrow> bool" where
  "server_ok g0 F s \<longleftrightarrow> length (sv_conn s) = MAX_PLAYERS \<and> (\<forall>gc\<in>set (sv_conn s). conn_ok gc) \<and> game_ok g0 F (sv_game s)"

lemma nc_ok_simps [simp]: "nc_ok None" "nc_ok (Some c) = mc_wf c"
  by (simp_all add: nc_ok_def)

lemma ok_imp_ok_or: "ok m P \<Longrightarrow> ok_or S m P"
  by (auto simp: ok_def)

lemma server_length: "server_ok g0 F s \<Longrightarrow> length (sv_conn s) = MAX_PLAYERS"
  by (simp add: server_ok_def)

lemma server_conn: "server_ok g0 F s \<Longrightarrow> i < MAX_PLAYERS \<Longrightarrow> conn_ok (sv_conn s ! i)"
  by (simp add: server_ok_def)

lemma put_conn_ok: "server_ok g0 F s \<Longrightarrow> conn_ok gc \<Longrightarrow> i < MAX_PLAYERS \<Longrightarrow> ok_or S (put_conn i gc s) (server_ok g0 F)"
  using all_put [of "sv_conn s" conn_ok gc i] by (simp add: put_conn_def server_ok_def)

lemma server_game: "server_ok g0 F s \<Longrightarrow> game_ok g0 F w \<Longrightarrow> server_ok g0 F (s\<lparr>sv_game := w\<rparr>)"
  by (simp add: server_ok_def)

lemma server_chats [simp]: "server_ok g0 F (s\<lparr>sv_chats := cs\<rparr>) = server_ok g0 F s" "server_ok g0 F (s\<lparr>last_tick_ms := t\<rparr>) = server_ok g0 F s"
    "server_ok g0 F (s\<lparr>sv_on_chat := b\<rparr>) = server_ok g0 F s"
  by (simp_all add: server_ok_def)

lemma conn_ok_nc: "conn_ok gc \<Longrightarrow> nc_ok nc \<Longrightarrow> conn_ok (gc\<lparr>gc_nc := nc\<rparr>)"
  by (simp add: conn_ok_def)

lemma nc_write_ok: "nc_ok nc \<Longrightarrow> nc_ok (snd (nc_write nc p d))"
  using mc_write_wf [of _ p d] by (cases nc) (auto simp: nc_write_def case_prod_beta)

lemma nc_read_ok:
  assumes "nc_ok nc" "nc_read nc p = (n, d, nc')"
  shows "nc_ok nc'" "length d \<le> MC_MAXMSG" "0 < n \<Longrightarrow> n = int (length d)"
proof -
  show "nc_ok nc'" using assms mc_read_wf [of _ p MC_MTU] by (cases nc) (auto simp: nc_read_def case_prod_beta)
  show "length d \<le> MC_MAXMSG" "0 < n \<Longrightarrow> n = int (length d)"
    using assms by (auto simp: nc_read_def mc_read_def Let_def MC_ERR_TOOBIG_def mc_wf_def rx_wf_def split: option.splits if_splits)
qed

section \<open>Calls\<close>

lemma relay_to_ok: "server_ok g0 F s \<Longrightarrow> i < MAX_PLAYERS \<Longrightarrow> ok_or S (relay_to d i s) (server_ok g0 F)"
  using server_conn [of g0 F s i]
  by (auto simp: relay_to_def server_length conn_ok_nc nc_write_ok conn_ok_def intro!: put_conn_ok)

lemma relay_ok: "server_ok g0 F s \<Longrightarrow> ok_or S (for_each (relay_to d) [0..<MAX_PLAYERS] s) (server_ok g0 F)"
  by (rule for_each_ok) (auto intro: relay_to_ok)

lemma chat_msg_ok:
  assumes s: "server_ok g0 F s" and i: "i < MAX_PLAYERS" and msg: "length msg = MC_MTU" and n: "n \<le> MC_MAXMSG"
  shows "ok_or S (chat_msg i n msg s) (\<lambda>(msg', s'). length msg' = MC_MTU \<and> server_ok g0 F s')"
proof -
  have mtu: "MC_MTU = 546" "MC_MAXMSG = 532" by (simp_all add: MC_MTU_def MC_MAXMSG_def)
  show ?thesis unfolding chat_msg_def using i msg n
    by (simp add: server_length [OF s] mtu) (auto intro!: ok_or_mono [OF relay_ok [OF s]] s simp: Let_def)
qed

lemma input_msg_ok:
  assumes s: "server_ok g0 F s" and i: "i < MAX_PLAYERS" and msg: "length msg = MC_MTU"
  shows "ok_or S (input_msg i n msg s) (server_ok g0 F)"
proof -
  have g: "game_ok g0 F (sv_game s)" using s by (simp add: server_ok_def)
  show ?thesis unfolding input_msg_def using i msg
    by (simp add: server_length [OF s] MC_MTU_def) (auto intro!: ok_or_mono [OF set_input_ok [OF g]] server_game [OF s] s)
qed

lemma drain_rel_ok:
  "server_ok g0 F s \<Longrightarrow> i < MAX_PLAYERS \<Longrightarrow> length msg = MC_MTU \<Longrightarrow>
   ok_or S (drain_rel i msg s) (\<lambda>(msg', s'). length msg' = MC_MTU \<and> server_ok g0 F s')"
proof (induction i msg s rule: drain_rel.induct)
  case (1 i msg s)
  let ?gc = "sv_conn s ! i"
  obtain n d nc where r: "nc_read (gc_nc ?gc) (gc_rel ?gc) = (n, d, nc)" by (metis prod_cases3)
  note rd = nc_read_ok [OF _ r]
  have gc: "conn_ok ?gc" "nc_ok (gc_nc ?gc)" "at_index (sv_conn s) i = Some ?gc"
    using server_conn [OF 1(2,3)] 1(3) server_length [OF 1(2)] by (simp_all add: conn_ok_def at_index_def)
  obtain s1 where s1: "put_conn i (?gc\<lparr>gc_nc := nc\<rparr>) s = Some s1" "server_ok g0 F s1"
    using put_conn_ok [OF 1(2) conn_ok_nc [OF gc(1) rd(1) [OF gc(2)]] 1(3), of False] by (auto simp: ok_or_def split: option.splits)
  show ?case
  proof (cases "0 < n")
    case True
    let ?m = "fill_buf msg d"
    have len: "length ?m = MC_MTU" "nat n \<le> MC_MAXMSG"
      using rd(2,3) [OF gc(2)] True 1(4) by (auto simp: fill_buf_def MC_MTU_def MC_MAXMSG_def)
    have "ok_or S (chat_msg i (nat n) ?m s1) (\<lambda>(msg, s). ok_or S (drain_rel i msg s) (\<lambda>(msg', s'). length msg' = MC_MTU \<and> server_ok g0 F s'))"
      (is "ok_or S ?c _")
    proof (cases ?c)
      case None
      then show ?thesis using chat_msg_ok [OF s1(2) 1(3) len, of S] by simp
    next
      case (Some ms)
      obtain m2 s2 where ms: "ms = (m2, s2)" by fastforce
      have "length m2 = MC_MTU \<and> server_ok g0 F s2" using chat_msg_ok [OF s1(2) 1(3) len, of S] Some ms by simp
      then show ?thesis
        using 1(1) [OF gc(3) refl, unfolded r fst_conv snd_conv, OF s1(1) True Some ms [symmetric]] 1(3) by (simp only: Some ms ok_or_simps prod.case)
    qed
    then show ?thesis using True by (simp add: drain_rel.simps [of i msg s] gc(3) r s1(1) case_prod_unfold)
  next
    case False
    then show ?thesis using s1(2) 1(4) by (simp add: drain_rel.simps [of i msg s] gc(3) r s1(1))
  qed
qed

lemma drain_unr_ok:
  "server_ok g0 F s \<Longrightarrow> i < MAX_PLAYERS \<Longrightarrow> length msg = MC_MTU \<Longrightarrow> ok_or S (drain_unr i msg s) (server_ok g0 F)"
proof (induction i msg s rule: drain_unr.induct)
  case (1 i msg s)
  let ?gc = "sv_conn s ! i"
  obtain n d nc where r: "nc_read (gc_nc ?gc) (gc_unr ?gc) = (n, d, nc)" by (metis prod_cases3)
  note rd = nc_read_ok [OF _ r]
  have gc: "conn_ok ?gc" "nc_ok (gc_nc ?gc)" "at_index (sv_conn s) i = Some ?gc"
    using server_conn [OF 1(2,3)] 1(3) server_length [OF 1(2)] by (simp_all add: conn_ok_def at_index_def)
  obtain s1 where s1: "put_conn i (?gc\<lparr>gc_nc := nc\<rparr>) s = Some s1" "server_ok g0 F s1"
    using put_conn_ok [OF 1(2) conn_ok_nc [OF gc(1) rd(1) [OF gc(2)]] 1(3), of False] by (auto simp: ok_or_def split: option.splits)
  show ?case
  proof (cases "0 < n")
    case True
    let ?m = "fill_buf msg d"
    have len: "length ?m = MC_MTU" using rd(2) [OF gc(2)] 1(4) by (auto simp: fill_buf_def MC_MTU_def MC_MAXMSG_def)
    have "ok_or S (input_msg i (nat n) ?m s1) (\<lambda>s. ok_or S (drain_unr i ?m s) (server_ok g0 F))" (is "ok_or S ?c _")
    proof (cases ?c)
      case None
      then show ?thesis using input_msg_ok [OF s1(2) 1(3) len, of S "nat n"] by simp
    next
      case (Some s2)
      have "server_ok g0 F s2" using input_msg_ok [OF s1(2) 1(3) len, of S "nat n"] Some by simp
      then show ?thesis
        using 1(1) [OF gc(3) refl, unfolded r fst_conv snd_conv, OF s1(1) True Some] 1(3) len by (simp only: Some ok_or_simps)
    qed
    then show ?thesis using True by (simp add: drain_unr.simps [of i msg s] gc(3) r s1(1))
  next
    case False
    then show ?thesis using s1(2) by (simp add: drain_unr.simps [of i msg s] gc(3) r s1(1))
  qed
qed

lemma server_drain_ok:
  assumes "server_ok g0 F s" "i < MAX_PLAYERS" "length msg = MC_MTU"
  shows "ok_or S (server_drain msg i s) (server_ok g0 F)"
  unfolding server_drain_def ok_or_simps
  by (rule ok_or_mono [OF drain_rel_ok [OF assms]]) (use assms(2) drain_unr_ok in auto)

lemma server_close_ok: "server_ok g0 F s \<Longrightarrow> i < MAX_PLAYERS \<Longrightarrow> ok_or S (server_close i s) (server_ok g0 F)"
  unfolding server_close_def by (rule put_conn_ok) (simp_all add: conn_ok_def gconn_zero_def MAX_PLAYERS_def)

lemma clear_alive_ok: "game_ok g0 F w \<Longrightarrow> i < MAX_PLAYERS \<Longrightarrow> game_ok g0 F (w\<lparr>players := (players w)[i := (players w ! i)\<lparr>pl_alive := 0\<rparr>]\<rparr>)"
  using game_ok_parts(1) [of g0 F w i] by (intro put_player_ok) (simp_all add: player_ok_def)

lemma conn_event_ok:
  assumes s: "server_ok g0 F s" and i: "i < MAX_PLAYERS"
  shows "ok_or (rng_stuck g0) (conn_event i ev s) (server_ok g0 F)"
proof -
  let ?gc = "sv_conn s ! i"
  have at: "at_index (sv_conn s) i = Some ?gc" using i server_length [OF s] by (simp add: at_index_def)
  have gc: "conn_ok ?gc" using server_conn [OF s i] .
  have g: "game_ok g0 F (sv_game s)" using s by (simp add: server_ok_def)
  consider "me_type ev = MC_EV_CONNECTED" | "me_type ev \<noteq> MC_EV_CONNECTED" "me_type ev = MC_EV_DISCONNECTED" "0 \<le> gc_player ?gc"
    | "me_type ev \<noteq> MC_EV_CONNECTED" "me_type ev = MC_EV_DISCONNECTED" "\<not> 0 \<le> gc_player ?gc" | "me_type ev \<noteq> MC_EV_CONNECTED" "me_type ev \<noteq> MC_EV_DISCONNECTED" by blast
  then show ?thesis
  proof cases
    case 1
    let ?nc = "\<lambda>pl :: int. snd (nc_write (gc_nc ?gc) (gc_rel ?gc) [GM_WELCOME, word_of_int pl])"
    have "ok_or (rng_stuck g0) (put_conn i (?gc\<lparr>gc_nc := ?nc pl, gc_player := pl, gc_map_off := 0, gc_mapped := False\<rparr>) (s\<lparr>sv_game := w\<rparr>)) (server_ok g0 F)"
      if "game_ok g0 F w \<and> (pl = GAME_ERR \<or> 0 \<le> pl \<and> pl < int MAX_PLAYERS)" for pl w
      using that gc nc_write_ok [of "gc_nc ?gc"] i
      by (intro put_conn_ok server_game [OF s]) (auto simp: conn_ok_def GAME_ERR_def MAX_PLAYERS_def)
    then have "ok_or (rng_stuck g0) (game_add_player (sv_game s)) (\<lambda>(pl, w). ok_or (rng_stuck g0)
        (put_conn i (?gc\<lparr>gc_nc := ?nc pl, gc_player := pl, gc_map_off := 0, gc_mapped := False\<rparr>) (s\<lparr>sv_game := w\<rparr>)) (server_ok g0 F))"
      by (intro ok_or_mono [OF add_player_ok [OF g]]) auto
    then show ?thesis using 1 by (simp add: conn_event_def at case_prod_unfold)
  next
    case 2
    have k: "nat (gc_player ?gc) < MAX_PLAYERS" using gc 2(3) unfolding conn_ok_def by linarith
    then have "at_index (players (sv_game s)) (nat (gc_player ?gc)) = Some (players (sv_game s) ! nat (gc_player ?gc))"
      using game_ok_lengths(2) [OF g] by (simp add: at_index_def)
    then show ?thesis using 2 k game_ok_lengths(2) [OF g] server_close_ok [OF server_game [OF s clear_alive_ok [OF g k]] i]
      by (simp add: conn_event_def at)
  next
    case 3
    then show ?thesis using server_close_ok [OF s i] by (simp add: conn_event_def at)
  next
    case 4
    then show ?thesis using s by (simp add: conn_event_def at)
  qed
qed

lemma poll_conn_ok: "server_ok g0 F s \<Longrightarrow> i < MAX_PLAYERS \<Longrightarrow> ok_or (rng_stuck g0) (poll_conn i s) (server_ok g0 F)"
proof (induction i s rule: poll_conn.induct)
  case (1 i s)
  let ?gc = "sv_conn s ! i"
  have at: "at_index (sv_conn s) i = Some ?gc" using 1(3) server_length [OF 1(2)] by (simp add: at_index_def)
  have gc: "conn_ok ?gc" using server_conn [OF 1(2,3)] .
  show ?case
  proof (cases "\<exists>c ev c'. gc_nc ?gc = Some c \<and> mc_poll c = Some (ev, c')")
    case True
    then obtain c ev c' where c: "gc_nc ?gc = Some c" "mc_poll c = Some (ev, c')" by blast
    have "mc_wf c'" using gc c mc_poll_wf [OF _ c(2)] by (simp add: conn_ok_def)
    then obtain s1 where s1: "put_conn i (?gc\<lparr>gc_nc := Some c'\<rparr>) s = Some s1" "server_ok g0 F s1"
      using put_conn_ok [OF 1(2) conn_ok_nc [OF gc, of "Some c'"] 1(3), of False] by (auto simp: ok_or_def split: option.splits)
    have "ok_or (rng_stuck g0) (conn_event i ev s1) (\<lambda>s. ok_or (rng_stuck g0) (poll_conn i s) (server_ok g0 F))" (is "ok_or _ ?e _")
    proof (cases ?e)
      case None
      then show ?thesis using conn_event_ok [OF s1(2) 1(3), of ev] by simp
    next
      case (Some s2)
      then have "server_ok g0 F s2" using conn_event_ok [OF s1(2) 1(3), of ev] by simp
      then show ?thesis using 1(1) [OF at c refl s1(1) Some] 1(3) by (simp only: Some ok_or_simps)
    qed
    then show ?thesis by (simp add: poll_conn.simps [of i s] at c s1(1))
  next
    case False
    then have "poll_conn i s = Some s" by (auto simp: poll_conn.simps [of i s] at split: option.split)
    then show ?thesis using 1(2) by simp
  qed
qed

lemma map_chunk_ok: "length ts = 6144 \<Longrightarrow> off < MAP_BYTES \<Longrightarrow> \<exists>d. map_chunk ts off = Some d"
  by (simp add: map_chunk_def Let_def emit_def MAP_BYTES_def MAP_CHUNK_def)

lemma stream_map_ok: "length ts = 6144 \<Longrightarrow> conn_ok gc \<Longrightarrow> ok_or S (stream_map ts gc) conn_ok"
proof (induction ts gc rule: stream_map.induct)
  case (1 ts gc)
  have nc: "nc_ok (gc_nc gc)" using 1(3) by (simp add: conn_ok_def)
  show ?case
  proof (cases "unat (gc_map_off gc) < MAP_BYTES")
    case True
    obtain m where m: "map_chunk ts (unat (gc_map_off gc)) = Some m" using map_chunk_ok [OF 1(2) True] by blast
    obtain r nc' where w: "nc_write (gc_nc gc) (gc_rel gc) m = (r, nc')" by fastforce
    have ok: "nc_ok nc'" using nc_write_ok [OF nc, of "gc_rel gc" m] w by simp
    then have "ok_or S (stream_map ts (gc\<lparr>gc_nc := nc', gc_map_off := gc_map_off gc + of_nat (min (MAP_BYTES - unat (gc_map_off gc)) MAP_CHUNK)\<rparr>)) conn_ok"
      if "r \<noteq> MC_ERR_AGAIN"
      by (intro 1(1) [OF True m w [symmetric] refl that 1(2)]) (use 1(3) in \<open>simp add: conn_ok_def\<close>)
    then show ?thesis using True m w ok conn_ok_nc [OF 1(3)] by (simp add: stream_map.simps [of ts gc])
  next
    case False
    have "conn_ok (gc\<lparr>gc_nc := nc', gc_mapped := b\<rparr>)" if "nc_ok nc'" for nc' b using 1(3) that by (simp add: conn_ok_def)
    then show ?thesis using False nc_write_ok [OF nc, of "gc_rel gc" "[GM_MAPEND]"] conn_ok_nc [OF 1(3)]
      by (simp add: stream_map.simps [of ts gc] case_prod_unfold Let_def)
  qed
qed

lemma service_conn_ok:
  assumes s: "server_ok g0 F s" and i: "i < MAX_PLAYERS" and junk: "length (junk i) = MC_MTU"
  shows "ok_or (rng_stuck g0) (service_conn junk now i s) (server_ok g0 F)"
proof -
  let ?gc = "sv_conn s ! i"
  let ?send = "\<lambda>s gc. if 0 \<le> gc_player gc \<and> \<not> gc_mapped gc then do { gc \<leftarrow> stream_map (tiles (sv_game s)) gc; put_conn i gc s } else Some s"
  have nth: "at_index (sv_conn t) i = Some (sv_conn t ! i)" if "server_ok g0 F t" for t using that i server_length by (simp add: at_index_def)
  have 4: "ok_or (rng_stuck g0) (?send t (sv_conn t ! i)) (server_ok g0 F)" if t: "server_ok g0 F t" for t
  proof -
    have "length (tiles (sv_game t)) = 6144" using t game_ok_lengths(1) by (auto simp: server_ok_def)
    then have "ok_or (rng_stuck g0) (stream_map (tiles (sv_game t)) (sv_conn t ! i)) (\<lambda>gc. ok_or (rng_stuck g0) (put_conn i gc t) (server_ok g0 F))"
      using server_conn [OF t i] by (intro ok_or_mono [OF stream_map_ok]) (auto intro: put_conn_ok [OF t _ i])
    then show ?thesis using t by simp
  qed
  have 3: "ok_or (rng_stuck g0) (server_drain (junk i) i t) (\<lambda>s. ok_or (rng_stuck g0) (at_index (sv_conn s) i) (\<lambda>gc. ok_or (rng_stuck g0) (?send s gc) (server_ok g0 F)))"
    if t: "server_ok g0 F t" for t
    by (rule ok_or_mono [OF server_drain_ok [OF t i junk]]) (simp only: nth ok_or_simps 4)
  have 2: "ok_or (rng_stuck g0) (poll_conn i t) (\<lambda>s. ok_or (rng_stuck g0) (do {
      gc \<leftarrow> at_index (sv_conn s) i;
      if \<not> gc_used gc then Some s
      else do { s \<leftarrow> server_drain (junk i) i s; gc \<leftarrow> at_index (sv_conn s) i; ?send s gc } }) (server_ok g0 F))"
    if t: "server_ok g0 F t" for t
  proof (rule ok_or_mono [OF poll_conn_ok [OF t i]], goal_cases)
    case (1 u)
    then show ?case using 3 [OF 1] by (cases "gc_used (sv_conn u ! i)") (simp_all only: nth [OF 1] ok_or_simps if_True if_False not_True_eq_False not_False_eq_True)
  qed
  have gc: "conn_ok ?gc" using server_conn [OF s i] .
  then have "conn_ok (?gc\<lparr>gc_nc := map_option (\<lambda>c. snd (mc_service c now)) (gc_nc ?gc)\<rparr>)"
    using mc_service_wf by (auto simp: conn_ok_def nc_ok_def)
  note 1 = ok_or_mono [OF put_conn_ok [OF s this i] 2]
  show ?thesis
  proof (cases "gc_used ?gc")
    case True
    then show ?thesis using 1 by (simp only: service_conn_def nth [OF s] ok_or_simps if_False not_True_eq_False Option.bind.simps simp_thms)
  next
    case False
    then show ?thesis using s by (simp add: service_conn_def nth [OF s])
  qed
qed

lemma broadcast_to_ok: "server_ok g0 F s \<Longrightarrow> i < MAX_PLAYERS \<Longrightarrow> ok_or S (broadcast_to d i s) (server_ok g0 F)"
  using server_conn [of g0 F s i]
  by (auto simp: broadcast_to_def server_length conn_ok_nc nc_write_ok conn_ok_def intro!: put_conn_ok)

lemma game_shape: "game_ok g0 F w \<Longrightarrow> world_shape w"
  by (simp add: game_ok_def game_wf_def world_shape_def MAP_BYTES_def)

lemma gserver_service_ok:
  assumes s: "server_ok g0 F s" and junk: "\<And>i. i < MAX_PLAYERS \<Longrightarrow> length (junk i) = MC_MTU"
  shows "ok_or (rng_stuck g0) (gserver_service junk now s) (server_ok g0 F)"
proof -
  have 2: "ok_or (rng_stuck g0) (serialize_state w) (\<lambda>d. ok_or (rng_stuck g0) (for_each (broadcast_to d) [0..<MAX_PLAYERS] (t\<lparr>last_tick_ms := now, sv_game := w\<rparr>)) (server_ok g0 F))"
    if "server_ok g0 F t" "game_ok g0 F w" for t w
  proof -
    have "server_ok g0 F (t\<lparr>last_tick_ms := now, sv_game := w\<rparr>)" using that by (intro server_game) simp_all
    then have "ok_or (rng_stuck g0) (for_each (broadcast_to d) [0..<MAX_PLAYERS] (t\<lparr>last_tick_ms := now, sv_game := w\<rparr>)) (server_ok g0 F)" for d
      by (intro for_each_ok) (auto intro: broadcast_to_ok)
    then show ?thesis using serialize_ok [OF game_shape [OF that(2)]] by simp
  qed
  have 1: "ok_or (rng_stuck g0) (if GAME_TICK_MS \<le> now - last_tick_ms t then do {
       w \<leftarrow> game_tick (sv_game t);
       d \<leftarrow> serialize_state w;
       for_each (broadcast_to d) [0..<MAX_PLAYERS] (t\<lparr>last_tick_ms := now, sv_game := w\<rparr>) }
     else Some t) (server_ok g0 F)" if t: "server_ok g0 F t" for t
  proof (cases "GAME_TICK_MS \<le> now - last_tick_ms t")
    case True
    have g: "game_ok g0 F (sv_game t)" using t by (simp add: server_ok_def)
    show ?thesis unfolding if_P [OF True] ok_or_simps by (rule ok_or_mono [OF game_tick_ok [OF g] 2 [OF t]])
  qed (use t in simp)
  have "ok_or (rng_stuck g0) (for_each (service_conn junk now) [0..<MAX_PLAYERS] s) (server_ok g0 F)"
    by (rule for_each_ok) (use s junk service_conn_ok in auto)
  then show ?thesis unfolding gserver_service_def ok_or_simps by (rule ok_or_mono [OF _ 1])
qed

lemma gserver_say_ok:
  assumes s: "server_ok g0 F s"
  shows "ok_or S (gserver_say who str s) (server_ok g0 F)"
proof -
  obtain d where d: "chat_line who str = Some d" by (simp add: chat_line_def Let_def emit_def)
  show ?thesis unfolding gserver_say_def d Option.bind.simps ok_or_simps by (rule ok_or_mono [OF relay_ok [OF s]]) simp
qed

lemma gserver_close_ok: "server_ok g0 F s \<Longrightarrow> ok_or S (gserver_close s) (server_ok g0 F)"
  unfolding gserver_close_def
  by (rule for_each_ok) (auto simp: close_used_def server_length intro: server_close_ok)

lemma pull_from_ok:
  "server_ok g0 F s \<Longrightarrow> 12 \<le> buflen \<Longrightarrow> \<forall>i\<in>set is. i < MAX_PLAYERS \<Longrightarrow>
   ok_or S (pull_from is buflen s) (\<lambda>(d, a, s'). length d \<le> buflen \<and> server_ok g0 F s')"
proof (induction "is" arbitrary: s)
  case (Cons i "is")
  let ?gc = "sv_conn s ! i"
  have i: "i < MAX_PLAYERS" using Cons.prems(3) by simp
  have at: "at_index (sv_conn s) i = Some ?gc" using i server_length [OF Cons.prems(1)] by (simp add: at_index_def)
  note rest = Cons.IH [OF _ Cons.prems(2)]
  show ?case
  proof (cases "gc_used ?gc \<and> gc_nc ?gc \<noteq> None")
    case True
    then obtain c where c: "gc_nc ?gc = Some c" by blast
    have gc: "conn_ok ?gc" using server_conn [OF Cons.prems(1) i] .
    then have "mc_wf c" using c by (simp add: conn_ok_def)
    then obtain d a c' where d: "mc_send_next c buflen = Some (d, a, c')" "mc_wf c'" "length d \<le> buflen"
      using mc_send_next_ok [of c buflen] Cons.prems(2) unfolding ok_def by fastforce
    obtain s1 where s1: "put_conn i (?gc\<lparr>gc_nc := Some c'\<rparr>) s = Some s1" "server_ok g0 F s1"
      using put_conn_ok [OF Cons.prems(1) conn_ok_nc [OF gc, of "Some c'"] i, of False] d(2) by (auto simp: ok_or_def split: option.splits)
    show ?thesis using True c d s1 rest [of s1] Cons.prems(3) by (simp add: at)
  next
    case False
    then have "pull_from (i # is) buflen s = pull_from is buflen s" by (auto simp: at split: option.split)
    then show ?thesis using rest [OF Cons.prems(1)] Cons.prems(3) by simp
  qed
qed simp

lemma accept_conn_ok:
  assumes s: "server_ok g0 F s"
  shows "ok_or S (accept_conn r1 r2 alloc s a) (\<lambda>(gc, s'). server_ok g0 F s' \<and> (\<forall>i. gc = Some i \<longrightarrow> i < MAX_PLAYERS))"
proof (cases "find (\<lambda>i. \<not> gc_used (sv_conn s ! i)) [0..<MAX_PLAYERS]")
  case None
  then show ?thesis using s by (simp add: accept_conn_def)
next
  case (Some i)
  then have i: "i < MAX_PLAYERS" by (auto simp: find_Some_iff)
  have at: "at_index (sv_conn s) i = Some (sv_conn s ! i)" using i server_length [OF s] by (simp add: at_index_def)
  have put: "ok_or S (put_conn i gc s) (\<lambda>s'. server_ok g0 F s' \<and> (\<forall>j. (if b then Some i else None) = Some j \<longrightarrow> j < MAX_PLAYERS))" if "conn_ok gc" for gc b
    by (rule ok_or_mono [OF put_conn_ok [OF s that i]]) (use i in simp)
  obtain rel c1 where c1: "mc_chan_open (mc_open r1 r2 True) MC_RELIABLE = (rel, c1)" by fastforce
  obtain unr c2 where c2: "mc_chan_open c1 MC_UNRELIABLE = (unr, c2)" by fastforce
  have "mc_wf c1" using mc_chan_ops_wf(1) [OF mc_open_wf, of r1 r2 True MC_RELIABLE] c1 by simp
  then have "mc_wf c2" using mc_chan_ops_wf(1) [of c1 MC_UNRELIABLE] c2 by simp
  then have new: "conn_ok \<lparr>gc_nc = Some c2, gc_addr = a, gc_rel = rel, gc_unr = unr, gc_player = -1, gc_map_off = 0, gc_used = True, gc_mapped = False\<rparr>"
    by (simp add: conn_ok_def MAX_PLAYERS_def)
  show ?thesis using put [OF new, of True] put [OF conn_ok_nc [OF server_conn [OF s i], of None], of False]
    by (simp add: accept_conn_def Some at c1 c2)
qed

lemma feed_conn_ok:
  assumes s: "server_ok g0 F s" and i: "i < MAX_PLAYERS"
  shows "ok_or S (feed_conn i pkt a s) (server_ok g0 F)"
proof (cases "gc_nc (sv_conn s ! i)")
  case None
  then show ?thesis using s i by (simp add: feed_conn_def server_length)
next
  case (Some c)
  note gc = server_conn [OF s i]
  then have "ok (mc_feed c pkt (Some a)) (\<lambda>(r, c'). mc_wf c')" using Some by (intro mc_feed_wf) (simp add: conn_ok_def)
  then obtain r c' where c': "mc_feed c pkt (Some a) = Some (r, c')" "mc_wf c'" by (auto simp: ok_def)
  then show ?thesis using Some i put_conn_ok [OF s conn_ok_nc [OF gc, of "Some c'"] i] by (simp add: feed_conn_def server_length [OF s])
qed

lemma gserver_feed_ok:
  assumes s: "server_ok g0 F s"
  shows "ok_or S (gserver_feed r1 r2 alloc s pkt a) (server_ok g0 F)"
proof -
  obtain pid where pid: "mc_peek_id pkt = Some pid" using rd32_defined [of 0 pkt] by (cases "length pkt < MC_HDR") (auto simp: mc_peek_id_def MC_HDR_def)
  define gc where "gc = (if pid \<noteq> 0 then find_by_id s pid else find_by_addr s a)"
  have gc: "\<forall>i. gc = Some i \<longrightarrow> i < MAX_PLAYERS" by (auto simp: gc_def find_by_id_def find_by_addr_def find_Some_iff)
  have feed: "ok_or S (case g of None \<Rightarrow> Some t | Some i \<Rightarrow> feed_conn i pkt a t) (server_ok g0 F)"
    if "server_ok g0 F t \<and> (\<forall>i. g = Some i \<longrightarrow> i < MAX_PLAYERS)" for g t
    using that feed_conn_ok by (simp split: option.split)
  have "ok_or S (if gc = None \<and> pid = 0 then accept_conn r1 r2 alloc s a else Some (gc, s)) (\<lambda>(g, t). server_ok g0 F t \<and> (\<forall>i. g = Some i \<longrightarrow> i < MAX_PLAYERS))"
    using accept_conn_ok [OF s] s gc by simp
  then show ?thesis unfolding gserver_feed_def pid Option.bind.simps Let_def gc_def [symmetric] ok_or_simps
    by (rule ok_or_mono) (use feed in auto)
qed

section \<open>The server\<close>

text \<open>The calls a host program makes; the first two arguments of \<open>Feed\<close> are the values of \<open>rand\<close> and the third the outcome of the allocation
  a new connection may need, the first of \<open>Service\<close> the old contents of the receive buffer.\<close>

datatype server_call =
    Feed u32 u32 bool bytes mc_addr
  | Service "nat \<Rightarrow> bytes" u32
  | Pull nat
  | Say int bytes
  | Shut
  | On_chat bool

fun exec_server :: "server_call \<Rightarrow> gserver \<Rightarrow> gserver option" where
  "exec_server (Feed r1 r2 alloc pkt a) s = gserver_feed r1 r2 alloc s pkt a"
| "exec_server (Service junk now) s = gserver_service junk now s"
| "exec_server (Pull buflen) s = do { (d, a, s) \<leftarrow> gserver_pull buflen s; Some s }"
| "exec_server (Say who str) s = gserver_say who str s"
| "exec_server Shut s = gserver_close s"
| "exec_server (On_chat b) s = Some (s\<lparr>sv_on_chat := b\<rparr>)"

fun call_fits :: "server_call \<Rightarrow> bool" where
  "call_fits (Service junk now) \<longleftrightarrow> (\<forall>i<MAX_PLAYERS. length (junk i) = MC_MTU)"
| "call_fits (Pull buflen) \<longleftrightarrow> 12 \<le> buflen"
| "call_fits _ \<longleftrightarrow> True"

definition serve :: "u16 \<Rightarrow> server_call list \<Rightarrow> game \<Rightarrow> gserver option" where
  "serve seed calls w = do { s \<leftarrow> gserver_init seed w; for_each exec_server calls s }"

lemma exec_server_ok:
  assumes s: "server_ok g0 F s" and c: "call_fits c"
  shows "ok_or (rng_stuck g0) (exec_server c s) (server_ok g0 F)"
proof (cases c)
  case (Feed r1 r2 alloc pkt a)
  then show ?thesis using gserver_feed_ok [OF s] by simp
next
  case (Service junk now)
  then show ?thesis using gserver_service_ok [OF s, of junk] c by simp
next
  case (Pull buflen)
  have "ok_or (rng_stuck g0) (gserver_pull buflen s) (\<lambda>(d, a, s'). length d \<le> buflen \<and> server_ok g0 F s')"
    unfolding gserver_pull_def by (rule pull_from_ok [OF s]) (use c in \<open>simp_all add: Pull\<close>)
  then show ?thesis unfolding Pull exec_server.simps ok_or_simps by (rule ok_or_mono) auto
next
  case (Say who str)
  then show ?thesis using gserver_say_ok [OF s] by simp
next
  case Shut
  then show ?thesis using gserver_close_ok [OF s] by simp
qed (use s in simp)

lemma serve_ok:
  assumes "\<forall>c\<in>set calls. call_fits c"
  shows "ok_or (rng_stuck (seeded seed w)) (serve seed calls w) (\<lambda>s. \<exists>ts. one_region ts \<and> server_ok (seeded seed w) (floor_cells ts) s)"
proof -
  let ?g = "seeded seed w"
  have run: "ok_or (rng_stuck ?g) (for_each exec_server calls s) (\<lambda>s. \<exists>ts. one_region ts \<and> server_ok ?g (floor_cells ts) s)"
    if "one_region ts" "server_ok ?g (floor_cells ts) s" for ts s
    by (rule ok_or_mono [OF for_each_ok [where I = "server_ok ?g (floor_cells ts)"]]) (use that assms exec_server_ok in auto)
  have "ok_or (rng_stuck ?g) (gserver_init seed w) (\<lambda>s. \<exists>ts. one_region ts \<and> server_ok ?g (floor_cells ts) s)"
    unfolding gserver_init_def ok_or_simps
    by (rule ok_or_mono [OF game_init_ok]) (auto simp: server_ok_def conn_ok_def gconn_zero_def MAX_PLAYERS_def)
  then show ?thesis unfolding serve_def ok_or_simps by (rule ok_or_mono) (use run in blast)
qed


definition demo_game :: game where
  "demo_game = world.extend world_zero (game.fields (replicate MAX_PLAYERS 0) (replicate MAX_PLAYERS 0) \<lparr>rng_x = 4, rng_a = 1, rng_b = 2, rng_c = 3\<rparr>)"

definition demo_calls :: "server_call list" where
  "demo_calls = [Feed 1 2 True [0, 0, 0, 0, 1, 0, 0, 0, 0, 0, 0, 9] mc_addr_zero, Service (\<lambda>_. replicate MC_MTU 0) 1000, Pull MC_MTU]"


section \<open>The slot of a player who left\<close>

text \<open>A slot whose player left while alive keeps its health, so it is neither alive nor free.\<close>

definition slot_gone :: "nat \<Rightarrow> game \<Rightarrow> bool" where
  "slot_gone k w \<longleftrightarrow> k < length (players w) \<and> k < length (respawn_t w) \<and> pl_alive (players w ! k) = 0 \<and> pl_hp (players w ! k) \<noteq> 0 \<and> respawn_t w ! k = 0"

lemma returns_iff: "ok_or True m P \<longleftrightarrow> (\<forall>x. m = Some x \<longrightarrow> P x)"
  by (simp add: ok_or_def split: option.split)

lemma step_player_gone:
  assumes "slot_gone k w"
  shows "ok_or True (step_player i w) (slot_gone k)"
proof -
  have "slot_gone k w'" if "step_player i w = Some w'" for w'
  proof (cases "pl_alive (players w ! i) = 0")
    case True
    then show ?thesis using that assms by (auto simp: step_player_def at_index_def split: if_splits)
  next
    case False
    then have "i \<noteq> k" using assms by (auto simp: slot_gone_def)
    moreover have "length (players w') = length (players w) \<and> (\<forall>j. j \<noteq> i \<longrightarrow> players w' ! j = players w ! j) \<and> respawn_t w' = respawn_t w"
      using that by (auto simp: step_player_def move_player_def fire_player_def at_index_def put_index_def Let_def Option.bind_eq_Some_conv split: if_splits option.splits)
    ultimately show ?thesis using assms by (simp add: slot_gone_def)
  qed
  then show ?thesis by (simp add: returns_iff)
qed

lemma award_gone: "slot_gone k w \<Longrightarrow> award own w = Some w' \<Longrightarrow> slot_gone k w'"
  by (auto simp: award_def at_index_def put_index_def slot_gone_def nth_list_update Option.bind_eq_Some_conv split: if_splits)

lemma shot_steps_gone: "slot_gone k w \<Longrightarrow> shot_steps n s w = Some w' \<Longrightarrow> slot_gone k w'"
proof (induction n arbitrary: w)
  case (Suc n)
  have put: "slot_gone k w2" if "put_shot s sh w1 = Some w2" "slot_gone k w1" for sh w1 w2
    using that by (auto simp: put_shot_def put_index_def slot_gone_def split: if_splits)
  have kill: "slot_gone k w2" if "kill_creature j w1 = Some w2" "slot_gone k w1" for j w1 w2
    using that by (auto simp: kill_creature_def at_index_def put_index_def slot_gone_def split: if_splits)
  show ?case using Suc.prems
    by (auto simp: Let_def Option.bind_eq_Some_conv split: if_splits option.splits dest: put kill award_gone Suc.IH)
qed simp

lemma nearest_living: "nearest_player w x y = Some k \<Longrightarrow> pl_alive (players w ! k) \<noteq> 0"
proof -
  have "\<forall>k. fst st = Some k \<longrightarrow> pl_alive (players w ! k) \<noteq> 0 \<Longrightarrow> fst (fold (nearer w x y) is st) = Some k \<Longrightarrow> pl_alive (players w ! k) \<noteq> 0" for "is" st k
  proof (induction "is" arbitrary: st)
    case (Cons i "is")
    have "\<forall>k. fst (nearer w x y i st) = Some k \<longrightarrow> pl_alive (players w ! k) \<noteq> 0"
      using Cons.prems(1) by (auto simp: nearer_def Let_def split: prod.split)
    then show ?case using Cons.IH Cons.prems(2) by simp
  qed simp
  from this [of "(None, 0x7fff)" "[0..<MAX_PLAYERS]" k] show "nearest_player w x y = Some k \<Longrightarrow> ?thesis" by (simp add: nearest_player_def)
qed

lemma attack_gone: "slot_gone k w \<Longrightarrow> j \<noteq> k \<Longrightarrow> attack j w = Some w' \<Longrightarrow> slot_gone k w'"
  by (auto simp: attack_def at_index_def put_index_def slot_gone_def Option.bind_eq_Some_conv split: if_splits)

lemma chase_gone: "slot_gone k w \<Longrightarrow> chase i c dx dy w = Some w' \<Longrightarrow> slot_gone k w'"
  by (auto simp: chase_def Let_def put_creature_def put_index_def slot_gone_def Option.bind_eq_Some_conv split: if_splits)

lemma step_creature_gone:
  assumes "slot_gone k w"
  shows "ok_or True (step_creature i w) (slot_gone k)"
proof -
  have "slot_gone k w'" if "nearest_player w x y = Some j" "attack j w = Some w'" for x y j w'
    by (rule attack_gone [OF assms _ that(2)]) (use nearest_living [OF that(1)] assms in \<open>auto simp: slot_gone_def\<close>)
  then show ?thesis using assms chase_gone [OF assms]
    by (auto simp: returns_iff step_creature_def Let_def Option.bind_eq_Some_conv split: if_splits option.splits)
qed

lemma step_respawn_gone:
  assumes "slot_gone k w"
  shows "ok_or True (step_respawn i w) (slot_gone k)"
proof (cases "i = k")
  case True
  then show ?thesis using assms by (simp add: step_respawn_def slot_gone_def)
next
  case False
  then show ?thesis using assms
    by (auto simp: returns_iff step_respawn_def at_index_def put_index_def Let_def slot_gone_def Option.bind_eq_Some_conv split: if_splits option.splits)
qed

lemma tick_gone:
  assumes "slot_gone k w"
  shows "ok_or True (game_tick w) (slot_gone k)"
proof -
  have 1: "ok_or True (step_players w) (slot_gone k)" unfolding step_players_def by (rule for_each_ok) (use assms step_player_gone in auto)
  have "ok_or True (step_shot s v) (slot_gone k)" if "slot_gone k v" for s v
    using that shot_steps_gone [OF that] by (auto simp: returns_iff step_shot_def Option.bind_eq_Some_conv split: if_splits)
  then have 2: "ok_or True (step_shots v) (slot_gone k)" if "slot_gone k v" for v
    unfolding step_shots_def by (rule for_each_ok) (use that in auto)
  have 3: "ok_or True (step_creatures v) (slot_gone k)" if "slot_gone k v" for v
  proof (cases "tick v AND 1 \<noteq> 0")
    case False
    then show ?thesis unfolding step_creatures_def if_not_P [OF False] by (intro for_each_ok step_creature_gone that)
  qed (simp add: step_creatures_def that)
  have 4: "ok_or True (step_respawns v) (slot_gone k)" if "slot_gone k v" for v
    unfolding step_respawns_def by (intro for_each_ok step_respawn_gone that)
  show ?thesis unfolding game_tick_def ok_or_simps
    by (rule ok_or_mono [OF 1], rule ok_or_mono [OF 2], assumption, rule ok_or_mono [OF 3], assumption, rule ok_or_mono [OF 4], assumption) (simp add: slot_gone_def)
qed

lemma add_player_gone:
  assumes "slot_gone k w" "game_add_player w = Some (r, w')"
  shows "slot_gone k w'"
proof -
  have "i \<noteq> k" if "find (free_slot w) [0..<MAX_PLAYERS] = Some i" for i
    using that assms(1) by (auto simp: find_Some_iff free_slot_def slot_gone_def)
  then show ?thesis using assms
    by (auto simp: game_add_player_def at_index_def put_index_def Let_def slot_gone_def Option.bind_eq_Some_conv split: if_splits option.splits)
qed

lemma exec_gone:
  assumes "slot_gone k w"
  shows "ok_or True (exec_game op w) (slot_gone k)"
proof (cases op)
  case Join
  then show ?thesis using add_player_gone [OF assms] by (auto simp: returns_iff)
next
  case (Input i b)
  then show ?thesis using assms
    by (auto simp: returns_iff game_set_input_def at_index_def put_index_def slot_gone_def nth_list_update Option.bind_eq_Some_conv split: if_splits)
next
  case (Leave i)
  then show ?thesis using assms by (cases "i = k") (simp_all add: slot_gone_def)
next
  case Tick
  then show ?thesis using tick_gone [OF assms] by simp
qed

lemma leave_all:
  assumes "game_wf w" "\<forall>k<MAX_PLAYERS. pl_alive (players w ! k) \<noteq> 0 \<and> respawn_t w ! k = 0"
  shows "\<exists>w'. for_each exec_game (map Leave [0..<MAX_PLAYERS]) w = Some w' \<and> (\<forall>k<MAX_PLAYERS. slot_gone k w')"
proof -
  have m: "[0..<MAX_PLAYERS] = [0, 1, 2, 3]" by (simp add: MAX_PLAYERS_def upt_rec)
  have len: "length (players w) = 4" "length (respawn_t w) = 4" using assms(1) by (simp_all add: game_wf_def MAX_PLAYERS_def)
  have hp: "pl_hp (players w ! k) \<noteq> 0 \<and> respawn_t w ! k = 0" if "k < 4" for k
  proof -
    have "player_ok (tiles w) (players w ! k)" using assms(1) that len(1) by (simp add: game_wf_def)
    then show ?thesis using assms(2) that by (auto simp: player_ok_def MAX_PLAYERS_def)
  qed
  define w' where "w' = w\<lparr>players := map (\<lambda>p. p\<lparr>pl_alive := 0\<rparr>) (players w)\<rparr>"
  obtain a b c d where abcd: "players w = [a, b, c, d]" using len(1) by (auto simp: numeral_eq_Suc length_Suc_conv)
  have "for_each exec_game (map Leave [0..<MAX_PLAYERS]) w = Some w'"
    unfolding m by (simp add: MAX_PLAYERS_def w'_def abcd numeral_2_eq_2 numeral_3_eq_3)
  moreover have "slot_gone k w'" if "k < MAX_PLAYERS" for k using hp [of k] that len by (simp add: slot_gone_def w'_def MAX_PLAYERS_def)
  ultimately show ?thesis by blast
qed

text \<open>
  C40: A slot is lost when its player leaves.  The server only clears \<open>alive\<close> of a disconnected player and \<open>game_add_player\<close> takes only slots without
  health, so after four living players have left, in every later state of the game, whatever happens, no player can join any more.
\<close>

theorem slots_lost:
  assumes "game_wf w" "\<forall>k<MAX_PLAYERS. pl_alive (players w ! k) \<noteq> 0 \<and> respawn_t w ! k = 0"
  shows "case for_each exec_game (map Leave [0..<MAX_PLAYERS] @ ops) w of
      Some w' \<Rightarrow> game_add_player w' = Some (GAME_ERR, w') | None \<Rightarrow> True"
proof -
  obtain w1 where w1: "for_each exec_game (map Leave [0..<MAX_PLAYERS]) w = Some w1" "\<forall>k<MAX_PLAYERS. slot_gone k w1" using leave_all [OF assms] by blast
  have "ok_or True (for_each exec_game ops w1) (\<lambda>w'. \<forall>k<MAX_PLAYERS. slot_gone k w')"
    by (rule for_each_ok) (use w1(2) exec_gone in \<open>auto simp: returns_iff\<close>)
  moreover have "game_add_player w' = Some (GAME_ERR, w')" if "\<forall>k<MAX_PLAYERS. slot_gone k w'" for w'
  proof -
    have "find (free_slot w') [0..<MAX_PLAYERS] = None" using that by (auto simp: find_None_iff free_slot_def slot_gone_def)
    then show ?thesis by (simp add: game_add_player_def)
  qed
  ultimately show ?thesis using w1(1) by (auto simp: for_each_append returns_iff split: option.split)
qed

definition demo_full :: game where
  "demo_full = demo_game\<lparr>tiles := replicate 6144 1,
     players := replicate MAX_PLAYERS \<lparr>pl_x = 5, pl_y = 6, pl_facing = 4, pl_alive = 1, pl_hp = 10, pl_input = 255, pl_score = 0\<rparr>\<rparr>"

lemma demo_full_wf: "game_wf demo_full"
proof -
  have "floor_at (replicate 6144 1) 5 6" using cell_less [of 5 6] by (simp add: floor_at_def on_map_def MAP_W_def MAP_H_def T_WALL_def)
  then show ?thesis
    by (auto simp: game_wf_def demo_full_def demo_game_def world.extend_def game.fields_def world_zero_def player_ok_def creature_ok_def shot_ok_def PLAYER_HP_def)
qed

theorem slots_lost_witness:
  "case for_each exec_game (map Leave [0..<MAX_PLAYERS] @ [Tick, Join]) demo_full of
      Some w' \<Rightarrow> game_add_player w' = Some (GAME_ERR, w') | None \<Rightarrow> True"
  by (rule slots_lost [OF demo_full_wf]) (simp add: demo_full_def demo_game_def world.extend_def game.fields_def)

end
