(* ===== verification/Secure_Link.thy ===== *)
theory Secure_Link
  imports NC_Api NC_Udp Crypto_Session Auth_Text
begin

text \<open>
  The encrypted session of the echo example (\<open>src/examples/echo/secure_link.c\<close>): one netchan connection over a UDP
  socket, with \<open>nc_crypto\<close> around its datagrams when the caller asks for it, driven by a socket watcher and a tick.

  The link's structure is the record \<open>secure_link\<close>.  \<open>sl_sent\<close> and \<open>sl_events\<close> are histories: what was given to
  \<open>sendto\<close>, and the calls of the callbacks that are set, which are taken to return before they call the link again.
  \<open>sl_timer\<close> says whether a tick is scheduled (\<open>iox_timer_add\<close> is taken to succeed).  The arguments of \<open>sl_env\<close> are the cryptography and, for the \<open>n\<close>th call
  of netchan, its clock readings and entropy.
\<close>

section \<open>State\<close>

definition SECURE_LINK_OK :: int where "SECURE_LINK_OK = 0"
definition SECURE_LINK_ERR :: int where "SECURE_LINK_ERR = -1"

datatype sl_event = Sl_Up | Sl_Data bytes | Sl_Down

record secure_link_cb =
  cb_on_up :: bool
  cb_on_data :: bool
  cb_on_down :: bool

record secure_link =
  sl_conn :: netchan_conn
  sl_tx :: "nat option"
  sl_rx :: "nat option"
  sl_server :: bool
  sl_encrypted :: bool
  sl_have_peer :: bool
  sl_connect_sent :: bool
  sl_accepted :: bool
  sl_up :: bool
  sl_closing :: bool
  sl_timer :: bool
  sl_peer :: nc_addr
  sl_crypto :: nc_crypto
  sl_cb :: secure_link_cb
  sl_calls :: nat
  sl_sent :: "(bytes \<times> sockaddr) list"
  sl_events :: "sl_event list"

record sl_env =
  se_nc :: "nat \<Rightarrow> nc_env"
  se_now :: "nat \<Rightarrow> u32"
  se_lib :: crypto_lib

definition sl_fire :: "bool \<Rightarrow> sl_event \<Rightarrow> secure_link \<Rightarrow> secure_link" where
  "sl_fire b ev sl = (if b then sl\<lparr>sl_events := sl_events sl @ [ev]\<rparr> else sl)"

section \<open>Sending\<close>

definition sl_send_hello :: "secure_link \<Rightarrow> secure_link option" where
  "sl_send_hello sl =
     (if \<not> sl_have_peer sl then Some sl
      else do {
        (hn, hp) \<leftarrow> nc_crypto_handshake_packet (sl_crypto sl) NC_CRYPTO_HELLO_LEN;
        (slen, ss) \<leftarrow> nc_udp_to_sockaddr (Some (sl_peer sl));
        Some (if hn = 0 \<or> slen = 0 then sl else sl\<lparr>sl_sent := sl_sent sl @ [(hp, ss)]\<rparr>) })"

text \<open>What goes out for a datagram of netchan: nothing when it cannot be sealed.\<close>

definition sl_wrap :: "sl_env \<Rightarrow> secure_link \<Rightarrow> bytes \<Rightarrow> (bytes option \<times> secure_link) option" where
  "sl_wrap e sl buf =
     (if sl_encrypted sl then do {
        (sn, sealed, k) \<leftarrow> nc_crypto_seal (se_lib e) (sl_crypto sl) buf (2048 + NC_CRYPTO_OVERHEAD);
        Some (if sn < 0 then None else Some sealed, sl\<lparr>sl_crypto := k\<rparr>) }
      else Some (Some buf, sl))"

partial_function (option) sl_flush_out :: "sl_env \<Rightarrow> secure_link \<Rightarrow> secure_link option" where
  "sl_flush_out e sl = do {
     (buf, to, c) \<leftarrow> netchan_send_next (se_nc e (sl_calls sl)) (sl_conn sl) 2048;
     let sl = sl\<lparr>sl_conn := c, sl_calls := sl_calls sl + 1\<rparr>;
     if buf = [] then Some sl
     else do {
       (out, sl) \<leftarrow> sl_wrap e sl buf;
       (case out of
          None \<Rightarrow> sl_flush_out e sl
        | Some d \<Rightarrow> do {
            (slen, ss) \<leftarrow> nc_udp_to_sockaddr to;
            sl_flush_out e (if slen = 0 then sl else sl\<lparr>sl_sent := sl_sent sl @ [(d, ss)]\<rparr>) }) } }"

definition sl_service :: "sl_env \<Rightarrow> secure_link \<Rightarrow> secure_link option" where
  "sl_service e sl = do {
     (_, c) \<leftarrow> netchan_service (se_nc e (sl_calls sl)) (sl_conn sl) (se_now e (sl_calls sl));
     Some (sl\<lparr>sl_conn := c, sl_calls := sl_calls sl + 1\<rparr>) }"

section \<open>The handshakes\<close>

definition sl_connect :: "sl_env \<Rightarrow> secure_link \<Rightarrow> secure_link" where
  "sl_connect e sl =
     (if \<not> sl_server sl \<and> \<not> sl_connect_sent sl \<and> (\<not> sl_encrypted sl \<or> have_key (sl_crypto sl)) then
        (case netchan_connect (se_nc e (sl_calls sl)) (sl_conn sl) (sl_peer sl) of (rc, c) \<Rightarrow>
          let sl = sl\<lparr>sl_conn := c, sl_calls := sl_calls sl + 1\<rparr> in
          if rc = NETCHAN_OK then sl\<lparr>sl_connect_sent := True\<rparr> else sl)
      else sl)"

definition sl_open_channel :: "secure_link \<Rightarrow> secure_link" where
  "sl_open_channel sl =
     (if \<not> sl_up sl \<and> sl_tx sl = None \<and> netchan_state (sl_conn sl) = NETCHAN_STATE_CONNECTED then
        (case netchan_chan_open (sl_conn sl) NETCHAN_RELIABLE NETCHAN_DIR_SEND (str_of ''echo'') of (p, c) \<Rightarrow>
          let sl = sl\<lparr>sl_conn := c, sl_tx := p\<rparr> in
          if p \<noteq> None then sl_fire (cb_on_up (sl_cb sl)) Sl_Up (sl\<lparr>sl_up := True\<rparr>) else sl)
      else sl)"

definition sl_advance :: "sl_env \<Rightarrow> secure_link \<Rightarrow> secure_link" where
  "sl_advance e sl = sl_open_channel (sl_connect e sl)"

section \<open>Receiving\<close>

partial_function (option) sl_poll_events :: "secure_link \<Rightarrow> secure_link option" where
  "sl_poll_events sl =
     (case netchan_poll (sl_conn sl) of
        None \<Rightarrow> Some sl
      | Some (ev, c) \<Rightarrow>
          let sl = sl\<lparr>sl_conn := c\<rparr> in
          sl_poll_events
            (if ev_type ev = NETCHAN_EV_CHAN_OPEN \<or> ev_type ev = NETCHAN_EV_DATA
             then (if ev_ch ev \<noteq> None then sl\<lparr>sl_rx := ev_ch ev\<rparr> else sl)
             else if ev_type ev = NETCHAN_EV_DISCONNECTED then sl_fire (cb_on_down (sl_cb sl)) Sl_Down sl
             else sl))"

partial_function (option) sl_read_messages :: "secure_link \<Rightarrow> secure_link option" where
  "sl_read_messages sl = do {
     (rd, msg, c) \<leftarrow> netchan_chan_read (sl_conn sl) (sl_rx sl) 2048;
     let sl = sl\<lparr>sl_conn := c\<rparr>;
     if rd > 0 then sl_read_messages (sl\<lparr>sl_events := sl_events sl @ [Sl_Data msg]\<rparr>) else Some sl }"

definition sl_pump_events :: "secure_link \<Rightarrow> secure_link option" where
  "sl_pump_events sl = do {
     sl \<leftarrow> sl_poll_events sl;
     if sl_rx sl \<noteq> None \<and> cb_on_data (sl_cb sl) then sl_read_messages sl else Some sl }"

definition sl_feed :: "sl_env \<Rightarrow> secure_link \<Rightarrow> bytes \<Rightarrow> nc_addr \<Rightarrow> secure_link option" where
  "sl_feed e sl p src = do {
     (_, c) \<leftarrow> netchan_feed (se_nc e (sl_calls sl)) (se_now e (sl_calls sl)) (sl_conn sl) p (Some src);
     let sl' = sl\<lparr>sl_conn := c, sl_calls := sl_calls sl + 1\<rparr>;
     Some (if sl_server sl \<and> \<not> sl_accepted sl
       then sl'\<lparr>sl_conn := snd (netchan_accept (sl_conn sl')), sl_accepted := True\<rparr> else sl') }"

text \<open>One datagram of the loop of \<open>on_readable\<close>.\<close>

definition sl_datagram :: "sl_env \<Rightarrow> secure_link \<Rightarrow> bytes \<Rightarrow> sockaddr \<Rightarrow> nat \<Rightarrow> secure_link option" where
  "sl_datagram e sl buf ss slen = do {
     (rc, src) \<leftarrow> nc_udp_from_sockaddr (Some ss) slen;
     if rc \<noteq> 0 then Some sl
     else do {
       let sl = (if sl_server sl \<and> \<not> sl_have_peer sl then sl\<lparr>sl_peer := src, sl_have_peer := True\<rparr> else sl);
       if sl_encrypted sl then do {
         t \<leftarrow> rd8 buf 0;
         (pn, plain, k) \<leftarrow> nc_crypto_open (se_lib e) (sl_crypto sl) buf 2048;
         let sl = sl\<lparr>sl_crypto := k\<rparr>;
         sl \<leftarrow> (if t = NC_CRYPTO_HELLO \<and> sl_server sl then sl_send_hello sl else Some sl);
         if pn \<le> 0 then Some sl else sl_feed e sl plain src }
       else sl_feed e sl buf src } }"

text \<open>The datagrams the socket holds, in order; a datagram of no bytes ends the loop as an empty socket does.\<close>

fun sl_recv_loop :: "sl_env \<Rightarrow> (bytes \<times> sockaddr \<times> nat) list \<Rightarrow> secure_link \<Rightarrow> secure_link option" where
  "sl_recv_loop e [] sl = Some sl"
| "sl_recv_loop e ((d, ss, slen) # ds) sl =
     (if d = [] then Some sl else do { sl \<leftarrow> sl_datagram e sl (take 2048 d) ss slen; sl_recv_loop e ds sl })"

definition sl_on_readable :: "sl_env \<Rightarrow> (bytes \<times> sockaddr \<times> nat) list \<Rightarrow> secure_link \<Rightarrow> secure_link option" where
  "sl_on_readable e ds sl = do {
     sl \<leftarrow> sl_recv_loop e ds sl;
     sl \<leftarrow> sl_pump_events sl;
     sl_flush_out e (sl_advance e sl) }"

definition sl_on_tick :: "sl_env \<Rightarrow> secure_link \<Rightarrow> secure_link option" where
  "sl_on_tick e sl = do {
     sl \<leftarrow> (if sl_encrypted sl \<and> \<not> sl_server sl \<and> \<not> have_key (sl_crypto sl) then sl_send_hello sl else Some sl);
     sl \<leftarrow> sl_service e sl;
     sl \<leftarrow> sl_pump_events sl;
     sl \<leftarrow> sl_flush_out e (sl_advance e sl);
     Some (sl\<lparr>sl_timer := \<not> sl_closing sl\<rparr>) }"

section \<open>Opening, sending and closing\<close>

definition sl_start :: "bool \<Rightarrow> nc_addr option \<Rightarrow> bool \<Rightarrow> nc_crypto \<Rightarrow> secure_link_cb option \<Rightarrow> secure_link" where
  "sl_start server peer use_crypto k cb = \<lparr>
     sl_conn = netchan_open server, sl_tx = None, sl_rx = None, sl_server = server, sl_encrypted = use_crypto,
     sl_have_peer = (peer \<noteq> None), sl_connect_sent = False, sl_accepted = False, sl_up = False, sl_closing = False, sl_timer = False,
     sl_peer = (case peer of Some a \<Rightarrow> a | None \<Rightarrow> addr_zero), sl_crypto = k,
     sl_cb = (case cb of Some f \<Rightarrow> f | None \<Rightarrow> \<lparr>cb_on_up = False, cb_on_data = False, cb_on_down = False\<rparr>),
     sl_calls = 0, sl_sent = [], sl_events = []\<rparr>"

text \<open>\<open>alloc\<close> and \<open>fdok\<close> are the outcomes of the allocations and of \<open>iox_fd_add\<close>, \<open>rnd\<close> what the system gives \<open>nc_crypto_init\<close>;
  the inner \<open>None\<close> is a null result.\<close>

definition secure_link_open ::
  "sl_env \<Rightarrow> int \<times> bytes \<Rightarrow> bool \<Rightarrow> bool \<Rightarrow> bool \<Rightarrow> nc_addr option \<Rightarrow> bytes option \<Rightarrow> bool \<Rightarrow> secure_link_cb option \<Rightarrow> secure_link option option" where
  "secure_link_open e rnd alloc fdok server peer psk use_crypto cb =
     (if \<not> server \<and> peer = None then Some None
      else if \<not> alloc then Some None
      else do {
        (rc, k) \<leftarrow> (if use_crypto then nc_crypto_init (se_lib e) rnd (if server then 1 else 0)
            (Some \<lparr>cfg_eph_sk_seed = None, cfg_psk = psk, cfg_static_sk = None, cfg_require_peer_static = False, cfg_verify_peer = None\<rparr>)
          else Some (0, crypto_zero));
        if rc \<noteq> 0 \<or> \<not> fdok then Some None
        else do { sl \<leftarrow> sl_on_tick e (sl_start server peer use_crypto k cb); Some (Some sl) } })"

text \<open>At most 64 attempts.\<close>

fun sl_spin :: "sl_env \<Rightarrow> nat \<Rightarrow> bytes \<Rightarrow> secure_link \<Rightarrow> (int \<times> secure_link) option" where
  "sl_spin e 0 data sl = Some (SECURE_LINK_ERR, sl)"
| "sl_spin e (Suc n) data sl = do {
     (w, c) \<leftarrow> netchan_chan_write (sl_conn sl) (sl_tx sl) data;
     let sl = sl\<lparr>sl_conn := c\<rparr>;
     if w = int (length data) then do { sl \<leftarrow> sl_flush_out e sl; Some (SECURE_LINK_OK, sl) }
     else if w \<noteq> NETCHAN_ERR_FLOW \<and> w \<noteq> NETCHAN_ERR_AGAIN then Some (SECURE_LINK_ERR, sl)
     else do {
       sl \<leftarrow> sl_service e sl;
       sl \<leftarrow> sl_flush_out e sl;
       sl_spin e n data sl } }"

definition secure_link_send :: "sl_env \<Rightarrow> secure_link \<Rightarrow> bytes \<Rightarrow> (int \<times> secure_link) option" where
  "secure_link_send e sl data =
     (if \<not> sl_up sl \<or> sl_tx sl = None then Some (SECURE_LINK_ERR, sl) else sl_spin e 64 data sl)"

definition secure_link_up :: "secure_link \<Rightarrow> bool" where
  "secure_link_up sl = sl_up sl"

text \<open>The last state of the link before it is freed.\<close>

definition secure_link_close :: "sl_env \<Rightarrow> secure_link \<Rightarrow> secure_link option" where
  "secure_link_close e sl = do {
     let sl = sl\<lparr>sl_closing := True, sl_timer := False\<rparr>;
     sl \<leftarrow> (if \<not> sl_encrypted sl \<or> have_key (sl_crypto sl) then sl_flush_out e (sl\<lparr>sl_conn := netchan_disconnect (sl_conn sl)\<rparr>) else Some sl);
     c \<leftarrow> netchan_close (sl_conn sl);
     Some (sl\<lparr>sl_conn := c\<rparr>) }"

end
