(* ===== verification/Secure_Link_Props.thy ===== *)
theory Secure_Link_Props
  imports Secure_Link Auth_Link_Props
begin

text \<open>
  The order the encrypted link promises: the keys are agreed before netchan says a word, so everything of netchan, its
  connect request included, travels sealed, and no counter is used twice.  The invariant \<open>sl_inv\<close> is kept by every function of the link.
\<close>

section \<open>An untouched connection\<close>

lemma fresh_channels [simp]: "channels (netchan_open s) i = None" "ctrl_buf (netchan_open s) = []" "conn_state (netchan_open s) = NETCHAN_STATE_NEW"
  by (simp_all add: netchan_open_def pool_init_def conn_zero_def)

lemma fresh_quiet: "\<forall>i. channels c i = None \<Longrightarrow> has_data_scan c is = Some False" "\<forall>i. channels c i = None \<Longrightarrow> service_retransmit c now n is = Some (n, c)"
  by (induction "is") simp_all

lemma fresh_send: "netchan_send_next e (netchan_open s) n = Some ([], None, netchan_open s)"
  by (simp add: netchan_send_next_def has_data_def fresh_quiet)

lemma fresh_service: "\<exists>r. netchan_service e (netchan_open s) now = Some (r, netchan_open s)"
  by (simp add: netchan_service_def service_connect_def service_idle_def service_ping_def fresh_quiet)

lemma fresh_close: "netchan_close (netchan_open s) = Some (netchan_open s)"
proof -
  have "\<forall>i. channels c i = None \<Longrightarrow> close_channels c is = Some c" for c "is" by (induction "is") (simp_all add: chan_free_def)
  then show ?thesis by (simp add: netchan_close_def)
qed

lemma fresh_poll: "netchan_poll (netchan_open s) = None"
  by (simp add: netchan_poll_def netchan_open_def pool_init_def conn_zero_def)

section \<open>The invariant\<close>

text \<open>Before the keys: nothing has happened above the encryption.\<close>

definition sl_waiting :: "secure_link \<Rightarrow> bool" where
  "sl_waiting sl \<longleftrightarrow> sl_conn sl = netchan_open (sl_server sl) \<and> sl_tx sl = None \<and> sl_rx sl = None \<and> \<not> sl_up sl \<and> \<not> sl_accepted sl \<and> \<not> sl_connect_sent sl \<and>
     sl_events sl = []"

definition ups :: "sl_event list \<Rightarrow> nat" where
  "ups es = length (filter (\<lambda>e. e = Sl_Up) es)"

definition sl_inv :: "bool \<Rightarrow> sl_env \<Rightarrow> secure_link \<Rightarrow> bool" where
  "sl_inv en e sl \<longleftrightarrow>
     sl_encrypted sl = en \<and> (en \<longrightarrow> wire_ok (se_lib e) (sl_crypto sl) (map fst (sl_sent sl)) \<and> (\<not> have_key (sl_crypto sl) \<longrightarrow> sl_waiting sl)) \<and>
     (sl_up sl \<longrightarrow> sl_tx sl \<noteq> None) \<and> ups (sl_events sl) = (if sl_up sl \<and> cb_on_up (sl_cb sl) then 1 else 0)"

text \<open>The keys, once agreed, or no encryption: the connection may be used.\<close>

definition sl_open :: "secure_link \<Rightarrow> bool" where
  "sl_open sl \<longleftrightarrow> \<not> sl_encrypted sl \<or> have_key (sl_crypto sl)"

lemma sl_inv_open [simp]:
  assumes "sl_open sl"
  shows "sl_inv en e (sl\<lparr>sl_conn := c\<rparr>) = sl_inv en e sl" "sl_inv en e (sl\<lparr>sl_rx := p\<rparr>) = sl_inv en e sl"
    "sl_inv en e (sl\<lparr>sl_accepted := b\<rparr>) = sl_inv en e sl" "sl_inv en e (sl\<lparr>sl_connect_sent := b\<rparr>) = sl_inv en e sl"
  using assms by (auto simp: sl_inv_def sl_open_def)

lemma sl_inv_simps [simp]:
  "sl_inv en e (sl\<lparr>sl_calls := n\<rparr>) = sl_inv en e sl" "sl_inv en e (sl\<lparr>sl_timer := b\<rparr>) = sl_inv en e sl" "sl_inv en e (sl\<lparr>sl_closing := b\<rparr>) = sl_inv en e sl"
  "sl_inv en e (sl\<lparr>sl_peer := a\<rparr>) = sl_inv en e sl" "sl_inv en e (sl\<lparr>sl_have_peer := b\<rparr>) = sl_inv en e sl"
  by (simp_all add: sl_inv_def sl_waiting_def)

lemma sl_open_simps [simp]:
  "sl_open (sl\<lparr>sl_conn := c\<rparr>) = sl_open sl" "sl_open (sl\<lparr>sl_rx := p\<rparr>) = sl_open sl" "sl_open (sl\<lparr>sl_tx := p\<rparr>) = sl_open sl"
  "sl_open (sl\<lparr>sl_accepted := b\<rparr>) = sl_open sl" "sl_open (sl\<lparr>sl_connect_sent := b\<rparr>) = sl_open sl" "sl_open (sl\<lparr>sl_calls := n\<rparr>) = sl_open sl"
  "sl_open (sl\<lparr>sl_up := b\<rparr>) = sl_open sl" "sl_open (sl\<lparr>sl_events := es\<rparr>) = sl_open sl" "sl_open (sl\<lparr>sl_sent := ds\<rparr>) = sl_open sl"
  "sl_open (sl\<lparr>sl_timer := b\<rparr>) = sl_open sl" "sl_open (sl\<lparr>sl_closing := b\<rparr>) = sl_open sl"
  by (simp_all add: sl_open_def)

lemma sl_inv_waiting: "sl_inv en e sl \<Longrightarrow> \<not> sl_open sl \<Longrightarrow> sl_waiting sl"
  by (simp add: sl_inv_def sl_open_def)

lemma ups_snoc [simp]: "ups (es @ [x]) = ups es + (if x = Sl_Up then 1 else 0)" "ups [] = 0"
  by (simp_all add: ups_def)

lemma fire_inv: "sl_inv en e sl \<Longrightarrow> sl_open sl \<Longrightarrow> ev \<noteq> Sl_Up \<Longrightarrow> sl_inv en e (sl\<lparr>sl_events := sl_events sl @ [ev]\<rparr>)"
  by (auto simp: sl_inv_def sl_open_def)

section \<open>Every function keeps it\<close>

lemma sl_hello_inv:
  assumes "sl_inv en e sl" "sl_encrypted sl"
  shows "post (sl_send_hello sl) (\<lambda>sl'. sl_inv en e sl' \<and> (sl_open sl \<longrightarrow> sl_open sl'))"
proof (cases "sl_have_peer sl")
  case True
  have p: "post (nc_crypto_handshake_packet (sl_crypto sl) NC_CRYPTO_HELLO_LEN) (\<lambda>(hn, hp). hn = 0 \<or> hp = hello_pkt (sl_crypto sl))"
    by (auto simp: nc_crypto_handshake_packet_def hello_pkt_def emit_def)
  have i: "sl_inv en e (sl\<lparr>sl_sent := sl_sent sl @ [(hello_pkt (sl_crypto sl), ss)]\<rparr>)" for ss
    using assms by (auto simp: sl_inv_def sl_waiting_def intro: sent_hello)
  have "post (nc_crypto_handshake_packet (sl_crypto sl) NC_CRYPTO_HELLO_LEN) (\<lambda>(hn, hp). post (nc_udp_to_sockaddr (Some (sl_peer sl)))
      (\<lambda>(slen, ss). sl_inv en e (if hn = 0 \<or> slen = 0 then sl else sl\<lparr>sl_sent := sl_sent sl @ [(hp, ss)]\<rparr>) \<and>
        (sl_open sl \<longrightarrow> sl_open (if hn = 0 \<or> slen = 0 then sl else sl\<lparr>sl_sent := sl_sent sl @ [(hp, ss)]\<rparr>))))"
    using p by (rule post_mono) (use assms(1) i in \<open>auto intro!: postI\<close>)
  then show ?thesis using True by (simp add: sl_send_hello_def)
qed (simp add: sl_send_hello_def assms)

lemma sl_wrap_inv:
  assumes inv: "sl_inv en e sl" and o: "sl_open sl"
  shows "post (sl_wrap e sl buf) (\<lambda>(out, sl'). sl_inv en e sl' \<and> sl_open sl' \<and> (\<forall>d ss. out = Some d \<longrightarrow> sl_inv en e (sl'\<lparr>sl_sent := sl_sent sl' @ [(d, ss)]\<rparr>)))"
proof (cases "sl_encrypted sl")
  case True
  have so: "wire_ok (se_lib e) (sl_crypto sl) (map fst (sl_sent sl))" and k: "have_key (sl_crypto sl)" using inv o True by (simp_all add: sl_inv_def sl_open_def)
  have "sl_inv en e (sl\<lparr>sl_crypto := k\<rparr>) \<and> sl_open (sl\<lparr>sl_crypto := k\<rparr>) \<and>
      (\<not> sn < 0 \<longrightarrow> (\<forall>ss. sl_inv en e (sl\<lparr>sl_crypto := k, sl_sent := sl_sent sl @ [(d, ss)]\<rparr>)))"
    if "nc_crypto_seal (se_lib e) (sl_crypto sl) buf (2048 + NC_CRYPTO_OVERHEAD) = Some (sn, d, k)" for sn d k
    using seal_cases [OF that] inv o k sent_sealed(1) [OF so k] sent_sealed(2) [OF so k, of buf] by (auto simp: sl_inv_def sl_open_def)
  then have "post (nc_crypto_seal (se_lib e) (sl_crypto sl) buf (2048 + NC_CRYPTO_OVERHEAD)) (\<lambda>(sn, d, k). sl_inv en e (sl\<lparr>sl_crypto := k\<rparr>) \<and> sl_open (sl\<lparr>sl_crypto := k\<rparr>) \<and>
      (\<not> sn < 0 \<longrightarrow> (\<forall>ss. sl_inv en e (sl\<lparr>sl_crypto := k, sl_sent := sl_sent sl @ [(d, ss)]\<rparr>))))"
    by (simp add: post_def)
  then show ?thesis using True by (auto simp: sl_wrap_def elim!: post_mono split: if_splits)
next
  case False
  then show ?thesis using inv o by (auto simp: sl_wrap_def sl_inv_def)
qed

lemma sl_flush_body:
  assumes inv: "sl_inv en e sl" "sl_open sl" and rec: "\<And>sl. sl_inv en e sl \<Longrightarrow> sl_open sl \<Longrightarrow> post (f sl) (\<lambda>sl. sl_inv en e sl \<and> sl_open sl)"
  shows "post (do {
     (buf, to, c) \<leftarrow> netchan_send_next (se_nc e (sl_calls sl)) (sl_conn sl) 2048;
     let sl = sl\<lparr>sl_conn := c, sl_calls := sl_calls sl + 1\<rparr>;
     if buf = [] then Some sl
     else do {
       (out, sl) \<leftarrow> sl_wrap e sl buf;
       (case out of
          None \<Rightarrow> f sl
        | Some d \<Rightarrow> do {
            (slen, ss) \<leftarrow> nc_udp_to_sockaddr to;
            f (if slen = 0 then sl else sl\<lparr>sl_sent := sl_sent sl @ [(d, ss)]\<rparr>) }) } }) (\<lambda>sl. sl_inv en e sl \<and> sl_open sl)"
proof -
  have "post (sl_wrap e sl1 buf) (\<lambda>(out, sl). post (case out of
          None \<Rightarrow> f sl
        | Some d \<Rightarrow> do {
            (slen, ss) \<leftarrow> nc_udp_to_sockaddr to;
            f (if slen = 0 then sl else sl\<lparr>sl_sent := sl_sent sl @ [(d, ss)]\<rparr>) }) (\<lambda>sl. sl_inv en e sl \<and> sl_open sl))"
    if "sl_inv en e sl1" "sl_open sl1" for sl1 buf to
  proof (rule post_mono [OF sl_wrap_inv [OF that, of buf]], clarify)
    fix out sl assume a: "sl_inv en e sl" "sl_open sl" "\<forall>d ss. out = Some d \<longrightarrow> sl_inv en e (sl\<lparr>sl_sent := sl_sent sl @ [(d, ss)]\<rparr>)"
    have "post (f (sl\<lparr>sl_sent := sl_sent sl @ [(d, ss)]\<rparr>)) (\<lambda>sl. sl_inv en e sl \<and> sl_open sl)" if "out = Some d" for ss d
      by (rule rec) (use a that in simp_all)
    then show "post (case out of
          None \<Rightarrow> f sl
        | Some d \<Rightarrow> do {
            (slen, ss) \<leftarrow> nc_udp_to_sockaddr to;
            f (if slen = 0 then sl else sl\<lparr>sl_sent := sl_sent sl @ [(d, ss)]\<rparr>) }) (\<lambda>sl. sl_inv en e sl \<and> sl_open sl)"
      using rec [OF a(1,2)] by (cases out) (simp_all, rule postI, auto)
  qed
  then show ?thesis using inv by (auto simp: Let_def intro!: postI)
qed

lemma sl_flush_inv:
  assumes inv: "sl_inv en e sl"
  shows "post (sl_flush_out e sl) (\<lambda>sl'. sl_inv en e sl' \<and> (sl_open sl \<longrightarrow> sl_open sl'))"
proof (cases "sl_open sl")
  case True
  have "sl_inv en e sl \<and> sl_open sl \<longrightarrow> sl_inv en e sl' \<and> sl_open sl'" if "sl_flush_out e sl = Some sl'" for sl'
  proof (rule sl_flush_out.raw_induct [OF _ that, of "\<lambda>e sl sl'. sl_inv en e sl \<and> sl_open sl \<longrightarrow> sl_inv en e sl' \<and> sl_open sl'"], goal_cases)
    case (1 rec e sl sl')
    have "post (rec e sl) (\<lambda>sl. sl_inv en e sl \<and> sl_open sl)" if "sl_inv en e sl" "sl_open sl" for sl using 1(1) that by (auto simp: post_def)
    then show ?case using sl_flush_body [of en e sl "rec e"] postD [OF _ 1(2), of "\<lambda>sl. sl_inv en e sl \<and> sl_open sl"] by auto
  qed
  then show ?thesis using assms True by (auto simp: post_def)
next
  case False
  then have "sl_conn sl = netchan_open (sl_server sl)" using sl_inv_waiting [OF inv] by (simp add: sl_waiting_def)
  then have "sl_flush_out e sl = Some (sl\<lparr>sl_conn := sl_conn sl, sl_calls := sl_calls sl + 1\<rparr>)"
    by (subst sl_flush_out.simps) (simp add: fresh_send)
  then show ?thesis using inv False by simp
qed

lemma sl_service_inv:
  assumes inv: "sl_inv en e sl"
  shows "post (sl_service e sl) (\<lambda>sl'. sl_inv en e sl' \<and> (sl_open sl \<longrightarrow> sl_open sl'))"
proof (cases "sl_open sl")
  case False
  then have c: "sl_conn sl = netchan_open (sl_server sl)" using sl_inv_waiting [OF inv] by (simp add: sl_waiting_def)
  obtain r where "netchan_service (se_nc e (sl_calls sl)) (sl_conn sl) (se_now e (sl_calls sl)) = Some (r, sl_conn sl)"
    using fresh_service [of "se_nc e (sl_calls sl)" "sl_server sl" "se_now e (sl_calls sl)"] c by auto
  then have "sl_service e sl = Some (sl\<lparr>sl_conn := sl_conn sl, sl_calls := sl_calls sl + 1\<rparr>)" by (simp add: sl_service_def)
  then show ?thesis using inv False by simp
next
  case True
  then have "sl_inv en e (sl\<lparr>sl_conn := c, sl_calls := n\<rparr>)" for c n using inv by simp
  then show ?thesis using True by (simp add: sl_service_def postI)
qed

lemma sl_connect_inv:
  assumes inv: "sl_inv en e sl"
  shows "sl_inv en e (sl_connect e sl)" "sl_open sl \<Longrightarrow> sl_open (sl_connect e sl)" "\<not> sl_open sl \<Longrightarrow> sl_connect e sl = sl"
proof -
  have "sl_inv en e (sl\<lparr>sl_conn := c, sl_calls := n, sl_connect_sent := b\<rparr>)" "sl_inv en e (sl\<lparr>sl_conn := c, sl_calls := n\<rparr>)" if "sl_open sl" for c n b
    using inv that by simp_all
  then show "sl_inv en e (sl_connect e sl)" using inv by (simp add: sl_connect_def sl_open_def Let_def split: prod.split)
  show "sl_open sl \<Longrightarrow> sl_open (sl_connect e sl)" by (simp add: sl_connect_def Let_def split: prod.split)
  show "\<not> sl_open sl \<Longrightarrow> sl_connect e sl = sl" by (auto simp: sl_connect_def sl_open_def)
qed

lemma sl_open_channel_inv:
  assumes inv: "sl_inv en e sl"
  shows "sl_inv en e (sl_open_channel sl)" "sl_open sl \<Longrightarrow> sl_open (sl_open_channel sl)"
proof -
  have "netchan_state (sl_conn sl) \<noteq> NETCHAN_STATE_CONNECTED" if "\<not> sl_open sl"
    using sl_inv_waiting [OF inv that] by (simp add: sl_waiting_def netchan_state_def)
  then show "sl_inv en e (sl_open_channel sl)" using inv
    by (auto simp: sl_open_channel_def sl_fire_def Let_def sl_inv_def sl_open_def split: prod.split)
  show "sl_open sl \<Longrightarrow> sl_open (sl_open_channel sl)" by (auto simp: sl_open_channel_def sl_fire_def Let_def split: prod.split)
qed

lemma sl_advance_inv: "sl_inv en e sl \<Longrightarrow> sl_inv en e (sl_advance e sl)"
  by (simp add: sl_advance_def sl_open_channel_inv sl_connect_inv)

lemma sl_poll_inv:
  assumes inv: "sl_inv en e sl"
  shows "post (sl_poll_events sl) (\<lambda>sl'. sl_inv en e sl' \<and> (sl_open sl \<longrightarrow> sl_open sl') \<and> (\<not> sl_open sl \<longrightarrow> sl' = sl))"
proof (cases "sl_open sl")
  case True
  have "sl_inv en e sl \<and> sl_open sl \<longrightarrow> sl_inv en e sl' \<and> sl_open sl'" if "sl_poll_events sl = Some sl'" for sl'
  proof (rule sl_poll_events.raw_induct [OF _ that, of "\<lambda>sl sl'. sl_inv en e sl \<and> sl_open sl \<longrightarrow> sl_inv en e sl' \<and> sl_open sl'"], goal_cases)
    case (1 rec sl sl')
    show ?case
    proof (intro impI)
      assume a: "sl_inv en e sl \<and> sl_open sl"
      show "sl_inv en e sl' \<and> sl_open sl'"
      proof (cases "netchan_poll (sl_conn sl)")
        case None
        then show ?thesis using a 1(2) by simp
      next
        case (Some p)
        obtain ev c where p: "p = (ev, c)" by fastforce
        let ?sl = "sl\<lparr>sl_conn := c\<rparr>"
        let ?s1 = "if ev_type ev = NETCHAN_EV_CHAN_OPEN \<or> ev_type ev = NETCHAN_EV_DATA
             then (if ev_ch ev \<noteq> None then ?sl\<lparr>sl_rx := ev_ch ev\<rparr> else ?sl)
             else if ev_type ev = NETCHAN_EV_DISCONNECTED then sl_fire (cb_on_down (sl_cb ?sl)) Sl_Down ?sl
             else ?sl"
        have "sl_inv en e ?s1 \<and> sl_open ?s1" using a fire_inv [of en e ?sl Sl_Down] by (simp add: sl_fire_def)
        then show ?thesis using 1(1) [of ?s1 sl'] 1(2) by (simp add: Some p Let_def)
      qed
    qed
  qed
  then show ?thesis using assms True by (auto simp: post_def)
next
  case False
  then have "sl_conn sl = netchan_open (sl_server sl)" using sl_inv_waiting [OF inv] by (simp add: sl_waiting_def)
  then have "sl_poll_events sl = Some sl" by (subst sl_poll_events.simps) (simp add: fresh_poll)
  then show ?thesis using inv False by simp
qed

lemma sl_read_inv:
  assumes "sl_inv en e sl" "sl_open sl"
  shows "post (sl_read_messages sl) (\<lambda>sl'. sl_inv en e sl' \<and> sl_open sl')"
proof -
  have "sl_inv en e sl \<and> sl_open sl \<longrightarrow> sl_inv en e sl' \<and> sl_open sl'" if "sl_read_messages sl = Some sl'" for sl'
  proof (rule sl_read_messages.raw_induct [OF _ that, of "\<lambda>sl sl'. sl_inv en e sl \<and> sl_open sl \<longrightarrow> sl_inv en e sl' \<and> sl_open sl'"], goal_cases)
    case (1 rec sl sl')
    show ?case
    proof (intro impI)
      assume a: "sl_inv en e sl \<and> sl_open sl"
      then have s: "sl_inv en e (sl\<lparr>sl_conn := c\<rparr>)" "sl_inv en e (sl\<lparr>sl_conn := c, sl_events := sl_events sl @ [Sl_Data m]\<rparr>)" for c m
        using fire_inv [of en e "sl\<lparr>sl_conn := c\<rparr>" "Sl_Data m"] by simp_all
      obtain rd msg c where r: "netchan_chan_read (sl_conn sl) (sl_rx sl) 2048 = Some (rd, msg, c)"
        using 1(2) by (cases "netchan_chan_read (sl_conn sl) (sl_rx sl) 2048") auto
      show "sl_inv en e sl' \<and> sl_open sl'"
        using 1(1) [of "sl\<lparr>sl_conn := c, sl_events := sl_events sl @ [Sl_Data msg]\<rparr>" sl'] 1(2) s a by (auto simp: r Let_def split: if_splits)
    qed
  qed
  then show ?thesis using assms by (auto simp: post_def)
qed

lemma sl_pump_inv:
  assumes "sl_inv en e sl"
  shows "post (sl_pump_events sl) (\<lambda>sl'. sl_inv en e sl' \<and> (sl_open sl \<longrightarrow> sl_open sl'))"
proof -
  have "post (if sl_rx sl1 \<noteq> None \<and> cb_on_data (sl_cb sl1) then sl_read_messages sl1 else Some sl1) (\<lambda>sl'. sl_inv en e sl' \<and> (sl_open sl \<longrightarrow> sl_open sl'))"
    if "sl_inv en e sl1 \<and> (sl_open sl \<longrightarrow> sl_open sl1) \<and> (\<not> sl_open sl \<longrightarrow> sl1 = sl)" for sl1
  proof (cases "sl_open sl")
    case True
    then show ?thesis using that sl_read_inv [of en e sl1] by (auto elim!: post_mono)
  next
    case False
    then have "sl_rx sl = None" using sl_inv_waiting [OF assms] by (simp add: sl_waiting_def)
    then show ?thesis using that False assms by simp
  qed
  then show ?thesis unfolding sl_pump_events_def post_bind by (intro post_mono [OF sl_poll_inv [OF assms]])
qed

lemma sl_feed_inv: "sl_inv en e sl \<Longrightarrow> sl_open sl \<Longrightarrow> post (sl_feed e sl p src) (sl_inv en e)"
  by (auto simp: sl_feed_def Let_def intro!: postI)

lemma open_needs_key:
  assumes "nc_crypto_open lib k pkt cap = Some (pn, plain, k')" "0 < pn"
  shows "have_key k'"
proof (cases "have_key k")
  case True
  then show ?thesis using open_keys [of k lib pkt cap] assms(1) by (auto simp: post_def)
next
  case False
  then show ?thesis using assms
    by (auto simp: nc_crypto_open_def NC_CRYPTO_ERR_def NC_CRYPTO_DATA_def NC_CRYPTO_HELLO_def Option.bind_eq_Some_conv split: if_splits)
qed

lemma sl_crypto_inv:
  assumes inv: "sl_inv en e sl" and en: "sl_encrypted sl" and o: "nc_crypto_open (se_lib e) (sl_crypto sl) buf n = Some (pn, plain, k)"
  shows "sl_inv en e (sl\<lparr>sl_crypto := k\<rparr>)"
proof -
  have h: "hello_pkt k = hello_pkt (sl_crypto sl)" using postD [OF open_public o] by (simp add: hello_pkt_def)
  have k: "have_key (sl_crypto sl) \<longrightarrow> have_key k \<and> tx_key k = tx_key (sl_crypto sl) \<and> tx_counter k = tx_counter (sl_crypto sl)"
    using postD [OF open_keys o] by auto
  show ?thesis using inv en k sent_open [OF _ h k] by (auto simp: sl_inv_def sl_waiting_def)
qed

lemma sl_datagram_inv:
  assumes inv: "sl_inv en e sl"
  shows "post (sl_datagram e sl buf ss slen) (sl_inv en e)"
proof -
  have plain: "post (sl_feed e sl1 buf src) (sl_inv en e)" if "sl_inv en e sl1" "\<not> sl_encrypted sl1" for sl1 src
    using that by (intro sl_feed_inv) (simp_all add: sl_open_def)
  have fin: "post (if pn \<le> 0 then Some sl2 else sl_feed e sl2 plain src) (sl_inv en e)" if "sl_inv en e sl2" "0 < pn \<longrightarrow> sl_open sl2" for pn :: int and sl2 plain src
    using that sl_feed_inv by simp
  have hello: "post (if b then sl_send_hello sl1 else Some sl1) (\<lambda>sl2. post (if pn \<le> 0 then Some sl2 else sl_feed e sl2 plain src) (sl_inv en e))"
    if "sl_inv en e sl1" "sl_encrypted sl1" "0 < pn \<longrightarrow> sl_open sl1" for b sl1 plain src and pn :: int
  proof (cases b)
    case True
    then show ?thesis unfolding if_P [OF True] by (intro post_mono [OF sl_hello_inv [OF that(1,2)]] fin) (use that(3) in auto)
  next
    case False
    then show ?thesis unfolding if_not_P [OF False] post_simps(1) by (intro fin that(1,3))
  qed
  have crypt: "post (nc_crypto_open (se_lib e) (sl_crypto sl1) buf 2048) (\<lambda>(pn, plain, k).
      post (if b k then sl_send_hello (sl1\<lparr>sl_crypto := k\<rparr>) else Some (sl1\<lparr>sl_crypto := k\<rparr>)) (\<lambda>sl2. post (if pn \<le> 0 then Some sl2 else sl_feed e sl2 plain src) (sl_inv en e)))"
    if "sl_inv en e sl1" "sl_encrypted sl1" for b :: "nc_crypto \<Rightarrow> bool" and sl1 src
    unfolding post_def [of "nc_crypto_open _ _ _ _"]
  proof (intro allI impI, clarify)
    fix pn plain k assume o: "nc_crypto_open (se_lib e) (sl_crypto sl1) buf 2048 = Some (pn, plain, k)"
    show "post (if b k then sl_send_hello (sl1\<lparr>sl_crypto := k\<rparr>) else Some (sl1\<lparr>sl_crypto := k\<rparr>)) (\<lambda>sl2. post (if pn \<le> 0 then Some sl2 else sl_feed e sl2 plain src) (sl_inv en e))"
      by (rule hello) (use that sl_crypto_inv [OF that o] open_needs_key [OF o] in \<open>simp_all add: sl_open_def\<close>)
  qed
  define pin where "pin = (\<lambda>src. if sl_server sl \<and> \<not> sl_have_peer sl then sl\<lparr>sl_peer := src, sl_have_peer := True\<rparr> else sl)"
  have p: "sl_inv en e (pin src)" "sl_encrypted (pin src) = sl_encrypted sl" for src using inv by (simp_all add: pin_def)
  have one: "post (if sl_encrypted (pin src) then do {
         t \<leftarrow> rd8 buf 0;
         (pn, plain, k) \<leftarrow> nc_crypto_open (se_lib e) (sl_crypto (pin src)) buf 2048;
         let sl = (pin src)\<lparr>sl_crypto := k\<rparr>;
         sl \<leftarrow> (if t = NC_CRYPTO_HELLO \<and> sl_server sl then sl_send_hello sl else Some sl);
         if pn \<le> 0 then Some sl else sl_feed e sl plain src }
       else sl_feed e (pin src) buf src) (sl_inv en e)" for src
  proof (cases "sl_encrypted sl")
    case True
    have "post (rd8 buf 0) (\<lambda>t. post (nc_crypto_open (se_lib e) (sl_crypto (pin src)) buf 2048) (\<lambda>(pn, plain, k).
      post (if t = NC_CRYPTO_HELLO \<and> sl_server ((pin src)\<lparr>sl_crypto := k\<rparr>) then sl_send_hello ((pin src)\<lparr>sl_crypto := k\<rparr>) else Some ((pin src)\<lparr>sl_crypto := k\<rparr>))
        (\<lambda>sl2. post (if pn \<le> 0 then Some sl2 else sl_feed e sl2 plain src) (sl_inv en e))))"
      by (intro postI crypt) (use p True in simp_all)
    then show ?thesis unfolding p(2) if_P [OF True] post_bind Let_def by (simp only: post_case post_bind)
  qed (use plain [OF p(1)] p(2) in simp)
  have "post (nc_udp_from_sockaddr (Some ss) slen) (\<lambda>(rc, src). post (if rc \<noteq> 0 then Some sl else (if sl_encrypted (pin src) then do {
         t \<leftarrow> rd8 buf 0;
         (pn, plain, k) \<leftarrow> nc_crypto_open (se_lib e) (sl_crypto (pin src)) buf 2048;
         let sl = (pin src)\<lparr>sl_crypto := k\<rparr>;
         sl \<leftarrow> (if t = NC_CRYPTO_HELLO \<and> sl_server sl then sl_send_hello sl else Some sl);
         if pn \<le> 0 then Some sl else sl_feed e sl plain src }
       else sl_feed e (pin src) buf src)) (sl_inv en e))"
    by (rule postI, clarify) (use one inv in \<open>simp only: post_simps\<close>, blast)
  then show ?thesis unfolding sl_datagram_def post_bind pin_def Let_def by (simp only: post_case)
qed

lemma sl_recv_inv: "sl_inv en e sl \<Longrightarrow> post (sl_recv_loop e ds sl) (sl_inv en e)"
proof (induction ds arbitrary: sl)
  case (Cons d ds)
  obtain b ss n where d: "d = (b, ss, n)" by (metis prod_cases3)
  show ?case using Cons.prems post_mono [OF sl_datagram_inv [OF Cons.prems] Cons.IH] by (simp add: d)
qed simp

lemma sl_round_inv:
  assumes "sl_inv en e sl"
  shows "post (sl_pump_events sl) (\<lambda>sl. post (sl_flush_out e (sl_advance e sl)) (sl_inv en e))"
proof (rule post_mono [OF sl_pump_inv [OF assms]], elim conjE)
  fix sl1 assume "sl_inv en e sl1"
  then show "post (sl_flush_out e (sl_advance e sl1)) (sl_inv en e)" by (intro post_mono [OF sl_flush_inv [OF sl_advance_inv]]) auto
qed

lemma sl_readable_inv: "sl_inv en e sl \<Longrightarrow> post (sl_on_readable e ds sl) (sl_inv en e)"
  unfolding sl_on_readable_def post_bind by (erule post_mono [OF sl_recv_inv sl_round_inv])

lemma sl_tick_inv:
  assumes "sl_inv en e sl"
  shows "post (sl_on_tick e sl) (sl_inv en e)"
proof -
  have round: "post (sl_pump_events sl1) (\<lambda>sl. post (sl_flush_out e (sl_advance e sl)) (\<lambda>sl. sl_inv en e (sl\<lparr>sl_timer := \<not> sl_closing sl\<rparr>)))" if "sl_inv en e sl1" for sl1
    using sl_round_inv [OF that] by simp
  have serve: "post (sl_service e sl1) (\<lambda>sl1. post (sl_pump_events sl1) (\<lambda>sl. post (sl_flush_out e (sl_advance e sl)) (\<lambda>sl. sl_inv en e (sl\<lparr>sl_timer := \<not> sl_closing sl\<rparr>))))"
    if "sl_inv en e sl1" for sl1
    by (rule post_mono [OF sl_service_inv [OF that]]) (blast intro: round)
  show ?thesis unfolding sl_on_tick_def post_bind
  proof (cases "sl_encrypted sl \<and> \<not> sl_server sl \<and> \<not> have_key (sl_crypto sl)")
    case True
    show "post (if sl_encrypted sl \<and> \<not> sl_server sl \<and> \<not> have_key (sl_crypto sl) then sl_send_hello sl else Some sl)
        (\<lambda>sl. post (sl_service e sl) (\<lambda>sl. post (sl_pump_events sl) (\<lambda>sl. post (sl_flush_out e (sl_advance e sl)) (\<lambda>sl. post (Some (sl\<lparr>sl_timer := \<not> sl_closing sl\<rparr>)) (sl_inv en e)))))"
      unfolding if_P [OF True] post_simps(1) by (rule post_mono [OF sl_hello_inv [OF assms]]) (use True serve in auto)
  next
    case False
    show "post (if sl_encrypted sl \<and> \<not> sl_server sl \<and> \<not> have_key (sl_crypto sl) then sl_send_hello sl else Some sl)
        (\<lambda>sl. post (sl_service e sl) (\<lambda>sl. post (sl_pump_events sl) (\<lambda>sl. post (sl_flush_out e (sl_advance e sl)) (\<lambda>sl. post (Some (sl\<lparr>sl_timer := \<not> sl_closing sl\<rparr>)) (sl_inv en e)))))"
      unfolding if_not_P [OF False] post_simps(1) by (rule serve [OF assms])
  qed
qed

lemma sl_start_inv: "sl_inv use_crypto e (sl_start server peer use_crypto k cb)"
  by (simp add: sl_inv_def sl_waiting_def sl_start_def wire_ok_def)

lemma sl_spin_inv: "sl_inv en e sl \<Longrightarrow> sl_open sl \<Longrightarrow> post (sl_spin e n data sl) (\<lambda>(r, sl). sl_inv en e sl)"
proof (induction n arbitrary: sl)
  case (Suc n)
  have again: "post (sl_service e sl1) (\<lambda>sl. post (sl_flush_out e sl) (\<lambda>sl. post (sl_spin e n data sl) (\<lambda>(r, sl). sl_inv en e sl)))"
    if "sl_inv en e sl1" "sl_open sl1" for sl1
  proof (rule post_mono [OF sl_service_inv [OF that(1)]])
    fix sl2 assume "sl_inv en e sl2 \<and> (sl_open sl1 \<longrightarrow> sl_open sl2)"
    then show "post (sl_flush_out e sl2) (\<lambda>sl. post (sl_spin e n data sl) (\<lambda>(r, sl). sl_inv en e sl))"
      using that(2) Suc.IH by (intro post_mono [OF sl_flush_inv]) auto
  qed
  have fin: "post (sl_flush_out e sl1) (sl_inv en e)" if "sl_inv en e sl1" for sl1 using sl_flush_inv [OF that] by (rule post_mono) simp
  have "sl_inv en e (sl\<lparr>sl_conn := c\<rparr>)" "sl_open (sl\<lparr>sl_conn := c\<rparr>)" for c using Suc.prems by simp_all
  then show ?case using again fin Suc.prems by (auto simp: Let_def intro!: postI)
qed simp

section \<open>The link\<close>

datatype sl_call = Sl_Readable "(bytes \<times> sockaddr \<times> nat) list" | Sl_Tick | Sl_Send bytes

fun sl_exec :: "sl_env \<Rightarrow> sl_call \<Rightarrow> secure_link \<Rightarrow> secure_link option" where
  "sl_exec e (Sl_Readable ds) sl = sl_on_readable e ds sl"
| "sl_exec e Sl_Tick sl = sl_on_tick e sl"
| "sl_exec e (Sl_Send d) sl = map_option snd (secure_link_send e sl d)"

fun sl_run :: "sl_env \<Rightarrow> sl_call list \<Rightarrow> secure_link \<Rightarrow> secure_link option" where
  "sl_run e [] sl = Some sl"
| "sl_run e (x # xs) sl = do { sl \<leftarrow> sl_exec e x sl; sl_run e xs sl }"

lemma sl_exec_inv:
  assumes inv: "sl_inv en e sl"
  shows "post (sl_exec e x sl) (sl_inv en e)"
proof (cases x)
  case (Sl_Readable ds)
  then show ?thesis using sl_readable_inv [OF inv] by simp
next
  case Sl_Tick
  then show ?thesis using sl_tick_inv [OF inv] by simp
next
  case (Sl_Send d)
  have "sl_open sl" if "sl_up sl" using sl_inv_waiting [OF inv] that by (auto simp: sl_waiting_def)
  then have "post (secure_link_send e sl d) (\<lambda>(r, sl). sl_inv en e sl)" using inv sl_spin_inv [OF inv] by (simp add: secure_link_send_def)
  then show ?thesis by (auto simp: Sl_Send post_def)
qed

lemma sl_run_inv: "sl_inv en e sl \<Longrightarrow> post (sl_run e xs sl) (sl_inv en e)"
proof (induction xs arbitrary: sl)
  case (Cons x xs)
  show ?case using post_mono [OF sl_exec_inv [OF Cons.prems] Cons.IH] by simp
qed simp

lemma sl_close_inv:
  assumes inv: "sl_inv en e sl"
  shows "post (secure_link_close e sl) (sl_inv en e)"
proof (cases "sl_open sl")
  case True
  let ?sl = "sl\<lparr>sl_closing := True, sl_timer := False\<rparr>"
  have "post (sl_flush_out e (?sl\<lparr>sl_conn := netchan_disconnect (sl_conn ?sl)\<rparr>)) (\<lambda>sl. post (netchan_close (sl_conn sl)) (\<lambda>c. sl_inv en e (sl\<lparr>sl_conn := c\<rparr>)))"
    by (rule post_mono [OF sl_flush_inv [where e = e and en = en]]) (use inv True in \<open>auto intro!: postI\<close>)
  then show ?thesis using True by (simp add: secure_link_close_def sl_open_def Let_def)
next
  case False
  have c: "sl_conn sl = netchan_open (sl_server sl)" using sl_inv_waiting [OF inv False] by (simp add: sl_waiting_def)
  have "sl_inv en e (sl\<lparr>sl_closing := True, sl_timer := False, sl_conn := netchan_open (sl_server sl)\<rparr>) = sl_inv en e sl"
    unfolding c [symmetric] by simp
  then show ?thesis using False inv c by (simp add: secure_link_close_def sl_open_def Let_def fresh_close)
qed

lemma sl_open_inv:
  assumes "secure_link_open e rnd alloc fdok server peer psk use_crypto cb = Some (Some sl)"
  shows "sl_inv use_crypto e sl"
proof -
  obtain k where "sl_on_tick e (sl_start server peer use_crypto k cb) = Some sl"
    using assms by (auto simp: secure_link_open_def Option.bind_eq_Some_conv split: if_splits)
  then show ?thesis using postD [OF sl_tick_inv [OF sl_start_inv]] by blast
qed

text \<open>
  C25: The encryption comes first and never stops.  In every state an encrypted link reaches by datagrams, ticks and sends, and at its close:
  every datagram sent is a greeting that holds only public keys or one of netchan sealed under the session key, and no
  two are sealed with the same counter; until the keys are agreed netchan is as it was opened, nothing was accepted or connected and no callback was
  called; and the link is reported up at most once.
\<close>

theorem secure_link_sealed:
  assumes "secure_link_open e rnd alloc fdok server peer psk True cb = Some (Some sl0)" "sl_run e calls sl0 = Some sl1"
    "sl = sl1 \<or> secure_link_close e sl1 = Some sl"
  shows "wire_ok (se_lib e) (sl_crypto sl) (map fst (sl_sent sl)) \<and> (\<not> have_key (sl_crypto sl) \<longrightarrow> sl_waiting sl) \<and> ups (sl_events sl) \<le> 1"
proof -
  have "sl_inv True e sl1" using postD [OF sl_run_inv [OF sl_open_inv [OF assms(1)]] assms(2)] .
  then have "sl_inv True e sl" using assms(3) postD [OF sl_close_inv [of True e sl1]] by blast
  then show ?thesis by (auto simp: sl_inv_def)
qed

text \<open>A server that is opened and closed before anyone speaks.\<close>

definition demo_sl_env :: sl_env where
  "demo_sl_env = \<lparr>se_nc = (\<lambda>_. \<lparr>env_now = (\<lambda>_. 7), env_entropy = (\<lambda>_. None), env_here = 0\<rparr>), se_now = (\<lambda>_. 7), se_lib = demo_lib\<rparr>"

lemma demo_sl_open: "\<exists>sl. secure_link_open demo_sl_env (0, replicate 32 6) True True True None None True None = Some (Some sl)"
proof -
  have "\<exists>k. nc_crypto_init demo_lib (0, replicate 32 6) 1
      (Some \<lparr>cfg_eph_sk_seed = None, cfg_psk = None, cfg_static_sk = None, cfg_require_peer_static = False, cfg_verify_peer = None\<rparr>) = Some (0, k) \<and> \<not> have_key k"
    by (simp add: nc_crypto_init_def demo_lib_def crypto_zero_def NC_CRYPTO_OK_def)
  then obtain k where k: "nc_crypto_init demo_lib (0, replicate 32 6) 1
      (Some \<lparr>cfg_eph_sk_seed = None, cfg_psk = None, cfg_static_sk = None, cfg_require_peer_static = False, cfg_verify_peer = None\<rparr>) = Some (0, k)" "\<not> have_key k"
    by blast
  define sl where "sl = sl_start True None True k None"
  have c: "sl_conn sl = netchan_open True" "sl_server sl" "sl_rx sl = None" by (simp_all add: sl_def sl_start_def)
  obtain r where r: "netchan_service (se_nc demo_sl_env (sl_calls sl)) (sl_conn sl) (se_now demo_sl_env (sl_calls sl)) = Some (r, sl_conn sl)"
    using fresh_service [of "se_nc demo_sl_env (sl_calls sl)" True "se_now demo_sl_env (sl_calls sl)"] c(1) by auto
  let ?sl = "sl\<lparr>sl_calls := sl_calls sl + 1\<rparr>"
  have "sl_service demo_sl_env sl = Some ?sl" using r by (simp add: sl_service_def)
  moreover have "sl_pump_events ?sl = Some ?sl" unfolding sl_pump_events_def by (subst sl_poll_events.simps) (simp add: c fresh_poll)
  moreover have "sl_advance demo_sl_env ?sl = ?sl" by (simp add: sl_advance_def sl_connect_def sl_open_channel_def c netchan_state_def)
  moreover have "\<exists>sl'. sl_flush_out demo_sl_env ?sl = Some sl'" by (subst sl_flush_out.simps) (simp add: c fresh_send)
  ultimately have "\<exists>sl'. sl_on_tick demo_sl_env sl = Some sl'" using c(2) by (auto simp: sl_on_tick_def)
  then show ?thesis using k(1) by (auto simp: secure_link_open_def demo_sl_env_def sl_def)
qed

theorem secure_link_sealed_witness:
  "\<exists>sl. secure_link_open demo_sl_env (0, replicate 32 6) True True True None None True None = Some (Some sl) \<and>
     wire_ok demo_lib (sl_crypto sl) (map fst (sl_sent sl)) \<and> (\<not> have_key (sl_crypto sl) \<longrightarrow> sl_waiting sl) \<and> ups (sl_events sl) \<le> 1"
proof -
  obtain sl where o: "secure_link_open demo_sl_env (0, replicate 32 6) True True True None None True None = Some (Some sl)" using demo_sl_open by blast
  show ?thesis using o secure_link_sealed [OF o, of "[]" sl sl] by (simp add: demo_sl_env_def)
qed

end
