(* ===== verification/WS_Gateway.thy ===== *)
theory WS_Gateway
  imports WS_Handshake WS_Frame
begin

text \<open>
  The gateway that relays browsers onto the UDP server (\<open>src/examples/ws_gateway/ws_gateway.c\<close>): per client the upgrade
  handshake, then every binary WebSocket message as a datagram to the server and every datagram of the server as a binary
  message; other requests are answered with a file.

  A client is the record \<open>gw_client\<close>; \<open>g_rx\<close> is the whole array, \<open>g_rxn\<close> the number of bytes in use.  \<open>g_ws_out\<close> and \<open>g_udp_out\<close> are
  histories: the bytes given to \<open>send_all\<close> on the browser's socket, and the datagrams given to \<open>send\<close>.  What a \<open>recv\<close> returns, the descriptor
  \<open>udp_to_server\<close> gives and the files by their path are arguments; \<open>Some None\<close> is a file that opens but whose size \<open>ftell\<close> does not tell.  A frame is parsed in the \<open>g_rxn\<close> bytes
  in use; an access outside them counts as undefined.
\<close>

section \<open>State\<close>

definition BUFCAP :: nat where "BUFCAP = 8192"
definition DGRAM_MAX :: nat where "DGRAM_MAX = 2048"
definition GW_OK :: int where "GW_OK = 0"
definition GW_ERR :: int where "GW_ERR = -1"
definition NC_WS_BINARY :: u8 where "NC_WS_BINARY = 2"
definition NC_WS_CLOSE :: u8 where "NC_WS_CLOSE = 8"
definition NC_WS_PING :: u8 where "NC_WS_PING = 9"
definition NC_WS_PONG :: u8 where "NC_WS_PONG = 10"

datatype cstate = CS_FREE | CS_HANDSHAKE | CS_OPEN

record gw_client =
  g_state :: cstate
  g_ws_fd :: int
  g_udp_fd :: int
  g_rx :: bytes
  g_rxn :: nat
  g_ws_out :: bytes
  g_udp_out :: "bytes list"

record gw_env =
  ge_udp :: int
  ge_docroot :: bytes
  ge_files :: "bytes \<Rightarrow> bytes option option"
  ge_junk :: bytes

text \<open>What \<open>recv\<close> gives: bytes, nothing yet, or another error; no bytes are the end of the stream.\<close>

datatype recv = Got bytes | Again | Failed

definition client_close :: "gw_client \<Rightarrow> gw_client" where
  "client_close c = c\<lparr>g_state := CS_FREE, g_ws_fd := -1, g_udp_fd := -1, g_rx := replicate BUFCAP 0, g_rxn := 0\<rparr>"

definition send_all :: "bytes \<Rightarrow> gw_client \<Rightarrow> gw_client" where
  "send_all bs c = c\<lparr>g_ws_out := g_ws_out c @ bs\<rparr>"

section \<open>Files\<close>

text \<open>\<open>strrchr(path, '.')\<close>.\<close>

fun last_dot :: "bytes \<Rightarrow> bytes option" where
  "last_dot [] = None"
| "last_dot (b # bs) = (case last_dot bs of Some d \<Rightarrow> Some d | None \<Rightarrow> if b = 46 then Some (b # bs) else None)"

definition file_content_type :: "bytes \<Rightarrow> bytes" where
  "file_content_type path =
     (case last_dot path of
        None \<Rightarrow> str ''application/octet-stream''
      | Some dot \<Rightarrow>
          if dot = str ''.html'' then str ''text/html; charset=utf-8''
          else if dot = str ''.js'' then str ''application/javascript''
          else if dot = str ''.wasm'' then str ''application/wasm''
          else if dot = str ''.css'' then str ''text/css''
          else str ''application/octet-stream'')"

definition http_error :: "bytes \<Rightarrow> gw_client \<Rightarrow> gw_client" where
  "http_error status c =
     send_all (str ''HTTP/1.1 '' @ status @ CRLF @ str ''Content-Length: 0'' @ CRLF @ str ''Connection: close'' @ CRLF @ CRLF) c"

text \<open>The loop that looks for the end of the path, from the byte after \<open>GET\<close>.\<close>

fun url_span :: "bytes \<Rightarrow> bytes option" where
  "url_span [] = None"
| "url_span (b # bs) = (if b = 0 \<or> b = 32 \<or> b = 13 \<or> b = 10 then Some [] else map_option (Cons b) (url_span bs))"

fun dot_dot :: "bytes \<Rightarrow> bool" where
  "dot_dot (a # b # bs) \<longleftrightarrow> a = 46 \<and> b = 46 \<or> dot_dot (b # bs)"
| "dot_dot _ \<longleftrightarrow> False"

text \<open>\<open>%ld\<close> of a size.\<close>

fun decimal :: "nat \<Rightarrow> bytes" where
  "decimal n = (if n < 10 then [of_nat (48 + n)] else decimal (n div 10) @ [of_nat (48 + n mod 10)])"

declare decimal.simps [simp del]

text \<open>The file is read and sent in chunks.\<close>

function send_file :: "bytes \<Rightarrow> gw_client \<Rightarrow> gw_client" where
  "send_file f c = (if f = [] then c else send_file (drop 4096 f) (send_all (take 4096 f) c))"
  by pat_completeness auto
termination by (relation "measure (length \<circ> fst)") auto

declare send_file.simps [simp del]

definition serve_static :: "gw_env \<Rightarrow> gw_client \<Rightarrow> gw_client option" where
  "serve_static e c =
     (if take 4 (g_rx c) \<noteq> str ''GET '' then Some (http_error (str ''405 Method Not Allowed'') c)
      else do {
        urlpath \<leftarrow> url_span (drop 4 (g_rx c));
        if urlpath = [] \<or> 512 \<le> length urlpath then Some (http_error (str ''400 Bad Request'') c)
        else if dot_dot urlpath then Some (http_error (str ''403 Forbidden'') c)
        else
          let rel = (if urlpath = str ''/'' then str ''/play.html'' else urlpath); full = ge_docroot e @ rel in
          if 1024 \<le> length full then Some (http_error (str ''414 URI Too Long'') c)
          else (case ge_files e full of
              None \<Rightarrow> Some (http_error (str ''404 Not Found'') c)
            | Some None \<Rightarrow> Some (http_error (str ''500 Internal Server Error'') c)
            | Some (Some f) \<Rightarrow> Some (send_file f (send_all (str ''HTTP/1.1 200 OK'' @ CRLF @ str ''Content-Type: '' @ file_content_type full @ CRLF @
                str ''Content-Length: '' @ decimal (length f) @ CRLF @ str ''Connection: close'' @ CRLF @ CRLF) c))) })"

section \<open>Relay\<close>

text \<open>The bytes in use, and their replacement after a parse.\<close>

definition in_use :: "gw_client \<Rightarrow> bytes" where
  "in_use c = take (g_rxn c) (g_rx c)"

definition gw_handshake :: "gw_env \<Rightarrow> gw_client \<Rightarrow> (int \<times> gw_client) option" where
  "gw_handshake e c = do {
     (r, resp) \<leftarrow> nc_ws_accept (ge_junk e) (in_use c) 256;
     if 0 < r then
       let c = (send_all (take (nat r) resp) c)\<lparr>g_rxn := 0, g_udp_fd := ge_udp e\<rparr> in
       Some (if ge_udp e < 0 then (GW_ERR, c) else (GW_OK, c\<lparr>g_state := CS_OPEN\<rparr>))
     else if r = 0 then Some (GW_OK, c)
     else do { c \<leftarrow> serve_static e c; Some (GW_ERR, c) } }"

text \<open>What is done with one frame.\<close>

definition gw_frame :: "nc_ws_frame \<Rightarrow> gw_client \<Rightarrow> (int \<times> gw_client) option" where
  "gw_frame f c =
     (if opcode f = NC_WS_BINARY \<and> 0 < payload_len f \<and> payload_len f \<le> DGRAM_MAX then do {
        d \<leftarrow> rd_bytes (in_use c) (payload f) (payload_len f);
        Some (GW_OK, c\<lparr>g_udp_out := g_udp_out c @ [d]\<rparr>) }
      else if opcode f = NC_WS_CLOSE then Some (GW_ERR, c)
      else if opcode f = NC_WS_PING then do {
        d \<leftarrow> rd_bytes (in_use c) (payload f) (payload_len f);
        (pn, pong) \<leftarrow> nc_ws_frame_build (DGRAM_MAX + 16) NC_WS_PONG d None;
        Some (GW_OK, if 0 < pn then send_all (take pn pong) c else c) }
      else Some (GW_OK, c))"

lemma parse_positive: "nc_ws_frame_parse buf = Some (used, buf', f) \<Longrightarrow> 0 < used \<Longrightarrow> buf \<noteq> []"
  by (auto simp: nc_ws_frame_parse_def)

lemma gw_frame_rxn: "gw_frame f c = Some (r, c') \<Longrightarrow> g_rxn c' = g_rxn c"
  by (auto simp: gw_frame_def send_all_def Option.bind_eq_Some_conv split: if_splits)

function gw_frames :: "gw_client \<Rightarrow> (int \<times> gw_client) option" where
  "gw_frames c = do {
     (used, buf, f) \<leftarrow> nc_ws_frame_parse (in_use c);
     let c = c\<lparr>g_rx := buf @ drop (g_rxn c) (g_rx c)\<rparr>;
     if used = 0 then Some (GW_OK, c)
     else if used < 0 then Some (GW_ERR, c)
     else (case f of
         None \<Rightarrow> None
       | Some f \<Rightarrow> do {
           (r, c) \<leftarrow> gw_frame f c;
           if r \<noteq> GW_OK then Some (GW_ERR, c)
           else gw_frames (c\<lparr>g_rx := drop (nat used) (in_use c) @ drop (g_rxn c - nat used) (g_rx c), g_rxn := g_rxn c - nat used\<rparr>) }) }"
  by pat_completeness auto
termination
proof (relation "measure g_rxn", simp, goal_cases)
  case (1 c p used q buf fo c1 f p2 r c2)
  have p: "nc_ws_frame_parse (in_use c) = Some (used, buf, fo)" using 1(1-3) by simp
  have "0 < used" using 1(5,6) by simp
  then have "0 < g_rxn c" using parse_positive [OF p] by (auto simp: in_use_def)
  moreover have "g_rxn c2 = g_rxn c" using gw_frame_rxn [of f c1 r c2] 1(8,9) by (simp add: 1(4))
  ultimately show ?case using \<open>0 < used\<close> by simp
qed

declare gw_frames.simps [simp del]

definition pump_ws_in :: "gw_env \<Rightarrow> recv \<Rightarrow> gw_client \<Rightarrow> (int \<times> gw_client) option" where
  "pump_ws_in e r c =
     (if BUFCAP \<le> g_rxn c then Some (GW_ERR, c)
      else (case r of
          Again \<Rightarrow> Some (GW_OK, c)
        | Failed \<Rightarrow> Some (GW_ERR, c)
        | Got bs \<Rightarrow>
            if bs = [] then Some (GW_ERR, c)
            else
              let d = take (BUFCAP - g_rxn c) bs;
                  c = c\<lparr>g_rx := in_use c @ d @ drop (g_rxn c + length d) (g_rx c), g_rxn := g_rxn c + length d\<rparr> in
              if g_state c = CS_HANDSHAKE then gw_handshake e c else gw_frames c))"

text \<open>The results of \<open>recv\<close> until there is nothing more.\<close>

fun pump_udp_in :: "recv list \<Rightarrow> gw_client \<Rightarrow> (int \<times> gw_client) option" where
  "pump_udp_in [] c = Some (GW_OK, c)"
| "pump_udp_in (Again # rs) c = Some (GW_OK, c)"
| "pump_udp_in (Failed # rs) c = Some (GW_ERR, c)"
| "pump_udp_in (Got bs # rs) c =
     (if bs = [] then Some (GW_OK, c)
      else do {
        (fl, fr) \<leftarrow> nc_ws_frame_build (DGRAM_MAX + 16) NC_WS_BINARY (take DGRAM_MAX bs) None;
        pump_udp_in rs (if 0 < fl then send_all (take fl fr) c else c) })"

section \<open>The main loop\<close>

text \<open>Connections that are accepted take the first free slot; without one they are closed.\<close>

fun gw_accept :: "int list \<Rightarrow> gw_client list \<Rightarrow> gw_client list" where
  "gw_accept [] cs = cs"
| "gw_accept (fd # fds) cs =
     gw_accept fds (case find (\<lambda>i. g_state (cs ! i) = CS_FREE) [0..<length cs] of
         None \<Rightarrow> cs
       | Some i \<Rightarrow> cs[i := (cs ! i)\<lparr>g_state := CS_HANDSHAKE, g_ws_fd := fd, g_udp_fd := -1, g_rxn := 0, g_ws_out := [], g_udp_out := []\<rparr>])"

text \<open>The descriptors that are polled, with their client.\<close>

definition gw_polled :: "gw_client list \<Rightarrow> (nat \<times> int) list" where
  "gw_polled cs = concat (map (\<lambda>i.
     if g_state (cs ! i) = CS_FREE then []
     else (i, g_ws_fd (cs ! i)) # (if g_state (cs ! i) = CS_OPEN then [(i, g_udp_fd (cs ! i))] else [])) [0..<length cs])"

text \<open>One descriptor, with what \<open>recv\<close> gives when it is ready.\<close>

definition gw_serve :: "gw_env \<Rightarrow> nat \<times> int \<Rightarrow> recv list option \<Rightarrow> gw_client list \<Rightarrow> gw_client list option" where
  "gw_serve e k ready cs =
     (let (i, fd) = k; c = cs ! i in
      case ready of
        None \<Rightarrow> Some cs
      | Some rs \<Rightarrow>
          if g_state c = CS_FREE then Some cs
          else do {
            (drp, c) \<leftarrow> (if fd = g_ws_fd c then pump_ws_in e (case rs of [] \<Rightarrow> Again | r # _ \<Rightarrow> r) c else pump_udp_in rs c);
            Some (cs[i := (if drp \<noteq> 0 then client_close c else c)]) })"

fun gw_pass :: "gw_env \<Rightarrow> ((nat \<times> int) \<times> recv list option) list \<Rightarrow> gw_client list \<Rightarrow> gw_client list option" where
  "gw_pass e [] cs = Some cs"
| "gw_pass e ((k, ready) # ks) cs = do { cs \<leftarrow> gw_serve e k ready cs; gw_pass e ks cs }"

text \<open>One turn: the table of descriptors is made first, then connections are accepted, then the descriptors are served.\<close>

definition gw_turn :: "gw_env \<Rightarrow> int list \<Rightarrow> ((nat \<times> int) \<Rightarrow> recv list option) \<Rightarrow> gw_client list \<Rightarrow> gw_client list option" where
  "gw_turn e fds ready cs = gw_pass e (map (\<lambda>k. (k, ready k)) (gw_polled cs)) (gw_accept fds cs)"

end
