(* ===== verification/WS_Gateway_Props.thy ===== *)
theory WS_Gateway_Props
  imports WS_Gateway
begin

text \<open>
  What the gateway relays.  A browser's stream of frames is cut anywhere by \<open>recv\<close>; the datagrams are the payloads of the
  binary messages, each whole and in order.
\<close>

section \<open>A frame that has not arrived whole\<close>

lemma length_frame_bytes:
  assumes "\<forall>k. mask4 = Some k \<longrightarrow> length k = 4"
  shows "length (frame_bytes opc src mask4) = frame_hdr src mask4 + length src"
  using assms by (cases mask4) (simp_all add: frame_bytes_def frame_hdr_def length_len_bytes)

lemma rd8_prefix: "i < length p \<Longrightarrow> rd8 p i = rd8 (p @ q) i"
  by (simp add: rd8_def nth_append)

lemma parse_partial:
  assumes pq: "p @ q = frame_bytes opc src (Some k)" and q: "q \<noteq> []" and k: "length k = 4" and n: "length src \<le> 0xffff"
  shows "nc_ws_frame_parse p = Some (0, p, None)"
proof (cases "length p < 2")
  case False
  have "length (p @ q) = frame_hdr src (Some k) + length src" unfolding pq using k by (simp add: length_frame_bytes)
  then have len: "length p < frame_hdr src (Some k) + length src" using q by (cases q) auto
  have byte: "rd8 p i = rd8 (frame_bytes opc src (Some k)) i" if "i < length p" for i using rd8_prefix [OF that, of q] pq by simp
  have b0: "rd8 p 0 = Some (0x80 OR (opc AND 0x0f))" using byte [of 0] False by (cases p) (simp_all add: frame_bytes_def rd8_def)
  show ?thesis
  proof (cases "length src < 126")
    case True
    have b: "(of_nat (length src) :: u8) < 128" using True by (simp add: word_less_nat_alt unat_of_nat take_bit_nat_eq_self)
    have u: "ucast (of_nat (length src) :: u8) = (of_nat (length src) :: u64)"
      using True by (simp add: word_unat_eq_iff unsigned_ucast_eq unat_of_nat take_bit_nat_eq_self)
    have ne: "(of_nat (length src) :: u64) \<noteq> 126" "(of_nat (length src) :: u64) \<noteq> 127" and un: "unat (of_nat (length src) :: u64) = length src"
      using True by (auto simp: word_unat_eq_iff unat_of_nat take_bit_nat_eq_self)
    have b1: "rd8 p 1 = Some (0x80 OR of_nat (length src))" using byte [of 1] False True by (simp add: frame_bytes_def len_bytes_def rd8_def nth_append)
    have "length p < 6 + length src" using len True by (simp add: frame_hdr_def length_len_bytes)
    then show ?thesis using False True mbit_bits [OF b] unfolding nc_ws_frame_parse_def Let_def b0 b1 bind.bind_lunit
      by (simp add: u ne un)
  next
    case long: False
    have un: "unat (of_nat (length src) :: u64) = length src" using n by (simp add: unat_of_nat take_bit_nat_eq_self)
    have b1: "rd8 p 1 = Some (0x80 OR 126)" using byte [of 1] False long n by (simp add: frame_bytes_def len_bytes_def rd8_def)
    have m: "(0x80 OR 126 :: u8) AND 0x80 \<noteq> 0" "(0x80 OR 126 :: u8) AND 0x7f = 126" using mbit_bits [of 126] by simp_all
    have sz: "size_add 8 (length src) = 8 + length src" using n by simp
    have l: "length p < 8 + length src" using len long n by (simp add: frame_hdr_def length_len_bytes)
    show ?thesis
    proof (cases "length p < 4")
      case True
      then show ?thesis using False m unfolding nc_ws_frame_parse_def Let_def b0 b1 bind.bind_lunit by simp
    next
      case whole: False
      have b23: "rd8 p 2 = Some (ucast (drop_bit 8 (of_nat (length src) :: u64)))" "rd8 p 3 = Some (ucast (of_nat (length src) :: u64))"
        using byte [of 2] byte [of 3] whole long n by (simp_all add: frame_bytes_def len_bytes_def rd8_def)
      show ?thesis using False whole m l unfolding nc_ws_frame_parse_def Let_def b0 b1 b23 bind.bind_lunit
        by (simp add: plen16_join [OF n] un sz)
    qed
  qed
qed (simp add: nc_ws_frame_parse_def)

lemma unmask_keeps_length: "unmask buf h i n = Some buf' \<Longrightarrow> length buf' = length buf"
proof (induction n arbitrary: buf i)
  case (Suc n)
  then obtain v where "unmask (buf[h + i := v]) h (Suc i) n = Some buf'" by (auto simp: Option.bind_eq_Some_conv)
  then show ?case using Suc.IH by fastforce
qed simp

lemma post_bindI: "(\<And>x. m = Some x \<Longrightarrow> post (f x) P) \<Longrightarrow> post (m \<bind> f) P"
  by (cases m) simp_all

lemma parse_keeps_length: "post (nc_ws_frame_parse buf) (\<lambda>(r, buf', f). length buf' = length buf)"
proof -
  have u: "post ((if b then unmask buf h 0 n else Some buf) \<bind> (\<lambda>buf'. Some (r, buf', f))) (\<lambda>(r, buf', f). length buf' = length buf)" for b h n r f
    by (rule post_bindI) (auto dest: unmask_keeps_length split: if_splits)
  show ?thesis unfolding nc_ws_frame_parse_def Let_def
    by (auto simp only: u post_simps prod.case intro!: post_bindI split: option.split)
qed

section \<open>The frames of a browser\<close>

text \<open>A frame as its opcode, payload and masking key; the frames considered fit a datagram and do not close the connection.\<close>

type_synonym ws_msg = "u8 \<times> bytes \<times> bytes"

definition msg_ok :: "ws_msg \<Rightarrow> bool" where
  "msg_ok f \<longleftrightarrow> fst f < 16 \<and> fst f \<noteq> NC_WS_CLOSE \<and> length (fst (snd f)) \<le> DGRAM_MAX \<and> length (snd (snd f)) = 4"

definition msg_bytes :: "ws_msg \<Rightarrow> bytes" where
  "msg_bytes f = frame_bytes (fst f) (fst (snd f)) (Some (snd (snd f)))"

text \<open>What a frame is worth to the server, and what is answered.\<close>

definition to_udp :: "ws_msg \<Rightarrow> bytes list" where
  "to_udp f = (if fst f = NC_WS_BINARY \<and> fst (snd f) \<noteq> [] then [fst (snd f)] else [])"

definition to_ws :: "ws_msg \<Rightarrow> bytes" where
  "to_ws f = (if fst f = NC_WS_PING then frame_bytes NC_WS_PONG (fst (snd f)) None else [])"

lemma low_nibble: "(b :: u8) < 16 \<Longrightarrow> b AND 0x0f = b"
proof -
  assume "b < 16"
  then have "take_bit 4 b = b" by (simp add: take_bit_eq_mod mod_word_less)
  moreover have "b AND 0x0f = take_bit 4 b" by (simp add: take_bit_eq_mask mask_eq_exp_minus_1)
  ultimately show ?thesis by simp
qed

lemma hdr_bound: "length src \<le> DGRAM_MAX \<Longrightarrow> frame_hdr src None \<le> 4" "length src \<le> DGRAM_MAX \<Longrightarrow> frame_hdr src (Some k) \<le> 8"
  by (auto simp: frame_hdr_def length_len_bytes DGRAM_MAX_def)

lemma msg_length: "msg_ok f \<Longrightarrow> 0 < length (msg_bytes f) \<and> length (msg_bytes f) \<le> 2056"
  using hdr_bound(2) [of "fst (snd f)" "snd (snd f)"]
  by (simp add: msg_bytes_def length_frame_bytes msg_ok_def DGRAM_MAX_def frame_hdr_def)

lemma pong_built:
  assumes "length d \<le> DGRAM_MAX"
  shows "nc_ws_frame_build (DGRAM_MAX + 16) opc d None = Some (frame_hdr d None + length d, frame_bytes opc d None)"
    "take (frame_hdr d None + length d) (frame_bytes opc d None) = frame_bytes opc d None" "0 < frame_hdr d None"
  using hdr_bound(1) [OF assms] assms length_frame_bytes [of None opc d]
  by (simp_all add: build_frame DGRAM_MAX_def frame_hdr_def)

lemma rd_bytes_take: "take n (drop i xs) = d \<Longrightarrow> length d = n \<Longrightarrow> i + n \<le> length xs \<Longrightarrow> rd_bytes xs i n = Some d"
  by (simp add: rd_bytes_def)

text \<open>One whole frame is taken off the front of the buffer.\<close>

definition gw_fields :: "gw_client \<Rightarrow> gw_client \<Rightarrow> bytes list \<Rightarrow> bytes \<Rightarrow> bool" where
  "gw_fields c c' ds ws \<longleftrightarrow> g_state c' = g_state c \<and> length (g_rx c') = length (g_rx c) \<and> g_udp_out c' = g_udp_out c @ ds \<and>
     g_ws_out c' = g_ws_out c @ ws \<and> g_ws_fd c' = g_ws_fd c \<and> g_udp_fd c' = g_udp_fd c"

lemma gw_frames_step:
  assumes f: "msg_ok f" and use: "in_use c = msg_bytes f @ rest" and len: "g_rxn c \<le> length (g_rx c)"
  shows "\<exists>c'. gw_frames c = gw_frames c' \<and> in_use c' = rest \<and> g_rxn c' = length rest \<and> gw_fields c c' (to_udp f) (to_ws f)"
proof -
  obtain opc m k where [simp]: "f = (opc, m, k)" by (cases f)
  have m: "length m \<le> DGRAM_MAX" "length m < 2 ^ 63" "opc AND 0x0f = opc" "opc \<noteq> NC_WS_CLOSE" "length k = 4"
    using f by (simp_all add: msg_ok_def low_nibble DGRAM_MAX_def)
  define h where "h = frame_hdr m (Some k)"
  obtain buf where p: "nc_ws_frame_parse (in_use c) = Some (int (h + length m), buf, Some \<lparr>opcode = opc, fin = True, payload = h, payload_len = length m\<rparr>)"
    and d: "take (length m) (drop h buf) = m" "drop (h + length m) buf = rest"
    using parse_frame [of "Some k" m opc rest] m by (auto simp: use msg_bytes_def h_def)
  have rxn: "g_rxn c = h + length m + length rest"
    using arg_cong [OF use, of length] len m by (simp add: in_use_def msg_bytes_def length_frame_bytes h_def)
  have h0: "0 < h" by (simp add: h_def frame_hdr_def)
  have lb: "length buf = g_rxn c" using postD [OF parse_keeps_length p] len by (simp add: in_use_def)
  define c1 where "c1 = c\<lparr>g_rx := buf @ drop (g_rxn c) (g_rx c)\<rparr>"
  have u1: "in_use c1 = buf" by (simp add: c1_def in_use_def lb [symmetric])
  have rd: "rd_bytes (in_use c1) h (length m) = Some m" using d(1) lb rxn u1 by (intro rd_bytes_take) simp_all
  define c2 where "c2 = c1\<lparr>g_udp_out := g_udp_out c @ to_udp f, g_ws_out := g_ws_out c @ to_ws f\<rparr>"
  have g: "gw_frame \<lparr>opcode = opc, fin = True, payload = h, payload_len = length m\<rparr> c1 = Some (GW_OK, c2)"
    using m(1,4) pong_built [OF m(1)] rd
    by (auto simp: gw_frame_def c2_def c1_def to_udp_def to_ws_def send_all_def NC_WS_BINARY_def NC_WS_PING_def)
  define c3 where "c3 = c2\<lparr>g_rx := drop (h + length m) (in_use c2) @ drop (g_rxn c2 - (h + length m)) (g_rx c2), g_rxn := g_rxn c2 - (h + length m)\<rparr>"
  have u2: "in_use c2 = buf" "g_rxn c2 = g_rxn c" "g_rx c2 = buf @ drop (g_rxn c) (g_rx c)" using u1 by (simp_all add: c2_def c1_def in_use_def)
  have "gw_frames c = gw_frames c3"
    unfolding gw_frames.simps [of c] p bind.bind_lunit prod.case Let_def c1_def [symmetric] option.case g using h0
    by (simp add: GW_OK_def c3_def flip: of_nat_add)
  moreover have "in_use c3 = rest" "g_rxn c3 = length rest" using d(2) u2 rxn by (simp_all add: c3_def in_use_def)
  moreover have "gw_fields c c3 (to_udp f) (to_ws f)"
    using d(2) u2 rxn lb len by (simp add: gw_fields_def c3_def) (simp add: c2_def c1_def)
  ultimately show ?thesis by blast
qed

lemma gw_fields_trans: "gw_fields a b ds ws \<Longrightarrow> gw_fields b c ds' ws' \<Longrightarrow> gw_fields a c (ds @ ds') (ws @ ws')"
  by (simp add: gw_fields_def)

lemma gw_fields_refl: "gw_fields c (c\<lparr>g_rx := b\<rparr>) [] [] \<longleftrightarrow> length b = length (g_rx c)"
  by (simp add: gw_fields_def)

text \<open>The frames that are in the buffer whole are taken, and the start of the next stays.\<close>

lemma gw_frames_relay:
  assumes "\<forall>f\<in>set fs. msg_ok f" "in_use c @ later = concat (map msg_bytes fs)" "g_rxn c \<le> length (g_rx c)"
  shows "\<exists>ws rs c'. fs = ws @ rs \<and> gw_frames c = Some (GW_OK, c') \<and> in_use c' @ later = concat (map msg_bytes rs) \<and> g_rxn c' < 2056 \<and>
    g_rxn c' \<le> length (g_rx c') \<and> (later = [] \<longrightarrow> rs = []) \<and> gw_fields c c' (concat (map to_udp ws)) (concat (map to_ws ws))"
  using assms
proof (induction fs arbitrary: c)
  case Nil
  then have u: "in_use c = []" "later = []" by simp_all
  then have z: "g_rxn c = 0" using Nil.prems(3) by (auto simp: in_use_def)
  then have "gw_frames c = Some (GW_OK, c)" using u by (simp add: gw_frames.simps [of c] nc_ws_frame_parse_def)
  then show ?case using u z by (auto simp: gw_fields_def)
next
  case (Cons f fs)
  show ?case
  proof (cases "length (msg_bytes f) \<le> length (in_use c)")
    case True
    then have "take (length (msg_bytes f)) (in_use c) = msg_bytes f" using arg_cong [OF Cons.prems(2), of "take (length (msg_bytes f))"] by simp
    then obtain rest where u: "in_use c = msg_bytes f @ rest" by (metis append_take_drop_id)
    obtain c1 where c1: "gw_frames c = gw_frames c1" "in_use c1 = rest" "g_rxn c1 = length rest" "gw_fields c c1 (to_udp f) (to_ws f)"
      using gw_frames_step [OF _ u Cons.prems(3)] Cons.prems(1) by auto
    have l: "g_rxn c1 \<le> length (g_rx c1)"
      using c1(3,4) Cons.prems(3) arg_cong [OF u, of length] by (simp add: gw_fields_def in_use_def)
    obtain ws rs c' where "fs = ws @ rs" "gw_frames c1 = Some (GW_OK, c')" "in_use c' @ later = concat (map msg_bytes rs)" "g_rxn c' < 2056"
      "g_rxn c' \<le> length (g_rx c')" "later = [] \<longrightarrow> rs = []" "gw_fields c1 c' (concat (map to_udp ws)) (concat (map to_ws ws))"
      using Cons.IH [OF _ _ l] Cons.prems(1,2) u c1(2) by auto
    then show ?thesis using c1(1) gw_fields_trans [OF c1(4)] by (intro exI [of _ "f # ws"] exI [of _ rs] exI [of _ c']) simp
  next
    case False
    then have pre: "in_use c @ drop (length (in_use c)) (msg_bytes f) = msg_bytes f"
      using arg_cong [OF Cons.prems(2), of "take (length (in_use c))"] by (simp add: append_eq_conv_conj)
    have ok: "length (snd (snd f)) = 4" "length (fst (snd f)) \<le> 0xffff" "length (msg_bytes f) \<le> 2056"
      using Cons.prems(1) msg_length [of f] by (auto simp: msg_ok_def DGRAM_MAX_def)
    have "nc_ws_frame_parse (in_use c) = Some (0, in_use c, None)"
      using parse_partial [OF pre [unfolded msg_bytes_def] _ ok(1,2)] False by (simp add: msg_bytes_def)
    moreover have "c\<lparr>g_rx := in_use c @ drop (g_rxn c) (g_rx c)\<rparr> = c" by (simp add: in_use_def)
    ultimately have "gw_frames c = Some (GW_OK, c)" by (simp add: gw_frames.simps [of c])
    moreover have "later \<noteq> []" using False arg_cong [OF Cons.prems(2), of length] by auto
    moreover have "g_rxn c < 2056" using False ok(3) Cons.prems(3) by (simp add: in_use_def)
    ultimately show ?thesis using Cons.prems(2,3) by - (rule exI [of _ "[]"], rule exI [of _ "f # fs"], rule exI [of _ c], simp add: gw_fields_def)
  qed
qed

section \<open>Relaying\<close>

text \<open>
  The bytes of a connection: at each wake-up \<open>recv\<close> gives some of those that are left, at most as many as the buffer has room
  for, or says that there are none yet.
\<close>

fun gw_stream :: "gw_env \<Rightarrow> nat list \<Rightarrow> bytes \<Rightarrow> gw_client \<Rightarrow> (int \<times> bytes \<times> gw_client) option" where
  "gw_stream e [] s c = Some (GW_OK, s, c)"
| "gw_stream e (n # ns) s c = (let d = take (min (Suc n) (BUFCAP - g_rxn c)) s in do {
     (r, c) \<leftarrow> pump_ws_in e (if d = [] then Again else Got d) c;
     if r \<noteq> GW_OK then Some (r, s, c) else gw_stream e ns (drop (length d) s) c })"

lemma pump_relay:
  assumes fs: "\<forall>f\<in>set fs. msg_ok f" and s: "in_use c @ d @ later = concat (map msg_bytes fs)" and d: "d \<noteq> []" "g_rxn c + length d \<le> BUFCAP"
    and c: "g_state c = CS_OPEN" "length (g_rx c) = BUFCAP"
  shows "\<exists>ws rs c'. fs = ws @ rs \<and> pump_ws_in e (Got d) c = Some (GW_OK, c') \<and> in_use c' @ later = concat (map msg_bytes rs) \<and> g_rxn c' < 2056 \<and>
    (later = [] \<longrightarrow> rs = []) \<and> gw_fields c c' (concat (map to_udp ws)) (concat (map to_ws ws))"
proof -
  define c1 where "c1 = c\<lparr>g_rx := in_use c @ d @ drop (g_rxn c + length d) (g_rx c), g_rxn := g_rxn c + length d\<rparr>"
  have room: "g_rxn c < BUFCAP" using d by (cases d) auto
  then have p: "pump_ws_in e (Got d) c = gw_frames c1" using d c by (simp add: pump_ws_in_def Let_def c1_def)
  have len: "length (in_use c) = g_rxn c" using room c by (simp add: in_use_def)
  then have u: "in_use c1 = in_use c @ d" unfolding in_use_def [of c1] by (simp add: c1_def)
  have l: "length (g_rx c1) = BUFCAP" using len d c by (simp add: c1_def)
  then have l': "g_rxn c1 \<le> length (g_rx c1)" using d by (simp add: c1_def)
  have k: "gw_fields c c1 [] []" using l c by (simp add: gw_fields_def c1_def)
  have s1: "in_use c1 @ later = concat (map msg_bytes fs)" using s u by simp
  show ?thesis using gw_frames_relay [OF fs s1 l'] gw_fields_trans [OF k] unfolding p by fastforce
qed

lemma gw_stream_relay:
  assumes "\<forall>f\<in>set fs. msg_ok f" "in_use c @ s = concat (map msg_bytes fs)" "s = [] \<longrightarrow> fs = []" "g_rxn c < 2056" "g_state c = CS_OPEN" "length (g_rx c) = BUFCAP"
  shows "\<exists>ws rs s' c'. fs = ws @ rs \<and> gw_stream e ns s c = Some (GW_OK, s', c') \<and> in_use c' @ s' = concat (map msg_bytes rs) \<and>
    length s' \<le> length s - length ns \<and> (s' = [] \<longrightarrow> rs = []) \<and> gw_fields c c' (concat (map to_udp ws)) (concat (map to_ws ws))"
  using assms
proof (induction ns arbitrary: fs c s)
  case Nil
  then show ?case by - (rule exI [of _ "[]"], rule exI [of _ fs], rule exI [of _ s], rule exI [of _ c], simp add: gw_fields_def)
next
  case (Cons n ns)
  define d where "d = take (min (Suc n) (BUFCAP - g_rxn c)) s"
  have room: "0 < BUFCAP - g_rxn c" using Cons.prems(4) by (simp add: BUFCAP_def)
  show ?case
  proof (cases "s = []")
    case True
    then have "gw_stream e (n # ns) s c = gw_stream e ns s c" using room by (simp add: pump_ws_in_def)
    then show ?thesis using Cons.IH [OF Cons.prems] True by simp
  next
    case False
    have d: "d \<noteq> []" "g_rxn c + length d \<le> BUFCAP" "length (drop (length d) s) < length s"
      using False room by (auto simp: d_def)
    have sd: "s = d @ drop (length d) s" by (metis append_eq_conv_conj append_take_drop_id d_def)
    obtain ws rs c1 where w: "fs = ws @ rs" and p: "pump_ws_in e (Got d) c = Some (GW_OK, c1)"
      and k: "in_use c1 @ drop (length d) s = concat (map msg_bytes rs)" "g_rxn c1 < 2056" "drop (length d) s = [] \<longrightarrow> rs = []"
      and g: "gw_fields c c1 (concat (map to_udp ws)) (concat (map to_ws ws))"
      using pump_relay [OF Cons.prems(1) _ d(1,2) Cons.prems(5,6), of "drop (length d) s" e] Cons.prems(2) sd by metis
    have run: "gw_stream e (n # ns) s c = gw_stream e ns (drop (length d) s) c1" using p d(1) by (simp add: d_def [symmetric] Let_def)
    have c1: "g_state c1 = CS_OPEN" "length (g_rx c1) = BUFCAP" "\<forall>f\<in>set rs. msg_ok f" using g Cons.prems w by (simp_all add: gw_fields_def)
    obtain ws' rs' s' c' where "rs = ws' @ rs'" "gw_stream e ns (drop (length d) s) c1 = Some (GW_OK, s', c')" "in_use c' @ s' = concat (map msg_bytes rs')"
      "length s' \<le> length (drop (length d) s) - length ns" "s' = [] \<longrightarrow> rs' = []" "gw_fields c1 c' (concat (map to_udp ws')) (concat (map to_ws ws'))"
      using Cons.IH [OF c1(3) k(1,3,2) c1(1,2)] by blast
    then show ?thesis using run w gw_fields_trans [OF g] d(3)
      by - (rule exI [of _ "ws @ ws'"], rule exI [of _ rs'], rule exI [of _ s'], rule exI [of _ c'], simp, linarith?)
  qed
qed

lemma pump_udp_frames:
  assumes "\<forall>d\<in>set ds. d \<noteq> [] \<and> length d \<le> DGRAM_MAX"
  shows "pump_udp_in (map Got ds @ [Again]) c = Some (GW_OK, c\<lparr>g_ws_out := g_ws_out c @ concat (map (\<lambda>d. frame_bytes NC_WS_BINARY d None) ds)\<rparr>)"
  using assms by (induction ds arbitrary: c) (simp_all add: pong_built send_all_def)

lemma msgs_nonempty: "\<forall>f\<in>set fs. msg_ok f \<Longrightarrow> concat (map msg_bytes fs) = [] \<Longrightarrow> fs = []"
  using msg_length by (cases fs) auto

text \<open>
  C26: The gateway relays messages whole, in order and once.  A browser sends frames of up to 2048 bytes that do not close the
  connection.  However \<open>recv\<close> cuts their bytes, the gateway keeps the client, each wake-up takes at least one byte while there are any, and the datagrams given
  to the game server are the payloads of the first so many binary frames that are not empty, unchanged, each ping of
  them answered with a pong of its payload; when all bytes are taken these are all the frames.  In the other direction each
  datagram of the server becomes one binary frame, from which the frame parser gives the datagram back.
\<close>

theorem relay_exact:
  assumes "\<forall>f\<in>set fs. msg_ok f" "g_state c = CS_OPEN" "length (g_rx c) = BUFCAP" "g_rxn c = 0"
    "\<forall>d\<in>set ds. d \<noteq> [] \<and> length d \<le> DGRAM_MAX"
  shows "(\<exists>ws rs s' c'. fs = ws @ rs \<and> gw_stream e ns (concat (map msg_bytes fs)) c = Some (GW_OK, s', c') \<and>
      g_udp_out c' = g_udp_out c @ concat (map to_udp ws) \<and> g_ws_out c' = g_ws_out c @ concat (map to_ws ws) \<and> g_state c' = CS_OPEN \<and>
      length s' \<le> length (concat (map msg_bytes fs)) - length ns \<and> (s' = [] \<longrightarrow> rs = [])) \<and>
    pump_udp_in (map Got ds @ [Again]) c = Some (GW_OK, c\<lparr>g_ws_out := g_ws_out c @ concat (map (\<lambda>d. frame_bytes NC_WS_BINARY d None) ds)\<rparr>) \<and>
    (\<forall>d\<in>set ds. \<forall>rest. \<exists>buf'. nc_ws_frame_parse (frame_bytes NC_WS_BINARY d None @ rest) =
      Some (int (frame_hdr d None + length d), buf', Some \<lparr>opcode = NC_WS_BINARY, fin = True, payload = frame_hdr d None, payload_len = length d\<rparr>) \<and>
      take (length d) (drop (frame_hdr d None) buf') = d \<and> drop (frame_hdr d None + length d) buf' = rest)"
proof (intro conjI ballI allI)
  have u: "in_use c @ concat (map msg_bytes fs) = concat (map msg_bytes fs)" using assms(4) by (simp add: in_use_def)
  have z: "g_rxn c < 2056" using assms(4) by simp
  show "\<exists>ws rs s' c'. fs = ws @ rs \<and> gw_stream e ns (concat (map msg_bytes fs)) c = Some (GW_OK, s', c') \<and>
      g_udp_out c' = g_udp_out c @ concat (map to_udp ws) \<and> g_ws_out c' = g_ws_out c @ concat (map to_ws ws) \<and> g_state c' = CS_OPEN \<and>
      length s' \<le> length (concat (map msg_bytes fs)) - length ns \<and> (s' = [] \<longrightarrow> rs = [])"
    using gw_stream_relay [OF assms(1) u impI z assms(2,3), OF msgs_nonempty [OF assms(1)], of e ns] assms(2) unfolding gw_fields_def by metis
  show "pump_udp_in (map Got ds @ [Again]) c = Some (GW_OK, c\<lparr>g_ws_out := g_ws_out c @ concat (map (\<lambda>d. frame_bytes NC_WS_BINARY d None) ds)\<rparr>)"
    by (rule pump_udp_frames [OF assms(5)])
  fix d rest assume "d \<in> set ds"
  then have "length d < 2 ^ 63" using assms(5) by (auto simp: DGRAM_MAX_def dest!: bspec)
  then show "\<exists>buf'. nc_ws_frame_parse (frame_bytes NC_WS_BINARY d None @ rest) =
      Some (int (frame_hdr d None + length d), buf', Some \<lparr>opcode = NC_WS_BINARY, fin = True, payload = frame_hdr d None, payload_len = length d\<rparr>) \<and>
      take (length d) (drop (frame_hdr d None) buf') = d \<and> drop (frame_hdr d None + length d) buf' = rest"
    using parse_frame [of None d NC_WS_BINARY rest] low_nibble [of NC_WS_BINARY] by (simp add: NC_WS_BINARY_def)
qed

theorem relay_exact_witness:
  "\<exists>c s' c'. gw_stream \<lparr>ge_udp = 5, ge_docroot = [], ge_files = (\<lambda>_. None), ge_junk = []\<rparr> (replicate 13 0)
      (msg_bytes (NC_WS_BINARY, [7], [1, 2, 3, 4]) @ msg_bytes (NC_WS_PING, [], [1, 2, 3, 4])) c = Some (GW_OK, s', c') \<and> g_udp_out c' = [[7]] \<and>
    g_ws_out c' = frame_bytes NC_WS_PONG [] None \<and> g_udp_out c = []"
proof -
  define c where "c = \<lparr>g_state = CS_OPEN, g_ws_fd = 3, g_udp_fd = 4, g_rx = replicate BUFCAP 0, g_rxn = 0, g_ws_out = [], g_udp_out = []\<rparr>"
  define fs where "fs = [(NC_WS_BINARY, [7 :: u8], [1, 2, 3, 4]), (NC_WS_PING, [], [1, 2, 3, 4 :: u8])]"
  have ok: "\<forall>f\<in>set fs. msg_ok f" by (simp add: fs_def msg_ok_def DGRAM_MAX_def NC_WS_BINARY_def NC_WS_PING_def NC_WS_CLOSE_def)
  have c: "g_state c = CS_OPEN" "length (g_rx c) = BUFCAP" "g_rxn c = 0" by (simp_all add: c_def)
  have l: "length (concat (map msg_bytes fs)) = 13" by (simp add: fs_def msg_bytes_def length_frame_bytes frame_hdr_def length_len_bytes)
  obtain ws rs s' c' where r: "fs = ws @ rs"
    "gw_stream \<lparr>ge_udp = 5, ge_docroot = [], ge_files = (\<lambda>_. None), ge_junk = []\<rparr> (replicate 13 0) (concat (map msg_bytes fs)) c = Some (GW_OK, s', c')"
    "g_udp_out c' = g_udp_out c @ concat (map to_udp ws)" "g_ws_out c' = g_ws_out c @ concat (map to_ws ws)" "length s' \<le> 13 - length (replicate 13 (0 :: nat))" "s' = [] \<longrightarrow> rs = []"
    using relay_exact [OF ok c, of "[]" "\<lparr>ge_udp = 5, ge_docroot = [], ge_files = (\<lambda>_. None), ge_junk = []\<rparr>" "replicate 13 0"] unfolding l by auto
  have ws: "ws = fs" using r(1,5,6) by simp
  show ?thesis using r(2-4) unfolding ws
    by (intro exI [of _ c] exI [of _ s'] exI [of _ c'])
      (simp add: fs_def, simp add: c_def to_udp_def to_ws_def NC_WS_BINARY_def NC_WS_PING_def)
qed

end
