(* ===== verification/Spec2Isabelle.thy ===== *)
theory Spec2Isabelle
  imports NC_Reliable NC_Udp MC_Props Beacon_Props WS_Frame WS_Handshake Auth_Framer Auth_Login Auth_Answers Crypto_Props Iox_Loop_Props Keystore_Props Auth_Link_Props Thor_Stream Thor_Server Secure_Link_Props WS_Gateway_Props
begin

text \<open>
  \<^bold>\<open>netchan\<close> is a C library for game networking: reliable and unreliable message channels over
  datagrams, with the transports and services around it.  This development models its C code and
  proves what makes it correct.

  \<^bold>\<open>The parts and how they meet.\<close>

  \<^item> The protocol core (\<open>src/src/netchan.c\<close>, \<open>netchan.h\<close>, \<open>nc_addr.h\<close>): a connection with channels, a pool of
    message buffers, fragmentation, acknowledgement, retransmission, an event queue.  It does no
    I/O: datagrams go in through \<open>netchan_feed\<close> and come out of \<open>netchan_send_next\<close>.
  \<^item> \<open>microchan\<close> (\<open>src/microchan/src/microchan.c\<close>): a smaller protocol of the same shape, with one go-back-N window.
  \<^item> The encrypted transport (\<open>src/crypto/nc_crypto.c\<close>) wraps the datagrams of the core.  Its session id is what
    the login signs.
  \<^item> The login conversation (\<open>src/auth/nc_auth.c\<close>, \<open>nc_auth_ia.c\<close>): key, password or a form to fill in; its messages
    travel over a channel, framed by \<open>nc_auth_framer\<close>, and its fields are encoded by \<open>microser\<close>.
  \<^item> The tagged encoding \<open>microser\<close> (\<open>src/idl/microser.h\<close>), used by the login and by the discovery beacon
    (\<open>src/discovery/nc_beacon.c\<close>).
  \<^item> The WebSocket codec (\<open>src/transport/nc_ws.c\<close>) and the packing of socket addresses (\<open>src/transport/nc_udp.c\<close>).

  \<^bold>\<open>Conventions.\<close>  A structure is a record, an enumeration a datatype or a group of constants with the
  source's names, a fixed-width unsigned integer a word, so that arithmetic wraps as in C; \<open>size_t\<close> is
  \<open>nat\<close>, with \<open>size_sub\<close> and \<open>size_add\<close> where the code can wrap it (64-bit).  Every access to a buffer is checked, and an access
  outside it, or another undefined operation, is the outer \<open>None\<close> of the option monad: a theorem that a call
  returns \<open>Some\<close> is a memory-safety theorem.  Return codes of the source are integers, as in C.  Clock,
  entropy, application callbacks and the cryptographic library are arguments; what is assumed of the
  library is a named hypothesis (\<open>lib_ok\<close>).

  \<^bold>\<open>Theories.\<close>

  \<^item> \<open>Prelude\<close>: byte buffers, big-endian access, flat memory, the predicate \<open>ok\<close> for calls without undefined behaviour,
    C strings.  \<open>Ring_Queue\<close>: ring buffers, the interface \<open>bounded_fifo\<close> and its laws.
  \<^item> The core as it is written: \<open>NC_Types\<close> (data), \<open>NC_Pool\<close> (buffer pool, interface \<open>buffer_pool\<close>), \<open>NC_Events\<close> (event and
    control queues), \<open>NC_Channel\<close> (channels, reassembly), \<open>NC_Frames\<close> (every frame handler, the parser,
    \<open>netchan_feed\<close>), \<open>NC_Send\<close> (\<open>netchan_send_next\<close>, \<open>netchan_service\<close>), \<open>NC_Api\<close> (the public calls).
  \<^item> Facts about the core: \<open>NC_Codec\<close> (each frame written is read back), \<open>NC_Invariant\<close> (\<open>conn_wf\<close>: every
    buffer index is in exactly one place, indices and lengths are in bounds), \<open>NC_Safety\<close>,
    \<open>NC_Feed_Safe\<close>, \<open>NC_Send_Safe\<close>, \<open>NC_Lifecycle\<close> (every operation keeps the invariant and is free of undefined behaviour, for any
    sequence of calls), \<open>NC_Overflow\<close> (the bound on datagrams that safety needs), \<open>NC_Close\<close> (all buffers come back),
    \<open>NC_Delivery\<close> and \<open>NC_Inorder\<close> (receive queue as a FIFO, in-order exactly-once delivery),
    \<open>NC_Handshake\<close> (two endpoints connect), \<open>NC_Acks\<close> (what an acknowledgement releases),
    \<open>NC_Fragments\<close> and \<open>NC_Sender\<close> (messages are cut and put together again), \<open>NC_Udp\<close> (addresses).
  \<^item> \<open>MC_Core\<close> is \<open>microchan.c\<close>; \<open>MC_Safe\<close>, \<open>MC_Window\<close>, \<open>MC_Gbn\<close> and \<open>MC_Props\<close> show safety, the send window as a
    bounded queue, and in-order delivery between two endpoints over a network that loses, repeats and reorders.
  \<^item> \<open>Microser\<close>, \<open>Beacon\<close>, \<open>Beacon_Props\<close>: the tagged encoding and the discovery packet, round trips and a safe parser.
  \<^item> \<open>WS_Hash\<close>, \<open>WS_Handshake\<close>, \<open>WS_Frame\<close>: SHA-1 in pieces against the block-wise definition, base64, the
    upgrade handshake of both sides, frames.
  \<^item> \<open>Auth_Text\<close>, \<open>Auth_Form\<close>, \<open>Auth_Core\<close>: strings and framing, forms and answers, the conversation.  \<open>Auth_Framer\<close>
    (interface \<open>message_stream\<close>), \<open>Auth_Safe\<close> (the server on any input), \<open>Auth_Login\<close> (a whole login),
    \<open>Auth_Answers\<close> (answers arrive as given).
  \<^item> \<open>Crypto_Session\<close> is \<open>nc_crypto.c\<close>; \<open>Crypto_Props\<close> has the replay window (interface \<open>replay_filter\<close>), the agreement
    of two ends, delivery of sealed datagrams and safety on any input.

  \<^bold>\<open>Loops.\<close>  Loops are structural recursion or recursion with a measure, so they end.  Two guards stand for the
  progress of a loop over a packet: \<open>tag_fields\<close> and the beacon's \<open>parse_loop\<close> stop with an undefined result if a
  turn does not advance, and are proved never to.  \<open>sha1_pad\<close> takes 63 as fuel, the longest padding.  A drain of the framer
  takes as fuel the number of bytes it holds; each message takes at least three of them.

  \<^bold>\<open>Bounds in the theorems.\<close>  Safety of \<open>netchan_feed\<close> holds for datagrams at least two bytes shorter than the MTU;
  \<open>netchan_feed_overflow\<close> shows that some bound is needed.  Safety of \<open>mc_send_next\<close> needs a buffer of 12 bytes, and
  \<open>mc_send_overflow\<close> shows why.  Reliable delivery of microchan assumes that no datagram is delivered after more than
  32768 later messages, as sequence numbers have 16 bits.

  \<^bold>\<open>Not modelled.\<close>  The key store (\<open>src/auth/keystore.c\<close>: files), the transports of microchan (sockets, DOS
  interrupts), the generator of \<open>microser\<close> code (awk), the example programs and games, the vendored
  cryptography, the tests.  Of the core and microchan, \<open>malloc\<close> is taken to succeed.

  \<^bold>\<open>Plan.\<close>  The round trip of forms (as for answers), liveness of reliable delivery in both protocols, the parts of the
  key store that are not file access, the priority queue of the example event loop.
\<close>

section \<open>Encryption and login together\<close>

text \<open>
  C6: A login over an encrypted session.  Two ends set up by \<open>nc_crypto_init\<close> that accept each other's
  identity exchange their greetings and agree on a session id, and each can open what the other seals.
  A client whose key the server knows then logs in with the session id of its end, the server using the session
  id of the other: both sides end in \<open>OK\<close> and the server knows the user name.  The assumptions on the
  cryptography are those of \<open>lib_ok\<close>, that the shared secret is not zero, and that signatures made with the secret
  key check under the public one.
\<close>

theorem secure_login:
  assumes "lib_ok lib"
    and "nc_crypto_init lib rnd 0 cfg = Some (NC_CRYPTO_OK, i)" "nc_crypto_init lib rnd' 1 cfg' = Some (NC_CRYPTO_OK, r)"
    and "k_psk i = k_psk r" "takes i (identity r)" "takes r (identity i)"
    and "have_static i \<longrightarrow> static_pk i \<noteq> zero32" "have_static r \<longrightarrow> static_pk r \<noteq> zero32"
    and "x25519 lib (eph_sk i) (eph_pk r) \<noteq> zero32"
    and "length user \<le> 64" "0 \<notin> set user" "length pk = 32"
    and "cb_methods e = Some f" "f user = NC_AUTH_M_PUBKEY \<or> f user = NC_AUTH_M_PUBKEY OR NC_AUTH_M_PASSWORD"
    and "cb_check_key e = Some g" "g user pk"
    and "\<forall>d. length (crypto_eddsa_sign e sk d) = 64 \<and> crypto_eddsa_check e (crypto_eddsa_sign e sk d) pk d"
  shows "\<exists>hi hr i' r' sid c s. nc_crypto_handshake_packet i 65 = Some (65, hi) \<and> nc_crypto_handshake_packet r 65 = Some (65, hr) \<and>
     nc_crypto_open lib i hr cap = Some (0, [], i') \<and> nc_crypto_open lib r hi cap' = Some (0, [], r') \<and> linked i' r' \<and> linked r' i' \<and>
     nc_crypto_session_id i' = Some sid \<and> nc_crypto_session_id r' = Some sid \<and>
     login e sid sid user sk pk pw = Some (c, s) \<and> nc_auth_user s = user \<and> a_state c = NC_AUTH_STATE_OK \<and> a_state s = NC_AUTH_STATE_OK"
proof -
  obtain hi hr i' r' sid where hs: "nc_crypto_handshake_packet i 65 = Some (65, hi)" "nc_crypto_handshake_packet r 65 = Some (65, hr)"
    "nc_crypto_open lib i hr cap = Some (0, [], i')" "nc_crypto_open lib r hi cap' = Some (0, [], r')"
    "nc_crypto_session_id i' = Some sid" "nc_crypto_session_id r' = Some sid" "linked i' r'" "linked r' i'"
    using session_agrees [OF assms(1-9), of cap cap'] by blast
  define sig where "sig = crypto_eddsa_sign e sk (nc_auth_signed_digest e sid user pk)"
  have m: "f user = 1 \<or> f user = 3" using assms(14) by (auto simp: method_defs)
  have "length sig = 64" "key_good e sid user pk sig" using assms(15-17) by (simp_all add: sig_def key_good_def)
  from login_key_accepted [OF assms(10-13) refl m sig_def this] hs show ?thesis by blast
qed

theorem secure_login_witness:
  "\<exists>i' r' sid e c s. nc_crypto_session_id i' = Some sid \<and> nc_crypto_session_id r' = Some sid \<and>
     linked i' r' \<and> linked r' i' \<and> login e sid sid [65] [1] (replicate 32 2) [] = Some (c, s) \<and> nc_auth_user s = [65] \<and> a_state c = NC_AUTH_STATE_OK \<and> a_state s = NC_AUTH_STATE_OK"
proof -
  define i where "i = crypto_zero\<lparr>k_role := 0, eph_sk := replicate 32 5, eph_pk := replicate 32 5\<rparr>"
  define r where "r = crypto_zero\<lparr>k_role := 1, eph_sk := replicate 32 6, eph_pk := replicate 32 6\<rparr>"
  define e where "e = \<lparr>cb_methods = Some (\<lambda>u. NC_AUTH_M_PUBKEY), cb_check_key = Some (\<lambda>u k. u = [65]), cb_check_password = None,
    cb_begin = None, cb_submit = None, cb_resume = None, cb_cancelled = False, crypto_blake2b = (\<lambda>n m. take n m),
    crypto_eddsa_sign = (\<lambda>k m. replicate 64 (hd k)), crypto_eddsa_check = (\<lambda>s k m. s = replicate 64 1)\<rparr>"
  have n: "nc_crypto_init demo_lib (0, replicate 32 5) 0 None = Some (NC_CRYPTO_OK, i)"
      "nc_crypto_init demo_lib (0, replicate 32 6) 1 None = Some (NC_CRYPTO_OK, r)"
    by (simp_all add: nc_crypto_init_def i_def r_def NC_CRYPTO_OK_def demo_lib_def crypto_zero_def)
  have h: "k_psk i = k_psk r" "takes i (identity r)" "takes r (identity i)" "have_static i \<longrightarrow> static_pk i \<noteq> zero32"
      "have_static r \<longrightarrow> static_pk r \<noteq> zero32" "x25519 demo_lib (eph_sk i) (eph_pk r) \<noteq> zero32"
    by (simp_all add: i_def r_def crypto_zero_def takes_def demo_lib_def zero32_def)
  have u: "length [65 :: u8] \<le> 64" "0 \<notin> set [65 :: u8]" "length (replicate 32 (2 :: u8)) = 32" by simp_all
  have f: "cb_methods e = Some (\<lambda>u. NC_AUTH_M_PUBKEY)" "(\<lambda>u. NC_AUTH_M_PUBKEY) [65 :: u8] = NC_AUTH_M_PUBKEY \<or>
      (\<lambda>u. NC_AUTH_M_PUBKEY) [65 :: u8] = NC_AUTH_M_PUBKEY OR NC_AUTH_M_PASSWORD" "cb_check_key e = Some (\<lambda>u k. u = [65])"
      "(\<lambda>u k. u = [65]) [65 :: u8] (replicate 32 (2 :: u8))"
    by (simp_all add: e_def)
  have g: "\<forall>d. length (crypto_eddsa_sign e [1] d) = 64 \<and> crypto_eddsa_check e (crypto_eddsa_sign e [1] d) (replicate 32 2) d"
    by (simp add: e_def)
  show ?thesis using secure_login [OF demo_lib_ok n h u f g, of 0 0 "[]"] by blast
qed

end
